(* ===== verification/Prelude.thy ===== *)
theory Prelude imports Main "HOL-Library.Word" "HOL-Library.Monad_Syntax" begin

text \<open>
  Shared vocabulary of the development: the type synonyms for Go's machine types, the shape of
  a Go result, and the generic lemmas on lists, options and words that the component theories
  use.

  A Go function that can stop with a run-time panic (an index or a slice bound out of range) is
  an \<^typ>\<open>'a option\<close> whose \<^const>\<open>None\<close> is the panic. A Go method that returns \<open>(int, error)\<close>
  and may change its receiver returns the receiver, the count and the error, under that option.
  Go's \<open>int\<close> is \<^typ>\<open>int\<close>: every count in the modelled code is bounded by a buffer length, far
  below \<open>2 ^ 63\<close>; the conversions that do truncate (\<open>int32(x)\<close>, \<open>uint16(n)\<close>) are written out.
\<close>

unbundle bit_operations_syntax

type_synonym byte = "8 word"
type_synonym bytes = "byte list"

text \<open>\<open>bytes_of\<close> gives the bytes of a Go string constant.\<close>

definition bytes_of :: "string \<Rightarrow> bytes" where
  "bytes_of s = map of_char s"

text \<open>\<open>decimal n\<close> and \<open>itoa i\<close> are the texts of a number, as \<open>%d\<close> prints it.\<close>

fun decimal :: "nat \<Rightarrow> bytes" where
  "decimal n = (if n < 10 then [] else decimal (n div 10)) @ [of_nat (48 + n mod 10)]"

declare decimal.simps [simp del]

definition itoa :: "int \<Rightarrow> bytes" where
  "itoa i = (if i < 0 then bytes_of ''-'' @ decimal (nat (- i)) else decimal (nat i))"

named_theorems go_defs \<open>definitions of Go's primitive operations\<close>
named_theorems wire \<open>what a writer leaves in its buffer, and what a reader takes from it\<close>

section \<open>Results with an error\<close>

text \<open>
  \<open>ret_bind\<close> is the code's idiom \<open>n, err := f(...); if err != nil { return ... }\<close>: it goes on
  with the receiver and the running count when \<open>f\<close> returned no error, and stops with what \<open>f\<close>
  returned otherwise.
\<close>

type_synonym ('m, 'e) ret = "('m \<times> int \<times> 'e option) option"

definition ret_bind :: "('m, 'e) ret \<Rightarrow> ('m \<Rightarrow> int \<Rightarrow> ('m, 'e) ret) \<Rightarrow> ('m, 'e) ret" where
  "ret_bind r k =
     (case r of
        None \<Rightarrow> None
      | Some (m, n, None) \<Rightarrow> k m n
      | Some (m, n, Some e) \<Rightarrow> Some (m, n, Some e))"

lemma ret_bind_simps [simp]:
  "ret_bind None k = None"
  "ret_bind (Some (m, n, None)) k = k m n"
  "ret_bind (Some (m, n, Some e)) k = Some (m, n, Some e)"
  by (simp_all add: ret_bind_def)

lemma ret_bind_ok_iff:
  "ret_bind r k = Some (m, n, None) \<longleftrightarrow>
     (\<exists>m' n'. r = Some (m', n', None) \<and> k m' n' = Some (m, n, None))"
  by (auto simp: ret_bind_def split: option.splits)

section \<open>Integer conversions\<close>

text \<open>\<open>int32(x)\<close> of a Go \<open>int\<close> keeps the low 32 bits, read in two's complement.\<close>

definition to_int32 :: "int \<Rightarrow> int" where
  "to_int32 i = signed_take_bit 31 i"

lemma to_int32_id: "- (2 ^ 31) \<le> i \<Longrightarrow> i < 2 ^ 31 \<Longrightarrow> to_int32 i = i"
  by (simp add: to_int32_def signed_take_bit_int_eq_self)

lemma to_int32_le: "to_int32 i < 2 ^ 31"
  unfolding to_int32_def by (rule signed_take_bit_int_less_exp)

section \<open>Lists\<close>

text \<open>
  \<open>wr w dst\<close> is the buffer \<open>dst\<close> after the bytes \<open>w\<close> have been written at its start. Every
  encoder of the program fills its buffer from the left, so its effect is \<open>wr\<close> of what it
  emitted.
\<close>

definition wr :: "'a list \<Rightarrow> 'a list \<Rightarrow> 'a list" where
  "wr w dst = w @ drop (length w) dst"

lemma wr_Nil [simp]: "wr [] dst = dst"
  by (simp add: wr_def)

lemma length_wr [simp]: "length w \<le> length dst \<Longrightarrow> length (wr w dst) = length dst"
  by (simp add: wr_def)

lemma take_wr [simp]: "take (length w) (wr w dst) = w"
  by (simp add: wr_def)

lemma drop_wr [simp]: "drop (length w) (wr w dst) = drop (length w) dst"
  by (simp add: wr_def)

lemma wr_append_drop: "take (length w) (wr w dst) @ wr v (drop (length w) (wr w dst)) = wr (w @ v) dst"
  by (simp add: wr_def add.commute)

lemma wr_exact: "length w = length dst \<Longrightarrow> wr w dst = w"
  by (simp add: wr_def)

lemma drop_append_length: "n = length xs \<Longrightarrow> drop n (xs @ ys) = ys"
  by simp

lemma nth_append_mid: "n = length xs \<Longrightarrow> (xs @ y # ys) ! n = y"
  by simp

end
