(* ===== verification/Go_Slices.thy ===== *)
theory Go_Slices imports Prelude begin

text \<open>
  The part of Go's slices and of \<open>encoding/binary\<close> the message codec uses: slicing with its
  bounds checks, \<open>copy\<close>, big-endian 16-bit integers and unsigned varints, and the two
  length-prefixed string routines of \<open>tools/surgemq/message/message.go\<close>.

  A slice is the bytes up to its length and the spare bytes up to its capacity. This matters:
  Go checks \<open>s[i:j]\<close> against the \<^emph>\<open>capacity\<close>, so a reader with a wrong length check reads
  bytes past the end of its slice before it panics.
\<close>

section \<open>Slices\<close>

datatype slice = Slice (sdata: bytes) (sspare: bytes)

definition slen :: "slice \<Rightarrow> int" where
  "slen s = int (length (sdata s))"

definition scap :: "slice \<Rightarrow> int" where
  "scap s = int (length (sdata s) + length (sspare s))"

definition sfull :: "slice \<Rightarrow> bytes" where
  "sfull s = sdata s @ sspare s"

text \<open>\<open>s[i:]\<close>, \<open>s[i:j]\<close> and \<open>s[i]\<close>; \<^const>\<open>None\<close> is the run-time panic.\<close>

definition slice_from :: "slice \<Rightarrow> int \<Rightarrow> slice option" where
  "slice_from s i =
     (if 0 \<le> i \<and> i \<le> slen s then Some (Slice (drop (nat i) (sdata s)) (sspare s)) else None)"

definition slice_range :: "slice \<Rightarrow> int \<Rightarrow> int \<Rightarrow> slice option" where
  "slice_range s i j =
     (if 0 \<le> i \<and> i \<le> j \<and> j \<le> scap s
      then Some (Slice (take (nat (j - i)) (drop (nat i) (sfull s))) (drop (nat j) (sfull s)))
      else None)"

definition slice_index :: "slice \<Rightarrow> int \<Rightarrow> byte option" where
  "slice_index s i = (if 0 \<le> i \<and> i < slen s then Some (sdata s ! nat i) else None)"

text \<open>A slice with no spare capacity, the result of \<open>make([]byte, n)\<close> filled with \<open>bs\<close>.\<close>

definition exact :: "bytes \<Rightarrow> slice" where
  "exact bs = Slice bs []"

text \<open>
  Destination buffers are lists: an encoder only writes inside the length it was given.
  \<open>copy_at dst i src\<close> is \<open>copy(dst[i:], src)\<close>, \<open>set_at dst i b\<close> is \<open>dst[i] = b\<close>.
\<close>

definition copy_at :: "'a list \<Rightarrow> int \<Rightarrow> 'a list \<Rightarrow> ('a list \<times> int) option" where
  "copy_at dst i src =
     (if 0 \<le> i \<and> i \<le> int (length dst)
      then let n = min (length dst - nat i) (length src)
           in Some (take (nat i) dst @ take n src @ drop (nat i + n) dst, int n)
      else None)"

definition set_at :: "'a list \<Rightarrow> int \<Rightarrow> 'a \<Rightarrow> 'a list option" where
  "set_at dst i b = (if 0 \<le> i \<and> i < int (length dst) then Some (dst[nat i := b]) else None)"

text \<open>
  \<open>make([]byte, n)\<close>; and \<open>s[i]\<close> and \<open>s[i:j]\<close> on a slice without spare capacity, such as the ring
  buffers, as a list.
\<close>

definition make_bytes :: "int \<Rightarrow> bytes option" where
  "make_bytes n = (if n < 0 then None else Some (replicate (nat n) 0))"

definition get_at :: "'a list \<Rightarrow> int \<Rightarrow> 'a option" where
  "get_at xs i = (if 0 \<le> i \<and> i < int (length xs) then Some (xs ! nat i) else None)"

definition sub_list :: "'a list \<Rightarrow> int \<Rightarrow> int \<Rightarrow> 'a list option" where
  "sub_list xs i j =
     (if 0 \<le> i \<and> i \<le> j \<and> j \<le> int (length xs)
      then Some (take (nat (j - i)) (drop (nat i) xs)) else None)"

lemma make_bytes_int [simp]: "make_bytes (int n) = Some (replicate n 0)"
  by (simp add: make_bytes_def)

text \<open>Calling a writer on the sub-slice \<open>dst[i:]\<close>: what it writes shows in \<open>dst\<close>.\<close>

definition on_suffix :: "bytes \<Rightarrow> int \<Rightarrow> (bytes \<Rightarrow> (bytes \<times> 'r) option) \<Rightarrow> (bytes \<times> 'r) option" where
  "on_suffix dst i f =
     (if 0 \<le> i \<and> i \<le> int (length dst)
      then (case f (drop (nat i) dst) of
              None \<Rightarrow> None
            | Some (d, r) \<Rightarrow> Some (take (nat i) dst @ d, r))
      else None)"

lemmas slice_defs = slice_from_def slice_range_def slice_index_def slen_def scap_def sfull_def

lemma slice_from_split [wire]:
  "i = int (length p) \<Longrightarrow> slice_from (Slice (p @ r) sp) i = Some (Slice r sp)"
  by (simp add: slice_defs)

lemma slice_from_0 [simp]: "slice_from s 0 = Some s"
  by (cases s) (simp add: slice_defs)

lemma slice_index_split [wire]:
  "i = int (length p) \<Longrightarrow> slice_index (Slice (p @ b # r) sp) i = Some b"
  by (simp add: slice_defs)

lemma slice_range_split [wire]:
  "i = int (length p) \<Longrightarrow> j = int (length p + length q) \<Longrightarrow>
   slice_range (Slice (p @ q @ r) sp) i j = Some (Slice q (r @ sp))"
  by (simp add: slice_defs)

lemma slice_range_tail [wire]:
  "i = int (length p) \<Longrightarrow> j = int (length p + length q) \<Longrightarrow>
   slice_range (Slice (p @ q) sp) i j = Some (Slice q sp)"
  by (simp add: slice_defs)

lemma copy_at_wr [wire]:
  "i = int (length w) \<Longrightarrow> length w + length src \<le> length dst \<Longrightarrow>
   copy_at (wr w dst) i src = Some (wr (w @ src) dst, int (length src))"
  by (auto simp: copy_at_def wr_def min_def Let_def add.commute)

lemma set_at_wr [wire]:
  "i = int (length w) \<Longrightarrow> length w < length dst \<Longrightarrow>
   set_at (wr w dst) i b = Some (wr (w @ [b]) dst)"
  by (auto simp: set_at_def wr_def list_update_append Cons_nth_drop_Suc [symmetric])

lemma on_suffix_wr [wire]:
  "i = int (length w) \<Longrightarrow> length w \<le> length dst \<Longrightarrow>
   f (drop (length w) dst) = Some (wr v (drop (length w) dst), r) \<Longrightarrow>
   on_suffix (wr w dst) i f = Some (wr (w @ v) dst, r)"
  by (auto simp: on_suffix_def wr_def add.commute)

section \<open>Big-endian 16-bit integers\<close>

text \<open>\<open>binary.BigEndian.PutUint16\<close> and \<open>binary.BigEndian.Uint16\<close>, which panics on a short slice.\<close>

definition put_be16 :: "16 word \<Rightarrow> bytes" where
  "put_be16 v = [ucast (drop_bit 8 v), ucast v]"

fun be16 :: "bytes \<Rightarrow> 16 word option" where
  "be16 (a # b # _) = Some (push_bit 8 (ucast a) OR ucast b)"
| "be16 _ = None"

lemma length_put_be16 [simp]: "length (put_be16 v) = 2"
  by (simp add: put_be16_def)

lemma be16_put_be16 [wire]: "be16 (put_be16 v @ r) = Some v"
proof -
  have "push_bit 8 (ucast (ucast (drop_bit 8 v) :: byte)) OR ucast (ucast v :: byte) = v"
    by (rule bit_word_eqI) (auto simp: bit_simps)
  then show ?thesis by (simp add: put_be16_def)
qed

lemma be16_put_be16' [wire]: "be16 (put_be16 v) = Some v"
  using be16_put_be16 [of v "[]"] by simp

lemma be16_None_iff: "be16 bs = None \<longleftrightarrow> length bs < 2"
  by (cases bs rule: be16.cases) auto

section \<open>Unsigned varints\<close>

text \<open>
  \<open>binary.PutUvarint\<close> writes seven bits per byte, least significant group first, with the
  top bit set on all but the last byte; it panics when the buffer is too short.
\<close>

fun uvarint_bytes :: "nat \<Rightarrow> bytes" where
  "uvarint_bytes x =
     (if x < 128 then [of_nat x] else (of_nat x OR 128) # uvarint_bytes (x div 128))"

declare uvarint_bytes.simps [simp del]

definition PutUvarint :: "bytes \<Rightarrow> nat \<Rightarrow> (bytes \<times> int) option" where
  "PutUvarint buf x =
     (let bs = uvarint_bytes x
      in if length bs \<le> length buf then Some (wr bs buf, int (length bs)) else None)"

text \<open>
  \<open>binary.Uvarint\<close> returns the value and the number of bytes read: 0 when the buffer ends
  inside the number, negative when the number overflows 64 bits.
\<close>

fun uvarint_loop :: "bytes \<Rightarrow> int \<Rightarrow> 64 word \<Rightarrow> nat \<Rightarrow> 64 word \<times> int" where
  "uvarint_loop [] i x s = (0, 0)"
| "uvarint_loop (b # bs) i x s =
     (if i = 10 then (0, - (i + 1))
      else if b < 128
      then if i = 9 \<and> 1 < b then (0, - (i + 1)) else (x OR push_bit s (ucast b), i + 1)
      else uvarint_loop bs (i + 1) (x OR push_bit s (ucast (b AND 127))) (s + 7))"

definition Uvarint :: "bytes \<Rightarrow> 64 word \<times> int" where
  "Uvarint buf = uvarint_loop buf 0 0 0"

lemma length_uvarint_bytes:
  "length (uvarint_bytes n) =
     (if n < 128 then 1 else Suc (length (uvarint_bytes (n div 128))))"
  by (subst uvarint_bytes.simps) simp

lemma unat_ucast_byte [simp]: "unat (ucast (b :: byte) :: 64 word) = unat b"
proof -
  have "unat b < 2 ^ LENGTH(8)" by (rule unsigned_less)
  then have "unat b < 2 ^ 64" by simp
  then show ?thesis by (simp add: unsigned_ucast_eq take_bit_nat_eq_self)
qed

lemma unat_of_nat_64: "n < 2 ^ 64 \<Longrightarrow> unat (of_nat n :: 64 word) = n"
  by (simp add: unat_of_nat)

lemma or_push_bit_add:
  fixes x y :: "64 word"
  assumes "unat x < 2 ^ s" and y: "unat y = k"
  shows "x OR push_bit s y = of_nat (unat x + k * 2 ^ s)"
proof -
  have "x AND push_bit s y = 0"
  proof (rule bit_word_eqI)
    fix n assume "n < LENGTH(64)"
    show "bit (x AND push_bit s y) n = bit (0 :: 64 word) n"
    proof (cases "s \<le> n")
      case True
      then have "(2 :: nat) ^ s \<le> 2 ^ n" by simp
      with assms(1) have "unat x < 2 ^ n" by linarith
      then have "\<not> bit (unat x) n" by (simp add: bit_iff_odd)
      then show ?thesis by (simp add: bit_simps)
    next
      case False
      then show ?thesis by (simp add: bit_simps)
    qed
  qed
  then have "x OR push_bit s y = x + push_bit s y"
    by (simp add: disjunctive_add_eq_or)
  also have "\<dots> = of_nat (unat x) + of_nat (unat y * 2 ^ s)"
    by (simp add: push_bit_eq_mult)
  finally show ?thesis unfolding y by simp
qed

lemma uvarint_loop_bytes:
  assumes "unat x < 2 ^ s" and "s = 7 * i" and "i < 10" and "unat x + n * 2 ^ s < 2 ^ 64"
  shows "uvarint_loop (uvarint_bytes n @ r) (int i) x s =
           (of_nat (unat x + n * 2 ^ s), int i + int (length (uvarint_bytes n)))"
  using assms
proof (induction n arbitrary: x s i rule: uvarint_bytes.induct)
  case (1 n)
  note IH = "1.IH" and prems = "1.prems"
  show ?case
  proof (cases "n < 128")
    case True
    have b: "unat (of_nat n :: byte) = n" using True by (simp add: unat_of_nat)
    have small: "n \<le> 1" if "i = 9"
    proof (rule ccontr)
      assume "\<not> n \<le> 1"
      then have "2 * 2 ^ 63 \<le> n * (2 :: nat) ^ 63" by simp
      with prems that show False by simp
    qed
    have "(of_nat n :: byte) < 128" using True b by (simp add: word_less_nat_alt)
    moreover have "\<not> (1 < (of_nat n :: byte))" if "i = 9"
      using small [OF that] b by (simp add: word_less_nat_alt)
    moreover have "x OR push_bit s (ucast (of_nat n :: byte)) = of_nat (unat x + n * 2 ^ s)"
      by (rule or_push_bit_add [OF prems(1)]) (simp only: unat_ucast_byte b)
    ultimately show ?thesis
      using True prems by (subst (1 2) uvarint_bytes.simps) auto
  next
    case False
    let ?b = "of_nat n OR 128 :: byte"
    have low: "unat (ucast (?b AND 127) :: 64 word) = n mod 128"
    proof -
      have "?b AND 127 = of_nat n AND mask 7"
        by (rule bit_word_eqI) (auto simp: bit_simps less_Suc_eq numeral_eq_Suc)
      then have "?b AND 127 = take_bit 7 (of_nat n)" by (simp add: take_bit_eq_mask)
      then have "unat (?b AND 127) = n mod 128"
        by (simp add: unsigned_take_bit_eq unat_of_nat take_bit_nat_def mod_mod_cancel)
      then show ?thesis by simp
    qed
    have hi: "\<not> ?b < 128"
    proof
      assume "?b < 128"
      then have "unat ?b < 2 ^ 7" by (simp add: word_less_nat_alt)
      then have "\<not> bit (unat ?b) 7" by (simp add: bit_iff_odd)
      moreover have "bit (unat ?b) 7" by (simp add: bit_simps numeral_eq_Suc)
      ultimately show False by simp
    qed
    let ?x' = "x OR push_bit s (ucast (?b AND 127)) :: 64 word"
    have eq: "unat x + n * 2 ^ s = unat x + n mod 128 * 2 ^ s + n div 128 * 2 ^ (s + 7)"
    proof -
      have "n * 2 ^ s = (n mod 128 + 128 * (n div 128)) * 2 ^ s" by simp
      also have "\<dots> = n mod 128 * 2 ^ s + n div 128 * 2 ^ (s + 7)"
        by (simp only: power_add add_mult_distrib) simp
      finally show ?thesis by simp
    qed
    have bnd: "unat x + n mod 128 * 2 ^ s < 2 ^ 64" using prems(4) eq by linarith
    have x': "?x' = of_nat (unat x + n mod 128 * 2 ^ s)"
      by (rule or_push_bit_add [OF prems(1) low])
    have ux': "unat ?x' = unat x + n mod 128 * 2 ^ s"
      unfolding x' by (rule unat_of_nat_64 [OF bnd])
    have i: "Suc i < 10"
    proof (rule ccontr)
      assume "\<not> Suc i < 10"
      then have "i = 9" using prems(3) by simp
      moreover have "128 * 2 ^ 63 \<le> n * (2 :: nat) ^ 63" using False by simp
      ultimately show False using prems by simp
    qed
    have "unat x + n mod 128 * 2 ^ s < 2 ^ (s + 7)"
    proof -
      have "n mod 128 * 2 ^ s \<le> 127 * (2 :: nat) ^ s" by (rule mult_le_mono1) simp
      moreover have "(2 :: nat) ^ (s + 7) = 128 * 2 ^ s" by (simp add: power_add)
      ultimately show ?thesis using prems(1) by linarith
    qed
    then have "uvarint_loop (uvarint_bytes (n div 128) @ r) (int (Suc i)) ?x' (s + 7) =
        (of_nat (unat ?x' + n div 128 * 2 ^ (s + 7)),
         int (Suc i) + int (length (uvarint_bytes (n div 128))))"
      using prems i eq ux' by (intro IH [OF False]) simp_all
    moreover have "unat ?x' + n div 128 * 2 ^ (s + 7) = unat x + n * 2 ^ s"
      using ux' eq by simp
    moreover have "uvarint_loop (?b # uvarint_bytes (n div 128) @ r) (int i) x s =
        uvarint_loop (uvarint_bytes (n div 128) @ r) (int (Suc i)) ?x' (s + 7)"
      using hi i by (simp add: add.commute)
    ultimately have "uvarint_loop (?b # uvarint_bytes (n div 128) @ r) (int i) x s =
        (of_nat (unat x + n * 2 ^ s), int (Suc i) + int (length (uvarint_bytes (n div 128))))"
      by (simp only:)
    then show ?thesis
      using False by (subst (1 2) uvarint_bytes.simps) simp
  qed
qed

lemma Uvarint_bytes [wire]:
  assumes "n < 2 ^ 64"
  shows "Uvarint (uvarint_bytes n @ r) = (of_nat n, int (length (uvarint_bytes n)))"
  unfolding Uvarint_def using uvarint_loop_bytes [of 0 0 0 n r] assms by simp

lemma length_uvarint_bytes_cases:
  assumes "n \<le> 268435455"
  shows "length (uvarint_bytes n) =
           (if n \<le> 127 then 1 else if n \<le> 16383 then 2 else if n \<le> 2097151 then 3 else 4)"
proof -
  have 1: "length (uvarint_bytes m) = 1" if "m < 128" for m
    using that by (simp add: length_uvarint_bytes [of m])
  have 2: "length (uvarint_bytes m) = (if m < 128 then 1 else 2)" if "m < 16384" for m
    using that by (simp add: length_uvarint_bytes [of m] 1 less_mult_imp_div_less)
  have 3: "length (uvarint_bytes m) = (if m < 128 then 1 else if m < 16384 then 2 else 3)"
    if "m < 2097152" for m
    using that by (subst length_uvarint_bytes) (auto simp: 2 less_mult_imp_div_less)
  show ?thesis
    using assms by (subst length_uvarint_bytes) (auto simp: 3 less_mult_imp_div_less)
qed

lemma PutUvarint_fits [wire]:
  "length (uvarint_bytes n) \<le> length buf \<Longrightarrow>
   PutUvarint buf n = Some (wr (uvarint_bytes n) buf, int (length (uvarint_bytes n)))"
  by (simp add: PutUvarint_def Let_def)

end
