(* ===== verification/Msg_Base.thy ===== *)
theory Msg_Base imports Go_Slices begin

text \<open>
  \<open>tools/surgemq/message/message.go\<close> and \<open>connackcode.go\<close>: the packet types with their names,
  descriptions and default flags, the CONNACK return codes, the validity checks, and the
  length-prefixed byte strings every variable-length field uses.

  A packet type is a Go \<open>byte\<close>, so it is a \<^typ>\<open>byte\<close> here and the constants are
  abbreviations: \<open>SetType\<close> and \<open>New\<close> accept any byte and check it.
\<close>

section \<open>Packet types\<close>

type_synonym MessageType = byte

abbreviation (input) RESERVED :: MessageType where "RESERVED \<equiv> 0"
abbreviation (input) CONNECT :: MessageType where "CONNECT \<equiv> 1"
abbreviation (input) CONNACK :: MessageType where "CONNACK \<equiv> 2"
abbreviation (input) PUBLISH :: MessageType where "PUBLISH \<equiv> 3"
abbreviation (input) PUBACK :: MessageType where "PUBACK \<equiv> 4"
abbreviation (input) PUBREC :: MessageType where "PUBREC \<equiv> 5"
abbreviation (input) PUBREL :: MessageType where "PUBREL \<equiv> 6"
abbreviation (input) PUBCOMP :: MessageType where "PUBCOMP \<equiv> 7"
abbreviation (input) SUBSCRIBE :: MessageType where "SUBSCRIBE \<equiv> 8"
abbreviation (input) SUBACK :: MessageType where "SUBACK \<equiv> 9"
abbreviation (input) UNSUBSCRIBE :: MessageType where "UNSUBSCRIBE \<equiv> 10"
abbreviation (input) UNSUBACK :: MessageType where "UNSUBACK \<equiv> 11"
abbreviation (input) PINGREQ :: MessageType where "PINGREQ \<equiv> 12"
abbreviation (input) PINGRESP :: MessageType where "PINGRESP \<equiv> 13"
abbreviation (input) DISCONNECT :: MessageType where "DISCONNECT \<equiv> 14"
abbreviation (input) RESERVED2 :: MessageType where "RESERVED2 \<equiv> 15"

abbreviation (input) maxLPString :: int where "maxLPString \<equiv> 65535"
abbreviation (input) maxFixedHeaderLength :: int where "maxFixedHeaderLength \<equiv> 5"
abbreviation (input) maxRemainingLength :: int where "maxRemainingLength \<equiv> 268435455"

abbreviation (input) QosAtMostOnce :: byte where "QosAtMostOnce \<equiv> 0"
abbreviation (input) QosAtLeastOnce :: byte where "QosAtLeastOnce \<equiv> 1"
abbreviation (input) QosExactlyOnce :: byte where "QosExactlyOnce \<equiv> 2"
abbreviation (input) QosFailure :: byte where "QosFailure \<equiv> 0x80"

definition type_Name :: "MessageType \<Rightarrow> string" where
  "type_Name t =
     (if t = RESERVED then ''RESERVED''
      else if t = CONNECT then ''CONNECT''
      else if t = CONNACK then ''CONNACK''
      else if t = PUBLISH then ''PUBLISH''
      else if t = PUBACK then ''PUBACK''
      else if t = PUBREC then ''PUBREC''
      else if t = PUBREL then ''PUBREL''
      else if t = PUBCOMP then ''PUBCOMP''
      else if t = SUBSCRIBE then ''SUBSCRIBE''
      else if t = SUBACK then ''SUBACK''
      else if t = UNSUBSCRIBE then ''UNSUBSCRIBE''
      else if t = UNSUBACK then ''UNSUBACK''
      else if t = PINGREQ then ''PINGREQ''
      else if t = PINGRESP then ''PINGRESP''
      else if t = DISCONNECT then ''DISCONNECT''
      else if t = RESERVED2 then ''RESERVED2''
      else ''UNKNOWN'')"

definition type_Desc :: "MessageType \<Rightarrow> string" where
  "type_Desc t =
     (if t = RESERVED then ''Reserved''
      else if t = CONNECT then ''Client request to connect to Server''
      else if t = CONNACK then ''Connect acknowledgement''
      else if t = PUBLISH then ''Publish message''
      else if t = PUBACK then ''Publish acknowledgement''
      else if t = PUBREC then ''Publish received (assured delivery part 1)''
      else if t = PUBREL then ''Publish release (assured delivery part 2)''
      else if t = PUBCOMP then ''Publish complete (assured delivery part 3)''
      else if t = SUBSCRIBE then ''Client subscribe request''
      else if t = SUBACK then ''Subscribe acknowledgement''
      else if t = UNSUBSCRIBE then ''Unsubscribe request''
      else if t = UNSUBACK then ''Unsubscribe acknowledgement''
      else if t = PINGREQ then ''PING request''
      else if t = PINGRESP then ''PING response''
      else if t = DISCONNECT then ''Client is disconnecting''
      else if t = RESERVED2 then ''Reserved''
      else ''UNKNOWN'')"

text \<open>All types default to no flags, but PUBREL, SUBSCRIBE and UNSUBSCRIBE, which have 2.\<close>

definition DefaultFlags :: "MessageType \<Rightarrow> byte" where
  "DefaultFlags t =
     (if t = PUBREL then 2
      else if t = SUBSCRIBE then 2
      else if t = UNSUBSCRIBE then 2
      else 0)"

definition type_Valid :: "MessageType \<Rightarrow> bool" where
  "type_Valid t \<longleftrightarrow> RESERVED < t \<and> t < RESERVED2"

section \<open>Errors\<close>

text \<open>
  The errors of the message package. A \<open>fmt.Errorf\<close> is the constructor of its format with the
  values it prints; a \<open>ConnackCode\<close> used as an error is \<open>EConnack\<close>.
\<close>

type_synonym ConnackCode = byte

abbreviation (input) ConnectionAccepted :: ConnackCode where "ConnectionAccepted \<equiv> 0"
abbreviation (input) ErrInvalidProtocolVersion :: ConnackCode where "ErrInvalidProtocolVersion \<equiv> 1"
abbreviation (input) ErrIdentifierRejected :: ConnackCode where "ErrIdentifierRejected \<equiv> 2"
abbreviation (input) ErrServerUnavailable :: ConnackCode where "ErrServerUnavailable \<equiv> 3"
abbreviation (input) ErrBadUsernameOrPassword :: ConnackCode where "ErrBadUsernameOrPassword \<equiv> 4"
abbreviation (input) ErrNotAuthorized :: ConnackCode where "ErrNotAuthorized \<equiv> 5"

datatype merror =
    EInvalidType MessageType
  | EUnexpectedType MessageType MessageType
  | EInvalidFlags MessageType byte byte
  | EInvalidQos byte
  | ERemainingLength int
  | ERemainingBuffer int int
  | EInsufficientBuffer int int
  | ELPLength int
  | EInvalidTopic bytes
  | EEmptyTopic
  | EEmptyPayload
  | EEmptyTopicList
  | EReservedConnectFlag
  | EWillFlags bool byte bool
  | EUsernameNoPassword
  | EInvalidVersion byte
  | EConnackAckFlags
  | EReturnCode byte nat
  | EConnack ConnackCode

definition code_Value :: "ConnackCode \<Rightarrow> byte" where
  "code_Value c = c"

definition code_Desc :: "ConnackCode \<Rightarrow> string" where
  "code_Desc c =
     (if c = 0 then ''Connection accepted''
      else if c = 1 then ''The Server does not support the level of the MQTT protocol requested by the Client''
      else if c = 2 then ''The Client identifier is correct UTF-8 but not allowed by the server''
      else if c = 3 then ''The Network Connection has been made but the MQTT service is unavailable''
      else if c = 4 then ''The data in the user name or password is malformed''
      else if c = 5 then ''The Client is not authorized to connect''
      else '''')"

definition code_Valid :: "ConnackCode \<Rightarrow> bool" where
  "code_Valid c \<longleftrightarrow> c \<le> 5"

definition code_Error :: "ConnackCode \<Rightarrow> string" where
  "code_Error c =
     (if c = 0 then ''Connection accepted''
      else if c = 1 then ''Connection Refused, unacceptable protocol version''
      else if c = 2 then ''Connection Refused, identifier rejected''
      else if c = 3 then ''Connection Refused, Server unavailable''
      else if c = 4 then ''Connection Refused, bad user name or password''
      else if c = 5 then ''Connection Refused, not authorized''
      else ''Unknown error'')"

definition ValidConnackError :: "merror \<Rightarrow> bool" where
  "ValidConnackError e \<longleftrightarrow>
     e = EConnack ErrInvalidProtocolVersion \<or> e = EConnack ErrIdentifierRejected \<or>
     e = EConnack ErrServerUnavailable \<or> e = EConnack ErrBadUsernameOrPassword \<or>
     e = EConnack ErrNotAuthorized"

section \<open>Validity checks\<close>

text \<open>\<open>35\<close> is \<open>'#'\<close> and \<open>43\<close> is \<open>'+'\<close>.\<close>

definition ValidTopic :: "bytes \<Rightarrow> bool" where
  "ValidTopic topic \<longleftrightarrow> 0 < length topic \<and> 35 \<notin> set topic \<and> 43 \<notin> set topic"

definition ValidQos :: "byte \<Rightarrow> bool" where
  "ValidQos q \<longleftrightarrow> q = QosAtMostOnce \<or> q = QosAtLeastOnce \<or> q = QosExactlyOnce"

definition SupportedVersions :: "byte \<Rightarrow> bytes option" where
  "SupportedVersions v =
     (if v = 3 then Some (bytes_of ''MQIsdp'') else if v = 4 then Some (bytes_of ''MQTT'') else None)"

definition ValidVersion :: "byte \<Rightarrow> bool" where
  "ValidVersion v \<longleftrightarrow> SupportedVersions v \<noteq> None"

lemma type_Valid_cases:
  "type_Valid t \<longleftrightarrow> t \<in> {CONNECT, CONNACK, PUBLISH, PUBACK, PUBREC, PUBREL, PUBCOMP, SUBSCRIBE,
     SUBACK, UNSUBSCRIBE, UNSUBACK, PINGREQ, PINGRESP, DISCONNECT}"
proof
  assume "type_Valid t"
  then have "0 < unat t" "unat t < 15" by (simp_all add: type_Valid_def word_less_nat_alt)
  then have "unat t \<in> {1, 2, 3, 4, 5, 6, 7, 8, 9, 10, 11, 12, 13, 14}"
    by (simp only: insert_iff empty_iff) arith
  then have "of_nat (unat t) \<in> (of_nat ` {1, 2, 3, 4, 5, 6, 7, 8, 9, 10, 11, 12, 13, 14} :: byte set)"
    by blast
  then show "t \<in> {CONNECT, CONNACK, PUBLISH, PUBACK, PUBREC, PUBREL, PUBCOMP, SUBSCRIBE,
     SUBACK, UNSUBSCRIBE, UNSUBACK, PINGREQ, PINGRESP, DISCONNECT}" by simp
qed (auto simp: type_Valid_def)

lemma length_bytes_of [simp]: "length (bytes_of s) = length s"
  by (simp add: bytes_of_def)

section \<open>Length-prefixed bytes\<close>

text \<open>
  \<open>readLPBytes\<close>: the length check compares the announced length with the whole buffer, prefix
  included, and the bytes are then sliced against the capacity.
\<close>

definition readLPBytes :: "slice \<Rightarrow> (bytes \<times> int \<times> merror option) option" where
  "readLPBytes buf =
     (if slen buf < 2 then Some ([], 0, Some (EInsufficientBuffer 2 (slen buf)))
      else do {
        w \<leftarrow> be16 (sdata buf);
        let n = uint w;
        let tot = 2;
        if slen buf < n then Some ([], tot, Some (EInsufficientBuffer n (slen buf)))
        else do {
          let tot = tot + n;
          s \<leftarrow> slice_range buf 2 tot;
          Some (sdata s, tot, None)
        }
      })"

definition writeLPBytes :: "bytes \<Rightarrow> bytes \<Rightarrow> (bytes \<times> int \<times> merror option) option" where
  "writeLPBytes buf b =
     (let n = int (length b)
      in if n > maxLPString then Some (buf, 0, Some (ELPLength n))
      else if int (length buf) < 2 + n
      then Some (buf, 0, Some (EInsufficientBuffer (2 + n) (int (length buf))))
      else do {
        (buf, _) \<leftarrow> copy_at buf 0 (put_be16 (of_int n));
        (buf, _) \<leftarrow> copy_at buf 2 b;
        Some (buf, 2 + n, None)
      })"

text \<open>
  \<open>this.f, n, err = readLPBytes(src[total:]); total += n\<close>: the field is stored even when the
  call reports an error. \<open>this.f = ...\<close> is the update \<open>upd\<close>.
\<close>

definition read_field :: "slice \<Rightarrow> int \<Rightarrow> (bytes \<Rightarrow> 'm \<Rightarrow> 'm) \<Rightarrow> 'm \<Rightarrow> ('m, merror) ret" where
  "read_field src tot upd m =
     do {
       s \<leftarrow> slice_from src tot;
       (b, n, e) \<leftarrow> readLPBytes s;
       Some (upd b m, tot + n, e)
     }"

text \<open>\<open>n, err = writeLPBytes(dst[total:], b); total += n\<close>.\<close>

definition write_field :: "bytes \<Rightarrow> int \<Rightarrow> bytes \<Rightarrow> (bytes, merror) ret" where
  "write_field dst tot b =
     do {
       (d, n, e) \<leftarrow> on_suffix dst tot (\<lambda>buf. writeLPBytes buf b);
       Some (d, tot + n, e)
     }"

text \<open>The wire form of a length-prefixed string.\<close>

definition lp :: "bytes \<Rightarrow> bytes" where
  "lp b = put_be16 (of_nat (length b)) @ b"

lemma length_lp [simp]: "length (lp b) = 2 + length b"
  by (simp add: lp_def)

lemma uint_of_nat_16: "n \<le> 65535 \<Longrightarrow> uint (of_nat n :: 16 word) = int n"
  by (simp add: uint_nat unat_of_nat)

lemma writeLPBytes_fits:
  assumes "length b \<le> 65535" and "length (lp b) \<le> length buf"
  shows "writeLPBytes buf b = Some (wr (lp b) buf, int (length (lp b)), None)"
proof -
  have 1: "copy_at (wr [] buf) 0 (put_be16 (of_nat (length b))) =
      Some (wr (put_be16 (of_nat (length b))) buf, 2)"
    using assms by (subst copy_at_wr) auto
  have 2: "copy_at (wr (put_be16 (of_nat (length b))) buf) 2 b = Some (wr (lp b) buf, int (length b))"
    using assms by (subst copy_at_wr) (auto simp: lp_def)
  show ?thesis
    using assms 1 2 by (simp add: writeLPBytes_def Let_def)
qed

lemma write_field_wr [wire]:
  assumes "length b \<le> 65535" and "i = int (length w)" and "length w + length (lp b) \<le> length dst"
  shows "write_field (wr w dst) i b = Some (wr (w @ lp b) dst, i + int (length (lp b)), None)"
proof -
  have "writeLPBytes (drop (length w) dst) b =
      Some (wr (lp b) (drop (length w) dst), int (length (lp b)), None)"
    using assms by (intro writeLPBytes_fits) auto
  then have "on_suffix (wr w dst) i (\<lambda>buf. writeLPBytes buf b) =
      Some (wr (w @ lp b) dst, int (length (lp b)), None)"
    using assms by (intro on_suffix_wr) auto
  then show ?thesis by (simp add: write_field_def)
qed

lemma readLPBytes_lp [wire]:
  assumes "length b \<le> 65535"
  shows "readLPBytes (Slice (lp b @ r) sp) = Some (b, int (length (lp b)), None)"
proof -
  have "be16 (lp b @ r) = Some (of_nat (length b))" by (simp add: lp_def wire)
  moreover have "slice_range (Slice (lp b @ r) sp) 2 (2 + int (length b)) = Some (Slice b (r @ sp))"
    using slice_range_split [of 2 "put_be16 (of_nat (length b))" "2 + int (length b)" b r sp]
    by (simp add: lp_def)
  moreover have "uint (of_nat (length b) :: 16 word) = int (length b)"
    using assms by (rule uint_of_nat_16)
  ultimately show ?thesis
    by (simp add: readLPBytes_def slen_def Let_def)
qed

lemma read_field_lp [wire]:
  assumes "length b \<le> 65535" and "i = int (length p)"
  shows "read_field (Slice (p @ lp b @ r) sp) i upd m =
           Some (upd b m, i + int (length (lp b)), None)"
  using assms by (simp add: read_field_def slice_from_split readLPBytes_lp)

end
