(* ===== verification/Msg_Header.thy ===== *)
theory Msg_Header imports Msg_Base begin

text \<open>
  \<open>tools/surgemq/message/header.go\<close>: the fixed header every packet embeds. A Go struct that
  embeds \<open>header\<close> is a record that extends \<open>header\<close>, and the header's methods are polymorphic in
  the extension.

  After \<open>Decode\<close> the header aliases the caller's buffer: \<open>mtypeflags\<close> and \<open>packetId\<close> are
  sub-slices of \<open>dbuf\<close>, and \<open>SetType\<close>, \<open>SetPacketId\<close> and the flag setters of PUBLISH write
  through them, which is why they need not mark the message dirty. A field is therefore either
  a slice of its own (\<open>Own\<close>) or the range of \<open>dbuf\<close> it points into (\<open>Sub\<close>).
\<close>

section \<open>State\<close>

datatype bref = Own bytes | Sub nat nat

record header =
  remlen :: int
  mtypeflags :: bref
  packetId :: bref
  dbuf :: slice
  dirty :: bool

text \<open>The zero value of the struct.\<close>

definition zero_header :: header where
  "zero_header = \<lparr>remlen = 0, mtypeflags = Own [], packetId = Own [], dbuf = exact [], dirty = False\<rparr>"

fun deref_in :: "slice \<Rightarrow> bref \<Rightarrow> bytes" where
  "deref_in d (Own b) = b"
| "deref_in d (Sub i n) = take n (drop i (sfull d))"

abbreviation deref :: "'a header_scheme \<Rightarrow> bref \<Rightarrow> bytes" where
  "deref h r \<equiv> deref_in (dbuf h) r"

text \<open>Overwriting the bytes at position \<open>i\<close> of a slice's array.\<close>

definition splice :: "slice \<Rightarrow> nat \<Rightarrow> bytes \<Rightarrow> slice" where
  "splice s i bs =
     (let f = take i (sfull s) @ bs @ drop (i + length bs) (sfull s); n = length (sdata s)
      in Slice (take n f) (drop n f))"

definition put_mtypeflags :: "'a header_scheme \<Rightarrow> byte \<Rightarrow> 'a header_scheme" where
  "put_mtypeflags h b =
     (case mtypeflags h of
        Own _ \<Rightarrow> h\<lparr>mtypeflags := Own [b]\<rparr>
      | Sub i _ \<Rightarrow> h\<lparr>dbuf := splice (dbuf h) i [b]\<rparr>)"

definition put_packetId :: "'a header_scheme \<Rightarrow> bytes \<Rightarrow> 'a header_scheme" where
  "put_packetId h bs =
     (case packetId h of
        Own _ \<Rightarrow> h\<lparr>packetId := Own bs\<rparr>
      | Sub i _ \<Rightarrow> h\<lparr>dbuf := splice (dbuf h) i bs\<rparr>)"

text \<open>
  \<open>this.dbuf = src\<close>: the fields that pointed into the old buffer still do, so they keep its
  bytes.
\<close>

definition set_dbuf :: "'a header_scheme \<Rightarrow> slice \<Rightarrow> 'a header_scheme" where
  "set_dbuf h src =
     h\<lparr>mtypeflags := Own (deref h (mtypeflags h)), packetId := Own (deref h (packetId h)), dbuf := src\<rparr>"

section \<open>Methods\<close>

text \<open>\<open>Type\<close> allocates the type byte of a zero-value header before it reads it.\<close>

definition header_Type :: "'a header_scheme \<Rightarrow> 'a header_scheme \<times> MessageType" where
  "header_Type h =
     (let h = (if length (deref h (mtypeflags h)) \<noteq> 1
               then h\<lparr>mtypeflags := Own [0], dirty := True\<rparr> else h)
      in (h, drop_bit 4 (hd (deref h (mtypeflags h)))))"

definition header_SetType :: "'a header_scheme \<Rightarrow> MessageType \<Rightarrow> 'a header_scheme \<times> merror option" where
  "header_SetType h mtype =
     (if \<not> type_Valid mtype then (h, Some (EInvalidType mtype))
      else let h = (if length (deref h (mtypeflags h)) \<noteq> 1
                    then h\<lparr>mtypeflags := Own [0], dirty := True\<rparr> else h)
           in (put_mtypeflags h (push_bit 4 mtype OR (DefaultFlags mtype AND 0xf)), None))"

definition header_Flags :: "'a header_scheme \<Rightarrow> byte option" where
  "header_Flags h =
     (case deref h (mtypeflags h) of [] \<Rightarrow> None | b # _ \<Rightarrow> Some (b AND 0x0f))"

definition header_Name :: "'a header_scheme \<Rightarrow> string" where
  "header_Name h = type_Name (snd (header_Type h))"

definition header_Desc :: "'a header_scheme \<Rightarrow> string" where
  "header_Desc h = type_Desc (snd (header_Type h))"

definition SetRemainingLength :: "'a header_scheme \<Rightarrow> int \<Rightarrow> 'a header_scheme \<times> merror option" where
  "SetRemainingLength h n =
     (if n > maxRemainingLength \<or> n < 0 then (h, Some (ERemainingLength n))
      else (h\<lparr>remlen := n, dirty := True\<rparr>, None))"

definition header_PacketId :: "'a header_scheme \<Rightarrow> 16 word" where
  "header_PacketId h =
     (let p = deref h (packetId h)
      in if length p = 2 then the (be16 p) else 0)"

definition SetPacketId :: "'a header_scheme \<Rightarrow> 16 word \<Rightarrow> 'a header_scheme" where
  "SetPacketId h v =
     (if v = 0 then h
      else let h = (if length (deref h (packetId h)) \<noteq> 2
                    then h\<lparr>packetId := Own [0, 0], dirty := True\<rparr> else h)
           in put_packetId h (put_be16 v))"

definition header_msglen :: "'a header_scheme \<Rightarrow> int" where
  "header_msglen h =
     (let tot = 1
      in if remlen h \<le> 127 then tot + 1
         else if remlen h \<le> 16383 then tot + 2
         else if remlen h \<le> 2097151 then tot + 3
         else tot + 4)"

text \<open>\<open>encode\<close> fills the start of \<open>dst\<close>: the type byte, then the remaining length.\<close>

definition header_encode ::
    "'a header_scheme \<Rightarrow> bytes \<Rightarrow> ('a header_scheme \<times> bytes, merror) ret" where
  "header_encode h dst =
     (let ml = header_msglen h
      in if int (length dst) < ml then Some ((h, dst), 0, Some (EInsufficientBuffer ml (int (length dst))))
         else if remlen h > maxRemainingLength \<or> remlen h < 0
         then Some ((h, dst), 0, Some (ERemainingLength (remlen h)))
         else case header_Type h of (h, t) \<Rightarrow>
           if \<not> type_Valid t then Some ((h, dst), 0, Some (EInvalidType t))
           else do {
             dst \<leftarrow> set_at dst 0 (hd (deref h (mtypeflags h)));
             (dst, n) \<leftarrow> on_suffix dst 1 (\<lambda>d. PutUvarint d (nat (remlen h)));
             Some ((h, dst), 1 + n, None)
           })"

text \<open>
  \<open>decode\<close>. The remaining length is truncated to 32 bits before it is checked, and the check
  for a negative value looks at the unsigned number.
\<close>

definition header_decode :: "'a header_scheme \<Rightarrow> slice \<Rightarrow> ('a header_scheme, merror) ret" where
  "header_decode h src =
     (case header_Type (set_dbuf h src) of (h, mtype) \<Rightarrow>
      do {
        _ \<leftarrow> slice_range src 0 1;
        case header_Type (h\<lparr>mtypeflags := Sub 0 1\<rparr>) of (h, t) \<Rightarrow>
          if \<not> type_Valid t then Some (h, 0, Some (EInvalidType mtype))
          else if mtype \<noteq> t then Some (h, 0, Some (EUnexpectedType t mtype))
          else do {
            f \<leftarrow> header_Flags h;
            if t \<noteq> PUBLISH \<and> f \<noteq> DefaultFlags t
            then Some (h, 0, Some (EInvalidFlags t (DefaultFlags t) f))
            else if t = PUBLISH \<and> \<not> ValidQos (drop_bit 1 f AND 3)
            then Some (h, 0, Some (EInvalidQos (drop_bit 1 f AND 3)))
            else do {
              s \<leftarrow> slice_from src 1;
              let (rl, m) = Uvarint (sdata s);
              let tot = 1 + m;
              let h = h\<lparr>remlen := to_int32 (uint rl)\<rparr>;
              if remlen h > maxRemainingLength \<or> uint rl < 0
              then Some (h, tot, Some (ERemainingLength (remlen h)))
              else do {
                s \<leftarrow> slice_from src tot;
                if remlen h > slen s
                then Some (h, tot, Some (ERemainingBuffer (remlen h) (slen s)))
                else Some (h, tot, None)
              }
            }
          }
      })"

section \<open>Parts the messages share\<close>

text \<open>
  Every message's \<open>Len\<close> is the same code over its own \<open>msglen\<close>: the length of the decoded
  buffer when nothing changed since, and otherwise the header and the body, with the remaining
  length updated as a side effect.
\<close>

definition len_with :: "('a header_scheme \<Rightarrow> int) \<Rightarrow> 'a header_scheme \<Rightarrow> 'a header_scheme \<times> int" where
  "len_with msglen m =
     (if \<not> dirty m then (m, slen (dbuf m))
      else let ml = msglen m
           in case SetRemainingLength m (to_int32 ml) of
                (m, Some _) \<Rightarrow> (m, 0)
              | (m, None) \<Rightarrow> (m, header_msglen m + ml))"

text \<open>And every \<open>Encode\<close> starts by copying out the buffer of a message that is not dirty.\<close>

definition encode_clean :: "'a header_scheme \<Rightarrow> bytes \<Rightarrow> ('a header_scheme \<times> bytes, merror) ret" where
  "encode_clean m dst =
     (if int (length dst) < slen (dbuf m)
      then Some ((m, dst), 0, Some (EInsufficientBuffer (slen (dbuf m)) (int (length dst))))
      else do {
        (dst, n) \<leftarrow> copy_at dst 0 (sdata (dbuf m));
        Some ((m, dst), n, None)
      })"

text \<open>\<open>if err := this.SetRemainingLength(int32(ml)); err != nil { return 0, err }\<close>.\<close>

definition set_remlen ::
    "'a header_scheme \<times> bytes \<Rightarrow> int \<Rightarrow> ('a header_scheme \<times> bytes, merror) ret" where
  "set_remlen md ml =
     (case SetRemainingLength (fst md) (to_int32 ml) of (m, e) \<Rightarrow> Some ((m, snd md), 0, e))"

text \<open>
  The two calls that follow the size check in most encoders: \<open>SetRemainingLength\<close>, whose error
  is returned with the count 0, and the header's \<open>encode\<close>.
\<close>

definition encode_head ::
    "'a header_scheme \<Rightarrow> bytes \<Rightarrow> int \<Rightarrow> ('a header_scheme \<times> bytes, merror) ret" where
  "encode_head m dst ml =
     ret_bind (set_remlen (m, dst) ml) (\<lambda>(m, dst) _. header_encode m dst)"

text \<open>
  \<open>if copy(dst[total:total+2], this.packetId) != 2 { dst[total], dst[total+1] = 0, 0 }\<close>.
\<close>

definition put_id_or_zero :: "bytes \<Rightarrow> int \<Rightarrow> bytes \<Rightarrow> bytes option" where
  "put_id_or_zero dst tot p =
     (if tot + 2 \<le> int (length dst)
      then do {
        (dst, n) \<leftarrow> copy_at dst tot (take 2 p);
        if n \<noteq> 2 then do { dst \<leftarrow> set_at dst tot 0; set_at dst (tot + 1) 0 } else Some dst
      }
      else None)"

text \<open>\<open>this.packetId = src[total : total+2]\<close>.\<close>

definition set_packetId_from :: "slice \<Rightarrow> int \<Rightarrow> 'a header_scheme \<Rightarrow> 'a header_scheme option" where
  "set_packetId_from src tot m =
     do { _ \<leftarrow> slice_range src tot (tot + 2); Some (m\<lparr>packetId := Sub (nat tot) 2\<rparr>) }"

text \<open>
  The packet identifier counter \<open>gPacketId\<close> is a global 64-bit integer that \<open>Encode\<close> increments
  for a message that has no identifier yet: the encoders take it and return it.
\<close>

definition fresh_packetId :: "64 word \<Rightarrow> 64 word \<times> 16 word" where
  "fresh_packetId g = (g + 1, ucast ((g + 1) AND 0xffff))"


section \<open>The wire form of a header\<close>

definition hdr_wire :: "byte \<Rightarrow> nat \<Rightarrow> bytes" where
  "hdr_wire b n = b # uvarint_bytes n"

lemma length_hdr_wire [simp]: "length (hdr_wire b n) = Suc (length (uvarint_bytes n))"
  by (simp add: hdr_wire_def)

lemma uvarint_bytes_pos: "0 < length (uvarint_bytes n)"
  by (subst length_uvarint_bytes) simp

lemma header_msglen_wire:
  assumes "0 \<le> remlen h" and "remlen h \<le> maxRemainingLength"
  shows "header_msglen h = int (length (hdr_wire b (nat (remlen h))))"
  using assms by (simp add: header_msglen_def length_uvarint_bytes_cases nat_le_iff)

lemma header_msglen_bounds: "2 \<le> header_msglen h \<and> header_msglen h \<le> maxFixedHeaderLength"
  by (simp add: header_msglen_def)

lemma header_Type_single:
  "deref h (mtypeflags h) = [b] \<Longrightarrow> header_Type h = (h, drop_bit 4 b)"
  by (simp add: header_Type_def)

lemma header_Flags_single:
  "deref h (mtypeflags h) = [b] \<Longrightarrow> header_Flags h = Some (b AND 15)"
  by (simp add: header_Flags_def)

lemma header_encode_wire:
  assumes b: "deref h (mtypeflags h) = [b]" and t: "type_Valid (drop_bit 4 b)"
    and r: "0 \<le> remlen h" "remlen h \<le> maxRemainingLength"
    and fits: "length (hdr_wire b (nat (remlen h))) \<le> length dst"
  shows "header_encode h dst =
    Some ((h, wr (hdr_wire b (nat (remlen h))) dst), int (length (hdr_wire b (nat (remlen h)))), None)"
proof -
  let ?v = "uvarint_bytes (nat (remlen h))"
  have 1: "set_at dst 0 b = Some (wr [b] dst)"
    using set_at_wr [of 0 "[]" dst b] fits by (cases dst) simp_all
  have 2: "on_suffix (wr [b] dst) 1 (\<lambda>d. PutUvarint d (nat (remlen h))) =
      Some (wr ([b] @ ?v) dst, int (length ?v))"
    using fits by (intro on_suffix_wr) (auto simp: PutUvarint_fits)
  show ?thesis
    unfolding header_encode_def
    using b t r fits 1 2 header_msglen_wire [OF r, of b]
    by (simp add: header_Type_single hdr_wire_def)
qed

lemma to_int32_uint_of_nat:
  assumes "n \<le> 268435455"
  shows "to_int32 (uint (of_nat n :: 64 word)) = int n"
proof -
  have "uint (of_nat n :: 64 word) = int n" using assms by (simp add: uint_nat unat_of_nat_64)
  then show ?thesis using assms by (simp add: to_int32_id)
qed

text \<open>What \<open>decode\<close> leaves in the header: it points into the source buffer.\<close>

definition decoded_header :: "'a header_scheme \<Rightarrow> slice \<Rightarrow> nat \<Rightarrow> 'a header_scheme" where
  "decoded_header h src n = (set_dbuf h src)\<lparr>mtypeflags := Sub 0 1, remlen := int n\<rparr>"

lemma header_decode_wire:
  assumes b0: "deref h (mtypeflags h) = [b0]" "drop_bit 4 b0 = t"
    and b: "drop_bit 4 b = t" "type_Valid t"
    and f: "if t = PUBLISH then ValidQos (drop_bit 1 (b AND 15) AND 3) else b AND 15 = DefaultFlags t"
    and n: "n \<le> 268435455" "n \<le> length r"
  shows "header_decode h (Slice (hdr_wire b n @ r) sp) =
    Some (decoded_header h (Slice (hdr_wire b n @ r) sp) n, int (length (hdr_wire b n)), None)"
proof -
  let ?src = "Slice (hdr_wire b n @ r) sp" and ?v = "uvarint_bytes n"
  have 1: "slice_range ?src 0 1 = Some (Slice [b] ((?v @ r) @ sp))"
    using slice_range_split [of 0 "[]" 1 "[b]" "?v @ r" sp] by (simp add: hdr_wire_def)
  have 2: "slice_from ?src 1 = Some (Slice (?v @ r) sp)"
    using slice_from_split [of 1 "[b]" "?v @ r" sp] by (simp add: hdr_wire_def)
  have 3: "slice_from ?src (1 + int (length ?v)) = Some (Slice r sp)"
    using slice_from_split [of "1 + int (length ?v)" "hdr_wire b n" r sp] by simp
  let ?h = "(set_dbuf h ?src)\<lparr>mtypeflags := Sub 0 1\<rparr>"
  have 4: "header_Type (set_dbuf h ?src) = (set_dbuf h ?src, t)"
    using b0 by (simp add: header_Type_def set_dbuf_def)
  have ref: "deref ?h (mtypeflags ?h) = [b]" by (simp add: sfull_def hdr_wire_def set_dbuf_def)
  have 5: "header_Type ?h = (?h, t)" using header_Type_single [OF ref] b by simp
  have 6: "header_Flags ?h = Some (b AND 15)" by (rule header_Flags_single [OF ref])
  have 7: "\<not> (t \<noteq> PUBLISH \<and> b AND 15 \<noteq> DefaultFlags t)"
    "\<not> (t = PUBLISH \<and> \<not> ValidQos (drop_bit 1 (b AND 15) AND 3))"
    using f by (auto split: if_splits)
  have 8: "Uvarint (sdata (Slice (?v @ r) sp)) = (of_nat n, int (length ?v))"
    using n by (simp add: Uvarint_bytes)
  have 9: "to_int32 (uint (of_nat n :: 64 word)) = int n" using n by (rule_tac to_int32_uint_of_nat)
  show ?thesis
    unfolding header_decode_def 4 prod.case 1 bind.bind_lunit 5 6 8 Let_def 9 2
    using b(2) 7 n by (simp only: if_False if_True simp_thms) (simp add: 3 slen_def decoded_header_def)
qed

lemma encode_head_wire:
  assumes b: "deref m (mtypeflags m) = [b]" and t: "type_Valid (drop_bit 4 b)"
    and r: "0 \<le> ml" "ml \<le> maxRemainingLength"
    and fits: "length (hdr_wire b (nat ml)) \<le> length dst"
  shows "encode_head m dst ml =
    Some ((m\<lparr>remlen := ml, dirty := True\<rparr>, wr (hdr_wire b (nat ml)) dst),
          int (length (hdr_wire b (nat ml))), None)"
proof -
  have "to_int32 ml = ml" using r by (simp add: to_int32_id)
  then have "set_remlen (m, dst) ml = Some ((m\<lparr>remlen := ml, dirty := True\<rparr>, dst), 0, None)"
    using r by (simp add: set_remlen_def SetRemainingLength_def)
  moreover have "header_encode (m\<lparr>remlen := ml, dirty := True\<rparr>) dst =
    Some ((m\<lparr>remlen := ml, dirty := True\<rparr>, wr (hdr_wire b (nat ml)) dst),
          int (length (hdr_wire b (nat ml))), None)"
    using header_encode_wire [of "m\<lparr>remlen := ml, dirty := True\<rparr>" b dst] b t r fits by simp
  ultimately show ?thesis by (simp add: encode_head_def)
qed

lemma len_with_dirty:
  assumes "dirty m" and "0 \<le> msglen m" and "msglen m \<le> maxRemainingLength"
  shows "len_with msglen m =
    (m\<lparr>remlen := msglen m, dirty := True\<rparr>, header_msglen (m\<lparr>remlen := msglen m\<rparr>) + msglen m)"
  using assms by (simp add: len_with_def SetRemainingLength_def to_int32_id header_msglen_def Let_def)

lemma encode_clean_copy:
  assumes "length (sdata (dbuf m)) \<le> length dst"
  shows "encode_clean m dst =
    Some ((m, wr (sdata (dbuf m)) dst), int (length (sdata (dbuf m))), None)"
  using assms copy_at_wr [of 0 "[]" "sdata (dbuf m)" dst] by (simp add: encode_clean_def slen_def)

lemma put_id_or_zero_wr:
  assumes "i = int (length w)" and "length w + 2 \<le> length dst"
  shows "put_id_or_zero (wr w dst) i p =
           Some (wr (w @ (if 2 \<le> length p then take 2 p else [0, 0])) dst)"
proof (cases "2 \<le> length p")
  case True
  then show ?thesis
    using assms by (simp add: put_id_or_zero_def copy_at_wr)
next
  case False
  obtain a b r where d: "drop (length w) dst = a # b # r"
    using assms(2) by (cases "drop (length w) dst" rule: be16.cases) (auto simp: drop_eq_Nil dest: arg_cong [where f = length])
  then have eq: "dst = take (length w) dst @ [a, b] @ r" by (metis append_Cons append_Nil append_take_drop_id)
  obtain u v where uv: "dst = u @ [a, b] @ r" "length u = length w"
    using eq assms(2) by (metis add_leD1 length_take min.absorb2)
  consider "p = []" | x where "p = [x]"
    using False by (cases p rule: be16.cases) auto
  then show ?thesis
    using False assms uv
    by cases (simp_all add: put_id_or_zero_def copy_at_def set_at_def wr_def Let_def
        list_update_append nat_add_distrib)
qed

section \<open>Packet identifiers\<close>

lemma sfull_splice:
  "sfull (splice s i bs) = take i (sfull s) @ bs @ drop (i + length bs) (sfull s)"
  by (simp only: splice_def Let_def sfull_def slice.sel append_take_drop_id)

lemma slen_splice:
  assumes "i + length bs \<le> length (sfull s)"
  shows "slen (splice s i bs) = slen s"
proof -
  have "length (take i (sfull s) @ bs @ drop (i + length bs) (sfull s)) = length (sfull s)"
    using assms by simp
  moreover have "length (sdata s) \<le> length (sfull s)" by (simp add: sfull_def)
  ultimately show ?thesis by (simp only: splice_def Let_def slen_def slice.sel length_take)
qed

lemma PacketId_SetPacketId:
  assumes "v \<noteq> 0"
  shows "header_PacketId (SetPacketId h v) = v"
proof (cases "length (deref h (packetId h)) = 2")
  case False
  then show ?thesis
    using assms by (simp add: SetPacketId_def header_PacketId_def put_packetId_def wire)
next
  case True
  show ?thesis
  proof (cases "packetId h")
    case (Own b)
    then show ?thesis
      using assms True by (simp add: SetPacketId_def header_PacketId_def put_packetId_def wire)
  next
    case (Sub i n)
    let ?f = "sfull (dbuf h)"
    have l: "n = 2 \<and> i + 2 \<le> length ?f \<or> 2 < n \<and> length ?f = i + 2"
      using True Sub by (auto simp: min_def split: if_splits)
    have "take n (drop i (take i ?f @ put_be16 v @ drop (i + 2) ?f)) = put_be16 v"
      using l by auto
    then have "deref_in (splice (dbuf h) i (put_be16 v)) (Sub i n) = put_be16 v"
      by (simp only: deref_in.simps sfull_splice length_put_be16)
    moreover have "SetPacketId h v = h\<lparr>dbuf := splice (dbuf h) i (put_be16 v)\<rparr>"
      using assms True Sub by (simp add: SetPacketId_def put_packetId_def)
    ultimately show ?thesis
      using Sub by (simp add: header_PacketId_def wire)
  qed
qed

lemma SetPacketId_0 [simp]: "SetPacketId h 0 = h"
  by (simp add: SetPacketId_def)

lemma header_PacketId_be16:
  "deref h (packetId h) = put_be16 v \<Longrightarrow> header_PacketId h = v"
  by (simp add: header_PacketId_def wire)

end
