(* ===== verification/Msg_Codec.thy ===== *)
theory Msg_Codec imports Msg_Header begin

text \<open>
  The interface \<open>Message\<close> of \<open>tools/surgemq/message/message.go\<close> as its clients rely on it: the
  locale \<open>codec\<close> states what \<open>Len\<close>, \<open>Encode\<close> and \<open>Decode\<close> promise for a message that is ready to
  be sent, in terms of the bytes \<open>wire_of\<close> it stands for, and derives what the clients need.
  Every packet type interprets it.

  \<open>marshal\<close> is the clients' side: \<open>writeMessage\<close> of \<open>tools/surgemq/service/misc.go\<close> allocates a
  buffer of \<open>msg.Len()\<close> bytes and encodes into it; the session and the retained-message tree do
  the same before they decode the buffer into a message of their own.
\<close>

definition marshal ::
    "('m \<Rightarrow> ('m \<times> int) option) \<Rightarrow> ('m \<Rightarrow> bytes \<Rightarrow> ('m \<times> bytes, merror) ret) \<Rightarrow> 'm \<Rightarrow>
     ('m \<times> bytes, merror) ret" where
  "marshal len enc m = do { (m, l) \<leftarrow> len m; buf \<leftarrow> make_bytes l; enc m buf }"

locale codec =
  fixes Len :: "'m \<Rightarrow> ('m \<times> int) option"
    and Encode :: "'m \<Rightarrow> bytes \<Rightarrow> ('m \<times> bytes, merror) ret"
    and Decode :: "'m \<Rightarrow> slice \<Rightarrow> ('m, merror) ret"
    and fresh :: "'m"
    and ready :: "'m \<Rightarrow> bool"
    and wire_of :: "'m \<Rightarrow> bytes"
    and same :: "'m \<Rightarrow> 'm \<Rightarrow> bool"
  assumes len_ready: "ready m \<Longrightarrow> \<exists>m'. Len m = Some (m', int (length (wire_of m)))"
    and encode_zeroed: "ready m \<Longrightarrow> Len m = Some (m', l) \<Longrightarrow> length (wire_of m) = k \<Longrightarrow>
      \<exists>m''. Encode m' (replicate k 0) = Some ((m'', wire_of m), int k, None)"
    and decode_wire: "ready m \<Longrightarrow>
      \<exists>m'. Decode fresh (Slice (wire_of m) sp) = Some (m', int (length (wire_of m)), None) \<and>
           same m m'"
    and replay: "ready m \<Longrightarrow> Decode fresh (Slice (wire_of m) sp) = Some (m', n, None) \<Longrightarrow>
      length (wire_of m) \<le> length dst \<Longrightarrow>
      Encode m' dst = Some ((m', wr (wire_of m) dst), int (length (wire_of m)), None)"
begin

text \<open>Encoding into a buffer of \<open>Len\<close> bytes succeeds and fills it.\<close>

lemma marshal_ready:
  assumes "ready m"
  shows "\<exists>m'. marshal Len Encode m = Some ((m', wire_of m), int (length (wire_of m)), None)"
proof -
  obtain m1 where l: "Len m = Some (m1, int (length (wire_of m)))" using len_ready [OF assms] by auto
  then show ?thesis using encode_zeroed [OF assms l refl] by (auto simp: marshal_def)
qed

text \<open>What the receiver decodes is what the sender encoded.\<close>

lemma send_receive:
  assumes "ready m"
  shows "\<exists>m1 out m2. marshal Len Encode m = Some ((m1, out), int (length out), None) \<and>
           map_option snd (Len m) = Some (int (length out)) \<and>
           Decode fresh (exact out) = Some (m2, int (length out), None) \<and> same m m2"
  using marshal_ready [OF assms] decode_wire [OF assms, of "[]"] len_ready [OF assms]
  by (auto simp: exact_def)

text \<open>A received message that nobody changed is forwarded byte for byte.\<close>

lemma receive_forward:
  assumes "ready m" and "marshal Len Encode m = Some ((m1, out), n, None)"
    and "Decode fresh (exact out) = Some (m2, n', None)" and "length out \<le> length dst"
  shows "Encode m2 dst = Some ((m2, wr out dst), int (length out), None)"
proof -
  have "out = wire_of m" using marshal_ready [OF assms(1)] assms(2) by auto
  then show ?thesis using replay [OF assms(1)] assms(3,4) by (simp add: exact_def)
qed

end

text \<open>
  \<open>codec\<close> only speaks of a zeroed buffer of the right length, all that \<open>marshal\<close> needs. The
  ring buffer's client encodes into memory that still holds older bytes, so it needs more: the
  message's bytes appear whatever the buffer held, and the rest of the buffer is left alone.
\<close>

locale buffer_codec = codec +
  assumes encode_any: "ready m \<Longrightarrow> Len m = Some (m', l) \<Longrightarrow> length (wire_of m) \<le> length dst \<Longrightarrow>
      \<exists>m''. Encode m' dst =
              Some ((m'', wr (wire_of m) dst), int (length (wire_of m)), None)"
begin

lemma encode_no_overrun:
  assumes "ready m" and "Len m = Some (m', l)" and "l \<le> int (length dst)"
  shows "\<exists>m'' out. Encode m' dst = Some ((m'', out), l, None) \<and> length out = length dst \<and>
           take (nat l) out = wire_of m \<and> drop (nat l) out = drop (nat l) dst"
proof -
  have l: "l = int (length (wire_of m))" using len_ready [OF assms(1)] assms(2) by simp
  with assms(3) have "length (wire_of m) \<le> length dst" by simp
  with encode_any [OF assms(1,2) this] l show ?thesis by auto
qed

end

text \<open>
  The form in which the packet types establish the contract: \<open>settle\<close> is the message after
  \<open>Len\<close> has updated its remaining length.
\<close>

lemma buffer_codecI:
  assumes len: "\<And>m. ready m \<Longrightarrow> len m = Some (settle m, int (length (w m)))"
    and enc: "\<And>m dst. ready m \<Longrightarrow> length (w m) \<le> length dst \<Longrightarrow>
      \<exists>m'. enc (settle m) dst = Some ((m', wr (w m) dst), int (length (w m)), None)"
    and dec: "\<And>m sp. ready m \<Longrightarrow>
      \<exists>m'. dec fresh (Slice (w m) sp) = Some (m', int (length (w m)), None) \<and> same m m' \<and>
           (\<forall>dst. length (w m) \<le> length dst \<longrightarrow>
              enc m' dst = Some ((m', wr (w m) dst), int (length (w m)), None))"
  shows "buffer_codec len enc dec fresh ready w same"
proof unfold_locales
  fix m m' l k
  assume "ready m" and "len m = Some (m', l)" and "length (w m) = k"
  then show "\<exists>m''. enc m' (replicate k 0) = Some ((m'', w m), int k, None)"
    using enc [of m "replicate k 0"] len [of m] by (auto simp: wr_exact)
next
  fix m sp m' n and dst :: bytes
  assume "ready m" and "dec fresh (Slice (w m) sp) = Some (m', n, None)"
    and "length (w m) \<le> length dst"
  then show "enc m' dst = Some ((m', wr (w m) dst), int (length (w m)), None)"
    using dec [of m sp] by auto
qed (use len enc dec in fastforce)+

text \<open>A message that is not dirty is its buffer.\<close>

lemma replay_clean:
  assumes "\<not> dirty m" and "sdata (dbuf m) = w" and "\<And>m dst. \<not> dirty m \<Longrightarrow> enc m dst = encode_clean m dst"
  shows "\<forall>dst. length w \<le> length dst \<longrightarrow> enc m dst = Some ((m, wr w dst), int (length w), None)"
  using assms encode_clean_copy [of m] by simp

lemma len_with_wire:
  assumes "dirty m" and "0 \<le> msglen m" and "msglen m \<le> maxRemainingLength"
  shows "len_with msglen m =
    (m\<lparr>remlen := msglen m, dirty := True\<rparr>,
     int (length (hdr_wire b (nat (msglen m)))) + msglen m)"
  using len_with_dirty [where msglen = msglen, OF assms]
    header_msglen_wire [of "m\<lparr>remlen := msglen m\<rparr>" b] assms by simp

end
