(* ===== verification/Msg_Ack.thy ===== *)
theory Msg_Ack imports Msg_Codec begin

text \<open>
  The packets with nothing but a header (\<open>disconnect.go\<close>, \<open>pingreq.go\<close>, \<open>pingresp.go\<close>) and those
  that add a packet identifier (\<open>puback.go\<close>, \<open>pubrec.go\<close>, \<open>pubrel.go\<close>, \<open>pubcomp.go\<close>,
  \<open>unsuback.go\<close>), under \<open>tools/surgemq/message/\<close>. The structs of each family embed one another, so
  they share their methods and differ in the type their constructor sets.
\<close>

section \<open>Constructors\<close>

definition new_header :: "MessageType \<Rightarrow> header" where
  "new_header t = fst (header_SetType zero_header t)"

definition NewPubackMessage :: header where "NewPubackMessage = new_header PUBACK"
definition NewPubrecMessage :: header where "NewPubrecMessage = new_header PUBREC"
definition NewPubrelMessage :: header where "NewPubrelMessage = new_header PUBREL"
definition NewPubcompMessage :: header where "NewPubcompMessage = new_header PUBCOMP"
definition NewUnsubackMessage :: header where "NewUnsubackMessage = new_header UNSUBACK"
definition NewDisconnectMessage :: header where "NewDisconnectMessage = new_header DISCONNECT"
definition NewPingreqMessage :: header where "NewPingreqMessage = new_header PINGREQ"
definition NewPingrespMessage :: header where "NewPingrespMessage = new_header PINGRESP"

section \<open>Header-only packets\<close>

definition disconnect_Len :: "header \<Rightarrow> header \<times> int" where
  "disconnect_Len m = (m, header_msglen m)"

definition disconnect_Decode :: "header \<Rightarrow> slice \<Rightarrow> (header, merror) ret" where
  "disconnect_Decode m src = header_decode m src"

definition disconnect_Encode :: "header \<Rightarrow> bytes \<Rightarrow> (header \<times> bytes, merror) ret" where
  "disconnect_Encode m dst = (if \<not> dirty m then encode_clean m dst else header_encode m dst)"

section \<open>Packets with an identifier\<close>

definition puback_msglen :: "header \<Rightarrow> int" where
  "puback_msglen m = 2"

definition puback_Len :: "header \<Rightarrow> header \<times> int" where
  "puback_Len m = len_with puback_msglen m"

definition puback_Decode :: "header \<Rightarrow> slice \<Rightarrow> (header, merror) ret" where
  "puback_Decode m src =
     ret_bind (header_decode m src) (\<lambda>m tot. do {
       m \<leftarrow> set_packetId_from src tot m;
       Some (m\<lparr>dirty := False\<rparr>, tot + 2, None)
     })"

definition puback_Encode :: "header \<Rightarrow> bytes \<Rightarrow> (header \<times> bytes, merror) ret" where
  "puback_Encode m dst =
     (if \<not> dirty m then encode_clean m dst
      else let hl = header_msglen m; ml = puback_msglen m
           in if int (length dst) < hl + ml
              then Some ((m, dst), 0, Some (EInsufficientBuffer (hl + ml) (int (length dst))))
              else ret_bind (encode_head m dst ml) (\<lambda>(m, dst) tot. do {
                dst \<leftarrow> put_id_or_zero dst tot (deref m (packetId m));
                Some ((m, dst), tot + 2, None)
              }))"

section \<open>Wire form and round trip\<close>

text \<open>A header set up by its constructor for the type \<open>t\<close>, or decoded as that type.\<close>

definition typed :: "MessageType \<Rightarrow> 'a header_scheme \<Rightarrow> byte \<Rightarrow> bool" where
  "typed t m b \<longleftrightarrow> deref m (mtypeflags m) = [b] \<and> drop_bit 4 b = t \<and> b AND 15 = DefaultFlags t"

definition type_byte :: "'a header_scheme \<Rightarrow> byte" where
  "type_byte m = hd (deref m (mtypeflags m))"

lemma typed_type_byte: "typed t m b \<Longrightarrow> type_byte m = b"
  by (simp add: typed_def type_byte_def)

lemma SetType_zero:
  assumes "mtypeflags h = Own []" and "type_Valid t"
  shows "fst (header_SetType h t) = h\<lparr>mtypeflags := Own [push_bit 4 t OR DefaultFlags t], dirty := True\<rparr>"
  using assms unfolding type_Valid_cases
  by (auto simp: header_SetType_def put_mtypeflags_def type_Valid_def DefaultFlags_def)

lemma typed_bits:
  "type_Valid t \<Longrightarrow> drop_bit 4 (push_bit 4 t OR DefaultFlags t) = t \<and>
     (push_bit 4 t OR DefaultFlags t) AND 15 = DefaultFlags t"
  unfolding type_Valid_cases by (auto simp: DefaultFlags_def)

lemma SetType_zero_typed:
  assumes "mtypeflags h = Own []" and "type_Valid t"
  shows "typed t (fst (header_SetType h t)) (push_bit 4 t OR DefaultFlags t)"
  using typed_bits [OF assms(2)] by (simp add: SetType_zero [OF assms] typed_def)

lemma new_header_typed:
  assumes "type_Valid t"
  shows "typed t (new_header t) (push_bit 4 t OR DefaultFlags t)" "dirty (new_header t)"
    "packetId (new_header t) = Own []" "remlen (new_header t) = 0"
  using SetType_zero_typed [of zero_header t] SetType_zero [of zero_header t] assms
  by (simp_all add: new_header_def zero_header_def)

lemma typed_decode:
  assumes "typed t h b0" and "typed t m b" and "type_Valid t" and "t \<noteq> PUBLISH"
    and "n \<le> 268435455" "n \<le> length r"
  shows "header_decode h (Slice (hdr_wire b n @ r) sp) =
    Some (decoded_header h (Slice (hdr_wire b n @ r) sp) n, int (length (hdr_wire b n)), None)"
  using assms by (intro header_decode_wire [where t = t and ?b0.0 = b0]) (simp_all add: typed_def)

definition id_bytes :: "'a header_scheme \<Rightarrow> bytes" where
  "id_bytes m = put_be16 (header_PacketId m)"

definition id_set :: "'a header_scheme \<Rightarrow> bool" where
  "id_set m \<longleftrightarrow> length (deref m (packetId m)) \<in> {0, 2}"

text \<open>\<open>Len\<close> and \<open>SetRemainingLength\<close> touch none of these.\<close>

lemma remlen_frame [simp]:
  "type_byte (m\<lparr>remlen := n\<rparr>) = type_byte m" "type_byte (m\<lparr>dirty := d\<rparr>) = type_byte m"
  "typed t (m\<lparr>remlen := n\<rparr>) b = typed t m b" "typed t (m\<lparr>dirty := d\<rparr>) b = typed t m b"
  "id_set (m\<lparr>remlen := n\<rparr>) = id_set m" "id_set (m\<lparr>dirty := d\<rparr>) = id_set m"
  "id_bytes (m\<lparr>remlen := n\<rparr>) = id_bytes m" "id_bytes (m\<lparr>dirty := d\<rparr>) = id_bytes m"
  by (simp_all add: type_byte_def typed_def id_set_def id_bytes_def header_PacketId_def)

lemma be16_length_2: "length p = 2 \<Longrightarrow> put_be16 (the (be16 p)) = p"
proof (cases p rule: be16.cases)
  case (1 a b r)
  assume "length p = 2"
  with 1 have p: "p = [a, b]" by simp
  have "ucast (drop_bit 8 (push_bit 8 (ucast a) OR ucast b :: 16 word)) = a"
    by (rule bit_word_eqI) (auto simp: bit_simps dest: bit_imp_le_length)
  moreover have "ucast (push_bit 8 (ucast a) OR ucast b :: 16 word) = b"
    by (rule bit_word_eqI) (auto simp: bit_simps dest: bit_imp_le_length)
  ultimately show ?thesis by (simp add: p put_be16_def)
qed simp_all

lemma id_bytes_written:
  assumes "id_set m"
  shows "(if 2 \<le> length (deref m (packetId m)) then take 2 (deref m (packetId m)) else [0, 0]) =
           id_bytes m"
  using assms be16_length_2 [of "deref m (packetId m)"]
  by (auto simp: id_set_def id_bytes_def header_PacketId_def) (simp_all add: put_be16_def)

definition ack_ready :: "MessageType \<Rightarrow> header \<Rightarrow> bool" where
  "ack_ready t m \<longleftrightarrow> dirty m \<and> typed t m (type_byte m) \<and> id_set m"

definition ack_wire :: "header \<Rightarrow> bytes" where
  "ack_wire m = hdr_wire (type_byte m) 2 @ id_bytes m"

definition ack_same :: "MessageType \<Rightarrow> header \<Rightarrow> header \<Rightarrow> bool" where
  "ack_same t m m' \<longleftrightarrow> header_PacketId m' = header_PacketId m \<and> snd (header_Type m') = t"

definition ack_types :: "MessageType set" where
  "ack_types = {PUBACK, PUBREC, PUBREL, PUBCOMP, UNSUBACK}"

lemma uvarint_bytes_small: "n < 128 \<Longrightarrow> uvarint_bytes n = [of_nat n]"
  by (subst uvarint_bytes.simps) simp

lemma length_ack_wire [simp]: "length (ack_wire m) = 4"
  by (simp add: ack_wire_def uvarint_bytes_small id_bytes_def)

lemma ack_encode:
  assumes "ack_ready t m" and "t \<in> ack_types" and "header_msglen m = 2" and "4 \<le> length dst"
  shows "puback_Encode m dst = Some ((m\<lparr>remlen := 2, dirty := True\<rparr>, wr (ack_wire m) dst), 4, None)"
proof -
  let ?b = "type_byte m"
  have b: "deref m (mtypeflags m) = [?b]" "drop_bit 4 ?b = t" "type_Valid t" "dirty m" "id_set m"
    using assms by (auto simp: ack_ready_def typed_def ack_types_def type_Valid_cases)
  have 1: "encode_head m dst 2 =
      Some ((m\<lparr>remlen := 2, dirty := True\<rparr>, wr (hdr_wire ?b 2) dst), 2, None)"
    using encode_head_wire [OF b(1), of 2 dst] b assms(4) by (simp add: uvarint_bytes_small)
  have 2: "put_id_or_zero (wr (hdr_wire ?b 2) dst) 2 (deref m (packetId m)) =
      Some (wr (ack_wire m) dst)"
    using put_id_or_zero_wr [of 2 "hdr_wire ?b 2" dst] assms(4) id_bytes_written [OF b(5)]
    by (simp add: ack_wire_def uvarint_bytes_small)
  show ?thesis
    using assms b 1 2 by (simp add: puback_Encode_def puback_msglen_def Let_def)
qed

definition ack_decoded :: "header \<Rightarrow> slice \<Rightarrow> header" where
  "ack_decoded m src = (decoded_header m src 2)\<lparr>packetId := Sub 2 2, dirty := False\<rparr>"

lemma ack_decode:
  assumes "ack_ready t m" and "t \<in> ack_types" and "typed t h b0"
  shows "puback_Decode h (Slice (ack_wire m) sp) = Some (ack_decoded h (Slice (ack_wire m) sp), 4, None)"
proof -
  have t: "type_Valid t" "t \<noteq> PUBLISH" using assms(2) by (auto simp: ack_types_def type_Valid_cases)
  have 1: "header_decode h (Slice (ack_wire m) sp) =
      Some (decoded_header h (Slice (ack_wire m) sp) 2, 2, None)"
    using typed_decode [of t h b0 m "type_byte m" 2 "id_bytes m" sp] assms t
    by (simp add: ack_ready_def ack_wire_def id_bytes_def uvarint_bytes_small)
  have 2: "slice_range (Slice (ack_wire m) sp) 2 4 = Some (Slice (id_bytes m) sp)"
    using slice_range_split [of 2 "hdr_wire (type_byte m) 2" 4 "id_bytes m" "[]" sp]
    by (simp add: ack_wire_def uvarint_bytes_small id_bytes_def)
  show ?thesis
    using 1 2 by (simp add: puback_Decode_def set_packetId_from_def ack_decoded_def)
qed

lemma deref_ack_decoded:
  assumes "typed t m (type_byte m)"
  shows "header_PacketId (ack_decoded h (Slice (ack_wire m) sp)) = header_PacketId m"
    "header_Type (ack_decoded h (Slice (ack_wire m) sp)) = (ack_decoded h (Slice (ack_wire m) sp), t)"
    "typed t (ack_decoded h (Slice (ack_wire m) sp)) (type_byte m)"
proof -
  let ?d = "ack_decoded h (Slice (ack_wire m) sp)"
  have p: "deref ?d (packetId ?d) = put_be16 (header_PacketId m)"
    by (simp add: ack_decoded_def decoded_header_def set_dbuf_def sfull_def ack_wire_def id_bytes_def
        hdr_wire_def uvarint_bytes_small)
  have r: "deref ?d (mtypeflags ?d) = [type_byte m]"
    by (simp add: ack_decoded_def decoded_header_def set_dbuf_def sfull_def ack_wire_def hdr_wire_def)
  show "header_PacketId ?d = header_PacketId m" using p by (rule header_PacketId_be16)
  show "header_Type ?d = (?d, t)" using header_Type_single [OF r] assms by (simp add: typed_def)
  show "typed t ?d (type_byte m)" using r assms by (simp add: typed_def)
qed

lemma puback_codec:
  assumes t: "t \<in> ack_types"
  shows "buffer_codec (\<lambda>m. Some (puback_Len m)) puback_Encode puback_Decode (new_header t)
    (ack_ready t) ack_wire (ack_same t)"
proof (rule buffer_codecI [where settle = "\<lambda>m. m\<lparr>remlen := 2, dirty := True\<rparr>"])
  have tv: "type_Valid t" using t by (auto simp: ack_types_def type_Valid_cases)
  fix m sp dst
  assume m: "ack_ready t m"
  show "Some (puback_Len m) = Some (m\<lparr>remlen := 2, dirty := True\<rparr>, int (length (ack_wire m)))"
    using m by (simp add: puback_Len_def len_with_dirty puback_msglen_def ack_ready_def header_msglen_def)
  let ?m = "m\<lparr>remlen := 2, dirty := True\<rparr>"
  have m2: "ack_ready t ?m" "ack_wire ?m = ack_wire m"
    using m by (auto simp: ack_ready_def ack_wire_def)
  show "\<exists>m'. puback_Encode ?m dst = Some ((m', wr (ack_wire m) dst), int (length (ack_wire m)), None)"
    if "length (ack_wire m) \<le> length dst"
    using ack_encode [OF m2(1) t, of dst] that m2(2) by (simp add: header_msglen_def)
  let ?d = "ack_decoded (new_header t) (Slice (ack_wire m) sp)"
  have dec: "puback_Decode (new_header t) (Slice (ack_wire m) sp) = Some (?d, 4, None)"
    by (rule ack_decode [OF m t new_header_typed(1) [OF tv]])
  have ty: "typed t m (type_byte m)" using m by (simp add: ack_ready_def)
  have "\<not> dirty ?d" "sdata (dbuf ?d) = ack_wire m"
    by (simp_all add: ack_decoded_def decoded_header_def set_dbuf_def)
  then have "\<forall>dst. length (ack_wire m) \<le> length dst \<longrightarrow>
      puback_Encode ?d dst = Some ((?d, wr (ack_wire m) dst), int (length (ack_wire m)), None)"
    by (rule replay_clean) (simp add: puback_Encode_def)
  then show "\<exists>m'. puback_Decode (new_header t) (Slice (ack_wire m) sp) =
          Some (m', int (length (ack_wire m)), None) \<and> ack_same t m m' \<and>
          (\<forall>dst. length (ack_wire m) \<le> length dst \<longrightarrow>
            puback_Encode m' dst = Some ((m', wr (ack_wire m) dst), int (length (ack_wire m)), None))"
    using dec deref_ack_decoded [OF ty] by (auto simp: ack_same_def)
qed

text \<open>The header-only packets.\<close>

definition bare_ready :: "MessageType \<Rightarrow> header \<Rightarrow> bool" where
  "bare_ready t m \<longleftrightarrow> dirty m \<and> typed t m (type_byte m) \<and> remlen m = 0"

definition bare_wire :: "header \<Rightarrow> bytes" where
  "bare_wire m = hdr_wire (type_byte m) 0"

definition bare_same :: "MessageType \<Rightarrow> header \<Rightarrow> header \<Rightarrow> bool" where
  "bare_same t m m' \<longleftrightarrow> remlen m' = 0 \<and> snd (header_Type m') = t"

definition bare_types :: "MessageType set" where
  "bare_types = {DISCONNECT, PINGREQ, PINGRESP}"

lemma bare_codec:
  assumes t: "t \<in> bare_types"
  shows "buffer_codec (\<lambda>m. Some (disconnect_Len m)) disconnect_Encode disconnect_Decode
    (new_header t) (bare_ready t) bare_wire (bare_same t)"
proof (rule buffer_codecI [where settle = "\<lambda>m. m"])
  have tv: "type_Valid t" "t \<noteq> PUBLISH" using t by (auto simp: bare_types_def type_Valid_cases)
  fix m sp dst
  assume m: "bare_ready t m"
  have ty: "typed t m (type_byte m)" using m by (simp add: bare_ready_def)
  have lw: "length (bare_wire m) = 2" by (simp add: bare_wire_def uvarint_bytes_small)
  show "Some (disconnect_Len m) = Some (m, int (length (bare_wire m)))"
    using m lw by (simp add: disconnect_Len_def bare_ready_def header_msglen_def)
  have enc: "disconnect_Encode x d = Some ((x, wr (bare_wire m) d), 2, None)"
    if "typed t x (type_byte m)" "dirty x" "remlen x = 0" "2 \<le> length d" for x d
    using header_encode_wire [of x "type_byte m" d] that tv lw
    by (simp add: disconnect_Encode_def typed_def bare_wire_def)
  show "\<exists>m'. disconnect_Encode m dst =
          Some ((m', wr (bare_wire m) dst), int (length (bare_wire m)), None)"
    if "length (bare_wire m) \<le> length dst"
    using enc [OF ty] m that lw by (auto simp: bare_ready_def)
  let ?d = "decoded_header (new_header t) (Slice (bare_wire m) sp) 0"
  have dec: "disconnect_Decode (new_header t) (Slice (bare_wire m) sp) = Some (?d, 2, None)"
    using typed_decode [OF new_header_typed(1) [OF tv(1)] ty tv, of 0 "[]" sp] lw
    by (simp add: disconnect_Decode_def bare_wire_def)
  have d: "deref ?d (mtypeflags ?d) = [type_byte m]" "dirty ?d" "remlen ?d = 0"
    using new_header_typed(2) [OF tv(1)]
    by (simp_all add: decoded_header_def set_dbuf_def sfull_def bare_wire_def hdr_wire_def)
  then have tyd: "typed t ?d (type_byte m)" using ty by (simp add: typed_def)
  show "\<exists>m'. disconnect_Decode (new_header t) (Slice (bare_wire m) sp) =
          Some (m', int (length (bare_wire m)), None) \<and> bare_same t m m' \<and>
          (\<forall>dst. length (bare_wire m) \<le> length dst \<longrightarrow> disconnect_Encode m' dst =
            Some ((m', wr (bare_wire m) dst), int (length (bare_wire m)), None))"
    using dec d header_Type_single [OF d(1)] ty lw enc [OF tyd d(2,3)]
    by (simp add: bare_same_def typed_def)
qed

interpretation disconnect: buffer_codec "\<lambda>m. Some (disconnect_Len m)" disconnect_Encode disconnect_Decode
  NewDisconnectMessage "bare_ready DISCONNECT" bare_wire "bare_same DISCONNECT"
  unfolding NewDisconnectMessage_def by (rule bare_codec) (simp add: bare_types_def)

interpretation pingreq: buffer_codec "\<lambda>m. Some (disconnect_Len m)" disconnect_Encode disconnect_Decode
  NewPingreqMessage "bare_ready PINGREQ" bare_wire "bare_same PINGREQ"
  unfolding NewPingreqMessage_def by (rule bare_codec) (simp add: bare_types_def)

interpretation pingresp: buffer_codec "\<lambda>m. Some (disconnect_Len m)" disconnect_Encode disconnect_Decode
  NewPingrespMessage "bare_ready PINGRESP" bare_wire "bare_same PINGRESP"
  unfolding NewPingrespMessage_def by (rule bare_codec) (simp add: bare_types_def)

interpretation puback: buffer_codec "\<lambda>m. Some (puback_Len m)" puback_Encode puback_Decode NewPubackMessage
  "ack_ready PUBACK" ack_wire "ack_same PUBACK"
  unfolding NewPubackMessage_def by (rule puback_codec) (simp add: ack_types_def)

interpretation pubrec: buffer_codec "\<lambda>m. Some (puback_Len m)" puback_Encode puback_Decode NewPubrecMessage
  "ack_ready PUBREC" ack_wire "ack_same PUBREC"
  unfolding NewPubrecMessage_def by (rule puback_codec) (simp add: ack_types_def)

interpretation pubrel: buffer_codec "\<lambda>m. Some (puback_Len m)" puback_Encode puback_Decode NewPubrelMessage
  "ack_ready PUBREL" ack_wire "ack_same PUBREL"
  unfolding NewPubrelMessage_def by (rule puback_codec) (simp add: ack_types_def)

interpretation pubcomp: buffer_codec "\<lambda>m. Some (puback_Len m)" puback_Encode puback_Decode NewPubcompMessage
  "ack_ready PUBCOMP" ack_wire "ack_same PUBCOMP"
  unfolding NewPubcompMessage_def by (rule puback_codec) (simp add: ack_types_def)

interpretation unsuback: buffer_codec "\<lambda>m. Some (puback_Len m)" puback_Encode puback_Decode NewUnsubackMessage
  "ack_ready UNSUBACK" ack_wire "ack_same UNSUBACK"
  unfolding NewUnsubackMessage_def by (rule puback_codec) (simp add: ack_types_def)

end
