(* ===== verification/Msg_Connack.thy ===== *)
theory Msg_Connack imports Msg_Ack begin

text \<open>
  \<open>tools/surgemq/message/connack.go\<close> and \<open>suback.go\<close>: the two acknowledgements that carry return
  codes.
\<close>

section \<open>CONNACK\<close>

record connack_message = header +
  sessionPresent :: bool
  returnCode :: ConnackCode

definition NewConnackMessage :: connack_message where
  "NewConnackMessage =
     fst (header_SetType
       \<lparr>remlen = 0, mtypeflags = Own [], packetId = Own [], dbuf = exact [], dirty = False,
        sessionPresent = False, returnCode = 0\<rparr> CONNACK)"

definition SetSessionPresent :: "connack_message \<Rightarrow> bool \<Rightarrow> connack_message" where
  "SetSessionPresent m v = m\<lparr>sessionPresent := v, dirty := True\<rparr>"

definition SetReturnCode :: "connack_message \<Rightarrow> ConnackCode \<Rightarrow> connack_message" where
  "SetReturnCode m r = m\<lparr>returnCode := r, dirty := True\<rparr>"

definition connack_msglen :: "connack_message \<Rightarrow> int" where
  "connack_msglen m = 2"

definition connack_Len :: "connack_message \<Rightarrow> connack_message \<times> int" where
  "connack_Len m = len_with connack_msglen m"

definition connack_Decode :: "connack_message \<Rightarrow> slice \<Rightarrow> (connack_message, merror) ret" where
  "connack_Decode m src =
     ret_bind (header_decode m src) (\<lambda>m tot. do {
       b \<leftarrow> slice_index src tot;
       if b AND 254 \<noteq> 0 then Some (m, 0, Some EConnackAckFlags)
       else do {
         let m = m\<lparr>sessionPresent := (b AND 1 = 1)\<rparr>;
         let tot = tot + 1;
         b \<leftarrow> slice_index src tot;
         if b > 5 then Some (m, 0, Some (EReturnCode b 0))
         else Some (m\<lparr>returnCode := b, dirty := False\<rparr>, tot + 1, None)
       }
     })"

definition connack_Encode :: "connack_message \<Rightarrow> bytes \<Rightarrow> (connack_message \<times> bytes, merror) ret" where
  "connack_Encode m dst =
     (if \<not> dirty m then encode_clean m dst
      else let hl = header_msglen m; ml = connack_msglen m
           in if int (length dst) < hl + ml
              then Some ((m, dst), 0, Some (EInsufficientBuffer (hl + ml) (int (length dst))))
              else ret_bind (encode_head m dst ml) (\<lambda>(m, dst) tot. do {
                dst \<leftarrow> (if sessionPresent m then set_at dst tot 1 else Some dst);
                let tot = tot + 1;
                if returnCode m > 5 then Some ((m, dst), tot, Some (EReturnCode (returnCode m) 0))
                else do {
                  dst \<leftarrow> set_at dst tot (code_Value (returnCode m));
                  Some ((m, dst), tot + 1, None)
                }
              }))"

definition connack_ready :: "connack_message \<Rightarrow> bool" where
  "connack_ready m \<longleftrightarrow> dirty m \<and> typed CONNACK m (type_byte m) \<and> code_Valid (returnCode m)"

definition connack_wire :: "connack_message \<Rightarrow> bytes" where
  "connack_wire m =
     hdr_wire (type_byte m) 2 @ [if sessionPresent m then 1 else 0, code_Value (returnCode m)]"

definition connack_same :: "connack_message \<Rightarrow> connack_message \<Rightarrow> bool" where
  "connack_same m m' \<longleftrightarrow>
     sessionPresent m' = sessionPresent m \<and> returnCode m' = returnCode m \<and>
     snd (header_Type m') = CONNACK"

lemma length_connack_wire [simp]: "length (connack_wire m) = 4"
  by (simp add: connack_wire_def uvarint_bytes_small)

text \<open>
  What \<open>Encode\<close> leaves behind in any buffer: the acknowledge-flags byte is only written when
  the session-present flag is set.
\<close>

lemma connack_encode:
  assumes "connack_ready m" and "header_msglen m = 2" and "4 \<le> length dst"
  shows "connack_Encode m dst =
    Some ((m\<lparr>remlen := 2, dirty := True\<rparr>,
           wr (hdr_wire (type_byte m) 2 @
               [if sessionPresent m then 1 else dst ! 2, code_Value (returnCode m)]) dst), 4, None)"
proof -
  let ?b = "type_byte m" and ?m = "m\<lparr>remlen := 2, dirty := True\<rparr>"
  let ?w = "hdr_wire ?b 2"
  have b: "deref m (mtypeflags m) = [?b]" "drop_bit 4 ?b = CONNACK" "dirty m" "\<not> returnCode m > 5"
    using assms by (auto simp: connack_ready_def typed_def code_Valid_def)
  have 1: "encode_head m dst 2 = Some ((?m, wr ?w dst), 2, None)"
    using encode_head_wire [OF b(1), of 2 dst] b assms(3)
    by (simp add: uvarint_bytes_small type_Valid_cases)
  have skip: "wr ?w dst = wr (?w @ [dst ! 2]) dst"
    using assms(3) by (simp add: wr_def uvarint_bytes_small hdr_wire_def Cons_nth_drop_Suc numeral_2_eq_2)
  have 2: "(if sessionPresent ?m then set_at (wr ?w dst) 2 1 else Some (wr ?w dst)) =
      Some (wr (?w @ [if sessionPresent m then 1 else dst ! 2]) dst)"
  proof (cases "sessionPresent m")
    case True
    then show ?thesis
      using assms(3) set_at_wr [of 2 ?w dst 1] by (simp add: uvarint_bytes_small)
  next
    case False
    then show ?thesis using skip by simp
  qed
  have 3: "set_at (wr (?w @ [x]) dst) 3 y = Some (wr (?w @ [x, y]) dst)" for x y
    using set_at_wr [of 3 "?w @ [x]" dst y] assms(3) by (simp add: uvarint_bytes_small)
  show ?thesis
    using assms b 1 2 3 by (simp add: connack_Encode_def connack_msglen_def Let_def)
qed

lemma connack_wire_decode:
  assumes "connack_ready m"
  shows "\<exists>m'. connack_Decode NewConnackMessage (Slice (connack_wire m) sp) = Some (m', 4, None) \<and>
    connack_same m m' \<and> \<not> dirty m' \<and> sdata (dbuf m') = connack_wire m"
proof -
  let ?b = "type_byte m" and ?src = "Slice (connack_wire m) sp"
  let ?f = "if sessionPresent m then 1 else 0 :: byte"
  let ?d = "decoded_header NewConnackMessage ?src 2"
  have ty: "typed CONNACK m ?b" using assms by (simp add: connack_ready_def)
  have new: "typed CONNACK NewConnackMessage (push_bit 4 CONNACK OR DefaultFlags CONNACK)"
    unfolding NewConnackMessage_def by (rule SetType_zero_typed) (simp_all add: type_Valid_def)
  have 1: "header_decode NewConnackMessage ?src = Some (?d, 2, None)"
    using typed_decode [OF new ty, of 2 "[?f, code_Value (returnCode m)]" sp]
    by (simp add: connack_wire_def type_Valid_def uvarint_bytes_small)
  have 2: "slice_index ?src 2 = Some ?f"
    using slice_index_split [of 2 "hdr_wire ?b 2"] by (simp add: connack_wire_def uvarint_bytes_small)
  have 3: "slice_index ?src 3 = Some (returnCode m)"
    using slice_index_split [of 3 "hdr_wire ?b 2 @ [?f]" "returnCode m" "[]" sp]
    by (simp add: connack_wire_def uvarint_bytes_small code_Value_def)
  have ref: "deref_in ?src (Sub 0 1) = [?b]" by (simp add: sfull_def connack_wire_def hdr_wire_def)
  have "connack_Decode NewConnackMessage ?src =
      Some (?d\<lparr>sessionPresent := sessionPresent m, returnCode := returnCode m, dirty := False\<rparr>, 4, None)"
    using 1 2 3 assms
    by (cases "sessionPresent m") (simp_all add: connack_Decode_def connack_ready_def code_Valid_def Let_def
        linorder_not_less)
  then show ?thesis
    using ref ty by (simp add: connack_same_def decoded_header_def set_dbuf_def header_Type_def typed_def)
qed

interpretation connack: codec "\<lambda>m. Some (connack_Len m)" connack_Encode connack_Decode
  NewConnackMessage connack_ready connack_wire connack_same
proof
  fix m sp m' n dst k l
  assume m: "connack_ready m"
  have len: "connack_Len m = (m\<lparr>remlen := 2, dirty := True\<rparr>, 4)"
    using m by (simp add: connack_Len_def len_with_dirty connack_msglen_def connack_ready_def header_msglen_def)
  then show "\<exists>m'. Some (connack_Len m) = Some (m', int (length (connack_wire m)))" by simp
  let ?m = "m\<lparr>remlen := 2, dirty := True\<rparr>"
  have m2: "connack_ready ?m" using m by (simp add: connack_ready_def)
  show "\<exists>m''. connack_Encode m' (replicate k 0) = Some ((m'', connack_wire m), int k, None)"
    if "Some (connack_Len m) = Some (m', l)" and "length (connack_wire m) = k"
  proof -
    have k: "k = 4" "m' = ?m" using that len by simp_all
    have "wr (connack_wire m) (replicate 4 0) = connack_wire m" by (rule wr_exact) simp
    then show ?thesis
      using connack_encode [OF m2, of "replicate 4 0"]
      by (cases "sessionPresent m") (simp_all add: header_msglen_def type_byte_def connack_wire_def k)
  qed
  obtain d where d: "connack_Decode NewConnackMessage (Slice (connack_wire m) sp) = Some (d, 4, None)"
      "connack_same m d" "\<not> dirty d" "sdata (dbuf d) = connack_wire m"
    using connack_wire_decode [OF m, of sp] by auto
  then show "\<exists>m'. connack_Decode NewConnackMessage (Slice (connack_wire m) sp) =
      Some (m', int (length (connack_wire m)), None) \<and> connack_same m m'" by simp
  show "connack_Encode m' dst = Some ((m', wr (connack_wire m) dst), int (length (connack_wire m)), None)"
    if "connack_Decode NewConnackMessage (Slice (connack_wire m) sp) = Some (m', n, None)"
      and "length (connack_wire m) \<le> length dst"
    using that d encode_clean_copy [of d dst] by (simp add: connack_Encode_def)
qed

section \<open>SUBACK\<close>

record suback_message = header +
  returnCodes :: bytes

definition NewSubackMessage :: suback_message where
  "NewSubackMessage =
     fst (header_SetType
       \<lparr>remlen = 0, mtypeflags = Own [], packetId = Own [], dbuf = exact [], dirty = False,
        returnCodes = []\<rparr> SUBACK)"

definition suback_code_ok :: "byte \<Rightarrow> bool" where
  "suback_code_ok c \<longleftrightarrow> c = QosAtMostOnce \<or> c = QosAtLeastOnce \<or> c = QosExactlyOnce \<or> c = QosFailure"

text \<open>The codes before the first invalid one stay appended when the loop returns its error.\<close>

fun AddReturnCodes :: "suback_message \<Rightarrow> bytes \<Rightarrow> suback_message \<times> merror option" where
  "AddReturnCodes m [] = (m\<lparr>dirty := True\<rparr>, None)"
| "AddReturnCodes m (c # cs) =
     (if \<not> suback_code_ok c then (m, Some (EReturnCode c 0))
      else AddReturnCodes (m\<lparr>returnCodes := returnCodes m @ [c]\<rparr>) cs)"

definition AddReturnCode :: "suback_message \<Rightarrow> byte \<Rightarrow> suback_message \<times> merror option" where
  "AddReturnCode m r = AddReturnCodes m [r]"

text \<open>The loop that looks for an invalid code, with its index.\<close>

fun first_bad_code :: "nat \<Rightarrow> bytes \<Rightarrow> merror option" where
  "first_bad_code i [] = None"
| "first_bad_code i (c # cs) =
     (if \<not> suback_code_ok c then Some (EReturnCode c i) else first_bad_code (Suc i) cs)"

definition suback_msglen :: "suback_message \<Rightarrow> int" where
  "suback_msglen m = 2 + int (length (returnCodes m))"

definition suback_Len :: "suback_message \<Rightarrow> suback_message \<times> int" where
  "suback_Len m = len_with suback_msglen m"

definition suback_Decode :: "suback_message \<Rightarrow> slice \<Rightarrow> (suback_message, merror) ret" where
  "suback_Decode m src =
     ret_bind (header_decode m src) (\<lambda>m hn. do {
       m \<leftarrow> set_packetId_from src hn m;
       let tot = hn + 2;
       let l = remlen m - (tot - hn);
       s \<leftarrow> slice_range src tot (tot + l);
       let m = m\<lparr>returnCodes := sdata s\<rparr>;
       let tot = tot + slen s;
       case first_bad_code 0 (returnCodes m) of
         Some e \<Rightarrow> Some (m, tot, Some e)
       | None \<Rightarrow> Some (m\<lparr>dirty := False\<rparr>, tot, None)
     })"

definition suback_Encode :: "suback_message \<Rightarrow> bytes \<Rightarrow> (suback_message \<times> bytes, merror) ret" where
  "suback_Encode m dst =
     (if \<not> dirty m then encode_clean m dst
      else case first_bad_code 0 (returnCodes m) of
        Some e \<Rightarrow> Some ((m, dst), 0, Some e)
      | None \<Rightarrow>
          let hl = header_msglen m; ml = suback_msglen m
          in if int (length dst) < hl + ml
             then Some ((m, dst), 0, Some (EInsufficientBuffer (hl + ml) (int (length dst))))
             else ret_bind (encode_head m dst ml) (\<lambda>(m, dst) tot. do {
               dst \<leftarrow> put_id_or_zero dst tot (deref m (packetId m));
               let tot = tot + 2;
               (dst, _) \<leftarrow> copy_at dst tot (returnCodes m);
               Some ((m, dst), tot + int (length (returnCodes m)), None)
             }))"

definition suback_ready :: "suback_message \<Rightarrow> bool" where
  "suback_ready m \<longleftrightarrow> dirty m \<and> typed SUBACK m (type_byte m) \<and> id_set m \<and>
     list_all suback_code_ok (returnCodes m) \<and> suback_msglen m \<le> maxRemainingLength"

definition suback_wire :: "suback_message \<Rightarrow> bytes" where
  "suback_wire m =
     hdr_wire (type_byte m) (2 + length (returnCodes m)) @ id_bytes m @ returnCodes m"

definition suback_same :: "suback_message \<Rightarrow> suback_message \<Rightarrow> bool" where
  "suback_same m m' \<longleftrightarrow>
     header_PacketId m' = header_PacketId m \<and> returnCodes m' = returnCodes m \<and>
     snd (header_Type m') = SUBACK"

lemma first_bad_code_None: "first_bad_code i cs = None \<longleftrightarrow> list_all suback_code_ok cs"
  by (induction i cs rule: first_bad_code.induct) auto

lemma AddReturnCodes_ok:
  "list_all suback_code_ok cs \<Longrightarrow>
   AddReturnCodes m cs = (m\<lparr>returnCodes := returnCodes m @ cs, dirty := True\<rparr>, None)"
  by (induction m cs rule: AddReturnCodes.induct) auto

lemma AddReturnCodes_keeps_valid:
  "list_all suback_code_ok (returnCodes m) \<Longrightarrow>
   list_all suback_code_ok (returnCodes (fst (AddReturnCodes m cs)))"
  by (induction m cs rule: AddReturnCodes.induct) auto

lemma length_id_bytes [simp]: "length (id_bytes m) = 2"
  by (simp add: id_bytes_def)

lemma suback_encode:
  assumes "suback_ready m" and "header_msglen m + suback_msglen m = int (length (suback_wire m))"
    and "length (suback_wire m) \<le> length dst"
  shows "suback_Encode m dst =
    Some ((m\<lparr>remlen := suback_msglen m, dirty := True\<rparr>, wr (suback_wire m) dst),
          int (length (suback_wire m)), None)"
proof -
  let ?b = "type_byte m" and ?n = "2 + length (returnCodes m)"
  let ?m = "m\<lparr>remlen := suback_msglen m, dirty := True\<rparr>" and ?w = "hdr_wire ?b ?n"
  have b: "deref m (mtypeflags m) = [?b]" "drop_bit 4 ?b = SUBACK" "dirty m" "id_set m"
    "first_bad_code 0 (returnCodes m) = None"
    using assms(1) by (auto simp: suback_ready_def typed_def first_bad_code_None)
  have n: "nat (suback_msglen m) = ?n" by (simp add: suback_msglen_def nat_add_distrib)
  have 1: "encode_head m dst (suback_msglen m) = Some ((?m, wr ?w dst), int (length ?w), None)"
    using encode_head_wire [OF b(1), of "suback_msglen m" dst] b assms n
    by (simp add: suback_ready_def type_Valid_cases suback_wire_def suback_msglen_def)
  have 2: "put_id_or_zero (wr ?w dst) (int (length ?w)) (deref m (packetId m)) =
      Some (wr (?w @ id_bytes m) dst)"
    using put_id_or_zero_wr [of "int (length ?w)" ?w dst] assms(3) id_bytes_written [OF b(4)]
    by (simp add: suback_wire_def)
  have 3: "copy_at (wr (?w @ id_bytes m) dst) (int (length ?w) + 2) (returnCodes m) =
      Some (wr (suback_wire m) dst, int (length (returnCodes m)))"
    using copy_at_wr [of "int (length ?w) + 2" "?w @ id_bytes m" "returnCodes m" dst] assms(3)
    by (simp add: suback_wire_def)
  show ?thesis
    using assms b 1 2 3 by (simp add: suback_Encode_def Let_def suback_wire_def)
qed

lemma suback_wire_decode:
  assumes "suback_ready m"
  shows "\<exists>m'. suback_Decode NewSubackMessage (Slice (suback_wire m) sp) =
      Some (m', int (length (suback_wire m)), None) \<and>
    suback_same m m' \<and> \<not> dirty m' \<and> sdata (dbuf m') = suback_wire m"
proof -
  let ?b = "type_byte m" and ?src = "Slice (suback_wire m) sp" and ?n = "2 + length (returnCodes m)"
  let ?w = "hdr_wire ?b ?n" and ?d = "decoded_header NewSubackMessage ?src ?n"
  have ty: "typed SUBACK m ?b" and n: "?n \<le> 268435455"
    and ok: "first_bad_code 0 (returnCodes m) = None"
    using assms by (auto simp: suback_ready_def suback_msglen_def first_bad_code_None)
  have new: "typed SUBACK NewSubackMessage (push_bit 4 SUBACK OR DefaultFlags SUBACK)"
    unfolding NewSubackMessage_def by (rule SetType_zero_typed) (simp_all add: type_Valid_def)
  have 1: "header_decode NewSubackMessage ?src = Some (?d, int (length ?w), None)"
    using typed_decode [OF new ty, of ?n "id_bytes m @ returnCodes m" sp] n
    by (simp add: suback_wire_def type_Valid_def)
  have 2: "slice_range ?src (int (length ?w)) (int (length ?w) + 2) =
      Some (Slice (id_bytes m) (returnCodes m @ sp))"
    using slice_range_split [of "int (length ?w)" ?w "int (length ?w) + 2" "id_bytes m"]
    by (simp add: suback_wire_def)
  have 3: "slice_range ?src (int (length ?w) + 2) (int (length ?w) + int ?n) =
      Some (Slice (returnCodes m) sp)"
    using slice_range_split [of "int (length ?w) + 2" "?w @ id_bytes m"
        "int (length ?w) + int ?n" "returnCodes m" "[]" sp]
    by (simp add: suback_wire_def)
  let ?m = "?d\<lparr>packetId := Sub (length ?w) 2, returnCodes := returnCodes m, dirty := False\<rparr>"
  have dec: "suback_Decode NewSubackMessage ?src = Some (?m, int (length (suback_wire m)), None)"
    using 1 2 3 ok
    by (simp add: suback_Decode_def set_packetId_from_def Let_def decoded_header_def slen_def
        suback_wire_def algebra_simps nat_add_distrib)
  have ref: "deref_in ?src (Sub 0 1) = [?b]" by (simp add: sfull_def suback_wire_def hdr_wire_def)
  have id: "deref_in ?src (Sub (length ?w) 2) = put_be16 (header_PacketId m)"
    by (simp add: sfull_def suback_wire_def id_bytes_def)
  have "header_PacketId ?m = header_PacketId m"
    using id by (intro header_PacketId_be16) (simp add: decoded_header_def set_dbuf_def)
  then show ?thesis
    using dec ref ty
    by (simp add: suback_same_def decoded_header_def set_dbuf_def header_Type_def typed_def)
qed

interpretation suback: buffer_codec "\<lambda>m. Some (suback_Len m)" suback_Encode suback_Decode
  NewSubackMessage suback_ready suback_wire suback_same
proof (rule buffer_codecI [where settle = "\<lambda>m. m\<lparr>remlen := suback_msglen m, dirty := True\<rparr>"])
  fix m sp dst
  assume m: "suback_ready m"
  let ?ml = "suback_msglen m" and ?m = "m\<lparr>remlen := suback_msglen m, dirty := True\<rparr>"
  have ml: "0 \<le> ?ml" "?ml \<le> maxRemainingLength" "dirty m"
    using m by (simp_all add: suback_ready_def suback_msglen_def)
  have hl: "int (length (hdr_wire (type_byte m) (nat ?ml))) + ?ml = int (length (suback_wire m))"
    by (simp add: suback_wire_def suback_msglen_def nat_add_distrib)
  show "Some (suback_Len m) = Some (?m, int (length (suback_wire m)))"
    using len_with_wire [where msglen = suback_msglen and b = "type_byte m", OF ml(3,1,2)] hl by (simp add: suback_Len_def)
  have m2: "suback_ready ?m" "suback_wire ?m = suback_wire m" "suback_msglen ?m = ?ml"
    using m by (simp_all add: suback_ready_def suback_wire_def suback_msglen_def)
  have "header_msglen ?m + suback_msglen ?m = int (length (suback_wire ?m))"
    using header_msglen_wire [of ?m "type_byte m"] ml hl m2 by simp
  then show "\<exists>m'. suback_Encode ?m dst =
          Some ((m', wr (suback_wire m) dst), int (length (suback_wire m)), None)"
    if "length (suback_wire m) \<le> length dst"
    using suback_encode [OF m2(1), of dst] that m2 by simp
  obtain d where d: "suback_Decode NewSubackMessage (Slice (suback_wire m) sp) =
        Some (d, int (length (suback_wire m)), None)"
      "suback_same m d" "\<not> dirty d" "sdata (dbuf d) = suback_wire m"
    using suback_wire_decode [OF m, of sp] by auto
  show "\<exists>m'. suback_Decode NewSubackMessage (Slice (suback_wire m) sp) =
      Some (m', int (length (suback_wire m)), None) \<and> suback_same m m' \<and>
      (\<forall>dst. length (suback_wire m) \<le> length dst \<longrightarrow>
        suback_Encode m' dst = Some ((m', wr (suback_wire m) dst), int (length (suback_wire m)), None))"
    using d(1,2) replay_clean [OF d(3,4), of suback_Encode] by (simp add: suback_Encode_def)
qed

end
