(* ===== verification/Msg_Publish.thy ===== *)
theory Msg_Publish imports Msg_Connack begin

text \<open>
  \<open>tools/surgemq/message/publish.go\<close>: the PUBLISH packet. Its flags live in the type byte and
  are read and written there; \<open>Flags\<close> panics on a struct that was not made by its constructor,
  so what reads them is optional. \<open>Encode\<close> may draw a packet identifier from the global counter,
  which it takes and returns.
\<close>

section \<open>State and accessors\<close>

record publish_message = header +
  topic :: bytes
  payload :: bytes

definition NewPublishMessage :: publish_message where
  "NewPublishMessage =
     fst (header_SetType
       \<lparr>remlen = 0, mtypeflags = Own [], packetId = Own [], dbuf = exact [], dirty = False,
        topic = [], payload = []\<rparr> PUBLISH)"

definition update_flags :: "(byte \<Rightarrow> byte) \<Rightarrow> 'a header_scheme \<Rightarrow> 'a header_scheme option" where
  "update_flags f m =
     (case deref m (mtypeflags m) of [] \<Rightarrow> None | b # _ \<Rightarrow> Some (put_mtypeflags m (f b)))"

definition Dup :: "publish_message \<Rightarrow> bool option" where
  "Dup m = map_option (\<lambda>f. drop_bit 3 f AND 1 = 1) (header_Flags m)"

definition SetDup :: "publish_message \<Rightarrow> bool \<Rightarrow> publish_message option" where
  "SetDup m v = update_flags (\<lambda>b. if v then b OR 8 else b AND 247) m"

definition Retain :: "publish_message \<Rightarrow> bool option" where
  "Retain m = map_option (\<lambda>f. f AND 1 = 1) (header_Flags m)"

definition SetRetain :: "publish_message \<Rightarrow> bool \<Rightarrow> publish_message option" where
  "SetRetain m v = update_flags (\<lambda>b. if v then b OR 1 else b AND 254) m"

definition QoS :: "publish_message \<Rightarrow> byte option" where
  "QoS m = map_option (\<lambda>f. drop_bit 1 f AND 3) (header_Flags m)"

definition SetQoS :: "publish_message \<Rightarrow> byte \<Rightarrow> (publish_message \<times> merror option) option" where
  "SetQoS m v =
     (if v \<noteq> 0 \<and> v \<noteq> 1 \<and> v \<noteq> 2 then Some (m, Some (EInvalidQos v))
      else do { m \<leftarrow> update_flags (\<lambda>b. (b AND 249) OR push_bit 1 v) m; Some (m, None) })"

definition SetTopic :: "publish_message \<Rightarrow> bytes \<Rightarrow> publish_message \<times> merror option" where
  "SetTopic m v =
     (if \<not> ValidTopic v then (m, Some (EInvalidTopic v))
      else (m\<lparr>topic := v, dirty := True\<rparr>, None))"

definition SetPayload :: "publish_message \<Rightarrow> bytes \<Rightarrow> publish_message" where
  "SetPayload m v = m\<lparr>payload := v, dirty := True\<rparr>"

definition publish_msglen :: "publish_message \<Rightarrow> int option" where
  "publish_msglen m =
     do {
       q \<leftarrow> QoS m;
       let tot = 2 + int (length (topic m)) + int (length (payload m));
       Some (if q \<noteq> 0 then tot + 2 else tot)
     }"

definition publish_Len :: "publish_message \<Rightarrow> (publish_message \<times> int) option" where
  "publish_Len m =
     (if \<not> dirty m then Some (m, slen (dbuf m))
      else do { ml \<leftarrow> publish_msglen m; Some (len_with (\<lambda>_. ml) m) })"

section \<open>Decode and Encode\<close>

definition publish_Decode :: "publish_message \<Rightarrow> slice \<Rightarrow> (publish_message, merror) ret" where
  "publish_Decode m src =
     ret_bind (header_decode m src) (\<lambda>m hn.
     ret_bind (read_field src hn (\<lambda>b m. m\<lparr>topic := b\<rparr>) m) (\<lambda>m tot.
       if \<not> ValidTopic (topic m) then Some (m, tot, Some (EInvalidTopic (topic m)))
       else do {
         q \<leftarrow> QoS m;
         (m, tot) \<leftarrow> (if q \<noteq> 0 then do { m \<leftarrow> set_packetId_from src tot m; Some (m, tot + 2) }
                      else Some (m, tot));
         let l = remlen m - (tot - hn);
         s \<leftarrow> slice_range src tot (tot + l);
         Some (m\<lparr>payload := sdata s, dirty := False\<rparr>, tot + slen s, None)
       }))"

text \<open>
  The encoders that draw identifiers carry the counter with the message. \<open>ensure_packetId\<close> is
  \<open>if this.PacketId() == 0 { this.SetPacketId(uint16(atomic.AddUint64(&gPacketId, 1) & 0xffff)) }\<close>.
\<close>

type_synonym 'm enc_ret = "((64 word \<times> 'm) \<times> bytes, merror) ret"

definition with_counter :: "64 word \<Rightarrow> ('m \<times> bytes, merror) ret \<Rightarrow> 'm enc_ret" where
  "with_counter g r = map_option (\<lambda>((m, d), n, e). (((g, m), d), n, e)) r"

definition drop_counter :: "'m enc_ret \<Rightarrow> ('m \<times> bytes, merror) ret" where
  "drop_counter r = map_option (\<lambda>(((g, m), d), n, e). ((m, d), n, e)) r"

definition with_state :: "'s \<Rightarrow> (bytes, merror) ret \<Rightarrow> ('s \<times> bytes, merror) ret" where
  "with_state s r = map_option (\<lambda>(d, n, e). ((s, d), n, e)) r"

definition ensure_packetId :: "64 word \<times> 'a header_scheme \<Rightarrow> 64 word \<times> 'a header_scheme" where
  "ensure_packetId gm =
     (if header_PacketId (snd gm) = 0
      then case fresh_packetId (fst gm) of (g, v) \<Rightarrow> (g, SetPacketId (snd gm) v)
      else gm)"

definition publish_Encode :: "64 word \<Rightarrow> publish_message \<Rightarrow> bytes \<Rightarrow> publish_message enc_ret" where
  "publish_Encode g m dst =
     (if \<not> dirty m then with_counter g (encode_clean m dst)
      else if length (topic m) = 0 then Some (((g, m), dst), 0, Some EEmptyTopic)
      else if length (payload m) = 0 then Some (((g, m), dst), 0, Some EEmptyPayload)
      else do {
        ml \<leftarrow> publish_msglen m;
        ret_bind (with_counter g (set_remlen (m, dst) ml)) (\<lambda>((g, m), dst) _.
          let hl = header_msglen m
          in if int (length dst) < hl + ml
             then Some (((g, m), dst), 0, Some (EInsufficientBuffer (hl + ml) (int (length dst))))
             else ret_bind (with_counter g (header_encode m dst)) (\<lambda>((g, m), dst) tot.
                  ret_bind (with_state (g, m) (write_field dst tot (topic m))) (\<lambda>((g, m), dst) tot. do {
                    q \<leftarrow> QoS m;
                    ((g, m), dst, tot) \<leftarrow>
                      (if q \<noteq> 0
                       then case ensure_packetId (g, m) of (g, m) \<Rightarrow> do {
                         (dst, n) \<leftarrow> copy_at dst tot (deref m (packetId m));
                         Some ((g, m), dst, tot + n)
                       }
                       else Some ((g, m), dst, tot));
                    (dst, _) \<leftarrow> copy_at dst tot (payload m);
                    Some (((g, m), dst), tot + int (length (payload m)), None)
                  })))
      })"

section \<open>The flags\<close>

definition qos_of :: "byte \<Rightarrow> byte" where
  "qos_of b = drop_bit 1 (b AND 15) AND 3"

lemma QoS_single: "deref m (mtypeflags m) = [b] \<Longrightarrow> QoS m = Some (qos_of b)"
  by (simp add: QoS_def header_Flags_single qos_of_def)

text \<open>A message whose type byte is there and is that of a PUBLISH packet with a valid QoS.\<close>

definition pub_typed :: "'a header_scheme \<Rightarrow> byte \<Rightarrow> bool" where
  "pub_typed m b \<longleftrightarrow>
     deref m (mtypeflags m) = [b] \<and> drop_bit 4 b = PUBLISH \<and> ValidQos (qos_of b)"

text \<open>The type byte is a slice of its own or the first byte of the decoded buffer.\<close>

definition flags_ref :: "'a header_scheme \<Rightarrow> bool" where
  "flags_ref m \<longleftrightarrow> (case mtypeflags m of Own b \<Rightarrow> length b = 1 | Sub i n \<Rightarrow> n = 1 \<and> i < length (sfull (dbuf m)))"

lemma put_mtypeflags_deref:
  assumes "flags_ref m"
  shows "deref (put_mtypeflags m b) (mtypeflags (put_mtypeflags m b)) = [b]"
  using assms
  by (auto simp: put_mtypeflags_def flags_ref_def sfull_splice split: bref.splits)

lemma update_flags_Some:
  assumes "flags_ref m" and "deref m (mtypeflags m) = [b]"
  shows "\<exists>m'. update_flags f m = Some m' \<and> deref m' (mtypeflags m') = [f b]"
  using put_mtypeflags_deref [OF assms(1)] assms(2) by (simp add: update_flags_def)


lemma flag_bits:
  "drop_bit 3 ((b OR 8) AND 15) AND 1 = (1 :: byte)"
  "drop_bit 3 ((b AND 247) AND 15) AND 1 = (0 :: byte)"
  "((b OR 1) AND 15) AND 1 = (1 :: byte)" "((b AND 254) AND 15) AND 1 = (0 :: byte)"
  "qos_of (b OR 8) = qos_of b" "qos_of (b AND 247) = qos_of b"
  "qos_of (b OR 1) = qos_of b" "qos_of (b AND 254) = qos_of b"
  "drop_bit 4 (b OR 8) = drop_bit 4 b" "drop_bit 4 (b AND 247) = drop_bit 4 b"
  "drop_bit 4 (b OR 1) = drop_bit 4 b" "drop_bit 4 (b AND 254) = drop_bit 4 b"
  unfolding qos_of_def
  by (rule bit_word_eqI; fastforce simp: bit_simps numeral_eq_Suc less_Suc_eq dest: bit_imp_le_length)+

lemma qos_bits:
  assumes "v = 0 \<or> v = 1 \<or> v = 2"
  shows "qos_of ((b AND 249) OR push_bit 1 v) = v"
    "drop_bit 4 ((b AND 249) OR push_bit 1 v) = drop_bit 4 b"
    "drop_bit 3 (((b AND 249) OR push_bit 1 v) AND 15) AND 1 = drop_bit 3 (b AND 15) AND 1"
    "((b AND 249) OR push_bit 1 v) AND 1 = b AND 1"
  using assms unfolding qos_of_def
  by (elim disjE; hypsubst; intro bit_word_eqI; fastforce simp: bit_simps numeral_eq_Suc less_Suc_eq dest: bit_imp_le_length)+


section \<open>Wire form and round trip\<close>

definition pub_id :: "'a header_scheme \<Rightarrow> bytes" where
  "pub_id m = (if qos_of (type_byte m) \<noteq> 0 then deref m (packetId m) else [])"

definition publish_size :: "publish_message \<Rightarrow> nat" where
  "publish_size m =
     2 + length (topic m) + (if qos_of (type_byte m) \<noteq> 0 then 2 else 0) + length (payload m)"

text \<open>What the setters establish: a topic, a payload and a type byte the codec accepts.\<close>

definition publish_body_ok :: "publish_message \<Rightarrow> bool" where
  "publish_body_ok m \<longleftrightarrow>
     dirty m \<and> pub_typed m (type_byte m) \<and> ValidTopic (topic m) \<and> length (topic m) \<le> 65535 \<and>
     payload m \<noteq> [] \<and> int (publish_size m) \<le> maxRemainingLength"

text \<open>Above QoS 0 the message carries an identifier.\<close>

definition publish_ready :: "publish_message \<Rightarrow> bool" where
  "publish_ready m \<longleftrightarrow>
     publish_body_ok m \<and> (qos_of (type_byte m) \<noteq> 0 \<longrightarrow> header_PacketId m \<noteq> 0)"

definition publish_wire :: "publish_message \<Rightarrow> bytes" where
  "publish_wire m =
     hdr_wire (type_byte m) (publish_size m) @ lp (topic m) @ pub_id m @ payload m"

definition publish_same :: "publish_message \<Rightarrow> publish_message \<Rightarrow> bool" where
  "publish_same m m' \<longleftrightarrow>
     topic m' = topic m \<and> payload m' = payload m \<and> header_Flags m' = header_Flags m \<and>
     snd (header_Type m') = PUBLISH \<and>
     (QoS m \<noteq> Some 0 \<longrightarrow> header_PacketId m' = header_PacketId m)"

lemma pub_frame [simp]:
  "pub_typed (m\<lparr>remlen := n\<rparr>) b = pub_typed m b" "pub_typed (m\<lparr>dirty := d\<rparr>) b = pub_typed m b"
  "pub_id (m\<lparr>remlen := n\<rparr>) = pub_id m" "pub_id (m\<lparr>dirty := d\<rparr>) = pub_id m"
  "publish_size (m'\<lparr>remlen := n\<rparr>) = publish_size m'" "publish_size (m'\<lparr>dirty := d\<rparr>) = publish_size m'"
  by (simp_all add: pub_typed_def pub_id_def publish_size_def)

lemma pub_typed_deref:
  "pub_typed m b \<Longrightarrow> deref m (mtypeflags m) = [b] \<and> type_byte m = b"
  by (simp add: pub_typed_def type_byte_def)

lemma PacketId_nonzero_length:
  "header_PacketId m \<noteq> 0 \<Longrightarrow> length (deref m (packetId m)) = 2"
  by (simp add: header_PacketId_def Let_def split: if_splits)

lemma publish_msglen_size:
  "pub_typed m b \<Longrightarrow> publish_msglen m = Some (int (publish_size m))"
  using pub_typed_deref [of m b]
  by (simp add: publish_msglen_def QoS_single publish_size_def Let_def)

lemma with_counter_simps [simp]:
  "with_counter g (Some ((m, d), n, e)) = Some (((g, m), d), n, e)"
  "drop_counter (Some (((g, m), d), n, e)) = Some ((m, d), n, e)"
  "with_state s (Some (d, n, e)) = Some ((s, d), n, e)"
  "with_counter g None = None" "drop_counter None = None" "with_state s None = None"
  by (simp_all add: with_counter_def drop_counter_def with_state_def)

text \<open>
  \<open>Encode\<close> in general: \<open>m'\<close> is the message with its identifier drawn, if it needs one. The frame
  is as long as the header says only when the identifier has two bytes.
\<close>

lemma publish_encode:
  assumes m: "publish_body_ok m"
    and m': "m1 = m\<lparr>remlen := int (publish_size m), dirty := True\<rparr>"
      "(g', m') = (if qos_of (type_byte m) \<noteq> 0 then ensure_packetId (g, m1) else (g, m1))"
    and same: "topic m' = topic m" "payload m' = payload m" "type_byte m' = type_byte m"
    and id: "length (pub_id m') \<le> 2"
    and fits: "length (hdr_wire (type_byte m) (publish_size m)) + publish_size m \<le> length dst"
  defines "w \<equiv> hdr_wire (type_byte m) (publish_size m) @ lp (topic m) @ pub_id m' @ payload m"
  shows "publish_Encode g m dst = Some (((g', m'), wr w dst), int (length w), None)"
proof -
  let ?b = "type_byte m" and ?n = "publish_size m" and ?h = "hdr_wire (type_byte m) (publish_size m)"
  have b: "deref m (mtypeflags m) = [?b]" "drop_bit 4 ?b = PUBLISH" "dirty m" "topic m \<noteq> []"
    "payload m \<noteq> []" "int ?n \<le> maxRemainingLength" "length (topic m) \<le> 65535"
    "publish_msglen m = Some (int ?n)"
    using m publish_msglen_size by (auto simp: publish_body_ok_def pub_typed_def ValidTopic_def)
  have q: "QoS m1 = Some (qos_of ?b)" using b(1) unfolding m' by (intro QoS_single) simp
  have 1: "set_remlen (m, dst) (int ?n) = Some ((m1, dst), 0, None)"
    using b by (simp add: set_remlen_def SetRemainingLength_def m' to_int32_id)
  have hl: "header_msglen m1 = int (length ?h)"
    using header_msglen_wire [of m1 ?b] b by (simp add: m')
  have 2: "header_encode m1 dst = Some ((m1, wr ?h dst), int (length ?h), None)"
    using header_encode_wire [of m1 ?b dst] b fits by (simp add: m' type_Valid_cases)
  have sz: "?n = length (lp (topic m)) + (if qos_of ?b \<noteq> 0 then 2 else 0) + length (payload m)"
    by (simp add: publish_size_def)
  have 3: "write_field (wr ?h dst) (int (length ?h)) (topic m) =
      Some (wr (?h @ lp (topic m)) dst, int (length ?h) + int (length (lp (topic m))), None)"
    using fits sz b by (intro write_field_wr) auto
  have 4: "copy_at (wr (?h @ lp (topic m)) dst) (int (length ?h) + int (length (lp (topic m)))) (pub_id m') =
      Some (wr (?h @ lp (topic m) @ pub_id m') dst, int (length (pub_id m')))"
    if "qos_of ?b \<noteq> 0"
  proof -
    have "length (?h @ lp (topic m)) + length (pub_id m') \<le> length dst"
      using fits sz id that by (simp only: length_append if_True simp_thms)
    from copy_at_wr [OF _ this] show ?thesis by simp
  qed
  have 5: "copy_at (wr (?h @ lp (topic m) @ pub_id m') dst)
        (int (length ?h) + int (length (lp (topic m))) + int (length (pub_id m'))) (payload m) =
      Some (wr w dst, int (length (payload m)))"
  proof -
    have "length (pub_id m') \<le> (if qos_of ?b \<noteq> 0 then 2 else 0)"
      using id same by (simp add: pub_id_def split: if_splits)
    then have "length (?h @ lp (topic m) @ pub_id m') + length (payload m) \<le> length dst"
      using fits sz by (simp only: length_append)
    from copy_at_wr [OF _ this] show ?thesis by (simp add: w_def add.assoc)
  qed
  have idv: "deref m' (packetId m') = pub_id m'" if "qos_of ?b \<noteq> 0"
    using that same by (simp add: pub_id_def)
  show ?thesis
  proof (cases "qos_of ?b = 0")
    case True
    then show ?thesis
      using b q 1 2 3 5 hl fits m' same
      by (simp add: publish_Encode_def Let_def w_def pub_id_def)
  next
    case False
    then have e: "ensure_packetId (g, m1) = (g', m')" using m'(2) by simp
    show ?thesis
      using False b q 1 2 3 4 5 hl fits e same idv m'(1)
      by (simp add: publish_Encode_def Let_def w_def add.assoc)
  qed
qed


lemma publish_encode_ready:
  assumes m: "publish_ready m" and fits: "length (publish_wire m) \<le> length dst"
  shows "publish_Encode g m dst =
    Some (((g, m\<lparr>remlen := int (publish_size m), dirty := True\<rparr>), wr (publish_wire m) dst),
          int (length (publish_wire m)), None)"
proof -
  let ?m = "m\<lparr>remlen := int (publish_size m), dirty := True\<rparr>"
  have "header_PacketId ?m = header_PacketId m" by (simp add: header_PacketId_def)
  then have e: "(g, ?m) = (if qos_of (type_byte m) \<noteq> 0 then ensure_packetId (g, ?m) else (g, ?m))"
    using m by (simp add: ensure_packetId_def publish_ready_def)
  have id: "length (pub_id ?m) = (if qos_of (type_byte m) \<noteq> 0 then 2 else 0)"
    using m PacketId_nonzero_length [of m] by (simp add: publish_ready_def pub_id_def)
  show ?thesis
    using publish_encode [OF _ refl e, of dst] m id fits
    by (simp add: publish_ready_def publish_wire_def publish_size_def)
qed

lemma NewPublish_typed: "pub_typed NewPublishMessage (push_bit 4 PUBLISH)" "dirty NewPublishMessage"
  by (simp_all add: NewPublishMessage_def header_SetType_def put_mtypeflags_def type_Valid_def
      DefaultFlags_def pub_typed_def qos_of_def ValidQos_def)

lemma publish_wire_decode:
  assumes m: "publish_ready m"
    and new: "deref h (mtypeflags h) = [b0]" "drop_bit 4 b0 = PUBLISH"
  shows "\<exists>m'. publish_Decode h (Slice (publish_wire m) sp) =
      Some (m', int (length (publish_wire m)), None) \<and>
    publish_same m m' \<and> \<not> dirty m' \<and> mtypeflags m' = Sub 0 1 \<and>
    dbuf m' = Slice (publish_wire m) sp"
proof -
  let ?b = "type_byte m" and ?n = "publish_size m"
  let ?src = "Slice (publish_wire m) sp" and ?h = "hdr_wire ?b ?n"
  let ?d = "decoded_header h ?src ?n"
  have b: "deref m (mtypeflags m) = [?b]" "drop_bit 4 ?b = PUBLISH" "ValidQos (qos_of ?b)"
    "?n \<le> 268435455" "length (topic m) \<le> 65535" "ValidTopic (topic m)"
    using m by (auto simp: publish_ready_def publish_body_ok_def pub_typed_def)
  let ?i = "if qos_of ?b \<noteq> 0 then put_be16 (header_PacketId m) else []"
  have pid: "pub_id m = ?i"
    using m PacketId_nonzero_length [of m] be16_length_2
    by (auto simp: publish_ready_def pub_id_def header_PacketId_def)
  have w: "publish_wire m = ?h @ lp (topic m) @ ?i @ payload m"
    by (simp add: publish_wire_def pid)
  have sz: "int ?n = int (length (lp (topic m))) + int (length ?i) + int (length (payload m))"
    by (simp add: publish_size_def)
  have 1: "header_decode h ?src = Some (?d, int (length ?h), None)"
    using header_decode_wire [OF new b(2), of "?n" "lp (topic m) @ ?i @ payload m" sp] b
    by (simp add: w publish_size_def type_Valid_cases qos_of_def)
  have 2: "read_field ?src (int (length ?h)) (\<lambda>b m. m\<lparr>topic := b\<rparr>) ?d =
      Some (?d\<lparr>topic := topic m\<rparr>, int (length ?h) + int (length (lp (topic m))), None)"
    unfolding w by (rule read_field_lp [OF b(5) refl])
  let ?t = "int (length ?h) + int (length (lp (topic m)))"
  have ref: "deref_in ?src (Sub 0 1) = [?b]" by (simp add: sfull_def w hdr_wire_def)
  then have q: "QoS (?d\<lparr>topic := topic m\<rparr>) = Some (qos_of ?b)"
    by (intro QoS_single) (simp add: decoded_header_def set_dbuf_def)
  have 3: "slice_range ?src ?t (?t + 2) = Some (Slice ?i (payload m @ sp))" if "qos_of ?b \<noteq> 0"
    using slice_range_split [of ?t "?h @ lp (topic m)" "?t + 2" ?i "payload m" sp] that w by simp
  have 4: "slice_range ?src (?t + int (length ?i)) (?t + int (length ?i) + int (length (payload m))) =
      Some (Slice (payload m) sp)"
  proof -
    have "slice_range (Slice ((?h @ lp (topic m) @ ?i) @ payload m) sp)
        (?t + int (length ?i)) (?t + int (length ?i) + int (length (payload m))) = Some (Slice (payload m) sp)"
      by (rule slice_range_tail) simp_all
    then show ?thesis by (simp only: w append_assoc)
  qed
  let ?m = "(if qos_of ?b \<noteq> 0 then ?d\<lparr>topic := topic m, packetId := Sub (nat ?t) 2\<rparr>
      else ?d\<lparr>topic := topic m\<rparr>)\<lparr>payload := payload m, dirty := False\<rparr>"
  have rl: "remlen ?d = int ?n" by (simp add: decoded_header_def)
  have dec: "publish_Decode h ?src = Some (?m, int (length (publish_wire m)), None)"
  proof (cases "qos_of ?b = 0")
    case True
    then show ?thesis
      using 1 2 4 q b(6) rl sz by (simp add: publish_Decode_def Let_def slen_def w algebra_simps)
  next
    case False
    have "slice_range ?src (2 + ?t) (2 + ?t + int (length (payload m))) = Some (Slice (payload m) sp)"
      using 4 False by (simp add: add.commute)
    then show ?thesis
      using False 1 2 3 q b(6) rl sz
      by (simp add: publish_Decode_def Let_def slen_def w set_packetId_from_def algebra_simps)
  qed
  have "header_Flags ?m = header_Flags m" "header_Type ?m = (?m, PUBLISH)"
    using ref b by (simp_all add: decoded_header_def set_dbuf_def header_Flags_def header_Type_def)
  moreover have "header_PacketId ?m = header_PacketId m" if "qos_of ?b \<noteq> 0"
  proof (rule header_PacketId_be16)
    have "take 2 (drop (nat ?t) (publish_wire m @ sp)) = put_be16 (header_PacketId m)"
      using that by (simp add: w nat_add_distrib)
    then show "deref ?m (packetId ?m) = put_be16 (header_PacketId m)"
      using that by (simp add: decoded_header_def set_dbuf_def sfull_def)
  qed
  ultimately show ?thesis
    using dec QoS_single [OF b(1)]
    by (auto simp: publish_same_def decoded_header_def set_dbuf_def)
qed

lemma publish_Len_ready:
  assumes m: "publish_ready m"
  shows "publish_Len m = Some (m\<lparr>remlen := int (publish_size m), dirty := True\<rparr>,
    int (length (publish_wire m)))"
proof -
  let ?n = "int (publish_size m)"
  have b: "dirty m" "?n \<le> maxRemainingLength" "pub_typed m (type_byte m)"
    using m by (simp_all add: publish_ready_def publish_body_ok_def)
  have id: "length (pub_id m) = (if qos_of (type_byte m) \<noteq> 0 then 2 else 0)"
    using m PacketId_nonzero_length [of m] by (simp add: publish_ready_def pub_id_def)
  have "int (length (publish_wire m)) = int (length (hdr_wire (type_byte m) (publish_size m))) + ?n"
    using id by (simp add: publish_wire_def publish_size_def)
  then show ?thesis
    using len_with_wire [where msglen = "\<lambda>_. ?n" and b = "type_byte m", OF b(1) _ b(2)] b
      publish_msglen_size [OF b(3)]
    by (simp add: publish_Len_def)
qed

lemma publish_ready_settled:
  assumes "publish_ready m"
  defines "m' \<equiv> m\<lparr>remlen := int (publish_size m), dirty := True\<rparr>"
  shows "publish_ready m'" "publish_wire m' = publish_wire m"
  using assms(1)
  by (simp_all add: m'_def publish_ready_def publish_body_ok_def publish_wire_def header_PacketId_def)

lemma publish_codec:
  "buffer_codec publish_Len (\<lambda>m dst. drop_counter (publish_Encode g m dst)) publish_Decode
     NewPublishMessage publish_ready publish_wire publish_same"
proof (rule buffer_codecI
    [where settle = "\<lambda>m. m\<lparr>remlen := int (publish_size m), dirty := True\<rparr>"])
  fix m sp dst
  assume m: "publish_ready m"
  let ?m = "m\<lparr>remlen := int (publish_size m), dirty := True\<rparr>"
  show "publish_Len m = Some (?m, int (length (publish_wire m)))" by (rule publish_Len_ready [OF m])
  have "publish_ready ?m" "publish_wire ?m = publish_wire m" using publish_ready_settled [OF m] by simp_all
  then show "\<exists>m'. drop_counter (publish_Encode g ?m dst) =
      Some ((m', wr (publish_wire m) dst), int (length (publish_wire m)), None)"
    if "length (publish_wire m) \<le> length dst"
    using publish_encode_ready [of ?m dst g] that by simp
  obtain d where d: "publish_Decode NewPublishMessage (Slice (publish_wire m) sp) =
      Some (d, int (length (publish_wire m)), None)" "publish_same m d" "\<not> dirty d"
    "sdata (dbuf d) = publish_wire m"
    using publish_wire_decode [OF m, of NewPublishMessage "push_bit 4 PUBLISH"] NewPublish_typed(1)
    by (fastforce simp: pub_typed_def)
  have "drop_counter (publish_Encode g x dst) = encode_clean x dst" if "\<not> dirty x" for x dst
    using that by (auto simp: publish_Encode_def encode_clean_def with_counter_def drop_counter_def
        copy_at_def Let_def)
  from replay_clean [OF d(3,4), of "\<lambda>m dst. drop_counter (publish_Encode g m dst)", OF this] d(1,2)
  show "\<exists>m'. publish_Decode NewPublishMessage (Slice (publish_wire m) sp) =
      Some (m', int (length (publish_wire m)), None) \<and> publish_same m m' \<and>
      (\<forall>dst. length (publish_wire m) \<le> length dst \<longrightarrow> drop_counter (publish_Encode g m' dst) =
        Some ((m', wr (publish_wire m) dst), int (length (publish_wire m)), None))"
    by blast
qed

interpretation publish: buffer_codec publish_Len "\<lambda>m dst. drop_counter (publish_Encode g m dst)"
  publish_Decode NewPublishMessage publish_ready publish_wire publish_same for g
  by (rule publish_codec)

end
