(* ===== verification/Msg_Subscribe.thy ===== *)
theory Msg_Subscribe imports Msg_Publish begin

text \<open>
  \<open>tools/surgemq/message/subscribe.go\<close>: the SUBSCRIBE packet, a packet identifier and a list of
  topic filters with the QoS asked for each, kept in two parallel slices. Indexing the second
  with a position of the first can panic, so what does it is optional; the invariant \<open>sub_inv\<close>
  rules the panic out.
\<close>

section \<open>State and topic list\<close>

record subscribe_message = header +
  sub_topics :: "bytes list"
  sub_qos :: bytes

definition NewSubscribeMessage :: subscribe_message where
  "NewSubscribeMessage =
     fst (header_SetType
       \<lparr>remlen = 0, mtypeflags = Own [], packetId = Own [], dbuf = exact [], dirty = False,
        sub_topics = [], sub_qos = []\<rparr> SUBSCRIBE)"

text \<open>
  The search loop \<open>for i, t = range this.topics { if bytes.Equal(t, topic) { found = true; break } }\<close>.
\<close>

fun topic_index :: "bytes list \<Rightarrow> bytes \<Rightarrow> nat option" where
  "topic_index [] t = None"
| "topic_index (x # xs) t = (if x = t then Some 0 else map_option Suc (topic_index xs t))"

text \<open>\<open>append(xs[:i], xs[i+1:]...)\<close>.\<close>

definition remove_at :: "nat \<Rightarrow> 'a list \<Rightarrow> 'a list option" where
  "remove_at i xs = (if i < length xs then Some (take i xs @ drop (Suc i) xs) else None)"

definition sub_AddTopic ::
    "subscribe_message \<Rightarrow> bytes \<Rightarrow> byte \<Rightarrow> (subscribe_message \<times> merror option) option" where
  "sub_AddTopic m t q =
     (if \<not> ValidQos q then Some (m, Some (EInvalidQos q))
      else case topic_index (sub_topics m) t of
        Some i \<Rightarrow> (if i < length (sub_qos m) then Some (m\<lparr>sub_qos := (sub_qos m)[i := q]\<rparr>, None) else None)
      | None \<Rightarrow> Some (m\<lparr>sub_topics := sub_topics m @ [t], sub_qos := sub_qos m @ [q], dirty := True\<rparr>, None))"

definition sub_RemoveTopic :: "subscribe_message \<Rightarrow> bytes \<Rightarrow> subscribe_message option" where
  "sub_RemoveTopic m t =
     (case topic_index (sub_topics m) t of
        Some i \<Rightarrow> do {
          ts \<leftarrow> remove_at i (sub_topics m);
          qs \<leftarrow> remove_at i (sub_qos m);
          Some (m\<lparr>sub_topics := ts, sub_qos := qs, dirty := True\<rparr>)
        }
      | None \<Rightarrow> Some (m\<lparr>dirty := True\<rparr>))"

definition sub_TopicExists :: "subscribe_message \<Rightarrow> bytes \<Rightarrow> bool" where
  "sub_TopicExists m t = (topic_index (sub_topics m) t \<noteq> None)"

definition sub_TopicQos :: "subscribe_message \<Rightarrow> bytes \<Rightarrow> byte option" where
  "sub_TopicQos m t =
     (case topic_index (sub_topics m) t of
        Some i \<Rightarrow> (if i < length (sub_qos m) then Some (sub_qos m ! i) else None)
      | None \<Rightarrow> Some QosFailure)"

definition subscribe_msglen :: "subscribe_message \<Rightarrow> int" where
  "subscribe_msglen m = 2 + sum_list (map (\<lambda>t. 2 + int (length t) + 1) (sub_topics m))"

definition subscribe_Len :: "subscribe_message \<Rightarrow> subscribe_message \<times> int" where
  "subscribe_Len m = len_with subscribe_msglen m"

section \<open>Decode and Encode\<close>

text \<open>What a successful \<open>readLPBytes\<close> consumed, which makes the loops over topics end.\<close>

lemma readLPBytes_count: "readLPBytes s = Some (b, n, None) \<Longrightarrow> 2 \<le> n"
  by (auto simp: readLPBytes_def Let_def split: if_splits bind_splits)

function sub_read :: "slice \<Rightarrow> int \<Rightarrow> int \<Rightarrow> subscribe_message \<Rightarrow> (subscribe_message, merror) ret" where
  "sub_read src tot rl m =
     (if rl \<le> 0 then Some (m, tot, None)
      else case slice_from src tot of
        None \<Rightarrow> None
      | Some s \<Rightarrow>
        (case readLPBytes s of
           None \<Rightarrow> None
         | Some (t, n, Some e) \<Rightarrow> Some (m, tot + n, Some e)
         | Some (t, n, None) \<Rightarrow>
           (case slice_index src (tot + n) of
              None \<Rightarrow> None
            | Some q \<Rightarrow>
                sub_read src (tot + n + 1) (rl - n - 1)
                  (m\<lparr>sub_topics := sub_topics m @ [t], sub_qos := sub_qos m @ [q]\<rparr>))))"
  by pat_completeness auto
termination
  by (relation "measure (\<lambda>(src, tot, rl, m). nat rl)") (auto dest: readLPBytes_count)

declare sub_read.simps [simp del]

definition subscribe_Decode :: "subscribe_message \<Rightarrow> slice \<Rightarrow> (subscribe_message, merror) ret" where
  "subscribe_Decode m src =
     ret_bind (header_decode m src) (\<lambda>m hn. do {
       m \<leftarrow> set_packetId_from src hn m;
       let tot = hn + 2;
       ret_bind (sub_read src tot (remlen m - (tot - hn)) m) (\<lambda>m tot.
         if sub_topics m = [] then Some (m, 0, Some EEmptyTopicList)
         else Some (m\<lparr>dirty := False\<rparr>, tot, None))
     })"

text \<open>
  \<open>Encode\<close> of SUBSCRIBE and UNSUBSCRIBE up to the topics: size check, header, and the packet
  identifier, drawn from the counter if there is none. The header's length is taken before the
  remaining length is updated.
\<close>

definition encode_id :: "64 word \<Rightarrow> 'a header_scheme \<Rightarrow> bytes \<Rightarrow> int \<Rightarrow> 'a header_scheme enc_ret" where
  "encode_id g m dst ml =
     (let hl = header_msglen m
      in if int (length dst) < hl + ml
         then Some (((g, m), dst), 0, Some (EInsufficientBuffer (hl + ml) (int (length dst))))
         else ret_bind (with_counter g (encode_head m dst ml)) (\<lambda>((g, m), dst) tot.
           case ensure_packetId (g, m) of (g, m) \<Rightarrow> do {
             (dst, n) \<leftarrow> copy_at dst tot (deref m (packetId m));
             Some (((g, m), dst), tot + n, None)
           }))"

fun sub_write :: "bytes \<Rightarrow> int \<Rightarrow> bytes list \<Rightarrow> bytes \<Rightarrow> (bytes, merror) ret" where
  "sub_write dst tot [] qs = Some (dst, tot, None)"
| "sub_write dst tot (t # ts) qs =
     ret_bind (write_field dst tot t) (\<lambda>dst tot.
       case qs of [] \<Rightarrow> None
       | q # qs \<Rightarrow> do { dst \<leftarrow> set_at dst tot q; sub_write dst (tot + 1) ts qs })"

definition subscribe_Encode ::
    "64 word \<Rightarrow> subscribe_message \<Rightarrow> bytes \<Rightarrow> subscribe_message enc_ret" where
  "subscribe_Encode g m dst =
     (if \<not> dirty m then with_counter g (encode_clean m dst)
      else ret_bind (encode_id g m dst (subscribe_msglen m)) (\<lambda>((g, m), dst) tot.
        with_state (g, m) (sub_write dst tot (sub_topics m) (sub_qos m))))"

section \<open>The topic list is a map\<close>

definition sub_inv :: "subscribe_message \<Rightarrow> bool" where
  "sub_inv m \<longleftrightarrow>
     length (sub_qos m) = length (sub_topics m) \<and> distinct (sub_topics m) \<and>
     list_all ValidQos (sub_qos m)"

definition sub_map :: "subscribe_message \<Rightarrow> bytes \<Rightarrow> byte option" where
  "sub_map m = map_of (zip (sub_topics m) (sub_qos m))"

lemma topic_index_None: "topic_index ts t = None \<longleftrightarrow> t \<notin> set ts"
  by (induction ts t rule: topic_index.induct) auto

lemma topic_index_Some: "topic_index ts t = Some i \<Longrightarrow> i < length ts \<and> ts ! i = t"
  by (induction ts t arbitrary: i rule: topic_index.induct) (auto split: if_splits)

lemma map_of_zip_update:
  "topic_index ts t = Some i \<Longrightarrow> length qs = length ts \<Longrightarrow> distinct ts \<Longrightarrow>
   map_of (zip ts (qs[i := q])) = (map_of (zip ts qs))(t \<mapsto> q)"
proof (induction ts t arbitrary: i qs rule: topic_index.induct)
  case (2 x xs t)
  then show ?case by (cases qs) (auto split: if_splits)
qed simp

lemma map_of_zip_nth:
  "topic_index ts t = Some i \<Longrightarrow> length qs = length ts \<Longrightarrow> map_of (zip ts qs) t = Some (qs ! i)"
proof (induction ts t arbitrary: i qs rule: topic_index.induct)
  case (2 x xs t)
  then show ?case by (cases qs) (auto split: if_splits)
qed simp

lemma map_of_zip_remove:
  "topic_index ts t = Some i \<Longrightarrow> length qs = length ts \<Longrightarrow> distinct ts \<Longrightarrow>
   map_of (zip (take i ts @ drop (Suc i) ts) (take i qs @ drop (Suc i) qs)) =
     (map_of (zip ts qs))(t := None)"
proof (induction ts t arbitrary: i qs rule: topic_index.induct)
  case (2 x xs t)
  obtain q qs' where qs: "qs = q # qs'" using "2.prems"(2) by (cases qs) auto
  show ?case
  proof (cases "x = t")
    case True
    then have "map_of (zip xs qs') t = None" using "2.prems"(2,3) qs by simp
    then show ?thesis using True "2.prems" qs by (simp add: fun_eq_iff)
  next
    case False
    then obtain j where j: "topic_index xs t = Some j" "i = Suc j" using "2.prems"(1) by auto
    then show ?thesis using "2.IH" [OF False j(1), of qs'] "2.prems"(2,3) False qs by auto
  qed
qed simp

lemma sub_TopicQos_map:
  assumes "sub_inv m"
  shows "sub_TopicQos m t = Some (case sub_map m t of Some q \<Rightarrow> q | None \<Rightarrow> QosFailure)"
proof (cases "topic_index (sub_topics m) t")
  case None
  then have "sub_map m t = None" using assms by (simp add: sub_map_def sub_inv_def topic_index_None)
  then show ?thesis using None by (simp add: sub_TopicQos_def)
next
  case (Some i)
  then show ?thesis
    using assms map_of_zip_nth [OF Some, of "sub_qos m"] topic_index_Some [OF Some]
    by (simp add: sub_TopicQos_def sub_map_def sub_inv_def)
qed

lemma sub_AddTopic_map:
  assumes "sub_inv m" and "ValidQos q"
  shows "\<exists>m'. sub_AddTopic m t q = Some (m', None) \<and> sub_inv m' \<and> sub_map m' = (sub_map m)(t \<mapsto> q)"
proof (cases "topic_index (sub_topics m) t")
  case None
  define M where "M = map_of (zip (sub_topics m) (sub_qos m))"
  have "M t = None" using None assms by (simp add: M_def sub_inv_def topic_index_None)
  then have "[t \<mapsto> q] ++ M = M(t \<mapsto> q)" by (auto simp: map_add_def fun_eq_iff split: option.split)
  moreover have "map_of (zip (sub_topics m @ [t]) (sub_qos m @ [q])) = [t \<mapsto> q] ++ M"
    using assms by (simp add: M_def sub_inv_def)
  ultimately have "map_of (zip (sub_topics m @ [t]) (sub_qos m @ [q])) =
      (map_of (zip (sub_topics m) (sub_qos m)))(t \<mapsto> q)" by (simp only: M_def)
  then show ?thesis
    using None assms topic_index_None [of "sub_topics m" t]
    by (simp add: sub_AddTopic_def sub_inv_def sub_map_def)
next
  case (Some i)
  moreover have "list_all ValidQos ((sub_qos m)[i := q])"
    using assms by (auto simp: sub_inv_def list_all_iff dest!: set_update_subset_insert [THEN subsetD])
  ultimately show ?thesis
    using assms map_of_zip_update [OF Some, of "sub_qos m" q] topic_index_Some [OF Some]
    by (simp add: sub_AddTopic_def sub_inv_def sub_map_def)
qed

lemma sub_RemoveTopic_map:
  assumes "sub_inv m"
  shows "\<exists>m'. sub_RemoveTopic m t = Some m' \<and> sub_inv m' \<and> sub_map m' = (sub_map m)(t := None)"
proof (cases "topic_index (sub_topics m) t")
  case None
  then have "sub_map m t = None" using assms by (simp add: sub_map_def sub_inv_def topic_index_None)
  then show ?thesis
    using None assms by (simp add: sub_RemoveTopic_def sub_inv_def sub_map_def fun_upd_idem)
next
  case (Some i)
  have "distinct (take i ts @ drop (Suc i) ts)" if "distinct ts" for ts :: "bytes list"
    using that by (simp add: set_take_disj_set_drop_if_distinct)
  moreover have "list_all P (take i qs @ drop (Suc i) qs)" if "list_all P qs" for P and qs :: bytes
    using that by (auto simp: list_all_iff dest: in_set_takeD in_set_dropD)
  ultimately show ?thesis
    using Some assms map_of_zip_remove [OF Some, of "sub_qos m"] topic_index_Some [OF Some]
    by (simp add: sub_RemoveTopic_def sub_inv_def sub_map_def remove_at_def)
qed


section \<open>Wire form and round trip\<close>

lemma encode_id_wire:
  assumes b: "deref m (mtypeflags m) = [b]" "type_Valid (drop_bit 4 b)"
    and ml: "0 \<le> ml" "ml \<le> maxRemainingLength"
    and hl: "header_msglen m + ml \<le> int (length dst)"
    and fits: "length (hdr_wire b (nat ml)) + 2 \<le> length dst"
    and e: "ensure_packetId (g, m\<lparr>remlen := ml, dirty := True\<rparr>) = (g', m')"
    and p: "length (deref m' (packetId m')) \<le> 2"
  shows "encode_id g m dst ml =
    Some (((g', m'), wr (hdr_wire b (nat ml) @ deref m' (packetId m')) dst),
          int (length (hdr_wire b (nat ml)) + length (deref m' (packetId m'))), None)"
proof -
  let ?h = "hdr_wire b (nat ml)" and ?p = "deref m' (packetId m')"
  have 1: "encode_head m dst ml =
      Some ((m\<lparr>remlen := ml, dirty := True\<rparr>, wr ?h dst), int (length ?h), None)"
    using fits by (intro encode_head_wire [OF b ml]) simp
  have "length ?h + length ?p \<le> length dst" using fits p by (simp only:)
  from copy_at_wr [OF refl this] have 2: "copy_at (wr ?h dst) (int (length ?h)) ?p =
      Some (wr (?h @ ?p) dst, int (length ?p))" .
  show ?thesis
    unfolding encode_id_def Let_def 1
    using hl e by (simp only: not_less [symmetric] if_False with_counter_simps ret_bind_simps
      prod.case 2 bind.bind_lunit of_nat_add)
qed

definition sub_pack :: "bytes list \<Rightarrow> bytes \<Rightarrow> bytes" where
  "sub_pack ts qs = concat (map2 (\<lambda>t q. lp t @ [q]) ts qs)"

lemma sub_pack_simps [simp]:
  "sub_pack [] qs = []" "sub_pack (t # ts) (q # qs) = lp t @ q # sub_pack ts qs"
  by (simp_all add: sub_pack_def)

lemma length_sub_pack:
  "length qs = length ts \<Longrightarrow>
   int (length (sub_pack ts qs)) = sum_list (map (\<lambda>t. 2 + int (length t) + 1) ts)"
  by (induction ts qs rule: list_induct2') auto

lemma sub_write_wr:
  assumes "length qs = length ts" and "list_all (\<lambda>t. length t \<le> 65535) ts"
    and "length w + length (sub_pack ts qs) \<le> length dst"
  shows "sub_write (wr w dst) (int (length w)) ts qs =
    Some (wr (w @ sub_pack ts qs) dst, int (length w + length (sub_pack ts qs)), None)"
  using assms
proof (induction ts qs arbitrary: w rule: list_induct2')
  case (4 t ts q qs)
  have 1: "write_field (wr w dst) (int (length w)) t =
      Some (wr (w @ lp t) dst, int (length w) + int (length (lp t)), None)"
    using "4.prems" by (intro write_field_wr) auto
  have 2: "set_at (wr (w @ lp t) dst) (int (length w) + int (length (lp t))) q =
      Some (wr ((w @ lp t) @ [q]) dst)"
    using "4.prems" by (intro set_at_wr) auto
  have 3: "int (length w) + int (length (lp t)) + 1 = int (length (w @ lp t @ [q]))" by simp
  show ?case
    using "4.IH" [of "w @ lp t @ [q]"] "4.prems" 1 2
    unfolding sub_write.simps ret_bind_simps list.case bind.bind_lunit 2 1 3
    by (simp del: sub_write.simps add: 2)
qed simp_all

lemma sub_read_pack:
  assumes "length qs = length ts" and "list_all (\<lambda>t. length t \<le> 65535) ts"
    and "rl = int (length (sub_pack ts qs))"
  shows "sub_read (Slice (p @ sub_pack ts qs) sp) (int (length p)) rl m =
    Some (m\<lparr>sub_topics := sub_topics m @ ts, sub_qos := sub_qos m @ qs\<rparr>,
          int (length p + length (sub_pack ts qs)), None)"
  using assms
proof (induction ts qs arbitrary: p m rl rule: list_induct2')
  case 1
  then show ?case by (simp add: sub_read.simps)
next
  case (4 t ts q qs)
  let ?r = "sub_pack ts qs"
  let ?src = "Slice (p @ sub_pack (t # ts) (q # qs)) sp"
  have 1: "slice_from ?src (int (length p)) = Some (Slice (lp t @ q # ?r) sp)"
    using slice_from_split [of "int (length p)" p "lp t @ q # ?r" sp] by simp
  have 2: "readLPBytes (Slice (lp t @ q # ?r) sp) = Some (t, int (length (lp t)), None)"
    using "4.prems" by (intro readLPBytes_lp) simp
  have 3: "slice_index ?src (int (length p) + int (length (lp t))) = Some q"
    using slice_index_split [of "int (length p) + int (length (lp t))" "p @ lp t" q ?r sp] by simp
  have src: "?src = Slice ((p @ lp t @ [q]) @ ?r) sp" by simp
  have pos: "\<not> rl \<le> 0" using "4.prems" by simp
  have "sub_read ?src (int (length p)) rl m =
      sub_read ?src (int (length (p @ lp t @ [q]))) (int (length ?r))
        (m\<lparr>sub_topics := sub_topics m @ [t], sub_qos := sub_qos m @ [q]\<rparr>)"
    using pos 1 2 3 "4.prems" by (subst sub_read.simps) (simp add: add.commute add.left_commute)
  also have "\<dots> = Some (m\<lparr>sub_topics := sub_topics m @ t # ts, sub_qos := sub_qos m @ q # qs\<rparr>,
      int (length p + length (sub_pack (t # ts) (q # qs))), None)"
    unfolding src using "4.IH" [of "int (length ?r)" "p @ lp t @ [q]"] "4.prems" by simp
  finally show ?case .
qed simp_all


definition subscribe_ready :: "subscribe_message \<Rightarrow> bool" where
  "subscribe_ready m \<longleftrightarrow>
     dirty m \<and> typed SUBSCRIBE m (type_byte m) \<and> header_PacketId m \<noteq> 0 \<and> sub_topics m \<noteq> [] \<and>
     length (sub_qos m) = length (sub_topics m) \<and>
     list_all (\<lambda>t. length t \<le> 65535) (sub_topics m) \<and> subscribe_msglen m \<le> maxRemainingLength"

definition subscribe_wire :: "subscribe_message \<Rightarrow> bytes" where
  "subscribe_wire m =
     hdr_wire (type_byte m) (nat (subscribe_msglen m)) @ id_bytes m @ sub_pack (sub_topics m) (sub_qos m)"

definition subscribe_same :: "subscribe_message \<Rightarrow> subscribe_message \<Rightarrow> bool" where
  "subscribe_same m m' \<longleftrightarrow>
     header_PacketId m' = header_PacketId m \<and> sub_topics m' = sub_topics m \<and>
     sub_qos m' = sub_qos m \<and> snd (header_Type m') = SUBSCRIBE"

lemma id_bytes_deref:
  assumes "header_PacketId m \<noteq> 0"
  shows "deref m (packetId m) = id_bytes m"
proof -
  have l: "length (deref m (packetId m)) = 2" using assms by (rule PacketId_nonzero_length)
  then have "header_PacketId m = the (be16 (deref m (packetId m)))"
    by (simp only: header_PacketId_def Let_def if_True simp_thms)
  then show ?thesis using be16_length_2 [OF l] by (simp only: id_bytes_def)
qed

lemma ensure_packetId_set:
  "header_PacketId m \<noteq> 0 \<Longrightarrow> ensure_packetId (g, m) = (g, m)"
  by (simp add: ensure_packetId_def)

lemma subscribe_msglen_nonneg: "0 \<le> subscribe_msglen m"
  by (auto simp: subscribe_msglen_def intro!: add_nonneg_nonneg sum_list_nonneg)

lemma length_subscribe_wire:
  assumes "length (sub_qos m) = length (sub_topics m)"
  shows "int (length (subscribe_wire m)) =
    int (length (hdr_wire (type_byte m) (nat (subscribe_msglen m)))) + subscribe_msglen m"
  using length_sub_pack [OF assms] by (simp add: subscribe_wire_def subscribe_msglen_def)

lemma subscribe_encode_ready:
  assumes m: "subscribe_ready m" and hl: "header_msglen m + subscribe_msglen m \<le> int (length dst)"
    and fits: "length (subscribe_wire m) \<le> length dst"
  shows "subscribe_Encode g m dst =
    Some (((g, m\<lparr>remlen := subscribe_msglen m, dirty := True\<rparr>), wr (subscribe_wire m) dst),
          int (length (subscribe_wire m)), None)"
proof -
  let ?b = "type_byte m" and ?ml = "subscribe_msglen m"
  let ?m = "m\<lparr>remlen := subscribe_msglen m, dirty := True\<rparr>"
  let ?w = "hdr_wire ?b (nat ?ml) @ id_bytes m" and ?s = "sub_pack (sub_topics m) (sub_qos m)"
  have b: "deref m (mtypeflags m) = [?b]" "type_Valid (drop_bit 4 ?b)" "0 \<le> ?ml"
    "?ml \<le> maxRemainingLength" "dirty m" "length (sub_qos m) = length (sub_topics m)"
    using m by (simp_all add: subscribe_ready_def typed_def type_Valid_def subscribe_msglen_nonneg)
  have pid: "header_PacketId ?m \<noteq> 0" "id_bytes ?m = id_bytes m"
    using m by (simp_all add: subscribe_ready_def header_PacketId_def)
  have p: "deref ?m (packetId ?m) = id_bytes m" using id_bytes_deref [OF pid(1)] pid(2) by simp
  have fits': "length ?w + length ?s \<le> length dst" using fits by (simp add: subscribe_wire_def)
  have 1: "encode_id g m dst ?ml = Some (((g, ?m), wr ?w dst), int (length ?w), None)"
    using encode_id_wire [OF b(1-4) hl _ ensure_packetId_set [OF pid(1)]] fits' p by simp
  have 2: "sub_write (wr ?w dst) (int (length ?w)) (sub_topics m) (sub_qos m) =
      Some (wr (subscribe_wire m) dst, int (length (subscribe_wire m)), None)"
    using sub_write_wr [OF b(6) _ fits'] m by (simp add: subscribe_ready_def subscribe_wire_def)
  show ?thesis
    using b(5) 1 2 by (simp add: subscribe_Encode_def)
qed

lemma NewSubscribe_typed:
  "typed SUBSCRIBE NewSubscribeMessage (push_bit 4 SUBSCRIBE OR DefaultFlags SUBSCRIBE)"
  unfolding NewSubscribeMessage_def by (rule SetType_zero_typed) (simp_all add: type_Valid_def)

lemma subscribe_wire_decode:
  assumes m: "subscribe_ready m"
  shows "\<exists>m'. subscribe_Decode NewSubscribeMessage (Slice (subscribe_wire m) sp) =
      Some (m', int (length (subscribe_wire m)), None) \<and>
    subscribe_same m m' \<and> \<not> dirty m' \<and> sdata (dbuf m') = subscribe_wire m"
proof -
  let ?b = "type_byte m" and ?ml = "subscribe_msglen m" and ?src = "Slice (subscribe_wire m) sp"
  let ?h = "hdr_wire ?b (nat ?ml)" and ?s = "sub_pack (sub_topics m) (sub_qos m)"
  let ?d = "(decoded_header NewSubscribeMessage ?src (nat ?ml))\<lparr>packetId := Sub (length ?h) 2\<rparr>"
  have ty: "typed SUBSCRIBE m ?b" and l: "length (sub_qos m) = length (sub_topics m)"
    and ml: "0 \<le> ?ml" "?ml \<le> maxRemainingLength" "?ml = 2 + int (length ?s)"
    using m length_sub_pack [of "sub_qos m" "sub_topics m"]
    by (auto simp: subscribe_ready_def subscribe_msglen_def)
  have w: "subscribe_wire m = ?h @ id_bytes m @ ?s" by (simp add: subscribe_wire_def)
  have 1: "header_decode NewSubscribeMessage ?src =
      Some (decoded_header NewSubscribeMessage ?src (nat ?ml), int (length ?h), None)"
    using typed_decode [OF NewSubscribe_typed ty, of "nat ?ml" "id_bytes m @ ?s" sp] ml
    by (simp add: w type_Valid_def)
  have 2: "slice_range ?src (int (length ?h)) (int (length ?h) + 2) = Some (Slice (id_bytes m) (?s @ sp))"
    unfolding w by (rule slice_range_split) simp_all
  have id: "set_packetId_from ?src (int (length ?h)) (decoded_header NewSubscribeMessage ?src (nat ?ml)) =
      Some ?d"
    by (simp only: set_packetId_from_def 2 bind.bind_lunit nat_int)
  let ?m = "?d\<lparr>sub_topics := sub_topics m, sub_qos := sub_qos m\<rparr>"
  have new: "sub_topics ?d = []" "sub_qos ?d = []" "remlen ?d = ?ml"
    using ml by (simp_all add: decoded_header_def set_dbuf_def NewSubscribeMessage_def header_SetType_def
        put_mtypeflags_def type_Valid_def)
  have 3: "sub_read ?src (int (length ?h) + 2) (?ml - 2) ?d =
      Some (?m, int (length (subscribe_wire m)), None)"
    using sub_read_pack [OF l, of "?ml - 2" "?h @ id_bytes m" sp ?d] m ml new
    by (simp add: w subscribe_ready_def)
  have dec: "subscribe_Decode NewSubscribeMessage ?src =
      Some (?m\<lparr>dirty := False\<rparr>, int (length (subscribe_wire m)), None)"
    unfolding subscribe_Decode_def 1 ret_bind_simps id bind.bind_lunit Let_def new
    using 3 m by (simp add: subscribe_ready_def)
  have "deref_in ?src (Sub 0 1) = [?b]" "deref_in ?src (Sub (length ?h) 2) = put_be16 (header_PacketId m)"
    by (simp_all add: sfull_def w hdr_wire_def id_bytes_def)
  then have "header_Type (?m\<lparr>dirty := False\<rparr>) = (?m\<lparr>dirty := False\<rparr>, SUBSCRIBE)"
    "header_PacketId (?m\<lparr>dirty := False\<rparr>) = header_PacketId m"
    using ty by (auto simp: header_Type_def decoded_header_def set_dbuf_def typed_def
        intro!: header_PacketId_be16)
  then show ?thesis
    using dec by (auto simp: subscribe_same_def decoded_header_def set_dbuf_def)
qed

lemma encode_any_clean:
  "drop_counter (with_counter g (encode_clean x dst)) = encode_clean x dst"
  by (simp add: drop_counter_def with_counter_def option.map_comp comp_def case_prod_unfold option.map_ident)

lemma subscribe_codec:
  "buffer_codec (\<lambda>m. Some (subscribe_Len m)) (\<lambda>m dst. drop_counter (subscribe_Encode g m dst))
     subscribe_Decode NewSubscribeMessage subscribe_ready subscribe_wire subscribe_same"
proof (rule buffer_codecI [where settle = "\<lambda>m. m\<lparr>remlen := subscribe_msglen m, dirty := True\<rparr>"])
  fix m sp dst
  assume m: "subscribe_ready m"
  let ?m = "m\<lparr>remlen := subscribe_msglen m, dirty := True\<rparr>" and ?ml = "subscribe_msglen m"
  have b: "dirty m" "?ml \<le> maxRemainingLength" "length (sub_qos m) = length (sub_topics m)"
    using m by (simp_all add: subscribe_ready_def)
  have ml: "0 \<le> ?ml" by (rule subscribe_msglen_nonneg)
  show "Some (subscribe_Len m) = Some (?m, int (length (subscribe_wire m)))"
    using len_with_wire [where msglen = subscribe_msglen and b = "type_byte m", OF b(1) ml b(2)]
      length_subscribe_wire [OF b(3)] by (simp add: subscribe_Len_def)
  have m2: "subscribe_ready ?m" "subscribe_wire ?m = subscribe_wire m" "subscribe_msglen ?m = ?ml"
    using m by (simp_all add: subscribe_ready_def subscribe_wire_def subscribe_msglen_def header_PacketId_def)
  have "header_msglen ?m + ?ml = int (length (subscribe_wire m))"
    using header_msglen_wire [of ?m "type_byte m"] ml b length_subscribe_wire [OF b(3)] by simp
  then show "\<exists>m'. drop_counter (subscribe_Encode g ?m dst) =
      Some ((m', wr (subscribe_wire m) dst), int (length (subscribe_wire m)), None)"
    if "length (subscribe_wire m) \<le> length dst"
    using subscribe_encode_ready [OF m2(1), of dst g] that m2 by simp
  obtain d where d: "subscribe_Decode NewSubscribeMessage (Slice (subscribe_wire m) sp) =
      Some (d, int (length (subscribe_wire m)), None)" "subscribe_same m d" "\<not> dirty d"
    "sdata (dbuf d) = subscribe_wire m"
    using subscribe_wire_decode [OF m] by blast
  from replay_clean [OF d(3,4), of "\<lambda>m dst. drop_counter (subscribe_Encode g m dst)"] d(1,2)
  show "\<exists>m'. subscribe_Decode NewSubscribeMessage (Slice (subscribe_wire m) sp) =
      Some (m', int (length (subscribe_wire m)), None) \<and> subscribe_same m m' \<and>
      (\<forall>dst. length (subscribe_wire m) \<le> length dst \<longrightarrow> drop_counter (subscribe_Encode g m' dst) =
        Some ((m', wr (subscribe_wire m) dst), int (length (subscribe_wire m)), None))"
    by (simp add: subscribe_Encode_def encode_any_clean)
qed

interpretation subscribe: buffer_codec "\<lambda>m. Some (subscribe_Len m)"
  "\<lambda>m dst. drop_counter (subscribe_Encode g m dst)" subscribe_Decode NewSubscribeMessage
  subscribe_ready subscribe_wire subscribe_same for g
  by (rule subscribe_codec)

end
