(* ===== verification/Msg_Unsubscribe.thy ===== *)
theory Msg_Unsubscribe imports Msg_Subscribe begin

text \<open>
  \<open>tools/surgemq/message/unsubscribe.go\<close>: the UNSUBSCRIBE packet, a packet identifier and a list of
  topic filters. Its \<open>Decode\<close> takes one byte per topic more off the remaining length than the
  topic occupies (SUBSCRIBE has a QoS byte there), so it can stop before the last topics:
  \<open>unsub_kept\<close> says which topics survive.
\<close>

section \<open>State and topic list\<close>

record unsubscribe_message = header +
  unsub_topics :: "bytes list"

definition NewUnsubscribeMessage :: unsubscribe_message where
  "NewUnsubscribeMessage =
     fst (header_SetType
       \<lparr>remlen = 0, mtypeflags = Own [], packetId = Own [], dbuf = exact [], dirty = False,
        unsub_topics = []\<rparr> UNSUBSCRIBE)"

definition unsub_TopicExists :: "unsubscribe_message \<Rightarrow> bytes \<Rightarrow> bool" where
  "unsub_TopicExists m t = (topic_index (unsub_topics m) t \<noteq> None)"

definition unsub_AddTopic :: "unsubscribe_message \<Rightarrow> bytes \<Rightarrow> unsubscribe_message" where
  "unsub_AddTopic m t =
     (if unsub_TopicExists m t then m
      else m\<lparr>unsub_topics := unsub_topics m @ [t], dirty := True\<rparr>)"

definition unsub_RemoveTopic :: "unsubscribe_message \<Rightarrow> bytes \<Rightarrow> unsubscribe_message option" where
  "unsub_RemoveTopic m t =
     (case topic_index (unsub_topics m) t of
        Some i \<Rightarrow> do {
          ts \<leftarrow> remove_at i (unsub_topics m);
          Some (m\<lparr>unsub_topics := ts, dirty := True\<rparr>)
        }
      | None \<Rightarrow> Some (m\<lparr>dirty := True\<rparr>))"

definition unsubscribe_msglen :: "unsubscribe_message \<Rightarrow> int" where
  "unsubscribe_msglen m = 2 + sum_list (map (\<lambda>t. 2 + int (length t)) (unsub_topics m))"

definition unsubscribe_Len :: "unsubscribe_message \<Rightarrow> unsubscribe_message \<times> int" where
  "unsubscribe_Len m = len_with unsubscribe_msglen m"

section \<open>Decode and Encode\<close>

function unsub_read :: "slice \<Rightarrow> int \<Rightarrow> int \<Rightarrow> unsubscribe_message \<Rightarrow> (unsubscribe_message, merror) ret" where
  "unsub_read src tot rl m =
     (if rl \<le> 0 then Some (m, tot, None)
      else case slice_from src tot of
        None \<Rightarrow> None
      | Some s \<Rightarrow>
        (case readLPBytes s of
           None \<Rightarrow> None
         | Some (t, n, Some e) \<Rightarrow> Some (m, tot + n, Some e)
         | Some (t, n, None) \<Rightarrow>
             unsub_read src (tot + n) (rl - n - 1) (m\<lparr>unsub_topics := unsub_topics m @ [t]\<rparr>)))"
  by pat_completeness auto
termination
  by (relation "measure (\<lambda>(src, tot, rl, m). nat rl)") (auto dest: readLPBytes_count)

declare unsub_read.simps [simp del]

definition unsubscribe_Decode :: "unsubscribe_message \<Rightarrow> slice \<Rightarrow> (unsubscribe_message, merror) ret" where
  "unsubscribe_Decode m src =
     ret_bind (header_decode m src) (\<lambda>m hn. do {
       m \<leftarrow> set_packetId_from src hn m;
       let tot = hn + 2;
       ret_bind (unsub_read src tot (remlen m - (tot - hn)) m) (\<lambda>m tot.
         if unsub_topics m = [] then Some (m, 0, Some EEmptyTopicList)
         else Some (m\<lparr>dirty := False\<rparr>, tot, None))
     })"

fun unsub_write :: "bytes \<Rightarrow> int \<Rightarrow> bytes list \<Rightarrow> (bytes, merror) ret" where
  "unsub_write dst tot [] = Some (dst, tot, None)"
| "unsub_write dst tot (t # ts) =
     ret_bind (write_field dst tot t) (\<lambda>dst tot. unsub_write dst tot ts)"

definition unsubscribe_Encode ::
    "64 word \<Rightarrow> unsubscribe_message \<Rightarrow> bytes \<Rightarrow> unsubscribe_message enc_ret" where
  "unsubscribe_Encode g m dst =
     (if \<not> dirty m then with_counter g (encode_clean m dst)
      else ret_bind (encode_id g m dst (unsubscribe_msglen m)) (\<lambda>((g, m), dst) tot.
        with_state (g, m) (unsub_write dst tot (unsub_topics m))))"

section \<open>The topic list is a set\<close>

lemma unsub_AddTopic_set:
  assumes "distinct (unsub_topics m)"
  shows "distinct (unsub_topics (unsub_AddTopic m t))"
    "set (unsub_topics (unsub_AddTopic m t)) = insert t (set (unsub_topics m))"
  using assms topic_index_None [of "unsub_topics m" t]
  by (auto simp: unsub_AddTopic_def unsub_TopicExists_def)

lemma set_remove_at:
  assumes "topic_index ts t = Some i" and "distinct ts"
  shows "set (take i ts @ drop (Suc i) ts) = set ts - {t}" "distinct (take i ts @ drop (Suc i) ts)"
proof -
  have i: "i < length ts" "ts ! i = t" using topic_index_Some [OF assms(1)] by auto
  have eq: "ts = take i ts @ t # drop (Suc i) ts" using id_take_nth_drop [OF i(1)] i(2) by simp
  then have "distinct (take i ts @ t # drop (Suc i) ts)" using assms(2) by simp
  moreover from eq have "set ts = set (take i ts @ t # drop (Suc i) ts)" by (rule arg_cong)
  ultimately show "set (take i ts @ drop (Suc i) ts) = set ts - {t}"
    "distinct (take i ts @ drop (Suc i) ts)" by auto
qed

lemma unsub_RemoveTopic_set:
  assumes "distinct (unsub_topics m)"
  shows "\<exists>m'. unsub_RemoveTopic m t = Some m' \<and> distinct (unsub_topics m') \<and>
    set (unsub_topics m') = set (unsub_topics m) - {t}"
proof (cases "topic_index (unsub_topics m) t")
  case None
  then show ?thesis
    using assms topic_index_None [of "unsub_topics m" t] by (auto simp: unsub_RemoveTopic_def)
next
  case (Some i)
  then show ?thesis
    using set_remove_at [OF Some assms] topic_index_Some [OF Some]
    by (simp add: unsub_RemoveTopic_def remove_at_def)
qed

section \<open>Wire form and what survives decoding\<close>

definition unsub_pack :: "bytes list \<Rightarrow> bytes" where
  "unsub_pack ts = concat (map lp ts)"

lemma unsub_pack_simps [simp]:
  "unsub_pack [] = []" "unsub_pack (t # ts) = lp t @ unsub_pack ts"
  by (simp_all add: unsub_pack_def)

lemma length_unsub_pack:
  "int (length (unsub_pack ts)) = sum_list (map (\<lambda>t. 2 + int (length t)) ts)"
  by (induction ts) auto

text \<open>
  After \<open>k\<close> topics the counter is \<open>k\<close> below the bytes left, so the loop goes on only while more
  than \<open>k\<close> bytes are left.
\<close>

fun unsub_kept :: "nat \<Rightarrow> bytes list \<Rightarrow> bytes list" where
  "unsub_kept k [] = []"
| "unsub_kept k (t # ts) =
     (if length (unsub_pack (t # ts)) \<le> k then [] else t # unsub_kept (Suc k) ts)"

lemma unsub_read_pack:
  assumes "list_all (\<lambda>t. length t \<le> 65535) ts" and "rl = int (length (unsub_pack ts)) - int k"
  shows "unsub_read (Slice (p @ unsub_pack ts) sp) (int (length p)) rl m =
    Some (m\<lparr>unsub_topics := unsub_topics m @ unsub_kept k ts\<rparr>,
          int (length p + length (unsub_pack (unsub_kept k ts))), None)"
  using assms
proof (induction ts arbitrary: p m rl k)
  case Nil
  then show ?case by (simp add: unsub_read.simps)
next
  case (Cons t ts)
  let ?r = "unsub_pack ts" and ?src = "Slice (p @ unsub_pack (t # ts)) sp"
  have 1: "slice_from ?src (int (length p)) = Some (Slice (lp t @ ?r) sp)"
    using slice_from_split [of "int (length p)" p "lp t @ ?r" sp] by simp
  have 2: "readLPBytes (Slice (lp t @ ?r) sp) = Some (t, int (length (lp t)), None)"
    using Cons.prems by (intro readLPBytes_lp) simp
  have src: "?src = Slice ((p @ lp t) @ ?r) sp" by simp
  show ?case
  proof (cases "rl \<le> 0")
    case True
    then show ?thesis using Cons.prems by (simp add: unsub_read.simps)
  next
    case False
    have step: "rl - int (length (lp t)) - 1 = int (length ?r) - int (Suc k)"
      using Cons.prems by simp
    have "unsub_read ?src (int (length p)) rl m =
        unsub_read ?src (int (length p) + int (length (lp t))) (rl - int (length (lp t)) - 1)
          (m\<lparr>unsub_topics := unsub_topics m @ [t]\<rparr>)"
      using False 1 2 by (subst unsub_read.simps) (simp del: length_lp)
    also have "\<dots> = unsub_read ?src (int (length (p @ lp t))) (int (length ?r) - int (Suc k))
          (m\<lparr>unsub_topics := unsub_topics m @ [t]\<rparr>)"
      unfolding step by (simp del: length_lp)
    also have "\<dots> = Some (m\<lparr>unsub_topics := unsub_topics m @ t # unsub_kept (Suc k) ts\<rparr>,
        int (length p + length (lp t) + length (unsub_pack (unsub_kept (Suc k) ts))), None)"
      unfolding src using Cons.IH [of "int (length ?r) - int (Suc k)" "Suc k" "p @ lp t"] Cons.prems
      by simp
    finally show ?thesis using False Cons.prems by simp
  qed
qed

lemma unsub_write_wr:
  assumes "list_all (\<lambda>t. length t \<le> 65535) ts" and "length w + length (unsub_pack ts) \<le> length dst"
  shows "unsub_write (wr w dst) (int (length w)) ts =
    Some (wr (w @ unsub_pack ts) dst, int (length w + length (unsub_pack ts)), None)"
  using assms
proof (induction ts arbitrary: w)
  case (Cons t ts)
  have 1: "write_field (wr w dst) (int (length w)) t =
      Some (wr (w @ lp t) dst, int (length (w @ lp t)), None)"
    using write_field_wr [of t "int (length w)" w dst] Cons.prems by simp
  show ?case
    unfolding unsub_write.simps 1 ret_bind_simps using Cons.IH [of "w @ lp t"] Cons.prems by simp
qed simp

definition unsub_sendable :: "unsubscribe_message \<Rightarrow> bool" where
  "unsub_sendable m \<longleftrightarrow>
     dirty m \<and> typed UNSUBSCRIBE m (type_byte m) \<and> header_PacketId m \<noteq> 0 \<and> unsub_topics m \<noteq> [] \<and>
     list_all (\<lambda>t. length t \<le> 65535) (unsub_topics m) \<and> unsubscribe_msglen m \<le> maxRemainingLength"

text \<open>The round trip needs a message whose topics all survive.\<close>

definition unsubscribe_ready :: "unsubscribe_message \<Rightarrow> bool" where
  "unsubscribe_ready m \<longleftrightarrow> unsub_sendable m \<and> unsub_kept 0 (unsub_topics m) = unsub_topics m"

definition unsubscribe_wire :: "unsubscribe_message \<Rightarrow> bytes" where
  "unsubscribe_wire m =
     hdr_wire (type_byte m) (nat (unsubscribe_msglen m)) @ id_bytes m @ unsub_pack (unsub_topics m)"

definition unsubscribe_same :: "unsubscribe_message \<Rightarrow> unsubscribe_message \<Rightarrow> bool" where
  "unsubscribe_same m m' \<longleftrightarrow>
     header_PacketId m' = header_PacketId m \<and> unsub_topics m' = unsub_topics m \<and>
     snd (header_Type m') = UNSUBSCRIBE"

lemma unsubscribe_msglen_nonneg: "0 \<le> unsubscribe_msglen m"
  by (auto simp: unsubscribe_msglen_def intro!: add_nonneg_nonneg sum_list_nonneg)

lemma length_unsubscribe_wire:
  "int (length (unsubscribe_wire m)) =
    int (length (hdr_wire (type_byte m) (nat (unsubscribe_msglen m)))) + unsubscribe_msglen m"
  using length_unsub_pack [of "unsub_topics m"] by (simp add: unsubscribe_wire_def unsubscribe_msglen_def)

lemma unsubscribe_encode_sendable:
  assumes m: "unsub_sendable m" and hl: "header_msglen m + unsubscribe_msglen m \<le> int (length dst)"
    and fits: "length (unsubscribe_wire m) \<le> length dst"
  shows "unsubscribe_Encode g m dst =
    Some (((g, m\<lparr>remlen := unsubscribe_msglen m, dirty := True\<rparr>), wr (unsubscribe_wire m) dst),
          int (length (unsubscribe_wire m)), None)"
proof -
  let ?b = "type_byte m" and ?ml = "unsubscribe_msglen m"
  let ?m = "m\<lparr>remlen := unsubscribe_msglen m, dirty := True\<rparr>"
  let ?w = "hdr_wire ?b (nat ?ml) @ id_bytes m" and ?s = "unsub_pack (unsub_topics m)"
  have b: "deref m (mtypeflags m) = [?b]" "type_Valid (drop_bit 4 ?b)" "0 \<le> ?ml"
    "?ml \<le> maxRemainingLength" "dirty m" "list_all (\<lambda>t. length t \<le> 65535) (unsub_topics m)"
    using m by (simp_all add: unsub_sendable_def typed_def type_Valid_def unsubscribe_msglen_nonneg)
  have pid: "header_PacketId ?m \<noteq> 0" "id_bytes ?m = id_bytes m"
    using m by (simp_all add: unsub_sendable_def header_PacketId_def)
  have p: "deref ?m (packetId ?m) = id_bytes m" using id_bytes_deref [OF pid(1)] pid(2) by simp
  have fits': "length ?w + length ?s \<le> length dst" using fits by (simp add: unsubscribe_wire_def)
  have 1: "encode_id g m dst ?ml = Some (((g, ?m), wr ?w dst), int (length ?w), None)"
    using encode_id_wire [OF b(1-4) hl _ ensure_packetId_set [OF pid(1)]] fits' p by simp
  have 2: "unsub_write (wr ?w dst) (int (length ?w)) (unsub_topics m) =
      Some (wr (unsubscribe_wire m) dst, int (length (unsubscribe_wire m)), None)"
    using unsub_write_wr [OF b(6) fits'] by (simp add: unsubscribe_wire_def)
  show ?thesis
    using b(5) 1 2 by (simp add: unsubscribe_Encode_def)
qed

lemma NewUnsubscribe_typed:
  "typed UNSUBSCRIBE NewUnsubscribeMessage (push_bit 4 UNSUBSCRIBE OR DefaultFlags UNSUBSCRIBE)"
  unfolding NewUnsubscribeMessage_def by (rule SetType_zero_typed) (simp_all add: type_Valid_def)

lemma unsubscribe_wire_decode:
  assumes m: "unsub_sendable m"
  defines "ts \<equiv> unsub_kept 0 (unsub_topics m)"
  shows "\<exists>m'. unsubscribe_Decode NewUnsubscribeMessage (Slice (unsubscribe_wire m) sp) =
      Some (m', int (length (hdr_wire (type_byte m) (nat (unsubscribe_msglen m))) + 2 + length (unsub_pack ts)), None) \<and>
    header_PacketId m' = header_PacketId m \<and> unsub_topics m' = ts \<and>
    snd (header_Type m') = UNSUBSCRIBE \<and> \<not> dirty m' \<and> sdata (dbuf m') = unsubscribe_wire m"
proof -
  let ?b = "type_byte m" and ?ml = "unsubscribe_msglen m" and ?src = "Slice (unsubscribe_wire m) sp"
  let ?h = "hdr_wire ?b (nat ?ml)" and ?s = "unsub_pack (unsub_topics m)"
  let ?d = "(decoded_header NewUnsubscribeMessage ?src (nat ?ml))\<lparr>packetId := Sub (length ?h) 2\<rparr>"
  have ty: "typed UNSUBSCRIBE m ?b" and l: "list_all (\<lambda>t. length t \<le> 65535) (unsub_topics m)"
    and ml: "0 \<le> ?ml" "?ml \<le> maxRemainingLength" "?ml = 2 + int (length ?s)"
    using m length_unsub_pack [of "unsub_topics m"]
    by (auto simp: unsub_sendable_def unsubscribe_msglen_def)
  have ne: "ts \<noteq> []" using m by (cases "unsub_topics m") (auto simp: ts_def unsub_sendable_def)
  have w: "unsubscribe_wire m = ?h @ id_bytes m @ ?s" by (simp add: unsubscribe_wire_def)
  have 1: "header_decode NewUnsubscribeMessage ?src =
      Some (decoded_header NewUnsubscribeMessage ?src (nat ?ml), int (length ?h), None)"
    using typed_decode [OF NewUnsubscribe_typed ty, of "nat ?ml" "id_bytes m @ ?s" sp] ml
    by (simp add: w type_Valid_def)
  have 2: "slice_range ?src (int (length ?h)) (int (length ?h) + 2) = Some (Slice (id_bytes m) (?s @ sp))"
    unfolding w by (rule slice_range_split) simp_all
  have id: "set_packetId_from ?src (int (length ?h)) (decoded_header NewUnsubscribeMessage ?src (nat ?ml)) =
      Some ?d"
    by (simp only: set_packetId_from_def 2 bind.bind_lunit nat_int)
  let ?m = "?d\<lparr>unsub_topics := ts\<rparr>"
  have new: "unsub_topics ?d = []" "remlen ?d = ?ml"
    using ml by (simp_all add: decoded_header_def set_dbuf_def NewUnsubscribeMessage_def header_SetType_def
        put_mtypeflags_def type_Valid_def)
  let ?n = "int (length ?h + 2 + length (unsub_pack ts))"
  have 3: "unsub_read ?src (int (length ?h) + 2) (?ml - 2) ?d = Some (?m, ?n, None)"
    using unsub_read_pack [OF l, of "?ml - 2" 0 "?h @ id_bytes m" sp ?d] ml new
    by (simp add: w ts_def)
  have dec: "unsubscribe_Decode NewUnsubscribeMessage ?src =
      Some (?m\<lparr>dirty := False\<rparr>, ?n, None)"
    unfolding unsubscribe_Decode_def 1 ret_bind_simps id bind.bind_lunit Let_def new
    using 3 ne by simp
  have "deref_in ?src (Sub 0 1) = [?b]" "deref_in ?src (Sub (length ?h) 2) = put_be16 (header_PacketId m)"
    by (simp_all add: sfull_def w hdr_wire_def id_bytes_def)
  then have "header_Type (?m\<lparr>dirty := False\<rparr>) = (?m\<lparr>dirty := False\<rparr>, UNSUBSCRIBE)"
    "header_PacketId (?m\<lparr>dirty := False\<rparr>) = header_PacketId m"
    using ty by (auto simp: header_Type_def decoded_header_def set_dbuf_def typed_def
        intro!: header_PacketId_be16)
  then show ?thesis
    using dec by (auto simp: decoded_header_def set_dbuf_def)
qed

lemma unsubscribe_codec:
  "buffer_codec (\<lambda>m. Some (unsubscribe_Len m)) (\<lambda>m dst. drop_counter (unsubscribe_Encode g m dst))
     unsubscribe_Decode NewUnsubscribeMessage unsubscribe_ready unsubscribe_wire unsubscribe_same"
proof (rule buffer_codecI [where settle = "\<lambda>m. m\<lparr>remlen := unsubscribe_msglen m, dirty := True\<rparr>"])
  fix m sp dst
  assume m: "unsubscribe_ready m"
  let ?m = "m\<lparr>remlen := unsubscribe_msglen m, dirty := True\<rparr>" and ?ml = "unsubscribe_msglen m"
  have b: "dirty m" "?ml \<le> maxRemainingLength" "unsub_sendable m" "unsub_kept 0 (unsub_topics m) = unsub_topics m"
    using m by (simp_all add: unsubscribe_ready_def unsub_sendable_def)
  have ml: "0 \<le> ?ml" by (rule unsubscribe_msglen_nonneg)
  show "Some (unsubscribe_Len m) = Some (?m, int (length (unsubscribe_wire m)))"
    using len_with_wire [where msglen = unsubscribe_msglen and b = "type_byte m", OF b(1) ml b(2)]
      length_unsubscribe_wire [of m] by (simp add: unsubscribe_Len_def)
  have m2: "unsub_sendable ?m" "unsubscribe_wire ?m = unsubscribe_wire m" "unsubscribe_msglen ?m = ?ml"
    using b(3) by (simp_all add: unsub_sendable_def unsubscribe_wire_def unsubscribe_msglen_def header_PacketId_def)
  have "header_msglen ?m + ?ml = int (length (unsubscribe_wire m))"
    using header_msglen_wire [of ?m "type_byte m"] ml b length_unsubscribe_wire [of m] by simp
  then show "\<exists>m'. drop_counter (unsubscribe_Encode g ?m dst) =
      Some ((m', wr (unsubscribe_wire m) dst), int (length (unsubscribe_wire m)), None)"
    if "length (unsubscribe_wire m) \<le> length dst"
    using unsubscribe_encode_sendable [OF m2(1), of dst g] that m2 by simp
  obtain d where d: "unsubscribe_Decode NewUnsubscribeMessage (Slice (unsubscribe_wire m) sp) =
      Some (d, int (length (unsubscribe_wire m)), None)" "unsubscribe_same m d" "\<not> dirty d"
    "sdata (dbuf d) = unsubscribe_wire m"
    using unsubscribe_wire_decode [OF b(3), of sp] b(4)
    by (auto simp: unsubscribe_same_def unsubscribe_wire_def)
  from replay_clean [OF d(3,4), of "\<lambda>m dst. drop_counter (unsubscribe_Encode g m dst)"] d(1,2)
  show "\<exists>m'. unsubscribe_Decode NewUnsubscribeMessage (Slice (unsubscribe_wire m) sp) =
      Some (m', int (length (unsubscribe_wire m)), None) \<and> unsubscribe_same m m' \<and>
      (\<forall>dst. length (unsubscribe_wire m) \<le> length dst \<longrightarrow> drop_counter (unsubscribe_Encode g m' dst) =
        Some ((m', wr (unsubscribe_wire m) dst), int (length (unsubscribe_wire m)), None))"
    by (simp add: unsubscribe_Encode_def encode_any_clean)
qed

interpretation unsubscribe: buffer_codec "\<lambda>m. Some (unsubscribe_Len m)"
  "\<lambda>m dst. drop_counter (unsubscribe_Encode g m dst)" unsubscribe_Decode NewUnsubscribeMessage
  unsubscribe_ready unsubscribe_wire unsubscribe_same for g
  by (rule unsubscribe_codec)

end
