(* ===== verification/Msg_Connect.thy ===== *)
theory Msg_Connect imports Msg_Unsubscribe begin

text \<open>
  \<open>tools/surgemq/message/connect.go\<close>: the CONNECT packet. Its flags byte says which of the optional
  fields follow; the field setters keep the flags in step with the fields.
\<close>

section \<open>State and accessors\<close>

record connect_message = header +
  connectFlags :: byte
  version :: byte
  keepAlive :: "16 word"
  protoName :: bytes
  clientId :: bytes
  willTopic :: bytes
  willMessage :: bytes
  username :: bytes
  password :: bytes

definition NewConnectMessage :: connect_message where
  "NewConnectMessage =
     fst (header_SetType
       \<lparr>remlen = 0, mtypeflags = Own [], packetId = Own [], dbuf = exact [], dirty = False,
        connectFlags = 0, version = 0, keepAlive = 0, protoName = [], clientId = [], willTopic = [],
        willMessage = [], username = [], password = []\<rparr> CONNECT)"

definition SetVersion :: "connect_message \<Rightarrow> byte \<Rightarrow> connect_message \<times> merror option" where
  "SetVersion m v =
     (if SupportedVersions v = None then (m, Some (EInvalidVersion v))
      else (m\<lparr>version := v, dirty := True\<rparr>, None))"

definition CleanSession :: "connect_message \<Rightarrow> bool" where
  "CleanSession m \<longleftrightarrow> drop_bit 1 (connectFlags m) AND 1 = 1"

definition SetCleanSession :: "connect_message \<Rightarrow> bool \<Rightarrow> connect_message" where
  "SetCleanSession m v =
     m\<lparr>connectFlags := (if v then connectFlags m OR 2 else connectFlags m AND 253), dirty := True\<rparr>"

definition WillFlag :: "connect_message \<Rightarrow> bool" where
  "WillFlag m \<longleftrightarrow> drop_bit 2 (connectFlags m) AND 1 = 1"

definition SetWillFlag :: "connect_message \<Rightarrow> bool \<Rightarrow> connect_message" where
  "SetWillFlag m v =
     m\<lparr>connectFlags := (if v then connectFlags m OR 4 else connectFlags m AND 251), dirty := True\<rparr>"

definition WillQos :: "connect_message \<Rightarrow> byte" where
  "WillQos m = drop_bit 3 (connectFlags m) AND 3"

definition SetWillQos :: "connect_message \<Rightarrow> byte \<Rightarrow> connect_message \<times> merror option" where
  "SetWillQos m q =
     (if q \<noteq> QosAtMostOnce \<and> q \<noteq> QosAtLeastOnce \<and> q \<noteq> QosExactlyOnce then (m, Some (EInvalidQos q))
      else (m\<lparr>connectFlags := (connectFlags m AND 231) OR push_bit 3 q, dirty := True\<rparr>, None))"

definition WillRetain :: "connect_message \<Rightarrow> bool" where
  "WillRetain m \<longleftrightarrow> drop_bit 5 (connectFlags m) AND 1 = 1"

definition SetWillRetain :: "connect_message \<Rightarrow> bool \<Rightarrow> connect_message" where
  "SetWillRetain m v =
     m\<lparr>connectFlags := (if v then connectFlags m OR 32 else connectFlags m AND 223), dirty := True\<rparr>"

definition UsernameFlag :: "connect_message \<Rightarrow> bool" where
  "UsernameFlag m \<longleftrightarrow> drop_bit 7 (connectFlags m) AND 1 = 1"

definition SetUsernameFlag :: "connect_message \<Rightarrow> bool \<Rightarrow> connect_message" where
  "SetUsernameFlag m v =
     m\<lparr>connectFlags := (if v then connectFlags m OR 128 else connectFlags m AND 127), dirty := True\<rparr>"

definition PasswordFlag :: "connect_message \<Rightarrow> bool" where
  "PasswordFlag m \<longleftrightarrow> drop_bit 6 (connectFlags m) AND 1 = 1"

definition SetPasswordFlag :: "connect_message \<Rightarrow> bool \<Rightarrow> connect_message" where
  "SetPasswordFlag m v =
     m\<lparr>connectFlags := (if v then connectFlags m OR 64 else connectFlags m AND 191), dirty := True\<rparr>"

definition SetKeepAlive :: "connect_message \<Rightarrow> 16 word \<Rightarrow> connect_message" where
  "SetKeepAlive m v = m\<lparr>keepAlive := v, dirty := True\<rparr>"

text \<open>The regular expression \<open>^[0-9a-zA-Z _]*$\<close>.\<close>

definition client_id_char :: "byte \<Rightarrow> bool" where
  "client_id_char c \<longleftrightarrow>
     48 \<le> c \<and> c \<le> 57 \<or> 97 \<le> c \<and> c \<le> 122 \<or> 65 \<le> c \<and> c \<le> 90 \<or> c = 32 \<or> c = 95"

definition validClientId :: "connect_message \<Rightarrow> bytes \<Rightarrow> bool" where
  "validClientId m cid \<longleftrightarrow> (if version m = 3 then True else list_all client_id_char cid)"

definition SetClientId :: "connect_message \<Rightarrow> bytes \<Rightarrow> connect_message \<times> merror option" where
  "SetClientId m v =
     (if length v > 0 \<and> \<not> validClientId m v then (m, Some (EConnack ErrIdentifierRejected))
      else (m\<lparr>clientId := v, dirty := True\<rparr>, None))"

definition SetWillTopic :: "connect_message \<Rightarrow> bytes \<Rightarrow> connect_message" where
  "SetWillTopic m v =
     (let m = m\<lparr>willTopic := v\<rparr>;
          m = (if length v > 0 then SetWillFlag m True
               else if length (willMessage m) = 0 then SetWillFlag m False else m)
      in m\<lparr>dirty := True\<rparr>)"

definition SetWillMessage :: "connect_message \<Rightarrow> bytes \<Rightarrow> connect_message" where
  "SetWillMessage m v =
     (let m = m\<lparr>willMessage := v\<rparr>;
          m = (if length v > 0 then SetWillFlag m True
               else if length (willTopic m) = 0 then SetWillFlag m False else m)
      in m\<lparr>dirty := True\<rparr>)"

definition SetUsername :: "connect_message \<Rightarrow> bytes \<Rightarrow> connect_message" where
  "SetUsername m v =
     (let m = m\<lparr>username := v\<rparr>;
          m = (if length v > 0 then SetUsernameFlag m True else SetUsernameFlag m False)
      in m\<lparr>dirty := True\<rparr>)"

definition SetPassword :: "connect_message \<Rightarrow> bytes \<Rightarrow> connect_message" where
  "SetPassword m v =
     (let m = m\<lparr>password := v\<rparr>;
          m = (if length v > 0 then SetPasswordFlag m True else SetPasswordFlag m False)
      in m\<lparr>dirty := True\<rparr>)"

definition connect_msglen :: "connect_message \<Rightarrow> int" where
  "connect_msglen m =
     (case SupportedVersions (version m) of
        None \<Rightarrow> 0
      | Some verstr \<Rightarrow>
        let tot = 2 + int (length verstr) + 1 + 1 + 2;
            tot = tot + (2 + int (length (clientId m)));
            tot = (if WillFlag m
                   then tot + (2 + int (length (willTopic m)) + 2 + int (length (willMessage m))) else tot);
            tot = (if UsernameFlag m \<and> length (username m) > 0
                   then tot + (2 + int (length (username m))) else tot)
        in if PasswordFlag m \<and> length (password m) > 0
           then tot + (2 + int (length (password m))) else tot)"

definition connect_Len :: "connect_message \<Rightarrow> connect_message \<times> int" where
  "connect_Len m = len_with connect_msglen m"

section \<open>Decode and Encode\<close>

text \<open>
  \<open>if flag && len(src[total:]) > 0 { this.f, n, err = readLPBytes(src[total:]); total += n }\<close>.
\<close>

definition opt_read ::
    "bool \<Rightarrow> slice \<Rightarrow> int \<Rightarrow> (bytes \<Rightarrow> 'm \<Rightarrow> 'm) \<Rightarrow> 'm \<Rightarrow> ('m, merror) ret" where
  "opt_read flag src tot upd m =
     (if flag then do {
        s \<leftarrow> slice_from src tot;
        if slen s > 0 then read_field src tot upd m else Some (m, tot, None)
      }
      else Some (m, tot, None))"

definition connect_decode_payload ::
    "connect_message \<Rightarrow> slice \<Rightarrow> int \<Rightarrow> (connect_message, merror) ret" where
  "connect_decode_payload m src tot =
     ret_bind (read_field src tot (\<lambda>b m. m\<lparr>clientId := b\<rparr>) m) (\<lambda>m tot.
       if length (clientId m) = 0 \<and> \<not> CleanSession m
       then Some (m, tot, Some (EConnack ErrIdentifierRejected))
       else if length (clientId m) > 0 \<and> \<not> validClientId m (clientId m)
       then Some (m, tot, Some (EConnack ErrIdentifierRejected))
       else
         ret_bind
           (if WillFlag m
            then ret_bind (read_field src tot (\<lambda>b m. m\<lparr>willTopic := b\<rparr>) m) (\<lambda>m tot.
                   read_field src tot (\<lambda>b m. m\<lparr>willMessage := b\<rparr>) m)
            else Some (m, tot, None)) (\<lambda>m tot.
         ret_bind (opt_read (UsernameFlag m) src tot (\<lambda>b m. m\<lparr>username := b\<rparr>) m) (\<lambda>m tot.
           opt_read (PasswordFlag m) src tot (\<lambda>b m. m\<lparr>password := b\<rparr>) m)))"

definition connect_decodeMessage :: "connect_message \<Rightarrow> slice \<Rightarrow> (connect_message, merror) ret" where
  "connect_decodeMessage m src =
     ret_bind (read_field src 0 (\<lambda>b m. m\<lparr>protoName := b\<rparr>) m) (\<lambda>m tot. do {
       v \<leftarrow> slice_index src tot;
       let m = m\<lparr>version := v\<rparr>;
       let tot = tot + 1;
       if SupportedVersions v \<noteq> Some (protoName m)
       then Some (m, tot, Some (EConnack ErrInvalidProtocolVersion))
       else do {
         f \<leftarrow> slice_index src tot;
         let m = m\<lparr>connectFlags := f\<rparr>;
         let tot = tot + 1;
         if connectFlags m AND 1 \<noteq> 0 then Some (m, tot, Some EReservedConnectFlag)
         else if WillQos m > QosExactlyOnce then Some (m, tot, Some (EInvalidQos (WillQos m)))
         else if \<not> WillFlag m \<and> (WillRetain m \<or> WillQos m \<noteq> QosAtMostOnce)
         then Some (m, tot, Some (EWillFlags (WillFlag m) (WillQos m) (WillRetain m)))
         else if UsernameFlag m \<and> \<not> PasswordFlag m then Some (m, tot, Some EUsernameNoPassword)
         else do {
           s \<leftarrow> slice_from src tot;
           if slen s < 2 then Some (m, 0, Some (EInsufficientBuffer 2 (slen s)))
           else do {
             k \<leftarrow> be16 (sdata s);
             connect_decode_payload (m\<lparr>keepAlive := k\<rparr>) src (tot + 2)
           }
         }
       }
     })"

definition connect_Decode :: "connect_message \<Rightarrow> slice \<Rightarrow> (connect_message, merror) ret" where
  "connect_Decode m src =
     ret_bind (header_decode m src) (\<lambda>m tot. do {
       s \<leftarrow> slice_from src tot;
       (m, n, e) \<leftarrow> connect_decodeMessage m s;
       case e of Some e \<Rightarrow> Some (m, tot + n, Some e)
       | None \<Rightarrow> Some (m\<lparr>dirty := False\<rparr>, tot + n, None)
     })"

definition opt_write :: "bool \<Rightarrow> bytes \<Rightarrow> int \<Rightarrow> bytes \<Rightarrow> (bytes, merror) ret" where
  "opt_write c dst tot b = (if c then write_field dst tot b else Some (dst, tot, None))"

definition connect_encodeMessage :: "connect_message \<Rightarrow> bytes \<Rightarrow> (bytes, merror) ret" where
  "connect_encodeMessage m dst =
     ret_bind (write_field dst 0 (case SupportedVersions (version m) of None \<Rightarrow> [] | Some s \<Rightarrow> s))
       (\<lambda>dst tot. do {
         dst \<leftarrow> set_at dst tot (version m);
         let tot = tot + 1;
         dst \<leftarrow> set_at dst tot (connectFlags m);
         let tot = tot + 1;
         (dst, _) \<leftarrow> (if tot + 2 \<le> int (length dst) then copy_at dst tot (put_be16 (keepAlive m)) else None);
         let tot = tot + 2;
         ret_bind (write_field dst tot (clientId m)) (\<lambda>dst tot.
         ret_bind (opt_write (WillFlag m) dst tot (willTopic m)) (\<lambda>dst tot.
         ret_bind (opt_write (WillFlag m) dst tot (willMessage m)) (\<lambda>dst tot.
         ret_bind (opt_write (UsernameFlag m \<and> length (username m) > 0) dst tot (username m)) (\<lambda>dst tot.
           opt_write (PasswordFlag m \<and> length (password m) > 0) dst tot (password m)))))
       })"

definition connect_Encode :: "connect_message \<Rightarrow> bytes \<Rightarrow> (connect_message \<times> bytes, merror) ret" where
  "connect_Encode m dst =
     (if \<not> dirty m then encode_clean m dst
      else case header_Type m of (m, t) \<Rightarrow>
        if t \<noteq> CONNECT then Some ((m, dst), 0, Some (EUnexpectedType CONNECT t))
        else if SupportedVersions (version m) = None
        then Some ((m, dst), 0, Some (EConnack ErrInvalidProtocolVersion))
        else let hl = header_msglen m; ml = connect_msglen m
             in if int (length dst) < hl + ml
                then Some ((m, dst), 0, Some (EInsufficientBuffer (hl + ml) (int (length dst))))
                else ret_bind (encode_head m dst ml) (\<lambda>(m, dst) tot. do {
                  (dst, n, e) \<leftarrow> on_suffix dst tot (connect_encodeMessage m);
                  Some ((m, dst), tot + n, e)
                }))"


section \<open>The flags\<close>

lemma flag_bit: "drop_bit k (b :: byte) AND 1 = 1 \<longleftrightarrow> bit b k"
  by (simp add: and_one_eq bit_iff_odd_drop_bit odd_iff_mod_2_eq_one)

lemmas flag_getters =
  CleanSession_def WillFlag_def WillRetain_def UsernameFlag_def PasswordFlag_def flag_bit

lemmas flag_setters =
  SetCleanSession_def SetWillFlag_def SetWillRetain_def SetUsernameFlag_def SetPasswordFlag_def

lemma WillQos_bits:
  assumes "bit (connectFlags m) 3 = bit (connectFlags m') 3"
    and "bit (connectFlags m) 4 = bit (connectFlags m') 4"
  shows "WillQos m = WillQos m'"
proof -
  have eq: "drop_bit 3 x AND 3 = take_bit 2 (drop_bit 3 x)" for x :: byte
    by (simp add: take_bit_eq_mask mask_eq_decr_exp)
  show ?thesis
    unfolding WillQos_def eq
  proof (rule bit_word_eqI)
    fix n
    show "bit (take_bit 2 (drop_bit 3 (connectFlags m))) n =
        bit (take_bit 2 (drop_bit 3 (connectFlags m'))) n"
      using assms by (cases "n < 2") (auto simp: bit_take_bit_iff bit_drop_bit_eq less_2_cases_iff)
  qed
qed

text \<open>Every setter sets its own flag and leaves the others alone.\<close>

lemma setter_getter:
  "CleanSession (SetCleanSession m v) = v" "WillFlag (SetWillFlag m v) = v"
  "WillRetain (SetWillRetain m v) = v" "UsernameFlag (SetUsernameFlag m v) = v"
  "PasswordFlag (SetPasswordFlag m v) = v"
  by (simp_all add: flag_getters flag_setters bit_or_iff bit_and_iff)

lemma setter_frame:
  "WillFlag (SetCleanSession m v) = WillFlag m" "WillRetain (SetCleanSession m v) = WillRetain m"
  "UsernameFlag (SetCleanSession m v) = UsernameFlag m" "PasswordFlag (SetCleanSession m v) = PasswordFlag m"
  "CleanSession (SetWillFlag m v) = CleanSession m" "WillRetain (SetWillFlag m v) = WillRetain m"
  "UsernameFlag (SetWillFlag m v) = UsernameFlag m" "PasswordFlag (SetWillFlag m v) = PasswordFlag m"
  "CleanSession (SetWillRetain m v) = CleanSession m" "WillFlag (SetWillRetain m v) = WillFlag m"
  "UsernameFlag (SetWillRetain m v) = UsernameFlag m" "PasswordFlag (SetWillRetain m v) = PasswordFlag m"
  "CleanSession (SetUsernameFlag m v) = CleanSession m" "WillFlag (SetUsernameFlag m v) = WillFlag m"
  "WillRetain (SetUsernameFlag m v) = WillRetain m" "PasswordFlag (SetUsernameFlag m v) = PasswordFlag m"
  "CleanSession (SetPasswordFlag m v) = CleanSession m" "WillFlag (SetPasswordFlag m v) = WillFlag m"
  "WillRetain (SetPasswordFlag m v) = WillRetain m" "UsernameFlag (SetPasswordFlag m v) = UsernameFlag m"
  by (simp_all add: flag_getters flag_setters bit_or_iff bit_and_iff)

lemma setter_WillQos:
  "WillQos (SetCleanSession m v) = WillQos m" "WillQos (SetWillFlag m v) = WillQos m"
  "WillQos (SetWillRetain m v) = WillQos m" "WillQos (SetUsernameFlag m v) = WillQos m"
  "WillQos (SetPasswordFlag m v) = WillQos m"
  by (rule WillQos_bits; simp add: flag_setters bit_or_iff bit_and_iff)+

lemma setter_reserved:
  "bit (connectFlags (SetCleanSession m v)) 0 = bit (connectFlags m) 0"
  "bit (connectFlags (SetWillFlag m v)) 0 = bit (connectFlags m) 0"
  "bit (connectFlags (SetWillRetain m v)) 0 = bit (connectFlags m) 0"
  "bit (connectFlags (SetUsernameFlag m v)) 0 = bit (connectFlags m) 0"
  "bit (connectFlags (SetPasswordFlag m v)) 0 = bit (connectFlags m) 0"
  by (simp_all add: flag_setters bit_or_iff bit_and_iff)

text \<open>What the field setters keep, from the constructor on.\<close>

definition connect_fields_inv :: "connect_message \<Rightarrow> bool" where
  "connect_fields_inv m \<longleftrightarrow>
     (WillFlag m \<longleftrightarrow> willTopic m \<noteq> [] \<or> willMessage m \<noteq> []) \<and>
     (UsernameFlag m \<longleftrightarrow> username m \<noteq> []) \<and> (PasswordFlag m \<longleftrightarrow> password m \<noteq> []) \<and>
     \<not> bit (connectFlags m) 0"

lemma flags_only_connectFlags:
  "connectFlags m = connectFlags m' \<Longrightarrow> WillFlag m = WillFlag m' \<and> UsernameFlag m = UsernameFlag m' \<and>
     PasswordFlag m = PasswordFlag m' \<and> CleanSession m = CleanSession m' \<and>
     WillRetain m = WillRetain m' \<and> WillQos m = WillQos m'"
  by (simp add: flag_getters WillQos_def)

lemma flag_setter_fields [simp]:
  "willTopic (SetWillFlag m v) = willTopic m" "willMessage (SetWillFlag m v) = willMessage m"
  "username (SetWillFlag m v) = username m" "password (SetWillFlag m v) = password m"
  "willTopic (SetUsernameFlag m v) = willTopic m" "willMessage (SetUsernameFlag m v) = willMessage m"
  "username (SetUsernameFlag m v) = username m" "password (SetUsernameFlag m v) = password m"
  "willTopic (SetPasswordFlag m v) = willTopic m" "willMessage (SetPasswordFlag m v) = willMessage m"
  "username (SetPasswordFlag m v) = username m" "password (SetPasswordFlag m v) = password m"
  "willTopic (SetCleanSession m v) = willTopic m" "willMessage (SetCleanSession m v) = willMessage m"
  "username (SetCleanSession m v) = username m" "password (SetCleanSession m v) = password m"
  by (simp_all add: flag_setters)

lemma flags_field_update [simp]:
  "WillFlag (m\<lparr>willTopic := x\<rparr>) = WillFlag m" "WillFlag (m\<lparr>willMessage := x\<rparr>) = WillFlag m"
  "WillFlag (m\<lparr>username := x\<rparr>) = WillFlag m" "WillFlag (m\<lparr>password := x\<rparr>) = WillFlag m"
  "WillFlag (m\<lparr>dirty := d\<rparr>) = WillFlag m" "UsernameFlag (m\<lparr>willTopic := x\<rparr>) = UsernameFlag m"
  "UsernameFlag (m\<lparr>willMessage := x\<rparr>) = UsernameFlag m" "UsernameFlag (m\<lparr>username := x\<rparr>) = UsernameFlag m"
  "UsernameFlag (m\<lparr>password := x\<rparr>) = UsernameFlag m" "UsernameFlag (m\<lparr>dirty := d\<rparr>) = UsernameFlag m"
  "PasswordFlag (m\<lparr>willTopic := x\<rparr>) = PasswordFlag m" "PasswordFlag (m\<lparr>willMessage := x\<rparr>) = PasswordFlag m"
  "PasswordFlag (m\<lparr>username := x\<rparr>) = PasswordFlag m" "PasswordFlag (m\<lparr>password := x\<rparr>) = PasswordFlag m"
  "PasswordFlag (m\<lparr>dirty := d\<rparr>) = PasswordFlag m"
  by (simp_all add: flag_getters)

lemma NewConnect_inv: "connect_fields_inv NewConnectMessage"
  by (simp add: connect_fields_inv_def NewConnectMessage_def flag_getters header_SetType_def
      put_mtypeflags_def type_Valid_def)

lemma connect_setters_inv:
  assumes "connect_fields_inv m"
  shows "connect_fields_inv (SetWillTopic m v)" "connect_fields_inv (SetWillMessage m v)"
    "connect_fields_inv (SetUsername m v)" "connect_fields_inv (SetPassword m v)"
    "connect_fields_inv (SetCleanSession m c)"
  using assms
  by (auto simp: connect_fields_inv_def SetWillTopic_def SetWillMessage_def SetUsername_def
      SetPassword_def Let_def setter_getter setter_frame setter_reserved)


section \<open>Wire form and round trip\<close>

definition opt_lp :: "bool \<Rightarrow> bytes \<Rightarrow> bytes" where
  "opt_lp c b = (if c then lp b else [])"

definition connect_payload :: "connect_message \<Rightarrow> bytes" where
  "connect_payload m =
     lp (clientId m) @ opt_lp (WillFlag m) (willTopic m) @ opt_lp (WillFlag m) (willMessage m) @
     opt_lp (UsernameFlag m \<and> username m \<noteq> []) (username m) @
     opt_lp (PasswordFlag m \<and> password m \<noteq> []) (password m)"

definition connect_proto :: "connect_message \<Rightarrow> bytes" where
  "connect_proto m = (case SupportedVersions (version m) of None \<Rightarrow> [] | Some s \<Rightarrow> s)"

definition connect_body :: "connect_message \<Rightarrow> bytes" where
  "connect_body m =
     lp (connect_proto m) @ [version m, connectFlags m] @ put_be16 (keepAlive m) @ connect_payload m"

definition connect_lengths :: "connect_message \<Rightarrow> bool" where
  "connect_lengths m \<longleftrightarrow>
     list_all (\<lambda>b. length b \<le> 65535) [clientId m, willTopic m, willMessage m, username m, password m]"

text \<open>What the decoder insists on, beyond the lengths.\<close>

definition connect_flags_ok :: "connect_message \<Rightarrow> bool" where
  "connect_flags_ok m \<longleftrightarrow>
     connectFlags m AND 1 = 0 \<and> WillQos m \<le> QosExactlyOnce \<and>
     (\<not> WillFlag m \<longrightarrow> \<not> WillRetain m \<and> WillQos m = QosAtMostOnce) \<and>
     (UsernameFlag m \<longrightarrow> PasswordFlag m)"

definition connect_client_ok :: "connect_message \<Rightarrow> bool" where
  "connect_client_ok m \<longleftrightarrow>
     (clientId m = [] \<longrightarrow> CleanSession m) \<and> (clientId m \<noteq> [] \<longrightarrow> validClientId m (clientId m))"

definition connect_ready :: "connect_message \<Rightarrow> bool" where
  "connect_ready m \<longleftrightarrow>
     dirty m \<and> typed CONNECT m (type_byte m) \<and> SupportedVersions (version m) \<noteq> None \<and>
     connect_lengths m \<and> connect_flags_ok m \<and> connect_client_ok m \<and>
     (UsernameFlag m \<and> username m = [] \<longrightarrow> password m = [])"

text \<open>What \<open>Encode\<close> itself asks for.\<close>

definition connect_encodable :: "connect_message \<Rightarrow> bool" where
  "connect_encodable m \<longleftrightarrow>
     dirty m \<and> typed CONNECT m (type_byte m) \<and> SupportedVersions (version m) \<noteq> None \<and> connect_lengths m"

lemma connect_ready_encodable: "connect_ready m \<Longrightarrow> connect_encodable m"
  by (simp add: connect_ready_def connect_encodable_def)

definition connect_wire :: "connect_message \<Rightarrow> bytes" where
  "connect_wire m = hdr_wire (type_byte m) (length (connect_body m)) @ connect_body m"

definition connect_same :: "connect_message \<Rightarrow> connect_message \<Rightarrow> bool" where
  "connect_same m m' \<longleftrightarrow>
     version m' = version m \<and> connectFlags m' = connectFlags m \<and> keepAlive m' = keepAlive m \<and>
     clientId m' = clientId m \<and>
     (WillFlag m \<longrightarrow> willTopic m' = willTopic m \<and> willMessage m' = willMessage m) \<and>
     (UsernameFlag m \<longrightarrow> username m' = username m) \<and> (PasswordFlag m \<longrightarrow> password m' = password m) \<and>
     snd (header_Type m') = CONNECT"

lemma connect_proto_length: "length (connect_proto m) \<le> 6"
  by (simp add: connect_proto_def SupportedVersions_def)

lemma length_opt_lp: "length (opt_lp c b) = (if c then 2 + length b else 0)"
  by (simp add: opt_lp_def)

lemma connect_msglen_body:
  assumes "SupportedVersions (version m) \<noteq> None"
  shows "connect_msglen m = int (length (connect_body m))"
  using assms
  by (auto simp: connect_msglen_def connect_body_def connect_payload_def length_opt_lp Let_def
      connect_proto_def split: option.splits)

lemma connect_body_max:
  assumes "connect_lengths m"
  shows "length (connect_body m) \<le> 268435455"
proof -
  have o: "length (opt_lp c b) \<le> 2 + length b" for c b by (simp add: length_opt_lp)
  have l: "length (clientId m) \<le> 65535" "length (willTopic m) \<le> 65535" "length (willMessage m) \<le> 65535"
    "length (username m) \<le> 65535" "length (password m) \<le> 65535"
    using assms by (simp_all add: connect_lengths_def)
  have "length (connect_payload m) \<le> 5 * 65537"
    unfolding connect_payload_def length_append length_lp
    using o [of "WillFlag m" "willTopic m"] o [of "WillFlag m" "willMessage m"]
      o [of "UsernameFlag m \<and> username m \<noteq> []" "username m"]
      o [of "PasswordFlag m \<and> password m \<noteq> []" "password m"] l by linarith
  then show ?thesis using connect_proto_length [of m] by (simp add: connect_body_def)
qed

lemma opt_write_wr:
  assumes "length b \<le> 65535" and "i = int (length w)" and "length w + length (opt_lp c b) \<le> length dst"
  shows "opt_write c (wr w dst) i b =
    Some (wr (w @ opt_lp c b) dst, int (length (w @ opt_lp c b)), None)"
  using assms write_field_wr [of b i w dst] by (cases c) (simp_all add: opt_write_def opt_lp_def)

lemma connect_encodeMessage_wr:
  assumes "connect_lengths m" and "SupportedVersions (version m) \<noteq> None"
    and "length (connect_body m) \<le> length dst"
  shows "connect_encodeMessage m dst =
    Some (wr (connect_body m) dst, int (length (connect_body m)), None)"
proof -
  let ?u = "UsernameFlag m \<and> username m \<noteq> []" and ?p = "PasswordFlag m \<and> password m \<noteq> []"
  define w1 where "w1 = lp (connect_proto m)"
  define w2 where "w2 = w1 @ [version m, connectFlags m] @ put_be16 (keepAlive m)"
  define w3 where "w3 = w2 @ lp (clientId m)"
  define w4 where "w4 = w3 @ opt_lp (WillFlag m) (willTopic m)"
  define w5 where "w5 = w4 @ opt_lp (WillFlag m) (willMessage m)"
  define w6 where "w6 = w5 @ opt_lp ?u (username m)"
  define w7 where "w7 = w6 @ opt_lp ?p (password m)"
  have w7: "w7 = connect_body m"
    by (simp add: w7_def w6_def w5_def w4_def w3_def w2_def w1_def connect_body_def connect_payload_def)
  have l: "length w7 \<le> length dst" using assms(3) by (simp add: w7)
  have l6: "length w6 + length (opt_lp ?p (password m)) \<le> length dst"
    using l by (simp only: w7_def length_append)
  then have l5: "length w5 + length (opt_lp ?u (username m)) \<le> length dst"
    by (simp only: w6_def length_append)
  then have l4: "length w4 + length (opt_lp (WillFlag m) (willMessage m)) \<le> length dst"
    by (simp only: w5_def length_append)
  then have l3: "length w3 + length (opt_lp (WillFlag m) (willTopic m)) \<le> length dst"
    by (simp only: w4_def length_append)
  then have l2: "length w2 + length (lp (clientId m)) \<le> length dst" by (simp only: w3_def length_append)
  then have l1: "length w1 + 4 \<le> length dst" by (simp add: w2_def)
  have b: "length (clientId m) \<le> 65535" "length (willTopic m) \<le> 65535" "length (willMessage m) \<le> 65535"
    "length (username m) \<le> 65535" "length (password m) \<le> 65535" "length (connect_proto m) \<le> 65535"
    using assms(1) connect_proto_length [of m] by (simp_all add: connect_lengths_def)
  have 1: "write_field dst 0 (connect_proto m) = Some (wr w1 dst, int (length w1), None)"
    using write_field_wr [OF b(6), of 0 "[]" dst] l1 by (simp add: w1_def)
  have 2: "set_at (wr w1 dst) (int (length w1)) x = Some (wr (w1 @ [x]) dst)" for x
    using l1 by (intro set_at_wr) auto
  have 3: "set_at (wr (w1 @ [x]) dst) (int (length w1) + 1) y = Some (wr (w1 @ [x, y]) dst)" for x y
    using set_at_wr [of "int (length w1) + 1" "w1 @ [x]" dst y] l1 by simp
  have 4: "copy_at (wr (w1 @ [x, y]) dst) (int (length w1) + 1 + 1) (put_be16 k) =
      Some (wr (w1 @ [x, y] @ put_be16 k) dst, 2)" for x y k
    using copy_at_wr [of "int (length w1) + 1 + 1" "w1 @ [x, y]" "put_be16 k" dst] l1 by simp
  have 5: "write_field (wr w2 dst) (int (length w2)) (clientId m) =
      Some (wr w3 dst, int (length w3), None)"
    using write_field_wr [OF b(1) refl l2] by (simp add: w3_def)
  note o = opt_write_wr [OF b(2) refl l3, folded w4_def] opt_write_wr [OF b(3) refl l4, folded w5_def]
    opt_write_wr [OF b(4) refl l5, folded w6_def] opt_write_wr [OF b(5) refl l6, folded w7_def]
  have pos: "int (length w1) + 1 + 1 + 2 = int (length w2)" "wr (w1 @ [version m, connectFlags m] @ put_be16 (keepAlive m)) dst = wr w2 dst"
    by (simp_all add: w2_def)
  have fit: "int (length w1) + 1 + 1 + 2 \<le> int (length (wr (w1 @ [version m, connectFlags m]) dst))"
    using l1 by simp
  show ?thesis
    unfolding connect_encodeMessage_def connect_proto_def [symmetric] 1 ret_bind_simps 2
      bind.bind_lunit Let_def 3 4 if_P [OF fit] prod.case
    unfolding pos 5 ret_bind_simps length_greater_0_conv o w7 [symmetric] by (rule refl)
qed


lemma lp_not_Nil [simp]: "lp b \<noteq> []"
  by (simp add: lp_def put_be16_def)

lemma read_field_at:
  "length b \<le> 65535 \<Longrightarrow> read_field (Slice (p @ lp b @ r) sp) (int (length p)) upd m =
     Some (upd b m, int (length (p @ lp b)), None)"
  using read_field_lp [of b "int (length p)" p r sp upd m] by simp

lemma opt_read_some:
  assumes "length b \<le> 65535"
  shows "opt_read True (Slice (p @ lp b @ r) sp) (int (length p)) upd m =
    Some (upd b m, int (length (p @ lp b)), None)"
  using assms read_field_at [of b p r sp upd m]
    slice_from_split [of "int (length p)" p "lp b @ r" sp]
  by (simp add: opt_read_def slen_def)

lemma opt_read_skip:
  "\<not> f \<or> r = [] \<Longrightarrow> opt_read f (Slice (p @ r) sp) (int (length p)) upd m =
     Some (m, int (length p), None)"
  using slice_from_split [of "int (length p)" p r sp] by (auto simp: opt_read_def slen_def)

lemma opt_read_opt_lp:
  assumes "length b \<le> 65535" and "f \<and> b = [] \<longrightarrow> r = []"
    and "\<And>m. P m \<Longrightarrow> upd [] m = m" and "P m"
  shows "opt_read f (Slice (p @ opt_lp (f \<and> b \<noteq> []) b @ r) sp) (int (length p)) upd m =
    Some (upd (if f then b else []) m, int (length (p @ opt_lp (f \<and> b \<noteq> []) b)), None)"
proof (cases "f \<and> b \<noteq> []")
  case True
  then show ?thesis using opt_read_some [OF assms(1)] by (simp add: opt_lp_def)
next
  case False
  then have e: "(if f then b else []) = []" by auto
  show ?thesis
    using False assms(2,3,4) opt_read_skip [of f r p sp upd m] by (auto simp: opt_lp_def e)
qed

definition sent_fields :: "connect_message \<Rightarrow> connect_message \<Rightarrow> connect_message" where
  "sent_fields m d =
     d\<lparr>clientId := clientId m, willTopic := (if WillFlag m then willTopic m else []),
       willMessage := (if WillFlag m then willMessage m else []),
       username := (if UsernameFlag m then username m else []),
       password := (if PasswordFlag m then password m else [])\<rparr>"

lemma connect_decode_payload_wire:
  assumes m: "connect_lengths m" "connect_client_ok m" "UsernameFlag m \<and> username m = [] \<longrightarrow> password m = []"
    and d: "connectFlags d = connectFlags m" "version d = version m" "willTopic d = []"
      "willMessage d = []" "username d = []" "password d = []"
  shows "connect_decode_payload d (Slice (p @ connect_payload m) sp) (int (length p)) =
    Some (sent_fields m d, int (length (p @ connect_payload m)), None)"
proof -
  let ?U = "opt_lp (UsernameFlag m \<and> username m \<noteq> []) (username m)"
  let ?P = "opt_lp (PasswordFlag m \<and> password m \<noteq> []) (password m)"
  let ?T = "opt_lp (WillFlag m) (willTopic m)" and ?M = "opt_lp (WillFlag m) (willMessage m)"
  define src where "src = Slice (p @ connect_payload m) sp"
  define p1 where "p1 = p @ lp (clientId m)"
  define p2 where "p2 = p1 @ ?T @ ?M"
  define p3 where "p3 = p2 @ ?U"
  have s0: "src = Slice (p @ lp (clientId m) @ ?T @ ?M @ ?U @ ?P) sp"
    by (simp add: src_def connect_payload_def)
  have s1: "src = Slice (p1 @ ?T @ ?M @ ?U @ ?P) sp" by (simp add: s0 p1_def)
  have s2: "src = Slice (p2 @ ?U @ ?P) sp" by (simp add: s1 p2_def)
  have s3: "src = Slice (p3 @ ?P @ []) sp" by (simp add: s2 p3_def)
  have b: "length (clientId m) \<le> 65535" "length (willTopic m) \<le> 65535" "length (willMessage m) \<le> 65535"
    "length (username m) \<le> 65535" "length (password m) \<le> 65535"
    using m(1) by (simp_all add: connect_lengths_def)
  define d1 where "d1 = d\<lparr>clientId := clientId m\<rparr>"
  have f: "CleanSession d1 = CleanSession m" "WillFlag d1 = WillFlag m" "UsernameFlag d1 = UsernameFlag m"
    "PasswordFlag d1 = PasswordFlag m"
    using flags_only_connectFlags [of d1 m] d by (simp_all add: d1_def)
  have ok: "\<not> (length (clientId d1) = 0 \<and> \<not> CleanSession d1)"
    "\<not> (0 < length (clientId d1) \<and> \<not> validClientId d1 (clientId d1))"
    using m(2) f d by (auto simp: connect_client_ok_def d1_def validClientId_def)
  have 1: "read_field src (int (length p)) (\<lambda>b m. m\<lparr>clientId := b\<rparr>) d = Some (d1, int (length p1), None)"
    unfolding s0 p1_def d1_def by (rule read_field_at [OF b(1)])
  define d2 where "d2 = d1\<lparr>willTopic := (if WillFlag m then willTopic m else []),
      willMessage := (if WillFlag m then willMessage m else [])\<rparr>"
  have 2: "(if WillFlag d1
      then ret_bind (read_field src (int (length p1)) (\<lambda>b m. m\<lparr>willTopic := b\<rparr>) d1) (\<lambda>m tot.
             read_field src tot (\<lambda>b m. m\<lparr>willMessage := b\<rparr>) m)
      else Some (d1, int (length p1), None)) = Some (d2, int (length p2), None)"
  proof (cases "WillFlag m")
    case True
    have "read_field src (int (length p1)) upd x =
        Some (upd (willTopic m) x, int (length (p1 @ lp (willTopic m))), None)" for upd and x :: connect_message
      using read_field_at [OF b(2), of p1 "?M @ ?U @ ?P" sp upd] True by (simp add: s1 opt_lp_def)
    moreover have "read_field src (int (length (p1 @ lp (willTopic m)))) upd x =
        Some (upd (willMessage m) x, int (length p2), None)" for upd and x :: connect_message
      using read_field_at [OF b(3), of "p1 @ lp (willTopic m)" "?U @ ?P" sp upd] True
      by (simp add: s1 opt_lp_def p2_def)
    ultimately show ?thesis using True f by (simp add: d2_def)
  next
    case False
    have "d1\<lparr>willTopic := [], willMessage := []\<rparr> = d1" using d by (cases d) (simp add: d1_def)
    then show ?thesis using False f by (simp add: d2_def p2_def opt_lp_def)
  qed
  define d3 where "d3 = d2\<lparr>username := (if UsernameFlag m then username m else [])\<rparr>"
  have 3: "opt_read (UsernameFlag m) src (int (length p2)) (\<lambda>b m. m\<lparr>username := b\<rparr>) d2 =
      Some (d3, int (length p3), None)"
    unfolding s2 d3_def p3_def
  proof (rule opt_read_opt_lp [OF b(4), where P = "\<lambda>m. username m = []"])
    show "UsernameFlag m \<and> username m = [] \<longrightarrow> ?P = []" using m(3) by (simp add: opt_lp_def)
    show "username d2 = []" using d by (simp add: d2_def d1_def)
    show "x\<lparr>username := []\<rparr> = x" if "username x = []" for x :: connect_message
      using that by (cases x) simp
  qed
  have 4: "opt_read (PasswordFlag m) src (int (length p3)) (\<lambda>b m. m\<lparr>password := b\<rparr>) d3 =
      Some (d3\<lparr>password := (if PasswordFlag m then password m else [])\<rparr>, int (length (p3 @ ?P)), None)"
    unfolding s3
  proof (rule opt_read_opt_lp [OF b(5), where P = "\<lambda>m. password m = []"])
    show "PasswordFlag m \<and> password m = [] \<longrightarrow> [] = []" by simp
    show "password d3 = []" using d by (simp add: d3_def d2_def d1_def)
    show "x\<lparr>password := []\<rparr> = x" if "password x = []" for x :: connect_message
      using that by (cases x) simp
  qed
  have f2: "UsernameFlag d2 = UsernameFlag m" "PasswordFlag d3 = PasswordFlag m"
    using f by (simp_all add: d3_def d2_def)
  have "p3 @ ?P = p @ connect_payload m"
    by (simp add: p3_def p2_def p1_def connect_payload_def)
  moreover have "d3\<lparr>password := (if PasswordFlag m then password m else [])\<rparr> = sent_fields m d"
    by (simp add: d3_def d2_def d1_def sent_fields_def)
  ultimately show ?thesis
    unfolding connect_decode_payload_def src_def [symmetric] 1 ret_bind_simps
    using ok 2 3 4 f2 by (simp only: if_False ret_bind_simps)
qed


lemma connect_decodeMessage_wire:
  assumes m: "SupportedVersions (version m) \<noteq> None" "connect_lengths m" "connect_flags_ok m"
      "connect_client_ok m" "UsernameFlag m \<and> username m = [] \<longrightarrow> password m = []"
    and d: "willTopic d = []" "willMessage d = []" "username d = []" "password d = []"
  shows "connect_decodeMessage d (Slice (connect_body m) sp) =
    Some (sent_fields m (d\<lparr>protoName := connect_proto m, version := version m,
            connectFlags := connectFlags m, keepAlive := keepAlive m\<rparr>),
          int (length (connect_body m)), None)"
proof -
  let ?src = "Slice (connect_body m) sp" and ?q = "lp (connect_proto m)"
  let ?d = "d\<lparr>protoName := connect_proto m, version := version m, connectFlags := connectFlags m\<rparr>"
  have v: "SupportedVersions (version m) = Some (connect_proto m)"
    using m(1) by (auto simp: connect_proto_def)
  have 1: "read_field ?src 0 (\<lambda>b m. m\<lparr>protoName := b\<rparr>) d =
      Some (d\<lparr>protoName := connect_proto m\<rparr>, int (length ?q), None)"
    using read_field_at [of "connect_proto m" "[]" _ sp "\<lambda>b m. m\<lparr>protoName := b\<rparr>" d] connect_proto_length [of m]
    by (simp add: connect_body_def)
  have 2: "slice_index ?src (int (length ?q)) = Some (version m)"
    using slice_index_split [of _ ?q] by (simp add: connect_body_def)
  have 3: "slice_index ?src (int (length ?q) + 1) = Some (connectFlags m)"
    using slice_index_split [of "int (length ?q) + 1" "?q @ [version m]"] by (simp add: connect_body_def)
  have 4: "slice_from ?src (int (length ?q) + 1 + 1) =
      Some (Slice (put_be16 (keepAlive m) @ connect_payload m) sp)"
    using slice_from_split [of "int (length ?q) + 1 + 1" "?q @ [version m, connectFlags m]"]
    by (simp add: connect_body_def)
  have fl: "connectFlags ?d AND 1 = 0" "\<not> WillQos ?d > QosExactlyOnce"
    "\<not> (\<not> WillFlag ?d \<and> (WillRetain ?d \<or> WillQos ?d \<noteq> QosAtMostOnce))"
    "\<not> (UsernameFlag ?d \<and> \<not> PasswordFlag ?d)"
    using m(3) flags_only_connectFlags [of ?d m] by (auto simp: connect_flags_ok_def)
  have 5: "connect_decode_payload (?d\<lparr>keepAlive := keepAlive m\<rparr>) ?src (int (length ?q) + 1 + 1 + 2) =
      Some (sent_fields m (?d\<lparr>keepAlive := keepAlive m\<rparr>), int (length (connect_body m)), None)"
    using connect_decode_payload_wire [OF m(2,4,5), of "?d\<lparr>keepAlive := keepAlive m\<rparr>"
        "?q @ [version m, connectFlags m] @ put_be16 (keepAlive m)" sp] d
    by (simp add: connect_body_def)
  have len: "\<not> slen (Slice (put_be16 (keepAlive m) @ connect_payload m) sp) < 2" by (simp add: slen_def)
  show ?thesis
    unfolding connect_decodeMessage_def 1 ret_bind_simps 2 bind.bind_lunit Let_def v
    using fl 3 4 5 len by (simp add: wire)
qed

lemma NewConnect_typed: "typed CONNECT NewConnectMessage (push_bit 4 CONNECT OR DefaultFlags CONNECT)"
  unfolding NewConnectMessage_def by (rule SetType_zero_typed) (simp_all add: type_Valid_def)

lemma connect_encode_wire:
  assumes m: "connect_encodable m" and hl: "header_msglen m + connect_msglen m \<le> int (length dst)"
    and fits: "length (connect_wire m) \<le> length dst"
  shows "connect_Encode m dst =
    Some ((m\<lparr>remlen := connect_msglen m, dirty := True\<rparr>, wr (connect_wire m) dst),
          int (length (connect_wire m)), None)"
proof -
  let ?b = "type_byte m" and ?ml = "connect_msglen m"
  let ?m = "m\<lparr>remlen := connect_msglen m, dirty := True\<rparr>"
  have b: "deref m (mtypeflags m) = [?b]" "drop_bit 4 ?b = CONNECT" "dirty m"
    "SupportedVersions (version m) \<noteq> None" "connect_lengths m"
    using m by (simp_all add: connect_encodable_def typed_def)
  have ml: "?ml = int (length (connect_body m))" by (rule connect_msglen_body [OF b(4)])
  have 0: "header_Type m = (m, CONNECT)" using header_Type_single [OF b(1)] b(2) by simp
  let ?h = "hdr_wire ?b (length (connect_body m))"
  have 1: "encode_head m dst ?ml = Some ((?m, wr ?h dst), int (length ?h), None)"
    using encode_head_wire [OF b(1), of ?ml dst] b(2) connect_body_max [OF b(5)] fits ml
    by (simp add: type_Valid_def connect_wire_def)
  have body: "connect_body ?m = connect_body m"
    using flags_only_connectFlags [of ?m m]
    by (simp add: connect_body_def connect_payload_def connect_proto_def)
  have "connect_encodeMessage ?m (drop (length ?h) dst) =
      Some (wr (connect_body ?m) (drop (length ?h) dst), int (length (connect_body ?m)), None)"
    using fits b body by (intro connect_encodeMessage_wr) (simp_all add: connect_wire_def connect_lengths_def)
  then have 2: "on_suffix (wr ?h dst) (int (length ?h)) (connect_encodeMessage ?m) =
      Some (wr (connect_wire m) dst, int (length (connect_body m)), None)"
    using on_suffix_wr [of "int (length ?h)" ?h dst "connect_encodeMessage ?m"] fits body
    by (simp add: connect_wire_def)
  have fit: "\<not> int (length dst) < header_msglen m + ?ml" using hl by simp
  show ?thesis
    unfolding connect_Encode_def 0 prod.case Let_def 1 ret_bind_simps
    using b fit 2 by (simp add: connect_wire_def)
qed

lemma connect_wire_decode:
  assumes m: "connect_ready m"
  shows "\<exists>m'. connect_Decode NewConnectMessage (Slice (connect_wire m) sp) =
      Some (m', int (length (connect_wire m)), None) \<and>
    connect_same m m' \<and> \<not> dirty m' \<and> sdata (dbuf m') = connect_wire m"
proof -
  let ?b = "type_byte m" and ?src = "Slice (connect_wire m) sp" and ?n = "length (connect_body m)"
  let ?h = "hdr_wire ?b ?n" and ?d = "decoded_header NewConnectMessage ?src ?n"
  have ty: "typed CONNECT m ?b" and r: "SupportedVersions (version m) \<noteq> None" "connect_lengths m"
      "connect_flags_ok m" "connect_client_ok m" "UsernameFlag m \<and> username m = [] \<longrightarrow> password m = []"
    using m by (simp_all add: connect_ready_def)
  have 1: "header_decode NewConnectMessage ?src = Some (?d, int (length ?h), None)"
    using typed_decode [OF NewConnect_typed ty, of ?n "connect_body m" sp] connect_body_max [OF r(2)]
    by (simp add: connect_wire_def type_Valid_def)
  have 2: "slice_from ?src (int (length ?h)) = Some (Slice (connect_body m) sp)"
    unfolding connect_wire_def by (rule slice_from_split) simp
  have new: "willTopic ?d = []" "willMessage ?d = []" "username ?d = []" "password ?d = []"
    by (simp_all add: decoded_header_def set_dbuf_def NewConnectMessage_def header_SetType_def
        put_mtypeflags_def type_Valid_def)
  let ?m = "sent_fields m (?d\<lparr>protoName := connect_proto m, version := version m,
      connectFlags := connectFlags m, keepAlive := keepAlive m\<rparr>)"
  have dec: "connect_Decode NewConnectMessage ?src =
      Some (?m\<lparr>dirty := False\<rparr>, int (length (connect_wire m)), None)"
    unfolding connect_Decode_def 1 ret_bind_simps 2 bind.bind_lunit connect_decodeMessage_wire [OF r new]
    by (simp add: connect_wire_def)
  have "deref_in ?src (Sub 0 1) = [?b]" by (simp add: sfull_def connect_wire_def hdr_wire_def)
  then have "snd (header_Type (?m\<lparr>dirty := False\<rparr>)) = CONNECT"
    using ty by (simp add: header_Type_def sent_fields_def decoded_header_def set_dbuf_def typed_def)
  then have "connect_same m (?m\<lparr>dirty := False\<rparr>)"
    by (simp add: connect_same_def sent_fields_def)
  moreover have "sdata (dbuf (?m\<lparr>dirty := False\<rparr>)) = connect_wire m"
    by (simp add: sent_fields_def decoded_header_def set_dbuf_def)
  ultimately show ?thesis using dec by auto
qed

lemma connect_codec:
  "buffer_codec (\<lambda>m. Some (connect_Len m)) connect_Encode connect_Decode NewConnectMessage
     connect_ready connect_wire connect_same"
proof (rule buffer_codecI [where settle = "\<lambda>m. m\<lparr>remlen := connect_msglen m, dirty := True\<rparr>"])
  fix m sp dst
  assume m: "connect_ready m"
  let ?m = "m\<lparr>remlen := connect_msglen m, dirty := True\<rparr>" and ?ml = "connect_msglen m"
  have ml: "?ml = int (length (connect_body m))" "dirty m" "connect_lengths m"
    using m connect_msglen_body by (simp_all add: connect_ready_def)
  have max: "0 \<le> ?ml" "?ml \<le> maxRemainingLength" using connect_body_max [OF ml(3)] ml by simp_all
  show "Some (connect_Len m) = Some (?m, int (length (connect_wire m)))"
    using len_with_wire [where msglen = connect_msglen and b = "type_byte m", OF ml(2) max] ml
    by (simp add: connect_Len_def connect_wire_def)
  have fr: "WillFlag ?m = WillFlag m" "UsernameFlag ?m = UsernameFlag m" "PasswordFlag ?m = PasswordFlag m"
    "CleanSession ?m = CleanSession m" "WillRetain ?m = WillRetain m" "WillQos ?m = WillQos m"
    using flags_only_connectFlags [of ?m m] by simp_all
  have body: "connect_body ?m = connect_body m"
    using fr by (simp add: connect_body_def connect_payload_def connect_proto_def)
  have m2: "connect_ready ?m" "connect_wire ?m = connect_wire m" "connect_msglen ?m = ?ml"
    using m fr body connect_msglen_body [of ?m] ml
    by (simp_all add: connect_ready_def connect_wire_def connect_lengths_def connect_flags_ok_def
        connect_client_ok_def validClientId_def)
  have "header_msglen ?m + ?ml = int (length (connect_wire m))"
    using header_msglen_wire [of ?m "type_byte m"] max ml by (simp add: connect_wire_def)
  then show "\<exists>m'. connect_Encode ?m dst =
      Some ((m', wr (connect_wire m) dst), int (length (connect_wire m)), None)"
    if "length (connect_wire m) \<le> length dst"
    using connect_encode_wire [OF connect_ready_encodable [OF m2(1)], of dst] that m2 by simp
  obtain d where d: "connect_Decode NewConnectMessage (Slice (connect_wire m) sp) =
      Some (d, int (length (connect_wire m)), None)" "connect_same m d" "\<not> dirty d"
    "sdata (dbuf d) = connect_wire m"
    using connect_wire_decode [OF m] by blast
  from replay_clean [OF d(3,4), of connect_Encode] d(1,2)
  show "\<exists>m'. connect_Decode NewConnectMessage (Slice (connect_wire m) sp) =
      Some (m', int (length (connect_wire m)), None) \<and> connect_same m m' \<and>
      (\<forall>dst. length (connect_wire m) \<le> length dst \<longrightarrow> connect_Encode m' dst =
        Some ((m', wr (connect_wire m) dst), int (length (connect_wire m)), None))"
    by (simp add: connect_Encode_def)
qed

interpretation connect: buffer_codec "\<lambda>m. Some (connect_Len m)" connect_Encode connect_Decode
  NewConnectMessage connect_ready connect_wire connect_same
  by (rule connect_codec)

end
