(* ===== verification/Msg_Message.thy ===== *)
theory Msg_Message imports Msg_Connect begin

text \<open>
  The interface \<open>Message\<close> and the constructor table \<open>MessageType.New\<close> of
  \<open>tools/surgemq/message/message.go\<close>: the sum of the packet types, with the dispatch of the
  interface's methods. \<open>Encode\<close> takes and returns the global counter \<open>gPacketId\<close>, which three of
  the packet types use.
\<close>

text \<open>
  \<open>Type\<close> also allocates the type byte of a header that has none; the packets' constructors have
  set it, so \<open>msg_Type\<close> only gives the value.
\<close>

section \<open>The interface\<close>

datatype message =
    MConnect connect_message
  | MConnack connack_message
  | MPublish publish_message
  | MPuback header
  | MPubrec header
  | MPubrel header
  | MPubcomp header
  | MSubscribe subscribe_message
  | MSuback suback_message
  | MUnsubscribe unsubscribe_message
  | MUnsuback header
  | MPingreq header
  | MPingresp header
  | MDisconnect header

definition type_New :: "MessageType \<Rightarrow> merror + message" where
  "type_New t =
     (if t = CONNECT then Inr (MConnect NewConnectMessage)
      else if t = CONNACK then Inr (MConnack NewConnackMessage)
      else if t = PUBLISH then Inr (MPublish NewPublishMessage)
      else if t = PUBACK then Inr (MPuback NewPubackMessage)
      else if t = PUBREC then Inr (MPubrec NewPubrecMessage)
      else if t = PUBREL then Inr (MPubrel NewPubrelMessage)
      else if t = PUBCOMP then Inr (MPubcomp NewPubcompMessage)
      else if t = SUBSCRIBE then Inr (MSubscribe NewSubscribeMessage)
      else if t = SUBACK then Inr (MSuback NewSubackMessage)
      else if t = UNSUBSCRIBE then Inr (MUnsubscribe NewUnsubscribeMessage)
      else if t = UNSUBACK then Inr (MUnsuback NewUnsubackMessage)
      else if t = PINGREQ then Inr (MPingreq NewPingreqMessage)
      else if t = PINGRESP then Inr (MPingresp NewPingrespMessage)
      else if t = DISCONNECT then Inr (MDisconnect NewDisconnectMessage)
      else Inl (EInvalidType t))"

fun msg_Type :: "message \<Rightarrow> MessageType" where
  "msg_Type (MConnect m) = snd (header_Type m)"
| "msg_Type (MConnack m) = snd (header_Type m)"
| "msg_Type (MPublish m) = snd (header_Type m)"
| "msg_Type (MPuback m) = snd (header_Type m)"
| "msg_Type (MPubrec m) = snd (header_Type m)"
| "msg_Type (MPubrel m) = snd (header_Type m)"
| "msg_Type (MPubcomp m) = snd (header_Type m)"
| "msg_Type (MSubscribe m) = snd (header_Type m)"
| "msg_Type (MSuback m) = snd (header_Type m)"
| "msg_Type (MUnsubscribe m) = snd (header_Type m)"
| "msg_Type (MUnsuback m) = snd (header_Type m)"
| "msg_Type (MPingreq m) = snd (header_Type m)"
| "msg_Type (MPingresp m) = snd (header_Type m)"
| "msg_Type (MDisconnect m) = snd (header_Type m)"

fun msg_PacketId :: "message \<Rightarrow> 16 word" where
  "msg_PacketId (MConnect m) = header_PacketId m"
| "msg_PacketId (MConnack m) = header_PacketId m"
| "msg_PacketId (MPublish m) = header_PacketId m"
| "msg_PacketId (MPuback m) = header_PacketId m"
| "msg_PacketId (MPubrec m) = header_PacketId m"
| "msg_PacketId (MPubrel m) = header_PacketId m"
| "msg_PacketId (MPubcomp m) = header_PacketId m"
| "msg_PacketId (MSubscribe m) = header_PacketId m"
| "msg_PacketId (MSuback m) = header_PacketId m"
| "msg_PacketId (MUnsubscribe m) = header_PacketId m"
| "msg_PacketId (MUnsuback m) = header_PacketId m"
| "msg_PacketId (MPingreq m) = header_PacketId m"
| "msg_PacketId (MPingresp m) = header_PacketId m"
| "msg_PacketId (MDisconnect m) = header_PacketId m"

text \<open>Calling a method of the packet type inside the interface value.\<close>

definition on_len :: "('m \<Rightarrow> message) \<Rightarrow> ('m \<times> int) option \<Rightarrow> (message \<times> int) option" where
  "on_len C r = map_option (\<lambda>(m, l). (C m, l)) r"

definition on_dec :: "('m \<Rightarrow> message) \<Rightarrow> ('m, merror) ret \<Rightarrow> (message, merror) ret" where
  "on_dec C r = map_option (\<lambda>(m, n, e). (C m, n, e)) r"

definition on_enc :: "('m \<Rightarrow> message) \<Rightarrow> 'm enc_ret \<Rightarrow> message enc_ret" where
  "on_enc C r = map_option (\<lambda>(((g, m), d), n, e). (((g, C m), d), n, e)) r"

fun msg_Len :: "message \<Rightarrow> (message \<times> int) option" where
  "msg_Len (MConnect m) = on_len MConnect (Some (connect_Len m))"
| "msg_Len (MConnack m) = on_len MConnack (Some (connack_Len m))"
| "msg_Len (MPublish m) = on_len MPublish (publish_Len m)"
| "msg_Len (MPuback m) = on_len MPuback (Some (puback_Len m))"
| "msg_Len (MPubrec m) = on_len MPubrec (Some (puback_Len m))"
| "msg_Len (MPubrel m) = on_len MPubrel (Some (puback_Len m))"
| "msg_Len (MPubcomp m) = on_len MPubcomp (Some (puback_Len m))"
| "msg_Len (MSubscribe m) = on_len MSubscribe (Some (subscribe_Len m))"
| "msg_Len (MSuback m) = on_len MSuback (Some (suback_Len m))"
| "msg_Len (MUnsubscribe m) = on_len MUnsubscribe (Some (unsubscribe_Len m))"
| "msg_Len (MUnsuback m) = on_len MUnsuback (Some (puback_Len m))"
| "msg_Len (MPingreq m) = on_len MPingreq (Some (disconnect_Len m))"
| "msg_Len (MPingresp m) = on_len MPingresp (Some (disconnect_Len m))"
| "msg_Len (MDisconnect m) = on_len MDisconnect (Some (disconnect_Len m))"

fun msg_Decode :: "message \<Rightarrow> slice \<Rightarrow> (message, merror) ret" where
  "msg_Decode (MConnect m) s = on_dec MConnect (connect_Decode m s)"
| "msg_Decode (MConnack m) s = on_dec MConnack (connack_Decode m s)"
| "msg_Decode (MPublish m) s = on_dec MPublish (publish_Decode m s)"
| "msg_Decode (MPuback m) s = on_dec MPuback (puback_Decode m s)"
| "msg_Decode (MPubrec m) s = on_dec MPubrec (puback_Decode m s)"
| "msg_Decode (MPubrel m) s = on_dec MPubrel (puback_Decode m s)"
| "msg_Decode (MPubcomp m) s = on_dec MPubcomp (puback_Decode m s)"
| "msg_Decode (MSubscribe m) s = on_dec MSubscribe (subscribe_Decode m s)"
| "msg_Decode (MSuback m) s = on_dec MSuback (suback_Decode m s)"
| "msg_Decode (MUnsubscribe m) s = on_dec MUnsubscribe (unsubscribe_Decode m s)"
| "msg_Decode (MUnsuback m) s = on_dec MUnsuback (puback_Decode m s)"
| "msg_Decode (MPingreq m) s = on_dec MPingreq (disconnect_Decode m s)"
| "msg_Decode (MPingresp m) s = on_dec MPingresp (disconnect_Decode m s)"
| "msg_Decode (MDisconnect m) s = on_dec MDisconnect (disconnect_Decode m s)"

fun msg_Encode :: "64 word \<Rightarrow> message \<Rightarrow> bytes \<Rightarrow> message enc_ret" where
  "msg_Encode g (MConnect m) d = on_enc MConnect (with_counter g (connect_Encode m d))"
| "msg_Encode g (MConnack m) d = on_enc MConnack (with_counter g (connack_Encode m d))"
| "msg_Encode g (MPublish m) d = on_enc MPublish (publish_Encode g m d)"
| "msg_Encode g (MPuback m) d = on_enc MPuback (with_counter g (puback_Encode m d))"
| "msg_Encode g (MPubrec m) d = on_enc MPubrec (with_counter g (puback_Encode m d))"
| "msg_Encode g (MPubrel m) d = on_enc MPubrel (with_counter g (puback_Encode m d))"
| "msg_Encode g (MPubcomp m) d = on_enc MPubcomp (with_counter g (puback_Encode m d))"
| "msg_Encode g (MSubscribe m) d = on_enc MSubscribe (subscribe_Encode g m d)"
| "msg_Encode g (MSuback m) d = on_enc MSuback (with_counter g (suback_Encode m d))"
| "msg_Encode g (MUnsubscribe m) d = on_enc MUnsubscribe (unsubscribe_Encode g m d)"
| "msg_Encode g (MUnsuback m) d = on_enc MUnsuback (with_counter g (puback_Encode m d))"
| "msg_Encode g (MPingreq m) d = on_enc MPingreq (with_counter g (disconnect_Encode m d))"
| "msg_Encode g (MPingresp m) d = on_enc MPingresp (with_counter g (disconnect_Encode m d))"
| "msg_Encode g (MDisconnect m) d = on_enc MDisconnect (with_counter g (disconnect_Encode m d))"

section \<open>The interface's contract\<close>

fun msg_ready :: "message \<Rightarrow> bool" where
  "msg_ready (MConnect m) = connect_ready m"
| "msg_ready (MConnack m) = connack_ready m"
| "msg_ready (MPublish m) = publish_ready m"
| "msg_ready (MPuback m) = ack_ready PUBACK m"
| "msg_ready (MPubrec m) = ack_ready PUBREC m"
| "msg_ready (MPubrel m) = ack_ready PUBREL m"
| "msg_ready (MPubcomp m) = ack_ready PUBCOMP m"
| "msg_ready (MSubscribe m) = subscribe_ready m"
| "msg_ready (MSuback m) = suback_ready m"
| "msg_ready (MUnsubscribe m) = unsubscribe_ready m"
| "msg_ready (MUnsuback m) = ack_ready UNSUBACK m"
| "msg_ready (MPingreq m) = bare_ready PINGREQ m"
| "msg_ready (MPingresp m) = bare_ready PINGRESP m"
| "msg_ready (MDisconnect m) = bare_ready DISCONNECT m"

fun msg_wire :: "message \<Rightarrow> bytes" where
  "msg_wire (MConnect m) = connect_wire m"
| "msg_wire (MConnack m) = connack_wire m"
| "msg_wire (MPublish m) = publish_wire m"
| "msg_wire (MSubscribe m) = subscribe_wire m"
| "msg_wire (MSuback m) = suback_wire m"
| "msg_wire (MUnsubscribe m) = unsubscribe_wire m"
| "msg_wire (MPuback m) = ack_wire m"
| "msg_wire (MPubrec m) = ack_wire m"
| "msg_wire (MPubrel m) = ack_wire m"
| "msg_wire (MPubcomp m) = ack_wire m"
| "msg_wire (MUnsuback m) = ack_wire m"
| "msg_wire (MPingreq m) = bare_wire m"
| "msg_wire (MPingresp m) = bare_wire m"
| "msg_wire (MDisconnect m) = bare_wire m"

fun msg_same :: "message \<Rightarrow> message \<Rightarrow> bool" where
  "msg_same (MConnect m) x = (case x of MConnect n \<Rightarrow> connect_same m n | _ \<Rightarrow> False)"
| "msg_same (MConnack m) x = (case x of MConnack n \<Rightarrow> connack_same m n | _ \<Rightarrow> False)"
| "msg_same (MPublish m) x = (case x of MPublish n \<Rightarrow> publish_same m n | _ \<Rightarrow> False)"
| "msg_same (MPuback m) x = (case x of MPuback n \<Rightarrow> ack_same PUBACK m n | _ \<Rightarrow> False)"
| "msg_same (MPubrec m) x = (case x of MPubrec n \<Rightarrow> ack_same PUBREC m n | _ \<Rightarrow> False)"
| "msg_same (MPubrel m) x = (case x of MPubrel n \<Rightarrow> ack_same PUBREL m n | _ \<Rightarrow> False)"
| "msg_same (MPubcomp m) x = (case x of MPubcomp n \<Rightarrow> ack_same PUBCOMP m n | _ \<Rightarrow> False)"
| "msg_same (MSubscribe m) x = (case x of MSubscribe n \<Rightarrow> subscribe_same m n | _ \<Rightarrow> False)"
| "msg_same (MSuback m) x = (case x of MSuback n \<Rightarrow> suback_same m n | _ \<Rightarrow> False)"
| "msg_same (MUnsubscribe m) x = (case x of MUnsubscribe n \<Rightarrow> unsubscribe_same m n | _ \<Rightarrow> False)"
| "msg_same (MUnsuback m) x = (case x of MUnsuback n \<Rightarrow> ack_same UNSUBACK m n | _ \<Rightarrow> False)"
| "msg_same (MPingreq m) x = (case x of MPingreq n \<Rightarrow> bare_same PINGREQ m n | _ \<Rightarrow> False)"
| "msg_same (MPingresp m) x = (case x of MPingresp n \<Rightarrow> bare_same PINGRESP m n | _ \<Rightarrow> False)"
| "msg_same (MDisconnect m) x = (case x of MDisconnect n \<Rightarrow> bare_same DISCONNECT m n | _ \<Rightarrow> False)"

text \<open>The message type that goes on the wire.\<close>

fun msg_kind :: "message \<Rightarrow> MessageType" where
  "msg_kind (MConnect m) = CONNECT"
| "msg_kind (MConnack m) = CONNACK"
| "msg_kind (MPublish m) = PUBLISH"
| "msg_kind (MPuback m) = PUBACK"
| "msg_kind (MPubrec m) = PUBREC"
| "msg_kind (MPubrel m) = PUBREL"
| "msg_kind (MPubcomp m) = PUBCOMP"
| "msg_kind (MSubscribe m) = SUBSCRIBE"
| "msg_kind (MSuback m) = SUBACK"
| "msg_kind (MUnsubscribe m) = UNSUBSCRIBE"
| "msg_kind (MUnsuback m) = UNSUBACK"
| "msg_kind (MPingreq m) = PINGREQ"
| "msg_kind (MPingresp m) = PINGRESP"
| "msg_kind (MDisconnect m) = DISCONNECT"

lemmas ready_defs =
  connect_ready_def connack_ready_def publish_ready_def publish_body_ok_def pub_typed_def
  ack_ready_def subscribe_ready_def suback_ready_def unsubscribe_ready_def unsub_sendable_def
  bare_ready_def typed_def

lemmas wire_defs =
  connect_wire_def connack_wire_def publish_wire_def ack_wire_def subscribe_wire_def
  suback_wire_def unsubscribe_wire_def bare_wire_def hdr_wire_def

lemma msg_wire_head:
  assumes "msg_ready m"
  shows "\<exists>b r. msg_wire m = b # r \<and> drop_bit 4 b = msg_kind m"
  using assms by (cases m) (simp_all add: ready_defs wire_defs)

lemma msg_Type_ready: "msg_ready m \<Longrightarrow> msg_Type m = msg_kind m"
  by (cases m) (simp_all add: ready_defs header_Type_def)

text \<open>\<open>marshal\<close> through the interface is \<open>marshal\<close> of the packet type.\<close>

lemma drop_on_enc:
  "drop_counter (on_enc C r) = map_option (\<lambda>((m, d), n, e). ((C m, d), n, e)) (drop_counter r)"
  by (simp add: drop_counter_def on_enc_def option.map_comp comp_def case_prod_unfold)

lemma drop_with [simp]: "drop_counter (with_counter g r) = r"
  by (cases r) (auto simp: drop_counter_def with_counter_def)

lemma marshal_on:
  assumes "marshal L E m = Some ((m', w), n, e)"
    and "msg_Len (C m) = on_len C (L m)"
    and "\<And>m d. drop_counter (msg_Encode g (C m) d) = map_option (\<lambda>((m, d), n, e). ((C m, d), n, e)) (E m d)"
  shows "marshal msg_Len (\<lambda>m d. drop_counter (msg_Encode g m d)) (C m) = Some ((C m', w), n, e)"
  using assms(1) assms(2)
  by (auto simp: marshal_def on_len_def bind_eq_Some_conv assms(3))

lemma msg_marshal:
  assumes "msg_ready m"
  shows "\<exists>m'. marshal msg_Len (\<lambda>m d. drop_counter (msg_Encode g m d)) m =
    Some ((m', msg_wire m), int (length (msg_wire m)), None)"
proof (cases m)
  case (MConnect x)
  then show ?thesis using connect.marshal_ready [of x] assms
    by (auto dest: marshal_on [where C = MConnect and g = g] simp: drop_on_enc)
next
  case (MConnack x)
  then show ?thesis using connack.marshal_ready [of x] assms
    by (auto dest: marshal_on [where C = MConnack and g = g] simp: drop_on_enc)
next
  case (MPublish x)
  then show ?thesis using publish.marshal_ready [of x g] assms
    by (auto dest: marshal_on [where C = MPublish and g = g] simp: drop_on_enc)
next
  case (MPuback x)
  then show ?thesis using puback.marshal_ready [of x] assms
    by (auto dest: marshal_on [where C = MPuback and g = g] simp: drop_on_enc)
next
  case (MPubrec x)
  then show ?thesis using pubrec.marshal_ready [of x] assms
    by (auto dest: marshal_on [where C = MPubrec and g = g] simp: drop_on_enc)
next
  case (MPubrel x)
  then show ?thesis using pubrel.marshal_ready [of x] assms
    by (auto dest: marshal_on [where C = MPubrel and g = g] simp: drop_on_enc)
next
  case (MPubcomp x)
  then show ?thesis using pubcomp.marshal_ready [of x] assms
    by (auto dest: marshal_on [where C = MPubcomp and g = g] simp: drop_on_enc)
next
  case (MSubscribe x)
  then show ?thesis using subscribe.marshal_ready [of x g] assms
    by (auto dest: marshal_on [where C = MSubscribe and g = g] simp: drop_on_enc)
next
  case (MSuback x)
  then show ?thesis using suback.marshal_ready [of x] assms
    by (auto dest: marshal_on [where C = MSuback and g = g] simp: drop_on_enc)
next
  case (MUnsubscribe x)
  then show ?thesis using unsubscribe.marshal_ready [of x g] assms
    by (auto dest: marshal_on [where C = MUnsubscribe and g = g] simp: drop_on_enc)
next
  case (MUnsuback x)
  then show ?thesis using unsuback.marshal_ready [of x] assms
    by (auto dest: marshal_on [where C = MUnsuback and g = g] simp: drop_on_enc)
next
  case (MPingreq x)
  then show ?thesis using pingreq.marshal_ready [of x] assms
    by (auto dest: marshal_on [where C = MPingreq and g = g] simp: drop_on_enc)
next
  case (MPingresp x)
  then show ?thesis using pingresp.marshal_ready [of x] assms
    by (auto dest: marshal_on [where C = MPingresp and g = g] simp: drop_on_enc)
next
  case (MDisconnect x)
  then show ?thesis using disconnect.marshal_ready [of x] assms
    by (auto dest: marshal_on [where C = MDisconnect and g = g] simp: drop_on_enc)
qed

text \<open>The constructor the receiver picks by the type in the first byte decodes the packet.\<close>

lemma msg_decode_wire:
  assumes "msg_ready m"
  shows "\<exists>fresh m'. type_New (msg_kind m) = Inr fresh \<and>
    msg_Decode fresh (Slice (msg_wire m) sp) = Some (m', int (length (msg_wire m)), None) \<and> msg_same m m'"
  using assms
  by (cases m)
    (auto simp: type_New_def on_dec_def
      dest: connect.decode_wire [where sp = sp] connack.decode_wire [where sp = sp]
        publish.decode_wire [where sp = sp] puback.decode_wire [where sp = sp]
        pubrec.decode_wire [where sp = sp] pubrel.decode_wire [where sp = sp]
        pubcomp.decode_wire [where sp = sp] subscribe.decode_wire [where sp = sp]
        suback.decode_wire [where sp = sp] unsubscribe.decode_wire [where sp = sp]
        unsuback.decode_wire [where sp = sp] pingreq.decode_wire [where sp = sp]
        pingresp.decode_wire [where sp = sp] disconnect.decode_wire [where sp = sp])


text \<open>Encoding over older bytes; the CONNACK packet is the one that does not fill its frame.\<close>

lemma encode_on:
  assumes "msg_Len (C m) = Some (x, l)" and "msg_Len (C m) = on_len C (L m)"
    and "\<And>m d. drop_counter (msg_Encode g (C m) d) = map_option (\<lambda>((m, d), n, e). ((C m, d), n, e)) (E m d)"
    and "\<And>m'. L m = Some (m', l) \<Longrightarrow> \<exists>m'' out. E m' dst = Some ((m'', out), l, None) \<and> P out"
  shows "\<exists>m'' out. drop_counter (msg_Encode g x dst) = Some ((m'', out), l, None) \<and> P out"
proof -
  obtain m' where m': "L m = Some (m', l)" "x = C m'"
    using assms(1,2) by (auto simp: on_len_def)
  obtain m'' out where "E m' dst = Some ((m'', out), l, None)" "P out" using assms(4) [OF m'(1)] by auto
  then show ?thesis using assms(3) [of m' dst] m'(2) by auto
qed

definition fills :: "bytes \<Rightarrow> nat \<Rightarrow> bytes \<Rightarrow> bytes \<Rightarrow> bool" where
  "fills w k dst out \<longleftrightarrow> length out = length dst \<and> take k out = w \<and> drop k out = drop k dst"

lemma msg_encode_any:
  assumes "msg_ready m" and "msg_kind m \<noteq> CONNACK" and "msg_Len m = Some (x, l)"
    and "l \<le> int (length dst)"
  shows "\<exists>m'' out. drop_counter (msg_Encode g x dst) = Some ((m'', out), l, None) \<and>
           fills (msg_wire m) (nat l) dst out"
proof (cases m)
  case (MConnect y)
  show ?thesis
    using assms MConnect
    by (intro encode_on [where C = MConnect and L = "\<lambda>m. Some (connect_Len m)"
          and E = "connect_Encode", OF assms(3) [unfolded MConnect]])
      (auto simp: drop_on_enc fills_def intro!: connect.encode_no_overrun)
next
  case (MConnack y)
  then show ?thesis using assms(2) by simp
next
  case (MPublish y)
  show ?thesis
    using assms MPublish
    by (intro encode_on [where C = MPublish and L = "publish_Len"
          and E = "\<lambda>m d. drop_counter (publish_Encode g m d)", OF assms(3) [unfolded MPublish]])
      (auto simp: drop_on_enc fills_def intro!: publish.encode_no_overrun)
next
  case (MPuback y)
  show ?thesis
    using assms MPuback
    by (intro encode_on [where C = MPuback and L = "\<lambda>m. Some (puback_Len m)"
          and E = "puback_Encode", OF assms(3) [unfolded MPuback]])
      (auto simp: drop_on_enc fills_def intro!: puback.encode_no_overrun)
next
  case (MPubrec y)
  show ?thesis
    using assms MPubrec
    by (intro encode_on [where C = MPubrec and L = "\<lambda>m. Some (puback_Len m)"
          and E = "puback_Encode", OF assms(3) [unfolded MPubrec]])
      (auto simp: drop_on_enc fills_def intro!: pubrec.encode_no_overrun)
next
  case (MPubrel y)
  show ?thesis
    using assms MPubrel
    by (intro encode_on [where C = MPubrel and L = "\<lambda>m. Some (puback_Len m)"
          and E = "puback_Encode", OF assms(3) [unfolded MPubrel]])
      (auto simp: drop_on_enc fills_def intro!: pubrel.encode_no_overrun)
next
  case (MPubcomp y)
  show ?thesis
    using assms MPubcomp
    by (intro encode_on [where C = MPubcomp and L = "\<lambda>m. Some (puback_Len m)"
          and E = "puback_Encode", OF assms(3) [unfolded MPubcomp]])
      (auto simp: drop_on_enc fills_def intro!: pubcomp.encode_no_overrun)
next
  case (MSubscribe y)
  show ?thesis
    using assms MSubscribe
    by (intro encode_on [where C = MSubscribe and L = "\<lambda>m. Some (subscribe_Len m)"
          and E = "\<lambda>m d. drop_counter (subscribe_Encode g m d)", OF assms(3) [unfolded MSubscribe]])
      (auto simp: drop_on_enc fills_def intro!: subscribe.encode_no_overrun)
next
  case (MSuback y)
  show ?thesis
    using assms MSuback
    by (intro encode_on [where C = MSuback and L = "\<lambda>m. Some (suback_Len m)"
          and E = "suback_Encode", OF assms(3) [unfolded MSuback]])
      (auto simp: drop_on_enc fills_def intro!: suback.encode_no_overrun)
next
  case (MUnsubscribe y)
  show ?thesis
    using assms MUnsubscribe
    by (intro encode_on [where C = MUnsubscribe and L = "\<lambda>m. Some (unsubscribe_Len m)"
          and E = "\<lambda>m d. drop_counter (unsubscribe_Encode g m d)", OF assms(3) [unfolded MUnsubscribe]])
      (auto simp: drop_on_enc fills_def intro!: unsubscribe.encode_no_overrun)
next
  case (MUnsuback y)
  show ?thesis
    using assms MUnsuback
    by (intro encode_on [where C = MUnsuback and L = "\<lambda>m. Some (puback_Len m)"
          and E = "puback_Encode", OF assms(3) [unfolded MUnsuback]])
      (auto simp: drop_on_enc fills_def intro!: unsuback.encode_no_overrun)
next
  case (MPingreq y)
  show ?thesis
    using assms MPingreq
    by (intro encode_on [where C = MPingreq and L = "\<lambda>m. Some (disconnect_Len m)"
          and E = "disconnect_Encode", OF assms(3) [unfolded MPingreq]])
      (auto simp: drop_on_enc fills_def intro!: pingreq.encode_no_overrun)
next
  case (MPingresp y)
  show ?thesis
    using assms MPingresp
    by (intro encode_on [where C = MPingresp and L = "\<lambda>m. Some (disconnect_Len m)"
          and E = "disconnect_Encode", OF assms(3) [unfolded MPingresp]])
      (auto simp: drop_on_enc fills_def intro!: pingresp.encode_no_overrun)
next
  case (MDisconnect y)
  show ?thesis
    using assms MDisconnect
    by (intro encode_on [where C = MDisconnect and L = "\<lambda>m. Some (disconnect_Len m)"
          and E = "disconnect_Encode", OF assms(3) [unfolded MDisconnect]])
      (auto simp: drop_on_enc fills_def intro!: disconnect.encode_no_overrun)
qed

text \<open>A packet that was decoded and not changed is forwarded byte for byte.\<close>

lemma msg_replay:
  assumes "msg_ready m" and "type_New (msg_kind m) = Inr fresh"
    and "msg_Decode fresh (Slice (msg_wire m) sp) = Some (m', n, None)"
    and "length (msg_wire m) \<le> length dst"
  shows "drop_counter (msg_Encode g m' dst) =
    Some ((m', wr (msg_wire m) dst), int (length (msg_wire m)), None)"
proof (cases m)
  case (MConnect y)
  show ?thesis using assms connect.replay [of y sp _ n dst]
    by (auto simp: MConnect type_New_def on_dec_def drop_on_enc)
next
  case (MConnack y)
  show ?thesis using assms connack.replay [of y sp _ n dst]
    by (auto simp: MConnack type_New_def on_dec_def drop_on_enc)
next
  case (MPublish y)
  show ?thesis using assms publish.replay [of y sp _ n dst g]
    by (auto simp: MPublish type_New_def on_dec_def drop_on_enc)
next
  case (MPuback y)
  show ?thesis using assms puback.replay [of y sp _ n dst]
    by (auto simp: MPuback type_New_def on_dec_def drop_on_enc)
next
  case (MPubrec y)
  show ?thesis using assms pubrec.replay [of y sp _ n dst]
    by (auto simp: MPubrec type_New_def on_dec_def drop_on_enc)
next
  case (MPubrel y)
  show ?thesis using assms pubrel.replay [of y sp _ n dst]
    by (auto simp: MPubrel type_New_def on_dec_def drop_on_enc)
next
  case (MPubcomp y)
  show ?thesis using assms pubcomp.replay [of y sp _ n dst]
    by (auto simp: MPubcomp type_New_def on_dec_def drop_on_enc)
next
  case (MSubscribe y)
  show ?thesis using assms subscribe.replay [of y sp _ n dst g]
    by (auto simp: MSubscribe type_New_def on_dec_def drop_on_enc)
next
  case (MSuback y)
  show ?thesis using assms suback.replay [of y sp _ n dst]
    by (auto simp: MSuback type_New_def on_dec_def drop_on_enc)
next
  case (MUnsubscribe y)
  show ?thesis using assms unsubscribe.replay [of y sp _ n dst g]
    by (auto simp: MUnsubscribe type_New_def on_dec_def drop_on_enc)
next
  case (MUnsuback y)
  show ?thesis using assms unsuback.replay [of y sp _ n dst]
    by (auto simp: MUnsuback type_New_def on_dec_def drop_on_enc)
next
  case (MPingreq y)
  show ?thesis using assms pingreq.replay [of y sp _ n dst]
    by (auto simp: MPingreq type_New_def on_dec_def drop_on_enc)
next
  case (MPingresp y)
  show ?thesis using assms pingresp.replay [of y sp _ n dst]
    by (auto simp: MPingresp type_New_def on_dec_def drop_on_enc)
next
  case (MDisconnect y)
  show ?thesis using assms disconnect.replay [of y sp _ n dst]
    by (auto simp: MDisconnect type_New_def on_dec_def drop_on_enc)
qed

end
