(* ===== verification/Props_Message.thy ===== *)
theory Props_Message imports Msg_Message begin

text \<open>
  What makes the message codec correct: the properties of the packet types through the interface
  \<open>Message\<close>, of the header they share, and of the accessors that keep their invariants.
\<close>

section \<open>Example packets\<close>

text \<open>A QoS 1 PUBLISH of two bytes on \<open>a/b\<close> with identifier 5, as the setters leave it.\<close>

definition ex_publish :: publish_message where
  "ex_publish =
     \<lparr>remlen = 0, mtypeflags = Own [0x32], packetId = Own [0, 5], dbuf = exact [], dirty = True,
      topic = [97, 47, 98], payload = [1, 2]\<rparr>"

lemma ex_publish_ready: "msg_ready (MPublish ex_publish)"
  by (simp add: publish_ready_def publish_body_ok_def ex_publish_def pub_typed_def type_byte_def
      qos_of_def ValidQos_def ValidTopic_def publish_size_def header_PacketId_def)

section \<open>Round trips through the interface\<close>

text \<open>
  C7: A ready packet of any type encodes without error into the buffer its \<open>Len\<close> asks for, and
  a receiver that picks the constructor by the type in the first byte and decodes the buffer
  consumes all of it and gets the same packet.
\<close>

theorem message_roundtrip:
  assumes "msg_ready m"
  shows "\<exists>m1 out fresh m2.
    marshal msg_Len (\<lambda>m d. drop_counter (msg_Encode g m d)) m = Some ((m1, out), int (length out), None) \<and>
    type_New (drop_bit 4 (hd out)) = Inr fresh \<and>
    msg_Decode fresh (exact out) = Some (m2, int (length out), None) \<and> msg_same m m2"
  using msg_marshal [OF assms, of g] msg_decode_wire [OF assms, of "[]"] msg_wire_head [OF assms]
  by (fastforce simp: exact_def)

theorem message_roundtrip_witness:
  "\<exists>m1 out fresh m2.
    marshal msg_Len (\<lambda>m d. drop_counter (msg_Encode 0 m d)) (MPublish ex_publish) =
      Some ((m1, out), int (length out), None) \<and>
    type_New (drop_bit 4 (hd out)) = Inr fresh \<and>
    msg_Decode fresh (exact out) = Some (m2, int (length out), None) \<and>
    msg_same (MPublish ex_publish) m2"
  by (rule message_roundtrip [OF ex_publish_ready])

text \<open>
  Encoding a ready packet of any type but CONNACK into a larger buffer that holds older bytes
  writes exactly the packet's bytes and leaves the rest of the buffer alone.
\<close>

theorem message_no_overrun:
  assumes "msg_ready m" and "msg_kind m \<noteq> CONNACK" and "msg_Len m = Some (x, l)"
    and "l \<le> int (length dst)"
  shows "\<exists>m'' out. drop_counter (msg_Encode g x dst) = Some ((m'', out), l, None) \<and>
    length out = length dst \<and> take (nat l) out = msg_wire m \<and> drop (nat l) out = drop (nat l) dst"
  using msg_encode_any [OF assms, of g] by (auto simp: fills_def)

lemma ex_publish_Len:
  "msg_Len (MPublish ex_publish) = Some (MPublish (ex_publish\<lparr>remlen := 9\<rparr>), 11)"
  by (simp add: ex_publish_def on_len_def publish_Len_def publish_msglen_def QoS_def header_Flags_def
      len_with_def SetRemainingLength_def to_int32_id header_msglen_def Let_def)

theorem message_no_overrun_witness:
  "\<exists>m'' out. drop_counter (msg_Encode 0 (MPublish (ex_publish\<lparr>remlen := 9\<rparr>)) (replicate 20 7)) =
      Some ((m'', out), 11, None) \<and>
    length out = 20 \<and> take 11 out = msg_wire (MPublish ex_publish) \<and> drop 11 out = replicate 9 7"
  using message_no_overrun [OF ex_publish_ready _ ex_publish_Len, of "replicate 20 7" 0] by simp

text \<open>
  A decoded packet that nobody changed re-encodes to the very bytes it was decoded from, which
  is how the broker forwards a PUBLISH.
\<close>

theorem message_forward:
  assumes "msg_ready m" and "type_New (msg_kind m) = Inr fresh"
    and "msg_Decode fresh (exact (msg_wire m)) = Some (m', n, None)"
    and "length dst = length (msg_wire m)"
  shows "drop_counter (msg_Encode g m' dst) = Some ((m', msg_wire m), int (length dst), None)"
  using msg_replay [of m fresh "[]" m' n dst g] assms by (simp add: exact_def wr_exact)

lemma ex_publish_decoded:
  "\<exists>m'. msg_Decode (MPublish NewPublishMessage) (exact (msg_wire (MPublish ex_publish))) =
     Some (m', int (length (msg_wire (MPublish ex_publish))), None)"
  using msg_decode_wire [OF ex_publish_ready, of "[]"] by (auto simp: type_New_def exact_def)

theorem message_forward_witness:
  "\<exists>m'. drop_counter (msg_Encode 0 m' (replicate (length (msg_wire (MPublish ex_publish))) 0)) =
     Some ((m', msg_wire (MPublish ex_publish)), int (length (msg_wire (MPublish ex_publish))), None)"
proof -
  obtain m' where m': "msg_Decode (MPublish NewPublishMessage) (exact (msg_wire (MPublish ex_publish))) =
     Some (m', int (length (msg_wire (MPublish ex_publish))), None)" using ex_publish_decoded by blast
  have "type_New (msg_kind (MPublish ex_publish)) = Inr (MPublish NewPublishMessage)"
    by (simp add: type_New_def)
  from message_forward [OF ex_publish_ready this m', of "replicate (length (msg_wire (MPublish ex_publish))) 0" 0]
  show ?thesis by (intro exI [of _ m']) simp
qed

section \<open>The header\<close>

lemma uvarint_loop_count: "snd (uvarint_loop bs i x s) \<le> max 0 (i + int (length bs))"
proof (induction bs i x s rule: uvarint_loop.induct)
  case (2 b bs i x s)
  then show ?case by (cases "b < 128"; cases "i = 10") auto
qed simp

lemma Uvarint_count: "snd (Uvarint bs) \<le> int (length bs)"
  using uvarint_loop_count [of bs 0 0 0] by (simp add: Uvarint_def)

text \<open>
  C39: The header's \<open>decode\<close> never panics on a non-empty buffer whose varint does not overflow 64
  bits, and what it accepts is bounded: the remaining length is at most the protocol's maximum and
  the bytes left in the buffer, and the type is a valid one, the receiver's own.
\<close>

theorem header_decode_safe:
  assumes "sdata src \<noteq> []" and "0 \<le> snd (Uvarint (tl (sdata src)))"
  shows "\<exists>h' n e. header_decode h src = Some (h', n, e) \<and>
    (e = None \<longrightarrow> 1 \<le> n \<and> n \<le> slen src \<and> remlen h' \<le> slen src - n \<and>
       remlen h' \<le> maxRemainingLength \<and> type_Valid (snd (header_Type h')) \<and>
       snd (header_Type h') = snd (header_Type h))"
proof -
  obtain b r sp where src: "src = Slice (b # r) sp" using assms(1) by (cases src) (auto simp: neq_Nil_conv)
  obtain v k where u: "Uvarint r = (v, k)" by fastforce
  have k: "0 \<le> k" "k \<le> int (length r)" using assms(2) Uvarint_count [of r] u by (simp_all add: src)
  have 1: "slice_range src 0 1 = Some (Slice [b] (r @ sp))"
    using slice_range_split [of 0 "[]" 1 "[b]" r sp] by (simp add: src)
  have 2: "slice_from src 1 = Some (Slice r sp)"
    using slice_from_split [of 1 "[b]" r sp] by (simp add: src)
  have 3: "slice_from src (1 + k) = Some (Slice (drop (nat k) r) sp)"
    using k by (simp add: src slice_from_def slen_def nat_add_distrib)
  define h1 where "h1 = fst (header_Type (set_dbuf h src))"
  define t1 where "t1 = snd (header_Type (set_dbuf h src))"
  have t1: "t1 = snd (header_Type h)"
    by (auto simp: t1_def header_Type_def set_dbuf_def Let_def)
  let ?h = "h1\<lparr>mtypeflags := Sub 0 1\<rparr>"
  have db: "dbuf h1 = src" by (simp add: h1_def header_Type_def set_dbuf_def Let_def)
  have ref: "deref ?h (mtypeflags ?h) = [b]" by (simp add: db src sfull_def)
  have 4: "header_Type ?h = (?h, drop_bit 4 b)" by (rule header_Type_single [OF ref])
  have 5: "header_Flags ?h = Some (b AND 15)" by (rule header_Flags_single [OF ref])
  have ty: "snd (header_Type (?h\<lparr>remlen := x\<rparr>)) = drop_bit 4 b" for x
    using ref by (simp add: header_Type_def)
  have eq: "header_Type (set_dbuf h src) = (h1, t1)" by (simp add: h1_def t1_def)
  show ?thesis
    unfolding header_decode_def eq prod.case 1 bind.bind_lunit 4 5 2 Let_def slice.sel u 3
    using k t1 ty by (auto simp: slen_def src)
qed

theorem header_decode_safe_witness:
  "\<exists>h' n e. header_decode NewPubackMessage (exact [0x40, 2, 0, 7]) = Some (h', n, e) \<and>
    (e = None \<longrightarrow> 1 \<le> n \<and> n \<le> slen (exact [0x40, 2, 0, 7]) \<and>
       remlen h' \<le> slen (exact [0x40, 2, 0, 7]) - n \<and> remlen h' \<le> maxRemainingLength \<and>
       type_Valid (snd (header_Type h')) \<and>
       snd (header_Type h') = snd (header_Type NewPubackMessage))"
  by (rule header_decode_safe) (simp_all add: exact_def Uvarint_def)


text \<open>
  A remaining length from \<open>2 ^ 31\<close> up is not rejected: \<open>decode\<close> truncates it to a negative
  32-bit number, which passes the maximum check and the buffer check.
\<close>

theorem header_decode_negative:
  assumes "typed t h b0" and "typed t m b" and "type_Valid t" and "t \<noteq> PUBLISH"
    and "2 ^ 31 \<le> n" and "n < 2 ^ 32"
  shows "\<exists>h'. header_decode h (Slice (hdr_wire b n @ r) sp) =
      Some (h', int (length (hdr_wire b n)), None) \<and> remlen h' = int n - 2 ^ 32 \<and> remlen h' < 0"
proof -
  let ?src = "Slice (hdr_wire b n @ r) sp" and ?v = "uvarint_bytes n"
  have 1: "slice_range ?src 0 1 = Some (Slice [b] ((?v @ r) @ sp))"
    using slice_range_split [of 0 "[]" 1 "[b]" "?v @ r" sp] by (simp add: hdr_wire_def)
  have 2: "slice_from ?src 1 = Some (Slice (?v @ r) sp)"
    using slice_from_split [of 1 "[b]" "?v @ r" sp] by (simp add: hdr_wire_def)
  have 3: "slice_from ?src (1 + int (length ?v)) = Some (Slice r sp)"
    using slice_from_split [of "1 + int (length ?v)" "hdr_wire b n" r sp] by simp
  have 4: "header_Type (set_dbuf h ?src) = (set_dbuf h ?src, t)"
    using assms(1) by (simp add: header_Type_def set_dbuf_def typed_def)
  let ?h = "(set_dbuf h ?src)\<lparr>mtypeflags := Sub 0 1\<rparr>"
  have ref: "deref ?h (mtypeflags ?h) = [b]" by (simp add: sfull_def hdr_wire_def set_dbuf_def)
  have 5: "header_Type ?h = (?h, t)" using header_Type_single [OF ref] assms(2) by (simp add: typed_def)
  have 6: "header_Flags ?h = Some (DefaultFlags t)"
    using header_Flags_single [OF ref] assms(2) by (simp add: typed_def)
  have 7: "Uvarint (sdata (Slice (?v @ r) sp)) = (of_nat n, int (length ?v))"
    using assms(6) by (simp add: Uvarint_bytes)
  have v: "uint (of_nat n :: 64 word) = int n"
    using assms(6) unat_of_nat_64 [of n] by (simp add: uint_nat)
  have "bit (int n) 31"
  proof -
    have "n div 2 ^ 31 = 1" using assms(5,6) by (intro div_nat_eqI) simp_all
    then have "int n div 2 ^ 31 = 1" by (metis zdiv_int of_nat_1 of_nat_numeral of_nat_power)
    then show ?thesis by (simp add: bit_iff_odd)
  qed
  moreover have "take_bit 32 (int n) = int n" using assms(6) by (simp add: take_bit_int_eq_self)
  ultimately have 8: "to_int32 (int n) = int n - 2 ^ 32"
    by (simp add: to_int32_def signed_take_bit_eq_take_bit_minus)
  show ?thesis
    unfolding header_decode_def 4 prod.case 1 bind.bind_lunit 5 6 7 Let_def v 8 2
    using assms(3,4,6) by (simp add: 3 slen_def)
qed


theorem header_decode_negative_witness:
  "\<exists>h'. header_decode NewPubackMessage (Slice (hdr_wire 0x40 4294967295 @ [0, 7]) []) =
      Some (h', int (length (hdr_wire 0x40 4294967295)), None) \<and>
    remlen h' = int 4294967295 - 2 ^ 32 \<and> remlen h' < 0"
  by (rule header_decode_negative [where t = PUBACK and m = NewPubackMessage and ?b0.0 = "0x40"])
    (simp_all add: typed_def NewPubackMessage_def new_header_def header_SetType_def zero_header_def
      put_mtypeflags_def type_Valid_def DefaultFlags_def)

section \<open>Length-prefixed strings\<close>

text \<open>
  \<open>readLPBytes\<close> checks the announced length against the buffer with the two prefix bytes still
  in it: when the string is cut by one or two bytes it panics, or, if the slice has spare
  capacity, returns a string whose last bytes come from beyond the slice.
\<close>

theorem readLPBytes_overread:
  assumes "be16 (sdata buf) = Some n" and "uint n \<le> slen buf" and "slen buf < uint n + 2"
  shows "readLPBytes buf =
    (if scap buf < uint n + 2 then None
     else Some (drop 2 (sdata buf) @ take (nat (uint n + 2 - slen buf)) (sspare buf), 2 + uint n, None))"
proof -
  have l: "\<not> slen buf < 2" using assms(1) be16_None_iff [of "sdata buf"] by (auto simp: slen_def)
  obtain a b r sp where buf: "buf = Slice (a # b # r) sp"
    using assms(1) by (cases buf, cases "sdata buf" rule: be16.cases) auto
  obtain k where k: "uint n = int k" using uint_ge_0 [of n] nonneg_int_cases by metis
  have "k - length r = nat (int k + 2 - slen buf)" "length r \<le> k"
    using assms(2,3) by (simp_all add: buf slen_def k)
  then show ?thesis
    using assms l by (auto simp: readLPBytes_def slice_range_def buf sfull_def Let_def k
        not_less nat_add_distrib scap_def slen_def)
qed

theorem readLPBytes_overread_witness:
  "readLPBytes (Slice [0, 3, 97] []) = None \<and>
   readLPBytes (Slice [0, 3, 97] [98, 99, 100]) = Some ([97, 98, 99], 5, None)"
  using readLPBytes_overread [of "Slice [0, 3, 97] []" 3]
    readLPBytes_overread [of "Slice [0, 3, 97] [98, 99, 100]" 3]
  by (simp add: slen_def scap_def)

section \<open>CONNACK\<close>

text \<open>
  \<open>Encode\<close> of a CONNACK without session present leaves the flags byte as it finds it: over a
  buffer that holds a 1 there, the receiver sees session present set.
\<close>

theorem connack_Encode_stale:
  assumes "connack_ready m" and "\<not> sessionPresent m" and "connack_Len m = (m', l)"
    and "4 \<le> length dst" and "dst ! 2 = 1"
  shows "\<exists>m'' out m2. connack_Encode m' dst = Some ((m'', out), 4, None) \<and>
    connack_Decode NewConnackMessage (exact (take 4 out)) = Some (m2, 4, None) \<and> sessionPresent m2"
proof -
  let ?m = "m\<lparr>remlen := 2, dirty := True\<rparr>" and ?p = "m\<lparr>sessionPresent := True\<rparr>"
  have m': "m' = ?m"
    using assms(1,3) by (simp add: connack_Len_def len_with_dirty connack_msglen_def connack_ready_def)
  have r: "connack_ready ?m" "connack_ready ?p"
    using assms(1) by (simp_all add: connack_ready_def type_byte_def typed_def)
  have w: "hdr_wire (type_byte m) 2 @ [1, code_Value (returnCode m)] = connack_wire ?p"
    by (simp add: connack_wire_def type_byte_def)
  have "connack_Encode ?m dst = Some ((?m, wr (connack_wire ?p) dst), 4, None)"
    using connack_encode [OF r(1) _ assms(4)] assms(2,5) w by (simp add: header_msglen_def)
  moreover have "take 4 (wr (connack_wire ?p) dst) = connack_wire ?p"
    using take_wr [of "connack_wire ?p" dst] by simp
  ultimately show ?thesis
    using connack_wire_decode [OF r(2), of "[]"] m' by (auto simp: exact_def connack_same_def)
qed

lemma ex_connack_ready: "connack_ready NewConnackMessage" "\<not> sessionPresent NewConnackMessage"
  by (simp_all add: connack_ready_def NewConnackMessage_def header_SetType_def put_mtypeflags_def
      type_Valid_def DefaultFlags_def typed_def type_byte_def code_Valid_def)

theorem connack_Encode_stale_witness:
  "\<exists>m'' out m2. connack_Encode (fst (connack_Len NewConnackMessage)) [9, 9, 1, 9, 9] = Some ((m'', out), 4, None) \<and>
    connack_Decode NewConnackMessage (exact (take 4 out)) = Some (m2, 4, None) \<and> sessionPresent m2"
  using connack_Encode_stale [OF ex_connack_ready surjective_pairing, of "[9, 9, 1, 9, 9]"] by simp


section \<open>PUBLISH\<close>

lemma SetPacketId_fresh:
  "packetId m = Own [] \<Longrightarrow> v \<noteq> 0 \<Longrightarrow>
   SetPacketId m v = m\<lparr>packetId := Own (put_be16 v), dirty := True\<rparr>"
  by (simp add: SetPacketId_def put_packetId_def)

lemma PacketId_none: "packetId m = Own [] \<Longrightarrow> header_PacketId m = 0"
  by (simp add: header_PacketId_def)

text \<open>
  Encoding a PUBLISH above QoS 0 that has no identifier yet draws one from the counter, marks
  the message with it and writes the same bytes as if the caller had set it.
\<close>

theorem publish_fresh_packetId:
  assumes "publish_body_ok m" and "qos_of (type_byte m) \<noteq> 0" and "packetId m = Own []"
    and "fresh_packetId g = (g', v)" and "v \<noteq> 0"
    and "length (publish_wire (SetPacketId m v)) \<le> length dst"
  shows "\<exists>m'. publish_Encode g m dst =
      Some (((g', m'), wr (publish_wire (SetPacketId m v)) dst),
            int (length (publish_wire (SetPacketId m v))), None) \<and>
    header_PacketId m' = v \<and> topic m' = topic m \<and> payload m' = payload m"
proof -
  let ?m1 = "m\<lparr>remlen := int (publish_size m), dirty := True\<rparr>"
  let ?m' = "?m1\<lparr>packetId := Own (put_be16 v), dirty := True\<rparr>"
  have s: "SetPacketId m v = m\<lparr>packetId := Own (put_be16 v), dirty := True\<rparr>"
    by (rule SetPacketId_fresh [OF assms(3,5)])
  have w: "publish_wire (SetPacketId m v) =
      hdr_wire (type_byte m) (publish_size m) @ lp (topic m) @ pub_id ?m' @ payload m"
    by (simp add: s publish_wire_def type_byte_def pub_id_def publish_size_def)
  have e: "(g', ?m') = (if qos_of (type_byte m) \<noteq> 0 then ensure_packetId (g, ?m1) else (g, ?m1))"
    using assms(2-5) SetPacketId_fresh [of ?m1 v] PacketId_none [of ?m1] by (simp add: ensure_packetId_def)
  have id: "length (pub_id ?m') = 2" using assms(2) by (simp add: pub_id_def type_byte_def)
  have "publish_Encode g m dst = Some (((g', ?m'), wr (publish_wire (SetPacketId m v)) dst),
            int (length (publish_wire (SetPacketId m v))), None)"
    unfolding w
  proof (rule publish_encode [OF assms(1) refl e])
    show "length (hdr_wire (type_byte m) (publish_size m)) + publish_size m \<le> length dst"
      using assms(2,6) id unfolding w by (simp add: publish_size_def)
  qed (use id in \<open>simp_all add: type_byte_def\<close>)
  then show ?thesis by (auto intro!: header_PacketId_be16)
qed

definition ex_publish_noid :: publish_message where
  "ex_publish_noid = ex_publish\<lparr>packetId := Own []\<rparr>"

lemma ex_publish_noid_ok:
  "publish_body_ok ex_publish_noid" "qos_of (type_byte ex_publish_noid) \<noteq> 0"
  "packetId ex_publish_noid = Own []" "publish_size ex_publish_noid = 9" "type_byte ex_publish_noid = 0x32"
  by (simp_all add: ex_publish_noid_def publish_body_ok_def ex_publish_def pub_typed_def type_byte_def
      qos_of_def ValidQos_def ValidTopic_def publish_size_def)

theorem publish_fresh_packetId_witness:
  "\<exists>m'. publish_Encode 6 ex_publish_noid (replicate 20 0) =
      Some (((7, m'), wr (publish_wire (SetPacketId ex_publish_noid 7)) (replicate 20 0)),
            int (length (publish_wire (SetPacketId ex_publish_noid 7))), None) \<and>
    header_PacketId m' = 7 \<and> topic m' = topic ex_publish_noid \<and> payload m' = payload ex_publish_noid"
proof (rule publish_fresh_packetId [OF ex_publish_noid_ok(1-3)])
  show "length (publish_wire (SetPacketId ex_publish_noid 7)) \<le> length (replicate 20 (0 :: byte))"
    by (simp add: SetPacketId_fresh ex_publish_noid_def ex_publish_def publish_wire_def type_byte_def
        pub_id_def publish_size_def uvarint_bytes_small qos_of_def)
qed (simp_all add: fresh_packetId_def)

text \<open>
  When the counter's low 16 bits wrap to 0 the identifier is not stored, and the frame is two
  bytes shorter than its header says.
\<close>

theorem publish_packetId_wrap:
  assumes "publish_body_ok m" and "qos_of (type_byte m) \<noteq> 0" and "packetId m = Own []"
    and "fresh_packetId g = (g', 0)"
    and "length (hdr_wire (type_byte m) (publish_size m)) + publish_size m \<le> length dst"
  shows "\<exists>m' n. publish_Encode g m dst =
      Some (((g', m'), wr (hdr_wire (type_byte m) (publish_size m) @ lp (topic m) @ payload m) dst), n, None) \<and>
    n = header_msglen m' + remlen m' - 2 \<and> header_PacketId m' = 0"
proof -
  let ?m1 = "m\<lparr>remlen := int (publish_size m), dirty := True\<rparr>"
  let ?w = "hdr_wire (type_byte m) (publish_size m) @ lp (topic m) @ payload m"
  have e: "(g', ?m1) = (if qos_of (type_byte m) \<noteq> 0 then ensure_packetId (g, ?m1) else (g, ?m1))"
    using assms(2-4) PacketId_none [of ?m1] by (simp add: ensure_packetId_def)
  have id: "pub_id ?m1 = []" using assms(3) by (simp add: pub_id_def)
  have "publish_Encode g m dst = Some (((g', ?m1), wr ?w dst), int (length ?w), None)"
    using publish_encode [OF assms(1) refl e _ _ _ _ assms(5)] id by (simp add: type_byte_def)
  moreover have "header_msglen ?m1 = int (length (hdr_wire (type_byte m) (publish_size m)))"
    using assms(1) header_msglen_wire [of ?m1 "type_byte m"] by (simp add: publish_body_ok_def)
  ultimately show ?thesis
    using assms(2) PacketId_none [of ?m1] assms(3) by (simp add: publish_size_def)
qed

theorem publish_packetId_wrap_witness:
  "\<exists>m' n. publish_Encode 65535 ex_publish_noid (replicate 20 0) =
      Some (((65536, m'), wr (hdr_wire 0x32 9 @ lp (topic ex_publish_noid) @ payload ex_publish_noid)
        (replicate 20 0)), n, None) \<and>
    n = header_msglen m' + remlen m' - 2 \<and> header_PacketId m' = 0"
  using publish_packetId_wrap [OF ex_publish_noid_ok(1-3), of 65535 65536 "replicate 20 0"]
  by (simp add: fresh_packetId_def ex_publish_noid_ok(4,5) uvarint_bytes_small)

lemma flag_keep:
  "((b OR 8) AND 15) AND 1 = (b AND 15) AND (1 :: byte)"
  "((b AND 247) AND 15) AND 1 = (b AND 15) AND (1 :: byte)"
  "drop_bit 3 ((b OR 1) AND 15) AND 1 = drop_bit 3 (b AND 15) AND (1 :: byte)"
  "drop_bit 3 ((b AND 254) AND 15) AND 1 = drop_bit 3 (b AND 15) AND (1 :: byte)"
  by (rule bit_word_eqI; fastforce simp: bit_simps numeral_eq_Suc less_Suc_eq dest: bit_imp_le_length)+

lemma single_flags:
  assumes "deref m (mtypeflags m) = [b]"
  shows "Dup m = Some (drop_bit 3 (b AND 15) AND 1 = 1)" "Retain m = Some ((b AND 15) AND 1 = 1)"
    "QoS m = Some (qos_of b)" "snd (header_Type m) = drop_bit 4 b"
  using header_Flags_single [OF assms] header_Type_single [OF assms] QoS_single [OF assms]
  by (simp_all add: Dup_def Retain_def)

text \<open>
  The setters of the PUBLISH flags set their own flag, keep the other two and the packet
  type, whether the type byte is the message's own or sits in the buffer it was decoded from.
\<close>

theorem publish_flag_setters:
  assumes "flags_ref m" and "deref m (mtypeflags m) = [b]" and "ValidQos q"
  shows "(\<exists>m1. SetDup m v = Some m1 \<and> Dup m1 = Some v \<and> Retain m1 = Retain m \<and> QoS m1 = QoS m \<and>
      snd (header_Type m1) = snd (header_Type m)) \<and>
    (\<exists>m2. SetRetain m v = Some m2 \<and> Retain m2 = Some v \<and> Dup m2 = Dup m \<and> QoS m2 = QoS m \<and>
      snd (header_Type m2) = snd (header_Type m)) \<and>
    (\<exists>m3. SetQoS m q = Some (m3, None) \<and> QoS m3 = Some q \<and> Dup m3 = Dup m \<and>
      Retain m3 = Retain m \<and> snd (header_Type m3) = snd (header_Type m))"
proof (intro conjI)
  obtain m1 where m1: "SetDup m v = Some m1" "deref m1 (mtypeflags m1) = [if v then b OR 8 else b AND 247]"
    using update_flags_Some [OF assms(1,2), of "\<lambda>b. if v then b OR 8 else b AND 247"] by (auto simp: SetDup_def)
  show "\<exists>m1. SetDup m v = Some m1 \<and> Dup m1 = Some v \<and> Retain m1 = Retain m \<and> QoS m1 = QoS m \<and>
      snd (header_Type m1) = snd (header_Type m)"
    using m1(1) single_flags [OF m1(2)] single_flags [OF assms(2)]
    by (cases v) (simp_all only: if_True if_False flag_bits flag_keep, simp_all)
next
  obtain m2 where m2: "SetRetain m v = Some m2" "deref m2 (mtypeflags m2) = [if v then b OR 1 else b AND 254]"
    using update_flags_Some [OF assms(1,2), of "\<lambda>b. if v then b OR 1 else b AND 254"] by (auto simp: SetRetain_def)
  show "\<exists>m2. SetRetain m v = Some m2 \<and> Retain m2 = Some v \<and> Dup m2 = Dup m \<and> QoS m2 = QoS m \<and>
      snd (header_Type m2) = snd (header_Type m)"
    using m2(1) single_flags [OF m2(2)] single_flags [OF assms(2)]
    by (cases v) (simp_all only: if_True if_False flag_bits flag_keep, simp_all)
next
  have q: "q = 0 \<or> q = 1 \<or> q = 2" using assms(3) by (simp add: ValidQos_def)
  obtain m3 where m3: "SetQoS m q = Some (m3, None)" "deref m3 (mtypeflags m3) = [(b AND 249) OR push_bit 1 q]"
    using update_flags_Some [OF assms(1,2), of "\<lambda>b. (b AND 249) OR push_bit 1 q"] q
    by (auto simp: SetQoS_def)
  have "(((b AND 249) OR push_bit 1 q) AND 15) AND 1 = (b AND 15) AND 1"
    using qos_bits(4) [OF q, of b] by (simp add: and.assoc)
  then show "\<exists>m3. SetQoS m q = Some (m3, None) \<and> QoS m3 = Some q \<and> Dup m3 = Dup m \<and>
      Retain m3 = Retain m \<and> snd (header_Type m3) = snd (header_Type m)"
    using m3(1) single_flags [OF m3(2)] single_flags [OF assms(2)] qos_bits(1-3) [OF q, of b] by simp
qed

theorem publish_flag_setters_witness:
  "(\<exists>m1. SetDup ex_publish True = Some m1 \<and> Dup m1 = Some True \<and> Retain m1 = Retain ex_publish \<and>
      QoS m1 = QoS ex_publish \<and> snd (header_Type m1) = snd (header_Type ex_publish)) \<and>
    (\<exists>m2. SetRetain ex_publish True = Some m2 \<and> Retain m2 = Some True \<and> Dup m2 = Dup ex_publish \<and>
      QoS m2 = QoS ex_publish \<and> snd (header_Type m2) = snd (header_Type ex_publish)) \<and>
    (\<exists>m3. SetQoS ex_publish 2 = Some (m3, None) \<and> QoS m3 = Some 2 \<and> Dup m3 = Dup ex_publish \<and>
      Retain m3 = Retain ex_publish \<and> snd (header_Type m3) = snd (header_Type ex_publish))"
  by (rule publish_flag_setters [of _ "0x32"]) (simp_all add: flags_ref_def ex_publish_def ValidQos_def)

section \<open>SUBSCRIBE and UNSUBSCRIBE\<close>

text \<open>
  The topic list of SUBSCRIBE behaves as a map from filters to QoS: after \<open>AddTopic\<close> and
  \<open>RemoveTopic\<close>, \<open>TopicQos\<close> answers as after a map update and a deletion, and the two slices stay
  parallel and free of duplicates.
\<close>

theorem subscribe_topics_map:
  assumes "sub_inv m" and "ValidQos q"
  shows "(\<exists>m'. sub_AddTopic m t q = Some (m', None) \<and> sub_inv m' \<and>
      (\<forall>u. sub_TopicQos m' u = (if u = t then Some q else sub_TopicQos m u))) \<and>
    (\<exists>m'. sub_RemoveTopic m t = Some m' \<and> sub_inv m' \<and>
      (\<forall>u. sub_TopicQos m' u = (if u = t then Some QosFailure else sub_TopicQos m u)))"
proof -
  obtain a where a: "sub_AddTopic m t q = Some (a, None)" "sub_inv a" "sub_map a = (sub_map m)(t \<mapsto> q)"
    using sub_AddTopic_map [OF assms] by blast
  obtain r where r: "sub_RemoveTopic m t = Some r" "sub_inv r" "sub_map r = (sub_map m)(t := None)"
    using sub_RemoveTopic_map [OF assms(1)] by blast
  from a r show ?thesis by (auto simp: sub_TopicQos_map assms(1))
qed

lemma NewSubscribe_inv: "sub_inv NewSubscribeMessage"
  by (simp add: sub_inv_def NewSubscribeMessage_def header_SetType_def put_mtypeflags_def type_Valid_def)

theorem subscribe_topics_map_witness:
  "(\<exists>m'. sub_AddTopic NewSubscribeMessage [97] 1 = Some (m', None) \<and> sub_inv m' \<and>
      (\<forall>u. sub_TopicQos m' u = (if u = [97] then Some 1 else sub_TopicQos NewSubscribeMessage u))) \<and>
    (\<exists>m'. sub_RemoveTopic NewSubscribeMessage [97] = Some m' \<and> sub_inv m' \<and>
      (\<forall>u. sub_TopicQos m' u = (if u = [97] then Some QosFailure else sub_TopicQos NewSubscribeMessage u)))"
  by (rule subscribe_topics_map [OF NewSubscribe_inv]) (simp add: ValidQos_def)

text \<open>
  \<open>AddTopic\<close> of a filter a decoded SUBSCRIBE already has changes the QoS in the struct and not
  the dirty flag, so \<open>Encode\<close> still writes the bytes that were decoded.
\<close>

theorem subscribe_AddTopic_stale:
  assumes "sub_inv m" and "\<not> dirty m" and "t \<in> set (sub_topics m)" and "ValidQos q"
    and "length (sdata (dbuf m)) \<le> length dst"
  shows "\<exists>m'. sub_AddTopic m t q = Some (m', None) \<and> sub_TopicQos m' t = Some q \<and>
    drop_counter (subscribe_Encode g m' dst) =
      Some ((m', wr (sdata (dbuf m)) dst), int (length (sdata (dbuf m))), None)"
proof -
  obtain i where i: "topic_index (sub_topics m) t = Some i"
    using assms(3) topic_index_None [of "sub_topics m" t] by auto
  let ?m = "m\<lparr>sub_qos := (sub_qos m)[i := q]\<rparr>"
  have add: "sub_AddTopic m t q = Some (?m, None)"
    using assms(1,4) i topic_index_Some [OF i] by (simp add: sub_AddTopic_def sub_inv_def)
  moreover have "sub_TopicQos ?m t = Some q"
    using sub_AddTopic_map [OF assms(1,4), of t] add by (auto simp: sub_TopicQos_map)
  ultimately show ?thesis
    using assms(2,5) encode_clean_copy [of ?m dst] by (simp add: subscribe_Encode_def)
qed

definition ex_subscribe :: subscribe_message where
  "ex_subscribe =
     \<lparr>remlen = 6, mtypeflags = Sub 0 1, packetId = Sub 2 2,
      dbuf = exact [0x82, 6, 0, 1, 0, 1, 97, 1], dirty = False, sub_topics = [[97]], sub_qos = [1]\<rparr>"

theorem subscribe_AddTopic_stale_witness:
  "\<exists>m'. sub_AddTopic ex_subscribe [97] 2 = Some (m', None) \<and> sub_TopicQos m' [97] = Some 2 \<and>
    drop_counter (subscribe_Encode 0 m' (replicate 8 0)) =
      Some ((m', wr (sdata (dbuf ex_subscribe)) (replicate 8 0)), int (length (sdata (dbuf ex_subscribe))), None)"
  by (rule subscribe_AddTopic_stale)
    (simp_all add: ex_subscribe_def sub_inv_def ValidQos_def exact_def)

text \<open>
  Of the topics of an encoded UNSUBSCRIBE, \<open>Decode\<close> keeps exactly \<open>unsub_kept\<close>: it stops
  at the \<open>k\<close>-th topic when no more than \<open>k\<close> bytes are left, and still reports success.
\<close>

theorem unsubscribe_Decode_kept:
  assumes "unsub_sendable m"
  shows "\<exists>m1 out m2 n.
    unsubscribe_Encode g (fst (unsubscribe_Len m)) (replicate (nat (snd (unsubscribe_Len m))) 0) =
      Some (((g, m1), out), int (length out), None) \<and>
    unsubscribe_Decode NewUnsubscribeMessage (exact out) = Some (m2, n, None) \<and>
    unsub_topics m2 = unsub_kept 0 (unsub_topics m)"
proof -
  let ?m = "m\<lparr>remlen := unsubscribe_msglen m, dirty := True\<rparr>" and ?ml = "unsubscribe_msglen m"
  have b: "dirty m" "?ml \<le> maxRemainingLength" using assms by (simp_all add: unsub_sendable_def)
  have len: "unsubscribe_Len m = (?m, int (length (unsubscribe_wire m)))"
    using len_with_wire [where msglen = unsubscribe_msglen and b = "type_byte m", OF b(1) _ b(2)]
      unsubscribe_msglen_nonneg [of m] length_unsubscribe_wire [of m] by (simp add: unsubscribe_Len_def)
  have m2: "unsub_sendable ?m" "unsubscribe_wire ?m = unsubscribe_wire m" "unsubscribe_msglen ?m = ?ml"
    using assms by (simp_all add: unsub_sendable_def unsubscribe_wire_def unsubscribe_msglen_def header_PacketId_def)
  have "header_msglen ?m + ?ml = int (length (unsubscribe_wire m))"
    using header_msglen_wire [of ?m "type_byte m"] b unsubscribe_msglen_nonneg [of m]
      length_unsubscribe_wire [of m] by simp
  then have "unsubscribe_Encode g ?m (replicate (length (unsubscribe_wire m)) 0) =
      Some (((g, ?m), unsubscribe_wire m), int (length (unsubscribe_wire m)), None)"
    using unsubscribe_encode_sendable [OF m2(1), of "replicate (length (unsubscribe_wire m)) 0" g] m2
    by (simp add: wr_exact)
  then show ?thesis
    using unsubscribe_wire_decode [OF assms, of "[]"] len by (auto simp: exact_def)
qed

definition ex_unsubscribe :: unsubscribe_message where
  "ex_unsubscribe =
     \<lparr>remlen = 0, mtypeflags = Own [0xa2], packetId = Own [0, 1], dbuf = exact [], dirty = True,
      unsub_topics = [[97], [98], [99], [100]]\<rparr>"

theorem unsubscribe_Decode_kept_witness:
  "\<exists>m1 out m2 n.
    unsubscribe_Encode 0 (fst (unsubscribe_Len ex_unsubscribe))
      (replicate (nat (snd (unsubscribe_Len ex_unsubscribe))) 0) =
      Some (((0, m1), out), int (length out), None) \<and>
    unsubscribe_Decode NewUnsubscribeMessage (exact out) = Some (m2, n, None) \<and>
    unsub_topics m2 = [[97], [98], [99]]"
  using unsubscribe_Decode_kept [of ex_unsubscribe 0]
  by (simp add: ex_unsubscribe_def unsub_sendable_def typed_def type_byte_def DefaultFlags_def
      header_PacketId_def unsubscribe_msglen_def)


section \<open>CONNECT\<close>

text \<open>The messages the client's calls of the setters can build.\<close>

inductive connect_built :: "connect_message \<Rightarrow> bool" where
  new: "connect_built NewConnectMessage"
| version: "connect_built m \<Longrightarrow> connect_built (fst (SetVersion m v))"
| clean: "connect_built m \<Longrightarrow> connect_built (SetCleanSession m c)"
| will_qos: "connect_built m \<Longrightarrow> connect_built (fst (SetWillQos m q))"
| will_retain: "connect_built m \<Longrightarrow> connect_built (SetWillRetain m c)"
| keep_alive: "connect_built m \<Longrightarrow> connect_built (SetKeepAlive m k)"
| client_id: "connect_built m \<Longrightarrow> connect_built (fst (SetClientId m b))"
| will_topic: "connect_built m \<Longrightarrow> connect_built (SetWillTopic m b)"
| will_message: "connect_built m \<Longrightarrow> connect_built (SetWillMessage m b)"
| user: "connect_built m \<Longrightarrow> connect_built (SetUsername m b)"
| pass: "connect_built m \<Longrightarrow> connect_built (SetPassword m b)"

definition connect_built_inv :: "connect_message \<Rightarrow> bool" where
  "connect_built_inv m \<longleftrightarrow>
     connect_fields_inv m \<and> WillQos m \<le> QosExactlyOnce \<and>
     typed CONNECT m (type_byte m) \<and> dirty m"

lemma fields_inv_frame:
  "connect_fields_inv (m\<lparr>version := v\<rparr>) = connect_fields_inv m"
  "connect_fields_inv (m\<lparr>dirty := d\<rparr>) = connect_fields_inv m"
  "connect_fields_inv (m\<lparr>keepAlive := k\<rparr>) = connect_fields_inv m"
  "connect_fields_inv (m\<lparr>clientId := c\<rparr>) = connect_fields_inv m"
  by (simp_all add: connect_fields_inv_def flag_getters)

lemma bit_231: "bit (231 :: byte) n \<longleftrightarrow> n < 8 \<and> n \<noteq> 3 \<and> n \<noteq> 4"
proof (cases "n < 8")
  case True
  then show ?thesis by (auto simp: less_Suc_eq numeral_eq_Suc)
next
  case False
  then show ?thesis by (auto dest: bit_imp_le_length)
qed

lemma qos_push_bits:
  fixes b q :: byte
  assumes "q = 0 \<or> q = 1 \<or> q = 2"
  shows "drop_bit 3 ((b AND 231) OR push_bit 3 q) AND 3 = q"
    "n \<noteq> 3 \<Longrightarrow> n \<noteq> 4 \<Longrightarrow> bit ((b AND 231) OR push_bit 3 q) n = bit b n"
proof -
  have q: "bit q k \<longleftrightarrow> k = 0 \<and> q = 1 \<or> k = 1 \<and> q = 2" for k
    using assms by (elim disjE) (auto simp: bit_1_iff bit_2_iff)
  have eq: "x AND 3 = take_bit 2 x" for x :: byte
    by (simp add: take_bit_eq_mask mask_eq_decr_exp)
  show "drop_bit 3 ((b AND 231) OR push_bit 3 q) AND 3 = q"
    unfolding eq
  proof (rule bit_word_eqI)
    fix n
    show "bit (take_bit 2 (drop_bit 3 ((b AND 231) OR push_bit 3 q))) n = bit q n"
    proof (cases "n < 2")
      case True
      then consider "n = 0" | "n = 1" by linarith
      then show ?thesis
        by cases (simp_all add: bit_take_bit_iff bit_drop_bit_eq bit_or_iff bit_and_iff bit_231
            bit_push_bit_iff q)
    next
      case False
      then show ?thesis by (auto simp: bit_take_bit_iff q)
    qed
  qed
  show "bit ((b AND 231) OR push_bit 3 q) n = bit b n" if "n \<noteq> 3" "n \<noteq> 4"
  proof -
    have "\<not> bit (push_bit 3 q) n" using that by (auto simp: bit_push_bit_iff q)
    moreover have "bit b n \<Longrightarrow> n < 8" using bit_imp_le_length [of b n] by simp
    ultimately show ?thesis using that unfolding bit_or_iff bit_and_iff bit_231 by blast
  qed
qed

lemma WillQos_frame:
  "WillQos (SetWillTopic m b) = WillQos m" "WillQos (SetWillMessage m b) = WillQos m"
  "WillQos (SetUsername m b) = WillQos m" "WillQos (SetPassword m b) = WillQos m"
  by (rule WillQos_bits; simp add: SetWillTopic_def SetWillMessage_def SetUsername_def SetPassword_def
      Let_def flag_setters bit_or_iff bit_and_iff)+

lemma typed_frame_connect:
  assumes "mtypeflags m' = mtypeflags m" and "dbuf m' = dbuf m"
  shows "typed t m' b = typed t m b" "type_byte m' = type_byte m"
  using assms by (simp_all add: typed_def type_byte_def)

lemma connect_built_inv: "connect_built m \<Longrightarrow> connect_built_inv m"
proof (induction rule: connect_built.induct)
  case new
  show ?case
    using NewConnect_inv NewConnect_typed typed_type_byte [OF NewConnect_typed]
    by (simp add: connect_built_inv_def WillQos_def NewConnectMessage_def header_SetType_def
        put_mtypeflags_def type_Valid_def DefaultFlags_def)
next
  case (will_qos m q)
  show ?case
  proof (cases "q = 0 \<or> q = 1 \<or> q = 2")
    case True
    note b = qos_push_bits [OF True, where b = "connectFlags m"]
    have "q \<le> 2" using True by auto
    then show ?thesis
      using will_qos.IH True b(1) b(2) [where n = 0] b(2) [where n = 2] b(2) [where n = 6] b(2) [where n = 7]
      by (auto simp: connect_built_inv_def connect_fields_inv_def SetWillQos_def WillQos_def
          flag_getters typed_def type_byte_def)
  next
    case False
    then show ?thesis using will_qos.IH by (simp add: SetWillQos_def)
  qed
next
  case (version m v)
  then show ?case
    by (auto simp: connect_built_inv_def SetVersion_def fields_inv_frame WillQos_def typed_def type_byte_def)
next
  case (clean m c)
  then show ?case
    using connect_setters_inv(5) [of m c] setter_WillQos(1) [of m c] typed_frame_connect [of "SetCleanSession m c" m]
    by (simp add: connect_built_inv_def) (simp add: SetCleanSession_def)
next
  case (will_retain m c)
  then show ?case
    using setter_WillQos(3) [of m c] typed_frame_connect [of "SetWillRetain m c" m]
    by (simp add: connect_built_inv_def connect_fields_inv_def setter_frame setter_reserved)
      (simp add: SetWillRetain_def)
next
  case (keep_alive m k)
  then show ?case
    by (auto simp: connect_built_inv_def SetKeepAlive_def fields_inv_frame WillQos_def typed_def type_byte_def)
next
  case (client_id m b)
  then show ?case
    by (auto simp: connect_built_inv_def SetClientId_def fields_inv_frame WillQos_def typed_def type_byte_def)
next
  case (will_topic m b)
  then show ?case
    using connect_setters_inv(1) [of m b] typed_frame_connect [of "SetWillTopic m b" m]
    by (simp add: connect_built_inv_def WillQos_frame) (simp add: SetWillTopic_def SetWillFlag_def Let_def)
next
  case (will_message m b)
  then show ?case
    using connect_setters_inv(2) [of m b] typed_frame_connect [of "SetWillMessage m b" m]
    by (simp add: connect_built_inv_def WillQos_frame) (simp add: SetWillMessage_def SetWillFlag_def Let_def)
next
  case (user m b)
  then show ?case
    using connect_setters_inv(3) [of m b] typed_frame_connect [of "SetUsername m b" m]
    by (simp add: connect_built_inv_def WillQos_frame) (simp add: SetUsername_def SetUsernameFlag_def Let_def)
next
  case (pass m b)
  then show ?case
    using connect_setters_inv(4) [of m b] typed_frame_connect [of "SetPassword m b" m]
    by (simp add: connect_built_inv_def WillQos_frame) (simp add: SetPassword_def SetPasswordFlag_def Let_def)
qed


text \<open>
  Whatever sequence of setters built it, a CONNECT message has its flags in step with its
  fields (the will, user name and password flags are set exactly when there is something to
  send), the reserved bit clear, a legal will QoS and the packet type CONNECT.
\<close>

theorem connect_setters_invariant:
  assumes "connect_built m"
  shows "(WillFlag m \<longleftrightarrow> willTopic m \<noteq> [] \<or> willMessage m \<noteq> []) \<and>
    (UsernameFlag m \<longleftrightarrow> username m \<noteq> []) \<and> (PasswordFlag m \<longleftrightarrow> password m \<noteq> []) \<and>
    \<not> bit (connectFlags m) 0 \<and> WillQos m \<le> QosExactlyOnce \<and> snd (header_Type m) = CONNECT"
  using connect_built_inv [OF assms]
  by (auto simp: connect_built_inv_def connect_fields_inv_def typed_def header_Type_def)

theorem connect_setters_invariant_witness:
  "UsernameFlag (SetUsername (SetWillTopic NewConnectMessage [97]) [98]) \<and>
   WillFlag (SetUsername (SetWillTopic NewConnectMessage [97]) [98])"
proof -
  have "connect_built (SetUsername (SetWillTopic NewConnectMessage [97]) [98])"
    by (intro connect_built.intros)
  from connect_setters_invariant [OF this] show ?thesis
    by (simp add: SetUsername_def SetWillTopic_def Let_def)
qed

lemma connect_decodeMessage_user:
  assumes "SupportedVersions (version m) \<noteq> None" and "connectFlags m AND 1 = 0"
    and "WillQos m \<le> QosExactlyOnce" and "\<not> WillFlag m \<longrightarrow> \<not> WillRetain m \<and> WillQos m = QosAtMostOnce"
    and "UsernameFlag m" and "\<not> PasswordFlag m"
  shows "\<exists>d' n. connect_decodeMessage d (Slice (connect_body m) sp) = Some (d', n, Some EUsernameNoPassword)"
proof -
  let ?src = "Slice (connect_body m) sp" and ?q = "lp (connect_proto m)"
  let ?d = "d\<lparr>protoName := connect_proto m, version := version m, connectFlags := connectFlags m\<rparr>"
  have v: "SupportedVersions (version m) = Some (connect_proto m)"
    using assms(1) by (auto simp: connect_proto_def)
  have 1: "read_field ?src 0 (\<lambda>b m. m\<lparr>protoName := b\<rparr>) d =
      Some (d\<lparr>protoName := connect_proto m\<rparr>, int (length ?q), None)"
    using read_field_at [of "connect_proto m" "[]" _ sp "\<lambda>b m. m\<lparr>protoName := b\<rparr>" d] connect_proto_length [of m]
    by (simp add: connect_body_def)
  have 2: "slice_index ?src (int (length ?q)) = Some (version m)"
    using slice_index_split [of _ ?q] by (simp add: connect_body_def)
  have 3: "slice_index ?src (int (length ?q) + 1) = Some (connectFlags m)"
    using slice_index_split [of "int (length ?q) + 1" "?q @ [version m]"] by (simp add: connect_body_def)
  have fl: "connectFlags ?d AND 1 = 0" "\<not> WillQos ?d > QosExactlyOnce"
    "\<not> (\<not> WillFlag ?d \<and> (WillRetain ?d \<or> WillQos ?d \<noteq> QosAtMostOnce))"
    "UsernameFlag ?d \<and> \<not> PasswordFlag ?d"
    using assms flags_only_connectFlags [of ?d m] by auto
  show ?thesis
    unfolding connect_decodeMessage_def 1 ret_bind_simps 2 bind.bind_lunit Let_def v
    using fl 3 by simp
qed

text \<open>
  A CONNECT with a user name and no password, which \<open>SetUsername\<close> builds and \<open>Encode\<close>
  accepts, is refused by \<open>Decode\<close>: its check runs from the user name to the password, where MQTT
  asks for the converse.
\<close>

theorem connect_username_only_refused:
  assumes "connect_built m" and "SupportedVersions (version m) \<noteq> None" and "connect_lengths m"
    and "\<not> WillFlag m \<longrightarrow> \<not> WillRetain m \<and> WillQos m = QosAtMostOnce"
    and "username m \<noteq> []" and "password m = []"
  shows "\<exists>m1 out d n. marshal (\<lambda>m. Some (connect_Len m)) connect_Encode m = Some ((m1, out), int (length out), None) \<and>
    connect_Decode NewConnectMessage (exact out) = Some (d, n, Some EUsernameNoPassword)"
proof -
  have i: "connect_built_inv m" using connect_built_inv [OF assms(1)] .
  then have inv: "UsernameFlag m" "\<not> PasswordFlag m" "\<not> bit (connectFlags m) 0" "WillQos m \<le> QosExactlyOnce"
      "typed CONNECT m (type_byte m)" "dirty m"
    using assms(5,6) by (simp_all add: connect_built_inv_def connect_fields_inv_def)
  have r0: "connectFlags m AND 1 = 0" using inv(3) by (simp add: and_one_eq bit_0 even_iff_mod_2_eq_zero)
  let ?ml = "connect_msglen m" and ?m = "m\<lparr>remlen := connect_msglen m, dirty := True\<rparr>"
  have ml: "?ml = int (length (connect_body m))" by (rule connect_msglen_body [OF assms(2)])
  have max: "0 \<le> ?ml" "?ml \<le> maxRemainingLength" using connect_body_max [OF assms(3)] ml by simp_all
  have len: "connect_Len m = (?m, int (length (connect_wire m)))"
    using len_with_wire [where msglen = connect_msglen and b = "type_byte m", OF inv(6) max] ml
    by (simp add: connect_Len_def connect_wire_def)
  have body: "connect_body ?m = connect_body m"
    using flags_only_connectFlags [of ?m m]
    by (simp add: connect_body_def connect_payload_def connect_proto_def)
  have m2: "connect_encodable ?m" "connect_wire ?m = connect_wire m" "connect_msglen ?m = ?ml"
    using inv assms(2,3) body connect_msglen_body [of ?m] ml
    by (simp_all add: connect_encodable_def connect_wire_def connect_lengths_def)
  have "header_msglen ?m + ?ml = int (length (connect_wire m))"
    using header_msglen_wire [of ?m "type_byte m"] max ml by (simp add: connect_wire_def)
  then have enc: "marshal (\<lambda>m. Some (connect_Len m)) connect_Encode m =
      Some ((?m, connect_wire m), int (length (connect_wire m)), None)"
    using connect_encode_wire [OF m2(1), of "replicate (length (connect_wire m)) 0"] m2 len
    by (simp add: marshal_def wr_exact)
  let ?n = "length (connect_body m)" and ?src = "exact (connect_wire m)"
  let ?h = "hdr_wire (type_byte m) ?n"
  have 1: "header_decode NewConnectMessage ?src =
      Some (decoded_header NewConnectMessage ?src ?n, int (length ?h), None)"
    using typed_decode [OF NewConnect_typed inv(5), of ?n "connect_body m" "[]"] connect_body_max [OF assms(3)]
    by (simp add: connect_wire_def type_Valid_def exact_def)
  have 2: "slice_from ?src (int (length ?h)) = Some (Slice (connect_body m) [])"
    unfolding connect_wire_def exact_def by (rule slice_from_split) simp
  obtain d n where "connect_decodeMessage (decoded_header NewConnectMessage ?src ?n) (Slice (connect_body m) []) =
      Some (d, n, Some EUsernameNoPassword)"
    using connect_decodeMessage_user [OF assms(2) r0 inv(4) assms(4) inv(1,2)] by blast
  then have "connect_Decode NewConnectMessage ?src = Some (d, int (length ?h) + n, Some EUsernameNoPassword)"
    unfolding connect_Decode_def 1 ret_bind_simps 2 bind.bind_lunit by simp
  with enc show ?thesis by blast
qed

theorem connect_username_only_refused_witness:
  "\<exists>m1 out d n. marshal (\<lambda>m. Some (connect_Len m)) connect_Encode
      (SetUsername (SetCleanSession (fst (SetVersion NewConnectMessage 4)) True) [117]) =
      Some ((m1, out), int (length out), None) \<and>
    connect_Decode NewConnectMessage (exact out) = Some (d, n, Some EUsernameNoPassword)"
proof (rule connect_username_only_refused)
  show "connect_built (SetUsername (SetCleanSession (fst (SetVersion NewConnectMessage 4)) True) [117])"
    by (intro connect_built.intros)
qed (simp_all add: SetUsername_def SetCleanSession_def SetVersion_def SupportedVersions_def
    NewConnectMessage_def header_SetType_def put_mtypeflags_def type_Valid_def DefaultFlags_def
    connect_lengths_def WillFlag_def WillRetain_def WillQos_def SetUsernameFlag_def Let_def)

end
