(* ===== verification/Topics_Levels.thy ===== *)
theory Topics_Levels imports Msg_Message "HOL-Library.AList" begin

text \<open>
  \<open>nextTopicLevel\<close> of \<open>tools/surgemq/topics/memtopics.go\<close>, the state machine that cuts the next
  level off a topic, and the list of levels its repeated use gives. Both trees of the topic store
  walk down along these levels.
\<close>

section \<open>The state machine\<close>

datatype tstate = StateCHR | StateMWC | StateSWC | StateSEP | StateSYS

text \<open>The errors of the topics package, each with the place that reports it.\<close>

datatype terror =
    EMultiNotLast
  | EHashLevel
  | EPlusLevel
  | ESysTopic
  | EWildLevel
  | ENoSubscriber
  | ENoTopic
  | ETopicQos byte
  | ENilSubscriber
  | EMessage merror
  | EUnknownProvider string

abbreviation (input) cSEP :: byte where "cSEP \<equiv> 47"
abbreviation (input) cMWC :: byte where "cMWC \<equiv> 35"
abbreviation (input) cSWC :: byte where "cSWC \<equiv> 43"
abbreviation (input) cSYS :: byte where "cSYS \<equiv> 36"

abbreviation (input) MWC :: bytes where "MWC \<equiv> [35]"
abbreviation (input) SWC :: bytes where "SWC \<equiv> [43]"

text \<open>The loop \<open>for i, c := range topic\<close> with its state \<open>s\<close>; the last argument is the bytes left.\<close>

fun next_loop :: "bytes \<Rightarrow> nat \<Rightarrow> tstate \<Rightarrow> bytes \<Rightarrow> terror + bytes \<times> bytes" where
  "next_loop tp i s [] = Inr (tp, [])"
| "next_loop tp i s (c # cs) =
     (if c = cSEP
      then if s = StateMWC then Inl EMultiNotLast
           else if i = 0 then Inr (SWC, drop (i + 1) tp)
           else Inr (take i tp, drop (i + 1) tp)
      else if c = cMWC
      then if i \<noteq> 0 then Inl EHashLevel else next_loop tp (i + 1) StateMWC cs
      else if c = cSWC
      then if i \<noteq> 0 then Inl EPlusLevel else next_loop tp (i + 1) StateSWC cs
      else if c = cSYS
      then if i = 0 then Inl ESysTopic else next_loop tp (i + 1) StateSYS cs
      else if s = StateMWC \<or> s = StateSWC then Inl EWildLevel
      else next_loop tp (i + 1) StateCHR cs)"

definition nextTopicLevel :: "bytes \<Rightarrow> terror + bytes \<times> bytes" where
  "nextTopicLevel tp = next_loop tp 0 StateCHR tp"

lemma next_loop_shorter:
  "next_loop tp i s cs = Inr (l, r) \<Longrightarrow> cs = drop i tp \<Longrightarrow> tp \<noteq> [] \<Longrightarrow>
   length r < length tp"
proof (induction tp i s cs rule: next_loop.induct)
  case (2 tp i s c cs)
  then have "i < length tp" and "cs = drop (i + 1) tp"
    by (metis drop_eq_Nil list.distinct(1) not_le, metis Suc_eq_plus1 drop_Suc_Cons drop_drop list.sel(3) tl_drop drop_Suc)
  with 2 show ?case by (auto split: if_splits)
qed simp

lemma nextTopicLevel_shorter:
  "nextTopicLevel t = Inr (l, r) \<Longrightarrow> t \<noteq> [] \<Longrightarrow> length r < length t"
  unfolding nextTopicLevel_def by (erule next_loop_shorter) simp_all

section \<open>The levels of a topic\<close>

text \<open>What the recursive operations see of a topic when they consume it to its end.\<close>

function levels :: "bytes \<Rightarrow> terror + bytes list" where
  "levels t =
     (if t = [] then Inr []
      else case nextTopicLevel t of
        Inl e \<Rightarrow> Inl e
      | Inr (l, r) \<Rightarrow> (case levels r of Inl e \<Rightarrow> Inl e | Inr ls \<Rightarrow> Inr (l # ls)))"
  by pat_completeness auto
termination
  by (relation "measure length") (auto dest: nextTopicLevel_shorter)

declare levels.simps [simp del]

lemma levels_Nil [simp]: "levels [] = Inr []"
  by (simp add: levels.simps)

lemma levels_step:
  "t \<noteq> [] \<Longrightarrow> nextTopicLevel t = Inr (l, r) \<Longrightarrow>
   levels t = (case levels r of Inl e \<Rightarrow> Inl e | Inr ls \<Rightarrow> Inr (l # ls))"
  by (subst levels.simps) simp

lemma levels_err: "t \<noteq> [] \<Longrightarrow> nextTopicLevel t = Inl e \<Longrightarrow> levels t = Inl e"
  by (subst levels.simps) simp

lemma levels_Inr_Cons:
  assumes "levels t = Inr ls" and "t \<noteq> []"
  obtains l r ks where "nextTopicLevel t = Inr (l, r)" and "levels r = Inr ks" and "ls = l # ks"
  using assms by (auto simp: levels.simps [of t] split: sum.splits)

section \<open>Joining levels\<close>

text \<open>A plain level has no separator and no wildcard and is not a system level.\<close>

definition plain :: "bytes \<Rightarrow> bool" where
  "plain l \<longleftrightarrow> l \<noteq> [] \<and> cSEP \<notin> set l \<and> cMWC \<notin> set l \<and> cSWC \<notin> set l \<and> hd l \<noteq> cSYS"

fun ok_levels :: "bytes list \<Rightarrow> bool" where
  "ok_levels [] = False"
| "ok_levels [l] = (plain l \<or> l = SWC \<or> l = MWC)"
| "ok_levels (l # ls) = ((plain l \<or> l = SWC) \<and> ok_levels ls)"

fun join :: "bytes list \<Rightarrow> bytes" where
  "join [] = []"
| "join [l] = l"
| "join (l # ls) = l @ cSEP # join ls"

lemma next_loop_plain:
  assumes "cSEP \<notin> set p" "cMWC \<notin> set p" "cSWC \<notin> set p" and "s \<noteq> StateMWC" "s \<noteq> StateSWC"
    and "i = 0 \<longrightarrow> p = [] \<or> hd p \<noteq> cSYS"
  shows "\<exists>s'. s' \<noteq> StateMWC \<and> s' \<noteq> StateSWC \<and> next_loop t i s (p @ r) = next_loop t (i + length p) s' r"
  using assms
proof (induction p arbitrary: i s)
  case (Cons c p)
  let ?s = "if c = cSYS then StateSYS else StateCHR"
  have "next_loop t i s ((c # p) @ r) = next_loop t (Suc i) ?s (p @ r)"
    using Cons.prems by auto
  moreover obtain s' where "s' \<noteq> StateMWC" "s' \<noteq> StateSWC"
    "next_loop t (Suc i) ?s (p @ r) = next_loop t (Suc i + length p) s' r"
  proof -
    have "?s \<noteq> StateMWC" "?s \<noteq> StateSWC" by simp_all
    with Cons.IH [of ?s "Suc i"] Cons.prems that show ?thesis by fastforce
  qed
  ultimately show ?case by (auto simp del: next_loop.simps)
qed auto

lemma nextTopicLevel_plain:
  assumes "plain l"
  shows "nextTopicLevel (l @ cSEP # r) = Inr (l, r)" and "nextTopicLevel l = Inr (l, [])"
proof -
  have l: "l \<noteq> []" "cSEP \<notin> set l" "cMWC \<notin> set l" "cSWC \<notin> set l" "hd l \<noteq> cSYS"
    using assms by (auto simp: plain_def)
  obtain s' where s': "s' \<noteq> StateMWC"
    "next_loop (l @ cSEP # r) 0 StateCHR (l @ cSEP # r) = next_loop (l @ cSEP # r) (length l) s' (cSEP # r)"
    using next_loop_plain [OF l(2-4), of StateCHR 0 "l @ cSEP # r" "cSEP # r"] l by auto
  then show "nextTopicLevel (l @ cSEP # r) = Inr (l, r)" using l by (simp add: nextTopicLevel_def)
  show "nextTopicLevel l = Inr (l, [])"
    using next_loop_plain [OF l(2-4), of StateCHR 0 l "[]"] l by (auto simp: nextTopicLevel_def)
qed

lemma nextTopicLevel_wild:
  "nextTopicLevel (SWC @ cSEP # r) = Inr (SWC, r)" "nextTopicLevel SWC = Inr (SWC, [])"
  "nextTopicLevel MWC = Inr (MWC, [])"
  by (simp_all add: nextTopicLevel_def)

lemma levels_join: "ok_levels ls \<Longrightarrow> levels (join ls) = Inr ls"
proof (induction ls rule: ok_levels.induct)
  case (2 l)
  then show ?case
    using nextTopicLevel_plain(2) [of l] nextTopicLevel_wild
    by (auto simp: levels.simps [of l] plain_def)
next
  case (3 l k ls)
  then have "nextTopicLevel (join (l # k # ls)) = Inr (l, join (k # ls))"
    using nextTopicLevel_plain(1) [of l "join (k # ls)"] nextTopicLevel_wild(1) [of "join (k # ls)"] by auto
  then show ?case using 3 by (subst levels_step) auto
qed simp

text \<open>The multi-level wildcard is never followed by another level.\<close>

lemma next_loop_hash:
  "next_loop t i s cs = Inr (l, r) \<Longrightarrow> l = MWC \<Longrightarrow> cs = drop i t \<Longrightarrow>
   (take i t = MWC \<longrightarrow> s = StateMWC) \<Longrightarrow> r = []"
proof (induction t i s cs rule: next_loop.induct)
  case (2 t i s c cs)
  have i: "cs = drop (i + 1) t" "c = t ! i" "i < length t"
    using "2.prems"(3) by (metis Suc_eq_plus1 drop_Suc list.sel(3) tl_drop)
      (metis "2.prems"(3) drop_eq_Nil hd_drop_conv_nth list.distinct(1) list.sel(1) not_le,
       metis "2.prems"(3) drop_eq_Nil list.distinct(1) not_le)
  then have tk: "take (i + 1) t = take i t @ [c]" by (simp add: take_Suc_conv_app_nth)
  show ?case
    using "2.prems" "2.IH" i tk by (auto split: if_splits simp: append_eq_Cons_conv)
qed simp


lemma nextTopicLevel_hash: "nextTopicLevel t = Inr (MWC, r) \<Longrightarrow> r = []"
  unfolding nextTopicLevel_def by (erule next_loop_hash) simp_all

lemma levels_hash_last:
  "levels t = Inr ls \<Longrightarrow> MWC \<notin> set (butlast ls)"
proof (induction t arbitrary: ls rule: levels.induct)
  case (1 t)
  show ?case
  proof (cases "t = []")
    case False
    obtain l r ks where l: "nextTopicLevel t = Inr (l, r)" "levels r = Inr ks" "ls = l # ks"
      using levels_Inr_Cons [OF "1.prems" False] by blast
    have "MWC \<notin> set (butlast ks)" using "1.IH" [OF False l(1) refl l(2)] .
    then show ?thesis using l nextTopicLevel_hash [of t r] by auto
  qed (use "1.prems" in simp)
qed

end
