(* ===== verification/Topics_Subs.thy ===== *)
theory Topics_Subs imports Topics_Levels begin

text \<open>
  The subscription tree of \<open>tools/surgemq/topics/memtopics.go\<close>: \<open>snode\<close> with its insertion,
  removal and matching. A node's children are a Go map; the model keeps them as an association
  list whose order stands for the order in which the map is iterated. The abstraction \<open>at\<close> reads
  a tree as the table of subscriptions under each filter.
\<close>

section \<open>Subscribers\<close>

text \<open>
  A subscriber is an \<open>interface{}\<close>: its dynamic type (a number) with a number that stands for the
  value. Functions are told apart because \<open>equal\<close> never finds two of them equal: it compares the
  addresses of its own two parameters. The values are of comparable types (the service subscribes
  pointers), on which Go's \<open>==\<close> decides and the type switch that follows it repeats the comparison.
\<close>

datatype iface = IFunc nat nat | IVal nat nat

fun TypeOf :: "iface \<Rightarrow> bool \<times> nat" where
  "TypeOf (IFunc t v) = (True, t)"
| "TypeOf (IVal t v) = (False, t)"

definition equal :: "iface \<Rightarrow> iface \<Rightarrow> bool" where
  "equal k1 k2 =
     (if TypeOf k1 \<noteq> TypeOf k2 then False
      else if fst (TypeOf k1) then False
      else k1 = k2)"

lemma equal_iff: "equal a b \<longleftrightarrow> a = b \<and> \<not> fst (TypeOf a)"
  by (auto simp: equal_def)

section \<open>Nodes and operations\<close>

datatype snode = SNode (node_subs: "iface list") (node_qos: bytes) (node_kids: "(bytes \<times> snode) list")

definition newSNode :: snode where
  "newSNode = SNode [] [] []"

text \<open>The search \<open>for i := range this.subs { if equal(this.subs[i], sub) ... }\<close>.\<close>

fun sub_find :: "iface list \<Rightarrow> iface \<Rightarrow> nat option" where
  "sub_find [] s = None"
| "sub_find (x # xs) s = (if equal x s then Some 0 else map_option Suc (sub_find xs s))"

definition find_kid :: "(bytes \<times> snode) list \<Rightarrow> bytes \<Rightarrow> snode option" where
  "find_kid ks l = map_of ks l"

function sinsert :: "snode \<Rightarrow> bytes \<Rightarrow> byte \<Rightarrow> iface \<Rightarrow> (snode \<times> terror option) option" where
  "sinsert n tp q sub =
     (if tp = []
      then case sub_find (node_subs n) sub of
        Some i \<Rightarrow>
          (if i < length (node_qos n)
           then Some (SNode (node_subs n) ((node_qos n)[i := q]) (node_kids n), None) else None)
      | None \<Rightarrow> Some (SNode (node_subs n @ [sub]) (node_qos n @ [q]) (node_kids n), None)
      else case nextTopicLevel tp of
        Inl e \<Rightarrow> Some (n, Some e)
      | Inr (level, rem) \<Rightarrow>
        (case sinsert (case map_of (node_kids n) level of Some c \<Rightarrow> c | None \<Rightarrow> newSNode) rem q sub of
           None \<Rightarrow> None
         | Some (c, e) \<Rightarrow>
             Some (SNode (node_subs n) (node_qos n) (AList.update level c (node_kids n)), e)))"
  by pat_completeness auto
termination
  by (relation "measure (\<lambda>(n, tp, q, sub). length tp)") (auto dest: nextTopicLevel_shorter)

declare sinsert.simps [simp del]

text \<open>A subscriber of \<^const>\<open>None\<close> is Go's \<open>nil\<close>, the signal to remove all subscribers.\<close>

function sremove :: "snode \<Rightarrow> bytes \<Rightarrow> iface option \<Rightarrow> (snode \<times> terror option) option" where
  "sremove n tp sub =
     (if tp = []
      then case sub of
        None \<Rightarrow> Some (SNode [] [] (node_kids n), None)
      | Some s \<Rightarrow>
        (case sub_find (node_subs n) s of
           Some i \<Rightarrow> do {
             ss \<leftarrow> remove_at i (node_subs n);
             qs \<leftarrow> remove_at i (node_qos n);
             Some (SNode ss qs (node_kids n), None)
           }
         | None \<Rightarrow> Some (n, Some ENoSubscriber))
      else case nextTopicLevel tp of
        Inl e \<Rightarrow> Some (n, Some e)
      | Inr (level, rem) \<Rightarrow>
        (case map_of (node_kids n) level of
           None \<Rightarrow> Some (n, Some ENoTopic)
         | Some c \<Rightarrow>
           (case sremove c rem sub of
              None \<Rightarrow> None
            | Some (c, Some e) \<Rightarrow>
                Some (SNode (node_subs n) (node_qos n) (AList.update level c (node_kids n)), Some e)
            | Some (c, None) \<Rightarrow>
                Some (SNode (node_subs n) (node_qos n)
                  (if node_subs c = [] \<and> node_kids c = [] then AList.delete level (node_kids n)
                   else AList.update level c (node_kids n)), None))))"
  by pat_completeness auto
termination
  by (relation "measure (\<lambda>(n, tp, sub). length tp)") (auto dest: nextTopicLevel_shorter)

declare sremove.simps [simp del]

text \<open>
  The result lists \<open>subs\<close> and \<open>qoss\<close> only grow, so the operations return what they append.
  \<open>this.qos[i]\<close> panics when that slice is the shorter one.
\<close>

type_synonym matches = "iface list \<times> bytes"

fun matchQos :: "byte \<Rightarrow> iface list \<Rightarrow> bytes \<Rightarrow> matches option" where
  "matchQos q [] qs = Some ([], [])"
| "matchQos q (s # ss) [] = None"
| "matchQos q (s # ss) (b # bs) =
     (case matchQos q ss bs of
        None \<Rightarrow> None
      | Some (rs, rq) \<Rightarrow> Some (if q \<le> b then (s # rs, q # rq) else (rs, rq)))"

text \<open>\<open>smatch_kids\<close> is the loop \<open>for k, n := range this.snodes\<close>.\<close>

function smatch :: "snode \<Rightarrow> bytes \<Rightarrow> byte \<Rightarrow> (matches \<times> terror option) option"
  and smatch_kids :: "(bytes \<times> snode) list \<Rightarrow> bytes \<Rightarrow> bytes \<Rightarrow> byte \<Rightarrow> (matches \<times> terror option) option"
where
  "smatch n tp q =
     (if tp = [] then map_option (\<lambda>r. (r, None)) (matchQos q (node_subs n) (node_qos n))
      else case nextTopicLevel tp of
        Inl e \<Rightarrow> Some (([], []), Some e)
      | Inr (level, rem) \<Rightarrow> smatch_kids (node_kids n) level rem q)"
| "smatch_kids [] level rem q = Some (([], []), None)"
| "smatch_kids ((k, n) # ks) level rem q =
     (case (if k = MWC then map_option (\<lambda>r. (r, None)) (matchQos q (node_subs n) (node_qos n))
            else if k = SWC \<or> k = level then smatch n rem q
            else Some (([], []), None)) of
        None \<Rightarrow> None
      | Some (r, Some e) \<Rightarrow> Some (r, Some e)
      | Some ((rs, rq), None) \<Rightarrow>
        (case smatch_kids ks level rem q of
           None \<Rightarrow> None
         | Some ((rs', rq'), e) \<Rightarrow> Some ((rs @ rs', rq @ rq'), e)))"
  by pat_completeness auto
termination
  by (relation "measures [\<lambda>x. case x of Inl (n, tp, q) \<Rightarrow> length tp | Inr (ks, l, r, q) \<Rightarrow> length r,
      \<lambda>x. case x of Inl _ \<Rightarrow> 0 | Inr (ks, l, r, q) \<Rightarrow> Suc (length ks)]")
    (auto dest: nextTopicLevel_shorter)

declare smatch.simps [simp del] smatch_kids.simps [simp del]

section \<open>A tree is a table\<close>

fun at :: "snode \<Rightarrow> bytes list \<Rightarrow> (iface \<times> byte) list" where
  "at n [] = zip (node_subs n) (node_qos n)"
| "at n (l # ls) = (case map_of (node_kids n) l of None \<Rightarrow> [] | Some c \<Rightarrow> at c ls)"

fun wf_snode :: "snode \<Rightarrow> bool" where
  "wf_snode (SNode ss qs ks) \<longleftrightarrow>
     length qs = length ss \<and> distinct (map fst ks) \<and> (\<forall>p \<in> set ks. wf_snode (snd p))"

text \<open>No node but the root is without subscribers and children.\<close>

fun pruned :: "snode \<Rightarrow> bool" where
  "pruned (SNode ss qs ks) \<longleftrightarrow>
     (\<forall>p \<in> set ks. pruned (snd p) \<and> (node_subs (snd p) \<noteq> [] \<or> node_kids (snd p) \<noteq> []))"

text \<open>The update of a table row.\<close>

fun upsert :: "iface \<Rightarrow> byte \<Rightarrow> (iface \<times> byte) list \<Rightarrow> (iface \<times> byte) list" where
  "upsert s q [] = [(s, q)]"
| "upsert s q ((x, b) # r) = (if equal x s then (x, q) # r else (x, b) # upsert s q r)"

fun remove_sub :: "iface \<Rightarrow> (iface \<times> byte) list \<Rightarrow> (iface \<times> byte) list" where
  "remove_sub s [] = []"
| "remove_sub s ((x, b) # r) = (if equal x s then r else (x, b) # remove_sub s r)"

lemma wf_new [simp]: "wf_snode newSNode"
  by (simp add: newSNode_def)

lemma at_new [simp]: "at newSNode ls = []"
  by (cases ls) (simp_all add: newSNode_def)

lemma wf_kid: "wf_snode n \<Longrightarrow> map_of (node_kids n) l = Some c \<Longrightarrow> wf_snode c"
  by (cases n) (auto dest!: map_of_SomeD)

lemma sub_find_None: "sub_find ss s = None \<longleftrightarrow> (\<forall>x \<in> set ss. \<not> equal x s)"
  by (induction ss s rule: sub_find.induct) auto

lemma sub_find_Some: "sub_find ss s = Some i \<Longrightarrow> i < length ss \<and> equal (ss ! i) s"
  by (induction ss s arbitrary: i rule: sub_find.induct) (auto split: if_splits)

lemma upsert_new: "length qs = length ss \<Longrightarrow> sub_find ss s = None \<Longrightarrow> upsert s q (zip ss qs) = zip (ss @ [s]) (qs @ [q])"
  by (induction ss qs rule: list_induct2') (auto split: if_splits)

lemma upsert_old: "length qs = length ss \<Longrightarrow> sub_find ss s = Some i \<Longrightarrow> upsert s q (zip ss qs) = zip ss (qs[i := q])"
  by (induction ss qs arbitrary: i rule: list_induct2') (auto split: if_splits)

lemma remove_sub_zip:
  "length qs = length ss \<Longrightarrow> sub_find ss s = Some i \<Longrightarrow>
   remove_sub s (zip ss qs) = zip (take i ss @ drop (Suc i) ss) (take i qs @ drop (Suc i) qs)"
  by (induction ss qs arbitrary: i rule: list_induct2') (auto split: if_splits)

text \<open>Replacing a child changes the table below it.\<close>

lemma at_update:
  "at (SNode ss qs (AList.update l c ks)) =
     (\<lambda>p. case p of [] \<Rightarrow> zip ss qs | k # r \<Rightarrow> if k = l then at c r else at (SNode ss qs ks) p)"
  by (rule ext) (simp add: AList.update_conv split: list.split)

lemma at_root: "at (SNode ss' qs' ks) = (at (SNode ss qs ks))([] := zip ss' qs')"
proof (rule ext)
  fix p show "at (SNode ss' qs' ks) p = ((at (SNode ss qs ks))([] := zip ss' qs')) p" by (cases p) simp_all
qed

lemma set_update_kids: "set (AList.update l c ks) \<subseteq> insert (l, c) (set ks)"
  by (induction ks) auto

lemma set_delete_kids: "set (AList.delete l ks) \<subseteq> set ks"
  by (auto simp: AList.delete_eq)

lemma wf_update:
  assumes "wf_snode (SNode ss qs ks)" and "wf_snode c"
  shows "wf_snode (SNode ss qs (AList.update l c ks))"
  using assms set_update_kids [of l c ks] AList.distinct_update [of ks l c] by fastforce

lemma wf_delete:
  assumes "wf_snode (SNode ss qs ks)"
  shows "wf_snode (SNode ss qs (AList.delete l ks))"
  using assms set_delete_kids [of l ks] AList.distinct_delete [of ks l] by fastforce

lemma at_delete:
  assumes "distinct (map fst ks)"
  shows "at (SNode ss qs (AList.delete l ks)) =
     (\<lambda>p. case p of [] \<Rightarrow> zip ss qs | k # r \<Rightarrow> if k = l then [] else at (SNode ss qs ks) p)"
  by (rule ext) (simp add: AList.delete_conv split: list.split)

section \<open>Insertion\<close>

lemma sinsert_leaf: "sinsert n [] q s =
  (case sub_find (node_subs n) s of
     Some i \<Rightarrow> (if i < length (node_qos n)
       then Some (SNode (node_subs n) ((node_qos n)[i := q]) (node_kids n), None) else None)
   | None \<Rightarrow> Some (SNode (node_subs n @ [s]) (node_qos n @ [q]) (node_kids n), None))"
  by (subst sinsert.simps) simp

text \<open>The child the walk goes down to, made up if it is missing.\<close>

definition kid :: "snode \<Rightarrow> bytes \<Rightarrow> snode" where
  "kid n l = (case map_of (node_kids n) l of Some c \<Rightarrow> c | None \<Rightarrow> newSNode)"

lemma at_kid: "at (kid n l) ls = at n (l # ls)"
  by (simp add: kid_def split: option.split)

lemma wf_kid': "wf_snode n \<Longrightarrow> wf_snode (kid n l)"
  by (auto simp: kid_def wf_kid split: option.split)

lemma sinsert_step:
  "tp \<noteq> [] \<Longrightarrow> nextTopicLevel tp = Inr (l, r) \<Longrightarrow>
   sinsert n tp q s =
     (case sinsert (kid n l) r q s of None \<Rightarrow> None
      | Some (c, e) \<Rightarrow> Some (SNode (node_subs n) (node_qos n) (AList.update l c (node_kids n)), e))"
  by (subst sinsert.simps) (simp add: kid_def)

lemma sinsert_table:
  assumes "wf_snode n"
  shows "\<exists>n'. sinsert n tp q s = Some (n', case levels tp of Inl e \<Rightarrow> Some e | Inr ls \<Rightarrow> None) \<and>
    wf_snode n' \<and>
    at n' = (case levels tp of Inl e \<Rightarrow> at n | Inr ls \<Rightarrow> (at n)(ls := upsert s q (at n ls)))"
  using assms
proof (induction tp arbitrary: n rule: levels.induct)
  case (1 tp)
  obtain ss qs ks where n: "n = SNode ss qs ks" by (cases n)
  show ?case
  proof (cases "tp = []")
    case True
    have l: "length qs = length ss" using 1(2) n by simp
    show ?thesis
    proof (cases "sub_find ss s")
      case None
      have "at (SNode (ss @ [s]) (qs @ [q]) ks) = (at n)([] := upsert s q (at n []))"
        using at_root [of "ss @ [s]" "qs @ [q]" ks ss qs] by (simp add: n upsert_new [OF l None])
      then show ?thesis using True None 1(2) by (simp add: n sinsert_leaf l fun_upd_def)
    next
      case (Some i)
      have "at (SNode ss (qs[i := q]) ks) = (at n)([] := upsert s q (at n []))"
        using at_root [of ss "qs[i := q]" ks ss qs] by (simp add: n upsert_old [OF l Some])
      then show ?thesis using True Some sub_find_Some [OF Some] 1(2) by (simp add: n sinsert_leaf l fun_upd_def)
    qed
  next
    case False
    show ?thesis
    proof (cases "nextTopicLevel tp")
      case (Inl e)
      then show ?thesis using False 1(2) levels_err [OF False Inl] by (simp add: sinsert.simps)
    next
      case (Inr lr)
      obtain l r where lr: "lr = (l, r)" by (cases lr)
      note nx = Inr [unfolded lr]
      obtain c where c: "sinsert (kid n l) r q s = Some (c, case levels r of Inl e \<Rightarrow> Some e | Inr ls \<Rightarrow> None)"
        "wf_snode c"
        "at c = (case levels r of Inl e \<Rightarrow> at (kid n l) | Inr ls \<Rightarrow> (at (kid n l))(ls := upsert s q (at (kid n l) ls)))"
        using "1.IH" [OF False nx refl wf_kid' [OF 1(2)]] by blast
      let ?n = "SNode ss qs (AList.update l c ks)"
      have eq: "sinsert n tp q s = Some (?n, case levels r of Inl e \<Rightarrow> Some e | Inr ls \<Rightarrow> None)"
        using sinsert_step [OF False nx, of n q s] c(1) n by simp
      have wf: "wf_snode ?n" by (rule wf_update [OF 1(2) [unfolded n] c(2)])
      have a: "at ?n = (\<lambda>p. case p of [] \<Rightarrow> zip ss qs | k # p' \<Rightarrow> if k = l then at c p' else at n p)"
        by (auto simp: at_update n fun_eq_iff split: list.split)
      show ?thesis
      proof (cases "levels r")
        case (Inl e)
        have "at ?n = at n"
          unfolding a by (rule ext) (simp add: c(3) Inl at_kid n split: list.split)
        then show ?thesis using eq wf Inl levels_step [OF False nx] by simp
      next
        case (Inr ls)
        have "at ?n = (at n)(l # ls := upsert s q (at n (l # ls)))"
          unfolding a by (rule ext) (simp add: c(3) Inr at_kid n split: list.split del: at.simps(2))
        then show ?thesis using eq wf Inr levels_step [OF False nx] by (simp add: fun_upd_def)
      qed
    qed
  qed
qed


section \<open>Removal\<close>

lemma sremove_step:
  "tp \<noteq> [] \<Longrightarrow> nextTopicLevel tp = Inr (l, r) \<Longrightarrow> map_of (node_kids n) l = Some c \<Longrightarrow>
   sremove n tp sub =
     (case sremove c r sub of
        None \<Rightarrow> None
      | Some (c, Some e) \<Rightarrow>
          Some (SNode (node_subs n) (node_qos n) (AList.update l c (node_kids n)), Some e)
      | Some (c, None) \<Rightarrow>
          Some (SNode (node_subs n) (node_qos n)
            (if node_subs c = [] \<and> node_kids c = [] then AList.delete l (node_kids n)
             else AList.update l c (node_kids n)), None))"
  by (subst sremove.simps) simp

lemma at_empty: "node_subs c = [] \<Longrightarrow> node_kids c = [] \<Longrightarrow> at c p = []"
  by (cases p) simp_all

text \<open>The outcome of \<open>sremove\<close>, read on the table.\<close>

definition subscribed :: "snode \<Rightarrow> bytes list \<Rightarrow> iface \<Rightarrow> bool" where
  "subscribed n ls s \<longleftrightarrow> (\<exists>x \<in> set (at n ls). equal (fst x) s)"

lemma sub_find_subscribed:
  "length (node_qos n) = length (node_subs n) \<Longrightarrow> sub_find (node_subs n) s = None \<longleftrightarrow> \<not> subscribed n [] s"
proof -
  assume l: "length (node_qos n) = length (node_subs n)"
  have "fst ` set (zip (node_subs n) (node_qos n)) = set (node_subs n)"
    using l by (metis list.set_map map_fst_zip)
  then have "(\<exists>x \<in> set (zip (node_subs n) (node_qos n)). equal (fst x) s) \<longleftrightarrow> (\<exists>x \<in> set (node_subs n). equal x s)"
    by (metis (no_types, lifting) imageE image_eqI)
  then show ?thesis by (simp add: sub_find_None subscribed_def)
qed

lemma sremove_table:
  assumes "wf_snode n"
  shows "\<exists>n' e. sremove n tp (Some s) = Some (n', e) \<and> wf_snode n' \<and>
    (case levels tp of
       Inl _ \<Rightarrow> e \<noteq> None \<and> at n' = at n
     | Inr ls \<Rightarrow> (e = None \<longleftrightarrow> subscribed n ls s) \<and>
         at n' = (if e = None then (at n)(ls := remove_sub s (at n ls)) else at n))"
  using assms
proof (induction tp arbitrary: n rule: levels.induct)
  case (1 tp)
  obtain ss qs ks where n: "n = SNode ss qs ks" by (cases n)
  have len: "length qs = length ss" and dist: "distinct (map fst ks)" using 1(2) n by simp_all
  show ?case
  proof (cases "tp = []")
    case True
    show ?thesis
    proof (cases "sub_find ss s")
      case None
      then show ?thesis
        using True 1(2) sub_find_subscribed [of n s] len by (simp add: n sremove.simps)
    next
      case (Some i)
      let ?ss = "take i ss @ drop (Suc i) ss" and ?qs = "take i qs @ drop (Suc i) qs"
      have i: "i < length ss" using sub_find_Some [OF Some] by simp
      have "sremove n tp (Some s) = Some (SNode ?ss ?qs ks, None)"
        using True Some i len by (simp add: n sremove.simps remove_at_def)
      moreover have "wf_snode (SNode ?ss ?qs ks)" using 1(2) len i by (simp add: n)
      moreover have "at (SNode ?ss ?qs ks) = (at n)([] := remove_sub s (at n []))"
        using at_root [of ?ss ?qs ks ss qs] remove_sub_zip [OF len Some] by (simp add: n)
      moreover have "subscribed n [] s" using sub_find_subscribed [of n s] Some len by (simp add: n)
      ultimately show ?thesis using True by simp
    qed
  next
    case False
    show ?thesis
    proof (cases "nextTopicLevel tp")
      case (Inl e)
      then show ?thesis using False 1(2) levels_err [OF False Inl] by (simp add: sremove.simps)
    next
      case (Inr lr)
      obtain l r where lr: "lr = (l, r)" by (cases lr)
      note nx = Inr [unfolded lr]
      show ?thesis
      proof (cases "map_of ks l")
        case None
        then have "sremove n tp (Some s) = Some (n, Some ENoTopic)"
          using False nx by (simp add: n sremove.simps)
        moreover have "\<not> subscribed n (l # p) s" for p using None by (simp add: n subscribed_def)
        ultimately show ?thesis
          using 1(2) levels_step [OF False nx] by (auto split: sum.split)
      next
        case (Some c0)
        have wc: "wf_snode c0" using wf_kid [OF 1(2)] Some n by simp
        obtain c e where c: "sremove c0 r (Some s) = Some (c, e)" "wf_snode c"
          "case levels r of Inl _ \<Rightarrow> e \<noteq> None \<and> at c = at c0
           | Inr ls \<Rightarrow> (e = None \<longleftrightarrow> subscribed c0 ls s) \<and>
               at c = (if e = None then (at c0)(ls := remove_sub s (at c0 ls)) else at c0)"
          using "1.IH" [OF False nx refl wc] by blast
        let ?u = "SNode ss qs (AList.update l c ks)" and ?d = "SNode ss qs (AList.delete l ks)"
        define n' where "n' = (if e = None \<and> node_subs c = [] \<and> node_kids c = [] then ?d else ?u)"
        have eq: "sremove n tp (Some s) = Some (n', e)"
          using sremove_step [OF False nx, of n c0 "Some s"] c(1) Some by (auto simp: n n'_def split: option.split)
        have wf: "wf_snode n'"
          using wf_update [OF 1(2) [unfolded n] c(2), of l] wf_delete [OF 1(2) [unfolded n], of l]
          by (simp add: n'_def)
        have a: "at n' = (\<lambda>p. case p of [] \<Rightarrow> zip ss qs | k # p' \<Rightarrow> if k = l then at c p' else at n p)"
          using at_empty [of c]
          by (auto simp: n'_def at_update at_delete [OF dist] n fun_eq_iff split: list.split)
        have al: "at n (l # p) = at c0 p" for p using Some by (simp add: n)
        show ?thesis
        proof (cases "levels r")
          case (Inl e')
          have "at n' = at n"
            unfolding a using c(3) Inl Some by (auto simp: n fun_eq_iff split: list.split)
          then show ?thesis using eq wf Inl c(3) levels_step [OF False nx] by simp
        next
          case (Inr ls)
          have sub: "subscribed n (l # ls) s = subscribed c0 ls s" by (simp only: subscribed_def al)
          have "at n' = (if e = None then (at n)(l # ls := remove_sub s (at n (l # ls))) else at n)"
            unfolding a using c(3) Inr Some by (auto simp: n fun_eq_iff split: list.split)
          then show ?thesis using eq wf Inr c(3) levels_step [OF False nx] sub by simp
        qed
      qed
    qed
  qed
qed


section \<open>No empty nodes are kept\<close>

definition bare :: "snode \<Rightarrow> bool" where
  "bare n \<longleftrightarrow> node_subs n = [] \<and> node_kids n = []"

lemma pruned_SNode: "pruned (SNode ss qs ks) \<longleftrightarrow> (\<forall>p \<in> set ks. pruned (snd p) \<and> \<not> bare (snd p))"
  by (simp add: bare_def)

declare pruned.simps [simp del]

lemma pruned_new [simp]: "pruned newSNode"
  by (simp add: newSNode_def pruned_SNode)

lemma pruned_update:
  assumes "pruned (SNode ss qs ks)" and "pruned c" and "\<not> bare c"
  shows "pruned (SNode ss' qs' (AList.update l c ks))"
  using assms set_update_kids [of l c ks] by (fastforce simp: pruned_SNode)

lemma pruned_delete: "pruned (SNode ss qs ks) \<Longrightarrow> pruned (SNode ss' qs' (AList.delete l ks))"
  using set_delete_kids [of l ks] by (fastforce simp: pruned_SNode)

lemma pruned_child: "pruned (SNode ss qs ks) \<Longrightarrow> map_of ks l = Some c \<Longrightarrow> pruned c"
  by (fastforce simp: pruned_SNode dest: map_of_SomeD)

lemma pruned_kid: "pruned n \<Longrightarrow> pruned (kid n l)"
  by (cases n) (auto simp: kid_def pruned_child split: option.split)

lemma update_kids_not_Nil [simp]: "AList.update l c ks \<noteq> []"
  by (cases ks) auto

lemma sinsert_pruned:
  assumes "pruned n" and "sinsert n tp q s = Some (n', None)"
  shows "pruned n' \<and> \<not> bare n'"
  using assms
proof (induction tp arbitrary: n n' rule: levels.induct)
  case (1 tp)
  obtain ss qs ks where n: "n = SNode ss qs ks" by (cases n)
  show ?case
  proof (cases "tp = []")
    case True
    then show ?thesis
      using 1(2,3) sub_find_Some [of ss s]
      by (auto simp: n sinsert_leaf bare_def pruned_SNode split: option.splits if_splits)
  next
    case False
    then obtain l r where nx: "nextTopicLevel tp = Inr (l, r)"
      using 1(3) by (cases "nextTopicLevel tp") (auto simp: sinsert.simps)
    obtain c where c: "sinsert (kid n l) r q s = Some (c, None)"
      "n' = SNode ss qs (AList.update l c ks)"
      using 1(3) sinsert_step [OF False nx, of n q s] by (auto simp: n split: option.splits)
    have "pruned c" "\<not> bare c" using "1.IH" [OF False nx refl pruned_kid [OF 1(2)] c(1)] by simp_all
    then show ?thesis using pruned_update [of ss qs ks c] 1(2) by (simp add: c(2) n bare_def)
  qed
qed

text \<open>The nil subscriber empties the row of the filter, when the filter's node is there.\<close>

lemma sremove_all_table:
  assumes "wf_snode n"
  shows "\<exists>n' e. sremove n tp None = Some (n', e) \<and> wf_snode n' \<and>
    (case levels tp of
       Inl _ \<Rightarrow> e \<noteq> None \<and> at n' = at n
     | Inr ls \<Rightarrow> at n' = (if e = None then (at n)(ls := []) else at n))"
  using assms
proof (induction tp arbitrary: n rule: levels.induct)
  case (1 tp)
  obtain ss qs ks where n: "n = SNode ss qs ks" by (cases n)
  have dist: "distinct (map fst ks)" using 1(2) n by simp
  show ?case
  proof (cases "tp = []")
    case True
    have "at (SNode [] [] ks) = (at n)([] := [])" using at_root [of "[]" "[]" ks ss qs] by (simp add: n)
    then show ?thesis using True 1(2) by (simp add: n sremove.simps)
  next
    case False
    show ?thesis
    proof (cases "nextTopicLevel tp")
      case (Inl e)
      then show ?thesis using False 1(2) levels_err [OF False Inl] by (simp add: sremove.simps)
    next
      case (Inr lr)
      obtain l r where lr: "lr = (l, r)" by (cases lr)
      note nx = Inr [unfolded lr]
      show ?thesis
      proof (cases "map_of ks l")
        case None
        then have "sremove n tp None = Some (n, Some ENoTopic)" using False nx by (simp add: n sremove.simps)
        then show ?thesis using 1(2) levels_step [OF False nx] by (auto split: sum.split)
      next
        case (Some c0)
        have wc: "wf_snode c0" using wf_kid [OF 1(2)] Some n by simp
        obtain c e where c: "sremove c0 r None = Some (c, e)" "wf_snode c"
          "case levels r of Inl _ \<Rightarrow> e \<noteq> None \<and> at c = at c0 | Inr ls \<Rightarrow> at c = (if e = None then (at c0)(ls := []) else at c0)"
          using "1.IH" [OF False nx refl wc] by blast
        let ?u = "SNode ss qs (AList.update l c ks)" and ?d = "SNode ss qs (AList.delete l ks)"
        define n' where "n' = (if e = None \<and> node_subs c = [] \<and> node_kids c = [] then ?d else ?u)"
        have eq: "sremove n tp None = Some (n', e)"
          using sremove_step [OF False nx, of n c0 None] c(1) Some by (auto simp: n n'_def split: option.split)
        have wf: "wf_snode n'"
          using wf_update [OF 1(2) [unfolded n] c(2), of l] wf_delete [OF 1(2) [unfolded n], of l] by (simp add: n'_def)
        have a: "at n' = (\<lambda>p. case p of [] \<Rightarrow> zip ss qs | k # p' \<Rightarrow> if k = l then at c p' else at n p)"
          using at_empty [of c] by (auto simp: n'_def at_update at_delete [OF dist] n fun_eq_iff split: list.split)
        have "case levels tp of Inl _ \<Rightarrow> e \<noteq> None \<and> at n' = at n | Inr ls \<Rightarrow> at n' = (if e = None then (at n)(ls := []) else at n)"
          using c(3) Some levels_step [OF False nx]
          by (cases "levels r"; cases e) (auto simp: a n fun_eq_iff split: list.split)
        then show ?thesis using eq wf by blast
      qed
    qed
  qed
qed

lemma sremove_error_same:
  "sremove n tp sub = Some (n', Some e) \<Longrightarrow> n' = n"
proof (induction tp arbitrary: n n' rule: levels.induct)
  case (1 tp)
  show ?case
  proof (cases "tp = []")
    case True
    then show ?thesis using 1(2) by (auto simp: sremove.simps split: option.splits bind_splits)
  next
    case False
    show ?thesis
    proof (cases "nextTopicLevel tp")
      case (Inl a)
      then show ?thesis using 1(2) False by (simp add: sremove.simps)
    next
      case (Inr lr)
      obtain l r where lr: "lr = (l, r)" by (cases lr)
      note nx = Inr [unfolded lr]
      show ?thesis
      proof (cases "map_of (node_kids n) l")
        case None
        then show ?thesis using 1(2) False nx by (simp add: sremove.simps)
      next
        case (Some c)
        then obtain c' where c': "sremove c r sub = Some (c', Some e)"
          "n' = SNode (node_subs n) (node_qos n) (AList.update l c' (node_kids n))"
          using 1(2) sremove_step [OF False nx Some, of sub] by (auto split: option.splits)
        then have "c' = c" using "1.IH" [OF False nx refl, of c c'] by simp
        then show ?thesis using c' Some by (cases n) (simp add: AList.update_triv)
      qed
    qed
  qed
qed

lemma sremove_pruned:
  assumes "pruned n" and "sremove n tp sub = Some (n', e)"
  shows "pruned n'"
  using assms
proof (induction tp arbitrary: n n' e rule: levels.induct)
  case (1 tp)
  obtain ss qs ks where n: "n = SNode ss qs ks" by (cases n)
  show ?case
  proof (cases "tp = []")
    case True
    then show ?thesis
      using 1(2,3) by (auto simp: n sremove.simps pruned_SNode split: option.splits bind_splits)
  next
    case False
    show ?thesis
    proof (cases e)
      case (Some e')
      then show ?thesis using sremove_error_same [of n tp sub n' e'] 1(2,3) by simp
    next
      case None
      obtain l r where nx: "nextTopicLevel tp = Inr (l, r)"
        using 1(3) False None by (cases "nextTopicLevel tp") (auto simp: sremove.simps)
      obtain c0 where c0: "map_of ks l = Some c0"
        using 1(3) False None nx by (cases "map_of ks l") (auto simp: n sremove.simps)
      obtain c where c: "sremove c0 r sub = Some (c, None)"
        "n' = SNode ss qs (if bare c then AList.delete l ks else AList.update l c ks)"
        using 1(3) sremove_step [OF False nx, of n c0 sub] c0 None
        by (auto simp: n bare_def split: option.splits)
      have "pruned c0" using pruned_child c0 1(2) by (simp add: n)
      then have "pruned c" using "1.IH" [OF False nx refl _ c(1)] by simp
      then show ?thesis
        using c(2) pruned_update [of ss qs ks c] pruned_delete [of ss qs ks] 1(2) by (simp add: n)
    qed
  qed
qed

lemma pruned_all_empty:
  "wf_snode n \<Longrightarrow> pruned n \<Longrightarrow> (\<And>p. at n p = []) \<Longrightarrow> bare n"
proof (induction n)
  case (SNode ss qs ks)
  have "zip ss qs = []" using SNode.prems(3) [of "[]"] by simp
  then have "ss = []" using SNode.prems(1) by (cases ss; cases qs) auto
  moreover have "ks = []"
  proof (rule ccontr)
    assume "ks \<noteq> []"
    then obtain l c r where ks: "ks = (l, c) # r" by (cases ks) auto
    have "at c p = []" for p using SNode.prems(3) [of "l # p"] by (simp add: ks)
    then have "bare c"
      using SNode.IH [of "(l, c)" c] SNode.prems(1,2) by (simp add: ks pruned_SNode)
    then show False using SNode.prems(2) by (simp add: ks pruned_SNode)
  qed
  ultimately show ?case by (simp add: bare_def)
qed

section \<open>Matching\<close>

text \<open>The subscriptions of a tree with their filters, in the order in which it is walked.\<close>

fun entries :: "snode \<Rightarrow> (bytes list \<times> iface \<times> byte) list" where
  "entries (SNode ss qs ks) =
     map (\<lambda>x. ([], x)) (zip ss qs) @
     concat (map (\<lambda>(l, es). map (\<lambda>(p, x). (l # p, x)) es) (map (\<lambda>(l, c). (l, entries c)) ks))"

text \<open>Which filters match a topic name.\<close>

fun fmatch :: "bytes list \<Rightarrow> bytes list \<Rightarrow> bool" where
  "fmatch [] [] = True"
| "fmatch (f # fs) (l # ls) =
     (if f = MWC then fs = [] else (f = SWC \<or> f = l) \<and> fmatch fs ls)"
| "fmatch _ _ = False"

definition receives :: "byte \<Rightarrow> bytes list \<Rightarrow> bytes list \<times> iface \<times> byte \<Rightarrow> bool" where
  "receives q ls e \<longleftrightarrow> fmatch (fst e) ls \<and> q \<le> snd (snd e)"

abbreviation subs_of :: "(bytes list \<times> iface \<times> byte) list \<Rightarrow> iface list" where
  "subs_of es \<equiv> map (\<lambda>e. fst (snd e)) es"

lemma matchQos_zip:
  "length qs = length ss \<Longrightarrow>
   matchQos q ss qs = (let rs = map fst (filter (\<lambda>x. q \<le> snd x) (zip ss qs)) in Some (rs, replicate (length rs) q))"
  by (induction ss qs rule: list_induct2') (auto simp: Let_def)


definition under :: "bytes \<Rightarrow> (bytes list \<times> iface \<times> byte) list \<Rightarrow> (bytes list \<times> iface \<times> byte) list" where
  "under l es = map (\<lambda>(p, x). (l # p, x)) es"

definition kid_entries :: "(bytes \<times> snode) list \<Rightarrow> (bytes list \<times> iface \<times> byte) list" where
  "kid_entries ks = concat (map (\<lambda>(l, c). under l (entries c)) ks)"

lemma entries_SNode:
  "entries (SNode ss qs ks) = map (\<lambda>x. ([], x)) (zip ss qs) @ kid_entries ks"
  by (simp add: kid_entries_def under_def comp_def case_prod_unfold)

declare entries.simps [simp del]

lemma kid_entries_simps [simp]:
  "kid_entries [] = []" "kid_entries ((l, c) # ks) = under l (entries c) @ kid_entries ks"
  by (simp_all add: kid_entries_def)

lemma kid_entries_deep: "e \<in> set (kid_entries ks) \<Longrightarrow> fst e \<noteq> []"
  by (auto simp: kid_entries_def under_def)

lemma fmatch_Nil [simp]: "fmatch p [] \<longleftrightarrow> p = []"
  by (cases p) simp_all

lemma fmatch_hash:
  "MWC \<notin> set p \<Longrightarrow> fmatch (p @ [MWC]) ls = (\<exists>k r. ls = k @ r \<and> r \<noteq> [] \<and> fmatch p k)"
proof (induction p arbitrary: ls)
  case Nil
  have "fmatch [] k \<longleftrightarrow> k = []" for k by (cases k) simp_all
  then show ?case by (cases ls) auto
next
  case (Cons f p)
  show ?case
  proof (cases ls)
    case (Cons l ls')
    have "(\<exists>k r. ls = k @ r \<and> r \<noteq> [] \<and> fmatch (f # p) k) = (\<exists>k r. ls' = k @ r \<and> r \<noteq> [] \<and> fmatch (f # p) (l # k))"
      (is "?L = ?R")
    proof
      assume ?L
      then obtain k r where k: "ls = k @ r" "r \<noteq> []" "fmatch (f # p) k" by blast
      then show ?R by (cases k) (auto simp: Cons)
    next
      assume ?R
      then obtain k r where "ls' = k @ r" "r \<noteq> []" "fmatch (f # p) (l # k)" by blast
      then have "ls = (l # k) @ r \<and> r \<noteq> [] \<and> fmatch (f # p) (l # k)" by (simp add: Cons)
      then show ?L by blast
    qed
    then show ?thesis using Cons.IH [of ls'] Cons.prems by (auto simp: Cons)
  qed simp
qed

lemma filter_root:
  "filter (\<lambda>e. fst e = [] \<and> P (snd e)) (entries (SNode ss qs ks)) = map (\<lambda>x. ([], x)) (filter P (zip ss qs))"
proof -
  have "filter (\<lambda>e. fst e = [] \<and> P (snd e)) (kid_entries ks) = []"
    using kid_entries_deep by (fastforce simp: filter_empty_conv)
  then show ?thesis by (simp add: entries_SNode filter_map comp_def)
qed

lemma matchQos_entries:
  assumes "wf_snode n"
  shows "matchQos q (node_subs n) (node_qos n) =
    (let rs = subs_of (filter (receives q []) (entries n)) in Some (rs, replicate (length rs) q))"
proof -
  obtain ss qs ks where n: "n = SNode ss qs ks" by (cases n)
  have "receives q [] = (\<lambda>e. fst e = [] \<and> q \<le> snd (snd e))" by (simp add: receives_def fun_eq_iff)
  then show ?thesis
    using assms matchQos_zip [of qs ss q] filter_root [of "\<lambda>x. q \<le> snd x" ss qs ks]
    by (simp add: n comp_def Let_def)
qed

lemma filter_under:
  "filter (receives q (l # ls)) (under k es) =
     under k (if k = MWC then filter (receives q []) es
              else if k = SWC \<or> k = l then filter (receives q ls) es else [])"
  by (induction es) (auto simp: under_def receives_def)

lemma subs_of_under [simp]: "subs_of (under k es) = subs_of es"
  by (simp add: under_def comp_def case_prod_unfold)

lemma under_simps [simp]: "length (under k es) = length es" "under k [] = []"
  by (simp_all add: under_def)

definition matched :: "byte \<Rightarrow> bytes list \<Rightarrow> (bytes list \<times> iface \<times> byte) list \<Rightarrow> (matches \<times> terror option) option" where
  "matched q ls es =
     (let rs = subs_of (filter (receives q ls) es) in Some ((rs, replicate (length rs) q), None))"

lemma smatch_kids_entries:
  assumes "\<And>n. wf_snode n \<Longrightarrow> smatch n rem q = matched q ls (entries n)"
    and "\<forall>p \<in> set ks. wf_snode (snd p)"
  shows "smatch_kids ks l rem q = matched q (l # ls) (kid_entries ks)"
  using assms(2)
proof (induction ks)
  case Nil
  then show ?case by (simp add: smatch_kids.simps matched_def)
next
  case (Cons kc ks)
  obtain k c where kc: "kc = (k, c)" by (cases kc)
  have c: "wf_snode c" using Cons.prems kc by simp
  have IH: "smatch_kids ks l rem q = matched q (l # ls) (kid_entries ks)" using Cons by simp
  have head: "(if k = MWC then map_option (\<lambda>r. (r, None)) (matchQos q (node_subs c) (node_qos c))
      else if k = SWC \<or> k = l then smatch c rem q else Some (([], []), None)) =
    matched q (l # ls) (under k (entries c))"
    using assms(1) [OF c] matchQos_entries [OF c, of q]
    by (auto simp: matched_def filter_under Let_def)
  show ?case
    unfolding kc smatch_kids.simps head IH by (simp add: matched_def Let_def replicate_add)
qed

lemma smatch_entries:
  assumes "wf_snode n" and "levels tp = Inr ls"
  shows "smatch n tp q = matched q ls (entries n)"
  using assms
proof (induction tp arbitrary: n ls rule: levels.induct)
  case (1 tp)
  show ?case
  proof (cases "tp = []")
    case True
    then show ?thesis
      using 1(2,3) matchQos_entries [of n q] by (simp add: smatch.simps matched_def Let_def)
  next
    case False
    obtain l r ks where l: "nextTopicLevel tp = Inr (l, r)" "levels r = Inr ks" "ls = l # ks"
      using levels_Inr_Cons [OF 1(3) False] by blast
    obtain ss qs kids where n: "n = SNode ss qs kids" by (cases n)
    have "smatch n tp q = smatch_kids kids l r q" using False l(1) by (simp add: smatch.simps n)
    also have "\<dots> = matched q (l # ks) (kid_entries kids)"
      using "1.IH" [OF False l(1) refl _ l(2)] 1(2) by (intro smatch_kids_entries) (auto simp: n)
    also have "\<dots> = matched q ls (entries n)"
      by (simp add: matched_def n entries_SNode l(3) receives_def filter_False)
    finally show ?thesis .
  qed
qed

lemma entries_at:
  "wf_snode n \<Longrightarrow> (p, x) \<in> set (entries n) \<longleftrightarrow> x \<in> set (at n p)"
proof (induction n arbitrary: p)
  case (SNode ss qs ks)
  show ?case
  proof (cases p)
    case Nil
    then show ?thesis using kid_entries_deep [of "([], x)" ks] by (auto simp: entries_SNode)
  next
    case (Cons l r)
    have dist: "distinct (map fst ks)" using SNode.prems by simp
    have "(p, x) \<in> set (entries (SNode ss qs ks)) \<longleftrightarrow> (\<exists>c. (l, c) \<in> set ks \<and> (r, x) \<in> set (entries c))"
      using Cons by (fastforce simp: entries_SNode kid_entries_def under_def)
    also have "\<dots> \<longleftrightarrow> (\<exists>c. map_of ks l = Some c \<and> x \<in> set (at c r))"
      using SNode.IH SNode.prems dist by (fastforce simp: map_of_eq_Some_iff)
    also have "\<dots> \<longleftrightarrow> x \<in> set (at (SNode ss qs ks) p)" using Cons by (cases "map_of ks l") simp_all
    finally show ?thesis .
  qed
qed

lemma smatch_iff:
  assumes "wf_snode n" and "levels tp = Inr ls"
  shows "\<exists>rs. smatch n tp q = Some ((rs, replicate (length rs) q), None) \<and>
    (\<forall>s. s \<in> set rs \<longleftrightarrow> (\<exists>p b. (s, b) \<in> set (at n p) \<and> fmatch p ls \<and> q \<le> b))"
  using smatch_entries [OF assms, of q] entries_at [OF assms(1)]
  by (force simp: matched_def Let_def receives_def)

end
