(* ===== verification/Topics_Retained.thy ===== *)
theory Topics_Retained imports Topics_Subs begin

text \<open>
  The tree of retained messages of \<open>tools/surgemq/topics/memtopics.go\<close>: \<open>rnode\<close> with its insertion,
  removal and matching. A node keeps the encoded message in a buffer it reuses and a decoded
  message that points into that buffer. The abstraction \<open>rat\<close> reads a tree as the map from topics
  to their retained messages.
\<close>

section \<open>Nodes and operations\<close>

datatype rnode =
  RNode (rn_msg: "publish_message option") (rn_buf: slice) (rn_kids: "(bytes \<times> rnode) list")

definition newRNode :: rnode where
  "newRNode = RNode None (exact []) []"

text \<open>
  The buffer for \<open>l\<close> bytes: a new one if the old one's capacity is too small, else the old one cut
  to that length. A message decoded from the old buffer points into its array, so it sees the
  bytes that are written there next (\<open>realias\<close>).
\<close>

definition reuse_buf :: "slice \<Rightarrow> int \<Rightarrow> slice" where
  "reuse_buf buf l =
     (if l > scap buf then exact (replicate (nat l) 0)
      else Slice (take (nat l) (sfull buf)) (drop (nat l) (sfull buf)))"

definition realias :: "publish_message \<Rightarrow> slice \<Rightarrow> publish_message" where
  "realias m buf =
     (let k = length (sdata (dbuf m))
      in m\<lparr>dbuf := Slice (take k (sfull buf)) (drop k (sfull buf))\<rparr>)"

type_synonym rinsert_result = "((64 word \<times> publish_message) \<times> rnode \<times> terror option) option"

definition rinsert_leaf :: "64 word \<Rightarrow> rnode \<Rightarrow> publish_message \<Rightarrow> rinsert_result" where
  "rinsert_leaf g n m = do {
     (m, l) \<leftarrow> publish_Len m;
     let b = reuse_buf (rn_buf n) l;
     (((g, m), d), _, e) \<leftarrow> publish_Encode g m (sdata b);
     let b = Slice d (sspare b);
     let old = (if l > scap (rn_buf n) then rn_msg n else map_option (\<lambda>x. realias x b) (rn_msg n));
     case e of
       Some e \<Rightarrow> Some ((g, m), RNode old b (rn_kids n), Some (EMessage e))
     | None \<Rightarrow> do {
         (x, _, e) \<leftarrow> publish_Decode (case old of None \<Rightarrow> NewPublishMessage | Some x \<Rightarrow> x) b;
         Some ((g, m), RNode (Some x) b (rn_kids n), map_option EMessage e)
       }
   }"

function rinsert :: "64 word \<Rightarrow> rnode \<Rightarrow> bytes \<Rightarrow> publish_message \<Rightarrow> rinsert_result" where
  "rinsert g n tp m =
     (if tp = [] then rinsert_leaf g n m
      else case nextTopicLevel tp of
        Inl e \<Rightarrow> Some ((g, m), n, Some e)
      | Inr (level, rem) \<Rightarrow>
        (case rinsert g (case map_of (rn_kids n) level of Some c \<Rightarrow> c | None \<Rightarrow> newRNode) rem m of
           None \<Rightarrow> None
         | Some (gm, c, e) \<Rightarrow>
             Some (gm, RNode (rn_msg n) (rn_buf n) (AList.update level c (rn_kids n)), e)))"
  by pat_completeness auto
termination
  by (relation "measure (\<lambda>(g, n, tp, m). length tp)") (auto dest: nextTopicLevel_shorter)

declare rinsert.simps [simp del]

text \<open>After the removal below it, a child with no children of its own is deleted.\<close>

function rremove :: "rnode \<Rightarrow> bytes \<Rightarrow> rnode \<times> terror option" where
  "rremove n tp =
     (if tp = [] then (RNode None (exact []) (rn_kids n), None)
      else case nextTopicLevel tp of
        Inl e \<Rightarrow> (n, Some e)
      | Inr (level, rem) \<Rightarrow>
        (case map_of (rn_kids n) level of
           None \<Rightarrow> (n, Some ENoTopic)
         | Some c \<Rightarrow>
           (case rremove c rem of
              (c, Some e) \<Rightarrow> (RNode (rn_msg n) (rn_buf n) (AList.update level c (rn_kids n)), Some e)
            | (c, None) \<Rightarrow>
                (RNode (rn_msg n) (rn_buf n)
                  (if rn_kids c = [] then AList.delete level (rn_kids n)
                   else AList.update level c (rn_kids n)), None))))"
  by pat_completeness auto
termination
  by (relation "measure (\<lambda>(n, tp). length tp)") (auto dest: nextTopicLevel_shorter)

declare rremove.simps [simp del]

fun allRetained :: "rnode \<Rightarrow> publish_message list" where
  "allRetained (RNode m b ks) =
     (case m of None \<Rightarrow> [] | Some x \<Rightarrow> [x]) @ concat (map (\<lambda>p. allRetained (snd p)) ks)"

text \<open>\<open>rmatch_kids\<close> is the loop over all children for the single-level wildcard.\<close>

function rmatch :: "rnode \<Rightarrow> bytes \<Rightarrow> publish_message list \<times> terror option"
  and rmatch_kids :: "(bytes \<times> rnode) list \<Rightarrow> bytes \<Rightarrow> publish_message list \<times> terror option"
where
  "rmatch n tp =
     (if tp = [] then ((case rn_msg n of None \<Rightarrow> [] | Some x \<Rightarrow> [x]), None)
      else case nextTopicLevel tp of
        Inl e \<Rightarrow> ([], Some e)
      | Inr (level, rem) \<Rightarrow>
          (if level = MWC then (allRetained n, None)
           else if level = SWC then rmatch_kids (rn_kids n) rem
           else case map_of (rn_kids n) level of None \<Rightarrow> ([], None) | Some c \<Rightarrow> rmatch c rem))"
| "rmatch_kids [] rem = ([], None)"
| "rmatch_kids (kc # ks) rem =
     (case rmatch (snd kc) rem of
        (ms, Some e) \<Rightarrow> (ms, Some e)
      | (ms, None) \<Rightarrow> (case rmatch_kids ks rem of (ms', e) \<Rightarrow> (ms @ ms', e)))"
  by pat_completeness auto
termination
  by (relation "measures [\<lambda>x. case x of Inl (n, tp) \<Rightarrow> length tp | Inr (ks, r) \<Rightarrow> length r,
      \<lambda>x. case x of Inl _ \<Rightarrow> 0 | Inr (ks, r) \<Rightarrow> Suc (length ks)]")
    (auto dest: nextTopicLevel_shorter)

declare rmatch.simps [simp del] rmatch_kids.simps [simp del]

section \<open>A tree is a map\<close>

fun rat :: "rnode \<Rightarrow> bytes list \<Rightarrow> publish_message option" where
  "rat n [] = rn_msg n"
| "rat n (l # ls) = (case map_of (rn_kids n) l of None \<Rightarrow> None | Some c \<Rightarrow> rat c ls)"

text \<open>A retained message's type byte is the first byte of the buffer it was decoded from.\<close>

definition stored_ok :: "publish_message \<Rightarrow> bool" where
  "stored_ok x \<longleftrightarrow>
     mtypeflags x = Sub 0 1 \<and> (\<exists>b r. sfull (dbuf x) = b # r \<and> drop_bit 4 b = PUBLISH)"

fun wf_rnode :: "rnode \<Rightarrow> bool" where
  "wf_rnode (RNode m b ks) \<longleftrightarrow>
     (\<forall>x. m = Some x \<longrightarrow> stored_ok x) \<and> distinct (map fst ks) \<and> (\<forall>p \<in> set ks. wf_rnode (snd p))"

lemma rat_new [simp]: "rat newRNode p = None" and wf_rnew [simp]: "wf_rnode newRNode"
  by (cases p) (simp_all add: newRNode_def)

lemma rat_root: "rat (RNode m' b' ks) = (rat (RNode m b ks))([] := m')"
proof (rule ext)
  fix p show "rat (RNode m' b' ks) p = ((rat (RNode m b ks))([] := m')) p" by (cases p) simp_all
qed

lemma rat_update:
  "rat (RNode m b (AList.update l c ks)) =
     (\<lambda>p. case p of [] \<Rightarrow> m | k # r \<Rightarrow> if k = l then rat c r else rat (RNode m b ks) p)"
  by (rule ext) (simp add: AList.update_conv split: list.split)

lemma rat_delete:
  "rat (RNode m b (AList.delete l ks)) =
     (\<lambda>p. case p of [] \<Rightarrow> m | k # r \<Rightarrow> if k = l then None else rat (RNode m b ks) p)"
  by (rule ext) (simp add: AList.delete_conv split: list.split)

lemma set_update_alist: "set (AList.update l c ks) \<subseteq> insert (l, c) (set ks)"
  by (induction ks) auto

lemma wf_rupdate:
  "wf_rnode (RNode m b ks) \<Longrightarrow> wf_rnode c \<Longrightarrow> wf_rnode (RNode m b (AList.update l c ks))"
  using set_update_alist [of l c ks] AList.distinct_update [of ks l c] by fastforce

lemma wf_rdelete: "wf_rnode (RNode m b ks) \<Longrightarrow> wf_rnode (RNode m b (AList.delete l ks))"
  using AList.distinct_delete [of ks l] by (auto simp: AList.delete_eq)

section \<open>Insertion\<close>

text \<open>What a message stands for on the wire: a ready one, or one that was decoded and kept.\<close>

definition carries :: "publish_message \<Rightarrow> publish_message \<Rightarrow> bool" where
  "carries m m0 \<longleftrightarrow>
     publish_ready m0 \<and> (m = m0 \<or> \<not> dirty m \<and> sdata (dbuf m) = publish_wire m0)"

lemma carries_Len:
  assumes "carries m m0"
  shows "\<exists>m'. publish_Len m = Some (m', int (length (publish_wire m0))) \<and>
    (\<forall>g dst. length dst = length (publish_wire m0) \<longrightarrow>
      (\<exists>m''. publish_Encode g m' dst =
         Some (((g, m''), publish_wire m0), int (length (publish_wire m0)), None)))"
proof (cases "m = m0")
  case True
  have r: "publish_ready m0" using assms by (simp add: carries_def)
  show ?thesis
    using publish_Len_ready [OF r] publish_encode_ready [OF publish_ready_settled(1) [OF r]]
      publish_ready_settled(2) [OF r] True by (auto simp: wr_exact)
next
  case False
  then have d: "\<not> dirty m" "sdata (dbuf m) = publish_wire m0" using assms by (simp_all add: carries_def)
  then show ?thesis
    using encode_clean_copy [of m]
    by (auto simp: publish_Len_def publish_Encode_def slen_def wr_exact)
qed

lemma publish_wire_head:
  assumes "publish_ready m0"
  shows "\<exists>b r. publish_wire m0 = b # r \<and> drop_bit 4 b = PUBLISH"
  using assms by (simp add: publish_wire_def hdr_wire_def publish_ready_def publish_body_ok_def pub_typed_def)

lemma reuse_buf_length: "0 \<le> l \<Longrightarrow> length (sdata (reuse_buf buf l)) = nat l"
  by (auto simp: reuse_buf_def exact_def scap_def sfull_def min_def)

lemma rinsert_leaf_table:
  assumes n: "wf_rnode n" and m: "carries m m0"
  shows "\<exists>m' n' x. rinsert_leaf g n m = Some ((g, m'), n', None) \<and> wf_rnode n' \<and>
    rn_kids n' = rn_kids n \<and> rn_msg n' = Some x \<and> publish_same m0 x \<and> \<not> dirty x"
proof -
  obtain msg buf ks where nd: "n = RNode msg buf ks" by (cases n)
  let ?w = "publish_wire m0" and ?l = "int (length (publish_wire m0))"
  have r: "publish_ready m0" using m by (simp add: carries_def)
  obtain m1 where len: "publish_Len m = Some (m1, ?l)"
    and enc: "\<And>g dst. length dst = length ?w \<Longrightarrow>
      \<exists>m''. publish_Encode g m1 dst = Some (((g, m''), ?w), ?l, None)"
    using carries_Len [OF m] by blast
  let ?b = "reuse_buf buf ?l"
  have lb: "length (sdata ?b) = length ?w" using reuse_buf_length [of ?l buf] by simp
  obtain m2 where e: "publish_Encode g m1 (sdata ?b) = Some (((g, m2), ?w), ?l, None)"
    using enc [OF lb] by blast
  let ?b2 = "Slice ?w (sspare ?b)"
  define old where "old = (if ?l > scap buf then msg else map_option (\<lambda>x. realias x ?b2) msg)"
  define h where "h = (case old of None \<Rightarrow> NewPublishMessage | Some x \<Rightarrow> x)"
  obtain bb r where wb: "?w = bb # r" "drop_bit 4 bb = PUBLISH" using publish_wire_head [OF r] by blast
  have "\<exists>b0. deref h (mtypeflags h) = [b0] \<and> drop_bit 4 b0 = PUBLISH"
  proof (cases msg)
    case None
    then show ?thesis using NewPublish_typed(1) by (auto simp: h_def old_def pub_typed_def)
  next
    case (Some y)
    then obtain b r where y: "mtypeflags y = Sub 0 1" "sfull (dbuf y) = b # r" "drop_bit 4 b = PUBLISH"
      using n by (auto simp: nd stored_ok_def)
    show ?thesis
    proof (cases "?l > scap buf")
      case True
      then show ?thesis using Some y by (simp add: h_def old_def)
    next
      case False
      then have "h = realias y ?b2" using Some by (simp add: h_def old_def)
      then show ?thesis using y wb by (simp add: realias_def Let_def sfull_def)
    qed
  qed
  then obtain b0 where b0: "deref h (mtypeflags h) = [b0]" "drop_bit 4 b0 = PUBLISH" by blast
  obtain x where x: "publish_Decode h ?b2 = Some (x, ?l, None)" "publish_same m0 x" "\<not> dirty x"
    "mtypeflags x = Sub 0 1" "dbuf x = ?b2"
    using publish_wire_decode [OF r b0] by blast
  have "stored_ok x" using x wb by (simp add: stored_ok_def sfull_def)
  moreover have "rinsert_leaf g n m = Some ((g, m2), RNode (Some x) ?b2 ks, None)"
    unfolding rinsert_leaf_def nd rnode.sel len bind.bind_lunit prod.case Let_def e
    using x(1) [unfolded h_def old_def] by (simp split del: if_split)
  ultimately show ?thesis using n x by (simp add: nd)
qed

lemma rinsert_table:
  assumes "wf_rnode n" and "carries m m0" and "levels tp = Inr ls"
  shows "\<exists>m' n' x. rinsert g n tp m = Some ((g, m'), n', None) \<and> wf_rnode n' \<and>
    rat n' = (rat n)(ls \<mapsto> x) \<and> publish_same m0 x"
  using assms(1,3)
proof (induction tp arbitrary: n ls rule: levels.induct)
  case (1 tp)
  obtain msg buf ks where n: "n = RNode msg buf ks" by (cases n)
  show ?case
  proof (cases "tp = []")
    case True
    obtain m' n' x where x: "rinsert_leaf g n m = Some ((g, m'), n', None)" "wf_rnode n'"
        "rn_kids n' = rn_kids n" "rn_msg n' = Some x" "publish_same m0 x"
      using rinsert_leaf_table [OF 1(2) assms(2)] by blast
    obtain b' where n': "n' = RNode (Some x) b' ks" using x n by (cases n') simp
    have "rat n' = (rat n)([] \<mapsto> x)" using rat_root [of "Some x" b' ks msg buf] by (simp add: n n')
    moreover have "rinsert g n tp m = Some ((g, m'), n', None)" using True x(1) by (simp add: rinsert.simps)
    moreover have "ls = []" using True 1(3) by simp
    ultimately show ?thesis using x by blast
  next
    case False
    obtain l r ls' where l: "nextTopicLevel tp = Inr (l, r)" "levels r = Inr ls'" "ls = l # ls'"
      using levels_Inr_Cons [OF 1(3) False] by blast
    define c where "c = (case map_of ks l of Some c \<Rightarrow> c | None \<Rightarrow> newRNode)"
    have wc: "wf_rnode c" using 1(2) by (auto simp: c_def n dest!: map_of_SomeD split: option.split)
    have rc: "rat c p = rat n (l # p)" for p by (simp add: c_def n split: option.split)
    obtain m' c' x where x: "rinsert g c r m = Some ((g, m'), c', None)" "wf_rnode c'"
      "rat c' = (rat c)(ls' \<mapsto> x)" "publish_same m0 x"
      using "1.IH" [OF False l(1) refl wc l(2)] by blast
    have "rinsert g n tp m = Some ((g, m'), RNode msg buf (AList.update l c' ks), None)"
      using False l(1) x(1) by (subst rinsert.simps) (simp add: n c_def)
    moreover have "wf_rnode (RNode msg buf (AList.update l c' ks))"
      by (rule wf_rupdate [OF 1(2) [unfolded n] x(2)])
    moreover have "rat (RNode msg buf (AList.update l c' ks)) = (rat n)(ls \<mapsto> x)"
      using rc by (auto simp: rat_update x(3) l(3) n fun_eq_iff split: list.split)
    ultimately show ?thesis using x(4) by blast
  qed
qed

section \<open>Removal\<close>

fun is_prefix :: "bytes list \<Rightarrow> bytes list \<Rightarrow> bool" where
  "is_prefix [] ls = True"
| "is_prefix (p # ps) [] = False"
| "is_prefix (p # ps) (l # ls) = (p = l \<and> is_prefix ps ls)"

lemma rremove_table:
  assumes "wf_rnode n" and "levels tp = Inr ls" and "rremove n tp = (n', None)"
  shows "wf_rnode n' \<and> rat n' ls = None \<and> (\<forall>p. \<not> is_prefix p ls \<longrightarrow> rat n' p = rat n p)"
  using assms
proof (induction tp arbitrary: n n' ls rule: levels.induct)
  case (1 tp)
  obtain msg buf ks where n: "n = RNode msg buf ks" by (cases n)
  show ?case
  proof (cases "tp = []")
    case True
    then show ?thesis
      using 1(2-4) rat_root [of None "exact []" ks msg buf] by (auto simp: n rremove.simps)
  next
    case False
    obtain l r ls' where l: "nextTopicLevel tp = Inr (l, r)" "levels r = Inr ls'" "ls = l # ls'"
      using levels_Inr_Cons [OF 1(3) False] by blast
    obtain c0 where c0: "map_of ks l = Some c0"
      using 1(4) False l(1) by (cases "map_of ks l") (auto simp: n rremove.simps)
    obtain c where c: "rremove c0 r = (c, None)"
      "n' = RNode msg buf (if rn_kids c = [] then AList.delete l ks else AList.update l c ks)"
      using 1(4) False l(1) c0 by (subst (asm) rremove.simps) (auto simp: n split: prod.splits option.splits)
    have "wf_rnode c0" using 1(2) c0 by (auto simp: n dest!: map_of_SomeD)
    then have IH: "wf_rnode c" "rat c ls' = None" "\<And>p. \<not> is_prefix p ls' \<Longrightarrow> rat c p = rat c0 p"
      using "1.IH" [OF False l(1) refl _ l(2) c(1)] by auto
    have wf: "wf_rnode n'"
      using wf_rupdate [OF 1(2) [unfolded n] IH(1), of l] wf_rdelete [OF 1(2) [unfolded n], of l]
      by (simp add: c(2))
    have gone: "rat n' (l # ls') = None" using IH(2) by (simp add: c(2) AList.update_conv AList.delete_conv)
    have "rat n' p = rat n p" if "\<not> is_prefix p ls" for p
    proof (cases p)
      case Nil
      then show ?thesis using that by simp
    next
      case (Cons k q)
      show ?thesis
      proof (cases "k = l")
        case True
        then have nq: "\<not> is_prefix q ls'" using that Cons l(3) by simp
        have "q \<noteq> []" using nq by auto
        then have "rat c q = None" if "rn_kids c = []" using that by (cases q) simp_all
        then show ?thesis
          using IH(3) [OF nq] True Cons c0 by (auto simp: c(2) n AList.update_conv AList.delete_conv)
      next
        case False
        then show ?thesis using Cons by (simp add: c(2) n AList.update_conv AList.delete_conv)
      qed
    qed
    then show ?thesis using wf gone l(3) by blast
  qed
qed


section \<open>Matching\<close>

text \<open>Which topics a filter matches, seen from the retained messages.\<close>

fun rfmatch :: "bytes list \<Rightarrow> bytes list \<Rightarrow> bool" where
  "rfmatch [] p = (p = [])"
| "rfmatch (f # fs) p =
     (f = MWC \<or> (case p of [] \<Rightarrow> False | l # p' \<Rightarrow> (f = SWC \<or> f = l) \<and> rfmatch fs p'))"

fun rentries :: "rnode \<Rightarrow> (bytes list \<times> publish_message) list" where
  "rentries (RNode m b ks) =
     (case m of None \<Rightarrow> [] | Some x \<Rightarrow> [([], x)]) @
     concat (map (\<lambda>kc. map (\<lambda>(p, x). (fst kc # p, x)) (rentries (snd kc))) ks)"

definition kid_rentries :: "(bytes \<times> rnode) list \<Rightarrow> (bytes list \<times> publish_message) list" where
  "kid_rentries ks = concat (map (\<lambda>kc. map (\<lambda>(p, x). (fst kc # p, x)) (rentries (snd kc))) ks)"

lemma rentries_RNode:
  "rentries (RNode m b ks) = (case m of None \<Rightarrow> [] | Some x \<Rightarrow> [([], x)]) @ kid_rentries ks"
  by (simp add: kid_rentries_def)

declare rentries.simps [simp del]

lemma kid_rentries_simps [simp]:
  "kid_rentries [] = []"
  "kid_rentries (kc # ks) = map (\<lambda>(p, x). (fst kc # p, x)) (rentries (snd kc)) @ kid_rentries ks"
  by (simp_all add: kid_rentries_def)

lemma allRetained_entries: "allRetained n = map snd (rentries n)"
proof (induction n)
  case (RNode m b ks)
  have "map snd (kid_rentries ks) = concat (map (\<lambda>p. allRetained (snd p)) ks)"
  proof -
    have "\<forall>kc \<in> set ks. allRetained (snd kc) = map snd (rentries (snd kc))"
      using RNode.IH by (metis prod.collapse snds.intros)
    then show ?thesis by (induction ks) (auto simp: comp_def case_prod_unfold)
  qed
  then show ?case by (simp add: rentries_RNode split: option.split)
qed

definition rmatched :: "bytes list \<Rightarrow> (bytes list \<times> publish_message) list \<Rightarrow> publish_message list" where
  "rmatched ls es = map snd (filter (\<lambda>e. rfmatch ls (fst e)) es)"

lemma rmatched_append [simp]: "rmatched ls (a @ b) = rmatched ls a @ rmatched ls b"
  by (simp add: rmatched_def)

lemma rmatched_under:
  "f \<noteq> MWC \<Longrightarrow> rmatched (f # fs) (map (\<lambda>(p, x). (l # p, x)) es) =
     (if f = SWC \<or> f = l then rmatched fs es else [])"
  by (induction es) (auto simp: rmatched_def)

lemma rmatched_kids:
  assumes "f \<noteq> MWC" and "f \<noteq> SWC" and "distinct (map fst ks)"
  shows "rmatched (f # fs) (kid_rentries ks) =
    (case map_of ks f of None \<Rightarrow> [] | Some c \<Rightarrow> rmatched fs (rentries c))"
proof -
  have none: "rmatched (f # fs) (kid_rentries ks) = []" if "f \<notin> fst ` set ks" for ks :: "(bytes \<times> rnode) list"
    using that assms(1,2) by (induction ks) (auto simp: rmatched_under rmatched_def [of _ "[]"])
  show ?thesis
    using assms(3)
  proof (induction ks)
    case Nil
    then show ?case by (simp add: rmatched_def)
  next
    case (Cons kc ks)
    then show ?case
      using assms(1,2) none [of ks] by (cases "fst kc = f") (auto simp: rmatched_under)
  qed
qed

lemma rmatch_entries:
  assumes "wf_rnode n" and "levels tp = Inr ls"
  shows "rmatch n tp = (rmatched ls (rentries n), None)"
  using assms
proof (induction tp arbitrary: n ls rule: levels.induct)
  case (1 tp)
  obtain m b ks where n: "n = RNode m b ks" by (cases n)
  have kids: "\<forall>p \<in> set ks. wf_rnode (snd p)" and dist: "distinct (map fst ks)" using 1(2) n by simp_all
  show ?case
  proof (cases "tp = []")
    case True
    have "rmatched [] (kid_rentries ks) = []"
      by (auto simp: rmatched_def kid_rentries_def filter_empty_conv)
    then show ?thesis
      using True 1(3) by (simp add: n rmatch.simps rentries_RNode rmatched_def split: option.split)
  next
    case False
    obtain l r ls' where l: "nextTopicLevel tp = Inr (l, r)" "levels r = Inr ls'" "ls = l # ls'"
      using levels_Inr_Cons [OF 1(3) False] by blast
    have IH: "rmatch c r = (rmatched ls' (rentries c), None)" if "wf_rnode c" for c
      using "1.IH" [OF False l(1) refl that l(2)] .
    have root: "rmatched ls (case m of None \<Rightarrow> [] | Some x \<Rightarrow> [([], x)]) = []" if "l \<noteq> MWC"
      using that by (simp add: rmatched_def l(3) split: option.split)
    consider "l = MWC" | "l = SWC" | "l \<noteq> MWC" "l \<noteq> SWC" by blast
    then show ?thesis
    proof cases
      assume "l = MWC"
      then show ?thesis
        using False l by (simp add: rmatch.simps allRetained_entries rmatched_def)
    next
      assume s: "l = SWC"
      have "rmatch_kids ks r = (rmatched (SWC # ls') (kid_rentries ks), None)"
        using kids
      proof (induction ks)
        case Nil
        then show ?case by (simp add: rmatch_kids.simps rmatched_def)
      next
        case (Cons kc ks)
        then show ?case using IH [of "snd kc"] by (simp add: rmatch_kids.simps rmatched_under)
      qed
      then show ?thesis using False l s root by (simp add: rmatch.simps n rentries_RNode)
    next
      assume lit: "l \<noteq> MWC" "l \<noteq> SWC"
      have "rmatch n tp = (case map_of ks l of None \<Rightarrow> ([], None) | Some c \<Rightarrow> rmatch c r)"
        using False l lit by (simp add: rmatch.simps n)
      also have "\<dots> = (rmatched (l # ls') (kid_rentries ks), None)"
        using rmatched_kids [OF lit dist, of ls'] IH kids by (auto dest!: map_of_SomeD split: option.split)
      finally show ?thesis using root lit l(3) by (simp add: n rentries_RNode)
    qed
  qed
qed

lemma rentries_rat:
  "wf_rnode n \<Longrightarrow> (p, x) \<in> set (rentries n) \<longleftrightarrow> rat n p = Some x"
proof (induction n arbitrary: p)
  case (RNode m b ks)
  show ?case
  proof (cases p)
    case Nil
    then show ?thesis by (auto simp: rentries_RNode kid_rentries_def split: option.split)
  next
    case (Cons l r)
    have dist: "distinct (map fst ks)" using RNode.prems by simp
    have "(p, x) \<in> set (rentries (RNode m b ks)) \<longleftrightarrow> (\<exists>c. (l, c) \<in> set ks \<and> (r, x) \<in> set (rentries c))"
    proof -
      have "(p, x) \<in> set (rentries (RNode m b ks)) \<longleftrightarrow> (l # r, x) \<in> set (kid_rentries ks)"
        using Cons by (cases m) (simp_all add: rentries_RNode)
      also have "\<dots> \<longleftrightarrow> (\<exists>c. (l, c) \<in> set ks \<and> (r, x) \<in> set (rentries c))"
        by (force simp: kid_rentries_def)
      finally show ?thesis .
    qed
    also have "\<dots> \<longleftrightarrow> (\<exists>c. map_of ks l = Some c \<and> rat c r = Some x)"
      using RNode.IH RNode.prems dist by (fastforce simp: map_of_eq_Some_iff)
    also have "\<dots> \<longleftrightarrow> rat (RNode m b ks) p = Some x" using Cons by (cases "map_of ks l") simp_all
    finally show ?thesis .
  qed
qed

lemma rmatch_iff:
  assumes "wf_rnode n" and "levels tp = Inr ls"
  shows "\<exists>ms. rmatch n tp = (ms, None) \<and> (\<forall>x. x \<in> set ms \<longleftrightarrow> (\<exists>p. rat n p = Some x \<and> rfmatch ls p))"
  using rmatch_entries [OF assms] rentries_rat [OF assms(1)] by (force simp: rmatched_def)

end
