(* ===== verification/Topics_Mem.thy ===== *)
theory Topics_Mem imports Topics_Retained begin

text \<open>
  The topic store \<open>memTopics\<close> of \<open>tools/surgemq/topics/memtopics.go\<close> and the provider registry of
  \<open>topics.go\<close>. What the broker relies on is the interface \<open>TopicsProvider\<close>: the locales
  \<open>subscription_store\<close> and \<open>topics_provider\<close> state it over a table of subscriptions and a map of
  retained messages, and \<open>memTopics\<close> interprets them with its two trees.
\<close>

section \<open>The store\<close>

definition MaxQosAllowed :: byte where
  "MaxQosAllowed = QosExactlyOnce"

text \<open>\<^const>\<open>None\<close> is the nil root that \<open>Close\<close> leaves.\<close>

record mem_topics =
  sroot :: "snode option"
  rroot :: "rnode option"

definition NewMemProvider :: mem_topics where
  "NewMemProvider = \<lparr>sroot = Some newSNode, rroot = Some newRNode\<rparr>"

text \<open>
  A node method on a nil receiver reports an error of \<open>nextTopicLevel\<close> before it dereferences
  the node, and panics otherwise.
\<close>

definition nil_call :: "bytes \<Rightarrow> terror option" where
  "nil_call tp =
     (if tp = [] then None
      else case nextTopicLevel tp of Inl e \<Rightarrow> Some e | Inr _ \<Rightarrow> None)"

definition mem_Subscribe ::
    "mem_topics \<Rightarrow> bytes \<Rightarrow> byte \<Rightarrow> iface option \<Rightarrow> (mem_topics \<times> byte \<times> terror option) option" where
  "mem_Subscribe s tp q sub =
     (if \<not> ValidQos q then Some (s, QosFailure, Some (ETopicQos q))
      else case sub of
        None \<Rightarrow> Some (s, QosFailure, Some ENilSubscriber)
      | Some x \<Rightarrow>
          let q = (if q > MaxQosAllowed then MaxQosAllowed else q)
          in case sroot s of
               None \<Rightarrow> map_option (\<lambda>e. (s, QosFailure, Some e)) (nil_call tp)
             | Some n \<Rightarrow>
               (case sinsert n tp q x of
                  None \<Rightarrow> None
                | Some (n, Some e) \<Rightarrow> Some (s\<lparr>sroot := Some n\<rparr>, QosFailure, Some e)
                | Some (n, None) \<Rightarrow> Some (s\<lparr>sroot := Some n\<rparr>, q, None)))"

definition mem_Unsubscribe ::
    "mem_topics \<Rightarrow> bytes \<Rightarrow> iface option \<Rightarrow> (mem_topics \<times> terror option) option" where
  "mem_Unsubscribe s tp sub =
     (case sroot s of
        None \<Rightarrow> map_option (\<lambda>e. (s, Some e)) (nil_call tp)
      | Some n \<Rightarrow> map_option (\<lambda>(n, e). (s\<lparr>sroot := Some n\<rparr>, e)) (sremove n tp sub))"

text \<open>The two result slices are emptied before the match fills them.\<close>

definition mem_Subscribers :: "mem_topics \<Rightarrow> bytes \<Rightarrow> byte \<Rightarrow> (matches \<times> terror option) option" where
  "mem_Subscribers s tp q =
     (if \<not> ValidQos q then Some (([], []), Some (ETopicQos q))
      else case sroot s of
        None \<Rightarrow> map_option (\<lambda>e. (([], []), Some e)) (nil_call tp)
      | Some n \<Rightarrow> smatch n tp q)"

text \<open>An empty payload deletes the retained message.\<close>

definition mem_Retain ::
    "64 word \<Rightarrow> mem_topics \<Rightarrow> publish_message \<Rightarrow>
     ((64 word \<times> publish_message) \<times> mem_topics \<times> terror option) option" where
  "mem_Retain g s m =
     (if length (payload m) = 0
      then case rroot s of
        None \<Rightarrow> map_option (\<lambda>e. ((g, m), s, Some e)) (nil_call (topic m))
      | Some n \<Rightarrow> (case rremove n (topic m) of (n, e) \<Rightarrow> Some ((g, m), s\<lparr>rroot := Some n\<rparr>, e))
      else case rroot s of
        None \<Rightarrow> map_option (\<lambda>e. ((g, m), s, Some e)) (nil_call (topic m))
      | Some n \<Rightarrow> map_option (\<lambda>(gm, n, e). (gm, s\<lparr>rroot := Some n\<rparr>, e)) (rinsert g n (topic m) m))"

definition mem_Retained :: "mem_topics \<Rightarrow> bytes \<Rightarrow> (publish_message list \<times> terror option) option" where
  "mem_Retained s tp =
     (case rroot s of
        None \<Rightarrow> map_option (\<lambda>e. ([], Some e)) (nil_call tp)
      | Some n \<Rightarrow> Some (rmatch n tp))"

definition mem_Close :: "mem_topics \<Rightarrow> mem_topics" where
  "mem_Close s = s\<lparr>sroot := None, rroot := None\<rparr>"

section \<open>Rows of the subscription table\<close>

abbreviation comparable :: "iface \<Rightarrow> bool" where
  "comparable x \<equiv> \<not> fst (TypeOf x)"

text \<open>A comparable subscriber is at most once in a row.\<close>

fun row_ok :: "(iface \<times> byte) list \<Rightarrow> bool" where
  "row_ok [] = True"
| "row_ok ((x, b) # r) = ((comparable x \<longrightarrow> x \<notin> fst ` set r) \<and> row_ok r)"

lemma upsert_fst: "fst ` set (upsert x q r) \<subseteq> insert x (fst ` set r)"
  by (induction x q r rule: upsert.induct) (auto simp: equal_iff)

lemma row_ok_upsert: "row_ok r \<Longrightarrow> row_ok (upsert x q r)"
proof (induction x q r rule: upsert.induct)
  case (2 s q x b r)
  then show ?case using upsert_fst [of s q r] by (auto simp: equal_iff)
qed simp

lemma row_ok_remove: "row_ok r \<Longrightarrow> row_ok (remove_sub x r) \<and> fst ` set (remove_sub x r) \<subseteq> fst ` set r"
  by (induction x r rule: remove_sub.induct) auto

lemma upsert_mem:
  "comparable x \<Longrightarrow> row_ok r \<Longrightarrow>
   (y, b) \<in> set (upsert x q r) \<longleftrightarrow> (if y = x then b = q else (y, b) \<in> set r)"
proof (induction x q r rule: upsert.induct)
  case (2 s q x b' r)
  then show ?case by (auto simp: equal_iff rev_image_eqI)
qed auto

lemma remove_mem:
  "comparable x \<Longrightarrow> row_ok r \<Longrightarrow> (y, b) \<in> set (remove_sub x r) \<longleftrightarrow> y \<noteq> x \<and> (y, b) \<in> set r"
proof (induction x r rule: remove_sub.induct)
  case (2 s x b' r)
  then show ?case by (auto simp: equal_iff rev_image_eqI)
qed simp

section \<open>The interface\<close>

locale subscription_store =
  fixes Subscribe :: "'s \<Rightarrow> bytes \<Rightarrow> byte \<Rightarrow> iface option \<Rightarrow> ('s \<times> byte \<times> terror option) option"
    and Unsubscribe :: "'s \<Rightarrow> bytes \<Rightarrow> iface option \<Rightarrow> ('s \<times> terror option) option"
    and Subscribers :: "'s \<Rightarrow> bytes \<Rightarrow> byte \<Rightarrow> (matches \<times> terror option) option"
    and inv :: "'s \<Rightarrow> bool"
    and row :: "'s \<Rightarrow> bytes list \<Rightarrow> (iface \<times> byte) list"
  assumes rows_ok: "inv s \<Longrightarrow> row_ok (row s ls)"
    and subscribe: "inv s \<Longrightarrow> ValidQos q \<Longrightarrow> levels tp = Inr ls \<Longrightarrow>
      \<exists>s'. Subscribe s tp q (Some x) = Some (s', q, None) \<and> inv s' \<and>
           row s' = (row s)(ls := upsert x q (row s ls))"
    and subscribe_bad: "inv s \<Longrightarrow> ValidQos q \<Longrightarrow> levels tp = Inl e \<Longrightarrow>
      \<exists>s'. Subscribe s tp q (Some x) = Some (s', QosFailure, Some e) \<and> inv s' \<and> row s' = row s"
    and unsubscribe: "inv s \<Longrightarrow> levels tp = Inr ls \<Longrightarrow>
      \<exists>s' e. Unsubscribe s tp (Some x) = Some (s', e) \<and> inv s' \<and>
        (e = None \<longleftrightarrow> (\<exists>r \<in> set (row s ls). equal (fst r) x)) \<and>
        row s' = (if e = None then (row s)(ls := remove_sub x (row s ls)) else row s)"
    and subscribers: "inv s \<Longrightarrow> ValidQos q \<Longrightarrow> levels tp = Inr ls \<Longrightarrow>
      \<exists>rs. Subscribers s tp q = Some ((rs, replicate (length rs) q), None) \<and>
        (\<forall>x. x \<in> set rs \<longleftrightarrow> (\<exists>p b. (x, b) \<in> set (row s p) \<and> fmatch p ls \<and> q \<le> b))"
begin

text \<open>A subscription at a sufficient QoS receives what is published under its filter.\<close>

lemma subscribe_receives:
  assumes "inv s" and "ValidQos q" and "levels flt = Inr fs" and "comparable x"
    and "levels tp = Inr ls" and "fmatch fs ls" and "ValidQos p" and "p \<le> q"
  shows "\<exists>s' rs. Subscribe s flt q (Some x) = Some (s', q, None) \<and>
    Subscribers s' tp p = Some ((rs, replicate (length rs) p), None) \<and> x \<in> set rs"
proof -
  obtain s' where s': "Subscribe s flt q (Some x) = Some (s', q, None)" "inv s'"
    "row s' = (row s)(fs := upsert x q (row s fs))" using subscribe [OF assms(1-3)] by blast
  have "(x, q) \<in> set (row s' fs)" using upsert_mem [OF assms(4) rows_ok [OF assms(1)]] s'(3) by simp
  then show ?thesis using subscribers [OF s'(2) assms(7,5)] s'(1) assms(6,8) by blast
qed

text \<open>Subscribing does not change what the others receive, on any topic.\<close>

lemma subscribe_others:
  assumes "inv s" and "ValidQos q" and "levels flt = Inr fs" and "comparable x" and "y \<noteq> x"
    and "levels tp = Inr ls" and "ValidQos p"
  shows "\<exists>s' rs rs' qs qs'. Subscribe s flt q (Some x) = Some (s', q, None) \<and>
    Subscribers s tp p = Some ((rs, qs), None) \<and> Subscribers s' tp p = Some ((rs', qs'), None) \<and>
    (y \<in> set rs' \<longleftrightarrow> y \<in> set rs)"
proof -
  obtain s' where s': "Subscribe s flt q (Some x) = Some (s', q, None)" "inv s'"
    "row s' = (row s)(fs := upsert x q (row s fs))" using subscribe [OF assms(1-3)] by blast
  have "(y, b) \<in> set (row s' k) \<longleftrightarrow> (y, b) \<in> set (row s k)" for b k
    using upsert_mem [OF assms(4) rows_ok [OF assms(1)]] s'(3) assms(5) by simp
  then show ?thesis
    using subscribers [OF s'(2) assms(7,6)] subscribers [OF assms(1,7,6)] s'(1) by auto
qed

text \<open>After it unsubscribes, a subscriber is reached through its other filters only.\<close>

lemma unsubscribe_stops:
  assumes "inv s" and "levels flt = Inr fs" and "comparable x" and "(x, b) \<in> set (row s fs)"
    and "levels tp = Inr ls" and "ValidQos p"
  shows "\<exists>s' rs qs. Unsubscribe s flt (Some x) = Some (s', None) \<and>
    Subscribers s' tp p = Some ((rs, qs), None) \<and>
    (x \<in> set rs \<longleftrightarrow> (\<exists>k c. k \<noteq> fs \<and> (x, c) \<in> set (row s k) \<and> fmatch k ls \<and> p \<le> c))"
proof -
  obtain s' e where s': "Unsubscribe s flt (Some x) = Some (s', e)" "inv s'"
    "e = None \<longleftrightarrow> (\<exists>r \<in> set (row s fs). equal (fst r) x)"
    "row s' = (if e = None then (row s)(fs := remove_sub x (row s fs)) else row s)"
    using unsubscribe [OF assms(1,2)] by blast
  have e: "e = None" using s'(3) assms(3,4) by (force simp: equal_iff)
  have "(x, c) \<in> set (row s' k) \<longleftrightarrow> k \<noteq> fs \<and> (x, c) \<in> set (row s k)" for c k
    using remove_mem [OF assms(3) rows_ok [OF assms(1)]] s'(4) e by simp
  then show ?thesis using subscribers [OF s'(2) assms(6,5)] s'(1) e by auto
qed

end

locale topics_provider = subscription_store Subscribe Unsubscribe Subscribers inv row
  for Subscribe :: "'s \<Rightarrow> bytes \<Rightarrow> byte \<Rightarrow> iface option \<Rightarrow> ('s \<times> byte \<times> terror option) option"
    and Unsubscribe :: "'s \<Rightarrow> bytes \<Rightarrow> iface option \<Rightarrow> ('s \<times> terror option) option"
    and Subscribers :: "'s \<Rightarrow> bytes \<Rightarrow> byte \<Rightarrow> (matches \<times> terror option) option"
    and inv :: "'s \<Rightarrow> bool"
    and row :: "'s \<Rightarrow> bytes list \<Rightarrow> (iface \<times> byte) list" +
  fixes Retain :: "64 word \<Rightarrow> 's \<Rightarrow> publish_message \<Rightarrow>
      ((64 word \<times> publish_message) \<times> 's \<times> terror option) option"
    and Retained :: "'s \<Rightarrow> bytes \<Rightarrow> (publish_message list \<times> terror option) option"
    and kept :: "'s \<Rightarrow> bytes list \<Rightarrow> publish_message option"
  assumes retain: "inv s \<Longrightarrow> carries m m0 \<Longrightarrow> payload m \<noteq> [] \<Longrightarrow> levels (topic m) = Inr ls \<Longrightarrow>
      \<exists>m' s' x. Retain g s m = Some ((g, m'), s', None) \<and> inv s' \<and> row s' = row s \<and>
        kept s' = (kept s)(ls \<mapsto> x) \<and> publish_same m0 x"
    and forget: "inv s \<Longrightarrow> payload m = [] \<Longrightarrow> levels (topic m) = Inr ls \<Longrightarrow>
      \<exists>s' e. Retain g s m = Some ((g, m), s', e) \<and> inv s' \<and> row s' = row s \<and>
        kept s' ls = None \<and> (\<forall>p. \<not> is_prefix p ls \<longrightarrow> kept s' p = kept s p)"
    and retained: "inv s \<Longrightarrow> levels tp = Inr fs \<Longrightarrow>
      \<exists>ms. Retained s tp = Some (ms, None) \<and>
        (\<forall>x. x \<in> set ms \<longleftrightarrow> (\<exists>p. kept s p = Some x \<and> rfmatch fs p))"
begin

text \<open>A retained message is handed to every later subscriber whose filter matches its topic.\<close>

lemma retain_delivers:
  assumes "inv s" and "carries m m0" and "payload m \<noteq> []" and "levels (topic m) = Inr ls"
    and "levels flt = Inr fs" and "rfmatch fs ls"
  shows "\<exists>m' s' ms x. Retain g s m = Some ((g, m'), s', None) \<and>
    Retained s' flt = Some (ms, None) \<and> x \<in> set ms \<and> publish_same m0 x"
  using retain [OF assms(1-4)] retained [OF _ assms(5)] assms(6) by (metis fun_upd_same)

text \<open>An empty payload withdraws the topic's message.\<close>

lemma forget_withdraws:
  assumes "inv s" and "payload m = []" and "levels (topic m) = Inr ls" and "levels flt = Inr fs"
  shows "\<exists>s' e ms. Retain g s m = Some ((g, m), s', e) \<and> Retained s' flt = Some (ms, None) \<and>
    kept s' ls = None \<and> (\<forall>p x. kept s p = Some x \<and> \<not> is_prefix p ls \<and> rfmatch fs p \<longrightarrow> x \<in> set ms)"
  using forget [OF assms(1-3)] retained [OF _ assms(4)] by metis

end

section \<open>The store implements the interface\<close>

definition mem_inv :: "mem_topics \<Rightarrow> bool" where
  "mem_inv s \<longleftrightarrow>
     (\<exists>n r. sroot s = Some n \<and> wf_snode n \<and> (\<forall>ls. row_ok (at n ls)) \<and> rroot s = Some r \<and> wf_rnode r)"

definition mem_row :: "mem_topics \<Rightarrow> bytes list \<Rightarrow> (iface \<times> byte) list" where
  "mem_row s ls = (case sroot s of None \<Rightarrow> [] | Some n \<Rightarrow> at n ls)"

definition mem_kept :: "mem_topics \<Rightarrow> bytes list \<Rightarrow> publish_message option" where
  "mem_kept s ls = (case rroot s of None \<Rightarrow> None | Some n \<Rightarrow> rat n ls)"

lemma mem_new: "mem_inv NewMemProvider" "mem_row NewMemProvider = (\<lambda>_. [])"
  "mem_kept NewMemProvider = (\<lambda>_. None)"
  by (simp_all add: mem_inv_def NewMemProvider_def mem_row_def mem_kept_def fun_eq_iff)

lemma rremove_error_same: "rremove n tp = (n', Some e) \<Longrightarrow> n' = n"
proof (induction tp arbitrary: n n' rule: levels.induct)
  case (1 tp)
  show ?case
  proof (cases "tp = []")
    case True
    then show ?thesis using 1(2) by (simp add: rremove.simps)
  next
    case False
    show ?thesis
    proof (cases "nextTopicLevel tp")
      case (Inl a)
      then show ?thesis using 1(2) False by (simp add: rremove.simps)
    next
      case (Inr lr)
      obtain l r where nx: "nextTopicLevel tp = Inr (l, r)" using Inr by (cases lr) simp
      show ?thesis
      proof (cases "map_of (rn_kids n) l")
        case None
        then show ?thesis using 1(2) False nx by (simp add: rremove.simps)
      next
        case (Some c)
        then obtain c' where c': "rremove c r = (c', Some e)"
          "n' = RNode (rn_msg n) (rn_buf n) (AList.update l c' (rn_kids n))"
          using 1(2) False nx by (subst (asm) rremove.simps) (auto split: prod.splits option.splits)
        then have "c' = c" using "1.IH" [OF False nx refl, of c c'] by simp
        then show ?thesis using c' Some by (cases n) (simp add: AList.update_triv)
      qed
    qed
  qed
qed

lemma rremove_error_absent:
  "rremove n tp = (n', Some e) \<Longrightarrow> levels tp = Inr ls \<Longrightarrow> rat n ls = None"
proof (induction tp arbitrary: n n' ls rule: levels.induct)
  case (1 tp)
  show ?case
  proof (cases "tp = []")
    case True
    then show ?thesis using 1(2) by (simp add: rremove.simps)
  next
    case False
    obtain l r ls' where l: "nextTopicLevel tp = Inr (l, r)" "levels r = Inr ls'" "ls = l # ls'"
      using levels_Inr_Cons [OF 1(3) False] by blast
    show ?thesis
    proof (cases "map_of (rn_kids n) l")
      case None
      then show ?thesis using l by simp
    next
      case (Some c)
      then obtain c' where "rremove c r = (c', Some e)"
        using 1(2) False l(1) by (subst (asm) rremove.simps) (auto split: prod.splits option.splits)
      then show ?thesis using "1.IH" [OF False l(1) refl _ l(2)] Some l(3) by simp
    qed
  qed
qed

interpretation mem: topics_provider mem_Subscribe mem_Unsubscribe mem_Subscribers mem_inv mem_row
  mem_Retain mem_Retained mem_kept
proof
  fix s :: mem_topics and tp and q :: byte and ls and x
  assume s: "mem_inv s"
  obtain n r where n: "sroot s = Some n" "wf_snode n" "\<And>ls. row_ok (at n ls)" "rroot s = Some r" "wf_rnode r"
    using s by (auto simp: mem_inv_def)
  show "row_ok (mem_row s ls)" using n by (simp add: mem_row_def)
  have max: "(if MaxQosAllowed < q then MaxQosAllowed else q) = q" if "ValidQos q"
    using that by (auto simp: ValidQos_def MaxQosAllowed_def)
  {
    assume q: "ValidQos q" and l: "levels tp = Inr ls"
    obtain n' where "sinsert n tp q x = Some (n', None)" "wf_snode n'"
      "at n' = (at n)(ls := upsert x q (at n ls))"
      using sinsert_table [OF n(2), of tp q x] l by auto
    then show "\<exists>s'. mem_Subscribe s tp q (Some x) = Some (s', q, None) \<and> mem_inv s' \<and>
           mem_row s' = (mem_row s)(ls := upsert x q (mem_row s ls))"
      using q n max [OF q] by (simp add: mem_Subscribe_def mem_inv_def mem_row_def row_ok_upsert fun_eq_iff)
  next
    fix e
    assume q: "ValidQos q" and l: "levels tp = Inl e"
    obtain n' where "sinsert n tp q x = Some (n', Some e)" "wf_snode n'" "at n' = at n"
      using sinsert_table [OF n(2), of tp q x] l by auto
    then show "\<exists>s'. mem_Subscribe s tp q (Some x) = Some (s', QosFailure, Some e) \<and> mem_inv s' \<and>
        mem_row s' = mem_row s"
      using q n max [OF q] by (simp add: mem_Subscribe_def mem_inv_def mem_row_def fun_eq_iff)
  next
    assume l: "levels tp = Inr ls"
    obtain n' e where "sremove n tp (Some x) = Some (n', e)" "wf_snode n'"
      "e = None \<longleftrightarrow> subscribed n ls x"
      "at n' = (if e = None then (at n)(ls := remove_sub x (at n ls)) else at n)"
      using sremove_table [OF n(2), of tp x] l by auto
    then show "\<exists>s' e. mem_Unsubscribe s tp (Some x) = Some (s', e) \<and> mem_inv s' \<and>
        (e = None \<longleftrightarrow> (\<exists>r \<in> set (mem_row s ls). equal (fst r) x)) \<and>
        mem_row s' = (if e = None then (mem_row s)(ls := remove_sub x (mem_row s ls)) else mem_row s)"
      using n row_ok_remove by (auto simp: mem_Unsubscribe_def mem_inv_def mem_row_def subscribed_def fun_eq_iff)
  next
    assume q: "ValidQos q" and l: "levels tp = Inr ls"
    show "\<exists>rs. mem_Subscribers s tp q = Some ((rs, replicate (length rs) q), None) \<and>
        (\<forall>x. x \<in> set rs \<longleftrightarrow> (\<exists>p b. (x, b) \<in> set (mem_row s p) \<and> fmatch p ls \<and> q \<le> b))"
      using smatch_iff [OF n(2) l, of q] q n(1) by (simp add: mem_Subscribers_def mem_row_def)
  next
    fix m m0 :: publish_message and g
    assume c: "carries m m0" and p: "payload m \<noteq> []" and l: "levels (topic m) = Inr ls"
    obtain m' r' x where "rinsert g r (topic m) m = Some ((g, m'), r', None)" "wf_rnode r'"
      "rat r' = (rat r)(ls \<mapsto> x)" "publish_same m0 x"
      using rinsert_table [OF n(5) c l] by blast
    then show "\<exists>m' s' x. mem_Retain g s m = Some ((g, m'), s', None) \<and> mem_inv s' \<and> mem_row s' = mem_row s \<and>
        mem_kept s' = (mem_kept s)(ls \<mapsto> x) \<and> publish_same m0 x"
      using p n by (auto simp: mem_Retain_def mem_inv_def mem_row_def mem_kept_def fun_eq_iff)
  next
    fix m :: publish_message and g
    assume p: "payload m = []" and l: "levels (topic m) = Inr ls"
    obtain r' e where r': "rremove r (topic m) = (r', e)" by fastforce
    have "wf_rnode r' \<and> rat r' ls = None \<and> (\<forall>p. \<not> is_prefix p ls \<longrightarrow> rat r' p = rat r p)"
    proof (cases e)
      case None
      then show ?thesis using rremove_table [OF n(5) l] r' by simp
    next
      case (Some e')
      then show ?thesis
        using rremove_error_same [of r "topic m" r' e'] rremove_error_absent [of r "topic m" r' e' ls] r' l n(5)
        by simp
    qed
    then show "\<exists>s' e. mem_Retain g s m = Some ((g, m), s', e) \<and> mem_inv s' \<and> mem_row s' = mem_row s \<and>
        mem_kept s' ls = None \<and> (\<forall>p. \<not> is_prefix p ls \<longrightarrow> mem_kept s' p = mem_kept s p)"
      using p n r' by (auto simp: mem_Retain_def mem_inv_def mem_row_def mem_kept_def fun_eq_iff)
  next
    assume l: "levels tp = Inr ls"
    show "\<exists>ms. mem_Retained s tp = Some (ms, None) \<and>
        (\<forall>x. x \<in> set ms \<longleftrightarrow> (\<exists>p. mem_kept s p = Some x \<and> rfmatch ls p))"
      using rmatch_iff [OF n(5) l] n(4) by (simp add: mem_Retained_def mem_kept_def)
  }
qed

end
