(* ===== verification/Topics_Manager.thy ===== *)
theory Topics_Manager imports Topics_Mem begin

text \<open>
  The provider registry and the manager of \<open>tools/surgemq/topics/topics.go\<close>. A provider is a
  pointer: the registry maps names to addresses, and a manager is the address of its provider, so
  that two managers of one provider share its subscriptions.
\<close>

record topics_world =
  providers :: "string \<Rightarrow> nat option"
  theap :: "nat \<Rightarrow> mem_topics"

text \<open>\<open>Register\<close> panics on a nil provider and on a name that is taken.\<close>

definition topics_Register :: "topics_world \<Rightarrow> string \<Rightarrow> nat option \<Rightarrow> topics_world option" where
  "topics_Register w name provider =
     (case provider of
        None \<Rightarrow> None
      | Some a \<Rightarrow>
          if providers w name \<noteq> None then None else Some (w\<lparr>providers := (providers w)(name \<mapsto> a)\<rparr>))"

definition topics_Unregister :: "topics_world \<Rightarrow> string \<Rightarrow> topics_world" where
  "topics_Unregister w name = w\<lparr>providers := (providers w)(name := None)\<rparr>"

definition topics_NewManager :: "topics_world \<Rightarrow> string \<Rightarrow> terror + nat" where
  "topics_NewManager w name =
     (case providers w name of None \<Rightarrow> Inl (EUnknownProvider name) | Some a \<Rightarrow> Inr a)"

definition mgr_Subscribe ::
    "topics_world \<Rightarrow> nat \<Rightarrow> bytes \<Rightarrow> byte \<Rightarrow> iface option \<Rightarrow> (topics_world \<times> byte \<times> terror option) option" where
  "mgr_Subscribe w a tp q sub =
     map_option (\<lambda>(s, r). (w\<lparr>theap := (theap w)(a := s)\<rparr>, r)) (mem_Subscribe (theap w a) tp q sub)"

definition mgr_Unsubscribe ::
    "topics_world \<Rightarrow> nat \<Rightarrow> bytes \<Rightarrow> iface option \<Rightarrow> (topics_world \<times> terror option) option" where
  "mgr_Unsubscribe w a tp sub =
     map_option (\<lambda>(s, r). (w\<lparr>theap := (theap w)(a := s)\<rparr>, r)) (mem_Unsubscribe (theap w a) tp sub)"

definition mgr_Subscribers :: "topics_world \<Rightarrow> nat \<Rightarrow> bytes \<Rightarrow> byte \<Rightarrow> (matches \<times> terror option) option" where
  "mgr_Subscribers w a tp q = mem_Subscribers (theap w a) tp q"

definition mgr_Retain ::
    "64 word \<Rightarrow> topics_world \<Rightarrow> nat \<Rightarrow> publish_message \<Rightarrow>
     ((64 word \<times> publish_message) \<times> topics_world \<times> terror option) option" where
  "mgr_Retain g w a m =
     map_option (\<lambda>(gm, s, r). (gm, w\<lparr>theap := (theap w)(a := s)\<rparr>, r)) (mem_Retain g (theap w a) m)"

definition mgr_Retained :: "topics_world \<Rightarrow> nat \<Rightarrow> bytes \<Rightarrow> (publish_message list \<times> terror option) option" where
  "mgr_Retained w a tp = mem_Retained (theap w a) tp"

definition mgr_Close :: "topics_world \<Rightarrow> nat \<Rightarrow> topics_world" where
  "mgr_Close w a = w\<lparr>theap := (theap w)(a := mem_Close (theap w a))\<rparr>"

text \<open>A name can be taken once, and a manager of it reaches the provider that took it.\<close>

lemma Register_NewManager:
  assumes "topics_Register w name (Some a) = Some w'"
  shows "topics_NewManager w' name = Inr a" and "topics_Register w' name p = None"
    and "name' \<noteq> name \<Longrightarrow> topics_NewManager w' name' = topics_NewManager w name'"
  using assms by (auto simp: topics_Register_def topics_NewManager_def split: if_splits option.splits)

lemma Unregister_NewManager:
  "topics_NewManager (topics_Unregister w name) name = Inl (EUnknownProvider name)"
  by (simp add: topics_Unregister_def topics_NewManager_def)

text \<open>The managers satisfy the interface, each at its own provider.\<close>

interpretation mgr: subscription_store
  "\<lambda>w. mgr_Subscribe w a" "\<lambda>w. mgr_Unsubscribe w a" "\<lambda>w. mgr_Subscribers w a"
  "\<lambda>w. mem_inv (theap w a)" "\<lambda>w. mem_row (theap w a)" for a
proof
  fix w :: topics_world and tp and q :: byte and ls and x
  assume s: "mem_inv (theap w a)"
  show "row_ok (mem_row (theap w a) ls)" by (rule mem.rows_ok [OF s])
  {
    assume "ValidQos q" and "levels tp = Inr ls"
    from mem.subscribe [OF s this, of x] show "\<exists>w'. mgr_Subscribe w a tp q (Some x) = Some (w', q, None) \<and>
        mem_inv (theap w' a) \<and> mem_row (theap w' a) = (mem_row (theap w a))(ls := upsert x q (mem_row (theap w a) ls))"
      by (auto simp: mgr_Subscribe_def)
  next
    fix e
    assume "ValidQos q" and "levels tp = Inl e"
    from mem.subscribe_bad [OF s this, of x] show "\<exists>w'. mgr_Subscribe w a tp q (Some x) = Some (w', QosFailure, Some e) \<and>
        mem_inv (theap w' a) \<and> mem_row (theap w' a) = mem_row (theap w a)"
      by (auto simp: mgr_Subscribe_def)
  next
    assume "levels tp = Inr ls"
    from mem.unsubscribe [OF s this, of x] show "\<exists>w' e. mgr_Unsubscribe w a tp (Some x) = Some (w', e) \<and>
        mem_inv (theap w' a) \<and> (e = None \<longleftrightarrow> (\<exists>r \<in> set (mem_row (theap w a) ls). equal (fst r) x)) \<and>
        mem_row (theap w' a) = (if e = None
          then (mem_row (theap w a))(ls := remove_sub x (mem_row (theap w a) ls)) else mem_row (theap w a))"
      by (fastforce simp: mgr_Unsubscribe_def)
  next
    assume "ValidQos q" and "levels tp = Inr ls"
    from mem.subscribers [OF s this] show "\<exists>rs. mgr_Subscribers w a tp q = Some ((rs, replicate (length rs) q), None) \<and>
        (\<forall>x. x \<in> set rs \<longleftrightarrow> (\<exists>p b. (x, b) \<in> set (mem_row (theap w a) p) \<and> fmatch p ls \<and> q \<le> b))"
      by (simp add: mgr_Subscribers_def)
  }
qed

end
