(* ===== verification/Props_Topics.thy ===== *)
theory Props_Topics imports Topics_Manager begin

text \<open>
  What makes the topic store correct: the levels of a topic, delivery to the subscribers and of
  retained messages, the invariant of the store over any run of its operations, and the places
  where it departs from its documentation or from MQTT.
\<close>

section \<open>Levels\<close>

text \<open>
  Cutting a topic into levels undoes joining them, for levels without separators, wildcards
  inside a name or a leading \<open>$\<close>, with \<open>+\<close> as a whole level anywhere and \<open>#\<close> as the last.
\<close>

theorem levels_of_join:
  assumes "ok_levels ls"
  shows "levels (join ls) = Inr ls"
  by (rule levels_join [OF assms])

theorem levels_of_join_witness:
  "levels (bytes_of ''a/+/b/#'') = Inr [bytes_of ''a'', bytes_of ''+'', bytes_of ''b'', bytes_of ''#'']"
proof -
  have "levels (join [[97], [43], [98], [35]]) = Inr [[97], [43], [98], [35]]"
    by (rule levels_of_join) (simp add: plain_def)
  then show ?thesis by (simp add: bytes_of_def)
qed

text \<open>
  A topic that starts with the separator has the same levels as the one with \<open>+\<close> before it:
  an empty first level is taken for the single-level wildcard, so a subscription to \<open>/a\<close> also
  receives what is published on \<open>x/a\<close>.
\<close>

theorem leading_separator_is_wildcard:
  "levels (cSEP # r) = levels (SWC @ cSEP # r)"
proof -
  have "nextTopicLevel (cSEP # r) = Inr (SWC, r)" by (simp add: nextTopicLevel_def)
  then have "levels (cSEP # r) = (case levels r of Inl e \<Rightarrow> Inl e | Inr ls \<Rightarrow> Inr (SWC # ls))"
    by (rule levels_step [rotated]) simp
  moreover have "levels (SWC @ cSEP # r) = (case levels r of Inl e \<Rightarrow> Inl e | Inr ls \<Rightarrow> Inr (SWC # ls))"
    by (rule levels_step [OF _ nextTopicLevel_wild(1)]) simp
  ultimately show ?thesis by simp
qed

section \<open>Subscriptions\<close>

lemma lv_a: "levels [97] = Inr [[97]]" and lv_ab: "levels [97, 47, 98] = Inr [[97], [98]]"
  and lv_hash: "levels [97, 47, 35] = Inr [[97], [35]]" and lv_plus: "levels [43, 47, 98] = Inr [[43], [98]]"
  using levels_join [of "[[97]]"] levels_join [of "[[97], [98]]"] levels_join [of "[[97], [35]]"]
    levels_join [of "[[43], [98]]"] by (simp_all add: plain_def)

text \<open>
  The store a run of calls leads to, the calls that report an error included, and whether \<open>Close\<close> is among them.
  What is retained are PUBLISH packets that can be sent, built or received, and empty payloads, which withdraw.
\<close>

inductive mem_reach :: "bool \<Rightarrow> mem_topics \<Rightarrow> bool" where
  new: "mem_reach False NewMemProvider"
| subscribe: "mem_reach c s \<Longrightarrow> mem_Subscribe s tp q sub = Some (s', q', e) \<Longrightarrow> mem_reach c s'"
| unsubscribe: "mem_reach c s \<Longrightarrow> mem_Unsubscribe s tp sub = Some (s', e) \<Longrightarrow> mem_reach c s'"
| retain: "mem_reach c s \<Longrightarrow> carries m m0 \<Longrightarrow> mem_Retain g s m = Some (gm, s', e) \<Longrightarrow> mem_reach c s'"
| forget: "mem_reach c s \<Longrightarrow> payload m = [] \<Longrightarrow> mem_Retain g s m = Some (gm, s', e) \<Longrightarrow> mem_reach c s'"
| close: "mem_reach c s \<Longrightarrow> mem_reach True (mem_Close s)"

lemma rinsert_bad_levels:
  "levels tp = Inl e \<Longrightarrow> wf_rnode n \<Longrightarrow> rinsert g n tp m = Some (gm, n', e') \<Longrightarrow> wf_rnode n'"
proof (induction tp arbitrary: n n' rule: levels.induct)
  case (1 tp)
  have ne: "tp \<noteq> []" using 1(2) by auto
  show ?case
  proof (cases "nextTopicLevel tp")
    case (Inl a)
    then show ?thesis using 1(3,4) ne by (simp add: rinsert.simps)
  next
    case (Inr lr)
    obtain l r where nx: "nextTopicLevel tp = Inr (l, r)" using Inr by (cases lr) simp
    obtain er where r: "levels r = Inl er"
      using 1(2) levels_step [OF ne nx] by (auto split: sum.splits)
    define c where "c = (case map_of (rn_kids n) l of Some c \<Rightarrow> c | None \<Rightarrow> newRNode)"
    have wc: "wf_rnode c" using 1(3) by (cases n) (auto simp: c_def dest!: map_of_SomeD split: option.split)
    obtain c' where c': "rinsert g c r m = Some (gm, c', e')"
      "n' = RNode (rn_msg n) (rn_buf n) (AList.update l c' (rn_kids n))"
      using 1(4) ne nx by (subst (asm) rinsert.simps) (auto simp: c_def split: option.splits)
    have "er = e" using 1(2) levels_step [OF ne nx] r by simp
    then have "wf_rnode c'" using "1.IH" [OF ne nx refl _ wc c'(1)] r by simp
    then show ?thesis
      using 1(3) wf_rupdate [of "rn_msg n" "rn_buf n" "rn_kids n" c' l] c'(2) by (cases n) simp
  qed
qed

lemma rremove_wf:
  "wf_rnode n \<Longrightarrow> rremove n tp = (n', None) \<Longrightarrow> wf_rnode n'"
proof (cases "levels tp")
  case (Inr ls)
  assume "wf_rnode n" "rremove n tp = (n', None)"
  then show ?thesis using rremove_table [OF _ Inr] by blast
next
  case (Inl e)
  have "\<exists>a. snd (rremove n tp) = Some a" for n
    using Inl
  proof (induction tp arbitrary: n rule: levels.induct)
    case (1 tp)
    have ne: "tp \<noteq> []" using 1(2) by auto
    show ?case
    proof (cases "nextTopicLevel tp")
      case (Inr lr)
      obtain l r where nx: "nextTopicLevel tp = Inr (l, r)" using Inr by (cases lr) simp
      have r: "levels r = Inl e" using 1(2) levels_step [OF ne nx] by (auto split: sum.splits)
      show ?thesis
      proof (cases "map_of (rn_kids n) l")
        case (Some c)
        obtain a where "snd (rremove c r) = Some a" using "1.IH" [OF ne nx refl r] by blast
        then show ?thesis using ne nx Some by (cases "rremove c r") (simp add: rremove.simps [of n])
      qed (use ne nx in \<open>simp add: rremove.simps\<close>)
    qed (use ne in \<open>simp add: rremove.simps\<close>)
  qed
  moreover assume "rremove n tp = (n', None)"
  ultimately show ?thesis by (metis option.distinct(1) snd_conv)
qed

text \<open>Each call keeps an open store well formed, and leaves a closed one as it is.\<close>

definition mem_state_ok :: "bool \<Rightarrow> mem_topics \<Rightarrow> bool" where
  "mem_state_ok c s \<longleftrightarrow> (if c then s = \<lparr>sroot = None, rroot = None\<rparr> else mem_inv s)"

lemma mem_Subscribe_inv: "mem_inv s \<Longrightarrow> mem_Subscribe s tp q sub = Some (s', q', e) \<Longrightarrow> mem_inv s'"
proof (cases "ValidQos q \<and> sub \<noteq> None")
  case True
  assume s: "mem_inv s" "mem_Subscribe s tp q sub = Some (s', q', e)"
  obtain x where x: "sub = Some x" "ValidQos q" using True by blast
  show ?thesis
    using mem.subscribe [OF s(1) x(2)] mem.subscribe_bad [OF s(1) x(2)] s(2)[unfolded x]
    by (cases "levels tp") (metis (no_types, lifting) option.inject prod.inject)+
next
  case False
  assume "mem_inv s" "mem_Subscribe s tp q sub = Some (s', q', e)"
  then show ?thesis using False by (auto simp: mem_Subscribe_def split: if_splits option.splits)
qed

lemma mem_Unsubscribe_inv:
  assumes "mem_inv s" and "mem_Unsubscribe s tp sub = Some (s', e)"
  shows "mem_inv s'"
proof -
  obtain n r where n: "sroot s = Some n" "wf_snode n" "\<And>ls. row_ok (at n ls)" "rroot s = Some r" "wf_rnode r"
    using assms(1) by (auto simp: mem_inv_def)
  obtain n' where n': "sremove n tp sub = Some (n', e)" "s' = s\<lparr>sroot := Some n'\<rparr>"
    using assms(2) n(1) by (auto simp: mem_Unsubscribe_def)
  have "wf_snode n' \<and> (\<forall>ls. row_ok (at n' ls))"
  proof (cases sub)
    case None
    then show ?thesis
      using sremove_all_table [OF n(2), of tp] n'(1) n(3) by (auto split: sum.splits if_splits)
  next
    case (Some x)
    then show ?thesis
      using sremove_table [OF n(2), of tp x] n'(1) n(3) row_ok_remove by (auto split: sum.splits if_splits)
  qed
  then show ?thesis using n n'(2) by (simp add: mem_inv_def)
qed

lemma mem_forget_inv:
  assumes "mem_inv s" and "payload m = []" and "mem_Retain g s m = Some (gm, s', e)"
  shows "mem_inv s'"
proof -
  obtain n r where n: "sroot s = Some n" "wf_snode n" "\<And>ls. row_ok (at n ls)" "rroot s = Some r" "wf_rnode r"
    using assms(1) by (auto simp: mem_inv_def)
  then show ?thesis
    using assms(2,3) rremove_wf [of r "topic m"] rremove_error_same [of r "topic m"]
    by (cases "rremove r (topic m)"; cases "snd (rremove r (topic m))") (auto simp: mem_Retain_def mem_inv_def)
qed

lemma mem_Retain_inv:
  assumes "mem_inv s" and "carries m m0" and "mem_Retain g s m = Some (gm, s', e)"
  shows "mem_inv s'"
proof (cases "payload m = []")
  case True
  then show ?thesis by (rule mem_forget_inv [OF assms(1) _ assms(3)])
next
  case False
  obtain n r where n: "sroot s = Some n" "wf_snode n" "\<And>ls. row_ok (at n ls)" "rroot s = Some r" "wf_rnode r"
    using assms(1) by (auto simp: mem_inv_def)
  obtain r' where r': "rinsert g r (topic m) m = Some (gm, r', e)" "s' = s\<lparr>rroot := Some r'\<rparr>"
    using assms(3) n False by (auto simp: mem_Retain_def)
  have "wf_rnode r'"
    using rinsert_table [OF n(5) assms(2)] rinsert_bad_levels [OF _ n(5) r'(1)] r'(1)
    by (cases "levels (topic m)") (metis option.inject prod.inject)+
  then show ?thesis using n r'(2) by (auto simp: mem_inv_def)
qed

lemma mem_reach_ok: "mem_reach c s \<Longrightarrow> mem_state_ok c s"
proof (induction rule: mem_reach.induct)
  case new
  show ?case by (simp add: mem_state_ok_def mem_new)
next
  case (subscribe c s tp q sub s' q' e)
  then show ?case
    using mem_Subscribe_inv [of s tp q sub s' q' e]
    by (auto simp: mem_state_ok_def mem_Subscribe_def split: if_splits option.splits)
next
  case (unsubscribe c s tp sub s' e)
  then show ?case
    using mem_Unsubscribe_inv [of s tp sub s' e] by (auto simp: mem_state_ok_def mem_Unsubscribe_def split: if_splits)
next
  case (retain c s m m0 g gm s' e)
  then show ?case
    using mem_Retain_inv [of s m m0 g gm s' e] by (auto simp: mem_state_ok_def mem_Retain_def split: if_splits)
next
  case (forget c s m g gm s' e)
  then show ?case
    using mem_forget_inv [of s m g gm s' e] by (auto simp: mem_state_ok_def mem_Retain_def split: if_splits)
next
  case (close c s)
  then show ?case by (simp add: mem_state_ok_def mem_Close_def)
qed

text \<open>
  C27: Whatever subscriptions, unsubscriptions (those of the nil subscriber, which empty a filter, included), retained
  and withdrawn messages led to it, calls that report errors included, an open store is well formed: its slices of
  subscribers and QoS are parallel at every node, no level occurs twice among a node's children, no comparable
  subscriber is twice under one filter, and every retained message lies in its node's buffer with the type byte of a
  PUBLISH. \<open>Close\<close> leaves nil roots, and whatever is called after it leaves them nil. The messages retained are
  PUBLISH packets that can be sent, built or received.
\<close>

theorem mem_topics_invariant:
  assumes "mem_reach closed s"
  shows "if closed then s = \<lparr>sroot = None, rroot = None\<rparr> else mem_inv s"
  using mem_reach_ok [OF assms] by (simp add: mem_state_ok_def)

theorem mem_topics_invariant_witness:
  "\<exists>s q e s1 e1 s2 e2. mem_Subscribe NewMemProvider [97] 1 (Some (IVal 0 7)) = Some (s, q, e) \<and> mem_inv s \<and>
     mem_Unsubscribe s [97] None = Some (s1, e1) \<and> mem_inv s1 \<and>
     mem_Unsubscribe (mem_Close s1) [97, 43] None = Some (s2, Some e2) \<and> s2 = \<lparr>sroot = None, rroot = None\<rparr>"
proof -
  obtain s q e where s: "mem_Subscribe NewMemProvider [97] 1 (Some (IVal 0 7)) = Some (s, q, e)"
    using mem.subscribe [OF mem_new(1) _ lv_a, of 1 "IVal 0 7"] by (auto simp: ValidQos_def)
  note r = mem_reach.subscribe [OF mem_reach.new s]
  have i: "mem_inv s" using mem_topics_invariant [OF r] by simp
  then obtain n where n: "sroot s = Some n" "wf_snode n" by (auto simp: mem_inv_def)
  obtain s1 e1 where s1: "mem_Unsubscribe s [97] None = Some (s1, e1)"
    using sremove_all_table [OF n(2), of "[97]"] n(1) by (auto simp: mem_Unsubscribe_def)
  note r1 = mem_reach.unsubscribe [OF r s1]
  have i1: "mem_inv s1" using mem_topics_invariant [OF r1] by simp
  obtain e2 where e2: "mem_Unsubscribe (mem_Close s1) [97, 43] None = Some (mem_Close s1, Some e2)"
    by (auto simp: mem_Unsubscribe_def mem_Close_def nil_call_def nextTopicLevel_def)
  have "mem_Close s1 = \<lparr>sroot = None, rroot = None\<rparr>"
    using mem_topics_invariant [OF mem_reach.unsubscribe [OF mem_reach.close [OF r1] e2]] by simp
  then show ?thesis using s i s1 i1 e2 by blast
qed

text \<open>
  C12: \<open>Subscribers\<close> returns exactly the subscribers with an entry under a filter that matches the
  topic, granted at least the published QoS, each with the published QoS. A filter that ends in the multi-level
  wildcard matches the topics with at least one more level than what stands before it, so not the parent itself: the
  package comment of \<open>topics.go\<close>, for which the wildcard represents the parent and all children levels, says otherwise.
\<close>

theorem subscribers_exact:
  assumes "mem_inv s" and "ValidQos q" and "levels tp = Inr ls"
  shows "(\<exists>rs. mem_Subscribers s tp q = Some ((rs, replicate (length rs) q), None) \<and>
      (\<forall>x. x \<in> set rs \<longleftrightarrow> (\<exists>p b. (x, b) \<in> set (mem_row s p) \<and> fmatch p ls \<and> q \<le> b))) \<and>
    (\<forall>p. MWC \<notin> set p \<longrightarrow> fmatch (p @ [MWC]) ls = (\<exists>k r. ls = k @ r \<and> r \<noteq> [] \<and> fmatch p k))"
  using mem.subscribers [OF assms] fmatch_hash by blast

definition ex_filters :: mem_topics where
  "ex_filters =
     \<lparr>sroot = Some (SNode [] []
        [([97], SNode [IVal 0 7] [1] [(MWC, SNode [IVal 0 8] [2] [])]), (SWC, SNode [IVal 0 9] [2] []), (MWC, SNode [IVal 0 6] [0] []),
         ([98], SNode [IVal 0 5] [2] [])]),
      rroot = Some newRNode\<rparr>"

text \<open>
  Entries under \<open>a\<close>, \<open>a/#\<close>, \<open>+\<close>, \<open>#\<close> and \<open>b\<close>: a publication to \<open>a\<close> at QoS 1 is for the first and the third, since
  \<open>a/#\<close> wants one more level, the fourth was granted QoS 0 only and \<open>b\<close> is another topic.
\<close>

theorem subscribers_exact_witness:
  "\<exists>rs. mem_Subscribers ex_filters [97] 1 = Some ((rs, replicate (length rs) 1), None) \<and> set rs = {IVal 0 7, IVal 0 9}"
proof -
  have row: "mem_row ex_filters p =
      (if p = [[97]] then [(IVal 0 7, 1)] else if p = [[97], MWC] then [(IVal 0 8, 2)] else if p = [SWC] then [(IVal 0 9, 2)]
       else if p = [MWC] then [(IVal 0 6, 0)] else if p = [[98]] then [(IVal 0 5, 2)] else [])" for p
  proof (cases p)
    case (Cons l r)
    then show ?thesis by (cases r; cases "tl r") (simp_all add: mem_row_def ex_filters_def)
  qed (simp add: mem_row_def ex_filters_def)
  have "row_ok (mem_row ex_filters p)" for p by (simp add: row)
  then have inv: "mem_inv ex_filters" by (simp add: mem_inv_def mem_row_def ex_filters_def)
  obtain rs where rs: "mem_Subscribers ex_filters [97] 1 = Some ((rs, replicate (length rs) 1), None)"
      "\<And>x. x \<in> set rs \<longleftrightarrow> (\<exists>p b. (x, b) \<in> set (mem_row ex_filters p) \<and> fmatch p [[97]] \<and> 1 \<le> b)"
    using subscribers_exact [OF inv _ lv_a, of 1] by (auto simp: ValidQos_def)
  have m: "fmatch [[97]] [[97]]" "\<not> fmatch [[97], MWC] [[97]]" "fmatch [SWC] [[97]]" "\<not> fmatch [[98]] [[97]]" by simp_all
  have "x \<in> set rs \<longleftrightarrow> x = IVal 0 7 \<or> x = IVal 0 9" for x
  proof
    assume "x \<in> set rs"
    then obtain p b where "(x, b) \<in> set (mem_row ex_filters p)" "fmatch p [[97]]" "1 \<le> b" unfolding rs(2) by blast
    then show "x = IVal 0 7 \<or> x = IVal 0 9" using m by (auto simp: row split: if_split_asm)
  next
    assume "x = IVal 0 7 \<or> x = IVal 0 9"
    moreover have "(IVal 0 7, 1) \<in> set (mem_row ex_filters [[97]])" "(IVal 0 9, 2) \<in> set (mem_row ex_filters [SWC])"
      by (simp_all add: row)
    ultimately show "x \<in> set rs" unfolding rs(2) using m(1,3) by fastforce
  qed
  then show ?thesis using rs(1) by auto
qed

text \<open>
  After \<open>Subscribe\<close> a comparable subscriber receives everything published at its QoS or below
  on a topic its filter matches, whatever it was subscribed to before.
\<close>

theorem subscribe_then_receive:
  assumes "mem_inv s" and "ValidQos q" and "levels flt = Inr fs" and "comparable x"
    and "levels tp = Inr ls" and "fmatch fs ls" and "ValidQos p" and "p \<le> q"
  shows "\<exists>s' rs. mem_Subscribe s flt q (Some x) = Some (s', q, None) \<and>
    mem_Subscribers s' tp p = Some ((rs, replicate (length rs) p), None) \<and> x \<in> set rs"
  by (rule mem.subscribe_receives [OF assms])

theorem subscribe_then_receive_witness:
  "\<exists>s' rs. mem_Subscribe NewMemProvider [43, 47, 98] 1 (Some (IVal 0 7)) = Some (s', 1, None) \<and>
    mem_Subscribers s' [97, 47, 98] 0 = Some ((rs, replicate (length rs) 0), None) \<and> IVal 0 7 \<in> set rs"
  by (rule subscribe_then_receive [OF mem_new(1) _ lv_plus _ lv_ab]) (simp_all add: ValidQos_def)

text \<open>
  \<open>Subscribe\<close> of one subscriber changes nothing for any other, on any topic.
\<close>

theorem subscribe_keeps_others:
  assumes "mem_inv s" and "ValidQos q" and "levels flt = Inr fs" and "comparable x" and "y \<noteq> x"
    and "levels tp = Inr ls" and "ValidQos p"
  shows "\<exists>s' rs rs' qs qs'. mem_Subscribe s flt q (Some x) = Some (s', q, None) \<and>
    mem_Subscribers s tp p = Some ((rs, qs), None) \<and> mem_Subscribers s' tp p = Some ((rs', qs'), None) \<and>
    (y \<in> set rs' \<longleftrightarrow> y \<in> set rs)"
  by (rule mem.subscribe_others [OF assms])

theorem subscribe_keeps_others_witness:
  "\<exists>s' rs rs' qs qs'. mem_Subscribe NewMemProvider [97] 1 (Some (IVal 0 7)) = Some (s', 1, None) \<and>
    mem_Subscribers NewMemProvider [97] 0 = Some ((rs, qs), None) \<and>
    mem_Subscribers s' [97] 0 = Some ((rs', qs'), None) \<and> (IVal 0 8 \<in> set rs' \<longleftrightarrow> IVal 0 8 \<in> set rs)"
  by (rule subscribe_keeps_others [OF mem_new(1) _ lv_a _ _ lv_a]) (simp_all add: ValidQos_def)

text \<open>
  After \<open>Unsubscribe\<close> a comparable subscriber is reached through its other filters only.
\<close>

theorem unsubscribe_then_silent:
  assumes "mem_inv s" and "levels flt = Inr fs" and "comparable x" and "(x, b) \<in> set (mem_row s fs)"
    and "levels tp = Inr ls" and "ValidQos p"
  shows "\<exists>s' rs qs. mem_Unsubscribe s flt (Some x) = Some (s', None) \<and>
    mem_Subscribers s' tp p = Some ((rs, qs), None) \<and>
    (x \<in> set rs \<longleftrightarrow> (\<exists>k c. k \<noteq> fs \<and> (x, c) \<in> set (mem_row s k) \<and> fmatch k ls \<and> p \<le> c))"
  by (rule mem.unsubscribe_stops [OF assms])

definition ex_store :: mem_topics where
  "ex_store =
     \<lparr>sroot = Some (SNode [] [] [([97], SNode [IVal 0 7] [1] [])]), rroot = Some newRNode\<rparr>"

lemma ex_store_inv: "mem_inv ex_store" "(IVal 0 7, 1) \<in> set (mem_row ex_store [[97]])"
proof -
  have "row_ok (at (SNode [] [] [([97], SNode [IVal 0 7] [1] [])]) ls)" for ls
    by (cases ls; cases "tl ls") auto
  then show "mem_inv ex_store" by (simp add: mem_inv_def ex_store_def)
  show "(IVal 0 7, 1) \<in> set (mem_row ex_store [[97]])" by (simp add: mem_row_def ex_store_def)
qed

theorem unsubscribe_then_silent_witness:
  "\<exists>s' rs qs. mem_Unsubscribe ex_store [97] (Some (IVal 0 7)) = Some (s', None) \<and>
    mem_Subscribers s' [97] 0 = Some ((rs, qs), None) \<and>
    (IVal 0 7 \<in> set rs \<longleftrightarrow>
      (\<exists>k c. k \<noteq> [[97]] \<and> (IVal 0 7, c) \<in> set (mem_row ex_store k) \<and> fmatch k [[97]] \<and> 0 \<le> c))"
  by (rule unsubscribe_then_silent [OF ex_store_inv(1) lv_a _ ex_store_inv(2) lv_a])
    (simp_all add: ValidQos_def)

inductive sub_reach :: "snode \<Rightarrow> bool" where
  new: "sub_reach newSNode"
| insert: "sub_reach n \<Longrightarrow> sinsert n tp q x = Some (n', None) \<Longrightarrow> sub_reach n'"
| remove: "sub_reach n \<Longrightarrow> sremove n tp (Some x) = Some (n', e) \<Longrightarrow> sub_reach n'"

lemma sub_reach_inv: "sub_reach n \<Longrightarrow> wf_snode n \<and> pruned n"
proof (induction rule: sub_reach.induct)
  case (insert n tp q x n')
  then show ?case using sinsert_table [of n tp q x] sinsert_pruned [of n tp q x n'] by auto
next
  case (remove n tp x n' e)
  then show ?case using sremove_table [of n tp x] sremove_pruned [of n tp "Some x" n' e] by auto
qed simp

text \<open>
  The subscription tree keeps no dead nodes as long as no filter is malformed: once the last
  subscription is gone, the root has neither subscribers nor children.
\<close>

theorem last_unsubscribe_frees:
  assumes "sub_reach n" and "\<forall>p. at n p = []"
  shows "node_subs n = [] \<and> node_kids n = []"
  using sub_reach_inv [OF assms(1)] pruned_all_empty [of n] assms(2) by (simp add: bare_def)


lemma ex_tree_reach:
  "\<exists>n n'. sinsert newSNode [97] 1 (IVal 0 7) = Some (n, None) \<and> sub_reach n \<and>
     sremove n [97] (Some (IVal 0 7)) = Some (n', None) \<and> sub_reach n' \<and> (\<forall>p. at n' p = [])"
proof -
  obtain n where n: "sinsert newSNode [97] 1 (IVal 0 7) = Some (n, None)" "wf_snode n"
    "at n = (at newSNode)([[97]] := upsert (IVal 0 7) 1 (at newSNode [[97]]))"
    using sinsert_table [of newSNode "[97]" 1 "IVal 0 7"] lv_a by auto
  obtain n' e where n': "sremove n [97] (Some (IVal 0 7)) = Some (n', e)"
    "e = None \<longleftrightarrow> subscribed n [[97]] (IVal 0 7)"
    "at n' = (if e = None then (at n)([[97]] := remove_sub (IVal 0 7) (at n [[97]])) else at n)"
    using sremove_table [OF n(2), of "[97]" "IVal 0 7"] lv_a by auto
  have row: "at n [[97]] = [(IVal 0 7, 1)]" unfolding n(3) by (simp del: at.simps)
  have e: "e = None" unfolding n'(2) subscribed_def row by (simp add: equal_iff)
  have "\<forall>p. at n' p = []" using n'(3) e row by (simp add: n(3) equal_iff del: at.simps)
  moreover have "sub_reach n" by (rule sub_reach.insert [OF sub_reach.new n(1)])
  ultimately show ?thesis using n(1) n'(1) e sub_reach.remove by blast
qed

theorem last_unsubscribe_frees_witness:
  "\<exists>n n'. sinsert newSNode [97] 1 (IVal 0 7) = Some (n, None) \<and>
     sremove n [97] (Some (IVal 0 7)) = Some (n', None) \<and> node_subs n' = [] \<and> node_kids n' = []"
  using ex_tree_reach last_unsubscribe_frees by blast

text \<open>
  A malformed filter leaves the nodes of its good levels behind: \<open>Subscribe\<close> reports the error
  and the tree has grown by a node without subscribers.
\<close>

theorem bad_filter_leaves_nodes:
  assumes "plain l" and "levels r = Inl e" and "r \<noteq> []"
  shows "\<exists>c. sinsert newSNode (l @ cSEP # r) q x = Some (SNode [] [] [(l, c)], Some e) \<and> (\<forall>p. at c p = [])"
proof -
  have nx: "nextTopicLevel (l @ cSEP # r) = Inr (l, r)" by (rule nextTopicLevel_plain(1) [OF assms(1)])
  have k: "kid newSNode l = newSNode" by (simp add: kid_def newSNode_def)
  have n: "node_subs newSNode = []" "node_qos newSNode = []" "node_kids newSNode = []"
    by (simp_all add: newSNode_def)
  obtain c where c: "sinsert newSNode r q x = Some (c, Some e)" "at c = at newSNode"
    using sinsert_table [of newSNode r q x] assms(2) by auto
  have "sinsert newSNode (l @ cSEP # r) q x = Some (SNode [] [] [(l, c)], Some e)"
    using sinsert_step [OF _ nx, of newSNode q x] c(1) by (simp add: k n)
  then show ?thesis using c(2) by auto
qed

text \<open>
  A subscriber that is a function can never be unsubscribed: \<open>equal\<close> compares the addresses of
  its own parameters, so no two functions are equal.
\<close>

theorem function_subscriber_stays:
  assumes "mem_inv s" and "levels flt = Inr fs"
  shows "\<exists>s' e. mem_Unsubscribe s flt (Some (IFunc t v)) = Some (s', Some e) \<and> mem_row s' = mem_row s"
  using mem.unsubscribe [OF assms, of "IFunc t v"] by (auto simp: equal_iff split: if_splits)

theorem function_subscriber_stays_witness:
  "\<exists>s' e. mem_Unsubscribe NewMemProvider [97] (Some (IFunc 0 1)) = Some (s', Some e) \<and>
     mem_row s' = mem_row NewMemProvider"
  by (rule function_subscriber_stays [OF mem_new(1) lv_a])

text \<open>
  The multi-level wildcard does not cover its parent for subscriptions, although the package
  says that it does and \<open>Retained\<close> treats it so: the filter \<open>f/#\<close> does not match the topic \<open>f\<close>.
\<close>

theorem hash_excludes_parent:
  assumes "MWC \<notin> set ls"
  shows "\<not> fmatch (ls @ [MWC]) ls \<and> rfmatch (ls @ [MWC]) ls"
  using assms by (induction ls) auto

section \<open>Retained messages\<close>

text \<open>
  A PUBLISH that is retained, ready or as it was received, is handed to every later call of
  \<open>Retained\<close> whose filter matches its topic, with the topic, payload, flags and identifier it was
  sent with.
\<close>

theorem retain_then_retained:
  assumes "mem_inv s" and "carries m m0" and "payload m \<noteq> []" and "levels (topic m) = Inr ls"
    and "levels flt = Inr fs" and "rfmatch fs ls"
  shows "\<exists>m' s' ms x. mem_Retain g s m = Some ((g, m'), s', None) \<and>
    mem_Retained s' flt = Some (ms, None) \<and> x \<in> set ms \<and> publish_same m0 x"
  by (rule mem.retain_delivers [OF assms])

definition ex_retained :: publish_message where
  "ex_retained =
     \<lparr>remlen = 0, mtypeflags = Own [0x31], packetId = Own [], dbuf = exact [], dirty = True,
      topic = [97, 47, 98], payload = [1, 2]\<rparr>"

lemma ex_retained_ready: "carries ex_retained ex_retained"
  by (simp add: carries_def publish_ready_def publish_body_ok_def ex_retained_def pub_typed_def type_byte_def
      qos_of_def ValidQos_def ValidTopic_def publish_size_def header_PacketId_def)

lemma ex_match: "rfmatch [[97], [35]] [[97], [98]]"
  by simp

theorem retain_then_retained_witness:
  "\<exists>m' s' ms x. mem_Retain 0 NewMemProvider ex_retained = Some ((0, m'), s', None) \<and>
    mem_Retained s' [97, 47, 35] = Some (ms, None) \<and> x \<in> set ms \<and> publish_same ex_retained x"
  by (rule retain_then_retained [OF mem_new(1) ex_retained_ready _ _ lv_hash ex_match])
    (simp_all add: ex_retained_def lv_ab)

text \<open>
  Withdrawing the retained message of \<open>a/b\<close> also drops the one of \<open>a\<close> when \<open>a\<close> has no other
  topic below it: \<open>rremove\<close> deletes a node without children whether or not it holds a message.
\<close>

theorem forget_drops_parent:
  assumes "plain a" and "plain b"
  shows "rremove (RNode None buf [(a, RNode (Some x) b1 [(b, RNode (Some y) b2 [])])]) (a @ cSEP # b) =
    (RNode None buf [], None)"
proof -
  have b: "b \<noteq> []" using assms(2) by (auto simp: plain_def)
  have 1: "nextTopicLevel (a @ cSEP # b) = Inr (a, b)" "nextTopicLevel b = Inr (b, [])"
    using nextTopicLevel_plain [OF assms(1)] nextTopicLevel_plain [OF assms(2)] by auto
  have "rremove (RNode (Some y) b2 []) [] = (RNode None (exact []) [], None)" by (simp add: rremove.simps)
  then have "rremove (RNode (Some x) b1 [(b, RNode (Some y) b2 [])]) b = (RNode (Some x) b1 [], None)"
    using b 1(2) by (subst rremove.simps) simp
  then show ?thesis using 1(1) by (subst rremove.simps) simp
qed

theorem forget_drops_parent_witness:
  "rremove (RNode None (exact []) [([97], RNode (Some ex_retained) (exact [])
      [([98], RNode (Some ex_retained) (exact []) [])])]) ([97] @ cSEP # [98]) =
    (RNode None (exact []) [], None)"
  by (rule forget_drops_parent) (simp_all add: plain_def)

theorem hash_excludes_parent_witness:
  "\<not> fmatch ([[97]] @ [MWC]) [[97]] \<and> rfmatch ([[97]] @ [MWC]) [[97]]"
  by (rule hash_excludes_parent) simp

theorem bad_filter_leaves_nodes_witness:
  "\<exists>c. sinsert newSNode ([97] @ cSEP # [36]) 0 (IVal 0 1) = Some (SNode [] [] [([97], c)], Some ESysTopic) \<and>
     (\<forall>p. at c p = [])"
proof (rule bad_filter_leaves_nodes)
  have "nextTopicLevel [36] = Inl ESysTopic" by (simp add: nextTopicLevel_def)
  then show "levels [36] = Inl ESysTopic" by (rule levels_err [rotated]) simp
qed (simp_all add: plain_def)

end
