(* ===== verification/Sess_Pow2.thy ===== *)
theory Sess_Pow2 imports Prelude begin

text \<open>
  The index arithmetic of the ring buffers in \<open>tools/surgemq/sessions/ackqueue.go\<close> and
  \<open>tools/surgemq/service/buffer.go\<close>: sizes are powers of two, an index is a sequence number with
  the bits of the mask. Go's \<open>int64\<close> is \<^typ>\<open>64 word\<close>, with \<open>sint\<close> where its sign matters.
\<close>

type_synonym int64 = "64 word"

definition powerOfTwo64 :: "int64 \<Rightarrow> bool" where
  "powerOfTwo64 n \<longleftrightarrow> n \<noteq> 0 \<and> n AND (n - 1) = 0"

definition roundUpPowerOfTwo64 :: "int64 \<Rightarrow> int64" where
  "roundUpPowerOfTwo64 n =
     (let n = n - 1;
          n = n OR signed_drop_bit 1 n;
          n = n OR signed_drop_bit 2 n;
          n = n OR signed_drop_bit 4 n;
          n = n OR signed_drop_bit 8 n;
          n = n OR signed_drop_bit 16 n;
          n = n OR signed_drop_bit 32 n
      in n + 1)"

section \<open>Which numbers are powers of two\<close>

lemma and_odd_even: "(2 * m + 1) AND (2 * m) = 2 * (m :: nat)"
  by (subst and_rec) simp

lemma nat_power_of_two_iff: "n \<noteq> 0 \<and> n AND (n - 1) = 0 \<longleftrightarrow> (\<exists>k. n = 2 ^ k)" for n :: nat
proof (induction n rule: less_induct)
  case (less n)
  consider "n = 0" | "n = 1" | m where "n = 2 * m + 1" "m > 0" | m where "n = 2 * m" "m > 0"
    by (metis One_nat_def add_0 gr0I mult_0_right oddE evenE)
  then show ?case
  proof cases
    case (3 m)
    have "(2 * m + 1) AND (2 * m) = 2 * m"
      by (rule and_odd_even)
    moreover have "2 * m + 1 \<noteq> 2 ^ k" for k
    proof
      assume a: "2 * m + 1 = 2 ^ k"
      then have "odd ((2::nat) ^ k)" by (metis even_plus_one_iff dvd_triv_left)
      then have "k = 0" by simp
      then show False using a 3 by simp
    qed
    ultimately show ?thesis using 3 by simp
  next
    case (4 m)
    have "(2 * m) AND (2 * m - 1) = 2 * (m AND (m - 1))"
    proof -
      obtain j where j: "m = Suc j" using 4 by (cases m) auto
      show ?thesis unfolding j by (subst and_rec) simp
    qed
    moreover have "(\<exists>k. m = 2 ^ k) \<longleftrightarrow> (\<exists>k. 2 * m = 2 ^ k)"
    proof
      assume "\<exists>k. 2 * m = 2 ^ k"
      then obtain k where k: "2 * m = 2 ^ k" by blast
      then obtain j where "k = Suc j" by (cases k) auto
      then show "\<exists>k. m = 2 ^ k" using k by auto
    qed (metis power_Suc)
    ultimately show ?thesis using less.IH [of m] 4 by auto
  qed (auto intro: exI [of _ 0])
qed

lemma powerOfTwo64_iff: "powerOfTwo64 n \<longleftrightarrow> (\<exists>k < 64. unat n = 2 ^ k)"
proof -
  have "powerOfTwo64 n \<longleftrightarrow> unat n \<noteq> 0 \<and> unat n AND (unat n - 1) = 0"
  proof (cases "n = 0")
    case False
    then have "unat (n - 1) = unat n - 1"
      by (metis unat_minus_one)
    then have "unat (n AND (n - 1)) = unat n AND (unat n - 1)"
      by (simp add: unsigned_and_eq)
    then show ?thesis using False by (metis powerOfTwo64_def unsigned_eq_0_iff unsigned_0)
  qed (simp add: powerOfTwo64_def)
  also have "\<dots> \<longleftrightarrow> (\<exists>k. unat n = 2 ^ k)" by (rule nat_power_of_two_iff)
  also have "\<dots> \<longleftrightarrow> (\<exists>k < 64. unat n = 2 ^ k)"
  proof -
    have "k < 64" if "unat n = 2 ^ k" for k
    proof -
      have "unat n < 2 ^ 64" using unsigned_less [of n] by simp
      then show ?thesis unfolding that by (rule power_less_imp_less_exp [rotated]) simp
    qed
    then show ?thesis by blast
  qed
  finally show ?thesis .
qed

section \<open>Rounding up\<close>

text \<open>Each step doubles the width over which a set bit is smeared to the right.\<close>

lemma smear_step:
  fixes x y :: int64
  assumes "\<And>i. bit y i \<longleftrightarrow> (\<exists>d < w. bit x (i + d))" and "\<not> bit x 63"
  shows "bit (y OR signed_drop_bit w y) i \<longleftrightarrow> (\<exists>d < w + w. bit x (i + d))"
proof -
  have top: "\<not> bit x j" if "63 \<le> j" for j
    using that assms(2) bit_imp_le_length [of x j] by (cases "j = 63") auto
  have "bit (signed_drop_bit w y) i \<longleftrightarrow> bit y (w + i)"
    using top by (auto simp: bit_signed_drop_bit_iff assms(1) dest!: bit_imp_le_length)
  also have "\<dots> \<longleftrightarrow> (\<exists>d < w. bit x (i + (w + d)))"
    by (simp add: assms(1) ac_simps)
  finally have 1: "bit (y OR signed_drop_bit w y) i \<longleftrightarrow>
      (\<exists>d < w. bit x (i + d)) \<or> (\<exists>d < w. bit x (i + (w + d)))"
    by (simp add: bit_or_iff assms(1))
  have "d < w + w \<longleftrightarrow> d < w \<or> (\<exists>e < w. d = w + e)" for d
    by (auto intro: exI [of _ "d - w"])
  then show ?thesis unfolding 1 by blast
qed

text \<open>The chain of the six steps, started at \<open>n - 1\<close>.\<close>

definition smear :: "int64 \<Rightarrow> int64" where
  "smear x =
     (let n = x OR signed_drop_bit 1 x;
          n = n OR signed_drop_bit 2 n;
          n = n OR signed_drop_bit 4 n;
          n = n OR signed_drop_bit 8 n;
          n = n OR signed_drop_bit 16 n
      in n OR signed_drop_bit 32 n)"

lemma roundUp_smear: "roundUpPowerOfTwo64 n = smear (n - 1) + 1"
  by (simp add: roundUpPowerOfTwo64_def smear_def Let_def)

lemma bit_smear:
  assumes "\<not> bit x 63"
  shows "bit (smear x) i \<longleftrightarrow> (\<exists>j \<ge> i. bit x j)"
proof -
  note s = smear_step [OF _ assms]
  define x1 where "x1 = x OR signed_drop_bit 1 x"
  define x2 where "x2 = x1 OR signed_drop_bit 2 x1"
  define x3 where "x3 = x2 OR signed_drop_bit 4 x2"
  define x4 where "x4 = x3 OR signed_drop_bit 8 x3"
  define x5 where "x5 = x4 OR signed_drop_bit 16 x4"
  define x6 where "x6 = x5 OR signed_drop_bit 32 x5"
  have 0: "bit x i \<longleftrightarrow> (\<exists>d < 1. bit x (i + d))" for i by simp
  have 1: "bit x1 i \<longleftrightarrow> (\<exists>d < 2. bit x (i + d))" for i using s [OF 0] by (simp add: x1_def numeral_2_eq_2)
  have 2: "bit x2 i \<longleftrightarrow> (\<exists>d < 4. bit x (i + d))" for i using s [OF 1] by (simp add: x2_def)
  have 3: "bit x3 i \<longleftrightarrow> (\<exists>d < 8. bit x (i + d))" for i using s [OF 2] by (simp add: x3_def)
  have 4: "bit x4 i \<longleftrightarrow> (\<exists>d < 16. bit x (i + d))" for i using s [OF 3] by (simp add: x4_def)
  have 5: "bit x5 i \<longleftrightarrow> (\<exists>d < 32. bit x (i + d))" for i using s [OF 4] by (simp add: x5_def)
  have 6: "bit x6 i \<longleftrightarrow> (\<exists>d < 64. bit x (i + d))" for i using s [OF 5] by (simp add: x6_def)
  have "smear x = x6"
    unfolding smear_def Let_def x6_def x5_def x4_def x3_def x2_def x1_def ..
  then have "bit (smear x) i \<longleftrightarrow> (\<exists>d < 64. bit x (i + d))" using 6 by simp
  also have "\<dots> \<longleftrightarrow> (\<exists>j \<ge> i. bit x j)"
  proof
    assume "\<exists>j \<ge> i. bit x j"
    then obtain j where j: "i \<le> j" "bit x j" by blast
    then have "j < 64" using bit_imp_le_length [of x j] by simp
    then show "\<exists>d < 64. bit x (i + d)" using j by (intro exI [of _ "j - i"]) simp
  qed (auto intro: le_add1)
  finally show ?thesis .
qed

lemma unat_mask64: "k < 64 \<Longrightarrow> unat (mask k :: int64) = 2 ^ k - 1"
  unfolding unat_eq_nat_uint uint_mask_eq nat_mask_eq by (simp add: mask_eq_exp_minus_1)

lemma smear_mask:
  assumes "2 ^ t \<le> unat x" "unat x < 2 ^ Suc t" "t < 63"
  shows "unat (smear x) = 2 ^ Suc t - 1"
proof -
  have hi: "\<not> bit x j" if "t < j" for j
  proof -
    have "take_bit (Suc t) (unat x) = unat x" using assms(2) by (simp add: take_bit_nat_eq_self)
    then have "bit (unat x) j \<longleftrightarrow> bit (take_bit (Suc t) (unat x)) j" by simp
    then show ?thesis using that by (auto simp: bit_take_bit_iff bit_unsigned_iff dest: bit_imp_le_length)
  qed
  have lo: "bit x t"
  proof (rule ccontr)
    assume "\<not> bit x t"
    then have "take_bit t (unat x) = unat x"
      using hi by (intro bit_eqI) (auto simp: bit_take_bit_iff bit_unsigned_iff intro: linorder_cases [of _ t])
    then have "unat x < 2 ^ t" by (metis take_bit_nat_less_exp)
    then show False using assms(1) by simp
  qed
  have "bit (smear x) i \<longleftrightarrow> i < Suc t" for i
    using hi lo assms(3) by (subst bit_smear) (auto simp: not_less_eq not_less intro: ccontr exI [of _ t])
  then have "smear x = mask (Suc t)"
    using assms(3) by (intro bit_word_eqI) (simp add: bit_mask_iff)
  then show ?thesis using assms(3) by (simp add: unat_mask64)
qed

theorem roundUpPowerOfTwo64_least:
  assumes "1 \<le> unat n" and "unat n \<le> 2 ^ 62"
  shows "\<exists>k \<le> 62. unat (roundUpPowerOfTwo64 n) = 2 ^ k \<and> unat n \<le> 2 ^ k \<and> (\<forall>j. unat n \<le> 2 ^ j \<longrightarrow> k \<le> j)"
proof -
  have n1: "unat (n - 1) = unat n - 1" using assms(1) by (intro unat_minus_one) auto
  show ?thesis
  proof (cases "unat n = 1")
    case True
    then have "n = 1" by (metis unat_1 unsigned_word_eqI)
    then show ?thesis by (intro exI [of _ 0]) (simp add: roundUp_smear smear_def)
  next
    case False
    then have "1 \<le> unat (n - 1)" using assms(1) n1 by simp
    then obtain t where t: "2 ^ t \<le> unat (n - 1)" "unat (n - 1) < 2 ^ Suc t"
      using ex_power_ivl1 [of 2 "unat (n - 1)"] by auto
    have "(2::nat) ^ t < 2 ^ 62" using t(1) n1 assms by linarith
    then have t62: "t < 62" by (rule power_less_imp_less_exp [rotated]) simp
    have "unat (smear (n - 1)) = 2 ^ Suc t - 1" using smear_mask [OF t] t62 by simp
    moreover have "(2::nat) ^ Suc t \<le> 2 ^ 62" using t62 by (intro power_increasing) auto
    ultimately have r: "unat (roundUpPowerOfTwo64 n) = 2 ^ Suc t"
      unfolding roundUp_smear by (subst unat_add_lem [THEN iffD1]) auto
    moreover have "Suc t \<le> j" if "unat n \<le> 2 ^ j" for j
    proof -
      have "(2::nat) ^ t < 2 ^ j" using that t(1) n1 assms(1) by linarith
      then have "t < j" by (rule power_less_imp_less_exp [rotated]) simp
      then show ?thesis by simp
    qed
    ultimately show ?thesis using t62 t(2) n1 by (intro exI [of _ "Suc t"]) auto
  qed
qed

section \<open>Masked indices\<close>

lemma unat_and_mask:
  fixes n m :: int64
  assumes "unat m = 2 ^ k - 1" and "k < 64"
  shows "unat (n AND m) = unat n mod 2 ^ k"
proof -
  have "unat m = unat (mask k :: int64)"
    using assms by (simp add: unat_mask64)
  then have "m = mask k" by (rule unsigned_word_eqI)
  then have "n AND m = take_bit k n" by (simp add: take_bit_eq_mask)
  then have "unat (n AND m) = take_bit k (unat n)" using assms(2) by (simp only: unsigned_take_bit_eq)
  then show ?thesis by (simp add: take_bit_eq_mod)
qed

end
