(* ===== verification/Sess_Ackqueue.thy ===== *)
theory Sess_Ackqueue imports Sess_Pow2 Topics_Subs begin

text \<open>
  \<open>Ackqueue\<close> of \<open>tools/surgemq/sessions/ackqueue.go\<close>: the growing ring buffer of the packets that
  wait for an acknowledgement, with the map from packet identifiers to ring slots. The
  abstraction \<open>contents\<close> reads the ring as the list of waiting entries, oldest first.

  A mutex serialises the three exported operations, so each is one step. \<^const>\<open>None\<close> is a
  run-time panic. The operations take the message by pointer and may change it, so they return it
  with the counter \<open>gPacketId\<close> that \<open>Encode\<close> uses.
\<close>

section \<open>State\<close>

datatype serror =
    EQueueFull
  | EQueueEmpty
  | EWaitMessage
  | EAckMessage
  | EDuplicateId string
  | EDupFlag
  | ESessMessage merror
  | EAlreadyInit
  | ENotInit
  | ENoSession bytes
  | EUnknownSession string

record ackmsg =
  Mtype :: MessageType
  State :: MessageType
  Pktid :: "16 word"
  Msgbuf :: bytes
  Ackbuf :: bytes
  OnComplete :: "iface option"

definition nil_ackmsg :: ackmsg where
  "nil_ackmsg = \<lparr>Mtype = 0, State = 0, Pktid = 0, Msgbuf = [], Ackbuf = [], OnComplete = None\<rparr>"

record ackqueue =
  qsize :: int64
  qmask :: int64
  qcount :: int64
  qhead :: int64
  qtail :: int64
  ping :: ackmsg
  ring :: "ackmsg list"
  emap :: "16 word \<Rightarrow> int64 option"
  ackdone :: "ackmsg list"

text \<open>\<open>make\<close> panics on a negative length; the limit the memory sets on it is not modelled.\<close>

definition make_ring :: "int64 \<Rightarrow> ackmsg list option" where
  "make_ring n = (if sint n < 0 then None else Some (replicate (nat (sint n)) nil_ackmsg))"

definition newAckqueue :: "int64 \<Rightarrow> ackqueue option" where
  "newAckqueue n =
     (let m = (if \<not> powerOfTwo64 n then roundUpPowerOfTwo64 n else n) in do {
        r \<leftarrow> make_ring m;
        Some \<lparr>qsize = m, qmask = m - 1, qcount = 0, qhead = 0, qtail = 0, ping = nil_ackmsg,
              ring = r, emap = (\<lambda>_. None), ackdone = []\<rparr>
      })"

definition qindex :: "ackqueue \<Rightarrow> int64 \<Rightarrow> int64" where
  "qindex q n = n AND qmask q"

definition qfull :: "ackqueue \<Rightarrow> bool" where
  "qfull q \<longleftrightarrow> qcount q = qsize q"

definition qempty :: "ackqueue \<Rightarrow> bool" where
  "qempty q \<longleftrightarrow> qcount q = 0"

definition increment :: "ackqueue \<Rightarrow> int64 \<Rightarrow> int64" where
  "increment q n = qindex q (n + 1)"

section \<open>Operations\<close>

text \<open>The loop of \<open>grow\<close> that fills the new map, from slot \<open>i\<close> up to \<open>n\<close>.\<close>

definition remap :: "ackmsg list \<Rightarrow> nat \<Rightarrow> (16 word \<Rightarrow> int64 option)" where
  "remap r n = fold (\<lambda>i m. m(Pktid (r ! i) \<mapsto> of_nat i)) [0..<n] (\<lambda>_. None)"

definition qgrow :: "ackqueue \<Rightarrow> ackqueue option" where
  "qgrow q =
     (if 0x3FFFFFFFFFFFFFFF <s qsize q then None
      else let newsize = push_bit 1 (qsize q);
               newmask = newsize - 1
      in do {
        newring \<leftarrow> make_ring newsize;
        newring \<leftarrow>
          (if qhead q <s qtail q
           then do {
             old \<leftarrow> sub_list (ring q) (sint (qhead q)) (sint (qtail q));
             (r, n) \<leftarrow> copy_at newring 0 old;
             Some r
           }
           else do {
             old \<leftarrow> sub_list (ring q) (sint (qhead q)) (int (length (ring q)));
             (r, n) \<leftarrow> copy_at newring 0 old;
             old \<leftarrow> sub_list (ring q) 0 (sint (qtail q));
             (r, n) \<leftarrow> copy_at r (sint (qsize q - qhead q)) old;
             Some r
           });
        let q = q\<lparr>qsize := newsize, qmask := newmask, ring := newring, qhead := 0,
                  qtail := qcount q\<rparr>;
        if int (length newring) < sint (qtail q) then None
        else Some (q\<lparr>emap := remap newring (nat (sint (qtail q)))\<rparr>)
      })"

type_synonym queue_ret = "((64 word \<times> message) \<times> ackqueue \<times> serror option) option"

text \<open>The branch of \<open>insert\<close> for an identifier that is not in the map.\<close>

definition qappend :: "64 word \<Rightarrow> ackqueue \<Rightarrow> 16 word \<Rightarrow> message \<Rightarrow> iface option \<Rightarrow> queue_ret" where
  "qappend g q pktid msg onComplete = do {
     (msg, ml) \<leftarrow> msg_Len msg;
     buf \<leftarrow> make_bytes ml;
     let am = \<lparr>Mtype = msg_Type msg, State = RESERVED, Pktid = msg_PacketId msg, Msgbuf = buf,
               Ackbuf = [], OnComplete = onComplete\<rparr>;
     (((g, msg), buf), n, err) \<leftarrow> msg_Encode g msg buf;
     case err of
       Some e \<Rightarrow> Some ((g, msg), q, Some (ESessMessage e))
     | None \<Rightarrow> do {
         r \<leftarrow> set_at (ring q) (sint (qtail q)) (am\<lparr>Msgbuf := buf\<rparr>);
         Some ((g, msg),
           q\<lparr>ring := r, emap := (emap q)(pktid \<mapsto> qtail q), qtail := increment q (qtail q),
             qcount := qcount q + 1\<rparr>,
           None)
       }
   }"

definition qinsert :: "64 word \<Rightarrow> ackqueue \<Rightarrow> 16 word \<Rightarrow> message \<Rightarrow> iface option \<Rightarrow> queue_ret" where
  "qinsert g q pktid msg onComplete = do {
     q \<leftarrow> (if qfull q then qgrow q else Some q);
     case emap q pktid of
       None \<Rightarrow> qappend g q pktid msg onComplete
     | Some _ \<Rightarrow>
         (case msg of
            MPublish pm \<Rightarrow> do { d \<leftarrow> Dup pm; Some ((g, msg), q, if d then Some EDupFlag else None) }
          | _ \<Rightarrow> Some ((g, msg), q, Some (EDuplicateId (type_Name (msg_Type msg)))))
   }"

text \<open>\<open>Wait\<close> drops the error of \<open>insert\<close>.\<close>

definition Wait :: "64 word \<Rightarrow> ackqueue \<Rightarrow> message \<Rightarrow> iface option \<Rightarrow> queue_ret" where
  "Wait g q msg onComplete =
     (let insert_it = map_option (\<lambda>(gm, q, e). (gm, q, None))
            (qinsert g q (msg_PacketId msg) msg onComplete)
      in case msg of
        MPublish pm \<Rightarrow>
          do {
            qos \<leftarrow> QoS pm;
            if qos = QosAtMostOnce then Some ((g, msg), q, Some EWaitMessage) else insert_it
          }
      | MSubscribe _ \<Rightarrow> insert_it
      | MUnsubscribe _ \<Rightarrow> insert_it
      | MPingreq _ \<Rightarrow>
          Some ((g, msg),
            q\<lparr>ping := nil_ackmsg\<lparr>Mtype := PINGREQ, State := RESERVED, OnComplete := onComplete\<rparr>\<rparr>, None)
      | _ \<Rightarrow> Some ((g, msg), q, Some EWaitMessage))"

definition Ack :: "64 word \<Rightarrow> ackqueue \<Rightarrow> message \<Rightarrow> queue_ret" where
  "Ack g q msg =
     (if msg_Type msg \<in> set [PUBACK, PUBREC, PUBREL, PUBCOMP, SUBACK, UNSUBACK]
      then (case emap q (msg_PacketId msg) of
          None \<Rightarrow> Some ((g, msg), q, None)
        | Some i \<Rightarrow> do {
            a \<leftarrow> get_at (ring q) (sint i);
            let st = msg_Type msg;
            (msg, ml) \<leftarrow> msg_Len msg;
            buf \<leftarrow> make_bytes ml;
            (((g, msg), buf), n, err) \<leftarrow> msg_Encode g msg buf;
            r \<leftarrow> set_at (ring q) (sint i) (a\<lparr>State := st, Ackbuf := buf\<rparr>);
            Some ((g, msg), q\<lparr>ring := r\<rparr>, map_option ESessMessage err)
          })
      else if msg_Type msg = PINGRESP
      then Some ((g, msg),
        if Mtype (ping q) = PINGREQ then q\<lparr>ping := (ping q)\<lparr>State := PINGRESP\<rparr>\<rparr> else q, None)
      else Some ((g, msg), q, Some EAckMessage))"

definition removeHead :: "ackqueue \<Rightarrow> (ackqueue \<times> serror option) option" where
  "removeHead q =
     (if qempty q then Some (q, Some EQueueEmpty)
      else do {
        it \<leftarrow> get_at (ring q) (sint (qhead q));
        r \<leftarrow> set_at (ring q) (sint (qhead q)) nil_ackmsg;
        Some (q\<lparr>ring := r, qhead := increment q (qhead q), qcount := qcount q - 1,
                emap := (emap q)(Pktid it := None)\<rparr>, None)
      })"

text \<open>The states in which an entry's cycle is complete: all acknowledgements but PUBREC.\<close>

definition cycle_done :: "ackmsg \<Rightarrow> bool" where
  "cycle_done a \<longleftrightarrow> State a \<in> set [PUBACK, PUBREL, PUBCOMP, SUBACK, UNSUBACK]"

text \<open>The loop of \<open>Acked\<close>. It ends: every round takes one entry off.\<close>

function acked_loop :: "ackqueue \<Rightarrow> ackqueue option" where
  "acked_loop q =
     (if qempty q then Some q
      else case get_at (ring q) (sint (qhead q)) of
        None \<Rightarrow> None
      | Some a \<Rightarrow>
          (if cycle_done a
           then case removeHead (q\<lparr>ackdone := ackdone q @ [a]\<rparr>) of
             None \<Rightarrow> None
           | Some (q', e) \<Rightarrow> acked_loop q'
           else Some q))"
  by pat_completeness auto
termination
proof (relation "measure (\<lambda>q. unat (qcount q))")
  fix q a p q' e
  assume "\<not> qempty q" and "removeHead (q\<lparr>ackdone := ackdone q @ [a]\<rparr>) = Some p" and "(q', e) = p"
  then have "qcount q' = qcount q - 1" "qcount q \<noteq> 0"
    by (auto simp: removeHead_def qempty_def bind_eq_Some_conv)
  then show "(q', q) \<in> measure (\<lambda>q. unat (qcount q))" by (auto simp: unat_minus_one unat_gt_0)
qed simp

declare acked_loop.simps [simp del]

definition Acked :: "ackqueue \<Rightarrow> (ackqueue \<times> ackmsg list) option" where
  "Acked q =
     (let q = q\<lparr>ackdone := []\<rparr>;
          q = (if State (ping q) = PINGRESP
               then q\<lparr>ackdone := ackdone q @ [ping q], ping := nil_ackmsg\<rparr> else q)
      in map_option (\<lambda>q. (q, ackdone q)) (acked_loop q))"

definition qlen :: "ackqueue \<Rightarrow> int" where
  "qlen q = sint (qcount q)"

definition qcap :: "ackqueue \<Rightarrow> int" where
  "qcap q = sint (qsize q)"

end
