(* ===== verification/Sess_Ackring.thy ===== *)
theory Sess_Ackring imports Sess_Ackqueue begin

text \<open>
  The ring buffer of \<open>Ackqueue\<close> read as a list: the invariant \<open>wf_ackqueue\<close> of the ring and its map
  of identifiers, and what growing, appending, marking and removing do to the list \<open>contents\<close>.
\<close>

section \<open>The ring is a list\<close>

definition slot :: "ackqueue \<Rightarrow> nat \<Rightarrow> nat" where
  "slot q j = (unat (qhead q) + j) mod length (ring q)"

definition contents :: "ackqueue \<Rightarrow> ackmsg list" where
  "contents q = map (\<lambda>j. ring q ! slot q j) [0..<unat (qcount q)]"

definition ids :: "ackqueue \<Rightarrow> 16 word list" where
  "ids q = map Pktid (contents q)"

definition ring_ok :: "ackqueue \<Rightarrow> bool" where
  "ring_ok q \<longleftrightarrow>
     (\<exists>k \<le> 62. length (ring q) = 2 ^ k) \<and> unat (qsize q) = length (ring q) \<and>
     unat (qmask q) = length (ring q) - 1 \<and> unat (qcount q) \<le> length (ring q) \<and>
     unat (qhead q) < length (ring q) \<and> unat (qtail q) = slot q (unat (qcount q))"

definition emap_ok :: "ackqueue \<Rightarrow> bool" where
  "emap_ok q \<longleftrightarrow>
     (\<forall>p i. emap q p = Some i \<longleftrightarrow> (\<exists>j < unat (qcount q). unat i = slot q j \<and> Pktid (ring q ! slot q j) = p))"

definition wf_ackqueue :: "ackqueue \<Rightarrow> bool" where
  "wf_ackqueue q \<longleftrightarrow> ring_ok q \<and> emap_ok q"

lemma sint_small: "unat w < 2 ^ 63 \<Longrightarrow> sint w = int (unat w)" for w :: int64
proof -
  have i: "uint w = int (unat w)" by simp
  assume "unat w < 2 ^ 63"
  then have "int (unat w) < int (2 ^ 63)" by (simp only: of_nat_less_iff)
  then have "uint w < 2 ^ 63" unfolding i by (simp only: of_nat_power of_nat_numeral)
  moreover have "- (2 ^ 63) \<le> uint w" by (rule order_trans [OF _ uint_ge_0]) simp
  ultimately have "signed_take_bit 63 (uint w) = uint w" by (intro signed_take_bit_int_eq_self)
  then show ?thesis unfolding i [symmetric] sint_uint by simp
qed

lemma unat_succ64: "unat w < 2 ^ 63 \<Longrightarrow> unat (w + 1) = unat w + 1" for w :: int64
  by (subst unat_add_lem [THEN iffD1]) simp_all

lemma ring_okD:
  assumes "ring_ok q"
  shows "0 < length (ring q)" "length (ring q) \<le> 2 ^ 62" "unat (qhead q) < length (ring q)"
    "unat (qcount q) \<le> length (ring q)" "unat (qtail q) < length (ring q)" "slot q j < length (ring q)"
    "unat (qsize q) = length (ring q)"
proof -
  obtain k where k: "k \<le> 62" "length (ring q) = 2 ^ k" using assms by (auto simp: ring_ok_def)
  show "0 < length (ring q)" using k by simp
  then show "slot q j < length (ring q)" "unat (qtail q) < length (ring q)"
    using assms by (auto simp: slot_def ring_ok_def)
  show "length (ring q) \<le> 2 ^ 62" unfolding k(2) using k(1) by (rule power_increasing) simp
  show "unat (qhead q) < length (ring q)" "unat (qcount q) \<le> length (ring q)"
    "unat (qsize q) = length (ring q)" using assms by (auto simp: ring_ok_def)
qed

lemma ring_ok_sint:
  assumes "ring_ok q"
  shows "sint (qhead q) = int (unat (qhead q))" "sint (qtail q) = int (unat (qtail q))"
    "sint (qcount q) = int (unat (qcount q))" "sint (qsize q) = int (length (ring q))"
  using ring_okD [OF assms] by (simp_all add: sint_small)

lemma ring_get:
  fixes i :: int64
  assumes "ring_ok q" and "unat i < length (ring q)"
  shows "get_at (ring q) (sint i) = Some (ring q ! unat i)"
    and "set_at (ring q) (sint i) x = Some ((ring q)[unat i := x])"
proof -
  have "unat i < 2 ^ 63" using less_le_trans [OF assms(2) ring_okD(2) [OF assms(1)]] by simp
  then have "sint i = int (unat i)" by (rule sint_small)
  then show "get_at (ring q) (sint i) = Some (ring q ! unat i)"
    and "set_at (ring q) (sint i) x = Some ((ring q)[unat i := x])"
    using assms(2) unfolding get_at_def set_at_def by (simp_all only: nat_int of_nat_less_iff of_nat_0_le_iff simp_thms if_True)
qed

lemma slot_inj:
  assumes "ring_ok q" "i < unat (qcount q)" "j < unat (qcount q)" "slot q i = slot q j"
  shows "i = j"
proof -
  have "i < length (ring q)" "j < length (ring q)" using assms ring_okD(4) by (auto intro: less_le_trans)
  then show ?thesis using assms(4)
  proof (induction i j rule: linorder_wlog)
    case (le i j)
    have "length (ring q) dvd (unat (qhead q) + j) - (unat (qhead q) + i)"
      using le by (intro mod_eq_dvd_iff_nat [THEN iffD1]) (simp_all add: slot_def)
    then have "length (ring q) dvd j - i" by simp
    then show ?case using le by (auto dest: dvd_imp_le)
  next
    case (sym i j) then show ?case by simp
  qed
qed

lemma length_contents [simp]: "length (contents q) = unat (qcount q)"
  by (simp add: contents_def)

lemma contents_nth: "j < unat (qcount q) \<Longrightarrow> contents q ! j = ring q ! slot q j"
  by (simp add: contents_def)

lemma slot_Suc: "slot q (Suc j) = Suc (slot q j) mod length (ring q)"
  by (simp add: slot_def mod_Suc_eq)

lemma unat_increment:
  assumes "ring_ok q" and "unat n < length (ring q)"
  shows "unat (increment q n) = Suc (unat n) mod length (ring q)"
proof -
  obtain k where k: "k \<le> 62" "length (ring q) = 2 ^ k" "unat (qmask q) = 2 ^ k - 1"
    using assms(1) by (auto simp: ring_ok_def)
  have "unat (n + 1) = Suc (unat n)" using assms ring_okD(2) [OF assms(1)] by (simp add: unat_succ64)
  then show ?thesis using k by (simp add: increment_def qindex_def unat_and_mask)
qed


lemma slot_0: "ring_ok q \<Longrightarrow> slot q 0 = unat (qhead q)"
  using ring_okD(3) by (simp add: slot_def)

lemma get_head:
  assumes "ring_ok q" and "\<not> qempty q"
  shows "get_at (ring q) (sint (qhead q)) = Some (hd (contents q))"
proof -
  have c: "0 < unat (qcount q)" using assms(2) by (simp add: qempty_def unat_gt_0)
  then have "contents q \<noteq> []" by (metis length_contents length_greater_0_conv)
  then have "hd (contents q) = ring q ! unat (qhead q)"
    using c slot_0 [OF assms(1)] by (simp add: hd_conv_nth contents_nth)
  then show ?thesis by (simp only: ring_get(1) [OF assms(1) ring_okD(3) [OF assms(1)]])
qed

lemma unat_of_slot: "ring_ok q \<Longrightarrow> unat (of_nat (slot q j) :: int64) = slot q j"
proof -
  assume "ring_ok q"
  then have "slot q j < 2 ^ 62" using ring_okD(2,6) [of q] by (auto intro: less_le_trans)
  then show ?thesis by (intro unat_of_nat_64) simp
qed

lemma emap_find:
  assumes "wf_ackqueue q" and "j < unat (qcount q)"
  shows "emap q (Pktid (contents q ! j)) = Some (of_nat (slot q j))"
  using assms unat_of_slot [of q j] by (auto simp: wf_ackqueue_def emap_ok_def contents_nth)

lemma emap_None: "wf_ackqueue q \<Longrightarrow> emap q p = None \<longleftrightarrow> p \<notin> set (ids q)"
proof -
  assume wf: "wf_ackqueue q"
  have "p \<in> set (ids q) \<longleftrightarrow> (\<exists>j < unat (qcount q). Pktid (contents q ! j) = p)"
  proof -
    have "p \<in> set (ids q) \<longleftrightarrow> (\<exists>a \<in> set (contents q). Pktid a = p)" by (auto simp: ids_def)
    then show ?thesis by (auto simp: set_conv_nth)
  qed
  moreover have "(\<exists>j < unat (qcount q). Pktid (contents q ! j) = p) \<longleftrightarrow> emap q p \<noteq> None"
  proof
    assume "emap q p \<noteq> None"
    then obtain i j where "j < unat (qcount q)" "Pktid (ring q ! slot q j) = p"
      using wf by (auto simp: wf_ackqueue_def emap_ok_def)
    then show "\<exists>j < unat (qcount q). Pktid (contents q ! j) = p" using contents_nth by metis
  next
    assume "\<exists>j < unat (qcount q). Pktid (contents q ! j) = p"
    then obtain j where "j < unat (qcount q)" "Pktid (contents q ! j) = p" by blast
    then show "emap q p \<noteq> None" using emap_find [OF wf] by (metis option.discI)
  qed
  ultimately show ?thesis by simp
qed

lemma ids_inj:
  assumes "wf_ackqueue q" "i < unat (qcount q)" "j < unat (qcount q)"
    "Pktid (contents q ! i) = Pktid (contents q ! j)"
  shows "i = j"
proof -
  have "(of_nat (slot q i) :: int64) = of_nat (slot q j)"
    using emap_find [OF assms(1,2)] emap_find [OF assms(1,3)] assms(4) by simp
  then show ?thesis
    using assms unat_of_slot slot_inj by (metis wf_ackqueue_def)
qed

lemma ids_distinct: "wf_ackqueue q \<Longrightarrow> distinct (ids q)"
  using ids_inj by (simp add: ids_def distinct_conv_nth) blast

section \<open>Removing the head\<close>

lemma removeHead_contents:
  assumes "wf_ackqueue q" and "\<not> qempty q"
  shows "\<exists>q'. removeHead q = Some (q', None) \<and> wf_ackqueue q' \<and> contents q' = tl (contents q) \<and>
    ping q' = ping q \<and> ackdone q' = ackdone q"
proof -
  let ?h = "unat (qhead q)" and ?N = "length (ring q)" and ?c = "unat (qcount q)"
  have ok: "ring_ok q" "emap_ok q" using assms(1) by (simp_all add: wf_ackqueue_def)
  have c: "0 < ?c" using assms(2) by (simp add: qempty_def unat_gt_0)
  have "contents q \<noteq> []" using c by (metis length_contents length_greater_0_conv)
  then have hd: "hd (contents q) = ring q ! slot q 0" using c by (simp add: hd_conv_nth contents_nth)
  define q' where "q' = q\<lparr>ring := (ring q)[?h := nil_ackmsg], qhead := increment q (qhead q),
    qcount := qcount q - 1, emap := (emap q)(Pktid (hd (contents q)) := None)\<rparr>"
  have r: "removeHead q = Some (q', None)"
    using assms(2) get_head [OF ok(1) assms(2)] ring_get(2) [OF ok(1) ring_okD(3) [OF ok(1)]]
    by (simp add: removeHead_def q'_def)
  have hd': "unat (qhead q') = Suc ?h mod ?N"
    using unat_increment [OF ok(1) ring_okD(3) [OF ok(1)]] by (simp add: q'_def)
  have sl: "slot q' j = slot q (Suc j)" for j
    unfolding slot_def hd' by (simp add: q'_def mod_add_left_eq)
  have c': "unat (qcount q') = ?c - 1" using c by (simp add: q'_def unat_minus_one unat_gt_0)
  have ne: "slot q (Suc j) \<noteq> ?h" if "Suc j < ?c" for j
    using slot_inj [OF ok(1), of "Suc j" 0] that c slot_0 [OF ok(1)] by auto
  have at': "ring q' ! slot q' j = contents q ! Suc j" if "Suc j < ?c" for j
    using ne [OF that] that by (simp add: sl contents_nth) (simp add: q'_def)
  have cont: "contents q' = tl (contents q)"
    by (rule nth_equalityI) (simp_all add: c' contents_nth at' nth_tl)
  have len: "length (ring q') = ?N" by (simp add: q'_def)
  have "ring_ok q'"
    unfolding ring_ok_def len hd' c' sl
    using ok(1) c ring_okD(1) [OF ok(1)] by (auto simp: ring_ok_def q'_def)
  moreover have "emap_ok q'"
    unfolding emap_ok_def
  proof (intro allI)
    fix p i
    have "emap q' p = Some i \<longleftrightarrow> p \<noteq> Pktid (contents q ! 0) \<and> (\<exists>j < ?c. unat i = slot q j \<and> Pktid (contents q ! j) = p)"
      using ok(2) c hd by (auto simp: q'_def emap_ok_def contents_nth)
    also have "\<dots> \<longleftrightarrow> (\<exists>j. Suc j < ?c \<and> unat i = slot q (Suc j) \<and> Pktid (contents q ! Suc j) = p)"
    proof
      assume *: "p \<noteq> Pktid (contents q ! 0) \<and> (\<exists>j < ?c. unat i = slot q j \<and> Pktid (contents q ! j) = p)"
      then obtain j where "j < ?c" "unat i = slot q j" "Pktid (contents q ! j) = p" by blast
      then show "\<exists>j. Suc j < ?c \<and> unat i = slot q (Suc j) \<and> Pktid (contents q ! Suc j) = p"
        using * by (cases j) auto
    next
      assume "\<exists>j. Suc j < ?c \<and> unat i = slot q (Suc j) \<and> Pktid (contents q ! Suc j) = p"
      then show "p \<noteq> Pktid (contents q ! 0) \<and> (\<exists>j < ?c. unat i = slot q j \<and> Pktid (contents q ! j) = p)"
        using ids_inj [OF assms(1), of _ 0] c by fastforce
    qed
    also have "\<dots> \<longleftrightarrow> (\<exists>j < unat (qcount q'). unat i = slot q' j \<and> Pktid (ring q' ! slot q' j) = p)"
      using at' by (auto simp: c' sl less_diff_conv)
    finally show "emap q' p = Some i \<longleftrightarrow>
      (\<exists>j < unat (qcount q'). unat i = slot q' j \<and> Pktid (ring q' ! slot q' j) = p)" .
  qed
  ultimately show ?thesis using r cont by (auto simp: wf_ackqueue_def q'_def)
qed

section \<open>Growing\<close>

lemma remap_Suc: "remap r (Suc n) = (remap r n)(Pktid (r ! n) \<mapsto> of_nat n)"
  by (simp add: remap_def)

lemma remap_iff:
  assumes "n \<le> length r" and "distinct (map Pktid (take n r))"
  shows "remap r n p = Some i \<longleftrightarrow> (\<exists>j < n. i = of_nat j \<and> Pktid (r ! j) = p)"
  using assms
proof (induction n)
  case 0 then show ?case by (simp add: remap_def)
next
  case (Suc n)
  have t: "take (Suc n) r = take n r @ [r ! n]" using Suc.prems(1) by (simp add: take_Suc_conv_app_nth)
  have IH: "remap r n p = Some i \<longleftrightarrow> (\<exists>j < n. i = of_nat j \<and> Pktid (r ! j) = p)"
    using Suc.prems by (intro Suc.IH) (simp_all add: t)
  have "Pktid (r ! j) \<noteq> Pktid (r ! n)" if "j < n" for j
  proof -
    have "r ! j \<in> set (take n r)" using that Suc.prems(1) by (auto simp: in_set_conv_nth)
    then have "Pktid (r ! j) \<in> Pktid ` set (take n r)" by (rule imageI)
    then show ?thesis using Suc.prems(2) unfolding t by auto
  qed
  then show ?case by (auto simp: remap_Suc IH less_Suc_eq)
qed

lemma qgrow_contents:
  assumes "wf_ackqueue q" and "qfull q" and "length (ring q) < 2 ^ 62"
  shows "\<exists>q'. qgrow q = Some q' \<and> wf_ackqueue q' \<and> contents q' = contents q \<and> \<not> qfull q' \<and>
    length (ring q') = 2 * length (ring q) \<and> ping q' = ping q \<and> ackdone q' = ackdone q"
proof -
  define h where "h = unat (qhead q)"
  let ?N = "length (ring q)"
  have ok: "ring_ok q" "emap_ok q" using assms(1) by (simp_all add: wf_ackqueue_def)
  obtain k where k: "k \<le> 62" "?N = 2 ^ k" using ok(1) by (auto simp: ring_ok_def)
  have k62: "k < 62" using assms(3) unfolding k(2) by (rule power_less_imp_less_exp [rotated]) simp
  note D = ring_okD [OF ok(1), folded h_def]
  have c: "unat (qcount q) = ?N" using assms(2) D(7) by (simp add: qfull_def)
  have th: "unat (qtail q) = h" using ok(1) D(3) unfolding ring_ok_def c by (simp add: slot_def h_def)
  then have te: "qtail q = qhead q" unfolding h_def by (rule unsigned_word_eqI)
  have sz: "unat (push_bit 1 (qsize q)) = 2 * ?N"
  proof -
    have "unat (push_bit 1 (qsize q)) = take_bit 64 (2 * ?N)"
      by (simp only: unsigned_push_bit_eq D(7)) (simp add: push_bit_eq_mult mult.commute)
    moreover have "2 * ?N < 2 ^ 64" using assms(3) by simp
    ultimately show ?thesis by (simp add: take_bit_nat_eq_self)
  qed
  have ssz: "sint (push_bit 1 (qsize q)) = int (2 * ?N)"
    unfolding sz [symmetric] by (rule sint_small) (use sz assms(3) in simp)
  have sq: "sint (qsize q) = int ?N" by (rule ring_ok_sint(4) [OF ok(1)])
  have sh: "sint (qhead q) = int h" by (rule ring_ok_sint(1) [OF ok(1), folded h_def])
  have sc: "sint (qcount q) = int ?N" using ring_ok_sint(3) [OF ok(1)] unfolding c .
  have sd: "sint (qsize q - qhead q) = int (?N - h)"
  proof -
    have u: "unat (qsize q - qhead q) = ?N - h" using D(3,7) by (simp add: unat_sub word_le_nat_alt h_def)
    have "?N - h < 2 ^ 63" using assms(3) by simp
    then show ?thesis unfolding u [symmetric] by (rule sint_small)
  qed
  have lim: "\<not> (0x3FFFFFFFFFFFFFFF <s qsize q)"
    using assms(3) by (simp add: word_sless_alt sq)
  define nr where "nr = rotate h (ring q) @ replicate ?N nil_ackmsg"
  have rot: "rotate h (ring q) = drop h (ring q) @ take h (ring q)"
    using D(3) by (simp add: rotate_drop_take)
  define q' where "q' = q\<lparr>qsize := push_bit 1 (qsize q), qmask := push_bit 1 (qsize q) - 1, ring := nr,
    qhead := 0, qtail := qcount q, emap := remap nr ?N\<rparr>"
  have c1: "copy_at (replicate (2 * ?N) nil_ackmsg) 0 (drop h (ring q)) =
      Some (drop h (ring q) @ replicate (?N + h) nil_ackmsg, int (?N - h))"
    using D(3) by (simp add: copy_at_def Let_def)
  have c2: "copy_at (drop h (ring q) @ replicate (?N + h) nil_ackmsg) (int (?N - h)) (take h (ring q)) =
      Some (nr, int h)"
    using D(3) by (simp add: copy_at_def Let_def nr_def rot)
  have s1: "sub_list (ring q) (int h) (int ?N) = Some (drop h (ring q))"
    "sub_list (ring q) 0 (int h) = Some (take h (ring q))"
    using D(3) by (auto simp only: sub_list_def of_nat_le_iff of_nat_0_le_iff nat_int simp_thms if_True
        order_refl less_imp_le nat_0 diff_zero drop_0) (simp_all add: nat_diff_distrib)
  have mk: "make_ring (push_bit 1 (qsize q)) = Some (replicate (2 * ?N) nil_ackmsg)"
    by (simp only: make_ring_def ssz nat_int) simp
  have ln: "length nr = 2 * ?N" by (simp add: nr_def)
  have g: "qgrow q = Some q'"
    unfolding qgrow_def Let_def te mk sh sc sd bind.bind_lunit s1 c1 c2 prod.case lim if_False
    by (simp add: c1 c2 s1 sc q'_def ln lim)
  have nth: "nr ! j = contents q ! j" if "j < ?N" for j
    using that by (simp add: nr_def nth_append contents_nth c nth_rotate slot_def add.commute h_def)
  have sl: "slot q' j = j" if "j < 2 * ?N" for j using that by (simp add: slot_def q'_def nr_def)
  have q': "qcount q' = qcount q" "ring q' = nr" "qhead q' = 0" "qtail q' = qcount q"
    "qsize q' = push_bit 1 (qsize q)" "qmask q' = push_bit 1 (qsize q) - 1" "emap q' = remap nr ?N"
    by (simp_all add: q'_def)
  have cont: "contents q' = contents q"
    by (rule nth_equalityI) (simp_all add: c q' contents_nth [of _ q'] sl nth)
  have N0: "0 < ?N" by (rule D(1))
  have m: "unat (push_bit 1 (qsize q) - 1) = 2 * ?N - 1"
    using sz N0 by (metis unat_minus_one unat_0 mult_0_right nat_0_less_mult_iff not_gr_zero zero_less_numeral)
  have "ring_ok q'"
    unfolding ring_ok_def q' ln
  proof (intro conjI)
    show "\<exists>k \<le> 62. 2 * ?N = 2 ^ k" using k k62 by (intro exI [of _ "Suc k"]) simp
    show "unat (qcount q) = slot q' (unat (qcount q))" using N0 by (simp add: c sl)
  qed (use sz m c N0 in simp_all)
  moreover have "emap_ok q'"
    unfolding emap_ok_def
  proof (intro allI)
    fix p i
    have t: "take ?N nr = contents q"
      by (rule nth_equalityI) (simp_all add: ln c nth)
    have "remap nr ?N p = Some i \<longleftrightarrow> (\<exists>j < ?N. i = of_nat j \<and> Pktid (nr ! j) = p)"
      by (rule remap_iff) (use ids_distinct [OF assms(1)] in \<open>simp_all add: ln t ids_def\<close>)
    also have "\<dots> \<longleftrightarrow> (\<exists>j < ?N. unat i = j \<and> Pktid (nr ! j) = p)"
    proof -
      have "i = of_nat j \<longleftrightarrow> unat i = j" if "j < ?N" for j
      proof -
        have "j < 2 ^ 62" using that assms(3) by simp
        then have "unat (of_nat j :: int64) = j" by (intro unat_of_nat_64) simp
        then show ?thesis by (metis unsigned_word_eqI)
      qed
      then show ?thesis by blast
    qed
    finally show "emap q' p = Some i \<longleftrightarrow>
        (\<exists>j < unat (qcount q'). unat i = slot q' j \<and> Pktid (ring q' ! slot q' j) = p)"
      by (auto simp: q' c sl)
  qed
  moreover have "\<not> qfull q'"
    using sz c N0 by (auto simp: qfull_def q')
  ultimately show ?thesis using g cont by (auto simp: wf_ackqueue_def q' ln) (simp_all add: q'_def)
qed

text \<open>Beyond \<open>2 ^ 62\<close> slots the queue cannot grow.\<close>

lemma qgrow_panics: "ring_ok q \<Longrightarrow> length (ring q) = 2 ^ 62 \<Longrightarrow> qgrow q = None"
  using ring_ok_sint(4) [of q] by (simp add: qgrow_def word_sless_alt)

section \<open>Appending\<close>

lemma append_contents:
  assumes "wf_ackqueue q" and "\<not> qfull q" and "Pktid am \<notin> set (ids q)"
  shows "\<exists>r. set_at (ring q) (sint (qtail q)) am = Some r \<and>
    (let q' = q\<lparr>ring := r, emap := (emap q)(Pktid am \<mapsto> qtail q), qtail := increment q (qtail q),
                 qcount := qcount q + 1\<rparr>
     in wf_ackqueue q' \<and> contents q' = contents q @ [am] \<and> length (ring q') = length (ring q))"
proof -
  let ?N = "length (ring q)" and ?c = "unat (qcount q)" and ?t = "unat (qtail q)"
  have ok: "ring_ok q" "emap_ok q" using assms(1) by (simp_all add: wf_ackqueue_def)
  note D = ring_okD [OF ok(1)]
  define r where "r = (ring q)[?t := am]"
  define q' where "q' = q\<lparr>ring := r, emap := (emap q)(Pktid am \<mapsto> qtail q),
    qtail := increment q (qtail q), qcount := qcount q + 1\<rparr>"
  have s: "set_at (ring q) (sint (qtail q)) am = Some r"
    unfolding r_def by (rule ring_get(2) [OF ok(1) D(5)])
  have c: "?c < ?N"
    using assms(2) D(4,7) by (metis qfull_def le_neq_implies_less unsigned_word_eqI)
  have c': "unat (qcount q') = Suc ?c"
    using c D(2) by (simp add: q'_def unat_succ64)
  have t: "?t = slot q ?c" using ok(1) by (simp add: ring_ok_def)
  have len: "length (ring q') = ?N" by (simp add: q'_def r_def)
  have sl: "slot q' j = slot q j" for j by (simp add: slot_def q'_def r_def)
  have rg: "ring q' = r" by (simp add: q'_def)
  have ne: "slot q j \<noteq> ?t" if "j < ?c" for j
  proof
    assume "slot q j = ?t"
    then have "length (ring q) dvd (unat (qhead q) + ?c) - (unat (qhead q) + j)"
      using that unfolding t slot_def by (intro mod_eq_dvd_iff_nat [THEN iffD1]) simp_all
    then have "length (ring q) dvd ?c - j" by simp
    then show False using that c by (auto dest: dvd_imp_le)
  qed
  have at': "ring q' ! slot q' j = (if j < ?c then contents q ! j else am)" if "j < Suc ?c" for j
    using that ne [of j] D(6) [of ?c] by (auto simp: sl contents_nth rg r_def t less_Suc_eq)
  have app: "ring q' ! slot q j = (contents q @ [am]) ! j" if "j < Suc ?c" for j
    using at' [OF that] that by (auto simp: sl nth_append less_Suc_eq)
  have cont: "contents q' = contents q @ [am]"
    by (rule nth_equalityI) (simp_all add: c' contents_nth at' nth_append)
  have "ring_ok q'"
    using ok(1) c unat_increment [OF ok(1) D(5)] unfolding ring_ok_def len c' sl
    by (simp add: q'_def slot_Suc t)
  moreover have "emap_ok q'"
    unfolding emap_ok_def
  proof (intro allI)
    fix p i
    have "emap q' p = Some i \<longleftrightarrow> (if p = Pktid am then i = qtail q
        else \<exists>j < ?c. unat i = slot q j \<and> Pktid (contents q ! j) = p)"
      using ok(2) by (auto simp: q'_def emap_ok_def contents_nth)
    also have "\<dots> \<longleftrightarrow> (\<exists>j < Suc ?c. unat i = slot q j \<and> Pktid ((contents q @ [am]) ! j) = p)"
    proof (cases "p = Pktid am")
      case True
      have "Pktid (contents q ! j) \<noteq> p" if "j < ?c" for j
        using assms(3) that unfolding True ids_def by (metis imageI length_contents list.set_map nth_mem)
      moreover have "i = qtail q \<longleftrightarrow> unat i = slot q ?c"
        unfolding t [symmetric] by (auto intro: unsigned_word_eqI)
      ultimately show ?thesis using True by (auto simp: nth_append less_Suc_eq)
    qed (auto simp: nth_append less_Suc_eq)
    finally show "emap q' p = Some i \<longleftrightarrow>
        (\<exists>j < unat (qcount q'). unat i = slot q' j \<and> Pktid (ring q' ! slot q' j) = p)"
      by (simp add: c' sl app cong: conj_cong)
  qed
  ultimately show ?thesis using s cont len by (simp add: wf_ackqueue_def q'_def Let_def)
qed

section \<open>Marking an entry\<close>

lemma update_contents:
  assumes "wf_ackqueue q" and "emap q p = Some i" and "Pktid (f (ring q ! unat i)) = p"
    and "\<And>a. Pktid a = p \<Longrightarrow> f a = f' a"
  shows "get_at (ring q) (sint i) = Some (ring q ! unat i)"
    and "\<exists>r. set_at (ring q) (sint i) (f (ring q ! unat i)) = Some r \<and> wf_ackqueue (q\<lparr>ring := r\<rparr>) \<and>
      length r = length (ring q) \<and>
      contents (q\<lparr>ring := r\<rparr>) = map (\<lambda>a. if Pktid a = p then f' a else a) (contents q)"
proof -
  let ?c = "unat (qcount q)"
  have ok: "ring_ok q" "emap_ok q" using assms(1) by (simp_all add: wf_ackqueue_def)
  note D = ring_okD [OF ok(1)]
  obtain k where k: "k < ?c" "unat i = slot q k" "Pktid (ring q ! slot q k) = p"
    using assms(2) ok(2) by (auto simp: emap_ok_def)
  have i: "unat i < length (ring q)" using k(2) D(6) by simp
  show "get_at (ring q) (sint i) = Some (ring q ! unat i)" by (rule ring_get(1) [OF ok(1) i])
  define r where "r = (ring q)[unat i := f (ring q ! unat i)]"
  define q' where "q' = q\<lparr>ring := r\<rparr>"
  have s: "set_at (ring q) (sint i) (f (ring q ! unat i)) = Some r"
    unfolding r_def by (rule ring_get(2) [OF ok(1) i])
  have sl: "slot q' j = slot q j" for j by (simp add: slot_def q'_def r_def)
  have rg: "ring q' = r" by (simp add: q'_def)
  have cnt: "qcount q' = qcount q" by (simp add: q'_def)
  have at': "ring q' ! slot q' j = (if j = k then f (contents q ! k) else contents q ! j)" if "j < ?c" for j
    using slot_inj [OF ok(1) that k(1)] that k D(6) [of k]
    by (auto simp: sl contents_nth rg r_def nth_list_update)
  have pk: "Pktid (ring q' ! slot q' j) = Pktid (ring q ! slot q j)" if "j < ?c" for j
    using at' [OF that] that assms(3) k by (simp add: contents_nth split: if_splits)
  have "Pktid (contents q ! j) = p \<longleftrightarrow> j = k" if "j < ?c" for j
    using ids_inj [OF assms(1) that k(1)] k by (auto simp: contents_nth)
  then have "contents q' = map (\<lambda>a. if Pktid a = p then f' a else a) (contents q)"
    using assms(4) k by (intro nth_equalityI) (simp_all add: cnt contents_nth [of _ q'] at')
  moreover have "wf_ackqueue q'"
  proof -
    have "ring_ok q'" using ok(1) unfolding ring_ok_def sl by (simp add: q'_def r_def)
    moreover have "emap_ok q'"
      using ok(2) pk unfolding emap_ok_def sl cnt by (auto simp: q'_def)
    ultimately show ?thesis by (simp add: wf_ackqueue_def)
  qed
  ultimately show "\<exists>r. set_at (ring q) (sint i) (f (ring q ! unat i)) = Some r \<and> wf_ackqueue (q\<lparr>ring := r\<rparr>) \<and>
      length r = length (ring q) \<and>
      contents (q\<lparr>ring := r\<rparr>) = map (\<lambda>a. if Pktid a = p then f' a else a) (contents q)"
    using s by (auto simp: q'_def r_def)
qed

section \<open>Taking off the completed entries\<close>

lemma acked_loop_contents:
  "wf_ackqueue q \<Longrightarrow> \<exists>q'. acked_loop q = Some q' \<and> wf_ackqueue q' \<and> ping q' = ping q \<and>
     ackdone q' = ackdone q @ takeWhile cycle_done (contents q) \<and>
     contents q' = dropWhile cycle_done (contents q)"
proof (induction q rule: acked_loop.induct)
  case (1 q)
  note ok = "1.prems"
  have rok: "ring_ok q" using ok by (simp add: wf_ackqueue_def)
  show ?case
  proof (cases "qempty q")
    case True
    then have "contents q = []" by (simp add: qempty_def contents_def)
    then show ?thesis using True ok by (subst acked_loop.simps) simp
  next
    case False
    have h: "get_at (ring q) (sint (qhead q)) = Some (hd (contents q))" by (rule get_head [OF rok False])
    have ne: "contents q = hd (contents q) # tl (contents q)"
      using False by (metis length_contents length_0_conv list.exhaust_sel qempty_def unat_eq_zero)
    show ?thesis
    proof (cases "cycle_done (hd (contents q))")
      case True
      define p where "p = q\<lparr>ackdone := ackdone q @ [hd (contents q)]\<rparr>"
      have p: "contents p = contents q" "wf_ackqueue p" "\<not> qempty p"
        using ok False unfolding wf_ackqueue_def ring_ok_def emap_ok_def contents_def slot_def qempty_def
        by (simp_all add: p_def)
      obtain q' where q': "removeHead p = Some (q', None)" "wf_ackqueue q'" "contents q' = tl (contents q)"
          "ping q' = ping q" "ackdone q' = ackdone q @ [hd (contents q)]"
        using removeHead_contents [OF p(2,3)] p(1) by (auto simp: p_def)
      have "\<exists>q''. acked_loop q' = Some q'' \<and> wf_ackqueue q'' \<and> ping q'' = ping q' \<and>
          ackdone q'' = ackdone q' @ takeWhile cycle_done (contents q') \<and>
          contents q'' = dropWhile cycle_done (contents q')"
        using "1.IH" [OF False h True, folded p_def, OF q'(1) refl q'(2)] .
      moreover have "acked_loop q = acked_loop q'"
        using False h True q'(1) by (subst acked_loop.simps) (simp add: p_def)
      ultimately show ?thesis using q' True ne by (metis append.assoc append_Cons append_Nil dropWhile.simps(2) takeWhile.simps(2))
    next
      case False
      then have "takeWhile cycle_done (contents q) = []" "dropWhile cycle_done (contents q) = contents q"
        using ne by (metis takeWhile.simps(2), metis dropWhile.simps(2))
      then show ?thesis using \<open>\<not> qempty q\<close> False h ok by (subst acked_loop.simps) simp
    qed
  qed
qed

end
