(* ===== verification/Sess_Ackstore.thy ===== *)
theory Sess_Ackstore imports Sess_Ackring begin

text \<open>
  The contract of the queue of unacknowledged packets (locale \<open>ack_store\<close>), what its clients get
  from it, and the proof that the ring buffer keeps it.
\<close>

section \<open>The queue's contract\<close>

text \<open>
  What the service relies on: entries wait in the order they came in, an acknowledgement marks the
  entry with its identifier, and \<open>Acked\<close> hands out the completed entries at the front. A key is
  what an acknowledgement leaves alone.
\<close>

definition entry_key :: "ackmsg \<Rightarrow> MessageType \<times> 16 word \<times> bytes \<times> iface option" where
  "entry_key a = (Mtype a, Pktid a, Msgbuf a, OnComplete a)"

definition mark :: "16 word \<Rightarrow> MessageType \<Rightarrow> bytes \<Rightarrow> ackmsg list \<Rightarrow> ackmsg list" where
  "mark p t buf xs = map (\<lambda>a. if Pktid a = p then a\<lparr>State := t, Ackbuf := buf\<rparr> else a) xs"

definition fresh_entry :: "ackmsg list \<Rightarrow> message \<Rightarrow> iface option \<Rightarrow> ackmsg \<Rightarrow> bool" where
  "fresh_entry xs m oc a \<longleftrightarrow>
     Pktid a = msg_PacketId m \<and> Pktid a \<notin> Pktid ` set xs \<and> State a = RESERVED \<and>
     Ackbuf a = [] \<and> OnComplete a = oc"

abbreviation ping_done :: "ackmsg \<Rightarrow> ackmsg list" where
  "ping_done a \<equiv> (if State a = PINGRESP then [a] else [])"

lemma mark_keys [simp]: "map entry_key (mark p t buf xs) = map entry_key xs"
  by (simp add: mark_def entry_key_def)

locale ack_store =
  fixes wait :: "64 word \<Rightarrow> 'q \<Rightarrow> message \<Rightarrow> iface option \<Rightarrow> ((64 word \<times> message) \<times> 'q \<times> serror option) option"
    and ack :: "64 word \<Rightarrow> 'q \<Rightarrow> message \<Rightarrow> ((64 word \<times> message) \<times> 'q \<times> serror option) option"
    and acked :: "'q \<Rightarrow> ('q \<times> ackmsg list) option"
    and inv :: "'q \<Rightarrow> bool"
    and pending :: "'q \<Rightarrow> ackmsg list"
    and pinging :: "'q \<Rightarrow> ackmsg"
  assumes wait_law: "inv q \<Longrightarrow> wait g q m oc = Some (gm, q', e) \<Longrightarrow>
      inv q' \<and> (pending q' = pending q \<or> (\<exists>a. pending q' = pending q @ [a] \<and> fresh_entry (pending q) m oc a))"
    and ack_law: "inv q \<Longrightarrow> ack g q m = Some (gm, q', e) \<Longrightarrow>
      inv q' \<and> (pending q' = pending q \<or> (\<exists>buf. pending q' = mark (msg_PacketId m) (msg_Type m) buf (pending q)))"
    and ack_ready: "inv q \<Longrightarrow> msg_ready m \<Longrightarrow> msg_kind m \<in> {PUBACK, PUBREC, PUBREL, PUBCOMP, SUBACK, UNSUBACK} \<Longrightarrow>
      \<exists>gm q'. ack g q m = Some (gm, q', None) \<and> pending q' = mark (msg_PacketId m) (msg_kind m) (msg_wire m) (pending q)"
    and acked_law: "inv q \<Longrightarrow> \<exists>q'. acked q = Some (q', ping_done (pinging q) @ takeWhile cycle_done (pending q)) \<and>
      inv q' \<and> pending q' = dropWhile cycle_done (pending q)"
begin

lemma wait_keys:
  assumes "inv q" and "wait g q m oc = Some (gm, q', e)"
  shows "map entry_key (pending q') = map entry_key (pending q) @ map entry_key (drop (length (pending q)) (pending q'))"
  using wait_law [OF assms] by auto

lemma ack_keys:
  assumes "inv q" and "ack g q m = Some (gm, q', e)"
  shows "map entry_key (pending q') = map entry_key (pending q)"
  using ack_law [OF assms] by auto

lemma acked_keys:
  assumes "inv q" and "acked q = Some (q', out)"
  shows "\<exists>ds. out = ping_done (pinging q) @ ds \<and> map entry_key (pending q) = map entry_key ds @ map entry_key (pending q')"
  using acked_law [OF assms(1)] assms(2) takeWhile_dropWhile_id [of cycle_done "pending q"]
  by (auto simp flip: map_append)

text \<open>An acknowledgement that completes its entry's cycle gets it out, if nothing older is waiting.\<close>

lemma ack_delivers:
  assumes "inv q" and "pending q = xs @ a # ys" and "\<forall>x \<in> set xs. cycle_done x"
    and "msg_ready m" and "msg_kind m \<in> {PUBACK, PUBREL, PUBCOMP, SUBACK, UNSUBACK}" and "msg_PacketId m = Pktid a"
  shows "\<exists>gm q1 q2 out. ack g q m = Some (gm, q1, None) \<and> acked q1 = Some (q2, out) \<and>
    a\<lparr>State := msg_kind m, Ackbuf := msg_wire m\<rparr> \<in> set out"
proof -
  obtain gm q1 where q1: "ack g q m = Some (gm, q1, None)"
      "pending q1 = mark (msg_PacketId m) (msg_kind m) (msg_wire m) (pending q)"
    using ack_ready [OF assms(1,4), of g] assms(5) by auto
  have inv1: "inv q1" using ack_law [OF assms(1) q1(1)] by simp
  let ?a = "a\<lparr>State := msg_kind m, Ackbuf := msg_wire m\<rparr>"
  have all: "cycle_done x" if "x \<in> set (mark (msg_PacketId m) (msg_kind m) (msg_wire m) (xs @ [a]))" for x
    using that assms(3,5,6) by (auto simp: mark_def cycle_done_def)
  have "pending q1 = mark (msg_PacketId m) (msg_kind m) (msg_wire m) (xs @ [a]) @
      mark (msg_PacketId m) (msg_kind m) (msg_wire m) ys"
    by (simp add: q1(2) assms(2) mark_def)
  moreover have "?a \<in> set (mark (msg_PacketId m) (msg_kind m) (msg_wire m) (xs @ [a]))"
    using assms(6) by (simp add: mark_def)
  ultimately have "?a \<in> set (takeWhile cycle_done (pending q1))"
    using all by (simp add: takeWhile_append2)
  then show ?thesis using q1(1) acked_law [OF inv1] by fastforce
qed

text \<open>PUBREC alone completes nothing: the entry keeps its place and blocks those behind it.\<close>

lemma head_blocks:
  assumes "inv q" and "pending q = a # ys" and "\<not> cycle_done a"
  shows "\<exists>q'. acked q = Some (q', ping_done (pinging q)) \<and> pending q' = a # ys"
  using acked_law [OF assms(1)] assms(2,3) by auto

end

section \<open>The ring buffer keeps the contract\<close>

lemma frame [simp]:
  "wf_ackqueue (q\<lparr>ping := x\<rparr>) = wf_ackqueue q" "wf_ackqueue (q\<lparr>ackdone := ds\<rparr>) = wf_ackqueue q"
  "contents (q\<lparr>ping := x\<rparr>) = contents q" "contents (q\<lparr>ackdone := ds\<rparr>) = contents q"
  unfolding wf_ackqueue_def ring_ok_def emap_ok_def contents_def slot_def by simp_all

lemma Len_PacketId:
  "publish_Len pm = Some (pm', l) \<Longrightarrow> header_PacketId pm' = header_PacketId pm"
  "subscribe_Len sm = (sm', l) \<Longrightarrow> header_PacketId sm' = header_PacketId sm"
  "unsubscribe_Len um = (um', l) \<Longrightarrow> header_PacketId um' = header_PacketId um"
  by (auto simp: publish_Len_def subscribe_Len_def unsubscribe_Len_def len_with_def SetRemainingLength_def
      header_PacketId_def Let_def bind_eq_Some_conv split: if_splits)

lemma append_law:
  assumes "wf_ackqueue q" and "\<not> qfull q" and "emap q (msg_PacketId m) = None"
    and "qappend g q (msg_PacketId m) m oc = Some (gm, q', e)"
    and "\<And>m' l. msg_Len m = Some (m', l) \<Longrightarrow> msg_PacketId m' = msg_PacketId m"
  shows "wf_ackqueue q' \<and> (contents q' = contents q \<or> (\<exists>a. contents q' = contents q @ [a] \<and> fresh_entry (contents q) m oc a))"
proof -
  obtain m1 ml buf g2 m2 buf2 n err where
    s: "msg_Len m = Some (m1, ml)" "make_bytes ml = Some buf" "msg_Encode g m1 buf = Some (((g2, m2), buf2), n, err)"
    using assms(4) by (auto simp: qappend_def bind_eq_Some_conv)
  let ?am = "\<lparr>Mtype = msg_Type m1, State = RESERVED, Pktid = msg_PacketId m1, Msgbuf = buf2,
                 Ackbuf = [], OnComplete = oc\<rparr>"
  have p: "msg_PacketId m1 = msg_PacketId m" by (rule assms(5) [OF s(1)])
  have nin: "Pktid ?am \<notin> set (ids q)" using assms(3) emap_None [OF assms(1)] p by simp
  then have fr: "fresh_entry (contents q) m oc ?am" by (simp add: fresh_entry_def ids_def p)
  show ?thesis
    using assms(4) append_contents [OF assms(1,2) nin] fr assms(1)
    by (cases err) (auto simp: qappend_def s p Let_def)
qed

lemma insert_law:
  assumes "wf_ackqueue q" and "qinsert g q (msg_PacketId m) m oc = Some (gm, q', e)"
    and "\<And>m' l. msg_Len m = Some (m', l) \<Longrightarrow> msg_PacketId m' = msg_PacketId m"
  shows "wf_ackqueue q' \<and> (contents q' = contents q \<or> (\<exists>a. contents q' = contents q @ [a] \<and> fresh_entry (contents q) m oc a))"
proof -
  obtain q1 where q1: "(if qfull q then qgrow q else Some q) = Some q1"
    using assms(2) unfolding qinsert_def by (cases "if qfull q then qgrow q else Some q") auto
  have "length (ring q) < 2 ^ 62" if "qfull q"
    using that q1 qgrow_panics [of q] ring_okD(2) [of q] assms(1)
    by (intro le_neq_implies_less) (auto simp: wf_ackqueue_def)
  then have w1: "wf_ackqueue q1" "contents q1 = contents q" "\<not> qfull q1"
    using q1 qgrow_contents [OF assms(1)] assms(1) by (auto split: if_splits)
  show ?thesis
  proof (cases "emap q1 (msg_PacketId m)")
    case (Some i)
    then have "q' = q1" using assms(2) by (auto simp: qinsert_def q1 bind_eq_Some_conv split: message.splits)
    then show ?thesis using w1 by simp
  next
    case None
    then show ?thesis using append_law [OF w1(1,3) None _ assms(3)] assms(2) by (simp add: qinsert_def q1 w1(2))
  qed
qed

lemma Wait_law:
  assumes "wf_ackqueue q" and "Wait g q m oc = Some (gm, q', e)"
  shows "wf_ackqueue q' \<and> (contents q' = contents q \<or> (\<exists>a. contents q' = contents q @ [a] \<and> fresh_entry (contents q) m oc a))"
proof -
  have ins: "wf_ackqueue q' \<and> (contents q' = contents q \<or> (\<exists>a. contents q' = contents q @ [a] \<and> fresh_entry (contents q) m oc a))"
    if "qinsert g q (msg_PacketId m) m oc = Some (gm, q', e')"
      and "\<And>m' l. msg_Len m = Some (m', l) \<Longrightarrow> msg_PacketId m' = msg_PacketId m" for e'
    using insert_law [OF assms(1) that] .
  show ?thesis
  proof (cases m)
    case (MPublish x)
    have "msg_PacketId m' = msg_PacketId m" if "msg_Len m = Some (m', l)" for m' l
      using that Len_PacketId(1) by (auto simp: MPublish on_len_def)
    then show ?thesis using assms ins by (auto simp: Wait_def MPublish bind_eq_Some_conv split: if_splits)
  next
    case (MSubscribe x)
    have "msg_PacketId m' = msg_PacketId m" if "msg_Len m = Some (m', l)" for m' l
      using that Len_PacketId(2) by (auto simp: MSubscribe on_len_def split: prod.splits)
    then show ?thesis using assms ins by (auto simp: Wait_def MSubscribe)
  next
    case (MUnsubscribe x)
    have "msg_PacketId m' = msg_PacketId m" if "msg_Len m = Some (m', l)" for m' l
      using that Len_PacketId(3) by (auto simp: MUnsubscribe on_len_def split: prod.splits)
    then show ?thesis using assms ins by (auto simp: Wait_def MUnsubscribe)
  next
    case (MPingreq x)
    then show ?thesis using assms by (auto simp: Wait_def)
  qed (use assms in \<open>simp_all add: Wait_def\<close>)
qed

lemma Ack_law:
  assumes "wf_ackqueue q" and "Ack g q m = Some (gm, q', e)"
  shows "wf_ackqueue q' \<and> (contents q' = contents q \<or> (\<exists>buf. contents q' = mark (msg_PacketId m) (msg_Type m) buf (contents q)))"
proof -
  show ?thesis
  proof (cases "msg_Type m \<in> set [PUBACK, PUBREC, PUBREL, PUBCOMP, SUBACK, UNSUBACK] \<and> emap q (msg_PacketId m) \<noteq> None")
    case True
    then obtain i where i: "emap q (msg_PacketId m) = Some i" by blast
    have t: "msg_Type m \<in> set [PUBACK, PUBREC, PUBREL, PUBCOMP, SUBACK, UNSUBACK] \<longleftrightarrow> True" using True by blast
    have id: "Pktid (ring q ! unat i) = msg_PacketId m"
      using assms(1) i by (auto simp: wf_ackqueue_def emap_ok_def)
    note U = update_contents [OF assms(1) i]
    have gt: "get_at (ring q) (sint i) = Some (ring q ! unat i)" using U(1) [of "\<lambda>a. a" "\<lambda>a. a"] id by simp
    obtain m1 ml buf g2 m2 buf2 n err r where
      s: "msg_Len m = Some (m1, ml)" "make_bytes ml = Some buf" "msg_Encode g m1 buf = Some (((g2, m2), buf2), n, err)"
         "set_at (ring q) (sint i) ((ring q ! unat i)\<lparr>State := msg_Type m, Ackbuf := buf2\<rparr>) = Some r" "q' = q\<lparr>ring := r\<rparr>"
      using assms(2) unfolding Ack_def t if_True i option.case gt bind.bind_lunit Let_def
      by (auto simp: bind_eq_Some_conv)
    have "wf_ackqueue q' \<and> contents q' = mark (msg_PacketId m) (msg_Type m) buf2 (contents q)"
      using U(2) [where f = "\<lambda>a. a\<lparr>State := msg_Type m, Ackbuf := buf2\<rparr>" and f' = "\<lambda>a. a\<lparr>State := msg_Type m, Ackbuf := buf2\<rparr>"] s(4,5) id
      by (auto simp: mark_def)
    then show ?thesis by blast
  next
    case False
    then show ?thesis using assms by (auto simp: Ack_def split: if_splits option.splits)
  qed
qed

lemma Ack_ready:
  assumes "wf_ackqueue q" and "msg_ready m" and "msg_kind m \<in> {PUBACK, PUBREC, PUBREL, PUBCOMP, SUBACK, UNSUBACK}"
  shows "\<exists>gm q'. Ack g q m = Some (gm, q', None) \<and> contents q' = mark (msg_PacketId m) (msg_kind m) (msg_wire m) (contents q)"
proof (cases "emap q (msg_PacketId m)")
  case None
  then have "mark (msg_PacketId m) (msg_kind m) (msg_wire m) (contents q) = contents q"
    using emap_None [OF assms(1)] by (auto simp: mark_def ids_def image_iff intro!: map_idI)
  then show ?thesis using None assms(3) by (auto simp: Ack_def msg_Type_ready [OF assms(2)])
next
  case (Some i)
  obtain m1 ml buf g2 m2 n where s: "msg_Len m = Some (m1, ml)" "make_bytes ml = Some buf"
      "msg_Encode g m1 buf = Some (((g2, m2), msg_wire m), n, None)"
    using msg_marshal [OF assms(2), of g] by (auto simp: marshal_def bind_eq_Some_conv drop_counter_def)
  have t: "msg_Type m = msg_kind m" by (rule msg_Type_ready [OF assms(2)])
  have "Pktid (ring q ! unat i) = msg_PacketId m"
    using assms(1) Some by (auto simp: wf_ackqueue_def emap_ok_def)
  then obtain r where "get_at (ring q) (sint i) = Some (ring q ! unat i)"
      "set_at (ring q) (sint i) ((ring q ! unat i)\<lparr>State := msg_kind m, Ackbuf := msg_wire m\<rparr>) = Some r"
      "contents (q\<lparr>ring := r\<rparr>) = mark (msg_PacketId m) (msg_kind m) (msg_wire m) (contents q)"
    using update_contents [OF assms(1) Some, where f = "\<lambda>a. a\<lparr>State := msg_kind m, Ackbuf := msg_wire m\<rparr>"
        and f' = "\<lambda>a. a\<lparr>State := msg_kind m, Ackbuf := msg_wire m\<rparr>"]
    by (auto simp: mark_def)
  then show ?thesis using assms(3) by (auto simp: Ack_def t Some s)
qed

lemma Acked_law:
  assumes "wf_ackqueue q"
  shows "\<exists>q'. Acked q = Some (q', ping_done (ping q) @ takeWhile cycle_done (contents q)) \<and>
      wf_ackqueue q' \<and> contents q' = dropWhile cycle_done (contents q)"
proof -
  define q1 where "q1 = (let q = q\<lparr>ackdone := []\<rparr> in if State (ping q) = PINGRESP
      then q\<lparr>ackdone := ackdone q @ [ping q], ping := nil_ackmsg\<rparr> else q)"
  have "wf_ackqueue q1" "contents q1 = contents q" using assms by (simp_all add: q1_def Let_def)
  moreover have "ackdone q1 = ping_done (ping q)" by (simp add: q1_def)
  moreover have "Acked q = map_option (\<lambda>q. (q, ackdone q)) (acked_loop q1)"
    by (simp add: Acked_def q1_def Let_def)
  ultimately show ?thesis using acked_loop_contents [of q1] by auto
qed

interpretation ackq: ack_store Wait Ack Acked wf_ackqueue contents ping
proof unfold_locales
  show "\<And>q g m. wf_ackqueue q \<Longrightarrow> msg_ready m \<Longrightarrow> msg_kind m \<in> {PUBACK, PUBREC, PUBREL, PUBCOMP, SUBACK, UNSUBACK} \<Longrightarrow>
      \<exists>gm q'. Ack g q m = Some (gm, q', None) \<and> contents q' = mark (msg_PacketId m) (msg_kind m) (msg_wire m) (contents q)"
    by (rule Ack_ready)
qed (fact Wait_law Ack_law Acked_law)+

section \<open>A new queue\<close>

lemma ring_size:
  assumes "1 \<le> unat n" and "unat n \<le> 2 ^ 62"
  shows "\<exists>k \<le> 62. unat (if \<not> powerOfTwo64 n then roundUpPowerOfTwo64 n else n) = 2 ^ k \<and>
    unat n \<le> 2 ^ k \<and> (\<forall>j. unat n \<le> 2 ^ j \<longrightarrow> k \<le> j)"
proof (cases "powerOfTwo64 n")
  case True
  then obtain k where k: "unat n = 2 ^ k" by (auto simp: powerOfTwo64_iff)
  then have "(2::nat) ^ k \<le> 2 ^ 62" using assms(2) by simp
  then have "k \<le> 62" by (rule power_le_imp_le_exp [rotated]) simp
  moreover have "k \<le> j" if "unat n \<le> 2 ^ j" for j
    using that unfolding k by (rule power_le_imp_le_exp [rotated]) simp
  ultimately show ?thesis using True k by auto
next
  case False
  then show ?thesis using roundUpPowerOfTwo64_least [OF assms] by simp
qed

lemma newAckqueue_empty:
  assumes "1 \<le> unat n" and "unat n \<le> 2 ^ 62"
  shows "\<exists>q k. newAckqueue n = Some q \<and> wf_ackqueue q \<and> contents q = [] \<and> ping q = nil_ackmsg \<and>
    length (ring q) = 2 ^ k \<and> k \<le> 62 \<and> unat n \<le> 2 ^ k \<and> (\<forall>j. unat n \<le> 2 ^ j \<longrightarrow> k \<le> j)"
proof -
  define m where "m = (if \<not> powerOfTwo64 n then roundUpPowerOfTwo64 n else n)"
  obtain k where k: "k \<le> 62" "unat m = 2 ^ k" "unat n \<le> 2 ^ k" "\<forall>j. unat n \<le> 2 ^ j \<longrightarrow> k \<le> j"
    using ring_size [OF assms] by (auto simp: m_def)
  have "(2::nat) ^ k \<le> 2 ^ 62" using k(1) by (rule power_increasing) simp
  then have s: "sint m = int (2 ^ k)" unfolding k(2) [symmetric] by (intro sint_small) simp
  define q where "q = \<lparr>qsize = m, qmask = m - 1, qcount = 0, qhead = 0, qtail = 0, ping = nil_ackmsg,
              ring = replicate (2 ^ k) nil_ackmsg, emap = (\<lambda>_. None), ackdone = []\<rparr>"
  have "newAckqueue n = Some q"
    unfolding newAckqueue_def m_def [symmetric] Let_def make_ring_def s
    by (simp add: q_def nat_power_eq)
  moreover have "unat (m - 1) = 2 ^ k - 1" using k(2) by (metis unat_minus_one unat_0 power_not_zero zero_neq_numeral)
  then have "wf_ackqueue q"
    using k by (auto simp: wf_ackqueue_def ring_ok_def emap_ok_def q_def slot_def)
  moreover have "contents q = []" by (simp add: contents_def q_def)
  ultimately show ?thesis using k by (intro exI [of _ q] exI [of _ k]) (simp add: q_def)
qed

definition idle_queue :: "ackqueue option \<Rightarrow> bool" where
  "idle_queue x \<longleftrightarrow> (\<exists>q. x = Some q \<and> wf_ackqueue q \<and> contents q = [] \<and> ping q = nil_ackmsg)"

section \<open>Waiting for a ready packet\<close>

lemma Len_Type:
  "publish_Len pm = Some (pm', l) \<Longrightarrow> snd (header_Type pm') = snd (header_Type pm)"
  "subscribe_Len sm = (sm', l) \<Longrightarrow> snd (header_Type sm') = snd (header_Type sm)"
  "unsubscribe_Len um = (um', l) \<Longrightarrow> snd (header_Type um') = snd (header_Type um)"
  by (auto simp: publish_Len_def subscribe_Len_def unsubscribe_Len_def len_with_def SetRemainingLength_def
      header_Type_def Let_def bind_eq_Some_conv split: if_splits)

text \<open>The packets \<open>Wait\<close> puts in the ring.\<close>

fun waits :: "message \<Rightarrow> bool" where
  "waits (MPublish pm) = (QoS pm \<noteq> Some 0)"
| "waits (MSubscribe sm) = True"
| "waits (MUnsubscribe um) = True"
| "waits _ = False"

lemma waits_Len:
  assumes "waits m" and "msg_Len m = Some (m', l)"
  shows "msg_PacketId m' = msg_PacketId m" and "msg_Type m' = msg_Type m"
  using assms Len_PacketId Len_Type
  by (cases m; auto simp: on_len_def split: prod.splits; fail)+

lemma qappend_ready:
  assumes "wf_ackqueue q" and "\<not> qfull q" and "emap q (msg_PacketId m) = None" and "msg_ready m" and "waits m"
  shows "\<exists>gm q'. qappend g q (msg_PacketId m) m oc = Some (gm, q', None) \<and> wf_ackqueue q' \<and>
    contents q' = contents q @ [\<lparr>Mtype = msg_kind m, State = RESERVED, Pktid = msg_PacketId m,
      Msgbuf = msg_wire m, Ackbuf = [], OnComplete = oc\<rparr>]"
proof -
  obtain m1 ml buf g2 m2 n where s: "msg_Len m = Some (m1, ml)" "make_bytes ml = Some buf"
      "msg_Encode g m1 buf = Some (((g2, m2), msg_wire m), n, None)"
    using msg_marshal [OF assms(4), of g] by (auto simp: marshal_def bind_eq_Some_conv drop_counter_def)
  note p = waits_Len [OF assms(5) s(1)] msg_Type_ready [OF assms(4)]
  let ?am = "\<lparr>Mtype = msg_kind m, State = RESERVED, Pktid = msg_PacketId m, Msgbuf = msg_wire m,
                 Ackbuf = [], OnComplete = oc\<rparr>"
  have nin: "Pktid ?am \<notin> set (ids q)" using assms(3) emap_None [OF assms(1)] by simp
  show ?thesis
    using append_contents [OF assms(1,2) nin] by (auto simp: qappend_def s p Let_def)
qed

lemma Wait_waits:
  assumes "waits m" and "msg_ready m"
  shows "Wait g q m oc = map_option (\<lambda>(gm, q, e). (gm, q, None)) (qinsert g q (msg_PacketId m) m oc)"
proof (cases m)
  case (MPublish x)
  have "QoS x \<noteq> None"
    using assms(2) by (auto simp: MPublish ready_defs QoS_def header_Flags_def)
  then show ?thesis using assms(1) by (auto simp: MPublish Wait_def)
qed (use assms in \<open>auto simp: Wait_def\<close>)

lemma Wait_ready:
  assumes "wf_ackqueue q" and "msg_ready m" and "waits m" and "length (contents q) < 2 ^ 62"
  shows "\<exists>gm q'. Wait g q m oc = Some (gm, q', None) \<and> wf_ackqueue q' \<and>
    contents q' = (if msg_PacketId m \<in> set (ids q) then contents q
      else contents q @ [\<lparr>Mtype = msg_kind m, State = RESERVED, Pktid = msg_PacketId m,
             Msgbuf = msg_wire m, Ackbuf = [], OnComplete = oc\<rparr>])"
proof -
  have "length (ring q) < 2 ^ 62" if "qfull q"
    using that assms(4) ring_okD(7) [of q] assms(1) by (simp add: qfull_def wf_ackqueue_def)
  then obtain q1 where q1: "(if qfull q then qgrow q else Some q) = Some q1" "wf_ackqueue q1"
      "contents q1 = contents q" "\<not> qfull q1"
    using qgrow_contents [OF assms(1)] assms(1) by (cases "qfull q") auto
  have ids: "ids q1 = ids q" by (simp add: ids_def q1(3))
  show ?thesis
  proof (cases "emap q1 (msg_PacketId m)")
    case None
    then have "msg_PacketId m \<notin> set (ids q)" using emap_None [OF q1(2)] ids by simp
    then show ?thesis
      using qappend_ready [OF q1(2,4) None assms(2,3), of g oc] q1 None
      by (auto simp: Wait_waits [OF assms(3,2)] qinsert_def)
  next
    case (Some i)
    then have "msg_PacketId m \<in> set (ids q)" using emap_None [OF q1(2), of "msg_PacketId m"] ids by auto
    moreover have "Dup pm \<noteq> None" if "m = MPublish pm" for pm
      using assms(2) that by (auto simp: ready_defs Dup_def header_Flags_def)
    moreover from this have "\<exists>gm e. qinsert g q (msg_PacketId m) m oc = Some (gm, q1, e)"
      using q1(1) Some assms(3) by (cases m) (auto simp: qinsert_def)
    ultimately show ?thesis using q1 by (auto simp: Wait_waits [OF assms(3,2)])
  qed
qed

end
