(* ===== verification/Sess_Session.thy ===== *)
theory Sess_Session imports Sess_Ackstore Topics_Retained begin

text \<open>
  \<open>Session\<close> of \<open>tools/surgemq/sessions/session.go\<close>: the client's CONNECT packet, decoded from a
  copy of its own, its will, the topics it subscribed to and its six queues of unacknowledged
  packets. A pointer that may be nil is optional. The map of topics is an association list whose
  order stands for the order in which Go iterates over it.
\<close>

section \<open>State\<close>

abbreviation (input) defaultQueueSize :: int64 where "defaultQueueSize \<equiv> 16"

record session =
  Pub1ack :: "ackqueue option"
  Pub2in :: "ackqueue option"
  Pub2out :: "ackqueue option"
  Suback :: "ackqueue option"
  Unsuback :: "ackqueue option"
  Pingack :: "ackqueue option"
  Cmsg :: "connect_message option"
  Will :: "publish_message option"
  RetainedMsg :: "publish_message option"
  cbuf :: bytes
  rbuf :: bytes
  sess_topics :: "(bytes \<times> byte) list"
  initted :: bool
  sess_id :: bytes

definition new_session :: "bytes \<Rightarrow> session" where
  "new_session i =
     \<lparr>Pub1ack = None, Pub2in = None, Pub2out = None, Suback = None, Unsuback = None, Pingack = None,
      Cmsg = None, Will = None, RetainedMsg = None, cbuf = [], rbuf = [], sess_topics = [],
      initted = False, sess_id = i\<rparr>"

section \<open>Operations\<close>

text \<open>The part \<open>Init\<close> and \<open>Update\<close> share: the copy of the CONNECT packet.\<close>

definition store_connect ::
    "connect_message \<Rightarrow> session \<Rightarrow> ((connect_message \<times> session) \<times> merror option) option" where
  "store_connect msg s =
     (let (msg, l) = connect_Len msg in do {
        buf \<leftarrow> make_bytes l;
        let s = s\<lparr>Cmsg := Some NewConnectMessage\<rparr>;
        ((msg, buf), n, err) \<leftarrow> connect_Encode msg buf;
        let s = s\<lparr>cbuf := buf\<rparr>;
        case err of
          Some e \<Rightarrow> Some ((msg, s), Some e)
        | None \<Rightarrow> do {
            (c, n, err) \<leftarrow> connect_Decode NewConnectMessage (exact buf);
            Some ((msg, s\<lparr>Cmsg := Some c\<rparr>), err)
          }
      })"

text \<open>The errors of \<open>SetQoS\<close> and \<open>SetTopic\<close> are ignored.\<close>

definition make_will :: "connect_message \<Rightarrow> publish_message option" where
  "make_will c = do {
     (w, err) \<leftarrow> SetQoS NewPublishMessage (WillQos c);
     let w = fst (SetTopic w (willTopic c));
     let w = SetPayload w (willMessage c);
     SetRetain w (WillRetain c)
   }"

definition sess_Init ::
    "connect_message \<Rightarrow> session \<Rightarrow> ((connect_message \<times> session) \<times> serror option) option" where
  "sess_Init msg s =
     (if initted s then Some ((msg, s), Some EAlreadyInit)
      else do {
        ((msg, s), err) \<leftarrow> store_connect msg s;
        case err of
          Some e \<Rightarrow> Some ((msg, s), Some (ESessMessage e))
        | None \<Rightarrow> do {
            c \<leftarrow> Cmsg s;
            s \<leftarrow> (if WillFlag c then do { w \<leftarrow> make_will c; Some (s\<lparr>Will := Some w\<rparr>) } else Some s);
            q \<leftarrow> newAckqueue defaultQueueSize;
            Some ((msg, s\<lparr>sess_topics := [], sess_id := clientId msg, Pub1ack := Some q, Pub2in := Some q,
                           Pub2out := Some q, Suback := Some q, Unsuback := Some q, Pingack := Some q,
                           initted := True\<rparr>), None)
          }
      })"

definition sess_Update ::
    "connect_message \<Rightarrow> session \<Rightarrow> ((connect_message \<times> session) \<times> serror option) option" where
  "sess_Update msg s = map_option (\<lambda>(ms, e). (ms, map_option ESessMessage e)) (store_connect msg s)"

definition sess_RetainMessage ::
    "64 word \<Rightarrow> publish_message \<Rightarrow> session \<Rightarrow>
     ((64 word \<times> publish_message) \<times> session \<times> serror option) option" where
  "sess_RetainMessage g msg s = do {
     (msg, l) \<leftarrow> publish_Len msg;
     buf \<leftarrow> make_bytes l;
     let s = s\<lparr>RetainedMsg := Some NewPublishMessage\<rparr>;
     (((g, msg), buf), n, err) \<leftarrow> publish_Encode g msg buf;
     let s = s\<lparr>rbuf := buf\<rparr>;
     case err of
       Some e \<Rightarrow> Some ((g, msg), s, Some (ESessMessage e))
     | None \<Rightarrow> do {
         (r, n, err) \<leftarrow> publish_Decode NewPublishMessage (exact buf);
         Some ((g, msg), s\<lparr>RetainedMsg := Some r\<rparr>, map_option ESessMessage err)
       }
   }"

definition sess_AddTopic :: "session \<Rightarrow> bytes \<Rightarrow> byte \<Rightarrow> session \<times> serror option" where
  "sess_AddTopic s t q =
     (if \<not> initted s then (s, Some ENotInit)
      else (s\<lparr>sess_topics := AList.update t q (sess_topics s)\<rparr>, None))"

definition sess_RemoveTopic :: "session \<Rightarrow> bytes \<Rightarrow> session \<times> serror option" where
  "sess_RemoveTopic s t =
     (if \<not> initted s then (s, Some ENotInit)
      else (s\<lparr>sess_topics := AList.delete t (sess_topics s)\<rparr>, None))"

definition sess_Topics :: "session \<Rightarrow> bytes list \<times> bytes \<times> serror option" where
  "sess_Topics s =
     (if \<not> initted s then ([], [], Some ENotInit)
      else (map fst (sess_topics s), map snd (sess_topics s), None))"

definition sess_ID :: "session \<Rightarrow> bytes option" where
  "sess_ID s = map_option clientId (Cmsg s)"

section \<open>A session takes a copy of the CONNECT packet\<close>

text \<open>What a CONNECT stands for on the wire: a ready one, or one that was received and kept.\<close>

definition connect_carries :: "connect_message \<Rightarrow> connect_message \<Rightarrow> bool" where
  "connect_carries m m0 \<longleftrightarrow>
     connect_ready m0 \<and> clientId m = clientId m0 \<and> (m = m0 \<or> \<not> dirty m \<and> sdata (dbuf m) = connect_wire m0)"

lemma Type_client [simp]: "clientId (fst (header_Type m)) = clientId m"
  by (simp add: header_Type_def Let_def)

lemma Type_client': "header_Type m = (m', t) \<Longrightarrow> clientId m' = clientId m"
  by (metis Type_client fst_conv)

lemma Len_client: "connect_Len m = (m', l) \<Longrightarrow> clientId m' = clientId m"
  by (auto simp: connect_Len_def len_with_def SetRemainingLength_def Let_def split: if_splits)

lemma header_encode_client: "header_encode m dst = Some ((m', d), n, e) \<Longrightarrow> clientId m' = clientId m"
  using Type_client [of m]
  by (auto simp: header_encode_def Let_def bind_eq_Some_conv case_prod_beta split: if_splits)

lemma encode_head_client: "encode_head m dst ml = Some ((m', d), n, e) \<Longrightarrow> clientId m' = clientId m"
  by (auto simp: encode_head_def set_remlen_def SetRemainingLength_def ret_bind_def dest!: header_encode_client
      split: option.splits prod.splits if_splits)

lemma Encode_client: "connect_Encode m dst = Some ((m', d), n, e) \<Longrightarrow> clientId m' = clientId m"
  by (auto simp: connect_Encode_def encode_clean_def ret_bind_def Let_def bind_eq_Some_conv
      dest!: encode_head_client Type_client' split: option.splits prod.splits if_splits)

lemma carried_marshal:
  assumes "connect_carries m m0"
  shows "\<exists>m' m''. connect_Len m = (m', int (length (connect_wire m0))) \<and>
    connect_Encode m' (replicate (length (connect_wire m0)) 0) =
      Some ((m'', connect_wire m0), int (length (connect_wire m0)), None) \<and> clientId m'' = clientId m0"
proof (cases "m = m0")
  case True
  have r: "connect_ready m0" using assms by (simp add: connect_carries_def)
  obtain m' where l: "connect_Len m0 = (m', int (length (connect_wire m0)))"
    using connect.len_ready [OF r] by auto
  obtain m'' where e: "connect_Encode m' (replicate (length (connect_wire m0)) 0) =
      Some ((m'', connect_wire m0), int (length (connect_wire m0)), None)"
    using connect.encode_zeroed [OF r _ refl] l by auto
  show ?thesis using True l e Len_client [OF l] Encode_client [OF e] by auto
next
  case False
  then have d: "\<not> dirty m" "sdata (dbuf m) = connect_wire m0" "clientId m = clientId m0"
    using assms by (simp_all add: connect_carries_def)
  then show ?thesis using encode_clean_copy [of m]
    by (auto simp: connect_Len_def len_with_def connect_Encode_def slen_def wr_exact)
qed

lemma store_connect_copies:
  assumes "connect_carries m m0"
  shows "\<exists>m' c. store_connect m s = Some ((m', s\<lparr>cbuf := connect_wire m0, Cmsg := Some c\<rparr>), None) \<and>
    connect_same m0 c \<and> connect_carries c m0 \<and> clientId m' = clientId m0"
proof -
  have r: "connect_ready m0" using assms by (simp add: connect_carries_def)
  obtain m' m'' where m: "connect_Len m = (m', int (length (connect_wire m0)))"
      "connect_Encode m' (replicate (length (connect_wire m0)) 0) =
         Some ((m'', connect_wire m0), int (length (connect_wire m0)), None)" "clientId m'' = clientId m0"
    using carried_marshal [OF assms] by auto
  obtain c where c: "connect_Decode NewConnectMessage (exact (connect_wire m0)) =
      Some (c, int (length (connect_wire m0)), None)" "connect_same m0 c" "\<not> dirty c" "sdata (dbuf c) = connect_wire m0"
    using connect_wire_decode [OF r, of "[]"] by (auto simp: exact_def)
  have "connect_carries c m0" using r c by (simp add: connect_carries_def connect_same_def)
  then show ?thesis using m c by (auto simp: store_connect_def)
qed

text \<open>The will, as \<open>Init\<close> builds it from the flags and fields of the decoded packet.\<close>

lemma NewPublish_simp:
  "NewPublishMessage = \<lparr>remlen = 0, mtypeflags = Own [0x30], packetId = Own [], dbuf = exact [], dirty = True,
     topic = [], payload = []\<rparr>"
  by (simp add: NewPublishMessage_def header_SetType_def put_mtypeflags_def type_Valid_def DefaultFlags_def)

lemma make_will_fields:
  assumes "WillQos c \<le> QosExactlyOnce"
  shows "\<exists>w. make_will c = Some w \<and> QoS w = Some (WillQos c) \<and> Retain w = Some (WillRetain c) \<and>
    payload w = willMessage c \<and> topic w = (if ValidTopic (willTopic c) then willTopic c else [])"
proof -
  have "unat (WillQos c) = 0 \<or> unat (WillQos c) = 1 \<or> unat (WillQos c) = 2"
    using assms by (simp add: word_le_nat_alt) linarith
  then have "WillQos c = 0 \<or> WillQos c = 1 \<or> WillQos c = 2"
    by (elim disj_forward) (simp_all add: word_eq_iff_unsigned [where 'a = nat])
  then show ?thesis
    by (auto simp: make_will_def NewPublish_simp SetQoS_def update_flags_def put_mtypeflags_def SetTopic_def
        SetPayload_def SetRetain_def QoS_def Retain_def header_Flags_def)
qed

section \<open>Initialisation and update\<close>

lemma Init_ready:
  assumes "connect_carries m m0" and "\<not> initted s"
  shows "\<exists>m' s' c. sess_Init m s = Some ((m', s'), None) \<and> initted s' \<and> sess_id s' = clientId m0 \<and>
    Cmsg s' = Some c \<and> connect_same m0 c \<and> sess_topics s' = [] \<and>
    list_all idle_queue [Pub1ack s', Pub2in s', Pub2out s', Suback s', Unsuback s', Pingack s'] \<and>
    (if WillFlag m0
     then \<exists>w. Will s' = Some w \<and> QoS w = Some (WillQos m0) \<and> Retain w = Some (WillRetain m0) \<and>
            payload w = willMessage m0 \<and> topic w = (if ValidTopic (willTopic m0) then willTopic m0 else [])
     else Will s' = Will s)"
proof -
  obtain m' c where c: "store_connect m s = Some ((m', s\<lparr>cbuf := connect_wire m0, Cmsg := Some c\<rparr>), None)"
      "connect_same m0 c" "clientId m' = clientId m0"
    using store_connect_copies [OF assms(1)] by blast
  obtain q where q: "newAckqueue defaultQueueSize = Some q" "wf_ackqueue q" "contents q = []" "ping q = nil_ackmsg"
    using newAckqueue_empty [of defaultQueueSize] by auto
  have fl: "WillFlag c = WillFlag m0" "WillQos c = WillQos m0" "WillRetain c = WillRetain m0"
    using c(2) flags_only_connectFlags [of c m0] by (simp_all add: connect_same_def)
  have ws: "WillFlag m0 \<Longrightarrow> willTopic c = willTopic m0 \<and> willMessage c = willMessage m0"
    using c(2) by (simp add: connect_same_def)
  have "connect_ready m0" using assms(1) by (simp add: connect_carries_def)
  then have "WillQos c \<le> QosExactlyOnce" by (simp add: fl connect_ready_def connect_flags_ok_def)
  then obtain w where w: "make_will c = Some w" "QoS w = Some (WillQos c)" "Retain w = Some (WillRetain c)"
      "payload w = willMessage c" "topic w = (if ValidTopic (willTopic c) then willTopic c else [])"
    using make_will_fields by blast
  show ?thesis
    using assms(2) c q w fl ws by (cases "WillFlag m0") (auto simp: sess_Init_def idle_queue_def)
qed

lemma Init_once: "initted s \<Longrightarrow> sess_Init m s = Some ((m, s), Some EAlreadyInit)"
  by (simp add: sess_Init_def)

text \<open>\<open>Update\<close> replaces the packet and nothing else: the will of the new packet is not taken over.\<close>

lemma Update_ready:
  assumes "connect_carries m m0"
  shows "\<exists>m' c. sess_Update m s = Some ((m', s\<lparr>cbuf := connect_wire m0, Cmsg := Some c\<rparr>), None) \<and> connect_same m0 c"
  using store_connect_copies [OF assms, of s] by (auto simp: sess_Update_def)

section \<open>Topics\<close>

lemma Topics_AddTopic:
  assumes "initted s" and "distinct (map fst (sess_topics s))"
  shows "\<exists>s'. sess_AddTopic s t q = (s', None) \<and> initted s' \<and> distinct (map fst (sess_topics s')) \<and>
    map_of (sess_topics s') = (map_of (sess_topics s))(t \<mapsto> q)"
  using assms AList.distinct_update by (fastforce simp: sess_AddTopic_def AList.update_conv)

lemma Topics_RemoveTopic:
  assumes "initted s" and "distinct (map fst (sess_topics s))"
  shows "\<exists>s'. sess_RemoveTopic s t = (s', None) \<and> initted s' \<and> distinct (map fst (sess_topics s')) \<and>
    map_of (sess_topics s') = (map_of (sess_topics s))(t := None)"
  using assms AList.distinct_delete by (fastforce simp: sess_RemoveTopic_def AList.delete_conv)

end
