(* ===== verification/Sess_Manager.thy ===== *)
theory Sess_Manager imports Sess_Session begin

text \<open>
  The in-memory session provider, the provider registry and the session manager of
  \<open>tools/surgemq/sessions/memprovider.go\<close> and \<open>sessions.go\<close>. Sessions and providers are pointers:
  the provider's map holds addresses of sessions, and a second \<open>New\<close> under one identifier puts a
  new session beside the old one, which its holders keep.
\<close>

section \<open>Base64 for generated identifiers\<close>

text \<open>\<open>base64.URLEncoding\<close>: three bytes are four digits, the last group is padded with \<open>=\<close>.\<close>

definition b64_digit :: "byte \<Rightarrow> byte" where
  "b64_digit d =
     (if d < 26 then d + 65 else if d < 52 then d + 71 else if d < 62 then d - 4
      else if d = 62 then 45 else 95)"

fun b64_encode :: "bytes \<Rightarrow> bytes" where
  "b64_encode (a # b # c # r) =
     b64_digit (drop_bit 2 a) # b64_digit (push_bit 4 (a AND 3) OR drop_bit 4 b) #
     b64_digit (push_bit 2 (b AND 15) OR drop_bit 6 c) # b64_digit (c AND 63) # b64_encode r"
| "b64_encode [a, b] =
     [b64_digit (drop_bit 2 a), b64_digit (push_bit 4 (a AND 3) OR drop_bit 4 b),
      b64_digit (push_bit 2 (b AND 15)), 61]"
| "b64_encode [a] = [b64_digit (drop_bit 2 a), b64_digit (push_bit 4 (a AND 3)), 61, 61]"
| "b64_encode [] = []"

text \<open>
  \<open>sessionId\<close> reads 15 random bytes; the argument is what the reader gave, \<^const>\<open>None\<close> its error.
\<close>

definition mgr_sessionId :: "bytes option \<Rightarrow> bytes" where
  "mgr_sessionId r = (case r of None \<Rightarrow> [] | Some b \<Rightarrow> b64_encode b)"

section \<open>Provider, registry, manager\<close>

record sess_world =
  sheap :: "session list"
  pheap :: "nat \<Rightarrow> (bytes \<times> nat) list"
  sproviders :: "string \<Rightarrow> nat option"

definition NewSessProvider :: "sess_world \<Rightarrow> nat \<Rightarrow> sess_world" where
  "NewSessProvider w a = w\<lparr>pheap := (pheap w)(a := [])\<rparr>"

text \<open>A new session is allocated at the end of the heap.\<close>

definition prov_New :: "sess_world \<Rightarrow> nat \<Rightarrow> bytes \<Rightarrow> sess_world \<times> nat" where
  "prov_New w a i =
     (let p = length (sheap w)
      in (w\<lparr>sheap := sheap w @ [new_session i], pheap := (pheap w)(a := AList.update i p (pheap w a))\<rparr>, p))"

definition prov_Get :: "sess_world \<Rightarrow> nat \<Rightarrow> bytes \<Rightarrow> serror + nat" where
  "prov_Get w a i = (case map_of (pheap w a) i of None \<Rightarrow> Inl (ENoSession i) | Some p \<Rightarrow> Inr p)"

definition prov_Del :: "sess_world \<Rightarrow> nat \<Rightarrow> bytes \<Rightarrow> sess_world" where
  "prov_Del w a i = w\<lparr>pheap := (pheap w)(a := AList.delete i (pheap w a))\<rparr>"

definition prov_Save :: "sess_world \<Rightarrow> nat \<Rightarrow> bytes \<Rightarrow> sess_world \<times> serror option" where
  "prov_Save w a i = (w, None)"

definition prov_Count :: "sess_world \<Rightarrow> nat \<Rightarrow> nat" where
  "prov_Count w a = length (pheap w a)"

definition prov_Close :: "sess_world \<Rightarrow> nat \<Rightarrow> sess_world" where
  "prov_Close w a = w\<lparr>pheap := (pheap w)(a := [])\<rparr>"

text \<open>\<open>Register\<close> panics on a nil provider and on a name that is taken.\<close>

definition sess_Register :: "sess_world \<Rightarrow> string \<Rightarrow> nat option \<Rightarrow> sess_world option" where
  "sess_Register w name provider =
     (case provider of
        None \<Rightarrow> None
      | Some a \<Rightarrow>
          if sproviders w name \<noteq> None then None
          else Some (w\<lparr>sproviders := (sproviders w)(name \<mapsto> a)\<rparr>))"

definition sess_Unregister :: "sess_world \<Rightarrow> string \<Rightarrow> sess_world" where
  "sess_Unregister w name = w\<lparr>sproviders := (sproviders w)(name := None)\<rparr>"

definition sess_NewManager :: "sess_world \<Rightarrow> string \<Rightarrow> serror + nat" where
  "sess_NewManager w name =
     (case sproviders w name of None \<Rightarrow> Inl (EUnknownSession name) | Some a \<Rightarrow> Inr a)"

text \<open>The manager is its provider, but for \<open>New\<close>, which makes up an identifier for the empty one.\<close>

definition smgr_New :: "sess_world \<Rightarrow> nat \<Rightarrow> bytes option \<Rightarrow> bytes \<Rightarrow> sess_world \<times> nat" where
  "smgr_New w a r i = prov_New w a (if i = [] then mgr_sessionId r else i)"

section \<open>The provider is a store\<close>

text \<open>
  The provider's map of sessions and a session's map of topics promise the same: an update at one
  key, which leaves the others alone. \<open>val\<close> is what \<open>put\<close> stores: the QoS it is given, or the
  address of the session it makes.
\<close>

locale keyed_store =
  fixes put :: "'s \<Rightarrow> 'k \<Rightarrow> 'p \<Rightarrow> 's" and del :: "'s \<Rightarrow> 'k \<Rightarrow> 's" and val :: "'s \<Rightarrow> 'p \<Rightarrow> 'v"
    and inv :: "'s \<Rightarrow> bool" and entries :: "'s \<Rightarrow> ('k \<times> 'v) list"
  assumes put_law: "inv s \<Longrightarrow> inv (put s k v) \<and> map_of (entries (put s k v)) = (map_of (entries s))(k \<mapsto> val s v)"
    and del_law: "inv s \<Longrightarrow> inv (del s k) \<and> map_of (entries (del s k)) = (map_of (entries s))(k := None)"
    and distinct_law: "inv s \<Longrightarrow> distinct (map fst (entries s))"
begin

lemma put_get: "inv s \<Longrightarrow> map_of (entries (put s k v)) k' = (if k' = k then Some (val s v) else map_of (entries s) k')"
  using put_law by simp

lemma del_get: "inv s \<Longrightarrow> map_of (entries (del s k)) k' = (if k' = k then None else map_of (entries s) k')"
  using del_law by simp

lemma size_dom: "inv s \<Longrightarrow> length (entries s) = card (dom (map_of (entries s)))"
  using distinct_law by (metis dom_map_of_conv_image_fst distinct_card length_map list.set_map)

lemma put_size:
  assumes "inv s"
  shows "length (entries (put s k v)) = (if map_of (entries s) k = None then Suc (length (entries s)) else length (entries s))"
proof -
  have "dom (map_of (entries (put s k v))) = insert k (dom (map_of (entries s)))" using put_law [OF assms] by simp
  then show ?thesis
    using assms put_law [OF assms] finite_dom_map_of [of "entries s"]
    by (auto simp: size_dom card_insert_if dom_def)
qed

lemma put_del: "inv s \<Longrightarrow> map_of (entries s) k = None \<Longrightarrow> map_of (entries (del (put s k v) k)) = map_of (entries s)"
  using put_law [of s k v] del_law [of "put s k v" k] by (auto simp: fun_eq_iff)

end

text \<open>Every identifier has its own session, and it exists.\<close>

definition prov_inv :: "nat \<Rightarrow> sess_world \<Rightarrow> bool" where
  "prov_inv a w \<longleftrightarrow>
     distinct (map fst (pheap w a)) \<and> distinct (map snd (pheap w a)) \<and>
     (\<forall>p \<in> snd ` set (pheap w a). p < length (sheap w))"

lemma set_AList_update: "set (AList.update k v xs) \<subseteq> insert (k, v) (set xs)"
  by (induction xs) auto

lemma distinct_snd_update:
  "distinct (map snd xs) \<Longrightarrow> v \<notin> snd ` set xs \<Longrightarrow> distinct (map snd (AList.update k v xs))"
proof (induction xs)
  case (Cons x xs)
  then show ?case using set_AList_update [of k v xs] by (cases x) auto
qed simp

lemma distinct_snd_delete: "distinct (map snd xs) \<Longrightarrow> distinct (map snd (AList.delete k xs))"
  by (auto simp: AList.delete_eq distinct_map intro: inj_on_subset)

interpretation prov: keyed_store "\<lambda>w i u. fst (prov_New w a i)" "\<lambda>w. prov_Del w a"
  "\<lambda>w (u :: unit). length (sheap w)" "prov_inv a" "\<lambda>w. pheap w a" for a
proof unfold_locales
  fix w :: sess_world and i and u :: unit
  assume i: "prov_inv a w"
  let ?p = "length (sheap w)" and ?m = "pheap w a"
  have new: "?p \<notin> snd ` set ?m" using i by (auto simp: prov_inv_def)
  have "q < Suc ?p" if "q \<in> snd ` set (AList.update i ?p ?m)" for q
    using that set_AList_update [of i ?p ?m] i by (auto simp: prov_inv_def dest!: subsetD)
  moreover have "distinct (map fst (AList.update i ?p ?m))" "distinct (map snd (AList.update i ?p ?m))"
    using i new AList.distinct_update [of ?m i ?p] distinct_snd_update [of ?m ?p i] by (simp_all add: prov_inv_def)
  ultimately have "prov_inv a (fst (prov_New w a i))"
    by (simp add: prov_inv_def prov_New_def Let_def)
  then show "prov_inv a (fst (prov_New w a i)) \<and>
      map_of (pheap (fst (prov_New w a i)) a) = (map_of (pheap w a))(i \<mapsto> length (sheap w))"
    by (simp add: prov_New_def Let_def fun_eq_iff AList.update_conv)
  show "prov_inv a (prov_Del w a i) \<and> map_of (pheap (prov_Del w a i) a) = (map_of (pheap w a))(i := None)"
    using i by (auto simp: prov_inv_def prov_Del_def AList.delete_conv AList.distinct_delete distinct_snd_delete)
      (auto simp: AList.delete_eq)
qed (simp add: prov_inv_def)

interpretation topic_table: keyed_store "\<lambda>s t q. fst (sess_AddTopic s t q)" "\<lambda>s t. fst (sess_RemoveTopic s t)"
  "\<lambda>s q. q" "\<lambda>s :: session. initted s \<and> distinct (map fst (sess_topics s))" sess_topics
proof unfold_locales
  fix s :: session and t q
  assume i: "initted s \<and> distinct (map fst (sess_topics s))"
  show "(initted (fst (sess_AddTopic s t q)) \<and> distinct (map fst (sess_topics (fst (sess_AddTopic s t q))))) \<and>
      map_of (sess_topics (fst (sess_AddTopic s t q))) = (map_of (sess_topics s))(t \<mapsto> q)"
    using Topics_AddTopic [of s t q] i by auto
  show "(initted (fst (sess_RemoveTopic s t)) \<and> distinct (map fst (sess_topics (fst (sess_RemoveTopic s t))))) \<and>
      map_of (sess_topics (fst (sess_RemoveTopic s t))) = (map_of (sess_topics s))(t := None)"
    using Topics_RemoveTopic [of s t] i by auto
qed simp

end
