(* ===== verification/Props_Sessions.thy ===== *)
theory Props_Sessions imports Props_Message Sess_Manager begin

text \<open>
  The properties of sessions: the queue of unacknowledged packets is first in, first out and loses
  nothing, its ring is as large as it must be, and a session is initialised from a copy of the
  CONNECT packet.
\<close>

section \<open>The queue of unacknowledged packets\<close>

text \<open>
  Every history of a queue: the entries \<open>Wait\<close> took in, and those \<open>Acked\<close> gave out. The answer to
  a PING, which \<open>Acked\<close> puts in front, never enters the ring.
\<close>

inductive ack_history :: "ackqueue \<Rightarrow> ackmsg list \<Rightarrow> ackmsg list \<Rightarrow> bool" where
  start: "newAckqueue n = Some q \<Longrightarrow> 1 \<le> unat n \<Longrightarrow> unat n \<le> 2 ^ 62 \<Longrightarrow> ack_history q [] []"
| wait: "ack_history q ins outs \<Longrightarrow> Wait g q m oc = Some (gm, q', e) \<Longrightarrow>
    ack_history q' (ins @ drop (length (contents q)) (contents q')) outs"
| ack: "ack_history q ins outs \<Longrightarrow> Ack g q m = Some (gm, q', e) \<Longrightarrow> ack_history q' ins outs"
| acked: "ack_history q ins outs \<Longrightarrow> Acked q = Some (q', r) \<Longrightarrow>
    ack_history q' ins (outs @ drop (length (ping_done (ping q))) r)"

inductive_cases ack_history_start: "ack_history q [] outs"

text \<open>
  C15: In every history of a queue, errors and duplicates included, the entries that were given out
  followed by those still waiting are the entries that were taken in, in the same order: none is
  lost, repeated or overtaken. Only completed entries were given out, and no two waiting entries
  have the same packet identifier.
\<close>

theorem ackqueue_fifo:
  assumes "ack_history q ins outs"
  shows "map entry_key ins = map entry_key outs @ map entry_key (contents q) \<and>
    list_all cycle_done outs \<and> distinct (ids q) \<and> wf_ackqueue q"
  using assms
proof (induction rule: ack_history.induct)
  case (start n q)
  then show ?case using newAckqueue_empty [of n] by (auto simp: ids_def)
next
  case (wait q ins outs g m oc gm q' e)
  then show ?case using ackq.wait_keys [of q] ackq.wait_law [of q] ids_distinct [of q'] by auto
next
  case (ack q ins outs g m gm q' e)
  then show ?case using ackq.ack_keys [of q] ackq.ack_law [of q] ids_distinct [of q'] by auto
next
  case (acked q ins outs q' r)
  then have r: "drop (length (ping_done (ping q))) r = takeWhile cycle_done (contents q)"
      "wf_ackqueue q'" "contents q' = dropWhile cycle_done (contents q)"
    using ackq.acked_law [of q] by auto
  have "map entry_key (contents q) =
      map entry_key (takeWhile cycle_done (contents q)) @ map entry_key (dropWhile cycle_done (contents q))"
    by (simp flip: map_append)
  then show ?case
    using acked.IH r ids_distinct [of q'] by (auto simp: list_all_iff dest: set_takeWhileD)
qed

lemma ex_queue: "\<exists>q. newAckqueue 16 = Some q \<and> wf_ackqueue q \<and> contents q = [] \<and> ack_history q [] [] \<and>
    length (contents q) < 2 ^ 62"
proof -
  obtain q where q: "newAckqueue 16 = Some q" "wf_ackqueue q" "contents q = []"
    using newAckqueue_empty [of 16] by auto
  have "length (contents q) < 2 ^ 62" unfolding q(3) by simp
  moreover have "ack_history q [] []" by (rule ack_history.start [OF q(1)]) simp_all
  ultimately show ?thesis using q by blast
qed

definition ex_entry :: ackmsg where
  "ex_entry = \<lparr>Mtype = PUBLISH, State = RESERVED, Pktid = 5, Msgbuf = msg_wire (MPublish ex_publish),
     Ackbuf = [], OnComplete = None\<rparr>"

lemma ex_publish_waits: "waits (MPublish ex_publish)" "header_PacketId ex_publish = 5"
  by (simp_all add: ex_publish_def QoS_def header_Flags_def header_PacketId_def)

lemma ex_waiting: "\<exists>q. wf_ackqueue q \<and> contents q = [ex_entry] \<and> ack_history q [ex_entry] []"
proof -
  obtain q where q: "wf_ackqueue q" "contents q = []" "ack_history q [] []" "length (contents q) < 2 ^ 62"
    using ex_queue by blast
  have i: "ids q = []" by (simp add: ids_def q(2))
  obtain gm q' where w: "Wait 0 q (MPublish ex_publish) None = Some (gm, q', None)" "wf_ackqueue q'"
      "contents q' = [ex_entry]"
    using Wait_ready [OF q(1) ex_publish_ready ex_publish_waits(1) q(4), of 0 None]
    by (auto simp: ex_publish_waits(2) i q(2) ex_entry_def)
  then show ?thesis using ack_history.wait [OF q(3) w(1)] q(2) by auto
qed

theorem ackqueue_fifo_witness:
  "\<exists>q. ack_history q [ex_entry] [] \<and> map entry_key (contents q) = [entry_key ex_entry]"
proof -
  obtain q where "ack_history q [ex_entry] []" using ex_waiting by blast
  then show ?thesis using ackqueue_fifo [of q "[ex_entry]" "[]"] by auto
qed

text \<open>
  \<open>Wait\<close> of a packet that is ready to be sent puts an entry with its bytes at the end of the
  queue, growing it when it is full; but a packet whose identifier is waiting already is dropped,
  and no error says so.
\<close>

theorem wait_enqueues:
  assumes "wf_ackqueue q" and "msg_ready m" and "waits m" and "length (contents q) < 2 ^ 62"
  shows "\<exists>gm q'. Wait g q m oc = Some (gm, q', None) \<and> wf_ackqueue q' \<and>
    contents q' = (if msg_PacketId m \<in> set (ids q) then contents q
      else contents q @ [\<lparr>Mtype = msg_kind m, State = RESERVED, Pktid = msg_PacketId m,
             Msgbuf = msg_wire m, Ackbuf = [], OnComplete = oc\<rparr>])"
  by (rule Wait_ready [OF assms])

theorem wait_enqueues_witness:
  "\<exists>q gm q'. contents q = [ex_entry] \<and> Wait 0 q (MPublish ex_publish) (Some (IVal 0 1)) = Some (gm, q', None) \<and>
     contents q' = [ex_entry]"
proof -
  obtain q where q: "wf_ackqueue q" "contents q = [ex_entry]" using ex_waiting by blast
  then have "length (contents q) < 2 ^ 62" by (simp del: length_contents)
  moreover have "msg_PacketId (MPublish ex_publish) \<in> set (ids q)"
    by (simp add: ids_def q(2) ex_entry_def ex_publish_waits(2))
  ultimately show ?thesis
    using wait_enqueues [OF q(1) ex_publish_ready ex_publish_waits(1), of 0 "Some (IVal 0 1)"] q(2) by auto
qed

text \<open>
  An acknowledgement that completes a packet's cycle gets the packet, its acknowledgement and
  its callback out of the queue at the next \<open>Acked\<close>, provided everything older is complete.
\<close>

theorem ack_gets_out:
  assumes "wf_ackqueue q" and "contents q = xs @ a # ys" and "\<forall>x \<in> set xs. cycle_done x"
    and "msg_ready m" and "msg_kind m \<in> {PUBACK, PUBREL, PUBCOMP, SUBACK, UNSUBACK}" and "msg_PacketId m = Pktid a"
  shows "\<exists>gm q1 q2 out. Ack g q m = Some (gm, q1, None) \<and> Acked q1 = Some (q2, out) \<and>
    a\<lparr>State := msg_kind m, Ackbuf := msg_wire m\<rparr> \<in> set out"
  by (rule ackq.ack_delivers [OF assms])

definition ex_puback :: header where
  "ex_puback = \<lparr>remlen = 0, mtypeflags = Own [0x40], packetId = Own [0, 5], dbuf = exact [], dirty = True\<rparr>"

lemma ex_puback_ready: "msg_ready (MPuback ex_puback)" "msg_kind (MPuback ex_puback) = PUBACK"
    "msg_PacketId (MPuback ex_puback) = Pktid ex_entry"
  by (simp_all add: ack_ready_def typed_def type_byte_def ex_puback_def header_PacketId_def ex_entry_def id_set_def
      type_Valid_def DefaultFlags_def)

theorem ack_gets_out_witness:
  "\<exists>q gm q1 q2 out. contents q = [ex_entry] \<and> Ack 0 q (MPuback ex_puback) = Some (gm, q1, None) \<and>
     Acked q1 = Some (q2, out) \<and>
     ex_entry\<lparr>State := PUBACK, Ackbuf := msg_wire (MPuback ex_puback)\<rparr> \<in> set out"
proof -
  obtain q where q: "wf_ackqueue q" "contents q = [] @ ex_entry # []" using ex_waiting by auto
  show ?thesis
    using ack_gets_out [OF q _ ex_puback_ready(1) _ ex_puback_ready(3), of 0] ex_puback_ready(2) q(2) by auto
qed

text \<open>
  The ring of a new queue is the smallest power of two that holds \<open>n\<close> entries, for every \<open>n\<close>
  from 1 to \<open>2 ^ 62\<close>.
\<close>

theorem newAckqueue_size:
  assumes "1 \<le> unat n" and "unat n \<le> 2 ^ 62"
  shows "\<exists>q k. newAckqueue n = Some q \<and> length (ring q) = 2 ^ k \<and> unat n \<le> 2 ^ k \<and>
    (\<forall>j. unat n \<le> 2 ^ j \<longrightarrow> k \<le> j)"
  using newAckqueue_empty [OF assms] by blast

theorem newAckqueue_size_witness:
  "\<exists>q k. newAckqueue 17 = Some q \<and> length (ring q) = 2 ^ k \<and> unat (17 :: int64) \<le> 2 ^ k \<and>
    (\<forall>j. unat (17 :: int64) \<le> 2 ^ j \<longrightarrow> k \<le> j)"
  by (rule newAckqueue_size) simp_all

section \<open>Sessions\<close>

text \<open>
  \<open>Init\<close> of a new session with a CONNECT that is ready to be sent, or as it was received,
  keeps a decoded copy of it, builds the will from its flags and fields when it has one, and starts
  the six queues and the topics empty; \<open>Update\<close> replaces the copy and nothing else, so a session
  that is taken up again keeps the will of its first CONNECT.
\<close>

theorem session_Init_Update:
  assumes "connect_carries m m0" and "\<not> initted s" and "connect_carries n n0"
  shows "\<exists>m' s' c n' d. sess_Init m s = Some ((m', s'), None) \<and> initted s' \<and> sess_id s' = clientId m0 \<and>
    Cmsg s' = Some c \<and> connect_same m0 c \<and> sess_topics s' = [] \<and>
    list_all idle_queue [Pub1ack s', Pub2in s', Pub2out s', Suback s', Unsuback s', Pingack s'] \<and>
    (if WillFlag m0
     then \<exists>w. Will s' = Some w \<and> QoS w = Some (WillQos m0) \<and> Retain w = Some (WillRetain m0) \<and>
            payload w = willMessage m0 \<and> topic w = (if ValidTopic (willTopic m0) then willTopic m0 else [])
     else Will s' = Will s) \<and>
    sess_Update n s' = Some ((n', s'\<lparr>cbuf := connect_wire n0, Cmsg := Some d\<rparr>), None) \<and> connect_same n0 d"
proof -
  obtain m' s' c where 1: "sess_Init m s = Some ((m', s'), None) \<and> initted s' \<and> sess_id s' = clientId m0 \<and>
    Cmsg s' = Some c \<and> connect_same m0 c \<and> sess_topics s' = [] \<and>
    list_all idle_queue [Pub1ack s', Pub2in s', Pub2out s', Suback s', Unsuback s', Pingack s'] \<and>
    (if WillFlag m0
     then \<exists>w. Will s' = Some w \<and> QoS w = Some (WillQos m0) \<and> Retain w = Some (WillRetain m0) \<and>
            payload w = willMessage m0 \<and> topic w = (if ValidTopic (willTopic m0) then willTopic m0 else [])
     else Will s' = Will s)"
    using Init_ready [OF assms(1,2)] by blast
  then show ?thesis using Update_ready [OF assms(3), of s'] by blast
qed

definition ex_will :: connect_message where
  "ex_will = NewConnectMessage\<lparr>version := 4, connectFlags := 14, clientId := [99], willTopic := [119],
     willMessage := [1], dirty := True\<rparr>"

lemma ex_will_carries: "connect_carries ex_will ex_will"
  by (simp add: connect_carries_def connect_ready_def ex_will_def NewConnectMessage_def header_SetType_def
      put_mtypeflags_def type_Valid_def DefaultFlags_def typed_def type_byte_def SupportedVersions_def
      connect_lengths_def connect_flags_ok_def connect_client_ok_def validClientId_def client_id_char_def
      WillQos_def WillFlag_def UsernameFlag_def)

theorem session_Init_Update_witness:
  "\<exists>m' s' w n' s''. sess_Init ex_will (new_session [99]) = Some ((m', s'), None) \<and> Will s' = Some w \<and>
     topic w = [119] \<and> payload w = [1] \<and> QoS w = Some 1 \<and>
     sess_Update (ex_will\<lparr>willTopic := [120]\<rparr>) s' = Some ((n', s''), None) \<and> Will s'' = Some w"
proof -
  have c2: "connect_carries (ex_will\<lparr>willTopic := [120]\<rparr>) (ex_will\<lparr>willTopic := [120]\<rparr>)"
    using ex_will_carries
    by (simp add: connect_carries_def connect_ready_def ex_will_def NewConnectMessage_def header_SetType_def
      put_mtypeflags_def type_Valid_def DefaultFlags_def typed_def type_byte_def SupportedVersions_def
      connect_lengths_def connect_flags_ok_def connect_client_ok_def validClientId_def client_id_char_def
      WillQos_def WillFlag_def UsernameFlag_def)
  have i: "\<not> initted (new_session [99])" by (simp add: new_session_def)
  have f: "WillFlag ex_will" "WillQos ex_will = 1" "willTopic ex_will = [119]" "willMessage ex_will = [1]"
    by (simp_all add: ex_will_def WillFlag_def WillQos_def)
  have v: "ValidTopic [119]" by (simp add: ValidTopic_def)
  show ?thesis
    using session_Init_Update [OF ex_will_carries i c2] by (auto simp: f v)
qed

end
