(* ===== verification/Svc_Buffer.thy ===== *)
theory Svc_Buffer imports Sess_Pow2 Go_Slices begin

text \<open>
  The ring buffer of \<open>tools/surgemq/service/buffer.go\<close>, between the goroutine that fills it and
  the one that empties it. A position is the number of bytes that have ever been produced or
  consumed; it is an \<open>int64\<close> in the code and an \<^typ>\<open>int\<close> here, as it overflows only after
  \<open>2 ^ 63\<close> bytes through one connection. Positions are masked to find a byte's place.

  An operation can fail to return: it sleeps on a condition variable until the other side signals,
  it waits for a mutex, it panics, or it loops for ever. Between two operations the mutexes are free, unless
  a return path has left one locked; whoever locks that one waits for ever. So the state holds the
  two mutexes, and an operation gives the state it leaves with an \<open>outcome\<close>. An operation that
  sleeps has released its mutex and goes on, when woken, with its \<open>_wake\<close> function.
\<close>

unbundle bit_operations_syntax

section \<open>State\<close>

datatype berror =
    BEOF
  | BNegativeCount
  | BBufferFull
  | BInsufficientData
  | BSizePower int int
  | BSizeLeast int int
  | BIo nat

datatype 'a outcome = Return 'a | Sleep | Stuck | Panic | Diverge

record buffer =
  bbuf :: bytes
  tmpb :: bytes
  bsize :: int
  bmask :: int
  bdone :: bool
  pseq :: int
  pgate :: int
  cseq :: int
  pmutex :: bool
  cmutex :: bool
  cwait :: int
  pwait :: int

abbreviation (input) defaultBufferSize :: int where "defaultBufferSize \<equiv> 1024 * 256"
abbreviation (input) defaultReadBlockSize :: int where "defaultReadBlockSize \<equiv> 8192"
abbreviation (input) defaultWriteBlockSize :: int where "defaultWriteBlockSize \<equiv> 8192"

definition newBuffer :: "int64 \<Rightarrow> berror + buffer" where
  "newBuffer sz =
     (if sint sz < 0 then Inl BNegativeCount
      else let sz = (if sz = 0 then of_int defaultBufferSize else sz)
      in if \<not> powerOfTwo64 sz
         then Inl (BSizePower (sint sz) (sint (roundUpPowerOfTwo64 sz)))
         else if sint sz < 2 * defaultReadBlockSize
         then Inl (BSizeLeast (2 * defaultReadBlockSize) (2 * defaultReadBlockSize))
         else Inr \<lparr>bbuf = replicate (nat (sint sz)) 0, tmpb = [], bsize = sint sz, bmask = sint sz - 1,
                   bdone = False, pseq = 0, pgate = 0, cseq = 0, pmutex = False, cmutex = False,
                   cwait = 0, pwait = 0\<rparr>)"

type_synonym 'a bop = "buffer \<times> 'a outcome"

text \<open>
  \<open>ready_p\<close> and \<open>ready_c\<close> are \<open>L.Lock(); Broadcast(); L.Unlock()\<close> on \<open>pcond\<close> and \<open>ccond\<close>. Whom
  they wake is no part of the state: a sleeper is an operation that has not returned yet.
\<close>

definition ready_p :: "buffer \<Rightarrow> 'a \<Rightarrow> 'a bop" where
  "ready_p b r = (b, if pmutex b then Stuck else Return r)"

definition ready_c :: "buffer \<Rightarrow> 'a \<Rightarrow> 'a bop" where
  "ready_c b r = (b, if cmutex b then Stuck else Return r)"

definition buf_Len :: "buffer \<Rightarrow> int" where
  "buf_Len b = pseq b - cseq b"

text \<open>\<open>Close\<close> locks \<open>pcond\<close>'s mutex twice and never \<open>ccond\<close>'s.\<close>

definition buf_Close :: "buffer \<Rightarrow> unit bop" where
  "buf_Close b = ready_p (b\<lparr>bdone := True\<rparr>) ()"

section \<open>The producer\<close>

text \<open>
  The loop of \<open>waitForWriteSpace\<close>, entered with the mutex held. It leaves by the first return with
  the mutex still locked.
\<close>

definition space_loop :: "buffer \<Rightarrow> int \<Rightarrow> int \<Rightarrow> (int \<times> int \<times> berror option) bop" where
  "space_loop b ppos n =
     (if cseq b < ppos + n - bsize b
      then if bdone b then (b, Return (0, 0, Some BEOF))
           else (b\<lparr>pwait := pwait b + 1, pmutex := False\<rparr>, Sleep)
      else (b\<lparr>pgate := cseq b, pmutex := False\<rparr>, Return (ppos, n, None)))"

definition waitForWriteSpace :: "buffer \<Rightarrow> int \<Rightarrow> (int \<times> int \<times> berror option) bop" where
  "waitForWriteSpace b n =
     (if bdone b then (b, Return (0, 0, Some BEOF))
      else let ppos = pseq b; wrap = ppos + n - bsize b
      in if wrap > pgate b \<or> pgate b > ppos
         then if pmutex b then (b, Stuck) else space_loop (b\<lparr>pmutex := True\<rparr>) ppos n
         else (b, Return (ppos, n, None)))"

text \<open>Woken, it takes the mutex again and looks again.\<close>

definition space_wake :: "buffer \<Rightarrow> int \<Rightarrow> int \<Rightarrow> (int \<times> int \<times> berror option) bop" where
  "space_wake b ppos n =
     (if pmutex b then (b, Stuck) else space_loop (b\<lparr>pmutex := True\<rparr>) ppos n)"

text \<open>\<open>after\<close> sequences two operations: the second runs if the first returned.\<close>

definition after :: "'a bop \<Rightarrow> (buffer \<Rightarrow> 'a \<Rightarrow> 'b bop) \<Rightarrow> 'b bop" where
  "after r k = (case r of (b, Return x) \<Rightarrow> k b x | (b, Sleep) \<Rightarrow> (b, Sleep) | (b, Stuck) \<Rightarrow> (b, Stuck)
     | (b, Panic) \<Rightarrow> (b, Panic) | (b, Diverge) \<Rightarrow> (b, Diverge))"

text \<open>
  \<open>ringCopy\<close> copies round and round until all of \<open>src\<close> is in; into an empty ring it would never
  end, and it panics when the start is outside the ring.
\<close>

partial_function (option) ring_loop :: "bytes \<Rightarrow> bytes \<Rightarrow> int \<Rightarrow> int \<Rightarrow> (bytes \<times> int) option option" where
  "ring_loop dst src start i =
     (if src = [] then Some (Some (dst, i))
      else case copy_at dst start src of
        None \<Rightarrow> Some None
      | Some (dst, l) \<Rightarrow>
          (if drop (nat l) src \<noteq> [] then ring_loop dst (drop (nat l) src) 0 (i + l)
           else Some (Some (dst, i + l))))"

definition ringCopy :: "bytes \<Rightarrow> bytes \<Rightarrow> int \<Rightarrow> (bytes \<times> int) option option" where
  "ringCopy dst src start = ring_loop dst src start 0"

type_synonym count_ret = "int \<times> berror option"

text \<open>What \<open>Write\<close> does once it has its space.\<close>

definition write_rest :: "bytes \<Rightarrow> buffer \<Rightarrow> int \<times> int \<times> berror option \<Rightarrow> count_ret bop" where
  "write_rest p b r =
     (case r of
        (start, cnt, Some e) \<Rightarrow> (b, Return (0, Some e))
      | (start, cnt, None) \<Rightarrow>
        (case ringCopy (bbuf b) p (start AND bmask b) of
           None \<Rightarrow> (b, Diverge)
         | Some None \<Rightarrow> (b, Panic)
         | Some (Some (d, n)) \<Rightarrow> ready_c (b\<lparr>bbuf := d, pseq := start + int (length p)\<rparr>) (n, None)))"

definition buf_Write :: "buffer \<Rightarrow> bytes \<Rightarrow> count_ret bop" where
  "buf_Write b p =
     (if bdone b then (b, Return (0, Some BEOF))
      else after (waitForWriteSpace b (int (length p))) (write_rest p))"

text \<open>\<open>WriteWait\<close> gives the part of the ring to fill: its first index and its length.\<close>

definition buf_WriteWait :: "buffer \<Rightarrow> int \<Rightarrow> ((int \<times> int) \<times> bool \<times> berror option) bop" where
  "buf_WriteWait b n =
     after (waitForWriteSpace b n) (\<lambda>b (start, cnt, err).
       case err of
         Some e \<Rightarrow> (b, Return ((0, 0), False, Some e))
       | None \<Rightarrow>
         let pstart = start AND bmask b
         in if pstart + cnt > bsize b
            then (b, if pstart \<le> int (length (bbuf b))
                     then Return ((pstart, int (length (bbuf b)) - pstart), True, None) else Panic)
            else (b, if 0 \<le> cnt then Return ((pstart, cnt), False, None) else Panic))"

definition buf_WriteCommit :: "buffer \<Rightarrow> int \<Rightarrow> count_ret bop" where
  "buf_WriteCommit b n =
     after (waitForWriteSpace b n) (\<lambda>b (start, cnt, err).
       case err of
         Some e \<Rightarrow> (b, Return (0, Some e))
       | None \<Rightarrow> ready_c (b\<lparr>pseq := start + cnt\<rparr>) (cnt, None))"

text \<open>The bytes of the slice that \<open>WriteWait\<close> gave, and the ring after the caller has written \<open>w\<close> to it.\<close>

definition ring_region :: "buffer \<Rightarrow> int \<times> int \<Rightarrow> bytes" where
  "ring_region b r = take (nat (snd r)) (drop (nat (fst r)) (bbuf b))"

definition fill_ring :: "buffer \<Rightarrow> int \<times> int \<Rightarrow> bytes \<Rightarrow> buffer" where
  "fill_ring b r w = b\<lparr>bbuf := take (nat (fst r)) (bbuf b) @ w @ drop (nat (fst r) + length w) (bbuf b)\<rparr>"

text \<open>
  \<open>ReadFrom\<close> reads until an error. The reader is a list of what its calls return; a call that
  does not return is the end of the list. A reader never gives more than it is asked for.
\<close>

definition closing :: "buffer \<Rightarrow> 'a \<Rightarrow> 'a bop" where
  "closing b r = after (buf_Close b) (\<lambda>b _. (b, Return r))"

fun buf_ReadFrom :: "buffer \<Rightarrow> int \<Rightarrow> (bytes \<times> berror option) list \<Rightarrow> count_ret bop" where
  "buf_ReadFrom b tot rs =
     (if bdone b then closing b (tot, Some BEOF)
      else case waitForWriteSpace b defaultReadBlockSize of
        (b, Return (start, cnt, None)) \<Rightarrow>
          (case rs of
             [] \<Rightarrow> (b, Sleep)
           | (inp, err) # rs \<Rightarrow>
             (let pstart = start AND bmask b;
                  pend = (if pstart + cnt > bsize b then bsize b else pstart + cnt);
                  inp = take (nat (pend - pstart)) inp
              in case copy_at (bbuf b) pstart inp of
                None \<Rightarrow> (b, Panic)
              | Some (d, n) \<Rightarrow>
                (case (if n > 0 then buf_WriteCommit (b\<lparr>bbuf := d\<rparr>) n else (b\<lparr>bbuf := d\<rparr>, Return (0, None))) of
                   (b, Return (_, None)) \<Rightarrow>
                     (case err of
                        Some e \<Rightarrow> closing b (tot + n, Some e)
                      | None \<Rightarrow> buf_ReadFrom b (tot + n) rs)
                 | (b, Return (_, Some e)) \<Rightarrow> closing b (tot + n, Some e)
                 | r \<Rightarrow> r)))
      | (b, Return (_, _, Some e)) \<Rightarrow> closing b (0, Some e)
      | (b, Sleep) \<Rightarrow> (b, Sleep)
      | (b, Stuck) \<Rightarrow> (b, Stuck)
      | (b, Panic) \<Rightarrow> (b, Panic)
      | (b, Diverge) \<Rightarrow> (b, Diverge))"

declare buf_ReadFrom.simps [simp del]

section \<open>The consumer\<close>

text \<open>
  A read without copying gives a slice: of the ring, by its first index and its length, or of the
  buffer \<open>tmp\<close>, when the bytes wrap around the end of the ring.
\<close>

datatype view = InRing int int | InTmp bytes

fun view_bytes :: "buffer \<Rightarrow> view \<Rightarrow> bytes" where
  "view_bytes b (InRing i n) = take (nat n) (drop (nat i) (bbuf b))"
| "view_bytes b (InTmp p) = p"

text \<open>
  The slice with the spare bytes a reader could reach: behind a slice of the ring is the rest of the
  ring; what is behind the bytes in \<open>tmp\<close> is an argument, as it depends on how \<open>append\<close> grew it.
\<close>

fun view_slice :: "buffer \<Rightarrow> bytes \<Rightarrow> view \<Rightarrow> slice" where
  "view_slice b sp (InRing i n) = Slice (take (nat n) (drop (nat i) (bbuf b))) (drop (nat (i + n)) (bbuf b))"
| "view_slice b sp (InTmp p) = Slice p sp"

text \<open>The \<open>n\<close> bytes from position \<open>cpos\<close>, for \<open>ReadPeek\<close> and \<open>ReadWait\<close>.\<close>

definition ring_view :: "buffer \<Rightarrow> int \<Rightarrow> int \<Rightarrow> berror option \<Rightarrow> (view \<times> berror option) bop" where
  "ring_view b cpos n err =
     (let cindex = cpos AND bmask b
      in if cindex + n > bsize b
         then case sub_list (bbuf b) cindex (int (length (bbuf b))) of
           None \<Rightarrow> (b, Panic)
         | Some p \<Rightarrow>
           (case sub_list (bbuf b) 0 (n - int (length p)) of
              None \<Rightarrow> (b, Panic)
            | Some q \<Rightarrow> (b\<lparr>tmpb := p @ q\<rparr>, Return (InTmp (p @ q), err)))
         else (b, if sub_list (bbuf b) cindex (cindex + n) = None then Panic else Return (InRing cindex n, err)))"

definition no_view :: view where
  "no_view = InTmp []"

definition peek_loop :: "buffer \<Rightarrow> int \<Rightarrow> int \<Rightarrow> (view \<times> berror option) bop" where
  "peek_loop b cpos n =
     (if cpos \<ge> pseq b
      then if bdone b then (b, Return (no_view, Some BEOF))
           else (b\<lparr>cwait := cwait b + 1, cmutex := False\<rparr>, Sleep)
      else let m = pseq b - cpos; b = b\<lparr>cmutex := False\<rparr>
      in if m \<ge> n then ring_view b cpos n None else ring_view b cpos m (Some BInsufficientData))"

definition buf_ReadPeek :: "buffer \<Rightarrow> int \<Rightarrow> (view \<times> berror option) bop" where
  "buf_ReadPeek b n =
     (if n > bsize b then (b, Return (no_view, Some BBufferFull))
      else if n < 0 then (b, Return (no_view, Some BNegativeCount))
      else if cmutex b then (b, Stuck)
      else peek_loop (b\<lparr>cmutex := True\<rparr>) (cseq b) n)"

definition peek_wake :: "buffer \<Rightarrow> int \<Rightarrow> int \<Rightarrow> (view \<times> berror option) bop" where
  "peek_wake b cpos n = (if cmutex b then (b, Stuck) else peek_loop (b\<lparr>cmutex := True\<rparr>) cpos n)"

definition readwait_loop :: "buffer \<Rightarrow> int \<Rightarrow> int \<Rightarrow> (view \<times> berror option) bop" where
  "readwait_loop b cpos n =
     (if cpos + n > pseq b
      then if bdone b then (b, Return (no_view, Some BEOF)) else (b\<lparr>cmutex := False\<rparr>, Sleep)
      else ring_view (b\<lparr>cmutex := False\<rparr>) cpos n None)"

definition buf_ReadWait :: "buffer \<Rightarrow> int \<Rightarrow> (view \<times> berror option) bop" where
  "buf_ReadWait b n =
     (if n > bsize b then (b, Return (no_view, Some BBufferFull))
      else if n < 0 then (b, Return (no_view, Some BNegativeCount))
      else if cmutex b then (b, Stuck)
      else readwait_loop (b\<lparr>cmutex := True\<rparr>) (cseq b) n)"

definition readwait_wake :: "buffer \<Rightarrow> int \<Rightarrow> int \<Rightarrow> (view \<times> berror option) bop" where
  "readwait_wake b cpos n = (if cmutex b then (b, Stuck) else readwait_loop (b\<lparr>cmutex := True\<rparr>) cpos n)"

definition buf_ReadCommit :: "buffer \<Rightarrow> int \<Rightarrow> count_ret bop" where
  "buf_ReadCommit b n =
     (if n > bsize b then (b, Return (0, Some BBufferFull))
      else if n < 0 then (b, Return (0, Some BNegativeCount))
      else if cseq b + n \<le> pseq b then ready_p (b\<lparr>cseq := cseq b + n\<rparr>) (n, None)
      else (b, Return (0, Some BInsufficientData)))"

text \<open>\<open>Read\<close> into a slice of length \<open>pl\<close>; it returns the bytes it copied.\<close>

definition read_take :: "buffer \<Rightarrow> bytes option \<Rightarrow> int \<Rightarrow> (bytes \<times> berror option) bop" where
  "read_take b src pl =
     (case src of
        None \<Rightarrow> (b, Panic)
      | Some src \<Rightarrow>
        (let p = take (nat pl) src
         in ready_p (b\<lparr>cseq := cseq b + int (length p)\<rparr>) (p, None)))"

definition read_now :: "buffer \<Rightarrow> int \<Rightarrow> (bytes \<times> berror option) bop" where
  "read_now b pl =
     (let cpos = cseq b; ppos = pseq b; cindex = cpos AND bmask b; full = int (length (bbuf b))
      in if cpos + pl < ppos then read_take b (sub_list (bbuf b) cindex full) pl
         else let avail = ppos - cpos
         in if cindex + avail < bsize b then read_take b (sub_list (bbuf b) cindex (cindex + avail)) pl
            else read_take b (sub_list (bbuf b) cindex full) pl)"

definition read_loop :: "buffer \<Rightarrow> int \<Rightarrow> (bytes \<times> berror option) bop" where
  "read_loop b pl =
     (if cseq b \<ge> pseq b
      then if bdone b then (b, Return ([], Some BEOF))
           else (b\<lparr>cwait := cwait b + 1, cmutex := False\<rparr>, Sleep)
      else read_now (b\<lparr>cmutex := False\<rparr>) pl)"

definition buf_Read :: "buffer \<Rightarrow> int \<Rightarrow> (bytes \<times> berror option) bop" where
  "buf_Read b pl =
     (if bdone b \<and> buf_Len b = 0 then (b, Return ([], Some BEOF))
      else if cseq b + pl < pseq b \<or> cseq b < pseq b then read_now b pl
      else if cmutex b then (b, Stuck) else read_loop (b\<lparr>cmutex := True\<rparr>) pl)"

definition read_wake :: "buffer \<Rightarrow> int \<Rightarrow> (bytes \<times> berror option) bop" where
  "read_wake b pl = (if cmutex b then (b, Stuck) else read_loop (b\<lparr>cmutex := True\<rparr>) pl)"

text \<open>
  \<open>WriteTo\<close> hands the bytes on until an error. The writer is a list of the counts and errors its
  calls return; the chunks it was given are part of the result.
\<close>

fun buf_WriteTo :: "buffer \<Rightarrow> int \<Rightarrow> (int \<times> berror option) list \<Rightarrow> bytes list \<times> count_ret bop" where
  "buf_WriteTo b tot ws =
     (if bdone b then ([], closing b (tot, Some BEOF))
      else case buf_ReadPeek b defaultWriteBlockSize of
        (b, Return (v, err)) \<Rightarrow>
          (let p = view_bytes b v
           in if p = []
              then (if err \<noteq> Some BInsufficientData \<and> err \<noteq> None then ([], closing b (tot, err)) else ([], (b, Diverge)))
              else case ws of
                [] \<Rightarrow> ([p], (b, Sleep))
              | (n, Some e) # ws \<Rightarrow> ([p], closing b (tot + n, Some e))
              | (n, None) # ws \<Rightarrow>
                (case buf_ReadCommit b n of
                   (b, Return (_, None)) \<Rightarrow>
                     (if err \<noteq> Some BInsufficientData \<and> err \<noteq> None then ([p], closing b (tot + n, err))
                      else case buf_WriteTo b (tot + n) ws of (ps, r) \<Rightarrow> (p # ps, r))
                 | (b, Return (_, Some e)) \<Rightarrow> ([p], closing b (tot + n, Some e))
                 | r \<Rightarrow> ([p], r)))
      | (b, Sleep) \<Rightarrow> ([], (b, Sleep))
      | (b, Stuck) \<Rightarrow> ([], (b, Stuck))
      | (b, Panic) \<Rightarrow> ([], (b, Panic))
      | (b, Diverge) \<Rightarrow> ([], (b, Diverge)))"

declare buf_WriteTo.simps [simp del]

end
