(* ===== verification/Svc_Ring.thy ===== *)
theory Svc_Ring imports Svc_Buffer begin

text \<open>
  The ring buffer between two goroutines: what \<open>ringCopy\<close> stores, the interleaving of a producer and
  a consumer as a step relation, and the invariant of its reachable states, from which the consumer
  sees the bytes of the stream in order whatever the producer does meanwhile.
\<close>

section \<open>Positions and places\<close>

definition buf_ok :: "buffer \<Rightarrow> bool" where
  "buf_ok b \<longleftrightarrow>
     (\<exists>k. bsize b = 2 ^ k) \<and> bmask b = bsize b - 1 \<and> int (length (bbuf b)) = bsize b \<and>
     0 \<le> pgate b \<and> pgate b \<le> cseq b \<and> cseq b \<le> pseq b \<and> pseq b \<le> cseq b + bsize b"

abbreviation place :: "buffer \<Rightarrow> int \<Rightarrow> nat" where
  "place b p \<equiv> nat (p mod bsize b)"

lemma buf_okD:
  assumes "buf_ok b"
  shows "0 < bsize b" "length (bbuf b) = nat (bsize b)" "p AND bmask b = p mod bsize b"
    "place b p < length (bbuf b)" "0 \<le> cseq b" "0 \<le> pseq b"
proof -
  obtain k where k: "bsize b = 2 ^ k" "bmask b = 2 ^ k - 1" using assms by (auto simp: buf_ok_def)
  show "0 < bsize b" by (simp add: k)
  show l: "length (bbuf b) = nat (bsize b)" using assms unfolding buf_ok_def by linarith
  show "p AND bmask b = p mod bsize b"
    unfolding k by (simp flip: take_bit_eq_mask mask_eq_exp_minus_1 add: take_bit_eq_mod)
  show "place b p < length (bbuf b)" using \<open>0 < bsize b\<close> by (simp add: l nat_less_iff)
  show "0 \<le> cseq b" "0 \<le> pseq b" using assms by (auto simp: buf_ok_def)
qed

lemma place_inj:
  assumes "0 < bsize b" "place b i = place b j" "\<bar>i - j\<bar> < bsize b"
  shows "i = j"
proof -
  have "i mod bsize b = j mod bsize b" using assms(1,2) by (simp add: nat_eq_iff)
  then have "bsize b dvd i - j" by (simp add: mod_eq_dvd_iff)
  then show ?thesis using assms(3) zdvd_imp_le [of "bsize b" "\<bar>i - j\<bar>"] by (cases "i = j") auto
qed

text \<open>The ring holds the unread end of the stream \<open>s\<close> of all bytes produced so far.\<close>

definition holds :: "buffer \<Rightarrow> bytes \<Rightarrow> bool" where
  "holds b s \<longleftrightarrow> int (length s) = pseq b \<and> (\<forall>i. cseq b \<le> i \<and> i < pseq b \<longrightarrow> bbuf b ! place b i = s ! nat i)"

section \<open>\<open>ringCopy\<close> stores byte after byte\<close>

fun store_bytes :: "bytes \<Rightarrow> bytes \<Rightarrow> int \<Rightarrow> bytes" where
  "store_bytes dst [] p = dst"
| "store_bytes dst (x # xs) p = store_bytes (dst[nat (p mod int (length dst)) := x]) xs (p + 1)"

lemma length_store_bytes [simp]: "length (store_bytes dst src p) = length dst"
  by (induction src arbitrary: dst p) auto

lemma store_bytes_append: "store_bytes dst (xs @ ys) p = store_bytes (store_bytes dst xs p) ys (p + int (length xs))"
  by (induction xs arbitrary: dst p) (auto simp: ac_simps)

lemma store_bytes_mod: "store_bytes dst src (p mod int (length dst)) = store_bytes dst src p"
proof (induction src arbitrary: dst p)
  case (Cons x xs)
  let ?d = "dst[nat (p mod int (length dst)) := x]"
  have "store_bytes ?d xs (p mod int (length dst) + 1) = store_bytes ?d xs ((p mod int (length dst) + 1) mod int (length ?d))"
    using Cons.IH [of ?d "p mod int (length dst) + 1"] by simp
  also have "(p mod int (length dst) + 1) mod int (length ?d) = (p + 1) mod int (length ?d)"
    by (simp add: mod_simps)
  finally show ?case using Cons.IH [of ?d "p + 1"] by simp
qed simp

text \<open>A run that does not pass the end of the ring is one \<open>copy\<close>.\<close>

lemma store_bytes_flat:
  assumes "0 \<le> p" and "nat p + length src \<le> length dst"
  shows "store_bytes dst src p = take (nat p) dst @ src @ drop (nat p + length src) dst"
  using assms
proof (induction src arbitrary: dst p)
  case (Cons x xs)
  have m: "p mod int (length dst) = p" using Cons.prems by simp
  have n: "nat (p + 1) = Suc (nat p)" using Cons.prems by simp
  have "store_bytes (dst[nat p := x]) xs (p + 1) =
      take (Suc (nat p)) (dst[nat p := x]) @ xs @ drop (Suc (nat p) + length xs) (dst[nat p := x])"
    using Cons.IH [of "p + 1" "dst[nat p := x]"] Cons.prems by (simp add: n)
  then show ?case using Cons.prems m by (simp add: take_Suc_conv_app_nth)
qed simp

lemma copy_at_store:
  assumes "0 \<le> p" and "p \<le> int (length dst)"
  shows "copy_at dst p src = (let n = min (length dst - nat p) (length src)
           in Some (store_bytes dst (take n src) p, int n))"
  using assms by (simp add: copy_at_def Let_def store_bytes_flat)

lemma ring_loop_store:
  assumes "dst \<noteq> []" and "0 \<le> p" and "p < int (length dst)"
  shows "ring_loop dst src p i = Some (Some (store_bytes dst src p, i + int (length src)))"
  using assms
proof (induction src arbitrary: dst p i rule: measure_induct_rule [of length])
  case (less src)
  let ?n = "min (length dst - nat p) (length src)"
  let ?d = "store_bytes dst (take ?n src) p"
  have c: "copy_at dst p src = Some (?d, int ?n)"
    using less.prems copy_at_store [of p dst src] by (simp add: Let_def)
  show ?case
  proof (cases "drop ?n src = []")
    case True
    then have "take ?n src = src" "?n = length src" by (simp_all add: min_def split: if_splits)
    then show ?thesis using c by (subst ring_loop.simps) auto
  next
    case False
    then have n: "?n = length dst - nat p" "?n < length src" "0 < ?n"
      using less.prems by (auto simp: min_def split: if_splits)
    have "ring_loop dst src p i = ring_loop ?d (drop ?n src) 0 (i + int ?n)"
      using c False by (subst ring_loop.simps) auto
    also have "\<dots> = Some (Some (store_bytes ?d (drop ?n src) 0, i + int ?n + int (length (drop ?n src))))"
    proof (rule less.IH)
      show "length (drop ?n src) < length src" using n(2,3) by simp
      show "?d \<noteq> []" using less.prems(1) by (metis length_0_conv length_store_bytes)
      show "(0 :: int) \<le> 0" "0 < int (length ?d)" using less.prems(1) by simp_all
    qed
    also have "store_bytes ?d (drop ?n src) 0 = store_bytes ?d (drop ?n src) (p + int ?n)"
    proof -
      have "(p + int ?n) mod int (length ?d) = 0" using n less.prems by (simp add: of_nat_diff)
      then show ?thesis using store_bytes_mod [of ?d "drop ?n src" "p + int ?n"] by simp
    qed
    also have "\<dots> = store_bytes dst (take ?n src @ drop ?n src) p"
      using store_bytes_append [of dst "take ?n src" "drop ?n src" p] n(2) by simp
    finally show ?thesis using n(2) by simp
  qed
qed

text \<open>So it ends, with as many bytes copied as it was given.\<close>

lemma ringCopy_store:
  "dst \<noteq> [] \<Longrightarrow> 0 \<le> p \<Longrightarrow> p < int (length dst) \<Longrightarrow>
   ringCopy dst src p = Some (Some (store_bytes dst src p, int (length src)))"
  by (simp add: ringCopy_def ring_loop_store)

lemma store_keeps:
  "\<forall>i < length src. nat ((p + int i) mod int (length dst)) \<noteq> j \<Longrightarrow> store_bytes dst src p ! j = dst ! j"
proof (induction src arbitrary: dst p)
  case (Cons x xs)
  have "nat ((p + 1 + int i) mod int (length dst)) \<noteq> j" if "i < length xs" for i
    using Cons.prems [rule_format, of "Suc i"] that by (simp add: ac_simps)
  moreover have "nat (p mod int (length dst)) \<noteq> j" using Cons.prems [rule_format, of 0] by simp
  ultimately show ?case using Cons.IH [of "p + 1" "dst[nat (p mod int (length dst)) := x]"] by simp
qed simp

lemma store_gets:
  "length src \<le> length dst \<Longrightarrow> i < length src \<Longrightarrow>
   store_bytes dst src p ! nat ((p + int i) mod int (length dst)) = src ! i"
proof (induction src arbitrary: dst p i)
  case (Cons x xs)
  let ?d = "dst[nat (p mod int (length dst)) := x]"
  show ?case
  proof (cases i)
    case 0
    have N: "0 < int (length dst)" using Cons.prems by (cases dst) auto
    have "nat ((p + 1 + int j) mod int (length dst)) \<noteq> nat (p mod int (length dst))" if "j < length xs" for j
    proof
      assume "nat ((p + 1 + int j) mod int (length dst)) = nat (p mod int (length dst))"
      then have "(p + 1 + int j) mod int (length dst) = p mod int (length dst)"
        using N by (simp add: nat_eq_iff)
      then have "int (length dst) dvd 1 + int j" by (simp add: mod_eq_dvd_iff)
      then show False using that Cons.prems(1) by (auto dest!: zdvd_imp_le)
    qed
    then have "store_bytes ?d xs (p + 1) ! nat (p mod int (length dst)) = ?d ! nat (p mod int (length dst))"
      by (intro store_keeps) simp
    moreover have "nat (p mod int (length dst)) < length dst" using N by (simp add: nat_less_iff)
    ultimately show ?thesis using 0 by simp
  next
    case (Suc k)
    then show ?thesis using Cons.IH [of ?d k "p + 1"] Cons.prems by (simp add: ac_simps)
  qed
qed simp

section \<open>Producer and consumer at once\<close>

text \<open>
  The two goroutines interleave at the steps another goroutine can see: a producer gets its space,
  stores its bytes one after another, and then publishes them by moving \<open>pseq\<close>; a consumer gets
  its view, looks at it for as long as it wants, and then frees it by moving \<open>cseq\<close>. Either may
  sleep and be woken at any time, and the buffer may be closed at any time. \<open>stream\<close> is the list of
  all bytes published, which no code sees.
\<close>

datatype producer = PIdle | PWait bytes | PFill int bytes nat | PStop
datatype consumer = CIdle | CWait int | CView view int int | CStop

record ring_sys =
  rbf :: buffer
  prod :: producer
  cons :: consumer
  stream :: bytes

text \<open>What came of asking for space, and of asking for a view of \<open>n\<close> bytes.\<close>

inductive got_space :: "bytes \<Rightarrow> (int \<times> int \<times> berror option) outcome \<Rightarrow> producer \<Rightarrow> bool" for p where
  "got_space p (Return (start, cnt, None)) (PFill start p 0)"
| "got_space p Sleep (PWait p)"
| "got_space p (Return (start, cnt, Some e)) PStop"

inductive got_view :: "int \<Rightarrow> int \<Rightarrow> (view \<times> berror option) outcome \<Rightarrow> consumer \<Rightarrow> bool" for c n where
  "got_view c n (Return (v, None)) (CView v c n)"
| "got_view c n Sleep (CWait n)"
| "got_view c n (Return (v, Some e)) CStop"

inductive ring_step :: "ring_sys \<Rightarrow> ring_sys \<Rightarrow> bool" where
  reserve: "prod s = PIdle \<Longrightarrow> waitForWriteSpace (rbf s) (int (length p)) = (b, r) \<Longrightarrow> got_space p r st \<Longrightarrow>
     ring_step s (s\<lparr>rbf := b, prod := st\<rparr>)"
| wake_p: "prod s = PWait p \<Longrightarrow> space_wake (rbf s) (pseq (rbf s)) (int (length p)) = (b, r) \<Longrightarrow> got_space p r st \<Longrightarrow>
     ring_step s (s\<lparr>rbf := b, prod := st\<rparr>)"
| store: "prod s = PFill start p k \<Longrightarrow> k < length p \<Longrightarrow>
     ring_step s (s\<lparr>rbf := (rbf s)\<lparr>bbuf := store_bytes (bbuf (rbf s)) [p ! k] (start + int k)\<rparr>, prod := PFill start p (Suc k)\<rparr>)"
| publish: "prod s = PFill start p (length p) \<Longrightarrow>
     ring_step s (s\<lparr>rbf := (rbf s)\<lparr>pseq := start + int (length p)\<rparr>, prod := PIdle, stream := stream s @ p\<rparr>)"
| wait_n: "cons s = CIdle \<Longrightarrow> buf_ReadWait (rbf s) n = (b, r) \<Longrightarrow> got_view (cseq (rbf s)) n r st \<Longrightarrow>
     ring_step s (s\<lparr>rbf := b, cons := st\<rparr>)"
| wake_c: "cons s = CWait n \<Longrightarrow> readwait_wake (rbf s) (cseq (rbf s)) n = (b, r) \<Longrightarrow> got_view (cseq (rbf s)) n r st \<Longrightarrow>
     ring_step s (s\<lparr>rbf := b, cons := st\<rparr>)"
| peek: "cons s = CIdle \<Longrightarrow> buf_ReadPeek (rbf s) n = (b, Return (v, e)) \<Longrightarrow> e = None \<or> e = Some BInsufficientData \<Longrightarrow>
     ring_step s (s\<lparr>rbf := b, cons := CView v (cseq (rbf s)) (int (length (view_bytes b v)))\<rparr>)"
| free: "cons s = CView v c m \<Longrightarrow> n \<le> m \<Longrightarrow> buf_ReadCommit (rbf s) n = (b, Return (n, None)) \<Longrightarrow>
     ring_step s (s\<lparr>rbf := b, cons := CIdle\<rparr>)"
| close: "buf_Close (rbf s) = (b, Return ()) \<Longrightarrow> ring_step s (s\<lparr>rbf := b\<rparr>)"

inductive ring_reach :: "ring_sys \<Rightarrow> bool" where
  start: "newBuffer sz = Inr b \<Longrightarrow> ring_reach \<lparr>rbf = b, prod = PIdle, cons = CIdle, stream = []\<rparr>"
| step: "ring_reach s \<Longrightarrow> ring_step s t \<Longrightarrow> ring_reach t"

inductive_simps got_space_simps: "got_space p r st"
inductive_simps got_view_simps: "got_view c n r st"

section \<open>The invariant\<close>

fun prod_ok :: "buffer \<Rightarrow> producer \<Rightarrow> bool" where
  "prod_ok b (PFill start p k) \<longleftrightarrow>
     start = pseq b \<and> start + int (length p) \<le> cseq b + bsize b \<and> k \<le> length p \<and>
     (\<forall>i < k. bbuf b ! place b (start + int i) = p ! i)"
| "prod_ok b _ \<longleftrightarrow> True"

fun cons_ok :: "buffer \<Rightarrow> bytes \<Rightarrow> consumer \<Rightarrow> bool" where
  "cons_ok b s (CView v c m) \<longleftrightarrow>
     c = cseq b \<and> 0 \<le> m \<and> c + m \<le> pseq b \<and> view_bytes b v = take (nat m) (drop (nat c) s) \<and>
     (\<forall>i n. v = InRing i n \<longrightarrow> n = m \<and> i = c mod bsize b \<and> i + n \<le> bsize b)"
| "cons_ok b s (CWait n) \<longleftrightarrow> 0 \<le> n"
| "cons_ok b s _ \<longleftrightarrow> True"

definition ring_inv :: "ring_sys \<Rightarrow> bool" where
  "ring_inv s \<longleftrightarrow>
     buf_ok (rbf s) \<and> holds (rbf s) (stream s) \<and> prod_ok (rbf s) (prod s) \<and> cons_ok (rbf s) (stream s) (cons s)"

text \<open>Only a few fields matter.\<close>

lemma frame_buffer [simp]:
  "buf_ok (b\<lparr>cwait := x\<rparr>) = buf_ok b" "buf_ok (b\<lparr>pwait := x\<rparr>) = buf_ok b" "buf_ok (b\<lparr>pmutex := m\<rparr>) = buf_ok b"
  "buf_ok (b\<lparr>cmutex := m\<rparr>) = buf_ok b" "buf_ok (b\<lparr>bdone := m\<rparr>) = buf_ok b" "buf_ok (b\<lparr>tmpb := p\<rparr>) = buf_ok b"
  by (simp_all add: buf_ok_def)

text \<open>A state that differs in other fields only, or that has moved the gate or the consumer.\<close>

definition same_ring :: "buffer \<Rightarrow> buffer \<Rightarrow> bool" where
  "same_ring b b' \<longleftrightarrow> bbuf b' = bbuf b \<and> bsize b' = bsize b \<and> bmask b' = bmask b \<and> pseq b' = pseq b"

lemma holds_same: "same_ring b b' \<Longrightarrow> cseq b \<le> cseq b' \<Longrightarrow> holds b s \<Longrightarrow> holds b' s"
  by (auto simp: same_ring_def holds_def)

lemma prod_same: "same_ring b b' \<Longrightarrow> cseq b \<le> cseq b' \<Longrightarrow> prod_ok b p \<Longrightarrow> prod_ok b' p"
  by (cases p) (auto simp: same_ring_def)

lemma view_same: "same_ring b b' \<Longrightarrow> view_bytes b' v = view_bytes b v"
  by (cases v) (auto simp: same_ring_def)

lemma cons_same:
  assumes "same_ring b b'" and "cseq b' = cseq b" and "cons_ok b s c"
  shows "cons_ok b' s c"
proof (cases c)
  case (CView v p m)
  then show ?thesis using assms view_same [OF assms(1), of v] by (auto simp: same_ring_def)
qed (use assms in simp_all)

lemma space_result:
  assumes "buf_ok b" and "waitForWriteSpace b (int n) = (b', r) \<or> space_wake b (pseq b) (int n) = (b', r)"
  shows "same_ring b b' \<and> cseq b' = cseq b \<and> buf_ok b' \<and>
    (\<forall>start cnt. r = Return (start, cnt, None) \<longrightarrow> start = pseq b \<and> cnt = int n \<and> pseq b + int n \<le> cseq b + bsize b)"
proof -
  have o: "0 \<le> pgate b" "pgate b \<le> cseq b" "cseq b \<le> pseq b" "0 \<le> cseq b"
    using assms(1) by (auto simp: buf_ok_def)
  have loop: "same_ring b x \<and> cseq x = cseq b \<and> buf_ok x \<and>
    (\<forall>start cnt. y = Return (start, cnt, None) \<longrightarrow> start = pseq b \<and> cnt = int n \<and> pseq b + int n \<le> cseq b + bsize b)"
    if "space_loop (b\<lparr>pmutex := True\<rparr>) (pseq b) (int n) = (x, y)" for x y
    using that assms(1) o by (auto simp: space_loop_def same_ring_def buf_ok_def split: if_splits)
  from assms(2) show ?thesis
  proof
    assume w: "waitForWriteSpace b (int n) = (b', r)"
    show ?thesis
    proof (cases "\<not> bdone b \<and> (pseq b + int n - bsize b > pgate b \<or> pgate b > pseq b) \<and> \<not> pmutex b")
      case True
      then show ?thesis using w loop [of b' r] by (auto simp: waitForWriteSpace_def Let_def)
    next
      case False
      then show ?thesis using w assms(1) o
        by (auto simp: waitForWriteSpace_def Let_def same_ring_def split: if_splits)
    qed
  next
    assume "space_wake b (pseq b) (int n) = (b', r)"
    then show ?thesis using loop [of b' r] assms(1) by (auto simp: space_wake_def same_ring_def split: if_splits)
  qed
qed

lemma place_off:
  assumes "0 < bsize b" and "c = nat (p mod bsize b)" and "int i \<le> bsize b"
  shows "place b (p + int i) = (if int (c + i) < bsize b then c + i else c + i - nat (bsize b))"
proof -
  define M where "M = nat (bsize b)"
  have M: "bsize b = int M" using assms(1) by (simp add: M_def)
  have c: "int c = p mod int M" "c < M" using assms(1,2) M by (simp_all add: nat_less_iff)
  have e: "(p + int i) mod int M = (int c + int i) mod int M" unfolding c(1) by (simp add: mod_simps)
  have i: "i \<le> M" using assms(3) M by simp
  show ?thesis
  proof (cases "c + i < M")
    case True
    then have "(int c + int i) mod int M = int (c + i)" by simp
    then show ?thesis using True e by (simp add: M)
  next
    case False
    then have d: "int c + int i = int (c + i - M) + int M" by simp
    have "(int c + int i) mod int M = int (c + i - M) mod int M" unfolding d by simp
    also have "\<dots> = int (c + i - M)" using c(2) i by simp
    finally have "(p + int i) mod int M = int (c + i - M)" unfolding e .
    then show ?thesis using False unfolding M by simp
  qed
qed

lemma ring_view_stream:
  assumes ok: "buf_ok b" and h: "holds b s" and n: "0 \<le> n" "cseq b + n \<le> pseq b"
  shows "\<exists>b' v. ring_view b (cseq b) n err = (b', Return (v, err)) \<and> same_ring b b' \<and> cseq b' = cseq b \<and>
    buf_ok b' \<and> cmutex b' = cmutex b \<and> pmutex b' = pmutex b \<and> cons_ok b' s (CView v (cseq b) n)"
proof -
  let ?p = "cseq b" and ?N = "length (bbuf b)"
  define c where "c = nat (?p mod bsize b)"
  define m where "m = nat n"
  note D = buf_okD [OF ok]
  have nm: "n = int m" using n(1) by (simp add: m_def)
  have N: "bsize b = int ?N" "0 < ?N" using D(1,2) by simp_all
  have c: "?p AND bmask b = int c" "c < ?N" using D(1,3,4) by (simp_all add: c_def)
  have mN: "m \<le> ?N" using n ok N by (auto simp: buf_ok_def nm)
  have len: "length s = nat (pseq b)" "0 \<le> ?p" using h D(5) unfolding holds_def by (metis nat_int, simp)
  have tl: "length (take m (drop (nat ?p) s)) = m" using n(2) len by (simp add: nm)
  have byte: "bbuf b ! (if c + i < ?N then c + i else c + i - ?N) = take m (drop (nat ?p) s) ! i" if "i < m" for i
  proof -
    have "place b (?p + int i) = (if c + i < ?N then c + i else c + i - ?N)"
      using place_off [OF D(1) c_def, of i] that mN N by simp
    moreover have "bbuf b ! place b (?p + int i) = s ! nat (?p + int i)"
      using h that n(2) by (simp add: holds_def nm)
    moreover have "nat (?p + int i) = nat ?p + i" using len(2) by (simp add: nat_add_distrib)
    ultimately show ?thesis using that len n(2) by (simp add: nm)
  qed
  show ?thesis
  proof (cases "int c + n > bsize b")
    case True
    then have w: "?N < c + m" "m - (?N - c) \<le> ?N" using mN by (simp_all add: nm N)
    let ?t = "drop c (bbuf b) @ take (m - (?N - c)) (bbuf b)"
    have s1: "sub_list (bbuf b) (int c) (int ?N) = Some (drop c (bbuf b))"
      using c(2) by (simp add: sub_list_def nat_diff_distrib)
    have e: "n - int (?N - c) = int (m - (?N - c))" using w c(2) by (simp add: nm of_nat_diff)
    have s2: "sub_list (bbuf b) 0 (n - int (?N - c)) = Some (take (m - (?N - c)) (bbuf b))"
      unfolding e using w(2) by (simp add: sub_list_def)
    have "?t = take m (drop (nat ?p) s)"
    proof (rule nth_equalityI)
      show "length ?t = length (take m (drop (nat ?p) s))" using w c(2) unfolding tl by simp
      fix i assume "i < length ?t"
      then have "i < m" using w c(2) by simp
      then show "?t ! i = take m (drop (nat ?p) s) ! i"
        using byte [of i] c(2) w by (auto simp: nth_append add.commute split: if_splits)
    qed
    then show ?thesis
      using True ok n by (simp add: ring_view_def c(1) s1 s2 Let_def same_ring_def m_def N(1))
  next
    case False
    then have w: "c + m \<le> ?N" by (simp add: nm N)
    have "sub_list (bbuf b) (int c) (int c + n) = Some (take m (drop c (bbuf b)))"
      using w by (simp add: sub_list_def nm)
    moreover have "take m (drop c (bbuf b)) = take m (drop (nat ?p) s)"
    proof (rule nth_equalityI)
      show "length (take m (drop c (bbuf b))) = length (take m (drop (nat ?p) s))" using w unfolding tl by simp
      fix i assume "i < length (take m (drop c (bbuf b)))"
      then have "i < m" "c + i < ?N" using w by simp_all
      then show "take m (drop c (bbuf b)) ! i = take m (drop (nat ?p) s) ! i" using byte [of i] by simp
    qed
    moreover have "int c = ?p mod bsize b" using D(1) by (simp add: c_def)
    ultimately show ?thesis
      using False ok n by (simp add: ring_view_def c(1) Let_def same_ring_def m_def c_def [symmetric])
  qed
qed

lemma wait_result:
  assumes ok: "buf_ok b" "holds b s" and r: "buf_ReadWait b n = (b', r) \<or> readwait_wake b (cseq b) n = (b', r) \<and> 0 \<le> n"
    and g: "got_view (cseq b) n r st"
  shows "same_ring b b' \<and> cseq b' = cseq b \<and> buf_ok b' \<and> cons_ok b' s st"
proof -
  have st: "(\<exists>v. r = Return (v, None) \<and> st = CView v (cseq b) n) \<or> (st = CWait n \<and> r = Sleep \<or> st = CStop) \<and> (\<forall>v. r \<noteq> Return (v, None))"
    using g by (auto simp: got_view_simps)
  have sl: "r = Sleep \<Longrightarrow> 0 \<le> n" using r by (auto simp: buf_ReadWait_def split: if_splits)
  have loop: "same_ring b x \<and> cseq x = cseq b \<and> buf_ok x \<and> (\<forall>v. y = Return (v, None) \<longrightarrow> cons_ok x s (CView v (cseq b) n))"
    if l: "readwait_loop (b\<lparr>cmutex := True\<rparr>) (cseq b) n = (x, y)" "0 \<le> n" for x y
  proof (cases "cseq b + n > pseq b")
    case True
    then show ?thesis using l ok by (auto simp: readwait_loop_def same_ring_def simp del: cons_ok.simps split: if_splits)
  next
    case False
    have "holds (b\<lparr>cmutex := False\<rparr>) s" using ok(2) by (simp add: holds_def)
    then show ?thesis
      using ring_view_stream [of "b\<lparr>cmutex := False\<rparr>" s n None] ok(1) l False
      by (auto simp: readwait_loop_def same_ring_def simp del: cons_ok.simps)
  qed
  have "same_ring b b' \<and> cseq b' = cseq b \<and> buf_ok b' \<and> (\<forall>v. r = Return (v, None) \<longrightarrow> cons_ok b' s (CView v (cseq b) n))"
    using r
  proof
    assume w: "buf_ReadWait b n = (b', r)"
    show ?thesis
    proof (cases "n > bsize b \<or> n < 0 \<or> cmutex b")
      case True
      then show ?thesis using w ok(1) by (auto simp: buf_ReadWait_def same_ring_def simp del: cons_ok.simps split: if_splits)
    next
      case False
      then have "readwait_loop (b\<lparr>cmutex := True\<rparr>) (cseq b) n = (b', r)" "0 \<le> n"
        using w by (simp_all add: buf_ReadWait_def)
      then show ?thesis by (rule loop)
    qed
  next
    assume "readwait_wake b (cseq b) n = (b', r) \<and> 0 \<le> n"
    then show ?thesis
      using loop [of b' r] ok(1) by (cases "cmutex b") (simp_all add: readwait_wake_def same_ring_def del: cons_ok.simps)
  qed
  then show ?thesis using st sl by auto
qed

lemma peek_result:
  assumes ok: "buf_ok b" "holds b s" and r: "buf_ReadPeek b n = (b', Return (v, e))" "e = None \<or> e = Some BInsufficientData"
  shows "same_ring b b' \<and> cseq b' = cseq b \<and> buf_ok b' \<and> cons_ok b' s (CView v (cseq b) (int (length (view_bytes b' v))))"
proof -
  let ?b = "b\<lparr>cmutex := False\<rparr>"
  have h: "holds ?b s" "buf_ok ?b" using ok by (simp_all add: holds_def)
  have n: "0 \<le> n" "n \<le> bsize b" "\<not> cmutex b" "cseq b < pseq b"
    using r by (auto simp: buf_ReadPeek_def peek_loop_def split: if_splits)
  define m where "m = (if pseq b - cseq b \<ge> n then n else pseq b - cseq b)"
  have m: "0 \<le> m" "cseq b + m \<le> pseq b" using n by (auto simp: m_def)
  have "ring_view ?b (cseq b) m e = (b', Return (v, e))"
  proof (cases "pseq b - cseq b \<ge> n")
    case True
    then have "ring_view ?b (cseq b) n None = (b', Return (v, e))"
      using r(1) n by (simp add: buf_ReadPeek_def peek_loop_def Let_def)
    moreover from this have "e = None"
      unfolding ring_view_def Let_def by (simp split: if_splits option.splits)
    ultimately show ?thesis using True by (simp add: m_def)
  next
    case False
    then have "ring_view ?b (cseq b) (pseq b - cseq b) (Some BInsufficientData) = (b', Return (v, e))"
      using r(1) n by (simp add: buf_ReadPeek_def peek_loop_def Let_def)
    moreover from this have "e = Some BInsufficientData"
      unfolding ring_view_def Let_def by (simp split: if_splits option.splits)
    ultimately show ?thesis using False by (simp add: m_def)
  qed
  moreover obtain b1 v1 where "ring_view ?b (cseq b) m e = (b1, Return (v1, e))" "same_ring ?b b1"
      "cseq b1 = cseq b" "buf_ok b1" "cons_ok b1 s (CView v1 (cseq b) m)"
    using ring_view_stream [OF h(2,1), of m e] m by (simp del: cons_ok.simps) (elim exE conjE, rule that)
  ultimately have "same_ring ?b b' \<and> cseq b' = cseq b \<and> buf_ok b' \<and> cons_ok b' s (CView v (cseq b) m)"
    by (simp del: cons_ok.simps)
  note res = this
  from res have "cons_ok b' s (CView v (cseq b) m)" by blast
  then have vb: "view_bytes b' v = take (nat m) (drop (nat (cseq b)) s)" unfolding cons_ok.simps by blast
  have l: "int (length s) = pseq b" using h(1) by (simp add: holds_def)
  have "nat (cseq b) + nat m \<le> length s" using l m buf_okD(5) [OF ok(1)] by linarith
  then have "int (length (view_bytes b' v)) = m" using m(1) by (simp add: vb)
  then show ?thesis using res by (simp add: same_ring_def del: cons_ok.simps)
qed

lemma newBuffer_ok:
  assumes "newBuffer sz = Inr b"
  shows "buf_ok b" "holds b []" "cseq b = 0" "pseq b = 0" "bsize b \<ge> 16384"
    "\<not> bdone b" "\<not> pmutex b" "\<not> cmutex b"
proof -
  define z where "z = (if sz = 0 then 0x40000 else sz)"
  have z: "powerOfTwo64 z" "sint z \<ge> 16384"
    "b = \<lparr>bbuf = replicate (nat (sint z)) 0, tmpb = [], bsize = sint z, bmask = sint z - 1, bdone = False,
          pseq = 0, pgate = 0, cseq = 0, pmutex = False, cmutex = False, cwait = 0, pwait = 0\<rparr>"
    using assms unfolding z_def by (auto simp: newBuffer_def Let_def split: if_splits)
  obtain k where k: "unat z = 2 ^ k" using z(1) by (auto simp: powerOfTwo64_iff)
  have u: "uint z < 2 ^ 64" using uint_lt2p [of z] by simp
  have "sint z = uint z - 2 ^ 64 * of_bool (bit (uint z) 63)"
    using take_bit_int_eq_self [OF uint_ge_0 u] by (simp add: sint_uint signed_take_bit_eq_take_bit_minus)
  moreover note u
  ultimately have "sint z = uint z" using z(2) by (cases "bit (uint z) 63") simp_all
  then have s: "sint z = 2 ^ k" using k by (metis of_nat_numeral of_nat_power uint_nat)
  show "buf_ok b" "holds b []" "cseq b = 0" "pseq b = 0" "bsize b \<ge> 16384"
    "\<not> bdone b" "\<not> pmutex b" "\<not> cmutex b"
    using z(2) s by (auto simp: z(3) buf_ok_def holds_def)
qed

lemma publish_holds:
  assumes ok: "buf_ok b" and h: "holds b s" and p: "prod_ok b (PFill start p (length p))"
  shows "buf_ok (b\<lparr>pseq := start + int (length p)\<rparr>) \<and> holds (b\<lparr>pseq := start + int (length p)\<rparr>) (s @ p)"
proof -
  have st: "start = pseq b" "pseq b + int (length p) \<le> cseq b + bsize b"
    "\<And>i. i < length p \<Longrightarrow> bbuf b ! place b (pseq b + int i) = p ! i"
    using p by auto
  have l: "int (length s) = pseq b" using h by (simp add: holds_def)
  have "bbuf b ! place b i = (s @ p) ! nat i" if i: "cseq b \<le> i" "i < pseq b + int (length p)" for i
  proof (cases "i < pseq b")
    case True
    then show ?thesis using h i l buf_okD(5) [OF ok] by (simp add: holds_def nth_append nat_less_iff)
  next
    case False
    define j where "j = nat (i - pseq b)"
    have j: "i = pseq b + int j" "j < length p" using False i by (simp_all add: j_def)
    have "nat i = length s + j" using j(1) l by simp
    then show ?thesis using st(3) [OF j(2)] by (simp add: j(1))
  qed
  then show ?thesis using ok l st by (auto simp: buf_ok_def holds_def)
qed

text \<open>A byte stored in the space the producer has reserved is not in the unread part.\<close>

lemma store_step:
  assumes ok: "buf_ok b" and p: "prod_ok b (PFill start p k)" and k: "k < length p"
  defines "b' \<equiv> b\<lparr>bbuf := store_bytes (bbuf b) [p ! k] (start + int k)\<rparr>"
  shows "buf_ok b' \<and> prod_ok b' (PFill start p (Suc k)) \<and>
    (\<forall>i. cseq b \<le> i \<and> i < pseq b \<longrightarrow> bbuf b' ! place b' i = bbuf b ! place b i)"
proof -
  note D = buf_okD [OF ok]
  let ?j = "place b (start + int k)"
  have N: "int (length (bbuf b)) = bsize b" using ok by (simp add: buf_ok_def)
  have new: "bbuf b' = (bbuf b)[?j := p ! k]" by (simp add: b'_def N)
  have f: "bsize b' = bsize b" "pseq b' = pseq b" "cseq b' = cseq b" by (simp_all add: b'_def)
  have st: "start = pseq b" "pseq b + int (length p) \<le> cseq b + bsize b" using p by auto
  have ne: "place b i \<noteq> ?j" if "cseq b \<le> i" "i < pseq b + int k" for i
    using place_inj [OF D(1), of i "start + int k"] that st k ok by (auto simp: buf_ok_def)
  have "bbuf b' ! place b' i = bbuf b ! place b i" if "cseq b \<le> i" "i < pseq b + int k" for i
    using ne [OF that] by (simp add: new f)
  moreover have "bbuf b' ! place b' (start + int k) = p ! k" using D(4) by (simp add: new f)
  moreover have "cseq b \<le> pseq b" using ok by (simp add: buf_ok_def)
  moreover have "buf_ok b'" using ok by (simp add: b'_def buf_ok_def)
  ultimately show ?thesis
    using p k st f by (auto simp: less_Suc_eq)
qed

lemma cons_store:
  assumes "buf_ok b" "holds b s" "cons_ok b s c"
    and "\<forall>i. cseq b \<le> i \<and> i < pseq b \<longrightarrow> bbuf b' ! place b' i = bbuf b ! place b i"
    and "b' = b\<lparr>bbuf := x\<rparr>" and "length x = length (bbuf b)"
  shows "holds b' s \<and> cons_ok b' s c"
proof
  show "holds b' s" using assms by (simp add: holds_def)
  show "cons_ok b' s c"
  proof (cases c)
    case (CView v p m)
    show ?thesis
    proof (cases v)
      case (InRing i n)
      have v: "p = cseq b" "n = m" "i = p mod bsize b" "i + n \<le> bsize b" "0 \<le> m" "p + m \<le> pseq b"
        using assms(3) CView InRing by auto
      have D: "0 < bsize b" "int (length (bbuf b)) = bsize b" using assms(1) buf_okD by (auto simp: buf_ok_def)
      have "x ! (nat i + j) = bbuf b ! (nat i + j)" if "j < nat m" for j
      proof -
        have bd: "int j \<le> bsize b" "int (nat (p mod bsize b) + j) < bsize b" using that v pos_mod_sign [OF D(1), of p] by linarith+
        have "place b (p + int j) = nat i + j"
          using place_off [OF D(1) refl bd(1)] bd(2) unfolding v(3) by (simp only: if_True)
        then show ?thesis using assms(4) [rule_format, of "p + int j"] that v assms(5) by simp
      qed
      then have "take (nat n) (drop (nat i) x) = take (nat n) (drop (nat i) (bbuf b))"
        using v D assms(6) by (intro nth_equalityI) simp_all
      then show ?thesis using assms(3,5) CView InRing by auto
    next
      case (InTmp q)
      then show ?thesis using assms(3,5) CView by simp
    qed
  qed (use assms(3,5) in simp_all)
qed

lemma producer_step:
  assumes "ring_inv s" and "same_ring (rbf s) b" and "cseq b = cseq (rbf s)" and "buf_ok b" and "prod_ok b st"
  shows "ring_inv (s\<lparr>rbf := b, prod := st\<rparr>)"
  using assms holds_same cons_same by (auto simp: ring_inv_def simp del: cons_ok.simps)

lemma consumer_step:
  assumes "ring_inv s" and "same_ring (rbf s) b" and "cseq (rbf s) \<le> cseq b" and "buf_ok b" and "cons_ok b (stream s) st"
  shows "ring_inv (s\<lparr>rbf := b, cons := st\<rparr>)"
  using assms holds_same prod_same by (auto simp: ring_inv_def simp del: cons_ok.simps prod_ok.simps)

lemma got_space_ok:
  assumes "got_space p r st"
    and "\<forall>start cnt. r = Return (start, cnt, None) \<longrightarrow> start = pseq b \<and> cnt = int (length p) \<and> pseq b + int (length p) \<le> cseq b + bsize b"
  shows "prod_ok b st"
  using assms by (auto simp: got_space_simps)

lemma ring_step_inv:
  assumes "ring_step s t" and "ring_inv s"
  shows "ring_inv t"
proof -
  have ok: "buf_ok (rbf s)" "holds (rbf s) (stream s)" "prod_ok (rbf s) (prod s)"
      "cons_ok (rbf s) (stream s) (cons s)"
    using assms(2) by (simp_all add: ring_inv_def)
  have space: "ring_inv (s\<lparr>rbf := b, prod := st\<rparr>)"
    if "waitForWriteSpace (rbf s) (int (length p)) = (b, r) \<or> space_wake (rbf s) (pseq (rbf s)) (int (length p)) = (b, r)"
      "got_space p r st" for p b r st
  proof -
    note R = space_result [OF ok(1) that(1)]
    have "prod_ok (rbf s) st" using got_space_ok [OF that(2)] R by blast
    then have "prod_ok b st" using prod_same [of "rbf s" b st] R by simp
    then show ?thesis using producer_step [OF assms(2)] R by blast
  qed
  show ?thesis
    using assms(1)
  proof cases
    case (reserve p b r st)
    then show ?thesis using space by blast
  next
    case (wake_p p b r st)
    then show ?thesis using space by blast
  next
    case (store start p k)
    let ?x = "store_bytes (bbuf (rbf s)) [p ! k] (start + int k)"
    let ?b = "rbf s\<lparr>bbuf := ?x\<rparr>"
    have b: "buf_ok ?b \<and> prod_ok ?b (PFill start p (Suc k)) \<and>
        (\<forall>i. cseq (rbf s) \<le> i \<and> i < pseq (rbf s) \<longrightarrow> bbuf ?b ! place ?b i = bbuf (rbf s) ! place (rbf s) i)"
      by (rule store_step [OF ok(1) ok(3) [unfolded store(2)] store(3)])
    then have u: "\<forall>i. cseq (rbf s) \<le> i \<and> i < pseq (rbf s) \<longrightarrow> bbuf ?b ! place ?b i = bbuf (rbf s) ! place (rbf s) i"
      by blast
    have "holds ?b (stream s) \<and> cons_ok ?b (stream s) (cons s)"
      by (rule cons_store [OF ok(1,2,4) u refl]) simp
    then show ?thesis using b store(1) by (simp add: ring_inv_def del: cons_ok.simps prod_ok.simps store_bytes.simps)
  next
    case (publish start p)
    let ?b = "rbf s\<lparr>pseq := start + int (length p)\<rparr>"
    have b: "buf_ok ?b \<and> holds ?b (stream s @ p)"
      by (rule publish_holds [OF ok(1,2) ok(3) [unfolded publish(2)]])
    have l: "int (length (stream s)) = pseq (rbf s)" using ok(2) by (simp add: holds_def)
    have st: "start = pseq (rbf s)" using ok(3) unfolding publish(2) by simp
    have "cons_ok ?b (stream s @ p) (cons s)"
    proof (cases "cons s")
      case (CView v c m)
      have v: "c = cseq (rbf s)" "0 \<le> m" "c + m \<le> pseq (rbf s)"
          "view_bytes (rbf s) v = take (nat m) (drop (nat c) (stream s))"
        using ok(4) CView by auto
      have "nat c + nat m \<le> length (stream s)" using v l buf_okD(5) [OF ok(1)] by linarith
      then have "take (nat m) (drop (nat c) (stream s @ p)) = take (nat m) (drop (nat c) (stream s))" by simp
      moreover have "view_bytes ?b v = view_bytes (rbf s) v" by (cases v) simp_all
      ultimately show ?thesis using ok(4) CView st by auto
    qed (use ok(4) in simp_all)
    then show ?thesis using b publish(1) by (simp add: ring_inv_def del: cons_ok.simps)
  next
    case (wait_n n b r st)
    have "same_ring (rbf s) b \<and> cseq b = cseq (rbf s) \<and> buf_ok b \<and> cons_ok b (stream s) st"
      by (rule wait_result [OF ok(1,2) _ wait_n(4)]) (use wait_n(3) in simp)
    then show ?thesis unfolding wait_n(1) using consumer_step [OF assms(2)] by (metis order_refl)
  next
    case (wake_c n b r st)
    have "same_ring (rbf s) b \<and> cseq b = cseq (rbf s) \<and> buf_ok b \<and> cons_ok b (stream s) st"
      by (rule wait_result [OF ok(1,2) _ wake_c(4)]) (use wake_c(3) ok(4) wake_c(2) in simp)
    then show ?thesis unfolding wake_c(1) using consumer_step [OF assms(2)] by (metis order_refl)
  next
    case (peek n b v e)
    note R = peek_result [OF ok(1,2) peek(3,4)]
    have "cseq (rbf s) \<le> cseq b" using R by (metis order_refl)
    then show ?thesis unfolding peek(1) using consumer_step [OF assms(2)] R by blast
  next
    case (free v c m n b)
    have "b = rbf s\<lparr>cseq := cseq (rbf s) + n\<rparr>" "0 \<le> n" "cseq (rbf s) + n \<le> pseq (rbf s)"
      using free(4) by (auto simp: buf_ReadCommit_def ready_p_def split: if_splits)
    then have "same_ring (rbf s) b" "cseq (rbf s) \<le> cseq b" "buf_ok b"
      using ok(1) by (auto simp: same_ring_def buf_ok_def)
    then show ?thesis using consumer_step [OF assms(2)] free(1) by simp
  next
    case (close b)
    then have "b = rbf s\<lparr>bdone := True\<rparr>" by (auto simp: buf_Close_def ready_p_def split: if_splits)
    then have "same_ring (rbf s) b" "cseq b = cseq (rbf s)" "buf_ok b" using ok(1) by (simp_all add: same_ring_def)
    then show ?thesis
      using producer_step [OF assms(2), of b "prod s"] prod_same [of "rbf s" b] ok(3) close(1) by simp
  qed
qed

lemma ring_reach_inv: "ring_reach s \<Longrightarrow> ring_inv s"
proof (induction rule: ring_reach.induct)
  case (start sz b)
  then show ?case using newBuffer_ok [of sz b] by (simp add: ring_inv_def)
qed (rule ring_step_inv)

end
