(* ===== verification/Svc_Fifo.thy ===== *)
theory Svc_Fifo imports Svc_Ring begin

text \<open>
  The buffer as the service relies on it: a bounded queue of bytes. The locale \<open>byte_fifo\<close> states
  what writing, reserving, looking and committing promise of the bytes not yet read, for a buffer no operation
  is asleep in, and derives what sending and receiving a frame need. The ring buffer interprets it.
\<close>

section \<open>The contract\<close>

locale byte_fifo =
  fixes idle :: "'b \<Rightarrow> bool"
    and unread :: "'b \<Rightarrow> bytes"
    and room :: "'b \<Rightarrow> int"
    and put :: "'b \<Rightarrow> bytes \<Rightarrow> 'b \<times> (int \<times> berror option) outcome"
    and look :: "'b \<Rightarrow> int \<Rightarrow> 'b \<times> (view \<times> berror option) outcome"
    and seen :: "'b \<Rightarrow> view \<Rightarrow> bytes"
    and drop_n :: "'b \<Rightarrow> int \<Rightarrow> 'b \<times> (int \<times> berror option) outcome"
    and reserve_n :: "'b \<Rightarrow> int \<Rightarrow> 'b \<times> ((int \<times> int) \<times> bool \<times> berror option) outcome"
    and region :: "'b \<Rightarrow> int \<times> int \<Rightarrow> bytes"
    and fill_r :: "'b \<Rightarrow> int \<times> int \<Rightarrow> bytes \<Rightarrow> 'b"
    and publish_n :: "'b \<Rightarrow> int \<Rightarrow> 'b \<times> (int \<times> berror option) outcome"
  assumes put: "idle b \<Longrightarrow> int (length p) \<le> room b \<Longrightarrow>
      \<exists>b'. put b p = (b', Return (int (length p), None)) \<and> idle b' \<and> unread b' = unread b @ p \<and>
           room b' = room b - int (length p)"
    and look: "idle b \<Longrightarrow> n \<le> length (unread b) \<Longrightarrow>
      \<exists>b' v. look b (int n) = (b', Return (v, None)) \<and> idle b' \<and> unread b' = unread b \<and> room b' = room b \<and>
             seen b' v = take n (unread b)"
    and drop_n: "idle b \<Longrightarrow> n \<le> length (unread b) \<Longrightarrow>
      \<exists>b'. drop_n b (int n) = (b', Return (int n, None)) \<and> idle b' \<and> unread b' = drop n (unread b) \<and>
           room b' = room b + int n"
    and reserve_n: "idle b \<Longrightarrow> int n \<le> room b \<Longrightarrow>
      \<exists>b' r wrap. reserve_n b (int n) = (b', Return (r, wrap, None)) \<and> idle b' \<and> unread b' = unread b \<and>
             room b' = room b \<and> (\<not> wrap \<longrightarrow> length (region b' r) = n)"
    and publish_n: "idle b \<Longrightarrow> int n \<le> room b \<Longrightarrow> reserve_n b (int n) = (b', Return (r, False, None)) \<Longrightarrow>
      length w = n \<Longrightarrow>
      \<exists>b''. publish_n (fill_r b' r w) (int n) = (b'', Return (int n, None)) \<and> idle b'' \<and>
            unread b'' = unread b @ w \<and> room b'' = room b - int n"
begin

text \<open>What was put first is seen first, byte for byte, and dropping it makes its room again.\<close>

lemma put_look_drop:
  assumes "idle b" and "int (length p) \<le> room b" and "unread b = []"
  shows "\<exists>b1 b2 v b3. put b p = (b1, Return (int (length p), None)) \<and>
    look b1 (int (length p)) = (b2, Return (v, None)) \<and> seen b2 v = p \<and>
    drop_n b2 (int (length p)) = (b3, Return (int (length p), None)) \<and>
    idle b3 \<and> unread b3 = [] \<and> room b3 = room b"
proof -
  obtain b1 where b1: "put b p = (b1, Return (int (length p), None))" "idle b1" "unread b1 = p"
      "room b1 = room b - int (length p)"
    using put [OF assms(1,2)] assms(3) by auto
  obtain b2 v where b2: "look b1 (int (length p)) = (b2, Return (v, None))" "idle b2" "unread b2 = p"
      "room b2 = room b1" "seen b2 v = p"
    using look [OF b1(2), of "length p"] b1(3) by auto
  obtain b3 where "drop_n b2 (int (length p)) = (b3, Return (int (length p), None))" "idle b3"
      "unread b3 = []" "room b3 = room b2 + int (length p)"
    using drop_n [OF b2(2), of "length p"] b2(3) by auto
  then show ?thesis using b1 b2 by fastforce
qed

text \<open>A prefix of what is queued can be looked at whatever follows it.\<close>

lemma look_prefix:
  assumes "idle b" and "unread b = p @ q"
  shows "\<exists>b' v. look b (int (length p)) = (b', Return (v, None)) \<and> idle b' \<and> unread b' = p @ q \<and>
    room b' = room b \<and> seen b' v = p"
  using look [OF assms(1), of "length p"] assms(2) by auto

lemma drop_prefix:
  assumes "idle b" and "unread b = p @ q"
  shows "\<exists>b'. drop_n b (int (length p)) = (b', Return (int (length p), None)) \<and> idle b' \<and> unread b' = q \<and>
    room b' = room b + int (length p)"
  using drop_n [OF assms(1), of "length p"] assms(2) by auto

end

section \<open>The ring buffer's side\<close>

definition ring_idle :: "buffer \<Rightarrow> bool" where
  "ring_idle b \<longleftrightarrow> buf_ok b \<and> \<not> bdone b \<and> \<not> pmutex b \<and> \<not> cmutex b"

definition unread :: "buffer \<Rightarrow> bytes" where
  "unread b = map (\<lambda>i. bbuf b ! place b (cseq b + int i)) [0..<nat (pseq b - cseq b)]"

definition free_room :: "buffer \<Rightarrow> int" where
  "free_room b = bsize b - (pseq b - cseq b)"

lemma length_unread: "buf_ok b \<Longrightarrow> int (length (unread b)) = pseq b - cseq b"
  by (simp add: unread_def buf_ok_def)

text \<open>The stream of all bytes, whatever the bytes read already were, is the unread bytes behind them.\<close>

lemma holds_unread:
  assumes "buf_ok b" and "int (length s) = cseq b"
  shows "holds b (s @ unread b)"
  unfolding holds_def
proof (intro conjI allI impI)
  note l = length_unread [OF assms(1)]
  show "int (length (s @ unread b)) = pseq b" using l assms(2) by simp
  fix i
  assume i: "cseq b \<le> i \<and> i < pseq b"
  define k where "k = nat (i - cseq b)"
  have k: "i = cseq b + int k" "k < nat (pseq b - cseq b)" using i by (simp_all add: k_def)
  have "nat i = length s + k" using k(1) assms(2) by linarith
  then show "bbuf b ! place b i = (s @ unread b) ! nat i" using k by (simp add: unread_def)
qed

lemma unread_holds:
  assumes "buf_ok b" and "holds b s"
  shows "unread b = drop (nat (cseq b)) s"
proof (rule nth_equalityI)
  have o: "0 \<le> cseq b" "cseq b \<le> pseq b" "int (length s) = pseq b"
    using assms by (auto simp: buf_ok_def holds_def)
  have "int (length (unread b)) = int (length (drop (nat (cseq b)) s))"
    using length_unread [OF assms(1)] o by (simp add: of_nat_diff)
  then show l: "length (unread b) = length (drop (nat (cseq b)) s)" by simp
  fix i
  assume "i < length (unread b)"
  then have i: "i < nat (pseq b - cseq b)" by (simp add: unread_def)
  then have "bbuf b ! place b (cseq b + int i) = s ! nat (cseq b + int i)"
    using assms(2) by (simp add: holds_def)
  moreover have "nat (cseq b + int i) = nat (cseq b) + i" using o(1) by (simp add: nat_add_distrib)
  moreover have "nat (cseq b) + i < length s" using i o by linarith
  ultimately show "unread b ! i = drop (nat (cseq b)) s ! i" using i by (simp add: unread_def)
qed

lemma unread_same:
  "same_ring b b' \<Longrightarrow> cseq b' = cseq b \<Longrightarrow> unread b' = unread b \<and> free_room b' = free_room b"
  by (simp add: unread_def free_room_def same_ring_def)

lemma unread_stream:
  assumes "buf_ok b"
  obtains s where "holds b s" "int (length s) = pseq b" "drop (nat (cseq b)) s = unread b"
proof
  let ?s = "replicate (nat (cseq b)) 0 @ unread b"
  have c: "int (length (replicate (nat (cseq b)) (0 :: byte))) = cseq b" using buf_okD(5) [OF assms] by simp
  show "holds b ?s" by (rule holds_unread [OF assms c])
  then show "int (length ?s) = pseq b" by (simp add: holds_def)
  show "drop (nat (cseq b)) ?s = unread b" by simp
qed

text \<open>What a view of \<open>n\<close> bytes shows.\<close>

lemma look_ring:
  assumes "ring_idle b" and "n \<le> length (unread b)"
  shows "\<exists>b' v. buf_ReadWait b (int n) = (b', Return (v, None)) \<and> ring_idle b' \<and> unread b' = unread b \<and>
    free_room b' = free_room b \<and> view_bytes b' v = take n (unread b)"
proof -
  have ok: "buf_ok b" "\<not> bdone b" "\<not> pmutex b" "\<not> cmutex b" using assms(1) by (simp_all add: ring_idle_def)
  obtain s where s: "holds b s" "drop (nat (cseq b)) s = unread b" using unread_stream [OF ok(1)] by metis
  have n: "cseq b + int n \<le> pseq b" using assms(2) length_unread [OF ok(1)] by linarith
  then have n2: "int n \<le> bsize b" using ok(1) unfolding buf_ok_def by linarith
  define b0 where "b0 = b\<lparr>cmutex := False\<rparr>"
  have b: "buf_ok b0" "holds b0 s" "cseq b0 = cseq b" "pseq b0 = pseq b" "same_ring b b0" "bdone b0 = bdone b"
      "cmutex b0 = False" "pmutex b0 = pmutex b"
    using ok s by (simp_all add: holds_def b0_def same_ring_def)
  have c: "0 \<le> int n" "cseq b0 + int n \<le> pseq b0" using n b by simp_all
  from ring_view_stream [OF b(1,2) c, of None] obtain b' v where
      v: "ring_view b0 (cseq b0) (int n) None = (b', Return (v, None))" "same_ring b0 b'" "cseq b' = cseq b0"
      "buf_ok b'" "cmutex b' = cmutex b0" "pmutex b' = pmutex b0" "cons_ok b' s (CView v (cseq b0) (int n))"
    by (elim exE conjE) (rule that)
  have d: "bdone b' = bdone b0"
    using v(1) unfolding ring_view_def Let_def by (auto split: if_splits option.splits)
  have "buf_ReadWait b (int n) = ring_view b0 (cseq b0) (int n) None"
    using ok n n2 by (simp add: buf_ReadWait_def readwait_loop_def b0_def)
  moreover have "view_bytes b' v = take n (unread b)" using v(7) s(2) b by simp
  moreover have "unread b' = unread b \<and> free_room b' = free_room b"
    using unread_same [of b b'] v(2,3) b by (simp add: same_ring_def)
  ultimately show ?thesis using v ok d b by (auto simp: ring_idle_def)
qed

lemma drop_ring:
  assumes "ring_idle b" and "n \<le> length (unread b)"
  shows "\<exists>b'. buf_ReadCommit b (int n) = (b', Return (int n, None)) \<and> ring_idle b' \<and> unread b' = drop n (unread b) \<and>
    free_room b' = free_room b + int n"
proof -
  have ok: "buf_ok b" "\<not> bdone b" "\<not> pmutex b" "\<not> cmutex b" using assms(1) by (simp_all add: ring_idle_def)
  have l: "int (length (unread b)) = pseq b - cseq b" by (rule length_unread [OF ok(1)])
  have n: "cseq b + int n \<le> pseq b" "int n \<le> bsize b" using assms(2) l ok(1) unfolding buf_ok_def by linarith+
  define b' where "b' = b\<lparr>cseq := cseq b + int n\<rparr>"
  have ok': "buf_ok b'" using ok(1) n by (auto simp: buf_ok_def b'_def)
  obtain s where s: "holds b s" "drop (nat (cseq b)) s = unread b" using unread_stream [OF ok(1)] by metis
  have "same_ring b b'" "cseq b \<le> cseq b'" by (simp_all add: same_ring_def b'_def)
  then have "holds b' s" using s(1) by (rule holds_same)
  then have "unread b' = drop (nat (cseq b')) s" by (rule unread_holds [OF ok'])
  also have "\<dots> = drop n (unread b)"
    using buf_okD(5) [OF ok(1)] by (simp add: s(2) [symmetric] b'_def nat_add_distrib add.commute)
  finally show ?thesis
    using ok ok' n by (auto simp: buf_ReadCommit_def ready_p_def ring_idle_def free_room_def b'_def)
qed

section \<open>Space, and what is stored in it\<close>

lemma space_free:
  assumes "ring_idle b" and "n \<le> free_room b"
  shows "\<exists>b'. waitForWriteSpace b n = (b', Return (pseq b, n, None)) \<and> ring_idle b' \<and> same_ring b b' \<and>
    cseq b' = cseq b"
  using assms
  by (auto simp: waitForWriteSpace_def space_loop_def Let_def ring_idle_def free_room_def buf_ok_def same_ring_def)

definition stored :: "buffer \<Rightarrow> bytes \<Rightarrow> buffer" where
  "stored b w = b\<lparr>bbuf := store_bytes (bbuf b) w (pseq b), pseq := pseq b + int (length w)\<rparr>"

lemma stored_unread:
  assumes "ring_idle b" and "int (length w) \<le> free_room b"
  shows "ring_idle (stored b w) \<and> unread (stored b w) = unread b @ w \<and>
    free_room (stored b w) = free_room b - int (length w)"
proof (intro conjI)
  have ok: "buf_ok b" using assms(1) by (simp add: ring_idle_def)
  note D = buf_okD [OF ok]
  have N: "int (length (bbuf b)) = bsize b" using ok by (simp add: buf_ok_def)
  have room: "pseq b + int (length w) \<le> cseq b + bsize b" "cseq b \<le> pseq b"
    using assms(2) ok by (auto simp: free_room_def buf_ok_def)
  show "ring_idle (stored b w)" using assms room by (auto simp: ring_idle_def stored_def buf_ok_def)
  show "free_room (stored b w) = free_room b - int (length w)" by (simp add: free_room_def stored_def)
  define m where "m = nat (pseq b - cseq b)"
  have m: "pseq b = cseq b + int m" using room(2) by (simp add: m_def)
  show "unread (stored b w) = unread b @ w"
  proof (rule nth_equalityI)
    have m2: "nat (pseq b + int (length w) - cseq b) = m + length w" using m by simp
    then show l: "length (unread (stored b w)) = length (unread b @ w)"
      by (simp add: unread_def stored_def m_def [symmetric])
    fix i
    assume "i < length (unread (stored b w))"
    then have i: "i < m + length w" unfolding l by (simp add: unread_def m_def)
    let ?d = "store_bytes (bbuf b) w (pseq b)"
    have v: "unread (stored b w) ! i = ?d ! place b (cseq b + int i)"
      using i m2 by (simp add: unread_def stored_def)
    show "unread (stored b w) ! i = (unread b @ w) ! i"
    proof (cases "i < m")
      case True
      have "nat ((pseq b + int k) mod int (length (bbuf b))) \<noteq> place b (cseq b + int i)" if "k < length w" for k
      proof
        assume "nat ((pseq b + int k) mod int (length (bbuf b))) = place b (cseq b + int i)"
        then have "pseq b + int k = cseq b + int i"
          using place_inj [OF D(1), of "pseq b + int k" "cseq b + int i"] that True m room by (simp add: N)
        then show False using True m by simp
      qed
      then have "?d ! place b (cseq b + int i) = bbuf b ! place b (cseq b + int i)"
        by (intro store_keeps) simp
      then show ?thesis using v True by (simp add: unread_def m_def [symmetric] nth_append)
    next
      case False
      define k where "k = i - m"
      have k: "k < length w" "cseq b + int i = pseq b + int k" using False i m by (simp_all add: k_def)
      have "int (length w) \<le> int (length (bbuf b))" using room N by linarith
      then have "?d ! nat ((pseq b + int k) mod int (length (bbuf b))) = w ! k"
        by (intro store_gets) (use k in simp_all)
      then show ?thesis using v False k by (simp add: unread_def m_def [symmetric] nth_append k_def N)
    qed
  qed
qed

lemma stored_same:
  "same_ring b b' \<Longrightarrow> cseq b' = cseq b \<Longrightarrow> unread (stored b' w) = unread (stored b w) \<and> free_room (stored b' w) = free_room (stored b w)"
  by (simp add: stored_def unread_def free_room_def same_ring_def)

lemma put_ring:
  assumes "ring_idle b" and "int (length p) \<le> free_room b"
  shows "\<exists>b'. buf_Write b p = (b', Return (int (length p), None)) \<and> ring_idle b' \<and> unread b' = unread b @ p \<and>
    free_room b' = free_room b - int (length p)"
proof -
  obtain b1 where b1: "waitForWriteSpace b (int (length p)) = (b1, Return (pseq b, int (length p), None))" "ring_idle b1"
      "same_ring b b1" "cseq b1 = cseq b"
    using space_free [OF assms] by metis
  have f: "free_room b1 = free_room b" "unread b1 = unread b" "pseq b1 = pseq b"
    using unread_same [of b b1] b1(3,4) by (simp_all add: same_ring_def)
  have ok: "buf_ok b1" using b1(2) by (simp add: ring_idle_def)
  note D = buf_okD [OF ok]
  have N: "int (length (bbuf b1)) = bsize b1" "bbuf b1 \<noteq> []" using ok D(1,2) by (auto simp: buf_ok_def)
  have "ringCopy (bbuf b1) p (pseq b AND bmask b1) =
      Some (Some (store_bytes (bbuf b1) p (pseq b1 mod int (length (bbuf b1))), int (length p)))"
    using ringCopy_store [OF N(2), of "pseq b1 mod bsize b1" p] D(1) f(3) N(1) D(3) [of "pseq b1"] by simp
  then have "buf_Write b p = (stored b1 p, Return (int (length p), None))"
    using b1 assms(1) f(3) by (simp add: buf_Write_def after_def write_rest_def ready_c_def store_bytes_mod stored_def ring_idle_def)
  then show ?thesis using stored_unread [OF b1(2), of p] f assms(2) by auto
qed

lemma reserve_ring:
  assumes "ring_idle b" and "int n \<le> free_room b"
  shows "\<exists>b' r wrap. buf_WriteWait b (int n) = (b', Return (r, wrap, None)) \<and> ring_idle b' \<and> same_ring b b' \<and>
    cseq b' = cseq b \<and> (\<not> wrap \<longrightarrow> r = (pseq b mod bsize b, int n) \<and> pseq b mod bsize b + int n \<le> bsize b)"
proof -
  obtain b1 where b1: "waitForWriteSpace b (int n) = (b1, Return (pseq b, int n, None))" "ring_idle b1"
      "same_ring b b1" "cseq b1 = cseq b"
    using space_free [OF assms] by metis
  have ok: "buf_ok b1" using b1(2) by (simp add: ring_idle_def)
  have "pseq b AND bmask b1 = pseq b mod bsize b" "bsize b1 = bsize b"
    using buf_okD(3) [OF ok, of "pseq b"] b1(3) by (simp_all add: same_ring_def)
  moreover have "pseq b mod bsize b \<le> int (length (bbuf b1))"
    using ok b1(3) buf_okD(1) [OF ok] pos_mod_bound [of "bsize b" "pseq b"]
    by (intro order_less_imp_le) (simp add: buf_ok_def same_ring_def)
  ultimately show ?thesis using b1 by (auto simp: buf_WriteWait_def after_def Let_def)
qed

lemma length_region:
  assumes "ring_idle b'" and "same_ring b b'" and "\<not> wrap \<longrightarrow> r = (pseq b mod bsize b, int n) \<and> pseq b mod bsize b + int n \<le> bsize b"
    and "\<not> wrap"
  shows "length (ring_region b' r) = n"
proof -
  have ok: "buf_ok b'" using assms(1) by (simp add: ring_idle_def)
  have "int (length (bbuf b')) = bsize b" "0 \<le> pseq b mod bsize b"
    using ok assms(2) buf_okD(1) [OF ok] by (auto simp: buf_ok_def same_ring_def)
  then have "n \<le> length (bbuf b') - nat (pseq b mod bsize b)" using assms(3,4) by linarith
  then show ?thesis using assms(3,4) by (simp add: ring_region_def)
qed

lemma publish_ring:
  assumes "ring_idle b" and "int n \<le> free_room b" and "buf_WriteWait b (int n) = (b', Return (r, False, None))"
    and "length w = n"
  shows "\<exists>b''. buf_WriteCommit (fill_ring b' r w) (int n) = (b'', Return (int n, None)) \<and> ring_idle b'' \<and>
    unread b'' = unread b @ w \<and> free_room b'' = free_room b - int n"
proof -
  have r: "ring_idle b'" "same_ring b b'" "cseq b' = cseq b" "r = (pseq b mod bsize b, int n)"
      "pseq b mod bsize b + int n \<le> bsize b"
    using reserve_ring [OF assms(1,2)] assms(3) by auto
  define b1 where "b1 = fill_ring b' r w"
  have ok: "buf_ok b'" using r(1) by (simp add: ring_idle_def)
  note D = buf_okD [OF ok]
  have N: "int (length (bbuf b')) = bsize b'" "bsize b' = bsize b" "pseq b' = pseq b" using ok r(2) by (auto simp: buf_ok_def same_ring_def)
  let ?p = "pseq b mod bsize b"
  have p: "0 \<le> ?p" using D(1) N(2) by simp
  have fit: "nat ?p + length w \<le> length (bbuf b')" using r(5) N(1,2) p assms(4) by linarith
  have "bbuf b1 = store_bytes (bbuf b') w ?p"
    using store_bytes_flat [OF p fit] by (simp add: b1_def fill_ring_def r(4))
  also have "\<dots> = store_bytes (bbuf b') w (pseq b')" using store_bytes_mod [of "bbuf b'" w "pseq b'"] N by simp
  finally have bb: "b1 = b'\<lparr>bbuf := store_bytes (bbuf b') w (pseq b')\<rparr>" by (simp add: b1_def fill_ring_def)
  have room: "free_room b' = free_room b" "unread b' = unread b" using unread_same [OF r(2,3)] by simp_all
  have i1: "ring_idle b1" "free_room b1 = free_room b"
    using r(1) room by (simp_all add: bb ring_idle_def buf_ok_def free_room_def)
  obtain b2 where b2: "waitForWriteSpace b1 (int n) = (b2, Return (pseq b1, int n, None))" "ring_idle b2"
      "same_ring b1 b2" "cseq b2 = cseq b1"
    using space_free [OF i1(1)] i1(2) assms(2) by metis
  define b3 where "b3 = b2\<lparr>pseq := pseq b1 + int n\<rparr>"
  have s: "same_ring (stored b' w) b3" "cseq b3 = cseq (stored b' w)"
    using b2(3,4) by (simp_all add: bb b3_def stored_def same_ring_def assms(4))
  have S: "ring_idle (stored b' w)" "unread (stored b' w) = unread b @ w" "free_room (stored b' w) = free_room b - int n"
    using stored_unread [OF r(1), of w] room assms(2,4) by auto
  have "buf_WriteCommit b1 (int n) = (b3, Return (int n, None))"
    using b2(1,2) by (simp add: buf_WriteCommit_def after_def ready_c_def b3_def ring_idle_def)
  moreover have "ring_idle b3"
    using b2(2) S(1) s by (auto simp: ring_idle_def buf_ok_def same_ring_def b3_def)
  ultimately show ?thesis using unread_same [OF s] S by (auto simp: b1_def)
qed

interpretation ring: byte_fifo ring_idle unread free_room buf_Write buf_ReadWait view_bytes buf_ReadCommit
  buf_WriteWait ring_region fill_ring buf_WriteCommit
proof unfold_locales
  fix b n
  assume a: "ring_idle b" "int n \<le> free_room b"
  obtain b' r wrap where "buf_WriteWait b (int n) = (b', Return (r, wrap, None))" "ring_idle b'" "same_ring b b'"
      "cseq b' = cseq b" "\<not> wrap \<longrightarrow> r = (pseq b mod bsize b, int n) \<and> pseq b mod bsize b + int n \<le> bsize b"
    using reserve_ring [OF a] by metis
  moreover from this have "\<not> wrap \<Longrightarrow> length (ring_region b' r) = n"
    using length_region by blast
  ultimately show "\<exists>b' r wrap. buf_WriteWait b (int n) = (b', Return (r, wrap, None)) \<and> ring_idle b' \<and> unread b' = unread b \<and>
      free_room b' = free_room b \<and> (\<not> wrap \<longrightarrow> length (ring_region b' r) = n)"
    using unread_same [of b b'] by blast
qed (use put_ring look_ring drop_ring publish_ring in blast)+

end
