(* ===== verification/Props_Buffer.thy ===== *)
theory Props_Buffer imports Svc_Fifo begin

text \<open>
  The properties of the ring buffer: the consumer sees the producer's bytes in order under every
  interleaving, the copy into the ring ends, and the two ways in which a producer never comes back.
\<close>

section \<open>The bytes arrive in order\<close>

text \<open>
  C6: Under every interleaving of a producer and a consumer, each with its reservations, wake-ups,
  single stores, views and commits, and with closing at any time: what the consumer holds a view
  of are the bytes the producer published from the consumer's position on, none lost, repeated or overwritten, for as long as
  it holds the view; the unread bytes are the rest of the stream, and they never exceed the ring.
\<close>

theorem ring_stream_in_order:
  assumes "ring_reach s"
  shows "unread (rbf s) = drop (nat (cseq (rbf s))) (stream s) \<and> int (length (unread (rbf s))) \<le> bsize (rbf s) \<and>
    (case cons s of
       CView v c n \<Rightarrow> c = cseq (rbf s) \<and> view_bytes (rbf s) v = take (nat n) (drop (nat c) (stream s)) \<and>
         int (length (view_bytes (rbf s) v)) = n
     | _ \<Rightarrow> True)"
proof -
  have i: "buf_ok (rbf s)" "holds (rbf s) (stream s)" "cons_ok (rbf s) (stream s) (cons s)"
    using ring_reach_inv [OF assms] by (simp_all add: ring_inv_def)
  have l: "int (length (stream s)) = pseq (rbf s)" "0 \<le> cseq (rbf s)"
    using i(2) buf_okD(5) [OF i(1)] by (simp_all add: holds_def)
  have "int (length (unread (rbf s))) \<le> bsize (rbf s)"
    using length_unread [OF i(1)] i(1) by (auto simp: buf_ok_def)
  then show ?thesis using i(3) l unread_holds [OF i(1,2)] by (auto split: consumer.split)
qed

lemma ex_ring: "\<exists>b. newBuffer 16384 = Inr b \<and> bsize b = 16384"
  by (simp add: newBuffer_def powerOfTwo64_def Let_def)

text \<open>A run in which the producer publishes three bytes and the consumer looks at two of them.\<close>

lemma ex_run: "\<exists>s v. ring_reach s \<and> stream s = [1, 2, 3] \<and> cons s = CView v 0 2"
proof -
  obtain b where b: "newBuffer 16384 = Inr b" "bsize b = 16384" using ex_ring by blast
  note N = newBuffer_ok [OF b(1)]
  have i: "ring_idle b" "free_room b = 16384" "pseq b = 0" "cseq b = 0" using N b(2) by (simp_all add: ring_idle_def free_room_def)
  define s0 where "s0 = \<lparr>rbf = b, prod = PIdle, cons = CIdle, stream = []\<rparr>"
  have r0: "ring_reach s0" unfolding s0_def by (rule ring_reach.start [OF b(1)])
  obtain b1 where b1: "waitForWriteSpace b 3 = (b1, Return (0, 3, None))" "ring_idle b1" "same_ring b b1" "cseq b1 = 0"
    using space_free [OF i(1), of 3] i by auto
  define p :: bytes where "p = [1, 2, 3]"
  have "ring_step s0 (s0\<lparr>rbf := b1, prod := PFill 0 p 0\<rparr>)"
    by (rule ring_step.reserve [where r = "Return (0, 3, None)" and p = p])
      (use b1 in \<open>simp_all add: s0_def p_def got_space.intros\<close>)
  then have r1: "ring_reach (s0\<lparr>rbf := b1, prod := PFill 0 p 0\<rparr>)" by (rule ring_reach.step [OF r0])
  have fill: "\<exists>bb. ring_reach (s0\<lparr>rbf := bb, prod := PFill 0 p k\<rparr>) \<and> (\<exists>x. bb = b1\<lparr>bbuf := x\<rparr> \<and> length x = length (bbuf b1))"
    if "k \<le> 3" for k
    using that
  proof (induction k)
    case 0
    have "b1 = b1\<lparr>bbuf := bbuf b1\<rparr>" by simp
    then show ?case using r1 by metis
  next
    case (Suc k)
    then obtain bb x where bb: "ring_reach (s0\<lparr>rbf := bb, prod := PFill 0 p k\<rparr>)" "bb = b1\<lparr>bbuf := x\<rparr>"
        "length x = length (bbuf b1)" by auto
    let ?x = "store_bytes x [p ! k] (0 + int k)"
    have "ring_step (s0\<lparr>rbf := bb, prod := PFill 0 p k\<rparr>) (s0\<lparr>rbf := b1\<lparr>bbuf := ?x\<rparr>, prod := PFill 0 p (Suc k)\<rparr>)"
      using ring_step.store [of "s0\<lparr>rbf := bb, prod := PFill 0 p k\<rparr>" 0 p k] Suc.prems bb(2)
      by (simp add: p_def del: store_bytes.simps)
    then show ?case using ring_reach.step [OF bb(1)] bb(3) by (metis length_store_bytes)
  qed
  then obtain x where x: "ring_reach (s0\<lparr>rbf := b1\<lparr>bbuf := x\<rparr>, prod := PFill 0 p (length p)\<rparr>)"
    using fill [of 3] by (auto simp: p_def numeral_3_eq_3)
  let ?b = "b1\<lparr>bbuf := x, pseq := 3\<rparr>"
  let ?s = "s0\<lparr>rbf := ?b, prod := PIdle, stream := p\<rparr>"
  have "ring_step (s0\<lparr>rbf := b1\<lparr>bbuf := x\<rparr>, prod := PFill 0 p (length p)\<rparr>) ?s"
    using ring_step.publish [of "s0\<lparr>rbf := b1\<lparr>bbuf := x\<rparr>, prod := PFill 0 p (length p)\<rparr>" 0 p]
    by (simp add: p_def s0_def)
  then have r2: "ring_reach ?s" by (rule ring_reach.step [OF x])
  have ok: "buf_ok ?b" using ring_reach_inv [OF r2] by (simp add: ring_inv_def)
  then have "ring_idle ?b" using b1(2) by (simp add: ring_idle_def)
  moreover have "2 \<le> length (unread ?b)" using length_unread [OF ok] b1(4) by simp
  ultimately obtain b3 v where v: "buf_ReadWait ?b 2 = (b3, Return (v, None))"
    using ring.look [of ?b 2] by auto
  have "ring_step ?s (?s\<lparr>rbf := b3, cons := CView v 0 2\<rparr>)"
    by (rule ring_step.wait_n [where r = "Return (v, None)" and n = 2])
      (use v b1(4) in \<open>simp_all add: s0_def got_view.intros\<close>)
  then have "ring_reach (?s\<lparr>rbf := b3, cons := CView v 0 2\<rparr>)" by (rule ring_reach.step [OF r2])
  then show ?thesis
    by (intro exI [of _ "?s\<lparr>rbf := b3, cons := CView v 0 2\<rparr>"] exI [of _ v]) (simp add: p_def)
qed

theorem ring_stream_in_order_witness:
  "\<exists>s v. ring_reach s \<and> cons s = CView v 0 2 \<and> view_bytes (rbf s) v = [1, 2] \<and> unread (rbf s) = [1, 2, 3]"
proof -
  obtain s v where s: "ring_reach s" "stream s = [1, 2, 3]" "cons s = CView v 0 2" using ex_run by blast
  then have "view_bytes (rbf s) v = [1, 2] \<and> unread (rbf s) = [1, 2, 3]"
    using ring_stream_in_order [OF s(1)] by (auto simp: numeral_2_eq_2)
  then show ?thesis using s(1,3) by blast
qed

section \<open>Copying into the ring\<close>

text \<open>
  C40: \<open>ringCopy\<close> ends for every source and every starting place inside the ring, with all bytes
  counted, and leaves the ring as if they had been stored one after another, each in the next place round
  the ring; only into an empty ring it would copy for ever.
\<close>

theorem ringCopy_terminates:
  "dst \<noteq> [] \<and> 0 \<le> p \<and> p < int (length dst) \<Longrightarrow>
     ringCopy dst src p = Some (Some (store_bytes dst src p, int (length src)))"
  by (simp add: ringCopy_store)

theorem ringCopy_terminates_witness:
  "ringCopy [0, 0, 0, 0] [1, 2, 3] 2 = Some (Some ([3, 0, 1, 2], 3))"
  using ringCopy_terminates [of "[0, 0, 0, 0]" 2 "[1, 2, 3]"] by (simp add: upt_rec)

section \<open>Producers that never return\<close>

lemma ring_step_size: "ring_step s t \<Longrightarrow> bsize (rbf t) = bsize (rbf s)"
proof (induction rule: ring_step.induct)
  case (reserve s p b r st)
  then show ?case
    by (auto simp: waitForWriteSpace_def space_loop_def Let_def split: if_splits)
next
  case (wake_p s p b r st)
  then show ?case by (auto simp: space_wake_def space_loop_def split: if_splits)
next
  case (wait_n s n b r st)
  then show ?case
    by (auto simp: buf_ReadWait_def readwait_loop_def ring_view_def Let_def split: if_splits option.splits)
next
  case (wake_c s n b r st)
  then show ?case
    by (auto simp: readwait_wake_def readwait_loop_def ring_view_def Let_def split: if_splits option.splits)
next
  case (peek s n b v e)
  then show ?case
    by (auto simp: buf_ReadPeek_def peek_loop_def ring_view_def Let_def split: if_splits option.splits)
next
  case (free s v c m n b)
  then show ?case by (auto simp: buf_ReadCommit_def ready_p_def split: if_splits)
next
  case (close s b)
  then show ?case by (auto simp: buf_Close_def ready_p_def split: if_splits)
qed simp_all

lemma oversized_step:
  assumes "ring_step s t" and "ring_inv s" and "bsize (rbf s) < int (length p)" and "prod s = PWait p"
  shows "prod t = PWait p \<or> prod t = PStop"
  using assms(1)
proof cases
  case (wake_p q b r st)
  have "q = p" using wake_p(2) assms(4) by simp
  moreover have "\<forall>start cnt. r \<noteq> Return (start, cnt, None)"
    using space_result [of "rbf s" "length p" b r] assms(2,3) wake_p(3) \<open>q = p\<close> by (auto simp: ring_inv_def buf_ok_def)
  ultimately show ?thesis using wake_p(1,4) by (auto simp: got_space_simps)
qed (use assms(4) in auto)

text \<open>
  A producer that waits to write more bytes than the ring holds is never given the space, whatever the
  consumer frees and however often it is woken: it waits for ever, or gives up when the buffer is closed.
\<close>

theorem oversized_write_never_fits:
  assumes "ring_reach s" and "prod s = PWait p" and "bsize (rbf s) < int (length p)" and "ring_step\<^sup>*\<^sup>* s t"
  shows "prod t = PWait p \<or> prod t = PStop"
proof -
  have "ring_reach t \<and> bsize (rbf t) = bsize (rbf s) \<and> (prod t = PWait p \<or> prod t = PStop)"
    using assms(4)
  proof (induction rule: rtranclp_induct)
    case base
    then show ?case using assms(1,2) by simp
  next
    case (step t u)
    then have u: "ring_reach u" "bsize (rbf u) = bsize (rbf s)"
      using ring_reach.step ring_step_size by (blast, metis)
    have "prod u = PStop" if "prod t = PStop"
      using step(2) that by cases auto
    then show ?case
      using u step oversized_step [OF step(2), of p] ring_reach_inv [of t] assms(3) by metis
  qed
  then show ?thesis by blast
qed

theorem oversized_write_never_fits_witness:
  "\<exists>s p. ring_reach s \<and> length p = 16385 \<and> prod s = PWait p \<and> (\<forall>t. ring_step\<^sup>*\<^sup>* s t \<longrightarrow> prod t = PWait p \<or> prod t = PStop)"
proof -
  obtain b where b: "newBuffer 16384 = Inr b" "bsize b = 16384" using ex_ring by blast
  note N = newBuffer_ok [OF b(1)]
  define p :: bytes where "p = replicate 16385 0"
  define s where "s = \<lparr>rbf = b, prod = PIdle, cons = CIdle, stream = []\<rparr>"
  have r: "ring_reach s" unfolding s_def by (rule ring_reach.start [OF b(1)])
  have "pgate b = 0" using N(1,3) by (auto simp: buf_ok_def)
  then have w: "waitForWriteSpace b (int (length p)) = (b\<lparr>pwait := pwait b + 1, pmutex := False\<rparr>, Sleep)"
    using N b(2) by (simp add: waitForWriteSpace_def space_loop_def Let_def p_def)
  let ?t = "s\<lparr>rbf := b\<lparr>pwait := pwait b + 1, pmutex := False\<rparr>, prod := PWait p\<rparr>"
  have "ring_step s ?t" by (rule ring_step.reserve [OF _ _ got_space.intros(2)]) (use w in \<open>simp_all add: s_def\<close>)
  then have t: "ring_reach ?t" by (rule ring_reach.step [OF r])
  moreover have "bsize (rbf ?t) < int (length p)" using b(2) by (simp add: p_def)
  ultimately show ?thesis
    using oversized_write_never_fits [OF t, of p] by (intro exI [of _ ?t] exI [of _ p]) (simp add: p_def)
qed

text \<open>
  C37: A producer that waits when the buffer is closed and is then woken returns \<open>EOF\<close> with \<open>pcond\<close>'s
  mutex locked. From then on whoever needs that mutex waits for ever: the next \<open>Close\<close>, which
  \<open>ReadFrom\<close> defers, and the consumer's every \<open>ReadCommit\<close>.
\<close>

theorem closed_producer_keeps_mutex:
  assumes "buf_ok b" and "bdone b" and "\<not> pmutex b" and "cseq b < pseq b + n - bsize b"
  shows "\<exists>b'. space_wake b (pseq b) n = (b', Return (0, 0, Some BEOF)) \<and> pmutex b' \<and>
    snd (buf_Close b') = Stuck \<and> snd (closing b' r) = Stuck \<and>
    (\<forall>k. 0 \<le> k \<and> cseq b + k \<le> pseq b \<longrightarrow> snd (buf_ReadCommit b' k) = Stuck) \<and>
    (\<forall>m. snd (space_wake b' (pseq b') m) = Stuck)"
  using assms
  by (auto simp: space_wake_def space_loop_def buf_Close_def closing_def after_def ready_p_def buf_ReadCommit_def buf_ok_def)

theorem closed_producer_keeps_mutex_witness:
  "\<exists>b b'. newBuffer 16384 = Inr b \<and>
     space_wake (b\<lparr>bdone := True\<rparr>) 0 16385 = (b', Return (0, 0, Some BEOF)) \<and> snd (buf_Close b') = Stuck"
proof -
  obtain b where b: "newBuffer 16384 = Inr b" "bsize b = 16384" using ex_ring by blast
  note N = newBuffer_ok [OF b(1)]
  show ?thesis
    using closed_producer_keeps_mutex [of "b\<lparr>bdone := True\<rparr>" 16385 "()"] N b by auto
qed

end
