(* ===== verification/Svc_World.thy ===== *)
theory Svc_World imports Svc_Buffer Msg_Message Topics_Manager Sess_Manager begin

text \<open>
  The state of a broker or a client, for \<open>tools/surgemq/service\<close>: the service objects of
  \<open>service.go\<close>, the connections, and the global stores they share. An operation is a function from a world
  to a world and an outcome, as for the ring buffers: it may sleep in a buffer, wait for a mutex for ever, or
  panic, and then the rest of it does not run.

  Also \<open>tools/surgemq/auth\<close>: the registry of authenticators and the two of them it comes with.
\<close>

section \<open>Authenticators\<close>

datatype authenticator = MockAuthenticator bool | OtherAuthenticator nat

datatype verror =
    VBuf berror
  | VMsg merror
  | VTopics terror
  | VSess serror
  | VBufferNotReady
  | VConnectionType
  | VContinuation
  | VDisconnect
  | VInvalidType string
  | VInvalidQos byte
  | VNoOnPublish
  | VSending string verror
  | VBadOnPublish
  | VConn nat
  | VAuthFailure
  | VAuthProvider string
  | VBadSubscribe
  | VBadSuback
  | VBadUnsubscribe
  | VBadUnsuback
  | VPacketIds "16 word" "16 word"
  | VReturnCodes int int
  | VSubFailed bytes "verror option" "verror option"
  | VUnsubFailed "verror option" verror
  | VNilMessage
  | VReturned byte
  | VUser nat

type_synonym auth_registry = "string \<Rightarrow> authenticator option"

definition auth_Register :: "auth_registry \<Rightarrow> string \<Rightarrow> authenticator option \<Rightarrow> auth_registry option" where
  "auth_Register r name provider =
     (case provider of None \<Rightarrow> None | Some p \<Rightarrow> if r name \<noteq> None then None else Some (r(name \<mapsto> p)))"

definition auth_Unregister :: "auth_registry \<Rightarrow> string \<Rightarrow> auth_registry" where
  "auth_Unregister r name = r(name := None)"

definition auth_NewManager :: "auth_registry \<Rightarrow> string \<Rightarrow> verror + authenticator" where
  "auth_NewManager r name = (case r name of None \<Rightarrow> Inl (VAuthProvider name) | Some p \<Rightarrow> Inr p)"

text \<open>What another authenticator answers is code of whoever registered it.\<close>

definition auth_Authenticate ::
    "(nat \<Rightarrow> bytes \<Rightarrow> bytes \<Rightarrow> verror option) \<Rightarrow> authenticator \<Rightarrow> bytes \<Rightarrow> bytes \<Rightarrow> verror option" where
  "auth_Authenticate other a i cred =
     (case a of MockAuthenticator b \<Rightarrow> if b then None else Some VAuthFailure | OtherAuthenticator k \<Rightarrow> other k i cred)"

definition auth_init :: auth_registry where
  "auth_init = Map.empty(''mockSuccess'' \<mapsto> MockAuthenticator True, ''mockFailure'' \<mapsto> MockAuthenticator False)"

section \<open>State\<close>

text \<open>
  A connection gives what its peer sent in chunks, one to a read, cut when the reader asks for less;
  a read beyond the last chunk does not return. \<open>cout\<close> is what was written to it.
\<close>

record conn =
  cin :: "(bytes \<times> verror option) list"
  cout :: bytes
  cclosed :: bool

record stat =
  st_bytes :: int64
  st_msgs :: int64

definition stat_increment :: "stat \<Rightarrow> int \<Rightarrow> stat" where
  "stat_increment s n = s\<lparr>st_bytes := st_bytes s + word_of_int n, st_msgs := st_msgs s + 1\<rparr>"

text \<open>
  The callbacks. \<open>OnPublishFunc\<close> values are held by pointer, so the topic store holds the address of a
  cell of \<open>pubs\<close>; the function in it is a service's own \<open>publish\<close> or the user's. An
  \<open>OnCompleteFunc\<close> value is nil, the user's, or one of the closures that \<open>subscribe\<close> and
  \<open>unsubscribe\<close> make. What a user's callback does is not code of the program: the call is kept in \<open>calls\<close>,
  and \<open>user_err\<close> is what it returns.
\<close>

datatype pub_fn = PubService nat | PubUser nat

datatype done_fn = DoneNil | DoneUser nat | DoneSub nat done_fn nat | DoneUnsub nat done_fn

datatype call = CallPublish nat publish_message | CallDone nat message "message option" "verror option"

abbreviation (input) onPublishPtr :: nat where "onPublishPtr \<equiv> 1"
abbreviation (input) onCompleteFunc :: nat where "onCompleteFunc \<equiv> 2"

text \<open>
  \<open>vdone\<close> is left out: the channel \<open>done\<close> is never made, so \<open>isDone\<close> never says so. The session and
  the managers are pointers. \<open>wgStopped\<close> counts the goroutines that have not ended. The order of the list
  \<open>svcs\<close> stands for the order in which Go iterates over the map.
\<close>

record service =
  vid :: "64 word"
  vclient :: bool
  vkeepAlive :: int
  vconnectTimeout :: int
  vackTimeout :: int
  vtimeoutRetries :: int
  vconn :: "nat option"
  vsessMgr :: "nat option"
  vtopicsMgr :: "nat option"
  vsess :: "nat option"
  wmu :: bool
  vclosed :: bool
  wgStopped :: nat
  inb :: "buffer option"
  outb :: "buffer option"
  onpub :: nat
  inStat :: stat
  outStat :: stat
  intmp :: bytes
  outtmp :: bytes
  vsubs :: "iface list"
  vqoss :: bytes
  vrmsgs :: "publish_message list"

record world =
  gPacketId :: "64 word"
  gsvcid :: "64 word"
  tops :: topics_world
  sess :: sess_world
  conns :: "nat \<Rightarrow> conn"
  vheap :: "nat \<Rightarrow> service"
  svcs :: "(64 word \<times> nat) list"
  pubs :: "nat \<Rightarrow> pub_fn option"
  npubs :: nat
  dones :: "done_fn list"
  calls :: "call list"
  user_err :: "nat \<Rightarrow> verror option"

section \<open>Operations in sequence\<close>

type_synonym 'a act = "world \<Rightarrow> world \<times> 'a outcome"

definition ret :: "'a \<Rightarrow> 'a act" where
  "ret x w = (w, Return x)"

definition panic :: "'a act" where
  "panic w = (w, Panic)"

definition chain :: "'a act \<Rightarrow> ('a \<Rightarrow> 'b act) \<Rightarrow> 'b act" where
  "chain m k w =
     (case m w of (w, Return x) \<Rightarrow> k x w | (w, Sleep) \<Rightarrow> (w, Sleep) | (w, Stuck) \<Rightarrow> (w, Stuck)
      | (w, Panic) \<Rightarrow> (w, Panic) | (w, Diverge) \<Rightarrow> (w, Diverge))"

definition modify :: "(world \<Rightarrow> world) \<Rightarrow> unit act" where
  "modify f w = (f w, Return ())"

text \<open>A call that can only panic, on a nil pointer or in the codec.\<close>

definition opt :: "'a option \<Rightarrow> 'a act" where
  "opt r = (case r of None \<Rightarrow> panic | Some x \<Rightarrow> ret x)"

definition set_svc :: "nat \<Rightarrow> (service \<Rightarrow> service) \<Rightarrow> world \<Rightarrow> world" where
  "set_svc i f w = w\<lparr>vheap := (vheap w)(i := f (vheap w i))\<rparr>"

definition set_sess :: "nat \<Rightarrow> (session \<Rightarrow> session) \<Rightarrow> world \<Rightarrow> world" where
  "set_sess p f w = w\<lparr>sess := (sess w)\<lparr>sheap := (sheap (sess w))[p := f (sheap (sess w) ! p)]\<rparr>\<rparr>"

text \<open>The session of a service; a nil pointer panics.\<close>

definition sess_of :: "nat \<Rightarrow> world \<Rightarrow> (nat \<times> session) option" where
  "sess_of i w =
     (case vsess (vheap w i) of None \<Rightarrow> None
      | Some p \<Rightarrow> if p < length (sheap (sess w)) then Some (p, sheap (sess w) ! p) else None)"

lemma chain_ret [simp]: "chain (ret x) k w = k x w"
  by (simp add: chain_def ret_def)

lemma chain_modify [simp]: "chain (modify f) k w = k () (f w)"
  by (simp add: chain_def modify_def)

lemma chain_panic [simp]: "chain panic k w = (w, Panic)"
  by (simp add: chain_def panic_def)

lemma chain_Return: "m w = (w', Return x) \<Longrightarrow> chain m k w = k x w'"
  by (simp add: chain_def)

lemma chain_Panic: "m w = (w', Panic) \<Longrightarrow> chain m k w = (w', Panic)"
  by (simp add: chain_def)

lemma opt_simps [simp]: "opt (Some x) = ret x" "opt None = panic"
  by (simp_all add: opt_def)

lemma set_svc_other [simp]: "j \<noteq> i \<Longrightarrow> vheap (set_svc i f w) j = vheap w j"
  "vheap (set_svc i f w) i = f (vheap w i)"
  by (simp_all add: set_svc_def)

end
