(* ===== verification/Svc_Sendrecv.thy ===== *)
theory Svc_Sendrecv imports Svc_World begin

text \<open>
  \<open>tools/surgemq/service/sendrecv.go\<close> and \<open>misc.go\<close>: cutting packets out of the incoming ring buffer
  and putting them into the outgoing one, and reading and writing whole packets on the connection
  itself before the buffers exist.
\<close>

section \<open>Packets in the incoming buffer\<close>

text \<open>
  The loop of \<open>peekMessageSize\<close>: \<open>cnt\<close> bytes, and one more while the last has its continuation bit. A
  view that is shorter than asked for would be asked for again at once, for ever.
\<close>

function peek_size_loop :: "buffer \<Rightarrow> int \<Rightarrow> (bytes \<times> verror option) bop" where
  "peek_size_loop b cnt =
     (if cnt > 5 then (b, Return ([], Some VContinuation))
      else case buf_ReadWait b cnt of
        (b, Return (v, Some e)) \<Rightarrow> (b, Return ([], Some (VBuf e)))
      | (b, Return (v, None)) \<Rightarrow>
        (let p = view_bytes b v
         in if int (length p) < cnt then (b, Diverge)
            else case get_at p (cnt - 1) of
              None \<Rightarrow> (b, Panic)
            | Some x \<Rightarrow> if x \<ge> 0x80 then peek_size_loop b (cnt + 1) else (b, Return (p, None)))
      | (b, Sleep) \<Rightarrow> (b, Sleep)
      | (b, Stuck) \<Rightarrow> (b, Stuck)
      | (b, Panic) \<Rightarrow> (b, Panic)
      | (b, Diverge) \<Rightarrow> (b, Diverge))"
  by pat_completeness auto
termination
  by (relation "measure (\<lambda>(b, cnt). nat (6 - cnt))") auto

declare peek_size_loop.simps [simp del]

text \<open>The type and the length of the next packet, from the bytes of its header.\<close>

definition packet_size :: "bytes \<Rightarrow> (MessageType \<times> int) option" where
  "packet_size p = do {
     p1 \<leftarrow> sub_list p 1 (int (length p));
     b0 \<leftarrow> get_at p 0;
     case Uvarint p1 of (rl, m) \<Rightarrow> Some (drop_bit 4 b0, sint rl + 1 + m)
   }"

definition buf_peekMessageSize :: "buffer \<Rightarrow> ((MessageType \<times> int) \<times> verror option) bop" where
  "buf_peekMessageSize b =
     after (peek_size_loop b 2) (\<lambda>b (p, err).
       case err of
         Some e \<Rightarrow> (b, Return ((0, 0), Some e))
       | None \<Rightarrow> (b, case packet_size p of None \<Rightarrow> Panic | Some r \<Rightarrow> Return (r, None)))"

text \<open>A message with the count and the error that came with it.\<close>

type_synonym msg_ret = "message option \<times> int \<times> verror option"

definition decode_new :: "MessageType \<Rightarrow> slice \<Rightarrow> msg_ret outcome" where
  "decode_new mtype s =
     (case type_New mtype of
        Inl e \<Rightarrow> Return (None, 0, Some (VMsg e))
      | Inr msg \<Rightarrow>
        (case msg_Decode msg s of
           None \<Rightarrow> Panic
         | Some (msg, n, err) \<Rightarrow> Return (Some msg, n, map_option VMsg err)))"

text \<open>\<open>sp\<close> are the spare bytes behind those in \<open>tmp\<close>.\<close>

definition buf_peekMessage :: "buffer \<Rightarrow> bytes \<Rightarrow> MessageType \<Rightarrow> int \<Rightarrow> msg_ret bop" where
  "buf_peekMessage b sp mtype tot =
     after (buf_ReadWait b tot) (\<lambda>b (v, err).
       case err of
         Some e \<Rightarrow>
           if e \<noteq> BInsufficientData then (b, Return (None, 0, Some (VBuf e)))
           else if int (length (view_bytes b v)) \<ge> tot then (b, decode_new mtype (view_slice b sp v))
           else (b, Diverge)
       | None \<Rightarrow>
           if int (length (view_bytes b v)) \<ge> tot then (b, decode_new mtype (view_slice b sp v))
           else (b, Diverge))"

text \<open>
  \<open>readMessage\<close>, which nothing calls, copies into \<open>intmp\<close>. It asks for all of \<open>intmp\<close> from \<open>l\<close> on, not
  for what is left of the packet, so it can take bytes of the packets that follow.
\<close>

function intmp_loop :: "buffer \<Rightarrow> bytes \<Rightarrow> int \<Rightarrow> int \<Rightarrow> (bytes \<times> verror option) bop" where
  "intmp_loop b tmp l tot =
     (if l < tot
      then case buf_Read b (int (length tmp) - l) of
        (b, Return (p, err)) \<Rightarrow>
          (case copy_at tmp l p of
             None \<Rightarrow> (b, Panic)
           | Some (tmp, _) \<Rightarrow>
             (case err of
                Some e \<Rightarrow> (b, Return (tmp, Some (VBuf e)))
              | None \<Rightarrow> if p = [] then (b, Diverge) else intmp_loop b tmp (l + int (length p)) tot))
      | (b, Sleep) \<Rightarrow> (b, Sleep)
      | (b, Stuck) \<Rightarrow> (b, Stuck)
      | (b, Panic) \<Rightarrow> (b, Panic)
      | (b, Diverge) \<Rightarrow> (b, Diverge)
      else (b, Return (tmp, None)))"
  by pat_completeness auto
termination
  by (relation "measure (\<lambda>(b, tmp, l, tot). nat (tot - l))") (auto simp: nat_less_iff)

declare intmp_loop.simps [simp del]

definition buf_readMessage :: "buffer \<Rightarrow> bytes \<Rightarrow> MessageType \<Rightarrow> int \<Rightarrow> (bytes \<times> msg_ret) bop" where
  "buf_readMessage b tmp mtype tot =
     (case (if int (length tmp) < tot then make_bytes tot else Some tmp) of
        None \<Rightarrow> (b, Panic)
      | Some tmp \<Rightarrow>
        after (intmp_loop b tmp 0 tot) (\<lambda>b (tmp, err).
          case err of
            Some e \<Rightarrow> (b, Return (tmp, None, 0, Some e))
          | None \<Rightarrow>
            (case sub_list tmp 0 tot of
               None \<Rightarrow> (b, Panic)
             | Some p \<Rightarrow>
               (b, case decode_new mtype (Slice p (drop (nat tot) tmp)) of
                     Return r \<Rightarrow> Return (tmp, r)
                   | _ \<Rightarrow> Panic))))"

text \<open>On a service, whose incoming buffer may be nil.\<close>

definition on_buf :: "nat \<Rightarrow> (service \<Rightarrow> buffer option) \<Rightarrow> (buffer \<Rightarrow> service \<Rightarrow> service) \<Rightarrow> 'a act \<Rightarrow> (buffer \<Rightarrow> 'a bop) \<Rightarrow> 'a act" where
  "on_buf i get put nil f w =
     (case get (vheap w i) of
        None \<Rightarrow> nil w
      | Some b \<Rightarrow> (case f b of (b, r) \<Rightarrow> (set_svc i (put b) w, r)))"

abbreviation on_in :: "nat \<Rightarrow> 'a act \<Rightarrow> (buffer \<Rightarrow> 'a bop) \<Rightarrow> 'a act" where
  "on_in i \<equiv> on_buf i inb (\<lambda>b v. v\<lparr>inb := Some b\<rparr>)"

abbreviation on_out :: "nat \<Rightarrow> 'a act \<Rightarrow> (buffer \<Rightarrow> 'a bop) \<Rightarrow> 'a act" where
  "on_out i \<equiv> on_buf i outb (\<lambda>b v. v\<lparr>outb := Some b\<rparr>)"

definition peekMessageSize :: "nat \<Rightarrow> ((MessageType \<times> int) \<times> verror option) act" where
  "peekMessageSize i = on_in i (ret ((0, 0), Some VBufferNotReady)) buf_peekMessageSize"

definition peekMessage :: "nat \<Rightarrow> bytes \<Rightarrow> MessageType \<Rightarrow> int \<Rightarrow> msg_ret act" where
  "peekMessage i sp mtype tot =
     on_in i (ret (None, 0, Some VBufferNotReady)) (\<lambda>b. buf_peekMessage b sp mtype tot)"

definition readMessage :: "nat \<Rightarrow> MessageType \<Rightarrow> int \<Rightarrow> msg_ret act" where
  "readMessage i mtype tot w =
     chain (on_in i (ret (intmp (vheap w i), None, 0, Some VBufferNotReady))
         (\<lambda>b. buf_readMessage b (intmp (vheap w i)) mtype tot))
       (\<lambda>(tmp, r) w. (set_svc i (\<lambda>v. v\<lparr>intmp := tmp\<rparr>) w, Return r)) w"

section \<open>Packets into the outgoing buffer\<close>

text \<open>
  What \<open>writeMessage\<close> does with the buffer, holding \<open>wmu\<close>: reserve, encode and publish. When the space
  wraps round the end of the ring the packet is encoded into \<open>outtmp\<close> and copied.
\<close>

record wstate =
  w_gid :: "64 word"
  w_msg :: message
  w_tmp :: bytes

type_synonym write_ret = "wstate \<times> int \<times> verror option"

definition write_wrapped :: "wstate \<Rightarrow> int \<Rightarrow> buffer \<Rightarrow> write_ret bop" where
  "write_wrapped s l b =
     (case (if int (length (w_tmp s)) < l then make_bytes l else Some (w_tmp s)) of
        None \<Rightarrow> (b, Panic)
      | Some tmp \<Rightarrow>
        (case msg_Encode (w_gid s) (w_msg s) tmp of
           None \<Rightarrow> (b, Panic)
         | Some (((g, msg), tmp), n, err) \<Rightarrow>
           (let s = \<lparr>w_gid = g, w_msg = msg, w_tmp = tmp\<rparr>
            in case err of
              Some e \<Rightarrow> (b, Return (s, 0, Some (VMsg e)))
            | None \<Rightarrow>
              (case sub_list tmp 0 n of
                 None \<Rightarrow> (b, Panic)
               | Some p \<Rightarrow> after (buf_Write b p) (\<lambda>b (m, err). (b, Return (s, m, map_option VBuf err)))))))"

definition write_ring :: "wstate \<Rightarrow> int \<times> int \<Rightarrow> buffer \<Rightarrow> write_ret bop" where
  "write_ring s r b =
     (case msg_Encode (w_gid s) (w_msg s) (ring_region b r) of
        None \<Rightarrow> (b, Panic)
      | Some (((g, msg), d), n, err) \<Rightarrow>
        (let s = s\<lparr>w_gid := g, w_msg := msg\<rparr>; b = fill_ring b r d
         in case err of
           Some e \<Rightarrow> (b, Return (s, 0, Some (VMsg e)))
         | None \<Rightarrow>
           after (buf_WriteCommit b n) (\<lambda>b (m, err).
             case err of Some e \<Rightarrow> (b, Return (s, 0, Some (VBuf e))) | None \<Rightarrow> (b, Return (s, m, None)))))"

definition buf_writeMessage :: "wstate \<Rightarrow> int \<Rightarrow> buffer \<Rightarrow> write_ret bop" where
  "buf_writeMessage s l b =
     after (buf_WriteWait b l) (\<lambda>b (r, wrap, err).
       case err of
         Some e \<Rightarrow> (b, Return (s, 0, Some (VBuf e)))
       | None \<Rightarrow> if wrap then write_wrapped s l b else write_ring s r b)"

text \<open>The deferred unlock of \<open>wmu\<close>: not done by a call that sleeps or waits, but by one that panics.\<close>

definition unlock_wmu :: "nat \<Rightarrow> 'a act \<Rightarrow> 'a act" where
  "unlock_wmu i m w =
     (case m w of
        (w, Return x) \<Rightarrow> (set_svc i (\<lambda>v. v\<lparr>wmu := False\<rparr>) w, Return x)
      | (w, Panic) \<Rightarrow> (set_svc i (\<lambda>v. v\<lparr>wmu := False\<rparr>) w, Panic)
      | r \<Rightarrow> r)"

definition svc_writeMessage :: "nat \<Rightarrow> message \<Rightarrow> (message \<times> int \<times> verror option) act" where
  "svc_writeMessage i msg =
     chain (opt (msg_Len msg)) (\<lambda>(msg, l) w.
       if outb (vheap w i) = None then (w, Return (msg, 0, Some VBufferNotReady))
       else if wmu (vheap w i) then (w, Stuck)
       else unlock_wmu i
         (chain (on_out i panic (buf_writeMessage \<lparr>w_gid = gPacketId w, w_msg = msg, w_tmp = outtmp (vheap w i)\<rparr> l))
            (\<lambda>(s, m, err) w.
               let w = set_svc i (\<lambda>v. v\<lparr>outtmp := w_tmp s\<rparr>) (w\<lparr>gPacketId := w_gid s\<rparr>);
                   w = (if err = None then set_svc i (\<lambda>v. v\<lparr>outStat := stat_increment (outStat v) m\<rparr>) w else w)
               in (w, Return (w_msg s, m, err))))
         (set_svc i (\<lambda>v. v\<lparr>wmu := True\<rparr>) w))"

section \<open>Packets on the connection\<close>

text \<open>\<open>conn.Read\<close> into \<open>k\<close> bytes.\<close>

type_synonym chunks = "(bytes \<times> verror option) list"

fun conn_Read :: "chunks \<Rightarrow> nat \<Rightarrow> chunks \<times> (bytes \<times> verror option) outcome" where
  "conn_Read [] k = ([], Sleep)"
| "conn_Read ((p, e) # cs) k =
     (if length p > k then ((drop k p, e) # cs, Return (take k p, None)) else (cs, Return (p, e)))"

definition chunks_size :: "chunks \<Rightarrow> nat" where
  "chunks_size cs = sum_list (map (\<lambda>(p, e). Suc (length p)) cs)"

lemma conn_Read_less: "0 < k \<Longrightarrow> conn_Read cs k = (cs', Return r) \<Longrightarrow> chunks_size cs' < chunks_size cs"
  by (cases "(cs, k)" rule: conn_Read.cases) (auto simp: chunks_size_def split: if_splits)

text \<open>The header, a byte at a time: the test of \<open>l\<close> lets six bytes pass.\<close>

function header_loop :: "chunks \<Rightarrow> bytes \<Rightarrow> chunks \<times> (bytes \<times> verror option) outcome" where
  "header_loop cs buf =
     (if length buf > 5 then (cs, Return ([], Some VContinuation))
      else case conn_Read cs 1 of
        (cs', Return (p, Some e)) \<Rightarrow> (cs', Return ([], Some e))
      | (cs', Return (p, None)) \<Rightarrow>
        (case p of
           [] \<Rightarrow> header_loop cs' buf
         | x # _ \<Rightarrow> if 1 < length (buf @ [x]) \<and> x < 0x80 then (cs', Return (buf @ [x], None)) else header_loop cs' (buf @ [x]))
      | (cs', _) \<Rightarrow> (cs', Sleep))"
  by pat_completeness auto
termination
  by (relation "measure (\<lambda>(cs, buf). chunks_size cs)") (auto dest!: conn_Read_less [rotated, OF sym])

text \<open>The rest of the packet, into \<open>buf[l:]\<close>.\<close>

function body_loop :: "chunks \<Rightarrow> bytes \<Rightarrow> nat \<Rightarrow> chunks \<times> (bytes \<times> verror option) outcome" where
  "body_loop cs buf k =
     (if k = 0 then (cs, Return (buf, None))
      else case conn_Read cs k of
        (cs', Return (p, Some e)) \<Rightarrow> (cs', Return ([], Some e))
      | (cs', Return (p, None)) \<Rightarrow> body_loop cs' (buf @ p) (k - length p)
      | (cs', _) \<Rightarrow> (cs', Sleep))"
  by pat_completeness auto
termination
  by (relation "measure (\<lambda>(cs, buf, k). chunks_size cs)") (auto dest!: conn_Read_less [rotated, OF sym])

declare header_loop.simps [simp del] body_loop.simps [simp del]

definition chunks_getMessageBuffer :: "chunks \<Rightarrow> chunks \<times> (bytes \<times> verror option) outcome" where
  "chunks_getMessageBuffer cs =
     (case header_loop cs [] of
        (cs, Return (buf, None)) \<Rightarrow>
          (case Uvarint (drop 1 buf) of (rl, _) \<Rightarrow>
             if sint rl < 0 then (cs, Panic) else body_loop cs buf (unat rl))
      | r \<Rightarrow> r)"

definition getMessageBuffer :: "nat option \<Rightarrow> (bytes \<times> verror option) act" where
  "getMessageBuffer c w =
     (case c of
        None \<Rightarrow> (w, Return ([], Some VConnectionType))
      | Some k \<Rightarrow>
        (case chunks_getMessageBuffer (cin (conns w k)) of
           (cs, r) \<Rightarrow> (w\<lparr>conns := (conns w)(k := (conns w k)\<lparr>cin := cs\<rparr>)\<rparr>, r)))"

definition getConnectMessage :: "nat option \<Rightarrow> (connect_message option \<times> verror option) act" where
  "getConnectMessage c =
     chain (getMessageBuffer c) (\<lambda>(buf, err).
       case err of
         Some e \<Rightarrow> ret (None, Some e)
       | None \<Rightarrow> chain (opt (connect_Decode NewConnectMessage (exact buf))) (\<lambda>(m, n, err). ret (Some m, map_option VMsg err)))"

definition getConnackMessage :: "nat option \<Rightarrow> (connack_message option \<times> verror option) act" where
  "getConnackMessage c =
     chain (getMessageBuffer c) (\<lambda>(buf, err).
       case err of
         Some e \<Rightarrow> ret (None, Some e)
       | None \<Rightarrow> chain (opt (connack_Decode NewConnackMessage (exact buf))) (\<lambda>(m, n, err). ret (Some m, map_option VMsg err)))"

text \<open>A write to an open connection succeeds; to a closed one it fails.\<close>

definition writeMessageBuffer :: "nat option \<Rightarrow> bytes \<Rightarrow> verror option act" where
  "writeMessageBuffer c p w =
     (case c of
        None \<Rightarrow> (w, Return (Some VConnectionType))
      | Some k \<Rightarrow>
        if cclosed (conns w k) then (w, Return (Some (VConn k)))
        else (w\<lparr>conns := (conns w)(k := (conns w k)\<lparr>cout := cout (conns w k) @ p\<rparr>)\<rparr>, Return None))"

definition conn_writeMessage :: "nat option \<Rightarrow> message \<Rightarrow> (message \<times> verror option) act" where
  "conn_writeMessage c msg =
     chain (opt (msg_Len msg)) (\<lambda>(msg, l).
     chain (opt (make_bytes l)) (\<lambda>buf w.
     chain (opt (msg_Encode (gPacketId w) msg buf)) (\<lambda>(((g, msg), buf), n, err).
       chain (modify (\<lambda>w. w\<lparr>gPacketId := g\<rparr>)) (\<lambda>_.
         case err of
           Some e \<Rightarrow> ret (msg, Some (VMsg e))
         | None \<Rightarrow> chain (writeMessageBuffer c buf) (\<lambda>e. ret (msg, e)))) w))"

end
