(* ===== verification/Svc_Process.thy ===== *)
theory Svc_Process imports Svc_Sendrecv begin

text \<open>
  \<open>tools/surgemq/service/process.go\<close> and the sending operations of \<open>service.go\<close>: what a service does with
  each packet it receives, the acknowledgement cycles, and delivery to the subscribers. A packet is
  processed as one step: two processors interleave between packets, not inside one.
\<close>

section \<open>Callbacks\<close>

text \<open>The interface value of a function is a new one every time.\<close>

definition iface_of :: "done_fn \<Rightarrow> iface act" where
  "iface_of f w = (w\<lparr>dones := dones w @ [f]\<rparr>, Return (IFunc onCompleteFunc (length (dones w))))"

definition log_call :: "call \<Rightarrow> unit act" where
  "log_call c = modify (\<lambda>w. w\<lparr>calls := calls w @ [c]\<rparr>)"

definition on_session :: "nat \<Rightarrow> (session \<Rightarrow> session \<times> 'a) \<Rightarrow> 'a act" where
  "on_session i f w =
     (case sess_of i w of None \<Rightarrow> (w, Panic)
      | Some (p, s) \<Rightarrow> (case f s of (s, r) \<Rightarrow> (set_sess p (\<lambda>_. s) w, Return r)))"

definition topics_of :: "nat \<Rightarrow> nat act" where
  "topics_of i w = opt (vtopicsMgr (vheap w i)) w"

definition do_Subscribe :: "nat \<Rightarrow> bytes \<Rightarrow> byte \<Rightarrow> iface option \<Rightarrow> (byte \<times> terror option) act" where
  "do_Subscribe i t q sub =
     chain (topics_of i) (\<lambda>a w.
       case mgr_Subscribe (tops w) a t q sub of
         None \<Rightarrow> (w, Panic)
       | Some (tw, r) \<Rightarrow> (w\<lparr>tops := tw\<rparr>, Return r))"

definition do_Unsubscribe :: "nat \<Rightarrow> bytes \<Rightarrow> iface option \<Rightarrow> terror option act" where
  "do_Unsubscribe i t sub =
     chain (topics_of i) (\<lambda>a w.
       case mgr_Unsubscribe (tops w) a t sub of
         None \<Rightarrow> (w, Panic)
       | Some (tw, r) \<Rightarrow> (w\<lparr>tops := tw\<rparr>, Return r))"

text \<open>The loop of \<open>subscribe\<close>'s callback over the topics and the return codes.\<close>

fun grant_loop :: "nat \<Rightarrow> nat \<Rightarrow> bytes list \<Rightarrow> bytes \<Rightarrow> verror option \<Rightarrow> verror option act" where
  "grant_loop i cell [] cs err2 = ret err2"
| "grant_loop i cell (t # ts) [] err2 = panic"
| "grant_loop i cell (t # ts) (c # cs) err2 =
     (if c = QosFailure then grant_loop i cell ts cs (Some (VSubFailed t None err2))
      else chain (on_session i (\<lambda>s. sess_AddTopic s t c)) (\<lambda>_.
           chain (do_Subscribe i t c (Some (IVal onPublishPtr cell))) (\<lambda>(_, err).
             grant_loop i cell ts cs
               (case err of None \<Rightarrow> err2 | Some e \<Rightarrow> Some (VSubFailed t (Some (VTopics e)) err2)))))"

fun release_loop :: "nat \<Rightarrow> bytes list \<Rightarrow> verror option \<Rightarrow> verror option act" where
  "release_loop i [] err2 = ret err2"
| "release_loop i (t # ts) err2 =
     chain (do_Unsubscribe i t None) (\<lambda>err.
     chain (on_session i (\<lambda>s. sess_RemoveTopic s t)) (\<lambda>_.
       release_loop i ts (case err of None \<Rightarrow> err2 | Some e \<Rightarrow> Some (VUnsubFailed err2 (VTopics e)))))"

text \<open>The address of the variable \<open>onPublish\<close> in the callback: a new one in every call.\<close>

definition new_cell :: "pub_fn option \<Rightarrow> nat act" where
  "new_cell f w = (w\<lparr>pubs := (pubs w)(npubs w := f), npubs := npubs w + 1\<rparr>, Return (npubs w))"

fun call_done :: "done_fn \<Rightarrow> message \<Rightarrow> message option \<Rightarrow> verror option \<Rightarrow> verror option act" where
  "call_done DoneNil msg ack err = panic"
| "call_done (DoneUser k) msg ack err =
     chain (log_call (CallDone k msg ack err)) (\<lambda>_ w. (w, Return (user_err w k)))"
| "call_done (DoneSub i onc k) msg ack err =
     (let tell = (\<lambda>e d. if onc \<noteq> DoneNil then call_done onc msg ack e else ret d)
      in case err of
        Some e \<Rightarrow> tell (Some e) (Some e)
      | None \<Rightarrow>
        (case msg of
           MSubscribe sub \<Rightarrow>
             (case ack of
                Some (MSuback suback) \<Rightarrow>
                  (if header_PacketId sub \<noteq> header_PacketId suback
                   then tell (Some (VPacketIds (header_PacketId sub) (header_PacketId suback))) None
                   else if length (sub_topics sub) \<noteq> length (returnCodes suback)
                   then tell (Some (VReturnCodes (int (length (sub_topics sub))) (int (length (returnCodes suback))))) None
                   else chain (new_cell (Some (PubUser k))) (\<lambda>cell.
                        chain (grant_loop i cell (sub_topics sub) (returnCodes suback) None) (\<lambda>err2. tell err2 err2)))
              | _ \<Rightarrow> tell (Some VBadSuback) None)
         | _ \<Rightarrow> tell (Some VBadSubscribe) None))"
| "call_done (DoneUnsub i onc) msg ack err =
     (let tell = (\<lambda>e d. if onc \<noteq> DoneNil then call_done onc msg ack e else ret d)
      in case err of
        Some e \<Rightarrow> tell (Some e) (Some e)
      | None \<Rightarrow>
        (case msg of
           MUnsubscribe unsub \<Rightarrow>
             (case ack of
                Some (MUnsuback unsuback) \<Rightarrow>
                  (if header_PacketId unsub \<noteq> header_PacketId unsuback
                   then tell (Some (VPacketIds (header_PacketId unsub) (header_PacketId unsuback))) None
                   else chain (release_loop i (unsub_topics unsub) None) (\<lambda>err2. tell err2 err2))
              | _ \<Rightarrow> tell (Some VBadUnsuback) None)
         | _ \<Rightarrow> tell (Some VBadUnsubscribe) None))"

section \<open>Queues of the session\<close>

datatype qname = QPub1ack | QPub2in | QPub2out | QSuback | QUnsuback | QPingack

fun get_q :: "qname \<Rightarrow> session \<Rightarrow> ackqueue option" where
  "get_q QPub1ack s = Pub1ack s"
| "get_q QPub2in s = Pub2in s"
| "get_q QPub2out s = Pub2out s"
| "get_q QSuback s = Suback s"
| "get_q QUnsuback s = Unsuback s"
| "get_q QPingack s = Pingack s"

fun put_q :: "qname \<Rightarrow> ackqueue \<Rightarrow> session \<Rightarrow> session" where
  "put_q QPub1ack q s = s\<lparr>Pub1ack := Some q\<rparr>"
| "put_q QPub2in q s = s\<lparr>Pub2in := Some q\<rparr>"
| "put_q QPub2out q s = s\<lparr>Pub2out := Some q\<rparr>"
| "put_q QSuback q s = s\<lparr>Suback := Some q\<rparr>"
| "put_q QUnsuback q s = s\<lparr>Unsuback := Some q\<rparr>"
| "put_q QPingack q s = s\<lparr>Pingack := Some q\<rparr>"

definition on_queue :: "nat \<Rightarrow> qname \<Rightarrow> (64 word \<Rightarrow> ackqueue \<Rightarrow> ((64 word \<times> 'm) \<times> ackqueue \<times> 'a) option) \<Rightarrow> ('m \<times> 'a) act" where
  "on_queue i n f w =
     (case sess_of i w of None \<Rightarrow> (w, Panic)
      | Some (p, s) \<Rightarrow>
        (case get_q n s of None \<Rightarrow> (w, Panic)
         | Some q \<Rightarrow>
           (case f (gPacketId w) q of None \<Rightarrow> (w, Panic)
            | Some ((g, m), q, r) \<Rightarrow> (set_sess p (put_q n q) (w\<lparr>gPacketId := g\<rparr>), Return (m, r)))))"

text \<open>\<open>Wait\<close> with an \<open>OnCompleteFunc\<close>, nil or not, and with the untyped \<open>nil\<close>.\<close>

definition q_Wait :: "nat \<Rightarrow> qname \<Rightarrow> message \<Rightarrow> iface option \<Rightarrow> (message \<times> serror option) act" where
  "q_Wait i n msg onc = on_queue i n (\<lambda>g q. Wait g q msg onc)"

definition q_Ack :: "nat \<Rightarrow> qname \<Rightarrow> message \<Rightarrow> (message \<times> serror option) act" where
  "q_Ack i n msg = on_queue i n (\<lambda>g q. Ack g q msg)"

definition q_Acked :: "nat \<Rightarrow> qname \<Rightarrow> ackmsg list act" where
  "q_Acked i n =
     chain (on_queue i n (\<lambda>g q. map_option (\<lambda>(q, r). ((g, ()), q, r)) (Acked q))) (\<lambda>(_, r). ret r)"

definition wait_done :: "nat \<Rightarrow> qname \<Rightarrow> message \<Rightarrow> done_fn \<Rightarrow> (message \<times> verror option) act" where
  "wait_done i n msg onc =
     chain (iface_of onc) (\<lambda>f. chain (q_Wait i n msg (Some f)) (\<lambda>(msg, e). ret (msg, map_option VSess e)))"

section \<open>Sending\<close>

definition svc_publish :: "nat \<Rightarrow> publish_message \<Rightarrow> done_fn \<Rightarrow> (publish_message \<times> verror option) act" where
  "svc_publish i pm onc =
     chain (svc_writeMessage i (MPublish pm)) (\<lambda>(msg, _, err).
       case msg of
         MPublish pm \<Rightarrow>
           (case err of
              Some e \<Rightarrow> ret (pm, Some (VSending (header_Name pm) e))
            | None \<Rightarrow>
              chain (opt (QoS pm)) (\<lambda>q.
                if q = QosAtMostOnce
                then if onc \<noteq> DoneNil then chain (call_done onc (MPublish pm) None None) (\<lambda>e. ret (pm, e)) else ret (pm, None)
                else if q = QosAtLeastOnce \<or> q = QosExactlyOnce
                then chain (wait_done i (if q = QosAtLeastOnce then QPub1ack else QPub2out) (MPublish pm) onc) (\<lambda>(msg, e).
                       case msg of MPublish pm \<Rightarrow> ret (pm, e) | _ \<Rightarrow> panic)
                else ret (pm, None)))
       | _ \<Rightarrow> panic)"

text \<open>The other three write a packet and put it into a queue.\<close>

definition send_wait :: "nat \<Rightarrow> qname \<Rightarrow> message \<Rightarrow> string \<Rightarrow> done_fn \<Rightarrow> verror option act" where
  "send_wait i n msg name onc =
     chain (svc_writeMessage i msg) (\<lambda>(msg, _, err).
       case err of
         Some e \<Rightarrow> ret (Some (VSending name e))
       | None \<Rightarrow> chain (wait_done i n msg onc) (\<lambda>(_, e). ret e))"

definition svc_subscribe :: "nat \<Rightarrow> subscribe_message \<Rightarrow> done_fn \<Rightarrow> nat option \<Rightarrow> verror option act" where
  "svc_subscribe i m onc onPublish =
     (case onPublish of
        None \<Rightarrow> ret (Some VNoOnPublish)
      | Some k \<Rightarrow> send_wait i QSuback (MSubscribe m) (header_Name m) (DoneSub i onc k))"

definition svc_unsubscribe :: "nat \<Rightarrow> unsubscribe_message \<Rightarrow> done_fn \<Rightarrow> verror option act" where
  "svc_unsubscribe i m onc = send_wait i QUnsuback (MUnsubscribe m) (header_Name m) (DoneUnsub i onc)"

definition svc_ping :: "nat \<Rightarrow> done_fn \<Rightarrow> verror option act" where
  "svc_ping i onc =
     send_wait i QPingack (MPingreq NewPingreqMessage) (header_Name NewPingreqMessage) onc"

section \<open>Delivery\<close>

definition call_pub :: "nat \<Rightarrow> publish_message \<Rightarrow> publish_message act" where
  "call_pub cell pm w =
     (case pubs w cell of
        None \<Rightarrow> (w, Panic)
      | Some (PubService j) \<Rightarrow> chain (svc_publish j pm DoneNil) (\<lambda>(pm, _). ret pm) w
      | Some (PubUser k) \<Rightarrow> chain (log_call (CallPublish k pm)) (\<lambda>_. ret pm) w)"

fun pub_loop :: "iface list \<Rightarrow> publish_message \<Rightarrow> (publish_message \<times> verror option) act" where
  "pub_loop [] pm = ret (pm, None)"
| "pub_loop (IVal t v # ss) pm =
     (if t = onPublishPtr then chain (call_pub v pm) (pub_loop ss) else ret (pm, Some VBadOnPublish))"
| "pub_loop (IFunc t v # ss) pm = ret (pm, Some VBadOnPublish)"

definition do_Retain :: "nat \<Rightarrow> publish_message \<Rightarrow> publish_message act" where
  "do_Retain i pm =
     chain (topics_of i) (\<lambda>a w.
       case mgr_Retain (gPacketId w) (tops w) a pm of
         None \<Rightarrow> (w, Panic)
       | Some ((g, pm), tw, _) \<Rightarrow> (w\<lparr>gPacketId := g, tops := tw\<rparr>, Return pm))"

definition do_Subscribers :: "nat \<Rightarrow> publish_message \<Rightarrow> terror option act" where
  "do_Subscribers i pm =
     chain (topics_of i) (\<lambda>a.
     chain (opt (QoS pm)) (\<lambda>q w.
       case mgr_Subscribers (tops w) a (topic pm) q of
         None \<Rightarrow> (w, Panic)
       | Some ((subs, qoss), e) \<Rightarrow>
         ((if ValidQos q then set_svc i (\<lambda>v. v\<lparr>vsubs := subs, vqoss := qoss\<rparr>) w else w), Return e)))"

definition onPublish :: "nat \<Rightarrow> publish_message \<Rightarrow> (publish_message \<times> verror option) act" where
  "onPublish i pm =
     chain (opt (Retain pm)) (\<lambda>r.
     chain (if r then do_Retain i pm else ret pm) (\<lambda>pm.
     chain (do_Subscribers i pm) (\<lambda>err.
       case err of
         Some e \<Rightarrow> ret (pm, Some (VTopics e))
       | None \<Rightarrow>
         chain (opt (SetRetain pm False)) (\<lambda>pm w. pub_loop (vsubs (vheap w i)) pm w))))"

section \<open>Completed cycles\<close>

text \<open>Decoding the bytes an entry keeps: \<^const>\<open>None\<close> is an error, for which the entry is skipped.\<close>

definition decode_kept :: "MessageType \<Rightarrow> bytes \<Rightarrow> message option act" where
  "decode_kept t p =
     (case type_New t of
        Inl e \<Rightarrow> ret None
      | Inr msg \<Rightarrow> chain (opt (msg_Decode msg (exact p))) (\<lambda>(msg, _, err). ret (if err = None then Some msg else None)))"

definition complete :: "ackmsg \<Rightarrow> message \<Rightarrow> message \<Rightarrow> unit act" where
  "complete a msg ack w =
     (case OnComplete a of
        Some (IFunc t v) \<Rightarrow>
          if t = onCompleteFunc \<and> v < length (dones w)
          then if dones w ! v \<noteq> DoneNil then chain (call_done (dones w ! v) msg (Some ack) None) (\<lambda>_. ret ()) w else (w, Return ())
          else (w, Return ())
      | _ \<Rightarrow> (w, Return ()))"

definition acked_one :: "nat \<Rightarrow> ackmsg \<Rightarrow> unit act" where
  "acked_one i a =
     chain (decode_kept (Mtype a) (Msgbuf a)) (\<lambda>msg.
       case msg of
         None \<Rightarrow> ret ()
       | Some msg \<Rightarrow>
         chain (decode_kept (State a) (Ackbuf a)) (\<lambda>ack.
           case ack of
             None \<Rightarrow> ret ()
           | Some ack \<Rightarrow>
             if State a = PUBREL
             then (case msg of
                MPublish pm \<Rightarrow> chain (onPublish i pm) (\<lambda>(pm, _). complete a (MPublish pm) ack)
              | _ \<Rightarrow> panic)
             else if State a \<in> set [PUBACK, PUBCOMP, SUBACK, UNSUBACK, PINGRESP] then complete a msg ack
             else ret ()))"

fun acked_all :: "nat \<Rightarrow> ackmsg list \<Rightarrow> unit act" where
  "acked_all i [] = ret ()"
| "acked_all i (a # as) = chain (acked_one i a) (\<lambda>_. acked_all i as)"

definition processAcked :: "nat \<Rightarrow> qname \<Rightarrow> unit act" where
  "processAcked i n = chain (q_Acked i n) (acked_all i)"

section \<open>Incoming packets\<close>

definition respond :: "nat \<Rightarrow> message \<Rightarrow> verror option act" where
  "respond i msg = chain (svc_writeMessage i msg) (\<lambda>(_, _, err). ret err)"

definition processPublish :: "nat \<Rightarrow> publish_message \<Rightarrow> verror option act" where
  "processPublish i pm =
     chain (opt (QoS pm)) (\<lambda>q.
       if q = QosExactlyOnce
       then chain (q_Wait i QPub2in (MPublish pm) None) (\<lambda>(msg, _).
              respond i (MPubrec (SetPacketId NewPubrecMessage (msg_PacketId msg))))
       else if q = QosAtLeastOnce
       then chain (respond i (MPuback (SetPacketId NewPubackMessage (header_PacketId pm)))) (\<lambda>err.
              case err of
                Some e \<Rightarrow> ret (Some e)
              | None \<Rightarrow> chain (onPublish i pm) (\<lambda>(_, e). ret e))
       else if q = QosAtMostOnce then chain (onPublish i pm) (\<lambda>(_, e). ret e)
       else ret (Some (VInvalidQos q)))"

text \<open>The errors of \<open>AddTopic\<close> and \<open>Retained\<close> are ignored; that of \<open>Subscribe\<close> ends it, without a SUBACK.\<close>

fun sub_loop :: "nat \<Rightarrow> bytes list \<Rightarrow> bytes \<Rightarrow> bytes \<Rightarrow> (bytes \<times> verror option) act" where
  "sub_loop i [] qs rcs = ret (rcs, None)"
| "sub_loop i (t # ts) [] rcs = panic"
| "sub_loop i (t # ts) (q # qs) rcs = (\<lambda>w.
     chain (do_Subscribe i t q (Some (IVal onPublishPtr (onpub (vheap w i))))) (\<lambda>(rq, err).
       case err of
         Some e \<Rightarrow> ret (rcs, Some (VTopics e))
       | None \<Rightarrow>
         chain (on_session i (\<lambda>s. sess_AddTopic s t q)) (\<lambda>_.
         chain (topics_of i) (\<lambda>a.
         chain (\<lambda>w. opt (mgr_Retained (tops w) a t) w) (\<lambda>(ms, _).
         chain (modify (set_svc i (\<lambda>v. v\<lparr>vrmsgs := vrmsgs v @ ms\<rparr>))) (\<lambda>_.
           sub_loop i ts qs (rcs @ [rq])))))) w)"

fun retained_loop :: "nat \<Rightarrow> publish_message list \<Rightarrow> verror option act" where
  "retained_loop i [] = ret None"
| "retained_loop i (rm # ms) =
     chain (svc_publish i rm DoneNil) (\<lambda>(_, err).
       case err of Some e \<Rightarrow> ret (Some e) | None \<Rightarrow> retained_loop i ms)"

definition processSubscribe :: "nat \<Rightarrow> subscribe_message \<Rightarrow> verror option act" where
  "processSubscribe i m =
     (let resp = SetPacketId NewSubackMessage (header_PacketId m) in
     chain (modify (set_svc i (\<lambda>v. v\<lparr>vrmsgs := []\<rparr>))) (\<lambda>_.
     chain (sub_loop i (sub_topics m) (sub_qos m) []) (\<lambda>(rcs, err).
       case err of
         Some e \<Rightarrow> ret (Some e)
       | None \<Rightarrow>
         (case AddReturnCodes resp rcs of
            (resp, Some e) \<Rightarrow> ret (Some (VMsg e))
          | (resp, None) \<Rightarrow>
            chain (respond i (MSuback resp)) (\<lambda>err.
              case err of
                Some e \<Rightarrow> ret (Some e)
              | None \<Rightarrow> (\<lambda>w. retained_loop i (vrmsgs (vheap w i)) w))))))"

fun unsub_loop :: "nat \<Rightarrow> bytes list \<Rightarrow> unit act" where
  "unsub_loop i [] = ret ()"
| "unsub_loop i (t # ts) = (\<lambda>w.
     chain (do_Unsubscribe i t (Some (IVal onPublishPtr (onpub (vheap w i))))) (\<lambda>_.
     chain (on_session i (\<lambda>s. sess_RemoveTopic s t)) (\<lambda>_. unsub_loop i ts)) w)"

definition processUnsubscribe :: "nat \<Rightarrow> unsubscribe_message \<Rightarrow> verror option act" where
  "processUnsubscribe i m =
     chain (unsub_loop i (unsub_topics m)) (\<lambda>_.
       respond i (MUnsuback (SetPacketId NewUnsubackMessage (header_PacketId m))))"

definition sess_Cmsg_clear_will :: "session \<Rightarrow> session option" where
  "sess_Cmsg_clear_will s = map_option (\<lambda>c. s\<lparr>Cmsg := Some (SetWillFlag c False)\<rparr>) (Cmsg s)"

definition processIncoming :: "nat \<Rightarrow> message \<Rightarrow> verror option act" where
  "processIncoming i msg =
     (case msg of
        MPublish pm \<Rightarrow> processPublish i pm
      | MPuback h \<Rightarrow>
          chain (q_Ack i QPub1ack msg) (\<lambda>_. chain (processAcked i QPub1ack) (\<lambda>_. ret None))
      | MPubrec h \<Rightarrow>
          chain (q_Ack i QPub2out msg) (\<lambda>(msg, err).
            case err of
              Some e \<Rightarrow> ret (Some (VSess e))
            | None \<Rightarrow> respond i (MPubrel (SetPacketId NewPubrelMessage (msg_PacketId msg))))
      | MPubrel h \<Rightarrow>
          chain (q_Ack i QPub2in msg) (\<lambda>(msg, err).
            case err of
              Some e \<Rightarrow> ret (Some (VSess e))
            | None \<Rightarrow>
              chain (processAcked i QPub2in) (\<lambda>_.
                respond i (MPubcomp (SetPacketId NewPubcompMessage (msg_PacketId msg)))))
      | MPubcomp h \<Rightarrow>
          chain (q_Ack i QPub2out msg) (\<lambda>(msg, err).
            case err of
              Some e \<Rightarrow> ret (Some (VSess e))
            | None \<Rightarrow> chain (processAcked i QPub2out) (\<lambda>_. ret None))
      | MSubscribe m \<Rightarrow> processSubscribe i m
      | MSuback m \<Rightarrow>
          chain (q_Ack i QSuback msg) (\<lambda>_. chain (processAcked i QSuback) (\<lambda>_. ret None))
      | MUnsubscribe m \<Rightarrow> processUnsubscribe i m
      | MUnsuback h \<Rightarrow>
          chain (q_Ack i QUnsuback msg) (\<lambda>_. chain (processAcked i QUnsuback) (\<lambda>_. ret None))
      | MPingreq h \<Rightarrow> respond i (MPingresp NewPingrespMessage)
      | MPingresp h \<Rightarrow>
          chain (q_Ack i QPingack msg) (\<lambda>_. chain (processAcked i QPingack) (\<lambda>_. ret None))
      | MDisconnect h \<Rightarrow> (\<lambda>w.
          case sess_of i w of None \<Rightarrow> (w, Panic)
          | Some (p, s) \<Rightarrow>
            (case sess_Cmsg_clear_will s of None \<Rightarrow> (w, Panic)
             | Some s \<Rightarrow> (set_sess p (\<lambda>_. s) w, Return (Some VDisconnect))))
      | MConnect m \<Rightarrow> ret (Some (VInvalidType (header_Name m)))
      | MConnack m \<Rightarrow> ret (Some (VInvalidType (header_Name m))))"

text \<open>
  One round of \<open>processor\<close>: \<^const>\<open>True\<close> to go on. \<open>sp\<close> are the bytes behind the incoming buffer's \<open>tmp\<close>.
\<close>

definition processor_round :: "nat \<Rightarrow> bytes \<Rightarrow> bool act" where
  "processor_round i sp =
     chain (peekMessageSize i) (\<lambda>((mtype, tot), err).
       if err \<noteq> None then ret False
       else chain (peekMessage i sp mtype tot) (\<lambda>(msg, n, err).
         case (msg, err) of
           (Some msg, None) \<Rightarrow>
             chain (modify (set_svc i (\<lambda>v. v\<lparr>inStat := stat_increment (inStat v) n\<rparr>))) (\<lambda>_.
             chain (processIncoming i msg) (\<lambda>err.
               if err = Some VDisconnect then ret False
               else chain (on_in i panic (\<lambda>b. buf_ReadCommit b tot)) (\<lambda>(_, err). ret (err = None))))
         | _ \<Rightarrow> ret False))"

text \<open>
  The loop, up to the return or the panic that ends it, or to the call in which it sleeps.
\<close>

partial_function (option) processor_loop :: "nat \<Rightarrow> bytes \<Rightarrow> world \<Rightarrow> (world \<times> unit outcome) option" where
  "processor_loop i sp w =
     (case processor_round i sp w of
        (w, Return goon) \<Rightarrow> if goon then processor_loop i sp w else Some (w, Return ())
      | (w, Sleep) \<Rightarrow> Some (w, Sleep)
      | (w, Stuck) \<Rightarrow> Some (w, Stuck)
      | (w, Panic) \<Rightarrow> Some (w, Panic)
      | (w, Diverge) \<Rightarrow> Some (w, Diverge))"

end
