(* ===== verification/Svc_Server.thy ===== *)
theory Svc_Server imports Svc_Process begin

text \<open>
  The life of a connection: \<open>start\<close> and \<open>stop\<close> of \<open>service.go\<close> with its three goroutines, and what
  \<open>server.go\<close> and \<open>client.go\<close> do to establish it. Listening, dialling and the parsing of URIs are calls to the
  network; what they give is an argument.
\<close>

section \<open>Stopping a service\<close>

definition recovered :: "unit act \<Rightarrow> unit act" where
  "recovered m w = (case m w of (w, Panic) \<Rightarrow> (w, Return ()) | r \<Rightarrow> r)"

definition goroutine_done :: "nat \<Rightarrow> unit act" where
  "goroutine_done i = modify (set_svc i (\<lambda>v. v\<lparr>wgStopped := wgStopped v - 1\<rparr>))"

definition close_conn :: "nat \<Rightarrow> world \<Rightarrow> world" where
  "close_conn k w = w\<lparr>conns := (conns w)(k := (conns w k)\<lparr>cclosed := True\<rparr>)\<rparr>"

definition stop_begin :: "nat \<Rightarrow> bool act" where
  "stop_begin i w =
     (if vclosed (vheap w i) then (w, Return False)
      else chain (modify (set_svc i (\<lambda>v. v\<lparr>vclosed := True\<rparr>))) (\<lambda>_ w.
           chain (modify (case vconn (vheap w i) of None \<Rightarrow> id | Some k \<Rightarrow> close_conn k)) (\<lambda>_.
           chain (on_in i panic buf_Close) (\<lambda>_.
           chain (on_out i panic buf_Close) (\<lambda>_. ret True))) w) w)"

definition stop_wait :: "nat \<Rightarrow> unit act" where
  "stop_wait i w = (w, if wgStopped (vheap w i) = 0 then Return () else Sleep)"

fun stop_unsub :: "nat \<Rightarrow> bytes list \<Rightarrow> unit act" where
  "stop_unsub i [] = ret ()"
| "stop_unsub i (t # ts) = (\<lambda>w.
     chain (do_Unsubscribe i t (Some (IVal onPublishPtr (onpub (vheap w i))))) (\<lambda>_. stop_unsub i ts) w)"

definition stop_topics :: "nat \<Rightarrow> unit act" where
  "stop_topics i w =
     (if \<not> vclient (vheap w i) \<and> vsess (vheap w i) \<noteq> None
      then chain (on_session i (\<lambda>s. (s, sess_Topics s))) (\<lambda>(ts, _, err).
             if err \<noteq> None then ret () else stop_unsub i ts) w
      else (w, Return ()))"

text \<open>A nil session or a nil CONNECT panics.\<close>

definition cmsg_of :: "nat \<Rightarrow> connect_message act" where
  "cmsg_of i w = opt (Option.bind (sess_of i w) (\<lambda>(p, s). Cmsg s)) w"

definition stop_will :: "nat \<Rightarrow> unit act" where
  "stop_will i w =
     (if vclient (vheap w i) then (w, Return ())
      else chain (cmsg_of i) (\<lambda>c w.
        if WillFlag c
        then (case Option.bind (sess_of i w) (\<lambda>(p, s). Will s) of
                None \<Rightarrow> (w, Panic)
              | Some will \<Rightarrow>
                  chain (onPublish i will) (\<lambda>(m, _).
                    modify (case sess_of i w of None \<Rightarrow> id | Some (p, _) \<Rightarrow> set_sess p (\<lambda>s. s\<lparr>Will := Some m\<rparr>))) w)
        else (w, Return ())) w)"

definition string_of :: "bytes \<Rightarrow> string" where
  "string_of p = map (\<lambda>b. char_of (unat b)) p"

definition stop_registry :: "nat \<Rightarrow> unit act" where
  "stop_registry i w =
     (if vclient (vheap w i)
      then chain (cmsg_of i) (\<lambda>c. modify (\<lambda>w. w\<lparr>tops := topics_Unregister (tops w) (string_of (clientId c))\<rparr>)) w
      else (w, Return ()))"

definition stop_session :: "nat \<Rightarrow> unit act" where
  "stop_session i =
     chain (cmsg_of i) (\<lambda>c. modify (\<lambda>w.
       case vsessMgr (vheap w i) of
         Some a \<Rightarrow> if CleanSession c then w\<lparr>sess := prov_Del (sess w) a (clientId c)\<rparr> else w
       | None \<Rightarrow> w))"

definition stop_end :: "nat \<Rightarrow> unit act" where
  "stop_end i =
     chain (stop_topics i) (\<lambda>_.
     chain (stop_will i) (\<lambda>_.
     chain (stop_registry i) (\<lambda>_.
     chain (stop_session i) (\<lambda>_.
     chain (modify (set_svc i (\<lambda>v. v\<lparr>vconn := None, inb := None, outb := None\<rparr>))) (\<lambda>_.
     modify (\<lambda>w. if vclient (vheap w i) then w else w\<lparr>svcs := AList.delete (vid (vheap w i)) (svcs w)\<rparr>))))))"

text \<open>
  \<open>stop\<close>, to its end or to the call in which it waits. A wait for the goroutines goes on, when they
  have ended, with \<open>stop_end\<close>.
\<close>

definition svc_stop :: "nat \<Rightarrow> unit act" where
  "svc_stop i =
     recovered (chain (stop_begin i) (\<lambda>first.
       if first then chain (stop_wait i) (\<lambda>_. stop_end i) else ret ()))"

section \<open>The goroutines\<close>

text \<open>Each recovers from its panics; \<open>processor\<close> then stops the service.\<close>

definition svc_processor :: "nat \<Rightarrow> bytes \<Rightarrow> world \<Rightarrow> (world \<times> unit outcome) option" where
  "svc_processor i sp w =
     map_option (\<lambda>(w, r).
       case r of
         Return _ \<Rightarrow> chain (goroutine_done i) (\<lambda>_. svc_stop i) w
       | Panic \<Rightarrow> chain (goroutine_done i) (\<lambda>_. svc_stop i) w
       | _ \<Rightarrow> (w, r)) (processor_loop i sp w)"

text \<open>
  \<open>ReadFrom\<close> and \<open>WriteTo\<close> return errors only, so the loops of \<open>receiver\<close> and \<open>sender\<close> have one round. The
  arguments are what the connection's \<open>Read\<close>s and \<open>Write\<close>s return, the time-out of the keep-alive included.
\<close>

definition svc_receiver :: "nat \<Rightarrow> (bytes \<times> berror option) list \<Rightarrow> unit act" where
  "svc_receiver i rs w =
     chain (recovered (\<lambda>w.
         if vconn (vheap w i) = None then (w, Return ())
         else chain (on_in i panic (\<lambda>b. buf_ReadFrom b 0 rs)) (\<lambda>_. ret ()) w))
       (\<lambda>_. goroutine_done i) w"

definition sent :: "nat \<Rightarrow> bytes list \<Rightarrow> world \<Rightarrow> world" where
  "sent k ps w = w\<lparr>conns := (conns w)(k := (conns w k)\<lparr>cout := cout (conns w k) @ concat ps\<rparr>)\<rparr>"

definition svc_sender :: "nat \<Rightarrow> (int \<times> berror option) list \<Rightarrow> unit act" where
  "svc_sender i ws w =
     chain (recovered (\<lambda>w.
         case vconn (vheap w i) of
           None \<Rightarrow> (w, Return ())
         | Some k \<Rightarrow>
           (case outb (vheap w i) of
              None \<Rightarrow> (w, Panic)
            | Some b \<Rightarrow>
              (case buf_WriteTo b 0 ws of
                 (ps, b, r) \<Rightarrow>
                   chain (\<lambda>w. (sent k ps (set_svc i (\<lambda>v. v\<lparr>outb := Some b\<rparr>) w), r)) (\<lambda>_. ret ()) w))))
       (\<lambda>_. goroutine_done i) w"

fun start_topics :: "nat \<Rightarrow> bytes list \<Rightarrow> bytes \<Rightarrow> unit act" where
  "start_topics i (t # ts) (q # qs) = (\<lambda>w.
     chain (do_Subscribe i t q (Some (IVal onPublishPtr (onpub (vheap w i))))) (\<lambda>_. start_topics i ts qs) w)"
| "start_topics i (t # ts) [] = panic"
| "start_topics i [] qs = ret ()"

definition svc_start :: "nat \<Rightarrow> verror option act" where
  "svc_start i w =
     (case newBuffer (of_int defaultBufferSize) of
        Inl e \<Rightarrow> (set_svc i (\<lambda>v. v\<lparr>inb := None\<rparr>) w, Return (Some (VBuf e)))
      | Inr b \<Rightarrow>
        (let w = set_svc i (\<lambda>v. v\<lparr>inb := Some b, outb := Some b\<rparr>) w;
             run = modify (set_svc i (\<lambda>v. v\<lparr>wgStopped := 3\<rparr>))
         in if vclient (vheap w i) then chain run (\<lambda>_. ret None) w
            else chain (modify (\<lambda>w. w\<lparr>pubs := (pubs w)(onpub (vheap w i) := Some (PubService i))\<rparr>)) (\<lambda>_.
                 chain (on_session i (\<lambda>s. (s, sess_Topics s))) (\<lambda>(ts, qs, err).
                   case err of
                     Some e \<Rightarrow> ret (Some (VSess e))
                   | None \<Rightarrow> chain (start_topics i ts qs) (\<lambda>_. chain run (\<lambda>_. ret None)))) w))"

section \<open>The server\<close>

record server =
  sKeepAlive :: int
  sConnectTimeout :: int
  sAckTimeout :: int
  sTimeoutRetries :: int
  sAuthenticator :: string
  sSessionsProvider :: string
  sTopicsProvider :: string
  sauthMgr :: "authenticator option"
  ssessMgr :: "nat option"
  stopicsMgr :: "nat option"
  configured :: bool

abbreviation (input) minKeepAlive :: "16 word" where "minKeepAlive \<equiv> 30"

text \<open>
  \<open>checkConfiguration\<close> does its work once; after a first call that failed, the next one reports no
  error, and the managers it did not get to are nil.
\<close>

definition srv_defaults :: "server \<Rightarrow> server" where
  "srv_defaults s =
     s\<lparr>sKeepAlive := (if sKeepAlive s = 0 then 300 else sKeepAlive s),
       sConnectTimeout := (if sConnectTimeout s = 0 then 2 else sConnectTimeout s),
       sAckTimeout := (if sAckTimeout s = 0 then 20 else sAckTimeout s),
       sTimeoutRetries := (if sTimeoutRetries s = 0 then 3 else sTimeoutRetries s),
       sAuthenticator := (if sAuthenticator s = [] then ''mockSuccess'' else sAuthenticator s)\<rparr>"

definition srv_checkConfiguration :: "auth_registry \<Rightarrow> world \<Rightarrow> server \<Rightarrow> server \<times> verror option" where
  "srv_checkConfiguration auths w s =
     (if configured s then (s, None)
      else let s = srv_defaults (s\<lparr>configured := True\<rparr>)
      in case auth_NewManager auths (sAuthenticator s) of
        Inl e \<Rightarrow> (s\<lparr>sauthMgr := None\<rparr>, Some e)
      | Inr a \<Rightarrow>
        (let s = s\<lparr>sauthMgr := Some a, sSessionsProvider := (if sSessionsProvider s = [] then ''mem'' else sSessionsProvider s)\<rparr>
         in case sess_NewManager (sess w) (sSessionsProvider s) of
           Inl e \<Rightarrow> (s\<lparr>ssessMgr := None\<rparr>, Some (VSess e))
         | Inr m \<Rightarrow>
           (let s = s\<lparr>ssessMgr := Some m, sTopicsProvider := (if sTopicsProvider s = [] then ''mem'' else sTopicsProvider s)\<rparr>
            in case topics_NewManager (tops w) (sTopicsProvider s) of
              Inl e \<Rightarrow> (s\<lparr>stopicsMgr := None\<rparr>, Some (VTopics e))
            | Inr t \<Rightarrow> (s\<lparr>stopicsMgr := Some t\<rparr>, None))))"

text \<open>
  \<open>getSession\<close>, with the CONNECT and the CONNACK it changes. \<open>rnd\<close> is what the session manager's random
  reader gives.
\<close>

type_synonym session_ret = "(connect_message \<times> connack_message) \<times> verror option"

definition named_client :: "service \<Rightarrow> connect_message \<Rightarrow> connect_message" where
  "named_client v req =
     (if length (clientId req) = 0
      then SetCleanSession (fst (SetClientId req (bytes_of ''internalclient'' @ decimal (unat (vid v))))) True
      else req)"

definition resume_session :: "nat \<Rightarrow> nat \<Rightarrow> connect_message \<Rightarrow> connack_message \<Rightarrow> session_ret act" where
  "resume_session i a req resp w =
     (case prov_Get (sess w) a (clientId req) of
        Inl e \<Rightarrow> (set_svc i (\<lambda>v. v\<lparr>vsess := None\<rparr>) w, Return ((req, resp), None))
      | Inr p \<Rightarrow>
        (let w = set_svc i (\<lambda>v. v\<lparr>vsess := Some p\<rparr>) w; resp = SetSessionPresent resp True
         in case (if p < length (sheap (sess w)) then sess_Update req (sheap (sess w) ! p) else None) of
           None \<Rightarrow> (w, Panic)
         | Some ((req, s), err) \<Rightarrow> (set_sess p (\<lambda>_. s) w, Return ((req, resp), map_option VSess err))))"

definition new_client_session :: "nat \<Rightarrow> nat \<Rightarrow> bytes option \<Rightarrow> connect_message \<Rightarrow> connack_message \<Rightarrow> session_ret act" where
  "new_client_session i a rnd req resp w =
     (case smgr_New (sess w) a rnd (clientId req) of
        (sw, p) \<Rightarrow>
          (let w = set_svc i (\<lambda>v. v\<lparr>vsess := Some p\<rparr>) (w\<lparr>sess := sw\<rparr>); resp = SetSessionPresent resp False
           in case sess_Init req (sheap sw ! p) of
             None \<Rightarrow> (w, Panic)
           | Some ((req, s), err) \<Rightarrow> (set_sess p (\<lambda>_. s) w, Return ((req, resp), map_option VSess err))))"

definition srv_getSession ::
    "nat \<Rightarrow> nat \<Rightarrow> bytes option \<Rightarrow> connect_message \<Rightarrow> connack_message \<Rightarrow> session_ret act" where
  "srv_getSession i a rnd req resp w =
     (let req = named_client (vheap w i) req
      in chain (if CleanSession req then ret ((req, resp), None) else resume_session i a req resp)
        (\<lambda>((req, resp), err) w.
           if err \<noteq> None then (w, Return ((req, resp), err))
           else if vsess (vheap w i) = None then new_client_session i a rnd req resp w
           else (w, Return ((req, resp), None))) w)"

definition new_service :: "64 word \<Rightarrow> bool \<Rightarrow> nat option \<Rightarrow> int \<Rightarrow> int \<Rightarrow> int \<Rightarrow> int \<Rightarrow> nat option \<Rightarrow> nat option \<Rightarrow> nat \<Rightarrow> service" where
  "new_service vi cl c ka ct ackt tr sm tm cell =
     \<lparr>vid = vi, vclient = cl, vkeepAlive = ka, vconnectTimeout = ct, vackTimeout = ackt, vtimeoutRetries = tr,
      vconn = c, vsessMgr = sm, vtopicsMgr = tm, vsess = None, wmu = False, vclosed = False, wgStopped = 0,
      inb = None, outb = None, onpub = cell, inStat = \<lparr>st_bytes = 0, st_msgs = 0\<rparr>,
      outStat = \<lparr>st_bytes = 0, st_msgs = 0\<rparr>, intmp = [], outtmp = [], vsubs = [], vqoss = [], vrmsgs = []\<rparr>"

text \<open>\<open>atomic.AddUint64(&gsvcid, 1)\<close>; the number is also the address of the service.\<close>

definition alloc_service :: "(64 word \<Rightarrow> nat \<Rightarrow> service) \<Rightarrow> nat act" where
  "alloc_service f =
     chain (new_cell None) (\<lambda>cell w.
       let g = gsvcid w + 1; i = unat g
       in (w\<lparr>gsvcid := g, vheap := (vheap w)(i := f g cell)\<rparr>, Return i))"

text \<open>The deferred \<open>c.Close()\<close> of a handler that returns an error.\<close>

definition refuse :: "nat \<Rightarrow> verror \<Rightarrow> (nat option \<times> verror option) act" where
  "refuse k e = chain (modify (close_conn k)) (\<lambda>_. ret (None, Some e))"

definition refuse_with :: "nat \<Rightarrow> ConnackCode \<Rightarrow> verror \<Rightarrow> (nat option \<times> verror option) act" where
  "refuse_with k code e =
     chain (conn_writeMessage (Some k) (MConnack (SetSessionPresent (SetReturnCode NewConnackMessage code) False)))
       (\<lambda>_. refuse k e)"

text \<open>A CONNECT that was accepted: the session, the CONNACK and the start of the service.\<close>

definition accept_client :: "nat \<Rightarrow> server \<Rightarrow> bytes option \<Rightarrow> connect_message \<Rightarrow> (nat option \<times> verror option) act" where
  "accept_client k s rnd req =
     (let req = (if keepAlive req = 0 then SetKeepAlive req minKeepAlive else req)
      in chain (alloc_service (\<lambda>g. new_service g False (Some k) (uint (keepAlive req)) (sConnectTimeout s) (sAckTimeout s)
             (sTimeoutRetries s) (ssessMgr s) (stopicsMgr s))) (\<lambda>i.
         case ssessMgr s of
           None \<Rightarrow> panic
         | Some a \<Rightarrow>
         chain (srv_getSession i a rnd req NewConnackMessage) (\<lambda>((req, resp), err).
           case err of
             Some e \<Rightarrow> refuse k e
           | None \<Rightarrow>
             chain (conn_writeMessage (Some k) (MConnack (SetReturnCode resp ConnectionAccepted))) (\<lambda>(msg, err).
               case err of
                 Some e \<Rightarrow> refuse k e
               | None \<Rightarrow>
                 chain (opt (msg_Len (MConnect req))) (\<lambda>(_, rl).
                 chain (opt (msg_Len msg)) (\<lambda>(_, al).
                 chain (modify (set_svc i (\<lambda>v. v\<lparr>inStat := stat_increment (inStat v) rl, outStat := stat_increment (outStat v) al\<rparr>))) (\<lambda>_.
                 chain (svc_start i) (\<lambda>err.
                   case err of
                     Some e \<Rightarrow> chain (svc_stop i) (\<lambda>_. refuse k e)
                   | None \<Rightarrow>
                     chain (modify (\<lambda>w. w\<lparr>svcs := AList.update (vid (vheap w i)) i (svcs w)\<rparr>)) (\<lambda>_. ret (Some i, None))))))))))"

text \<open>\<open>auths\<close> is the registry of authenticators and \<open>other\<close> what the ones of other packages answer.\<close>

definition handleConnection ::
    "auth_registry \<Rightarrow> (nat \<Rightarrow> bytes \<Rightarrow> bytes \<Rightarrow> verror option) \<Rightarrow> bytes option \<Rightarrow> nat option \<Rightarrow> server \<Rightarrow>
     (server \<times> nat option \<times> verror option) act" where
  "handleConnection auths other rnd c s w =
     (case c of
        None \<Rightarrow> (w, Return (s, None, Some VConnectionType))
      | Some k \<Rightarrow>
        (case srv_checkConfiguration auths w s of
           (s, Some e) \<Rightarrow> chain (refuse k e) (\<lambda>r. ret (s, r)) w
         | (s, None) \<Rightarrow>
           chain (chain (getConnectMessage (Some k)) (\<lambda>(req, err).
             case (req, err) of
               (_, Some (VMsg (EConnack code))) \<Rightarrow> refuse_with k code (VMsg (EConnack code))
             | (_, Some e) \<Rightarrow> refuse k e
             | (None, None) \<Rightarrow> panic
             | (Some req, None) \<Rightarrow>
               (case sauthMgr s of
                  None \<Rightarrow> panic
                | Some a \<Rightarrow>
                  (case auth_Authenticate other a (username req) (password req) of
                     Some e \<Rightarrow> refuse_with k ErrBadUsernameOrPassword e
                   | None \<Rightarrow> accept_client k s rnd req)))) (\<lambda>r. ret (s, r)) w))"

text \<open>
  \<open>Server.Publish\<close> delivers like \<open>onPublish\<close>, but it passes over subscribers of another type and keeps the
  list of subscribers in the server.
\<close>

fun srv_pub_loop :: "iface list \<Rightarrow> publish_message \<Rightarrow> publish_message act" where
  "srv_pub_loop [] pm = ret pm"
| "srv_pub_loop (IVal t v # ss) pm =
     (if t = onPublishPtr then chain (call_pub v pm) (srv_pub_loop ss) else srv_pub_loop ss pm)"
| "srv_pub_loop (IFunc t v # ss) pm = srv_pub_loop ss pm"

definition srv_deliver :: "nat \<Rightarrow> publish_message \<Rightarrow> (publish_message \<times> verror option) act" where
  "srv_deliver a pm =
     chain (opt (Retain pm)) (\<lambda>r.
     chain (if r
            then (\<lambda>w. case mgr_Retain (gPacketId w) (tops w) a pm of
                     None \<Rightarrow> (w, Panic)
                   | Some ((g, pm), tw, _) \<Rightarrow> (w\<lparr>gPacketId := g, tops := tw\<rparr>, Return pm))
            else ret pm) (\<lambda>pm.
     chain (opt (QoS pm)) (\<lambda>q w.
       case mgr_Subscribers (tops w) a (topic pm) q of
         None \<Rightarrow> (w, Panic)
       | Some (_, Some e) \<Rightarrow> (w, Return (pm, Some (VTopics e)))
       | Some ((subs, _), None) \<Rightarrow>
         chain (opt (SetRetain pm False)) (\<lambda>pm. chain (srv_pub_loop subs pm) (\<lambda>pm. ret (pm, None))) w)))"

definition srv_Publish :: "auth_registry \<Rightarrow> server \<Rightarrow> publish_message \<Rightarrow> (server \<times> publish_message \<times> verror option) act" where
  "srv_Publish auths s pm w =
     (case srv_checkConfiguration auths w s of
        (s, Some e) \<Rightarrow> (w, Return (s, pm, Some e))
      | (s, None) \<Rightarrow>
        (case stopicsMgr s of
           None \<Rightarrow> (w, Panic)
         | Some a \<Rightarrow> chain (srv_deliver a pm) (\<lambda>(pm, e). ret (s, pm, e)) w))"

text \<open>\<open>Close\<close>, after the quit channel and the listener are closed: every service is stopped, then the stores.\<close>

fun stop_all :: "nat list \<Rightarrow> unit act" where
  "stop_all [] = ret ()"
| "stop_all (i # is) = chain (svc_stop i) (\<lambda>_. stop_all is)"

definition srv_Close :: "server \<Rightarrow> unit act" where
  "srv_Close s w =
     chain (stop_all (map snd (svcs w))) (\<lambda>_.
     chain (modify (\<lambda>w. case ssessMgr s of None \<Rightarrow> w | Some a \<Rightarrow> w\<lparr>sess := prov_Close (sess w) a\<rparr>)) (\<lambda>_.
     modify (\<lambda>w. case stopicsMgr s of None \<Rightarrow> w | Some a \<Rightarrow> w\<lparr>tops := mgr_Close (tops w) a\<rparr>))) w"

section \<open>The client\<close>

record client =
  cKeepAlive :: int
  cConnectTimeout :: int
  cAckTimeout :: int
  cTimeoutRetries :: int
  csvc :: "nat option"

definition cl_checkConfiguration :: "client \<Rightarrow> client" where
  "cl_checkConfiguration c =
     c\<lparr>cKeepAlive := (if cKeepAlive c = 0 then 300 else cKeepAlive c),
       cConnectTimeout := (if cConnectTimeout c = 0 then 2 else cConnectTimeout c),
       cAckTimeout := (if cAckTimeout c = 0 then 20 else cAckTimeout c),
       cTimeoutRetries := (if cTimeoutRetries c = 0 then 3 else cTimeoutRetries c)\<rparr>"

text \<open>A session of the client is in no provider.\<close>

definition cl_getSession :: "nat \<Rightarrow> connect_message \<Rightarrow> (connect_message \<times> verror option) act" where
  "cl_getSession i req w =
     (let p = length (sheap (sess w));
          w = set_svc i (\<lambda>v. v\<lparr>vsess := Some p\<rparr>) (w\<lparr>sess := (sess w)\<lparr>sheap := sheap (sess w) @ [new_session []]\<rparr>\<rparr>)
      in case sess_Init req (new_session []) of
        None \<Rightarrow> (w, Panic)
      | Some ((req, s), err) \<Rightarrow> (set_sess p (\<lambda>_. s) w, Return (req, map_option VSess err)))"

text \<open>
  Every client has a topic store of its own, registered under its session's identifier; the name must not
  be taken. The number of the service, moved by one, is its address: 0 is that of the provider \<open>mem\<close>.
\<close>

definition cl_topics :: "nat \<Rightarrow> verror option act" where
  "cl_topics i =
     chain (cmsg_of i) (\<lambda>c w.
       let a = Suc i; name = string_of (clientId c);
           w = w\<lparr>tops := (tops w)\<lparr>theap := (theap (tops w))(a := NewMemProvider)\<rparr>\<rparr>
       in case topics_Register (tops w) name (Some a) of
         None \<Rightarrow> (w, Panic)
       | Some tw \<Rightarrow>
         (let w = w\<lparr>tops := tw\<rparr>
          in case topics_NewManager tw name of
            Inl e \<Rightarrow> (set_svc i (\<lambda>v. v\<lparr>vtopicsMgr := None\<rparr>) w, Return (Some (VTopics e)))
          | Inr a \<Rightarrow> (set_svc i (\<lambda>v. v\<lparr>vtopicsMgr := Some a\<rparr>) w, Return None)))"

text \<open>The part of \<open>Connect\<close> after the server has accepted; the service is kept even when it fails.\<close>

definition cl_establish :: "nat \<Rightarrow> connect_message \<Rightarrow> connack_message \<Rightarrow> nat \<Rightarrow> verror option act" where
  "cl_establish k msg resp i =
     (let fail = (\<lambda>e. chain (modify (close_conn k)) (\<lambda>_. ret (Some e))) in
     chain (cl_getSession i msg) (\<lambda>(msg, err).
       case err of
         Some e \<Rightarrow> fail e
       | None \<Rightarrow>
         chain (cl_topics i) (\<lambda>err.
           case err of
             Some e \<Rightarrow> fail e
           | None \<Rightarrow>
             chain (svc_start i) (\<lambda>err.
               case err of
                 Some e \<Rightarrow> chain (svc_stop i) (\<lambda>_. fail e)
               | None \<Rightarrow>
                 chain (opt (msg_Len (MConnect msg))) (\<lambda>(_, ml).
                 chain (opt (msg_Len (MConnack resp))) (\<lambda>(_, al).
                 chain (modify (set_svc i (\<lambda>v. v\<lparr>inStat := stat_increment (inStat v) ml, outStat := stat_increment (outStat v) al\<rparr>))) (\<lambda>_.
                   ret None)))))))"

text \<open>\<open>dialled\<close> is what the parsing of the URI and the call to the network gave.\<close>

definition cl_Connect :: "verror + nat \<Rightarrow> connect_message option \<Rightarrow> client \<Rightarrow> (client \<times> verror option) act" where
  "cl_Connect dialled msg c =
     (let c = cl_checkConfiguration c in
      case msg of
        None \<Rightarrow> ret (c, Some VNilMessage)
      | Some msg \<Rightarrow>
        (case dialled of
           Inl e \<Rightarrow> ret (c, Some e)
         | Inr k \<Rightarrow>
           (let fail = (\<lambda>e. chain (modify (close_conn k)) (\<lambda>_. ret (c, Some e)));
                msg = (if keepAlive msg < minKeepAlive then SetKeepAlive msg minKeepAlive else msg)
            in chain (conn_writeMessage (Some k) (MConnect msg)) (\<lambda>(m, err).
              case (m, err) of
                (_, Some e) \<Rightarrow> fail e
              | (MConnect msg, None) \<Rightarrow>
                chain (getConnackMessage (Some k)) (\<lambda>(resp, err).
                  case (resp, err) of
                    (_, Some e) \<Rightarrow> fail e
                  | (None, None) \<Rightarrow> panic
                  | (Some resp, None) \<Rightarrow>
                    if returnCode resp \<noteq> ConnectionAccepted then fail (VReturned (returnCode resp))
                    else chain (alloc_service (\<lambda>g. new_service g True (Some k) (uint (keepAlive msg)) (cConnectTimeout c)
                             (cAckTimeout c) (cTimeoutRetries c) None None)) (\<lambda>i.
                           chain (cl_establish k msg resp i) (\<lambda>err. ret (c\<lparr>csvc := Some i\<rparr>, err))))
              | _ \<Rightarrow> panic))))"

text \<open>The other operations are those of the service; without one they panic.\<close>

definition on_csvc :: "client \<Rightarrow> (nat \<Rightarrow> 'a act) \<Rightarrow> 'a act" where
  "on_csvc c f = (case csvc c of None \<Rightarrow> panic | Some i \<Rightarrow> f i)"

definition cl_Publish :: "client \<Rightarrow> publish_message \<Rightarrow> done_fn \<Rightarrow> (publish_message \<times> verror option) act" where
  "cl_Publish c m onc = on_csvc c (\<lambda>i. svc_publish i m onc)"

definition cl_Subscribe :: "client \<Rightarrow> subscribe_message \<Rightarrow> done_fn \<Rightarrow> nat option \<Rightarrow> verror option act" where
  "cl_Subscribe c m onc onp = on_csvc c (\<lambda>i. svc_subscribe i m onc onp)"

definition cl_Unsubscribe :: "client \<Rightarrow> unsubscribe_message \<Rightarrow> done_fn \<Rightarrow> verror option act" where
  "cl_Unsubscribe c m onc = on_csvc c (\<lambda>i. svc_unsubscribe i m onc)"

definition cl_Ping :: "client \<Rightarrow> done_fn \<Rightarrow> verror option act" where
  "cl_Ping c onc = on_csvc c (\<lambda>i. svc_ping i onc)"

definition cl_Disconnect :: "client \<Rightarrow> unit act" where
  "cl_Disconnect c = on_csvc c svc_stop"

end
