(* ===== verification/Svc_Frames.thy ===== *)
theory Svc_Frames imports Svc_Fifo Svc_Process begin

text \<open>
  Packets through the ring buffers: a packet that is ready to be sent is a frame, a type byte with the
  length of the rest; \<open>writeMessage\<close> appends it to the outgoing buffer, and \<open>peekMessageSize\<close> and
  \<open>peekMessage\<close> find it at the front of the incoming one, whatever follows.
\<close>

section \<open>Frames\<close>

definition is_frame :: "MessageType \<Rightarrow> bytes \<Rightarrow> bool" where
  "is_frame t w \<longleftrightarrow>
     (\<exists>b body. w = hdr_wire b (length body) @ body \<and> drop_bit 4 b = t \<and> length body \<le> 268435455)"

lemma is_frameI:
  "w = hdr_wire b n @ body \<Longrightarrow> n = length body \<Longrightarrow> drop_bit 4 b = t \<Longrightarrow> n \<le> 268435455 \<Longrightarrow> is_frame t w"
  by (auto simp: is_frame_def)

lemma publish_frame: "publish_ready m \<Longrightarrow> is_frame PUBLISH (publish_wire m)"
  using PacketId_nonzero_length [of m]
  by (intro is_frameI [where b = "type_byte m" and n = "publish_size m"])
    (auto simp: publish_wire_def publish_ready_def publish_body_ok_def pub_typed_def publish_size_def pub_id_def)

lemma connect_frame:
  assumes "connect_ready m"
  shows "is_frame CONNECT (connect_wire m)"
proof -
  have "connect_lengths m" "SupportedVersions (version m) \<noteq> None" "drop_bit 4 (type_byte m) = CONNECT"
    using assms by (simp_all add: connect_ready_def typed_def)
  then show ?thesis using connect_body_max [of m] by (intro is_frameI) (auto simp: connect_wire_def)
qed

lemma ack_frame: "ack_ready t m \<Longrightarrow> is_frame t (ack_wire m)"
  by (rule is_frameI [where b = "type_byte m" and n = 2]) (auto simp: ack_wire_def ack_ready_def typed_def)

lemma bare_frame: "bare_ready t m \<Longrightarrow> is_frame t (bare_wire m)"
  by (rule is_frameI [where b = "type_byte m" and n = 0]) (auto simp: bare_wire_def bare_ready_def typed_def)

lemma connack_frame: "connack_ready m \<Longrightarrow> is_frame CONNACK (connack_wire m)"
  by (rule is_frameI [where b = "type_byte m" and n = 2]) (auto simp: connack_wire_def connack_ready_def typed_def)

lemma suback_frame: "suback_ready m \<Longrightarrow> is_frame SUBACK (suback_wire m)"
  by (rule is_frameI [where b = "type_byte m" and n = "2 + length (returnCodes m)"])
    (auto simp: suback_wire_def suback_ready_def typed_def nat_add_distrib suback_msglen_def)

lemma subscribe_frame: "subscribe_ready m \<Longrightarrow> is_frame SUBSCRIBE (subscribe_wire m)"
  using length_sub_pack [of "sub_qos m" "sub_topics m"]
  by (intro is_frameI [where b = "type_byte m" and n = "nat (subscribe_msglen m)"])
    (auto simp: subscribe_wire_def subscribe_ready_def typed_def subscribe_msglen_def)

lemma unsubscribe_frame: "unsubscribe_ready m \<Longrightarrow> is_frame UNSUBSCRIBE (unsubscribe_wire m)"
  using length_unsub_pack [of "unsub_topics m"]
  by (intro is_frameI [where b = "type_byte m" and n = "nat (unsubscribe_msglen m)"])
    (auto simp: unsubscribe_wire_def unsubscribe_ready_def unsub_sendable_def typed_def unsubscribe_msglen_def)

lemmas frames = publish_frame connect_frame ack_frame bare_frame connack_frame suback_frame subscribe_frame unsubscribe_frame

lemma msg_frame: "msg_ready m \<Longrightarrow> is_frame (msg_kind m) (msg_wire m)"
  by (cases m) (auto intro: frames)

text \<open>Every byte of the length but the last has its continuation bit, and there are four at most.\<close>

lemma uvarint_cont:
  "i < length (uvarint_bytes n) \<Longrightarrow> uvarint_bytes n ! i \<ge> 0x80 \<longleftrightarrow> Suc i < length (uvarint_bytes n)"
proof (induction n arbitrary: i rule: uvarint_bytes.induct)
  case (1 n)
  show ?case
  proof (cases "n < 128")
    case True
    then have "\<not> (of_nat n :: byte) \<ge> 0x80" by (simp add: word_le_nat_alt unat_of_nat take_bit_nat_eq_self)
    then show ?thesis using True 1(2) by (simp add: uvarint_bytes.simps [of n])
  next
    case False
    have "(of_nat n OR 0x80 :: byte) \<ge> 0x80" by (rule le_word_or1)
    then show ?thesis
      using False 1 uvarint_bytes_pos [of "n div 128"] by (cases i) (auto simp: uvarint_bytes.simps [of n])
  qed
qed

section \<open>Looking at the front of the buffer\<close>

lemma look_bytes:
  assumes "ring_idle b" and "n \<le> length (unread b)"
  obtains b' v where "buf_ReadWait b (int n) = (b', Return (v, None))" "ring_idle b'" "unread b' = unread b"
    "free_room b' = free_room b" "view_bytes b' v = take n (unread b)"
  using ring.look [OF assms] by blast

lemma peek_size_step:
  assumes "buf_ReadWait b (int cnt) = (b', Return (v, None))" and "view_bytes b' v = p" and "length p = cnt"
    and "1 \<le> cnt" and "cnt \<le> 5"
  shows "peek_size_loop b (int cnt) =
    (if p ! (cnt - 1) \<ge> 0x80 then peek_size_loop b' (int (Suc cnt)) else (b', Return (p, None)))"
proof -
  have "get_at p (int cnt - 1) = Some (p ! (cnt - 1))"
    using assms(3,4) by (simp add: get_at_def nat_diff_distrib')
  then show ?thesis
    using assms by (subst peek_size_loop.simps) (simp add: Let_def add.commute)
qed

lemma peek_size_frame:
  assumes "ring_idle b" and u: "unread b = w @ rest" and w: "w = h # uvarint_bytes n @ body"
    and c: "2 \<le> cnt" "cnt \<le> Suc (length (uvarint_bytes n))" and four: "length (uvarint_bytes n) \<le> 4"
  shows "\<exists>b'. peek_size_loop b (int cnt) = (b', Return (h # uvarint_bytes n, None)) \<and> ring_idle b' \<and>
    unread b' = unread b \<and> free_room b' = free_room b"
  using assms(1,2) c
proof (induction "Suc (length (uvarint_bytes n)) - cnt" arbitrary: b cnt)
  case 0
  let ?k = "length (uvarint_bytes n)"
  have k: "cnt = Suc ?k" using 0 by simp
  then have "cnt \<le> length (unread b)" using "0.prems"(2) w by simp
  then obtain b' v where b': "buf_ReadWait b (int cnt) = (b', Return (v, None))" "ring_idle b'" "unread b' = unread b"
      "free_room b' = free_room b" "view_bytes b' v = take cnt (unread b)"
    using look_bytes [OF "0.prems"(1)] by metis
  have p: "view_bytes b' v = h # uvarint_bytes n" using b'(5) "0.prems"(2) w k by simp
  have "\<not> (h # uvarint_bytes n) ! (cnt - 1) \<ge> 0x80"
    using uvarint_cont [of "?k - 1" n] uvarint_bytes_pos [of n] k by (simp add: nth_Cons')
  then show ?case using peek_size_step [OF b'(1) p] b' k four by simp
next
  case (Suc d)
  let ?k = "length (uvarint_bytes n)"
  have k: "cnt - 1 < ?k" "cnt \<le> ?k" using Suc.hyps(2) Suc.prems by simp_all
  have l: "cnt \<le> length (unread b)" using Suc.prems w k by simp
  then obtain b' v where b': "buf_ReadWait b (int cnt) = (b', Return (v, None))" "ring_idle b'" "unread b' = unread b"
      "free_room b' = free_room b" "view_bytes b' v = take cnt (unread b)"
    using look_bytes [OF Suc.prems(1)] by metis
  obtain j where j: "cnt = Suc (Suc j)" using Suc.prems(3) by (metis add_2_eq_Suc le_Suc_ex)
  have "take cnt (unread b) ! (cnt - 1) = uvarint_bytes n ! (cnt - 2)"
    using k Suc.prems(2) w by (simp add: nth_append j)
  moreover have "uvarint_bytes n ! (cnt - 2) \<ge> 0x80"
    using uvarint_cont [of "cnt - 2" n] k Suc.prems(3) by simp
  ultimately have "peek_size_loop b (int cnt) = peek_size_loop b' (int (Suc cnt))"
    using peek_size_step [OF b'(1,5)] l four k Suc.prems(3) by simp
  moreover have "d = Suc ?k - Suc cnt" using Suc.hyps(2) by simp
  ultimately show ?case
    using Suc.hyps(1) [of "Suc cnt" b'] b' Suc.prems k by simp
qed

lemma packet_size_frame:
  assumes "n \<le> 268435455"
  shows "packet_size (h # uvarint_bytes n) = Some (drop_bit 4 h, int (Suc (length (uvarint_bytes n)) + n))"
proof -
  have u: "Uvarint (uvarint_bytes n) = (of_nat n, int (length (uvarint_bytes n)))"
    using Uvarint_bytes [of n "[]"] assms by simp
  have "sint (of_nat n :: 64 word) = int n"
    using assms sint_small [of "of_nat n"] by (simp add: unat_of_nat_64)
  then show ?thesis using u by (simp add: packet_size_def sub_list_def get_at_def)
qed

text \<open>The type and the size of the frame at the front, without taking it off.\<close>

lemma peekMessageSize_frame:
  assumes "ring_idle b" and "unread b = w @ rest" and "is_frame t w"
  shows "\<exists>b'. buf_peekMessageSize b = (b', Return ((t, int (length w)), None)) \<and> ring_idle b' \<and>
    unread b' = unread b \<and> free_room b' = free_room b"
proof -
  obtain h body where w: "w = h # uvarint_bytes (length body) @ body" "drop_bit 4 h = t" "length body \<le> 268435455"
    using assms(3) by (auto simp: is_frame_def hdr_wire_def)
  have l: "length (uvarint_bytes (length body)) \<le> 4" "0 < length (uvarint_bytes (length body))"
    using length_uvarint_bytes_cases [OF w(3)] uvarint_bytes_pos by simp_all
  obtain b' where "peek_size_loop b 2 = (b', Return (h # uvarint_bytes (length body), None))" "ring_idle b'"
      "unread b' = unread b" "free_room b' = free_room b"
    using peek_size_frame [OF assms(1,2) w(1), of 2] l by auto
  then show ?thesis
    using packet_size_frame [OF w(3), of h] w by (auto simp: buf_peekMessageSize_def after_def)
qed

lemma peekMessage_frame:
  assumes "ring_idle b" and "unread b = msg_wire m @ rest" and "msg_ready m"
  shows "\<exists>b' m'. buf_peekMessage b sp (msg_kind m) (int (length (msg_wire m))) =
      (b', Return (Some m', int (length (msg_wire m)), None)) \<and> msg_same m m' \<and> ring_idle b' \<and>
    unread b' = unread b \<and> free_room b' = free_room b"
proof -
  obtain b' v where b': "buf_ReadWait b (int (length (msg_wire m))) = (b', Return (v, None))" "ring_idle b'"
      "unread b' = unread b" "free_room b' = free_room b" "view_bytes b' v = msg_wire m"
    using look_bytes [OF assms(1), of "length (msg_wire m)"] assms(2) by auto
  obtain sp' where s: "view_slice b' sp v = Slice (msg_wire m) sp'" using b'(5) by (cases v) auto
  obtain fresh m' where "type_New (msg_kind m) = Inr fresh"
      "msg_Decode fresh (Slice (msg_wire m) sp') = Some (m', int (length (msg_wire m)), None)" "msg_same m m'"
    using msg_decode_wire [OF assms(3)] by blast
  then show ?thesis using b' s by (auto simp: buf_peekMessage_def after_def decode_new_def)
qed

section \<open>Writing behind the end of the buffer\<close>

text \<open>A message that \<open>Len\<close> has settled, and the bytes that \<open>Encode\<close> writes for it into any buffer.\<close>

definition encodes :: "message \<Rightarrow> bytes \<Rightarrow> bool" where
  "encodes x w \<longleftrightarrow>
     (\<forall>g dst. length w \<le> length dst \<longrightarrow>
        (\<exists>g' x'. msg_Encode g x dst = Some (((g', x'), wr w dst), int (length w), None)))"

lemma ready_encodes:
  assumes "msg_ready m" and "msg_kind m \<noteq> CONNACK"
  obtains x where "msg_Len m = Some (x, int (length (msg_wire m)))" and "encodes x (msg_wire m)"
proof -
  obtain x l where l: "msg_Len m = Some (x, l)" "0 \<le> l"
    using msg_marshal [OF assms(1), of 0] by (auto simp: marshal_def bind_eq_Some_conv make_bytes_def split: if_splits)
  have enc: "\<exists>m'' out. drop_counter (msg_Encode g x dst) = Some ((m'', out), l, None) \<and> fills (msg_wire m) (nat l) dst out"
    if "l \<le> int (length dst)" for g dst
    by (rule msg_encode_any [OF assms l(1) that])
  have w: "length (msg_wire m) = nat l"
    using enc [of "replicate (nat l) 0" 0] l(2) by (auto simp: fills_def)
  have "encodes x (msg_wire m)"
    unfolding encodes_def
  proof (intro allI impI)
    fix g and dst :: bytes
    assume "length (msg_wire m) \<le> length dst"
    then have "l \<le> int (length dst)" using w l(2) by linarith
    then obtain m'' out where o: "drop_counter (msg_Encode g x dst) = Some ((m'', out), l, None)"
        "take (nat l) out = msg_wire m" "drop (nat l) out = drop (nat l) dst"
      using enc [of dst g] by (auto simp: fills_def)
    have "out = wr (msg_wire m) dst" using append_take_drop_id [of "nat l" out] o(2,3) w by (simp add: wr_def)
    then show "\<exists>g' x'. msg_Encode g x dst = Some (((g', x'), wr (msg_wire m) dst), int (length (msg_wire m)), None)"
      using o(1) w l(2) by (auto simp: drop_counter_def)
  qed
  then show ?thesis using that [of x] l w by simp
qed

lemma write_frame:
  assumes b: "ring_idle b" and e: "encodes (w_msg s) w" and room: "int (length w) \<le> free_room b"
  obtains b' s' dst where "buf_writeMessage s (int (length w)) b = (b', Return (s', int (length w), None))"
    "ring_idle b'" "unread b' = unread b @ w" "free_room b' = free_room b - int (length w)"
    "msg_Encode (w_gid s) (w_msg s) dst = Some (((w_gid s', w_msg s'), wr w dst), int (length w), None)"
proof -
  obtain b1 r wrap where b1: "buf_WriteWait b (int (length w)) = (b1, Return (r, wrap, None))" "ring_idle b1"
      "unread b1 = unread b" "free_room b1 = free_room b" "\<not> wrap \<longrightarrow> length (ring_region b1 r) = length w"
    using ring.reserve_n [OF b room] by blast
  show ?thesis
  proof (cases wrap)
    case False
    obtain g' x' where x': "msg_Encode (w_gid s) (w_msg s) (ring_region b1 r) =
        Some (((g', x'), wr w (ring_region b1 r)), int (length w), None)"
      using e b1(5) False unfolding encodes_def by fastforce
    have wr: "wr w (ring_region b1 r) = w" using b1(5) False by (simp add: wr_exact)
    obtain b2 where b2: "buf_WriteCommit (fill_ring b1 r w) (int (length w)) = (b2, Return (int (length w), None))"
        "ring_idle b2" "unread b2 = unread b @ w" "free_room b2 = free_room b - int (length w)"
      using ring.publish_n [OF b room, of b1 r w] b1(1) False by auto
    show ?thesis
      by (rule that [OF _ b2(2-4), of "s\<lparr>w_gid := g', w_msg := x'\<rparr>" "ring_region b1 r"])
        (use b1(1) False x' b2(1) in \<open>simp_all add: buf_writeMessage_def after_def write_ring_def Let_def wr\<close>)
  next
    case True
    define tmp where "tmp = (if length (w_tmp s) < length w then replicate (length w) 0 else w_tmp s)"
    have tl: "length w \<le> length tmp" by (simp add: tmp_def)
    obtain g' x' where x': "msg_Encode (w_gid s) (w_msg s) tmp = Some (((g', x'), wr w tmp), int (length w), None)"
      using e tl unfolding encodes_def by blast
    have p: "sub_list (wr w tmp) 0 (int (length w)) = Some w" using tl by (simp add: sub_list_def)
    have "int (length w) \<le> free_room b1" using room b1(4) by simp
    then obtain b2 where b2: "buf_Write b1 w = (b2, Return (int (length w), None))" "ring_idle b2"
        "unread b2 = unread b @ w" "free_room b2 = free_room b - int (length w)"
      using ring.put [OF b1(2), of w] b1(3,4) by auto
    have mk: "(if length (w_tmp s) < length w then make_bytes (int (length w)) else Some (w_tmp s)) = Some tmp"
      by (simp add: tmp_def)
    show ?thesis
      by (rule that [OF _ b2(2-4), of "\<lparr>w_gid = g', w_msg = x', w_tmp = wr w tmp\<rparr>" tmp])
        (use b1(1) True x' b2(1) p in \<open>simp_all add: buf_writeMessage_def after_def write_wrapped_def Let_def mk del: make_bytes_int\<close>)
  qed
qed

section \<open>On a service\<close>

text \<open>A service whose outgoing buffer has room, and what is in it.\<close>

definition writable :: "world \<Rightarrow> nat \<Rightarrow> int \<Rightarrow> bool" where
  "writable w i n \<longleftrightarrow>
     (\<exists>b. outb (vheap w i) = Some b \<and> ring_idle b \<and> n \<le> free_room b) \<and> \<not> wmu (vheap w i)"

definition outq :: "world \<Rightarrow> nat \<Rightarrow> bytes" where
  "outq w i = (case outb (vheap w i) of None \<Rightarrow> [] | Some b \<Rightarrow> unread b)"

definition out_room :: "world \<Rightarrow> nat \<Rightarrow> int" where
  "out_room w i = (case outb (vheap w i) of None \<Rightarrow> 0 | Some b \<Rightarrow> free_room b)"

text \<open>
  \<open>writeMessage\<close> on a service touches its outgoing buffer, its scratch buffer and statistics, and the
  counter of packet identifiers, and nothing else.
\<close>

definition only_out :: "nat \<Rightarrow> world \<Rightarrow> world \<Rightarrow> bool" where
  "only_out i w w' \<longleftrightarrow>
     (\<exists>b tmp st g. w' = (set_svc i (\<lambda>v. v\<lparr>outb := b, outtmp := tmp, outStat := st\<rparr>) w)\<lparr>gPacketId := g\<rparr>)"

lemma set_svc_twice: "set_svc i f (set_svc i h w) = set_svc i (\<lambda>v. f (h v)) w"
  by (simp add: set_svc_def)

lemma set_svc_gid: "set_svc i f (w\<lparr>gPacketId := g\<rparr>) = (set_svc i f w)\<lparr>gPacketId := g\<rparr>"
  by (simp add: set_svc_def)

lemma writeMessage_frame:
  assumes "msg_Len m = Some (x, int (length p))" and "encodes x p" and "writable w i (int (length p))"
  obtains w' x' g' dst where "svc_writeMessage i m w = (w', Return (x', int (length p), None))"
    "only_out i w w'" "writable w' i (out_room w i - int (length p))" "outq w' i = outq w i @ p"
    "out_room w' i = out_room w i - int (length p)" "gPacketId w' = g'"
    "msg_Encode (gPacketId w) x dst = Some (((g', x'), wr p dst), int (length p), None)"
proof -
  obtain b where b: "outb (vheap w i) = Some b" "ring_idle b" "int (length p) \<le> free_room b" "\<not> wmu (vheap w i)"
    using assms(3) by (auto simp: writable_def)
  define s where "s = \<lparr>w_gid = gPacketId w, w_msg = x, w_tmp = outtmp (vheap w i)\<rparr>"
  have "encodes (w_msg s) p" using assms(2) by (simp add: s_def)
  then obtain b' s' dst where b': "buf_writeMessage s (int (length p)) b = (b', Return (s', int (length p), None))"
      "ring_idle b'" "unread b' = unread b @ p" "free_room b' = free_room b - int (length p)"
      "msg_Encode (w_gid s) (w_msg s) dst = Some (((w_gid s', w_msg s'), wr p dst), int (length p), None)"
    using write_frame [OF b(2) _ b(3)] by blast
  define w' where "w' = (set_svc i (\<lambda>v. v\<lparr>outb := Some b', outtmp := w_tmp s',
      outStat := stat_increment (outStat v) (int (length p))\<rparr>) w)\<lparr>gPacketId := w_gid s'\<rparr>"
  have f: "(vheap w i)\<lparr>outb := o1, outtmp := o2, outStat := o3, wmu := False\<rparr> = (vheap w i)\<lparr>outb := o1, outtmp := o2, outStat := o3\<rparr>"
    for o1 o2 o3
    using b(4) by (cases "vheap w i") simp
  have inner: "chain (on_out i panic (buf_writeMessage s (int (length p)))) k (set_svc i (\<lambda>v. v\<lparr>wmu := True\<rparr>) w) =
      k (s', int (length p), None) (set_svc i (\<lambda>v. v\<lparr>wmu := True, outb := Some b'\<rparr>) w)" for k :: "write_ret \<Rightarrow> 'z act"
    using b(1) b'(1) by (simp add: chain_def on_buf_def set_svc_twice)
  have "svc_writeMessage i m w = (w', Return (w_msg s', int (length p), None))"
    using assms(1) b unfolding svc_writeMessage_def
    by (simp add: unlock_wmu_def inner s_def [symmetric] Let_def w'_def)
      (simp add: set_svc_def f)
  moreover have "only_out i w w'"
    unfolding only_out_def w'_def
    by (intro exI [of _ "Some b'"] exI [of _ "w_tmp s'"] exI [of _ "stat_increment (outStat (vheap w i)) (int (length p))"]
        exI [of _ "w_gid s'"]) (simp add: set_svc_def)
  moreover have "vheap w' i = (vheap w i)\<lparr>outb := Some b', outtmp := w_tmp s',
      outStat := stat_increment (outStat (vheap w i)) (int (length p))\<rparr>"
    by (simp add: w'_def set_svc_def)
  ultimately show ?thesis
    using that [of w' "w_msg s'" "w_gid s'" dst] b b' by (simp add: writable_def outq_def out_room_def s_def w'_def)
qed

end
