(* ===== verification/Svc_Deliver.thy ===== *)
theory Svc_Deliver imports Svc_Frames begin

text \<open>
  Delivery: a PUBLISH the broker has received, with the retain flag cleared, ends up in the outgoing
  buffer of every service with a matching subscription, once for each subscription, and nowhere else.
\<close>

section \<open>A received PUBLISH\<close>

text \<open>As the processor decodes it: it points into the bytes it came in.\<close>

definition received :: "publish_message \<Rightarrow> bytes \<Rightarrow> bool" where
  "received m p \<longleftrightarrow> \<not> dirty m \<and> mtypeflags m = Sub 0 1 \<and> sdata (dbuf m) = p \<and> p \<noteq> []"

definition unretained :: "bytes \<Rightarrow> bytes" where
  "unretained p = (hd p AND 254) # tl p"

lemma received_flags: "received m p \<Longrightarrow> deref m (mtypeflags m) = [hd p]"
  by (cases "dbuf m") (auto simp: received_def sfull_def neq_Nil_conv)

lemma received_SetRetain:
  assumes "received m p"
  shows "\<exists>m'. SetRetain m False = Some m' \<and> received m' (unretained p) \<and> QoS m' = QoS m \<and> topic m' = topic m"
proof -
  obtain sp where d: "dbuf m = Slice p sp" using assms by (cases "dbuf m") (auto simp: received_def)
  obtain b r where p: "p = b # r" using assms by (auto simp: received_def neq_Nil_conv)
  let ?m = "m\<lparr>dbuf := Slice ((b AND 254) # r) sp\<rparr>"
  have f: "deref m (mtypeflags m) = [b]" using received_flags [OF assms] p by simp
  have s: "SetRetain m False = Some ?m"
    using assms f d p
    by (simp add: SetRetain_def update_flags_def put_mtypeflags_def received_def splice_def sfull_def)
  have r: "received ?m (unretained p)" using assms p by (simp add: received_def unretained_def)
  moreover have "QoS ?m = QoS m"
    using QoS_single [OF f] QoS_single [OF received_flags [OF r]] flag_bits(8) [of b] by (simp add: unretained_def p)
  ultimately show ?thesis using s by simp
qed

lemma received_encodes:
  assumes "received m p"
  shows "msg_Len (MPublish m) = Some (MPublish m, int (length p))" "encodes (MPublish m) p"
    "length p \<le> length dst \<Longrightarrow> msg_Encode g (MPublish m) dst = Some (((g, MPublish m), wr p dst), int (length p), None)"
proof -
  have d: "\<not> dirty m" "sdata (dbuf m) = p" using assms by (simp_all add: received_def)
  show "msg_Len (MPublish m) = Some (MPublish m, int (length p))"
    using d by (simp add: publish_Len_def on_len_def slen_def)
  have e: "msg_Encode g (MPublish m) dst = Some (((g, MPublish m), wr p dst), int (length p), None)"
    if "length p \<le> length dst" for g dst
    using d that encode_clean_copy [of m dst] by (simp add: publish_Encode_def with_counter_def on_enc_def)
  then show "encodes (MPublish m) p" by (auto simp: encodes_def)
  show "length p \<le> length dst \<Longrightarrow> msg_Encode g (MPublish m) dst = Some (((g, MPublish m), wr p dst), int (length p), None)"
    by (rule e)
qed

section \<open>What a delivery touches\<close>

lemma only_out_frame:
  assumes "only_out i w w'"
  shows "k \<noteq> i \<Longrightarrow> vheap w' k = vheap w k" "tops w' = tops w" "sess w' = sess w" "pubs w' = pubs w"
    "vsubs (vheap w' k) = vsubs (vheap w k)" "vtopicsMgr (vheap w' k) = vtopicsMgr (vheap w k)"
    "vsess (vheap w' k) = vsess (vheap w k)" "calls w' = calls w" "dones w' = dones w" "wmu (vheap w' k) = wmu (vheap w k)"
  using assms by (auto simp: only_out_def set_svc_def split: if_splits)

text \<open>A service that can be written to, apart from the room.\<close>

definition open_out :: "world \<Rightarrow> nat \<Rightarrow> bool" where
  "open_out w j \<longleftrightarrow> writable w j (out_room w j)"

lemma writable_iff: "writable w j n \<longleftrightarrow> open_out w j \<and> n \<le> out_room w j"
  by (auto simp: open_out_def writable_def out_room_def)

lemma publish_qos0:
  assumes "received m p" and "QoS m = Some QosAtMostOnce" and "writable w j (int (length p))"
  obtains w' where "svc_publish j m DoneNil w = (w', Return (m, None))" "only_out j w w'"
    "open_out w' j" "outq w' j = outq w j @ p" "out_room w' j = out_room w j - int (length p)"
proof -
  obtain w' x' g' dst where w': "svc_writeMessage j (MPublish m) w = (w', Return (x', int (length p), None))"
      "only_out j w w'" "writable w' j (out_room w j - int (length p))" "outq w' j = outq w j @ p"
      "out_room w' j = out_room w j - int (length p)"
      "msg_Encode (gPacketId w) (MPublish m) dst = Some (((g', x'), wr p dst), int (length p), None)"
    using writeMessage_frame [OF received_encodes(1,2) [OF assms(1)] assms(3)] by metis
  have "x' = MPublish m"
    using w'(6) assms(1) by (auto simp: publish_Encode_def with_counter_def on_enc_def received_def encode_clean_def
        bind_eq_Some_conv split: if_splits)
  then have "svc_publish j m DoneNil w = (w', Return (m, None))"
    using w'(1) assms(2) by (simp add: svc_publish_def chain_def ret_def)
  then show ?thesis using that w' by (simp add: writable_iff)
qed

section \<open>The loop over the subscribers\<close>

text \<open>The service behind a subscriber.\<close>

definition sub_target :: "world \<Rightarrow> iface \<Rightarrow> nat option" where
  "sub_target w x =
     (case x of
        IVal t c \<Rightarrow> if t = onPublishPtr then (case pubs w c of Some (PubService j) \<Rightarrow> Some j | _ \<Rightarrow> None) else None
      | IFunc _ _ \<Rightarrow> None)"

definition copies :: "world \<Rightarrow> iface list \<Rightarrow> nat \<Rightarrow> nat" where
  "copies w ss j = count_list (map (sub_target w) ss) (Some j)"

lemma sub_target_pubs: "pubs w' = pubs w \<Longrightarrow> sub_target w' = sub_target w"
  by (auto simp: fun_eq_iff sub_target_def split: iface.split)

lemma pub_loop_copies:
  assumes "received m p" and "QoS m = Some QosAtMostOnce" and "\<forall>x \<in> set ss. sub_target w x \<noteq> None"
    and "\<forall>j. 0 < copies w ss j \<longrightarrow> writable w j (int (copies w ss j * length p))"
  shows "\<exists>w'. pub_loop ss m w = (w', Return (m, None)) \<and>
    (\<forall>j. outq w' j = outq w j @ concat (replicate (copies w ss j) p))"
  using assms(3,4)
proof (induction ss arbitrary: w)
  case Nil
  then show ?case by (simp add: copies_def ret_def)
next
  case (Cons x ss)
  obtain c j where x: "x = IVal onPublishPtr c" "pubs w c = Some (PubService j)" "sub_target w x = Some j"
    using Cons.prems(1) by (auto simp: sub_target_def split: iface.splits if_splits option.splits pub_fn.splits)
  have cp: "copies w (x # ss) k = (if k = j then Suc (copies w ss k) else copies w ss k)" for k
    by (simp add: copies_def x(3))
  have "0 < copies w (x # ss) j" by (simp add: cp)
  then have "writable w j (int (copies w (x # ss) j * length p))" using Cons.prems(2) by blast
  then have "writable w j (int (Suc (copies w ss j) * length p))" using cp [of j] by simp
  then have room: "open_out w j" "int (length p) + int (copies w ss j * length p) \<le> out_room w j"
    by (simp_all add: writable_iff)
  moreover have "0 \<le> int (copies w ss j * length p)" by simp
  ultimately have "writable w j (int (length p))" unfolding writable_iff by linarith
  then obtain w1 where w1: "svc_publish j m DoneNil w = (w1, Return (m, None))" "only_out j w w1"
      "open_out w1 j" "outq w1 j = outq w j @ p" "out_room w1 j = out_room w j - int (length p)"
    using publish_qos0 [OF assms(1,2)] by metis
  note F = only_out_frame [OF w1(2)]
  have same: "outq w1 k = outq w k" "out_room w1 k = out_room w k" "open_out w1 k = open_out w k" if "k \<noteq> j" for k
    using F(1) [OF that] by (simp_all add: outq_def out_room_def open_out_def writable_def)
  have t: "sub_target w1 = sub_target w" "copies w1 ss = copies w ss"
    by (simp_all add: sub_target_pubs [OF F(4)] copies_def [abs_def])
  have "writable w1 k (int (copies w1 ss k * length p))" if "0 < copies w1 ss k" for k
  proof (cases "k = j")
    case True
    then show ?thesis using w1(3,5) room by (simp add: writable_iff t)
  next
    case False
    have "0 < copies w (x # ss) k" using that cp [of k] False by (simp add: t)
    then have "writable w k (int (copies w (x # ss) k * length p))" using Cons.prems(2) by blast
    then show ?thesis using cp [of k] False same [OF False] by (simp add: writable_iff t)
  qed
  then obtain w' where w': "pub_loop ss m w1 = (w', Return (m, None))"
      "\<forall>k. outq w' k = outq w1 k @ concat (replicate (copies w ss k) p)"
    using Cons.IH [of w1] Cons.prems(1) t by auto
  have "pub_loop (x # ss) m w = pub_loop ss m w1"
    using x w1(1) by (simp add: call_pub_def chain_def ret_def)
  moreover have "\<forall>k. outq w' k = outq w k @ concat (replicate (copies w (x # ss) k) p)"
    using w'(2) w1(4) same(1) cp by auto
  ultimately show ?case using w'(1) by simp
qed

section \<open>A PUBLISH from its arrival\<close>

lemma decoded_received:
  assumes "publish_ready m0" and "publish_Decode NewPublishMessage (Slice (publish_wire m0) sp) = Some (m, n, e)"
  shows "received m (publish_wire m0)" "QoS m = QoS m0" "Retain m = Retain m0" "topic m = topic m0" "payload m = payload m0"
    "carries m m0"
proof -
  have f: "deref NewPublishMessage (mtypeflags NewPublishMessage) = [push_bit 4 PUBLISH]" "drop_bit 4 (push_bit 4 PUBLISH :: byte) = PUBLISH"
    using NewPublish_typed(1) by (simp_all add: pub_typed_def)
  have w: "publish_wire m0 \<noteq> []" by (simp add: publish_wire_def hdr_wire_def)
  show "received m (publish_wire m0)" "QoS m = QoS m0" "Retain m = Retain m0" "topic m = topic m0"
    "payload m = payload m0" "carries m m0"
    using publish_wire_decode [OF assms(1) f, of sp] assms w
    by (auto simp: received_def publish_same_def carries_def QoS_def Retain_def)
qed

lemma rinsert_received:
  assumes "\<not> dirty m" and "rinsert g n tp m = Some (gm, n', e)"
  shows "gm = (g, m)"
  using assms(2)
proof (induction tp arbitrary: n n' rule: levels.induct)
  case (1 tp)
  show ?case
  proof (cases "tp = []")
    case True
    then have "rinsert_leaf g n m = Some (gm, n', e)" using 1(2) by (simp add: rinsert.simps)
    then show ?thesis
      using assms(1) by (auto simp: rinsert_leaf_def publish_Len_def publish_Encode_def with_counter_def encode_clean_def
          bind_eq_Some_conv Let_def split: option.splits if_splits)
  next
    case False
    show ?thesis
    proof (cases "nextTopicLevel tp")
      case (Inl a)
      then show ?thesis using 1(2) False by (simp add: rinsert.simps)
    next
      case (Inr lr)
      obtain l r where nx: "nextTopicLevel tp = Inr (l, r)" using Inr by (cases lr) simp
      define c where "c = (case map_of (rn_kids n) l of Some c \<Rightarrow> c | None \<Rightarrow> newRNode)"
      obtain c' where "rinsert g c r m = Some (gm, c', e)"
        using 1(2) False nx by (subst (asm) rinsert.simps) (auto simp: c_def split: option.splits)
      then show ?thesis by (rule "1.IH" [OF False nx refl])
    qed
  qed
qed

lemma do_Retain_received:
  assumes "carries m m0" and "received m p" and "payload m \<noteq> []" and "levels (topic m) = Inr ls"
    and "vtopicsMgr (vheap w i) = Some a" and "mem_inv (theap (tops w) a)"
  obtains tw where "do_Retain i m w = (w\<lparr>tops := tw\<rparr>, Return m)" "mem_inv (theap tw a)"
    "sroot (theap tw a) = sroot (theap (tops w) a)"
proof -
  obtain m' s' x where r: "mem_Retain (gPacketId w) (theap (tops w) a) m = Some ((gPacketId w, m'), s', None)" "mem_inv s'"
    using mem.retain [OF assms(6,1,3,4)] by metis
  obtain n where n: "rroot (theap (tops w) a) = Some n" using assms(6) by (auto simp: mem_inv_def)
  have "m' = m \<and> sroot s' = sroot (theap (tops w) a)"
    using r(1) n assms(2,3) rinsert_received [of m "gPacketId w" n "topic m"]
    by (auto simp: mem_Retain_def received_def)
  moreover have "w\<lparr>gPacketId := gPacketId w\<rparr> = w" by simp
  ultimately show ?thesis
    using that [of "(tops w)\<lparr>theap := (theap (tops w))(a := s')\<rparr>"] r assms(5)
    by (simp add: do_Retain_def topics_of_def mgr_Retain_def chain_def ret_def)
qed

lemma do_Subscribers_received:
  assumes "QoS m = Some QosAtMostOnce" and "vtopicsMgr (vheap w i) = Some a"
    and "mem_Subscribers (theap (tops w) a) (topic m) QosAtMostOnce = Some ((rs, qs), None)"
  shows "do_Subscribers i m w = (set_svc i (\<lambda>v. v\<lparr>vsubs := rs, vqoss := qs\<rparr>) w, Return None)"
  using assms by (simp add: do_Subscribers_def topics_of_def mgr_Subscribers_def chain_def ret_def ValidQos_def)

lemma Subscribers_sroot:
  "sroot s' = sroot s \<Longrightarrow> mem_Subscribers s' tp q = mem_Subscribers s tp q"
  by (simp add: mem_Subscribers_def)

lemma onPublish_copies:
  assumes "carries m m0" and m: "received m p" "QoS m = Some QosAtMostOnce" "payload m \<noteq> []"
    and a: "vtopicsMgr (vheap w i) = Some a" "mem_inv (theap (tops w) a)" "levels (topic m) = Inr ls"
    and rs: "mem_Subscribers (theap (tops w) a) (topic m) QosAtMostOnce = Some ((rs, qs), None)"
    and t: "\<forall>x \<in> set rs. sub_target w x \<noteq> None"
    and room: "\<forall>j. 0 < copies w rs j \<longrightarrow> writable w j (int (copies w rs j * length p))"
  shows "\<exists>w' m'. onPublish i m w = (w', Return (m', None)) \<and>
    (\<forall>j. outq w' j = outq w j @ concat (replicate (copies w rs j) (unretained p)))"
proof -
  obtain r where r: "Retain m = Some r" using received_flags [OF m(1)] by (simp add: Retain_def header_Flags_def)
  obtain tw where tw: "(if r then do_Retain i m else ret m) w = (w\<lparr>tops := tw\<rparr>, Return m)" "mem_inv (theap tw a)"
      "sroot (theap tw a) = sroot (theap (tops w) a)"
  proof (cases r)
    case True
    then show ?thesis using that do_Retain_received [OF assms(1) m(1,3) a(3,1,2)] by auto
  next
    case False
    then show ?thesis using that [of "tops w"] a(2) by (simp add: ret_def)
  qed
  let ?w = "w\<lparr>tops := tw\<rparr>"
  define w1 where "w1 = set_svc i (\<lambda>v. v\<lparr>vsubs := rs, vqoss := qs\<rparr>) ?w"
  have s: "do_Subscribers i m ?w = (w1, Return None)"
    unfolding w1_def by (rule do_Subscribers_received [where a = a]) (use m(2) a(1) rs in \<open>simp_all add: Subscribers_sroot [OF tw(3)]\<close>)
  obtain m' where m': "SetRetain m False = Some m'" "received m' (unretained p)" "QoS m' = QoS m"
    using received_SetRetain [OF m(1)] by blast
  have l: "length (unretained p) = length p" using m(1) by (cases p) (simp_all add: unretained_def received_def)
  have same: "outq w1 j = outq w j" "writable w1 j n = writable w j n" "pubs w1 = pubs w" "vsubs (vheap w1 i) = rs" for j n
    by (simp_all add: w1_def set_svc_def outq_def writable_def)
  have st: "sub_target w1 = sub_target w" "copies w1 = copies w"
    by (simp_all add: sub_target_pubs [OF same(3)] copies_def [abs_def])
  have "onPublish i m w = pub_loop rs m' w1"
    using r tw(1) s m'(1) same(4) by (simp add: onPublish_def chain_def ret_def)
  then show ?thesis
    using pub_loop_copies [OF m'(2), of rs w1] m'(3) m(2) t room same l st by auto
qed

end
