(* ===== verification/Svc_Traffic.thy ===== *)
theory Svc_Traffic imports Svc_Deliver begin

text \<open>
  Whole packets between the two ends of a ring buffer: writing a packet that is ready to be sent, taking one
  off as \<open>processor\<close> does (size, packet, commit), and every history of the two.
\<close>

lemma write_ready:
  assumes "ring_idle b" and "msg_ready m" and "msg_kind m \<noteq> CONNACK" and "msg_Len m = Some (w_msg s, l)"
    and "l \<le> free_room b"
  shows "l = int (length (msg_wire m)) \<and> (\<exists>b' s'. buf_writeMessage s l b = (b', Return (s', l, None)) \<and>
    ring_idle b' \<and> unread b' = unread b @ msg_wire m)"
proof -
  obtain x where "msg_Len m = Some (x, int (length (msg_wire m)))" "encodes x (msg_wire m)"
    using ready_encodes [OF assms(2,3)] by blast
  then have e: "encodes (w_msg s) (msg_wire m)" "l = int (length (msg_wire m))" using assms(4) by simp_all
  then show ?thesis using write_frame [OF assms(1) e(1)] assms(5) by metis
qed

lemma read_ready:
  assumes "ring_idle b" and "msg_ready m" and "unread b = msg_wire m @ rest"
  obtains b1 b2 b3 m' where
    "buf_peekMessageSize b = (b1, Return ((msg_kind m, int (length (msg_wire m))), None))"
    "buf_peekMessage b1 sp (msg_kind m) (int (length (msg_wire m))) =
       (b2, Return (Some m', int (length (msg_wire m)), None))" "msg_same m m'"
    "buf_ReadCommit b2 (int (length (msg_wire m))) = (b3, Return (int (length (msg_wire m)), None))"
    "ring_idle b3" "unread b3 = rest" "free_room b3 = free_room b + int (length (msg_wire m))"
proof -
  obtain b1 where b1: "buf_peekMessageSize b = (b1, Return ((msg_kind m, int (length (msg_wire m))), None))"
      "ring_idle b1" "unread b1 = msg_wire m @ rest" "free_room b1 = free_room b"
    using peekMessageSize_frame [OF assms(1,3) msg_frame [OF assms(2)]] assms(3) by auto
  obtain b2 m' where b2: "buf_peekMessage b1 sp (msg_kind m) (int (length (msg_wire m))) =
       (b2, Return (Some m', int (length (msg_wire m)), None))" "msg_same m m'" "ring_idle b2"
      "unread b2 = msg_wire m @ rest" "free_room b2 = free_room b1"
    using peekMessage_frame [OF b1(2,3) assms(2), of sp] b1(3) by auto
  show ?thesis using ring.drop_prefix [OF b2(3,4)] that b1 b2 by auto
qed

text \<open>
  Every history of a buffer through which packets are sent: the packets written, those taken off, in order.
\<close>

inductive traffic :: "buffer \<Rightarrow> message list \<Rightarrow> message list \<Rightarrow> bool" where
  start: "newBuffer sz = Inr b \<Longrightarrow> traffic b [] []"
| sending: "traffic b ws rs \<Longrightarrow> msg_ready m \<Longrightarrow> msg_kind m \<noteq> CONNACK \<Longrightarrow> msg_Len m = Some (w_msg s, l) \<Longrightarrow>
    l \<le> free_room b \<Longrightarrow> buf_writeMessage s l b = (b', Return r) \<Longrightarrow> traffic b' (ws @ [m]) rs"
| taking: "traffic b ws rs \<Longrightarrow> length rs < length ws \<Longrightarrow> buf_peekMessageSize b = (b1, Return ((t, n), None)) \<Longrightarrow>
    buf_peekMessage b1 sp t n = (b2, Return (Some m, k, None)) \<Longrightarrow> buf_ReadCommit b2 n = (b3, Return r) \<Longrightarrow>
    traffic b3 ws (rs @ [m])"

definition in_transit :: "buffer \<Rightarrow> message list \<Rightarrow> message list \<Rightarrow> bool" where
  "in_transit b ws rs \<longleftrightarrow>
     ring_idle b \<and> (\<exists>gone todo. ws = gone @ todo \<and> list_all2 msg_same gone rs \<and> list_all msg_ready todo \<and>
       unread b = concat (map msg_wire todo))"

lemma traffic_in_transit: "traffic b ws rs \<Longrightarrow> in_transit b ws rs"
proof (induction rule: traffic.induct)
  case (start sz b)
  have "ring_idle b" "unread b = []"
    using newBuffer_ok [OF start] by (simp_all add: ring_idle_def unread_def)
  then show ?case by (simp add: in_transit_def)
next
  case (sending b ws rs m s l b' r)
  obtain d t where t: "ws = d @ t" "list_all2 msg_same d rs" "list_all msg_ready t" "ring_idle b"
      "unread b = concat (map msg_wire t)"
    using sending.IH by (auto simp: in_transit_def)
  have "ring_idle b' \<and> unread b' = unread b @ msg_wire m"
    using write_ready [OF t(4) sending.hyps(2-5)] sending.hyps(6) by auto
  then show ?case
    unfolding in_transit_def using t sending.hyps(2)
    by (intro conjI exI [of _ d] exI [of _ "t @ [m]"]) simp_all
next
  case (taking b ws rs b1 t n sp b2 m k b3 r)
  obtain d u where u: "ws = d @ u" "list_all2 msg_same d rs" "list_all msg_ready u" "ring_idle b"
      "unread b = concat (map msg_wire u)"
    using taking.IH by (auto simp: in_transit_def)
  have "length d = length rs" using u(2) by (rule list_all2_lengthD)
  then obtain x v where x: "u = x # v" using u(1) taking.hyps(2) by (cases u) simp_all
  obtain c1 c2 c3 m' where c: "buf_peekMessageSize b = (c1, Return ((msg_kind x, int (length (msg_wire x))), None))"
      "buf_peekMessage c1 sp (msg_kind x) (int (length (msg_wire x))) = (c2, Return (Some m', int (length (msg_wire x)), None))"
      "msg_same x m'" "buf_ReadCommit c2 (int (length (msg_wire x))) = (c3, Return (int (length (msg_wire x)), None))"
      "ring_idle c3" "unread c3 = concat (map msg_wire v)"
    by (rule read_ready [OF u(4), of x "concat (map msg_wire v)" sp]) (use u(3,5) x in simp_all)
  have "m = m' \<and> b3 = c3" using c taking.hyps(3-5) by auto
  then show ?case
    unfolding in_transit_def using u x c
    by (intro conjI exI [of _ "d @ [x]"] exI [of _ v]) (simp_all add: list_all2_appendI)
qed

end
