(* ===== verification/Svc_Qos2.thy ===== *)
theory Svc_Qos2 imports Svc_Traffic begin

text \<open>
  The receiving side of QoS 2: a PUBLISH goes into the queue \<open>Pub2in\<close> and is answered with a PUBREC, the PUBREL
  gets it out and hands it to \<open>onPublish\<close>. The packets are as the processor decodes them.
\<close>

section \<open>Received packets in the queue\<close>

lemma Wait_received:
  assumes "wf_ackqueue q" and m: "received m p" "drop_bit 4 (hd p) = PUBLISH" and "QoS m = Some x" "x \<noteq> QosAtMostOnce"
    and "length (contents q) < 2 ^ 62"
  shows "\<exists>q'. Wait g q (MPublish m) oc = Some ((g, MPublish m), q', None) \<and> wf_ackqueue q' \<and> ping q' = ping q \<and>
    contents q' = (if header_PacketId m \<in> set (ids q) then contents q
      else contents q @ [\<lparr>Mtype = PUBLISH, State = RESERVED, Pktid = header_PacketId m, Msgbuf = p, Ackbuf = [], OnComplete = oc\<rparr>])"
proof -
  have "length (ring q) < 2 ^ 62" if "qfull q"
    using that assms(6) ring_okD(7) [of q] assms(1) by (simp add: qfull_def wf_ackqueue_def)
  then obtain q1 where q1: "(if qfull q then qgrow q else Some q) = Some q1" "wf_ackqueue q1"
      "contents q1 = contents q" "\<not> qfull q1" "ping q1 = ping q"
    using qgrow_contents [OF assms(1)] assms(1) by (cases "qfull q") auto
  have ids: "ids q1 = ids q" by (simp add: ids_def q1(3))
  have f: "deref m (mtypeflags m) = [hd p]" by (rule received_flags [OF m(1)])
  have W: "Wait g q (MPublish m) oc = map_option (\<lambda>(gm, q, e). (gm, q, None)) (qinsert g q (header_PacketId m) (MPublish m) oc)"
    using assms(4,5) by (simp add: Wait_def)
  show ?thesis
  proof (cases "emap q1 (header_PacketId m)")
    case None
    then have nin: "header_PacketId m \<notin> set (ids q1)" using emap_None [OF q1(2)] by simp
    have t: "msg_Type (MPublish m) = PUBLISH" using m(2) header_Type_single [OF f] by simp
    have e: "msg_Encode g (MPublish m) (replicate (length p) 0) = Some (((g, MPublish m), p), int (length p), None)"
      using received_encodes(3) [OF m(1), of "replicate (length p) 0" g] by (simp add: wr_exact)
    show ?thesis
      using append_contents [OF q1(2,4), of "\<lparr>Mtype = PUBLISH, State = RESERVED, Pktid = header_PacketId m, Msgbuf = p, Ackbuf = [], OnComplete = oc\<rparr>"]
        nin ids q1 None received_encodes(1) [OF m(1)] e t
      by (auto simp: W qinsert_def qappend_def Let_def)
  next
    case (Some i)
    then have "header_PacketId m \<in> set (ids q)" using emap_None [OF q1(2), of "header_PacketId m"] ids by auto
    moreover obtain d where "Dup m = Some d" using f by (simp add: Dup_def header_Flags_def)
    ultimately show ?thesis using q1 Some by (auto simp: W qinsert_def)
  qed
qed

lemma Ack_received:
  assumes "wf_ackqueue q" and h: "\<not> dirty h" "sdata (dbuf h) = p" and t: "snd (header_Type h) = PUBREL"
  shows "\<exists>q'. Ack g q (MPubrel h) = Some ((g, MPubrel h), q', None) \<and> wf_ackqueue q' \<and>
    contents q' = mark (header_PacketId h) PUBREL p (contents q) \<and> ping q' = ping q"
proof (cases "emap q (header_PacketId h)")
  case None
  then have "mark (header_PacketId h) PUBREL p (contents q) = contents q"
    using emap_None [OF assms(1)] by (auto simp: mark_def ids_def image_iff intro!: map_idI)
  then show ?thesis using None assms by (simp add: Ack_def)
next
  case (Some i)
  have l: "msg_Len (MPubrel h) = Some (MPubrel h, int (length p))"
    using h by (simp add: puback_Len_def on_len_def len_with_def slen_def)
  have e: "msg_Encode g (MPubrel h) (replicate (length p) 0) = Some (((g, MPubrel h), p), int (length p), None)"
    using encode_clean_copy [of h "replicate (length p) 0"] h
    by (simp add: puback_Encode_def with_counter_def on_enc_def wr_exact)
  have id: "Pktid (ring q ! unat i) = header_PacketId h"
    using assms(1) Some by (auto simp: wf_ackqueue_def emap_ok_def)
  then obtain r where r: "get_at (ring q) (sint i) = Some (ring q ! unat i)"
      "set_at (ring q) (sint i) ((ring q ! unat i)\<lparr>State := PUBREL, Ackbuf := p\<rparr>) = Some r"
      "contents (q\<lparr>ring := r\<rparr>) = mark (header_PacketId h) PUBREL p (contents q)"
    using update_contents [OF assms(1) Some, where f = "\<lambda>a. a\<lparr>State := PUBREL, Ackbuf := p\<rparr>"
        and f' = "\<lambda>a. a\<lparr>State := PUBREL, Ackbuf := p\<rparr>"]
    by (auto simp: mark_def)
  have A: "Ack g q (MPubrel h) = Some ((g, MPubrel h), q\<lparr>ring := r\<rparr>, None)"
    using t r(1,2) Some l e by (simp add: Ack_def)
  then show ?thesis using Ack_law [OF assms(1) A] r(3) by simp
qed

section \<open>On a service\<close>

definition pub2in :: "world \<Rightarrow> nat \<Rightarrow> ackqueue option" where
  "pub2in w i = Option.bind (sess_of i w) (\<lambda>(p, s). Pub2in s)"

definition same_but_out :: "service \<Rightarrow> service \<Rightarrow> bool" where
  "same_but_out v v' \<longleftrightarrow> (\<exists>b tmp st. v' = v\<lparr>outb := b, outtmp := tmp, outStat := st\<rparr>)"

lemma same_but_out_written [simp]: "same_but_out v (v\<lparr>outb := b, outtmp := tmp, outStat := st\<rparr>)"
  unfolding same_but_out_def by (rule exI [of _ b], rule exI [of _ tmp], rule exI [of _ st]) (rule refl)

lemma same_but_out_refl [simp]: "same_but_out v v"
  unfolding same_but_out_def
  by (rule exI [of _ "outb v"], rule exI [of _ "outtmp v"], rule exI [of _ "outStat v"]) simp

lemma same_but_out_trans: "same_but_out u v \<Longrightarrow> same_but_out v v' \<Longrightarrow> same_but_out u v'"
  by (fastforce simp: same_but_out_def)

lemma same_but_out_fields: "same_but_out v v' \<Longrightarrow> vsess v' = vsess v \<and> vtopicsMgr v' = vtopicsMgr v"
  by (auto simp: same_but_out_def)

text \<open>
  Nothing of the other services and sessions, of the stores or of the callbacks has changed, and of the service itself
  only what \<open>writeMessage\<close> touches: no delivery has been made.
\<close>

definition undelivered :: "nat \<Rightarrow> world \<Rightarrow> world \<Rightarrow> bool" where
  "undelivered i w w' \<longleftrightarrow>
     (\<forall>k. k \<noteq> i \<longrightarrow> vheap w' k = vheap w k) \<and> same_but_out (vheap w i) (vheap w' i) \<and>
     tops w' = tops w \<and> calls w' = calls w \<and> pubs w' = pubs w \<and> conns w' = conns w \<and>
     length (sheap (sess w')) = length (sheap (sess w)) \<and>
     (\<forall>k. vsess (vheap w i) \<noteq> Some k \<longrightarrow> sheap (sess w') ! k = sheap (sess w) ! k)"

lemma undelivered_refl [simp]: "undelivered i w w"
  by (simp add: undelivered_def)

lemma undelivered_trans:
  assumes "undelivered i w w'" and "undelivered i w' w''"
  shows "undelivered i w w''"
  using assms same_but_out_trans [of "vheap w i" "vheap w' i" "vheap w'' i"] same_but_out_fields [of "vheap w i" "vheap w' i"]
  by (simp add: undelivered_def)

lemma pub2in_sess:
  assumes "pub2in w i = Some q"
  obtains p s where "sess_of i w = Some (p, s)" "Pub2in s = Some q" "p < length (sheap (sess w))" "vsess (vheap w i) = Some p"
  using assms by (auto simp: pub2in_def sess_of_def bind_eq_Some_conv split: option.splits if_splits)

lemma on_queue_Pub2in:
  assumes "pub2in w i = Some q" and "f (gPacketId w) q = Some ((gPacketId w, m), q', r)"
  obtains w' where "on_queue i QPub2in f w = (w', Return (m, r))" "pub2in w' i = Some q'" "undelivered i w w'"
    "vheap w' = vheap w"
proof -
  obtain p s where p: "sess_of i w = Some (p, s)" "Pub2in s = Some q" "p < length (sheap (sess w))" "vsess (vheap w i) = Some p"
    using pub2in_sess [OF assms(1)] by metis
  let ?w = "set_sess p (put_q QPub2in q') w"
  have "w\<lparr>gPacketId := gPacketId w\<rparr> = w" by simp
  then have "on_queue i QPub2in f w = (?w, Return (m, r))" using p assms(2) by (simp add: on_queue_def)
  moreover have "pub2in ?w i = Some q'" using p by (simp add: pub2in_def sess_of_def set_sess_def)
  moreover have "undelivered i w ?w" using p(4) by (auto simp: undelivered_def set_sess_def)
  ultimately show ?thesis by (rule that) (simp add: set_sess_def)
qed

lemma only_out_undelivered:
  assumes "only_out i w w'"
  shows "undelivered i w w'" "pub2in w' i = pub2in w i"
proof -
  have "same_but_out (vheap w i) (vheap w' i)"
    using assms by (auto simp: only_out_def set_svc_def)
  moreover have "conns w' = conns w" using assms by (auto simp: only_out_def set_svc_def)
  ultimately show "undelivered i w w'"
    using only_out_frame [OF assms] by (simp add: undelivered_def)
  have "sess_of i w' = sess_of i w" using only_out_frame(3) [OF assms] only_out_frame(7) [OF assms, of i] by (auto simp: sess_of_def split: option.split)
  then show "pub2in w' i = pub2in w i" by (simp add: pub2in_def)
qed

text \<open>The answers: two bytes of header and the identifier.\<close>

lemma ack_answer:
  assumes "t = PUBREC \<or> t = PUBCOMP"
  shows "ack_ready t (SetPacketId (new_header t) v)"
    "ack_wire (SetPacketId (new_header t) v) = [push_bit 4 t, 2] @ put_be16 v"
proof -
  let ?h = "SetPacketId (new_header t) v"
  have h: "new_header t = zero_header\<lparr>mtypeflags := Own [push_bit 4 t], dirty := True\<rparr>"
    using assms by (auto simp: new_header_def header_SetType_def put_mtypeflags_def DefaultFlags_def type_Valid_def zero_header_def)
  have b: "deref ?h (mtypeflags ?h) = [push_bit 4 t]" "dirty ?h" "deref ?h (packetId ?h) = (if v = 0 then [] else put_be16 v)"
    by (auto simp: h SetPacketId_def put_packetId_def put_be16_def zero_header_def)
  have id: "header_PacketId ?h = v"
    using PacketId_SetPacketId [of v "new_header t"] by (cases "v = 0") (simp_all add: h header_PacketId_def zero_header_def)
  have t: "drop_bit 4 (push_bit 4 t) = t" "push_bit 4 t AND 15 = DefaultFlags t" using assms by (auto simp: DefaultFlags_def)
  show "ack_ready t ?h" using b t by (auto simp: ack_ready_def typed_def type_byte_def id_set_def put_be16_def)
  show "ack_wire ?h = [push_bit 4 t, 2] @ put_be16 v"
    using b(1) id by (simp add: ack_wire_def type_byte_def id_bytes_def hdr_wire_def uvarint_bytes_small)
qed

lemma respond_ready:
  assumes "msg_ready m" and "msg_kind m \<noteq> CONNACK" and "writable w i (int (length (msg_wire m)))"
  obtains w' where "respond i m w = (w', Return None)" "only_out i w w'" "open_out w' i"
    "outq w' i = outq w i @ msg_wire m" "out_room w' i = out_room w i - int (length (msg_wire m))"
proof -
  obtain x where x: "msg_Len m = Some (x, int (length (msg_wire m)))" "encodes x (msg_wire m)"
    using ready_encodes [OF assms(1,2)] by blast
  obtain w' x' where w': "svc_writeMessage i m w = (w', Return (x', int (length (msg_wire m)), None))" "only_out i w w'"
      "writable w' i (out_room w i - int (length (msg_wire m)))" "outq w' i = outq w i @ msg_wire m"
      "out_room w' i = out_room w i - int (length (msg_wire m))"
    by (rule writeMessage_frame [OF x assms(3)])
  have "respond i m w = (w', Return None)" using w'(1) by (simp add: respond_def chain_def ret_def)
  then show ?thesis using w'(3) by (rule_tac that [OF _ w'(2) _ w'(4,5)]) (simp_all add: writable_iff)
qed

section \<open>The cycle\<close>

abbreviation pubrec_for :: "16 word \<Rightarrow> bytes" where "pubrec_for v \<equiv> [0x50, 2] @ put_be16 v"
abbreviation pubcomp_for :: "16 word \<Rightarrow> message" where "pubcomp_for v \<equiv> MPubcomp (SetPacketId NewPubcompMessage v)"

lemma pubrec_ready:
  "msg_ready (MPubrec (SetPacketId NewPubrecMessage v))" "msg_wire (MPubrec (SetPacketId NewPubrecMessage v)) = pubrec_for v"
  using ack_answer [of PUBREC v] by (simp_all add: NewPubrecMessage_def)

definition waiting_publish :: "16 word \<Rightarrow> bytes \<Rightarrow> ackmsg" where
  "waiting_publish v p = \<lparr>Mtype = PUBLISH, State = RESERVED, Pktid = v, Msgbuf = p, Ackbuf = [], OnComplete = None\<rparr>"

lemma incoming_publish2:
  assumes m: "received m p" "drop_bit 4 (hd p) = PUBLISH" and "QoS m = Some QosExactlyOnce"
    and q: "pub2in w i = Some q" "wf_ackqueue q" "length (contents q) < 2 ^ 62" and room: "writable w i 4"
  obtains w' q' where "processIncoming i (MPublish m) w = (w', Return None)" "pub2in w' i = Some q'" "wf_ackqueue q'"
    "contents q' = (if header_PacketId m \<in> set (ids q) then contents q
       else contents q @ [waiting_publish (header_PacketId m) p])" "ping q' = ping q"
    "outq w' i = outq w i @ pubrec_for (header_PacketId m)" "open_out w' i" "out_room w' i = out_room w i - 4"
    "undelivered i w w'"
proof -
  obtain q' where q': "Wait (gPacketId w) q (MPublish m) None = Some ((gPacketId w, MPublish m), q', None)" "wf_ackqueue q'"
      "ping q' = ping q" "contents q' = (if header_PacketId m \<in> set (ids q) then contents q
       else contents q @ [waiting_publish (header_PacketId m) p])"
    using Wait_received [OF q(2) m assms(3) _ q(3), of "gPacketId w" None] by (auto simp: waiting_publish_def)
  obtain w1 where w1: "q_Wait i QPub2in (MPublish m) None w = (w1, Return (MPublish m, None))" "pub2in w1 i = Some q'"
      "undelivered i w w1" "vheap w1 = vheap w"
    unfolding q_Wait_def by (rule on_queue_Pub2in [OF q(1), where f = "\<lambda>g q. Wait g q (MPublish m) None", OF q'(1)])
  have same: "outq w1 i = outq w i" "out_room w1 i = out_room w i" "writable w1 i n = writable w i n" for n
    by (simp_all add: outq_def out_room_def writable_def w1(4))
  have "length (pubrec_for (header_PacketId m)) = 4" by (simp add: put_be16_def)
  then obtain w2 where w2: "respond i (MPubrec (SetPacketId NewPubrecMessage (header_PacketId m))) w1 = (w2, Return None)"
      "only_out i w1 w2" "open_out w2 i" "outq w2 i = outq w1 i @ pubrec_for (header_PacketId m)" "out_room w2 i = out_room w1 i - 4"
    using respond_ready [OF pubrec_ready(1) [of "header_PacketId m"], of w1 i] room same pubrec_ready(2) by auto
  have "processIncoming i (MPublish m) w = (w2, Return None)"
    using assms(3) w1(1) w2(1) by (simp add: processIncoming_def processPublish_def chain_def ret_def)
  moreover have "undelivered i w w2" by (rule undelivered_trans [OF w1(3) only_out_undelivered(1) [OF w2(2)]])
  ultimately show ?thesis
    using w2(3-5) w1(2) same only_out_undelivered(2) [OF w2(2)] by (intro that [OF _ _ q'(2,4,3)]) simp_all
qed

text \<open>The PUBREL of the oldest waiting packet hands it to \<open>onPublish\<close>.\<close>

lemma decoded_pubrel:
  assumes "ack_ready PUBREL h0" and "puback_Decode NewPubrelMessage (Slice (ack_wire h0) sp) = Some (h, n, e)"
  shows "\<not> dirty h" "sdata (dbuf h) = ack_wire h0" "snd (header_Type h) = PUBREL" "header_PacketId h = header_PacketId h0"
proof -
  have h: "h = ack_decoded NewPubrelMessage (Slice (ack_wire h0) sp)"
    using ack_decode [OF assms(1), of NewPubrelMessage "push_bit 4 PUBREL OR DefaultFlags PUBREL" sp] assms(2)
      new_header_typed(1) [of PUBREL] by (simp add: ack_types_def NewPubrelMessage_def type_Valid_def)
  show "\<not> dirty h" "sdata (dbuf h) = ack_wire h0" by (simp_all add: h ack_decoded_def decoded_header_def set_dbuf_def)
  show "snd (header_Type h) = PUBREL" "header_PacketId h = header_PacketId h0"
    using assms(1) deref_ack_decoded(1,2) [of PUBREL h0 NewPubrelMessage sp] by (simp_all add: h ack_ready_def)
qed

lemma decoded_same:
  assumes "publish_ready m0" and "publish_Decode NewPublishMessage (Slice (publish_wire m0) sp) = Some (m, n, e)"
  shows "publish_same m0 m"
  using publish.decode_wire [OF assms(1), of sp] assms(2) by auto

lemma kept_decoded:
  assumes "msg_ready m"
  shows "\<exists>m' fresh. decode_kept (msg_kind m) (msg_wire m) = ret (Some m') \<and> msg_same m m' \<and>
    type_New (msg_kind m) = Inr fresh \<and> msg_Decode fresh (Slice (msg_wire m) []) = Some (m', int (length (msg_wire m)), None)"
  using msg_decode_wire [OF assms, of "[]"]
  by (auto simp: decode_kept_def exact_def chain_def ret_def fun_eq_iff)

lemma Acked_Pub2in:
  assumes "pub2in w i = Some q" and "Acked q = Some (q', out)"
  obtains w' where "processAcked i QPub2in w = acked_all i out w'" "pub2in w' i = Some q'" "undelivered i w w'"
    "vheap w' = vheap w"
proof -
  have "map_option (\<lambda>(q, r). ((gPacketId w, ()), q, r)) (Acked q) = Some ((gPacketId w, ()), q', out)" using assms(2) by simp
  from on_queue_Pub2in [OF assms(1), where f = "\<lambda>g q. map_option (\<lambda>(q, r). ((g, ()), q, r)) (Acked q)", OF this]
  obtain w' where w': "on_queue i QPub2in (\<lambda>g q. map_option (\<lambda>(q, r). ((g, ()), q, r)) (Acked q)) w = (w', Return ((), out))"
      "pub2in w' i = Some q'" "undelivered i w w'" "vheap w' = vheap w" by blast
  have "processAcked i QPub2in w = acked_all i out w'"
    using w'(1) by (simp add: processAcked_def q_Acked_def chain_def ret_def)
  then show ?thesis using w'(2-4) by (rule that)
qed

lemma Acked_ping: "wf_ackqueue q \<Longrightarrow> State (ping q) \<noteq> PINGRESP \<Longrightarrow> Acked q = Some (q', r) \<Longrightarrow> ping q' = ping q"
  using acked_loop_contents [of "q\<lparr>ackdone := []\<rparr>"] by (auto simp: Acked_def Let_def)

text \<open>
  A PUBREL marks its entry; what comes out is the completed entries at the front, and \<open>acked_all\<close> handles them
  before the PUBCOMP is sent.
\<close>

lemma incoming_pubrel:
  assumes h: "ack_ready PUBREL h0" "puback_Decode NewPubrelMessage (Slice (ack_wire h0) sp) = Some (h, n, e)"
    and q: "pub2in w i = Some q" "wf_ackqueue q" "State (ping q) \<noteq> PINGRESP"
  obtains w' q' where "processIncoming i (MPubrel h) w =
      chain (acked_all i (takeWhile cycle_done (mark (header_PacketId h0) PUBREL (ack_wire h0) (contents q))))
        (\<lambda>_. respond i (pubcomp_for (header_PacketId h0))) w'"
    "pub2in w' i = Some q'" "wf_ackqueue q'"
    "contents q' = dropWhile cycle_done (mark (header_PacketId h0) PUBREL (ack_wire h0) (contents q))"
    "ping q' = ping q" "undelivered i w w'" "vheap w' = vheap w"
proof -
  note d = decoded_pubrel [OF h]
  let ?m = "mark (header_PacketId h0) PUBREL (ack_wire h0) (contents q)"
  obtain q1 where q1: "Ack (gPacketId w) q (MPubrel h) = Some ((gPacketId w, MPubrel h), q1, None)" "wf_ackqueue q1"
      "contents q1 = ?m" "ping q1 = ping q"
    using Ack_received [OF q(2) d(1-3), of "gPacketId w"] d(4) by auto
  obtain w1 where w1: "q_Ack i QPub2in (MPubrel h) w = (w1, Return (MPubrel h, None))" "pub2in w1 i = Some q1"
      "undelivered i w w1" "vheap w1 = vheap w"
    unfolding q_Ack_def by (rule on_queue_Pub2in [OF q(1), where f = "\<lambda>g q. Ack g q (MPubrel h)", OF q1(1)])
  obtain q2 where q2: "Acked q1 = Some (q2, takeWhile cycle_done ?m)" "wf_ackqueue q2" "contents q2 = dropWhile cycle_done ?m"
    using Acked_law [OF q1(2)] q1(3,4) q(3) by auto
  obtain w2 where w2: "processAcked i QPub2in w1 = acked_all i (takeWhile cycle_done ?m) w2" "pub2in w2 i = Some q2"
      "undelivered i w1 w2" "vheap w2 = vheap w1"
    by (rule Acked_Pub2in [OF w1(2) q2(1)])
  have "processIncoming i (MPubrel h) w =
      chain (acked_all i (takeWhile cycle_done ?m)) (\<lambda>_. respond i (pubcomp_for (header_PacketId h0))) w2"
    using w1(1) w2(1) d(4) by (simp add: processIncoming_def chain_def ret_def)
  then show ?thesis
    using Acked_ping [OF q1(2) _ q2(1)] q(3) q1(4)
    by (intro that [OF _ w2(2) q2(2,3) _ undelivered_trans [OF w1(3) w2(3)]]) (simp_all add: w2(4) w1(4))
qed

text \<open>The entry of a PUBLISH whose PUBREL has come hands the packet to \<open>onPublish\<close>, once.\<close>

lemma released_once:
  assumes "publish_ready m0" and "ack_ready PUBREL h0"
  shows "\<exists>mk. received mk (publish_wire m0) \<and> publish_same m0 mk \<and>
    acked_all i [(waiting_publish v (publish_wire m0))\<lparr>State := PUBREL, Ackbuf := ack_wire h0\<rparr>] w =
      chain (onPublish i mk) (\<lambda>_. ret ()) w"
proof -
  obtain m' fresh where m': "decode_kept PUBLISH (publish_wire m0) = ret (Some m')" "msg_same (MPublish m0) m'"
      "type_New PUBLISH = Inr fresh" "msg_Decode fresh (Slice (publish_wire m0) []) = Some (m', int (length (publish_wire m0)), None)"
    using kept_decoded [of "MPublish m0"] assms(1) by auto
  have fresh: "fresh = MPublish NewPublishMessage" using m'(3) by (simp add: type_New_def)
  obtain mk where mk: "m' = MPublish mk" "publish_same m0 mk" using m'(2) by (auto split: message.splits)
  have "publish_Decode NewPublishMessage (Slice (publish_wire m0) []) = Some (mk, int (length (publish_wire m0)), None)"
    using m'(4) fresh mk(1) by (auto simp: on_dec_def)
  then have r: "received mk (publish_wire m0)" by (rule decoded_received(1) [OF assms(1)])
  obtain h' where h': "decode_kept PUBREL (ack_wire h0) = ret (Some h')"
    using kept_decoded [of "MPubrel h0"] assms(2) by auto
  have "acked_all i [(waiting_publish v (publish_wire m0))\<lparr>State := PUBREL, Ackbuf := ack_wire h0\<rparr>] w =
      chain (onPublish i mk) (\<lambda>_. ret ()) w"
    using m'(1) h' mk(1)
    by (cases "onPublish i mk w" rule: prod.exhaust)
      (auto simp: acked_one_def waiting_publish_def complete_def chain_def ret_def split: outcome.splits)
  then show ?thesis using r mk(2) by blast
qed

section \<open>Delivering leaves the queue alone\<close>

text \<open>An operation after which every session has the \<open>Pub2in\<close> it had, however the operation ends.\<close>

definition keeps_in :: "'a act \<Rightarrow> bool" where
  "keeps_in m \<longleftrightarrow> (\<forall>w. pub2in (fst (m w)) = pub2in w)"

lemma pub2in_same:
  "(\<And>k. vsess (vheap w' k) = vsess (vheap w k)) \<Longrightarrow> sess w' = sess w \<Longrightarrow> pub2in w' = pub2in w"
  by (auto simp: fun_eq_iff pub2in_def sess_of_def split: option.split)

lemma pub2in_simps:
  "pub2in (w\<lparr>gPacketId := g\<rparr>) = pub2in w" "pub2in (w\<lparr>tops := t\<rparr>) = pub2in w"
  "pub2in (w\<lparr>dones := d\<rparr>) = pub2in w" "pub2in (w\<lparr>calls := c\<rparr>) = pub2in w"
  by (rule pub2in_same; simp)+

lemma pub2in_set_svc: "(\<And>v. vsess (f v) = vsess v) \<Longrightarrow> pub2in (set_svc i f w) = pub2in w"
  by (rule pub2in_same) (simp_all add: set_svc_def)

lemma pub2in_set_sess:
  assumes "\<And>s. Pub2in (f s) = Pub2in s"
  shows "pub2in (set_sess p f w) = pub2in w"
proof -
  have "Pub2in (ss[p := f (ss ! p)] ! k) = Pub2in (ss ! k)" if "k < length ss" for ss k
    using that assms by (cases "p = k") simp_all
  then show ?thesis by (auto simp: fun_eq_iff pub2in_def sess_of_def set_sess_def split: option.split)
qed

lemma keeps_in_basic: "keeps_in (ret x)" "keeps_in panic" "keeps_in (opt r)"
  by (auto simp: keeps_in_def ret_def panic_def opt_def split: option.split)

lemma keeps_in_chain:
  assumes "keeps_in m" and "\<And>x. keeps_in (k x)"
  shows "keeps_in (chain m k)"
  unfolding keeps_in_def
proof
  fix w
  obtain w' r where m: "m w = (w', r)" by fastforce
  then have "pub2in w' = pub2in w" using assms(1) by (metis fst_conv keeps_in_def)
  then show "pub2in (fst (chain m k w)) = pub2in w" using assms(2) m by (cases r) (auto simp: chain_def keeps_in_def)
qed

lemma keeps_in_case_prod: "(\<And>x y. keeps_in (f x y)) \<Longrightarrow> keeps_in (case p of (x, y) \<Rightarrow> f x y)"
  by (cases p) simp

lemma keeps_in_writeMessage: "keeps_in (svc_writeMessage i msg)"
proof -
  define fin :: "write_ret \<Rightarrow> (message \<times> int \<times> verror option) act" where
    "fin = (\<lambda>(s, m, err) w.
       let w = set_svc i (\<lambda>v. v\<lparr>outtmp := w_tmp s\<rparr>) (w\<lparr>gPacketId := w_gid s\<rparr>);
           w = (if err = None then set_svc i (\<lambda>v. v\<lparr>outStat := stat_increment (outStat v) m\<rparr>) w else w)
       in (w, Return (w_msg s, m, err)))"
  have "keeps_in (chain (on_out i panic f) fin)" for f :: "buffer \<Rightarrow> write_ret bop"
    by (rule keeps_in_chain)
      (auto simp: keeps_in_def fin_def Let_def on_buf_def panic_def pub2in_set_svc pub2in_simps split: option.split prod.split)
  then have "pub2in (fst (unlock_wmu i (chain (on_out i panic f) fin) w)) = pub2in w" for f w
    by (auto simp: keeps_in_def unlock_wmu_def pub2in_set_svc split: prod.split outcome.split) (metis fst_conv)+
  then have "keeps_in (\<lambda>w. if outb (vheap w i) = None then (w, Return (msg, 0, Some VBufferNotReady))
       else if wmu (vheap w i) then (w, Stuck)
       else unlock_wmu i
         (chain (on_out i panic (buf_writeMessage \<lparr>w_gid = gPacketId w, w_msg = msg, w_tmp = outtmp (vheap w i)\<rparr> l)) fin)
         (set_svc i (\<lambda>v. v\<lparr>wmu := True\<rparr>) w))" for msg l
    by (simp add: keeps_in_def pub2in_set_svc)
  then show ?thesis
    unfolding svc_writeMessage_def fin_def by (intro keeps_in_chain keeps_in_basic keeps_in_case_prod)
qed

lemma keeps_in_publish: "keeps_in (svc_publish i pm DoneNil)"
proof -
  have q: "keeps_in (q_Wait i n m f)" if "n = QPub1ack \<or> n = QPub2out" for n m f
    using that by (auto simp: keeps_in_def q_Wait_def on_queue_def pub2in_simps
        intro!: pub2in_set_sess [THEN trans] split: option.split prod.split)
  have "keeps_in (wait_done i n m DoneNil)" if "n = QPub1ack \<or> n = QPub2out" for n m
    unfolding wait_done_def iface_of_def
    by (intro keeps_in_chain q [OF that] keeps_in_basic keeps_in_case_prod) (simp add: keeps_in_def pub2in_simps)
  then show ?thesis
    unfolding svc_publish_def
    by (auto intro!: keeps_in_chain keeps_in_writeMessage keeps_in_basic keeps_in_case_prod split: message.split option.split)
qed

lemma keeps_in_pub_loop: "keeps_in (pub_loop ss pm)"
proof (induction ss arbitrary: pm)
  case (Cons x ss)
  have "keeps_in (call_pub c pm)" for c pm
  proof -
    have "pub2in (fst (call_pub c pm w)) = pub2in w" for w
    proof (cases "pubs w c")
      case (Some f)
      have "keeps_in (chain (svc_publish j pm DoneNil) (\<lambda>(pm, _). ret pm))" for j
        by (intro keeps_in_chain keeps_in_publish keeps_in_case_prod keeps_in_basic)
      then show ?thesis using Some
        by (cases f) (simp_all add: call_pub_def keeps_in_def log_call_def pub2in_simps ret_def)
    qed (simp add: call_pub_def)
    then show ?thesis by (simp add: keeps_in_def)
  qed
  then show ?case using Cons by (cases x) (auto intro!: keeps_in_chain keeps_in_basic)
qed (simp add: keeps_in_basic)

lemma keeps_in_onPublish: "keeps_in (onPublish i pm)"
proof -
  have t: "keeps_in (topics_of i)" by (simp add: keeps_in_def topics_of_def opt_def panic_def ret_def split: option.split)
  have r: "keeps_in (do_Retain i pm)" for pm unfolding do_Retain_def
    by (rule keeps_in_chain [OF t]) (auto simp: keeps_in_def pub2in_simps split: option.split)
  have s: "keeps_in (do_Subscribers i pm)" for pm unfolding do_Subscribers_def
    by (intro keeps_in_chain [OF t] keeps_in_chain [OF keeps_in_basic(3)])
      (auto simp: keeps_in_def pub2in_set_svc split: option.split)
  have l: "keeps_in (\<lambda>w. pub_loop (vsubs (vheap w i)) pm w)" for pm
    using keeps_in_pub_loop by (simp add: keeps_in_def)
  show ?thesis unfolding onPublish_def
    by (auto intro!: keeps_in_chain r s l keeps_in_basic split: option.split)
qed

lemma keeps_in_D: "keeps_in m \<Longrightarrow> m w = (w', r) \<Longrightarrow> pub2in w' = pub2in w"
  by (metis fst_conv keeps_in_def)

section \<open>Every packet released\<close>

text \<open>No QoS 2 packet that was received is waiting for its PUBREL.\<close>

definition all_released :: "world \<Rightarrow> nat \<Rightarrow> bool" where
  "all_released w i \<longleftrightarrow>
     (\<exists>q. pub2in w i = Some q \<and> wf_ackqueue q \<and> contents q = [] \<and> State (ping q) \<noteq> PINGRESP)"

lemma all_released_same: "pub2in w' = pub2in w \<Longrightarrow> all_released w' i = all_released w i"
  by (simp add: all_released_def)

lemma pub2in_respond: "pub2in (fst (respond i m w)) = pub2in w"
proof -
  have "keeps_in (respond i m)"
    unfolding respond_def by (intro keeps_in_chain keeps_in_writeMessage keeps_in_case_prod keeps_in_basic)
  then show ?thesis by (simp add: keeps_in_def)
qed

text \<open>A PUBLISH that arrives twice is kept once.\<close>

lemma incoming_twice:
  assumes m: "received m p" "drop_bit 4 (hd p) = PUBLISH" "QoS m = Some QosExactlyOnce"
    and w: "all_released w i" "writable w i 8"
  obtains w1 w2 q where "processIncoming i (MPublish m) w = (w1, Return None)"
    "processIncoming i (MPublish m) w1 = (w2, Return None)" "pub2in w2 i = Some q" "wf_ackqueue q"
    "contents q = [waiting_publish (header_PacketId m) p]" "State (ping q) \<noteq> PINGRESP"
    "outq w2 i = outq w i @ pubrec_for (header_PacketId m) @ pubrec_for (header_PacketId m)"
    "writable w2 i (out_room w i - 8)" "undelivered i w w2"
proof -
  obtain q0 where q: "pub2in w i = Some q0" "wf_ackqueue q0" "contents q0 = []" "State (ping q0) \<noteq> PINGRESP"
    using w(1) by (auto simp: all_released_def)
  have w4: "writable w i 4" using w(2) by (simp add: writable_iff)
  have len: "length (contents q0) < 2 ^ 62" unfolding q(3) by simp
  from incoming_publish2 [OF m q(1,2) len w4] obtain w1 q1 where
    w1: "processIncoming i (MPublish m) w = (w1, Return None)" "pub2in w1 i = Some q1" "wf_ackqueue q1"
      "contents q1 = [waiting_publish (header_PacketId m) p]" "ping q1 = ping q0"
      "outq w1 i = outq w i @ pubrec_for (header_PacketId m)"
      "open_out w1 i" "out_room w1 i = out_room w i - 4" "undelivered i w w1"
    by (auto simp: q(3) ids_def)
  have len1: "length (contents q1) < 2 ^ 62" unfolding w1(4) by simp
  have room1: "writable w1 i 4" using w(2) w1(7,8) by (simp add: writable_iff)
  have in1: "header_PacketId m \<in> set (ids q1)" by (simp add: ids_def w1(4) waiting_publish_def)
  show ?thesis
  proof (rule incoming_publish2 [OF m w1(2,3) len1 room1], goal_cases)
    case (1 w2 q2)
    have "contents q2 = [waiting_publish (header_PacketId m) p]" using 1(4) in1 w1(4) by simp
    moreover have "State (ping q2) \<noteq> PINGRESP" using 1(5) w1(5) q(4) by simp
    moreover have "outq w2 i = outq w i @ pubrec_for (header_PacketId m) @ pubrec_for (header_PacketId m)"
      using 1(6) w1(6) by simp
    moreover have "writable w2 i (out_room w i - 8)" using 1(7,8) w1(8) by (simp add: writable_iff)
    ultimately show ?case
      by (rule that [OF w1(1) 1(1-3) _ _ _ _ undelivered_trans [OF w1(9) 1(9)]])
  qed
qed

text \<open>The PUBREL of the one packet that waits.\<close>

lemma incoming_release:
  assumes h: "ack_ready PUBREL h0" "puback_Decode NewPubrelMessage (Slice (ack_wire h0) sp) = Some (h, n, e)"
    and m: "publish_ready m0"
    and q: "pub2in w i = Some q" "wf_ackqueue q" "contents q = [waiting_publish (header_PacketId h0) (publish_wire m0)]"
      "State (ping q) \<noteq> PINGRESP"
  obtains w' mk where "processIncoming i (MPubrel h) w =
      chain (onPublish i mk) (\<lambda>_. respond i (pubcomp_for (header_PacketId h0))) w'"
    "received mk (publish_wire m0)" "publish_same m0 mk" "undelivered i w w'" "vheap w' = vheap w"
    "all_released (fst (processIncoming i (MPubrel h) w)) i"
proof -
  let ?id = "header_PacketId h0"
  let ?a = "(waiting_publish ?id (publish_wire m0))\<lparr>State := PUBREL, Ackbuf := ack_wire h0\<rparr>"
  have mk: "mark ?id PUBREL (ack_wire h0) (contents q) = [?a]" "cycle_done ?a"
    by (simp_all add: q(3) mark_def waiting_publish_def cycle_done_def)
  obtain w3 q3 where
    w3: "processIncoming i (MPubrel h) w = chain (acked_all i [?a]) (\<lambda>_. respond i (pubcomp_for ?id)) w3"
      "pub2in w3 i = Some q3" "wf_ackqueue q3" "contents q3 = []" "ping q3 = ping q" "undelivered i w w3" "vheap w3 = vheap w"
  proof (rule incoming_pubrel [OF h q(1,2,4)], goal_cases)
    case (1 w' q')
    then show ?case using mk by (intro 1(1) [of w' q']) simp_all
  qed
  obtain x where x: "received x (publish_wire m0)" "publish_same m0 x"
      "acked_all i [?a] w3 = chain (onPublish i x) (\<lambda>_. ret ()) w3"
    using released_once [OF m h(1), of i ?id w3] by blast
  have e: "processIncoming i (MPubrel h) w = chain (onPublish i x) (\<lambda>_. respond i (pubcomp_for ?id)) w3"
    unfolding w3(1) using x(3) by (auto simp: chain_def ret_def split: prod.splits outcome.splits)
  have "keeps_in (chain (onPublish i x) (\<lambda>_. respond i (pubcomp_for ?id)))"
    by (rule keeps_in_chain [OF keeps_in_onPublish]) (simp add: keeps_in_def pub2in_respond)
  then have "pub2in (fst (processIncoming i (MPubrel h) w)) = pub2in w3" by (simp add: e keeps_in_def)
  moreover have "all_released w3 i" using w3(2-5) q(4) by (simp add: all_released_def)
  ultimately have "all_released (fst (processIncoming i (MPubrel h) w)) i" using all_released_same by blast
  then show ?thesis by (rule that [OF e x(1,2) w3(6,7)])
qed

text \<open>A PUBREL when nothing waits is only answered.\<close>

lemma incoming_release_again:
  assumes h: "ack_ready PUBREL h0" "puback_Decode NewPubrelMessage (Slice (ack_wire h0) sp) = Some (h, n, e)"
    and "all_released w i"
  shows "all_released (fst (processIncoming i (MPubrel h) w)) i"
    "\<exists>w'. processIncoming i (MPubrel h) w = respond i (pubcomp_for (header_PacketId h0)) w' \<and> undelivered i w w' \<and>
      vheap w' = vheap w"
proof -
  obtain q where q: "pub2in w i = Some q" "wf_ackqueue q" "contents q = []" "State (ping q) \<noteq> PINGRESP"
    using assms(3) by (auto simp: all_released_def)
  obtain w' q' where w': "processIncoming i (MPubrel h) w = respond i (pubcomp_for (header_PacketId h0)) w'"
      "pub2in w' i = Some q'" "wf_ackqueue q'" "contents q' = []" "ping q' = ping q" "undelivered i w w'" "vheap w' = vheap w"
  proof (rule incoming_pubrel [OF h q(1,2,4)], goal_cases)
    case (1 w' q')
    then show ?case by (intro 1(1) [of w' q']) (simp_all add: q(3) mark_def)
  qed
  have "all_released w' i" using w'(2-5) q(4) by (simp add: all_released_def)
  then show "all_released (fst (processIncoming i (MPubrel h) w)) i"
    unfolding w'(1) using all_released_same [OF pub2in_respond] by blast
  show "\<exists>w'. processIncoming i (MPubrel h) w = respond i (pubcomp_for (header_PacketId h0)) w' \<and> undelivered i w w' \<and>
      vheap w' = vheap w"
    using w'(1,6,7) by blast
qed

section \<open>Delivery at QoS 2\<close>

lemma sess_of_same: "vsess (vheap w' i) = vsess (vheap w i) \<Longrightarrow> sess w' = sess w \<Longrightarrow> sess_of i w' = sess_of i w"
  by (simp add: sess_of_def split: option.split)

lemma publish_qos2:
  assumes m: "received m p" "drop_bit 4 (hd p) = PUBLISH" "QoS m = Some QosExactlyOnce" and w: "writable w j (int (length p))"
    and q: "sess_of j w = Some (k, s)" "Pub2out s = Some q" "wf_ackqueue q" "length (contents q) < 2 ^ 62"
  obtains w1 w' where "svc_publish j m DoneNil w = (w', Return (m, None))" "only_out j w w1" "outq w1 j = outq w j @ p"
    "vheap w' = vheap w1"
proof -
  obtain w1 x' g' dst where w1: "svc_writeMessage j (MPublish m) w = (w1, Return (x', int (length p), None))"
      "only_out j w w1" "writable w1 j (out_room w j - int (length p))" "outq w1 j = outq w j @ p"
      "out_room w1 j = out_room w j - int (length p)"
      "msg_Encode (gPacketId w) (MPublish m) dst = Some (((g', x'), wr p dst), int (length p), None)"
    using writeMessage_frame [OF received_encodes(1,2) [OF m(1)] w] by metis
  have x: "x' = MPublish m"
    using w1(6) m(1) by (auto simp: publish_Encode_def with_counter_def on_enc_def received_def encode_clean_def
        bind_eq_Some_conv split: if_splits)
  let ?w = "w1\<lparr>dones := dones w1 @ [DoneNil]\<rparr>"
  obtain q' where q': "Wait (gPacketId ?w) q (MPublish m) (Some (IFunc onCompleteFunc (length (dones w1)))) =
      Some ((gPacketId ?w, MPublish m), q', None)"
    using Wait_received [OF q(3) m(1-3) _ q(4)] by auto
  have "sess_of j ?w = sess_of j w"
    using only_out_frame(3,7) [OF w1(2)] by (intro sess_of_same) simp_all
  then have "q_Wait j QPub2out (MPublish m) (Some (IFunc onCompleteFunc (length (dones w1)))) ?w =
      (set_sess k (put_q QPub2out q') ?w, Return (MPublish m, None))"
    using q(1,2) q' by (simp add: q_Wait_def on_queue_def)
  then have "svc_publish j m DoneNil w = (set_sess k (put_q QPub2out q') ?w, Return (m, None))"
    using w1(1) x m(3) by (simp add: svc_publish_def wait_done_def iface_of_def chain_def ret_def)
  then show ?thesis by (rule that [OF _ w1(2,4)]) (simp add: set_sess_def)
qed

text \<open>A packet for one subscription, of another service, is written to it once.\<close>

lemma onPublish_qos2:
  assumes m: "received m p" "drop_bit 4 (hd p) = PUBLISH" "QoS m = Some QosExactlyOnce" "Retain m = Some False"
    and a: "vtopicsMgr (vheap w i) = Some a"
    and rs: "mem_Subscribers (theap (tops w) a) (topic m) QosExactlyOnce = Some (([IVal onPublishPtr c], qs), None)"
    and j: "pubs w c = Some (PubService j)" "j \<noteq> i" "writable w j (int (length p))"
    and q: "sess_of j w = Some (k, s)" "Pub2out s = Some q" "wf_ackqueue q" "length (contents q) < 2 ^ 62"
  obtains w' m' where "onPublish i m w = (w', Return (m', None))" "outq w' j = outq w j @ unretained p"
    "outq w' i = outq w i" "writable w' i n = writable w i n"
proof -
  define w1 where "w1 = set_svc i (\<lambda>v. v\<lparr>vsubs := [IVal onPublishPtr c], vqoss := qs\<rparr>) w"
  obtain m' where m': "SetRetain m False = Some m'" "received m' (unretained p)" "QoS m' = QoS m"
    using received_SetRetain [OF m(1)] by blast
  obtain b r where p: "p = b # r" using m(1) by (auto simp: received_def neq_Nil_conv)
  have s: "do_Subscribers i m w = (w1, Return None)"
    using m(3) a rs by (simp add: do_Subscribers_def topics_of_def mgr_Subscribers_def chain_def ret_def ValidQos_def w1_def)
  have l: "length (unretained p) = length p" "drop_bit 4 (hd (unretained p)) = PUBLISH"
    using m(2) flag_bits [of b] by (simp_all add: p unretained_def)
  have o: "writable w1 j (int (length (unretained p)))" "sess_of j w1 = Some (k, s)"
    using j(2,3) q(1) sess_of_same [of w1 j w] by (simp_all add: w1_def writable_def l set_svc_def)
  have mq: "QoS m' = Some QosExactlyOnce" using m'(3) m(3) by simp
  obtain w2 w' where w': "svc_publish j m' DoneNil w1 = (w', Return (m', None))" "only_out j w1 w2"
      "outq w2 j = outq w1 j @ unretained p" "vheap w' = vheap w2"
    by (rule publish_qos2 [OF m'(2) l(2) mq o q(2-4)])
  have "onPublish i m w = (w', Return (m', None))"
    using m(4) s m'(1) w'(1) j(1) by (simp add: onPublish_def chain_def ret_def w1_def call_pub_def set_svc_def)
  moreover have "vheap w' i = vheap w1 i" using only_out_frame(1) [OF w'(2), of i] j(2) w'(4) by simp
  ultimately show ?thesis
    using w'(3,4) j(2) by (intro that [of w' m']) (simp_all add: outq_def writable_def w1_def)
qed

end
