(* ===== verification/Svc_Handshake.thy ===== *)
theory Svc_Handshake imports Svc_Server Svc_Qos2 begin

text \<open>
  Packets read from the connection itself, whatever the pieces its \<open>Read\<close>s give, and the two ends of a service's
  life: who gets one, and how a PINGRESP ends one.
\<close>

section \<open>Reading in pieces\<close>

definition chunk_bytes :: "chunks \<Rightarrow> bytes" where
  "chunk_bytes cs = concat (map fst cs)"

definition errorless :: "chunks \<Rightarrow> bool" where
  "errorless cs \<longleftrightarrow> (\<forall>c \<in> set cs. snd c = None)"

lemma conn_Read_bytes:
  assumes "errorless cs" and "chunk_bytes cs \<noteq> []"
  obtains cs' p where "conn_Read cs k = (cs', Return (p, None))" "chunk_bytes cs = p @ chunk_bytes cs'" "errorless cs'"
    "length p \<le> k"
proof (cases cs)
  case Nil
  then show ?thesis using assms(2) by (simp add: chunk_bytes_def)
next
  case (Cons c cs1)
  obtain p where p: "c = (p, None)" using assms(1) Cons by (cases c) (simp add: errorless_def)
  show ?thesis
  proof (cases "length p > k")
    case True
    then show ?thesis
      using that [of "(drop k p, None) # cs1" "take k p"] assms(1)
      by (simp add: Cons p chunk_bytes_def errorless_def flip: append_assoc)
  next
    case False
    then show ?thesis using that [of cs1 p] assms(1) by (simp add: Cons p chunk_bytes_def errorless_def)
  qed
qed

lemma header_loop_pieces:
  assumes "length (uvarint_bytes n) \<le> 4" and "h # uvarint_bytes n = buf @ u" and "u \<noteq> []"
    and "errorless cs" and "chunk_bytes cs = u @ rest"
  shows "\<exists>cs'. header_loop cs buf = (cs', Return (h # uvarint_bytes n, None)) \<and> errorless cs' \<and> chunk_bytes cs' = rest"
  using assms(2-)
proof (induction cs buf arbitrary: u rule: header_loop.induct)
  case (1 cs buf)
  have "length buf + length u = Suc (length (uvarint_bytes n))" using arg_cong [OF 1(3), of length] by simp
  then have lb: "\<not> 5 < length buf" using assms(1) 1(4) by (cases u) auto
  have "chunk_bytes cs \<noteq> []" using 1(4,6) by simp
  then obtain cs' p where r: "conn_Read cs 1 = (cs', Return (p, None))" "chunk_bytes cs = p @ chunk_bytes cs'" "errorless cs'"
      "length p \<le> 1"
    using conn_Read_bytes [OF 1(5), of 1] by metis
  show ?case
  proof (cases p)
    case Nil
    have "chunk_bytes cs' = u @ rest" using r(2) Nil 1(6) by simp
    then show ?thesis
      using "1.IH"(1) [OF lb r(1) [symmetric] refl refl refl Nil 1(3,4) r(3)] r(1) lb Nil by (subst header_loop.simps) simp
  next
    case (Cons x p')
    then have p: "p = [x]" using r(4) by simp
    obtain u' where u: "u = x # u'" "chunk_bytes cs' = u' @ rest" using r(2) 1(4,6) p by (cases u) auto
    have hd: "h # uvarint_bytes n = (buf @ [x]) @ u'" using 1(3) u(1) by simp
    have cont: "x \<ge> 0x80 \<longleftrightarrow> u' \<noteq> []" if "buf \<noteq> []"
    proof -
      obtain b bs where b: "buf = b # bs" using \<open>buf \<noteq> []\<close> by (cases buf) simp_all
      have "uvarint_bytes n = bs @ x # u'" using hd b by simp
      then show ?thesis using uvarint_cont [of "length bs" n] by (simp add: nth_append)
    qed
    show ?thesis
    proof (cases "u' = []")
      case True
      then have "buf \<noteq> []" using hd uvarint_bytes_pos [of n] by (cases buf) auto
      then have "header_loop cs buf = (cs', Return (h # uvarint_bytes n, None))"
        using r(1) lb p cont hd True by (subst header_loop.simps) (simp add: not_le)
      then show ?thesis using r(3) u(2) True by simp
    next
      case False
      have nl: "\<not> (1 < length (buf @ [x]) \<and> x < 0x80)" using cont False by (cases buf) auto
      then have "header_loop cs buf = header_loop cs' (buf @ [x])" using r(1) lb p by (subst header_loop.simps) auto
      then show ?thesis
        using "1.IH"(2) [OF lb r(1) [symmetric] refl refl refl p nl hd False r(3) u(2)] by simp
    qed
  qed
qed

lemma body_loop_pieces:
  assumes "errorless cs" and "chunk_bytes cs = u @ rest" and "length u = k"
  shows "\<exists>cs'. body_loop cs buf k = (cs', Return (buf @ u, None)) \<and> errorless cs' \<and> chunk_bytes cs' = rest"
  using assms
proof (induction cs buf k arbitrary: u rule: body_loop.induct)
  case (1 cs buf k)
  show ?case
  proof (cases "k = 0")
    case True
    then show ?thesis using 1 by (subst body_loop.simps) simp
  next
    case False
    then have "chunk_bytes cs \<noteq> []" using 1(3,4) by auto
    then obtain cs' p where r: "conn_Read cs k = (cs', Return (p, None))" "chunk_bytes cs = p @ chunk_bytes cs'" "errorless cs'"
        "length p \<le> k"
      using conn_Read_bytes [OF 1(2), of k] by metis
    have p: "p = take (length p) u" "chunk_bytes cs' = drop (length p) u @ rest"
      using r(2,4) 1(3,4) by (simp_all add: append_eq_append_conv_if split: if_splits)
    have "\<exists>cs''. body_loop cs' (buf @ p) (k - length p) = (cs'', Return ((buf @ p) @ drop (length p) u, None)) \<and>
        errorless cs'' \<and> chunk_bytes cs'' = rest"
      by (rule "1.IH" [OF False r(1) [symmetric] refl refl refl r(3) p(2)]) (simp add: 1(4))
    moreover have "(buf @ p) @ drop (length p) u = buf @ u" using p(1) by (metis append.assoc append_take_drop_id)
    ultimately show ?thesis using r(1) False by (subst body_loop.simps) simp
  qed
qed

lemma getMessageBuffer_frame:
  assumes "is_frame t p" and "errorless cs" and "chunk_bytes cs = p @ rest"
  shows "\<exists>cs'. chunks_getMessageBuffer cs = (cs', Return (p, None)) \<and> errorless cs' \<and> chunk_bytes cs' = rest"
proof -
  obtain h body where w: "p = (h # uvarint_bytes (length body)) @ body" "length body \<le> 268435455"
    using assms(1) by (auto simp: is_frame_def hdr_wire_def)
  have l: "length (uvarint_bytes (length body)) \<le> 4" using length_uvarint_bytes_cases [OF w(2)] by simp
  obtain c1 where c1: "header_loop cs [] = (c1, Return (h # uvarint_bytes (length body), None))" "errorless c1"
      "chunk_bytes c1 = body @ rest"
    using header_loop_pieces [OF l, of h "[]" _ cs "body @ rest"] assms(2,3) w(1) by auto
  obtain c2 where c2: "body_loop c1 (h # uvarint_bytes (length body)) (length body) = (c2, Return (p, None))" "errorless c2"
      "chunk_bytes c2 = rest"
    using body_loop_pieces [OF c1(2,3) refl, of "h # uvarint_bytes (length body)"] w(1) by auto
  have u: "Uvarint (uvarint_bytes (length body)) = (of_nat (length body), int (length (uvarint_bytes (length body))))"
    using Uvarint_bytes [of "length body" "[]"] w(2) by simp
  have s: "unat (of_nat (length body) :: 64 word) = length body" using w(2) by (simp add: unat_of_nat_64)
  then have "sint (of_nat (length body) :: 64 word) = int (length body)"
    using w(2) sint_small [of "of_nat (length body)"] by simp
  then show ?thesis using c1(1) c2 u s by (simp add: chunks_getMessageBuffer_def)
qed

section \<open>The gate\<close>

lemma chain_ReturnE:
  assumes "chain m k w = (w', Return y)"
  obtains x w1 where "m w = (w1, Return x)" "k x w1 = (w', Return y)"
  using assms by (auto simp: chain_def split: prod.splits outcome.splits)

lemma refuse_eq: "refuse k e w = (close_conn k w, Return (None, Some e))"
  by (simp add: refuse_def ret_def)

lemma conn_writeMessage_ready:
  assumes "msg_ready m" and "\<not> cclosed (conns w k)"
  obtains m' g where "conn_writeMessage (Some k) m w =
    (w\<lparr>gPacketId := g, conns := (conns w)(k := (conns w k)\<lparr>cout := cout (conns w k) @ msg_wire m\<rparr>)\<rparr>, Return (m', None))"
proof -
  obtain x l buf g m' n where s: "msg_Len m = Some (x, l)" "make_bytes l = Some buf"
      "msg_Encode (gPacketId w) x buf = Some (((g, m'), msg_wire m), n, None)"
    using msg_marshal [OF assms(1), of "gPacketId w"] by (auto simp: marshal_def bind_eq_Some_conv drop_counter_def)
  show ?thesis
    using assms(2) s
    by (intro that [of g m']) (simp add: conn_writeMessage_def writeMessageBuffer_def chain_def ret_def modify_def)
qed

text \<open>The CONNACK of a refusal: no flags, and the code.\<close>

lemma refusal_ready:
  assumes "code_Valid c"
  shows "msg_ready (MConnack (SetSessionPresent (SetReturnCode NewConnackMessage c) False))"
    "msg_wire (MConnack (SetSessionPresent (SetReturnCode NewConnackMessage c) False)) = [0x20, 2, 0, c]"
proof -
  let ?h = "\<lparr>remlen = 0, mtypeflags = Own [], packetId = Own [], dbuf = exact [], dirty = False, sessionPresent = False, returnCode = 0\<rparr>"
  have nc: "NewConnackMessage = ?h\<lparr>mtypeflags := Own [push_bit 4 CONNACK OR DefaultFlags CONNACK], dirty := True\<rparr>"
    unfolding NewConnackMessage_def by (rule SetType_zero) (simp_all add: type_Valid_def)
  have m: "SetSessionPresent (SetReturnCode NewConnackMessage c) False =
      ?h\<lparr>mtypeflags := Own [0x20], dirty := True, returnCode := c\<rparr>"
    unfolding nc by (simp add: SetSessionPresent_def SetReturnCode_def DefaultFlags_def)
  show "msg_ready (MConnack (SetSessionPresent (SetReturnCode NewConnackMessage c) False))"
    using assms unfolding m by (simp add: connack_ready_def typed_def type_byte_def DefaultFlags_def)
  show "msg_wire (MConnack (SetSessionPresent (SetReturnCode NewConnackMessage c) False)) = [0x20, 2, 0, c]"
    unfolding m by (simp add: connack_wire_def type_byte_def hdr_wire_def uvarint_bytes_small code_Value_def)
qed

lemma refuse_with_written:
  assumes "\<not> cclosed (conns w k)" and "code_Valid c"
  obtains g where "refuse_with k c e w =
    (close_conn k (w\<lparr>gPacketId := g, conns := (conns w)(k := (conns w k)\<lparr>cout := cout (conns w k) @ [0x20, 2, 0, c]\<rparr>)\<rparr>),
     Return (None, Some e))"
proof -
  obtain m' g where "conn_writeMessage (Some k) (MConnack (SetSessionPresent (SetReturnCode NewConnackMessage c) False)) w =
    (w\<lparr>gPacketId := g, conns := (conns w)(k := (conns w k)\<lparr>cout := cout (conns w k) @ [0x20, 2, 0, c]\<rparr>)\<rparr>, Return (m', None))"
    by (rule conn_writeMessage_ready [OF refusal_ready(1) [OF assms(2)] assms(1), unfolded refusal_ready(2) [OF assms(2)]])
  then show ?thesis by (intro that [of g]) (simp add: refuse_with_def chain_def refuse_eq)
qed

text \<open>Whoever gets a service has been accepted by the authenticator; whoever is refused gets the code, and nothing else changes.\<close>

lemma accept_closed: "accept_client k s rnd req w = (w', Return (Some i, e)) \<Longrightarrow> e = None"
  unfolding accept_client_def Let_def
  by (auto elim!: chain_ReturnE simp: refuse_eq ret_def panic_def split: option.splits)

lemma handleConnection_accepts:
  assumes "handleConnection auths other rnd (Some k) s w = (w', Return (s', Some i, e))"
  shows "e = None \<and> (\<exists>w1 req a. getConnectMessage (Some k) w = (w1, Return (Some req, None)) \<and> sauthMgr s' = Some a \<and>
    auth_Authenticate other a (username req) (password req) = None \<and> accept_client k s' rnd req w1 = (w', Return (Some i, None)))"
proof -
  obtain s1 where s1: "srv_checkConfiguration auths w s = (s1, None)"
    using assms by (auto simp: handleConnection_def refuse_eq chain_def ret_def split: option.splits prod.splits)
  show ?thesis
    using assms accept_closed
    by (auto simp: handleConnection_def s1 refuse_with_def refuse_eq ret_def panic_def elim!: chain_ReturnE
        split: option.splits prod.splits verror.splits merror.splits)
qed

text \<open>The authenticator of a server whose configuration succeeded.\<close>

lemma checkConfiguration_auth:
  assumes "srv_checkConfiguration auths w s = (s', None)"
  shows "if configured s then s' = s
    else \<exists>a. sauthMgr s' = Some a \<and> auths (if sAuthenticator s = [] then ''mockSuccess'' else sAuthenticator s) = Some a"
  using assms
  by (auto simp: srv_checkConfiguration_def srv_defaults_def auth_NewManager_def Let_def split: if_splits option.splits sum.splits)

lemma handleConnection_unconfigured:
  assumes "srv_checkConfiguration auths w s = (s', Some er)"
  shows "handleConnection auths other rnd (Some k) s w = (close_conn k w, Return (s', None, Some er))"
  using assms by (simp add: handleConnection_def chain_def refuse_eq ret_def)

lemma handleConnection_undecodable:
  assumes "srv_checkConfiguration auths w s = (s', None)" and "getConnectMessage (Some k) w = (w1, Return (r, Some er))"
    and "\<forall>c. er \<noteq> VMsg (EConnack c)"
  shows "handleConnection auths other rnd (Some k) s w = (close_conn k w1, Return (s', None, Some er))"
  using assms by (cases er; cases r) (auto simp: handleConnection_def chain_def refuse_eq ret_def split: merror.split)

lemma handleConnection_refused:
  assumes "srv_checkConfiguration auths w s = (s', None)" and "getConnectMessage (Some k) w = (w1, Return (Some req, None))"
    and "sauthMgr s' = Some a" and "auth_Authenticate other a (username req) (password req) = Some er"
    and "\<not> cclosed (conns w1 k)"
  shows "\<exists>w'. handleConnection auths other rnd (Some k) s w = (w', Return (s', None, Some er)) \<and>
    cout (conns w' k) = cout (conns w1 k) @ [0x20, 2, 0, 4] \<and> cclosed (conns w' k) \<and>
    svcs w' = svcs w1 \<and> vheap w' = vheap w1 \<and> sess w' = sess w1 \<and> tops w' = tops w1"
proof -
  have "code_Valid ErrBadUsernameOrPassword" by (simp add: code_Valid_def)
  from refuse_with_written [OF assms(5) this, of er] obtain g where
    g: "refuse_with k ErrBadUsernameOrPassword er w1 =
      (close_conn k (w1\<lparr>gPacketId := g, conns := (conns w1)(k := (conns w1 k)\<lparr>cout := cout (conns w1 k) @ [0x20, 2, 0, 4]\<rparr>)\<rparr>),
       Return (None, Some er))" by blast
  have "handleConnection auths other rnd (Some k) s w =
      (close_conn k (w1\<lparr>gPacketId := g, conns := (conns w1)(k := (conns w1 k)\<lparr>cout := cout (conns w1 k) @ [0x20, 2, 0, 4]\<rparr>)\<rparr>),
       Return (s', None, Some er))"
    using assms(1-4) g by (simp add: handleConnection_def chain_def ret_def)
  then show ?thesis by (simp add: close_conn_def)
qed

lemma handleConnection_service:
  assumes "handleConnection auths other rnd (Some k) s w = (w', Return (s', Some i, e))"
  shows "e = None \<and> srv_checkConfiguration auths w s = (s', None) \<and>
    (\<exists>w1 req a. getConnectMessage (Some k) w = (w1, Return (Some req, None)) \<and> sauthMgr s' = Some a \<and>
      (if configured s then s' = s else auths (if sAuthenticator s = [] then ''mockSuccess'' else sAuthenticator s) = Some a) \<and>
      auth_Authenticate other a (username req) (password req) = None)"
proof -
  have c: "srv_checkConfiguration auths w s = (s', None)"
    using assms by (auto simp: handleConnection_def refuse_eq ret_def elim!: chain_ReturnE split: prod.splits option.splits)
  show ?thesis
    using handleConnection_accepts [OF assms] checkConfiguration_auth [OF c] c by (cases "configured s") auto
qed

text \<open>The CONNACK of an acceptance, and what is left of it when it is written.\<close>

lemma accepted_connack:
  assumes "\<not> cclosed (conns w k)"
  obtains h g where "conn_writeMessage (Some k) (MConnack (SetReturnCode (SetSessionPresent NewConnackMessage False) ConnectionAccepted)) w =
    (w\<lparr>gPacketId := g, conns := (conns w)(k := (conns w k)\<lparr>cout := cout (conns w k) @ [0x20, 2, 0, 0]\<rparr>)\<rparr>, Return (MConnack h, None))"
proof -
  let ?m = "MConnack (SetReturnCode (SetSessionPresent NewConnackMessage False) ConnectionAccepted)"
  have "SetReturnCode (SetSessionPresent NewConnackMessage False) c = SetSessionPresent (SetReturnCode NewConnackMessage c) False" for c
    by (simp add: SetReturnCode_def SetSessionPresent_def)
  moreover have "code_Valid ConnectionAccepted" by (simp add: code_Valid_def)
  ultimately have r: "msg_ready ?m" "msg_wire ?m = [0x20, 2, 0, 0]"
    using refusal_ready [of ConnectionAccepted] by simp_all
  obtain m' g where c: "conn_writeMessage (Some k) ?m w =
    (w\<lparr>gPacketId := g, conns := (conns w)(k := (conns w k)\<lparr>cout := cout (conns w k) @ [0x20, 2, 0, 0]\<rparr>)\<rparr>, Return (m', None))"
    by (rule conn_writeMessage_ready [OF r(1) assms, unfolded r(2)])
  have "\<exists>h. m' = MConnack h"
    using c by (auto simp: conn_writeMessage_def on_len_def on_enc_def with_counter_def ret_def panic_def modify_def opt_def
        elim!: chain_ReturnE split: prod.splits option.splits)
  then show ?thesis using c that by blast
qed

text \<open>A service with a new session starts: it has no topics to subscribe to.\<close>

lemma svc_start_ready:
  assumes "vsess (vheap w i) = Some p" and "\<not> vclient (vheap w i)" and "sheap (sess w) ! p = s" and "p < length (sheap (sess w))"
    and "initted s" and "sess_topics s = []"
  shows "\<exists>w'. svc_start i w = (w', Return None)"
proof -
  obtain b where b: "newBuffer 262144 = Inr b" by (simp add: newBuffer_def powerOfTwo64_def Let_def)
  define w1 where "w1 = set_svc i (\<lambda>v. v\<lparr>inb := Some b, outb := Some b\<rparr>) w"
  define w2 where "w2 = w1\<lparr>pubs := (pubs w1)(onpub (vheap w1 i) := Some (PubService i))\<rparr>"
  have "sess_of i w2 = Some (p, s)" using assms(1,3,4) by (simp add: sess_of_def w2_def w1_def set_svc_def)
  then have "on_session i (\<lambda>s. (s, sess_Topics s)) w2 = (set_sess p (\<lambda>_. s) w2, Return ([], [], None))"
    using assms(5,6) by (simp add: on_session_def sess_Topics_def)
  moreover have "\<not> vclient (vheap w1 i)" using assms(2) by (simp add: w1_def)
  ultimately show ?thesis
    using b by (simp add: svc_start_def chain_def modify_def ret_def flip: w1_def w2_def)
qed

text \<open>A new client that asks for a clean session gets its service.\<close>

lemma accept_client_ready:
  assumes req: "connect_carries req m0" "keepAlive req \<noteq> 0" "CleanSession req" "clientId m0 \<noteq> []"
    and s: "ssessMgr s = Some a" and k: "\<not> cclosed (conns w k)"
  shows "\<exists>w' i. accept_client k s rnd req w = (w', Return (Some i, None))"
proof -
  have cid: "clientId req = clientId m0" using req(1) by (simp add: connect_carries_def)
  define i where "i = unat (gsvcid w + 1)"
  define v where "v = new_service (gsvcid w + 1) False (Some k) (uint (keepAlive req)) (sConnectTimeout s) (sAckTimeout s)
             (sTimeoutRetries s) (ssessMgr s) (stopicsMgr s) (npubs w)"
  define w1 where "w1 = w\<lparr>pubs := (pubs w)(npubs w := None), npubs := npubs w + 1, gsvcid := gsvcid w + 1, vheap := (vheap w)(i := v)\<rparr>"
  have 1: "alloc_service (\<lambda>g. new_service g False (Some k) (uint (keepAlive req)) (sConnectTimeout s) (sAckTimeout s)
             (sTimeoutRetries s) (ssessMgr s) (stopicsMgr s)) w = (w1, Return i)"
    by (simp add: alloc_service_def new_cell_def chain_def w1_def v_def i_def Let_def)
  have v1: "vheap w1 i = v" "vsess v = None" "\<not> vclient v" "onpub v = npubs w"
    by (simp_all add: w1_def v_def new_service_def)
  have "\<not> initted (new_session (clientId req))" by (simp add: new_session_def)
  then obtain m' s' where s': "sess_Init req (new_session (clientId req)) = Some ((m', s'), None)" "initted s'" "sess_topics s' = []"
    using Init_ready [OF req(1)] by metis
  obtain sw p where p: "smgr_New (sess w1) a rnd (clientId req) = (sw, p)" "sheap sw ! p = new_session (clientId req)" "p < length (sheap sw)"
    using req(4) by (auto simp: smgr_New_def prov_New_def Let_def cid)
  define w2 where "w2 = set_sess p (\<lambda>_. s') (set_svc i (\<lambda>v. v\<lparr>vsess := Some p\<rparr>) (w1\<lparr>sess := sw\<rparr>))"
  have 2: "srv_getSession i a rnd req NewConnackMessage w1 = (w2, Return ((m', SetSessionPresent NewConnackMessage False), None))"
    using req(3,4) p s'(1) v1(1,2)
    by (simp add: srv_getSession_def named_client_def cid new_client_session_def Let_def w2_def chain_def ret_def)
  have k2: "\<not> cclosed (conns w2 k)" using k by (simp add: w2_def w1_def set_sess_def set_svc_def)
  obtain h g where h: "conn_writeMessage (Some k) (MConnack (SetReturnCode (SetSessionPresent NewConnackMessage False) ConnectionAccepted)) w2 =
      (w2\<lparr>gPacketId := g, conns := (conns w2)(k := (conns w2 k)\<lparr>cout := cout (conns w2 k) @ [0x20, 2, 0, 0]\<rparr>)\<rparr>, Return (MConnack h, None))"
    using accepted_connack [OF k2] by blast
  define w3 where "w3 = w2\<lparr>gPacketId := g, conns := (conns w2)(k := (conns w2 k)\<lparr>cout := cout (conns w2 k) @ [0x20, 2, 0, 0]\<rparr>)\<rparr>"
  have v3: "vsess (vheap w3 i) = Some p" "\<not> vclient (vheap w3 i)" "sheap (sess w3) ! p = s'" "p < length (sheap (sess w3))"
    using p(3) v1 by (simp_all add: w3_def w2_def set_sess_def set_svc_def)
  obtain x rl where x: "msg_Len (MConnect m') = Some (x, rl)" by (cases "connect_Len m'") (simp add: on_len_def)
  obtain y al where y: "msg_Len (MConnack h) = Some (y, al)" by (cases "connack_Len h") (simp add: on_len_def)
  define w4 where "w4 = set_svc i (\<lambda>v. v\<lparr>inStat := stat_increment (inStat v) rl, outStat := stat_increment (outStat v) al\<rparr>) w3"
  have v4: "vsess (vheap w4 i) = Some p" "\<not> vclient (vheap w4 i)" "sheap (sess w4) ! p = s'" "p < length (sheap (sess w4))"
    using v3 by (simp_all add: w4_def set_svc_def)
  obtain w5 where st: "svc_start i w4 = (w5, Return None)" using svc_start_ready [OF v4 s'(2,3)] by blast
  show ?thesis
    using req(2) s 1 2 h x y st
    by (simp add: accept_client_def chain_def ret_def modify_def flip: w3_def w4_def)
qed

text \<open>
  The queue entry of a PINGREQ keeps no bytes, so decoding what it keeps panics when the PINGRESP completes it.
\<close>

lemma kept_nothing: "decode_kept PINGREQ [] = panic"
proof -
  have "header_decode NewPingreqMessage (exact []) = None"
    by (simp add: header_decode_def exact_def slice_range_def scap_def sfull_def)
  then show ?thesis by (simp add: decode_kept_def type_New_def on_dec_def disconnect_Decode_def fun_eq_iff panic_def)
qed

lemma pingresp_incoming:
  assumes "sess_of i w = Some (p, s)" and "Pingack s = Some q" and "wf_ackqueue q" and "Mtype (ping q) = PINGREQ"
    and "Msgbuf (ping q) = []" and "snd (header_Type h) = PINGRESP"
  obtains w' where "processIncoming i (MPingresp h) w = (w', Panic)" "vheap w' = vheap w" "conns w' = conns w" "calls w' = calls w"
proof -
  let ?q = "q\<lparr>ping := (ping q)\<lparr>State := PINGRESP\<rparr>\<rparr>"
  let ?w = "set_sess p (put_q QPingack ?q) w"
  have p: "vsess (vheap w i) = Some p" "p < length (sheap (sess w))" "s = sheap (sess w) ! p"
    using assms(1) by (auto simp: sess_of_def split: option.splits if_splits)
  have id: "w\<lparr>gPacketId := gPacketId w\<rparr> = w" for w :: world by simp
  have a: "q_Ack i QPingack (MPingresp h) w = (?w, Return (MPingresp h, None))"
    using assms by (simp add: q_Ack_def on_queue_def Ack_def id)
  have s': "sess_of i ?w = Some (p, s\<lparr>Pingack := Some ?q\<rparr>)" using p by (simp add: sess_of_def set_sess_def)
  obtain q' where q': "Acked ?q = Some (q', (ping q)\<lparr>State := PINGRESP\<rparr> # takeWhile cycle_done (contents q))"
    using Acked_law [of ?q] assms(3) by auto
  let ?w2 = "set_sess p (put_q QPingack q') ?w"
  have d: "q_Acked i QPingack ?w = (?w2, Return ((ping q)\<lparr>State := PINGRESP\<rparr> # takeWhile cycle_done (contents q)))"
    using s' q' by (simp add: q_Acked_def on_queue_def id chain_def ret_def)
  have "processAcked i QPingack ?w = (?w2, Panic)"
    using d assms(4,5) by (simp add: processAcked_def chain_def acked_one_def kept_nothing panic_def)
  then have "processIncoming i (MPingresp h) w = (?w2, Panic)" using a by (simp add: processIncoming_def chain_def)
  then show ?thesis by (rule that) (simp_all add: set_sess_def)
qed

lemma ping_sent:
  assumes "sess_of i w = Some (p, s)" and "Pingack s = Some q" and "wf_ackqueue q" and "writable w i 2"
  obtains w' q' s' where "svc_ping i onc w = (w', Return None)" "sess_of i w' = Some (p, s')" "Pingack s' = Some q'"
    "wf_ackqueue q'" "Mtype (ping q') = PINGREQ" "Msgbuf (ping q') = []" "calls w' = calls w" "conns w' = conns w"
    "\<exists>b tmp st. vheap w' i = (vheap w i)\<lparr>outb := b, outtmp := tmp, outStat := st\<rparr>" "outq w' i = outq w i @ [0xC0, 0]"
proof -
  have t: "typed PINGREQ NewPingreqMessage 0xC0" "dirty NewPingreqMessage" "remlen NewPingreqMessage = 0"
    using new_header_typed [of PINGREQ] by (simp_all add: NewPingreqMessage_def type_Valid_def DefaultFlags_def)
  then have r: "msg_ready (MPingreq NewPingreqMessage)" "msg_wire (MPingreq NewPingreqMessage) = [0xC0, 0]"
    using typed_type_byte [OF t(1)] by (simp_all add: bare_ready_def bare_wire_def hdr_wire_def uvarint_bytes_small)
  obtain x where x: "msg_Len (MPingreq NewPingreqMessage) = Some (x, int (length [0xC0 :: byte, 0]))" "encodes x [0xC0, 0]"
    using ready_encodes [OF r(1)] unfolding r(2) by auto
  have xc: "\<exists>h. x = MPingreq h" using x(1) by (auto simp: on_len_def split: prod.splits)
  have room: "writable w i (int (length [0xC0 :: byte, 0]))" using assms(4) by simp
  obtain w1 x' g' dst where
    w1: "svc_writeMessage i (MPingreq NewPingreqMessage) w = (w1, Return (x', int (length [0xC0 :: byte, 0]), None))" "only_out i w w1"
      "outq w1 i = outq w i @ [0xC0, 0]"
    and e: "msg_Encode (gPacketId w) x dst = Some (((g', x'), wr [0xC0, 0] dst), int (length [0xC0 :: byte, 0]), None)"
    by (rule writeMessage_frame [OF x room], rule that)
  obtain h where h: "x' = MPingreq h"
    using e xc by (auto simp: on_enc_def with_counter_def split: prod.splits)
  have id: "w\<lparr>gPacketId := gPacketId w\<rparr> = w" for w :: world by simp
  let ?w2 = "w1\<lparr>dones := dones w1 @ [onc]\<rparr>"
  let ?q = "q\<lparr>ping := nil_ackmsg\<lparr>Mtype := PINGREQ, State := RESERVED, OnComplete := Some (IFunc onCompleteFunc (length (dones w1)))\<rparr>\<rparr>"
  let ?w3 = "set_sess p (put_q QPingack ?q) ?w2"
  have p: "vsess (vheap w i) = Some p" "p < length (sheap (sess w))" "s = sheap (sess w) ! p"
    using assms(1) by (auto simp: sess_of_def split: option.splits if_splits)
  note F = only_out_frame [OF w1(2)]
  have s2: "sess_of i ?w2 = Some (p, s)" using p F(3) F(7) [of i] by (simp add: sess_of_def)
  have "svc_ping i onc w = (?w3, Return None)"
    using w1(1) s2 assms(2)
    by (simp add: svc_ping_def send_wait_def wait_done_def iface_of_def q_Wait_def on_queue_def Wait_def h chain_def ret_def id)
  moreover have "sess_of i ?w3 = Some (p, s\<lparr>Pingack := Some ?q\<rparr>)"
    using p F(3) F(7) [of i] by (simp add: sess_of_def set_sess_def)
  moreover have "\<exists>b tmp st. vheap ?w3 i = (vheap w i)\<lparr>outb := b, outtmp := tmp, outStat := st\<rparr>"
    using w1(2) by (fastforce simp: only_out_def set_sess_def)
  moreover have "conns ?w3 = conns w" "calls ?w3 = calls w" using w1(2) by (auto simp: only_out_def set_sess_def set_svc_def)
  moreover have "outq ?w3 i = outq w i @ [0xC0, 0]" using w1(3) by (simp add: outq_def set_sess_def)
  ultimately show ?thesis using assms(3) by (intro that [where w' = ?w3 and q' = ?q and s' = "s\<lparr>Pingack := Some ?q\<rparr>"]) (simp_all add: nil_ackmsg_def)
qed

text \<open>The processor of a service that waits for this PINGRESP panics on it, and stops the service.\<close>

lemma stop_closes:
  assumes "\<not> vclosed (vheap w i)" and "vconn (vheap w i) = Some k" and "wgStopped (vheap w i) \<noteq> 0"
  shows "\<exists>w' r. svc_stop i w = (w', r) \<and> vclosed (vheap w' i) \<and> cclosed (conns w' k) \<and> calls w' = calls w"
proof -
  have "\<exists>w' r. stop_begin i w = (w', r) \<and> vclosed (vheap w' i) \<and> cclosed (conns w' k) \<and> calls w' = calls w \<and>
      wgStopped (vheap w' i) = wgStopped (vheap w i)"
    using assms(1,2)
    by (auto simp: stop_begin_def on_buf_def close_conn_def set_svc_def chain_def modify_def panic_def ret_def
        split: option.splits prod.splits outcome.splits)
  then show ?thesis
    using assms(3)
    by (auto simp: svc_stop_def recovered_def stop_wait_def chain_def ret_def split: outcome.splits)
qed

lemma pingresp_kills:
  assumes s: "sess_of i w = Some (p, s)" "Pingack s = Some q" "wf_ackqueue q" "Mtype (ping q) = PINGREQ" "Msgbuf (ping q) = []"
    and b: "inb (vheap w i) = Some b" "ring_idle b" "unread b = msg_wire (MPingresp h) @ rest" "msg_ready (MPingresp h)"
    and v: "\<not> vclosed (vheap w i)" "vconn (vheap w i) = Some k" "wgStopped (vheap w i) = 3"
  shows "\<exists>w' r. svc_processor i sp w = Some (w', r) \<and> vclosed (vheap w' i) \<and> cclosed (conns w' k) \<and> calls w' = calls w"
proof -
  let ?l = "int (length (msg_wire (MPingresp h)))"
  obtain b1 where b1: "buf_peekMessageSize b = (b1, Return ((PINGRESP, ?l), None))" "ring_idle b1" "unread b1 = msg_wire (MPingresp h) @ rest"
    using peekMessageSize_frame [OF b(2,3) msg_frame [OF b(4)]] b(3) by auto
  obtain b2 m' where b2: "buf_peekMessage b1 sp PINGRESP ?l = (b2, Return (Some m', ?l, None))" "msg_same (MPingresp h) m'"
    using peekMessage_frame [OF b1(2,3) b(4), of sp] by auto
  obtain h' where h': "m' = MPingresp h'" "snd (header_Type h') = PINGRESP"
    using b2(2) by (auto simp: bare_same_def split: message.splits)
  define w2 where "w2 = set_svc i (\<lambda>v. v\<lparr>inb := Some b2, inStat := stat_increment (inStat v) ?l\<rparr>) w"
  have "sess_of i w2 = Some (p, s)" using s(1) by (auto simp: w2_def sess_of_def set_svc_def split: option.splits if_splits)
  then obtain w3 where w3: "processIncoming i (MPingresp h') w2 = (w3, Panic)" "vheap w3 = vheap w2" "conns w3 = conns w2"
      "calls w3 = calls w2"
    using pingresp_incoming [OF _ s(2-5) h'(2)] by blast
  have "processor_round i sp w = (w3, Panic)"
    using b(1) b1(1) b2(1) h'(1) w3(1)
    by (simp add: processor_round_def peekMessageSize_def peekMessage_def on_buf_def chain_def modify_def set_svc_twice w2_def)
  then have "svc_processor i sp w = Some (svc_stop i (set_svc i (\<lambda>v. v\<lparr>wgStopped := wgStopped v - 1\<rparr>) w3))"
    by (simp add: svc_processor_def processor_loop.simps goroutine_done_def)
  moreover have "wgStopped (vheap w3 i) = 3" "\<not> vclosed (vheap w3 i)" "vconn (vheap w3 i) = Some k" "calls w3 = calls w"
    using v w3 by (simp_all add: w2_def set_svc_def)
  ultimately show ?thesis
    using stop_closes [of "set_svc i (\<lambda>v. v\<lparr>wgStopped := wgStopped v - 1\<rparr>) w3" i k] by (auto simp: set_svc_def)
qed

end
