(* ===== verification/Props_Service.thy ===== *)
theory Props_Service imports Props_Topics Props_Sessions Props_Buffer Svc_Handshake begin

text \<open>
  The properties of the service: packets cross a ring buffer in order, the handshake lets in whom the
  authenticator accepts, a publication reaches the matching subscriptions, QoS 2 delivers once, and a
  PINGRESP ends the client that asked for it.
\<close>

section \<open>Packets\<close>

text \<open>
  C2: However packets are written into a ring buffer and taken off it, what comes out is what went in: the packets
  taken off are the first ones written, in order and with their fields unchanged, and the bytes waiting are
  those of the others. Each step succeeds: a packet that fits the free space is written, and one that is waiting is
  taken off.
\<close>

theorem packets_in_order:
  assumes "traffic b ws rs"
  shows "list_all2 msg_same (take (length rs) ws) rs \<and>
    unread b = concat (map msg_wire (drop (length rs) ws)) \<and>
    (length rs < length ws \<longrightarrow>
      (\<exists>b1 b2 b3 t n m. buf_peekMessageSize b = (b1, Return ((t, n), None)) \<and>
        buf_peekMessage b1 sp t n = (b2, Return (Some m, n, None)) \<and> msg_same (ws ! length rs) m \<and>
        buf_ReadCommit b2 n = (b3, Return (n, None)) \<and> traffic b3 ws (rs @ [m]))) \<and>
    (msg_ready x \<and> msg_kind x \<noteq> CONNACK \<and> msg_Len x = Some (w_msg s, l) \<and> l \<le> free_room b \<longrightarrow>
      (\<exists>b' s'. buf_writeMessage s l b = (b', Return (s', l, None)) \<and> traffic b' (ws @ [x]) rs))"
proof -
  obtain gone todo where g: "ws = gone @ todo" "list_all2 msg_same gone rs" "list_all msg_ready todo" "ring_idle b"
      "unread b = concat (map msg_wire todo)"
    using traffic_in_transit [OF assms] by (auto simp: in_transit_def)
  have l: "length gone = length rs" using g(2) by (rule list_all2_lengthD)
  have "\<exists>b1 b2 b3 t n m. buf_peekMessageSize b = (b1, Return ((t, n), None)) \<and>
        buf_peekMessage b1 sp t n = (b2, Return (Some m, n, None)) \<and> msg_same (ws ! length rs) m \<and>
        buf_ReadCommit b2 n = (b3, Return (n, None)) \<and> traffic b3 ws (rs @ [m])"
    if less: "length rs < length ws"
  proof -
    obtain y todo' where y: "todo = y # todo'" using less g(1) l by (cases todo) auto
    obtain b1 b2 b3 m where m: "buf_peekMessageSize b = (b1, Return ((msg_kind y, int (length (msg_wire y))), None))"
        "buf_peekMessage b1 sp (msg_kind y) (int (length (msg_wire y))) = (b2, Return (Some m, int (length (msg_wire y)), None))"
        "msg_same y m" "buf_ReadCommit b2 (int (length (msg_wire y))) = (b3, Return (int (length (msg_wire y)), None))"
      by (rule read_ready [OF g(4), of y "concat (map msg_wire todo')" sp]) (use g(3,5) y in simp_all)
    have "ws ! length rs = y" using g(1) y l by (simp add: nth_append)
    then show ?thesis using m traffic.taking [OF assms less m(1,2,4)] by blast
  qed
  moreover have "\<exists>b' s'. buf_writeMessage s l b = (b', Return (s', l, None)) \<and> traffic b' (ws @ [x]) rs"
    if x: "msg_ready x" "msg_kind x \<noteq> CONNACK" "msg_Len x = Some (w_msg s, l)" "l \<le> free_room b"
    using write_ready [OF g(4) x] traffic.sending [OF assms x] by blast
  ultimately show ?thesis using g l by auto
qed

lemma ex_idle: "\<exists>b. newBuffer 16384 = Inr b \<and> ring_idle b \<and> unread b = [] \<and> free_room b = 16384"
proof -
  obtain b where b: "newBuffer 16384 = Inr b" "bsize b = 16384" using ex_ring by blast
  then show ?thesis using newBuffer_ok [OF b(1)] by (simp add: ring_idle_def unread_def free_room_def)
qed

theorem packets_in_order_witness:
  "\<exists>b b' s' b1 b2 b3 t n m. newBuffer 16384 = Inr b \<and>
     buf_writeMessage \<lparr>w_gid = 0, w_msg = MPublish (ex_publish\<lparr>remlen := 9\<rparr>), w_tmp = []\<rparr> 11 b = (b', Return (s', 11, None)) \<and>
     buf_peekMessageSize b' = (b1, Return ((t, n), None)) \<and> buf_peekMessage b1 [] t n = (b2, Return (Some m, n, None)) \<and>
     msg_same (MPublish ex_publish) m \<and> buf_ReadCommit b2 n = (b3, Return (n, None)) \<and> unread b3 = []"
proof -
  let ?s = "\<lparr>w_gid = 0, w_msg = MPublish (ex_publish\<lparr>remlen := 9\<rparr>), w_tmp = []\<rparr>"
  obtain b where b: "newBuffer 16384 = Inr b" "free_room b = 16384" using ex_idle by blast
  have t0: "traffic b [] []" by (rule traffic.start [OF b(1)])
  have "msg_Len (MPublish ex_publish) = Some (w_msg ?s, 11)" using ex_publish_Len by simp
  then obtain b' s' where w: "buf_writeMessage ?s 11 b = (b', Return (s', 11, None))" "traffic b' [MPublish ex_publish] []"
    using packets_in_order [OF t0, of "[]" "MPublish ex_publish" ?s 11] ex_publish_ready b(2) by (auto simp del: msg_Len.simps)
  obtain b1 b2 b3 t n m where r: "buf_peekMessageSize b' = (b1, Return ((t, n), None))"
      "buf_peekMessage b1 [] t n = (b2, Return (Some m, n, None))" "msg_same (MPublish ex_publish) m"
      "buf_ReadCommit b2 n = (b3, Return (n, None))" "traffic b3 [MPublish ex_publish] [m]"
    using packets_in_order [OF w(2), of "[]", THEN conjunct2, THEN conjunct2, THEN conjunct1] by auto
  have "unread b3 = []" using packets_in_order [OF r(5)] by simp
  then show ?thesis using b(1) w(1) r(1-4) by blast
qed

text \<open>
  C36: Reading a packet from a connection gives exactly the packet's bytes, and leaves what follows, whatever
  pieces the connection delivers them in.
\<close>

theorem reading_any_pieces:
  assumes "msg_ready m" and "\<forall>c \<in> set cs. snd c = None" and "concat (map fst cs) = msg_wire m @ rest"
  shows "\<exists>cs'. chunks_getMessageBuffer cs = (cs', Return (msg_wire m, None)) \<and>
    (\<forall>c \<in> set cs'. snd c = None) \<and> concat (map fst cs') = rest"
  using getMessageBuffer_frame [OF msg_frame [OF assms(1)], of cs rest] assms(2,3)
  by (simp add: errorless_def chunk_bytes_def)

theorem reading_any_pieces_witness:
  "\<exists>cs'. chunks_getMessageBuffer [(take 1 (msg_wire (MPublish ex_publish)), None), ([], None),
       (drop 1 (msg_wire (MPublish ex_publish)) @ [7], None)] = (cs', Return (msg_wire (MPublish ex_publish), None)) \<and>
     (\<forall>c \<in> set cs'. snd c = None) \<and> concat (map fst cs') = [7]"
  by (rule reading_any_pieces [OF ex_publish_ready])
    (simp_all del: msg_wire.simps flip: append_assoc)

section \<open>Who is let in\<close>


text \<open>A world with services 0 and 1 alike, and the sender's own \<open>publish\<close> of service 1 in cell 0.\<close>

definition ex_service :: "buffer \<Rightarrow> service" where
  "ex_service b = (new_service 1 True (Some 0) 0 0 0 0 (Some 0) (Some 0) 0)\<lparr>inb := Some b, outb := Some b, vsess := Some 0, wgStopped := 3\<rparr>"

definition ex_world :: "chunks \<Rightarrow> buffer \<Rightarrow> session \<Rightarrow> mem_topics \<Rightarrow> world" where
  "ex_world cs b s t =
     \<lparr>gPacketId = 0, gsvcid = 0, tops = \<lparr>providers = Map.empty, theap = (\<lambda>_. t)\<rparr>,
      sess = \<lparr>sheap = [s], pheap = (\<lambda>_. []), sproviders = Map.empty\<rparr>,
      conns = (\<lambda>_. \<lparr>cin = cs, cout = [], cclosed = False\<rparr>), vheap = (\<lambda>_. ex_service b), svcs = [],
      pubs = [0 \<mapsto> PubService 1], npubs = 1, dones = [], calls = [], user_err = (\<lambda>_. None)\<rparr>"






section \<open>Delivery\<close>

text \<open>
  C3: A QoS 0 PUBLISH that arrives is appended, with the retain flag cleared and otherwise byte for byte, to the
  outgoing buffer of every service that \<open>Subscribers\<close> names, once for each time it is named, and to no other buffer.
\<close>

theorem publish_fans_out:
  assumes m: "publish_ready m0" "QoS m0 = Some QosAtMostOnce" "payload m0 \<noteq> []" "levels (topic m0) = Inr ls"
    and d: "publish_Decode NewPublishMessage (Slice (publish_wire m0) sp) = Some (m, n, e)"
    and a: "vtopicsMgr (vheap w i) = Some a" "mem_inv (theap (tops w) a)"
    and rs: "mem_Subscribers (theap (tops w) a) (topic m0) QosAtMostOnce = Some ((rs, qs), None)"
    and t: "\<forall>x \<in> set rs. sub_target w x \<noteq> None"
    and room: "\<forall>j. 0 < copies w rs j \<longrightarrow> writable w j (int (copies w rs j * length (publish_wire m0)))"
  shows "\<exists>w'. processIncoming i (MPublish m) w = (w', Return None) \<and>
    (\<forall>j. outq w' j = outq w j @ concat (replicate (copies w rs j) (unretained (publish_wire m0))))"
proof -
  note R = decoded_received [OF m(1) d]
  have "\<exists>w' m'. onPublish i m w = (w', Return (m', None)) \<and>
      (\<forall>j. outq w' j = outq w j @ concat (replicate (copies w rs j) (unretained (publish_wire m0))))"
    by (rule onPublish_copies [OF R(6,1) _ _ a _ _ t room]) (use R(2,4,5) m rs in simp_all)
  then show ?thesis using R(2) m(2) by (auto simp: processIncoming_def processPublish_def chain_def ret_def)
qed

definition ex_qos0 :: publish_message where
  "ex_qos0 = ex_publish\<lparr>mtypeflags := Own [0x31], packetId := Own []\<rparr>"

definition ex_subscribed :: mem_topics where
  "ex_subscribed =
     \<lparr>sroot = Some (SNode [] [] [([97], SNode [] [] [([98], SNode [IVal onPublishPtr 0] [1] [])])]), rroot = Some newRNode\<rparr>"

lemma ex_subscribed_inv: "mem_inv ex_subscribed"
proof -
  have "row_ok (at (SNode [] [] [([97], SNode [] [] [([98], SNode [IVal onPublishPtr 0] [1] [])])]) ls)" for ls
    by (cases ls; cases "tl ls"; cases "tl (tl ls)") auto
  then show ?thesis by (simp add: mem_inv_def ex_subscribed_def)
qed

lemma ex_qos0_ready: "publish_ready ex_qos0" "QoS ex_qos0 = Some 0" "payload ex_qos0 = [1, 2]" "topic ex_qos0 = [97, 47, 98]"
    "publish_wire ex_qos0 = [0x31, 7, 0, 3, 97, 47, 98, 1, 2]"
  by (simp_all add: publish_ready_def publish_body_ok_def ex_qos0_def ex_publish_def pub_typed_def type_byte_def
      qos_of_def ValidQos_def ValidTopic_def publish_size_def header_PacketId_def QoS_def header_Flags_def
      publish_wire_def hdr_wire_def uvarint_bytes_small lp_def pub_id_def put_be16_def)

theorem publish_fans_out_witness:
  "\<exists>b m n w'. publish_Decode NewPublishMessage (Slice (publish_wire ex_qos0) []) = Some (m, n, None) \<and>
     processIncoming 0 (MPublish m) (ex_world [] b (new_session []) ex_subscribed) = (w', Return None) \<and>
     outq w' 1 = [0x30, 7, 0, 3, 97, 47, 98, 1, 2] \<and> outq w' 0 = []"
proof -
  obtain b where b: "ring_idle b" "unread b = []" "free_room b = 16384" using ex_idle by blast
  obtain m n where m: "publish_Decode NewPublishMessage (Slice (publish_wire ex_qos0) []) = Some (m, n, None)"
    using publish.decode_wire [OF ex_qos0_ready(1), of "[]"] by auto
  define w where "w = ex_world [] b (new_session []) ex_subscribed"
  have w: "vtopicsMgr (vheap w 0) = Some 0" "theap (tops w) 0 = ex_subscribed" "pubs w 0 = Some (PubService 1)"
      "outq w j = []" "writable w j 16384" for j
    using b by (simp_all add: w_def ex_world_def ex_service_def new_service_def outq_def writable_def)
  have "wf_snode (SNode [] [] [([97], SNode [] [] [([98], SNode [IVal onPublishPtr 0] [1] [])])])"
    using ex_subscribed_inv by (simp add: mem_inv_def ex_subscribed_def)
  then have rs: "mem_Subscribers ex_subscribed [97, 47, 98] QosAtMostOnce = Some (([IVal onPublishPtr 0], [0]), None)"
    by (simp add: mem_Subscribers_def ex_subscribed_def ValidQos_def smatch_entries [OF _ lv_ab] matched_def
        receives_def [abs_def] entries.simps Let_def del: entries_SNode)
  have st: "sub_target w (IVal onPublishPtr 0) = Some 1" by (simp add: sub_target_def w(3))
  have c: "copies w [IVal onPublishPtr 0] j = (if j = 1 then 1 else 0)" for j by (simp add: copies_def st [simplified])
  have room: "\<forall>j. 0 < copies w [IVal onPublishPtr 0] j \<longrightarrow>
      writable w j (int (copies w [IVal onPublishPtr 0] j * length (publish_wire ex_qos0)))"
    using w(5) [of 1] by (auto simp: c [simplified] ex_qos0_ready(5) writable_iff)
  have "\<exists>w'. processIncoming 0 (MPublish m) w = (w', Return None) \<and>
      (\<forall>j. outq w' j = outq w j @ concat (replicate (copies w [IVal onPublishPtr 0] j) (unretained (publish_wire ex_qos0))))"
    by (rule publish_fans_out [OF ex_qos0_ready(1) _ _ _ m w(1) _ _ _ room])
      (simp_all add: ex_qos0_ready(2-4) lv_ab w(2) ex_subscribed_inv rs [simplified] st [simplified])
  then obtain w' where "processIncoming 0 (MPublish m) w = (w', Return None)" "outq w' 1 = [0x30, 7, 0, 3, 97, 47, 98, 1, 2]"
      "outq w' 0 = []"
    by (auto simp: c [simplified] w(4) ex_qos0_ready(5) unretained_def)
  then show ?thesis using m unfolding w_def by blast
qed

text \<open>
  C5: Exactly once. With no QoS 2 packet waiting, a QoS 2 PUBLISH that arrives twice is answered with two PUBRECs and
  delivered by neither; the PUBREL calls \<open>onPublish\<close> with the packet, once, and is then answered with a PUBCOMP.
  However that delivery ends, and whoever is subscribed (the publisher itself included), no packet is left waiting, and
  in every state in which none is waiting the PUBREL, however often it comes, is answered with a PUBCOMP, calls
  \<open>onPublish\<close> with nothing and leaves none waiting.
\<close>

theorem qos2_exactly_once:
  assumes m: "publish_ready m0" "QoS m0 = Some QosExactlyOnce"
      "publish_Decode NewPublishMessage (Slice (publish_wire m0) sp) = Some (m, n, e)"
    and h: "ack_ready PUBREL h0" "puback_Decode NewPubrelMessage (Slice (ack_wire h0) sp') = Some (h, n', e')"
      "header_PacketId h0 = header_PacketId m0"
    and w: "all_released w i" "writable w i 8"
  shows "\<exists>w1 w2 w3 mk. processIncoming i (MPublish m) w = (w1, Return None) \<and>
    processIncoming i (MPublish m) w1 = (w2, Return None) \<and> undelivered i w w2 \<and>
    outq w2 i = outq w i @ pubrec_for (header_PacketId m0) @ pubrec_for (header_PacketId m0) \<and>
    writable w2 i (out_room w i - 8) \<and>
    processIncoming i (MPubrel h) w2 =
      chain (onPublish i mk) (\<lambda>_. respond i (pubcomp_for (header_PacketId m0))) w3 \<and>
    received mk (publish_wire m0) \<and> publish_same m0 mk \<and> undelivered i w2 w3 \<and> vheap w3 = vheap w2 \<and>
    all_released (fst (processIncoming i (MPubrel h) w2)) i \<and>
    (\<forall>w4. all_released w4 i \<longrightarrow> all_released (fst (processIncoming i (MPubrel h) w4)) i \<and>
      (\<exists>w5. processIncoming i (MPubrel h) w4 = respond i (pubcomp_for (header_PacketId m0)) w5 \<and>
        undelivered i w4 w5 \<and> vheap w5 = vheap w4))"
proof -
  note R = decoded_received [OF m(1,3)]
  have id: "header_PacketId m = header_PacketId m0" using decoded_same [OF m(1,3)] m(2) by (simp add: publish_same_def)
  have hd: "drop_bit 4 (hd (publish_wire m0)) = PUBLISH" using publish_wire_head [OF m(1)] by auto
  have qos: "QoS m = Some QosExactlyOnce" using R(2) m(2) by simp
  obtain w1 w2 q where
    w2: "processIncoming i (MPublish m) w = (w1, Return None)" "processIncoming i (MPublish m) w1 = (w2, Return None)"
      "pub2in w2 i = Some q" "wf_ackqueue q" "contents q = [waiting_publish (header_PacketId m) (publish_wire m0)]"
      "State (ping q) \<noteq> PINGRESP" "outq w2 i = outq w i @ pubrec_for (header_PacketId m) @ pubrec_for (header_PacketId m)"
      "writable w2 i (out_room w i - 8)" "undelivered i w w2"
    by (rule incoming_twice [OF R(1) hd qos w])
  have c: "contents q = [waiting_publish (header_PacketId h0) (publish_wire m0)]" using w2(5) id h(3) by simp
  show ?thesis
  proof (rule incoming_release [OF h(1,2) m(1) w2(3,4) c w2(6)], goal_cases)
    case (1 w3 mk)
    then show ?case using w2(1,2,7-9) incoming_release_again [OF h(1,2)] unfolding id h(3) by blast
  qed
qed

definition ex_qos2 :: publish_message where
  "ex_qos2 = ex_publish\<lparr>mtypeflags := Own [0x34]\<rparr>"

definition ex_pubrel :: header where
  "ex_pubrel = \<lparr>remlen = 0, mtypeflags = Own [0x62], packetId = Own [0, 5], dbuf = exact [], dirty = True\<rparr>"

lemma ex_qos2_ready: "publish_ready ex_qos2" "QoS ex_qos2 = Some QosExactlyOnce" "header_PacketId ex_qos2 = 5"
    "topic ex_qos2 = [97, 47, 98]" "Retain ex_qos2 = Some False" "publish_wire ex_qos2 = [0x34, 9, 0, 3, 97, 47, 98, 0, 5, 1, 2]"
  by (simp_all add: publish_ready_def publish_body_ok_def ex_qos2_def ex_publish_def pub_typed_def type_byte_def
      qos_of_def ValidQos_def ValidTopic_def publish_size_def header_PacketId_def QoS_def header_Flags_def Retain_def
      publish_wire_def hdr_wire_def uvarint_bytes_small lp_def pub_id_def put_be16_def)

lemma ex_pubrel_ready: "ack_ready PUBREL ex_pubrel" "header_PacketId ex_pubrel = 5"
  by (simp_all add: ack_ready_def typed_def type_byte_def ex_pubrel_def header_PacketId_def id_set_def DefaultFlags_def)

text \<open>Service 0, with an empty queue, and service 1, which is subscribed to \<open>a/b\<close> at QoS 2, each with its session.\<close>

definition ex_store2 :: mem_topics where
  "ex_store2 =
     \<lparr>sroot = Some (SNode [] [] [([97], SNode [] [] [([98], SNode [IVal onPublishPtr 0] [2] [])])]), rroot = Some newRNode\<rparr>"

definition ex_pair :: "buffer \<Rightarrow> ackqueue \<Rightarrow> world" where
  "ex_pair b q = (ex_world [] b (new_session []) ex_store2)
     \<lparr>sess := \<lparr>sheap = [(new_session [])\<lparr>Pub2in := Some q\<rparr>, (new_session [])\<lparr>Pub2out := Some q\<rparr>], pheap = (\<lambda>_. []),
        sproviders = Map.empty\<rparr>,
      vheap := (\<lambda>k. (ex_service b)\<lparr>vsess := Some k\<rparr>)\<rparr>"

lemma ex_pair_ready:
  assumes b: "ring_idle b" "unread b = []" "free_room b = 16384"
    and q: "wf_ackqueue q" "contents q = []" "ping q = nil_ackmsg"
  shows "all_released (ex_pair b q) 0" "outq (ex_pair b q) j = []" "writable (ex_pair b q) j 16384"
    "tops (ex_pair b q) = \<lparr>providers = Map.empty, theap = (\<lambda>_. ex_store2)\<rparr>" "out_room (ex_pair b q) j = 16384"
    "pubs (ex_pair b q) 0 = Some (PubService 1)" "vtopicsMgr (vheap (ex_pair b q) 0) = Some 0"
    "vsess (vheap (ex_pair b q) j) = Some j"
    "sheap (sess (ex_pair b q)) ! 1 = (new_session [])\<lparr>Pub2out := Some q\<rparr>" "length (sheap (sess (ex_pair b q))) = 2"
  using b q by (simp_all add: ex_pair_def ex_world_def ex_service_def new_service_def all_released_def pub2in_def
      sess_of_def nil_ackmsg_def outq_def writable_def out_room_def)

lemma ex_store2_subscribers:
  "mem_Subscribers ex_store2 [97, 47, 98] QosExactlyOnce = Some (([IVal onPublishPtr 0], [2]), None)"
proof -
  have "wf_snode (SNode [] [] [([97], SNode [] [] [([98], SNode [IVal onPublishPtr 0] [2] [])])])" by simp
  then show ?thesis
    by (simp add: mem_Subscribers_def ex_store2_def ValidQos_def smatch_entries [OF _ lv_ab] matched_def
        receives_def [abs_def] entries.simps Let_def del: entries_SNode)
qed

theorem qos2_exactly_once_witness:
  "\<exists>w m h w1 w2 w4 w6. outq w 0 = [] \<and> outq w 1 = [] \<and>
     processIncoming 0 (MPublish m) w = (w1, Return None) \<and> processIncoming 0 (MPublish m) w1 = (w2, Return None) \<and>
     outq w2 1 = [] \<and> processIncoming 0 (MPubrel h) w2 = (w4, Return None) \<and> outq w4 1 = publish_wire ex_qos2 \<and>
     processIncoming 0 (MPubrel h) w4 = (w6, Return None) \<and> outq w6 1 = publish_wire ex_qos2 \<and>
     outq w6 0 = [0x50, 2, 0, 5, 0x50, 2, 0, 5, 0x70, 2, 0, 5, 0x70, 2, 0, 5]"
proof -
  obtain b where b: "ring_idle b" "unread b = []" "free_room b = 16384" using ex_idle by blast
  obtain q where q: "wf_ackqueue q" "contents q = []" "ping q = nil_ackmsg" using newAckqueue_empty [of 16] by auto
  obtain m n where m: "publish_Decode NewPublishMessage (Slice (publish_wire ex_qos2) []) = Some (m, n, None)"
    using publish.decode_wire [OF ex_qos2_ready(1), of "[]"] by auto
  obtain h k where h: "puback_Decode NewPubrelMessage (Slice (ack_wire ex_pubrel) []) = Some (h, k, None)"
    using pubrel.decode_wire [OF ex_pubrel_ready(1), of "[]"] by auto
  define w where "w = ex_pair b q"
  note w = ex_pair_ready [OF b q, folded w_def]
  have room: "writable w 0 8" using w(3) [of 0] by (simp add: writable_iff)
  have id: "header_PacketId ex_pubrel = header_PacketId ex_qos2" by (simp add: ex_pubrel_ready(2) ex_qos2_ready(3))
  let ?PR = "processIncoming 0 (MPubrel h)" and ?p = "publish_wire ex_qos2"
  note T = qos2_exactly_once [OF ex_qos2_ready(1,2) m ex_pubrel_ready(1) h id w(1) room, unfolded ex_qos2_ready(3) w(2) w(5) append_Nil]
  obtain w1 w2 w3 mk where
    w2: "processIncoming 0 (MPublish m) w = (w1, Return None)" "processIncoming 0 (MPublish m) w1 = (w2, Return None)"
      "outq w2 0 = pubrec_for 5 @ pubrec_for 5" "writable w2 0 (16384 - 8)" and u: "undelivered 0 w w2" "undelivered 0 w2 w3"
    and w3: "?PR w2 = chain (onPublish 0 mk) (\<lambda>_. respond 0 (pubcomp_for 5)) w3" "received mk ?p" "publish_same ex_qos2 mk"
      "vheap w3 = vheap w2" "all_released (fst (?PR w2)) 0"
      "\<forall>w4. all_released w4 0 \<longrightarrow> all_released (fst (?PR w4)) 0 \<and>
         (\<exists>w5. ?PR w4 = respond 0 (pubcomp_for 5) w5 \<and> undelivered 0 w4 w5 \<and> vheap w5 = vheap w4)"
    using T by (elim exE conjE) (rule that; assumption)
  note u3 = undelivered_trans [OF u]
  have mk: "QoS mk = Some QosExactlyOnce" "Retain mk = Some False" "topic mk = [97, 47, 98]"
    using w3(3) ex_qos2_ready(2,4,5) unfolding publish_same_def QoS_def Retain_def by simp_all
  have s1: "sess_of 1 w3 = Some (1, (new_session [])\<lparr>Pub2out := Some q\<rparr>)" "writable w3 1 (int (length ?p))"
    using u3 w(3) [of 1] w(8,9,10) by (auto simp: undelivered_def sess_of_def writable_def ex_qos2_ready(6) simp del: One_nat_def)
  have t3: "vtopicsMgr (vheap w3 0) = Some 0" "pubs w3 0 = Some (PubService 1)" "theap (tops w3) 0 = ex_store2"
    using u3 same_but_out_fields [of "vheap w 0" "vheap w3 0"] w(4,6,7) by (simp_all add: undelivered_def)
  have rs: "mem_Subscribers (theap (tops w3) 0) (topic mk) QosExactlyOnce = Some (([IVal onPublishPtr 0], [2]), None)"
    by (simp add: t3(3) mk(3) ex_store2_subscribers)
  have len: "length (contents q) < 2 ^ 62" unfolding q(2) by simp
  have hd: "drop_bit 4 (hd ?p) = PUBLISH" using publish_wire_head [OF ex_qos2_ready(1)] by auto
  obtain w' m' where w': "onPublish 0 mk w3 = (w', Return (m', None))" "outq w' 1 = outq w3 1 @ unretained ?p"
      "outq w' 0 = outq w3 0" "writable w' 0 8 = writable w3 0 8"
    by (rule onPublish_qos2 [OF w3(2) hd mk(1,2) t3(1) rs t3(2) _ s1(2,1) _ q(1) len]) simp_all
  have f: "outq w3 0 = outq w2 0" "outq w2 1 = []" "outq w3 1 = []" "writable w3 0 8"
    using w3(4) u(1) w(2) [of 1] w2(4) by (auto simp: outq_def undelivered_def writable_def)
  have c: "msg_ready (pubcomp_for 5)" "msg_wire (pubcomp_for 5) = [0x70, 2, 0, 5]"
    using ack_answer [of PUBCOMP 5] by (simp_all add: NewPubcompMessage_def put_be16_def)
  obtain w4 where w4: "respond 0 (pubcomp_for 5) w' = (w4, Return None)" "only_out 0 w' w4" "open_out w4 0"
      "outq w4 0 = outq w' 0 @ [0x70, 2, 0, 5]" "out_room w4 0 = out_room w' 0 - 4"
    using respond_ready [OF c(1), of w' 0] w'(4) f(4) c(2) by (auto simp: writable_iff)
  have PR4: "?PR w2 = (w4, Return None)" using w3(1) w'(1) w4(1) by (simp add: chain_def)
  then obtain w5 where w5: "?PR w4 = respond 0 (pubcomp_for 5) w5" "vheap w5 = vheap w4" using w3(5,6) by fastforce
  have "writable w4 0 4" using w4(3,5) w'(4) f(4) by (simp add: writable_iff)
  then have r5: "writable w5 0 (int (length (msg_wire (pubcomp_for 5))))" by (simp add: writable_def w5(2) c(2))
  obtain w6 where w6: "respond 0 (pubcomp_for 5) w5 = (w6, Return None)" "only_out 0 w5 w6"
      "outq w6 0 = outq w5 0 @ msg_wire (pubcomp_for 5)"
    by (rule respond_ready [OF c(1) _ r5]) simp_all
  have o6: "outq w6 0 = outq w4 0 @ [0x70, 2, 0, 5]" using w6(3) c(2) w5(2) by (simp add: outq_def)
  have "outq w4 1 = outq w' 1" "outq w6 1 = outq w4 1"
    using only_out_frame(1) [OF w4(2), of 1] only_out_frame(1) [OF w6(2), of 1] w5(2) by (simp_all add: outq_def)
  then show ?thesis
    using w(2) w2 PR4 w5(1) w6(1) o6 w4(4) w'(2,3) f by (intro exI [of _ w] exI [of _ m] exI [of _ h] exI [of _ w1]
        exI [of _ w2] exI [of _ w4] exI [of _ w6]) (simp add: ex_qos2_ready(6) unretained_def put_be16_def)
qed

section \<open>PING\<close>

text \<open>
  C32: A client that pings its server is ended by the answer. The queue keeps no bytes of a PINGREQ, so the
  PINGRESP that completes it makes the processor panic; it recovers and stops the service: the connection is closed
  and the callback given to \<open>Ping\<close> is never called.
\<close>

theorem pingresp_ends_client:
  assumes s: "sess_of i w = Some (p, s)" "Pingack s = Some q" "wf_ackqueue q" and room: "writable w i 2"
    and b: "inb (vheap w i) = Some b" "ring_idle b" "unread b = msg_wire (MPingresp h) @ rest" "msg_ready (MPingresp h)"
    and v: "\<not> vclosed (vheap w i)" "vconn (vheap w i) = Some k" "wgStopped (vheap w i) = 3"
  shows "\<exists>w1 w2 r. svc_ping i onc w = (w1, Return None) \<and> outq w1 i = outq w i @ [0xC0, 0] \<and>
    svc_processor i sp w1 = Some (w2, r) \<and> vclosed (vheap w2 i) \<and> cclosed (conns w2 k) \<and> calls w2 = calls w"
proof -
  obtain w1 q1 s1 where w1: "svc_ping i onc w = (w1, Return None)" "sess_of i w1 = Some (p, s1)" "Pingack s1 = Some q1"
      "wf_ackqueue q1" "Mtype (ping q1) = PINGREQ" "Msgbuf (ping q1) = []" "calls w1 = calls w"
      "\<exists>b tmp st. vheap w1 i = (vheap w i)\<lparr>outb := b, outtmp := tmp, outStat := st\<rparr>" "outq w1 i = outq w i @ [0xC0, 0]"
    by (rule ping_sent [OF s room, of onc], rule that)
  have f: "inb (vheap w1 i) = Some b" "\<not> vclosed (vheap w1 i)" "vconn (vheap w1 i) = Some k" "wgStopped (vheap w1 i) = 3"
    using w1(8) b(1) v by auto
  show ?thesis
    using pingresp_kills [OF w1(2-6) f(1) b(2-4) f(2-4), of sp] w1(1,7,9) by auto
qed

theorem pingresp_ends_client_witness:
  "\<exists>w w1 w2 r. svc_ping 0 (DoneUser 1) w = (w1, Return None) \<and> outq w1 0 = [0xC0, 0] \<and>
     svc_processor 0 [] w1 = Some (w2, r) \<and> vclosed (vheap w2 0) \<and> cclosed (conns w2 0) \<and> calls w2 = []"
proof -
  obtain b where b: "ring_idle b" "unread b = []" "free_room b = 16384" using ex_idle by blast
  obtain q where q: "wf_ackqueue q" using newAckqueue_empty [of 16] by auto
  have t: "typed PINGRESP NewPingrespMessage 0xD0" "dirty NewPingrespMessage" "remlen NewPingrespMessage = 0"
    using new_header_typed [of PINGRESP] by (simp_all add: NewPingrespMessage_def type_Valid_def DefaultFlags_def)
  then have r: "msg_ready (MPingresp NewPingrespMessage)" "msg_wire (MPingresp NewPingrespMessage) = [0xD0, 0]"
    using typed_type_byte [OF t(1)] by (simp_all add: bare_ready_def bare_wire_def hdr_wire_def uvarint_bytes_small)
  obtain b' where b': "ring_idle b'" "unread b' = [0xD0, 0]" using ring.put [OF b(1), of "[0xD0, 0]"] b(2,3) by auto
  define w0 where "w0 = ex_world [] b ((new_session [])\<lparr>Pingack := Some q\<rparr>) NewMemProvider"
  define w where "w = set_svc 0 (\<lambda>v. v\<lparr>inb := Some b'\<rparr>) w0"
  have w: "sess_of 0 w = Some (0, (new_session [])\<lparr>Pingack := Some q\<rparr>)" "writable w 0 2" "inb (vheap w 0) = Some b'"
      "\<not> vclosed (vheap w 0)" "vconn (vheap w 0) = Some 0" "wgStopped (vheap w 0) = 3" "outq w 0 = []" "calls w = []"
    using b by (simp_all add: w_def w0_def ex_world_def ex_service_def new_service_def sess_of_def outq_def writable_def set_svc_def)
  have u: "unread b' = msg_wire (MPingresp NewPingrespMessage) @ []" using b'(2) r(2) by simp
  have p: "Pingack ((new_session [])\<lparr>Pingack := Some q\<rparr>) = Some q" by simp
  show ?thesis
    using pingresp_ends_client [OF w(1) p q w(2,3) b'(1) u r(1) w(4-6), of "DoneUser 1" "[]"] w(7,8) by auto
qed

end
