(* ===== verification/Des_Bits.thy ===== *)
theory Des_Bits imports Prelude begin

text \<open>
  Bytes as strings of bits, most significant bit first, as \<open>soedes.go\<close> and the DES standard number them: bit
  \<open>k\<close> of a block is bit \<open>7 - k mod 8\<close> of its byte \<open>k div 8\<close>. \<open>permute\<close> is the loop that the six bit
  permutations of \<open>soedes.go\<close> share; \<open>bits_of_permute\<close> says that it selects bits by its table.
\<close>

definition testb :: "bytes \<Rightarrow> nat \<Rightarrow> bool" where
  "testb d k = bit (d ! (k div 8)) (7 - k mod 8)"

definition bits8 :: "byte \<Rightarrow> bool list" where
  "bits8 b = map (bit b) [7, 6, 5, 4, 3, 2, 1, 0]"

definition bits_of :: "bytes \<Rightarrow> bool list" where
  "bits_of d = concat (map bits8 d)"

text \<open>\<open>select t bs\<close> is the selection of the standard's tables, which count bits from 1.\<close>

definition select :: "nat list \<Rightarrow> bool list \<Rightarrow> bool list" where
  "select t bs = map (\<lambda>i. bs ! (i - 1)) t"

definition xor_bits :: "bool list \<Rightarrow> bool list \<Rightarrow> bool list" where
  "xor_bits a b = map2 (\<noteq>) a b"

lemma length_xor_bits [simp]: "length (xor_bits a b) = min (length a) (length b)"
  by (simp add: xor_bits_def)

section \<open>Bytes and their bits\<close>

lemma length_bits8 [simp]: "length (bits8 b) = 8"
  by (simp add: bits8_def)

lemma bits_of_simps [simp]: "bits_of [] = []" "bits_of (b # bs) = bits8 b @ bits_of bs"
  "bits_of (xs @ ys) = bits_of xs @ bits_of ys"
  by (simp_all add: bits_of_def)

lemma length_bits_of [simp]: "length (bits_of d) = 8 * length d"
  by (induction d) simp_all

lemma nth_bits8: "k < 8 \<Longrightarrow> bits8 b ! k = bit b (7 - k)"
  by (auto simp: bits8_def nth_Cons' less_Suc_eq numeral_eq_Suc)

lemma nth_bits_of: "k < 8 * length d \<Longrightarrow> bits_of d ! k = testb d k"
proof (induction d arbitrary: k)
  case (Cons b d)
  show ?case
  proof (cases "k < 8")
    case False
    then have "k div 8 = Suc ((k - 8) div 8)" "k mod 8 = (k - 8) mod 8"
      by (simp_all add: div_if [of k] mod_if [of k])
    then show ?thesis using Cons False by (simp add: nth_append testb_def)
  qed (simp add: nth_append nth_bits8 testb_def)
qed simp

lemma bits8_inj: "bits8 a = bits8 b \<longleftrightarrow> a = b"
proof
  assume *: "bits8 a = bits8 b"
  have "bit a n = bit b n" if "n < 8" for n
    using arg_cong [OF *, of "\<lambda>l. l ! (7 - n)"] that by (simp add: nth_bits8)
  then show "a = b" by (auto intro: bit_word_eqI)
qed simp

lemma bits_of_inj: "length d = length e \<Longrightarrow> bits_of d = bits_of e \<longleftrightarrow> d = e"
proof (induction d arbitrary: e)
  case (Cons a d)
  then obtain b e' where e: "e = b # e'" "length d = length e'" by (cases e) auto
  then show ?case using Cons.IH [OF e(2)] by (simp add: bits8_inj)
qed simp

lemma bits_of_take: "bits_of (take n d) = take (8 * n) (bits_of d)"
proof (induction d arbitrary: n)
  case (Cons b d) then show ?case by (cases n) simp_all
qed simp

lemma bits_of_drop: "bits_of (drop n d) = drop (8 * n) (bits_of d)"
proof (induction d arbitrary: n)
  case (Cons b d) then show ?case by (cases n) simp_all
qed simp

lemma bits_of_xor:
  "length d = length e \<Longrightarrow> bits_of (map2 (XOR) d e) = xor_bits (bits_of d) (bits_of e)"
proof (induction d arbitrary: e)
  case (Cons a d)
  then obtain b e' where e: "e = b # e'" "length d = length e'" by (cases e) auto
  then show ?case using Cons.IH [OF e(2)] by (simp add: bits8_def bit_xor_iff xor_bits_def)
qed (simp add: xor_bits_def)

text \<open>The bits of the bytes the code builds from shifts and masks.\<close>

lemma byte_bits:
  fixes a b :: byte
  shows "bit (push_bit m a) n \<longleftrightarrow> m \<le> n \<and> n < 8 \<and> bit a (n - m)"
    and "bit (drop_bit m a) n \<longleftrightarrow> bit a (m + n)"
    and "bit (a OR b) n \<longleftrightarrow> bit a n \<or> bit b n"
    and "bit (a AND b) n \<longleftrightarrow> bit a n \<and> bit b n"
    and "bit (a * 2) n \<longleftrightarrow> 0 < n \<and> n < 8 \<and> bit a (n - 1)"
    and "8 \<le> n \<Longrightarrow> bit a n \<longleftrightarrow> False"
  using bit_double_iff [of a n] by (auto simp: bit_simps mult.commute dest: bit_imp_le_length)

definition bit_val :: "bool list \<Rightarrow> nat" where
  "bit_val bs = foldl (\<lambda>n b. 2 * n + of_bool b) 0 bs"

lemma bit_val_horner: "bit_val bs = horner_sum of_bool 2 (rev bs)"
  by (induction bs rule: rev_induct) (simp_all add: bit_val_def)

lemma upto_8: "[0..<8] = [0, 1, 2, 3, 4, 5, 6, 7]"
  by code_simp

lemma bit_val_bits8: "bit_val (bits8 b) = unat b"
proof -
  have "rev (bits8 b) = map (bit (unat b)) [0..<8]"
    by (simp add: bits8_def upto_8 bit_unsigned_iff)
  then have "bit_val (bits8 b) = take_bit 8 (unat b)"
    by (simp add: bit_val_horner horner_sum_bit_eq_take_bit)
  moreover have "unat b < 2 ^ 8" using unsigned_less [of b] by simp
  ultimately show ?thesis by (simp add: take_bit_nat_eq_self)
qed

section \<open>The permutation loop\<close>

text \<open>
  \<open>for i = 0; i < n; i++ { if (inData[T[i]>>3] & (1 << (7 - (T[i] & 7)))) != 0 { newData[i>>3] |= 1 << (7 - (i & 7)) } }\<close>
\<close>

definition permute_bit :: "nat list \<Rightarrow> bytes \<Rightarrow> nat \<Rightarrow> bytes \<Rightarrow> bytes" where
  "permute_bit t d i nd =
     (if d ! (t ! i div 8) AND push_bit (7 - t ! i mod 8) 1 \<noteq> 0
      then nd[i div 8 := nd ! (i div 8) OR push_bit (7 - i mod 8) 1]
      else nd)"

definition permute :: "nat list \<Rightarrow> nat \<Rightarrow> bytes \<Rightarrow> bytes" where
  "permute t n d = fold (permute_bit t d) [0..<length t] (replicate n 0)"

lemma length_permute_bit [simp]: "length (permute_bit t d i nd) = length nd"
  by (simp add: permute_bit_def)

lemma length_permute_fold [simp]: "length (fold (permute_bit t d) is nd) = length nd"
  by (induction "is" arbitrary: nd) simp_all

lemma length_permute [simp]: "length (permute t n d) = n"
  by (simp add: permute_def)

lemma testb_permute_bit:
  assumes "i < 8 * length nd" "k < 8 * length nd"
  shows "testb (permute_bit t d i nd) k \<longleftrightarrow> testb nd k \<or> (k = i \<and> testb d (t ! i))"
proof -
  have i: "i div 8 < length nd" and k: "k div 8 < length nd" using assms by auto
  have eq: "k div 8 = i div 8 \<and> 7 - k mod 8 = 7 - i mod 8 \<longleftrightarrow> k = i"
  proof
    assume "k div 8 = i div 8 \<and> 7 - k mod 8 = 7 - i mod 8"
    moreover have "k mod 8 < 8" "i mod 8 < 8" by simp_all
    ultimately have "k div 8 = i div 8" "k mod 8 = i mod 8" by linarith+
    then show "k = i" by (metis div_mult_mod_eq)
  qed simp
  have one: "bit (push_bit (7 - i mod 8) 1 :: byte) (7 - k mod 8) \<longleftrightarrow> 7 - k mod 8 = 7 - i mod 8"
    by (auto simp: bit_exp_iff)
  show ?thesis
    using eq i k one unfolding permute_bit_def bit_iff_and_push_bit_not_eq_0 [symmetric]
    by (auto simp: testb_def nth_list_update bit_or_iff)
qed

lemma testb_permute_fold:
  "m \<le> 8 * length nd \<Longrightarrow> k < 8 * length nd \<Longrightarrow>
   testb (fold (permute_bit t d) [0..<m] nd) k \<longleftrightarrow> testb nd k \<or> (k < m \<and> testb d (t ! k))"
  by (induction m) (auto simp: testb_permute_bit less_Suc_eq)

theorem bits_of_permute:
  assumes "length t = 8 * n" and "\<forall>i\<in>set t. i < 8 * length d"
  shows "bits_of (permute t n d) = map ((!) (bits_of d)) t"
proof (rule nth_equalityI)
  fix k assume "k < length (bits_of (permute t n d))"
  then have k: "k < 8 * n" by simp
  then have "testb (replicate n 0) k = False" by (simp add: testb_def)
  then show "bits_of (permute t n d) ! k = map ((!) (bits_of d)) t ! k"
    using k assms by (simp add: nth_bits_of permute_def testb_permute_fold)
qed (simp add: assms)

lemma bits_of_permute_select:
  assumes "length t = 8 * n" "list_all (\<lambda>i. i < 8 * length d) t" "s = map Suc t"
  shows "bits_of (permute t n d) = select s (bits_of d)"
  using assms by (simp add: bits_of_permute list_all_iff select_def comp_def)

lemma length_select [simp]: "length (select t bs) = length t"
  by (simp add: select_def)

end
