(* ===== verification/Des_Standard.thy ===== *)
theory Des_Standard imports Des_Bits begin

text \<open>
  The Data Encryption Standard on strings of bits, as FIPS 46-3 states it: the block cipher of Go's \<open>crypto/des\<close>,
  which \<open>des.go\<close> calls, and the reference for the bytes of \<open>soedes.go\<close>. Its tables count bits from 1. The locale
  \<open>feistel\<close> says what makes a network of rounds undo itself, for any round function.
\<close>

section \<open>Feistel networks\<close>

definition feistel_round :: "('k \<Rightarrow> 'h \<Rightarrow> 'h) \<Rightarrow> ('h \<Rightarrow> 'h \<Rightarrow> 'h) \<Rightarrow> 'k \<Rightarrow> 'h \<times> 'h \<Rightarrow> 'h \<times> 'h" where
  "feistel_round f xr k h = (snd h, xr (fst h) (f k (snd h)))"

text \<open>The network: the rounds in the order of the keys, then the halves exchanged.\<close>

definition feistel_net :: "('k \<Rightarrow> 'h \<Rightarrow> 'h) \<Rightarrow> ('h \<Rightarrow> 'h \<Rightarrow> 'h) \<Rightarrow> 'k list \<Rightarrow> 'h \<times> 'h \<Rightarrow> 'h \<times> 'h" where
  "feistel_net f xr ks h = prod.swap (fold (feistel_round f xr) ks h)"

locale feistel =
  fixes f :: "'k \<Rightarrow> 'h \<Rightarrow> 'h" and xr :: "'h \<Rightarrow> 'h \<Rightarrow> 'h" and half :: "'h \<Rightarrow> bool"
  assumes half_f: "half r \<Longrightarrow> half (f k r)"
    and half_xr: "half a \<Longrightarrow> half b \<Longrightarrow> half (xr a b)"
    and xr_cancel: "half a \<Longrightarrow> half b \<Longrightarrow> xr (xr a b) b = a"
begin

abbreviation halves :: "'h \<times> 'h \<Rightarrow> bool" where
  "halves h \<equiv> half (fst h) \<and> half (snd h)"

lemma halves_rounds: "halves h \<Longrightarrow> halves (fold (feistel_round f xr) ks h)"
  by (induction ks arbitrary: h) (simp_all add: feistel_round_def half_f half_xr)

lemma round_back:
  "halves h \<Longrightarrow> feistel_round f xr k (prod.swap (feistel_round f xr k h)) = prod.swap h"
  by (cases h) (simp add: feistel_round_def half_f xr_cancel)

lemma rounds_back:
  "halves h \<Longrightarrow>
   fold (feistel_round f xr) (rev ks) (prod.swap (fold (feistel_round f xr) ks h)) = prod.swap h"
proof (induction ks rule: rev_induct)
  case (snoc k ks)
  then show ?case by (simp add: round_back halves_rounds)
qed simp

theorem net_back: "halves h \<Longrightarrow> feistel_net f xr (rev ks) (feistel_net f xr ks h) = h"
  by (simp add: feistel_net_def rounds_back)

lemma halves_net: "halves h \<Longrightarrow> halves (feistel_net f xr ks h)"
  using halves_rounds by (simp add: feistel_net_def)

end

section \<open>The tables of FIPS 46-3\<close>

definition std_IP :: "nat list" where
  "std_IP =
     [58, 50, 42, 34, 26, 18, 10, 2,
      60, 52, 44, 36, 28, 20, 12, 4,
      62, 54, 46, 38, 30, 22, 14, 6,
      64, 56, 48, 40, 32, 24, 16, 8,
      57, 49, 41, 33, 25, 17, 9, 1,
      59, 51, 43, 35, 27, 19, 11, 3,
      61, 53, 45, 37, 29, 21, 13, 5,
      63, 55, 47, 39, 31, 23, 15, 7]"

definition std_IPinv :: "nat list" where
  "std_IPinv =
     [40, 8, 48, 16, 56, 24, 64, 32,
      39, 7, 47, 15, 55, 23, 63, 31,
      38, 6, 46, 14, 54, 22, 62, 30,
      37, 5, 45, 13, 53, 21, 61, 29,
      36, 4, 44, 12, 52, 20, 60, 28,
      35, 3, 43, 11, 51, 19, 59, 27,
      34, 2, 42, 10, 50, 18, 58, 26,
      33, 1, 41, 9, 49, 17, 57, 25]"

definition std_E :: "nat list" where
  "std_E =
     [32, 1, 2, 3, 4, 5, 4, 5, 6, 7, 8, 9,
      8, 9, 10, 11, 12, 13, 12, 13, 14, 15, 16, 17,
      16, 17, 18, 19, 20, 21, 20, 21, 22, 23, 24, 25,
      24, 25, 26, 27, 28, 29, 28, 29, 30, 31, 32, 1]"

definition std_P :: "nat list" where
  "std_P =
     [16, 7, 20, 21, 29, 12, 28, 17, 1, 15, 23, 26, 5, 18, 31, 10,
      2, 8, 24, 14, 32, 27, 3, 9, 19, 13, 30, 6, 22, 11, 4, 25]"

definition std_PC1 :: "nat list" where
  "std_PC1 =
     [57, 49, 41, 33, 25, 17, 9, 1, 58, 50, 42, 34, 26, 18,
      10, 2, 59, 51, 43, 35, 27, 19, 11, 3, 60, 52, 44, 36,
      63, 55, 47, 39, 31, 23, 15, 7, 62, 54, 46, 38, 30, 22,
      14, 6, 61, 53, 45, 37, 29, 21, 13, 5, 28, 20, 12, 4]"

definition std_PC2 :: "nat list" where
  "std_PC2 =
     [14, 17, 11, 24, 1, 5, 3, 28, 15, 6, 21, 10,
      23, 19, 12, 4, 26, 8, 16, 7, 27, 20, 13, 2,
      41, 52, 31, 37, 47, 55, 30, 40, 51, 45, 33, 48,
      44, 49, 39, 56, 34, 53, 46, 42, 50, 36, 29, 32]"

definition std_S :: "nat list list list" where
  "std_S =
     [[[14, 4, 13, 1, 2, 15, 11, 8, 3, 10, 6, 12, 5, 9, 0, 7],
       [0, 15, 7, 4, 14, 2, 13, 1, 10, 6, 12, 11, 9, 5, 3, 8],
       [4, 1, 14, 8, 13, 6, 2, 11, 15, 12, 9, 7, 3, 10, 5, 0],
       [15, 12, 8, 2, 4, 9, 1, 7, 5, 11, 3, 14, 10, 0, 6, 13]],
      [[15, 1, 8, 14, 6, 11, 3, 4, 9, 7, 2, 13, 12, 0, 5, 10],
       [3, 13, 4, 7, 15, 2, 8, 14, 12, 0, 1, 10, 6, 9, 11, 5],
       [0, 14, 7, 11, 10, 4, 13, 1, 5, 8, 12, 6, 9, 3, 2, 15],
       [13, 8, 10, 1, 3, 15, 4, 2, 11, 6, 7, 12, 0, 5, 14, 9]],
      [[10, 0, 9, 14, 6, 3, 15, 5, 1, 13, 12, 7, 11, 4, 2, 8],
       [13, 7, 0, 9, 3, 4, 6, 10, 2, 8, 5, 14, 12, 11, 15, 1],
       [13, 6, 4, 9, 8, 15, 3, 0, 11, 1, 2, 12, 5, 10, 14, 7],
       [1, 10, 13, 0, 6, 9, 8, 7, 4, 15, 14, 3, 11, 5, 2, 12]],
      [[7, 13, 14, 3, 0, 6, 9, 10, 1, 2, 8, 5, 11, 12, 4, 15],
       [13, 8, 11, 5, 6, 15, 0, 3, 4, 7, 2, 12, 1, 10, 14, 9],
       [10, 6, 9, 0, 12, 11, 7, 13, 15, 1, 3, 14, 5, 2, 8, 4],
       [3, 15, 0, 6, 10, 1, 13, 8, 9, 4, 5, 11, 12, 7, 2, 14]],
      [[2, 12, 4, 1, 7, 10, 11, 6, 8, 5, 3, 15, 13, 0, 14, 9],
       [14, 11, 2, 12, 4, 7, 13, 1, 5, 0, 15, 10, 3, 9, 8, 6],
       [4, 2, 1, 11, 10, 13, 7, 8, 15, 9, 12, 5, 6, 3, 0, 14],
       [11, 8, 12, 7, 1, 14, 2, 13, 6, 15, 0, 9, 10, 4, 5, 3]],
      [[12, 1, 10, 15, 9, 2, 6, 8, 0, 13, 3, 4, 14, 7, 5, 11],
       [10, 15, 4, 2, 7, 12, 9, 5, 6, 1, 13, 14, 0, 11, 3, 8],
       [9, 14, 15, 5, 2, 8, 12, 3, 7, 0, 4, 10, 1, 13, 11, 6],
       [4, 3, 2, 12, 9, 5, 15, 10, 11, 14, 1, 7, 6, 0, 8, 13]],
      [[4, 11, 2, 14, 15, 0, 8, 13, 3, 12, 9, 7, 5, 10, 6, 1],
       [13, 0, 11, 7, 4, 9, 1, 10, 14, 3, 5, 12, 2, 15, 8, 6],
       [1, 4, 11, 13, 12, 3, 7, 14, 10, 15, 6, 8, 0, 5, 9, 2],
       [6, 11, 13, 8, 1, 4, 10, 7, 9, 5, 0, 15, 14, 2, 3, 12]],
      [[13, 2, 8, 4, 6, 15, 11, 1, 10, 9, 3, 14, 5, 0, 12, 7],
       [1, 15, 13, 8, 10, 3, 7, 4, 12, 5, 6, 11, 0, 14, 9, 2],
       [7, 11, 4, 1, 9, 12, 14, 2, 0, 6, 10, 13, 15, 3, 5, 8],
       [2, 1, 14, 7, 4, 10, 8, 13, 15, 12, 9, 0, 3, 5, 6, 11]]]"

section \<open>The cipher\<close>

text \<open>The S-box \<open>j\<close>: the outer two bits of the six choose the row, the inner four the column.\<close>

definition nibble :: "nat \<Rightarrow> bool list" where
  "nibble v = map (bit v) [3, 2, 1, 0]"

definition std_box :: "nat \<Rightarrow> bool list \<Rightarrow> bool list" where
  "std_box j b = nibble (std_S ! j ! bit_val [b ! 0, b ! 5] ! bit_val [b ! 1, b ! 2, b ! 3, b ! 4])"

definition std_f :: "bool list \<Rightarrow> bool list \<Rightarrow> bool list" where
  "std_f k r =
     (let x = xor_bits (select std_E r) k
      in select std_P (concat (map (\<lambda>j. std_box j (take 6 (drop (6 * j) x))) [0..<8])))"

text \<open>The key schedule: two registers of 28 bits, rotated to the left before each of the sixteen keys.\<close>

definition std_shifts :: "nat list" where
  "std_shifts = [1, 1, 2, 2, 2, 2, 2, 2, 1, 2, 2, 2, 2, 2, 2, 1]"

fun std_schedule :: "nat list \<Rightarrow> bool list \<Rightarrow> bool list \<Rightarrow> bool list list" where
  "std_schedule [] c d = []"
| "std_schedule (n # ns) c d =
     (let c' = rotate n c; d' = rotate n d
      in select std_PC2 (c' @ d') # std_schedule ns c' d')"

definition std_keys :: "bool list \<Rightarrow> bool list list" where
  "std_keys key =
     (let cd = select std_PC1 key in std_schedule std_shifts (take 28 cd) (drop 28 cd))"

definition std_des :: "bool list list \<Rightarrow> bool list \<Rightarrow> bool list" where
  "std_des ks blk =
     (let h = select std_IP blk; (l, r) = feistel_net std_f xor_bits ks (take 32 h, drop 32 h)
      in select std_IPinv (l @ r))"

definition std_encrypt :: "bool list \<Rightarrow> bool list \<Rightarrow> bool list" where
  "std_encrypt key blk = std_des (std_keys key) blk"

definition std_decrypt :: "bool list \<Rightarrow> bool list \<Rightarrow> bool list" where
  "std_decrypt key blk = std_des (rev (std_keys key)) blk"

section \<open>Decryption undoes encryption\<close>

lemma length_std_f [simp]: "length (std_f k r) = 32"
  by (simp add: std_f_def Let_def std_P_def)

lemma xor_cancel: "length a = length b \<Longrightarrow> xor_bits (xor_bits a b) b = a"
  by (induction a b rule: list_induct2) (auto simp: xor_bits_def)

interpretation std: feistel std_f xor_bits "\<lambda>h. length h = 32"
  by unfold_locales (rule length_std_f, simp, rule xor_cancel, simp)

lemma select_IP_inverse:
  assumes "length bs = 64"
  shows "select std_IPinv (select std_IP bs) = bs" "select std_IP (select std_IPinv bs) = bs"
proof -
  have "bs = map (\<lambda>i. bs ! (i - 1)) [1..<65]"
    by (rule nth_equalityI) (use assms in \<open>simp_all del: upt_Suc\<close>)
  then obtain g where g: "bs = map g [1..<65]" by blast
  show "select std_IPinv (select std_IP bs) = bs" "select std_IP (select std_IPinv bs) = bs"
    by (simp_all add: g select_def std_IP_def std_IPinv_def upt_rec)
qed

lemma length_std_des [simp]: "length (std_des ks blk) = 64"
  by (simp add: std_des_def split_beta std_IPinv_def Let_def)

lemma std_des_back:
  assumes "length blk = 64"
  shows "std_des (rev ks) (std_des ks blk) = blk"
proof -
  define h where "h = select std_IP blk"
  have len: "length h = 64" by (simp add: h_def std_IP_def)
  define n where "n = feistel_net std_f xor_bits ks (take 32 h, drop 32 h)"
  have n: "length (fst n) = 32" "length (snd n) = 32"
    using std.halves_net [of "(take 32 h, drop 32 h)" ks] len by (simp_all add: n_def)
  have undo: "feistel_net std_f xor_bits (rev ks) n = (take 32 h, drop 32 h)"
    unfolding n_def using std.net_back [of "(take 32 h, drop 32 h)" ks] len by simp
  have "std_des ks blk = select std_IPinv (fst n @ snd n)"
    by (simp add: std_des_def Let_def split_beta n_def h_def)
  then have "select std_IP (std_des ks blk) = fst n @ snd n"
    using n by (simp add: select_IP_inverse)
  then show ?thesis
    using n undo assms by (simp add: std_des_def Let_def split_beta h_def select_IP_inverse)
qed

lemma std_decrypt_encrypt: "length blk = 64 \<Longrightarrow> std_decrypt key (std_encrypt key blk) = blk"
  by (simp add: std_decrypt_def std_encrypt_def std_des_back)

end
