(* ===== verification/Des_Power.thy ===== *)
theory Des_Power imports Des_Standard begin

text \<open>
  \<open>common/des/soedes.go\<close>: a DES on bytes, written to agree with a Delphi program. The block functions work on
  arrays and slices of fixed length (8, 7, 6 or 4 bytes, made so by \<open>EncryStr\<close> and \<open>DecryStr\<close>), here lists of that
  length. The GBK encoder and decoder of the library mahonia are the arguments \<open>enc\<close> and \<open>dec\<close>.
\<close>

section \<open>The tables\<close>

definition BitIP :: "nat list" where
  "BitIP =
     [57, 49, 41, 33, 25, 17, 9, 1, 59, 51, 43, 35, 27, 19, 11, 3,
      61, 53, 45, 37, 29, 21, 13, 5, 63, 55, 47, 39, 31, 23, 15, 7,
      56, 48, 40, 32, 24, 16, 8, 0, 58, 50, 42, 34, 26, 18, 10, 2,
      60, 52, 44, 36, 28, 20, 12, 4, 62, 54, 46, 38, 30, 22, 14, 6]"

definition BitCP :: "nat list" where
  "BitCP =
     [39, 7, 47, 15, 55, 23, 63, 31, 38, 6, 46, 14, 54, 22, 62, 30,
      37, 5, 45, 13, 53, 21, 61, 29, 36, 4, 44, 12, 52, 20, 60, 28,
      35, 3, 43, 11, 51, 19, 59, 27, 34, 2, 42, 10, 50, 18, 58, 26,
      33, 1, 41, 9, 49, 17, 57, 25, 32, 0, 40, 8, 48, 16, 56, 24]"

definition BitExp :: "nat list" where
  "BitExp =
     [31, 0, 1, 2, 3, 4, 3, 4, 5, 6, 7, 8, 7, 8, 9, 10,
      11, 12, 11, 12, 13, 14, 15, 16, 15, 16, 17, 18, 19, 20, 19, 20,
      21, 22, 23, 24, 23, 24, 25, 26, 27, 28, 27, 28, 29, 30, 31, 0]"

definition BitPM :: "nat list" where
  "BitPM =
     [15, 6, 19, 20, 28, 11, 27, 16, 0, 14, 22, 25, 4, 17, 30, 9,
      1, 7, 23, 13, 31, 26, 2, 8, 18, 12, 29, 5, 21, 10, 3, 24]"

definition BitPMC1 :: "nat list" where
  "BitPMC1 =
     [56, 48, 40, 32, 24, 16, 8, 0, 57, 49, 41, 33, 25, 17, 9, 1,
      58, 50, 42, 34, 26, 18, 10, 2, 59, 51, 43, 35, 62, 54, 46, 38,
      30, 22, 14, 6, 61, 53, 45, 37, 29, 21, 13, 5, 60, 52, 44, 36,
      28, 20, 12, 4, 27, 19, 11, 3]"

definition BitPMC2 :: "nat list" where
  "BitPMC2 =
     [13, 16, 10, 23, 0, 4, 2, 27, 14, 5, 20, 9, 22, 18, 11, 3,
      25, 7, 15, 6, 26, 19, 12, 1, 40, 51, 30, 36, 46, 54, 29, 39,
      50, 44, 32, 47, 43, 48, 38, 55, 33, 52, 45, 41, 49, 35, 28, 31]"

definition sBox :: "byte list list" where
  "sBox =
     [[14, 4, 13, 1, 2, 15, 11, 8, 3, 10, 6, 12, 5, 9, 0, 7,
       0, 15, 7, 4, 14, 2, 13, 1, 10, 6, 12, 11, 9, 5, 3, 8,
       4, 1, 14, 8, 13, 6, 2, 11, 15, 12, 9, 7, 3, 10, 5, 0,
       15, 12, 8, 2, 4, 9, 1, 7, 5, 11, 3, 14, 10, 0, 6, 13],
      [15, 1, 8, 14, 6, 11, 3, 4, 9, 7, 2, 13, 12, 0, 5, 10,
       3, 13, 4, 7, 15, 2, 8, 14, 12, 0, 1, 10, 6, 9, 11, 5,
       0, 14, 7, 11, 10, 4, 13, 1, 5, 8, 12, 6, 9, 3, 2, 15,
       13, 8, 10, 1, 3, 15, 4, 2, 11, 6, 7, 12, 0, 5, 14, 9],
      [10, 0, 9, 14, 6, 3, 15, 5, 1, 13, 12, 7, 11, 4, 2, 8,
       13, 7, 0, 9, 3, 4, 6, 10, 2, 8, 5, 14, 12, 11, 15, 1,
       13, 6, 4, 9, 8, 15, 3, 0, 11, 1, 2, 12, 5, 10, 14, 7,
       1, 10, 13, 0, 6, 9, 8, 7, 4, 15, 14, 3, 11, 5, 2, 12],
      [7, 13, 14, 3, 0, 6, 9, 10, 1, 2, 8, 5, 11, 12, 4, 15,
       13, 8, 11, 5, 6, 15, 0, 3, 4, 7, 2, 12, 1, 10, 14, 9,
       10, 6, 9, 0, 12, 11, 7, 13, 15, 1, 3, 14, 5, 2, 8, 4,
       3, 15, 0, 6, 10, 1, 13, 8, 9, 4, 5, 11, 12, 7, 2, 14],
      [2, 12, 4, 1, 7, 10, 11, 6, 8, 5, 3, 15, 13, 0, 14, 9,
       14, 11, 2, 12, 4, 7, 13, 1, 5, 0, 15, 10, 3, 9, 8, 6,
       4, 2, 1, 11, 10, 13, 7, 8, 15, 9, 12, 5, 6, 3, 0, 14,
       11, 8, 12, 7, 1, 14, 2, 13, 6, 15, 0, 9, 10, 4, 5, 3],
      [12, 1, 10, 15, 9, 2, 6, 8, 0, 13, 3, 4, 14, 7, 5, 11,
       10, 15, 4, 2, 7, 12, 9, 5, 6, 1, 13, 14, 0, 11, 3, 8,
       9, 14, 15, 5, 2, 8, 12, 3, 7, 0, 4, 10, 1, 13, 11, 6,
       4, 3, 2, 12, 9, 5, 15, 10, 11, 14, 1, 7, 6, 0, 8, 13],
      [4, 11, 2, 14, 15, 0, 8, 13, 3, 12, 9, 7, 5, 10, 6, 1,
       13, 0, 11, 7, 4, 9, 1, 10, 14, 3, 5, 12, 2, 15, 8, 6,
       1, 4, 11, 13, 12, 3, 7, 14, 10, 15, 6, 8, 0, 5, 9, 2,
       6, 11, 13, 8, 1, 4, 10, 7, 9, 5, 0, 15, 14, 2, 3, 12],
      [13, 2, 8, 4, 6, 15, 11, 1, 10, 9, 3, 14, 5, 0, 12, 7,
       1, 15, 13, 8, 10, 3, 7, 4, 12, 5, 6, 11, 0, 14, 9, 2,
       7, 11, 4, 1, 9, 12, 14, 2, 0, 6, 10, 13, 15, 3, 5, 8,
       2, 1, 14, 7, 4, 10, 8, 13, 15, 12, 9, 0, 3, 5, 6, 11]]"

definition bitDisplace :: "nat list" where
  "bitDisplace = [1, 1, 2, 2, 2, 2, 2, 2, 1, 2, 2, 2, 2, 2, 2, 1]"

section \<open>The bit permutations\<close>

definition initPermutation :: "bytes \<Rightarrow> bytes" where
  "initPermutation inData = permute BitIP 8 inData"

definition conversePermutation :: "bytes \<Rightarrow> bytes" where
  "conversePermutation inData = permute BitCP 8 inData"

definition expand :: "bytes \<Rightarrow> bytes" where
  "expand inData = permute BitExp 6 inData"

text \<open>It permutes the first four of the six bytes and leaves the last two.\<close>

definition permutation :: "bytes \<Rightarrow> bytes" where
  "permutation inData = permute BitPM 4 inData @ drop 4 inData"

definition permutationChoose1 :: "bytes \<Rightarrow> bytes" where
  "permutationChoose1 inData = permute BitPMC1 7 inData"

definition permutationChoose2 :: "bytes \<Rightarrow> bytes" where
  "permutationChoose2 inData = permute BitPMC2 6 inData"

section \<open>The keys of the rounds\<close>

type_synonym quad = "byte \<times> byte \<times> byte \<times> byte"

text \<open>One turn of the loop of \<open>cycleMove\<close>: the assignments one after the other.\<close>

definition cycle_once :: "quad \<Rightarrow> quad" where
  "cycle_once q =
     (case q of (a, b, c, d) \<Rightarrow>
        let a = push_bit 1 a OR drop_bit 7 b;
            b = push_bit 1 b OR drop_bit 7 c;
            c = push_bit 1 c OR drop_bit 7 d;
            d = push_bit 1 d OR drop_bit 4 (a AND 0x10)
        in (a AND 0x0f, b, c, d))"

definition cycleMove :: "quad \<Rightarrow> nat \<Rightarrow> quad" where
  "cycleMove inData bitMove = (cycle_once ^^ bitMove) inData"

text \<open>The bytes \<open>key56o\<close> of a round.\<close>

definition key56 :: "quad \<Rightarrow> quad \<Rightarrow> bytes" where
  "key56 l r =
     (case l of (l0, l1, l2, l3) \<Rightarrow> case r of (r0, r1, r2, r3) \<Rightarrow>
        [push_bit 4 l0 OR drop_bit 4 l1, push_bit 4 l1 OR drop_bit 4 l2,
         push_bit 4 l2 OR drop_bit 4 l3, push_bit 4 l3 OR r0, r1, r2, r3])"

fun key_loop :: "nat list \<Rightarrow> quad \<Rightarrow> quad \<Rightarrow> bytes list" where
  "key_loop [] l r = []"
| "key_loop (n # ns) l r =
     (let l = cycleMove l n; r = cycleMove r n
      in permutationChoose2 (key56 l r) # key_loop ns l r)"

definition key28l :: "bytes \<Rightarrow> quad" where
  "key28l o56 =
     (drop_bit 4 (o56 ! 0), push_bit 4 (o56 ! 0) OR drop_bit 4 (o56 ! 1),
      push_bit 4 (o56 ! 1) OR drop_bit 4 (o56 ! 2), push_bit 4 (o56 ! 2) OR drop_bit 4 (o56 ! 3))"

definition key28r :: "bytes \<Rightarrow> quad" where
  "key28r o56 = (o56 ! 3 AND 0x0f, o56 ! 4, o56 ! 5, o56 ! 6)"

definition makeKey :: "bytes \<Rightarrow> bytes list" where
  "makeKey inKey =
     (let outData56 = permutationChoose1 inKey
      in key_loop bitDisplace (key28l outData56) (key28r outData56))"

section \<open>The round function\<close>

definition si :: "nat \<Rightarrow> byte \<Rightarrow> byte" where
  "si s inByte =
     (let c = (inByte AND 0x20) OR drop_bit 1 (inByte AND 0x1e) OR push_bit 4 (inByte AND 0x01)
      in sBox ! s ! unat c AND 0x0f)"

text \<open>The eight groups of six bits of \<open>outBuf\<close>.\<close>

definition six_bits :: "bytes \<Rightarrow> bytes" where
  "six_bits b =
     [drop_bit 2 (b ! 0),
      push_bit 4 (b ! 0 AND 0x03) OR drop_bit 4 (b ! 1),
      push_bit 2 (b ! 1 AND 0x0f) OR drop_bit 6 (b ! 2),
      b ! 2 AND 0x3f,
      drop_bit 2 (b ! 3),
      push_bit 4 (b ! 3 AND 0x03) OR drop_bit 4 (b ! 4),
      push_bit 2 (b ! 4 AND 0x0f) OR drop_bit 6 (b ! 5),
      b ! 5 AND 0x3f]"

definition encry :: "bytes \<Rightarrow> bytes \<Rightarrow> bytes" where
  "encry inData subKey =
     (let outBuf = map2 (XOR) (expand inData) subKey;
          buf = map (\<lambda>i. si i (six_bits outBuf ! i)) [0..<8];
          outBuf = map (\<lambda>i. push_bit 4 (buf ! (i * 2)) OR buf ! (i * 2 + 1)) [0..<4] @ drop 4 outBuf
      in take 4 (permutation outBuf))"

section \<open>A block\<close>

text \<open>
  One round: \<open>temp\<close> keeps the first half, the second half is copied over it, and what \<open>encry\<close> makes of the block
  (of its first half) is combined with \<open>temp\<close> into the second half.
\<close>

definition des_round :: "bytes \<Rightarrow> bytes \<Rightarrow> bytes" where
  "des_round subKey outData =
     (let temp = take 4 outData;
          outData = drop 4 outData @ drop 4 outData;
          buf = encry outData subKey
      in take 4 outData @ map2 (XOR) temp buf)"

definition swap_halves :: "bytes \<Rightarrow> bytes" where
  "swap_halves outData = drop 4 outData @ take 4 outData"

datatype des_mode = dmEncry | dmDecry

text \<open>The first loop copies the block over all eight bytes of \<open>outData\<close>, so its old contents are no argument.\<close>

definition desData :: "des_mode \<Rightarrow> bytes \<Rightarrow> bytes list \<Rightarrow> bytes" where
  "desData desMode inData subKey =
     (let outData = initPermutation inData;
          outData =
            (case desMode of
               dmEncry \<Rightarrow> swap_halves (fold (\<lambda>i. des_round (subKey ! i)) [0..<16] outData)
             | dmDecry \<Rightarrow> swap_halves (fold (\<lambda>i. des_round (subKey ! i)) (rev [0..<16]) outData))
      in conversePermutation outData)"

section \<open>Strings\<close>

datatype des_error =
    LastCharEmpty
  | InvalidByteError byte
  | ErrLength

text \<open>The padding loops: a short key grows to nine bytes, of which eight are used; a text to a multiple of eight.\<close>

function key_pad_loop :: "bytes \<Rightarrow> bytes" where
  "key_pad_loop key = (if 8 < length key then key else key_pad_loop (key @ [0]))"
  by auto
termination by (relation "measure (\<lambda>key. 9 - length key)") auto

definition key_pad :: "bytes \<Rightarrow> bytes" where
  "key_pad akey = (if length akey < 8 then key_pad_loop akey else akey)"

function str_pad :: "bytes \<Rightarrow> bytes" where
  "str_pad b = (if length b mod 8 = 0 then b else str_pad (b @ [0]))"
  by auto
termination
  by (relation "measure (\<lambda>b. (8 - length b mod 8) mod 8)") (auto simp: mod_Suc)

function drop_zeros :: "bytes \<Rightarrow> bytes" where
  "drop_zeros b =
     (if 0 < length b \<and> last b = 0 then drop_zeros (take (length b - 1) b) else b)"
  by auto
termination by (relation "measure length") auto

declare key_pad_loop.simps [simp del] str_pad.simps [simp del] drop_zeros.simps [simp del]

text \<open>\<open>keyByte[j] = akey[j]\<close> for the first eight bytes, then \<open>makeKey\<close>.\<close>

definition sub_keys :: "bytes \<Rightarrow> bytes list" where
  "sub_keys akey = makeKey (map ((!) (key_pad akey)) [0..<8])"

text \<open>\<open>strByte[j] = strBuff[i*8+j]\<close>\<close>

definition block_at :: "bytes \<Rightarrow> nat \<Rightarrow> bytes" where
  "block_at b i = map (\<lambda>j. b ! (i * 8 + j)) [0..<8]"

definition des_blocks :: "des_mode \<Rightarrow> bytes \<Rightarrow> bytes list \<Rightarrow> bytes" where
  "des_blocks m b ks = concat (map (\<lambda>i. desData m (block_at b i) ks) [0..<length b div 8])"

definition EncryStr :: "(bytes \<Rightarrow> bytes) \<Rightarrow> bytes \<Rightarrow> bytes \<Rightarrow> des_error + bytes" where
  "EncryStr enc aStr akey =
     (if 0 < length aStr \<and> last aStr = 0 then Inl LastCharEmpty
      else Inr (des_blocks dmEncry (str_pad (enc aStr)) (sub_keys akey)))"

definition DecryStr :: "(bytes \<Rightarrow> bytes) \<Rightarrow> bytes \<Rightarrow> bytes \<Rightarrow> des_error + bytes" where
  "DecryStr dec aStr akey = Inr (dec (drop_zeros (des_blocks dmDecry aStr (sub_keys akey))))"

text \<open>\<open>hex.EncodeToString\<close>, \<open>strings.ToUpper\<close> on its output, and \<open>hex.DecodeString\<close>.\<close>

definition hex_digit :: "nat \<Rightarrow> byte" where
  "hex_digit n = (if n < 10 then of_nat (48 + n) else of_nat (87 + n))"

definition EncodeToString :: "bytes \<Rightarrow> bytes" where
  "EncodeToString src =
     concat (map (\<lambda>b. [hex_digit (unat (drop_bit 4 b)), hex_digit (unat (b AND 0x0f))]) src)"

definition ToUpper :: "bytes \<Rightarrow> bytes" where
  "ToUpper s = map (\<lambda>c. if 97 \<le> c \<and> c \<le> 122 then c - 32 else c) s"

definition fromHexChar :: "byte \<Rightarrow> byte option" where
  "fromHexChar c =
     (if 48 \<le> c \<and> c \<le> 57 then Some (c - 48)
      else if 97 \<le> c \<and> c \<le> 102 then Some (c - 97 + 10)
      else if 65 \<le> c \<and> c \<le> 70 then Some (c - 65 + 10)
      else None)"

fun DecodeString :: "bytes \<Rightarrow> des_error + bytes" where
  "DecodeString [] = Inr []"
| "DecodeString [p] = (case fromHexChar p of None \<Rightarrow> Inl (InvalidByteError p) | Some _ \<Rightarrow> Inl ErrLength)"
| "DecodeString (p # q # s) =
     (case fromHexChar p of
        None \<Rightarrow> Inl (InvalidByteError p)
      | Some a \<Rightarrow>
          (case fromHexChar q of
             None \<Rightarrow> Inl (InvalidByteError q)
           | Some b \<Rightarrow> map_sum id ((#) (push_bit 4 a OR b)) (DecodeString s)))"

definition PowerEncryStr :: "(bytes \<Rightarrow> bytes) \<Rightarrow> bytes \<Rightarrow> bytes \<Rightarrow> des_error + bytes" where
  "PowerEncryStr enc aStr akey =
     (case EncryStr enc aStr akey of
        Inl err \<Rightarrow> Inl err
      | Inr encryStr \<Rightarrow> Inr (ToUpper (EncodeToString encryStr)))"

definition PowerDecryStr :: "(bytes \<Rightarrow> bytes) \<Rightarrow> bytes \<Rightarrow> bytes \<Rightarrow> des_error + bytes" where
  "PowerDecryStr dec aStr akey =
     (case DecodeString aStr of
        Inl err \<Rightarrow> Inl err
      | Inr decryBuf \<Rightarrow> DecryStr dec decryBuf akey)"

text \<open>The package functions, which use the key \<open>"power"\<close>.\<close>

definition PowerDesKey :: bytes where
  "PowerDesKey = bytes_of ''power''"

definition pkg_EncryStr :: "(bytes \<Rightarrow> bytes) \<Rightarrow> bytes \<Rightarrow> des_error + bytes" where
  "pkg_EncryStr enc aStr = PowerEncryStr enc aStr PowerDesKey"

definition pkg_DecryStr :: "(bytes \<Rightarrow> bytes) \<Rightarrow> bytes \<Rightarrow> des_error + bytes" where
  "pkg_DecryStr dec aStr = PowerDecryStr dec aStr PowerDesKey"

end
