(* ===== verification/Des_Equiv.thy ===== *)
theory Des_Equiv imports Des_Power begin

text \<open>
  The bytes of \<open>soedes.go\<close> compute the Data Encryption Standard: each operation of \<open>Des_Power\<close>, read through
  \<^const>\<open>bits_of\<close>, is the corresponding one of \<open>Des_Standard\<close>.
\<close>

named_theorems std_bits \<open>what an operation on bytes does to the bits\<close>

section \<open>Tables\<close>

lemmas bit_tables = BitIP_def BitCP_def BitExp_def BitPM_def BitPMC1_def BitPMC2_def
  std_IP_def std_IPinv_def std_E_def std_P_def std_PC1_def std_PC2_def

lemma bits_initPermutation [std_bits]:
  "length d = 8 \<Longrightarrow> bits_of (initPermutation d) = select std_IP (bits_of d)"
  unfolding initPermutation_def by (rule bits_of_permute_select) (simp_all add: bit_tables)

lemma bits_conversePermutation [std_bits]:
  "length d = 8 \<Longrightarrow> bits_of (conversePermutation d) = select std_IPinv (bits_of d)"
  unfolding conversePermutation_def by (rule bits_of_permute_select) (simp_all add: bit_tables)

lemma bits_expand [std_bits]:
  "4 \<le> length d \<Longrightarrow> bits_of (expand d) = select std_E (bits_of d)"
  unfolding expand_def by (rule bits_of_permute_select) (auto simp: bit_tables)

lemma bits_permutation [std_bits]:
  "4 \<le> length d \<Longrightarrow> bits_of (take 4 (permutation d)) = select std_P (bits_of d)"
  unfolding permutation_def by (simp, rule bits_of_permute_select) (auto simp: bit_tables)

lemma bits_permutationChoose1 [std_bits]:
  "length d = 8 \<Longrightarrow> bits_of (permutationChoose1 d) = select std_PC1 (bits_of d)"
  unfolding permutationChoose1_def by (rule bits_of_permute_select) (simp_all add: bit_tables)

lemma bits_permutationChoose2 [std_bits]:
  "length d = 7 \<Longrightarrow> bits_of (permutationChoose2 d) = select std_PC2 (bits_of d)"
  unfolding permutationChoose2_def by (rule bits_of_permute_select) (simp_all add: bit_tables)

lemma length_permutations [simp]:
  "length (initPermutation d) = 8" "length (conversePermutation d) = 8" "length (expand d) = 6"
  "length (permutationChoose1 d) = 7" "length (permutationChoose2 d) = 6"
  "length (permutation d) = 4 + (length d - 4)"
  by (simp_all add: initPermutation_def conversePermutation_def expand_def permutationChoose1_def
      permutationChoose2_def permutation_def)

lemma select_take: "\<forall>i\<in>set t. i \<le> n \<and> 0 < i \<Longrightarrow> select t (take n bs) = select t bs"
  by (auto simp: select_def)

section \<open>The key schedule\<close>

definition bits28 :: "quad \<Rightarrow> bool list" where
  "bits28 q = (case q of (a, b, c, d) \<Rightarrow> drop 4 (bits8 a) @ bits8 b @ bits8 c @ bits8 d)"

definition low4 :: "quad \<Rightarrow> bool" where
  "low4 q \<longleftrightarrow> take 4 (bits8 (fst q)) = [False, False, False, False]"

lemma length_bits28 [simp]: "length (bits28 q) = 28"
  by (simp add: bits28_def split: prod.split)

lemma cycle_once_bits:
  "bits28 (cycle_once q) = rotate1 (bits28 q)" "low4 (cycle_once q)"
  by (simp_all add: bits28_def low4_def cycle_once_def bits8_def Let_def split: prod.split)
    (simp_all add: byte_bits del: push_bit_of_1)

lemma cycleMove_bits: "bits28 (cycleMove q n) = rotate n (bits28 q)"
  by (induction n) (simp_all add: cycleMove_def cycle_once_bits)

lemma cycleMove_low4: "low4 q \<Longrightarrow> low4 (cycleMove q n)"
  by (induction n) (simp_all add: cycleMove_def cycle_once_bits)

lemma key56_bits: "low4 r \<Longrightarrow> bits_of (key56 l r) = bits28 l @ bits28 r"
  by (cases l; cases r) (simp add: key56_def bits28_def low4_def bits8_def byte_bits)

lemma length_key56 [simp]: "length (key56 l r) = 7"
  by (simp add: key56_def split: prod.split)

lemma key_loop_bits:
  "low4 r \<Longrightarrow> map bits_of (key_loop ns l r) = std_schedule ns (bits28 l) (bits28 r)"
  by (induction ns arbitrary: l r)
    (simp_all add: Let_def bits_permutationChoose2 key56_bits cycleMove_bits cycleMove_low4)

lemma key28_bits:
  assumes "length o56 = 7"
  shows "bits28 (key28l o56) = take 28 (bits_of o56)" "bits28 (key28r o56) = drop 28 (bits_of o56)"
    "low4 (key28r o56)"
proof -
  obtain a b c d e f g where "o56 = [a, b, c, d, e, f, g]"
    using assms by (auto simp: length_Suc_conv numeral_eq_Suc)
  then show "bits28 (key28l o56) = take 28 (bits_of o56)" "bits28 (key28r o56) = drop 28 (bits_of o56)"
    "low4 (key28r o56)"
    by (simp_all add: bits28_def low4_def key28l_def key28r_def bits8_def byte_bits)
qed

lemma bitDisplace_std: "bitDisplace = std_shifts"
  by (simp add: bitDisplace_def std_shifts_def)

theorem makeKey_bits: "length key = 8 \<Longrightarrow> map bits_of (makeKey key) = std_keys (bits_of key)"
  by (simp add: makeKey_def Let_def key_loop_bits key28_bits std_keys_def bits_permutationChoose1
      bitDisplace_std)

lemma length_makeKey [simp]: "length (makeKey key) = 16"
  by (simp add: makeKey_def Let_def bitDisplace_def)

lemma makeKey_rows: "k \<in> set (makeKey key) \<Longrightarrow> length k = 6"
  by (auto simp: makeKey_def Let_def bitDisplace_def)

section \<open>The round function\<close>

text \<open>The table \<open>sBox\<close> holds the rows of each S-box one after the other.\<close>

lemma sBox_rows: "map (map unat) sBox = map concat std_S" "list_all (list_all (\<lambda>r. length r = 16)) std_S"
  "length std_S = 8" "list_all (\<lambda>b. length b = 4) std_S" "list_all (list_all (list_all (\<lambda>v. v < 16))) std_S"
  by (simp_all add: sBox_def std_S_def)

lemma nth_concat_16:
  "list_all (\<lambda>r. length r = 16) rows \<Longrightarrow> i < length rows \<Longrightarrow> k < 16 \<Longrightarrow>
   concat rows ! (16 * i + k) = rows ! i ! k"
proof (induction rows arbitrary: i)
  case (Cons r rows)
  then show ?case by (cases i) (simp_all add: nth_append)
qed simp

lemma length_concat_16: "list_all (\<lambda>r. length r = 16) rows \<Longrightarrow> length (concat rows) = 16 * length rows"
  by (induction rows) simp_all

lemma bit_val_bounds: "bit_val [a, b] < 4" "bit_val [a, b, c, d] < 16"
  by (auto simp: bit_val_def of_bool_def)

lemma box_index:
  fixes x :: byte
  shows "unat ((x AND 0x20) OR drop_bit 1 (x AND 0x1e) OR push_bit 4 (x AND 0x01))
    = 16 * bit_val [bit x 5, bit x 0] + bit_val [bit x 4, bit x 3, bit x 2, bit x 1]"
proof -
  have "bits8 ((x AND 0x20) OR drop_bit 1 (x AND 0x1e) OR push_bit 4 (x AND 0x01))
      = [False, False, bit x 5, bit x 0, bit x 4, bit x 3, bit x 2, bit x 1]"
    by (simp add: bits8_def byte_bits) (simp add: eval_nat_numeral)
  then show ?thesis by (simp add: bit_val_bits8 [symmetric]) (simp add: bit_val_def)
qed

lemma bits_box:
  assumes "s < 8"
  shows "bits8 (si s x) = [False, False, False, False] @ std_box s (drop 2 (bits8 x))"
proof -
  define i where "i = bit_val [bit x 5, bit x 0]"
  define k where "k = bit_val [bit x 4, bit x 3, bit x 2, bit x 1]"
  have ik: "i < 4" "k < 16" by (simp_all add: i_def k_def bit_val_bounds)
  define v where "v = std_S ! s ! i ! k"
  have rows: "length (std_S ! s) = 4" "list_all (\<lambda>r. length r = 16) (std_S ! s)"
    "list_all (list_all (\<lambda>v. v < 16)) (std_S ! s)" "s < length sBox"
    using sBox_rows assms by (simp_all add: list_all_length sBox_def)
  have v: "v < 16" using rows ik by (simp add: v_def list_all_length)
  have "map unat (sBox ! s) = concat (std_S ! s)"
    using arg_cong [OF sBox_rows(1), of "\<lambda>l. l ! s"] rows assms sBox_rows(3) by simp
  moreover have "16 * i + k < length (concat (std_S ! s))"
    using length_concat_16 [OF rows(2)] rows(1) ik by simp
  ultimately have v_unat: "v = unat (sBox ! s ! (16 * i + k))"
    using nth_concat_16 [OF rows(2), of i k] rows(1) ik
    by (metis length_map nth_map v_def)
  then have e: "sBox ! s ! (16 * i + k) = of_nat v" by (simp add: v_unat)
  have "si s x = of_nat v AND 0x0f"
    unfolding si_def Let_def box_index i_def [symmetric] k_def [symmetric] e ..
  moreover have "std_box s (drop 2 (bits8 x)) = nibble v"
    by (simp add: std_box_def bits8_def i_def k_def v_def)
  ultimately show ?thesis using v
    by (simp add: bits8_def nibble_def bit_and_iff bit_of_nat_iff)
qed


lemma upto_4: "[0..<4] = [0, 1, 2, 3]"
  by code_simp

lemma bits_pair:
  assumes "take 4 (bits8 b) = [False, False, False, False]"
  shows "bits8 (push_bit 4 a OR b) = drop 4 (bits8 a) @ drop 4 (bits8 b)"
  using assms by (simp add: bits8_def byte_bits)

lemma bits_six_bits:
  assumes "length b = 6"
  shows "map (\<lambda>j. drop 2 (bits8 (six_bits b ! j))) [0..<8]
    = map (\<lambda>j. take 6 (drop (6 * j) (bits_of b))) [0..<8]"
proof -
  obtain b0 b1 b2 b3 b4 b5 where "b = [b0, b1, b2, b3, b4, b5]"
    using assms by (auto simp: length_Suc_conv numeral_eq_Suc)
  then show ?thesis by (simp add: six_bits_def bits8_def byte_bits upto_8)
qed

lemma bits_encry [std_bits]:
  assumes "4 \<le> length d" "length k = 6"
  shows "bits_of (encry d k) = std_f (bits_of k) (bits_of d)"
proof -
  define x where "x = map2 (XOR) (expand d) k"
  have x: "length x = 6" "bits_of x = xor_bits (select std_E (bits_of d)) (bits_of k)"
    using assms by (simp_all only: x_def bits_of_xor bits_expand length_permutations) simp
  define buf where "buf = map (\<lambda>i. si i (six_bits x ! i)) [0..<8]"
  have buf: "bits8 (buf ! j) = [False, False, False, False] @ std_box j (take 6 (drop (6 * j) (bits_of x)))"
    if "j < 8" for j
    using arg_cong [OF bits_six_bits [OF x(1)], of "\<lambda>l. l ! j"] that
    by (simp add: buf_def bits_box)
  define y where "y = map (\<lambda>i. push_bit 4 (buf ! (i * 2)) OR buf ! (i * 2 + 1)) [0..<4]"
  have "bits_of y = concat (map (\<lambda>j. std_box j (take 6 (drop (6 * j) (bits_of x)))) [0..<8])"
    by (simp add: y_def upto_8 upto_4 bits_pair buf bits_of_def)
  moreover have "select std_P (bits_of (y @ drop 4 x)) = select std_P (bits_of y)"
    using select_take [of std_P 32 "bits_of (y @ drop 4 x)"] by (simp add: std_P_def y_def)
  ultimately show ?thesis
    unfolding encry_def Let_def x_def [symmetric] buf_def [symmetric] std_f_def x(2) [symmetric]
      y_def [symmetric]
    by (subst bits_permutation) (simp_all add: y_def)
qed

section \<open>Blocks\<close>

definition halves_of :: "bytes \<Rightarrow> bool list \<times> bool list" where
  "halves_of out = (take 32 (bits_of out), drop 32 (bits_of out))"

lemma length_encry [simp]: "length (encry d k) = 4"
  by (simp add: encry_def Let_def)

lemma length_des_round [simp]: "length out = 8 \<Longrightarrow> length (des_round k out) = 8"
  by (simp add: des_round_def Let_def)

lemma halves_des_round:
  assumes "length out = 8" "length k = 6"
  shows "halves_of (des_round k out) = feistel_round std_f xor_bits (bits_of k) (halves_of out)"
proof -
  define R where "R = drop 4 out"
  have R: "length R = 4" "bits_of R = drop 32 (bits_of out)"
    using assms by (simp_all add: R_def bits_of_drop)
  have "bits_of (encry (R @ R) k) = std_f (bits_of k) (bits_of R @ bits_of R)"
    using R assms by (simp add: bits_encry)
  also have "\<dots> = std_f (bits_of k) (bits_of R)"
    using select_take [of std_E 32 "bits_of R @ bits_of R"] R(1) by (simp add: std_f_def std_E_def)
  finally have "bits_of (map2 (XOR) (take 4 out) (encry (R @ R) k))
      = xor_bits (take 32 (bits_of out)) (std_f (bits_of k) (bits_of R))"
    using assms by (simp only: bits_of_xor length_encry length_take bits_of_take) simp
  then show ?thesis
    using R assms by (simp add: halves_of_def des_round_def R_def [symmetric] feistel_round_def)
qed

lemma halves_des_rounds:
  "length out = 8 \<Longrightarrow> \<forall>k\<in>set ks. length k = 6 \<Longrightarrow>
   halves_of (fold des_round ks out)
     = fold (feistel_round std_f xor_bits) (map bits_of ks) (halves_of out)
   \<and> length (fold des_round ks out) = 8"
  by (induction ks arbitrary: out) (simp_all add: halves_des_round)

lemma bits_swap_halves:
  "length out = 8 \<Longrightarrow> bits_of (swap_halves out) = snd (halves_of out) @ fst (halves_of out)"
  by (simp add: swap_halves_def halves_of_def bits_of_drop bits_of_take)

lemma length_swap_halves [simp]: "length (swap_halves out) = length out"
  by (simp add: swap_halves_def)

lemma halves_initPermutation:
  "length d = 8 \<Longrightarrow> halves_of (initPermutation d)
     = (take 32 (select std_IP (bits_of d)), drop 32 (select std_IP (bits_of d)))"
  by (simp add: halves_of_def bits_initPermutation)

lemma fold_nth: "length ks = n \<Longrightarrow> fold (\<lambda>i. f (ks ! i)) [0..<n] = fold f ks"
  "length ks = n \<Longrightarrow> fold (\<lambda>i. f (ks ! i)) (rev [0..<n]) = fold f (rev ks)"
  using fold_map [of f "(!) ks" "[0..<n]"] fold_map [of f "(!) ks" "rev [0..<n]"] map_nth [of ks]
  by (simp_all add: comp_def rev_map [symmetric])

definition mode_keys :: "des_mode \<Rightarrow> bytes list \<Rightarrow> bytes list" where
  "mode_keys m ks = (case m of dmEncry \<Rightarrow> ks | dmDecry \<Rightarrow> rev ks)"

theorem desData_bits:
  assumes "length blk = 8" "length ks = 16" "\<forall>k\<in>set ks. length k = 6"
  shows "bits_of (desData m blk ks) = std_des (map bits_of (mode_keys m ks)) (bits_of blk)"
    and "length (desData m blk ks) = 8"
proof -
  have "desData m blk ks
      = conversePermutation (swap_halves (fold des_round (mode_keys m ks) (initPermutation blk)))"
    using assms by (simp add: desData_def Let_def fold_nth mode_keys_def split: des_mode.split)
  moreover have "\<forall>k\<in>set (mode_keys m ks). length k = 6"
    using assms by (cases m) (simp_all add: mode_keys_def)
  note r = halves_des_rounds [OF _ this, of "initPermutation blk"]
  ultimately show "bits_of (desData m blk ks) = std_des (map bits_of (mode_keys m ks)) (bits_of blk)"
    "length (desData m blk ks) = 8"
    using assms(1) halves_initPermutation [OF assms(1)]
    by (simp_all add: bits_conversePermutation bits_swap_halves std_des_def Let_def split_beta
        feistel_net_def)
qed

corollary desData_standard:
  assumes "length blk = 8" "length key = 8"
  shows "bits_of (desData dmEncry blk (makeKey key)) = std_encrypt (bits_of key) (bits_of blk)"
    and "bits_of (desData dmDecry blk (makeKey key)) = std_decrypt (bits_of key) (bits_of blk)"
  using assms by (simp_all add: desData_bits makeKey_rows mode_keys_def rev_map [symmetric] makeKey_bits
      std_encrypt_def std_decrypt_def)

corollary desData_back:
  assumes "length blk = 8" "length key = 8"
  shows "desData dmDecry (desData dmEncry blk (makeKey key)) (makeKey key) = blk"
proof -
  have len: "length (desData m b (makeKey key)) = 8" if "length b = 8" for m b
    using that by (simp add: desData_bits makeKey_rows)
  have "bits_of (desData dmDecry (desData dmEncry blk (makeKey key)) (makeKey key)) = bits_of blk"
    using assms by (simp add: desData_standard len std_decrypt_encrypt)
  then show ?thesis using assms by (subst (asm) bits_of_inj) (simp_all add: len)
qed

end
