(* ===== verification/Des_Text.thy ===== *)
theory Des_Text imports Des_Equiv begin

text \<open>
  The strings of \<open>soedes.go\<close>: padding, blocks, the hexadecimal text, and what \<open>PowerDecryStr\<close> makes of the output of
  \<open>PowerEncryStr\<close>.
\<close>

section \<open>Padding\<close>

lemma length_key_pad: "8 \<le> length (key_pad key)"
proof -
  have "8 < length (key_pad_loop key)" for key
    by (induction key rule: key_pad_loop.induct) (subst key_pad_loop.simps, simp)
  then show ?thesis by (simp add: key_pad_def less_imp_le)
qed

lemma str_pad_zeros: "\<exists>n. str_pad b = b @ replicate n 0 \<and> length (str_pad b) mod 8 = 0"
proof (induction b rule: str_pad.induct)
  case (1 b)
  show ?case
  proof (cases "length b mod 8 = 0")
    case True
    then have "str_pad b = b" by (subst str_pad.simps) simp
    then show ?thesis using True by (intro exI [of _ 0]) simp
  next
    case False
    then obtain n where "str_pad (b @ [0]) = (b @ [0]) @ replicate n 0"
      "length (str_pad (b @ [0])) mod 8 = 0" using 1 [OF False] by (elim exE conjE) (rule that)
    moreover have "str_pad b = str_pad (b @ [0])" using False by (subst str_pad.simps) simp
    ultimately show ?thesis by (intro exI [of _ "Suc n"]) simp
  qed
qed

lemma drop_zeros_done: "b = [] \<or> last b \<noteq> 0 \<Longrightarrow> drop_zeros b = b"
  by (subst drop_zeros.simps) auto

lemma drop_zeros_padded: "drop_zeros (b @ replicate n 0) = drop_zeros b"
proof (induction n)
  case (Suc n)
  have "drop_zeros ((b @ replicate n 0) @ [0]) = drop_zeros (b @ replicate n 0)"
    by (subst drop_zeros.simps) simp
  then show ?case using Suc by (simp add: replicate_append_same)
qed simp

section \<open>Blocks\<close>

lemma length_block_at [simp]: "length (block_at b i) = 8"
  by (simp add: block_at_def)

lemma block_at_take: "8 * i + 8 \<le> length b \<Longrightarrow> block_at b i = take 8 (drop (8 * i) b)"
  by (rule nth_equalityI) (simp_all add: block_at_def ac_simps)

lemma length_concat_blocks: "\<forall>i. length (f i) = 8 \<Longrightarrow> length (concat (map f [0..<n])) = 8 * n"
  by (induction n) simp_all

lemma drop_concat_blocks:
  assumes "\<forall>i. length (f i) = 8" "i < n"
  shows "take 8 (drop (8 * i) (concat (map f [0..<n]))) = f i"
proof -
  have "[0..<n] = [0..<i] @ i # [Suc i..<n]" using assms(2) upt_add_eq_append [of 0 i "n - i"]
    by (simp add: upt_conv_Cons)
  then show ?thesis using assms(1) by (simp add: length_concat_blocks)
qed

lemma block_at_concat:
  "\<forall>i. length (f i) = 8 \<Longrightarrow> i < n \<Longrightarrow> block_at (concat (map f [0..<n])) i = f i"
  by (subst block_at_take) (simp_all add: length_concat_blocks drop_concat_blocks)

lemma concat_blocks: "8 * n \<le> length b \<Longrightarrow> concat (map (block_at b) [0..<n]) = take (8 * n) b"
  by (induction n) (simp_all add: block_at_take take_add [symmetric] add.commute)

lemma length_sub_keys [simp]: "length (sub_keys key) = 16"
  by (simp add: sub_keys_def)

lemma length_desData:
  "length b = 8 \<Longrightarrow> length (desData m b (sub_keys key)) = 8"
  unfolding sub_keys_def by (intro desData_bits(2)) (simp_all add: makeKey_rows)

lemma length_des_blocks:
  "length b mod 8 = 0 \<Longrightarrow> length (des_blocks m b (sub_keys key)) = length b"
  by (simp add: des_blocks_def length_concat_blocks length_desData) presburger

lemma des_blocks_back:
  assumes "length b mod 8 = 0"
  shows "des_blocks dmDecry (des_blocks dmEncry b (sub_keys key)) (sub_keys key) = b"
proof -
  define n where "n = length b div 8"
  have len: "length b = 8 * n" using assms by (auto simp: n_def)
  have "des_blocks dmDecry (des_blocks dmEncry b (sub_keys key)) (sub_keys key)
    = concat (map (\<lambda>i. desData dmDecry (desData dmEncry (block_at b i) (sub_keys key)) (sub_keys key)) [0..<n])"
    unfolding des_blocks_def
    by (intro arg_cong [where f = concat] map_cong)
      (simp_all add: length_concat_blocks length_desData n_def block_at_concat)
  also have "\<dots> = concat (map (block_at b) [0..<n])"
    unfolding sub_keys_def by (simp add: desData_back)
  finally show ?thesis using len by (simp add: concat_blocks)
qed

section \<open>Hexadecimal text\<close>

lemma hex_table:
  "list_all (\<lambda>n. fromHexChar (if 97 \<le> hex_digit n \<and> hex_digit n \<le> 122 then hex_digit n - 32 else hex_digit n)
     = Some (of_nat n)) [0..<16]"
  by code_simp

lemma fromHexChar_upper:
  "n < 16 \<Longrightarrow> fromHexChar (if 97 \<le> hex_digit n \<and> hex_digit n \<le> 122 then hex_digit n - 32 else hex_digit n)
     = Some (of_nat n)"
  using hex_table by (simp add: list_all_iff)

lemma byte_halves:
  fixes b :: byte
  shows "push_bit 4 (drop_bit 4 b) OR (b AND 0x0f) = b" "unat (drop_bit 4 b) < 16" "unat (b AND 0x0f) < 16"
proof -
  have "bits8 (push_bit 4 (drop_bit 4 b) OR (b AND 0x0f)) = bits8 b"
    by (simp add: bits8_def byte_bits)
  then show "push_bit 4 (drop_bit 4 b) OR (b AND 0x0f) = b" by (simp add: bits8_inj)
  have "unat b < 2 ^ 8" using unsigned_less [of b] by simp
  then show "unat (drop_bit 4 b) < 16" unfolding unat_drop_bit_eq by (simp add: drop_bit_eq_div)
  show "unat (b AND 0x0f) < 16" using word_and_le1 [of b "0x0f"] by (simp add: word_le_nat_alt)
qed

lemma DecodeString_upper_hex: "DecodeString (ToUpper (EncodeToString s)) = Inr s"
  by (induction s)
    (simp_all add: EncodeToString_def ToUpper_def fromHexChar_upper byte_halves)

section \<open>The round trip\<close>

lemma EncryStr_cases:
  "EncryStr enc s key =
    (if s \<noteq> [] \<and> last s = 0 then Inl LastCharEmpty
     else Inr (des_blocks dmEncry (str_pad (enc s)) (sub_keys key)))"
  by (simp add: EncryStr_def)

theorem PowerDecryStr_PowerEncryStr:
  "if s \<noteq> [] \<and> last s = 0 then PowerEncryStr enc s key = Inl LastCharEmpty
   else \<exists>c. PowerEncryStr enc s key = Inr c \<and> PowerDecryStr dec c key = Inr (dec (drop_zeros (enc s)))"
proof -
  obtain n where n: "str_pad (enc s) = enc s @ replicate n 0" "length (str_pad (enc s)) mod 8 = 0"
    using str_pad_zeros [of "enc s"] by (elim exE conjE) (rule that)
  then have "drop_zeros (des_blocks dmDecry (des_blocks dmEncry (str_pad (enc s)) (sub_keys key)) (sub_keys key))
      = drop_zeros (enc s)"
    by (simp add: des_blocks_back drop_zeros_padded)
  then show ?thesis
    by (cases "s \<noteq> [] \<and> last s = 0")
      (simp_all add: PowerEncryStr_def PowerDecryStr_def EncryStr_cases DecryStr_def DecodeString_upper_hex)
qed

end
