(* ===== verification/Des_Ecb.thy ===== *)
theory Des_Ecb imports Des_Standard begin

text \<open>
  \<open>common/des/des.go\<close>: DES in ECB mode over Go's \<open>crypto/des\<close> (the cipher of \<open>Des_Standard\<close>), with PKCS 5 padding and
  base64 text. A failure the functions log and turn into the empty string is the empty list; a panic is
  \<^const>\<open>None\<close>.
\<close>

section \<open>Blocks of the standard cipher on bytes\<close>

function pack :: "bool list \<Rightarrow> bytes" where
  "pack bs = (if bs = [] then [] else of_nat (bit_val (take 8 bs)) # pack (drop 8 bs))"
  by auto
termination by (relation "measure length") auto

declare pack.simps [simp del]

definition block_Encrypt :: "bytes \<Rightarrow> bytes \<Rightarrow> bytes" where
  "block_Encrypt key blk = pack (std_encrypt (bits_of key) (bits_of blk))"

definition block_Decrypt :: "bytes \<Rightarrow> bytes \<Rightarrow> bytes" where
  "block_Decrypt key blk = pack (std_decrypt (bits_of key) (bits_of blk))"

text \<open>\<open>des.NewCipher\<close> takes keys of eight bytes only.\<close>

definition NewCipher :: "bytes \<Rightarrow> bytes option" where
  "NewCipher key = (if length key = 8 then Some key else None)"

text \<open>\<open>for len(data) > 0 { block.Encrypt(dst, data[:bs]); data = data[bs:]; dst = dst[bs:] }\<close>\<close>

function ecb_loop :: "(bytes \<Rightarrow> bytes) \<Rightarrow> bytes \<Rightarrow> bytes" where
  "ecb_loop f data = (if 0 < length data then f (take 8 data) @ ecb_loop f (drop 8 data) else [])"
  by auto
termination by (relation "measure (\<lambda>(_, data). length data)") auto

declare ecb_loop.simps [simp del]

section \<open>Padding\<close>

definition PKCS5Padding :: "bytes \<Rightarrow> nat \<Rightarrow> bytes" where
  "PKCS5Padding ciphertext blockSize =
     (let padding = blockSize - length ciphertext mod blockSize
      in ciphertext @ replicate padding (of_nat padding))"

text \<open>It panics on an empty slice, and when the last byte is larger than the length.\<close>

definition PKCS5UnPadding :: "bytes \<Rightarrow> bytes option" where
  "PKCS5UnPadding origData =
     (if origData = [] then None
      else let unpadding = unat (last origData)
           in if unpadding \<le> length origData then Some (take (length origData - unpadding) origData)
              else None)"

section \<open>base64.StdEncoding\<close>

definition b64_digit :: "nat \<Rightarrow> byte" where
  "b64_digit v =
     (if v < 26 then of_nat (65 + v) else if v < 52 then of_nat (71 + v)
      else if v < 62 then of_nat (v - 4) else if v = 62 then 43 else 47)"

definition b64_value :: "byte \<Rightarrow> nat option" where
  "b64_value c =
     (let n = unat c
      in if 65 \<le> n \<and> n \<le> 90 then Some (n - 65) else if 97 \<le> n \<and> n \<le> 122 then Some (n - 71)
         else if 48 \<le> n \<and> n \<le> 57 then Some (n + 4)
         else if n = 43 then Some 62 else if n = 47 then Some 63 else None)"

definition b64_digits :: "nat \<Rightarrow> bytes" where
  "b64_digits v = map b64_digit [v div 262144 mod 64, v div 4096 mod 64, v div 64 mod 64, v mod 64]"

fun b64_Encode :: "bytes \<Rightarrow> bytes" where
  "b64_Encode [] = []"
| "b64_Encode [a] = take 2 (b64_digits (65536 * unat a)) @ [61, 61]"
| "b64_Encode [a, b] = take 3 (b64_digits (65536 * unat a + 256 * unat b)) @ [61]"
| "b64_Encode (a # b # c # s) = b64_digits (65536 * unat a + 256 * unat b + unat c) @ b64_Encode s"

text \<open>\<open>quantum\<close> is the value of up to four digits, a missing one counting as 0.\<close>

fun quantum :: "bytes \<Rightarrow> nat option" where
  "quantum [a, b, c, d] =
     (case (b64_value a, b64_value b, b64_value c, b64_value d) of
        (Some a, Some b, Some c, Some d) \<Rightarrow> Some (262144 * a + 4096 * b + 64 * c + d)
      | _ \<Rightarrow> None)"
| "quantum _ = None"

text \<open>
  The decoder skips line ends. Padding is allowed at the end only; \<open>65\<close> is the digit of value 0.
\<close>

function b64_quanta :: "bytes \<Rightarrow> bytes option" where
  "b64_quanta s =
     (if s = [] then Some []
      else if length s = 4 \<and> drop 2 s = [61, 61]
      then map_option (\<lambda>v. [of_nat (v div 65536)]) (quantum (take 2 s @ [65, 65]))
      else if length s = 4 \<and> drop 3 s = [61]
      then map_option (\<lambda>v. [of_nat (v div 65536), of_nat (v div 256)]) (quantum (take 3 s @ [65]))
      else (case quantum (take 4 s) of
              None \<Rightarrow> None
            | Some v \<Rightarrow>
                map_option ((@) [of_nat (v div 65536), of_nat (v div 256), of_nat v])
                  (b64_quanta (drop 4 s))))"
  by auto
termination by (relation "measure length") auto

declare b64_quanta.simps [simp del]

definition b64_Decode :: "bytes \<Rightarrow> bytes option" where
  "b64_Decode s = b64_quanta (filter (\<lambda>c. c \<noteq> 10 \<and> c \<noteq> 13) s)"

section \<open>Encryption and decryption of a text\<close>

definition short_key :: "bytes \<Rightarrow> bytes" where
  "short_key key = (if 8 < length key then take 8 key else key)"

definition EntryptDesECB :: "bytes \<Rightarrow> bytes \<Rightarrow> bytes" where
  "EntryptDesECB data key =
     (case NewCipher (short_key key) of
        None \<Rightarrow> []
      | Some block \<Rightarrow>
          let data = PKCS5Padding data 8
          in if length data mod 8 \<noteq> 0 then []
             else b64_Encode (ecb_loop (block_Encrypt block) data))"

definition DecryptDESECB :: "bytes \<Rightarrow> bytes \<Rightarrow> bytes option" where
  "DecryptDESECB d key =
     (case b64_Decode d of
        None \<Rightarrow> Some []
      | Some data \<Rightarrow>
          (case NewCipher (short_key key) of
             None \<Rightarrow> Some []
           | Some block \<Rightarrow>
               if length data mod 8 \<noteq> 0 then Some []
               else PKCS5UnPadding (ecb_loop (block_Decrypt block) data)))"

section \<open>Lemmas\<close>

lemma pack_bits_of [simp]: "pack (bits_of d) = d"
proof (induction d)
  case Nil then show ?case by (simp add: pack.simps)
next
  case (Cons b d)
  have "bits8 b \<noteq> []" by (simp add: bits8_def)
  then show ?case using Cons by (subst pack.simps) (simp add: bit_val_bits8)
qed

lemma bits8_of_val: "length l = 8 \<Longrightarrow> bits8 (of_nat (bit_val l)) = l"
  by (rule nth_equalityI)
    (auto simp: nth_bits8 bit_of_nat_iff bit_val_horner bit_horner_sum_bit_iff rev_nth)

lemma bits_of_pack: "length bs mod 8 = 0 \<Longrightarrow> bits_of (pack bs) = bs"
proof (induction bs rule: pack.induct)
  case (1 bs)
  show ?case
  proof (cases "bs = []")
    case False
    then have len: "8 \<le> length bs" using 1(2) by (cases "length bs < 8") simp_all
    then have "bits_of (pack (drop 8 bs)) = drop 8 bs"
      using 1 False by (simp add: mod_if [of "length bs"] linorder_not_less)
    moreover have "pack bs = of_nat (bit_val (take 8 bs)) # pack (drop 8 bs)"
      using False by (subst pack.simps) simp
    ultimately show ?thesis using len by (simp add: bits8_of_val)
  qed (simp add: pack.simps)
qed

lemma block_Decrypt_Encrypt:
  assumes "length blk = 8"
  shows "block_Decrypt key (block_Encrypt key blk) = blk"
proof -
  have "bits_of (block_Encrypt key blk) = std_encrypt (bits_of key) (bits_of blk)"
    by (simp add: block_Encrypt_def bits_of_pack std_encrypt_def)
  then show ?thesis using assms by (simp add: block_Decrypt_def std_decrypt_encrypt)
qed

lemma length_block_Encrypt [simp]: "length (block_Encrypt key blk) = 8"
proof -
  have "length (bits_of (block_Encrypt key blk)) = 64"
    unfolding block_Encrypt_def by (subst bits_of_pack) (simp_all add: std_encrypt_def)
  then show ?thesis by simp
qed

lemma ecb_loop_Nil [simp]: "ecb_loop f [] = []"
  by (subst ecb_loop.simps) simp

lemma ecb_loop_block: "length b = 8 \<Longrightarrow> ecb_loop f (b @ s) = f b @ ecb_loop f s"
  by (subst ecb_loop.simps) auto

lemma ecb_loop_back:
  assumes "length d mod 8 = 0"
    and f: "\<And>b. length b = 8 \<Longrightarrow> g (f b) = b \<and> length (f b) = 8"
  shows "ecb_loop g (ecb_loop f d) = d \<and> length (ecb_loop f d) = length d"
  using assms(1)
proof (induction "length d" arbitrary: d rule: less_induct)
  case less
  show ?case
  proof (cases "d = []")
    case False
    then have len: "8 \<le> length d" using less(2) by (cases "length d < 8") simp_all
    have "ecb_loop f (take 8 d @ drop 8 d) = f (take 8 d) @ ecb_loop f (drop 8 d)"
      using len by (intro ecb_loop_block) simp
    then have e: "ecb_loop f d = f (take 8 d) @ ecb_loop f (drop 8 d)" by simp
    have "length (drop 8 d) mod 8 = 0" using less(2) len by (simp add: mod_if [of "length d"] linorder_not_less)
    then show ?thesis
      using less(1) [of "drop 8 d"] f [of "take 8 d"] False len by (simp add: e ecb_loop_block)
  qed simp
qed

lemma unpad_pad: "PKCS5UnPadding (PKCS5Padding d 8) = Some d"
proof -
  define p where "p = 8 - length d mod 8"
  have p: "0 < p" "p \<le> 8" by (simp_all add: p_def)
  then have "unat (of_nat p :: byte) = p" by (simp add: unat_of_nat)
  then show ?thesis
    using p by (simp add: PKCS5UnPadding_def PKCS5Padding_def p_def [symmetric] Let_def last_replicate)
qed

lemma length_padded: "length (PKCS5Padding d 8) mod 8 = 0"
proof -
  have "(n + (8 - n mod 8)) mod 8 = 0" for n :: nat by presburger
  then show ?thesis by (simp add: PKCS5Padding_def Let_def)
qed

lemma b64_table:
  "list_all (\<lambda>v. b64_value (b64_digit v) = Some v \<and> b64_digit v \<noteq> 61 \<and> b64_digit v \<noteq> 10 \<and> b64_digit v \<noteq> 13)
     [0..<64]"
  by code_simp

lemma b64_digit_simps [simp]:
  "v < 64 \<Longrightarrow> b64_value (b64_digit v) = Some v" "v < 64 \<Longrightarrow> b64_digit v \<noteq> 61"
  "v < 64 \<Longrightarrow> b64_digit v \<noteq> 10" "v < 64 \<Longrightarrow> b64_digit v \<noteq> 13"
  using b64_table by (simp_all add: list_all_iff)

lemma b64_A [simp]: "b64_value 65 = Some 0"
  by code_simp

lemma base_64:
  fixes v :: nat
  shows "262144 * (v div 262144) + 4096 * (v div 4096 mod 64) + 64 * (v div 64 mod 64) + v mod 64 = v"
proof -
  define a where "a = v div 64"
  define b where "b = a div 64"
  have eq: "v div 4096 = b" "v div 262144 = b div 64"
    by (simp_all add: a_def b_def div_mult2_eq [symmetric])
  have "64 * a + v mod 64 = v" "64 * b + a mod 64 = a" "64 * (b div 64) + b mod 64 = b"
    by (simp_all add: a_def b_def)
  then show ?thesis unfolding eq a_def [symmetric] by linarith
qed

lemma quantum_digits: "v < 16777216 \<Longrightarrow> quantum (b64_digits v) = Some v"
  by (simp add: b64_digits_def base_64)

lemma length_b64_digits [simp]: "length (b64_digits v) = 4"
  by (simp add: b64_digits_def)

lemma b64_digits_set: "c \<in> set (b64_digits v) \<Longrightarrow> c \<noteq> 61 \<and> c \<noteq> 10 \<and> c \<noteq> 13"
  by (auto simp: b64_digits_def)

lemma unat_byte_less: "unat (b :: byte) < 256"
  using unsigned_less [of b] by simp

lemma b64_split:
  fixes a b c :: byte
  defines "v \<equiv> 65536 * unat a + 256 * unat b + unat c"
  shows "v < 16777216" "(of_nat (v div 65536) :: byte) = a" "(of_nat (v div 256) :: byte) = b" "(of_nat v :: byte) = c"
proof -
  have less: "unat a < 256" "unat b < 256" "unat c < 256" by (simp_all add: unat_byte_less)
  then show "v < 16777216" by (simp add: v_def)
  have "v = 256 * (256 * unat a + unat b) + unat c" by (simp add: v_def)
  then have v256: "v mod 256 = unat c" using less by (metis mod_less mod_mult_self4)
  have d: "v div 65536 = unat a" "v div 256 = 256 * unat a + unat b"
    using less by (simp_all add: v_def)
  show "(of_nat (v div 65536) :: byte) = a" "(of_nat (v div 256) :: byte) = b" "(of_nat v :: byte) = c"
    using less unfolding word_unat_eq_iff unat_of_nat d by (simp_all add: v256 v_def [symmetric])
qed

lemma b64_quanta_Encode: "b64_quanta (b64_Encode s) = Some s"
proof (induction s rule: b64_Encode.induct)
  case 1 then show ?case by (simp add: b64_quanta.simps)
next
  case (2 a)
  define v where "v = 65536 * unat a"
  note v = b64_split [of a 0 0, unfolded unsigned_0 mult_0_right add_0_right, folded v_def]
  have "v < 16777216" using unat_byte_less [of a] by (simp add: v_def)
  then have "v div 262144 < 64" by simp
  moreover  have "v div 64 mod 64 = 0" "v mod 64 = 0" by (simp_all add: v_def)
  ultimately have "quantum (take 2 (b64_digits v) @ [65, 65]) = Some v"
    using base_64 [of v] by (simp add: b64_digits_def)
  then show ?case using v by (subst b64_quanta.simps) (simp add: v_def [symmetric])
next
  case (3 a b)
  define v where "v = 65536 * unat a + 256 * unat b"
  note v = b64_split [of a b 0, unfolded unsigned_0 add_0_right, folded v_def]
  have "v = 64 * (1024 * unat a + 4 * unat b)" by (simp add: v_def)
  then have "v mod 64 = 0" by (metis mod_mult_self1_is_0)
  then have "quantum (take 3 (b64_digits v) @ [65]) = Some v"
    using base_64 [of v] v(1) by (simp add: b64_digits_def)
  moreover have "drop 2 (take 3 (b64_digits v) @ [61]) \<noteq> [61, 61]" by (simp add: b64_digits_def)
  ultimately show ?case using v by (subst b64_quanta.simps) (simp add: v_def [symmetric])
next
  case (4 a b c s)
  define v where "v = 65536 * unat a + 256 * unat b + unat c"
  note v = b64_split [of a b c, folded v_def]
  have "b64_digits v \<noteq> []" "drop 2 (b64_digits v @ b64_Encode s) \<noteq> [61, 61]" "drop 3 (b64_digits v @ b64_Encode s) \<noteq> [61]"
    by (simp_all add: b64_digits_def)
  then show ?case using v 4 by (subst b64_quanta.simps) (simp add: v_def [symmetric] quantum_digits)
qed

lemma b64_Encode_no_newline: "c \<in> set (b64_Encode s) \<Longrightarrow> c \<noteq> 10 \<and> c \<noteq> 13"
  by (induction s rule: b64_Encode.induct) (auto dest: b64_digits_set in_set_takeD)

lemma b64_Decode_Encode: "b64_Decode (b64_Encode s) = Some s"
proof -
  have "filter (\<lambda>c. c \<noteq> 10 \<and> c \<noteq> 13) (b64_Encode s) = b64_Encode s"
    by (rule filter_True) (auto dest: b64_Encode_no_newline)
  then show ?thesis by (simp add: b64_Decode_def b64_quanta_Encode)
qed

section \<open>The round trip\<close>

theorem DecryptDESECB_EntryptDesECB:
  assumes "8 \<le> length key"
  shows "DecryptDESECB (EntryptDesECB d key) key = Some d"
proof -
  have key: "NewCipher (short_key key) = Some (take 8 key)"
    using assms by (auto simp: NewCipher_def short_key_def)
  define p where "p = PKCS5Padding d 8"
  have p: "length p mod 8 = 0" "PKCS5UnPadding p = Some d"
    by (simp_all add: p_def length_padded unpad_pad)
  then have "ecb_loop (block_Decrypt k) (ecb_loop (block_Encrypt k) p) = p"
    "length (ecb_loop (block_Encrypt k) p) = length p" for k
    using ecb_loop_back [OF p(1), of "block_Decrypt k" "block_Encrypt k"]
    by (simp_all add: block_Decrypt_Encrypt)
  then show ?thesis
    using p by (simp add: EntryptDesECB_def DecryptDESECB_def key Let_def p_def [symmetric] b64_Decode_Encode)
qed

end
