(* ===== verification/Props_Des.thy ===== *)
theory Props_Des imports Des_Text Des_Ecb begin

text \<open>
  The properties of the two DES packages: the bytes of \<open>soedes.go\<close> are the cipher of FIPS 46-3, and each package
  reads back what it wrote.
\<close>

text \<open>
  C4: The hand-written DES of \<open>soedes.go\<close>, with its key schedule, computes the Data Encryption Standard: for every
  block and every key of eight bytes, \<open>desData\<close> under the keys of \<open>makeKey\<close> gives, bit for bit, the
  encryption, or the decryption, of FIPS 46-3.
\<close>

theorem powerdes_is_des:
  assumes "length blk = 8" and "length key = 8"
  shows "bits_of (desData dmEncry blk (makeKey key)) = std_encrypt (bits_of key) (bits_of blk) \<and>
    bits_of (desData dmDecry blk (makeKey key)) = std_decrypt (bits_of key) (bits_of blk) \<and>
    map bits_of (makeKey key) = std_keys (bits_of key)"
  using assms by (simp add: desData_standard makeKey_bits)

theorem powerdes_is_des_witness:
  "bits_of (desData dmEncry [0x01, 0x23, 0x45, 0x67, 0x89, 0xab, 0xcd, 0xef]
      (makeKey [0x13, 0x34, 0x57, 0x79, 0x9b, 0xbc, 0xdf, 0xf1]))
   = std_encrypt (bits_of [0x13, 0x34, 0x57, 0x79, 0x9b, 0xbc, 0xdf, 0xf1])
       (bits_of [0x01, 0x23, 0x45, 0x67, 0x89, 0xab, 0xcd, 0xef])"
  by (rule powerdes_is_des [THEN conjunct1]) simp_all

text \<open>
  C28: What \<open>PowerDecryStr\<close> makes of the output of \<open>PowerEncryStr\<close>, for every text and every key, whatever the GBK
  encoder and decoder do. A text that ends in a zero byte is refused with \<open>LastCharEmpty\<close>. Any other text is
  encrypted, and what comes back is its GBK encoding, less the zero bytes at its end, decoded: the text itself
  whenever its GBK encoding does not end in a zero byte and decodes to it, and otherwise, a text outside GBK, what
  the decoder makes of those bytes.
\<close>

theorem powerdes_roundtrip:
  "if s \<noteq> [] \<and> last s = 0 then PowerEncryStr enc s key = Inl LastCharEmpty
   else \<exists>c r. PowerEncryStr enc s key = Inr c \<and> PowerDecryStr dec c key = Inr r \<and>
     r = dec (drop_zeros (enc s)) \<and> (dec (enc s) = s \<and> (enc s = [] \<or> last (enc s) \<noteq> 0) \<longrightarrow> r = s)"
  using PowerDecryStr_PowerEncryStr [of s enc key dec] drop_zeros_done [of "enc s"] by auto

theorem powerdes_roundtrip_witness:
  "(\<exists>c. PowerEncryStr id (bytes_of ''soelib'') PowerDesKey = Inr c \<and>
       PowerDecryStr id c PowerDesKey = Inr (bytes_of ''soelib'')) \<and>
   PowerEncryStr id (bytes_of ''soelib'' @ [0]) PowerDesKey = Inl LastCharEmpty \<and>
   (\<exists>c. PowerEncryStr (\<lambda>_. [0x3F]) [0xE2, 0x82, 0xAC] PowerDesKey = Inr c \<and>
       PowerDecryStr id c PowerDesKey = Inr [0x3F])"
proof (intro conjI)
  show "\<exists>c. PowerEncryStr id (bytes_of ''soelib'') PowerDesKey = Inr c \<and>
       PowerDecryStr id c PowerDesKey = Inr (bytes_of ''soelib'')"
    using powerdes_roundtrip [of "bytes_of ''soelib''" id PowerDesKey id] by (auto simp: bytes_of_def of_char_def)
  show "PowerEncryStr id (bytes_of ''soelib'' @ [0]) PowerDesKey = Inl LastCharEmpty"
    using powerdes_roundtrip [of "bytes_of ''soelib'' @ [0]" id PowerDesKey id] by simp
  show "\<exists>c. PowerEncryStr (\<lambda>_. [0x3F]) [0xE2, 0x82, 0xAC] PowerDesKey = Inr c \<and>
       PowerDecryStr id c PowerDesKey = Inr [0x3F]"
    using powerdes_roundtrip [of "[0xE2, 0x82, 0xAC]" "\<lambda>_. [0x3F]" PowerDesKey id] drop_zeros_done [of "[0x3F]"]
    by auto
qed

text \<open>
  \<open>DecryptDESECB\<close> gives back the text that \<open>EntryptDesECB\<close> was given, for every text and every key of at
  least eight bytes.
\<close>

theorem ecb_roundtrip:
  assumes "8 \<le> length key"
  shows "DecryptDESECB (EntryptDesECB d key) key = Some d"
  using assms by (rule DecryptDESECB_EntryptDesECB)

theorem ecb_roundtrip_witness:
  "DecryptDESECB (EntryptDesECB [] (bytes_of ''www.soe.xin'')) (bytes_of ''www.soe.xin'') = Some []"
  by (rule ecb_roundtrip) (simp add: bytes_of_def)

text \<open>
  \<open>DecryptDESECB\<close> of the empty text panics under every usable key: \<open>PKCS5UnPadding\<close> reads the last byte of an
  empty slice. Under a shorter key the same call returns the empty string, as for any other bad input.
\<close>

theorem ecb_empty_panics:
  "DecryptDESECB [] key = (if 8 \<le> length key then None else Some [])"
proof -
  have "b64_Decode [] = Some []" by (simp add: b64_Decode_def b64_quanta.simps)
  then show ?thesis
    by (simp add: DecryptDESECB_def NewCipher_def short_key_def PKCS5UnPadding_def)
qed

end
