(* ===== verification/Wheel.thy ===== *)
theory Wheel imports Prelude "HOL-Library.Signed_Division" begin

text \<open>
  \<open>tools/lucslot\<close>: the timing wheel for delayed tasks, 3600 slots of one second. Times are seconds since the
  epoch, as the code cuts them by formatting and parsing; what \<open>time.Now()\<close> gives is an argument. \<open>taskLoop\<close> only
  submits the visit of a slot to the worker pool: the visit is a closure that runs later, so \<open>tick\<close> and
  \<open>run_pass\<close> are separate steps here, and whether the pool takes the closure is an argument of \<open>tick\<close>. The task
  function \<open>'f\<close> and its parameters \<open>'p\<close> are opaque; \<open>started\<close> records the goroutines started for them.
\<close>

section \<open>State\<close>

record ('f, 'p) Task =
  turnNum :: int
  isUnique :: bool
  texec :: 'f
  tparams :: 'p

record ('f, 'p) wheel =
  slots :: "(string \<times> ('f, 'p) Task) list list"
  curIndex :: int
  globAllKeys :: "string set"
  checkTime :: int
  wNow :: int
  passes :: "int list"
  started :: "(string \<times> 'f \<times> 'p) list"

text \<open>\<open>newSlots\<close> reads the clock twice, \<open>Run\<close> once more.\<close>

definition newSlots :: "int \<Rightarrow> int \<Rightarrow> ('f, 'p) wheel" where
  "newSlots now now' =
     \<lparr>slots = replicate 3600 [], curIndex = 0, globAllKeys = {}, checkTime = now' - now' mod 3600,
      wNow = now, passes = [], started = []\<rparr>"

definition run_start :: "int \<Rightarrow> ('f, 'p) wheel \<Rightarrow> ('f, 'p) wheel" where
  "run_start now w =
     (let subSecond = now - checkTime w + 1
      in w\<lparr>curIndex := subSecond smod 3600, wNow := now\<rparr>)"

section \<open>The visit of a slot\<close>

text \<open>\<open>for k, v := range tasks\<close>: the tasks that stay, and the tasks started.\<close>

fun visit :: "(string \<times> ('f, 'p) Task) list \<Rightarrow>
    (string \<times> ('f, 'p) Task) list \<times> (string \<times> ('f, 'p) Task) list" where
  "visit [] = ([], [])"
| "visit ((k, v) # tasks) =
     (let (kept, run) = visit tasks
      in if turnNum v = 0 then (kept, (k, v) # run)
         else ((k, v\<lparr>turnNum := turnNum v - 1\<rparr>) # kept, run))"

text \<open>The closure of \<open>taskLoop\<close>; out of the array it panics, which the pool recovers.\<close>

definition slot_pass :: "int \<Rightarrow> ('f, 'p) wheel \<Rightarrow> ('f, 'p) wheel" where
  "slot_pass ix w =
     (if 0 \<le> ix \<and> ix < int (length (slots w))
      then let (kept, run) = visit (slots w ! nat ix)
           in w\<lparr>slots := (slots w)[nat ix := kept],
                globAllKeys := globAllKeys w - set (map fst (filter (isUnique \<circ> snd) run)),
                started := started w @ map (\<lambda>(k, v). (k, texec v, tparams v)) run\<rparr>
      else w)"

definition taskLoop :: "bool \<Rightarrow> ('f, 'p) wheel \<Rightarrow> ('f, 'p) wheel" where
  "taskLoop accepted w = (if accepted then w\<lparr>passes := passes w @ [curIndex w]\<rparr> else w)"

text \<open>What \<open>Run\<close> does when the ticker fires.\<close>

definition tick :: "bool \<Rightarrow> ('f, 'p) wheel \<Rightarrow> ('f, 'p) wheel" where
  "tick accepted w =
     (let w = taskLoop accepted (w\<lparr>wNow := wNow w + 1\<rparr>)
      in if curIndex w = 3599 then w\<lparr>curIndex := 0, checkTime := checkTime w + 3600\<rparr>
         else w\<lparr>curIndex := curIndex w + 1\<rparr>)"

text \<open>The pool runs the oldest visit it holds.\<close>

definition run_pass :: "('f, 'p) wheel \<Rightarrow> ('f, 'p) wheel" where
  "run_pass w =
     (case passes w of
        [] \<Rightarrow> w
      | ix # rest \<Rightarrow> slot_pass ix (w\<lparr>passes := rest\<rparr>))"

section \<open>Adding a task\<close>

datatype add_error =
    TimeError
  | KeyInSlot string
  | KeyRepeated string

definition AddTask :: "int \<Rightarrow> string \<Rightarrow> 'f \<Rightarrow> 'p \<Rightarrow> bool \<Rightarrow> ('f, 'p) wheel \<Rightarrow> ('f, 'p) wheel \<times> add_error option" where
  "AddTask t key f p u w =
     (if wNow w \<ge> t then (w, Some TimeError)
      else
        let subSecond = t - wNow w - 1;
            turn = subSecond sdiv 3600;
            ix = nat ((t - checkTime w) smod 3600);
            tasks = slots w ! ix
        in if key \<in> set (map fst tasks) then (w, Some (KeyInSlot key))
           else if u \<and> key \<in> globAllKeys w then (w, Some (KeyRepeated key))
           else
             (w\<lparr>slots := (slots w)[ix := tasks @ [(key, \<lparr>turnNum = turn, isUnique = u, texec = f, tparams = p\<rparr>)]],
                globAllKeys := (if u then insert key (globAllKeys w) else globAllKeys w)\<rparr>, None))"

section \<open>The calendar it implements\<close>

text \<open>
  An entry is the second a task is due, its key, function, parameters and whether its key is unique. The task
  with \<open>turnNum = n\<close> in slot \<open>ix\<close> is due at the \<open>n+1\<close>st visit of the slot from now on.
\<close>

type_synonym ('f, 'p) entry = "int \<times> string \<times> 'f \<times> 'p \<times> bool"

definition due :: "('f, 'p) wheel \<Rightarrow> nat \<Rightarrow> ('f, 'p) Task \<Rightarrow> int" where
  "due w ix v = wNow w + 1 + (int ix - curIndex w) mod 3600 + 3600 * turnNum v"

definition slot_entries :: "('f, 'p) wheel \<Rightarrow> nat \<Rightarrow> ('f, 'p) entry set" where
  "slot_entries w ix = (\<lambda>(k, v). (due w ix v, k, texec v, tparams v, isUnique v)) ` set (slots w ! ix)"

definition entries :: "('f, 'p) wheel \<Rightarrow> ('f, 'p) entry set" where
  "entries w = (\<Union>ix\<in>{..<3600}. slot_entries w ix)"

definition wheel_ok :: "('f, 'p) wheel \<Rightarrow> bool" where
  "wheel_ok w \<longleftrightarrow> length (slots w) = 3600 \<and> 0 \<le> curIndex w \<and> curIndex w < 3600 \<and>
     curIndex w = (wNow w + 1 - checkTime w) mod 3600 \<and> checkTime w \<le> wNow w + 1 \<and> passes w = [] \<and>
     (\<forall>ix<3600. distinct (map fst (slots w ! ix)) \<and> (\<forall>(k, v)\<in>set (slots w ! ix). 0 \<le> turnNum v)) \<and>
     globAllKeys w = {k. \<exists>ix<3600. \<exists>v. (k, v) \<in> set (slots w ! ix) \<and> isUnique v} \<and>
     (\<forall>k. \<forall>ix<3600. \<forall>jx<3600. \<forall>v v'. (k, v) \<in> set (slots w ! ix) \<longrightarrow> (k, v') \<in> set (slots w ! jx) \<longrightarrow>
        isUnique v \<longrightarrow> isUnique v' \<longrightarrow> ix = jx)"

text \<open>The abstract operations: an error as the code reports it, and what a second starts.\<close>

definition cal_error :: "int \<Rightarrow> int \<Rightarrow> string \<Rightarrow> bool \<Rightarrow> ('f, 'p) entry set \<Rightarrow> add_error option" where
  "cal_error now t key u E =
     (if t \<le> now then Some TimeError
      else if \<exists>(d, k, _)\<in>E. k = key \<and> d mod 3600 = t mod 3600 then Some (KeyInSlot key)
      else if u \<and> (\<exists>(_, k, _, _, u')\<in>E. k = key \<and> u') then Some (KeyRepeated key)
      else None)"

text \<open>A second in which the pool runs the visit at once.\<close>

definition tick_now :: "('f, 'p) wheel \<Rightarrow> ('f, 'p) wheel" where
  "tick_now w = run_pass (tick True w)"

section \<open>Where a task is\<close>

lemma mod_gap:
  fixes a c :: int
  assumes "0 \<le> a" "a < 3600" "0 \<le> c" "c < 3600"
  shows "(a - c) mod 3600 = (if c \<le> a then a - c else a - c + 3600)"
proof (cases "c \<le> a")
  case False
  have "(a - c) mod 3600 = (a - c + 3600) mod 3600" by simp
  also have "\<dots> = a - c + 3600" using False assms by (intro mod_pos_pos_trivial) linarith+
  finally show ?thesis using False by simp
qed (use assms in \<open>simp add: mod_pos_pos_trivial\<close>)

lemma mod_3600: "((a :: int) + b mod 3600 + 3600 * t) mod 3600 = (a mod 3600 + b) mod 3600"
  by (simp only: mod_mult_self2 mod_add_right_eq mod_add_left_eq)

lemma slot_of_due:
  assumes "wheel_ok w" "ix < 3600"
  shows "(due w ix v - checkTime w) mod 3600 = int ix"
proof -
  have "(due w ix v - checkTime w) mod 3600
      = ((wNow w + 1 - checkTime w) + (int ix - curIndex w) mod 3600 + 3600 * turnNum v) mod 3600"
    by (simp add: due_def algebra_simps)
  also have "\<dots> = (curIndex w + (int ix - curIndex w)) mod 3600"
    using assms(1) unfolding mod_3600 by (simp add: wheel_ok_def)
  finally show ?thesis using assms(2) by simp
qed

lemma due_bounds:
  assumes "wheel_ok w" "ix < 3600" "(k, v) \<in> set (slots w ! ix)"
  shows "wNow w < due w ix v"
    and "due w ix v = wNow w + 1 \<longleftrightarrow> int ix = curIndex w \<and> turnNum v = 0"
proof -
  have t: "0 \<le> turnNum v" and c: "0 \<le> curIndex w" "curIndex w < 3600" using assms by (auto simp: wheel_ok_def)
  have m: "0 \<le> (int ix - curIndex w) mod 3600" by simp
  then show "wNow w < due w ix v" using t by (simp add: due_def)
  have "(int ix - curIndex w) mod 3600 = 0 \<longleftrightarrow> int ix = curIndex w"
    using c assms(2) by (subst mod_gap) auto
  then show "due w ix v = wNow w + 1 \<longleftrightarrow> int ix = curIndex w \<and> turnNum v = 0"
    using t m by (auto simp: due_def)
qed

section \<open>A second passes\<close>

lemma visit_sets:
  "set (fst (visit tasks)) = (\<lambda>(k, v). (k, v\<lparr>turnNum := turnNum v - 1\<rparr>)) ` {(k, v) \<in> set tasks. turnNum v \<noteq> 0}"
  "set (snd (visit tasks)) = {(k, v) \<in> set tasks. turnNum v = 0}"
  by (induction tasks rule: visit.induct) (auto split: prod.splits simp: Let_def)

lemma visit_keys:
  "map fst (fst (visit tasks)) = map fst (filter (\<lambda>(k, v). turnNum v \<noteq> 0) tasks)"
  "snd (visit tasks) = filter (\<lambda>(k, v). turnNum v = 0) tasks"
  by (induction tasks rule: visit.induct) (auto split: prod.splits simp: Let_def)

lemma tick_now_fields:
  assumes "wheel_ok w"
  shows "slots (tick_now w) = (slots w)[nat (curIndex w) := fst (visit (slots w ! nat (curIndex w)))]"
    and "globAllKeys (tick_now w)
      = globAllKeys w - set (map fst (filter (isUnique \<circ> snd) (snd (visit (slots w ! nat (curIndex w))))))"
    and "started (tick_now w)
      = started w @ map (\<lambda>(k, v). (k, texec v, tparams v)) (snd (visit (slots w ! nat (curIndex w))))"
    and "wNow (tick_now w) = wNow w + 1" and "passes (tick_now w) = []"
    and "curIndex (tick_now w) = (curIndex w + 1) mod 3600"
    and "checkTime (tick_now w) = checkTime w + (if curIndex w = 3599 then 3600 else 0)"
  using assms
  by (auto simp: wheel_ok_def tick_now_def tick_def taskLoop_def run_pass_def slot_pass_def Let_def split_beta)

lemma due_tick_now:
  assumes "wheel_ok w" "ix < 3600"
  shows "due (tick_now w) ix v = due w ix v + (if int ix = curIndex w then 3600 else 0)"
proof -
  have c: "0 \<le> curIndex w" "curIndex w < 3600" using assms by (auto simp: wheel_ok_def)
  have "(curIndex w + 1) mod 3600 = (if curIndex w = 3599 then 0 else curIndex w + 1)"
    using c by (auto intro: mod_pos_pos_trivial)
  then have "(int ix - (curIndex w + 1) mod 3600) mod 3600
      = (int ix - curIndex w) mod 3600 + (if int ix = curIndex w then 3600 else 0) - 1"
    using c assms(2) mod_gap [of "int ix" "curIndex w"] mod_gap [of "int ix" "(curIndex w + 1) mod 3600"]
    by auto
  then show ?thesis by (simp add: due_def tick_now_fields [OF assms(1)])
qed


lemma nth_tick_now:
  assumes "wheel_ok w" "ix < 3600"
  shows "slots (tick_now w) ! ix
    = (if int ix = curIndex w then fst (visit (slots w ! ix)) else slots w ! ix)"
  using assms by (auto simp: tick_now_fields nth_list_update wheel_ok_def)

lemma slot_entries_tick_now:
  assumes "wheel_ok w" "ix < 3600"
  shows "slot_entries (tick_now w) ix = {e \<in> slot_entries w ix. fst e \<noteq> wNow w + 1}"
proof (cases "int ix = curIndex w")
  case True
  have "due (tick_now w) ix (v\<lparr>turnNum := turnNum v - 1\<rparr>) = due w ix v" for v
    using True by (simp add: due_tick_now [OF assms]) (simp add: due_def)
  then show ?thesis
    using True due_bounds(2) [OF assms]
    by (auto simp: slot_entries_def nth_tick_now [OF assms] visit_sets image_iff split_beta)
      (metis fst_conv snd_conv)
next
  case False
  then show ?thesis
    using due_bounds(2) [OF assms]
    by (auto simp: slot_entries_def nth_tick_now [OF assms] due_tick_now [OF assms] image_iff split_beta)
qed

lemma entries_tick_now:
  "wheel_ok w \<Longrightarrow> entries (tick_now w) = {e \<in> entries w. fst e \<noteq> wNow w + 1}"
  by (auto simp: entries_def slot_entries_tick_now)

text \<open>What is started: the tasks due in this second, each once.\<close>

lemma started_tick_now:
  assumes "wheel_ok w"
  shows "\<exists>run. started (tick_now w) = started w @ run \<and> distinct (map fst run) \<and>
    set run = {(k, f, p). \<exists>u. (wNow w + 1, k, f, p, u) \<in> entries w}"
proof -
  define ix where "ix = nat (curIndex w)"
  have ix: "ix < 3600" "int ix = curIndex w" using assms by (auto simp: wheel_ok_def ix_def)
  define run where "run = map (\<lambda>(k, v). (k, texec v, tparams v)) (snd (visit (slots w ! ix)))"
  have "distinct (map fst (filter (\<lambda>(k, v). turnNum v = 0) (slots w ! ix)))"
    using assms ix by (auto simp: wheel_ok_def intro: distinct_map_filter)
  then have "distinct (map fst run)"
    by (simp add: run_def visit_keys comp_def split_beta)
  moreover have "set run = {(k, f, p). \<exists>u. (wNow w + 1, k, f, p, u) \<in> entries w}" (is "_ = ?due")
  proof (intro set_eqI iffI)
    fix x assume "x \<in> set run"
    then obtain k v where v: "x = (k, texec v, tparams v)" "(k, v) \<in> set (slots w ! ix)" "turnNum v = 0"
      by (auto simp: run_def visit_sets)
    then have "due w ix v = wNow w + 1" using due_bounds(2) [OF assms ix(1) v(2)] ix by simp
    then have "(wNow w + 1, k, texec v, tparams v, isUnique v) \<in> slot_entries w ix"
      using v by (force simp: slot_entries_def)
    then show "x \<in> ?due" using v ix by (auto simp: entries_def)
  next
    fix x assume "x \<in> ?due"
    then obtain k jx v where v: "x = (k, texec v, tparams v)" "jx < 3600" "(k, v) \<in> set (slots w ! jx)"
      "due w jx v = wNow w + 1" by (auto simp: entries_def slot_entries_def)
    then have "jx = ix" "turnNum v = 0" using due_bounds(2) [OF assms v(2,3)] ix by auto
    then show "x \<in> set run" using v by (force simp: run_def visit_sets)
  qed
  ultimately show ?thesis using tick_now_fields(3) [OF assms] by (auto simp: run_def ix_def)
qed

lemma mem_tick_now:
  assumes "wheel_ok w" "ix < 3600"
  shows "(k, v) \<in> set (slots (tick_now w) ! ix) \<longleftrightarrow>
    (if int ix = curIndex w
     then \<exists>v'. (k, v') \<in> set (slots w ! ix) \<and> turnNum v' \<noteq> 0 \<and> v = v'\<lparr>turnNum := turnNum v' - 1\<rparr>
     else (k, v) \<in> set (slots w ! ix))"
  by (auto simp: nth_tick_now [OF assms] visit_sets)

lemma wheel_okD:
  assumes "wheel_ok w"
  shows "length (slots w) = 3600" "0 \<le> curIndex w" "curIndex w < 3600"
    "curIndex w = (wNow w + 1 - checkTime w) mod 3600" "checkTime w \<le> wNow w + 1" "passes w = []"
    "ix < 3600 \<Longrightarrow> distinct (map fst (slots w ! ix))"
    "ix < 3600 \<Longrightarrow> (k, v) \<in> set (slots w ! ix) \<Longrightarrow> 0 \<le> turnNum v"
    "k \<in> globAllKeys w \<longleftrightarrow> (\<exists>ix<3600. \<exists>v. (k, v) \<in> set (slots w ! ix) \<and> isUnique v)"
    "(k, v) \<in> set (slots w ! ix) \<Longrightarrow> (k, v') \<in> set (slots w ! jx) \<Longrightarrow> ix < 3600 \<Longrightarrow> jx < 3600 \<Longrightarrow>
       isUnique v \<Longrightarrow> isUnique v' \<Longrightarrow> ix = jx"
  using assms unfolding wheel_ok_def by blast+

lemma keys_tick_now:
  assumes "wheel_ok w"
  shows "k \<in> globAllKeys (tick_now w) \<longleftrightarrow>
    (\<exists>ix<3600. \<exists>v. (k, v) \<in> set (slots (tick_now w) ! ix) \<and> isUnique v)"
proof -
  define c where "c = nat (curIndex w)"
  have c: "c < 3600" "int c = curIndex w" using wheel_okD(2,3) [OF assms] by (simp_all add: c_def)
  have glob: "k \<in> globAllKeys (tick_now w) \<longleftrightarrow>
      k \<in> globAllKeys w \<and> \<not> (\<exists>v. (k, v) \<in> set (slots w ! c) \<and> isUnique v \<and> turnNum v = 0)"
    by (force simp: tick_now_fields [OF assms] visit_sets c_def [symmetric])
  show ?thesis
  proof
    assume "k \<in> globAllKeys (tick_now w)"
    then obtain ix v where v: "ix < 3600" "(k, v) \<in> set (slots w ! ix)" "isUnique v"
      "\<not> (ix = c \<and> turnNum v = 0)" unfolding glob wheel_okD(9) [OF assms] by blast
    show "\<exists>ix<3600. \<exists>v. (k, v) \<in> set (slots (tick_now w) ! ix) \<and> isUnique v"
    proof (cases "ix = c")
      case True
      then show ?thesis using v c
        by (intro exI [of _ ix] conjI exI [of _ "v\<lparr>turnNum := turnNum v - 1\<rparr>"])
          (auto simp: mem_tick_now [OF assms])
    next
      case False
      then have "(k, v) \<in> set (slots (tick_now w) ! ix)" using v c by (auto simp: mem_tick_now [OF assms])
      then show ?thesis using v by blast
    qed
  next
    assume "\<exists>ix<3600. \<exists>v. (k, v) \<in> set (slots (tick_now w) ! ix) \<and> isUnique v"
    then obtain ix v where v: "ix < 3600" "(k, v) \<in> set (slots w ! ix)" "isUnique v"
      "ix = c \<Longrightarrow> turnNum v \<noteq> 0" using c by (auto simp: mem_tick_now [OF assms] split: if_splits)
    have "turnNum v' \<noteq> 0" if "(k, v') \<in> set (slots w ! c)" "isUnique v'" for v'
    proof -
      have "ix = c" using wheel_okD(10) [OF assms v(2) that(1) v(1) c(1) v(3) that(2)] .
      then have "v' = v" using that(1) v(2) wheel_okD(7) [OF assms c(1)] by (metis eq_key_imp_eq_value)
      then show ?thesis using v(4) \<open>ix = c\<close> by simp
    qed
    then show "k \<in> globAllKeys (tick_now w)" unfolding glob wheel_okD(9) [OF assms] using v by blast
  qed
qed

lemma wheel_ok_tick_now:
  assumes "wheel_ok w"
  shows "wheel_ok (tick_now w)"
proof -
  note W = wheel_okD [OF assms]
  have old: "\<exists>v'. (k, v') \<in> set (slots w ! ix) \<and> isUnique v' = isUnique v \<and> 0 \<le> turnNum v"
    if "ix < 3600" "(k, v) \<in> set (slots (tick_now w) ! ix)" for ix k v
    using that W(8) [OF that(1)] by (force simp: mem_tick_now [OF assms] split: if_splits)
  have "distinct (map fst (slots (tick_now w) ! ix))" if "ix < 3600" for ix
    using W(7) [OF that] by (simp add: nth_tick_now [OF assms that] visit_keys distinct_map_filter)
  moreover have "curIndex (tick_now w) = (wNow (tick_now w) + 1 - checkTime (tick_now w)) mod 3600"
  proof -
    have "(curIndex w + 1) mod 3600 = (wNow w + 1 - checkTime w + 1) mod 3600"
      unfolding W(4) by (simp only: mod_add_left_eq)
    moreover have "(x - 3600) mod 3600 = x mod 3600" for x :: int by (rule minus_mod_self2)
    from this [of "wNow w + 2 - checkTime w"]
    have "(wNow w + 1 + 1 - (checkTime w + 3600)) mod 3600 = (wNow w + 1 - checkTime w + 1) mod 3600"
      by (simp add: algebra_simps)
    ultimately show ?thesis
      by (cases "curIndex w = 3599") (simp_all add: tick_now_fields [OF assms] algebra_simps)
  qed
  moreover have "checkTime (tick_now w) \<le> wNow (tick_now w) + 1"
  proof (cases "curIndex w = 3599")
    case True
    moreover have "curIndex w \<le> wNow w + 1 - checkTime w"
      unfolding W(4) using W(5) by (intro zmod_le_nonneg_dividend) simp
    ultimately show ?thesis by (simp add: tick_now_fields [OF assms])
  qed (use W(5) in \<open>simp add: tick_now_fields [OF assms]\<close>)
  moreover have "ix = jx" if "(k, v) \<in> set (slots (tick_now w) ! ix)" "(k, v') \<in> set (slots (tick_now w) ! jx)"
    "ix < 3600" "jx < 3600" "isUnique v" "isUnique v'" for k ix jx v v'
    using old [OF that(3,1)] old [OF that(4,2)] that W(10) by metis
  moreover have "length (slots (tick_now w)) = 3600" "0 \<le> curIndex (tick_now w)" "curIndex (tick_now w) < 3600"
    "passes (tick_now w) = []"
    using W(1) by (simp_all add: tick_now_fields [OF assms])
  moreover have "globAllKeys (tick_now w) = {k. \<exists>ix<3600. \<exists>v. (k, v) \<in> set (slots (tick_now w) ! ix) \<and> isUnique v}"
    using keys_tick_now [OF assms] by blast
  ultimately show ?thesis unfolding wheel_ok_def using old by blast
qed

section \<open>The package's own wheel\<close>

text \<open>
  \<open>tools/lucslot/work.go\<close> and \<open>Stop\<close>: the package's own wheel. \<open>InitDelayTaskQuery\<close> makes it and hands \<open>Run\<close> to the
  worker pool in a closure that reads the variable \<open>archetypeSlots\<close> when it starts. \<open>queuedRuns\<close> counts the
  closures that have not started, \<open>loops\<close> the goroutines in the loop of \<open>Run\<close> on the wheel the variable names.
\<close>

record ('f, 'p) delay_query =
  archetypeSlots :: "('f, 'p) wheel option"
  queuedRuns :: nat
  loops :: nat

datatype 'a go_call =
    Returns 'a
  | NilPanic
  | Blocks

definition InitDelayTaskQuery :: "bool \<Rightarrow> int \<Rightarrow> int \<Rightarrow> ('f, 'p) delay_query \<Rightarrow> ('f, 'p) delay_query" where
  "InitDelayTaskQuery accepted now now' d =
     \<lparr>archetypeSlots = Some (newSlots now now'),
      queuedRuns = (if accepted then queuedRuns d + 1 else queuedRuns d), loops = 0\<rparr>"

text \<open>A worker starts the closure.\<close>

definition run_begins :: "int \<Rightarrow> ('f, 'p) delay_query \<Rightarrow> ('f, 'p) delay_query" where
  "run_begins now d =
     (case (queuedRuns d, archetypeSlots d) of
        (Suc n, Some w) \<Rightarrow> \<lparr>archetypeSlots = Some (run_start now w), queuedRuns = n, loops = loops d + 1\<rparr>
      | _ \<Rightarrow> d)"

text \<open>A second: each loop has a ticker of its own.\<close>

definition ticker_second :: "bool \<Rightarrow> ('f, 'p) delay_query \<Rightarrow> ('f, 'p) delay_query" where
  "ticker_second accepted d = d\<lparr>archetypeSlots := map_option (tick accepted ^^ loops d) (archetypeSlots d)\<rparr>"

definition AddDelayTask ::
  "int \<Rightarrow> string \<Rightarrow> 'f \<Rightarrow> 'p \<Rightarrow> bool \<Rightarrow> ('f, 'p) delay_query \<Rightarrow> ('f, 'p) delay_query \<times> add_error option go_call" where
  "AddDelayTask t taskName f p u d =
     (case archetypeSlots d of
        None \<Rightarrow> (d, NilPanic)
      | Some w \<Rightarrow> let (w, e) = AddTask t taskName f p u w in (d\<lparr>archetypeSlots := Some w\<rparr>, Returns e))"

text \<open>\<open>Stop\<close> sends on an unbuffered channel, which one loop receives; with no loop it waits for ever.\<close>

definition Stop :: "nat \<Rightarrow> nat \<times> unit go_call" where
  "Stop n = (if n = 0 then (0, Blocks) else (n - 1, Returns ()))"

definition Release :: "('f, 'p) delay_query \<Rightarrow> ('f, 'p) delay_query \<times> unit go_call" where
  "Release d =
     (case archetypeSlots d of
        None \<Rightarrow> (d, NilPanic)
      | Some _ \<Rightarrow> let (n, r) = Stop (loops d) in (d\<lparr>loops := n\<rparr>, r))"

section \<open>What is not guarded\<close>

text \<open>Without a pool the query takes tasks, never moves and cannot be released.\<close>

lemma refused_run_never_moves:
  assumes "queuedRuns d = 0" "d1 = InitDelayTaskQuery False now now' d"
  shows "run_begins t d1 = d1" "ticker_second b d1 = d1" "snd (Release d1) = Blocks"
  using assms by (simp_all add: InitDelayTaskQuery_def run_begins_def ticker_second_def Release_def Stop_def)

text \<open>Initialised twice before a worker starts, one wheel has two loops and turns twice in a second.\<close>

lemma two_inits_two_loops:
  assumes "queuedRuns d = 0"
    and "d2 = run_begins t' (run_begins t (InitDelayTaskQuery True now now' (InitDelayTaskQuery True now0 now0' d)))"
  shows "loops d2 = 2"
    "archetypeSlots (ticker_second b d2) = Some (tick b (tick b (run_start t' (run_start t (newSlots now now')))))"
  using assms by (simp_all add: InitDelayTaskQuery_def run_begins_def ticker_second_def numeral_2_eq_2)

end
