(* ===== verification/Wheel_Calendar.thy ===== *)
theory Wheel_Calendar imports Wheel begin

text \<open>
  The timing wheel as a calendar: the locale \<open>calendar\<close> states what a scheduler promises (an entry is started in the
  second it is due and then forgotten), runs of it are simulated by runs of the abstract calendar, and the wheel
  is one, as long as the pool runs every visit within its second.
\<close>

section \<open>Calendars and their runs\<close>

datatype ('f, 'p) wev =
    WAdd int string 'f 'p bool
  | WTick

datatype ('f, 'p) wout =
    OAdd "add_error option"
  | ORun "(string \<times> 'f \<times> 'p) set"

fun cal_step :: "('f, 'p) wev \<Rightarrow> int \<times> ('f, 'p) entry set \<Rightarrow> (int \<times> ('f, 'p) entry set) \<times> ('f, 'p) wout" where
  "cal_step WTick (n, E) =
     ((n + 1, {e \<in> E. fst e \<noteq> n + 1}), ORun {(k, f, p). \<exists>u. (n + 1, k, f, p, u) \<in> E})"
| "cal_step (WAdd t k f p u) (n, E) =
     (case cal_error n t k u E of
        None \<Rightarrow> ((n, insert (t, k, f, p, u) E), OAdd None)
      | Some e \<Rightarrow> ((n, E), OAdd (Some e)))"

fun runs :: "('e \<Rightarrow> 's \<Rightarrow> 's \<times> 'o) \<Rightarrow> 'e list \<Rightarrow> 's \<Rightarrow> 's \<times> 'o list" where
  "runs step [] s = (s, [])"
| "runs step (e # es) s = (let (s, out) = step e s; (s, outs) = runs step es s in (s, out # outs))"

definition sched_step ::
  "(int \<Rightarrow> string \<Rightarrow> 'f \<Rightarrow> 'p \<Rightarrow> bool \<Rightarrow> 'w \<Rightarrow> 'w \<times> add_error option) \<Rightarrow> ('w \<Rightarrow> 'w) \<Rightarrow>
   ('w \<Rightarrow> (string \<times> 'f \<times> 'p) list) \<Rightarrow> ('f, 'p) wev \<Rightarrow> 'w \<Rightarrow> 'w \<times> ('f, 'p) wout" where
  "sched_step add second did ev w =
     (case ev of
        WAdd t k f p u \<Rightarrow> let (w', e) = add t k f p u w in (w', OAdd e)
      | WTick \<Rightarrow> (second w, ORun (set (drop (length (did w)) (did (second w))))))"

locale calendar =
  fixes ok :: "'w \<Rightarrow> bool" and now :: "'w \<Rightarrow> int" and todo :: "'w \<Rightarrow> ('f, 'p) entry set"
    and add :: "int \<Rightarrow> string \<Rightarrow> 'f \<Rightarrow> 'p \<Rightarrow> bool \<Rightarrow> 'w \<Rightarrow> 'w \<times> add_error option"
    and second :: "'w \<Rightarrow> 'w" and did :: "'w \<Rightarrow> (string \<times> 'f \<times> 'p) list"
  assumes add_ok: "ok w \<Longrightarrow> ok (fst (add t k f p u w))"
    and add_error: "ok w \<Longrightarrow> snd (add t k f p u w) = cal_error (now w) t k u (todo w)"
    and add_todo: "ok w \<Longrightarrow> todo (fst (add t k f p u w))
      = (if snd (add t k f p u w) = None then insert (t, k, f, p, u) (todo w) else todo w)"
    and add_now: "now (fst (add t k f p u w)) = now w"
    and add_did: "did (fst (add t k f p u w)) = did w"
    and second_ok: "ok w \<Longrightarrow> ok (second w)"
    and second_now: "ok w \<Longrightarrow> now (second w) = now w + 1"
    and second_todo: "ok w \<Longrightarrow> todo (second w) = {e \<in> todo w. fst e \<noteq> now w + 1}"
    and second_did: "ok w \<Longrightarrow> \<exists>run. did (second w) = did w @ run \<and> distinct (map fst run) \<and>
      set run = {(k, f, p). \<exists>u. (now w + 1, k, f, p, u) \<in> todo w}"
begin

lemma step_sim:
  assumes "ok w"
  shows "ok (fst (sched_step add second did ev w))"
    and "cal_step ev (now w, todo w) =
      ((now (fst (sched_step add second did ev w)), todo (fst (sched_step add second did ev w))),
       snd (sched_step add second did ev w))"
proof -
  have 1: "drop (length (did w)) (did (second w)) = run" if "did (second w) = did w @ run" for run
    using that by simp
  have "set (drop (length (did w)) (did (second w))) = {(k, f, p). \<exists>u. (now w + 1, k, f, p, u) \<in> todo w}"
    using second_did [OF assms] 1 by metis
  then show "cal_step ev (now w, todo w) =
      ((now (fst (sched_step add second did ev w)), todo (fst (sched_step add second did ev w))),
       snd (sched_step add second did ev w))"
    using add_error [OF assms] add_todo [OF assms] assms
    by (cases ev) (auto simp: sched_step_def split_beta add_now second_now second_todo split: option.split)
  show "ok (fst (sched_step add second did ev w))"
    using assms by (cases ev) (simp_all add: sched_step_def split_beta add_ok second_ok)
qed

theorem runs_sim:
  "ok w \<Longrightarrow> runs cal_step evs (now w, todo w) =
     (let (w', outs) = runs (sched_step add second did) evs w in ((now w', todo w'), outs))
   \<and> ok (fst (runs (sched_step add second did) evs w))"
proof (induction evs arbitrary: w)
  case (Cons ev evs)
  then show ?case using step_sim [OF Cons.prems, of ev] Cons.IH [of "fst (sched_step add second did ev w)"]
    by (simp add: split_beta Let_def)
qed simp

text \<open>An entry waits while seconds pass, and is started in the second it is due.\<close>

lemma stays:
  assumes "ok w" "e \<in> todo w" "now w + int (length (filter ((=) WTick) evs)) < fst e"
  defines "w' \<equiv> fst (runs (sched_step add second did) evs w)"
  shows "e \<in> todo w' \<and> ok w' \<and> now w' = now w + int (length (filter ((=) WTick) evs))"
  using assms(1-3) unfolding w'_def
proof (induction evs arbitrary: w)
  case (Cons ev evs)
  note s = step_sim(1) [OF Cons.prems(1), of ev]
  define v where "v = fst (sched_step add second did ev w)"
  have v: "e \<in> todo v \<and> now v = now w + (if ev = WTick then 1 else 0)"
    using Cons.prems
    by (cases ev) (auto simp: v_def sched_step_def split_beta add_now add_todo second_now second_todo)
  have "now v + int (length (filter ((=) WTick) evs)) < fst e"
    using v Cons.prems(3) by (auto split: if_splits)
  from Cons.IH [OF s [folded v_def] _ this] v show ?case
    by (auto simp: split_beta Let_def v_def [symmetric])
qed simp

text \<open>A task is not started while none with its key, function and parameters is due.\<close>

lemma unstarted:
  assumes "ok w" "\<And>t' u'. WAdd t' k f p u' \<notin> set evs"
    and "\<And>d u. (d, k, f, p, u) \<in> todo w \<Longrightarrow> now w + int (length (filter ((=) WTick) evs)) < d"
  shows "\<exists>run. did (fst (runs (sched_step add second did) evs w)) = did w @ run \<and> (k, f, p) \<notin> set run \<and>
    (\<forall>d u. (d, k, f, p, u) \<in> todo (fst (runs (sched_step add second did) evs w)) \<longrightarrow> (d, k, f, p, u) \<in> todo w)"
  using assms
proof (induction evs arbitrary: w)
  case (Cons ev evs)
  define v where "v = fst (sched_step add second did ev w)"
  have ok: "ok v" unfolding v_def by (rule step_sim(1) [OF Cons.prems(1)])
  have step: "\<exists>run. did v = did w @ run \<and> (k, f, p) \<notin> set run \<and>
      (\<forall>d u. (d, k, f, p, u) \<in> todo v \<longrightarrow> (d, k, f, p, u) \<in> todo w) \<and> now v = now w + (if ev = WTick then 1 else 0)"
  proof (cases ev)
    case (WAdd t' k' f' p' u')
    then have "(k', f', p') \<noteq> (k, f, p)" using Cons.prems(2) by auto
    then show ?thesis
      by (auto simp: v_def WAdd sched_step_def split_beta add_did add_now add_todo [OF Cons.prems(1)] split: if_splits)
  next
    case WTick
    then have "(now w + 1, k, f, p, u) \<notin> todo w" for u using Cons.prems(3) [of "now w + 1" u] by auto
    then show ?thesis
      using second_did [OF Cons.prems(1)]
      by (auto simp: v_def WTick sched_step_def second_now [OF Cons.prems(1)] second_todo [OF Cons.prems(1)])
  qed
  then obtain run where run: "did v = did w @ run" "(k, f, p) \<notin> set run" "now v = now w + (if ev = WTick then 1 else 0)"
    "\<forall>d u. (d, k, f, p, u) \<in> todo v \<longrightarrow> (d, k, f, p, u) \<in> todo w" by blast
  have "\<exists>run. did (fst (runs (sched_step add second did) evs v)) = did v @ run \<and> (k, f, p) \<notin> set run \<and>
    (\<forall>d u. (d, k, f, p, u) \<in> todo (fst (runs (sched_step add second did) evs v)) \<longrightarrow> (d, k, f, p, u) \<in> todo v)"
  proof (rule Cons.IH [OF ok])
    show "WAdd t' k f p u' \<notin> set evs" for t' u' using Cons.prems(2) by auto
    show "now v + int (length (filter ((=) WTick) evs)) < d" if "(d, k, f, p, u) \<in> todo v" for d u
      using Cons.prems(3) [of d u] run(3,4) that by (auto split: if_splits)
  qed
  then show ?case
    using run by (auto simp: split_beta Let_def v_def [symmetric])
qed auto

lemma filter_key: "distinct (map fst xs) \<Longrightarrow> (k, v) \<in> set xs \<Longrightarrow> filter (\<lambda>x. fst x = k) xs = [(k, v)]"
  by (induction xs) (auto simp: filter_empty_conv image_iff)

theorem starts_on_time:
  assumes "ok w" "snd (add t k f p u w) = None" "int (length (filter ((=) WTick) evs)) = t - now w - 1"
  defines "w' \<equiv> fst (runs (sched_step add second did) evs (fst (add t k f p u w)))"
  shows "\<exists>run. did (second w') = did w' @ run \<and> filter (\<lambda>x. fst x = k) run = [(k, f, p)] \<and>
    set run = {(k', f', p'). \<exists>u'. (t, k', f', p', u') \<in> todo w'} \<and>
    now (second w') = t \<and> (t, k, f, p, u) \<in> todo w' \<and> (t, k, f, p, u) \<notin> todo (second w') \<and> ok (second w')"
proof -
  have "(t, k, f, p, u) \<in> todo (fst (add t k f p u w))" using add_todo [OF assms(1)] assms(2) by simp
  then have w': "(t, k, f, p, u) \<in> todo w'" "ok w'" "now w' = t - 1"
    using stays [OF add_ok [OF assms(1)], of "(t, k, f, p, u)"] assms(3) by (auto simp: add_now w'_def)
  obtain run where run: "did (second w') = did w' @ run" "distinct (map fst run)"
    "set run = {(k', f', p'). \<exists>u'. (t, k', f', p', u') \<in> todo w'}"
    using second_did [OF w'(2)] w'(3) by auto
  have "(k, f, p) \<in> set run" using run(3) w'(1) by auto
  from filter_key [OF run(2) this] run show ?thesis
    using w' by (auto simp: second_now second_todo second_ok)
qed

text \<open>\<open>count_list\<close> of the tasks started, over any time: once, unless the same task waits already or is added again.\<close>

theorem starts_once:
  assumes "ok w" "snd (add t k f p u w) = None" "int (length (filter ((=) WTick) evs)) = t - now w - 1"
    and "\<And>d u'. (d, k, f, p, u') \<notin> todo w" and "\<And>t' u'. WAdd t' k f p u' \<notin> set (evs @ evs')"
  defines "w1 \<equiv> fst (add t k f p u w)"
  defines "w2 \<equiv> fst (runs (sched_step add second did) evs w1)"
  defines "w4 \<equiv> fst (runs (sched_step add second did) evs' (second w2))"
  shows "\<exists>run. did w4 = did w @ run \<and> count_list run (k, f, p) = 1"
proof -
  have todo1: "todo w1 = insert (t, k, f, p, u) (todo w)" using add_todo [OF assms(1)] assms(2) by (simp add: w1_def)
  have ok1: "ok w1" unfolding w1_def by (rule add_ok [OF assms(1)])
  have first: "\<exists>run. did w2 = did w1 @ run \<and> (k, f, p) \<notin> set run \<and>
      (\<forall>d u. (d, k, f, p, u) \<in> todo w2 \<longrightarrow> (d, k, f, p, u) \<in> todo w1)"
    unfolding w2_def by (rule unstarted [OF ok1]) (use assms(3-5) todo1 in \<open>auto simp: w1_def add_now\<close>)
  then obtain r1 where r1: "did w2 = did w1 @ r1" "(k, f, p) \<notin> set r1"
    "\<forall>d u. (d, k, f, p, u) \<in> todo w2 \<longrightarrow> (d, k, f, p, u) \<in> todo w1" by blast
  obtain r2 where r2: "did (second w2) = did w2 @ r2" "filter (\<lambda>x. fst x = k) r2 = [(k, f, p)]"
    "(t, k, f, p, u) \<notin> todo (second w2)" "ok (second w2)" "ok w2"
    using starts_on_time [OF assms(1-3)] stays [OF ok1, of "(t, k, f, p, u)" evs] todo1 assms(3)
    by (auto simp: w1_def w2_def add_now)
  have "todo (second w2) \<subseteq> todo w2" using second_todo [OF r2(5)] by auto
  then have "(d, k, f, p, u') \<notin> todo (second w2)" for d u'
    using r1(3) r2(3) todo1 assms(4) by auto
  then obtain r3 where r3: "did w4 = did (second w2) @ r3" "(k, f, p) \<notin> set r3"
    unfolding w4_def using unstarted [OF r2(4), of k f p evs'] assms(5) by auto
  have "count_list r2 (k, f, p) = 1"
  proof -
    have "count_list (filter (\<lambda>x. fst x = k) xs) (k, f, p) = count_list xs (k, f, p)" for xs
      by (induction xs) auto
    from this [of r2] show ?thesis by (simp add: r2(2))
  qed
  then have "count_list (r1 @ r2 @ r3) (k, f, p) = 1"
    using r1(2) r3(2) by (simp add: count_list_0_iff)
  moreover have "did w4 = did w @ (r1 @ r2 @ r3)" using r1(1) r2(1) r3(1) by (simp add: w1_def add_did)
  ultimately show ?thesis by blast
qed

end

section \<open>Adding a task to the wheel\<close>

lemma smod_pos: "0 \<le> a \<Longrightarrow> a smod 3600 = a mod (3600 :: int)" "0 \<le> a \<Longrightarrow> a sdiv 3600 = a div (3600 :: int)"
  by (cases "a = 0", simp_all add: signed_divide_int_def signed_modulo_int_def minus_div_mult_eq_mod)+

lemma AddTask_now [simp]: "wNow (fst (AddTask t k f p u w)) = wNow w" "started (fst (AddTask t k f p u w)) = started w"
  by (simp_all add: AddTask_def Let_def)

definition slot_of :: "('f, 'p) wheel \<Rightarrow> int \<Rightarrow> nat" where
  "slot_of w t = nat ((t - checkTime w) mod 3600)"

lemma slot_of_bounds: "slot_of w t < 3600" "int (slot_of w t) = (t - checkTime w) mod 3600"
  by (simp_all add: slot_of_def nat_less_iff)

lemma due_new:
  assumes "wheel_ok w" "wNow w < t" "turnNum v = (t - wNow w - 1) div 3600"
  shows "due w (slot_of w t) v = t"
proof -
  have "(int (slot_of w t) - curIndex w) mod 3600 = ((t - checkTime w) - (wNow w + 1 - checkTime w)) mod 3600"
    unfolding slot_of_bounds wheel_okD(4) [OF assms(1)] by (simp only: mod_diff_eq)
  then have "(int (slot_of w t) - curIndex w) mod 3600 = (t - wNow w - 1) mod 3600"
    by (simp add: algebra_simps)
  then show ?thesis using mult_div_mod_eq [of 3600 "t - wNow w - 1"] by (simp add: due_def assms(3))
qed

text \<open>A key is in the slot of \<open>t\<close> just when an entry with that key is due a whole number of hours from \<open>t\<close>.\<close>

lemma key_in_slot:
  assumes "wheel_ok w"
  shows "k \<in> set (map fst (slots w ! slot_of w t)) \<longleftrightarrow>
    (\<exists>(d, k', _)\<in>entries w. k' = k \<and> d mod 3600 = t mod 3600)"
proof -
  have same: "due w ix v mod 3600 = t mod 3600 \<longleftrightarrow> ix = slot_of w t" if "ix < 3600" for ix v
  proof -
    have "due w ix v mod 3600 = t mod 3600 \<longleftrightarrow>
        (due w ix v - checkTime w) mod 3600 = (t - checkTime w) mod 3600"
      by (auto simp: mod_eq_dvd_iff)
    then show ?thesis
      unfolding slot_of_due [OF assms that] slot_of_bounds(2) [of w t, symmetric] by simp
  qed
  show ?thesis using same slot_of_bounds(1) [of w t]
    by (force simp: entries_def slot_entries_def)
qed

lemma AddTask_cases:
  assumes "wheel_ok w"
  shows "AddTask t k f p u w =
    (case cal_error (wNow w) t k u (entries w) of
       Some e \<Rightarrow> (w, Some e)
     | None \<Rightarrow>
        (w\<lparr>slots := (slots w)[slot_of w t := slots w ! slot_of w t
              @ [(k, \<lparr>turnNum = (t - wNow w - 1) div 3600, isUnique = u, texec = f, tparams = p\<rparr>)]],
           globAllKeys := (if u then insert k (globAllKeys w) else globAllKeys w)\<rparr>, None))"
proof (cases "t \<le> wNow w")
  case False
  then have "(t - checkTime w) smod 3600 = int (slot_of w t)" "(t - wNow w - 1) sdiv 3600 = (t - wNow w - 1) div 3600"
    using wheel_okD(5) [OF assms] by (simp_all add: smod_pos slot_of_bounds)
  moreover have "k \<in> globAllKeys w \<longleftrightarrow> (\<exists>(_, k', _, _, u')\<in>entries w. k' = k \<and> u')"
    unfolding wheel_okD(9) [OF assms] by (force simp: entries_def slot_entries_def)
  ultimately show ?thesis
    using False key_in_slot [OF assms, of k t] by (auto simp: AddTask_def cal_error_def Let_def)
qed (simp add: AddTask_def cal_error_def)

lemma cal_errorD:
  assumes "wheel_ok w" "cal_error (wNow w) t k u (entries w) = None"
  shows "wNow w < t" and "k \<notin> set (map fst (slots w ! slot_of w t))" and "u \<Longrightarrow> k \<notin> globAllKeys w"
proof -
  have n: "\<not> t \<le> wNow w" "\<not> (\<exists>(d, k', _)\<in>entries w. k' = k \<and> d mod 3600 = t mod 3600)"
    "\<not> (u \<and> (\<exists>(_, k', _, _, u')\<in>entries w. k' = k \<and> u'))"
    using assms(2) by (simp_all add: cal_error_def split: if_splits)
  show "wNow w < t" using n(1) by simp
  show "k \<notin> set (map fst (slots w ! slot_of w t))" using n(2) unfolding key_in_slot [OF assms(1)] .
  have "k \<in> globAllKeys w \<longleftrightarrow> (\<exists>(_, k', _, _, u')\<in>entries w. k' = k \<and> u')"
    unfolding wheel_okD(9) [OF assms(1)] by (force simp: entries_def slot_entries_def)
  then show "u \<Longrightarrow> k \<notin> globAllKeys w" using n(3) by blast
qed

definition new_task :: "('f, 'p) wheel \<Rightarrow> int \<Rightarrow> 'f \<Rightarrow> 'p \<Rightarrow> bool \<Rightarrow> ('f, 'p) Task" where
  "new_task w t f p u = \<lparr>turnNum = (t - wNow w - 1) div 3600, isUnique = u, texec = f, tparams = p\<rparr>"

lemma AddTask_fields:
  fixes f :: 'f and p :: 'p and w :: "('f, 'p) wheel"
  assumes "wheel_ok w" "cal_error (wNow w) t k u (entries w) = None"
  defines "w' \<equiv> fst (AddTask t k f p u w)"
  shows "slots w' = (slots w)[slot_of w t := slots w ! slot_of w t @ [(k, new_task w t f p u)]]"
    and "globAllKeys w' = (if u then insert k (globAllKeys w) else globAllKeys w)"
    and "wNow w' = wNow w" "curIndex w' = curIndex w" "checkTime w' = checkTime w" "passes w' = passes w"
    and "started w' = started w"
  using assms(2) by (simp_all add: w'_def AddTask_cases [OF assms(1)] new_task_def)

lemma nth_AddTask:
  assumes "wheel_ok w" "cal_error (wNow w) t k u (entries w) = None" "ix < 3600"
  shows "slots (fst (AddTask t k f p u w)) ! ix
    = slots w ! ix @ (if ix = slot_of w t then [(k, new_task w t f p u)] else [])"
  using assms(3) wheel_okD(1) [OF assms(1)] slot_of_bounds(1) [of w t]
  by (simp add: AddTask_fields(1) [OF assms(1,2)])

lemma mem_AddTask:
  assumes "wheel_ok w" "cal_error (wNow w) t k u (entries w) = None" "ix < 3600"
  shows "(k', v) \<in> set (slots (fst (AddTask t k f p u w)) ! ix) \<longleftrightarrow>
    (k', v) \<in> set (slots w ! ix) \<or> (ix = slot_of w t \<and> k' = k \<and> v = new_task w t f p u)"
  by (auto simp: nth_AddTask [OF assms])

lemma entries_AddTask:
  assumes "wheel_ok w" "cal_error (wNow w) t k u (entries w) = None"
  shows "entries (fst (AddTask t k f p u w)) = insert (t, k, f, p, u) (entries w)"
proof -
  have due: "due (fst (AddTask t k f p u w)) ix v = due w ix v" for ix v
    by (simp add: due_def AddTask_fields [OF assms])
  have new: "due w (slot_of w t) (new_task w t f p u) = t"
    using cal_errorD(1) [OF assms] by (intro due_new assms) (simp_all add: new_task_def)
  have "slot_entries (fst (AddTask t k f p u w)) ix
      = slot_entries w ix \<union> (if ix = slot_of w t then {(t, k, f, p, u)} else {})" if "ix < 3600" for ix
    using new by (simp add: slot_entries_def due nth_AddTask [OF assms that] image_Un)
      (simp add: new_task_def)
  then show ?thesis using slot_of_bounds(1) [of w t] by (auto simp: entries_def split: if_splits)
qed

lemma wheel_ok_AddTask:
  assumes "wheel_ok w"
  shows "wheel_ok (fst (AddTask t k f p u w))"
proof (cases "cal_error (wNow w) t k u (entries w)")
  case None
  note W = wheel_okD [OF assms] and F = AddTask_fields [OF assms None, of f p] and M = mem_AddTask [OF assms None, of _ _ _ f p]
    and E = cal_errorD [OF assms None]
  define w' where "w' = fst (AddTask t k f p u w)"
  have "distinct (map fst (slots w' ! ix))" if "ix < 3600" for ix
    using W(7) [OF that] E(2) by (auto simp: w'_def nth_AddTask [OF assms None that])
  moreover have "0 \<le> turnNum v" if "ix < 3600" "(k', v) \<in> set (slots w' ! ix)" for ix k' v
    using that W(8) E(1) by (auto simp: w'_def M new_task_def pos_imp_zdiv_nonneg_iff)
  moreover have "globAllKeys w' = {k. \<exists>ix<3600. \<exists>v. (k, v) \<in> set (slots w' ! ix) \<and> isUnique v}"
  proof -
    have un: "isUnique (new_task w t f p u) = u" by (simp add: new_task_def)
    have "k' \<in> globAllKeys w' \<longleftrightarrow> (\<exists>ix<3600. \<exists>v. (k', v) \<in> set (slots w' ! ix) \<and> isUnique v)" for k'
    proof -
      have "(\<exists>ix<3600. \<exists>v. (k', v) \<in> set (slots w' ! ix) \<and> isUnique v) \<longleftrightarrow> k' \<in> globAllKeys w \<or> (k' = k \<and> u)"
        unfolding W(9) [of k'] w'_def using slot_of_bounds(1) [of w t] un by (simp add: M cong: conj_cong) blast
      then show ?thesis by (auto simp: w'_def F(2))
    qed
    then show ?thesis by blast
  qed
  moreover have "ix = jx" if "(k', v) \<in> set (slots w' ! ix)" "(k', v') \<in> set (slots w' ! jx)"
    "ix < 3600" "jx < 3600" "isUnique v" "isUnique v'" for k' ix jx v v'
  proof -
    have "k \<notin> globAllKeys w" if "isUnique (new_task w t f p u)" using that E(3) by (simp add: new_task_def)
    then show ?thesis using that W(9) [of k] W(10) by (simp add: w'_def M) metis
  qed
  moreover have "length (slots w') = 3600" "0 \<le> curIndex w'" "curIndex w' < 3600" "passes w' = []"
    "curIndex w' = (wNow w' + 1 - checkTime w') mod 3600" "checkTime w' \<le> wNow w' + 1"
    using W(1-6) by (simp_all add: w'_def F)
  ultimately show ?thesis unfolding wheel_ok_def w'_def [symmetric] by blast
qed (simp add: AddTask_cases [OF assms] assms)

lemma AddTask_error: "wheel_ok w \<Longrightarrow> snd (AddTask t k f p u w) = cal_error (wNow w) t k u (entries w)"
  by (simp add: AddTask_cases split: option.split)

lemma AddTask_refused:
  "wheel_ok w \<Longrightarrow> cal_error (wNow w) t k u (entries w) = Some e \<Longrightarrow> AddTask t k f p u w = (w, Some e)"
  by (simp add: AddTask_cases)

interpretation wheel: calendar wheel_ok wNow entries AddTask tick_now started
proof (unfold_locales, goal_cases)
  case (1 w t k f p u) then show ?case by (rule wheel_ok_AddTask)
next
  case (2 w t k f p u) then show ?case by (rule AddTask_error)
next
  case (3 w t k f p u) then show ?case
    by (cases "cal_error (wNow w) t k u (entries w)") (simp_all add: AddTask_error entries_AddTask AddTask_refused)
next
  case (9 w) then show ?case by (rule started_tick_now)
qed (simp_all add: wheel_ok_tick_now tick_now_fields entries_tick_now)

end
