(* ===== verification/Props_Wheel.thy ===== *)
theory Props_Wheel imports Wheel_Calendar begin

text \<open>
  The properties of the timing wheel: as long as the pool runs each visit within its second it is exactly a
  calendar; what happens to a task when the pool is late or refuses, and before \<open>Run\<close>.
\<close>

abbreviation wheel_step :: "('f, 'p) wev \<Rightarrow> ('f, 'p) wheel \<Rightarrow> ('f, 'p) wheel \<times> ('f, 'p) wout" where
  "wheel_step \<equiv> sched_step AddTask tick_now started"

section \<open>The wheel when it starts\<close>

lemma newSlots_nth: "ix < 3600 \<Longrightarrow> slots (newSlots n n') ! ix = []"
  by (simp add: newSlots_def)

lemma wheel_ok_start:
  assumes "n' \<le> now"
  shows "wheel_ok (run_start now (newSlots n n'))" "entries (run_start now (newSlots n n')) = {}"
    "wNow (run_start now (newSlots n n')) = now"
proof -
  have "n' - n' mod 3600 \<le> now + 1" using assms pos_mod_sign [of 3600 n'] by linarith
  then show "wheel_ok (run_start now (newSlots n n'))" "entries (run_start now (newSlots n n')) = {}"
    "wNow (run_start now (newSlots n n')) = now"
    by (simp_all add: wheel_ok_def entries_def slot_entries_def run_start_def newSlots_def Let_def smod_pos
        algebra_simps)
qed

section \<open>A calendar\<close>

text \<open>
  C8: A running wheel whose visits run in their seconds is a calendar: through every sequence of additions and
  seconds it gives the same answers. An addition fails exactly for a time that is past, for a key that is due a
  whole number of hours away, and for a unique key that is waiting; a second starts exactly the tasks due in it,
  and the wheel holds exactly the others.
\<close>

theorem wheel_refines_calendar:
  assumes "wheel_ok w"
  shows "runs cal_step evs (wNow w, entries w) =
    (let (w', outs) = runs wheel_step evs w in ((wNow w', entries w'), outs))"
  using wheel.runs_sim [OF assms] by blast

theorem wheel_refines_calendar_witness:
  "snd (runs wheel_step [WAdd 1005 ''a'' () () True, WTick, WAdd 1001 ''b'' () () False]
        (run_start 1000 (newSlots 1000 1000)))
   = [OAdd None, ORun {}, OAdd (Some TimeError)]"
proof -
  let ?w = "run_start 1000 (newSlots 1000 1000) :: (unit, unit) wheel"
  have "runs cal_step [WAdd 1005 ''a'' () () True, WTick, WAdd 1001 ''b'' () () False] (wNow ?w, entries ?w) =
    (let (w', outs) = runs wheel_step [WAdd 1005 ''a'' () () True, WTick, WAdd 1001 ''b'' () () False] ?w
     in ((wNow w', entries w'), outs))"
    by (rule wheel_refines_calendar) (simp add: wheel_ok_start)
  moreover have "snd (runs cal_step [WAdd 1005 ''a'' () () True, WTick, WAdd 1001 ''b'' () () False]
      (wNow ?w, entries ?w)) = [OAdd None, ORun {}, OAdd (Some TimeError)]"
    by (simp add: wheel_ok_start cal_error_def)
  ultimately show ?thesis by (simp add: split_beta Let_def)
qed

text \<open>
  C30: As long as the pool runs each visit within its second, a task that \<open>AddTask\<close> takes is started in the second it
  was added for, whatever is added in the meantime: that second starts exactly the tasks due in it, this one and no
  other under its key, and then it is forgotten. Over any number of seconds and additions that follow the task is started
  once, unless the same task was waiting already or is added again. (When the pool is late or refuses a visit, tasks
  are started an hour early or late: \<open>refused_visit_hour_late\<close> and \<open>late_visit_hour_early\<close> below.)
\<close>

theorem task_starts_on_time:
  assumes "wheel_ok w" and "AddTask t k f p u w = (w1, None)"
    and "fst (runs wheel_step evs w1) = w2" and "int (length (filter ((=) WTick) evs)) = t - wNow w - 1"
    and "fst (runs wheel_step evs' (tick_now w2)) = w4"
  shows "(\<exists>run. started (tick_now w2) = started w2 @ run \<and> filter (\<lambda>x. fst x = k) run = [(k, f, p)] \<and>
      set run = {(k', f', p'). \<exists>u'. (t, k', f', p', u') \<in> entries w2} \<and> wNow (tick_now w2) = t \<and>
      (t, k, f, p, u) \<in> entries w2 \<and> (t, k, f, p, u) \<notin> entries (tick_now w2)) \<and>
    ((\<forall>d u'. (d, k, f, p, u') \<notin> entries w) \<and> (\<forall>t' u'. WAdd t' k f p u' \<notin> set (evs @ evs')) \<longrightarrow>
      (\<exists>run. started w4 = started w @ run \<and> count_list run (k, f, p) = 1))"
proof (intro conjI impI)
  show "\<exists>run. started (tick_now w2) = started w2 @ run \<and> filter (\<lambda>x. fst x = k) run = [(k, f, p)] \<and>
      set run = {(k', f', p'). \<exists>u'. (t, k', f', p', u') \<in> entries w2} \<and> wNow (tick_now w2) = t \<and>
      (t, k, f, p, u) \<in> entries w2 \<and> (t, k, f, p, u) \<notin> entries (tick_now w2)"
    using wheel.starts_on_time [OF assms(1), of t k f p u evs] assms(2-4) by auto
  assume "(\<forall>d u'. (d, k, f, p, u') \<notin> entries w) \<and> (\<forall>t' u'. WAdd t' k f p u' \<notin> set (evs @ evs'))"
  then show "\<exists>run. started w4 = started w @ run \<and> count_list run (k, f, p) = 1"
    using wheel.starts_once [OF assms(1), of t k f p u evs evs'] assms(2-5) by simp
qed

theorem task_starts_on_time_witness:
  "\<exists>w w1. AddTask 1003 ''a'' () () True w = (w1, None) \<and> wNow w = 1000 \<and>
    (let w2 = fst (runs wheel_step [WTick, WAdd 5000 ''b'' () () False, WTick] w1)
     in \<exists>run. started (tick_now w2) = started w2 @ run \<and> filter (\<lambda>x. fst x = ''a'') run = [(''a'', (), ())]) \<and>
    (let w4 = fst (runs wheel_step [WTick, WTick]
                (tick_now (fst (runs wheel_step [WTick, WAdd 5000 ''b'' () () False, WTick] w1))))
     in \<exists>run. started w4 = started w @ run \<and> count_list run (''a'', (), ()) = 1)"
proof -
  let ?w = "run_start 1000 (newSlots 1000 1000) :: (unit, unit) wheel"
  have ok: "wheel_ok ?w" by (simp add: wheel_ok_start)
  have "snd (AddTask 1003 ''a'' () () True ?w) = None"
    by (simp add: AddTask_error [OF ok] wheel_ok_start cal_error_def)
  then have add: "AddTask 1003 ''a'' () () True ?w = (fst (AddTask 1003 ''a'' () () True ?w), None)"
    by (metis prod.collapse)
  have ticks: "int (length (filter ((=) WTick) [WTick, WAdd 5000 ''b'' () () False, WTick])) = 1003 - wNow ?w - 1"
    by (simp add: wheel_ok_start)
  note on_time = task_starts_on_time [OF ok add refl ticks refl, of "[WTick, WTick]"]
  have "wNow ?w = 1000" by (simp add: wheel_ok_start)
  moreover have "(\<forall>d u'. (d, ''a'', (), (), u') \<notin> entries ?w) \<and>
      (\<forall>t' u'. WAdd t' ''a'' () () u' \<notin> set ([WTick, WAdd 5000 ''b'' () () False, WTick] @ [WTick, WTick]))"
    by (simp add: wheel_ok_start)
  ultimately show ?thesis
    unfolding Let_def using add on_time [THEN conjunct1] on_time [THEN conjunct2, THEN mp] by blast
qed

section \<open>Not a calendar\<close>

lemma tick_fields:
  assumes "wheel_ok w"
  shows "slots (tick b w) = slots w" "wNow (tick b w) = wNow w + 1"
    "curIndex (tick b w) = (curIndex w + 1) mod 3600"
    "checkTime (tick b w) = checkTime w + (if curIndex w = 3599 then 3600 else 0)"
    "passes (tick b w) = (if b then [curIndex w] else [])" "globAllKeys (tick b w) = globAllKeys w"
    "started (tick b w) = started w"
  using wheel_okD(2,3,6) [OF assms] by (auto simp: tick_def taskLoop_def Let_def)

lemma due_tick:
  assumes "wheel_ok w" "ix < 3600"
  shows "due (tick b w) ix v = due w ix v + (if int ix = curIndex w then 3600 else 0)"
  unfolding due_tick_now [OF assms, symmetric] by (simp add: due_def tick_fields tick_now_fields assms(1))

lemma wheel_ok_refused:
  assumes "wheel_ok w"
  shows "wheel_ok (tick False w)"
proof -
  have "curIndex (tick False w) = (wNow (tick False w) + 1 - checkTime (tick False w)) mod 3600"
    "checkTime (tick False w) \<le> wNow (tick False w) + 1"
    using wheel_okD(4,5) [OF wheel_ok_tick_now [OF assms]] by (simp_all add: tick_fields tick_now_fields assms)
  then show ?thesis
    using assms unfolding wheel_ok_def by (simp add: tick_fields [OF assms])
qed

lemma mod_shift: "(a :: int) mod 3600 = b mod 3600 \<longleftrightarrow> (a - c) mod 3600 = (b - c) mod 3600"
  by (auto simp: mod_eq_dvd_iff)

lemma due_this_second:
  assumes "wheel_ok w" "ix < 3600"
  shows "due w ix v mod 3600 = (wNow w + 1) mod 3600 \<longleftrightarrow> int ix = curIndex w"
  using mod_shift [of "due w ix v" "wNow w + 1" "checkTime w"] slot_of_due [OF assms, of v]
    wheel_okD(4) [OF assms(1)] by simp

text \<open>
  When the pool refuses the visit of a second, every task of that slot, due in this second or a whole number of
  hours later, is an hour late; all others are as before.
\<close>

theorem refused_visit_hour_late:
  assumes "wheel_ok w"
  shows "entries (tick False w) =
      (\<lambda>(d, x). (if d mod 3600 = (wNow w + 1) mod 3600 then d + 3600 else d, x)) ` entries w \<and>
    wheel_ok (tick False w) \<and> started (tick False w) = started w"
proof -
  have "slot_entries (tick False w) ix =
      (\<lambda>(d, x). (if d mod 3600 = (wNow w + 1) mod 3600 then d + 3600 else d, x)) ` slot_entries w ix"
    if "ix < 3600" for ix
    by (simp add: slot_entries_def image_image split_beta tick_fields [OF assms] due_tick [OF assms that]
        due_this_second [OF assms that])
  then show ?thesis
    by (simp add: entries_def image_UN wheel_ok_refused assms tick_fields(7) [OF assms])
qed

theorem refused_visit_hour_late_witness:
  "\<exists>w w' :: (unit, unit) wheel. AddTask 1001 ''a'' () () True w = (w', None) \<and>
     (4601, ''a'', (), (), True) \<in> entries (tick False w')"
proof -
  let ?w = "run_start 1000 (newSlots 1000 1000) :: (unit, unit) wheel"
  have ok: "wheel_ok ?w" by (simp add: wheel_ok_start)
  have none: "cal_error (wNow ?w) 1001 ''a'' True (entries ?w) = None" by (simp add: wheel_ok_start cal_error_def)
  define w' where "w' = fst (AddTask 1001 ''a'' () () True ?w)"
  have w': "wheel_ok w'" "entries w' = {(1001, ''a'', (), (), True)}" "wNow w' = 1000"
    unfolding w'_def using entries_AddTask [OF ok none, of "()" "()"]
    by (simp_all add: wheel_ok_AddTask [OF ok] wheel_ok_start)
  have "AddTask 1001 ''a'' () () True ?w = (w', None)"
    using AddTask_error [OF ok, of 1001 "''a''" "()" "()" True] none by (simp add: w'_def prod_eq_iff)
  moreover have "(4601, ''a'', (), (), True) \<in> entries (tick False w')"
    using refused_visit_hour_late [OF w'(1)] by (simp add: w')
  ultimately show ?thesis by blast
qed

text \<open>
  A task added for the second one hour after the current one, while the visit of the current second waits in the
  pool, is started by that visit: an hour early.
\<close>

theorem late_visit_hour_early:
  assumes "wheel_ok w" and "\<forall>(d, k', _)\<in>entries w. k' = k \<longrightarrow> d mod 3600 \<noteq> (wNow w + 1) mod 3600"
    and "AddTask (wNow w + 1 + 3600) k f p False (tick True w) = (w1, e)"
  shows "e = None \<and> (k, f, p) \<in> set (started (run_pass w1)) \<and> wNow (run_pass w1) = wNow w + 1"
proof -
  define c where "c = nat (curIndex w)"
  have c: "c < 3600" "int c = curIndex w" using wheel_okD(2,3) [OF assms(1)] by (simp_all add: c_def)
  let ?t = "wNow w + 1 + 3600"
  have "k \<notin> set (map fst (slots w ! c))"
  proof
    assume "k \<in> set (map fst (slots w ! c))"
    then obtain v where "(k, v) \<in> set (slots w ! c)" by auto
    then have "(due w c v, k, texec v, tparams v, isUnique v) \<in> entries w"
      using c by (force simp: entries_def slot_entries_def)
    then show False using assms(2) due_this_second [OF assms(1) c(1)] c(2) by auto
  qed
  moreover have "nat ((?t - checkTime (tick True w)) smod 3600) = c"
  proof -
    have "0 \<le> ?t - checkTime (tick True w)"
      using wheel_okD(5) [OF assms(1)] by (simp add: tick_fields [OF assms(1)])
    then have "(?t - checkTime (tick True w)) smod 3600 = (wNow w + 1 - checkTime w) mod 3600"
      using minus_mod_self2 [of "wNow w + 1 + 3600 - checkTime w" 3600] mod_add_self2 [of "wNow w + 1 - checkTime w" 3600]
      by (simp add: smod_pos tick_fields [OF assms(1)] algebra_simps)
    then show ?thesis using wheel_okD(4) [OF assms(1)] by (simp add: c_def)
  qed
  ultimately have add: "e = None" "w1 = (tick True w)\<lparr>slots := (slots w)[c := slots w ! c
      @ [(k, \<lparr>turnNum = 0, isUnique = False, texec = f, tparams = p\<rparr>)]]\<rparr>"
    using assms(3) by (auto simp: AddTask_def Let_def tick_fields [OF assms(1)] signed_divide_int_def)
  have run: "run_pass w1 = slot_pass (curIndex w) (w1\<lparr>passes := []\<rparr>)"
    by (simp add: add(2) run_pass_def tick_fields [OF assms(1)])
  let ?new = "(k, \<lparr>turnNum = 0, isUnique = False, texec = f, tparams = p\<rparr>)"
  have "?new \<in> set (snd (visit (slots w ! c @ [?new])))" by (simp add: visit_sets)
  then have new: "(k, f, p) \<in> (\<lambda>(k, v). (k, texec v, tparams v)) ` set (snd (visit (slots w ! c @ [?new])))"
    by (rule rev_image_eqI) simp
  have "(k, f, p) \<in> set (started (run_pass w1))" "wNow (run_pass w1) = wNow w + 1"
    using c wheel_okD(1-3) [OF assms(1)] unfolding run unfolding add(2)
    by (simp_all add: slot_pass_def Let_def case_prod_unfold c_def [symmetric] new [unfolded case_prod_unfold]
        tick_fields [OF assms(1)])
  then show ?thesis using add(1) by simp
qed

theorem late_visit_hour_early_witness:
  "\<exists>w w1 :: (unit, unit) wheel. wNow w = 1000 \<and> AddTask 4601 ''a'' () () False (tick True w) = (w1, None) \<and>
     (''a'', (), ()) \<in> set (started (run_pass w1)) \<and> wNow (run_pass w1) = 1001"
proof -
  let ?w = "run_start 1000 (newSlots 1000 1000) :: (unit, unit) wheel"
  obtain w1 e where a: "AddTask 4601 ''a'' () () False (tick True ?w) = (w1, e)" by fastforce
  have "e = None \<and> (''a'', (), ()) \<in> set (started (run_pass w1)) \<and> wNow (run_pass w1) = wNow ?w + 1"
    by (rule late_visit_hour_early) (use a in \<open>simp_all add: wheel_ok_start\<close>)
  then show ?thesis using a wheel_ok_start(3) [of 1000 1000 1000] by auto
qed

end
