(* ===== verification/Bitmaps.thy ===== *)
theory Bitmaps imports Go_Slices "HOL-Library.Signed_Division" begin

text \<open>
  The two bitmaps of \<open>common/\<close>: \<open>bitmap/bitmap.go\<close>, of fixed capacity, and \<open>utils/bitmap.go\<close>, which grows. The locale
  \<open>bit_set\<close> states what both are: finite sets of numbers that know their size. Offsets are \<open>uint64\<close> in the
  first, never added to beyond \<open>2 ^ 32\<close>, so naturals here; in the second they are Go's \<open>int\<close>, which can be negative.
\<close>

section \<open>The contract\<close>

locale bit_set =
  fixes ok :: "'s \<Rightarrow> bool" and elems :: "'s \<Rightarrow> nat set" and dom :: "'s \<Rightarrow> nat set"
    and has :: "'s \<Rightarrow> nat \<Rightarrow> bool" and add :: "nat \<Rightarrow> 's \<Rightarrow> 's" and len :: "'s \<Rightarrow> nat"
  assumes has_elems: "ok s \<Longrightarrow> has s i \<longleftrightarrow> i \<in> elems s"
    and add_ok: "ok s \<Longrightarrow> i \<in> dom s \<Longrightarrow> ok (add i s)"
    and add_elems: "ok s \<Longrightarrow> i \<in> dom s \<Longrightarrow> elems (add i s) = insert i (elems s)"
    and add_dom: "ok s \<Longrightarrow> i \<in> dom s \<Longrightarrow> dom (add i s) = dom s"
    and len_elems: "ok s \<Longrightarrow> len s = card (elems s)"
begin

lemma add_all:
  "ok s \<Longrightarrow> set is \<subseteq> dom s \<Longrightarrow> ok (fold add is s) \<and> elems (fold add is s) = set is \<union> elems s"
  by (induction "is" arbitrary: s) (auto simp: add_ok add_elems add_dom)

text \<open>The size counts each number once, however often it was added.\<close>

theorem len_add_all:
  assumes "ok s" "elems s = {}" "set is \<subseteq> dom s"
  shows "len (fold add is s) = length (remdups is)" and "has (fold add is s) i \<longleftrightarrow> i \<in> set is"
  using add_all [OF assms(1,3)] assms(2) by (simp_all add: len_elems length_remdups_card_conv has_elems)

end

section \<open>Counting bits\<close>

text \<open>\<open>costCount\<close>: \<open>v &= v - 1\<close> clears the lowest bit that is set, until none is left.\<close>

lemma clear_less: "0 < (v :: int) AND (v - 1) \<Longrightarrow> 0 < v \<and> v AND (v - 1) < v"
proof -
  assume *: "0 < v AND (v - 1)"
  have "0 < v"
  proof (rule ccontr)
    assume "\<not> 0 < v"
    then have "v = 0 \<or> v < 0 \<and> v - 1 < 0" by auto
    moreover have "0 \<le> v AND (v - 1)" using * by (rule less_imp_le)
    ultimately show False using * by (auto simp: and_nonnegative_int_iff)
  qed
  then show ?thesis using AND_upper2 [of "v - 1" v] by simp
qed

function costCount_loop :: "int \<Rightarrow> int \<Rightarrow> int" where
  "costCount_loop v num =
     (let v = v AND (v - 1); num = num + 1
      in if v \<le> 0 then num else costCount_loop v num)"
  by auto
termination by (relation "measure (\<lambda>(v, _). nat v)") (auto dest: clear_less simp: not_le)

declare costCount_loop.simps [simp del]

definition costCount :: "int \<Rightarrow> int" where
  "costCount v = (if v \<le> 0 then 0 else costCount_loop v 0)"

text \<open>The number of bits that are set.\<close>

definition ones :: "int \<Rightarrow> nat" where
  "ones v = card {n. bit v n}"

lemma bits_half: "{n. bit v n} = (if odd v then {0} else {}) \<union> Suc ` {n. bit ((v :: int) div 2) n}"
proof -
  have "bit v n \<longleftrightarrow> (n = 0 \<and> odd v) \<or> (\<exists>m. n = Suc m \<and> bit (v div 2) m)" for n
    by (cases n) (simp_all add: bit_0 bit_Suc)
  then show ?thesis by auto
qed

lemma finite_bits: "0 \<le> v \<Longrightarrow> finite {n. bit (v :: int) n}"
proof (induction "nat v" arbitrary: v rule: less_induct)
  case less
  show ?case
  proof (cases "v = 0")
    case False
    then have "finite {n. bit (v div 2) n}" using less by (intro less(1)) auto
    then show ?thesis by (subst bits_half) simp
  qed (simp add: bot_fun_def)
qed

lemma ones_half: "0 \<le> v \<Longrightarrow> ones v = (if odd v then 1 else 0) + ones (v div 2)"
  unfolding ones_def by (subst bits_half) (simp add: finite_bits card_Un_disjoint card_image)

lemma and_half: "((a :: int) AND b) div 2 = (a div 2) AND (b div 2)"
  using drop_bit_and [of 1 a b] by (simp add: drop_bit_eq_div)

lemma ones_clear: "0 < v \<Longrightarrow> ones v = Suc (ones (v AND (v - 1)))"
proof (induction "nat v" arbitrary: v rule: less_induct)
  case less
  have nn: "0 \<le> v AND (v - 1)" using less(2) by (simp add: and_nonnegative_int_iff)
  have e: "even (v AND (v - 1))" by (simp add: even_and_iff)
  show ?case
  proof (cases "odd v")
    case True
    then have "(v AND (v - 1)) div 2 = v div 2" by (simp add: and_half) (auto elim!: oddE)
    then show ?thesis using True e nn less(2) by (simp add: ones_half [of v] ones_half [of "v AND (v - 1)"])
  next
    case False
    then have "(v - 1) div 2 = v div 2 - 1" by (auto elim!: evenE)
    moreover have "ones (v div 2) = Suc (ones ((v div 2) AND (v div 2 - 1)))"
      using less(2) False by (intro less(1)) (auto elim!: evenE)
    ultimately show ?thesis
      using False e nn less(2) by (simp add: ones_half [of v] ones_half [of "v AND (v - 1)"] and_half)
  qed
qed

lemma costCount_loop_ones: "0 < v \<Longrightarrow> costCount_loop v num = num + int (ones v)"
proof (induction v num rule: costCount_loop.induct)
  case (1 v num)
  have nn: "0 \<le> v AND (v - 1)" using 1(2) by (simp add: and_nonnegative_int_iff)
  show ?case
  proof (cases "v AND (v - 1) \<le> 0")
    case True
    then have "ones (v AND (v - 1)) = 0" using nn by (simp add: ones_def)
    then show ?thesis using True 1(2) by (subst costCount_loop.simps) (simp add: ones_clear Let_def)
  next
    case False
    then show ?thesis using 1 by (subst costCount_loop.simps) (simp add: ones_clear [of v] Let_def)
  qed
qed

lemma costCount_ones: "0 \<le> v \<Longrightarrow> costCount v = int (ones v)"
  by (cases "v = 0") (simp_all add: costCount_def costCount_loop_ones ones_def)

section \<open>The bitmap of fixed capacity\<close>

record bitmap =
  bData :: bytes
  Bitsize :: nat
  Maxpos :: nat

definition BitmapSize :: int where
  "BitmapSize = 2 ^ 32"

text \<open>
  \<open>make\<close> panics for a negative length, which a size of \<open>-8\<close> or below \<open>-15\<close> gives; between them the length is 0 and
  \<open>uint64(size - 1)\<close> wraps.
\<close>

definition NewBitmapSize :: "int \<Rightarrow> bitmap option" where
  "NewBitmapSize size0 =
     (let size1 =
        (if size0 = 0 \<or> size0 > BitmapSize then BitmapSize
         else let remainder = size0 smod 8 in if remainder \<noteq> 0 then size0 + (8 - remainder) else size0)
      in case make_bytes (drop_bit 3 size1) of
           None \<Rightarrow> None
         | Some d \<Rightarrow> Some \<lparr>bData = d, Bitsize = nat ((size1 - 1) mod 2 ^ 64), Maxpos = 0\<rparr>)"

definition NewBitmap :: "bitmap option" where
  "NewBitmap = NewBitmapSize BitmapSize"

text \<open>\<^const>\<open>None\<close> is the panic of \<open>this.Data[index]\<close>.\<close>

definition SetBit :: "bitmap \<Rightarrow> nat \<Rightarrow> byte \<Rightarrow> (bitmap \<times> bool) option" where
  "SetBit bm offset value =
     (let index = offset div 8; pos = offset mod 8
      in if Bitsize bm < offset then Some (bm, False)
         else
           case get_at (bData bm) (int index) of
             None \<Rightarrow> None
           | Some d \<Rightarrow>
               if value = 0
               then Some (bm\<lparr>bData := (bData bm)[index := d AND NOT (push_bit pos 1)]\<rparr>, True)
               else
                 Some (bm\<lparr>bData := (bData bm)[index := d OR push_bit pos 1],
                          Maxpos := (if Maxpos bm < offset then offset else Maxpos bm)\<rparr>, True))"

definition GetBit :: "bitmap \<Rightarrow> nat \<Rightarrow> byte option" where
  "GetBit bm offset =
     (let index = offset div 8; pos = offset mod 8
      in if Bitsize bm < offset then Some 0
         else map_option (\<lambda>d. drop_bit pos d AND 1) (get_at (bData bm) (int index)))"

definition GetMaxpos :: "bitmap \<Rightarrow> nat" where
  "GetMaxpos bm = Maxpos bm"

definition Count :: "bitmap \<Rightarrow> int" where
  "Count bm = foldl (\<lambda>num b. num + costCount (uint b)) 0 (bData bm)"

text \<open>The numbers that \<open>String\<close> prints; \<open>GetBit\<close> panics there as it does alone.\<close>

definition bm_String :: "bitmap \<Rightarrow> nat list option" where
  "bm_String bm =
     (let maxTotal = 100; bitTotal = (if Maxpos bm > maxTotal then maxTotal else Maxpos bm + 1)
      in if list_all (\<lambda>offset. GetBit bm offset \<noteq> None) [0..<bitTotal]
         then Some (filter (\<lambda>offset. GetBit bm offset = Some 1) [0..<bitTotal])
         else None)"

subsection \<open>It is a set\<close>

definition bm_elems :: "bitmap \<Rightarrow> nat set" where
  "bm_elems bm = {i. i \<le> Bitsize bm \<and> bit (bData bm ! (i div 8)) (i mod 8)}"

text \<open>The data hold the capacity, and no bit beyond \<open>Maxpos\<close> is set.\<close>

definition bm_ok :: "bitmap \<Rightarrow> bool" where
  "bm_ok bm \<longleftrightarrow> 8 * length (bData bm) = Suc (Bitsize bm) \<and> (\<forall>i\<in>bm_elems bm. i \<le> Maxpos bm)"

lemma get_index: "bm_ok bm \<Longrightarrow> i \<le> Bitsize bm \<Longrightarrow> get_at (bData bm) (int (i div 8)) = Some (bData bm ! (i div 8))"
  by (auto simp: bm_ok_def get_at_def)

lemma GetBit_elems: "bm_ok bm \<Longrightarrow> GetBit bm i = Some (if i \<in> bm_elems bm then 1 else 0)"
proof -
  have "drop_bit n b AND 1 = (if bit b n then 1 else 0)" for n and b :: byte
    by (simp add: and_one_eq mod_2_eq_odd bit_iff_odd_drop_bit)
  then show "bm_ok bm \<Longrightarrow> ?thesis" by (simp add: GetBit_def bm_elems_def Let_def get_index)
qed

lemma byte_update:
  fixes d :: byte
  assumes "n < 8" "m < 8"
  shows "bit (d AND NOT (push_bit m 1)) n \<longleftrightarrow> n \<noteq> m \<and> bit d n" "bit (d OR push_bit m 1) n \<longleftrightarrow> n = m \<or> bit d n"
  using assms by (auto simp: bit_simps bit_exp_iff)

lemma SetBit_Some:
  assumes "bm_ok bm"
  obtains bm' where "SetBit bm i v = Some (bm', i \<le> Bitsize bm)" "Bitsize bm' = Bitsize bm"
    "length (bData bm') = length (bData bm)"
    "Maxpos bm' = (if i \<le> Bitsize bm \<and> v \<noteq> 0 then max (Maxpos bm) i else Maxpos bm)"
    "bm_elems bm' =
       (if Bitsize bm < i then bm_elems bm else if v = 0 then bm_elems bm - {i} else insert i (bm_elems bm))"
proof (cases "Bitsize bm < i")
  case True
  then show thesis by (intro that [of bm]) (auto simp: SetBit_def)
next
  case False
  define x where "x = (let d = bData bm ! (i div 8) in
    if v = 0 then d AND NOT (push_bit (i mod 8) 1) else d OR push_bit (i mod 8) 1)"
  define bm' where "bm' = bm\<lparr>bData := (bData bm)[i div 8 := x],
    Maxpos := (if v \<noteq> 0 then max (Maxpos bm) i else Maxpos bm)\<rparr>"
  have set: "SetBit bm i v = Some (bm', True)"
    using False by (auto simp: SetBit_def Let_def get_index [OF assms] bm'_def x_def)
  have same: "j div 8 = i div 8 \<and> j mod 8 = i mod 8 \<longleftrightarrow> j = i" for j by (metis div_mult_mod_eq)
  have len: "i div 8 < length (bData bm)" using assms False by (auto simp: bm_ok_def)
  have "bit (bData bm' ! (j div 8)) (j mod 8) \<longleftrightarrow>
      (if j = i then v \<noteq> 0 else bit (bData bm ! (j div 8)) (j mod 8))" for j
  proof (cases "j div 8 = i div 8")
    case True
    then have "bData bm' ! (j div 8) = x" "j mod 8 = i mod 8 \<longleftrightarrow> j = i"
      using len same [of j] by (auto simp: bm'_def)
    then show ?thesis using True by (auto simp: x_def Let_def byte_update simp del: push_bit_of_1)
  qed (auto simp: bm'_def)
  then have "bm_elems bm' = (if v = 0 then bm_elems bm - {i} else insert i (bm_elems bm))"
    using False by (auto simp: bm_elems_def bm'_def split: if_splits)
  then show thesis using set False by (intro that [of bm']) (auto simp: bm'_def)
qed

lemma bm_ok_after:
  assumes "bm_ok bm" "Bitsize bm' = Bitsize bm" "length (bData bm') = length (bData bm)"
    and "Maxpos bm' = (if i \<le> Bitsize bm \<and> v \<noteq> 0 then max (Maxpos bm) i else Maxpos bm)"
    and "bm_elems bm' =
      (if Bitsize bm < i then bm_elems bm else if v = 0 then bm_elems bm - {i} else insert i (bm_elems bm))"
  shows "bm_ok bm'"
  using assms by (auto simp: bm_ok_def le_max_iff_disj)

lemma bm_ok_SetBit:
  assumes "bm_ok bm" "SetBit bm i v = Some (bm', r)"
  shows "bm_ok bm'"
proof (rule SetBit_Some [OF assms(1), of i v], goal_cases)
  case (1 b)
  then have "b = bm'" using assms(2) by simp
  then show ?case using bm_ok_after [OF assms(1) 1(2-5)] by simp
qed

text \<open>Counting the bytes one after the other.\<close>

definition bits_in :: "bytes \<Rightarrow> nat set" where
  "bits_in d = {i. i < 8 * length d \<and> bit (d ! (i div 8)) (i mod 8)}"

lemma bits_in_Cons: "bits_in (b # d) = {n. bit b n} \<union> (+) 8 ` bits_in d"
proof -
  have "i \<in> bits_in (b # d) \<longleftrightarrow> bit b i \<or> (\<exists>j\<in>bits_in d. i = 8 + j)" for i
  proof (cases "i < 8")
    case False
    then obtain j where "i = 8 + j" by (metis le_Suc_ex not_less)
    moreover have "(8 + j) div 8 = Suc (j div 8)" by simp
    ultimately show ?thesis by (auto simp: bits_in_def dest: bit_imp_le_length)
  qed (auto simp: bits_in_def)
  then show ?thesis by auto
qed

lemma finite_bits_in: "finite (bits_in d)"
  by (rule finite_subset [of _ "{..<8 * length d}"]) (auto simp: bits_in_def)

lemma foldl_count: "foldl (\<lambda>num b. num + costCount (uint b)) n d = n + int (card (bits_in d))"
proof (induction d arbitrary: n)
  case (Cons b d)
  have b: "{k. bit b k} = {k. bit (uint b) k}" "finite {k. bit b k}"
    using finite_bits [of "uint b"] by (auto simp: bit_uint_iff dest: bit_imp_le_length)
  have "card (bits_in (b # d)) = card {k. bit b k} + card (bits_in d)"
    unfolding bits_in_Cons using b(2) finite_bits_in [of d]
    by (subst card_Un_disjoint) (auto simp: card_image dest: bit_imp_le_length)
  then show ?case using Cons b(1) by (simp add: costCount_ones ones_def)
qed (simp add: bits_in_def)

lemma Count_card: "bm_ok bm \<Longrightarrow> Count bm = int (card (bm_elems bm))"
proof -
  assume "bm_ok bm"
  then have "bits_in (bData bm) = bm_elems bm" by (auto simp: bits_in_def bm_elems_def bm_ok_def)
  then show ?thesis by (simp add: Count_def foldl_count)
qed

interpretation fixed: bit_set bm_ok bm_elems "\<lambda>bm. {i. i \<le> Bitsize bm}" "\<lambda>bm i. GetBit bm i = Some 1"
  "\<lambda>i bm. fst (the (SetBit bm i 1))" "\<lambda>bm. nat (Count bm)"
proof (unfold_locales, goal_cases)
  case (2 bm i)
  from 2(1) obtain bm' where "SetBit bm i 1 = Some (bm', i \<le> Bitsize bm)" by (rule SetBit_Some)
  then show ?case using bm_ok_SetBit [OF 2(1)] by simp
next
  case (3 bm i) from 3(1) show ?case by (rule SetBit_Some [of bm i 1]) (use 3 in auto)
next
  case (4 bm i) from 4(1) show ?case by (rule SetBit_Some [of bm i 1]) auto
qed (simp_all add: GetBit_elems Count_card)

lemma NewBitmapSize_ok:
  assumes "0 \<le> n"
  shows "\<exists>bm. NewBitmapSize n = Some bm \<and> bm_ok bm \<and> bm_elems bm = {} \<and> Maxpos bm = 0 \<and>
    (0 < n \<longrightarrow> n \<le> BitmapSize \<longrightarrow> n \<le> int (Bitsize bm) + 1 \<and> int (Bitsize bm) < n + 7)"
proof -
  define m where "m = (if n = 0 \<or> n > BitmapSize then BitmapSize
    else let r = n smod 8 in if r \<noteq> 0 then n + (8 - r) else n)"
  have r: "n smod 8 = n mod 8" using assms
    by (cases "n = 0") (simp_all add: signed_divide_int_def signed_modulo_int_def minus_div_mult_eq_mod)
  have m: "m mod 8 = 0" "0 < m" "m \<le> BitmapSize + 8" "0 < n \<longrightarrow> n \<le> BitmapSize \<longrightarrow> n \<le> m \<and> m < n + 8"
    using assms unfolding m_def r by (simp_all add: BitmapSize_def Let_def) presburger+
  define k where "k = nat (m div 8)"
  have k: "m = 8 * int k" "0 < k" using m(1,2) by (auto simp: k_def)
  have new: "NewBitmapSize n = Some \<lparr>bData = replicate k 0, Bitsize = 8 * k - 1, Maxpos = 0\<rparr>"
  proof -
    have "drop_bit 3 m = int k" using k(1) by (simp add: drop_bit_eq_div)
    moreover have "nat ((m - 1) mod 2 ^ 64) = 8 * k - 1"
      using k m(3) by (simp add: BitmapSize_def mod_pos_pos_trivial nat_diff_distrib nat_mult_distrib)
    ultimately show ?thesis unfolding NewBitmapSize_def Let_def m_def [unfolded Let_def, symmetric] by simp
  qed
  have "i div 8 < k" if "i \<le> 8 * k - 1" for i using that k(2) by auto
  then have "bm_elems \<lparr>bData = replicate k 0, Bitsize = 8 * k - 1, Maxpos = 0\<rparr> = {}"
    by (auto simp: bm_elems_def)
  then show ?thesis using new k m(4) by (auto simp: bm_ok_def of_nat_diff)
qed

section \<open>The bitmap that grows\<close>

record ubitmap =
  uwords :: "64 word list"
  ulength :: int

definition ubm_New :: ubitmap where
  "ubm_New = \<lparr>uwords = [], ulength = 0\<rparr>"

text \<open>\<open>uint(num % 64)\<close>: the remainder of a negative number is negative, and wraps.\<close>

definition bit_pos :: "int \<Rightarrow> nat" where
  "bit_pos num = nat ((num smod 64) mod 2 ^ 64)"

definition ubm_Has :: "ubitmap \<Rightarrow> int \<Rightarrow> bool option" where
  "ubm_Has b num =
     (let word = num sdiv 64
      in if word < int (length (uwords b))
         then map_option (\<lambda>x. x AND push_bit (bit_pos num) 1 \<noteq> 0) (get_at (uwords b) word)
         else Some False)"

function grow_words :: "int \<Rightarrow> 64 word list \<Rightarrow> 64 word list" where
  "grow_words word ws = (if word \<ge> int (length ws) then grow_words word (ws @ [0]) else ws)"
  by auto
termination by (relation "measure (\<lambda>(word, ws). nat (word + 1 - int (length ws)))") auto

declare grow_words.simps [simp del]

definition ubm_Add :: "ubitmap \<Rightarrow> int \<Rightarrow> ubitmap option" where
  "ubm_Add b num =
     (let word = num sdiv 64; ws = grow_words word (uwords b)
      in case get_at ws word of
           None \<Rightarrow> None
         | Some x \<Rightarrow>
             Some (if x AND push_bit (bit_pos num) 1 = 0
                   then \<lparr>uwords = ws[nat word := x OR push_bit (bit_pos num) 1], ulength = ulength b + 1\<rparr>
                   else b\<lparr>uwords := ws\<rparr>))"

definition ubm_Len :: "ubitmap \<Rightarrow> int" where
  "ubm_Len b = ulength b"

subsection \<open>It is a set\<close>

definition ubm_elems :: "ubitmap \<Rightarrow> nat set" where
  "ubm_elems b = {i. i < 64 * length (uwords b) \<and> bit (uwords b ! (i div 64)) (i mod 64)}"

definition ubm_ok :: "ubitmap \<Rightarrow> bool" where
  "ubm_ok b \<longleftrightarrow> ulength b = int (card (ubm_elems b))"

lemma finite_ubm_elems: "finite (ubm_elems b)"
  by (rule finite_subset [of _ "{..<64 * length (uwords b)}"]) (auto simp: ubm_elems_def)

lemma index_int: "int i sdiv 64 = int (i div 64)" "bit_pos (int i) = i mod 64"
proof -
  have s: "int i smod 64 = int (i mod 64)"
    by (cases "i = 0") (simp_all add: signed_divide_int_def signed_modulo_int_def minus_div_mult_eq_mod zmod_int)
  have "int (i mod 64) mod 2 ^ 64 = int (i mod 64)"
    by (intro mod_pos_pos_trivial) (simp_all add: order_less_trans [of _ 64])
  then show "bit_pos (int i) = i mod 64" by (simp add: bit_pos_def s)
  show "int i sdiv 64 = int (i div 64)"
    by (cases "i = 0") (simp_all add: signed_divide_int_def zdiv_int)
qed

lemma grow_words_eq:
  "grow_words (int n) ws = ws @ replicate (Suc n - length ws) 0"
proof (induction "int n" ws rule: grow_words.induct)
  case (1 ws)
  then show ?case
  proof (cases "int n \<ge> int (length ws)")
    case True
    then have "Suc n - length ws = Suc (Suc n - length (ws @ [0]))" by simp
    then show ?thesis using 1 True by (subst grow_words.simps) (simp add: replicate_append_same [symmetric])
  qed (subst grow_words.simps, simp)
qed

lemma and_bit: "(x AND push_bit n 1 \<noteq> 0) = bit x n" for x :: "64 word"
  by (rule bit_iff_and_push_bit_not_eq_0 [symmetric])

lemma ubm_Has_elems: "ubm_Has b (int i) = Some (i \<in> ubm_elems b)"
  by (auto simp: ubm_Has_def Let_def index_int get_at_def and_bit ubm_elems_def simp del: push_bit_of_1)

lemma ubm_Add_elems:
  assumes "ubm_ok b"
  obtains b' where "ubm_Add b (int i) = Some b'" "ubm_ok b'" "ubm_elems b' = insert i (ubm_elems b)"
proof -
  define ws where "ws = grow_words (int (i div 64)) (uwords b)"
  have ws: "ws = uwords b @ replicate (Suc (i div 64) - length (uwords b)) 0" by (simp add: ws_def grow_words_eq)
  then have len: "i div 64 < length ws" by simp
  define x where "x = ws ! (i div 64)"
  have same: "ubm_elems (b\<lparr>uwords := ws\<rparr>) = ubm_elems b"
  proof -
    have "bit (ws ! (j div 64)) (j mod 64) \<longleftrightarrow> bit (uwords b ! (j div 64)) (j mod 64) \<and> j div 64 < length (uwords b)"
      if "j div 64 < length ws" for j
      using that by (auto simp: ws nth_append)
    moreover have "j < 64 * length l \<longleftrightarrow> j div 64 < length l" for j and l :: "64 word list"
      by (simp add: div_less_iff_less_mult mult.commute)
    ultimately show ?thesis using len by (auto simp: ubm_elems_def ws)
  qed
  have bx: "bit x (i mod 64) \<longleftrightarrow> i \<in> ubm_elems b"
    unfolding same [symmetric] using len by (auto simp: ubm_elems_def x_def)
  show thesis
  proof (cases "bit x (i mod 64)")
    case True
    then have "ubm_Add b (int i) = Some (b\<lparr>uwords := ws\<rparr>)"
      using len and_bit [of x "i mod 64"]
      by (simp add: ubm_Add_def Let_def index_int ws_def [symmetric] get_at_def x_def [symmetric])
    then show thesis
      using bx True assms same by (intro that [of "b\<lparr>uwords := ws\<rparr>"]) (auto simp: ubm_ok_def)
  next
    case False
    define b' where "b' = \<lparr>uwords = ws[i div 64 := x OR push_bit (i mod 64) 1], ulength = ulength b + 1\<rparr>"
    have add: "ubm_Add b (int i) = Some b'"
      using len False and_bit [of x "i mod 64"]
      by (simp add: ubm_Add_def Let_def index_int ws_def [symmetric] get_at_def x_def [symmetric] b'_def)
    have pos: "j div 64 = i div 64 \<and> j mod 64 = i mod 64 \<longleftrightarrow> j = i" for j by (metis div_mult_mod_eq)
    have "j \<in> ubm_elems b' \<longleftrightarrow> j = i \<or> j \<in> ubm_elems (b\<lparr>uwords := ws\<rparr>)" for j
      using len pos [of j] by (auto simp: ubm_elems_def b'_def nth_list_update bit_simps x_def)
    then have el: "ubm_elems b' = insert i (ubm_elems b)" using same by auto
    moreover have "i \<notin> ubm_elems b" using False bx by simp
    ultimately have "ubm_ok b'" using assms finite_ubm_elems [of b] by (simp add: ubm_ok_def b'_def)
    from add this el show thesis by (rule that)
  qed
qed

interpretation growing: bit_set ubm_ok ubm_elems "\<lambda>_. UNIV" "\<lambda>b i. ubm_Has b (int i) = Some True"
  "\<lambda>i b. the (ubm_Add b (int i))" "\<lambda>b. nat (ubm_Len b)"
proof (unfold_locales, goal_cases)
  case (2 b i) then show ?case by (elim ubm_Add_elems [of b i]) auto
next
  case (3 b i) then show ?case by (elim ubm_Add_elems [of b i]) auto
qed (auto simp: ubm_Has_elems ubm_ok_def ubm_Len_def)

lemma ubm_New_ok: "ubm_ok ubm_New" "ubm_elems ubm_New = {}"
  by (simp_all add: ubm_ok_def ubm_New_def ubm_elems_def)

subsection \<open>Negative numbers\<close>

lemma push_bit_beyond: "64 \<le> n \<Longrightarrow> push_bit n (x :: 64 word) = 0"
  by (rule bit_word_eqI) (auto simp: bit_simps)

lemma negative_number:
  assumes "- 64 < n" "n < 0"
  shows "n sdiv 64 = 0" "64 \<le> bit_pos n"
proof -
  have "(- n) div 64 = 0" using assms by simp
  then show d: "n sdiv 64 = 0" using assms by (simp add: signed_divide_int_def)
  have "n smod 64 = n" 
  proof -
    have "(- n) mod 64 = - n" using assms by (intro mod_pos_pos_trivial) simp_all
    then show ?thesis using assms by (simp add: signed_modulo_int_def)
  qed
  moreover have "n mod 2 ^ 64 = n + 2 ^ 64"
  proof -
    have "n mod 2 ^ 64 = (n + 2 ^ 64) mod 2 ^ 64" by simp
    also have "\<dots> = n + 2 ^ 64" using assms by (intro mod_pos_pos_trivial) simp_all
    finally show ?thesis .
  qed
  ultimately show "64 \<le> bit_pos n" using assms by (simp add: bit_pos_def)
qed

lemma ubm_Add_negative:
  assumes "- 64 < n" "n < 0"
  obtains b' where "ubm_Add b n = Some b'" "ubm_Len b' = ubm_Len b + 1" "ubm_elems b' = ubm_elems b"
    "ubm_Has b' n = Some False"
proof -
  note N = negative_number [OF assms]
  have z: "push_bit (bit_pos n) (1 :: 64 word) = 0" using N(2) by (rule push_bit_beyond)
  define ws where "ws = grow_words 0 (uwords b)"
  have ws: "ws = uwords b @ replicate (1 - length (uwords b)) 0"
    using grow_words_eq [of 0 "uwords b"] by (simp add: ws_def)
  then have len: "0 < length ws" by (cases "uwords b") simp_all
  have "ubm_elems (b\<lparr>uwords := ws\<rparr>) = ubm_elems b"
    by (cases "uwords b") (auto simp: ubm_elems_def ws nth_Cons')
  then show thesis
    using len by (intro that [of "\<lparr>uwords = ws, ulength = ulength b + 1\<rparr>"])
      (simp_all add: ubm_Add_def ubm_Has_def ubm_Len_def N(1) Let_def ws_def [symmetric] get_at_def z ubm_elems_def del: push_bit_of_1)
qed

section \<open>Properties\<close>

text \<open>The properties of the two bitmaps and of the bit count.\<close>

text \<open>
  C29: A \<open>Bitmap\<close> made by \<open>NewBitmapSize\<close> is a set of the offsets up to its capacity: \<open>GetBit\<close> tells whether an offset is
  in it, \<open>SetBit\<close> with a value other than 0 adds it and with 0 removes it, both without a panic at any offset,
  \<open>SetBit\<close> reports whether the offset fits, and \<open>Count\<close> is the size of the set.
\<close>

theorem bitmap_is_set:
  assumes "bm_ok bm"
  shows "GetBit bm i = Some (if i \<in> bm_elems bm then 1 else 0) \<and> Count bm = int (card (bm_elems bm)) \<and>
    (\<exists>bm'. SetBit bm i v = Some (bm', i \<le> Bitsize bm) \<and> bm_ok bm' \<and> Bitsize bm' = Bitsize bm \<and>
       bm_elems bm' = (if Bitsize bm < i then bm_elems bm
                       else if v = 0 then bm_elems bm - {i} else insert i (bm_elems bm)))"
proof -
  obtain bm' where "SetBit bm i v = Some (bm', i \<le> Bitsize bm)" "Bitsize bm' = Bitsize bm"
    "bm_elems bm' = (if Bitsize bm < i then bm_elems bm
                     else if v = 0 then bm_elems bm - {i} else insert i (bm_elems bm))"
    using assms by (rule SetBit_Some)
  then show ?thesis
    using bm_ok_SetBit [OF assms] GetBit_elems [OF assms] Count_card [OF assms] by blast
qed

theorem bitmap_is_set_witness:
  "\<exists>bm bm'. NewBitmapSize 13 = Some bm \<and> SetBit bm 12 1 = Some (bm', True) \<and> bm_elems bm' = {12}"
proof -
  obtain bm where bm: "NewBitmapSize 13 = Some bm" "bm_ok bm" "bm_elems bm = {}" "13 \<le> int (Bitsize bm) + 1"
    using NewBitmapSize_ok [of 13] by (auto simp: BitmapSize_def)
  then have "12 \<le> Bitsize bm" by simp
  then show ?thesis using bitmap_is_set [OF bm(2), of 12 1] bm by auto
qed

text \<open>
  \<open>costCount\<close>, whose loop clears the lowest bit until none is left, returns the number of bits that are set, for
  every number that is not negative.
\<close>

theorem costCount_is_popcount:
  assumes "0 \<le> v"
  shows "costCount v = int (card {n. bit v n})"
  using assms by (simp add: costCount_ones ones_def)

theorem costCount_is_popcount_witness: "costCount 11 = int (card {n. bit (11 :: int) n}) \<and> costCount 11 = 3"
proof
  show "costCount 11 = int (card {n. bit (11 :: int) n})" by (rule costCount_is_popcount) simp
  show "costCount 11 = 3" by code_simp
qed

text \<open>
  In the bitmap of \<open>utils\<close>, after any additions of numbers that are not negative to a new bitmap, \<open>Has\<close> finds exactly
  those, and \<open>Len\<close> counts each once. A negative number above -64 is counted at each addition and never found.
\<close>

theorem growing_bitmap_is_set:
  "ubm_Has (fold (\<lambda>i b. the (ubm_Add b (int i))) is ubm_New) (int i) = Some (i \<in> set is) \<and>
   nat (ubm_Len (fold (\<lambda>i b. the (ubm_Add b (int i))) is ubm_New)) = length (remdups is) \<and>
   (- 64 < n \<and> n < 0 \<longrightarrow>
     (\<exists>b'. ubm_Add b n = Some b' \<and> ubm_Len b' = ubm_Len b + 1 \<and> ubm_Has b' n = Some False))"
proof -
  note g = growing.len_add_all [OF ubm_New_ok, of "is"]
  have "ubm_Has (fold (\<lambda>i b. the (ubm_Add b (int i))) is ubm_New) (int i) = Some (i \<in> set is)"
    using g(2) [of i] by (auto simp: ubm_Has_elems)
  then show ?thesis using g(1) ubm_Add_negative [of n b] by auto
qed

theorem growing_bitmap_is_set_witness:
  "ubm_Has (fold (\<lambda>i b. the (ubm_Add b (int i))) [3, 70, 3] ubm_New) (int 70) = Some True \<and>
   (\<exists>b'. ubm_Add ubm_New (- 1) = Some b' \<and> ubm_Len b' = ubm_Len ubm_New + 1 \<and> ubm_Has b' (- 1) = Some False)"
  using growing_bitmap_is_set [of "[3, 70, 3]" 70 "- 1" ubm_New] by simp

end
