(* ===== verification/Key_Lock.thy ===== *)
theory Key_Lock imports Main begin

text \<open>
  \<open>common/keylock/keylock.go\<close>: one mutex to a key, made on demand, counted while it is used and removed by \<open>Clean\<close> when
  it is not. Everything the code does under the global \<open>RWMutex\<close> is one step: a write section excludes all
  others, and two read sections, which only look a key up and add to an atomic counter, commute. Between
  sections the threads interleave. An inner lock is an address; \<open>iowner\<close> records which thread locked its
  \<open>sync.Mutex\<close>, which Go does not. Threads are numbers.
\<close>

section \<open>State and sections\<close>

record innerLock =
  icount :: int
  iowner :: "nat option"

record KeyLock =
  locks :: "string \<Rightarrow> nat option"
  inner :: "nat \<Rightarrow> innerLock"
  nlocks :: nat
  stopped :: bool

definition newInnerLock :: innerLock where
  "newInnerLock = \<lparr>icount = 0, iowner = None\<rparr>"

definition new_KeyLock :: KeyLock where
  "new_KeyLock = \<lparr>locks = (\<lambda>_. None), inner = (\<lambda>_. newInnerLock), nlocks = 0, stopped = False\<rparr>"

text \<open>\<open>GetKeyLockIns\<close> with its \<open>sync.Once\<close>: the argument is the package's instance so far.\<close>

definition GetKeyLockIns :: "KeyLock option \<Rightarrow> KeyLock" where
  "GetKeyLockIns ins = (case ins of Some l \<Rightarrow> l | None \<Rightarrow> new_KeyLock)"

definition il_add :: "nat \<Rightarrow> KeyLock \<Rightarrow> KeyLock" where
  "il_add a l = l\<lparr>inner := (inner l)(a := (inner l a)\<lparr>icount := icount (inner l a) + 1\<rparr>)\<rparr>"

definition il_done :: "nat \<Rightarrow> KeyLock \<Rightarrow> KeyLock" where
  "il_done a l = l\<lparr>inner := (inner l)(a := (inner l a)\<lparr>icount := icount (inner l a) - 1\<rparr>)\<rparr>"

text \<open>\<open>Lock\<close>: the read section, the write section for a key it did not find, and \<open>keyLock.Lock()\<close>, which waits while
  the mutex is locked (\<^const>\<open>None\<close>).\<close>

definition lock_read :: "string \<Rightarrow> KeyLock \<Rightarrow> KeyLock \<times> nat option" where
  "lock_read key l =
     (case locks l key of
        None \<Rightarrow> (l, None)
      | Some a \<Rightarrow> (il_add a l, Some a))"

definition lock_write :: "string \<Rightarrow> KeyLock \<Rightarrow> KeyLock \<times> nat" where
  "lock_write key l =
     (case locks l key of
        None \<Rightarrow>
          let a = nlocks l;
              l = l\<lparr>locks := (locks l)(key := Some a), inner := (inner l)(a := newInnerLock), nlocks := nlocks l + 1\<rparr>
          in (il_add a l, a)
      | Some a \<Rightarrow> (il_add a l, a))"

definition mutex_Lock :: "nat \<Rightarrow> nat \<Rightarrow> KeyLock \<Rightarrow> KeyLock option" where
  "mutex_Lock t a l =
     (case iowner (inner l a) of
        Some _ \<Rightarrow> None
      | None \<Rightarrow> Some (l\<lparr>inner := (inner l)(a := (inner l a)\<lparr>iowner := Some t\<rparr>)\<rparr>))"

text \<open>\<open>Unlock\<close>: the read section, then \<open>keyLock.Unlock()\<close>, a fatal error (\<^const>\<open>None\<close>) on a mutex that is not locked.\<close>

definition unlock_read :: "string \<Rightarrow> KeyLock \<Rightarrow> KeyLock \<times> nat option" where
  "unlock_read key l =
     (case locks l key of
        None \<Rightarrow> (l, None)
      | Some a \<Rightarrow> (il_done a l, Some a))"

definition mutex_Unlock :: "nat \<Rightarrow> KeyLock \<Rightarrow> KeyLock option" where
  "mutex_Unlock a l =
     (case iowner (inner l a) of
        None \<Rightarrow> None
      | Some _ \<Rightarrow> Some (l\<lparr>inner := (inner l)(a := (inner l a)\<lparr>iowner := None\<rparr>)\<rparr>))"

definition Clean :: "KeyLock \<Rightarrow> KeyLock" where
  "Clean l =
     l\<lparr>locks := (\<lambda>k. case locks l k of
                    None \<Rightarrow> None
                  | Some a \<Rightarrow> if icount (inner l a) = 0 then None else Some a)\<rparr>"

text \<open>\<open>StopCleanLoop\<close> panics when the channel is closed already; the loop cleans at each tick until it is.\<close>

definition StopCleanLoop :: "KeyLock \<Rightarrow> KeyLock option" where
  "StopCleanLoop l = (if stopped l then None else Some (l\<lparr>stopped := True\<rparr>))"

fun cleanLoop :: "bool list \<Rightarrow> KeyLock \<Rightarrow> KeyLock" where
  "cleanLoop [] l = l"
| "cleanLoop (tick # evs) l = (if tick then cleanLoop evs (Clean l) else l)"

section \<open>Threads\<close>

text \<open>
  Where a thread is: outside, in \<open>Lock\<close> after the read section that found nothing, in \<open>Lock\<close> before \<open>keyLock.Lock()\<close>,
  between \<open>Lock\<close> and \<open>Unlock\<close>, and in \<open>Unlock\<close> before \<open>keyLock.Unlock()\<close>. A thread unlocks the key it locked.
\<close>

datatype pc =
    Outside
  | Missed string
  | Waiting string nat
  | Inside string nat
  | Leaving nat

record system =
  kl :: KeyLock
  pcs :: "nat \<Rightarrow> pc"

inductive kl_step :: "system \<Rightarrow> system \<Rightarrow> bool" where
  found: "pcs s t = Outside \<Longrightarrow> lock_read key (kl s) = (l, Some a) \<Longrightarrow>
    kl_step s \<lparr>kl = l, pcs = (pcs s)(t := Waiting key a)\<rparr>"
| missed: "pcs s t = Outside \<Longrightarrow> lock_read key (kl s) = (l, None) \<Longrightarrow>
    kl_step s \<lparr>kl = l, pcs = (pcs s)(t := Missed key)\<rparr>"
| made: "pcs s t = Missed key \<Longrightarrow> lock_write key (kl s) = (l, a) \<Longrightarrow>
    kl_step s \<lparr>kl = l, pcs = (pcs s)(t := Waiting key a)\<rparr>"
| entered: "pcs s t = Waiting key a \<Longrightarrow> mutex_Lock t a (kl s) = Some l \<Longrightarrow>
    kl_step s \<lparr>kl = l, pcs = (pcs s)(t := Inside key a)\<rparr>"
| left: "pcs s t = Inside key a \<Longrightarrow> unlock_read key (kl s) = (l, Some b) \<Longrightarrow>
    kl_step s \<lparr>kl = l, pcs = (pcs s)(t := Leaving b)\<rparr>"
| lost: "pcs s t = Inside key a \<Longrightarrow> unlock_read key (kl s) = (l, None) \<Longrightarrow>
    kl_step s \<lparr>kl = l, pcs = (pcs s)(t := Outside)\<rparr>"
| released: "pcs s t = Leaving a \<Longrightarrow> mutex_Unlock a (kl s) = Some l \<Longrightarrow>
    kl_step s \<lparr>kl = l, pcs = (pcs s)(t := Outside)\<rparr>"
| cleaned: "kl_step s (s\<lparr>kl := Clean (kl s)\<rparr>)"

inductive kl_reach :: "system \<Rightarrow> bool" where
  init: "kl_reach \<lparr>kl = new_KeyLock, pcs = (\<lambda>_. Outside)\<rparr>"
| step: "kl_reach s \<Longrightarrow> kl_step s s' \<Longrightarrow> kl_reach s'"

inductive_cases kl_stepE: "kl_step s s'"

section \<open>The invariant\<close>

definition uses :: "pc \<Rightarrow> nat \<Rightarrow> bool" where
  "uses p a \<longleftrightarrow> (\<exists>key. p = Waiting key a \<or> p = Inside key a)"

definition users :: "(nat \<Rightarrow> pc) \<Rightarrow> nat \<Rightarrow> nat set" where
  "users p a = {t. uses (p t) a}"

definition owns :: "pc \<Rightarrow> nat \<Rightarrow> bool" where
  "owns p a \<longleftrightarrow> (\<exists>key. p = Inside key a) \<or> p = Leaving a"

text \<open>
  A thread that waits for a key or is inside has the lock that the map holds for it; the counter of a lock is
  the number of those threads; its mutex is locked by the thread inside or leaving.
\<close>

definition kl_inv :: "system \<Rightarrow> bool" where
  "kl_inv s \<longleftrightarrow>
     (\<forall>t key a. pcs s t = Waiting key a \<or> pcs s t = Inside key a \<longrightarrow> locks (kl s) key = Some a) \<and>
     (\<forall>key a. locks (kl s) key = Some a \<longrightarrow> a < nlocks (kl s)) \<and>
     (\<forall>key key' a. locks (kl s) key = Some a \<longrightarrow> locks (kl s) key' = Some a \<longrightarrow> key = key') \<and>
     (\<forall>a. finite (users (pcs s) a) \<and> icount (inner (kl s) a) = int (card (users (pcs s) a))) \<and>
     (\<forall>a t. iowner (inner (kl s) a) = Some t \<longleftrightarrow> owns (pcs s t) a) \<and>
     (\<forall>a\<ge>nlocks (kl s). inner (kl s) a = newInnerLock)"

lemma users_upd:
  "users (p(t := q)) a = (if uses q a then insert t (users p a) else users p a - {t})"
  by (auto simp: users_def)

lemma pc_simps [simp]:
  "\<not> uses Outside a" "\<not> uses (Missed key) a" "uses (Waiting key b) a \<longleftrightarrow> b = a"
  "uses (Inside key b) a \<longleftrightarrow> b = a" "\<not> uses (Leaving b) a"
  "\<not> owns Outside a" "\<not> owns (Missed key) a" "\<not> owns (Waiting key b) a"
  "owns (Inside key b) a \<longleftrightarrow> b = a" "owns (Leaving b) a \<longleftrightarrow> b = a"
  by (auto simp: uses_def owns_def)

lemma kl_invD:
  assumes "kl_inv s"
  shows "pcs s t = Waiting key a \<or> pcs s t = Inside key a \<Longrightarrow> locks (kl s) key = Some a"
    and "locks (kl s) key = Some a \<Longrightarrow> a < nlocks (kl s)"
    and "locks (kl s) key = Some a \<Longrightarrow> locks (kl s) key' = Some a \<Longrightarrow> key = key'"
    and "finite (users (pcs s) a)" "icount (inner (kl s) a) = int (card (users (pcs s) a))"
    and "iowner (inner (kl s) a) = Some t \<longleftrightarrow> owns (pcs s t) a"
    and "nlocks (kl s) \<le> a \<Longrightarrow> inner (kl s) a = newInnerLock"
  using assms unfolding kl_inv_def by blast+

lemma kl_invI:
  assumes "\<And>t key a. pcs s t = Waiting key a \<or> pcs s t = Inside key a \<Longrightarrow> locks (kl s) key = Some a"
    and "\<And>key a. locks (kl s) key = Some a \<Longrightarrow> a < nlocks (kl s)"
    and "\<And>key key' a. locks (kl s) key = Some a \<Longrightarrow> locks (kl s) key' = Some a \<Longrightarrow> key = key'"
    and "\<And>a. finite (users (pcs s) a) \<and> icount (inner (kl s) a) = int (card (users (pcs s) a))"
    and "\<And>a t. iowner (inner (kl s) a) = Some t \<longleftrightarrow> owns (pcs s t) a"
    and "\<And>a. nlocks (kl s) \<le> a \<Longrightarrow> inner (kl s) a = newInnerLock"
  shows "kl_inv s"
  using assms unfolding kl_inv_def by blast

text \<open>A thread joins the users of the lock that the map holds for its key.\<close>

lemma join_inv:
  assumes "kl_inv s" "locks (kl s) key = Some a" "\<not> uses (pcs s t) b" "\<not> uses (pcs s t) a" "\<And>c. \<not> owns (pcs s t) c"
    "\<And>c. \<not> uses (pcs s t) c"
  shows "kl_inv \<lparr>kl = il_add a (kl s), pcs = (pcs s)(t := Waiting key a)\<rparr>"
proof (rule kl_invI, goal_cases)
  case (4 c)
  have "t \<notin> users (pcs s) c" using assms(6) by (simp add: users_def)
  then show ?case using kl_invD(4,5) [OF assms(1), of c] by (auto simp: il_add_def users_upd)
next
  case (5 c t') then show ?case using kl_invD(6) [OF assms(1), of c t'] assms(5) kl_invD(6) [OF assms(1), of c t]
    by (auto simp: il_add_def)
next
  case (6 c) then show ?case using kl_invD(7) [OF assms(1), of c] kl_invD(2) [OF assms(1,2)] by (simp add: il_add_def)
qed (use kl_invD(1-3) [OF assms(1)] assms(2) in \<open>auto simp: il_add_def split: if_splits\<close>)

text \<open>A new lock enters the map.\<close>

definition make_lock :: "string \<Rightarrow> KeyLock \<Rightarrow> KeyLock" where
  "make_lock key l =
     l\<lparr>locks := (locks l)(key := Some (nlocks l)), inner := (inner l)(nlocks l := newInnerLock), nlocks := nlocks l + 1\<rparr>"

lemma make_inv:
  assumes "kl_inv s" "locks (kl s) key = None"
  shows "kl_inv (s\<lparr>kl := make_lock key (kl s)\<rparr>)"
proof (rule kl_invI, goal_cases)
  case (1 t k a) then show ?case using kl_invD(1) [OF assms(1), of t k a] assms(2) by (auto simp: make_lock_def)
next
  case (2 k a) then show ?case using kl_invD(2) [OF assms(1), of k a] by (auto simp: make_lock_def split: if_splits)
next
  case (3 k k' a) then show ?case using kl_invD(2,3) [OF assms(1)] by (auto simp: make_lock_def split: if_splits)
next
  case (4 a) then show ?case
    using kl_invD(4) [OF assms(1), of a] kl_invD(5) [OF assms(1), of a, symmetric] kl_invD(7) [OF assms(1), of a]
    by (auto simp: make_lock_def)
next
  case (5 a t) then show ?case
    using kl_invD(6) [OF assms(1), of a t, symmetric] kl_invD(7) [OF assms(1), of a] by (auto simp: make_lock_def)
next
  case (6 a) then show ?case using kl_invD(7) [OF assms(1)] by (auto simp: make_lock_def)
qed

lemma kl_step_inv: "kl_step s s' \<Longrightarrow> kl_inv s \<Longrightarrow> kl_inv s'"
proof (induction rule: kl_step.induct)
  case (found s t key l a)
  then show ?case by (auto simp: lock_read_def split: option.splits intro!: join_inv)
next
  case (missed s t key l)
  then have "l = kl s" by (auto simp: lock_read_def split: option.splits)
  moreover have "users ((pcs s)(t := Missed key)) a = users (pcs s) a" for a
    using missed(1) by (auto simp: users_def)
  ultimately show ?case using kl_invD [OF missed(3)] missed(1)
    by (intro kl_invI) (auto split: if_splits)
next
  case (made s t key l a)
  show ?case
  proof (cases "locks (kl s) key")
    case None
    define s' where "s' = s\<lparr>kl := make_lock key (kl s)\<rparr>"
    have "l = il_add a (kl s')" "locks (kl s') key = Some a" "pcs s' = pcs s"
      using made(2) None by (auto simp: lock_write_def make_lock_def s'_def Let_def)
    then show ?thesis
      using join_inv [OF make_inv [OF made(3) None, folded s'_def], of key a t] made(1) by simp
  next
    case (Some b)
    then show ?thesis using made join_inv [OF made(3), of key b t] by (auto simp: lock_write_def)
  qed
next
  case (entered s t key a l)
  note I = kl_invD [OF entered(3)]
  from entered have l: "l = (kl s)\<lparr>inner := (inner (kl s))(a := (inner (kl s) a)\<lparr>iowner := Some t\<rparr>)\<rparr>"
    and free: "iowner (inner (kl s) a) = None" by (auto simp: mutex_Lock_def split: option.splits)
  have u: "users ((pcs s)(t := Inside key a)) c = users (pcs s) c" for c
    using entered(1) by (auto simp: users_upd users_def)
  have key: "locks (kl s) key = Some a" using I(1) entered(1) by blast
  show ?case
  proof (rule kl_invI, goal_cases)
    case (1 t' k c) then show ?case using I(1) key by (auto simp: l split: if_splits)
  next
    case (4 c) then show ?case using I(4,5) u by (simp add: l)
  next
    case (5 c t') then show ?case using I(6) [of c t'] I(6) [of a t'] I(6) [of c t] free entered(1) by (auto simp: l)
  next
    case (6 c) then show ?case using I(7) I(2) [OF key] by (simp add: l)
  qed (use I(2,3) in \<open>auto simp: l\<close>)
next
  case (left s t key a l b)
  note I = kl_invD [OF left(3)]
  have key: "locks (kl s) key = Some a" using I(1) left(1) by blast
  then have b: "b = a" "l = il_done a (kl s)" using left(2) by (auto simp: unlock_read_def)
  have u: "users ((pcs s)(t := Leaving a)) c = (if c = a then users (pcs s) a - {t} else users (pcs s) c)" for c
    using left(1) by (auto simp: users_upd users_def)
  have t: "t \<in> users (pcs s) a" using left(1) by (simp add: users_def)
  show ?case unfolding b
  proof (rule kl_invI, goal_cases)
    case (1 t' k c) then show ?case using I(1) by (auto simp: il_done_def split: if_splits)
  next
    case (4 c)
    have "0 < card (users (pcs s) a)" using t I(4) card_gt_0_iff by blast
    then show ?case using I(4,5) u t by (auto simp: il_done_def)
  next
    case (5 c t') then show ?case using I(6) [of c t'] left(1) by (auto simp: il_done_def)
  next
    case (6 c) then show ?case using I(7) I(2) [OF key] by (simp add: il_done_def)
  qed (use I(2,3) in \<open>auto simp: il_done_def\<close>)
next
  case (lost s t key a l)
  then show ?case using kl_invD(1) [OF lost(3), of t key a] by (simp add: unlock_read_def)
next
  case (released s t a l)
  note I = kl_invD [OF released(3)]
  from released(2) have l: "l = (kl s)\<lparr>inner := (inner (kl s))(a := (inner (kl s) a)\<lparr>iowner := None\<rparr>)\<rparr>"
    by (auto simp: mutex_Unlock_def split: option.splits)
  have own: "iowner (inner (kl s) a) = Some t" using I(6) released(1) by simp
  have u: "users ((pcs s)(t := Outside)) c = users (pcs s) c" for c
    using released(1) by (auto simp: users_upd users_def)
  show ?case
  proof (rule kl_invI, goal_cases)
    case (1 t' k c) then show ?case using I(1) by (auto simp: l split: if_splits)
  next
    case (4 c) then show ?case using I(4,5) u by (simp add: l)
  next
    case (5 c t') then show ?case using I(6) [of c t'] I(6) [of c t] own released(1) by (auto simp: l)
  next
    case (6 c) then show ?case using I(7) own by (auto simp: l newInnerLock_def)
  qed (use I(2,3) in \<open>auto simp: l\<close>)
next
  case (cleaned s)
  note I = kl_invD [OF cleaned]
  show ?case
  proof (rule kl_invI, goal_cases)
    case (1 t key a)
    then have "locks (kl s) key = Some a" "t \<in> users (pcs s) a" using I(1) by (auto simp: users_def)
    moreover from this have "icount (inner (kl s) a) \<noteq> 0" using I(4,5) by (auto simp: card_eq_0_iff)
    ultimately show ?case by (simp add: Clean_def)
  qed (use I in \<open>auto simp: Clean_def split: option.splits if_splits\<close>)
qed

theorem kl_reach_inv: "kl_reach s \<Longrightarrow> kl_inv s"
proof (induction rule: kl_reach.induct)
  case init
  then show ?case by (auto simp: kl_inv_def new_KeyLock_def newInnerLock_def users_def)
qed (rule kl_step_inv)

section \<open>Properties\<close>

text \<open>The properties of the key lock, under every interleaving of its threads and of \<open>Clean\<close>.\<close>

text \<open>
  C9: Mutual exclusion for each key: in every reachable state at most one thread is between \<open>Lock(key)\<close> and
  \<open>Unlock(key)\<close>, although \<open>Clean\<close> may run at any time and a key may get a new lock while a thread is still
  leaving the old one.
\<close>

theorem key_mutual_exclusion:
  assumes "kl_reach s" and "pcs s t = Inside key a" and "pcs s t' = Inside key b"
  shows "t = t'"
proof -
  note I = kl_invD [OF kl_reach_inv [OF assms(1)]]
  have "locks (kl s) key = Some a" "locks (kl s) key = Some b" using I(1) assms(2,3) by blast+
  then have "iowner (inner (kl s) a) = Some t" "iowner (inner (kl s) a) = Some t'"
    using I(6) assms(2,3) by simp_all
  then show ?thesis by simp
qed

text \<open>A thread inside, and another one waiting, after a clean-up in between.\<close>

lemma ex_inside: "\<exists>s. kl_reach s \<and> pcs s 1 = Inside ''k'' 0 \<and> pcs s 2 = Waiting ''k'' 0"
proof -
  define s0 where "s0 = \<lparr>kl = new_KeyLock, pcs = (\<lambda>_. Outside)\<rparr>"
  define l1 where "l1 = fst (lock_write ''k'' new_KeyLock)"
  define l2 where "l2 = l1\<lparr>inner := (inner l1)(0 := (inner l1 0)\<lparr>iowner := Some 1\<rparr>)\<rparr>"
  have l1: "lock_write ''k'' new_KeyLock = (l1, 0)" "iowner (inner l1 0) = None" "locks l1 ''k'' = Some 0"
    "icount (inner l1 0) = 1"
    by (simp_all add: l1_def lock_write_def new_KeyLock_def newInnerLock_def il_add_def Let_def)
  have "kl_reach s0" unfolding s0_def by (rule kl_reach.init)
  then have "kl_reach \<lparr>kl = new_KeyLock, pcs = (pcs s0)(1 := Missed ''k'')\<rparr>"
    by (rule kl_reach.step) (rule kl_step.missed, simp_all add: s0_def lock_read_def new_KeyLock_def)
  then have "kl_reach \<lparr>kl = l1, pcs = (pcs s0)(1 := Waiting ''k'' 0)\<rparr>"
    by (rule kl_reach.step) (use kl_step.made [of "\<lparr>kl = new_KeyLock, pcs = (pcs s0)(1 := Missed ''k'')\<rparr>" 1 "''k''" l1 0] l1
      in simp)
  then have "kl_reach \<lparr>kl = l2, pcs = (pcs s0)(1 := Inside ''k'' 0)\<rparr>"
    by (rule kl_reach.step) (use kl_step.entered [of "\<lparr>kl = l1, pcs = (pcs s0)(1 := Waiting ''k'' 0)\<rparr>" 1 "''k''" 0 l2] l1
      in \<open>simp add: mutex_Lock_def l2_def\<close>)
  then have r: "kl_reach (\<lparr>kl = l2, pcs = (pcs s0)(1 := Inside ''k'' 0)\<rparr>\<lparr>kl := Clean l2\<rparr>)"
    by (rule kl_reach.step) (use kl_step.cleaned [of "\<lparr>kl = l2, pcs = (pcs s0)(1 := Inside ''k'' 0)\<rparr>"] in simp)
  have c: "locks (Clean l2) ''k'' = Some 0" using l1 by (simp add: Clean_def l2_def)
  then have "lock_read ''k'' (Clean l2) = (il_add 0 (Clean l2), Some 0)" by (simp add: lock_read_def)
  then have "kl_reach \<lparr>kl = il_add 0 (Clean l2), pcs = (pcs s0)(1 := Inside ''k'' 0, 2 := Waiting ''k'' 0)\<rparr>"
    using kl_reach.step [OF r kl_step.found [of _ 2 "''k''"]] by (simp add: s0_def)
  then show ?thesis by (intro exI conjI) (assumption, simp_all)
qed

theorem key_mutual_exclusion_witness:
  "\<exists>s. kl_reach s \<and> (\<exists>t a. pcs s t = Inside ''k'' a) \<and>
     (\<forall>t t' a b. pcs s t = Inside ''k'' a \<longrightarrow> pcs s t' = Inside ''k'' b \<longrightarrow> t = t')"
  using ex_inside key_mutual_exclusion by blast

text \<open>
  \<open>Clean\<close> removes exactly the idle locks: a lock that a thread waits for or holds stays in the map under its key, a
  lock nobody uses is removed, and the counter of a lock is the number of its users.
\<close>

theorem clean_removes_idle_locks:
  assumes "kl_reach s"
  shows "locks (Clean (kl s)) key =
      (case locks (kl s) key of
         None \<Rightarrow> None
       | Some a \<Rightarrow> if \<exists>t. pcs s t = Waiting key a \<or> pcs s t = Inside key a then Some a else None)"
proof (cases "locks (kl s) key")
  case (Some a)
  note I = kl_invD [OF kl_reach_inv [OF assms]]
  have "t \<in> users (pcs s) a \<longleftrightarrow> pcs s t = Waiting key a \<or> pcs s t = Inside key a" for t
    using I(1) I(3) [OF Some] by (auto simp: users_def uses_def)
  then have "users (pcs s) a = {t. pcs s t = Waiting key a \<or> pcs s t = Inside key a}" by blast
  then show ?thesis using I(4,5) [of a] Some by (auto simp: Clean_def)
qed (simp add: Clean_def)

theorem clean_removes_idle_locks_witness:
  "\<exists>s. kl_reach s \<and> locks (Clean (kl s)) ''k'' = Some 0"
proof -
  obtain s where s: "kl_reach s" "pcs s 1 = Inside ''k'' 0" using ex_inside by blast
  then have "locks (kl s) ''k'' = Some 0" using kl_invD(1) [OF kl_reach_inv] by blast
  then have "locks (Clean (kl s)) ''k'' = Some 0" using clean_removes_idle_locks [OF s(1), of "''k''"] s by auto
  then show ?thesis using s(1) by blast
qed

text \<open>
  C38: Nobody is stuck and nothing is fatal: whenever a thread waits for a lock, some thread can go on, the waiting
  one or the one that has its mutex, and \<open>Unlock\<close> never finds the mutex unlocked or the key gone.
\<close>

theorem key_lock_progress:
  assumes "kl_reach s"
  shows "(pcs s t = Waiting key a \<longrightarrow>
      mutex_Lock t a (kl s) \<noteq> None \<or> (\<exists>t'. (\<exists>key'. pcs s t' = Inside key' a) \<or> pcs s t' = Leaving a)) \<and>
    (pcs s t = Leaving a \<longrightarrow> mutex_Unlock a (kl s) \<noteq> None) \<and>
    (pcs s t = Inside key a \<longrightarrow> snd (unlock_read key (kl s)) = Some a)"
proof -
  note I = kl_invD [OF kl_reach_inv [OF assms]]
  have "iowner (inner (kl s) a) = Some t" if "pcs s t = Leaving a" using I(6) that by simp
  moreover have "locks (kl s) key = Some a" if "pcs s t = Inside key a" using I(1) that by blast
  moreover have "\<exists>t'. owns (pcs s t') a" if "mutex_Lock t a (kl s) = None"
    using that I(6) by (auto simp: mutex_Lock_def split: option.splits)
  ultimately show ?thesis by (auto simp: mutex_Unlock_def unlock_read_def owns_def)
qed

theorem key_lock_progress_witness:
  "\<exists>s. kl_reach s \<and> pcs s 2 = Waiting ''k'' 0 \<and>
     (mutex_Lock 2 0 (kl s) \<noteq> None \<or> (\<exists>t'. (\<exists>key'. pcs s t' = Inside key' 0) \<or> pcs s t' = Leaving 0))"
  using ex_inside key_lock_progress by blast

end
