(* ===== verification/Ants_Pool.thy ===== *)
theory Ants_Pool imports Main begin

text \<open>
  \<open>tools/ants/pool.go\<close>: the wrapper around the goroutine pool of the library ants. The library decides whether it takes
  a task (an error or none), runs the tasks it took on its workers, and knows the numbers of running and waiting
  tasks: all that is argument here. Submitting a task and the end of its run are two steps. A run is described
  by the time it took and the text of the panic it ended in, if any.

  The mutex \<open>mu\<close> is only held inside an operation, except when one panics while it holds it: then \<open>muHeld\<close> stays
  true and every later operation that locks it waits for ever, which is the result \<^const>\<open>None\<close>.
\<close>

section \<open>Errors and records\<close>

datatype err_cause =
    PanicValue string
  | LibraryError string
  | ContextErr string

datatype err_message =
    TaskPanicked
  | NamedTaskPanicked string
  | SubmitFailed
  | NamedSubmitFailed string
  | ContextCanceled
  | CreateFailed
  | CreateWithFuncFailed
  | InvokeFailed
  | NamedInvokeFailed string

record PoolError =
  Code :: int
  Message :: err_message
  Err :: "err_cause option"

text \<open>What \<open>Error()\<close> prints: the message, and the cause if there is one; \<open>Unwrap\<close>.\<close>

definition PoolError_Error :: "PoolError \<Rightarrow> err_message \<times> err_cause option" where
  "PoolError_Error e = (case Err e of Some c \<Rightarrow> (Message e, Some c) | None \<Rightarrow> (Message e, None))"

definition Unwrap :: "PoolError \<Rightarrow> err_cause option" where
  "Unwrap e = Err e"

definition ErrCodeSubmitTask :: int where "ErrCodeSubmitTask = 1001"
definition ErrCodeCreatePool :: int where "ErrCodeCreatePool = 1002"
definition ErrCodeTaskPanic :: int where "ErrCodeTaskPanic = 1005"
definition ErrCodeContextCanceled :: int where "ErrCodeContextCanceled = 1007"

record SlowTaskRecord =
  slowTaskID :: string
  slowTime :: int
  slowStamp :: int

record FailedTaskRecord =
  failTaskID :: string
  failError :: string
  failStamp :: int

record HealthConfig =
  Enabled :: bool
  SlowTaskThreshold :: int
  MaxSlowTaskRecords :: int
  MaxFailedTaskRecords :: int

definition DefaultHealthConfig :: HealthConfig where
  "DefaultHealthConfig =
     \<lparr>Enabled = False, SlowTaskThreshold = 0, MaxSlowTaskRecords = 100, MaxFailedTaskRecords = 100\<rparr>"

text \<open>
  The closures the library holds: the wrappers that the submitting operations make, with what they capture. \<open>JFunc\<close>
  and \<open>JFuncNamed\<close> are the arguments queued in a \<open>PoolWithFunc\<close>.
\<close>

datatype 't job =
    JPlain 't
  | JNamed string bool int 't
  | JCtx 't
  | JFunc 't
  | JFuncNamed string 't

text \<open>
  \<open>queue\<close> holds what the library took and has not started. Callbacks and task functions are opaque; \<open>called\<close>
  records the calls of callbacks, \<open>executed\<close> the tasks that ran, and \<open>finished\<close> how each run ended, true for a
  run without a panic whose context was not cancelled. \<open>Pool\<close> and \<open>PoolWithFunc\<close> have the same fields.
\<close>

record ('cb, 't) Pool =
  pname :: string
  totalTasks :: int
  failedTasks :: int
  errorCallbacks :: "'cb list"
  taskExecutionTimes :: "int list"
  maxTaskExecutionTime :: int
  minTaskExecutionTime :: int
  goroutinesCreated :: int
  goroutinesDestroyed :: int
  lastQueueLength :: int
  healthConfig :: HealthConfig
  trackedTasks :: int
  slowTaskRecords :: "SlowTaskRecord list"
  failedTaskRecords :: "FailedTaskRecord list"
  muHeld :: bool
  queue :: "'t job list"
  called :: "('cb \<times> PoolError) list"
  executed :: "'t list"
  finished :: "bool list"

definition empty_Pool :: "string \<Rightarrow> ('cb, 't) Pool" where
  "empty_Pool nm =
     \<lparr>pname = nm, totalTasks = 0, failedTasks = 0, errorCallbacks = [], taskExecutionTimes = [],
      maxTaskExecutionTime = 0, minTaskExecutionTime = 0, goroutinesCreated = 0, goroutinesDestroyed = 0,
      lastQueueLength = 0, healthConfig = DefaultHealthConfig, trackedTasks = 0, slowTaskRecords = [],
      failedTaskRecords = [], muHeld = False, queue = [], called = [],
      executed = [], finished = []\<rparr>"

section \<open>Making a pool\<close>

text \<open>
  The options of ants that the code passes on. The pool's own panic handler is \<open>DefaultHandler\<close>; the caller's option
  functions may replace it.
\<close>

datatype 'h handler =
    DefaultHandler
  | UserHandler 'h

record 'h Options =
  ExpiryDuration :: int
  MaxBlockingTasks :: int
  PanicHandler :: "'h handler option"
  PreAlloc :: bool
  Nonblocking :: bool
  Logger :: "'h option"

datatype 'h ants_option =
    WithExpiryDuration int
  | WithMaxBlockingTasks int
  | WithPanicHandler "'h handler"
  | WithPreAlloc bool
  | WithNonblocking bool
  | WithLogger 'h

definition zero_Options :: "'h Options" where
  "zero_Options =
     \<lparr>ExpiryDuration = 0, MaxBlockingTasks = 0, PanicHandler = None, PreAlloc = False, Nonblocking = False, Logger = None\<rparr>"

text \<open>\<open>time.Minute\<close> in nanoseconds.\<close>

definition Minute :: int where "Minute = 60000000000"

definition pool_size :: "int \<Rightarrow> int \<Rightarrow> int" where
  "pool_size numCPU sz = (if sz > 0 then sz else numCPU * 2)"

definition option_slice :: "'h Options \<Rightarrow> 'h ants_option list" where
  "option_slice o1 =
     (if ExpiryDuration o1 > 0 then [WithExpiryDuration (ExpiryDuration o1)] else []) @
     (if MaxBlockingTasks o1 > 0 then [WithMaxBlockingTasks (MaxBlockingTasks o1)] else []) @
     (case PanicHandler o1 of Some h \<Rightarrow> [WithPanicHandler h] | None \<Rightarrow> []) @
     (if PreAlloc o1 then [WithPreAlloc (PreAlloc o1)] else []) @
     (if Nonblocking o1 then [WithNonblocking (Nonblocking o1)] else []) @
     (case Logger o1 of Some l \<Rightarrow> [WithLogger l] | None \<Rightarrow> [])"

text \<open>\<open>new\<close> is \<open>ants.NewPool\<close>: an error, or none and the pool is running.\<close>

definition NewWithOptions ::
  "(int \<Rightarrow> 'h ants_option list \<Rightarrow> string option) \<Rightarrow> int \<Rightarrow> string \<Rightarrow> int \<Rightarrow> ('h Options \<Rightarrow> 'h Options) list \<Rightarrow>
   PoolError + ('cb, 't) Pool" where
  "NewWithOptions new numCPU nm sz optionFuncs =
     (let poolSize = pool_size numCPU sz;
          opts = zero_Options\<lparr>ExpiryDuration := Minute, MaxBlockingTasks := poolSize * 3,
                               PanicHandler := Some DefaultHandler\<rparr>;
          opts = fold (\<lambda>f o1. f o1) optionFuncs opts
      in case new poolSize (option_slice opts) of
           Some e \<Rightarrow> Inl \<lparr>Code = ErrCodeCreatePool, Message = CreateFailed, Err = Some (LibraryError e)\<rparr>
         | None \<Rightarrow> Inr ((empty_Pool nm)\<lparr>goroutinesCreated := poolSize\<rparr>))"

definition New ::
  "(int \<Rightarrow> 'h ants_option list \<Rightarrow> string option) \<Rightarrow> int \<Rightarrow> string \<Rightarrow> int list \<Rightarrow> PoolError + ('cb, 't) Pool" where
  "New new numCPU nm sizes =
     (case sizes of
        sz # _ \<Rightarrow> NewWithOptions new numCPU nm sz []
      | [] \<Rightarrow> NewWithOptions new numCPU nm 0 [])"

section \<open>Locked operations\<close>

definition SetHealthConfig :: "HealthConfig \<Rightarrow> ('cb, 't) Pool \<Rightarrow> ('cb, 't) Pool \<times> unit option" where
  "SetHealthConfig c p = (if muHeld p then (p, None) else (p\<lparr>healthConfig := c\<rparr>, Some ()))"

definition GetHealthConfig :: "('cb, 't) Pool \<Rightarrow> HealthConfig option" where
  "GetHealthConfig p = (if muHeld p then None else Some (healthConfig p))"

definition RegisterErrorCallback :: "'cb \<Rightarrow> ('cb, 't) Pool \<Rightarrow> ('cb, 't) Pool \<times> unit option" where
  "RegisterErrorCallback cb p =
     (if muHeld p then (p, None) else (p\<lparr>errorCallbacks := errorCallbacks p @ [cb]\<rparr>, Some ()))"

text \<open>The callbacks are copied under the lock and called outside it, in order.\<close>

definition callErrorCallbacks :: "PoolError \<Rightarrow> ('cb, 't) Pool \<Rightarrow> ('cb, 't) Pool \<times> unit option" where
  "callErrorCallbacks e p =
     (if muHeld p then (p, None)
      else (p\<lparr>called := called p @ map (\<lambda>cb. (cb, e)) (errorCallbacks p)\<rparr>, Some ()))"

text \<open>\<open>atomic.AddInt64(&p.failedTasks, 1)\<close>, then the callbacks.\<close>

definition fail_with :: "PoolError \<Rightarrow> ('cb, 't) Pool \<Rightarrow> ('cb, 't) Pool \<times> unit option" where
  "fail_with e p = callErrorCallbacks e (p\<lparr>failedTasks := failedTasks p + 1\<rparr>)"

text \<open>The panic handler that \<open>NewWithOptions\<close> gives to the library.\<close>

definition panic_handler :: "string \<Rightarrow> ('cb, 't) Pool \<Rightarrow> ('cb, 't) Pool \<times> unit option" where
  "panic_handler v p =
     fail_with \<lparr>Code = ErrCodeTaskPanic, Message = TaskPanicked, Err = Some (PanicValue v)\<rparr> p"

section \<open>Runs\<close>

record outcome =
  took :: int
  panicked :: "string option"

text \<open>
  \<open>rs = append(rs, r); if len(rs) > max { rs = rs[len(rs)-max:] }\<close>: a negative \<open>max\<close> puts the bound beyond the end,
  which panics after the append; the flag is false then.
\<close>

definition trim_append :: "int \<Rightarrow> 'a \<Rightarrow> 'a list \<Rightarrow> 'a list \<times> bool" where
  "trim_append mx r rs =
     (let rs = rs @ [r]
      in if int (length rs) > mx
         then if mx < 0 then (rs, False) else (drop (length rs - nat mx) rs, True)
         else (rs, True))"

definition record_time :: "int \<Rightarrow> ('cb, 't) Pool \<Rightarrow> ('cb, 't) Pool" where
  "record_time t p =
     (let ts = taskExecutionTimes p @ [t];
          ts = (if length ts > 1000 then drop (length ts - 1000) ts else ts)
      in p\<lparr>taskExecutionTimes := ts,
           maxTaskExecutionTime := (if t > maxTaskExecutionTime p then t else maxTaskExecutionTime p),
           minTaskExecutionTime :=
             (if minTaskExecutionTime p = 0 \<or> t < minTaskExecutionTime p then t else minTaskExecutionTime p)\<rparr>)"

definition add_slow :: "string \<Rightarrow> int \<Rightarrow> outcome \<Rightarrow> int \<Rightarrow> ('cb, 't) Pool \<Rightarrow> ('cb, 't) Pool \<times> bool" where
  "add_slow tid thr out now p =
     (if thr > 0 \<and> took out > thr
      then let (rs, ok) = trim_append (MaxSlowTaskRecords (healthConfig p))
                 \<lparr>slowTaskID = tid, slowTime = took out, slowStamp = now\<rparr> (slowTaskRecords p)
           in (p\<lparr>slowTaskRecords := rs\<rparr>, ok)
      else (p, True))"

definition add_failed :: "string \<Rightarrow> outcome \<Rightarrow> int \<Rightarrow> ('cb, 't) Pool \<Rightarrow> ('cb, 't) Pool \<times> bool" where
  "add_failed tid out now p =
     (case panicked out of
        None \<Rightarrow> (p, True)
      | Some v \<Rightarrow>
          let (rs, ok) = trim_append (MaxFailedTaskRecords (healthConfig p))
                \<lparr>failTaskID = tid, failError = ''panic: '' @ v, failStamp = now\<rparr> (failedTaskRecords p)
          in (p\<lparr>failedTaskRecords := rs\<rparr>, ok))"

text \<open>
  A panic under the lock leaves the deferred function with \<open>mu\<close> locked. The worker of the library recovers it and
  calls the panic handler of a \<open>Pool\<close> (\<open>handler\<close> is true), which waits for \<open>mu\<close> in its turn; a \<open>PoolWithFunc\<close> has none.
  In both cases the rest of the deferred function does not happen.
\<close>

definition panic_locked :: "bool \<Rightarrow> ('cb, 't) Pool \<Rightarrow> ('cb, 't) Pool \<times> unit option" where
  "panic_locked handler p =
     (let p = p\<lparr>muHeld := True\<rparr>
      in if handler then panic_handler ''slice bounds out of range'' p else (p, None))"

definition record_health :: "bool \<Rightarrow> string \<Rightarrow> int \<Rightarrow> outcome \<Rightarrow> int \<Rightarrow> ('cb, 't) Pool \<Rightarrow> ('cb, 't) Pool \<times> unit option" where
  "record_health handler tid thr out now p =
     (let (p, ok) = add_slow tid thr out now p
      in if \<not> ok then panic_locked handler p
         else let (p, ok) = add_failed tid out now p
              in if \<not> ok then panic_locked handler p else (p, Some ()))"

text \<open>The deferred functions of the wrappers, by what was submitted.\<close>

definition panic_end :: "err_message \<Rightarrow> outcome \<Rightarrow> ('cb, 't) Pool \<Rightarrow> ('cb, 't) Pool \<times> unit option" where
  "panic_end msg out p =
     (case panicked out of
        None \<Rightarrow> (p, Some ())
      | Some v \<Rightarrow> fail_with \<lparr>Code = ErrCodeTaskPanic, Message = msg, Err = Some (PanicValue v)\<rparr> p)"

definition end_Submit :: "outcome \<Rightarrow> ('cb, 't) Pool \<Rightarrow> ('cb, 't) Pool \<times> unit option" where
  "end_Submit out p =
     (if muHeld p then (p, None)
      else panic_end TaskPanicked out (record_time (took out) p))"

definition end_SubmitWithTaskID ::
  "string \<Rightarrow> bool \<Rightarrow> int \<Rightarrow> outcome \<Rightarrow> int \<Rightarrow> ('cb, 't) Pool \<Rightarrow> ('cb, 't) Pool \<times> unit option" where
  "end_SubmitWithTaskID tid healthEnabled thr out now p =
     (let (p, r) =
        (if healthEnabled
         then if muHeld p then (p, None) else record_health True tid thr out now p
         else (p, Some ()))
      in case r of
           None \<Rightarrow> (p, None)
         | Some _ \<Rightarrow> panic_end (NamedTaskPanicked tid) out p)"

definition end_SubmitWithContext ::
  "string option \<Rightarrow> outcome \<Rightarrow> ('cb, 't) Pool \<Rightarrow> ('cb, 't) Pool \<times> unit option" where
  "end_SubmitWithContext ctxErr out p =
     (if muHeld p then (p, None)
      else
        let p = record_time (took out) p
        in case (panicked out, ctxErr) of
             (None, Some e) \<Rightarrow>
               fail_with \<lparr>Code = ErrCodeContextCanceled, Message = ContextCanceled, Err = Some (ContextErr e)\<rparr> p
           | _ \<Rightarrow> panic_end TaskPanicked out p)"

definition end_worker ::
  "string option \<Rightarrow> outcome \<Rightarrow> int \<Rightarrow> ('cb, 't) Pool \<Rightarrow> ('cb, 't) Pool \<times> unit option" where
  "end_worker tid out now p =
     (if muHeld p then (p, None)
      else
        let p = record_time (took out) p;
            (p, r) =
              (case tid of
                 Some i \<Rightarrow>
                   if Enabled (healthConfig p)
                   then record_health False i (SlowTaskThreshold (healthConfig p)) out now p
                   else (p, Some ())
               | None \<Rightarrow> (p, Some ()))
        in case r of
             None \<Rightarrow> (p, None)
           | Some _ \<Rightarrow> panic_end TaskPanicked out p)"

text \<open>
  A worker takes a closure and runs it. \<open>ctxErr\<close> is \<open>ctx.Err()\<close> when the closure starts: with it the task is not
  called, and nothing panics.
\<close>

definition run_job ::
  "'t job \<Rightarrow> string option \<Rightarrow> outcome \<Rightarrow> int \<Rightarrow> ('cb, 't) Pool \<Rightarrow> ('cb, 't) Pool \<times> unit option" where
  "run_job j ctxErr out now p =
     (case j of
        JPlain t \<Rightarrow> end_Submit out (p\<lparr>executed := executed p @ [t]\<rparr>)
      | JNamed i en thr t \<Rightarrow> end_SubmitWithTaskID i en thr out now (p\<lparr>executed := executed p @ [t]\<rparr>)
      | JCtx t \<Rightarrow>
          (case ctxErr of
             Some _ \<Rightarrow> end_SubmitWithContext ctxErr (out\<lparr>panicked := None\<rparr>) p
           | None \<Rightarrow> end_SubmitWithContext None out (p\<lparr>executed := executed p @ [t]\<rparr>))
      | JFunc t \<Rightarrow> end_worker None out now (p\<lparr>executed := executed p @ [t]\<rparr>)
      | JFuncNamed i t \<Rightarrow> end_worker (Some i) out now (p\<lparr>executed := executed p @ [t]\<rparr>))"

definition good_run :: "'t job \<Rightarrow> string option \<Rightarrow> outcome \<Rightarrow> bool" where
  "good_run j ctxErr out \<longleftrightarrow>
     (case j of JCtx _ \<Rightarrow> ctxErr = None \<and> panicked out = None | _ \<Rightarrow> panicked out = None)"

definition work :: "nat \<Rightarrow> string option \<Rightarrow> outcome \<Rightarrow> int \<Rightarrow> ('cb, 't) Pool \<Rightarrow> ('cb, 't) Pool \<times> unit option" where
  "work i ctxErr out now p =
     (if i < length (queue p)
      then let j = queue p ! i
           in run_job j ctxErr out now
                (p\<lparr>queue := take i (queue p) @ drop (Suc i) (queue p), finished := finished p @ [good_run j ctxErr out]\<rparr>)
      else (p, Some ()))"

section \<open>Submitting\<close>

text \<open>
  \<open>lib\<close> is the error of the library, if any; without one it has taken the closure. The result is \<^const>\<open>None\<close>
  when the operation never returns, and the error it returns otherwise.
\<close>

definition submitted ::
  "string option \<Rightarrow> err_message \<Rightarrow> 't job \<Rightarrow> ('cb, 't) Pool \<Rightarrow> ('cb, 't) Pool \<times> PoolError option option" where
  "submitted lib msg j p =
     (case lib of
        None \<Rightarrow> (p\<lparr>queue := queue p @ [j]\<rparr>, Some None)
      | Some e \<Rightarrow>
          let poolErr = \<lparr>Code = ErrCodeSubmitTask, Message = msg, Err = Some (LibraryError e)\<rparr>;
              (p, r) = fail_with poolErr p
          in (p, map_option (\<lambda>_. Some poolErr) r))"

definition count_task :: "('cb, 't) Pool \<Rightarrow> ('cb, 't) Pool" where
  "count_task p = p\<lparr>totalTasks := totalTasks p + 1\<rparr>"

definition Submit :: "string option \<Rightarrow> 't \<Rightarrow> ('cb, 't) Pool \<Rightarrow> ('cb, 't) Pool \<times> PoolError option option" where
  "Submit lib task p = submitted lib SubmitFailed (JPlain task) (count_task p)"

definition SubmitWithTaskID ::
  "string option \<Rightarrow> string \<Rightarrow> 't \<Rightarrow> ('cb, 't) Pool \<Rightarrow> ('cb, 't) Pool \<times> PoolError option option" where
  "SubmitWithTaskID lib tid task p =
     (let p = count_task p
      in if muHeld p then (p, None)
         else
           let healthEnabled = Enabled (healthConfig p);
               slowThreshold = SlowTaskThreshold (healthConfig p);
               p = (if healthEnabled then p\<lparr>trackedTasks := trackedTasks p + 1\<rparr> else p)
           in submitted lib (NamedSubmitFailed tid) (JNamed tid healthEnabled slowThreshold task) p)"

definition SubmitWithContext ::
  "string option \<Rightarrow> 't \<Rightarrow> ('cb, 't) Pool \<Rightarrow> ('cb, 't) Pool \<times> PoolError option option" where
  "SubmitWithContext lib task p = submitted lib SubmitFailed (JCtx task) (count_task p)"

text \<open>
  \<open>SubmitWithTimeout\<close> cancels the context when it returns. \<open>timeout_err\<close> is the error of that context at a time
  \<open>start\<close> when the call returned at \<open>ret\<close>, both counted from its creation.
\<close>

definition SubmitWithTimeout ::
  "string option \<Rightarrow> 't \<Rightarrow> ('cb, 't) Pool \<Rightarrow> ('cb, 't) Pool \<times> PoolError option option" where
  "SubmitWithTimeout lib task p = SubmitWithContext lib task p"

definition timeout_err :: "int \<Rightarrow> int \<Rightarrow> int \<Rightarrow> string option" where
  "timeout_err timeout ret start =
     (if timeout \<le> start \<and> timeout \<le> ret then Some ''context deadline exceeded''
      else if ret \<le> start then Some ''context canceled''
      else None)"

text \<open>The same for a \<open>PoolWithFunc\<close>, whose library queues arguments.\<close>

definition Invoke :: "string option \<Rightarrow> 't \<Rightarrow> ('cb, 't) Pool \<Rightarrow> ('cb, 't) Pool \<times> PoolError option option" where
  "Invoke lib arg p = submitted lib InvokeFailed (JFunc arg) (count_task p)"

definition InvokeWithTaskID ::
  "string option \<Rightarrow> string \<Rightarrow> 't \<Rightarrow> ('cb, 't) Pool \<Rightarrow> ('cb, 't) Pool \<times> PoolError option option" where
  "InvokeWithTaskID lib tid arg p =
     (let p = count_task p
      in if muHeld p then (p, None)
         else
           let p = (if Enabled (healthConfig p) then p\<lparr>trackedTasks := trackedTasks p + 1\<rparr> else p)
           in submitted lib (NamedInvokeFailed tid) (JFuncNamed tid arg) p)"

text \<open>Making a \<open>PoolWithFunc\<close>: no panic handler, and none is passed on.\<close>

definition option_slice_func :: "'h Options \<Rightarrow> 'h ants_option list" where
  "option_slice_func o1 =
     (if ExpiryDuration o1 > 0 then [WithExpiryDuration (ExpiryDuration o1)] else []) @
     (if MaxBlockingTasks o1 > 0 then [WithMaxBlockingTasks (MaxBlockingTasks o1)] else []) @
     (if PreAlloc o1 then [WithPreAlloc (PreAlloc o1)] else []) @
     (if Nonblocking o1 then [WithNonblocking (Nonblocking o1)] else []) @
     (case Logger o1 of Some l \<Rightarrow> [WithLogger l] | None \<Rightarrow> [])"

definition NewPoolWithFuncWithOptions ::
  "(int \<Rightarrow> 'h ants_option list \<Rightarrow> string option) \<Rightarrow> int \<Rightarrow> string \<Rightarrow> int \<Rightarrow> ('h Options \<Rightarrow> 'h Options) list \<Rightarrow>
   PoolError + ('cb, 't) Pool" where
  "NewPoolWithFuncWithOptions new numCPU nm sz optionFuncs =
     (let poolSize = pool_size numCPU sz;
          opts = zero_Options\<lparr>ExpiryDuration := Minute, MaxBlockingTasks := poolSize * 3\<rparr>;
          opts = fold (\<lambda>f o1. f o1) optionFuncs opts
      in case new poolSize (option_slice_func opts) of
           Some e \<Rightarrow> Inl \<lparr>Code = ErrCodeCreatePool, Message = CreateWithFuncFailed, Err = Some (LibraryError e)\<rparr>
         | None \<Rightarrow> Inr ((empty_Pool nm)\<lparr>goroutinesCreated := poolSize\<rparr>))"

definition NewPoolWithFunc ::
  "(int \<Rightarrow> 'h ants_option list \<Rightarrow> string option) \<Rightarrow> int \<Rightarrow> string \<Rightarrow> int list \<Rightarrow> PoolError + ('cb, 't) Pool" where
  "NewPoolWithFunc new numCPU nm sizes =
     (case sizes of
        sz # _ \<Rightarrow> NewPoolWithFuncWithOptions new numCPU nm sz []
      | [] \<Rightarrow> NewPoolWithFuncWithOptions new numCPU nm 0 [])"

section \<open>Metrics\<close>

text \<open>What the library reports when it is asked: \<open>Running\<close> twice, \<open>Waiting\<close> and \<open>Cap\<close>.\<close>

record ants_state =
  libRunning :: int
  libWaiting :: int
  libCap :: int
  libRunning2 :: int

record Metrics =
  mName :: string
  RunningGoroutines :: int
  WaitingTasks :: int
  TotalTasks :: int
  FailedTasks :: int
  PoolCapacity :: int
  PoolSize :: int
  Timestamp :: int
  TaskExecutionTime :: int
  MaxTaskExecutionTime :: int
  MinTaskExecutionTime :: int
  QueueLengthChange :: int
  GoroutinesCreated :: int
  GoroutinesDestroyed :: int
  SuccessTasks :: int
  TrackedTasks :: int
  SlowTasks :: "SlowTaskRecord list"
  FailedTasksList :: "FailedTaskRecord list"

text \<open>Durations are not negative, so that Go's division is that of the integers.\<close>

definition average :: "int list \<Rightarrow> int" where
  "average ts = (if length ts > 0 then foldl (+) 0 ts div int (length ts) else 0)"

definition pool_Metrics :: "ants_state \<Rightarrow> int \<Rightarrow> ('cb, 't) Pool \<Rightarrow> ('cb, 't) Pool \<times> Metrics option" where
  "pool_Metrics lib now p =
     (if muHeld p then (p, None)
      else
        let avgExecutionTime = average (taskExecutionTimes p);
            currentQueueLength = libWaiting lib;
            queueLengthChange = currentQueueLength - lastQueueLength p;
            p = p\<lparr>lastQueueLength := currentQueueLength\<rparr>;
            successTasks = totalTasks p - failedTasks p
        in (p, Some
              \<lparr>mName = pname p, RunningGoroutines = libRunning lib, WaitingTasks = currentQueueLength,
               TotalTasks = totalTasks p, FailedTasks = failedTasks p, PoolCapacity = libCap lib,
               PoolSize = libRunning2 lib, Timestamp = now, TaskExecutionTime = avgExecutionTime,
               MaxTaskExecutionTime = maxTaskExecutionTime p, MinTaskExecutionTime = minTaskExecutionTime p,
               QueueLengthChange = queueLengthChange, GoroutinesCreated = goroutinesCreated p,
               GoroutinesDestroyed = goroutinesDestroyed p, SuccessTasks = successTasks,
               TrackedTasks = trackedTasks p, SlowTasks = slowTaskRecords p,
               FailedTasksList = failedTaskRecords p\<rparr>))"

text \<open>\<open>metrics.go\<close>: \<open>NewMetrics\<close>, and \<open>Update\<close>, whose two cases do the same with a \<open>Pool\<close> and a \<open>PoolWithFunc\<close>.\<close>

definition NewMetrics :: "string \<Rightarrow> int \<Rightarrow> Metrics" where
  "NewMetrics nm now =
     \<lparr>mName = nm, RunningGoroutines = 0, WaitingTasks = 0, TotalTasks = 0, FailedTasks = 0, PoolCapacity = 0,
      PoolSize = 0, Timestamp = now, TaskExecutionTime = 0, MaxTaskExecutionTime = 0, MinTaskExecutionTime = 0,
      QueueLengthChange = 0, GoroutinesCreated = 0, GoroutinesDestroyed = 0, SuccessTasks = 0, TrackedTasks = 0,
      SlowTasks = [], FailedTasksList = []\<rparr>"

definition metrics_Update :: "ants_state \<Rightarrow> int \<Rightarrow> ('cb, 't) Pool \<Rightarrow> Metrics \<Rightarrow> Metrics option" where
  "metrics_Update lib now p m0 =
     (let m = m0\<lparr>Timestamp := now, RunningGoroutines := libRunning lib, WaitingTasks := libWaiting lib,
                 TotalTasks := totalTasks p, FailedTasks := failedTasks p, PoolCapacity := libCap lib\<rparr>;
          m = m\<lparr>SuccessTasks := TotalTasks m - FailedTasks m\<rparr>
      in if muHeld p then None
         else
           let m = (if length (taskExecutionTimes p) > 0
                    then m\<lparr>TaskExecutionTime := average (taskExecutionTimes p),
                           MaxTaskExecutionTime := maxTaskExecutionTime p,
                           MinTaskExecutionTime := minTaskExecutionTime p\<rparr>
                    else m)
           in Some (m\<lparr>GoroutinesCreated := goroutinesCreated p, GoroutinesDestroyed := goroutinesDestroyed p\<rparr>))"

text \<open>The operations of \<open>PoolWithFunc\<close> that repeat those of \<open>Pool\<close> line by line, on the same fields.\<close>

definition func_SetHealthConfig :: "HealthConfig \<Rightarrow> ('cb, 't) Pool \<Rightarrow> ('cb, 't) Pool \<times> unit option" where
  "func_SetHealthConfig c p = (if muHeld p then (p, None) else (p\<lparr>healthConfig := c\<rparr>, Some ()))"

definition func_GetHealthConfig :: "('cb, 't) Pool \<Rightarrow> HealthConfig option" where
  "func_GetHealthConfig p = (if muHeld p then None else Some (healthConfig p))"

definition func_RegisterErrorCallback :: "'cb \<Rightarrow> ('cb, 't) Pool \<Rightarrow> ('cb, 't) Pool \<times> unit option" where
  "func_RegisterErrorCallback cb p =
     (if muHeld p then (p, None) else (p\<lparr>errorCallbacks := errorCallbacks p @ [cb]\<rparr>, Some ()))"

definition func_Metrics :: "ants_state \<Rightarrow> int \<Rightarrow> ('cb, 't) Pool \<Rightarrow> ('cb, 't) Pool \<times> Metrics option" where
  "func_Metrics lib now p = pool_Metrics lib now p"

end
