(* ===== verification/Ants_Runs.thy ===== *)
theory Ants_Runs imports Ants_Pool begin

text \<open>
  What the pool keeps through every sequence of submissions, runs, changes of its configuration and requests for
  its metrics: its accounts, its bounds, and that its mutex is free unless a record limit is negative.
\<close>

section \<open>Logs of bounded length\<close>

text \<open>The execution times and the two record lists keep their newest entries.\<close>

locale capped_log =
  fixes push :: "'a \<Rightarrow> 'a list \<Rightarrow> 'a list" and cap :: nat
  assumes push_drop: "push x xs = drop (Suc (length xs) - cap) (xs @ [x])"
begin

lemma push_length: "length xs \<le> cap \<Longrightarrow> length (push x xs) \<le> cap"
  by (simp add: push_drop)

theorem push_all:
  "length xs \<le> cap \<Longrightarrow> fold push ys xs = drop (length xs + length ys - cap) (xs @ ys)"
proof (induction ys rule: rev_induct)
  case (snoc y ys)
  define zs where "zs = xs @ ys"
  define b where "b = length zs - cap"
  have b: "b \<le> length zs" "Suc (length zs - b) - cap + b = Suc (length zs) - cap" by (auto simp: b_def)
  have "fold push (ys @ [y]) xs = push y (drop b zs)"
    using snoc by (simp add: zs_def b_def)
  also have "\<dots> = drop (Suc (length zs - b) - cap) (drop b (zs @ [y]))"
    using b(1) by (simp add: push_drop)
  also have "\<dots> = drop (Suc (length zs) - cap) (zs @ [y])" unfolding drop_drop b(2) ..
  finally show ?case by (simp add: zs_def)
qed simp

end

interpretation exec_times: capped_log "\<lambda>t ts. let ts = ts @ [t] in if length ts > 1000 then drop (length ts - 1000) ts else ts" 1000
  by unfold_locales (simp add: Let_def)

interpretation trimmed: capped_log "\<lambda>r rs. fst (trim_append (int n) r rs)" n for n
  by unfold_locales (auto simp: trim_append_def Let_def)

lemma trim_appendD:
  "trim_append mx r rs = (rs', ok) \<Longrightarrow> 0 \<le> mx \<Longrightarrow> mx \<le> B \<Longrightarrow> int (length rs) \<le> B \<Longrightarrow> ok \<and> int (length rs') \<le> B"
  by (auto simp: trim_append_def Let_def split: if_splits)

section \<open>Events\<close>

datatype ('cb, 't) pev =
    ESubmit "string option" 't
  | ENamed "string option" string 't
  | ECtx "string option" 't
  | EInvoke "string option" 't
  | ENamedInvoke "string option" string 't
  | EWork nat "string option" outcome int
  | EHealth HealthConfig
  | ECallback 'cb
  | EMetrics ants_state int

definition pool_ev :: "('cb, 't) pev \<Rightarrow> ('cb, 't) Pool \<Rightarrow> ('cb, 't) Pool" where
  "pool_ev e p =
     (case e of
        ESubmit lib t \<Rightarrow> fst (Submit lib t p)
      | ENamed lib i t \<Rightarrow> fst (SubmitWithTaskID lib i t p)
      | ECtx lib t \<Rightarrow> fst (SubmitWithContext lib t p)
      | EInvoke lib t \<Rightarrow> fst (Invoke lib t p)
      | ENamedInvoke lib i t \<Rightarrow> fst (InvokeWithTaskID lib i t p)
      | EWork i ctx out now \<Rightarrow> fst (work i ctx out now p)
      | EHealth c \<Rightarrow> fst (SetHealthConfig c p)
      | ECallback cb \<Rightarrow> fst (RegisterErrorCallback cb p)
      | EMetrics lib now \<Rightarrow> fst (pool_Metrics lib now p))"

definition run_pool :: "('cb, 't) pev list \<Rightarrow> ('cb, 't) Pool \<Rightarrow> ('cb, 't) Pool" where
  "run_pool evs p = fold pool_ev evs p"

section \<open>Accounts\<close>

definition accounts :: "('cb, 't) Pool \<Rightarrow> bool" where
  "accounts p \<longleftrightarrow> totalTasks p - failedTasks p = int (length (queue p)) + int (length (filter id (finished p)))"

lemma fail_with_fields [simp]:
  "totalTasks (fst (fail_with e p)) = totalTasks p" "failedTasks (fst (fail_with e p)) = failedTasks p + 1"
  "queue (fst (fail_with e p)) = queue p" "finished (fst (fail_with e p)) = finished p"
  "muHeld (fst (fail_with e p)) = muHeld p" "taskExecutionTimes (fst (fail_with e p)) = taskExecutionTimes p"
  "slowTaskRecords (fst (fail_with e p)) = slowTaskRecords p"
  "failedTaskRecords (fst (fail_with e p)) = failedTaskRecords p" "healthConfig (fst (fail_with e p)) = healthConfig p"
  "maxTaskExecutionTime (fst (fail_with e p)) = maxTaskExecutionTime p"
  "minTaskExecutionTime (fst (fail_with e p)) = minTaskExecutionTime p" "executed (fst (fail_with e p)) = executed p"
  by (simp_all add: fail_with_def callErrorCallbacks_def)

text \<open>What the deferred functions leave alone.\<close>

definition same_accounts :: "('cb, 't) Pool \<Rightarrow> ('cb, 't) Pool \<Rightarrow> bool" where
  "same_accounts p q \<longleftrightarrow> totalTasks q = totalTasks p \<and> failedTasks q = failedTasks p \<and> queue q = queue p \<and>
     finished q = finished p \<and> muHeld q = muHeld p \<and> healthConfig q = healthConfig p"

lemma same_accounts_steps:
  "same_accounts p (record_time t p)" "same_accounts p (fst (add_slow i thr out now p))"
  "same_accounts p (fst (add_failed i out now p))"
  by (auto simp: same_accounts_def record_time_def add_slow_def add_failed_def Let_def split: prod.split option.split)

lemma same_accounts_trans: "same_accounts p q \<Longrightarrow> same_accounts q r \<Longrightarrow> same_accounts p r"
  by (simp add: same_accounts_def)

lemma panic_lockedD: "panic_locked h p = (q, r) \<Longrightarrow> muHeld q \<and> r = None"
  by (auto simp: panic_locked_def panic_handler_def Let_def fail_with_def callErrorCallbacks_def split: if_splits)

lemma record_health_effect:
  assumes "record_health h i thr out now p = (q, r)" "\<not> muHeld p"
  shows "muHeld q \<and> r = None \<or> same_accounts p q \<and> r = Some ()"
proof -
  obtain p1 ok1 where 1: "add_slow i thr out now p = (p1, ok1)" by fastforce
  obtain p2 ok2 where 2: "add_failed i out now p1 = (p2, ok2)" by fastforce
  have "same_accounts p p1" "same_accounts p1 p2"
    using same_accounts_steps(2) [of p i thr out now] same_accounts_steps(3) [of p1 i out now] 1 2 by simp_all
  then have "same_accounts p p2" by (rule same_accounts_trans)
  then show ?thesis
    using assms(1) 1 2 by (auto simp: record_health_def split: if_splits dest: panic_lockedD)
qed

lemma panic_end_effect:
  "totalTasks (fst (panic_end m out p)) = totalTasks p" "queue (fst (panic_end m out p)) = queue p"
  "finished (fst (panic_end m out p)) = finished p" "muHeld (fst (panic_end m out p)) = muHeld p"
  "failedTasks (fst (panic_end m out p)) = failedTasks p + (if panicked out = None then 0 else 1)"
  "healthConfig (fst (panic_end m out p)) = healthConfig p"
  by (auto simp: panic_end_def split: option.split)

text \<open>The end of a run counts a failure just when the run was not good, unless it gets stuck with \<open>mu\<close> locked.\<close>

definition ends_run :: "bool \<Rightarrow> ('cb, 't) Pool \<Rightarrow> ('cb, 't) Pool \<Rightarrow> bool" where
  "ends_run good p q \<longleftrightarrow> totalTasks q = totalTasks p \<and> queue q = queue p \<and> finished q = finished p \<and>
     failedTasks q = failedTasks p + (if good then 0 else 1) \<and> healthConfig q = healthConfig p \<and> \<not> muHeld q"

lemma ends_run_panic:
  "same_accounts p p1 \<Longrightarrow> \<not> muHeld p \<Longrightarrow> ends_run (panicked out = None) p (fst (panic_end m out p1))"
  by (simp add: ends_run_def panic_end_effect same_accounts_def)

lemma ends_run_timed: "\<not> muHeld p \<Longrightarrow> ends_run (panicked out = None) p (fst (panic_end m out (record_time t p)))"
  by (rule ends_run_panic) (rule same_accounts_steps)

lemma end_SubmitWithTaskID_effect:
  assumes "\<not> muHeld p"
  shows "muHeld (fst (end_SubmitWithTaskID i en thr out now p)) \<or>
    ends_run (panicked out = None) p (fst (end_SubmitWithTaskID i en thr out now p))"
proof (cases en)
  case True
  obtain q r where q: "record_health True i thr out now p = (q, r)" by fastforce
  then show ?thesis
    using record_health_effect [OF q assms] assms True ends_run_panic [of p q]
    by (auto simp: end_SubmitWithTaskID_def)
next
  case False
  then show ?thesis using assms ends_run_panic [of p p] by (simp add: end_SubmitWithTaskID_def same_accounts_def)
qed

lemma end_worker_effect:
  assumes "\<not> muHeld p"
  shows "muHeld (fst (end_worker tid out now p)) \<or> ends_run (panicked out = None) p (fst (end_worker tid out now p))"
proof (cases "\<exists>i. tid = Some i \<and> Enabled (healthConfig p)")
  case True
  then obtain i where i: "tid = Some i" "Enabled (healthConfig p)" by blast
  define p1 where "p1 = record_time (took out) p"
  have p1: "same_accounts p p1" by (simp add: p1_def same_accounts_steps)
  then have c: "healthConfig p1 = healthConfig p" "\<not> muHeld p1" using assms by (simp_all add: same_accounts_def)
  obtain q r where q: "record_health False i (SlowTaskThreshold (healthConfig p)) out now p1 = (q, r)" by fastforce
  have "muHeld q \<and> r = None \<or> same_accounts p q \<and> r = Some ()"
    using record_health_effect [OF q c(2)] same_accounts_trans [OF p1] by blast
  then show ?thesis
    using assms i q c ends_run_panic [of p q] by (auto simp: end_worker_def p1_def [symmetric] Let_def)
next
  case False
  then have "fst (end_worker tid out now p) = fst (panic_end TaskPanicked out (record_time (took out) p))"
    using assms by (auto simp: end_worker_def Let_def record_time_def split: option.split)
  then show ?thesis using ends_run_timed [OF assms] by simp
qed

lemma ends_run_executed: "ends_run b (p\<lparr>executed := x\<rparr>) q \<longleftrightarrow> ends_run b p q"
  by (simp add: ends_run_def)

lemma run_job_effect:
  assumes "\<not> muHeld p"
  shows "muHeld (fst (run_job j ctx out now p)) \<or> ends_run (good_run j ctx out) p (fst (run_job j ctx out now p))"
proof (cases j)
  case (JPlain t)
  then show ?thesis
    using assms ends_run_timed [of "p\<lparr>executed := executed p @ [t]\<rparr>" out]
    by (simp add: run_job_def end_Submit_def good_run_def ends_run_executed)
next
  case (JNamed i en thr t)
  then show ?thesis
    using assms end_SubmitWithTaskID_effect [of "p\<lparr>executed := executed p @ [t]\<rparr>" i en thr out now]
    by (simp add: run_job_def good_run_def ends_run_executed)
next
  case (JCtx t)
  show ?thesis
  proof (cases ctx)
    case None
    then show ?thesis
      using assms JCtx ends_run_timed [of "p\<lparr>executed := executed p @ [t]\<rparr>" out]
      by (auto simp: run_job_def end_SubmitWithContext_def good_run_def ends_run_executed Let_def split: option.split)
  next
    case (Some e)
    have "ends_run False p (fst (fail_with x (record_time t p)))" for x t
      using assms same_accounts_steps(1) [of p t] by (simp add: ends_run_def same_accounts_def)
    then show ?thesis
      using assms JCtx Some by (simp add: run_job_def end_SubmitWithContext_def good_run_def Let_def)
  qed
next
  case (JFunc t)
  then show ?thesis
    using assms end_worker_effect [of "p\<lparr>executed := executed p @ [t]\<rparr>" None out now]
    by (simp add: run_job_def good_run_def ends_run_executed)
next
  case (JFuncNamed i t)
  then show ?thesis
    using assms end_worker_effect [of "p\<lparr>executed := executed p @ [t]\<rparr>" "Some i" out now]
    by (simp add: run_job_def good_run_def ends_run_executed)
qed

section \<open>Every event\<close>

lemma submitted_accounts:
  assumes "totalTasks p = failedTasks p + int (length (queue p)) + int (length (filter id (finished p))) + 1"
  shows "accounts (fst (submitted lib m j p))"
  using assms by (cases lib) (simp_all add: submitted_def accounts_def Let_def split_beta)

lemma submitted_held: "muHeld (fst (submitted lib m j p)) = muHeld p"
  by (cases lib) (simp_all add: submitted_def Let_def split_beta)

lemma accounts_work:
  assumes "accounts p" "\<not> muHeld p"
  shows "muHeld (fst (work i ctx out now p)) \<or> accounts (fst (work i ctx out now p))"
proof (cases "i < length (queue p)")
  case True
  define g where "g = good_run (queue p ! i) ctx out"
  define p1 where "p1 = p\<lparr>queue := take i (queue p) @ drop (Suc i) (queue p), finished := finished p @ [g]\<rparr>"
  have "fst (work i ctx out now p) = fst (run_job (queue p ! i) ctx out now p1)"
    using True by (simp add: work_def Let_def p1_def g_def)
  moreover have "int (length (queue p1)) = int (length (queue p)) - 1" using True by (simp add: p1_def)
  moreover have "\<not> muHeld p1" "totalTasks p1 = totalTasks p" "failedTasks p1 = failedTasks p"
    "int (length (filter id (finished p1))) = int (length (filter id (finished p))) + (if g then 1 else 0)"
    using assms by (simp_all add: p1_def)
  ultimately show ?thesis
    using run_job_effect [of p1 "queue p ! i" ctx out now] assms(1)
    by (cases g) (auto simp: accounts_def ends_run_def g_def [symmetric])
qed (use assms in \<open>simp add: work_def\<close>)

lemma pool_ev_accounts:
  assumes "\<not> muHeld p" "accounts p"
  shows "muHeld (pool_ev e p) \<or> accounts (pool_ev e p)"
proof (cases e)
  case (EWork i ctx out now)
  then show ?thesis using accounts_work [OF assms(2,1)] by (simp add: pool_ev_def)
qed (use assms in \<open>auto simp: pool_ev_def Submit_def SubmitWithTaskID_def SubmitWithContext_def Invoke_def
      InvokeWithTaskID_def SetHealthConfig_def RegisterErrorCallback_def pool_Metrics_def Let_def count_task_def
      intro!: submitted_accounts\<close>, simp_all add: accounts_def)

text \<open>Once \<open>mu\<close> is stuck it stays so.\<close>

lemma run_job_held: "muHeld p \<Longrightarrow> muHeld (fst (run_job j ctx out now p))"
  by (auto simp: run_job_def end_Submit_def end_SubmitWithTaskID_def end_SubmitWithContext_def end_worker_def
      panic_end_effect split: job.split option.split)

lemma pool_ev_held: "muHeld p \<Longrightarrow> muHeld (pool_ev e p)"
  by (cases e) (auto simp: pool_ev_def Submit_def SubmitWithTaskID_def SubmitWithContext_def Invoke_def
      InvokeWithTaskID_def SetHealthConfig_def RegisterErrorCallback_def pool_Metrics_def Let_def count_task_def
      submitted_held work_def run_job_held)

theorem run_pool_accounts:
  "muHeld p \<or> accounts p \<Longrightarrow> muHeld (run_pool evs p) \<or> accounts (run_pool evs p)"
proof (induction evs arbitrary: p)
  case (Cons e evs)
  have "muHeld (pool_ev e p) \<or> accounts (pool_ev e p)"
    using Cons.prems pool_ev_accounts pool_ev_held by (cases "muHeld p") blast+
  from Cons.IH [OF this] show ?case by (simp add: run_pool_def)
qed (simp add: run_pool_def)

section \<open>Bounds\<close>

text \<open>Record limits that are not negative and at most \<open>B\<close> keep the mutex free and the lists bounded.\<close>

definition limits_ok :: "int \<Rightarrow> HealthConfig \<Rightarrow> bool" where
  "limits_ok B c \<longleftrightarrow> 0 \<le> MaxSlowTaskRecords c \<and> MaxSlowTaskRecords c \<le> B \<and>
     0 \<le> MaxFailedTaskRecords c \<and> MaxFailedTaskRecords c \<le> B"

definition bounded :: "int \<Rightarrow> ('cb, 't) Pool \<Rightarrow> bool" where
  "bounded B p \<longleftrightarrow> \<not> muHeld p \<and> limits_ok B (healthConfig p) \<and>
     int (length (slowTaskRecords p)) \<le> B \<and> int (length (failedTaskRecords p)) \<le> B \<and>
     length (taskExecutionTimes p) \<le> 1000 \<and> (\<forall>t\<in>set (taskExecutionTimes p). t \<le> maxTaskExecutionTime p)"

lemma bounded_record_time: "bounded B p \<Longrightarrow> bounded B (record_time t p)"
  by (auto simp: bounded_def record_time_def Let_def dest!: in_set_dropD)

lemma bounded_add_slow:
  "bounded B p \<Longrightarrow> add_slow i thr out now p = (q, ok) \<Longrightarrow> bounded B q \<and> ok"
  by (auto simp: bounded_def add_slow_def limits_ok_def split: if_splits prod.splits dest: trim_appendD [where B = B])

lemma bounded_add_failed:
  "bounded B p \<Longrightarrow> add_failed i out now p = (q, ok) \<Longrightarrow> bounded B q \<and> ok"
  by (auto simp: bounded_def add_failed_def limits_ok_def split: option.splits prod.splits dest: trim_appendD [where B = B])

lemma bounded_record_health:
  assumes "bounded B p" "record_health h i thr out now p = (q, r)"
  shows "bounded B q \<and> r = Some ()"
proof -
  obtain p1 ok1 where 1: "add_slow i thr out now p = (p1, ok1)" by fastforce
  obtain p2 ok2 where 2: "add_failed i out now p1 = (p2, ok2)" by fastforce
  have "bounded B p1 \<and> ok1" by (rule bounded_add_slow [OF assms(1) 1])
  moreover from this have "bounded B p2 \<and> ok2" using bounded_add_failed [OF _ 2] by blast
  ultimately show ?thesis using assms(2) 1 2 by (auto simp: record_health_def)
qed

lemma bounded_fail_with: "bounded B p \<Longrightarrow> bounded B (fst (fail_with e p))"
  by (simp add: bounded_def)

lemma bounded_panic_end: "bounded B p \<Longrightarrow> bounded B (fst (panic_end m out p))"
  by (cases "panicked out") (simp_all add: panic_end_def bounded_fail_with)

lemma bounded_other:
  "bounded B p \<Longrightarrow> bounded B (p\<lparr>executed := x\<rparr>)" "bounded B p \<Longrightarrow> bounded B (p\<lparr>queue := qs, finished := fs\<rparr>)"
  "bounded B p \<Longrightarrow> bounded B (p\<lparr>queue := qs\<rparr>)" "bounded B p \<Longrightarrow> bounded B (p\<lparr>totalTasks := n\<rparr>)"
  "bounded B p \<Longrightarrow> bounded B (p\<lparr>trackedTasks := n\<rparr>)" "bounded B p \<Longrightarrow> bounded B (p\<lparr>errorCallbacks := cs\<rparr>)"
  "bounded B p \<Longrightarrow> bounded B (p\<lparr>lastQueueLength := n\<rparr>)"
  by (simp_all add: bounded_def)

lemma bounded_free: "bounded B p \<Longrightarrow> \<not> muHeld p"
  by (simp add: bounded_def)

lemma bounded_run_job:
  assumes "bounded B p"
  shows "bounded B (fst (run_job j ctx out now p))"
proof -
  have named: "bounded B (fst (end_SubmitWithTaskID i en thr out now p))" if "bounded B p" for i en thr and p :: "('a, 'b) Pool"
    using that bounded_record_health [OF that] bounded_free [OF that]
    by (auto simp: end_SubmitWithTaskID_def split: prod.split option.split intro!: bounded_panic_end)
  have worker: "bounded B (fst (end_worker tid out now p))" if "bounded B p" for tid and p :: "('a, 'b) Pool"
    using that bounded_record_health [OF bounded_record_time [OF that]] bounded_free [OF that]
    by (auto simp: end_worker_def Let_def split: prod.split option.split intro!: bounded_panic_end bounded_record_time)
  show ?thesis
    using assms bounded_free [OF assms]
    by (auto simp: run_job_def end_Submit_def end_SubmitWithContext_def Let_def split: job.split option.split
        intro!: named worker bounded_panic_end bounded_record_time bounded_fail_with bounded_other)
qed

lemma bounded_submitted: "bounded B p \<Longrightarrow> bounded B (fst (submitted lib m j p))"
  by (cases lib) (simp_all add: submitted_def Let_def split_beta bounded_fail_with bounded_other)

definition ev_limits :: "int \<Rightarrow> ('cb, 't) pev \<Rightarrow> bool" where
  "ev_limits B e \<longleftrightarrow> (case e of EHealth c \<Rightarrow> limits_ok B c | _ \<Rightarrow> True)"

lemma bounded_pool_ev:
  assumes "bounded B p" "ev_limits B e"
  shows "bounded B (pool_ev e p)"
proof (cases e)
  case (EHealth c)
  then show ?thesis using assms by (simp add: pool_ev_def SetHealthConfig_def bounded_def ev_limits_def)
qed (use assms(1) bounded_free [OF assms(1)] in \<open>auto simp: pool_ev_def Submit_def SubmitWithTaskID_def SubmitWithContext_def
      Invoke_def InvokeWithTaskID_def RegisterErrorCallback_def pool_Metrics_def Let_def count_task_def work_def
      intro!: bounded_submitted bounded_other bounded_run_job\<close>)

theorem run_pool_bounded:
  "bounded B p \<Longrightarrow> list_all (ev_limits B) evs \<Longrightarrow> bounded B (run_pool evs p)"
  by (induction evs arbitrary: p) (auto simp: run_pool_def bounded_pool_ev)

end
