(* ===== verification/Ants_Global.thy ===== *)
theory Ants_Global imports Ants_Runs begin

text \<open>
  \<open>tools/ants/work.go\<close>: the package's own pool and the monitor that prints its metrics. \<open>monitorMu\<close> is held only
  inside an operation, except by one that never returns; then \<open>monitorMuHeld\<close> stays true. As before, the result
  \<^const>\<open>None\<close> is an operation that never returns. Log lines are data; \<open>json.Marshal\<close> and \<open>json.Unmarshal\<close> are
  arguments.
\<close>

section \<open>Configuration and state\<close>

record 'c MonitorConfig =
  MonEnabled :: bool
  Interval :: int
  PrintBasicMetrics :: bool
  PrintHealthInfo :: bool
  MaxSlowTasksPrint :: int
  MaxFailedTasksPrint :: int
  CustomPrinter :: "'c option"

definition DefaultMonitorConfig :: "'c MonitorConfig" where
  "DefaultMonitorConfig =
     \<lparr>MonEnabled = False, Interval = Minute * 5, PrintBasicMetrics = True, PrintHealthInfo = True,
      MaxSlowTasksPrint = 5, MaxFailedTasksPrint = 5, CustomPrinter = None\<rparr>"

record 'c GlobalPoolConfig =
  cfgName :: string
  cfgSize :: int
  cfgPreAlloc :: bool
  cfgHealth :: HealthConfig
  cfgMonitor :: "'c MonitorConfig"

text \<open>\<open>PoolConfig\<close>, whose fields a program may change before \<open>InitCoroutinePool\<close>; it has no monitor.\<close>

record PoolConfigVar =
  pcName :: string
  pcSize :: int
  pcPreAlloc :: bool
  pcHealth :: HealthConfig

definition PoolConfig :: "int \<Rightarrow> PoolConfigVar" where
  "PoolConfig numCPU =
     \<lparr>pcName = ''main-pool'', pcSize = numCPU * 200, pcPreAlloc = True, pcHealth = DefaultHealthConfig\<rparr>"

text \<open>\<open>Config\<close> and \<open>DefaultConfig\<close> of \<open>metrics.go\<close>, which nothing else of the package uses.\<close>

record Config =
  ConfSize :: int
  ConfExpiryDuration :: int
  ConfPreAlloc :: bool
  ConfMaxBlockingTasks :: int

definition DefaultConfig :: "int \<Rightarrow> Config" where
  "DefaultConfig numCPU =
     \<lparr>ConfSize = numCPU * 2, ConfExpiryDuration = Minute, ConfPreAlloc = False, ConfMaxBlockingTasks = 0\<rparr>"

definition zero_MonitorConfig :: "'c MonitorConfig" where
  "zero_MonitorConfig =
     \<lparr>MonEnabled = False, Interval = 0, PrintBasicMetrics = False, PrintHealthInfo = False,
      MaxSlowTasksPrint = 0, MaxFailedTasksPrint = 0, CustomPrinter = None\<rparr>"

text \<open>
  A monitor goroutine waits in its \<open>select\<close>, on the stop channel that the global variable named when it entered it, or
  prints. Channels are numbered; \<open>closedChs\<close> are those closed.
\<close>

datatype mon_phase =
    AtSelect nat
  | Printing

record ('cb, 't, 'c) ants =
  onceDone :: bool
  antsPool :: "('cb, 't) Pool option"
  monitorRunning :: bool
  monitorMuHeld :: bool
  monitorTicker :: "int option"
  monitorStopCh :: nat
  closedChs :: "nat set"
  monitors :: "('c MonitorConfig \<times> mon_phase) list"

definition init_ants :: "('cb, 't, 'c) ants" where
  "init_ants =
     \<lparr>onceDone = False, antsPool = None, monitorRunning = False, monitorMuHeld = False, monitorTicker = None,
      monitorStopCh = 0, closedChs = {}, monitors = []\<rparr>"

section \<open>The monitor\<close>

definition StopGlobalMonitor :: "('cb, 't, 'c) ants \<Rightarrow> ('cb, 't, 'c) ants \<times> unit option" where
  "StopGlobalMonitor g =
     (if monitorMuHeld g then (g, None)
      else if \<not> monitorRunning g then (g, Some ())
      else
        (g\<lparr>monitorTicker := None,
           closedChs := (if monitorStopCh g = 0 then closedChs g else insert (monitorStopCh g) (closedChs g)),
           monitorRunning := False\<rparr>, Some ()))"

definition monitor_defaults :: "'c MonitorConfig \<Rightarrow> 'c MonitorConfig" where
  "monitor_defaults c =
     (let c = (if Interval c \<le> 0 then c\<lparr>Interval := Minute * 5\<rparr> else c);
          c = (if MaxSlowTasksPrint c \<le> 0 then c\<lparr>MaxSlowTasksPrint := 5\<rparr> else c)
      in if MaxFailedTasksPrint c \<le> 0 then c\<lparr>MaxFailedTasksPrint := 5\<rparr> else c)"

text \<open>
  \<open>StartGlobalMonitor\<close> locks \<open>monitorMu\<close> and, when a monitor is running, calls \<open>StopGlobalMonitor\<close>, which locks it again.
\<close>

definition StartGlobalMonitor :: "'c MonitorConfig \<Rightarrow> ('cb, 't, 'c) ants \<Rightarrow> ('cb, 't, 'c) ants \<times> unit option" where
  "StartGlobalMonitor config g =
     (if monitorMuHeld g then (g, None)
      else
        let (g1, r) = (if monitorRunning g then StopGlobalMonitor (g\<lparr>monitorMuHeld := True\<rparr>) else (g, Some ()))
        in case r of
             None \<Rightarrow> (g1, None)
           | Some _ \<Rightarrow>
               (case antsPool g1 of
                  None \<Rightarrow> (g1, Some ())
                | Some _ \<Rightarrow>
                    let config = monitor_defaults config; ch = monitorStopCh g1 + 1
                    in (g1\<lparr>monitorStopCh := ch, monitorTicker := Some (Interval config), monitorRunning := True,
                          monitors := monitors g1 @ [(config, AtSelect ch)]\<rparr>, Some ())))"

definition SetMonitorConfig :: "'c MonitorConfig \<Rightarrow> ('cb, 't, 'c) ants \<Rightarrow> ('cb, 't, 'c) ants \<times> unit option" where
  "SetMonitorConfig config g =
     (if MonEnabled config then StartGlobalMonitor config g else StopGlobalMonitor g)"

definition IsMonitorRunning :: "('cb, 't, 'c) ants \<Rightarrow> bool option" where
  "IsMonitorRunning g = (if monitorMuHeld g then None else Some (monitorRunning g))"

text \<open>
  The goroutine \<open>i\<close>: the ticker fires, the metrics are printed and it selects again on what the variables name then, or
  it finds its channel closed and returns. A \<open>select\<close> waits for the ticker that was started with its channel.
\<close>

definition monitor_fires :: "nat \<Rightarrow> ('cb, 't, 'c) ants \<Rightarrow> ('cb, 't, 'c) ants" where
  "monitor_fires i g =
     (case (monitors g ! i, monitorTicker g) of
        ((c, AtSelect ch), Some _) \<Rightarrow>
          if ch = monitorStopCh g then g\<lparr>monitors := (monitors g)[i := (c, Printing)]\<rparr> else g
      | _ \<Rightarrow> g)"

definition monitor_printed :: "nat \<Rightarrow> ('cb, 't, 'c) ants \<Rightarrow> ('cb, 't, 'c) ants" where
  "monitor_printed i g =
     (case monitors g ! i of
        (c, Printing) \<Rightarrow> g\<lparr>monitors := (monitors g)[i := (c, AtSelect (monitorStopCh g))]\<rparr>
      | _ \<Rightarrow> g)"

definition monitor_stops :: "nat \<Rightarrow> ('cb, 't, 'c) ants \<Rightarrow> ('cb, 't, 'c) ants" where
  "monitor_stops i g =
     (case monitors g ! i of
        (c, AtSelect ch) \<Rightarrow>
          if ch \<in> closedChs g then g\<lparr>monitors := take i (monitors g) @ drop (Suc i) (monitors g)\<rparr> else g
      | _ \<Rightarrow> g)"

subsection \<open>What it prints\<close>

datatype 'c log_line =
    LineCustom 'c Metrics
  | LineTasks string int int int int int int
  | LineTimes string int int int
  | LineHealth string int int int
  | LineSlowFound string int
  | LineSlow string int int
  | LineSlowMore int
  | LineFailedFound string int
  | LineFailed string string int
  | LineFailedMore int

definition slow_lines :: "'c MonitorConfig \<Rightarrow> Metrics \<Rightarrow> 'c log_line list" where
  "slow_lines config m =
     (if length (SlowTasks m) > 0
      then
        let n = int (length (SlowTasks m));
            maxPrint = (if MaxSlowTasksPrint config > n then n else MaxSlowTasksPrint config)
        in [LineSlowFound (mName m) n] @
           map (\<lambda>t. LineSlow (slowTaskID t) (slowTime t) (slowStamp t)) (take (nat maxPrint) (SlowTasks m)) @
           (if n > maxPrint then [LineSlowMore (n - maxPrint)] else [])
      else [])"

definition failed_lines :: "'c MonitorConfig \<Rightarrow> Metrics \<Rightarrow> 'c log_line list" where
  "failed_lines config m =
     (if length (FailedTasksList m) > 0
      then
        let n = int (length (FailedTasksList m));
            maxPrint = (if MaxFailedTasksPrint config > n then n else MaxFailedTasksPrint config)
        in [LineFailedFound (mName m) n] @
           map (\<lambda>t. LineFailed (failTaskID t) (failError t) (failStamp t)) (take (nat maxPrint) (FailedTasksList m)) @
           (if n > maxPrint then [LineFailedMore (n - maxPrint)] else [])
      else [])"

definition metric_lines :: "'c MonitorConfig \<Rightarrow> Metrics \<Rightarrow> 'c log_line list" where
  "metric_lines config m =
     (case CustomPrinter config of
        Some c \<Rightarrow> [LineCustom c m]
      | None \<Rightarrow>
          (if PrintBasicMetrics config
           then [LineTasks (mName m) (RunningGoroutines m) (WaitingTasks m) (TotalTasks m) (SuccessTasks m)
                   (FailedTasks m) (PoolCapacity m),
                 LineTimes (mName m) (TaskExecutionTime m) (MaxTaskExecutionTime m) (MinTaskExecutionTime m)]
           else []) @
          (if PrintHealthInfo config
           then [LineHealth (mName m) (TrackedTasks m) (int (length (SlowTasks m))) (int (length (FailedTasksList m)))] @
                slow_lines config m @ failed_lines config m
           else []))"

definition printMonitorMetrics ::
  "'c MonitorConfig \<Rightarrow> ants_state \<Rightarrow> int \<Rightarrow> ('cb, 't, 'c) ants \<Rightarrow> ('cb, 't, 'c) ants \<times> 'c log_line list option" where
  "printMonitorMetrics config lib now g =
     (case antsPool g of
        None \<Rightarrow> (g, Some [])
      | Some p \<Rightarrow>
          let (p, m) = pool_Metrics lib now p
          in (g\<lparr>antsPool := Some p\<rparr>, map_option (metric_lines config) m))"

section \<open>The pool\<close>

text \<open>\<open>once.Do\<close>: later calls do nothing.\<close>

definition InitCoroutinePoolWithConfig ::
  "(int \<Rightarrow> 'h ants_option list \<Rightarrow> string option) \<Rightarrow> int \<Rightarrow> 'c GlobalPoolConfig \<Rightarrow>
   ('cb, 't, 'c) ants \<Rightarrow> ('cb, 't, 'c) ants \<times> unit option" where
  "InitCoroutinePoolWithConfig new numCPU config g =
     (if onceDone g then (g, Some ())
      else
        let g = g\<lparr>onceDone := True\<rparr>
        in case NewWithOptions new numCPU (cfgName config) (cfgSize config)
                  [\<lambda>opts. opts\<lparr>PreAlloc := cfgPreAlloc config\<rparr>] of
             Inl _ \<Rightarrow>
               (case New new numCPU (cfgName config) [] of
                  Inl _ \<Rightarrow> (g\<lparr>antsPool := None\<rparr>, Some ())
                | Inr p \<Rightarrow> (g\<lparr>antsPool := Some p\<rparr>, Some ()))
           | Inr p \<Rightarrow>
               let g = g\<lparr>antsPool := Some (fst (SetHealthConfig (cfgHealth config) p))\<rparr>
               in if MonEnabled (cfgMonitor config) then StartGlobalMonitor (cfgMonitor config) g else (g, Some ()))"

definition InitCoroutinePool ::
  "(int \<Rightarrow> 'h ants_option list \<Rightarrow> string option) \<Rightarrow> int \<Rightarrow> PoolConfigVar \<Rightarrow>
   ('cb, 't, 'c) ants \<Rightarrow> ('cb, 't, 'c) ants \<times> unit option" where
  "InitCoroutinePool new numCPU v g =
     InitCoroutinePoolWithConfig new numCPU
       \<lparr>cfgName = pcName v, cfgSize = pcSize v, cfgPreAlloc = pcPreAlloc v, cfgHealth = pcHealth v,
        cfgMonitor = zero_MonitorConfig\<rparr> g"

text \<open>\<open>CoroutineRelease\<close> stops the monitor first; the library's release only logs.\<close>

definition CoroutineRelease :: "('cb, 't, 'c) ants \<Rightarrow> ('cb, 't, 'c) ants \<times> unit option" where
  "CoroutineRelease g = StopGlobalMonitor g"

definition SubmitTask :: "string option \<Rightarrow> 't \<Rightarrow> ('cb, 't, 'c) ants \<Rightarrow> ('cb, 't, 'c) ants \<times> unit option" where
  "SubmitTask lib task g =
     (case antsPool g of
        None \<Rightarrow> (g, Some ())
      | Some p \<Rightarrow>
          let (p, r) = Submit lib task p in (g\<lparr>antsPool := Some p\<rparr>, map_option (\<lambda>_. ()) r))"

definition SubmitTaskWithID ::
  "string option \<Rightarrow> string \<Rightarrow> 't \<Rightarrow> ('cb, 't, 'c) ants \<Rightarrow> ('cb, 't, 'c) ants \<times> unit option" where
  "SubmitTaskWithID lib tid task g =
     (case antsPool g of
        None \<Rightarrow> (g, Some ())
      | Some p \<Rightarrow>
          let (p, r) = SubmitWithTaskID lib tid task p in (g\<lparr>antsPool := Some p\<rparr>, map_option (\<lambda>_. ()) r))"

text \<open>
  \<open>SubmitTaskWithData\<close>: the data are encoded at once; the closure decodes its own bytes and calls \<open>task\<close>, or logs
  and returns when they do not decode. The bytes are not shared, so what the closure will do is known here.
\<close>

datatype submit_error =
    NotInitialized
  | EncodeFailed string
  | SubmitRefused PoolError

datatype 't data_task =
    Calls 't
  | DecodeFailed

definition data_closure :: "('b \<Rightarrow> 'v option) \<Rightarrow> 'b \<Rightarrow> ('v \<Rightarrow> 't) \<Rightarrow> 't data_task" where
  "data_closure unmarshal bytes task = (case unmarshal bytes of None \<Rightarrow> DecodeFailed | Some v \<Rightarrow> Calls (task v))"

definition SubmitTaskWithData ::
  "('d \<Rightarrow> string + 'b) \<Rightarrow> ('b \<Rightarrow> 'v option) \<Rightarrow> string option \<Rightarrow> 'd \<Rightarrow> ('v \<Rightarrow> 't) \<Rightarrow>
   ('cb, 't data_task, 'c) ants \<Rightarrow> ('cb, 't data_task, 'c) ants \<times> submit_error option option" where
  "SubmitTaskWithData marshal unmarshal lib data task g =
     (case antsPool g of
        None \<Rightarrow> (g, Some (Some NotInitialized))
      | Some p \<Rightarrow>
          (case marshal data of
             Inl e \<Rightarrow> (g, Some (Some (EncodeFailed e)))
           | Inr bytes \<Rightarrow>
               let (p, r) = Submit lib (data_closure unmarshal bytes task) p
               in (g\<lparr>antsPool := Some p\<rparr>, map_option (map_option SubmitRefused) r)))"

text \<open>\<open>SubmitTaskGeneric\<close> differs in the type it decodes to, so in \<open>unmarshal\<close>.\<close>

definition SubmitTaskGeneric ::
  "('d \<Rightarrow> string + 'b) \<Rightarrow> ('b \<Rightarrow> 'd option) \<Rightarrow> string option \<Rightarrow> 'd \<Rightarrow> ('d \<Rightarrow> 't) \<Rightarrow>
   ('cb, 't data_task, 'c) ants \<Rightarrow> ('cb, 't data_task, 'c) ants \<times> submit_error option option" where
  "SubmitTaskGeneric marshal unmarshal lib data task g =
     (case antsPool g of
        None \<Rightarrow> (g, Some (Some NotInitialized))
      | Some p \<Rightarrow>
          (case marshal data of
             Inl e \<Rightarrow> (g, Some (Some (EncodeFailed e)))
           | Inr bytes \<Rightarrow>
               let (p, r) = Submit lib (data_closure unmarshal bytes task) p
               in (g\<lparr>antsPool := Some p\<rparr>, map_option (map_option SubmitRefused) r)))"

definition SetGlobalHealthConfig :: "HealthConfig \<Rightarrow> ('cb, 't, 'c) ants \<Rightarrow> ('cb, 't, 'c) ants \<times> unit option" where
  "SetGlobalHealthConfig c g =
     (case antsPool g of
        None \<Rightarrow> (g, Some ())
      | Some p \<Rightarrow> let (p, r) = SetHealthConfig c p in (g\<lparr>antsPool := Some p\<rparr>, r))"

definition GetGlobalHealthConfig :: "('cb, 't, 'c) ants \<Rightarrow> HealthConfig option" where
  "GetGlobalHealthConfig g =
     (case antsPool g of None \<Rightarrow> Some DefaultHealthConfig | Some p \<Rightarrow> GetHealthConfig p)"

definition GetGlobalMetrics ::
  "ants_state \<Rightarrow> int \<Rightarrow> ('cb, 't, 'c) ants \<Rightarrow> ('cb, 't, 'c) ants \<times> Metrics option" where
  "GetGlobalMetrics lib now g =
     (case antsPool g of
        None \<Rightarrow> (g, Some ((NewMetrics [] 0)))
      | Some p \<Rightarrow> let (p, m) = pool_Metrics lib now p in (g\<lparr>antsPool := Some p\<rparr>, m))"

definition GetPool :: "('cb, 't, 'c) ants \<Rightarrow> ('cb, 't) Pool option" where
  "GetPool g = antsPool g"

definition NewPool ::
  "(int \<Rightarrow> 'h ants_option list \<Rightarrow> string option) \<Rightarrow> int \<Rightarrow> string \<Rightarrow> int \<Rightarrow> ('h Options \<Rightarrow> 'h Options) list \<Rightarrow>
   PoolError + ('cb, 't) Pool" where
  "NewPool new numCPU nm sz options = NewWithOptions new numCPU nm sz options"

end
