(* ===== verification/Props_Ants.thy ===== *)
theory Props_Ants imports Ants_Global begin

text \<open>The properties of the worker pool and of its monitor.\<close>

section \<open>Accounts and bounds\<close>




text \<open>
  As long as no configuration has a negative record limit or one above \<open>B\<close>, the pool's mutex is free whenever no
  operation is inside it, neither record list exceeds \<open>B\<close>, at most the last 1000 execution times are kept, and
  none of them exceeds the maximum reported.
\<close>

theorem pool_stays_bounded:
  assumes "list_all (ev_limits B) evs" and "100 \<le> B"
  shows "bounded B (run_pool evs (empty_Pool nm))"
  using assms by (intro run_pool_bounded) (auto simp: bounded_def empty_Pool_def limits_ok_def DefaultHealthConfig_def)

theorem pool_stays_bounded_witness:
  "bounded 200 (run_pool [EHealth \<lparr>Enabled = True, SlowTaskThreshold = 1, MaxSlowTaskRecords = 200, MaxFailedTaskRecords = 0\<rparr>,
      ENamed None ''a'' (), EWork 0 None \<lparr>took = 5, panicked = Some ''x''\<rparr> 7] (empty_Pool ''p'' :: (unit, unit) Pool))"
  by (rule pool_stays_bounded) (simp_all add: ev_limits_def limits_ok_def)

text \<open>
  The execution times kept are exactly the newest 1000 in their order, and the maximum is that of all runs, kept or
  not.
\<close>

lemma record_times_list:
  "taskExecutionTimes (fold record_time ts p)
     = fold (\<lambda>t ts. let ts = ts @ [t] in if length ts > 1000 then drop (length ts - 1000) ts else ts) ts
         (taskExecutionTimes p)"
  by (induction ts arbitrary: p) (simp_all add: record_time_def Let_def)

lemma record_times_max:
  "maxTaskExecutionTime (fold record_time ts p) = foldl max (maxTaskExecutionTime p) ts"
  by (induction ts arbitrary: p) (simp_all add: record_time_def Let_def max_def)

theorem newest_times_kept:
  "taskExecutionTimes (fold record_time ts (empty_Pool nm)) = drop (length ts - 1000) ts \<and>
   maxTaskExecutionTime (fold record_time ts (empty_Pool nm)) = foldl max 0 ts"
  using exec_times.push_all [of "[]" ts] by (simp add: record_times_list record_times_max empty_Pool_def)

section \<open>What does not work\<close>

text \<open>
  \<open>SubmitWithTimeout\<close> cancels the context when it returns, so a task that no worker has started by then is never
  called, however long its timeout: it is counted as failed, with the error \<open>context canceled\<close>.
\<close>

theorem timeout_task_not_run:
  assumes "\<not> muHeld p" and "ret \<le> start" and "ret < timeout"
    and "SubmitWithTimeout None task p = (p1, r)"
    and "work (length (queue p)) (timeout_err timeout ret start) out now p1 = (p2, r2)"
  shows "r = Some None \<and> executed p2 = executed p \<and> failedTasks p2 = failedTasks p + 1 \<and>
    called p2 = called p @ map (\<lambda>cb. (cb, \<lparr>Code = ErrCodeContextCanceled, Message = ContextCanceled,
                                              Err = Some (ContextErr ''context canceled'')\<rparr>)) (errorCallbacks p)"
proof -
  have p1: "r = Some None" "p1 = (count_task p)\<lparr>queue := queue p @ [JCtx task]\<rparr>"
    using assms(4) by (simp_all add: SubmitWithTimeout_def SubmitWithContext_def submitted_def count_task_def)
  have err: "timeout_err timeout ret start = Some ''context canceled''"
    using assms(2,3) by (simp add: timeout_err_def)
  have "p2 = fst (work (length (queue p)) (timeout_err timeout ret start) out now p1)" using assms(5) by simp
  then show ?thesis
    using assms(1) unfolding err p1(2)
    by (simp add: p1(1) work_def run_job_def good_run_def end_SubmitWithContext_def fail_with_def callErrorCallbacks_def
        record_time_def count_task_def Let_def)
qed

theorem timeout_task_not_run_witness:
  "\<exists>p1 p2. SubmitWithTimeout None () (empty_Pool ''p'' :: (unit, unit) Pool) = (p1, Some None) \<and>
     fst (work 0 (timeout_err Minute 10 20) \<lparr>took = 1, panicked = None\<rparr> 30 p1) = p2 \<and> executed p2 = [] \<and> failedTasks p2 = 1"
proof -
  let ?p = "empty_Pool ''p'' :: (unit, unit) Pool"
  obtain p1 r where 1: "SubmitWithTimeout None () ?p = (p1, r)" by fastforce
  obtain p2 r2 where 2: "work (length (queue ?p)) (timeout_err Minute 10 20) \<lparr>took = 1, panicked = None\<rparr> 30 p1 = (p2, r2)"
    by fastforce
  have "r = Some None \<and> executed p2 = executed ?p \<and> failedTasks p2 = failedTasks ?p + 1 \<and>
      called p2 = called ?p @ map (\<lambda>cb. (cb, \<lparr>Code = ErrCodeContextCanceled, Message = ContextCanceled,
                                              Err = Some (ContextErr ''context canceled'')\<rparr>)) (errorCallbacks ?p)"
    by (rule timeout_task_not_run [OF _ _ _ 1 2]) (simp_all add: empty_Pool_def Minute_def)
  then show ?thesis using 1 2 by (auto simp: empty_Pool_def)
qed

text \<open>
  A negative limit for slow tasks stops the pool: the first slow task with an identifier panics while the mutex is
  locked, and from then on asking for the metrics or changing the configuration never returns, and neither
  does the end of any run.
\<close>

theorem negative_limit_wedges:
  assumes "\<not> muHeld p" and "MaxSlowTaskRecords (healthConfig p) < 0" and "0 < thr" and "thr < took out"
    and "run_job (JNamed tid True thr task) None out now p = (p1, r)"
  shows "r = None \<and> pool_Metrics lib now' p1 = (p1, None) \<and> SetHealthConfig c p1 = (p1, None) \<and>
    snd (run_job (JPlain task') ctx out' now' p1) = None"
proof -
  have "p1 = fst (run_job (JNamed tid True thr task) None out now p)"
    "r = snd (run_job (JNamed tid True thr task) None out now p)" using assms(5) by simp_all
  then have "muHeld p1" "r = None"
    using assms(1-4)
    by (simp_all add: run_job_def end_SubmitWithTaskID_def record_health_def add_slow_def trim_append_def Let_def
        panic_locked_def panic_handler_def fail_with_def callErrorCallbacks_def)
  then show ?thesis by (simp add: pool_Metrics_def SetHealthConfig_def run_job_def end_Submit_def)
qed

theorem negative_limit_wedges_witness:
  "\<exists>p1. run_job (JNamed ''a'' True 1 ()) None \<lparr>took = 2, panicked = None\<rparr> 0
        ((empty_Pool ''p'' :: (unit, unit) Pool)\<lparr>healthConfig := \<lparr>Enabled = True, SlowTaskThreshold = 1,
            MaxSlowTaskRecords = -1, MaxFailedTaskRecords = 1\<rparr>\<rparr>) = (p1, None) \<and>
     snd (pool_Metrics \<lparr>libRunning = 1, libWaiting = 0, libCap = 4, libRunning2 = 1\<rparr> 9 p1) = None"
proof -
  let ?p = "(empty_Pool ''p'' :: (unit, unit) Pool)\<lparr>healthConfig := \<lparr>Enabled = True, SlowTaskThreshold = 1,
            MaxSlowTaskRecords = -1, MaxFailedTaskRecords = 1\<rparr>\<rparr>"
  obtain p1 r where 1: "run_job (JNamed ''a'' True 1 ()) None \<lparr>took = 2, panicked = None\<rparr> 0 ?p = (p1, r)" by fastforce
  have "r = None \<and> pool_Metrics \<lparr>libRunning = 1, libWaiting = 0, libCap = 4, libRunning2 = 1\<rparr> 9 p1 = (p1, None) \<and>
      SetHealthConfig DefaultHealthConfig p1 = (p1, None) \<and>
      snd (run_job (JPlain ()) None \<lparr>took = 2, panicked = None\<rparr> 9 p1) = None"
    by (rule negative_limit_wedges [OF _ _ _ _ 1]) (simp_all add: empty_Pool_def)
  then show ?thesis using 1 by auto
qed



text \<open>
  A monitor that is stopped and started again while its goroutine prints has two goroutines afterwards: the old one
  selects on the new channel and ticker.
\<close>

lemma monitor_doubles:
  fixes g :: "('cb, 't, 'c) ants" and c' :: "'c MonitorConfig"
  assumes "\<not> monitorMuHeld g" "monitorRunning g" "antsPool g = Some p" "monitors g = [(c, Printing)]"
  defines "g2 \<equiv> monitor_printed 0 (fst (StartGlobalMonitor c' (fst (StopGlobalMonitor g))))"
  shows "monitors g2 = [(c, AtSelect (monitorStopCh g2)), (monitor_defaults c', AtSelect (monitorStopCh g2))]"
  using assms by (simp add: StartGlobalMonitor_def StopGlobalMonitor_def monitor_printed_def Let_def)

text \<open>\<open>SubmitTaskWithData\<close> queues a call of the task with what the data decode to.\<close>

lemma SubmitTaskWithData_copy:
  assumes "antsPool g = Some p" "marshal d = Inr b" "unmarshal b = Some v"
  shows "SubmitTaskWithData marshal unmarshal None d task g
    = (g\<lparr>antsPool := Some ((count_task p)\<lparr>queue := queue p @ [JPlain (Calls (task v))]\<rparr>)\<rparr>, Some None)"
  using assms by (simp add: SubmitTaskWithData_def Submit_def submitted_def data_closure_def count_task_def)

end
