(* ===== verification/Zip_Bytes.thy ===== *)
theory Zip_Bytes imports Go_Slices begin

text \<open>
  Little-endian integers, and the two buffers of \<open>tools/zip\<close> that go through a block of bytes from its start:
  \<open>readBuf\<close> (\<open>reader.go\<close>) and \<open>writeBuf\<close> (\<open>writer.go\<close>).
\<close>

section \<open>Little-endian integers\<close>

definition le_bytes :: "nat \<Rightarrow> 'a::len word \<Rightarrow> bytes" where
  "le_bytes n v = map (\<lambda>i. ucast (drop_bit (8 * i) v)) [0..<n]"

definition le_word :: "bytes \<Rightarrow> 'a::len word" where
  "le_word bs = foldr (\<lambda>b acc. ucast b OR push_bit 8 acc) bs 0"

lemma length_le_bytes [simp]: "length (le_bytes n v) = n"
  by (simp add: le_bytes_def)

lemma le_bytes_Suc: "le_bytes (Suc n) v = ucast v # le_bytes n (drop_bit 8 v)"
  by (simp add: le_bytes_def upt_conv_Cons map_Suc_upt [symmetric] comp_def ac_simps del: upt_Suc)

lemma le_word_Cons [simp]: "le_word (b # bs) = ucast b OR push_bit 8 (le_word bs)"
  by (simp add: le_word_def)

lemma le_word_le_bytes_take: "le_word (le_bytes n v) = take_bit (8 * n) (v :: 'a::len word)"
proof (induction n arbitrary: v)
  case 0
  then show ?case by (simp add: le_word_def le_bytes_def)
next
  case (Suc n)
  show ?case
    by (rule bit_word_eqI)
      (auto simp: le_bytes_Suc Suc bit_simps not_less)
qed

lemma le_word_le_bytes:
  assumes "LENGTH('a) = 8 * n"
  shows "le_word (le_bytes n v) = (v :: 'a::len word)"
  using le_word_le_bytes_take [of n v] by (simp add: assms [symmetric] take_bit_word_eq_self)

section \<open>\<open>readBuf\<close>\<close>

text \<open>Each operation takes an integer off the front; on too few bytes it panics (\<^const>\<open>None\<close>).\<close>

definition rb_uint8 :: "bytes \<Rightarrow> (byte \<times> bytes) option" where
  "rb_uint8 b = (if length b < 1 then None else Some (b ! 0, drop 1 b))"

definition rb_uint16 :: "bytes \<Rightarrow> (16 word \<times> bytes) option" where
  "rb_uint16 b = (if length b < 2 then None else Some (le_word (take 2 b), drop 2 b))"

definition rb_uint32 :: "bytes \<Rightarrow> (32 word \<times> bytes) option" where
  "rb_uint32 b = (if length b < 4 then None else Some (le_word (take 4 b), drop 4 b))"

definition rb_uint64 :: "bytes \<Rightarrow> (64 word \<times> bytes) option" where
  "rb_uint64 b = (if length b < 8 then None else Some (le_word (take 8 b), drop 8 b))"

text \<open>\<open>b = b[n:]\<close>\<close>

definition rb_skip :: "nat \<Rightarrow> bytes \<Rightarrow> bytes option" where
  "rb_skip n b = (if length b < n then None else Some (drop n b))"

lemma rb_le_bytes [wire]:
  "rb_uint8 (v8 # r) = Some (v8, r)"
  "rb_uint16 (le_bytes 2 v16 @ r) = Some (v16, r)"
  "rb_uint32 (le_bytes 4 v32 @ r) = Some (v32, r)"
  "rb_uint64 (le_bytes 8 v64 @ r) = Some (v64, r)"
  "length p = n \<Longrightarrow> rb_skip n (p @ r) = Some r"
  by (simp_all add: rb_uint8_def rb_uint16_def rb_uint32_def rb_uint64_def rb_skip_def le_word_le_bytes)

section \<open>\<open>writeBuf\<close>\<close>

text \<open>
  \<open>var buf [n]byte; b := writeBuf(buf[:])\<close> and a sequence of stores, each given by the bytes it puts; \<open>b = b[k:]\<close>
  leaves \<open>k\<close> zeros. A store beyond the end panics.
\<close>

definition wb_uint8 :: "byte \<Rightarrow> bytes" where "wb_uint8 v = [v]"
definition wb_uint16 :: "16 word \<Rightarrow> bytes" where "wb_uint16 v = le_bytes 2 v"
definition wb_uint32 :: "32 word \<Rightarrow> bytes" where "wb_uint32 v = le_bytes 4 v"
definition wb_uint64 :: "64 word \<Rightarrow> bytes" where "wb_uint64 v = le_bytes 8 v"
definition wb_skip :: "nat \<Rightarrow> bytes" where "wb_skip n = replicate n 0"

definition writeBuf :: "nat \<Rightarrow> bytes list \<Rightarrow> bytes option" where
  "writeBuf n ws =
     (let b = concat ws in if length b \<le> n then Some (wr b (replicate n 0)) else None)"

lemmas wb_defs = wb_uint8_def wb_uint16_def wb_uint32_def wb_uint64_def wb_skip_def

lemma length_wb [simp]:
  "length (wb_uint8 v8) = 1" "length (wb_uint16 v16) = 2" "length (wb_uint32 v32) = 4" "length (wb_uint64 v64) = 8"
  "length (wb_skip n) = n"
  by (simp_all add: wb_defs)

lemma rb_wb [wire]:
  "rb_uint8 (wb_uint8 v8 @ r) = Some (v8, r)"
  "rb_uint16 (wb_uint16 v16 @ r) = Some (v16, r)"
  "rb_uint32 (wb_uint32 v32 @ r) = Some (v32, r)"
  "rb_uint64 (wb_uint64 v64 @ r) = Some (v64, r)"
  "rb_skip n (wb_skip n @ r) = Some r"
  by (simp_all add: wb_defs wire)

lemma writeBuf_exact: "length (concat ws) = n \<Longrightarrow> writeBuf n ws = Some (concat ws)"
  by (simp add: writeBuf_def Let_def wr_def)

end
