(* ===== verification/Zip_Header.thy ===== *)
theory Zip_Header imports Zip_Bytes begin

text \<open>
  \<open>tools/zip/struct.go\<close>, and the methods of \<open>FileHeader\<close> in \<open>crypto.go\<close>: the constants of the format, the header of a
  file, MS-DOS times and file modes.
\<close>

section \<open>Constants\<close>

abbreviation (input) Store :: "16 word" where "Store \<equiv> 0"
abbreviation (input) Deflate :: "16 word" where "Deflate \<equiv> 8"

definition fileHeaderSignature :: "32 word" where "fileHeaderSignature = 0x04034b50"
definition directoryHeaderSignature :: "32 word" where "directoryHeaderSignature = 0x02014b50"
definition directoryEndSignature :: "32 word" where "directoryEndSignature = 0x06054b50"
definition directory64LocSignature :: "32 word" where "directory64LocSignature = 0x07064b50"
definition directory64EndSignature :: "32 word" where "directory64EndSignature = 0x06064b50"
definition dataDescriptorSignature :: "32 word" where "dataDescriptorSignature = 0x08074b50"

abbreviation (input) fileHeaderLen :: nat where "fileHeaderLen \<equiv> 30"
abbreviation (input) directoryHeaderLen :: nat where "directoryHeaderLen \<equiv> 46"
abbreviation (input) directoryEndLen :: nat where "directoryEndLen \<equiv> 22"
abbreviation (input) dataDescriptorLen :: nat where "dataDescriptorLen \<equiv> 16"
abbreviation (input) dataDescriptor64Len :: nat where "dataDescriptor64Len \<equiv> 24"
abbreviation (input) directory64LocLen :: nat where "directory64LocLen \<equiv> 20"
abbreviation (input) directory64EndLen :: nat where "directory64EndLen \<equiv> 56"

abbreviation (input) zipVersion20 :: "16 word" where "zipVersion20 \<equiv> 20"
abbreviation (input) zipVersion45 :: "16 word" where "zipVersion45 \<equiv> 45"

definition uint16max :: int where "uint16max = 2 ^ 16 - 1"
definition uint32max :: int where "uint32max = 2 ^ 32 - 1"

abbreviation (input) zip64ExtraId :: "16 word" where "zip64ExtraId \<equiv> 0x0001"
abbreviation (input) winzipAesExtraId :: "16 word" where "winzipAesExtraId \<equiv> 0x9901"

text \<open>\<open>EncryptionMethod\<close>; a header starts with none.\<close>

datatype EncryptionMethod =
    NoEncryption
  | StandardEncryption
  | AES128Encryption
  | AES192Encryption
  | AES256Encryption

text \<open>The password is a function in the code, called when it is used; it gives the bytes it was set to.\<close>

record FileHeader =
  Name :: bytes
  CreatorVersion :: "16 word"
  ReaderVersion :: "16 word"
  Flags :: "16 word"
  Method :: "16 word"
  ModifiedTime :: "16 word"
  ModifiedDate :: "16 word"
  CRC32 :: "32 word"
  CompressedSize :: "32 word"
  UncompressedSize :: "32 word"
  CompressedSize64 :: "64 word"
  UncompressedSize64 :: "64 word"
  Extra :: bytes
  ExternalAttrs :: "32 word"
  Comment :: bytes
  DeferAuth :: bool
  encryption :: EncryptionMethod
  password :: "bytes option"
  ae :: "16 word"
  aesStrength :: byte

definition zero_FileHeader :: FileHeader where
  "zero_FileHeader =
     \<lparr>Name = [], CreatorVersion = 0, ReaderVersion = 0, Flags = 0, Method = 0, ModifiedTime = 0, ModifiedDate = 0,
      CRC32 = 0, CompressedSize = 0, UncompressedSize = 0, CompressedSize64 = 0, UncompressedSize64 = 0, Extra = [],
      ExternalAttrs = 0, Comment = [], DeferAuth = False, encryption = NoEncryption, password = None, ae = 0,
      aesStrength = 0\<rparr>"

definition isZip64 :: "FileHeader \<Rightarrow> bool" where
  "isZip64 h \<longleftrightarrow> uint (CompressedSize64 h) > uint32max \<or> uint (UncompressedSize64 h) > uint32max"

record directoryEnd =
  diskNbr :: "32 word"
  dirDiskNbr :: "32 word"
  dirRecordsThisDisk :: "64 word"
  directoryRecords :: "64 word"
  directorySize :: "64 word"
  directoryOffset :: "64 word"
  commentLen :: "16 word"
  dcomment :: bytes

section \<open>Encryption settings\<close>

definition IsEncrypted :: "FileHeader \<Rightarrow> bool" where
  "IsEncrypted h \<longleftrightarrow> Flags h AND 1 = 1"

definition isAE2 :: "FileHeader \<Rightarrow> bool" where
  "isAE2 h \<longleftrightarrow> ae h = 2"

definition hasDataDescriptor :: "FileHeader \<Rightarrow> bool" where
  "hasDataDescriptor h \<longleftrightarrow> Flags h AND 8 \<noteq> 0"

definition setEncryptionBit :: "FileHeader \<Rightarrow> FileHeader" where
  "setEncryptionBit h = h\<lparr>Flags := Flags h OR 1\<rparr>"

definition zip_SetPassword :: "bytes \<Rightarrow> FileHeader \<Rightarrow> FileHeader" where
  "zip_SetPassword pw h = (if IsEncrypted h then h else setEncryptionBit h)\<lparr>password := Some pw\<rparr>"

definition setEncryptionMethod :: "EncryptionMethod \<Rightarrow> FileHeader \<Rightarrow> FileHeader" where
  "setEncryptionMethod enc h =
     (let h = h\<lparr>encryption := enc\<rparr>
      in case enc of
           AES128Encryption \<Rightarrow> h\<lparr>aesStrength := 1\<rparr>
         | AES192Encryption \<Rightarrow> h\<lparr>aesStrength := 2\<rparr>
         | AES256Encryption \<Rightarrow> h\<lparr>aesStrength := 3\<rparr>
         | _ \<Rightarrow> h)"

definition aesKeyLen :: "byte \<Rightarrow> nat" where
  "aesKeyLen strength =
     (if strength = 1 then 16 else if strength = 2 then 24 else if strength = 3 then 32 else 0)"

text \<open>\<open>writeWinZipExtra\<close>; its stores fill the eleven bytes exactly.\<close>

definition winZipExtra :: "FileHeader \<Rightarrow> bytes" where
  "winZipExtra h =
     concat [wb_uint16 winzipAesExtraId, wb_uint16 7, wb_uint16 2, wb_uint16 0x4541, wb_uint8 (aesStrength h),
             wb_uint16 (Method h)]"

definition writeWinZipExtra :: "FileHeader \<Rightarrow> FileHeader option" where
  "writeWinZipExtra h =
     map_option (\<lambda>buf. h\<lparr>Extra := Extra h @ buf\<rparr>)
       (writeBuf 11 [wb_uint16 winzipAesExtraId, wb_uint16 7, wb_uint16 2, wb_uint16 0x4541, wb_uint8 (aesStrength h),
                     wb_uint16 (Method h)])"

lemma length_winZipExtra [simp]: "length (winZipExtra h) = 11"
  by (simp add: winZipExtra_def)

lemma writeWinZipExtra_Some: "writeWinZipExtra h = Some (h\<lparr>Extra := Extra h @ winZipExtra h\<rparr>)"
  by (simp add: writeWinZipExtra_def writeBuf_exact winZipExtra_def)

section \<open>Times\<close>

text \<open>The fields of a time in UTC, and the arguments of \<open>time.Date\<close>, which puts values beyond their range in order.\<close>

record civil =
  cYear :: int
  cMonth :: int
  cDay :: int
  cHour :: int
  cMinute :: int
  cSecond :: int

definition msDosTimeToTime :: "16 word \<Rightarrow> 16 word \<Rightarrow> civil" where
  "msDosTimeToTime dosDate dosTime =
     \<lparr>cYear = uint (drop_bit 9 dosDate + 1980),
      cMonth = uint (drop_bit 5 dosDate AND 0xf),
      cDay = uint (dosDate AND 0x1f),
      cHour = uint (drop_bit 11 dosTime),
      cMinute = uint (drop_bit 5 dosTime AND 0x3f),
      cSecond = uint ((dosTime AND 0x1f) * 2)\<rparr>"

definition timeToMsDosTime :: "civil \<Rightarrow> 16 word \<times> 16 word" where
  "timeToMsDosTime t =
     (word_of_int (cDay t + push_bit 5 (cMonth t) + push_bit 9 (cYear t - 1980)),
      word_of_int (cSecond t div 2 + push_bit 5 (cMinute t) + push_bit 11 (cHour t)))"

definition ModTime :: "FileHeader \<Rightarrow> civil" where
  "ModTime h = msDosTimeToTime (ModifiedDate h) (ModifiedTime h)"

definition SetModTime :: "civil \<Rightarrow> FileHeader \<Rightarrow> FileHeader" where
  "SetModTime t h = (case timeToMsDosTime t of (d, m) \<Rightarrow> h\<lparr>ModifiedDate := d, ModifiedTime := m\<rparr>)"

definition civil_ok :: "civil \<Rightarrow> bool" where
  "civil_ok t \<longleftrightarrow> 1 \<le> cMonth t \<and> cMonth t \<le> 12 \<and> 1 \<le> cDay t \<and> cDay t \<le> 31 \<and> 0 \<le> cHour t \<and> cHour t \<le> 23 \<and>
     0 \<le> cMinute t \<and> cMinute t \<le> 59 \<and> 0 \<le> cSecond t \<and> cSecond t \<le> 59"

text \<open>Three fields packed in a 16-bit word.\<close>

lemma packed_fields:
  fixes a b c :: int
  assumes "0 \<le> a" "a < 2 ^ i" "0 \<le> b" "b < 2 ^ (j - i)" "0 \<le> c" "c < 2 ^ (16 - j)" "i < j" "j < 16"
  defines "w \<equiv> (word_of_int (a + push_bit i b + push_bit j c) :: 16 word)"
  shows "uint (take_bit i w) = a" "uint (take_bit (j - i) (drop_bit i w)) = b" "uint (drop_bit j w) = c"
proof -
  let ?v = "a + push_bit i b + push_bit j c"
  have ij: "(2::int) ^ j = 2 ^ i * 2 ^ (j - i)" using assms(7) by (simp flip: power_add)
  have j16: "2 ^ j * 2 ^ (16 - j) = (65536 :: int)" using assms(8) by (simp flip: power_add)
  have ab: "0 \<le> a + 2 ^ i * b" "a + 2 ^ i * b < 2 ^ j"
  proof -
    have "2 ^ i * b \<le> 2 ^ i * (2 ^ (j - i) - 1)" using assms(4) by (intro mult_left_mono) simp_all
    then show "a + 2 ^ i * b < 2 ^ j" using assms(2) by (simp add: ij algebra_simps)
  qed (use assms in simp)
  have v: "?v = (a + 2 ^ i * b) + 2 ^ j * c" by (simp add: push_bit_eq_mult algebra_simps)
  have "2 ^ j * c \<le> 2 ^ j * (2 ^ (16 - j) - 1)" using assms(6) by (intro mult_left_mono) simp_all
  then have "?v < 2 ^ 16" using ab v by (simp add: j16 right_diff_distrib)
  moreover have "0 \<le> ?v" unfolding v using ab assms(5) by simp
  ultimately have r: "take_bit 16 ?v = ?v" by (intro take_bit_int_eq_self) simp_all
  then have w: "uint w = ?v" unfolding w_def uint_word_of_int_eq by simp
  have d: "?v div 2 ^ j = c" unfolding v using ab by simp
  have v': "?v = a + 2 ^ i * (b + 2 ^ (j - i) * c)" unfolding v ij by (simp add: algebra_simps)
  have e: "?v mod 2 ^ i = a" "?v div 2 ^ i = b + 2 ^ (j - i) * c"
    unfolding v' using assms(1,2) by simp_all
  show "uint (take_bit i w) = a" using e(1) by (simp only: unsigned_take_bit_eq w) (simp add: take_bit_eq_mod)
  show "uint (drop_bit j w) = c" using d assms(5,6,7)
    by (simp only: unsigned_drop_bit_eq w) (simp add: drop_bit_eq_div r)
  show "uint (take_bit (j - i) (drop_bit i w)) = b"
    using e(2) assms(3,4) by (simp only: unsigned_take_bit_eq unsigned_drop_bit_eq w) (simp add: drop_bit_eq_div r take_bit_eq_mod [of "j - i"])
qed

lemma ModTime_SetModTime:
  assumes "civil_ok t" "1980 \<le> cYear t" "cYear t \<le> 2107"
  shows "ModTime (SetModTime t h) = t\<lparr>cSecond := cSecond t - cSecond t mod 2\<rparr>"
proof -
  note t = assms(1) [unfolded civil_ok_def] assms(2,3)
  obtain d m where w: "timeToMsDosTime t = (d, m)" by fastforce
  have d: "uint (take_bit 5 d) = cDay t" "uint (take_bit 4 (drop_bit 5 d)) = cMonth t" "uint (drop_bit 9 d) = cYear t - 1980"
    using w packed_fields [of "cDay t" 5 "cMonth t" 9 "cYear t - 1980"] t by (auto simp: timeToMsDosTime_def)
  have m: "uint (take_bit 5 m) = cSecond t div 2" "uint (take_bit 6 (drop_bit 5 m)) = cMinute t" "uint (drop_bit 11 m) = cHour t"
    using w packed_fields [of "cSecond t div 2" 5 "cMinute t" 11 "cHour t"] t by (auto simp: timeToMsDosTime_def)
  have y: "uint (x + 1980 :: 16 word) = uint x + 1980" if "uint x < 128" for x
    using that by (simp add: uint_word_ariths)
  have s: "uint (x * 2 :: 16 word) = 2 * uint x" if "uint x < 32" for x
    using that by (simp add: uint_word_ariths)
  have masks: "x AND 0x1f = take_bit 5 x" "x AND 0xf = take_bit 4 x" "x AND 0x3f = take_bit 6 x" for x :: "16 word"
    by (simp_all add: take_bit_eq_mask mask_eq_exp_minus_1)
  show ?thesis
    using t d m y [of "drop_bit 9 d"] s [of "take_bit 5 m"] zdiv_mono1 [of "cSecond t" 59 2]
    by (intro civil.equality) (simp_all add: SetModTime_def ModTime_def w msDosTimeToTime_def masks minus_mod_eq_mult_div)
qed

text \<open>A year has seven bits: any other year is stored as the one between 1980 and 2107 that differs by a multiple of 128.\<close>

definition stored_year :: "int \<Rightarrow> int" where
  "stored_year y = 1980 + (y - 1980) mod 128"

lemma stored_year_same: "1980 \<le> y \<Longrightarrow> y \<le> 2107 \<Longrightarrow> stored_year y = y"
  by (simp add: stored_year_def)

lemma stored_year_range: "1980 \<le> stored_year y" "stored_year y \<le> 2107"
  using pos_mod_bound [of 128 "y - 1980"] by (simp_all add: stored_year_def)

lemma SetModTime_year: "SetModTime (t\<lparr>cYear := stored_year (cYear t)\<rparr>) h = SetModTime t h"
proof -
  have "(a + 512 * (c mod 128)) mod 65536 = (a + 512 * c) mod 65536" for a c :: int
    using mult_mod_right [of 512 c 128] by (simp add: mod_add_right_eq)
  then have "(word_of_int (a + 512 * (c mod 128)) :: 16 word) = word_of_int (a + 512 * c)" for a c
    by (intro word_of_int_eq_iff [THEN iffD2]) (simp add: take_bit_eq_mod)
  then show ?thesis
    by (simp add: SetModTime_def timeToMsDosTime_def stored_year_def push_bit_eq_mult mult.commute)
qed

lemma ModTime_SetModTime_any:
  assumes "civil_ok t"
  shows "ModTime (SetModTime t h) = t\<lparr>cYear := stored_year (cYear t), cSecond := cSecond t - cSecond t mod 2\<rparr>"
  using ModTime_SetModTime [of "t\<lparr>cYear := stored_year (cYear t)\<rparr>" h] assms stored_year_range [of "cYear t"]
  by (simp add: SetModTime_year civil_ok_def)

section \<open>Modes\<close>

text \<open>The bits of \<open>os.FileMode\<close>, and those of Unix and MS-DOS.\<close>

definition ModeDir :: "32 word" where "ModeDir = 0x80000000"
definition ModeSymlink :: "32 word" where "ModeSymlink = 0x08000000"
definition ModeDevice :: "32 word" where "ModeDevice = 0x04000000"
definition ModeNamedPipe :: "32 word" where "ModeNamedPipe = 0x02000000"
definition ModeSocket :: "32 word" where "ModeSocket = 0x01000000"
definition ModeSetuid :: "32 word" where "ModeSetuid = 0x00800000"
definition ModeSetgid :: "32 word" where "ModeSetgid = 0x00400000"
definition ModeCharDevice :: "32 word" where "ModeCharDevice = 0x00200000"
definition ModeSticky :: "32 word" where "ModeSticky = 0x00100000"
definition ModeType :: "32 word" where "ModeType = 0x8f280000"

abbreviation (input) s_IFMT :: "32 word" where "s_IFMT \<equiv> 0xf000"
abbreviation (input) s_IFSOCK :: "32 word" where "s_IFSOCK \<equiv> 0xc000"
abbreviation (input) s_IFLNK :: "32 word" where "s_IFLNK \<equiv> 0xa000"
abbreviation (input) s_IFREG :: "32 word" where "s_IFREG \<equiv> 0x8000"
abbreviation (input) s_IFBLK :: "32 word" where "s_IFBLK \<equiv> 0x6000"
abbreviation (input) s_IFDIR :: "32 word" where "s_IFDIR \<equiv> 0x4000"
abbreviation (input) s_IFCHR :: "32 word" where "s_IFCHR \<equiv> 0x2000"
abbreviation (input) s_IFIFO :: "32 word" where "s_IFIFO \<equiv> 0x1000"
abbreviation (input) s_ISUID :: "32 word" where "s_ISUID \<equiv> 0x800"
abbreviation (input) s_ISGID :: "32 word" where "s_ISGID \<equiv> 0x400"
abbreviation (input) s_ISVTX :: "32 word" where "s_ISVTX \<equiv> 0x200"
abbreviation (input) msdosDir :: "32 word" where "msdosDir \<equiv> 0x10"
abbreviation (input) msdosReadOnly :: "32 word" where "msdosReadOnly \<equiv> 0x01"

text \<open>In the code the octal numbers 0777, 0666, 0222 and 0200.\<close>

definition msdosModeToFileMode :: "32 word \<Rightarrow> 32 word" where
  "msdosModeToFileMode m =
     (let mode = (if m AND msdosDir \<noteq> 0 then ModeDir OR 0x1ff else 0x1b6)
      in if m AND msdosReadOnly \<noteq> 0 then mode AND NOT 0x92 else mode)"

definition fileModeToUnixMode :: "32 word \<Rightarrow> 32 word" where
  "fileModeToUnixMode mode =
     (let t = mode AND ModeType;
          m = (if t = ModeDir then s_IFDIR
               else if t = ModeSymlink then s_IFLNK
               else if t = ModeNamedPipe then s_IFIFO
               else if t = ModeSocket then s_IFSOCK
               else if t = ModeDevice then (if mode AND ModeCharDevice \<noteq> 0 then s_IFCHR else s_IFBLK)
               else s_IFREG);
          m = (if mode AND ModeSetuid \<noteq> 0 then m OR s_ISUID else m);
          m = (if mode AND ModeSetgid \<noteq> 0 then m OR s_ISGID else m);
          m = (if mode AND ModeSticky \<noteq> 0 then m OR s_ISVTX else m)
      in m OR (mode AND 0x1ff))"

definition unixModeToFileMode :: "32 word \<Rightarrow> 32 word" where
  "unixModeToFileMode m =
     (let mode = m AND 0x1ff;
          t = m AND s_IFMT;
          mode = (if t = s_IFBLK then mode OR ModeDevice
                  else if t = s_IFCHR then mode OR (ModeDevice OR ModeCharDevice)
                  else if t = s_IFDIR then mode OR ModeDir
                  else if t = s_IFIFO then mode OR ModeNamedPipe
                  else if t = s_IFLNK then mode OR ModeSymlink
                  else if t = s_IFSOCK then mode OR ModeSocket
                  else mode);
          mode = (if m AND s_ISGID \<noteq> 0 then mode OR ModeSetgid else mode);
          mode = (if m AND s_ISUID \<noteq> 0 then mode OR ModeSetuid else mode)
      in if m AND s_ISVTX \<noteq> 0 then mode OR ModeSticky else mode)"

text \<open>The creators 3 and 19 are Unix and OS X; 11, 14 and 0 are NTFS, VFAT and FAT.\<close>

definition Mode :: "FileHeader \<Rightarrow> 32 word" where
  "Mode h =
     (let c = drop_bit 8 (CreatorVersion h);
          mode = (if c = 3 \<or> c = 19 then unixModeToFileMode (drop_bit 16 (ExternalAttrs h))
                  else if c = 11 \<or> c = 14 \<or> c = 0 then msdosModeToFileMode (ExternalAttrs h)
                  else 0)
      in if 0 < length (Name h) \<and> Name h ! (length (Name h) - 1) = 47 then mode OR ModeDir else mode)"

definition SetMode :: "32 word \<Rightarrow> FileHeader \<Rightarrow> FileHeader" where
  "SetMode mode h =
     (let h = h\<lparr>CreatorVersion := (CreatorVersion h AND 0xff) OR push_bit 8 3,
                ExternalAttrs := push_bit 16 (fileModeToUnixMode mode)\<rparr>;
          h = (if mode AND ModeDir \<noteq> 0 then h\<lparr>ExternalAttrs := ExternalAttrs h OR msdosDir\<rparr> else h)
      in if mode AND 0x80 = 0 then h\<lparr>ExternalAttrs := ExternalAttrs h OR msdosReadOnly\<rparr> else h)"

text \<open>
  \<open>FileInfoHeader\<close> on what the \<open>os.FileInfo\<close> reports, and the methods of \<open>headerFileInfo\<close> that are not a method of the
  header itself; \<open>path.Base\<close>, which \<open>Name\<close> calls, is the standard library's.
\<close>

record file_info =
  fiName :: bytes
  fiSize :: int
  fiModTime :: civil
  fiMode :: "32 word"

definition FileInfoHeader :: "file_info \<Rightarrow> FileHeader" where
  "FileInfoHeader fi =
     (let fh = zero_FileHeader\<lparr>Name := fiName fi, UncompressedSize64 := word_of_int (fiSize fi)\<rparr>;
          fh = SetMode (fiMode fi) (SetModTime (fiModTime fi) fh)
      in if uint (UncompressedSize64 fh) > uint32max then fh\<lparr>UncompressedSize := word_of_int uint32max\<rparr>
         else fh\<lparr>UncompressedSize := ucast (UncompressedSize64 fh)\<rparr>)"

definition header_Size :: "FileHeader \<Rightarrow> int" where
  "header_Size h =
     (if UncompressedSize64 h > 0 then sint (UncompressedSize64 h) else uint (UncompressedSize h))"

definition header_IsDir :: "FileHeader \<Rightarrow> bool" where
  "header_IsDir h \<longleftrightarrow> Mode h AND ModeDir \<noteq> 0"

section \<open>Modes read back\<close>

text \<open>The modes a file of the archive can have: one type that is not a character device, permissions and the three bits.\<close>

definition plain_mode :: "32 word \<Rightarrow> bool" where
  "plain_mode mode \<longleftrightarrow>
     mode AND ModeType \<in> {0, ModeDir, ModeSymlink, ModeNamedPipe, ModeSocket, ModeDevice} \<and>
     mode AND (ModeType OR ModeSetuid OR ModeSetgid OR ModeSticky OR 0x1ff) = mode"

lemmas mode_bits = ModeDir_def ModeSymlink_def ModeDevice_def ModeNamedPipe_def ModeSocket_def ModeSetuid_def
  ModeSetgid_def ModeCharDevice_def ModeSticky_def ModeType_def

lemma and_assoc_numeral: "(x AND numeral a) AND numeral b = x AND ((numeral a :: 'a::semiring_bit_operations) AND numeral b)"
  by (simp add: and.assoc)

lemma or_numerals: "numeral a OR (numeral b OR x) = (numeral a OR numeral b :: 'a::semiring_bit_operations) OR x"
  by (simp add: or.assoc)

lemma and_single: "x AND push_bit n 1 \<noteq> 0 \<Longrightarrow> x AND push_bit n 1 = (push_bit n 1 :: 'a::len word)"
proof -
  assume "x AND push_bit n 1 \<noteq> 0"
  then have "bit x n" by (metis bit_iff_and_push_bit_not_eq_0)
  then show ?thesis by (intro bit_word_eqI) (auto simp: bit_and_iff bit_exp_iff)
qed

lemma mode_single:
  "x AND ModeSetuid = (if x AND ModeSetuid = 0 then 0 else ModeSetuid)"
  "x AND ModeSetgid = (if x AND ModeSetgid = 0 then 0 else ModeSetgid)"
  "x AND ModeSticky = (if x AND ModeSticky = 0 then 0 else ModeSticky)"
  using and_single [of x 23] and_single [of x 22] and_single [of x 20] by (auto simp: mode_bits)

lemma fileModeToUnixMode_type:
  "fileModeToUnixMode mode =
     (let t = mode AND ModeType
      in (if t = ModeDir then s_IFDIR else if t = ModeSymlink then s_IFLNK else if t = ModeNamedPipe then s_IFIFO
          else if t = ModeSocket then s_IFSOCK else if t = ModeDevice then s_IFBLK else s_IFREG)
      OR (if mode AND ModeSetuid = 0 then 0 else s_ISUID) OR (if mode AND ModeSetgid = 0 then 0 else s_ISGID)
      OR (if mode AND ModeSticky = 0 then 0 else s_ISVTX) OR (mode AND 0x1ff))"
proof -
  have "mode AND ModeCharDevice = 0" if "mode AND ModeType = ModeDevice"
  proof -
    have "mode AND ModeCharDevice = (mode AND ModeType) AND ModeCharDevice" by (simp add: mode_bits and.assoc)
    then show ?thesis using that by (simp add: mode_bits)
  qed
  then show ?thesis by (simp add: fileModeToUnixMode_def Let_def or.assoc or_numerals)
qed

lemma unix_mode_fields:
  fixes m0 p :: "32 word" and su sg st :: bool
  assumes "m0 \<in> {s_IFDIR, s_IFLNK, s_IFIFO, s_IFSOCK, s_IFBLK, s_IFREG}" "p = mode AND 0x1ff"
  defines "m \<equiv> m0 OR (if su then 0 else s_ISUID) OR (if sg then 0 else s_ISGID) OR (if st then 0 else s_ISVTX) OR p"
  shows "m AND 0x1ff = p" "m AND s_IFMT = m0" "m AND s_ISUID = 0 \<longleftrightarrow> su" "m AND s_ISGID = 0 \<longleftrightarrow> sg"
    "m AND s_ISVTX = 0 \<longleftrightarrow> st"
proof -
  note d = m_def assms(2) bit.conj_disj_distrib2 and.assoc
  show "m AND 0x1ff = p" using assms(1) by (auto simp: d)
  show "m AND s_IFMT = m0" using assms(1) by (auto simp: d)
  show "m AND s_ISUID = 0 \<longleftrightarrow> su" "m AND s_ISGID = 0 \<longleftrightarrow> sg" "m AND s_ISVTX = 0 \<longleftrightarrow> st"
    using assms(1) by (auto simp: d)
qed

lemma plain_mode_parts:
  assumes "plain_mode mode"
  shows "mode = mode AND ModeType OR (if mode AND ModeSetuid = 0 then 0 else ModeSetuid) OR
    (if mode AND ModeSetgid = 0 then 0 else ModeSetgid) OR (if mode AND ModeSticky = 0 then 0 else ModeSticky) OR
    mode AND 0x1ff"
  using assms unfolding plain_mode_def bit.conj_disj_distrib mode_single [symmetric] by simp

lemma unixModeToFileMode_back:
  assumes "plain_mode mode"
  shows "unixModeToFileMode (fileModeToUnixMode mode) = mode"
proof -
  define t where "t = mode AND ModeType"
  define m0 where "m0 = (if t = ModeDir then s_IFDIR else if t = ModeSymlink then s_IFLNK
    else if t = ModeNamedPipe then s_IFIFO else if t = ModeSocket then s_IFSOCK
    else if t = ModeDevice then s_IFBLK else s_IFREG)"
  define m where "m = fileModeToUnixMode mode"
  have t: "t \<in> {0, ModeDir, ModeSymlink, ModeNamedPipe, ModeSocket, ModeDevice}"
    using assms by (simp add: plain_mode_def t_def)
  have m0: "m0 \<in> {s_IFDIR, s_IFLNK, s_IFIFO, s_IFSOCK, s_IFBLK, s_IFREG}" by (simp add: m0_def)
  have m: "m AND 0x1ff = mode AND 0x1ff" "m AND s_IFMT = m0" "m AND s_ISUID = 0 \<longleftrightarrow> mode AND ModeSetuid = 0"
    "m AND s_ISGID = 0 \<longleftrightarrow> mode AND ModeSetgid = 0" "m AND s_ISVTX = 0 \<longleftrightarrow> mode AND ModeSticky = 0"
    using unix_mode_fields [OF m0 refl, of "mode AND ModeSetuid = 0" "mode AND ModeSetgid = 0" "mode AND ModeSticky = 0" mode]
    by (simp_all only: m_def fileModeToUnixMode_type Let_def m0_def t_def)
  have type: "(if m0 = s_IFBLK then p OR ModeDevice else if m0 = s_IFCHR then p OR (ModeDevice OR ModeCharDevice)
      else if m0 = s_IFDIR then p OR ModeDir else if m0 = s_IFIFO then p OR ModeNamedPipe
      else if m0 = s_IFLNK then p OR ModeSymlink else if m0 = s_IFSOCK then p OR ModeSocket else p) = p OR t" for p
    using t by (auto simp: m0_def mode_bits)
  have "unixModeToFileMode m = t OR (if mode AND ModeSetuid = 0 then 0 else ModeSetuid) OR
    (if mode AND ModeSetgid = 0 then 0 else ModeSetgid) OR (if mode AND ModeSticky = 0 then 0 else ModeSticky) OR
    mode AND 0x1ff"
    by (simp add: unixModeToFileMode_def Let_def m type ac_simps)
  then show ?thesis using plain_mode_parts [OF assms] by (simp only: m_def t_def)
qed

text \<open>
  What is stored of any mode: one of five types (any other, a character device too, becomes a regular file), the
  permissions and the three bits.
\<close>

definition kept_mode :: "32 word \<Rightarrow> 32 word" where
  "kept_mode mode =
     (let t = mode AND ModeType in if t \<in> {ModeDir, ModeSymlink, ModeNamedPipe, ModeSocket, ModeDevice} then t else 0)
     OR (mode AND (ModeSetuid OR ModeSetgid OR ModeSticky OR 0x1ff))"

lemma kept_mode_type:
  "kept_mode mode AND ModeType =
    (if mode AND ModeType \<in> {ModeDir, ModeSymlink, ModeNamedPipe, ModeSocket, ModeDevice} then mode AND ModeType else 0)"
  by (simp add: kept_mode_def Let_def mode_bits bit.conj_disj_distrib2 and.assoc)

lemma kept_mode_bits:
  "kept_mode mode AND ModeSetuid = mode AND ModeSetuid" "kept_mode mode AND ModeSetgid = mode AND ModeSetgid"
  "kept_mode mode AND ModeSticky = mode AND ModeSticky" "kept_mode mode AND 0x1ff = mode AND 0x1ff"
  by (auto simp: kept_mode_def Let_def mode_bits bit.conj_disj_distrib2 and.assoc)

lemma plain_kept_mode: "plain_mode (kept_mode mode)"
  unfolding plain_mode_def kept_mode_type
  by (auto simp: kept_mode_def Let_def mode_bits bit.conj_disj_distrib2 and.assoc)

lemma kept_mode_plain: "kept_mode mode = mode \<longleftrightarrow> plain_mode mode"
proof
  assume "plain_mode mode"
  then have "kept_mode mode = mode AND ModeType OR mode AND (ModeSetuid OR ModeSetgid OR ModeSticky OR 0x1ff)"
    by (auto simp: kept_mode_def plain_mode_def Let_def)
  then show "kept_mode mode = mode"
    using \<open>plain_mode mode\<close> unfolding plain_mode_def by (metis bit.conj_disj_distrib)
qed (metis plain_kept_mode)

lemma unixModeToFileMode_kept: "unixModeToFileMode (fileModeToUnixMode mode) = kept_mode mode"
proof -
  have "fileModeToUnixMode (kept_mode mode) = fileModeToUnixMode mode"
    unfolding fileModeToUnixMode_type Let_def kept_mode_bits kept_mode_type
    by (auto simp: mode_bits)
  then show ?thesis using unixModeToFileMode_back [OF plain_kept_mode, of mode] by simp
qed

text \<open>In the header the Unix mode is the upper half of \<open>ExternalAttrs\<close>.\<close>

lemma fileModeToUnixMode_16: "take_bit 16 (fileModeToUnixMode mode) = fileModeToUnixMode mode"
  unfolding fileModeToUnixMode_type Let_def
  by (simp add: take_bit_eq_mask mask_eq_exp_minus_1 bit.conj_disj_distrib2 and.assoc)

lemma upper_half:
  assumes "take_bit 16 m = (m :: 32 word)" "take_bit 16 x = x"
  shows "drop_bit 16 (push_bit 16 m OR x) = m"
proof -
  have "drop_bit 16 x = 0" using assms(2) by (metis drop_bit_take_bit diff_self_eq_0 take_bit_0)
  moreover have "drop_bit 16 (push_bit 16 m) = m"
    using bit_take_bit_iff [of 16 m] assms(1) by (intro bit_word_eqI) (auto simp: bit_simps)
  ultimately show ?thesis by (simp add: drop_bit_or)
qed

lemma Mode_SetMode:
  "Mode (SetMode mode h) =
     (if 0 < length (Name h) \<and> Name h ! (length (Name h) - 1) = 47 then ModeDir else 0) OR
     unixModeToFileMode (fileModeToUnixMode mode)"
proof -
  have c: "drop_bit 8 ((v AND 0xff) OR push_bit 8 3) = (3 :: 16 word)" for v :: "16 word"
    by (simp add: drop_bit_or drop_bit_and)
  have "drop_bit 16 (ExternalAttrs (SetMode mode h)) = fileModeToUnixMode mode"
    using upper_half [OF fileModeToUnixMode_16, of 0] upper_half [OF fileModeToUnixMode_16, of 1]
      upper_half [OF fileModeToUnixMode_16, of 0x10] upper_half [OF fileModeToUnixMode_16, of 0x11]
    by (simp add: SetMode_def Let_def or.assoc)
  then show ?thesis by (simp add: Mode_def SetMode_def Let_def c or.commute)
qed

end
