(* ===== verification/Zip_Keys.thy ===== *)
theory Zip_Keys imports Zip_Header begin

text \<open>
  \<open>tools/zip/zipcrypto.go\<close>: the stream cipher of PKWARE, without its writer and reader, which are with the others.
  \<open>hash/crc32\<close> of the standard library: its table, and the checksum of bytes that arrive in pieces.
\<close>

section \<open>CRC-32\<close>

definition crc_shift :: "32 word \<Rightarrow> 32 word" where
  "crc_shift c = (if c AND 1 = 1 then drop_bit 1 c XOR 0xedb88320 else drop_bit 1 c)"

definition IEEETable :: "32 word \<Rightarrow> 32 word" where
  "IEEETable i = (crc_shift ^^ 8) i"

definition crc32update :: "32 word \<Rightarrow> byte \<Rightarrow> 32 word" where
  "crc32update pCrc32 bval = IEEETable ((pCrc32 XOR ucast bval) AND 0xff) XOR drop_bit 8 pCrc32"

text \<open>\<open>crc32.NewIEEE\<close>, \<open>Write\<close> and \<open>Sum32\<close>: the state is the sum so far.\<close>

definition crc_new :: "32 word" where
  "crc_new = 0"

definition crc_Write :: "bytes \<Rightarrow> 32 word \<Rightarrow> 32 word" where
  "crc_Write p c = NOT (fold (\<lambda>b c. crc32update c b) p (NOT c))"

definition crc_sum :: "bytes \<Rightarrow> 32 word" where
  "crc_sum p = crc_Write p crc_new"

lemma crc_Write_append [simp]: "crc_Write (p @ q) c = crc_Write q (crc_Write p c)"
  by (simp add: crc_Write_def)

lemma crc_Write_Nil [simp]: "crc_Write [] c = c"
  by (simp add: crc_Write_def)

lemma crc_sum_append: "crc_Write q (crc_sum p) = crc_sum (p @ q)"
  by (simp add: crc_sum_def)

section \<open>The cipher\<close>

text \<open>\<open>Keys\<close>, an array of three.\<close>

record ZipCrypto =
  zpassword :: bytes
  key0 :: "32 word"
  key1 :: "32 word"
  key2 :: "32 word"

definition updateKeys :: "byte \<Rightarrow> ZipCrypto \<Rightarrow> ZipCrypto" where
  "updateKeys byteValue z =
     (let k0 = crc32update (key0 z) byteValue;
          k1 = key1 z + (k0 AND 0xff);
          k1 = k1 * 134775813 + 1;
          k2 = crc32update (key2 z) (ucast (drop_bit 24 k1))
      in z\<lparr>key0 := k0, key1 := k1, key2 := k2\<rparr>)"

definition zc_init :: "ZipCrypto \<Rightarrow> ZipCrypto" where
  "zc_init z =
     fold updateKeys (zpassword z) (z\<lparr>key0 := 0x12345678, key1 := 0x23456789, key2 := 0x34567890\<rparr>)"

definition NewZipCrypto :: "bytes \<Rightarrow> ZipCrypto" where
  "NewZipCrypto passphrase = zc_init \<lparr>zpassword = passphrase, key0 = 0, key1 = 0, key2 = 0\<rparr>"

definition magicByte :: "ZipCrypto \<Rightarrow> byte" where
  "magicByte z = (let t = key2 z OR 2 in ucast (drop_bit 8 (t * (t XOR 1))))"

text \<open>The loops of \<open>Encrypt\<close> and \<open>Decrypt\<close>, over the bytes that are left.\<close>

fun zc_Encrypt :: "bytes \<Rightarrow> ZipCrypto \<Rightarrow> bytes \<times> ZipCrypto" where
  "zc_Encrypt [] z = ([], z)"
| "zc_Encrypt (v # data) z =
     (let c = v XOR magicByte z; (cs, z) = zc_Encrypt data (updateKeys v z) in (c # cs, z))"

fun zc_Decrypt :: "bytes \<Rightarrow> ZipCrypto \<Rightarrow> bytes \<times> ZipCrypto" where
  "zc_Decrypt [] z = ([], z)"
| "zc_Decrypt (c # chiper) z =
     (let v = c XOR magicByte z; (vs, z) = zc_Decrypt chiper (updateKeys v z) in (v # vs, z))"

section \<open>One undoes the other\<close>

lemma zc_Decrypt_Encrypt: "zc_Decrypt (fst (zc_Encrypt data z)) z = (data, snd (zc_Encrypt data z))"
proof (induction data arbitrary: z)
  case (Cons v data)
  have "(v XOR magicByte z) XOR magicByte z = v" by (simp add: xor.assoc)
  then show ?case by (simp add: Let_def split_beta Cons.IH)
qed simp

lemma length_zc_Encrypt [simp]: "length (fst (zc_Encrypt data z)) = length data"
  by (induction data arbitrary: z) (simp_all add: Let_def split_beta)

lemma zc_Encrypt_append:
  "zc_Encrypt (p @ q) z =
     (fst (zc_Encrypt p z) @ fst (zc_Encrypt q (snd (zc_Encrypt p z))), snd (zc_Encrypt q (snd (zc_Encrypt p z))))"
  by (induction p arbitrary: z) (simp_all add: Let_def split_beta)

lemma zpassword_updateKeys [simp]: "zpassword (updateKeys b z) = zpassword z"
  by (simp add: updateKeys_def Let_def)

lemma zpassword_fold [simp]: "zpassword (fold updateKeys p z) = zpassword z"
  by (induction p arbitrary: z) simp_all

lemma zpassword_Encrypt [simp]: "zpassword (snd (zc_Encrypt data z)) = zpassword z"
  by (induction data arbitrary: z) (simp_all add: Let_def split_beta)

text \<open>\<open>init\<close> forgets what has been encrypted.\<close>

lemma zc_init_again:
  "zpassword z = pw \<Longrightarrow> zc_init z = NewZipCrypto pw"
  by (cases z) (simp add: zc_init_def NewZipCrypto_def)

lemma zpassword_New [simp]: "zpassword (NewZipCrypto pw) = pw"
  by (simp add: NewZipCrypto_def zc_init_def)

end
