(* ===== verification/Zip_Ctr.thy ===== *)
theory Zip_Ctr imports Prelude begin

text \<open>
  The counter mode of \<open>tools/zip/crypto.go\<close>, over AES, whose blocks are 16 bytes; \<open>E\<close> is the cipher under its key.
  The slice \<open>out\<close> has room for 512 bytes; those beyond its length are not read before they are written.
\<close>

section \<open>The stream\<close>

record ctr =
  ctr_ctr :: bytes
  ctr_out :: bytes
  outUsed :: nat

abbreviation (input) streamBufferSize :: nat where "streamBufferSize \<equiv> 512"
abbreviation (input) BlockSize :: nat where "BlockSize \<equiv> 16"

text \<open>\<open>Encrypt\<close> stores one block.\<close>

definition E_block :: "(bytes \<Rightarrow> bytes) \<Rightarrow> bytes \<Rightarrow> bytes" where
  "E_block E c = take BlockSize (E c @ replicate BlockSize 0)"

definition newWinZipCTR :: ctr where
  "newWinZipCTR = \<lparr>ctr_ctr = (replicate BlockSize 0)[0 := 1], ctr_out = [], outUsed = 0\<rparr>"

text \<open>\<open>for i := 0; i < len(x.ctr); i++ { x.ctr[i]++; if x.ctr[i] != 0 { break } }\<close>\<close>

fun ctr_inc :: "bytes \<Rightarrow> bytes" where
  "ctr_inc [] = []"
| "ctr_inc (c # cs) = (if c + 1 \<noteq> 0 then (c + 1) # cs else (c + 1) # ctr_inc cs)"

lemma length_E_block [simp]: "length (E_block E c) = 16"
  by (simp add: E_block_def)

text \<open>The loop of \<open>refill\<close>: \<open>out\<close> are the first \<open>remain\<close> bytes; the length of the slice is its capacity there.\<close>

function refill_loop :: "(bytes \<Rightarrow> bytes) \<Rightarrow> bytes \<Rightarrow> bytes \<Rightarrow> bytes \<times> bytes" where
  "refill_loop E out c =
     (if length out < streamBufferSize - BlockSize
      then refill_loop E (out @ E_block E c) (ctr_inc c)
      else (out, c))"
  by auto
termination by (relation "measure (\<lambda>(E, out, c). 512 - length out)") auto

declare refill_loop.simps [simp del]

definition refill :: "(bytes \<Rightarrow> bytes) \<Rightarrow> ctr \<Rightarrow> ctr" where
  "refill E x =
     (let remain = length (ctr_out x) - outUsed x
      in if remain > outUsed x then x
         else let (out, c) = refill_loop E (drop (outUsed x) (ctr_out x)) (ctr_ctr x)
              in \<lparr>ctr_ctr = c, ctr_out = out, outUsed = 0\<rparr>)"

text \<open>\<open>xorBytes\<close>: the bytes it stores; their number is what it returns.\<close>

definition xorBytes :: "bytes \<Rightarrow> bytes \<Rightarrow> bytes" where
  "xorBytes a b = map2 (XOR) a b"

lemma length_xorBytes [simp]: "length (xorBytes a b) = min (length a) (length b)"
  by (simp add: xorBytes_def)

lemma refill_loop_length: "496 \<le> length (fst (refill_loop E out c))"
  by (induction E out c rule: refill_loop.induct) (subst refill_loop.simps, simp)

definition ready :: "(bytes \<Rightarrow> bytes) \<Rightarrow> ctr \<Rightarrow> ctr" where
  "ready E x = (if int (outUsed x) \<ge> int (length (ctr_out x)) - int BlockSize then refill E x else x)"

lemma ready_nonempty: "outUsed (ready E x) < length (ctr_out (ready E x))"
  using refill_loop_length [of E "drop (outUsed x) (ctr_out x)" "ctr_ctr x"]
  by (auto simp: ready_def refill_def Let_def split: prod.splits)

text \<open>The bytes stored in \<open>dst\<close>, and the stream afterwards.\<close>

function XORKeyStream :: "(bytes \<Rightarrow> bytes) \<Rightarrow> bytes \<Rightarrow> ctr \<Rightarrow> bytes \<times> ctr" where
  "XORKeyStream E src x =
     (if 0 < length src
      then let x = ready E x;
               o1 = xorBytes src (drop (outUsed x) (ctr_out x));
               n = length o1;
               (o2, x) = XORKeyStream E (drop n src) (x\<lparr>outUsed := outUsed x + n\<rparr>)
           in (o1 @ o2, x)
      else ([], x))"
  by auto
termination
  by (relation "measure (\<lambda>(E, src, x). length src)") (auto simp: ready_nonempty)

declare XORKeyStream.simps [simp del]

section \<open>The key stream\<close>

text \<open>
  The reference: block \<open>i\<close> is the encryption of the number \<open>i + 1\<close> in 16 bytes, the least significant first, and the
  byte at a position of the stream is that of its block.
\<close>

definition le_counter :: "nat \<Rightarrow> bytes" where
  "le_counter n = map (\<lambda>i. of_nat (n div 256 ^ i)) [0..<BlockSize]"

definition keystream :: "(bytes \<Rightarrow> bytes) \<Rightarrow> nat \<Rightarrow> byte" where
  "keystream E i = E_block E (le_counter (i div BlockSize + 1)) ! (i mod BlockSize)"

definition xor_stream :: "(bytes \<Rightarrow> bytes) \<Rightarrow> nat \<Rightarrow> bytes \<Rightarrow> bytes" where
  "xor_stream E pos p = map (\<lambda>i. p ! i XOR keystream E (pos + i)) [0..<length p]"

lemma ctr_inc_digits:
  "ctr_inc (map (\<lambda>i. of_nat (n div 256 ^ i)) [0..<k]) = map (\<lambda>i. of_nat ((n + 1) div 256 ^ i) :: byte) [0..<k]"
proof (induction k arbitrary: n)
  case (Suc k)
  have shift: "map (\<lambda>i. of_nat (m div 256 ^ i) :: byte) [0..<Suc k]
      = of_nat m # map (\<lambda>i. of_nat (m div 256 div 256 ^ i)) [0..<k]" for m :: nat
    by (simp add: upt_conv_Cons map_Suc_upt [symmetric] comp_def div_mult2_eq del: upt_Suc)
  have inc: "(of_nat n :: byte) + 1 = of_nat (n + 1)" by simp
  have zero: "(of_nat (n + 1) :: byte) = 0 \<longleftrightarrow> 256 dvd n + 1"
    using word_of_nat_eq_0_iff [where 'a = 8, of "n + 1"] by simp
  have quot: "(n + 1) div 256 = (if 256 dvd n + 1 then n div 256 + 1 else n div 256)"
    by (auto simp: div_Suc dvd_eq_mod_eq_0)
  show ?case unfolding shift ctr_inc.simps inc zero quot using Suc.IH [of "n div 256"] by simp
qed simp

lemma ctr_inc_counter: "ctr_inc (le_counter n) = le_counter (n + 1)"
  unfolding le_counter_def by (rule ctr_inc_digits)

lemma newWinZipCTR_counter: "ctr_ctr newWinZipCTR = le_counter 1"
proof (rule nth_equalityI)
  fix i assume "i < length (ctr_ctr newWinZipCTR)"
  moreover have "Suc 0 div 256 ^ i = (if i = 0 then 1 else 0)"
    using one_less_power [of "256 :: nat" i] by (simp add: div_less)
  ultimately show "ctr_ctr newWinZipCTR ! i = le_counter 1 ! i"
    by (simp add: newWinZipCTR_def le_counter_def nth_list_update)
qed (simp add: newWinZipCTR_def le_counter_def)

text \<open>The stream at position \<open>pos\<close>: the unused bytes are the next of the key stream, up to the last block made.\<close>

definition ctr_at :: "(bytes \<Rightarrow> bytes) \<Rightarrow> nat \<Rightarrow> ctr \<Rightarrow> bool" where
  "ctr_at E pos x \<longleftrightarrow> outUsed x \<le> length (ctr_out x) \<and>
     (\<exists>k. ctr_ctr x = le_counter (k + 1) \<and> pos + (length (ctr_out x) - outUsed x) = BlockSize * k \<and>
       drop (outUsed x) (ctr_out x) = map (\<lambda>i. keystream E (pos + i)) [0..<length (ctr_out x) - outUsed x])"

lemma keystream_block: "map (\<lambda>i. keystream E (16 * k + i)) [0..<16] = E_block E (le_counter (k + 1))"
  by (rule nth_equalityI) (simp_all add: keystream_def)

lemma keystream_extend:
  assumes "pos + n = 16 * k"
  shows "map (\<lambda>i. keystream E (pos + i)) [0..<n] @ E_block E (le_counter (k + 1))
    = map (\<lambda>i. keystream E (pos + i)) [0..<n + 16]"
proof -
  have "[0..<n + 16] = [0..<n] @ map (\<lambda>i. n + i) [0..<16]"
    by (simp add: upt_add_eq_append [of 0 n 16] map_add_upt add.commute)
  then show ?thesis
    using assms keystream_block [of E k] by (simp add: comp_def add.assoc [symmetric])
qed

lemma refill_loop_at:
  assumes "c = le_counter (k + 1)" "pos + length out = 16 * k" "out = map (\<lambda>i. keystream E (pos + i)) [0..<length out]"
  shows "ctr_at E pos \<lparr>ctr_ctr = snd (refill_loop E out c), ctr_out = fst (refill_loop E out c), outUsed = 0\<rparr>"
  using assms
proof (induction E out c arbitrary: k rule: refill_loop.induct)
  case (1 E out c)
  show ?case
  proof (cases "length out < 496")
    case True
    have "out @ E_block E c = map (\<lambda>i. keystream E (pos + i)) [0..<length (out @ E_block E c)]"
      using 1(3,4) keystream_extend [of pos "length out" k E] by (simp add: 1(2))
    moreover have "pos + length (out @ E_block E c) = 16 * (k + 1)" using 1(3) by simp
    ultimately show ?thesis
      using 1(1) [OF _ _ , of "k + 1"] True
      by (subst (1 2) refill_loop.simps) (simp add: 1(2) ctr_inc_counter)
  next
    case False
    then show ?thesis
      using 1(2-4) by (subst (1 2) refill_loop.simps) (auto simp: ctr_at_def)
  qed
qed

lemma ctr_at_ready: "ctr_at E pos x \<Longrightarrow> ctr_at E pos (ready E x)"
  using refill_loop_at [of "ctr_ctr x" _ pos "drop (outUsed x) (ctr_out x)" E]
  by (auto simp: ready_def refill_def ctr_at_def Let_def split: prod.splits)

lemma ctr_at_new: "ctr_at E 0 newWinZipCTR"
  unfolding ctr_at_def newWinZipCTR_counter by (auto simp: newWinZipCTR_def)

lemma ctr_at_used:
  assumes "ctr_at E pos x" "outUsed x + n \<le> length (ctr_out x)"
  shows "ctr_at E (pos + n) (x\<lparr>outUsed := outUsed x + n\<rparr>)"
proof -
  from assms(1) obtain k where k: "ctr_ctr x = le_counter (k + 1)" "pos + (length (ctr_out x) - outUsed x) = BlockSize * k"
    "drop (outUsed x) (ctr_out x) = map (\<lambda>i. keystream E (pos + i)) [0..<length (ctr_out x) - outUsed x]"
    by (auto simp: ctr_at_def)
  have "drop (outUsed x + n) (ctr_out x) = drop n (drop (outUsed x) (ctr_out x))" by (simp add: add.commute)
  also have "\<dots> = map (\<lambda>i. keystream E (pos + n + i)) [0..<length (ctr_out x) - (outUsed x + n)]"
    unfolding k(3) by (rule nth_equalityI) (auto simp: add.assoc less_diff_conv)
  finally show ?thesis using k(1,2) assms(2) by (auto simp: ctr_at_def intro!: exI [of _ k])
qed

lemma xor_stream_Nil [simp]: "xor_stream E pos [] = []"
  by (simp add: xor_stream_def)

lemma length_xor_stream [simp]: "length (xor_stream E pos p) = length p"
  by (simp add: xor_stream_def)

lemma xor_stream_append: "xor_stream E pos (p @ q) = xor_stream E pos p @ xor_stream E (pos + length p) q"
  by (rule nth_equalityI) (auto simp: xor_stream_def nth_append add.assoc)

lemma xor_stream_twice: "xor_stream E pos (xor_stream E pos p) = p"
  by (rule nth_equalityI) (simp_all add: xor_stream_def xor.assoc)

text \<open>Whatever the pieces, the bytes are combined with the key stream at their position.\<close>

lemma XORKeyStream_at:
  assumes "ctr_at E pos x"
  shows "fst (XORKeyStream E src x) = xor_stream E pos src \<and> ctr_at E (pos + length src) (snd (XORKeyStream E src x))"
  using assms
proof (induction E src x arbitrary: pos rule: XORKeyStream.induct)
  case (1 E src x)
  show ?case
  proof (cases "src = []")
    case True
    then show ?thesis using 1(2) by (subst (1 2) XORKeyStream.simps) simp
  next
    case False
    define y where "y = ready E x"
    define o1 where "o1 = xorBytes src (drop (outUsed y) (ctr_out y))"
    define n where "n = length o1"
    have y: "ctr_at E pos y" using ctr_at_ready [OF 1(2)] by (simp add: y_def)
    have n: "outUsed y + n \<le> length (ctr_out y)" "n \<le> length src"
      using y by (auto simp: n_def o1_def ctr_at_def)
    have "drop (outUsed y) (ctr_out y) = map (\<lambda>i. keystream E (pos + i)) [0..<length (ctr_out y) - outUsed y]"
      using y by (auto simp: ctr_at_def)
    then have o1: "o1 = xor_stream E pos (take n src)"
      unfolding n_def by (intro nth_equalityI) (auto simp: o1_def xorBytes_def xor_stream_def)
    have "ctr_at E (pos + n) (y\<lparr>outUsed := outUsed y + n\<rparr>)" using y n(1) by (rule ctr_at_used)
    then have IH: "fst (XORKeyStream E (drop n src) (y\<lparr>outUsed := outUsed y + n\<rparr>)) = xor_stream E (pos + n) (drop n src)"
      "ctr_at E (pos + n + length (drop n src)) (snd (XORKeyStream E (drop n src) (y\<lparr>outUsed := outUsed y + n\<rparr>)))"
      using 1(1) [OF _ y_def o1_def n_def] False by auto
    have "XORKeyStream E src x = (o1 @ fst (XORKeyStream E (drop n src) (y\<lparr>outUsed := outUsed y + n\<rparr>)),
        snd (XORKeyStream E (drop n src) (y\<lparr>outUsed := outUsed y + n\<rparr>)))"
      using False by (subst XORKeyStream.simps) (simp add: Let_def split_beta y_def o1_def n_def del: length_xorBytes)
    then show ?thesis
      using IH n(2) xor_stream_append [of E pos "take n src" "drop n src"] by (simp add: o1)
  qed
qed

end
