(* ===== verification/Zip_Writer.thy ===== *)
theory Zip_Writer imports Zip_Keys Zip_Ctr begin

text \<open>
  \<open>tools/zip/writer.go\<close> and the writing side of \<open>crypto.go\<close>, \<open>zipcrypto.go\<close> and \<open>register.go\<close>. The destination under the
  \<open>bufio.Writer\<close> may fail: \<open>room\<close> is how many more bytes go in before the failure shows, \<^const>\<open>None\<close> if it never does.
  AES, HMAC-SHA1, PBKDF2 and the compressors other than \<open>Store\<close> are parameters; the random salt is an argument.
  Headers are shared by pointer: they are in a heap, and the directory and a file writer hold their addresses. A panic
  is \<^const>\<open>None\<close>.
\<close>

datatype zip_error =
    ErrFormat
  | ErrAlgorithm
  | ErrChecksum
  | ErrDecryption
  | ErrPassword
  | ErrAuthentication
  | ErrKeySize
  | ErrSalt
  | ErrSaltPwv
  | ErrAuthcode
  | ErrCompressor
  | ErrShortWrite
  | ErrWrite
  | ErrWriterClosed
  | ErrFileClosed
  | ErrFileClosedTwice
  | ErrDuplicateHeader
  | ErrImpossibleCount "64 word" int
  | ErrCommentLength
  | ErrNegativeOffset
  | EOF
  | ErrUnexpectedEOF

section \<open>Parameters\<close>

record crypto =
  pbkdf2 :: "bytes \<Rightarrow> bytes \<Rightarrow> nat \<Rightarrow> nat \<Rightarrow> bytes"
  hmac_sha1 :: "bytes \<Rightarrow> bytes \<Rightarrow> bytes"
  aes_encrypt :: "bytes \<Rightarrow> bytes \<Rightarrow> bytes"

text \<open>
  A compressor that is not \<open>Store\<close>: its state at the start (\<^const>\<open>None\<close> if it cannot be made), and the pieces that
  it passes on when it is given bytes and when it is closed.
\<close>

record 'c compressor =
  c_new :: "'c option"
  c_write :: "'c \<Rightarrow> bytes \<Rightarrow> 'c \<times> bytes list"
  c_close :: "'c \<Rightarrow> bytes list"

text \<open>The registry: \<open>Store\<close> passes its bytes on as they come (\<open>nopCloser\<close>).\<close>

datatype 'c registered =
    NopCloser
  | Compressor "'c compressor"

definition RegisterCompressor ::
  "16 word \<Rightarrow> 'c compressor \<Rightarrow> (16 word \<rightharpoonup> 'c registered) \<Rightarrow> (16 word \<rightharpoonup> 'c registered) option" where
  "RegisterCompressor method cmp reg =
     (if reg method \<noteq> None then None else Some (reg(method \<mapsto> Compressor cmp)))"

definition builtin_compressors :: "'c compressor \<Rightarrow> (16 word \<rightharpoonup> 'c registered)" where
  "builtin_compressors flate = [Store \<mapsto> NopCloser, Deflate \<mapsto> Compressor flate]"

section \<open>The destination\<close>

record countWriter =
  out :: bytes
  room :: "nat option"
  failed :: bool
  cwCount :: int

definition cw_Write :: "bytes \<Rightarrow> countWriter \<Rightarrow> countWriter \<times> int \<times> zip_error option" where
  "cw_Write p cw =
     (if failed cw then (cw, 0, Some ErrWrite)
      else
        case room cw of
          None \<Rightarrow> (cw\<lparr>out := out cw @ p, cwCount := cwCount cw + int (length p)\<rparr>, int (length p), None)
        | Some r \<Rightarrow>
            if length p \<le> r
            then (cw\<lparr>out := out cw @ p, room := Some (r - length p), cwCount := cwCount cw + int (length p)\<rparr>,
                  int (length p), None)
            else (cw\<lparr>out := out cw @ take r p, room := Some 0, failed := True, cwCount := cwCount cw + int r\<rparr>,
                  int r, Some ErrWrite))"

section \<open>A file that is written\<close>

text \<open>\<open>hmac\<close> is its key and the bytes written to it. \<open>compErr\<close> is the error a compressor has kept.\<close>

record encryptionWriter =
  ew_pwv :: bytes
  ew_salt :: bytes
  ew_key :: bytes
  ew_stream :: ctr
  ew_first :: bool
  ew_err :: "zip_error option"

datatype layer =
    NoLayer
  | ZipCryptoLayer ZipCrypto bool
  | AesLayer encryptionWriter

record 'c fileWriter =
  fwHeader :: nat
  rawCount :: int
  compCount :: int
  crc32 :: "32 word"
  fwClosed :: bool
  hmac :: "(bytes \<times> bytes) option"
  fwLayer :: layer
  fwComp :: "'c registered"
  compState :: "'c option"
  compErr :: "zip_error option"

type_synonym 'c io = "'c fileWriter \<times> countWriter"
type_synonym 'c wrote = "'c io \<times> int \<times> zip_error option"

definition comp_count_Write :: "bytes \<Rightarrow> 'c io \<Rightarrow> 'c wrote" where
  "comp_count_Write p s =
     (let (fw, cw) = s; (cw, n, e) = cw_Write p cw
      in ((fw\<lparr>compCount := compCount fw + n\<rparr>, cw), n, e))"

definition auth_Write :: "bytes \<Rightarrow> 'c io \<Rightarrow> 'c wrote" where
  "auth_Write p s =
     (let (fw, cw) = s
      in comp_count_Write p (fw\<lparr>hmac := map_option (\<lambda>(k, d). (k, d @ p)) (hmac fw)\<rparr>, cw))"

text \<open>\<open>cipher.StreamWriter\<close> on top of the authentication.\<close>

definition stream_Write :: "crypto \<Rightarrow> encryptionWriter \<Rightarrow> bytes \<Rightarrow> 'c io \<Rightarrow> encryptionWriter \<times> 'c wrote" where
  "stream_Write cr ew p s =
     (let (c, x) = XORKeyStream (aes_encrypt cr (ew_key ew)) p (ew_stream ew);
          (s, n, e) = auth_Write c s;
          e = (if n \<noteq> int (length p) \<and> e = None then Some ErrShortWrite else e)
      in (ew\<lparr>ew_stream := x\<rparr>, s, n, e))"

definition encryption_Write :: "crypto \<Rightarrow> encryptionWriter \<Rightarrow> bytes \<Rightarrow> 'c io \<Rightarrow> encryptionWriter \<times> 'c wrote" where
  "encryption_Write cr ew p s =
     (case ew_err ew of
        Some e \<Rightarrow> (ew, s, 0, Some e)
      | None \<Rightarrow>
          if ew_first ew
          then
            let (s, _, err1) = comp_count_Write (ew_salt ew) s;
                (s, _, err2) = comp_count_Write (ew_pwv ew) s
            in if err1 \<noteq> None \<or> err2 \<noteq> None
               then (ew\<lparr>ew_err := Some ErrSaltPwv\<rparr>, s, 0, Some ErrSaltPwv)
               else stream_Write cr (ew\<lparr>ew_first := False\<rparr>) p s
          else stream_Write cr ew p s)"

text \<open>
  \<open>zipCryptoWriter.Write\<close>; \<open>t\<close> is the header's time. The errors of the two writes are dropped, and the count
  that is returned is that of the encryption header only.
\<close>

definition zip_crypto_header :: bytes where
  "zip_crypto_header = [0xF8, 0x53, 0xCF, 0x05, 0x2D, 0xDD, 0xAD, 0xC8, 0x66, 0x3F, 0x8C, 0xAC]"

definition zip_crypto_Write :: "16 word \<Rightarrow> ZipCrypto \<Rightarrow> bool \<Rightarrow> bytes \<Rightarrow> 'c io \<Rightarrow> ZipCrypto \<times> 'c wrote" where
  "zip_crypto_Write t z first p s =
     (let (z, s, n) =
        (if first
         then
           let (h, z) = zc_Encrypt zip_crypto_header z;
               h = h[10 := ucast t, 11 := ucast (drop_bit 8 t)];
               (h, z) = zc_Encrypt h (zc_init z);
               (s, _, _) = comp_count_Write h s
           in (z, s, 12)
         else (z, s, 0));
          (c, z) = zc_Encrypt p z;
          (s, _, _) = comp_count_Write c s
      in (z, s, n, None))"

text \<open>\<open>sw.Write(p)\<close>, where \<open>sw\<close> is what the compressor writes to.\<close>

definition layer_Write :: "crypto \<Rightarrow> 16 word \<Rightarrow> bytes \<Rightarrow> 'c io \<Rightarrow> 'c wrote" where
  "layer_Write cr t p s =
     (case fwLayer (fst s) of
        NoLayer \<Rightarrow> comp_count_Write p s
      | ZipCryptoLayer z first \<Rightarrow>
          let (z, (fw, cw), n, e) = zip_crypto_Write t z first p s
          in ((fw\<lparr>fwLayer := ZipCryptoLayer z False\<rparr>, cw), n, e)
      | AesLayer ew \<Rightarrow>
          let (ew, (fw, cw), n, e) = encryption_Write cr ew p s
          in ((fw\<lparr>fwLayer := AesLayer ew\<rparr>, cw), n, e))"

fun emit :: "crypto \<Rightarrow> 16 word \<Rightarrow> bytes list \<Rightarrow> 'c io \<Rightarrow> 'c io \<times> zip_error option" where
  "emit cr t [] s = (s, None)"
| "emit cr t (p # ps) s =
     (case layer_Write cr t p s of
        (s, _, Some e) \<Rightarrow> (s, Some e)
      | (s, _, None) \<Rightarrow> emit cr t ps s)"

text \<open>\<open>comp.Write(p)\<close> and \<open>comp.Close()\<close>.\<close>

definition comp_Write :: "crypto \<Rightarrow> 16 word \<Rightarrow> bytes \<Rightarrow> 'c io \<Rightarrow> 'c wrote" where
  "comp_Write cr t p s =
     (case (fwComp (fst s), compState (fst s), compErr (fst s)) of
        (Compressor c, Some st, None) \<Rightarrow>
          let (st, ps) = c_write c st p;
              ((fw, cw), e) = emit cr t ps s
          in ((fw\<lparr>compState := Some st, compErr := e\<rparr>, cw), if e = None then int (length p) else 0, e)
      | (Compressor c, _, Some e) \<Rightarrow> (s, 0, Some e)
      | (Compressor c, None, None) \<Rightarrow> (s, 0, Some ErrCompressor)
      | (NopCloser, _, _) \<Rightarrow> layer_Write cr t p s)"

definition comp_Close :: "crypto \<Rightarrow> 16 word \<Rightarrow> 'c io \<Rightarrow> 'c io \<times> zip_error option" where
  "comp_Close cr t s =
     (case (fwComp (fst s), compState (fst s), compErr (fst s)) of
        (Compressor c, Some st, None) \<Rightarrow> emit cr t (c_close c st) s
      | (Compressor c, _, Some e) \<Rightarrow> (s, Some e)
      | (Compressor c, None, None) \<Rightarrow> (s, None)
      | (NopCloser, _, _) \<Rightarrow> (s, None))"

section \<open>The writer\<close>

text \<open>\<open>heap\<close> are the headers, at addresses below \<open>nheaders\<close>; a directory entry is an address and an offset.\<close>

record 'c zwriter =
  zcw :: countWriter
  zdir :: "(nat \<times> 64 word) list"
  zlast :: "'c fileWriter option"
  zclosed :: bool
  heap :: "nat \<Rightarrow> FileHeader"
  nheaders :: nat

definition NewWriter :: "nat option \<Rightarrow> 'c zwriter" where
  "NewWriter r =
     \<lparr>zcw = \<lparr>out = [], room = r, failed = False, cwCount = 0\<rparr>, zdir = [], zlast = None, zclosed = False,
      heap = (\<lambda>_. zero_FileHeader), nheaders = 0\<rparr>"

definition SetOffset :: "int \<Rightarrow> 'c zwriter \<Rightarrow> 'c zwriter option" where
  "SetOffset n w =
     (if cwCount (zcw w) \<noteq> 0 then None else Some (w\<lparr>zcw := (zcw w)\<lparr>cwCount := n\<rparr>\<rparr>))"

text \<open>\<open>bufio.Writer.Flush\<close>; \<open>e\<close> is the error of the destination then, if no other came before.\<close>

definition Flush :: "zip_error option \<Rightarrow> 'c zwriter \<Rightarrow> 'c zwriter \<times> zip_error option" where
  "Flush e w = (w, if failed (zcw w) then Some ErrWrite else e)"

text \<open>A caller makes a header.\<close>

definition add_header :: "FileHeader \<Rightarrow> 'c zwriter \<Rightarrow> nat \<times> 'c zwriter" where
  "add_header fh w = (nheaders w, w\<lparr>heap := (heap w)(nheaders w := fh), nheaders := nheaders w + 1\<rparr>)"

text \<open>Writes one after the other, as long as there is no error.\<close>

fun write_all :: "bytes list \<Rightarrow> countWriter \<Rightarrow> countWriter \<times> zip_error option" where
  "write_all [] cw = (cw, None)"
| "write_all (p # ps) cw =
     (case cw_Write p cw of
        (cw, _, Some e) \<Rightarrow> (cw, Some e)
      | (cw, _, None) \<Rightarrow> write_all ps cw)"

definition file_Write :: "crypto \<Rightarrow> bytes \<Rightarrow> 'c zwriter \<Rightarrow> 'c zwriter \<times> int \<times> zip_error option" where
  "file_Write cr p w =
     (case zlast w of
        None \<Rightarrow> (w, 0, Some ErrFileClosed)
      | Some fw \<Rightarrow>
          if fwClosed fw then (w, 0, Some ErrFileClosed)
          else
            let ((fw, cw), n, e) =
                  comp_Write cr (ModifiedTime (heap w (fwHeader fw))) p (fw\<lparr>crc32 := crc_Write p (crc32 fw)\<rparr>, zcw w)
            in (w\<lparr>zlast := Some (fw\<lparr>rawCount := rawCount fw + n\<rparr>), zcw := cw\<rparr>, n, e))"

definition descriptor_buf :: "FileHeader \<Rightarrow> bytes option" where
  "descriptor_buf fh =
     writeBuf (if isZip64 fh then dataDescriptor64Len else dataDescriptorLen)
       ([wb_uint32 dataDescriptorSignature, wb_uint32 (CRC32 fh)] @
        (if isZip64 fh then [wb_uint64 (CompressedSize64 fh), wb_uint64 (UncompressedSize64 fh)]
         else [wb_uint32 (CompressedSize fh), wb_uint32 (UncompressedSize fh)]))"

definition aes_encrypted :: "FileHeader \<Rightarrow> bool" where
  "aes_encrypted fh \<longleftrightarrow> IsEncrypted fh \<and> encryption fh \<noteq> StandardEncryption"

text \<open>The header after the file is written: the sum and the counts of the file writer.\<close>

definition sized_header :: "32 word \<Rightarrow> int \<Rightarrow> int \<Rightarrow> FileHeader \<Rightarrow> FileHeader" where
  "sized_header crc ccount rcount fh =
     (let fh = (if \<not> IsEncrypted fh \<or> encryption fh = StandardEncryption then fh\<lparr>CRC32 := crc\<rparr> else fh);
          fh = fh\<lparr>CompressedSize64 := word_of_int ccount, UncompressedSize64 := word_of_int rcount\<rparr>
      in if isZip64 fh
         then fh\<lparr>CompressedSize := word_of_int uint32max, UncompressedSize := word_of_int uint32max,
                 ReaderVersion := zipVersion45\<rparr>
         else fh\<lparr>CompressedSize := ucast (CompressedSize64 fh), UncompressedSize := ucast (UncompressedSize64 fh)\<rparr>)"

text \<open>\<open>fileWriter.close\<close>; \<open>hmac\<close> is there for a file encrypted by AES, otherwise the call is on nil.\<close>

definition close_authcode :: "crypto \<Rightarrow> FileHeader \<Rightarrow> 'c io \<Rightarrow> ('c io \<times> zip_error option) option" where
  "close_authcode cr fh s =
     (if aes_encrypted fh
      then
        case hmac (fst s) of
          None \<Rightarrow> None
        | Some (k, d) \<Rightarrow>
            let (s, _, e) = comp_count_Write (take 10 (hmac_sha1 cr k d)) s
            in Some (s, map_option (\<lambda>_. ErrAuthcode) e)
      else Some (s, None))"

definition file_close :: "crypto \<Rightarrow> 'c fileWriter \<Rightarrow> 'c zwriter \<Rightarrow> ('c zwriter \<times> zip_error option) option" where
  "file_close cr fw w =
     (if fwClosed fw then Some (w, Some ErrFileClosedTwice)
      else
        let fh = heap w (fwHeader fw);
            ((fw, cw), e) = comp_Close cr (ModifiedTime fh) (fw\<lparr>fwClosed := True\<rparr>, zcw w);
            w = w\<lparr>zlast := Some fw, zcw := cw\<rparr>
        in case e of
             Some e \<Rightarrow> Some (w, Some e)
           | None \<Rightarrow>
               (case close_authcode cr fh (fw, cw) of
                  None \<Rightarrow> None
                | Some ((fw, cw), Some e) \<Rightarrow> Some (w\<lparr>zlast := Some fw, zcw := cw\<rparr>, Some e)
                | Some ((fw, cw), None) \<Rightarrow>
                    let fh = sized_header (crc32 fw) (compCount fw) (rawCount fw) fh
                    in case descriptor_buf fh of
                         None \<Rightarrow> None
                       | Some buf \<Rightarrow>
                           let (cw, _, e) = cw_Write buf cw
                           in Some (w\<lparr>zlast := Some fw, zcw := cw, heap := (heap w)(fwHeader fw := fh)\<rparr>, e)))"

text \<open>\<open>if w.last != nil && !w.last.closed { w.last.close() }\<close>\<close>

definition close_last :: "crypto \<Rightarrow> 'c zwriter \<Rightarrow> ('c zwriter \<times> zip_error option) option" where
  "close_last cr w =
     (case zlast w of
        None \<Rightarrow> Some (w, None)
      | Some fw \<Rightarrow> if fwClosed fw then Some (w, None) else file_close cr fw w)"

definition header_buf :: "FileHeader \<Rightarrow> bytes option" where
  "header_buf h =
     writeBuf fileHeaderLen
       [wb_uint32 fileHeaderSignature, wb_uint16 (ReaderVersion h), wb_uint16 (Flags h), wb_uint16 (Method h),
        wb_uint16 (ModifiedTime h), wb_uint16 (ModifiedDate h), wb_uint32 0, wb_uint32 0, wb_uint32 0,
        wb_uint16 (of_nat (length (Name h))), wb_uint16 (of_nat (length (Extra h)))]"

definition writeHeader :: "FileHeader \<Rightarrow> countWriter \<Rightarrow> (countWriter \<times> zip_error option) option" where
  "writeHeader h cw = map_option (\<lambda>buf. write_all [buf, Name h, Extra h] cw) (header_buf h)"

text \<open>\<open>newEncryptionWriter\<close>: \<open>rnd\<close> gives the salt, or fails. \<open>aes.NewCipher\<close> refuses a key that has not 16, 24 or 32 bytes.\<close>

definition generateKeys :: "crypto \<Rightarrow> bytes \<Rightarrow> bytes \<Rightarrow> nat \<Rightarrow> bytes \<times> bytes \<times> bytes" where
  "generateKeys cr pw salt keySize =
     (let key = pbkdf2 cr pw salt 1000 (keySize * 2 + 2)
      in (take keySize key, take keySize (drop keySize key), drop (keySize * 2) key))"

definition aes_NewCipher :: "bytes \<Rightarrow> bool" where
  "aes_NewCipher key \<longleftrightarrow> length key \<in> {16, 24, 32}"

definition newEncryptionWriter ::
  "crypto \<Rightarrow> bytes \<Rightarrow> (nat \<Rightarrow> bytes option) \<Rightarrow> byte \<Rightarrow> 'c fileWriter \<Rightarrow> zip_error + 'c fileWriter" where
  "newEncryptionWriter cr pw rnd strength fw =
     (let keysize = aesKeyLen strength
      in case rnd (keysize div 2) of
           None \<Rightarrow> Inl ErrSalt
         | Some salt \<Rightarrow>
             let (ekey, akey, pwv) = generateKeys cr pw salt keysize
             in if \<not> aes_NewCipher ekey then Inl ErrKeySize
                else Inr (fw\<lparr>hmac := Some (akey, []),
                             fwLayer := AesLayer \<lparr>ew_pwv = pwv, ew_salt = salt, ew_key = ekey,
                                                  ew_stream = newWinZipCTR, ew_first = True, ew_err = None\<rparr>\<rparr>))"

text \<open>The layers that \<open>CreateHeader\<close> puts over the file: the new header, and the file writer or the error.\<close>

definition new_fileWriter :: "nat \<Rightarrow> 'c registered \<Rightarrow> 'c fileWriter" where
  "new_fileWriter a c =
     \<lparr>fwHeader = a, rawCount = 0, compCount = 0, crc32 = crc_new, fwClosed = False, hmac = None, fwLayer = NoLayer,
      fwComp = c, compState = (case c of NopCloser \<Rightarrow> None | Compressor c \<Rightarrow> c_new c), compErr = None\<rparr>"

text \<open>\<open>comp(sw)\<close> fails.\<close>

definition cannot_start :: "'c fileWriter \<Rightarrow> bool" where
  "cannot_start fw \<longleftrightarrow> (case fwComp fw of NopCloser \<Rightarrow> False | Compressor _ \<Rightarrow> compState fw = None)"

definition add_layer ::
  "crypto \<Rightarrow> (nat \<Rightarrow> bytes option) \<Rightarrow> FileHeader \<Rightarrow> 'c fileWriter \<Rightarrow>
   (FileHeader \<times> (zip_error + 'c fileWriter)) option" where
  "add_layer cr rnd fh fw =
     (case password fh of
        None \<Rightarrow> Some (fh, Inr fw)
      | Some pw \<Rightarrow>
          if encryption fh = StandardEncryption
          then Some (fh, Inr (fw\<lparr>fwLayer := ZipCryptoLayer (NewZipCrypto pw) True\<rparr>))
          else
            map_option (\<lambda>fh. let fh = fh\<lparr>Method := 99\<rparr> in (fh, newEncryptionWriter cr pw rnd (aesStrength fh) fw))
              (writeWinZipExtra fh))"

definition CreateHeader ::
  "crypto \<Rightarrow> (16 word \<rightharpoonup> 'c registered) \<Rightarrow> (nat \<Rightarrow> bytes option) \<Rightarrow> nat \<Rightarrow> 'c zwriter \<Rightarrow>
   ('c zwriter \<times> zip_error option) option" where
  "CreateHeader cr reg rnd a w =
     (case close_last cr w of
        None \<Rightarrow> None
      | Some (w, Some e) \<Rightarrow> Some (w, Some e)
      | Some (w, None) \<Rightarrow>
          if 0 < length (zdir w) \<and> fst (last (zdir w)) = a then Some (w, Some ErrDuplicateHeader)
          else
            let fh = heap w a;
                fh = fh\<lparr>Flags := Flags fh OR 8,
                        CreatorVersion := (CreatorVersion fh AND 0xff00) OR zipVersion20,
                        ReaderVersion := zipVersion20\<rparr>;
                w = w\<lparr>heap := (heap w)(a := fh)\<rparr>
            in case reg (Method fh) of
                 None \<Rightarrow> Some (w, Some ErrAlgorithm)
               | Some c \<Rightarrow>
                   (case add_layer cr rnd fh (new_fileWriter a c) of
                      None \<Rightarrow> None
                    | Some (fh, Inl e) \<Rightarrow> Some (w\<lparr>heap := (heap w)(a := fh)\<rparr>, Some e)
                    | Some (fh, Inr fw) \<Rightarrow>
                        if cannot_start fw
                        then Some (w\<lparr>heap := (heap w)(a := fh)\<rparr>, Some ErrCompressor)
                        else
                          let w = w\<lparr>heap := (heap w)(a := fh),
                                    zdir := zdir w @ [(a, word_of_int (cwCount (zcw w)))]\<rparr>
                          in case writeHeader fh (zcw w) of
                               None \<Rightarrow> None
                             | Some (cw, Some e) \<Rightarrow> Some (w\<lparr>zcw := cw\<rparr>, Some e)
                             | Some (cw, None) \<Rightarrow> Some (w\<lparr>zcw := cw, zlast := Some fw\<rparr>, None)))"

definition Create ::
  "crypto \<Rightarrow> (16 word \<rightharpoonup> 'c registered) \<Rightarrow> bytes \<Rightarrow> 'c zwriter \<Rightarrow> ('c zwriter \<times> zip_error option) option" where
  "Create cr reg nm w =
     (let (a, w) = add_header (zero_FileHeader\<lparr>Name := nm, Method := Deflate\<rparr>) w
      in CreateHeader cr reg (\<lambda>_. None) a w)"

definition Writer_Encrypt ::
  "crypto \<Rightarrow> (16 word \<rightharpoonup> 'c registered) \<Rightarrow> (nat \<Rightarrow> bytes option) \<Rightarrow> bytes \<Rightarrow> bytes \<Rightarrow> EncryptionMethod \<Rightarrow> 'c zwriter \<Rightarrow>
   ('c zwriter \<times> zip_error option) option" where
  "Writer_Encrypt cr reg rnd nm pw enc w =
     (let fh = zero_FileHeader\<lparr>Name := nm, Method := Deflate\<rparr>;
          (a, w) = add_header (setEncryptionMethod enc (zip_SetPassword pw fh)) w
      in CreateHeader cr reg rnd a w)"

section \<open>Closing\<close>

definition zip64_extra :: "FileHeader \<Rightarrow> 64 word \<Rightarrow> bytes option" where
  "zip64_extra h offset =
     writeBuf 28 [wb_uint16 zip64ExtraId, wb_uint16 24, wb_uint64 (UncompressedSize64 h), wb_uint64 (CompressedSize64 h),
                  wb_uint64 offset]"

definition needs_zip64 :: "FileHeader \<Rightarrow> 64 word \<Rightarrow> bool" where
  "needs_zip64 h offset \<longleftrightarrow> isZip64 h \<or> uint offset > uint32max"

definition directory_extra :: "FileHeader \<Rightarrow> 64 word \<Rightarrow> FileHeader option" where
  "directory_extra h offset =
     (if needs_zip64 h offset
      then map_option (\<lambda>buf. h\<lparr>Extra := Extra h @ buf\<rparr>) (zip64_extra h offset)
      else Some h)"

text \<open>\<open>h\<close> with its final extra field.\<close>

definition directory_buf :: "FileHeader \<Rightarrow> 64 word \<Rightarrow> bytes option" where
  "directory_buf h offset =
     writeBuf directoryHeaderLen
       ([wb_uint32 directoryHeaderSignature, wb_uint16 (CreatorVersion h), wb_uint16 (ReaderVersion h),
         wb_uint16 (Flags h), wb_uint16 (Method h), wb_uint16 (ModifiedTime h), wb_uint16 (ModifiedDate h),
         wb_uint32 (CRC32 h)] @
        (if needs_zip64 h offset then [wb_uint32 (word_of_int uint32max), wb_uint32 (word_of_int uint32max)]
         else [wb_uint32 (CompressedSize h), wb_uint32 (UncompressedSize h)]) @
        [wb_uint16 (of_nat (length (Name h))), wb_uint16 (of_nat (length (Extra h))),
         wb_uint16 (of_nat (length (Comment h))), wb_skip 4, wb_uint32 (ExternalAttrs h),
         wb_uint32 (if uint offset > uint32max then word_of_int uint32max else ucast offset)])"

fun write_directory :: "(nat \<times> 64 word) list \<Rightarrow> 'c zwriter \<Rightarrow> ('c zwriter \<times> zip_error option) option" where
  "write_directory [] w = Some (w, None)"
| "write_directory ((a, offset) # dir) w =
     (case directory_extra (heap w a) offset of
        None \<Rightarrow> None
      | Some h \<Rightarrow>
          (case directory_buf h offset of
             None \<Rightarrow> None
           | Some buf \<Rightarrow>
               (case write_all [buf, Name h, Extra h, Comment h] (zcw w) of
                  (cw, Some e) \<Rightarrow> Some (w\<lparr>heap := (heap w)(a := h), zcw := cw\<rparr>, Some e)
                | (cw, None) \<Rightarrow> write_directory dir (w\<lparr>heap := (heap w)(a := h), zcw := cw\<rparr>))))"

definition end64_buf :: "64 word \<Rightarrow> 64 word \<Rightarrow> 64 word \<Rightarrow> 64 word \<Rightarrow> bytes option" where
  "end64_buf records size1 offset end1 =
     writeBuf (directory64EndLen + directory64LocLen)
       [wb_uint32 directory64EndSignature, wb_uint64 44, wb_uint16 zipVersion45, wb_uint16 zipVersion45, wb_uint32 0,
        wb_uint32 0, wb_uint64 records, wb_uint64 records, wb_uint64 size1, wb_uint64 offset,
        wb_uint32 directory64LocSignature, wb_uint32 0, wb_uint64 end1, wb_uint32 1]"

definition end_buf :: "64 word \<Rightarrow> 64 word \<Rightarrow> 64 word \<Rightarrow> bytes option" where
  "end_buf records size1 offset =
     writeBuf directoryEndLen
       [wb_uint32 directoryEndSignature, wb_skip 4, wb_uint16 (ucast records), wb_uint16 (ucast records),
        wb_uint32 (ucast size1), wb_uint32 (ucast offset)]"

text \<open>The part of \<open>Close\<close> after the directory: the zip64 records if they are needed, and the end record.\<close>

definition write_end :: "int \<Rightarrow> int \<Rightarrow> nat \<Rightarrow> countWriter \<Rightarrow> (countWriter \<times> zip_error option) option" where
  "write_end start end1 ndir cw =
     (let records = of_nat ndir; size1 = word_of_int (end1 - start); offset = word_of_int start
      in if uint records > uint16max \<or> uint size1 > uint32max \<or> uint offset > uint32max
         then
           case (end64_buf records size1 offset (word_of_int end1),
                 end_buf (word_of_int uint16max) (word_of_int uint32max) (word_of_int uint32max)) of
             (Some b1, Some b2) \<Rightarrow> Some (write_all [b1, b2] cw)
           | _ \<Rightarrow> None
         else map_option (\<lambda>b. write_all [b] cw) (end_buf records size1 offset))"

definition Writer_Close :: "crypto \<Rightarrow> zip_error option \<Rightarrow> 'c zwriter \<Rightarrow> ('c zwriter \<times> zip_error option) option" where
  "Writer_Close cr flush w =
     (case close_last cr w of
        None \<Rightarrow> None
      | Some (w, Some e) \<Rightarrow> Some (w, Some e)
      | Some (w1, None) \<Rightarrow>
          let w = (if \<exists>fw. zlast w = Some fw \<and> \<not> fwClosed fw then w1\<lparr>zlast := None\<rparr> else w1)
          in if zclosed w then Some (w, Some ErrWriterClosed)
             else
               let start = cwCount (zcw w)
               in case write_directory (zdir w) (w\<lparr>zclosed := True\<rparr>) of
                    None \<Rightarrow> None
                  | Some (w, Some e) \<Rightarrow> Some (w, Some e)
                  | Some (w, None) \<Rightarrow>
                      (case write_end start (cwCount (zcw w)) (length (zdir w)) (zcw w) of
                         None \<Rightarrow> None
                       | Some (cw, Some e) \<Rightarrow> Some (w\<lparr>zcw := cw\<rparr>, Some e)
                       | Some (cw, None) \<Rightarrow> Some (Flush flush (w\<lparr>zcw := cw\<rparr>))))"

end
