(* ===== verification/Zip_Layout.thy ===== *)
theory Zip_Layout imports Zip_Writer begin

text \<open>
  What the writer leaves in a destination that does not fail: the bytes of the layers, of a file, and of the directory.
\<close>

section \<open>The destination\<close>

definition sound :: "countWriter \<Rightarrow> bool" where
  "sound cw \<longleftrightarrow> room cw = None \<and> \<not> failed cw"

definition put :: "bytes \<Rightarrow> countWriter \<Rightarrow> countWriter" where
  "put p cw = cw\<lparr>out := out cw @ p, cwCount := cwCount cw + int (length p)\<rparr>"

lemma put_simps [simp]:
  "out (put p cw) = out cw @ p" "cwCount (put p cw) = cwCount cw + int (length p)" "sound (put p cw) = sound cw"
  "put q (put p cw) = put (p @ q) cw" "put [] cw = cw"
  by (simp_all add: put_def sound_def)

lemma cw_Write_sound: "sound cw \<Longrightarrow> cw_Write p cw = (put p cw, int (length p), None)"
  by (simp add: cw_Write_def sound_def put_def)

lemma write_all_sound: "sound cw \<Longrightarrow> write_all ps cw = (put (concat ps) cw, None)"
  by (induction ps arbitrary: cw) (simp_all add: cw_Write_sound)

section \<open>Layers\<close>

text \<open>\<open>counted\<close>: the file writer after bytes went to its counting writer.\<close>

definition counted :: "bytes \<Rightarrow> 'c fileWriter \<Rightarrow> 'c fileWriter" where
  "counted p fw = fw\<lparr>compCount := compCount fw + int (length p)\<rparr>"

lemma counted_simps [simp]:
  "fwHeader (counted p fw) = fwHeader fw" "rawCount (counted p fw) = rawCount fw" "crc32 (counted p fw) = crc32 fw"
  "fwClosed (counted p fw) = fwClosed fw" "hmac (counted p fw) = hmac fw" "fwLayer (counted p fw) = fwLayer fw"
  "fwComp (counted p fw) = fwComp fw" "compState (counted p fw) = compState fw" "compErr (counted p fw) = compErr fw"
  "compCount (counted p fw) = compCount fw + int (length p)"
  "counted q (counted p fw) = counted (p @ q) fw" "counted [] fw = fw"
  by (simp_all add: counted_def)

lemma comp_count_Write_sound:
  "sound cw \<Longrightarrow> comp_count_Write p (fw, cw) = ((counted p fw, put p cw), int (length p), None)"
  by (simp add: comp_count_Write_def cw_Write_sound counted_def)

text \<open>What goes out when the pieces \<open>ps\<close> are written to a new layer, and the layer afterwards.\<close>

definition zip_header_bytes :: "16 word \<Rightarrow> ZipCrypto \<Rightarrow> bytes" where
  "zip_header_bytes t z = (fst (zc_Encrypt zip_crypto_header z))[10 := ucast t, 11 := ucast (drop_bit 8 t)]"

fun layer_out :: "crypto \<Rightarrow> 16 word \<Rightarrow> layer \<Rightarrow> bytes list \<Rightarrow> bytes" where
  "layer_out cr t NoLayer ps = concat ps"
| "layer_out cr t (ZipCryptoLayer z first) ps =
     (if ps = [] then []
      else fst (zc_Encrypt (zip_header_bytes t z @ concat ps) (NewZipCrypto (zpassword z))))"
| "layer_out cr t (AesLayer ew) ps =
     (if ps = [] then [] else ew_salt ew @ ew_pwv ew @ xor_stream (aes_encrypt cr (ew_key ew)) 0 (concat ps))"

fun layer_after :: "crypto \<Rightarrow> 16 word \<Rightarrow> layer \<Rightarrow> bytes list \<Rightarrow> 'c fileWriter \<Rightarrow> bool" where
  "layer_after cr t NoLayer ps fw \<longleftrightarrow> fwLayer fw = NoLayer"
| "layer_after cr t (ZipCryptoLayer z first) ps fw \<longleftrightarrow>
     fwLayer fw =
       (if ps = [] then ZipCryptoLayer z True
        else ZipCryptoLayer (snd (zc_Encrypt (zip_header_bytes t z @ concat ps) (NewZipCrypto (zpassword z)))) False)"
| "layer_after cr t (AesLayer ew) ps fw \<longleftrightarrow>
     (\<exists>x k. fwLayer fw = AesLayer (ew\<lparr>ew_first := (ps = []), ew_stream := x, ew_err := None\<rparr>) \<and>
        ctr_at (aes_encrypt cr (ew_key ew)) (length (concat ps)) x \<and>
        hmac fw = Some (k, xor_stream (aes_encrypt cr (ew_key ew)) 0 (concat ps)))"

lemma length_zip_header_bytes [simp]: "length (zip_header_bytes t z) = 12"
  by (simp add: zip_header_bytes_def zip_crypto_header_def)

lemma length_zip_crypto_header [simp]: "length zip_crypto_header = 12"
  by (simp add: zip_crypto_header_def)

text \<open>A write to a layer: \<open>n\<close> is right but for the encryption of PKWARE.\<close>

definition keeps :: "'c fileWriter \<Rightarrow> 'c fileWriter \<Rightarrow> bool" where
  "keeps fw fw' \<longleftrightarrow> fwHeader fw' = fwHeader fw \<and> rawCount fw' = rawCount fw \<and> crc32 fw' = crc32 fw \<and>
     fwClosed fw' = fwClosed fw \<and> fwComp fw' = fwComp fw \<and> map_option fst (hmac fw') = map_option fst (hmac fw)"

lemma keeps_refl [simp]: "keeps fw fw" and keeps_trans: "keeps fw fw' \<Longrightarrow> keeps fw' fw'' \<Longrightarrow> keeps fw fw''"
  by (simp_all add: keeps_def)

lemma keeps_counted [simp]: "keeps fw (counted p fw)"
  by (simp add: keeps_def)

definition same_comp :: "'c fileWriter \<Rightarrow> 'c fileWriter \<Rightarrow> bool" where
  "same_comp fw fw' \<longleftrightarrow> compState fw' = compState fw \<and> compErr fw' = compErr fw"

definition right_count :: "layer \<Rightarrow> bool" where
  "right_count l \<longleftrightarrow> (case l of ZipCryptoLayer _ _ \<Rightarrow> False | _ \<Rightarrow> True)"

text \<open>\<open>wrote_layer d\<close>: the bytes \<open>d\<close> went out and nothing else of the file writer changed but its layer.\<close>

definition wrote_layer :: "bytes \<Rightarrow> 'c io \<Rightarrow> 'c io \<Rightarrow> bool" where
  "wrote_layer d s s' \<longleftrightarrow> snd s' = put d (snd s) \<and> compCount (fst s') = compCount (fst s) + int (length d) \<and>
     keeps (fst s) (fst s') \<and> same_comp (fst s) (fst s')"

lemma wrote_layer_refl: "wrote_layer [] s s"
  by (simp add: wrote_layer_def same_comp_def)

lemma wrote_layer_trans: "wrote_layer d s s' \<Longrightarrow> wrote_layer e s' s'' \<Longrightarrow> wrote_layer (d @ e) s s''"
  by (auto simp: wrote_layer_def same_comp_def elim: keeps_trans)

lemma zip_layer_Write:
  assumes "sound cw" "layer_after cr t (ZipCryptoLayer z True) ps fw"
  obtains s' n d where "layer_Write cr t p (fw, cw) = (s', n, None)" "wrote_layer d (fw, cw) s'"
    "layer_out cr t (ZipCryptoLayer z True) (ps @ [p]) = layer_out cr t (ZipCryptoLayer z True) ps @ d"
    "layer_after cr t (ZipCryptoLayer z True) (ps @ [p]) (fst s')"
proof -
  let ?h = "zip_header_bytes t z" and ?z = "NewZipCrypto (zpassword z)"
  have init: "zc_init z' = ?z" if "zpassword z' = zpassword z" for z'
    using that by (rule zc_init_again)
  show ?thesis
  proof (cases "ps = []")
    case True
    then have l: "fwLayer fw = ZipCryptoLayer z True" using assms(2) by simp
    define d where "d = fst (zc_Encrypt (?h @ p) ?z)"
    have "layer_Write cr t p (fw, cw) = (((counted d fw)\<lparr>fwLayer := ZipCryptoLayer (snd (zc_Encrypt (?h @ p) ?z)) False\<rparr>,
        put d cw), 12, None)"
      using assms(1)
      by (simp add: layer_Write_def l zip_crypto_Write_def Let_def split_beta zip_header_bytes_def [symmetric] init
          comp_count_Write_sound zc_Encrypt_append d_def counted_def algebra_simps)
    then show ?thesis
      by (rule that) (simp_all add: True d_def wrote_layer_def keeps_def same_comp_def)
  next
    case False
    then have l: "fwLayer fw = ZipCryptoLayer (snd (zc_Encrypt (?h @ concat ps) ?z)) False" using assms(2) by simp
    define d where "d = fst (zc_Encrypt p (snd (zc_Encrypt (?h @ concat ps) ?z)))"
    have w: "layer_Write cr t p (fw, cw) = (((counted d fw)\<lparr>fwLayer :=
        ZipCryptoLayer (snd (zc_Encrypt p (snd (zc_Encrypt (?h @ concat ps) ?z)))) False\<rparr>, put d cw), 0, None)"
      using assms(1)
      by (simp add: layer_Write_def l zip_crypto_Write_def Let_def split_beta comp_count_Write_sound d_def counted_def)
    have e: "zc_Encrypt (?h @ concat ps @ p) ?z
        = (fst (zc_Encrypt (?h @ concat ps) ?z) @ d, snd (zc_Encrypt p (snd (zc_Encrypt (?h @ concat ps) ?z))))"
      unfolding append.assoc [symmetric] by (subst zc_Encrypt_append) (simp add: d_def)
    show ?thesis
      by (rule that [OF w]) (simp_all add: False e wrote_layer_def keeps_def same_comp_def)
  qed
qed

lemma aes_layer_Write:
  assumes "sound cw" "layer_after cr t (AesLayer ew) ps fw"
  obtains s' d where "layer_Write cr t p (fw, cw) = (s', int (length p), None)" "wrote_layer d (fw, cw) s'"
    "layer_out cr t (AesLayer ew) (ps @ [p]) = layer_out cr t (AesLayer ew) ps @ d"
    "layer_after cr t (AesLayer ew) (ps @ [p]) (fst s')"
proof -
  let ?E = "aes_encrypt cr (ew_key ew)"
  from assms(2) obtain x k where x: "fwLayer fw = AesLayer (ew\<lparr>ew_first := (ps = []), ew_stream := x, ew_err := None\<rparr>)"
    "ctr_at ?E (length (concat ps)) x" "hmac fw = Some (k, xor_stream ?E 0 (concat ps))" by auto
  define c where "c = xor_stream ?E (length (concat ps)) p"
  obtain x' where x': "XORKeyStream ?E p x = (c, x')" "ctr_at ?E (length (concat (ps @ [p]))) x'"
    using XORKeyStream_at [OF x(2), of p] by (cases "XORKeyStream ?E p x") (auto simp: c_def)
  define d where "d = (if ps = [] then ew_salt ew @ ew_pwv ew @ c else c)"
  have len: "length c = length p" by (simp add: c_def)
  have stream: "xor_stream ?E 0 (concat (ps @ [p])) = xor_stream ?E 0 (concat ps) @ c"
    using xor_stream_append [of ?E 0 "concat ps" p] by (simp add: c_def)
  let ?fw = "(counted d fw)\<lparr>hmac := Some (k, xor_stream ?E 0 (concat (ps @ [p]))),
      fwLayer := AesLayer (ew\<lparr>ew_first := False, ew_stream := x', ew_err := None\<rparr>)\<rparr>"
  have w: "layer_Write cr t p (fw, cw) = ((?fw, put d cw), int (length p), None)"
    using assms(1) x'(1) unfolding stream
    by (cases "ps = []")
      (simp_all add: layer_Write_def x(1,3) encryption_Write_def Let_def stream_Write_def auth_Write_def
        comp_count_Write_sound len d_def counted_def)
  have e: "layer_out cr t (AesLayer ew) (ps @ [p]) = layer_out cr t (AesLayer ew) ps @ d"
    using stream by (cases "ps = []") (simp_all add: d_def)
  have a: "layer_after cr t (AesLayer ew) (ps @ [p]) ?fw" using x'(2) by auto
  show ?thesis by (rule that [OF w _ e]) (use a x(3) in \<open>simp_all add: wrote_layer_def keeps_def same_comp_def\<close>)
qed

text \<open>A layer that has just been made.\<close>

fun fresh_layer :: "layer \<Rightarrow> bool" where
  "fresh_layer NoLayer \<longleftrightarrow> True"
| "fresh_layer (ZipCryptoLayer z first) \<longleftrightarrow> first"
| "fresh_layer (AesLayer ew) \<longleftrightarrow> ew_first ew \<and> ew_err ew = None \<and> ew_stream ew = newWinZipCTR"

lemma layer_Write_sound:
  assumes "fresh_layer l" "sound cw" "layer_after cr t l ps fw"
  obtains s' n d where "layer_Write cr t p (fw, cw) = (s', n, None)" "right_count l \<Longrightarrow> n = int (length p)"
    "wrote_layer d (fw, cw) s'" "layer_out cr t l (ps @ [p]) = layer_out cr t l ps @ d"
    "layer_after cr t l (ps @ [p]) (fst s')"
proof (cases l)
  case NoLayer
  have "layer_Write cr t p (fw, cw) = ((counted p fw, put p cw), int (length p), None)"
    using assms by (simp add: NoLayer layer_Write_def comp_count_Write_sound)
  then show ?thesis
    by (rule that) (use assms(3) in \<open>simp_all add: NoLayer wrote_layer_def same_comp_def\<close>)
next
  case (ZipCryptoLayer z first)
  then have l: "l = ZipCryptoLayer z True" using assms(1) by simp
  show ?thesis
    by (rule zip_layer_Write [OF assms(2) assms(3) [unfolded l], of p]) (rule that, auto simp: l right_count_def)
next
  case (AesLayer ew)
  show ?thesis
    by (rule aes_layer_Write [OF assms(2) assms(3) [unfolded AesLayer], of p]) (rule that, auto simp: AesLayer)
qed

lemma layer_out_Nil [simp]: "fresh_layer l \<Longrightarrow> layer_out cr t l [] = []"
  by (cases l) simp_all

lemma emit_sound:
  assumes "fresh_layer l" "sound (snd s)" "layer_after cr t l ps (fst s)"
  shows "\<exists>s' d. emit cr t qs s = (s', None) \<and> wrote_layer d s s' \<and> layer_out cr t l (ps @ qs) = layer_out cr t l ps @ d \<and>
    layer_after cr t l (ps @ qs) (fst s')"
  using assms(2,3)
proof (induction qs arbitrary: s ps)
  case Nil
  then show ?case using wrote_layer_refl by fastforce
next
  case (Cons q qs)
  obtain fw cw where s: "s = (fw, cw)" by fastforce
  obtain s1 n d where 1: "layer_Write cr t q s = (s1, n, None)" "wrote_layer d s s1"
    "layer_out cr t l (ps @ [q]) = layer_out cr t l ps @ d" "layer_after cr t l (ps @ [q]) (fst s1)"
    by (rule layer_Write_sound [OF assms(1), of cw cr t ps fw q]) (use Cons.prems in \<open>auto simp: s\<close>)
  have "sound (snd s1)" using 1(2) Cons.prems(1) by (simp add: wrote_layer_def)
  from Cons.IH [OF this 1(4)] obtain s' e where 2: "emit cr t qs s1 = (s', None)" "wrote_layer e s1 s'"
    "layer_out cr t l ((ps @ [q]) @ qs) = layer_out cr t l (ps @ [q]) @ e" "layer_after cr t l ((ps @ [q]) @ qs) (fst s')"
    by blast
  show ?case
    using 1 2 wrote_layer_trans [OF 1(2) 2(2)] by (intro exI [of _ s'] exI [of _ "d @ e"]) simp
qed

section \<open>A file\<close>

text \<open>The pieces that a compressor passes on for the pieces \<open>qs\<close>, with its state then; and all of them, with the last.\<close>

fun comp_pieces :: "'c compressor \<Rightarrow> 'c \<Rightarrow> bytes list \<Rightarrow> 'c \<times> bytes list" where
  "comp_pieces c st [] = (st, [])"
| "comp_pieces c st (q # qs) =
     (let (st, ps) = c_write c st q; (st, ps') = comp_pieces c st qs in (st, ps @ ps'))"

definition passed_on :: "'c registered \<Rightarrow> bytes list \<Rightarrow> bytes list" where
  "passed_on r qs =
     (case r of
        NopCloser \<Rightarrow> qs
      | Compressor c \<Rightarrow> (let (st, ps) = comp_pieces c (the (c_new c)) qs in ps @ c_close c st))"

definition usable :: "'c registered \<Rightarrow> bool" where
  "usable r \<longleftrightarrow> (case r of NopCloser \<Rightarrow> True | Compressor c \<Rightarrow> c_new c \<noteq> None)"

fun file_Writes :: "crypto \<Rightarrow> bytes list \<Rightarrow> 'c zwriter \<Rightarrow> 'c zwriter \<times> zip_error option" where
  "file_Writes cr [] w = (w, None)"
| "file_Writes cr (q # qs) w =
     (case file_Write cr q w of (w, _, Some e) \<Rightarrow> (w, Some e) | (w, _, None) \<Rightarrow> file_Writes cr qs w)"

text \<open>The file at the address \<open>a\<close> is being written; its data start where the destination was \<open>cw0\<close>.\<close>

definition writing ::
  "crypto \<Rightarrow> layer \<Rightarrow> 'c registered \<Rightarrow> bytes option \<Rightarrow> countWriter \<Rightarrow> nat \<Rightarrow> 'c option \<Rightarrow> bytes list \<Rightarrow> bytes \<Rightarrow> 'c zwriter \<Rightarrow> bool" where
  "writing cr l c key cw0 a st em b w \<longleftrightarrow>
     (\<exists>fw. zlast w = Some fw \<and> fwHeader fw = a \<and> \<not> fwClosed fw \<and> fwComp fw = c \<and> compState fw = st \<and>
        compErr fw = None \<and> crc32 fw = crc_sum b \<and> rawCount fw = int (length b) \<and>
        compCount fw = int (length (layer_out cr (ModifiedTime (heap w a)) l em)) \<and>
        zcw w = put (layer_out cr (ModifiedTime (heap w a)) l em) cw0 \<and>
        layer_after cr (ModifiedTime (heap w a)) l em fw \<and> map_option fst (hmac fw) = key)"

text \<open>The parts of the writer that writing a file leaves.\<close>

definition same_book :: "'c zwriter \<Rightarrow> 'c zwriter \<Rightarrow> bool" where
  "same_book w w' \<longleftrightarrow> zdir w' = zdir w \<and> zclosed w' = zclosed w \<and> heap w' = heap w \<and> nheaders w' = nheaders w"

lemma same_book_refl [simp]: "same_book w w" and same_book_trans: "same_book w w' \<Longrightarrow> same_book w' w'' \<Longrightarrow> same_book w w''"
  by (simp_all add: same_book_def)

text \<open>What a write to the compressor does, by its kind.\<close>

lemma comp_Write_sound:
  assumes "fresh_layer l" "sound cw" "layer_after cr t l em fw" "compErr fw = None"
    and "case fwComp fw of NopCloser \<Rightarrow> right_count l | Compressor c \<Rightarrow> compState fw \<noteq> None"
  shows "\<exists>fw' d. comp_Write cr t q (fw, cw) = ((fw', put d cw), int (length q), None) \<and> keeps fw fw' \<and>
    compCount fw' = compCount fw + int (length d) \<and> compErr fw' = None \<and>
    (case fwComp fw of
       NopCloser \<Rightarrow> compState fw' = compState fw \<and> layer_out cr t l (em @ [q]) = layer_out cr t l em @ d \<and>
         layer_after cr t l (em @ [q]) fw'
     | Compressor c \<Rightarrow> let (st, ps) = c_write c (the (compState fw)) q
         in compState fw' = Some st \<and> layer_out cr t l (em @ ps) = layer_out cr t l em @ d \<and> layer_after cr t l (em @ ps) fw')"
proof (cases "fwComp fw")
  case NopCloser
  obtain s' n d where "layer_Write cr t q (fw, cw) = (s', n, None)" "right_count l \<Longrightarrow> n = int (length q)"
    "wrote_layer d (fw, cw) s'" "layer_out cr t l (em @ [q]) = layer_out cr t l em @ d" "layer_after cr t l (em @ [q]) (fst s')"
    by (rule layer_Write_sound [OF assms(1-3), of q], rule that)
  then show ?thesis
    using assms(4,5) NopCloser
    by (intro exI [of _ "fst s'"] exI [of _ d]) (cases s'; simp add: comp_Write_def wrote_layer_def same_comp_def)
next
  case (Compressor c)
  then obtain st where st: "compState fw = Some st" using assms(5) by auto
  obtain st' ps where c: "c_write c st q = (st', ps)" by fastforce
  from emit_sound [of l "(fw, cw)" cr t em ps] assms(1-3) obtain s' d where "emit cr t ps (fw, cw) = (s', None)"
    "wrote_layer d (fw, cw) s'" "layer_out cr t l (em @ ps) = layer_out cr t l em @ d" "layer_after cr t l (em @ ps) (fst s')"
    by auto
  moreover have "layer_after cr t l ps' (fw'\<lparr>compState := x, compErr := y\<rparr>) = layer_after cr t l ps' fw'" for ps' x y
    and fw' :: "'a fileWriter"
    by (cases l) simp_all
  ultimately show ?thesis
    using assms(4) Compressor st c
    by (intro exI [of _ "(fst s')\<lparr>compState := Some st', compErr := None\<rparr>"] exI [of _ d])
      (cases s'; simp add: comp_Write_def wrote_layer_def keeps_def)
qed

lemma layer_after_frame [simp]:
  "layer_after cr t l ps (fw\<lparr>rawCount := n\<rparr>) = layer_after cr t l ps fw"
  "layer_after cr t l ps (fw\<lparr>crc32 := k\<rparr>) = layer_after cr t l ps fw"
  "layer_after cr t l ps (fw\<lparr>fwClosed := b\<rparr>) = layer_after cr t l ps fw"
  "layer_after cr t l ps (fw\<lparr>compCount := n\<rparr>) = layer_after cr t l ps fw"
  by (cases l; simp)+

text \<open>A compressor's state and output after one more piece; those of \<open>NopCloser\<close>.\<close>

definition next_pieces :: "'c registered \<Rightarrow> 'c option \<Rightarrow> bytes \<Rightarrow> 'c option \<times> bytes list" where
  "next_pieces r st q =
     (case r of
        NopCloser \<Rightarrow> (st, [q])
      | Compressor c \<Rightarrow> let (st, ps) = c_write c (the st) q in (Some st, ps))"

lemma file_Write_writing:
  assumes "fresh_layer l" "sound cw0" "writing cr l c key cw0 a st em b w"
    and "case c of NopCloser \<Rightarrow> right_count l | Compressor c \<Rightarrow> st \<noteq> None" "next_pieces c st q = (st', ps)"
  shows "\<exists>w'. file_Write cr q w = (w', int (length q), None) \<and> writing cr l c key cw0 a st' (em @ ps) (b @ q) w' \<and>
    same_book w w'"
proof -
  define t where "t = ModifiedTime (heap w a)"
  from assms(3) obtain fw where fw: "zlast w = Some fw" "fwHeader fw = a" "\<not> fwClosed fw" "fwComp fw = c" "compState fw = st"
    "compErr fw = None" "crc32 fw = crc_sum b" "rawCount fw = int (length b)"
    "compCount fw = int (length (layer_out cr t l em))" "zcw w = put (layer_out cr t l em) cw0"
    "layer_after cr t l em fw" "map_option fst (hmac fw) = key"
    by (auto simp: writing_def t_def)
  let ?fw = "fw\<lparr>crc32 := crc_Write q (crc32 fw)\<rparr>"
  have "\<exists>fw' d. comp_Write cr t q (?fw, zcw w) = ((fw', put d (zcw w)), int (length q), None) \<and> keeps ?fw fw' \<and>
    compCount fw' = compCount fw + int (length d) \<and> compErr fw' = None \<and>
    compState fw' = st' \<and> layer_out cr t l (em @ ps) = layer_out cr t l em @ d \<and> layer_after cr t l (em @ ps) fw'"
    using comp_Write_sound [of l "zcw w" cr t em ?fw q] assms(1,2,4,5) fw
    by (cases c) (auto simp: next_pieces_def split: prod.splits)
  then obtain fw' d where d: "comp_Write cr t q (?fw, zcw w) = ((fw', put d (zcw w)), int (length q), None)" "keeps ?fw fw'"
    "compCount fw' = compCount fw + int (length d)" "compErr fw' = None" "compState fw' = st'"
    "layer_out cr t l (em @ ps) = layer_out cr t l em @ d" "layer_after cr t l (em @ ps) fw'"
    by blast
  show ?thesis
    using fw d
    by (intro exI [of _ "w\<lparr>zlast := Some (fw'\<lparr>rawCount := rawCount fw' + int (length q)\<rparr>), zcw := put d (zcw w)\<rparr>"])
      (simp add: file_Write_def t_def [symmetric] writing_def same_book_def keeps_def crc_sum_append)
qed

text \<open>All pieces.\<close>

fun all_pieces :: "'c registered \<Rightarrow> 'c option \<Rightarrow> bytes list \<Rightarrow> 'c option \<times> bytes list" where
  "all_pieces r st [] = (st, [])"
| "all_pieces r st (q # qs) =
     (let (st, ps) = next_pieces r st q; (st, ps') = all_pieces r st qs in (st, ps @ ps'))"

lemma next_pieces_Some: "next_pieces c st q = (st', ps) \<Longrightarrow> c \<noteq> NopCloser \<Longrightarrow> st' \<noteq> None"
  by (cases c) (auto simp: next_pieces_def split: prod.splits)

lemma file_Writes_writing:
  assumes "fresh_layer l" "sound cw0" "writing cr l c key cw0 a st em b w"
    and "case c of NopCloser \<Rightarrow> right_count l | Compressor c \<Rightarrow> st \<noteq> None" "all_pieces c st qs = (st', ps)"
  shows "\<exists>w'. file_Writes cr qs w = (w', None) \<and> writing cr l c key cw0 a st' (em @ ps) (b @ concat qs) w' \<and> same_book w w'"
  using assms(3-5)
proof (induction qs arbitrary: st em b w ps)
  case (Cons q qs)
  obtain st1 ps1 where 1: "next_pieces c st q = (st1, ps1)" by fastforce
  obtain ps2 where 2: "all_pieces c st1 qs = (st', ps2)" "ps = ps1 @ ps2"
    using Cons.prems(3) 1 by (auto split: prod.splits)
  obtain w1 where w1: "file_Write cr q w = (w1, int (length q), None)" "writing cr l c key cw0 a st1 (em @ ps1) (b @ q) w1"
    "same_book w w1"
    using file_Write_writing [OF assms(1,2) Cons.prems(1,2) 1] by blast
  have "case c of NopCloser \<Rightarrow> right_count l | Compressor c \<Rightarrow> st1 \<noteq> None"
    using Cons.prems(2) next_pieces_Some [OF 1] by (cases c) auto
  from Cons.IH [OF w1(2) this 2(1)] obtain w' where "file_Writes cr qs w1 = (w', None)"
    "writing cr l c key cw0 a st' ((em @ ps1) @ ps2) ((b @ q) @ concat qs) w'" "same_book w1 w'" by blast
  then show ?case using w1 2(2) by (auto intro: same_book_trans)
qed auto

lemma all_pieces_NopCloser: "all_pieces NopCloser st qs = (st, qs)"
  by (induction qs arbitrary: st) (simp_all add: next_pieces_def)

lemma all_pieces_Compressor:
  "all_pieces (Compressor c) (Some st) qs = (case comp_pieces c st qs of (st, ps) \<Rightarrow> (Some st, ps))"
  by (induction qs arbitrary: st) (simp_all add: next_pieces_def split_beta Let_def)

section \<open>The end of a file\<close>

definition descriptor_bytes :: "FileHeader \<Rightarrow> bytes" where
  "descriptor_bytes fh =
     concat ([wb_uint32 dataDescriptorSignature, wb_uint32 (CRC32 fh)] @
       (if isZip64 fh then [wb_uint64 (CompressedSize64 fh), wb_uint64 (UncompressedSize64 fh)]
        else [wb_uint32 (CompressedSize fh), wb_uint32 (UncompressedSize fh)]))"

lemma descriptor_buf_Some: "descriptor_buf fh = Some (descriptor_bytes fh)"
  unfolding descriptor_buf_def descriptor_bytes_def by (rule writeBuf_exact) simp

definition mac_data :: "crypto \<Rightarrow> layer \<Rightarrow> bytes list \<Rightarrow> bytes" where
  "mac_data cr l em = (case l of AesLayer ew \<Rightarrow> xor_stream (aes_encrypt cr (ew_key ew)) 0 (concat em) | _ \<Rightarrow> [])"

definition auth_code :: "crypto \<Rightarrow> layer \<Rightarrow> bytes option \<Rightarrow> bytes list \<Rightarrow> bytes" where
  "auth_code cr l key em =
     (case l of AesLayer _ \<Rightarrow> take 10 (hmac_sha1 cr (the key) (mac_data cr l em)) | _ \<Rightarrow> [])"

definition is_aes :: "layer \<Rightarrow> bool" where
  "is_aes l \<longleftrightarrow> (case l of AesLayer _ \<Rightarrow> True | _ \<Rightarrow> False)"

definition last_pieces :: "'c registered \<Rightarrow> 'c option \<Rightarrow> bytes list" where
  "last_pieces c st = (case c of NopCloser \<Rightarrow> [] | Compressor c \<Rightarrow> c_close c (the st))"

lemma passed_on_all:
  "usable c \<Longrightarrow> all_pieces c (case c of NopCloser \<Rightarrow> None | Compressor c \<Rightarrow> c_new c) qs = (st, ps) \<Longrightarrow>
   ps @ last_pieces c st = passed_on c qs"
  by (cases c) (auto simp: passed_on_def last_pieces_def usable_def all_pieces_NopCloser all_pieces_Compressor split: prod.splits)

lemma comp_Close_sound:
  assumes "fresh_layer l" "sound cw" "layer_after cr t l em fw" "compErr fw = None" "fwComp fw = c" "compState fw = st"
    and "c \<noteq> NopCloser \<Longrightarrow> st \<noteq> None"
  shows "\<exists>fw' d. comp_Close cr t (fw, cw) = ((fw', put d cw), None) \<and> keeps fw fw' \<and>
    compCount fw' = compCount fw + int (length d) \<and> layer_out cr t l (em @ last_pieces c st) = layer_out cr t l em @ d \<and>
    layer_after cr t l (em @ last_pieces c st) fw'"
proof (cases c)
  case NopCloser
  then show ?thesis
    using assms by (intro exI [of _ fw] exI [of _ "[]"]) (simp add: comp_Close_def last_pieces_def)
next
  case (Compressor cc)
  then obtain s where st: "st = Some s" using assms(7) by auto
  from emit_sound [of l "(fw, cw)" cr t em "c_close cc s"] assms(1-3) obtain s' d where
    "emit cr t (c_close cc s) (fw, cw) = (s', None)" "wrote_layer d (fw, cw) s'"
    "layer_out cr t l (em @ c_close cc s) = layer_out cr t l em @ d" "layer_after cr t l (em @ c_close cc s) (fst s')"
    by auto
  then show ?thesis
    using assms(4-6) Compressor st
    by (intro exI [of _ "fst s'"] exI [of _ d]) (cases s'; simp add: comp_Close_def last_pieces_def wrote_layer_def)
qed

lemma close_authcode_sound:
  assumes "sound cw" "layer_after cr t l em fw" "aes_encrypted fh \<longleftrightarrow> is_aes l" "map_option fst (hmac fw) = key"
  shows "close_authcode cr fh (fw, cw) = Some ((counted (auth_code cr l key em) fw, put (auth_code cr l key em) cw), None)"
  using assms by (cases l) (auto simp: close_authcode_def is_aes_def auth_code_def mac_data_def comp_count_Write_sound)

text \<open>The bytes of a file after its header, and its header in the end.\<close>

definition file_body :: "crypto \<Rightarrow> 16 word \<Rightarrow> layer \<Rightarrow> bytes option \<Rightarrow> bytes list \<Rightarrow> bytes" where
  "file_body cr t l key em = layer_out cr t l em @ auth_code cr l key em"

lemma file_close_writing:
  assumes "fresh_layer l" "sound cw0" "writing cr l c key cw0 a st em b w" "c \<noteq> NopCloser \<Longrightarrow> st \<noteq> None"
    and "aes_encrypted (heap w a) \<longleftrightarrow> is_aes l"
  defines "body \<equiv> file_body cr (ModifiedTime (heap w a)) l key (em @ last_pieces c st)"
  defines "fh \<equiv> sized_header (crc_sum b) (int (length body)) (int (length b)) (heap w a)"
  shows "\<exists>w'. close_last cr w = Some (w', None) \<and> zcw w' = put (body @ descriptor_bytes fh) cw0 \<and>
    heap w' = (heap w)(a := fh) \<and> zdir w' = zdir w \<and> zclosed w' = zclosed w \<and> nheaders w' = nheaders w \<and>
    (\<exists>fw. zlast w' = Some fw \<and> fwClosed fw)"
proof -
  define t where "t = ModifiedTime (heap w a)"
  let ?em = "em @ last_pieces c st"
  from assms(3) obtain fw where fw: "zlast w = Some fw" "fwHeader fw = a" "\<not> fwClosed fw" "fwComp fw = c" "compState fw = st"
    "compErr fw = None" "crc32 fw = crc_sum b" "rawCount fw = int (length b)"
    "compCount fw = int (length (layer_out cr t l em))" "zcw w = put (layer_out cr t l em) cw0"
    "layer_after cr t l em fw" "map_option fst (hmac fw) = key"
    by (auto simp: writing_def t_def)
  from comp_Close_sound [of l "zcw w" cr t em "fw\<lparr>fwClosed := True\<rparr>" c st] fw assms(1,2,4) obtain fw' d where
    d: "comp_Close cr t (fw\<lparr>fwClosed := True\<rparr>, zcw w) = ((fw', put d (zcw w)), None)" "keeps (fw\<lparr>fwClosed := True\<rparr>) fw'"
    "compCount fw' = compCount fw + int (length d)" "layer_out cr t l ?em = layer_out cr t l em @ d"
    "layer_after cr t l ?em fw'"
    by auto
  let ?auth = "auth_code cr l key ?em"
  have auth: "close_authcode cr (heap w a) (fw', put d (zcw w))
    = Some ((counted ?auth fw', put ?auth (put d (zcw w))), None)"
    by (rule close_authcode_sound) (use d fw assms(2,5) in \<open>auto simp: keeps_def\<close>)
  have body: "body = layer_out cr t l em @ d @ ?auth" by (simp add: body_def file_body_def t_def [symmetric] d(4))
  have fh: "sized_header (crc_sum b) (compCount fw' + int (length ?auth)) (int (length b)) (heap w a) = fh"
    using d(3) fw(9) by (simp add: fh_def body add.assoc)
  show ?thesis
    using fw d(2) assms(2)
    by (intro exI [of _ "w\<lparr>zlast := Some (counted ?auth fw'), zcw := put (body @ descriptor_bytes fh) cw0,
          heap := (heap w)(a := fh)\<rparr>"])
      (simp add: close_last_def file_close_def Let_def t_def [symmetric] d(1) [unfolded fw(10)]
        auth [unfolded fw(10), simplified] fh descriptor_buf_Some cw_Write_sound body keeps_def)
qed

section \<open>The start of a file\<close>

definition prepared :: "FileHeader \<Rightarrow> FileHeader" where
  "prepared fh =
     fh\<lparr>Flags := Flags fh OR 8, CreatorVersion := (CreatorVersion fh AND 0xff00) OR zipVersion20,
        ReaderVersion := zipVersion20\<rparr>"

definition layered :: "FileHeader \<Rightarrow> FileHeader" where
  "layered fh =
     (if password fh \<noteq> None \<and> encryption fh \<noteq> StandardEncryption
      then fh\<lparr>Extra := Extra fh @ winZipExtra fh, Method := 99\<rparr> else fh)"

text \<open>The layer for a header, and the key of its authentication.\<close>

definition layer_of :: "crypto \<Rightarrow> (nat \<Rightarrow> bytes option) \<Rightarrow> FileHeader \<Rightarrow> (layer \<times> bytes option) option" where
  "layer_of cr rnd fh =
     (case password fh of
        None \<Rightarrow> Some (NoLayer, None)
      | Some pw \<Rightarrow>
          if encryption fh = StandardEncryption then Some (ZipCryptoLayer (NewZipCrypto pw) True, None)
          else
            case rnd (aesKeyLen (aesStrength fh) div 2) of
              None \<Rightarrow> None
            | Some salt \<Rightarrow>
                let (ekey, akey, pwv) = generateKeys cr pw salt (aesKeyLen (aesStrength fh))
                in if \<not> aes_NewCipher ekey then None
                   else Some (AesLayer \<lparr>ew_pwv = pwv, ew_salt = salt, ew_key = ekey, ew_stream = newWinZipCTR,
                                        ew_first = True, ew_err = None\<rparr>, Some akey))"

lemma add_layer_Some:
  assumes "layer_of cr rnd fh = Some (l, key)"
  shows "add_layer cr rnd fh (new_fileWriter a c) = Some (layered fh, Inr ((new_fileWriter a c)
    \<lparr>hmac := map_option (\<lambda>k. (k, [])) key, fwLayer := l\<rparr>))"
  using assms
  by (auto simp: layer_of_def add_layer_def layered_def writeWinZipExtra_Some newEncryptionWriter_def new_fileWriter_def
      Let_def split_beta split: option.splits if_splits)

lemma layer_of_cases:
  assumes "layer_of cr rnd fh = Some (l, key)"
  obtains (plain) "password fh = None" "l = NoLayer" "key = None"
  | (pkware) pw where "password fh = Some pw" "encryption fh = StandardEncryption"
      "l = ZipCryptoLayer (NewZipCrypto pw) True" "key = None"
  | (aes) pw salt ekey akey pwv where "password fh = Some pw" "encryption fh \<noteq> StandardEncryption"
      "rnd (aesKeyLen (aesStrength fh) div 2) = Some salt"
      "generateKeys cr pw salt (aesKeyLen (aesStrength fh)) = (ekey, akey, pwv)" "aes_NewCipher ekey" "key = Some akey"
      "l = AesLayer \<lparr>ew_pwv = pwv, ew_salt = salt, ew_key = ekey, ew_stream = newWinZipCTR, ew_first = True, ew_err = None\<rparr>"
  using assms by (auto simp: layer_of_def split: option.splits if_splits prod.splits)

lemma layer_of_fresh:
  assumes "layer_of cr rnd fh = Some (l, key)"
  shows "fresh_layer l" "is_aes l \<longleftrightarrow> password fh \<noteq> None \<and> encryption fh \<noteq> StandardEncryption"
  using assms by (auto elim!: layer_of_cases simp: is_aes_def)

lemma layer_of_after:
  assumes "layer_of cr rnd fh = Some (l, key)" "fwLayer fw = l" "hmac fw = map_option (\<lambda>k. (k, [])) key"
  shows "layer_after cr t l [] fw"
  using assms(1)
proof (cases rule: layer_of_cases)
  case (aes pw salt ekey akey pwv)
  then show ?thesis using assms(2,3) ctr_at_new by auto
qed (use assms(2,3) in auto)

definition header_bytes :: "FileHeader \<Rightarrow> bytes" where
  "header_bytes h =
     concat [wb_uint32 fileHeaderSignature, wb_uint16 (ReaderVersion h), wb_uint16 (Flags h), wb_uint16 (Method h),
        wb_uint16 (ModifiedTime h), wb_uint16 (ModifiedDate h), wb_uint32 0, wb_uint32 0, wb_uint32 0,
        wb_uint16 (of_nat (length (Name h))), wb_uint16 (of_nat (length (Extra h)))]"

lemma length_header_bytes [simp]: "length (header_bytes h) = 30"
  by (simp add: header_bytes_def)

lemma header_buf_Some: "header_buf h = Some (header_bytes h)"
  unfolding header_buf_def header_bytes_def by (rule writeBuf_exact) simp

lemma CreateHeader_writing:
  fixes w :: "'c zwriter"
  assumes "sound (zcw w)" "\<And>fw. zlast w = Some fw \<Longrightarrow> fwClosed fw" "zdir w = [] \<or> fst (last (zdir w)) \<noteq> a"
    and "reg (Method (heap w a)) = Some c" "usable c" "layer_of cr rnd (prepared (heap w a)) = Some (l, key)"
  defines "fh \<equiv> layered (prepared (heap w a))"
  shows "\<exists>w'. CreateHeader cr reg rnd a w = Some (w', None) \<and>
    writing cr l c key (put (header_bytes fh @ Name fh @ Extra fh) (zcw w)) a
      (case c of NopCloser \<Rightarrow> None | Compressor c \<Rightarrow> c_new c) [] [] w' \<and>
    heap w' = (heap w)(a := fh) \<and> zdir w' = zdir w @ [(a, word_of_int (cwCount (zcw w)))] \<and>
    zclosed w' = zclosed w \<and> nheaders w' = nheaders w"
proof -
  let ?p = "prepared (heap w a)"
  let ?fw = "(new_fileWriter a c)\<lparr>hmac := map_option (\<lambda>k. (k, [])) key, fwLayer := l\<rparr> :: 'c fileWriter"
  have close: "close_last cr w = Some (w, None)"
    using assms(2) by (auto simp: close_last_def split: option.splits)
  have m: "Method ?p = Method (heap w a)" by (simp add: prepared_def)
  have p: "heap w a\<lparr>Flags := Flags (heap w a) OR 8, CreatorVersion := CreatorVersion (heap w a) AND 0xff00 OR 20,
      ReaderVersion := 20\<rparr> = ?p" by (simp add: prepared_def)
  have add: "add_layer cr rnd ?p (new_fileWriter a c) = Some (fh, Inr ?fw)"
    unfolding fh_def by (rule add_layer_Some [OF assms(6)])
  have comp: "\<not> cannot_start ?fw"
    using assms(5) by (cases c) (simp_all add: cannot_start_def new_fileWriter_def usable_def)
  have dup: "\<not> (0 < length (zdir w) \<and> fst (last (zdir w)) = a)" using assms(3) by auto
  have head: "writeHeader fh (zcw w) = Some (put (header_bytes fh @ Name fh @ Extra fh) (zcw w), None)"
    using write_all_sound [OF assms(1), of "[header_bytes fh, Name fh, Extra fh]"]
    by (simp add: writeHeader_def header_buf_Some del: write_all.simps)
  let ?w = "w\<lparr>heap := (heap w)(a := fh), zdir := zdir w @ [(a, word_of_int (cwCount (zcw w)))],
      zcw := put (header_bytes fh @ Name fh @ Extra fh) (zcw w), zlast := Some ?fw\<rparr>"
  have "CreateHeader cr reg rnd a w = Some (?w, None)"
    using comp dup by (simp add: CreateHeader_def close Let_def p m assms(4) add head)
  moreover have "writing cr l c key (put (header_bytes fh @ Name fh @ Extra fh) (zcw w)) a
      (case c of NopCloser \<Rightarrow> None | Compressor c \<Rightarrow> c_new c) [] [] ?w"
    using layer_of_fresh(1) [OF assms(6)] layer_of_after [OF assms(6), of ?fw]
    by (simp add: writing_def new_fileWriter_def crc_sum_def option.map_comp comp_def option.map_ident)
  ultimately show ?thesis by (intro exI [of _ ?w]) simp
qed

end
