(* ===== verification/Zip_Archive.thy ===== *)
theory Zip_Archive imports Zip_Layout begin

text \<open>
  A whole archive: files written one after the other, and \<open>Close\<close>. The bytes that are then in the destination.
\<close>

section \<open>A session\<close>

text \<open>A file to write: the address of its header, the pieces of its content, and the salt for it.\<close>

type_synonym task = "nat \<times> bytes list \<times> (nat \<Rightarrow> bytes option)"

fun write_files ::
  "crypto \<Rightarrow> (16 word \<rightharpoonup> 'c registered) \<Rightarrow> task list \<Rightarrow> 'c zwriter \<Rightarrow> ('c zwriter \<times> zip_error option) option" where
  "write_files cr reg [] w = Some (w, None)"
| "write_files cr reg ((a, ps, rnd) # fs) w =
     (case CreateHeader cr reg rnd a w of
        None \<Rightarrow> None
      | Some (w, Some e) \<Rightarrow> Some (w, Some e)
      | Some (w, None) \<Rightarrow>
          (case file_Writes cr ps w of
             (w, Some e) \<Rightarrow> Some (w, Some e)
           | (w, None) \<Rightarrow> write_files cr reg fs w))"

definition write_archive ::
  "crypto \<Rightarrow> (16 word \<rightharpoonup> 'c registered) \<Rightarrow> task list \<Rightarrow> 'c zwriter \<Rightarrow> ('c zwriter \<times> zip_error option) option" where
  "write_archive cr reg fs w =
     (case write_files cr reg fs w of
        Some (w, None) \<Rightarrow> Writer_Close cr None w
      | r \<Rightarrow> r)"

section \<open>What a file leaves\<close>

text \<open>\<open>fh\<close> is the header as the caller made it.\<close>

definition task_comp :: "(16 word \<rightharpoonup> 'c registered) \<Rightarrow> FileHeader \<Rightarrow> 'c registered" where
  "task_comp reg fh = the (reg (Method fh))"

definition task_layer :: "crypto \<Rightarrow> FileHeader \<Rightarrow> (nat \<Rightarrow> bytes option) \<Rightarrow> layer \<times> bytes option" where
  "task_layer cr fh rnd = the (layer_of cr rnd (prepared fh))"

definition task_body ::
  "crypto \<Rightarrow> (16 word \<rightharpoonup> 'c registered) \<Rightarrow> FileHeader \<Rightarrow> bytes list \<Rightarrow> (nat \<Rightarrow> bytes option) \<Rightarrow> bytes" where
  "task_body cr reg fh ps rnd =
     (case task_layer cr fh rnd of
        (l, key) \<Rightarrow> file_body cr (ModifiedTime fh) l key (passed_on (task_comp reg fh) ps))"

definition task_header ::
  "crypto \<Rightarrow> (16 word \<rightharpoonup> 'c registered) \<Rightarrow> FileHeader \<Rightarrow> bytes list \<Rightarrow> (nat \<Rightarrow> bytes option) \<Rightarrow> FileHeader" where
  "task_header cr reg fh ps rnd =
     sized_header (crc_sum (concat ps)) (int (length (task_body cr reg fh ps rnd))) (int (length (concat ps)))
       (layered (prepared fh))"

definition local_bytes :: "FileHeader \<Rightarrow> bytes" where
  "local_bytes fh = header_bytes fh @ Name fh @ Extra fh"

definition task_bytes ::
  "crypto \<Rightarrow> (16 word \<rightharpoonup> 'c registered) \<Rightarrow> FileHeader \<Rightarrow> bytes list \<Rightarrow> (nat \<Rightarrow> bytes option) \<Rightarrow> bytes" where
  "task_bytes cr reg fh ps rnd =
     local_bytes (layered (prepared fh)) @ task_body cr reg fh ps rnd @ descriptor_bytes (task_header cr reg fh ps rnd)"

text \<open>What \<open>CreateHeader\<close> and the writes need: a method that is registered, a salt if there is to be one, and the
  flag of encryption set exactly if there is a password. \<open>Store\<close> does not go with the encryption of PKWARE, whose
  \<open>Write\<close> returns a wrong count.\<close>

definition task_ok :: "crypto \<Rightarrow> (16 word \<rightharpoonup> 'c registered) \<Rightarrow> FileHeader \<Rightarrow> (nat \<Rightarrow> bytes option) \<Rightarrow> bool" where
  "task_ok cr reg fh rnd \<longleftrightarrow>
     reg (Method fh) \<noteq> None \<and> usable (task_comp reg fh) \<and> layer_of cr rnd (prepared fh) \<noteq> None \<and>
     (case task_comp reg fh of NopCloser \<Rightarrow> right_count (fst (task_layer cr fh rnd)) | Compressor _ \<Rightarrow> True) \<and>
     (IsEncrypted fh \<longleftrightarrow> password fh \<noteq> None)"

lemma IsEncrypted_prepared [simp]: "IsEncrypted (prepared fh) = IsEncrypted fh"
proof -
  have "(Flags fh OR 8) AND 1 = Flags fh AND 1" by (simp add: bit.conj_disj_distrib2)
  then show ?thesis by (simp add: IsEncrypted_def prepared_def)
qed

lemma prepared_simps [simp]:
  "Name (prepared fh) = Name fh" "Method (prepared fh) = Method fh" "ModifiedTime (prepared fh) = ModifiedTime fh"
  "ModifiedDate (prepared fh) = ModifiedDate fh" "Extra (prepared fh) = Extra fh" "Comment (prepared fh) = Comment fh"
  "ExternalAttrs (prepared fh) = ExternalAttrs fh" "password (prepared fh) = password fh"
  "encryption (prepared fh) = encryption fh" "aesStrength (prepared fh) = aesStrength fh" "ae (prepared fh) = ae fh"
  "DeferAuth (prepared fh) = DeferAuth fh" "CRC32 (prepared fh) = CRC32 fh" "Flags (prepared fh) = Flags fh OR 8"
  by (simp_all add: prepared_def)

lemma layered_simps [simp]:
  "Name (layered fh) = Name fh" "ModifiedTime (layered fh) = ModifiedTime fh" "ModifiedDate (layered fh) = ModifiedDate fh"
  "Comment (layered fh) = Comment fh" "ExternalAttrs (layered fh) = ExternalAttrs fh" "password (layered fh) = password fh"
  "encryption (layered fh) = encryption fh" "aesStrength (layered fh) = aesStrength fh" "Flags (layered fh) = Flags fh"
  "CreatorVersion (layered fh) = CreatorVersion fh" "ReaderVersion (layered fh) = ReaderVersion fh"
  "CRC32 (layered fh) = CRC32 fh" "IsEncrypted (layered fh) = IsEncrypted fh" "ae (layered fh) = ae fh"
  by (simp_all add: layered_def IsEncrypted_def)

text \<open>The next file, when the one before is closed.\<close>

lemma CreateHeader_closed:
  "close_last cr w = Some (w1, None) \<Longrightarrow> close_last cr w1 = Some (w1, None) \<Longrightarrow>
   CreateHeader cr reg rnd a w = CreateHeader cr reg rnd a w1"
  by (simp add: CreateHeader_def)

definition all_closed :: "'c zwriter \<Rightarrow> bool" where
  "all_closed w \<longleftrightarrow> (\<forall>fw. zlast w = Some fw \<longrightarrow> fwClosed fw)"

lemma all_closed_last: "all_closed w \<Longrightarrow> close_last cr w = Some (w, None)"
  by (auto simp: all_closed_def close_last_def split: option.splits)

lemma write_file:
  fixes w :: "'c zwriter"
  assumes "close_last cr w = Some (w1, None)" "all_closed w1" "sound (zcw w1)" "zdir w1 = [] \<or> fst (last (zdir w1)) \<noteq> a"
    and "task_ok cr reg (heap w1 a) rnd"
  shows "\<exists>w2 w3 w4. CreateHeader cr reg rnd a w = Some (w2, None) \<and> file_Writes cr ps w2 = (w3, None) \<and>
    close_last cr w3 = Some (w4, None) \<and> all_closed w4 \<and>
    zcw w4 = put (task_bytes cr reg (heap w1 a) ps rnd) (zcw w1) \<and>
    heap w4 = (heap w1)(a := task_header cr reg (heap w1 a) ps rnd) \<and>
    zdir w4 = zdir w1 @ [(a, word_of_int (cwCount (zcw w1)))] \<and> zclosed w4 = zclosed w1"
proof -
  define fh where "fh = heap w1 a"
  define c where "c = task_comp reg fh"
  define lh where "lh = layered (prepared fh)"
  define st where "st = (case c of NopCloser \<Rightarrow> None | Compressor c \<Rightarrow> c_new c)"
  obtain l key where l: "task_layer cr fh rnd = (l, key)" "layer_of cr rnd (prepared fh) = Some (l, key)"
    using assms(5) by (cases "layer_of cr rnd (prepared fh)") (auto simp: task_ok_def task_layer_def fh_def)
  have ok: "reg (Method fh) = Some c" "usable c" "c = NopCloser \<Longrightarrow> right_count l" "IsEncrypted fh \<longleftrightarrow> password fh \<noteq> None"
    using assms(5) l(1) by (auto simp: task_ok_def task_comp_def c_def fh_def)
  define cw where "cw = put (local_bytes lh) (zcw w1)"
  obtain w2 where w2: "CreateHeader cr reg rnd a w1 = Some (w2, None)" "writing cr l c key cw a st [] [] w2"
    "heap w2 = (heap w1)(a := lh)" "zdir w2 = zdir w1 @ [(a, word_of_int (cwCount (zcw w1)))]" "zclosed w2 = zclosed w1"
    using CreateHeader_writing [OF assms(3) _ assms(4), of reg c cr rnd l key] assms(2) ok(1,2) l(2)
    by (auto simp: all_closed_def fh_def lh_def local_bytes_def cw_def st_def)
  obtain st' em where em: "all_pieces c st ps = (st', em)" by fastforce
  have compok: "case c of NopCloser \<Rightarrow> right_count l | Compressor c \<Rightarrow> st \<noteq> None"
    using ok(2,3) by (auto simp: st_def usable_def split: registered.splits)
  have fresh: "fresh_layer l" "is_aes l \<longleftrightarrow> password fh \<noteq> None \<and> encryption fh \<noteq> StandardEncryption"
    using layer_of_fresh [OF l(2)] by simp_all
  have cw: "sound cw" using assms(3) by (simp add: cw_def)
  obtain w3 where w3: "file_Writes cr ps w2 = (w3, None)" "writing cr l c key cw a st' em (concat ps) w3" "same_book w2 w3"
    using file_Writes_writing [OF fresh(1) cw w2(2) compok em] by auto
  have h3: "heap w3 a = lh" "heap w3 = (heap w1)(a := lh)" "zdir w3 = zdir w2" "zclosed w3 = zclosed w2"
    using w3(3) w2(3) by (auto simp: same_book_def)
  have st': "c \<noteq> NopCloser \<Longrightarrow> st' \<noteq> None"
    using em ok(2) by (cases c) (auto simp: st_def usable_def all_pieces_Compressor split: prod.splits)
  have aes: "aes_encrypted (heap w3 a) \<longleftrightarrow> is_aes l"
    using ok(4) by (simp add: h3(1) aes_encrypted_def fresh(2) lh_def)
  have em': "em @ last_pieces c st' = passed_on c ps"
    using passed_on_all [OF ok(2)] em by (simp add: st_def)
  have b: "task_body cr reg fh ps rnd = file_body cr (ModifiedTime (heap w3 a)) l key (em @ last_pieces c st')"
    by (simp add: task_body_def l(1) em' c_def [symmetric] h3(1) lh_def)
  obtain w4 where "close_last cr w3 = Some (w4, None)" "zcw w4 = put (task_body cr reg fh ps rnd @
      descriptor_bytes (task_header cr reg fh ps rnd)) cw" "heap w4 = (heap w3)(a := task_header cr reg fh ps rnd)"
    "zdir w4 = zdir w3" "zclosed w4 = zclosed w3" "all_closed w4"
    using file_close_writing [OF fresh(1) cw w3(2) st' aes] by (auto simp: b task_header_def h3(1) lh_def all_closed_def)
  then show ?thesis
    using w2(1,4,5) w3(1) h3 CreateHeader_closed [OF assms(1) all_closed_last [OF assms(2)]]
    by (auto simp: task_bytes_def fh_def [symmetric] lh_def [symmetric] cw_def)
qed

section \<open>All files\<close>

definition files_bytes :: "crypto \<Rightarrow> (16 word \<rightharpoonup> 'c registered) \<Rightarrow> (nat \<Rightarrow> FileHeader) \<Rightarrow> task list \<Rightarrow> bytes" where
  "files_bytes cr reg h fs = concat (map (\<lambda>(a, ps, rnd). task_bytes cr reg (h a) ps rnd) fs)"

text \<open>The directory, when the first file is at the offset \<open>off\<close>.\<close>

fun task_dir ::
  "crypto \<Rightarrow> (16 word \<rightharpoonup> 'c registered) \<Rightarrow> (nat \<Rightarrow> FileHeader) \<Rightarrow> int \<Rightarrow> task list \<Rightarrow> (nat \<times> 64 word) list" where
  "task_dir cr reg h off [] = []"
| "task_dir cr reg h off ((a, ps, rnd) # fs) =
     (a, word_of_int off) # task_dir cr reg h (off + int (length (task_bytes cr reg (h a) ps rnd))) fs"

definition tasks_ok :: "crypto \<Rightarrow> (16 word \<rightharpoonup> 'c registered) \<Rightarrow> (nat \<Rightarrow> FileHeader) \<Rightarrow> task list \<Rightarrow> bool" where
  "tasks_ok cr reg h fs \<longleftrightarrow> distinct (map fst fs) \<and> list_all (\<lambda>(a, ps, rnd). task_ok cr reg (h a) rnd) fs"

text \<open>The header of a file when all files are written.\<close>

definition task_heap ::
  "crypto \<Rightarrow> (16 word \<rightharpoonup> 'c registered) \<Rightarrow> (nat \<Rightarrow> FileHeader) \<Rightarrow> task list \<Rightarrow> nat \<Rightarrow> FileHeader" where
  "task_heap cr reg h fs a =
     (case map_of fs a of None \<Rightarrow> h a | Some (ps, rnd) \<Rightarrow> task_header cr reg (h a) ps rnd)"

lemma task_bytes_cong:
  "(\<And>a. a \<in> fst ` set fs \<Longrightarrow> h a = h' a) \<Longrightarrow> files_bytes cr reg h fs = files_bytes cr reg h' fs"
  "(\<And>a. a \<in> fst ` set fs \<Longrightarrow> h a = h' a) \<Longrightarrow> task_dir cr reg h off fs = task_dir cr reg h' off fs"
  by (induction fs arbitrary: off) (auto simp: files_bytes_def)

lemma tasks_ok_Cons:
  assumes "tasks_ok cr reg h ((a, ps, rnd) # fs)"
  shows "task_ok cr reg (h a) rnd" "tasks_ok cr reg (h(a := x)) fs" "a \<notin> fst ` set fs"
  using assms by (fastforce simp: tasks_ok_def list_all_iff image_iff)+

lemma write_files_sound:
  fixes w :: "'c zwriter"
  assumes "close_last cr w = Some (w1, None)" "all_closed w1" "sound (zcw w1)" "tasks_ok cr reg (heap w1) fs"
    and "\<And>a. zdir w1 \<noteq> [] \<Longrightarrow> a \<in> fst ` set fs \<Longrightarrow> fst (last (zdir w1)) \<noteq> a"
  shows "\<exists>w2 w3. write_files cr reg fs w = Some (w2, None) \<and> close_last cr w2 = Some (w3, None) \<and> all_closed w3 \<and>
    zcw w3 = put (files_bytes cr reg (heap w1) fs) (zcw w1) \<and> heap w3 = task_heap cr reg (heap w1) fs \<and>
    zdir w3 = zdir w1 @ task_dir cr reg (heap w1) (cwCount (zcw w1)) fs \<and> zclosed w3 = zclosed w1"
  using assms
proof (induction fs arbitrary: w w1)
  case Nil
  then show ?case by (auto simp: files_bytes_def task_heap_def [abs_def])
next
  case (Cons f fs)
  obtain a ps rnd where f: "f = (a, ps, rnd)" by (cases f)
  let ?h = "heap w1"
  note ok = tasks_ok_Cons [OF Cons.prems(4) [unfolded f]]
  have dup: "zdir w1 = [] \<or> fst (last (zdir w1)) \<noteq> a" using Cons.prems(5) [of a] by (auto simp: f)
  obtain v2 v3 v4 where v: "CreateHeader cr reg rnd a w = Some (v2, None)" "file_Writes cr ps v2 = (v3, None)"
    "close_last cr v3 = Some (v4, None)" "all_closed v4" "zcw v4 = put (task_bytes cr reg (?h a) ps rnd) (zcw w1)"
    "heap v4 = ?h(a := task_header cr reg (?h a) ps rnd)" "zdir v4 = zdir w1 @ [(a, word_of_int (cwCount (zcw w1)))]"
    "zclosed v4 = zclosed w1"
    using write_file [OF Cons.prems(1-3) dup ok(1)] by blast
  have "\<And>b. b \<in> fst ` set fs \<Longrightarrow> heap v4 b = ?h b" using ok(3) by (auto simp: v(6))
  then have same: "files_bytes cr reg (heap v4) fs = files_bytes cr reg ?h fs"
    "task_dir cr reg (heap v4) off fs = task_dir cr reg ?h off fs" for off
    by (auto intro: task_bytes_cong)
  have heap: "task_heap cr reg (heap v4) fs = task_heap cr reg ?h ((a, ps, rnd) # fs)"
  proof
    fix x
    show "task_heap cr reg (heap v4) fs x = task_heap cr reg ?h ((a, ps, rnd) # fs) x"
      using ok(3) by (auto simp: task_heap_def v(6) map_of_eq_None_iff [THEN iffD2] split: option.splits)
  qed
  have "\<exists>w2 w3. write_files cr reg fs v3 = Some (w2, None) \<and> close_last cr w2 = Some (w3, None) \<and> all_closed w3 \<and>
      zcw w3 = put (files_bytes cr reg (heap v4) fs) (zcw v4) \<and> heap w3 = task_heap cr reg (heap v4) fs \<and>
      zdir w3 = zdir v4 @ task_dir cr reg (heap v4) (cwCount (zcw v4)) fs \<and> zclosed w3 = zclosed v4"
    by (rule Cons.IH [OF v(3,4)])
      (use Cons.prems(3) ok(2) ok(3) in \<open>auto simp: v(5,7) v(6) simp del: fun_upd_apply\<close>)
  then show ?case
    unfolding heap same
    by (auto simp: f v files_bytes_def)
qed

section \<open>The directory\<close>

text \<open>The header with the extra field of the directory, and its bytes.\<close>

definition dir_header :: "FileHeader \<Rightarrow> 64 word \<Rightarrow> FileHeader" where
  "dir_header h offset =
     (if needs_zip64 h offset
      then h\<lparr>Extra := Extra h @ concat [wb_uint16 zip64ExtraId, wb_uint16 24, wb_uint64 (UncompressedSize64 h),
                                  wb_uint64 (CompressedSize64 h), wb_uint64 offset]\<rparr>
      else h)"

lemma directory_extra_Some: "directory_extra h offset = Some (dir_header h offset)"
  by (simp add: directory_extra_def dir_header_def zip64_extra_def writeBuf_exact)

definition dir_fixed :: "FileHeader \<Rightarrow> 64 word \<Rightarrow> bytes" where
  "dir_fixed h offset =
     concat ([wb_uint32 directoryHeaderSignature, wb_uint16 (CreatorVersion h), wb_uint16 (ReaderVersion h),
         wb_uint16 (Flags h), wb_uint16 (Method h), wb_uint16 (ModifiedTime h), wb_uint16 (ModifiedDate h),
         wb_uint32 (CRC32 h)] @
        (if needs_zip64 h offset then [wb_uint32 (word_of_int uint32max), wb_uint32 (word_of_int uint32max)]
         else [wb_uint32 (CompressedSize h), wb_uint32 (UncompressedSize h)]) @
        [wb_uint16 (of_nat (length (Name h))), wb_uint16 (of_nat (length (Extra h))),
         wb_uint16 (of_nat (length (Comment h))), wb_skip 4, wb_uint32 (ExternalAttrs h),
         wb_uint32 (if uint offset > uint32max then word_of_int uint32max else ucast offset)])"

lemma length_dir_fixed [simp]: "length (dir_fixed h offset) = 46"
  by (simp add: dir_fixed_def)

lemma directory_buf_Some: "directory_buf h offset = Some (dir_fixed h offset)"
  unfolding directory_buf_def dir_fixed_def by (rule writeBuf_exact) simp

definition dir_bytes :: "FileHeader \<Rightarrow> 64 word \<Rightarrow> bytes" where
  "dir_bytes h offset =
     (let h = dir_header h offset in dir_fixed h offset @ Name h @ Extra h @ Comment h)"

definition directory_bytes :: "(nat \<Rightarrow> FileHeader) \<Rightarrow> (nat \<times> 64 word) list \<Rightarrow> bytes" where
  "directory_bytes h dir = concat (map (\<lambda>(a, off). dir_bytes (h a) off) dir)"

lemma write_directory_sound:
  assumes "sound (zcw w)" "distinct (map fst dir)"
  shows "\<exists>w'. write_directory dir w = Some (w', None) \<and> zcw w' = put (directory_bytes (heap w) dir) (zcw w) \<and>
    zdir w' = zdir w \<and> zlast w' = zlast w \<and> zclosed w' = zclosed w"
  using assms
proof (induction dir arbitrary: w)
  case Nil
  then show ?case by (simp add: directory_bytes_def)
next
  case (Cons d dir)
  obtain a off where d: "d = (a, off)" by (cases d)
  let ?h = "dir_header (heap w a) off"
  let ?w = "w\<lparr>heap := (heap w)(a := ?h), zcw := put (dir_bytes (heap w a) off) (zcw w)\<rparr>"
  have all: "write_all [dir_fixed ?h off, Name ?h, Extra ?h, Comment ?h] (zcw w) = (put (dir_bytes (heap w a) off) (zcw w), None)"
    by (subst write_all_sound [OF Cons.prems(1)]) (simp add: dir_bytes_def Let_def)
  have step: "write_directory (d # dir) w = write_directory dir ?w"
    by (simp add: d directory_extra_Some directory_buf_Some all del: write_all.simps)
  have same: "directory_bytes (heap ?w) dir = directory_bytes (heap w) dir"
    using Cons.prems(2) unfolding directory_bytes_def d
    by (intro arg_cong [where f = concat] map_cong refl) (force split: prod.splits)
  have "\<exists>w'. write_directory dir ?w = Some (w', None) \<and> zcw w' = put (directory_bytes (heap ?w) dir) (zcw ?w) \<and>
    zdir w' = zdir ?w \<and> zlast w' = zlast ?w \<and> zclosed w' = zclosed ?w"
    by (rule Cons.IH) (use Cons.prems in \<open>simp_all add: d\<close>)
  then show ?case unfolding step same by (auto simp: d directory_bytes_def)
qed

section \<open>The end records\<close>

definition end64_bytes :: "64 word \<Rightarrow> 64 word \<Rightarrow> 64 word \<Rightarrow> 64 word \<Rightarrow> bytes" where
  "end64_bytes records size1 offset end1 =
     concat [wb_uint32 directory64EndSignature, wb_uint64 44, wb_uint16 zipVersion45, wb_uint16 zipVersion45, wb_uint32 0,
        wb_uint32 0, wb_uint64 records, wb_uint64 records, wb_uint64 size1, wb_uint64 offset,
        wb_uint32 directory64LocSignature, wb_uint32 0, wb_uint64 end1, wb_uint32 1]"

definition endrec_bytes :: "64 word \<Rightarrow> 64 word \<Rightarrow> 64 word \<Rightarrow> bytes" where
  "endrec_bytes records size1 offset =
     concat [wb_uint32 directoryEndSignature, wb_skip 4, wb_uint16 (ucast records), wb_uint16 (ucast records),
        wb_uint32 (ucast size1), wb_uint32 (ucast offset), wb_skip 2]"

lemma end64_buf_Some: "end64_buf r s o1 e = Some (end64_bytes r s o1 e)"
  unfolding end64_buf_def end64_bytes_def by (rule writeBuf_exact) simp

lemma end_buf_Some: "end_buf r s o1 = Some (endrec_bytes r s o1)"
  by (simp add: end_buf_def endrec_bytes_def writeBuf_def wr_def Let_def wb_skip_def)

definition end_needs64 :: "int \<Rightarrow> int \<Rightarrow> nat \<Rightarrow> bool" where
  "end_needs64 start end1 n \<longleftrightarrow>
     uint (of_nat n :: 64 word) > uint16max \<or> uint (word_of_int (end1 - start) :: 64 word) > uint32max \<or>
     uint (word_of_int start :: 64 word) > uint32max"

definition end_bytes :: "int \<Rightarrow> int \<Rightarrow> nat \<Rightarrow> bytes" where
  "end_bytes start end1 n =
     (if end_needs64 start end1 n
      then end64_bytes (of_nat n) (word_of_int (end1 - start)) (word_of_int start) (word_of_int end1) @
           endrec_bytes (word_of_int uint16max) (word_of_int uint32max) (word_of_int uint32max)
      else endrec_bytes (of_nat n) (word_of_int (end1 - start)) (word_of_int start))"

lemma write_end_sound: "sound cw \<Longrightarrow> write_end start end1 n cw = Some (put (end_bytes start end1 n) cw, None)"
  by (simp add: write_end_def end_bytes_def end_needs64_def Let_def end64_buf_Some end_buf_Some cw_Write_sound)

section \<open>The archive\<close>

text \<open>Everything that the writer puts in the destination, whose count is \<open>off\<close> at the start.\<close>

definition archive_bytes :: "crypto \<Rightarrow> (16 word \<rightharpoonup> 'c registered) \<Rightarrow> (nat \<Rightarrow> FileHeader) \<Rightarrow> int \<Rightarrow> task list \<Rightarrow> bytes" where
  "archive_bytes cr reg h off fs =
     (let files = files_bytes cr reg h fs;
          dir = directory_bytes (task_heap cr reg h fs) (task_dir cr reg h off fs);
          start = off + int (length files)
      in files @ dir @ end_bytes start (start + int (length dir)) (length fs))"

lemma length_task_dir [simp]: "length (task_dir cr reg h off fs) = length fs"
  by (induction cr reg h off fs rule: task_dir.induct) simp_all

lemma map_fst_task_dir [simp]: "map fst (task_dir cr reg h off fs) = map fst fs"
  by (induction cr reg h off fs rule: task_dir.induct) simp_all

lemma write_archive_bytes:
  fixes w :: "'c zwriter"
  assumes "zlast w = None" "zdir w = []" "\<not> zclosed w" "sound (zcw w)" "tasks_ok cr reg (heap w) fs"
  shows "\<exists>w'. write_archive cr reg fs w = Some (w', None) \<and> zclosed w' \<and>
    zcw w' = put (archive_bytes cr reg (heap w) (cwCount (zcw w)) fs) (zcw w)"
proof -
  let ?off = "cwCount (zcw w)" and ?files = "files_bytes cr reg (heap w) fs"
  let ?dir = "directory_bytes (task_heap cr reg (heap w) fs) (task_dir cr reg (heap w) ?off fs)"
  have "close_last cr w = Some (w, None)" "all_closed w" using assms(1) by (simp_all add: close_last_def all_closed_def)
  from write_files_sound [OF this assms(4,5)] assms(2) obtain w2 w3 where 1: "write_files cr reg fs w = Some (w2, None)"
    "close_last cr w2 = Some (w3, None)" "zcw w3 = put ?files (zcw w)" "heap w3 = task_heap cr reg (heap w) fs"
    "zdir w3 = task_dir cr reg (heap w) ?off fs" "\<not> zclosed w3"
    using assms(3) by auto
  define w3' where "w3' = (if \<exists>fw. zlast w2 = Some fw \<and> \<not> fwClosed fw then w3\<lparr>zlast := None\<rparr> else w3)"
  have w3': "zcw w3' = zcw w3" "heap w3' = heap w3" "zdir w3' = zdir w3" "zclosed w3' = zclosed w3"
    by (simp_all add: w3'_def)
  have "distinct (map fst (zdir w3'))" using assms(5) by (simp add: w3' 1(5) tasks_ok_def)
  moreover have "sound (zcw w3')" using assms(4) by (simp add: w3' 1(3))
  ultimately obtain w4 where 4: "write_directory (zdir w3') (w3'\<lparr>zclosed := True\<rparr>) = Some (w4, None)"
    "zcw w4 = put ?dir (zcw w3')" "zdir w4 = zdir w3'" "zclosed w4"
    using write_directory_sound [of "w3'\<lparr>zclosed := True\<rparr>" "zdir w3'"] by (auto simp: w3' 1(4,5))
  have s4: "sound (zcw w4)" using assms(4) by (simp add: 4(2) w3' 1(3))
  let ?e = "end_bytes (?off + int (length ?files)) (?off + int (length ?files) + int (length ?dir)) (length fs)"
  have "Writer_Close cr None w2 = Some (w4\<lparr>zcw := put ?e (zcw w4)\<rparr>, None)"
    using s4 by (simp add: Writer_Close_def 1(2,6) w3'_def [symmetric] Let_def 4(1) [unfolded w3'(3) 1(5)] w3' 1(3,5) 4(2,3)
        write_end_sound Flush_def add.assoc) (simp add: sound_def put_def)
  then show ?thesis
    using 4(2,4) by (auto simp: write_archive_def 1(1,3) w3' archive_bytes_def Let_def add.assoc)
qed

end
