(* ===== verification/Zip_Reader.thy ===== *)
theory Zip_Reader imports Zip_Writer begin

text \<open>
  \<open>tools/zip/reader.go\<close>, as far as the directory: \<open>NewReader\<close> over a file that is a list of bytes. A result is an error or
  a value; \<^const>\<open>None\<close> is a panic.
\<close>

type_synonym 'a res = "(zip_error + 'a) option"

abbreviation fails :: "zip_error \<Rightarrow> 'a res" where "fails e \<equiv> Some (Inl e)"
abbreviation gives :: "'a \<Rightarrow> 'a res" where "gives x \<equiv> Some (Inr x)"

definition res_bind :: "'a res \<Rightarrow> ('a \<Rightarrow> 'b res) \<Rightarrow> 'b res" where
  "res_bind r k = (case r of None \<Rightarrow> None | Some (Inl e) \<Rightarrow> Some (Inl e) | Some (Inr x) \<Rightarrow> k x)"

lemma res_bind_simps [simp]:
  "res_bind None k = None" "res_bind (fails e) k = fails e" "res_bind (gives x) k = k x"
  by (simp_all add: res_bind_def)

section \<open>Reading\<close>

text \<open>\<open>ReadAt\<close> into a buffer of \<open>n\<close> zeros.\<close>

definition ReadAt :: "bytes \<Rightarrow> nat \<Rightarrow> int \<Rightarrow> bytes \<times> zip_error option" where
  "ReadAt r n off =
     (if off < 0 then (replicate n 0, Some ErrNegativeOffset)
      else
        let p = take n (drop (nat off) r)
        in (p @ replicate (n - length p) 0,
            if int (length r) \<le> off \<or> length p < n then Some EOF else None))"

text \<open>\<open>io.ReadFull\<close> from a reader that has the bytes \<open>r\<close> left.\<close>

definition ReadFull :: "nat \<Rightarrow> bytes \<Rightarrow> (bytes \<times> bytes) res" where
  "ReadFull n r =
     (if n \<le> length r then gives (take n r, drop n r)
      else if r = [] then fails EOF
      else fails ErrUnexpectedEOF)"

record File =
  hd1 :: FileHeader
  zipr :: bytes
  zipsize :: int
  headerOffset :: int

section \<open>The end of the directory\<close>

text \<open>The loop of \<open>findSignatureInBlock\<close> from \<open>i\<close> down; \<^const>\<open>None\<close> is -1.\<close>

definition sig_at :: "bytes \<Rightarrow> nat \<Rightarrow> bool" where
  "sig_at b i \<longleftrightarrow>
     b ! i = 0x50 \<and> b ! (i + 1) = 0x4b \<and> b ! (i + 2) = 0x05 \<and> b ! (i + 3) = 0x06 \<and>
     unat (b ! (i + directoryEndLen - 2)) + 256 * unat (b ! (i + directoryEndLen - 1)) + directoryEndLen + i \<le> length b"

fun sig_loop :: "bytes \<Rightarrow> nat \<Rightarrow> nat option" where
  "sig_loop b 0 = (if sig_at b 0 then Some 0 else None)"
| "sig_loop b (Suc i) = (if sig_at b (Suc i) then Some (Suc i) else sig_loop b i)"

definition findSignatureInBlock :: "bytes \<Rightarrow> nat option" where
  "findSignatureInBlock b =
     (if length b < directoryEndLen then None else sig_loop b (length b - directoryEndLen))"

text \<open>
  The loop of \<open>readDirectoryEnd\<close> over the two lengths, \<open>i\<close> being the index: the bytes from the signature on, and its
  offset.
\<close>

definition look_for_end :: "bytes \<Rightarrow> int \<Rightarrow> nat \<Rightarrow> int \<Rightarrow> (bytes \<times> int) option res" where
  "look_for_end r sz i bLen0 =
     (let bLen = (if bLen0 > sz then sz else bLen0)
      in if bLen < 0 then None
         else
           case ReadAt r (nat bLen) (sz - bLen) of
             (buf, e) \<Rightarrow>
               if e \<noteq> None \<and> e \<noteq> Some EOF then fails (the e)
               else
                 case findSignatureInBlock buf of
                   Some p \<Rightarrow> gives (Some (drop p buf, sz - bLen + int p))
                 | None \<Rightarrow> if i = 1 \<or> bLen = sz then fails ErrFormat else gives None)"

definition find_end :: "bytes \<Rightarrow> int \<Rightarrow> (bytes \<times> int) res" where
  "find_end r sz =
     res_bind (look_for_end r sz 0 1024) (\<lambda>x.
       case x of
         Some y \<Rightarrow> gives y
       | None \<Rightarrow> res_bind (look_for_end r sz 1 (65 * 1024)) (\<lambda>x. case x of Some y \<Rightarrow> gives y | None \<Rightarrow> fails ErrFormat))"

definition end_fields :: "bytes \<Rightarrow> (directoryEnd \<times> bytes) option" where
  "end_fields b =
     do {
       b \<leftarrow> rb_skip 4 b;
       (dn, b) \<leftarrow> rb_uint16 b;
       (dd, b) \<leftarrow> rb_uint16 b;
       (rt, b) \<leftarrow> rb_uint16 b;
       (rr, b) \<leftarrow> rb_uint16 b;
       (sz, b) \<leftarrow> rb_uint32 b;
       (off, b) \<leftarrow> rb_uint32 b;
       (cl, b) \<leftarrow> rb_uint16 b;
       Some (\<lparr>diskNbr = ucast dn, dirDiskNbr = ucast dd, dirRecordsThisDisk = ucast rt, directoryRecords = ucast rr,
              directorySize = ucast sz, directoryOffset = ucast off, commentLen = cl, dcomment = []\<rparr>, b)
     }"

definition findDirectory64End :: "bytes \<Rightarrow> int \<Rightarrow> int res" where
  "findDirectory64End r directoryEndOffset =
     (let locOffset = directoryEndOffset - int directory64LocLen
      in if locOffset < 0 then gives (- 1)
         else
           case ReadAt r directory64LocLen locOffset of
             (_, Some e) \<Rightarrow> fails e
           | (buf, None) \<Rightarrow>
               do {
                 (sig, b) \<leftarrow> rb_uint32 buf;
                 if sig \<noteq> directory64LocSignature then gives (- 1)
                 else do {
                   b \<leftarrow> rb_skip 4 b;
                   (p, b) \<leftarrow> rb_uint64 b;
                   gives (sint p)
                 }
               })"

definition readDirectory64End :: "bytes \<Rightarrow> int \<Rightarrow> directoryEnd \<Rightarrow> directoryEnd res" where
  "readDirectory64End r offset d =
     (case ReadAt r directory64EndLen offset of
        (_, Some e) \<Rightarrow> fails e
      | (buf, None) \<Rightarrow>
          do {
            (sig, b) \<leftarrow> rb_uint32 buf;
            if sig \<noteq> directory64EndSignature then fails ErrFormat
            else do {
              b \<leftarrow> rb_skip 12 b;
              (dn, b) \<leftarrow> rb_uint32 b;
              (dd, b) \<leftarrow> rb_uint32 b;
              (rt, b) \<leftarrow> rb_uint64 b;
              (rr, b) \<leftarrow> rb_uint64 b;
              (sz, b) \<leftarrow> rb_uint64 b;
              (off, b) \<leftarrow> rb_uint64 b;
              gives (d\<lparr>diskNbr := dn, dirDiskNbr := dd, dirRecordsThisDisk := rt, directoryRecords := rr,
                       directorySize := sz, directoryOffset := off\<rparr>)
            }
          })"

definition read_zip64 :: "bytes \<Rightarrow> int \<Rightarrow> directoryEnd \<Rightarrow> directoryEnd res" where
  "read_zip64 r directoryEndOffset d =
     res_bind (findDirectory64End r directoryEndOffset) (\<lambda>p. if p \<ge> 0 then readDirectory64End r p d else gives d)"

definition check_offset :: "int \<Rightarrow> directoryEnd \<Rightarrow> directoryEnd res" where
  "check_offset sz d =
     (let o1 = sint (directoryOffset d) in if o1 < 0 \<or> o1 \<ge> sz then fails ErrFormat else gives d)"

definition readDirectoryEnd :: "bytes \<Rightarrow> int \<Rightarrow> directoryEnd res" where
  "readDirectoryEnd r sz =
     res_bind (find_end r sz) (\<lambda>(buf, directoryEndOffset).
       case end_fields buf of
         None \<Rightarrow> None
       | Some (d, b) \<Rightarrow>
           let l = unat (commentLen d)
           in if l > length b then fails ErrCommentLength
              else res_bind (read_zip64 r directoryEndOffset (d\<lparr>dcomment := take l b\<rparr>)) (check_offset sz))"

section \<open>A directory header\<close>

text \<open>The fixed part: the header so far, and the lengths of the name, the extra field and the comment.\<close>

definition header_fields :: "bytes \<Rightarrow> (FileHeader \<times> int \<times> nat \<times> nat \<times> nat) res" where
  "header_fields buf =
     do {
       (sig, b) \<leftarrow> rb_uint32 buf;
       if sig \<noteq> directoryHeaderSignature then fails ErrFormat
       else do {
         (cv, b) \<leftarrow> rb_uint16 b;
         (rv, b) \<leftarrow> rb_uint16 b;
         (fl, b) \<leftarrow> rb_uint16 b;
         (me, b) \<leftarrow> rb_uint16 b;
         (mt, b) \<leftarrow> rb_uint16 b;
         (md, b) \<leftarrow> rb_uint16 b;
         (crc, b) \<leftarrow> rb_uint32 b;
         (cs, b) \<leftarrow> rb_uint32 b;
         (us, b) \<leftarrow> rb_uint32 b;
         (nl, b) \<leftarrow> rb_uint16 b;
         (el, b) \<leftarrow> rb_uint16 b;
         (cl, b) \<leftarrow> rb_uint16 b;
         b \<leftarrow> rb_skip 4 b;
         (ea, b) \<leftarrow> rb_uint32 b;
         (ho, b) \<leftarrow> rb_uint32 b;
         gives (zero_FileHeader\<lparr>CreatorVersion := cv, ReaderVersion := rv, Flags := fl, Method := me, ModifiedTime := mt,
                  ModifiedDate := md, CRC32 := crc, CompressedSize := cs, UncompressedSize := us,
                  CompressedSize64 := ucast cs, UncompressedSize64 := ucast us, ExternalAttrs := ea\<rparr>,
                uint ho, unat nl, unat el, unat cl)
       }
     }"

text \<open>One block of the extra field, on the header and its offset.\<close>

text \<open>\<open>if len(eb) >= 8 { ... = eb.uint64() }\<close>, three times: without eight bytes nothing is read.\<close>

definition zip64_block :: "bytes \<Rightarrow> FileHeader \<times> int \<Rightarrow> FileHeader \<times> int" where
  "zip64_block eb f =
     (let (h, off) = f;
          (h, eb) = (case rb_uint64 eb of Some (v, eb) \<Rightarrow> (h\<lparr>UncompressedSize64 := v\<rparr>, eb) | None \<Rightarrow> (h, eb));
          (h, eb) = (case rb_uint64 eb of Some (v, eb) \<Rightarrow> (h\<lparr>CompressedSize64 := v\<rparr>, eb) | None \<Rightarrow> (h, eb))
      in case rb_uint64 eb of Some (v, eb) \<Rightarrow> (h, sint v) | None \<Rightarrow> (h, off))"

definition aes_block :: "bytes \<Rightarrow> FileHeader \<times> int \<Rightarrow> (FileHeader \<times> int) option" where
  "aes_block eb f =
     do {
       (v, eb) \<leftarrow> rb_uint16 eb;
       (vendor, eb) \<leftarrow> rb_uint16 eb;
       (s, eb) \<leftarrow> rb_uint8 eb;
       (me, eb) \<leftarrow> rb_uint16 eb;
       Some ((fst f)\<lparr>ae := v, aesStrength := s, Method := me\<rparr>, snd f)
     }"

definition extra_block :: "16 word \<Rightarrow> bytes \<Rightarrow> FileHeader \<times> int \<Rightarrow> (FileHeader \<times> int) option" where
  "extra_block tag eb f =
     (if tag = zip64ExtraId then Some (zip64_block eb f)
      else if tag = winzipAesExtraId then aes_block eb f
      else Some f)"

function extra_loop :: "bytes \<Rightarrow> FileHeader \<times> int \<Rightarrow> (FileHeader \<times> int) res" where
  "extra_loop b f =
     (if length b \<ge> 4
      then
        let tag = le_word (take 2 b); n = unat (le_word (take 2 (drop 2 b)) :: 16 word); b = drop 4 b
        in if n > length b then fails ErrFormat
           else
             case extra_block tag (take n b) f of
               None \<Rightarrow> None
             | Some f \<Rightarrow> extra_loop (drop n b) f
      else if \<exists>v\<in>set b. v \<noteq> 0 then fails ErrFormat
      else gives f)"
  by auto
termination by (relation "measure (\<lambda>(b, f). length b)") auto

declare extra_loop.simps [simp del]

text \<open>What is left of the reader, and the file.\<close>

definition readDirectoryHeader :: "bytes \<Rightarrow> int \<Rightarrow> bytes \<Rightarrow> (File \<times> bytes) res" where
  "readDirectoryHeader zr sz r =
     res_bind (ReadFull directoryHeaderLen r) (\<lambda>(buf, r).
     res_bind (header_fields buf) (\<lambda>(h, off, nl, el, cl).
     res_bind (ReadFull (nl + el + cl) r) (\<lambda>(d, r).
       let h = h\<lparr>Name := take nl d, Extra := take el (drop nl d), Comment := drop (nl + el) d\<rparr>
       in res_bind (if length (Extra h) > 0 then extra_loop (Extra h) (h, off) else gives (h, off)) (\<lambda>(h, off).
            gives (\<lparr>hd1 = h, zipr = zr, zipsize = sz, headerOffset = off\<rparr>, r)))))"

section \<open>The reader\<close>

record Reader =
  rr :: bytes
  rFile :: "File list"
  rComment :: bytes

text \<open>The loop of \<open>init\<close>: the files, and the error that ended it.\<close>

lemma readDirectoryHeader_shorter:
  "readDirectoryHeader zr sz r = gives (f, r') \<Longrightarrow> length r' < length r"
  by (auto simp: readDirectoryHeader_def res_bind_def ReadFull_def Let_def split: if_splits option.splits sum.splits)

function dir_loop :: "bytes \<Rightarrow> int \<Rightarrow> bytes \<Rightarrow> (File list \<times> zip_error) res" where
  "dir_loop zr sz r =
     (case readDirectoryHeader zr sz r of
        None \<Rightarrow> None
      | Some (Inl e) \<Rightarrow> if e = ErrFormat \<or> e = ErrUnexpectedEOF then gives ([], e) else fails e
      | Some (Inr (f, r)) \<Rightarrow> res_bind (dir_loop zr sz r) (\<lambda>(fs, e). gives (f # fs, e)))"
  by auto
termination
  by (relation "measure (\<lambda>(zr, sz, r). length r)") (auto dest: readDirectoryHeader_shorter)

declare dir_loop.simps [simp del]

definition NewReader :: "bytes \<Rightarrow> int \<Rightarrow> Reader res" where
  "NewReader r sz =
     res_bind (readDirectoryEnd r sz) (\<lambda>end1.
       if directoryRecords end1 > word_of_int sz div of_nat fileHeaderLen
       then fails (ErrImpossibleCount (directoryRecords end1) sz)
       else
         res_bind (dir_loop r sz (drop (unat (directoryOffset end1)) (take (nat sz) r))) (\<lambda>(fs, e).
           if (of_nat (length fs) :: 16 word) \<noteq> ucast (directoryRecords end1) then fails e
           else gives \<lparr>rr = r, rFile = fs, rComment = dcomment end1\<rparr>))"

end
