(* ===== verification/Zip_Readback.thy ===== *)
theory Zip_Readback imports Zip_Archive Zip_Reader begin

text \<open>
  \<open>NewReader\<close> over the bytes that the writer leaves: it finds the end records, goes through the directory and gives the
  files in their order.
\<close>

section \<open>Reading at an offset\<close>

lemma ReadAt_here:
  "0 < n \<Longrightarrow> length q = n \<Longrightarrow> int (length p) = off \<Longrightarrow> ReadAt (p @ q @ s) n off = (q, None)"
  by (auto simp: ReadAt_def)

lemma ReadFull_append: "length p = n \<Longrightarrow> ReadFull n (p @ q) = gives (p, q)"
  by (auto simp: ReadFull_def)

lemma sint_of_int64: "0 \<le> i \<Longrightarrow> i < 2 ^ 63 \<Longrightarrow> sint (word_of_int i :: 64 word) = i"
  by (simp add: sint_sbintrunc' signed_take_bit_int_eq_self)

lemma uint_small: "0 \<le> i \<Longrightarrow> i < 2 ^ 63 \<Longrightarrow> uint (word_of_int i :: 64 word) = i"
  by (simp add: uint_word_of_int take_bit_int_eq_self)

section \<open>The end record\<close>

lemma length_endrec [simp]: "length (endrec_bytes n s o1) = 22"
  by (simp add: endrec_bytes_def)

lemma length_end64 [simp]: "length (end64_bytes n s o1 e) = 76"
  by (simp add: end64_bytes_def)

lemma le_bytes_numeral: "le_bytes (numeral k) v = map (\<lambda>i. ucast (drop_bit (8 * i) v)) [0..<numeral k]"
  by (rule le_bytes_def)

lemma signature_bytes: "wb_uint32 directoryEndSignature = [0x50, 0x4b, 0x05, 0x06]"
  by (simp add: wb_defs directoryEndSignature_def le_bytes_def upt_rec_numeral numeral_eq_Suc [symmetric] del: upt_Suc)
    (simp add: upt_rec drop_bit_word_numeral)

lemma sig_at_end: "sig_at (q @ endrec_bytes n s o1) (length q)"
  by (simp add: sig_at_def endrec_bytes_def signature_bytes nth_append wb_skip_def)

lemma find_end_here:
  "find_end (p @ endrec_bytes n s o1) (int (length p) + 22) = gives (endrec_bytes n s o1, int (length p))"
proof -
  let ?e = "endrec_bytes n s o1" and ?r = "p @ endrec_bytes n s o1"
  define k where "k = length ?r - 1024"
  have k: "k \<le> length p" by (simp add: k_def)
  have read: "ReadAt ?r (length ?r - k) (int k) = (drop k p @ ?e, None)"
    using k by (auto simp: ReadAt_def)
  have sig: "findSignatureInBlock (drop k p @ ?e) = Some (length p - k)"
  proof -
    have "sig_loop (drop k p @ ?e) (length (drop k p)) = Some (length (drop k p))"
      using sig_at_end [of "drop k p" n s o1] by (cases "length (drop k p)") simp_all
    then show ?thesis by (simp add: findSignatureInBlock_def)
  qed
  have len: "(if int (length p) + 22 < 1024 then int (length p) + 22 else 1024) = int (length ?r - k)"
    "int (length p) + 22 - int (length ?r - k) = int k"
    by (auto simp: k_def)
  have "look_for_end ?r (int (length p) + 22) 0 1024 = gives (Some (?e, int (length p)))"
    using k unfolding look_for_end_def Let_def len by (simp add: read sig del: of_nat_diff length_append)
  then show ?thesis by (simp add: find_end_def)
qed


definition end_record :: "64 word \<Rightarrow> 64 word \<Rightarrow> 64 word \<Rightarrow> directoryEnd" where
  "end_record n s o1 =
     \<lparr>diskNbr = 0, dirDiskNbr = 0, dirRecordsThisDisk = n, directoryRecords = n, directorySize = s, directoryOffset = o1,
      commentLen = 0, dcomment = []\<rparr>"

lemma rb_zero: "rb_uint16 (0 # 0 # r) = Some (0, r)"
  by (simp add: rb_uint16_def le_word_def numeral_2_eq_2)

lemma skip_zero: "wb_skip 2 = [0, 0]" "wb_skip 4 @ r = 0 # 0 # 0 # 0 # r"
  by (simp_all add: wb_skip_def numeral_eq_Suc)

lemma end_fields_bytes:
  "end_fields (endrec_bytes n s o1) =
     Some (end_record (ucast (ucast n :: 16 word)) (ucast (ucast s :: 32 word)) (ucast (ucast o1 :: 32 word)), [])"
  by (simp add: end_fields_def endrec_bytes_def end_record_def rb_wb rb_zero skip_zero
      rb_le_bytes(5) [of "wb_uint32 v" for v])

text \<open>No locator of zip64 is found before an end record at \<open>e\<close>.\<close>

definition no_locator :: "bytes \<Rightarrow> nat \<Rightarrow> bool" where
  "no_locator r e \<longleftrightarrow> e < 20 \<or> take 4 (drop (e - 20) r) \<noteq> wb_uint32 directory64LocSignature"

lemma le_bytes_le_word:
  "length p = n \<Longrightarrow> 8 * n \<le> LENGTH('a) \<Longrightarrow> le_bytes n (le_word p :: 'a::len word) = p"
proof (induction p arbitrary: n)
  case (Cons b p)
  then obtain k where n: "n = Suc k" by (cases n) auto
  let ?w = "ucast b OR push_bit 8 (le_word p) :: 'a word"
  have b: "(ucast ?w :: byte) = b"
    using Cons.prems(2) n by (intro bit_word_eqI) (auto simp: bit_simps)
  have "le_bytes k (drop_bit 8 ?w) = le_bytes k (le_word p :: 'a word)"
    unfolding le_bytes_def
  proof (rule map_cong [OF refl])
    fix i assume "i \<in> set [0..<k]"
    then have i: "8 * i + 16 \<le> LENGTH('a)" using Cons.prems(2) n by simp
    show "(ucast (drop_bit (8 * i) (drop_bit 8 ?w)) :: byte) = ucast (drop_bit (8 * i) (le_word p :: 'a word))"
      using i by (intro bit_word_eqI) (auto simp: bit_simps dest: bit_imp_le_length)
  qed
  then show ?case using Cons.IH [of k] Cons.prems n b by (simp add: le_bytes_Suc)
qed (simp add: le_bytes_def)

lemma le_word_inject:
  "LENGTH('a::len) = 8 * n \<Longrightarrow> length p = n \<Longrightarrow> length q = n \<Longrightarrow> (le_word p :: 'a word) = le_word q \<Longrightarrow> p = q"
  by (metis le_bytes_le_word order_refl)

lemma no_locator_read:
  assumes "no_locator (p @ endrec_bytes n s o1) (length p)"
  shows "findDirectory64End (p @ endrec_bytes n s o1) (int (length p)) = gives (- 1)"
proof (cases "length p < 20")
  case True
  then show ?thesis by (simp add: findDirectory64End_def Let_def)
next
  case False
  define q where "q = drop (length p - 20) p"
  have q: "length q = 20" "p = take (length p - 20) p @ q" using False by (simp_all add: q_def)
  have read: "ReadAt (p @ endrec_bytes n s o1) 20 (int (length p) - 20) = (q, None)"
    using ReadAt_here [of 20 q "take (length p - 20) p" "int (length p) - 20" "endrec_bytes n s o1"] q False
    by (simp add: of_nat_diff flip: append_assoc)
  have "take 4 q \<noteq> wb_uint32 directory64LocSignature"
    using assms False by (simp add: no_locator_def q_def)
  moreover have "le_word (wb_uint32 directory64LocSignature) = directory64LocSignature"
    by (simp add: wb_uint32_def le_word_le_bytes)
  ultimately have "le_word (take 4 q) \<noteq> directory64LocSignature"
    using le_word_inject [where 'a = 32 and n = 4 and p = "take 4 q" and q = "wb_uint32 directory64LocSignature"] q(1) by auto
  then show ?thesis using False q(1) by (simp add: findDirectory64End_def Let_def read rb_uint32_def)
qed

lemma end64_split:
  obtains b where "end64_bytes n s o1 e =
      concat [wb_uint32 directory64EndSignature, wb_uint64 44, wb_uint16 zipVersion45, wb_uint16 zipVersion45, wb_uint32 0,
        wb_uint32 0, wb_uint64 n, wb_uint64 n, wb_uint64 s, wb_uint64 o1] @ b"
    "b = concat [wb_uint32 directory64LocSignature, wb_uint32 0, wb_uint64 e, wb_uint32 1]"
  by (simp add: end64_bytes_def)

lemma locator_read:
  assumes "0 \<le> e" "e < 2 ^ 63"
  shows "findDirectory64End (p @ end64_bytes n s o1 (word_of_int e) @ t) (int (length p) + 76) = gives e"
proof -
  obtain b where b: "end64_bytes n s o1 (word_of_int e) =
      concat [wb_uint32 directory64EndSignature, wb_uint64 44, wb_uint16 zipVersion45, wb_uint16 zipVersion45, wb_uint32 0,
        wb_uint32 0, wb_uint64 n, wb_uint64 n, wb_uint64 s, wb_uint64 o1] @ b" (is "_ = ?a @ b")
    "b = concat [wb_uint32 directory64LocSignature, wb_uint32 0, wb_uint64 (word_of_int e), wb_uint32 1]"
    by (rule end64_split)
  have "ReadAt ((p @ ?a) @ b @ t) 20 (int (length p) + 56) = (b, None)"
    by (rule ReadAt_here) (simp_all add: b(2))
  then have "ReadAt (p @ end64_bytes n s o1 (word_of_int e) @ t) 20 (56 + int (length p)) = (b, None)"
    by (simp add: b(1) add.commute)
  then show ?thesis
    by (simp add: findDirectory64End_def Let_def b(2) rb_wb rb_le_bytes(5) sint_of_int64 [OF assms])
qed

lemma end64_read:
  "readDirectory64End (p @ end64_bytes n s o1 e @ t) (int (length p)) d =
     gives (d\<lparr>diskNbr := 0, dirDiskNbr := 0, dirRecordsThisDisk := n, directoryRecords := n, directorySize := s,
              directoryOffset := o1\<rparr>)"
proof -
  obtain b where b: "end64_bytes n s o1 e =
      concat [wb_uint32 directory64EndSignature, wb_uint64 44, wb_uint16 zipVersion45, wb_uint16 zipVersion45, wb_uint32 0,
        wb_uint32 0, wb_uint64 n, wb_uint64 n, wb_uint64 s, wb_uint64 o1] @ b" (is "_ = ?a @ b")
    by (rule end64_split)
  have "ReadAt (p @ ?a @ b @ t) 56 (int (length p)) = (?a, None)"
    by (rule ReadAt_here) simp_all
  moreover have "rb_skip 12 (wb_uint64 44 @ wb_uint16 45 @ wb_uint16 45 @ r) = Some r" for r
    using rb_le_bytes(5) [of "wb_uint64 44 @ wb_uint16 45 @ wb_uint16 45" 12 r] by simp
  moreover have "rb_uint64 (wb_uint64 o1) = Some (o1, [])" using rb_wb(4) [of o1 "[]"] by simp
  ultimately show ?thesis by (simp add: readDirectory64End_def b rb_wb)
qed


lemma ucast_back:
  fixes v :: "64 word"
  shows "uint v \<le> uint16max \<Longrightarrow> ucast (ucast v :: 16 word) = v" "uint v \<le> uint32max \<Longrightarrow> ucast (ucast v :: 32 word) = v"
  unfolding uint16max_def uint32max_def
  by (rule word_uint_eqI, simp add: unsigned_ucast_eq unsigned_take_bit_eq take_bit_int_eq_self)+

lemma readDirectoryEnd_bytes:
  fixes p :: bytes and start :: int and n :: nat
  defines "r \<equiv> p @ end_bytes start (int (length p)) n"
  assumes "0 \<le> start" "start \<le> int (length p)" "int (length r) < 2 ^ 63"
    and "\<not> end_needs64 start (int (length p)) n \<Longrightarrow> no_locator r (length p)"
  shows "\<exists>d. readDirectoryEnd r (int (length r)) = gives d \<and> directoryRecords d = of_nat n \<and>
    directoryOffset d = word_of_int start \<and> dcomment d = []"
proof (cases "end_needs64 start (int (length p)) n")
  case True
  let ?n = "of_nat n :: 64 word" and ?s = "word_of_int (int (length p) - start) :: 64 word"
  let ?o = "word_of_int start :: 64 word" and ?e = "word_of_int (int (length p)) :: 64 word"
  obtain t where t: "t = endrec_bytes (word_of_int uint16max) (word_of_int uint32max) (word_of_int uint32max)" by simp
  have r: "r = p @ end64_bytes ?n ?s ?o ?e @ t" by (simp add: r_def end_bytes_def True t)
  have len: "int (length r) = int (length (p @ end64_bytes ?n ?s ?o ?e)) + 22" by (simp add: r t)
  have "find_end r (int (length r)) = gives (t, int (length p) + 76)"
    unfolding len by (simp add: r t find_end_here [of "p @ end64_bytes ?n ?s ?o ?e", simplified])
  moreover obtain d where d: "end_fields t = Some (d, [])" "commentLen d = 0"
    by (simp add: t end_fields_bytes end_record_def)
  moreover have "findDirectory64End r (int (length p) + 76) = gives (int (length p))"
    unfolding r by (rule locator_read) (use assms(4) in \<open>simp_all add: r_def\<close>)
  moreover have "readDirectory64End r (int (length p)) d' = gives (d'\<lparr>diskNbr := 0, dirDiskNbr := 0,
      dirRecordsThisDisk := ?n, directoryRecords := ?n, directorySize := ?s, directoryOffset := ?o\<rparr>)" for d'
    unfolding r by (rule end64_read)
  moreover have "sint ?o = start" by (rule sint_of_int64) (use assms(2-4) in \<open>simp_all add: r_def\<close>)
  ultimately show ?thesis
    using assms(2,3) by (simp add: readDirectoryEnd_def read_zip64_def check_offset_def Let_def r t)
next
  case False
  let ?n = "of_nat n :: 64 word" and ?s = "word_of_int (int (length p) - start) :: 64 word"
  let ?o = "word_of_int start :: 64 word"
  have r: "r = p @ endrec_bytes ?n ?s ?o" by (simp add: r_def end_bytes_def False)
  have "find_end r (int (length r)) = gives (endrec_bytes ?n ?s ?o, int (length p))"
    unfolding r by (simp add: find_end_here)
  moreover have "findDirectory64End r (int (length p)) = gives (- 1)"
    unfolding r by (rule no_locator_read) (use assms(5) False in \<open>simp add: r\<close>)
  moreover have "end_fields (endrec_bytes ?n ?s ?o) = Some (end_record ?n ?s ?o, [])"
    using False by (simp add: end_fields_bytes ucast_back end_needs64_def not_less)
  moreover have "sint ?o = start" by (rule sint_of_int64) (use assms(2-4) in \<open>simp_all add: r_def\<close>)
  ultimately show ?thesis
    using assms(2,3) by (simp add: readDirectoryEnd_def read_zip64_def check_offset_def Let_def r end_record_def)
qed

section \<open>A header of the directory\<close>

lemma header_fields_bytes:
  "header_fields (dir_fixed h off) =
     gives (zero_FileHeader\<lparr>CreatorVersion := CreatorVersion h, ReaderVersion := ReaderVersion h, Flags := Flags h,
              Method := Method h, ModifiedTime := ModifiedTime h, ModifiedDate := ModifiedDate h, CRC32 := CRC32 h,
              CompressedSize := (if needs_zip64 h off then word_of_int uint32max else CompressedSize h),
              UncompressedSize := (if needs_zip64 h off then word_of_int uint32max else UncompressedSize h),
              CompressedSize64 := ucast (if needs_zip64 h off then word_of_int uint32max else CompressedSize h),
              UncompressedSize64 := ucast (if needs_zip64 h off then word_of_int uint32max else UncompressedSize h),
              ExternalAttrs := ExternalAttrs h\<rparr>,
            uint (if uint off > uint32max then word_of_int uint32max else ucast off :: 32 word),
            unat (of_nat (length (Name h)) :: 16 word), unat (of_nat (length (Extra h)) :: 16 word),
            unat (of_nat (length (Comment h)) :: 16 word))"
proof -
  have last: "rb_uint32 (wb_uint32 v) = Some (v, [])" for v using rb_wb(3) [of v "[]"] by simp
  show ?thesis
    by (cases "needs_zip64 h off") (simp_all add: header_fields_def dir_fixed_def rb_wb last del: skip_zero)
qed


section \<open>The extra field\<close>

text \<open>An extra field made of whole blocks that the reader has no use for.\<close>

definition block_bytes :: "16 word \<Rightarrow> bytes \<Rightarrow> bytes" where
  "block_bytes tag d = wb_uint16 tag @ wb_uint16 (of_nat (length d)) @ d"

definition plain_block :: "16 word \<times> bytes \<Rightarrow> bool" where
  "plain_block b \<longleftrightarrow> length (snd b) < 65536 \<and> fst b \<noteq> zip64ExtraId \<and> fst b \<noteq> winzipAesExtraId"

definition plain_extra :: "bytes \<Rightarrow> bool" where
  "plain_extra x \<longleftrightarrow> (\<exists>bs. list_all plain_block bs \<and> x = concat (map (\<lambda>(tag, d). block_bytes tag d) bs))"

lemma unat_length: "n < 65536 \<Longrightarrow> unat (of_nat n :: 16 word) = n"
  by (simp add: unsigned_of_nat take_bit_nat_eq_self)

lemma extra_loop_block:
  assumes "length d < 65536" "extra_block tag d f = Some f'"
  shows "extra_loop (block_bytes tag d @ r) f = extra_loop r f'"
  using assms
  by (subst extra_loop.simps)
    (simp add: block_bytes_def wb_uint16_def le_word_le_bytes unat_length Let_def)

lemma extra_loop_plain:
  assumes "plain_extra x"
  shows "extra_loop (x @ r) f = extra_loop r f"
proof -
  obtain bs where "list_all plain_block bs" "x = concat (map (\<lambda>(tag, d). block_bytes tag d) bs)"
    using assms by (auto simp: plain_extra_def)
  then show ?thesis
  proof (induction bs arbitrary: x)
    case (Cons b bs)
    then show ?case
      by (cases b) (simp add: extra_loop_block [where f' = f] plain_block_def extra_block_def)
  qed simp
qed

lemma extra_loop_Nil: "extra_loop [] f = gives f"
  by (subst extra_loop.simps) simp

lemma winZipExtra_block:
  "winZipExtra h = block_bytes winzipAesExtraId (wb_uint16 2 @ wb_uint16 0x4541 @ wb_uint8 (aesStrength h) @ wb_uint16 (Method h))"
  by (simp add: winZipExtra_def block_bytes_def)

lemma extra_loop_aes:
  "extra_loop (winZipExtra h @ r) (fh, off) = extra_loop r (fh\<lparr>ae := 2, aesStrength := aesStrength h, Method := Method h\<rparr>, off)"
proof -
  have "rb_uint16 (wb_uint16 v) = Some (v, [])" for v using rb_wb(2) [of v "[]"] by simp
  then show ?thesis
    unfolding winZipExtra_block by (intro extra_loop_block) (simp_all add: extra_block_def aes_block_def rb_wb)
qed

definition zip64_bytes :: "FileHeader \<Rightarrow> 64 word \<Rightarrow> bytes" where
  "zip64_bytes h off = wb_uint64 (UncompressedSize64 h) @ wb_uint64 (CompressedSize64 h) @ wb_uint64 off"

lemma dir_header_Extra:
  "Extra (dir_header h off) = Extra h @ (if needs_zip64 h off then block_bytes zip64ExtraId (zip64_bytes h off) else [])"
  by (simp add: dir_header_def block_bytes_def zip64_bytes_def)

lemma extra_loop_zip64:
  "extra_loop (block_bytes zip64ExtraId (zip64_bytes h off) @ r) (fh, o1) =
     extra_loop r (fh\<lparr>UncompressedSize64 := UncompressedSize64 h, CompressedSize64 := CompressedSize64 h\<rparr>, sint off)"
proof -
  have "rb_uint64 (wb_uint64 v) = Some (v, [])" for v using rb_wb(4) [of v "[]"] by simp
  then show ?thesis
    by (intro extra_loop_block) (simp_all add: extra_block_def zip64_block_def zip64_bytes_def rb_wb Let_def)
qed

section \<open>What the reader makes of a header\<close>

text \<open>\<open>fh\<close> is the header as the caller made it, \<open>h\<close> what it was when the file was closed.\<close>

definition by_aes :: "FileHeader \<Rightarrow> bool" where
  "by_aes fh \<longleftrightarrow> password fh \<noteq> None \<and> encryption fh \<noteq> StandardEncryption"

definition listed :: "FileHeader \<Rightarrow> FileHeader \<Rightarrow> 64 word \<Rightarrow> FileHeader" where
  "listed fh h off =
     zero_FileHeader
       \<lparr>Name := Name fh, CreatorVersion := CreatorVersion h, ReaderVersion := ReaderVersion h, Flags := Flags h,
        Method := Method fh, ModifiedTime := ModifiedTime fh, ModifiedDate := ModifiedDate fh, CRC32 := CRC32 h,
        CompressedSize := (if needs_zip64 h off then word_of_int uint32max else CompressedSize h),
        UncompressedSize := (if needs_zip64 h off then word_of_int uint32max else UncompressedSize h),
        CompressedSize64 := CompressedSize64 h, UncompressedSize64 := UncompressedSize64 h,
        Extra := Extra (dir_header h off), ExternalAttrs := ExternalAttrs fh, Comment := Comment fh,
        ae := (if by_aes fh then 2 else 0), aesStrength := (if by_aes fh then aesStrength fh else 0)\<rparr>"

text \<open>The lengths fit their fields in the header, and the extra field is readable.\<close>

definition fits :: "FileHeader \<Rightarrow> bool" where
  "fits fh \<longleftrightarrow> length (Name fh) < 65536 \<and> length (Comment fh) < 65536 \<and> length (Extra fh) + 39 < 65536 \<and> plain_extra (Extra fh)"

lemma dir_header_simps [simp]:
  "Name (dir_header h off) = Name h" "Comment (dir_header h off) = Comment h"
  "CreatorVersion (dir_header h off) = CreatorVersion h" "ReaderVersion (dir_header h off) = ReaderVersion h"
  "Flags (dir_header h off) = Flags h" "Method (dir_header h off) = Method h"
  "ModifiedTime (dir_header h off) = ModifiedTime h" "ModifiedDate (dir_header h off) = ModifiedDate h"
  "CRC32 (dir_header h off) = CRC32 h" "CompressedSize (dir_header h off) = CompressedSize h"
  "UncompressedSize (dir_header h off) = UncompressedSize h" "ExternalAttrs (dir_header h off) = ExternalAttrs h"
  "needs_zip64 (dir_header h off) o1 = needs_zip64 h o1"
  by (simp_all add: dir_header_def needs_zip64_def isZip64_def)

lemma sized_simps [simp]:
  "Name (sized_header c cc rc h) = Name h" "Comment (sized_header c cc rc h) = Comment h"
  "CreatorVersion (sized_header c cc rc h) = CreatorVersion h" "Flags (sized_header c cc rc h) = Flags h"
  "Method (sized_header c cc rc h) = Method h" "ModifiedTime (sized_header c cc rc h) = ModifiedTime h"
  "ModifiedDate (sized_header c cc rc h) = ModifiedDate h" "ExternalAttrs (sized_header c cc rc h) = ExternalAttrs h"
  "Extra (sized_header c cc rc h) = Extra h" "CompressedSize64 (sized_header c cc rc h) = word_of_int cc"
  "UncompressedSize64 (sized_header c cc rc h) = word_of_int rc"
  by (simp_all add: sized_header_def Let_def)

lemma sized_32:
  assumes "\<not> isZip64 (sized_header c cc rc h)"
  shows "ucast (CompressedSize (sized_header c cc rc h)) = CompressedSize64 (sized_header c cc rc h)"
    "ucast (UncompressedSize (sized_header c cc rc h)) = UncompressedSize64 (sized_header c cc rc h)"
proof -
  have "uint (word_of_int cc :: 64 word) \<le> uint32max" "uint (word_of_int rc :: 64 word) \<le> uint32max"
    using assms by (simp_all add: isZip64_def)
  then show "ucast (CompressedSize (sized_header c cc rc h)) = CompressedSize64 (sized_header c cc rc h)"
    "ucast (UncompressedSize (sized_header c cc rc h)) = UncompressedSize64 (sized_header c cc rc h)"
    by (simp_all add: sized_header_def Let_def isZip64_def ucast_back)
qed

lemma extra_loop_listed:
  assumes "plain_extra (Extra fh)"
  shows "extra_loop (Extra (dir_header (sized_header c cc rc (layered (prepared fh))) off)) (x, o1) =
    gives ((let x = (if by_aes fh then x\<lparr>ae := 2, aesStrength := aesStrength fh, Method := Method fh\<rparr> else x)
            in if needs_zip64 (sized_header c cc rc (layered (prepared fh))) off
               then x\<lparr>UncompressedSize64 := word_of_int rc, CompressedSize64 := word_of_int cc\<rparr> else x),
           if needs_zip64 (sized_header c cc rc (layered (prepared fh))) off then sint off else o1)"
proof -
  have x: "Extra (layered (prepared fh)) = Extra fh @ (if by_aes fh then winZipExtra (prepared fh) else [])"
    by (simp add: layered_def by_aes_def)
  show ?thesis
    unfolding dir_header_Extra
    using assms extra_loop_zip64 [of "sized_header c cc rc (layered (prepared fh))" off "[]"]
      extra_loop_aes [of "prepared fh" "[]"]
    by (simp add: x extra_loop_plain extra_loop_plain [of _ "[]", simplified] extra_loop_aes extra_loop_Nil Let_def)
qed


lemma length_Extra_dir:
  "length (Extra fh) + 39 < 65536 \<Longrightarrow>
   length (Extra (dir_header (sized_header c cc rc (layered (prepared fh))) off)) < 65536"
  by (simp add: dir_header_Extra layered_def zip64_bytes_def block_bytes_def)

lemma readDirectoryHeader_listed:
  fixes c :: "32 word" and cc rc :: int
  assumes "fits fh" "uint off < 2 ^ 63"
  defines "h \<equiv> sized_header c cc rc (layered (prepared fh))"
  shows "readDirectoryHeader zr sz (dir_bytes h off @ t) =
    gives (\<lparr>hd1 = listed fh h off, zipr = zr, zipsize = sz, headerOffset = uint off\<rparr>, t)"
proof -
  let ?d = "dir_header h off"
  have len: "unat (of_nat (length (Name h)) :: 16 word) = length (Name h)"
    "unat (of_nat (length (Extra ?d)) :: 16 word) = length (Extra ?d)"
    "unat (of_nat (length (Comment h)) :: 16 word) = length (Comment h)"
    using assms(1) length_Extra_dir [of fh] by (simp_all add: h_def fits_def unat_length)
  have fixed: "ReadFull 46 (dir_bytes h off @ t) = gives (dir_fixed ?d off, Name h @ Extra ?d @ Comment h @ t)"
    using ReadFull_append [of "dir_fixed ?d off"] by (simp add: dir_bytes_def Let_def)
  have rest: "ReadFull (length (Name h) + length (Extra ?d) + length (Comment h)) (Name h @ Extra ?d @ Comment h @ t)
      = gives (Name h @ Extra ?d @ Comment h, t)"
    using ReadFull_append [of "Name h @ Extra ?d @ Comment h" _ t] by (simp add: add.assoc)
  have extra: "needs_zip64 h off \<Longrightarrow> Extra ?d \<noteq> []" "by_aes fh \<Longrightarrow> Extra ?d \<noteq> []"
    by (auto simp: dir_header_Extra h_def layered_def by_aes_def block_bytes_def winZipExtra_def wb_uint16_def
        simp flip: length_0_conv)
  have off: "sint off = uint off" using sint_of_int64 [of "uint off"] assms(2) by simp
  have small: "uint (ucast off :: 32 word) = uint off" if "\<not> uint32max < uint off"
    using that by (simp add: unsigned_ucast_eq take_bit_int_eq_self uint32max_def)
  have name: "Name h = Name fh" "Comment h = Comment fh" by (simp_all add: h_def)
  have size: "CompressedSize64 h = word_of_int cc" "UncompressedSize64 h = word_of_int rc" by (simp_all add: h_def)
  have meth: "\<not> by_aes fh \<Longrightarrow> Method h = Method fh" by (auto simp: h_def layered_def by_aes_def)
  have size32: "ucast (CompressedSize h) = CompressedSize64 h" "ucast (UncompressedSize h) = UncompressedSize64 h"
    if "\<not> needs_zip64 h off"
    using that sized_32 [of c cc rc "layered (prepared fh)", folded h_def] by (simp_all add: needs_zip64_def)
  have small': "\<not> needs_zip64 h off \<Longrightarrow> \<not> uint32max < uint off" by (simp add: needs_zip64_def)
  have time: "ModifiedTime h = ModifiedTime fh" "ModifiedDate h = ModifiedDate fh" "ExternalAttrs h = ExternalAttrs fh"
    by (simp_all add: h_def)
  have plain: "plain_extra (Extra fh)" using assms(1) by (simp add: fits_def)
  note loop = extra_loop_listed [OF plain, of c cc rc off, folded h_def]
  show ?thesis
    unfolding readDirectoryHeader_def fixed res_bind_simps prod.case header_fields_bytes dir_header_simps len rest
    by (cases "needs_zip64 h off"; cases "by_aes fh")
      (simp_all add: extra loop extra_loop_Nil Let_def listed_def zero_FileHeader_def off small small' size size32 [unfolded size] meth time name)
qed

section \<open>The files in their order\<close>

fun task_files ::
  "crypto \<Rightarrow> (16 word \<rightharpoonup> 'c registered) \<Rightarrow> (nat \<Rightarrow> FileHeader) \<Rightarrow> bytes \<Rightarrow> int \<Rightarrow> task list \<Rightarrow> File list" where
  "task_files cr reg h r off [] = []"
| "task_files cr reg h r off ((a, ps, rnd) # fs) =
     \<lparr>hd1 = listed (h a) (task_header cr reg (h a) ps rnd) (word_of_int off), zipr = r, zipsize = int (length r),
      headerOffset = off\<rparr> # task_files cr reg h r (off + int (length (task_bytes cr reg (h a) ps rnd))) fs"

lemma dir_loop_Cons:
  "readDirectoryHeader zr sz b = gives (f, b') \<Longrightarrow> dir_loop zr sz b' = gives (fs, e) \<Longrightarrow> dir_loop zr sz b = gives (f # fs, e)"
  by (subst dir_loop.simps) simp

lemma dir_loop_stop:
  "readDirectoryHeader zr sz b = fails e \<Longrightarrow> e = ErrFormat \<or> e = ErrUnexpectedEOF \<Longrightarrow> dir_loop zr sz b = gives ([], e)"
  by (subst dir_loop.simps) auto

lemma dir_loop_end: "\<exists>e. dir_loop zr sz (end_bytes start end1 n) = gives ([], e)"
proof (cases "end_needs64 start end1 n")
  case True
  obtain b where b: "end_bytes start end1 n = wb_uint32 directory64EndSignature @ b" "72 \<le> length b"
    by (simp add: end_bytes_def True end64_bytes_def)
  have "rb_uint32 (take 46 (wb_uint32 directory64EndSignature @ b)) = Some (directory64EndSignature, take 42 b)"
    by (simp add: rb_wb)
  then have "header_fields (take 46 (end_bytes start end1 n)) = fails ErrFormat"
    by (simp add: header_fields_def b(1) directory64EndSignature_def directoryHeaderSignature_def)
  then have "readDirectoryHeader zr sz (end_bytes start end1 n) = fails ErrFormat"
    using b by (simp add: readDirectoryHeader_def ReadFull_def)
  then show ?thesis using dir_loop_stop by blast
next
  case False
  then have "length (end_bytes start end1 n) = 22" by (simp add: end_bytes_def)
  moreover from this have "end_bytes start end1 n \<noteq> []" by auto
  ultimately have "readDirectoryHeader zr sz (end_bytes start end1 n) = fails ErrUnexpectedEOF"
    by (simp add: readDirectoryHeader_def ReadFull_def)
  then show ?thesis using dir_loop_stop by blast
qed

lemma dir_loop_tasks:
  assumes "dir_loop r (int (length r)) t = gives ([], e)" "\<And>a. a \<in> fst ` set fs \<Longrightarrow> fits (h a)"
    and "0 \<le> off" "off + int (length (files_bytes cr reg h fs)) < 2 ^ 63" "distinct (map fst fs)"
    and "\<And>a ps rnd. (a, ps, rnd) \<in> set fs \<Longrightarrow> g a = task_header cr reg (h a) ps rnd"
  shows "dir_loop r (int (length r)) (directory_bytes g (task_dir cr reg h off fs) @ t)
    = gives (task_files cr reg h r off fs, e)"
  using assms(2-)
proof (induction fs arbitrary: off)
  case Nil
  then show ?case using assms(1) by (simp add: directory_bytes_def)
next
  case (Cons f fs)
  obtain a ps rnd where f: "f = (a, ps, rnd)" by (cases f)
  let ?off = "off + int (length (task_bytes cr reg (h a) ps rnd))"
  have total: "?off + int (length (files_bytes cr reg h fs)) < 2 ^ 63"
    using Cons.prems(3) by (simp add: f files_bytes_def)
  have IH: "dir_loop r (int (length r)) (directory_bytes g (task_dir cr reg h ?off fs) @ t)
    = gives (task_files cr reg h r ?off fs, e)"
    by (rule Cons.IH) (use Cons.prems total in \<open>auto simp: f\<close>)
  have small: "off < 2 ^ 63" using total by linarith
  have g: "g a = task_header cr reg (h a) ps rnd" using Cons.prems(5) by (simp add: f)
  have "fits (h a)" using Cons.prems(1) by (simp add: f)
  moreover have "uint (word_of_int off :: 64 word) = off" using Cons.prems(2) small by (rule uint_small)
  ultimately have "readDirectoryHeader r (int (length r)) (dir_bytes (g a) (word_of_int off) @ t') =
      gives (\<lparr>hd1 = listed (h a) (task_header cr reg (h a) ps rnd) (word_of_int off), zipr = r, zipsize = int (length r),
               headerOffset = off\<rparr>, t')" for t'
    using readDirectoryHeader_listed [of "h a" "word_of_int off"] small by (simp add: g task_header_def)
  then show ?case
    using IH by (simp add: f directory_bytes_def dir_loop_Cons)
qed

lemma length_task_bytes: "30 \<le> length (task_bytes cr reg fh ps rnd)"
  by (simp add: task_bytes_def local_bytes_def)

lemma length_files_bytes: "30 * length fs \<le> length (files_bytes cr reg h fs)"
proof (induction fs)
  case (Cons f fs)
  then show ?case
    using length_task_bytes by (cases f) (auto simp: files_bytes_def intro!: add_mono)
qed simp

lemma task_heap_here: "distinct (map fst fs) \<Longrightarrow> (a, ps, rnd) \<in> set fs \<Longrightarrow>
  task_heap cr reg h fs a = task_header cr reg (h a) ps rnd"
  by (simp add: task_heap_def)

lemma directory_count_ok:
  assumes "30 * n \<le> len" "int len < 2 ^ 63"
  shows "\<not> (of_nat n :: 64 word) > word_of_int (int len) div of_nat 30"
proof -
  have len: "uint (word_of_int (int len) :: 64 word) = int len" using assms(2) by (intro uint_small) simp_all
  have "int n < 2 ^ 63" using assms by linarith
  then have n: "uint (of_nat n :: 64 word) = int n" using uint_small [of "int n"] by simp
  have "int n \<le> int len div 30" using assms(1) by linarith
  then show ?thesis by (simp only: not_less word_le_def uint_div n len) simp
qed

text \<open>Where the directory ends in the archive behind \<open>pre\<close>; no record before it is taken for a locator of zip64.\<close>

definition directory_end ::
  "crypto \<Rightarrow> (16 word \<rightharpoonup> 'c registered) \<Rightarrow> (nat \<Rightarrow> FileHeader) \<Rightarrow> bytes \<Rightarrow> task list \<Rightarrow> nat \<times> nat" where
  "directory_end cr reg h pre fs =
     (let start = length pre + length (files_bytes cr reg h fs)
      in (start, start + length (directory_bytes (task_heap cr reg h fs) (task_dir cr reg h (int (length pre)) fs))))"

definition clear_end ::
  "crypto \<Rightarrow> (16 word \<rightharpoonup> 'c registered) \<Rightarrow> (nat \<Rightarrow> FileHeader) \<Rightarrow> bytes \<Rightarrow> task list \<Rightarrow> bool" where
  "clear_end cr reg h pre fs \<longleftrightarrow>
     (case directory_end cr reg h pre fs of
        (start, e) \<Rightarrow> end_needs64 (int start) (int e) (length fs) \<or>
          no_locator (pre @ archive_bytes cr reg h (int (length pre)) fs) e)"

text \<open>It is so when the last file has a comment of twenty bytes or more that has no such signature there.\<close>

lemma directory_ends:
  "fs \<noteq> [] \<Longrightarrow> \<exists>u. directory_bytes g (task_dir cr reg h off fs) = u @ Comment (g (fst (last fs)))"
proof (induction fs arbitrary: off)
  case (Cons f fs)
  obtain a ps rnd where f: "f = (a, ps, rnd)" by (cases f)
  let ?off = "off + int (length (task_bytes cr reg (h a) ps rnd))"
  have split: "directory_bytes g (task_dir cr reg h off (f # fs)) =
      dir_bytes (g a) (word_of_int off) @ directory_bytes g (task_dir cr reg h ?off fs)"
    by (simp add: f directory_bytes_def)
  show ?case
  proof (cases "fs = []")
    case True
    have "\<exists>u. dir_bytes (g a) (word_of_int off) = u @ Comment (g a)"
      by (intro exI [of _ "dir_fixed (dir_header (g a) (word_of_int off)) (word_of_int off) @ Name (g a) @
        Extra (dir_header (g a) (word_of_int off))"]) (simp add: dir_bytes_def Let_def)
    then show ?thesis unfolding split by (simp add: True f directory_bytes_def)
  next
    case False
    then show ?thesis unfolding split using Cons.IH [of ?off] by auto
  qed
qed simp

lemma clear_end_comment:
  assumes "fs \<noteq> []" "distinct (map fst fs)" "c = Comment (h (fst (last fs)))" "20 \<le> length c"
    and "take 4 (drop (length c - 20) c) \<noteq> wb_uint32 directory64LocSignature"
  shows "clear_end cr reg h pre fs"
proof -
  obtain a ps rnd where l: "last fs = (a, ps, rnd)" by (cases "last fs")
  then have "(a, ps, rnd) \<in> set fs" using assms(1) by (metis last_in_set)
  then have "Comment (task_heap cr reg h fs a) = c"
    using assms(2,3) by (simp add: task_heap_here l task_header_def)
  then obtain u where u: "directory_bytes (task_heap cr reg h fs) (task_dir cr reg h (int (length pre)) fs) = u @ c"
    using directory_ends [OF assms(1), of "task_heap cr reg h fs" cr reg h "int (length pre)"] l by auto
  let ?v = "pre @ files_bytes cr reg h fs @ u"
  obtain e where "pre @ archive_bytes cr reg h (int (length pre)) fs = ?v @ c @ e"
    by (simp add: archive_bytes_def Let_def u)
  moreover have "drop (length ?v + length c - 20) (?v @ c @ e) = drop (length c - 20) c @ e"
  proof -
    have "length ?v + length c - 20 = length ?v + (length c - 20)" using assms(4) by simp
    then show ?thesis using assms(4) by (simp only: drop_append) simp
  qed
  moreover have "take 4 (drop (length c - 20) c @ e) = take 4 (drop (length c - 20) c)" using assms(4) by simp
  ultimately have "no_locator (pre @ archive_bytes cr reg h (int (length pre)) fs) (length ?v + length c)"
    using assms(5) by (simp only: no_locator_def simp_thms)
  moreover have "length ?v + length c = length pre + length (files_bytes cr reg h fs) + length (u @ c)" by simp
  ultimately show ?thesis by (simp only: clear_end_def directory_end_def Let_def u prod.case simp_thms)
qed

text \<open>How long an archive can be at most.\<close>

definition task_room :: "FileHeader \<Rightarrow> nat" where
  "task_room fh = 161 + 2 * length (Name fh) + 2 * length (Extra fh) + length (Comment fh)"

lemma length_layered: "length (Extra (layered fh)) \<le> length (Extra fh) + 11"
  by (simp add: layered_def)

lemma length_task_and_dir:
  "length (task_bytes cr reg fh ps rnd) + length (dir_bytes (task_header cr reg fh ps rnd) off)
     \<le> task_room fh + length (task_body cr reg fh ps rnd)"
proof -
  have "length (descriptor_bytes (task_header cr reg fh ps rnd)) \<le> 24" by (simp add: descriptor_bytes_def)
  moreover have "length (Extra (dir_header (task_header cr reg fh ps rnd) off)) \<le> length (Extra fh) + 39"
    using length_layered [of "prepared fh"]
    by (simp add: dir_header_Extra task_header_def block_bytes_def zip64_bytes_def)
  moreover have "length (task_bytes cr reg fh ps rnd) = 30 + length (Name fh) + length (Extra (layered (prepared fh))) +
      length (task_body cr reg fh ps rnd) + length (descriptor_bytes (task_header cr reg fh ps rnd))"
    by (simp add: task_bytes_def local_bytes_def)
  moreover have "length (dir_bytes (task_header cr reg fh ps rnd) off) = 46 + length (Name fh) +
      length (Extra (dir_header (task_header cr reg fh ps rnd) off)) + length (Comment fh)"
    by (simp add: dir_bytes_def Let_def task_header_def)
  moreover have "length (Extra (layered (prepared fh))) \<le> length (Extra fh) + 11"
    using length_layered [of "prepared fh"] by simp
  ultimately show ?thesis unfolding task_room_def by linarith
qed

lemma length_archive_le:
  assumes "distinct (map fst fs)"
  shows "length (archive_bytes cr reg h off fs)
    \<le> 98 + sum_list (map (\<lambda>(a, ps, rnd). task_room (h a) + length (task_body cr reg (h a) ps rnd)) fs)"
proof -
  have files: "length (files_bytes cr reg h fs) + length (directory_bytes g (task_dir cr reg h off fs))
      \<le> sum_list (map (\<lambda>(a, ps, rnd). task_room (h a) + length (task_body cr reg (h a) ps rnd)) fs)"
    if "\<And>a ps rnd. (a, ps, rnd) \<in> set fs \<Longrightarrow> g a = task_header cr reg (h a) ps rnd" for g
    using that
  proof (induction fs arbitrary: off)
    case (Cons f fs)
    obtain a ps rnd where f: "f = (a, ps, rnd)" by (cases f)
    let ?off = "off + int (length (task_bytes cr reg (h a) ps rnd))"
    have "length (files_bytes cr reg h fs) + length (directory_bytes g (task_dir cr reg h ?off fs))
      \<le> sum_list (map (\<lambda>(a, ps, rnd). task_room (h a) + length (task_body cr reg (h a) ps rnd)) fs)"
      by (rule Cons.IH) (use Cons.prems in auto)
    moreover have "g a = task_header cr reg (h a) ps rnd" using Cons.prems by (simp add: f)
    ultimately show ?case
      using length_task_and_dir [of cr reg "h a" ps rnd "word_of_int off"]
      by (simp add: f files_bytes_def directory_bytes_def)
  qed (simp add: files_bytes_def directory_bytes_def)
  have "length (files_bytes cr reg h fs) + length (directory_bytes (task_heap cr reg h fs) (task_dir cr reg h off fs))
      \<le> sum_list (map (\<lambda>(a, ps, rnd). task_room (h a) + length (task_body cr reg (h a) ps rnd)) fs)"
    by (rule files) (rule task_heap_here [OF assms])
  moreover have "length (archive_bytes cr reg h off fs) \<le> length (files_bytes cr reg h fs) +
      length (directory_bytes (task_heap cr reg h fs) (task_dir cr reg h off fs)) + 98"
    unfolding archive_bytes_def Let_def length_append add.assoc
    by (intro add_left_mono) (simp add: end_bytes_def)
  ultimately show ?thesis by linarith
qed

lemma NewReader_archive:
  fixes h :: "nat \<Rightarrow> FileHeader" and pre :: bytes and fs :: "task list" and reg :: "16 word \<rightharpoonup> 'c registered" and cr :: crypto
  defines "r \<equiv> pre @ archive_bytes cr reg h (int (length pre)) fs"
  assumes "distinct (map fst fs)" "\<And>a. a \<in> fst ` set fs \<Longrightarrow> fits (h a)" "int (length r) < 2 ^ 63" "clear_end cr reg h pre fs"
  shows "NewReader r (int (length r)) = gives \<lparr>rr = r, rFile = task_files cr reg h r (int (length pre)) fs, rComment = []\<rparr>"
proof -
  define files where "files = files_bytes cr reg h fs"
  define dir where "dir = directory_bytes (task_heap cr reg h fs) (task_dir cr reg h (int (length pre)) fs)"
  define p where "p = pre @ files @ dir"
  define start where "start = int (length (pre @ files))"
  define ending where "ending = end_bytes start (int (length p)) (length fs)"
  have r: "r = p @ ending"
    by (simp add: r_def archive_bytes_def Let_def p_def files_def dir_def start_def ending_def add.assoc)
  have e: "p @ end_bytes start (int (length p)) (length fs) = r" by (simp add: r ending_def)
  have "directory_end cr reg h pre fs = (length (pre @ files), length p)"
    by (simp add: directory_end_def Let_def files_def dir_def p_def)
  then have "\<not> end_needs64 start (int (length p)) (length fs) \<Longrightarrow> no_locator r (length p)"
    using assms(5) by (simp add: clear_end_def start_def r_def)
  then have "\<exists>d. readDirectoryEnd r (int (length r)) = gives d \<and> directoryRecords d = of_nat (length fs) \<and>
      directoryOffset d = word_of_int start \<and> dcomment d = []"
    using readDirectoryEnd_bytes [of start p "length fs", unfolded e] assms(4) by (simp add: start_def p_def)
  then obtain d where d: "readDirectoryEnd r (int (length r)) = gives d" "directoryRecords d = of_nat (length fs)"
    "directoryOffset d = word_of_int start" "dcomment d = []" by auto
  have start: "start < 2 ^ 63" "0 \<le> start" using assms(4) by (simp_all add: r p_def start_def)
  have pos: "unat (word_of_int start :: 64 word) = length (pre @ files)"
    by (simp only: unat_eq_nat_uint uint_small [OF start(2,1)]) (simp add: start_def)
  have cnt: "\<not> (of_nat (length fs) :: 64 word) > word_of_int (int (length r)) div of_nat 30"
    using directory_count_ok [of "length fs" "length r"] length_files_bytes [of fs cr reg h] assms(4)
    by (simp add: r p_def files_def)
  obtain e where e: "dir_loop r (int (length r)) ending = gives ([], e)"
    using dir_loop_end unfolding ending_def by blast
  have loop: "dir_loop r (int (length r)) (dir @ ending) = gives (task_files cr reg h r (int (length pre)) fs, e)"
    unfolding dir_def
    by (rule dir_loop_tasks [OF e assms(3)])
      (use assms(2) start task_heap_here in \<open>auto simp: start_def files_def\<close>)
  have len: "length (task_files cr reg h r off fs) = length fs" for off
    by (induction fs arbitrary: off rule: list.induct) auto
  have "drop (length (pre @ files)) (take (nat (int (length r))) r) = dir @ ending" by (simp add: r p_def)
  moreover have "(of_nat (length fs) :: 16 word) = ucast (of_nat (length fs) :: 64 word)"
    by (rule word_uint_eqI) (simp add: unsigned_ucast_eq unsigned_of_nat)
  ultimately show ?thesis
    using cnt by (simp only: NewReader_def d res_bind_simps pos loop len prod.case if_False) simp
qed

end
