(* ===== verification/Zip_Open.thy ===== *)
theory Zip_Open imports Zip_Reader begin

text \<open>
  \<open>File.Open\<close> (\<open>reader.go\<close>) and the readers it puts on top of one another (\<open>crypto.go\<close>, \<open>zipcrypto.go\<close>).

  A reader is the list of what its \<open>Read\<close>s return, up to the first error; \<open>sz\<close> are the sizes of the buffers the
  callers pass, less one: they decide in which pieces a section of the file or a buffer comes. A reader on top of
  another one calls its \<open>Read\<close> once in each of its own (\<open>pump\<close>). A decompressor is a function from one to the other.
\<close>

type_synonym io_read = "bytes \<times> zip_error option"

section \<open>Readers\<close>

function cut :: "(nat \<Rightarrow> nat) \<Rightarrow> bytes \<Rightarrow> io_read list" where
  "cut sz b =
     (if b = [] then [([], Some EOF)]
      else (take (Suc (sz 0)) b, None) # cut (\<lambda>i. sz (Suc i)) (drop (Suc (sz 0)) b))"
  by auto
termination by (relation "measure (\<lambda>(sz, b). length b)") auto

declare cut.simps [simp del]

fun pump :: "('s \<Rightarrow> io_read \<Rightarrow> 's \<times> io_read) \<Rightarrow> 's \<Rightarrow> io_read list \<Rightarrow> io_read list" where
  "pump step s [] = []"
| "pump step s (r # rs) =
     (case step s r of
        (s, p, None) \<Rightarrow> (p, None) # pump step s rs
      | (s, p, Some e) \<Rightarrow> [(p, Some e)])"

text \<open>\<open>io.Copy\<close> from a reader, and what \<open>io.ReadAll\<close> gives its caller.\<close>

fun copy_all :: "io_read list \<Rightarrow> bytes \<times> zip_error option" where
  "copy_all [] = ([], None)"
| "copy_all ((p, None) # rs) = (case copy_all rs of (b, e) \<Rightarrow> (p @ b, e))"
| "copy_all ((p, Some e) # rs) = (p, if e = EOF then None else Some e)"

text \<open>
  The bytes of a section: \<open>n\<close> bytes from \<open>off\<close>, as far as there are any; \<open>NewSectionReader\<close> with a negative number
  goes on to the end.
\<close>

definition section_bytes :: "bytes \<Rightarrow> int \<Rightarrow> int \<Rightarrow> bytes" where
  "section_bytes r off n =
     (if off < 0 then []
      else if n < 0 then drop (nat off) r
      else take (nat n) (drop (nat off) r))"

section \<open>The encryption of PKWARE\<close>

text \<open>\<open>ZipCryptoDecryptor\<close> on the section of \<open>n\<close> bytes: what the new section, from offset 12, holds.\<close>

definition ZipCryptoDecryptor :: "bytes \<Rightarrow> int \<Rightarrow> bytes \<Rightarrow> bytes option" where
  "ZipCryptoDecryptor sec n pw =
     (if n < 0 then None
      else
        let b = sec @ replicate (nat n - length sec) 0;
            (m, _) = zc_Decrypt b (NewZipCrypto pw)
        in Some (section_bytes m 12 (int (length m))))"

section \<open>Authentication\<close>

record authReader =
  ar_key :: bytes
  ar_mac :: bytes
  ar_err :: "zip_error option"
  ar_auth :: bool

text \<open>\<open>checkAuthentication\<close> compares with the first ten bytes of the code; \<open>checkPasswordVerification\<close> compares two bytes.\<close>

definition checkAuthentication :: "crypto \<Rightarrow> bytes \<Rightarrow> authReader \<Rightarrow> authReader \<times> bool" where
  "checkAuthentication cr authcode a =
     (let ok = (take 10 (hmac_sha1 cr (ar_key a) (ar_mac a)) = authcode) in (a\<lparr>ar_auth := ok\<rparr>, ok))"

definition checkPasswordVerification :: "bytes \<Rightarrow> bytes \<Rightarrow> bool" where
  "checkPasswordVerification pwvv pwv \<longleftrightarrow> pwvv = pwv"

text \<open>\<open>authReader.Read\<close>, when the data's \<open>Read\<close> returns \<open>(p, e)\<close>; \<open>adata\<close> is the reader of the code.\<close>

definition auth_Read :: "crypto \<Rightarrow> io_read list \<Rightarrow> authReader \<Rightarrow> io_read \<Rightarrow> authReader \<times> io_read" where
  "auth_Read cr adata a r =
     (case ar_err a of
        Some e \<Rightarrow> (a, [], Some e)
      | None \<Rightarrow>
          let (p, e) = r
          in if e \<noteq> None \<and> e \<noteq> Some EOF then (a\<lparr>ar_err := e\<rparr>, p, e)
             else
               let a = a\<lparr>ar_err := e, ar_mac := ar_mac a @ p\<rparr>
               in if e = None then (a, p, None)
                  else
                    case copy_all adata of
                      (ab, err) \<Rightarrow>
                        if err \<noteq> None \<or> length ab \<noteq> 10 then (a\<lparr>ar_err := Some ErrDecryption\<rparr>, p, Some ErrDecryption)
                        else
                          let (a, ok) = checkAuthentication cr ab a
                          in if \<not> ok then (a\<lparr>ar_err := Some ErrAuthentication\<rparr>, p, Some ErrAuthentication)
                             else (a, p, Some EOF))"

text \<open>
  The first \<open>bufferedAuthReader.Read\<close>: everything is read and authenticated before a byte is passed on; later ones
  take from the buffer, or return the same error.
\<close>

definition buffered_auth :: "crypto \<Rightarrow> io_read list \<Rightarrow> io_read list \<Rightarrow> authReader \<Rightarrow> zip_error + bytes" where
  "buffered_auth cr data adata a =
     (case copy_all data of
        (_, Some e) \<Rightarrow> Inl e
      | (buf, None) \<Rightarrow>
          (case copy_all adata of
             (_, Some e) \<Rightarrow> Inl e
           | (ab, None) \<Rightarrow>
               if length ab \<noteq> 10 then Inl ErrDecryption
               else
                 let (a, ok) = checkAuthentication cr ab (a\<lparr>ar_mac := ar_mac a @ buf\<rparr>)
                 in if \<not> ok then Inl ErrAuthentication else Inr buf))"

definition newAuthReader :: "crypto \<Rightarrow> (nat \<Rightarrow> nat) \<Rightarrow> bytes \<Rightarrow> bytes \<Rightarrow> bytes \<Rightarrow> bool \<Rightarrow> io_read list" where
  "newAuthReader cr sz akey data adata streaming =
     (let ar = \<lparr>ar_key = akey, ar_mac = [], ar_err = None, ar_auth = False\<rparr>
      in if streaming then pump (auth_Read cr (cut sz adata)) ar (cut sz data)
         else
           case buffered_auth cr (cut sz data) (cut sz adata) ar of
             Inl e \<Rightarrow> [([], Some e)]
           | Inr buf \<Rightarrow> cut sz buf)"

text \<open>\<open>cipher.StreamReader\<close>\<close>

definition decryptStream :: "crypto \<Rightarrow> bytes \<Rightarrow> io_read list \<Rightarrow> io_read list option" where
  "decryptStream cr key rs =
     (if aes_NewCipher key
      then Some (pump (\<lambda>x (p, e). let (q, x) = XORKeyStream (aes_encrypt cr key) p x in (x, q, e)) newWinZipCTR rs)
      else None)"

text \<open>One \<open>Read\<close> of \<open>k\<close> bytes from the section of \<open>n\<close> bytes at \<open>off\<close>; what it does not fill stays zero.\<close>

definition section_Read :: "bytes \<Rightarrow> int \<Rightarrow> int \<Rightarrow> nat \<Rightarrow> zip_error + bytes" where
  "section_Read r off n k =
     (if n = 0 then Inl EOF
      else
        let k' = (if n < 0 then k else min k (nat n))
        in case ReadAt r k' off of
             (_, Some e) \<Rightarrow> Inl e
           | (b, None) \<Rightarrow> Inr (b @ replicate (k - k') 0))"

definition newDecryptionReader :: "crypto \<Rightarrow> (nat \<Rightarrow> nat) \<Rightarrow> bytes \<Rightarrow> int \<Rightarrow> int \<Rightarrow> FileHeader \<Rightarrow> io_read list res" where
  "newDecryptionReader cr sz r off n f =
     (let keyLen = aesKeyLen (aesStrength f);
          saltLen = keyLen div 2
      in if saltLen = 0 then fails ErrDecryption
         else
           case section_Read r off n (saltLen + 2) of
             Inl e \<Rightarrow> fails e
           | Inr saltpwvv \<Rightarrow>
               let salt = take saltLen saltpwvv; pwvv = drop saltLen saltpwvv
               in case password f of
                    None \<Rightarrow> fails ErrPassword
                  | Some pw \<Rightarrow>
                      let (decKey, authKey, pwv) = generateKeys cr pw salt keyLen
                      in if \<not> checkPasswordVerification pwv pwvv then fails ErrPassword
                         else
                           let sec = section_bytes r off n;
                               dataOff = int saltLen + 2;
                               dataLen = sint (CompressedSize64 f - of_nat saltLen - 2 - 10);
                               ar = newAuthReader cr sz authKey (section_bytes sec dataOff dataLen)
                                      (section_bytes sec (dataOff + dataLen) 10) (DeferAuth f)
                           in case decryptStream cr decKey ar of
                                None \<Rightarrow> fails ErrDecryption
                              | Some dr \<Rightarrow> gives dr)"

section \<open>Checksums\<close>

definition readDataDescriptor :: "bytes \<Rightarrow> FileHeader \<Rightarrow> zip_error option res" where
  "readDataDescriptor r f =
     (case ReadFull 4 r of
        None \<Rightarrow> None
      | Some (Inl e) \<Rightarrow> gives (Some e)
      | Some (Inr (buf, r)) \<Rightarrow>
          (case rb_uint32 buf of
             None \<Rightarrow> None
           | Some (maybeSig, _) \<Rightarrow>
               let keep = (if maybeSig \<noteq> dataDescriptorSignature then buf else [])
               in case ReadFull (12 - length keep) r of
                    None \<Rightarrow> None
                  | Some (Inl e) \<Rightarrow> gives (Some e)
                  | Some (Inr (d, r)) \<Rightarrow>
                      map_option (\<lambda>(c, _). Inr (if c \<noteq> CRC32 f then Some ErrChecksum else None)) (rb_uint32 (keep @ d))))"

record checksumReader =
  cs_hash :: "32 word"
  nread :: "64 word"
  cs_err :: "zip_error option"

text \<open>The end of the data: the size, then the descriptor and the sum, or the sum of the directory if it has one.\<close>

definition checksum_end :: "FileHeader \<Rightarrow> bytes option \<Rightarrow> 32 word \<Rightarrow> zip_error" where
  "checksum_end f desr h =
     (case desr of
        Some d \<Rightarrow>
          (case readDataDescriptor d f of
             Some (Inr (Some err1)) \<Rightarrow> if err1 = EOF then ErrUnexpectedEOF else err1
           | _ \<Rightarrow> if h \<noteq> CRC32 f then ErrChecksum else EOF)
      | None \<Rightarrow> if CRC32 f \<noteq> 0 \<and> h \<noteq> CRC32 f then ErrChecksum else EOF)"

definition checksum_Read :: "FileHeader \<Rightarrow> bytes option \<Rightarrow> checksumReader \<Rightarrow> io_read \<Rightarrow> checksumReader \<times> io_read" where
  "checksum_Read f desr r x =
     (case cs_err r of
        Some e \<Rightarrow> (r, [], Some e)
      | None \<Rightarrow>
          let (b, err) = x;
              r = r\<lparr>cs_hash := crc_Write b (cs_hash r), nread := nread r + of_nat (length b)\<rparr>
          in case err of
               None \<Rightarrow> (r, b, None)
             | Some e \<Rightarrow>
                 if e = EOF
                 then
                   if nread r \<noteq> UncompressedSize64 f then (r, [], Some ErrUnexpectedEOF)
                   else let e = checksum_end f desr (cs_hash r) in (r\<lparr>cs_err := Some e\<rparr>, b, Some e)
                 else (r\<lparr>cs_err := Some e\<rparr>, b, Some e))"

section \<open>Opening a file\<close>

definition findBodyOffset :: "File \<Rightarrow> int res" where
  "findBodyOffset f =
     (case ReadAt (zipr f) fileHeaderLen (headerOffset f) of
        (_, Some e) \<Rightarrow> fails e
      | (buf, None) \<Rightarrow>
          do {
            (sig, b) \<leftarrow> rb_uint32 buf;
            if sig \<noteq> fileHeaderSignature then fails ErrFormat
            else do {
              b \<leftarrow> rb_skip 22 b;
              (filenameLen, b) \<leftarrow> rb_uint16 b;
              (extraLen, b) \<leftarrow> rb_uint16 b;
              gives (int fileHeaderLen + uint filenameLen + uint extraLen)
            }
          })"

definition DataOffset :: "File \<Rightarrow> int res" where
  "DataOffset f = res_bind (findBodyOffset f) (\<lambda>bodyOffset. gives (headerOffset f + bodyOffset))"

type_synonym decompressor = "io_read list \<Rightarrow> io_read list"

definition builtin_decompressors :: "decompressor \<Rightarrow> (16 word \<rightharpoonup> decompressor)" where
  "builtin_decompressors flate = [Store \<mapsto> id, Deflate \<mapsto> flate]"

definition RegisterDecompressor ::
  "16 word \<Rightarrow> decompressor \<Rightarrow> (16 word \<rightharpoonup> decompressor) \<Rightarrow> (16 word \<rightharpoonup> decompressor) option" where
  "RegisterDecompressor method d reg = (if reg method \<noteq> None then None else Some (reg(method \<mapsto> d)))"

text \<open>The bytes before decompression. Without a password the call of the password function panics.\<close>

definition open_raw :: "crypto \<Rightarrow> (nat \<Rightarrow> nat) \<Rightarrow> File \<Rightarrow> int \<Rightarrow> io_read list res" where
  "open_raw cr sz f off =
     (let n = sint (CompressedSize64 (hd1 f)); rr = section_bytes (zipr f) off n
      in if IsEncrypted (hd1 f)
         then
           if ae (hd1 f) = 0
           then
             case password (hd1 f) of
               None \<Rightarrow> None
             | Some pw \<Rightarrow> map_option (\<lambda>b. Inr (cut sz b)) (ZipCryptoDecryptor rr n pw)
           else newDecryptionReader cr sz (zipr f) off n (hd1 f)
         else gives (cut sz rr))"

definition Open :: "crypto \<Rightarrow> (16 word \<rightharpoonup> decompressor) \<Rightarrow> (nat \<Rightarrow> nat) \<Rightarrow> File \<Rightarrow> io_read list res" where
  "Open cr dreg sz f =
     res_bind (DataOffset f) (\<lambda>off.
     res_bind (open_raw cr sz f off) (\<lambda>r.
       case dreg (Method (hd1 f)) of
         None \<Rightarrow> fails ErrAlgorithm
       | Some dcomp \<Rightarrow>
           let rc = dcomp r
           in if isAE2 (hd1 f) then gives rc
              else
                let desr = (if hasDataDescriptor (hd1 f)
                            then Some (section_bytes (zipr f) (off + sint (CompressedSize64 (hd1 f))) (int dataDescriptorLen))
                            else None)
                in gives (pump (checksum_Read (hd1 f) desr) \<lparr>cs_hash = crc_new, nread = 0, cs_err = None\<rparr> rc)))"

end
