(* ===== verification/Zip_Content.thy ===== *)
theory Zip_Content imports Zip_Readback Zip_Open begin

text \<open>
  The content of a file that the writer has written, as \<open>Open\<close> gives it back: through the sections, the layers of
  encryption, the decompressor and the checksum.
\<close>

section \<open>Readers that come to the end\<close>

text \<open>The bytes a reader gives before the end of the file; \<^const>\<open>None\<close> if there is an error or no end.\<close>

fun delivers :: "io_read list \<Rightarrow> bytes option" where
  "delivers [] = None"
| "delivers ((p, None) # rs) = map_option ((@) p) (delivers rs)"
| "delivers ((p, Some e) # rs) = (if e = EOF \<and> rs = [] then Some p else None)"

lemma delivers_cut: "delivers (cut sz b) = Some b"
proof (induction sz b rule: cut.induct)
  case (1 sz b)
  then show ?case by (subst cut.simps) auto
qed

lemma copy_all_delivers: "delivers rs = Some b \<Longrightarrow> copy_all rs = (b, None)"
  by (induction rs arbitrary: b rule: delivers.induct) (auto split: if_splits)

lemma copy_all_cut: "copy_all (cut sz b) = (b, None)"
  by (rule copy_all_delivers) (rule delivers_cut)

text \<open>A decompressor undoes a compressor, whatever the pieces that come and go.\<close>

definition undoes :: "decompressor \<Rightarrow> 'c registered \<Rightarrow> bool" where
  "undoes d c \<longleftrightarrow> (\<forall>qs rs. delivers rs = Some (concat (passed_on c qs)) \<longrightarrow> delivers (d rs) = Some (concat qs))"

lemma undoes_Store: "undoes id NopCloser"
  by (simp add: undoes_def passed_on_def)

section \<open>The readers\<close>

lemma delivers_checksum:
  assumes "delivers rs = Some b" "cs_err r = None" "nread r + of_nat (length b) = UncompressedSize64 f"
    and "checksum_end f desr (crc_Write b (cs_hash r)) = EOF"
  shows "delivers (pump (checksum_Read f desr) r rs) = Some b"
  using assms
proof (induction rs arbitrary: b r rule: delivers.induct)
  case (2 p rs)
  then obtain b' where b: "delivers rs = Some b'" "b = p @ b'" by auto
  let ?r = "r\<lparr>cs_hash := crc_Write p (cs_hash r), nread := nread r + of_nat (length p)\<rparr>"
  have "delivers (pump (checksum_Read f desr) ?r rs) = Some b'"
    by (rule 2(1)) (use 2(3-5) b in \<open>simp_all add: add.assoc\<close>)
  moreover have "checksum_Read f desr r (p, None) = (?r, p, None)" using 2(3) by (simp add: checksum_Read_def)
  ultimately show ?case using b by simp
qed (auto simp: checksum_Read_def Let_def split: if_splits)

lemma delivers_stream:
  assumes "delivers rs = Some b" "ctr_at E pos x"
  shows "delivers (pump (\<lambda>x (p, e). let (q, x) = XORKeyStream E p x in (x, q, e)) x rs) = Some (xor_stream E pos b)"
  using assms
proof (induction rs arbitrary: b pos x rule: delivers.induct)
  case (2 p rs)
  then obtain b' where b: "delivers rs = Some b'" "b = p @ b'" by auto
  obtain q y where q: "XORKeyStream E p x = (q, y)" by fastforce
  then have at: "q = xor_stream E pos p" "ctr_at E (pos + length p) y"
    using XORKeyStream_at [OF 2(3), of p] by simp_all
  show ?case using 2(1) [OF b(1) at(2)] by (simp add: q b(2) at(1) xor_stream_append)
next
  case (3 p e rs)
  then show ?case using XORKeyStream_at [OF 3(2), of p] by (cases "XORKeyStream E p x") (auto split: if_splits)
qed simp

lemma delivers_auth:
  assumes "delivers rs = Some b" "ar_err a = None" "copy_all adata = (ab, None)" "length ab = 10"
    and "take 10 (hmac_sha1 cr (ar_key a) (ar_mac a @ b)) = ab"
  shows "delivers (pump (auth_Read cr adata) a rs) = Some b"
  using assms(1,2,5)
proof (induction rs arbitrary: b a rule: delivers.induct)
  case (2 p rs)
  then obtain b' where b: "delivers rs = Some b'" "b = p @ b'" by auto
  let ?a = "a\<lparr>ar_err := None, ar_mac := ar_mac a @ p\<rparr>"
  have "delivers (pump (auth_Read cr adata) ?a rs) = Some b'"
    by (rule 2(1)) (use 2 b in simp_all)
  moreover have "auth_Read cr adata a (p, None) = (?a, p, None)" using 2(3) by (simp add: auth_Read_def)
  ultimately show ?case using b by simp
qed (use assms(3,4) in \<open>auto simp: auth_Read_def Let_def checkAuthentication_def split: if_splits\<close>)

lemma delivers_newAuthReader:
  assumes "length adata = 10" "take 10 (hmac_sha1 cr key data) = adata"
  shows "delivers (newAuthReader cr sz key data adata streaming) = Some data"
  using assms delivers_auth [OF delivers_cut, of _ "cut sz adata" adata cr data sz] 
  by (auto simp: newAuthReader_def Let_def copy_all_cut buffered_auth_def checkAuthentication_def delivers_cut)

section \<open>The data of a file\<close>

lemma section_bytes_here:
  "0 \<le> off \<Longrightarrow> nat off = length p \<Longrightarrow> n = int (length q) \<Longrightarrow> section_bytes (p @ q @ t) off n = q"
  by (simp add: section_bytes_def)

lemma signature_neq: "rb_uint32 (wb_uint32 v) = Some (v, [])"
  using rb_wb(3) [of v "[]"] by simp

lemma uint_length: "n < 65536 \<Longrightarrow> uint (of_nat n :: 16 word) = int n"
  using unat_length [of n] by (metis uint_nat)

text \<open>The offset of the data behind the header of a file that is at \<open>off\<close>.\<close>

lemma DataOffset_here:
  assumes "zipr f = p @ local_bytes lh @ t" "headerOffset f = int (length p)"
    and "length (Name lh) < 65536" "length (Extra lh) < 65536"
  shows "DataOffset f = gives (int (length (p @ local_bytes lh)))"
proof -
  have "ReadAt (p @ header_bytes lh @ Name lh @ Extra lh @ t) 30 (int (length p)) = (header_bytes lh, None)"
    by (rule ReadAt_here) simp_all
  then have read: "ReadAt (zipr f) 30 (int (length p)) = (header_bytes lh, None)"
    using assms(1) by (simp add: local_bytes_def)
  have skip: "rb_skip 22 (wb_uint16 a @ wb_uint16 b @ wb_uint16 c @ wb_uint16 d @ wb_uint16 e @ wb_uint32 x @ wb_uint32 y @
      wb_uint32 z @ r) = Some r" for a b c d e x y z r
    using rb_le_bytes(5) [of "wb_uint16 a @ wb_uint16 b @ wb_uint16 c @ wb_uint16 d @ wb_uint16 e @ wb_uint32 x @
      wb_uint32 y @ wb_uint32 z" 22 r] by simp
  have last: "rb_uint16 (wb_uint16 v) = Some (v, [])" for v using rb_wb(2) [of v "[]"] by simp
  show ?thesis
    using assms(2-4)
    by (simp add: DataOffset_def findBodyOffset_def read) (simp add: header_bytes_def rb_wb skip last uint_length local_bytes_def)
qed


section \<open>The layers of encryption\<close>

text \<open>What the standards say of the two functions: the length that is asked for, and twenty bytes.\<close>

definition crypto_ok :: "crypto \<Rightarrow> bool" where
  "crypto_ok cr \<longleftrightarrow> (\<forall>pw salt n len. length (pbkdf2 cr pw salt n len) = len) \<and> (\<forall>k d. length (hmac_sha1 cr k d) = 20)"

text \<open>A salt has the length that is asked for.\<close>

definition salt_ok :: "(nat \<Rightarrow> bytes option) \<Rightarrow> bool" where
  "salt_ok rnd \<longleftrightarrow> (\<forall>n salt. rnd n = Some salt \<longrightarrow> length salt = n)"

lemma open_zip_crypto:
  assumes "body = layer_out cr t (ZipCryptoLayer (NewZipCrypto pw) True) em"
  shows "ZipCryptoDecryptor body (int (length body)) pw = Some (concat em)"
proof (cases "em = []")
  case True
  then show ?thesis by (simp add: assms ZipCryptoDecryptor_def section_bytes_def)
next
  case False
  then have b: "body = fst (zc_Encrypt (zip_header_bytes t (NewZipCrypto pw) @ concat em) (NewZipCrypto pw))"
    by (simp add: assms)
  then show ?thesis
    by (simp add: ZipCryptoDecryptor_def zc_Decrypt_Encrypt section_bytes_def Let_def split_beta)
qed

lemma aesKeyLen_NewCipher: "length ekey \<le> aesKeyLen s \<Longrightarrow> aes_NewCipher ekey \<Longrightarrow> 16 \<le> aesKeyLen s"
  by (auto simp: aes_NewCipher_def)

lemma open_aes:
  assumes "crypto_ok cr" "generateKeys cr pw salt (aesKeyLen s) = (ekey, akey, pwv)" "aes_NewCipher ekey"
    and "length salt = aesKeyLen s div 2"
    and "body = salt @ pwv @ c @ take 10 (hmac_sha1 cr akey c)" "c = xor_stream (aes_encrypt cr ekey) 0 b"
    and "int (length body) < 2 ^ 63" "off = int (length q)"
    and "aesStrength f = s" "password f = Some pw" "CompressedSize64 f = word_of_int (int (length body))"
  shows "\<exists>rs. newDecryptionReader cr sz (q @ body @ t) off (int (length body)) f = gives rs \<and> delivers rs = Some b"
proof -
  let ?k = "aesKeyLen s" and ?mac = "take 10 (hmac_sha1 cr akey c)"
  have pwv: "length pwv = 2" "length ekey \<le> ?k"
    using assms(1,2) by (auto simp: generateKeys_def Let_def crypto_ok_def)
  have k: "16 \<le> ?k" using pwv(2) assms(3) by (rule aesKeyLen_NewCipher)
  have mac: "length ?mac = 10" using assms(1) by (simp add: crypto_ok_def)
  have len: "length body = ?k div 2 + 2 + length c + 10" using pwv(1) mac assms(4) by (simp add: assms(5))
  have read: "section_Read (q @ body @ t) off (int (length body)) (?k div 2 + 2) = Inr (salt @ pwv)"
  proof -
    have "ReadAt (q @ (salt @ pwv) @ (c @ ?mac @ t)) (?k div 2 + 2) off = (salt @ pwv, None)"
      by (rule ReadAt_here) (simp_all add: assms(4,8) pwv(1))
    then show ?thesis using len by (simp add: section_Read_def assms(5) Let_def)
  qed
  have sec: "section_bytes (q @ body @ t) off (int (length body)) = body"
    by (rule section_bytes_here) (simp_all add: assms(8))
  have "CompressedSize64 f - of_nat (?k div 2) - 2 - 10 = word_of_int (int (length c))"
    by (simp add: assms(11) len)
  then have dataLen: "sint (CompressedSize64 f - of_nat (?k div 2) - 12) = int (length c)"
    using assms(7) sint_of_int64 [of "int (length c)"] by (simp add: len)
  have data: "section_bytes body (int (?k div 2) + 2) (int (length c)) = c"
    using section_bytes_here [of _ "salt @ pwv" _ c ?mac] by (simp add: assms(4,5) pwv(1) nat_add_distrib)
  have code: "section_bytes body (int (?k div 2) + 2 + int (length c)) 10 = ?mac"
    using section_bytes_here [of _ "salt @ pwv @ c" _ ?mac "[]"] mac by (simp add: assms(4,5) pwv(1) nat_add_distrib)
  have auth: "delivers (newAuthReader cr sz akey c ?mac (DeferAuth f)) = Some c"
    using mac by (intro delivers_newAuthReader) simp_all
  have "delivers (pump (\<lambda>x (p, e). let (q, x) = XORKeyStream (aes_encrypt cr ekey) p x in (x, q, e)) newWinZipCTR
      (newAuthReader cr sz akey c ?mac (DeferAuth f))) = Some (xor_stream (aes_encrypt cr ekey) 0 c)"
    by (rule delivers_stream [OF auth ctr_at_new])
  then have "delivers (the (decryptStream cr ekey (newAuthReader cr sz akey c ?mac (DeferAuth f)))) = Some b"
    using assms(3) by (simp add: decryptStream_def assms(6) xor_stream_twice)
  then show ?thesis
    using k assms(3) read
    by (simp add: newDecryptionReader_def assms(2,4,9,10) Let_def checkPasswordVerification_def sec dataLen data code
        decryptStream_def)
qed


section \<open>Opening a file that was written\<close>

text \<open>The caller sets the password of an encrypted file before it opens it, and perhaps \<open>DeferAuth\<close>.\<close>

definition unlock :: "bytes option \<Rightarrow> bool \<Rightarrow> File \<Rightarrow> File" where
  "unlock pw defer f =
     (case pw of
        None \<Rightarrow> f
      | Some p \<Rightarrow> f\<lparr>hd1 := (zip_SetPassword p (hd1 f))\<lparr>DeferAuth := defer\<rparr>\<rparr>)"

text \<open>With AES at least one piece has to be written: a file without any has no salt.\<close>

definition salted :: "FileHeader \<Rightarrow> 'c registered \<Rightarrow> bytes list \<Rightarrow> bool" where
  "salted fh c ps \<longleftrightarrow> (by_aes fh \<longrightarrow> passed_on c ps \<noteq> [])"

lemma by_aes_prepared [simp]: "by_aes (prepared fh) = by_aes fh"
  by (simp add: by_aes_def)

lemma open_raw_here:
  assumes "task_ok cr reg fh rnd" "crypto_ok cr" "salt_ok rnd" "salted fh (task_comp reg fh) ps"
  defines "body \<equiv> task_body cr reg fh ps rnd"
  assumes "zipr f = q @ body @ t" "off = int (length q)" "int (length body) < 2 ^ 63"
    and "IsEncrypted (hd1 f) \<longleftrightarrow> password fh \<noteq> None" "ae (hd1 f) = (if by_aes fh then 2 else 0)"
    and "by_aes fh \<Longrightarrow> aesStrength (hd1 f) = aesStrength fh" "password (hd1 f) = password fh"
    and "CompressedSize64 (hd1 f) = word_of_int (int (length body))"
  shows "\<exists>rs. open_raw cr sz f off = gives rs \<and> delivers rs = Some (concat (passed_on (task_comp reg fh) ps))"
proof -
  let ?em = "passed_on (task_comp reg fh) ps" and ?t = "ModifiedTime fh"
  obtain l key where l: "task_layer cr fh rnd = (l, key)" "layer_of cr rnd (prepared fh) = Some (l, key)"
    using assms(1) by (cases "layer_of cr rnd (prepared fh)") (auto simp: task_ok_def task_layer_def)
  have body: "body = file_body cr ?t l key ?em" by (simp add: body_def task_body_def l(1))
  have n: "sint (CompressedSize64 (hd1 f)) = int (length body)"
    using assms(8) sint_of_int64 [of "int (length body)"] by (simp add: assms(13))
  have sec: "section_bytes (zipr f) off (int (length body)) = body"
    unfolding assms(6) by (rule section_bytes_here) (simp_all add: assms(7))
  from l(2) show ?thesis
  proof (cases rule: layer_of_cases)
    case plain
    then have "body = concat ?em" by (simp add: body file_body_def auth_code_def)
    moreover have "open_raw cr sz f off = gives (cut sz body)"
      using plain(1) assms(9) by (simp add: open_raw_def n sec Let_def)
    ultimately show ?thesis by (simp add: delivers_cut)
  next
    case (pkware pw)
    then have b: "body = layer_out cr ?t (ZipCryptoLayer (NewZipCrypto pw) True) ?em"
      by (simp add: body file_body_def auth_code_def)
    have "\<not> by_aes fh" using pkware by (simp add: by_aes_def)
    then show ?thesis
      using pkware assms(9,10,12) open_zip_crypto [OF b] by (auto simp: open_raw_def n sec Let_def delivers_cut)
  next
    case (aes pw salt ekey akey pwv)
    have aes': "by_aes fh" "?em \<noteq> []" "length salt = aesKeyLen (aesStrength fh) div 2"
      using aes assms(3,4) by (auto simp: by_aes_def salted_def salt_ok_def)
    define c where "c = xor_stream (aes_encrypt cr ekey) 0 (concat ?em)"
    have b: "body = salt @ pwv @ c @ take 10 (hmac_sha1 cr akey c)"
      using aes(7,6) aes'(2) by (simp add: body file_body_def auth_code_def mac_data_def c_def)
    have "\<exists>rs. newDecryptionReader cr sz (q @ body @ t) off (int (length body)) (hd1 f) = gives rs \<and>
        delivers rs = Some (concat ?em)"
      by (rule open_aes [OF assms(2) _ aes(5) _ b c_def assms(8,7)])
        (use aes aes' assms(11-13) in simp_all)
    then show ?thesis
      using aes aes'(1) assms(9,10) by (auto simp: open_raw_def n assms(6) Let_def)
  qed
qed

text \<open>The descriptor behind the data holds the sum.\<close>

lemma readDataDescriptor_here:
  assumes "CRC32 f = CRC32 h"
  shows "readDataDescriptor (take 16 (descriptor_bytes h)) f = gives None"
proof -
  have "\<exists>d. take 16 (descriptor_bytes h) = wb_uint32 dataDescriptorSignature @ wb_uint32 (CRC32 h) @ d \<and> length d = 8"
    by (simp add: descriptor_bytes_def)
  then obtain d where d: "take 16 (descriptor_bytes h) = wb_uint32 dataDescriptorSignature @ wb_uint32 (CRC32 h) @ d"
    "length d = 8" by blast
  have 1: "ReadFull 4 (take 16 (descriptor_bytes h)) = gives (wb_uint32 dataDescriptorSignature, wb_uint32 (CRC32 h) @ d)"
    unfolding d(1) by (rule ReadFull_append) simp
  have 2: "ReadFull 12 (wb_uint32 (CRC32 h) @ d) = gives (wb_uint32 (CRC32 h) @ d, [])"
    using ReadFull_append [of "wb_uint32 (CRC32 h) @ d" 12 "[]"] d(2) by simp
  show ?thesis
    by (simp add: readDataDescriptor_def 1 2 rb_wb signature_neq assms)
qed

lemma checksum_end_here:
  "CRC32 f = CRC32 h \<Longrightarrow> CRC32 h = s \<Longrightarrow> checksum_end f (Some (take 16 (descriptor_bytes h))) s = EOF"
  by (simp add: checksum_end_def readDataDescriptor_here)


lemma unlock_simps [simp]:
  "zipr (unlock pw defer f) = zipr f" "headerOffset (unlock pw defer f) = headerOffset f"
  "Method (hd1 (unlock pw defer f)) = Method (hd1 f)" "ae (hd1 (unlock pw defer f)) = ae (hd1 f)"
  "aesStrength (hd1 (unlock pw defer f)) = aesStrength (hd1 f)" "CRC32 (hd1 (unlock pw defer f)) = CRC32 (hd1 f)"
  "CompressedSize64 (hd1 (unlock pw defer f)) = CompressedSize64 (hd1 f)"
  "UncompressedSize64 (hd1 (unlock pw defer f)) = UncompressedSize64 (hd1 f)"
  "password (hd1 (unlock pw defer f)) = (if pw = None then password (hd1 f) else pw)"
  by (cases pw; simp add: unlock_def zip_SetPassword_def setEncryptionBit_def)+

lemma unlock_flags:
  "IsEncrypted (hd1 f) \<Longrightarrow> Flags (hd1 (unlock pw defer f)) = Flags (hd1 f)" "unlock None defer f = f"
  by (cases pw) (simp_all add: unlock_def zip_SetPassword_def)

lemma or_8_and_8: "(x OR 8) AND 8 = (8 :: 16 word)"
  by (rule bit_word_eqI) (auto simp: bit_simps)

lemma listed_simps [simp]:
  "Method (listed fh h off) = Method fh" "ae (listed fh h off) = (if by_aes fh then 2 else 0)"
  "aesStrength (listed fh h off) = (if by_aes fh then aesStrength fh else 0)" "CRC32 (listed fh h off) = CRC32 h"
  "CompressedSize64 (listed fh h off) = CompressedSize64 h" "UncompressedSize64 (listed fh h off) = UncompressedSize64 h"
  "password (listed fh h off) = None" "Flags (listed fh h off) = Flags h" "Name (listed fh h off) = Name fh"
  by (simp_all add: listed_def zero_FileHeader_def)

lemma task_header_simps:
  "CompressedSize64 (task_header cr reg fh ps rnd) = word_of_int (int (length (task_body cr reg fh ps rnd)))"
  "UncompressedSize64 (task_header cr reg fh ps rnd) = word_of_int (int (length (concat ps)))"
  "Flags (task_header cr reg fh ps rnd) = Flags fh OR 8"
  "task_ok cr reg fh rnd \<Longrightarrow> \<not> by_aes fh \<Longrightarrow> CRC32 (task_header cr reg fh ps rnd) = crc_sum (concat ps)"
  by (auto simp: task_header_def task_ok_def by_aes_def sized_header_def Let_def)

lemma Open_written:
  fixes pre t :: bytes and fh :: FileHeader and ps :: "bytes list" and rnd and cr :: crypto and reg :: "16 word \<rightharpoonup> 'c registered"
  defines "r \<equiv> pre @ task_bytes cr reg fh ps rnd @ t"
  assumes "task_ok cr reg fh rnd" "fits fh" "crypto_ok cr" "salt_ok rnd" "salted fh (task_comp reg fh) ps"
    and "dreg (Method fh) = Some d" "undoes d (task_comp reg fh)" "int (length r) < 2 ^ 63"
    and "hd1 f = listed fh (task_header cr reg fh ps rnd) off" "zipr f = r" "headerOffset f = int (length pre)"
  shows "\<exists>rs. Open cr dreg sz (unlock (password fh) defer f) = gives rs \<and> delivers rs = Some (concat ps)"
proof -
  let ?f = "unlock (password fh) defer f" and ?h = "task_header cr reg fh ps rnd" and ?lh = "layered (prepared fh)"
  define body where "body = task_body cr reg fh ps rnd"
  define q where "q = pre @ local_bytes ?lh"
  define u where "u = descriptor_bytes ?h @ t"
  have r: "r = q @ body @ u" by (simp add: r_def task_bytes_def q_def body_def u_def)
  have off: "DataOffset ?f = gives (int (length q))"
    unfolding q_def
    by (rule DataOffset_here [where t = "body @ u"])
      (use assms(3,11,12) in \<open>simp_all add: r q_def fits_def layered_def\<close>)
  have enc: "IsEncrypted (hd1 f) \<longleftrightarrow> password fh \<noteq> None"
    using assms(2) IsEncrypted_prepared [of fh] by (simp add: assms(10) IsEncrypted_def task_header_simps task_ok_def)
  have flags: "Flags (hd1 ?f) = Flags fh OR 8"
    using enc unlock_flags [where f = f] by (cases "password fh") (simp_all add: assms(10) task_header_simps)
  have size: "CompressedSize64 (hd1 ?f) = word_of_int (int (length body))"
    by (simp add: assms(10) task_header_simps body_def)
  have small: "int (length body) < 2 ^ 63" using assms(9) by (simp add: r)
  have n: "sint (CompressedSize64 (hd1 ?f)) = int (length body)"
    unfolding size by (rule sint_of_int64) (use small in simp_all)
  have "\<exists>rs. open_raw cr sz ?f (int (length q)) = gives rs \<and> delivers rs = Some (concat (passed_on (task_comp reg fh) ps))"
    by (rule open_raw_here [OF assms(2,4-6), where q = q and t = u])
      (use assms(2,10) flags size small enc in
        \<open>auto simp: assms(11) r body_def task_header_simps IsEncrypted_def\<close>)
  then obtain rs where rs: "open_raw cr sz ?f (int (length q)) = gives rs"
    "delivers rs = Some (concat (passed_on (task_comp reg fh) ps))" by blast
  have rc: "delivers (d rs) = Some (concat ps)" using rs(2) assms(8) by (simp add: undoes_def)
  show ?thesis
  proof (cases "by_aes fh")
    case True
    then show ?thesis using rc by (simp add: Open_def off rs(1) assms(7,10) isAE2_def)
  next
    case False
    have "section_bytes ((q @ body) @ take 16 (descriptor_bytes ?h) @ drop 16 (descriptor_bytes ?h) @ t)
        (int (length q) + int (length body)) 16 = take 16 (descriptor_bytes ?h)"
      by (rule section_bytes_here) (simp_all add: descriptor_bytes_def)
    then have desr: "section_bytes r (int (length q) + int (length body)) 16 = take 16 (descriptor_bytes ?h)"
      by (simp add: r u_def flip: append_assoc)
    have "delivers (pump (checksum_Read (hd1 ?f) (Some (take 16 (descriptor_bytes ?h))))
        \<lparr>cs_hash = crc_new, nread = 0, cs_err = None\<rparr> (d rs)) = Some (concat ps)"
      by (rule delivers_checksum [OF rc])
        (use False assms(2) in \<open>simp_all add: assms(10) task_header_simps checksum_end_here crc_sum_def\<close>)
    moreover have "sint (CompressedSize64 ?h) = int (length body)" using n by (simp add: assms(10))
    ultimately show ?thesis
      using False by (simp add: Open_def off rs(1) assms(7,10,11) isAE2_def hasDataDescriptor_def flags or_8_and_8 desr Let_def)
  qed
qed

end
