(* ===== verification/Zip_Guards.thy ===== *)
theory Zip_Guards imports Zip_Content begin

text \<open>
  What the reader checks, and where it does not: the end record it takes, the records of the directory, of which it lists
  exactly those that stand there, the code of authentication, the sum, and the extra fields that make it fail.
\<close>

section \<open>The end record\<close>

lemma sig_loop_Some:
  "sig_loop b n = Some i \<longleftrightarrow> i \<le> n \<and> sig_at b i \<and> (\<forall>j. i < j \<and> j \<le> n \<longrightarrow> \<not> sig_at b j)"
  by (induction n) (auto simp: le_Suc_eq)

lemma findSignature_Some:
  "findSignatureInBlock b = Some i \<longleftrightarrow>
     i + 22 \<le> length b \<and> sig_at b i \<and> (\<forall>j. i < j \<and> j + 22 \<le> length b \<longrightarrow> \<not> sig_at b j)"
  by (auto simp: findSignatureInBlock_def sig_loop_Some le_diff_conv2)

section \<open>A record of the directory\<close>

text \<open>
  What a record of the directory is, without the reader's buffer: fields at fixed places, least significant byte first,
  then the name, the extra field and the comment. The extra field is whole blocks, of which the AES block has its seven
  bytes, and fewer than four zero bytes; the blocks are applied in their order.
\<close>

definition field :: "bytes \<Rightarrow> nat \<Rightarrow> nat \<Rightarrow> 'a::len word" where
  "field b i n = le_word (take n (drop i b))"

definition fixed_header :: "bytes \<Rightarrow> FileHeader" where
  "fixed_header b = zero_FileHeader\<lparr>CreatorVersion := field b 4 2, ReaderVersion := field b 6 2, Flags := field b 8 2,
     Method := field b 10 2, ModifiedTime := field b 12 2, ModifiedDate := field b 14 2, CRC32 := field b 16 4,
     CompressedSize := field b 20 4, UncompressedSize := field b 24 4,
     CompressedSize64 := ucast (field b 20 4 :: 32 word), UncompressedSize64 := ucast (field b 24 4 :: 32 word),
     ExternalAttrs := field b 38 4\<rparr>"

fun block_ok :: "16 word \<times> bytes \<Rightarrow> bool" where
  "block_ok (tag, d) \<longleftrightarrow> length d < 65536 \<and> (tag = winzipAesExtraId \<longrightarrow> 7 \<le> length d)"

fun block_effect :: "16 word \<times> bytes \<Rightarrow> FileHeader \<times> int \<Rightarrow> FileHeader \<times> int" where
  "block_effect (tag, d) (h, off) =
     (if tag = zip64ExtraId
      then (h\<lparr>UncompressedSize64 := (if 8 \<le> length d then field d 0 8 else UncompressedSize64 h),
              CompressedSize64 := (if 16 \<le> length d then field d 8 8 else CompressedSize64 h)\<rparr>,
            if 24 \<le> length d then sint (field d 16 8 :: 64 word) else off)
      else if tag = winzipAesExtraId
      then (h\<lparr>ae := field d 0 2, aesStrength := d ! 4, Method := field d 5 2\<rparr>, off)
      else (h, off))"

definition whole_blocks :: "(16 word \<times> bytes) list \<Rightarrow> bytes \<Rightarrow> bool" where
  "whole_blocks bs x \<longleftrightarrow> list_all block_ok bs \<and>
     (\<exists>pad. x = concat (map (case_prod block_bytes) bs) @ pad \<and> length pad < 4 \<and> (\<forall>v\<in>set pad. v = 0))"

definition record_of :: "bytes \<Rightarrow> int \<Rightarrow> bytes \<Rightarrow> File \<Rightarrow> bool" where
  "record_of r sz rec f \<longleftrightarrow>
     (let nl = unat (field rec 28 2 :: 16 word); el = unat (field rec 30 2 :: 16 word); cl = unat (field rec 32 2 :: 16 word);
          extra = take el (drop (46 + nl) rec)
      in field rec 0 4 = directoryHeaderSignature \<and> length rec = 46 + nl + el + cl \<and> zipr f = r \<and> zipsize f = sz \<and>
         (\<exists>bs. whole_blocks bs extra \<and>
            (hd1 f, headerOffset f) = fold block_effect bs
              ((fixed_header rec)\<lparr>Name := take nl (drop 46 rec), Extra := extra, Comment := drop (46 + nl + el) rec\<rparr>,
               uint (field rec 42 4 :: 32 word))))"

section \<open>The reader takes the records\<close>

lemma rb_field:
  "2 \<le> length b \<Longrightarrow> rb_uint16 b = Some (field b 0 2, drop 2 b)"
  "4 \<le> length b \<Longrightarrow> rb_uint32 b = Some (field b 0 4, drop 4 b)"
  "8 \<le> length b \<Longrightarrow> rb_uint64 b = Some (field b 0 8, drop 8 b)"
  "length b < 8 \<Longrightarrow> rb_uint64 b = None"
  by (simp_all add: rb_uint16_def rb_uint32_def rb_uint64_def field_def)

lemma field_drop: "field (drop k b) i n = field b (k + i) n"
  by (simp add: field_def add.commute)

lemma header_fields_at:
  assumes "length buf = 46"
  shows "header_fields buf =
    (if field buf 0 4 = directoryHeaderSignature
     then gives (fixed_header buf, uint (field buf 42 4 :: 32 word), unat (field buf 28 2 :: 16 word),
                 unat (field buf 30 2 :: 16 word), unat (field buf 32 2 :: 16 word))
     else fails ErrFormat)"
  by (simp add: header_fields_def rb_field rb_skip_def assms field_drop fixed_header_def)

lemma extra_block_effect:
  "extra_block tag d f =
    (if tag = winzipAesExtraId \<and> length d < 7 then None else Some (block_effect (tag, d) f))"
proof -
  have "zip64_block d f = block_effect (zip64ExtraId, d) f"
    by (cases f) (auto simp: zip64_block_def rb_uint64_def field_def Let_def)
  moreover have "aes_block d f = (if length d < 7 then None else Some (block_effect (winzipAesExtraId, d) f))"
    by (cases f) (auto simp: aes_block_def rb_uint16_def rb_uint8_def field_def)
  ultimately show ?thesis
    by (cases f) (simp add: extra_block_def)
qed

lemma block_bytes_take:
  assumes "4 \<le> length b" "n = unat (le_word (take 2 (drop 2 b)) :: 16 word)" "n \<le> length b - 4"
  shows "block_bytes (le_word (take 2 b)) (take n (drop 4 b)) = take (4 + n) b"
proof -
  have "wb_uint16 (of_nat n) = take 2 (drop 2 b)" "wb_uint16 (le_word (take 2 b)) = take 2 b"
    using assms(1) by (simp_all add: wb_uint16_def le_bytes_le_word assms(2))
  then show ?thesis using assms(1,3) take_add [of 2 2 b] by (simp add: block_bytes_def take_add)
qed

lemma extra_loop_whole:
  "extra_loop x f = gives f' \<longleftrightarrow> (\<exists>bs. whole_blocks bs x \<and> f' = fold block_effect bs f)"
proof
  show "extra_loop x f = gives f' \<Longrightarrow> \<exists>bs. whole_blocks bs x \<and> f' = fold block_effect bs f"
  proof (induction x f rule: extra_loop.induct)
    case (1 b f)
    show ?case
    proof (cases "4 \<le> length b")
      case False
      then show ?thesis
        using 1(2) by (intro exI [of _ "[]"]) (subst (asm) extra_loop.simps, simp add: whole_blocks_def split: if_splits)
    next
      case True
      define tag n where "tag = (le_word (take 2 b) :: 16 word)" and "n = unat (le_word (take 2 (drop 2 b)) :: 16 word)"
      from 1(2) True obtain g where g: "\<not> length (drop 4 b) < n" "extra_block tag (take n (drop 4 b)) f = Some g"
        "extra_loop (drop n (drop 4 b)) g = gives f'"
        by (subst (asm) extra_loop.simps) (auto simp: Let_def tag_def n_def split: if_splits option.splits)
      have n: "n < 65536" using unsigned_less [where 'a = nat] by (simp add: n_def unsigned_less [THEN order_less_le_trans])
      obtain bs where bs: "whole_blocks bs (drop n (drop 4 b))" "f' = fold block_effect bs g"
        using 1(1) [OF True refl refl refl g [unfolded n_def tag_def]] by (auto simp: n_def)
      have "b = block_bytes tag (take n (drop 4 b)) @ drop n (drop 4 b)"
        using block_bytes_take [OF True n_def] g(1) append_take_drop_id [of "4 + n" b] by (simp add: tag_def add.commute)
      moreover have "block_ok (tag, take n (drop 4 b))" "g = block_effect (tag, take n (drop 4 b)) f"
        using g(1,2) n by (auto simp: extra_block_effect split: if_splits)
      ultimately show ?thesis
        using bs by (intro exI [of _ "(tag, take n (drop 4 b)) # bs"]) (auto simp: whole_blocks_def)
    qed
  qed
  assume "\<exists>bs. whole_blocks bs x \<and> f' = fold block_effect bs f"
  then obtain bs where "whole_blocks bs x" "f' = fold block_effect bs f" by blast
  then show "extra_loop x f = gives f'"
  proof (induction bs arbitrary: x f)
    case Nil
    then show ?case by (subst extra_loop.simps) (auto simp: whole_blocks_def)
  next
    case (Cons b bs)
    obtain tag d where b: "b = (tag, d)" by fastforce
    obtain y where y: "x = block_bytes tag d @ y" "block_ok (tag, d)" "whole_blocks bs y"
      using Cons.prems(1) by (auto simp: whole_blocks_def b)
    then have "extra_loop y (block_effect b f) = gives f'" using Cons.IH [of y "block_effect b f"] Cons.prems(2) by simp
    then show ?case
      using y by (auto simp: b extra_loop_block [where f' = "block_effect b f"] extra_block_effect)
  qed
qed

lemma res_bind_gives: "res_bind r k = gives y \<longleftrightarrow> (\<exists>x. r = gives x \<and> k x = gives y)"
  by (auto simp: res_bind_def split: option.splits sum.splits)

lemma ReadFull_gives: "ReadFull n r = gives (p, q) \<longleftrightarrow> r = p @ q \<and> length p = n"
  by (auto simp: ReadFull_def)

lemma field_append: "i + n \<le> length p \<Longrightarrow> field (p @ q) i n = field p i n"
  by (simp add: field_def)

lemma readDirectoryHeader_parts:
  fixes p q :: bytes
  defines "nl \<equiv> unat (field p 28 2 :: 16 word)" and "el \<equiv> unat (field p 30 2 :: 16 word)"
    and "cl \<equiv> unat (field p 32 2 :: 16 word)"
  assumes "length p = 46"
  shows "readDirectoryHeader zr sz (p @ q) = gives (f, b') \<longleftrightarrow>
    (\<exists>d. field p 0 4 = directoryHeaderSignature \<and> q = d @ b' \<and> length d = nl + el + cl \<and> zipr f = zr \<and> zipsize f = sz \<and>
       extra_loop (take el (drop nl d))
         ((fixed_header p)\<lparr>Name := take nl d, Extra := take el (drop nl d), Comment := drop (nl + el) d\<rparr>,
          uint (field p 42 4 :: 32 word)) = gives (hd1 f, headerOffset f))"
proof -
  have e: "(if 0 < length x then extra_loop x g else gives g) = extra_loop x g" for x g
    by (simp add: extra_loop_Nil)
  have k: "res_bind r (\<lambda>(h, off). gives (\<lparr>hd1 = h, zipr = zr, zipsize = sz, headerOffset = off\<rparr>, q')) = gives (f, b') \<longleftrightarrow>
      zipr f = zr \<and> zipsize f = sz \<and> q' = b' \<and> r = gives (hd1 f, headerOffset f)" for r q'
    unfolding res_bind_gives by (cases f) auto
  show ?thesis
  proof (cases "field p 0 4 = directoryHeaderSignature")
    case True
    have x: "Extra (h\<lparr>Name := a, Extra := x, Comment := c\<rparr>) = x" for h a x c by simp
    note hf = header_fields_at [OF assms(4), unfolded if_P [OF True]]
    have "readDirectoryHeader zr sz (p @ q) = gives (f, b') \<longleftrightarrow>
      (\<exists>d r. ReadFull (nl + el + cl) q = gives (d, r) \<and> zipr f = zr \<and> zipsize f = sz \<and> r = b' \<and>
       extra_loop (take el (drop nl d))
         ((fixed_header p)\<lparr>Name := take nl d, Extra := take el (drop nl d), Comment := drop (nl + el) d\<rparr>,
          uint (field p 42 4 :: 32 word)) = gives (hd1 f, headerOffset f))"
      by (simp only: readDirectoryHeader_def ReadFull_append [OF assms(4)] hf res_bind_simps prod.case Let_def x
          e res_bind_gives [of "ReadFull _ q"] split_paired_Ex k nl_def el_def cl_def)
    then show ?thesis using True by (auto simp only: ReadFull_gives)
  qed (use assms(4) in \<open>simp add: readDirectoryHeader_def ReadFull_append header_fields_at\<close>)
qed

lemma readDirectoryHeader_record:
  "readDirectoryHeader zr sz b = gives (f, b') \<longleftrightarrow> (\<exists>rec. b = rec @ b' \<and> record_of zr sz rec f)"
proof (cases "46 \<le> length b")
  case True
  define p where "p = take 46 b"
  have p: "b = p @ drop 46 b" "length p = 46" using True by (simp_all add: p_def)
  have at: "record_of zr sz (p @ d) f \<longleftrightarrow> field p 0 4 = directoryHeaderSignature \<and>
      length d = unat (field p 28 2 :: 16 word) + unat (field p 30 2 :: 16 word) + unat (field p 32 2 :: 16 word) \<and>
      zipr f = zr \<and> zipsize f = sz \<and>
      extra_loop (take (unat (field p 30 2 :: 16 word)) (drop (unat (field p 28 2 :: 16 word)) d))
         ((fixed_header p)\<lparr>Name := take (unat (field p 28 2 :: 16 word)) d,
            Extra := take (unat (field p 30 2 :: 16 word)) (drop (unat (field p 28 2 :: 16 word)) d),
            Comment := drop (unat (field p 28 2 :: 16 word) + unat (field p 30 2 :: 16 word)) d\<rparr>,
          uint (field p 42 4 :: 32 word)) = gives (hd1 f, headerOffset f)" for d
    by (simp add: record_of_def Let_def field_append p(2) fixed_header_def extra_loop_whole add.assoc)
  have "(\<exists>rec. b = rec @ b' \<and> record_of zr sz rec f) \<longleftrightarrow> (\<exists>d. drop 46 b = d @ b' \<and> record_of zr sz (p @ d) f)"
  proof
    assume "\<exists>rec. b = rec @ b' \<and> record_of zr sz rec f"
    then obtain rec where rec: "b = rec @ b'" "record_of zr sz rec f" by blast
    then have "46 \<le> length rec" by (simp add: record_of_def Let_def)
    then have "rec = p @ drop 46 rec" "drop 46 b = drop 46 rec @ b'" using rec(1) by (simp_all add: p_def)
    then show "\<exists>d. drop 46 b = d @ b' \<and> record_of zr sz (p @ d) f" using rec(2) by metis
  qed (use p(1) in fastforce)
  then show ?thesis
    using readDirectoryHeader_parts [OF p(2), of zr sz "drop 46 b" f b'] p(1) at by auto
next
  case False
  then show ?thesis
    by (auto simp: readDirectoryHeader_def ReadFull_def record_of_def Let_def)
qed

lemma dir_loop_records:
  "dir_loop zr sz b = gives (fs, e) \<Longrightarrow> \<exists>recs rest. b = concat recs @ rest \<and> list_all2 (record_of zr sz) recs fs \<and>
     (\<forall>rec f rest'. rest = rec @ rest' \<longrightarrow> \<not> record_of zr sz rec f)"
proof (induction zr sz b arbitrary: fs rule: dir_loop.induct)
  case (1 zr sz b)
  show ?case
  proof (cases "readDirectoryHeader zr sz b")
    case None
    then show ?thesis using 1(2) by (subst (asm) dir_loop.simps) simp
  next
    case (Some x)
    show ?thesis
    proof (cases x)
      case (Inl e')
      then have "fs = []" using 1(2) Some by (subst (asm) dir_loop.simps) (simp split: if_splits)
      moreover have "\<not> record_of zr sz rec f" if "b = rec @ rest'" for rec f rest'
        using that Some Inl readDirectoryHeader_record [of zr sz b f rest'] by auto
      ultimately show ?thesis by (intro exI [of _ "[]"] exI [of _ b]) auto
    next
      case (Inr y)
      obtain f b' where y: "y = (f, b')" by fastforce
      have h: "readDirectoryHeader zr sz b = gives (f, b')" using Some Inr y by simp
      with 1(2) obtain gs where gs: "dir_loop zr sz b' = gives (gs, e)" "fs = f # gs"
        by (subst (asm) dir_loop.simps) (auto simp: res_bind_def split: option.splits sum.splits)
      obtain rec where rec: "b = rec @ b'" "record_of zr sz rec f"
        using h unfolding readDirectoryHeader_record by blast
      obtain recs rest where "b' = concat recs @ rest" "list_all2 (record_of zr sz) recs gs"
        "\<forall>rec f rest'. rest = rec @ rest' \<longrightarrow> \<not> record_of zr sz rec f"
        using 1(1) [OF Some Inr y [symmetric] gs(1)] by blast
      then show ?thesis using rec gs(2) by (intro exI [of _ "rec # recs"] exI [of _ rest]) simp
    qed
  qed
qed

section \<open>Authentication and sums\<close>

lemma pump_refused:
  "pump (\<lambda>x (p, e). let (q, x) = XORKeyStream E p x in (x, q, e)) x [([], Some e)] = [([], Some e)]"
  by (simp add: XORKeyStream.simps [of E "[]"])

lemma buffered_checks:
  "\<forall>e. newAuthReader cr sz key data adata False \<noteq> [([], Some e)] \<Longrightarrow> take 10 (hmac_sha1 cr key data) = adata"
  by (auto simp: newAuthReader_def buffered_auth_def copy_all_cut checkAuthentication_def Let_def split: sum.splits if_splits)

lemma delivers_checked:
  assumes "delivers (pump (checksum_Read f desr) r rs) = Some b" "cs_err r = None"
  shows "nread r + of_nat (length b) = UncompressedSize64 f \<and> checksum_end f desr (crc_Write b (cs_hash r)) = EOF"
  using assms
proof (induction rs arbitrary: b r)
  case (Cons x rs)
  obtain p e where x: "x = (p, e)" by fastforce
  let ?r = "r\<lparr>cs_hash := crc_Write p (cs_hash r), nread := nread r + of_nat (length p)\<rparr>"
  show ?case
  proof (cases e)
    case None
    have "checksum_Read f desr r x = (?r, p, None)" using Cons.prems(2) by (simp add: checksum_Read_def x None)
    then obtain b' where b: "delivers (pump (checksum_Read f desr) ?r rs) = Some b'" "b = p @ b'"
      using Cons.prems(1) by auto
    from Cons.IH [OF b(1)] Cons.prems(2) show ?thesis by (simp add: b(2) add.assoc)
  next
    case (Some e')
    then show ?thesis
      using Cons.prems by (auto simp: checksum_Read_def x Let_def split: if_splits)
  qed
qed simp

lemma checksum_end_EOF:
  "checksum_end f desr s = EOF \<Longrightarrow> desr \<noteq> None \<or> CRC32 f \<noteq> 0 \<Longrightarrow> s = CRC32 f"
  by (auto simp: checksum_end_def split: option.splits sum.splits if_splits)

section \<open>Fields that are too short\<close>

lemma aes_block_short: "length d < 7 \<Longrightarrow> aes_block d f = None"
  by (auto simp: aes_block_def rb_uint16_def rb_uint8_def split: bind_splits if_splits)

lemma extra_loop_short:
  assumes "plain_extra x" "length d < 7"
  shows "extra_loop (x @ block_bytes winzipAesExtraId d @ y) f = None"
proof -
  have "extra_block winzipAesExtraId d f = None" using aes_block_short [OF assms(2)] by (simp add: extra_block_def)
  then have "extra_loop (block_bytes winzipAesExtraId d @ y) f = None"
    using assms(2) by (subst extra_loop.simps) (simp add: block_bytes_def wb_uint16_def le_word_le_bytes unat_length Let_def)
  then show ?thesis using extra_loop_plain [OF assms(1)] by simp
qed

end
