(* ===== verification/Props_Zip.thy ===== *)
theory Props_Zip imports Zip_Guards begin

text \<open>The properties of \<open>tools/zip\<close>.\<close>

section \<open>What is written is read\<close>

text \<open>A writer that is to append an archive to the bytes \<open>pre\<close>; the caller's headers are in \<open>h\<close>.\<close>

definition fresh_writer :: "bytes \<Rightarrow> (nat \<Rightarrow> FileHeader) \<Rightarrow> 'c zwriter" where
  "fresh_writer pre h = the (SetOffset (int (length pre)) ((NewWriter None)\<lparr>heap := h\<rparr>))"

lemma fresh_writer_simps [simp]:
  "zlast (fresh_writer pre h) = None" "zdir (fresh_writer pre h) = []" "\<not> zclosed (fresh_writer pre h)"
  "sound (zcw (fresh_writer pre h))" "heap (fresh_writer pre h) = h" "cwCount (zcw (fresh_writer pre h)) = int (length pre)"
  "out (zcw (fresh_writer pre h)) = []"
  by (simp_all add: fresh_writer_def SetOffset_def NewWriter_def sound_def)

text \<open>The reader has a decompressor that undoes the compressor of the writer.\<close>

definition codec_ok :: "(16 word \<rightharpoonup> 'c registered) \<Rightarrow> (16 word \<rightharpoonup> decompressor) \<Rightarrow> 16 word \<Rightarrow> bool" where
  "codec_ok reg dreg m \<longleftrightarrow> (\<exists>d. dreg m = Some d \<and> undoes d (the (reg m)))"

definition task_readable ::
  "(16 word \<rightharpoonup> 'c registered) \<Rightarrow> (16 word \<rightharpoonup> decompressor) \<Rightarrow> (nat \<Rightarrow> FileHeader) \<Rightarrow> task \<Rightarrow> bool" where
  "task_readable reg dreg h f \<longleftrightarrow>
     (case f of (a, ps, rnd) \<Rightarrow>
        fits (h a) \<and> salt_ok rnd \<and> salted (h a) (task_comp reg (h a)) ps \<and> codec_ok reg dreg (Method (h a)))"

text \<open>A file of the reader opens to the content of the task.\<close>

definition opens_to ::
  "crypto \<Rightarrow> (16 word \<rightharpoonup> decompressor) \<Rightarrow> (nat \<Rightarrow> FileHeader) \<Rightarrow> task \<Rightarrow> File \<Rightarrow> bool" where
  "opens_to cr dreg h t f \<longleftrightarrow>
     (case t of (a, ps, rnd) \<Rightarrow>
        Name (hd1 f) = Name (h a) \<and>
        (\<forall>sz defer. \<exists>rs. Open cr dreg sz (unlock (password (h a)) defer f) = gives rs \<and> delivers rs = Some (concat ps)))"

lemma task_files_open:
  assumes "crypto_ok cr" "tasks_ok cr reg h fs" "\<forall>f\<in>set fs. task_readable reg dreg h f"
    and "r = pre @ files_bytes cr reg h fs @ t" "int (length r) < 2 ^ 63"
  shows "list_all2 (opens_to cr dreg h) fs (task_files cr reg h r (int (length pre)) fs)"
  using assms(2-4)
proof (induction fs arbitrary: pre)
  case (Cons f fs)
  obtain a ps rnd where f: "f = (a, ps, rnd)" by (cases f)
  let ?b = "task_bytes cr reg (h a) ps rnd"
  have r: "r = (pre @ ?b) @ files_bytes cr reg h fs @ t" using Cons.prems(3) by (simp add: f files_bytes_def)
  have ok: "task_ok cr reg (h a) rnd" "tasks_ok cr reg h fs" using Cons.prems(1) by (simp_all add: f tasks_ok_def)
  have rd: "fits (h a)" "salt_ok rnd" "salted (h a) (task_comp reg (h a)) ps" "codec_ok reg dreg (Method (h a))"
    using Cons.prems(2) by (simp_all add: f task_readable_def)
  then obtain d where d: "dreg (Method (h a)) = Some d" "undoes d (task_comp reg (h a))"
    by (auto simp: codec_ok_def task_comp_def)
  let ?F = "\<lparr>hd1 = listed (h a) (task_header cr reg (h a) ps rnd) (word_of_int (int (length pre))), zipr = r,
      zipsize = int (length r), headerOffset = int (length pre)\<rparr>"
  have "opens_to cr dreg h f ?F"
    using Open_written [where fh = "h a" and reg = reg and cr = cr and rnd = rnd and ps = ps and d = d and pre = pre and
        t = "files_bytes cr reg h fs @ t" and f = ?F and dreg = dreg, OF ok(1) rd(1) assms(1) rd(2,3) d] assms(5) r
    by (auto simp: opens_to_def f)
  moreover have "list_all2 (opens_to cr dreg h) fs (task_files cr reg h r (int (length (pre @ ?b))) fs)"
    by (rule Cons.IH [OF ok(2) _ r]) (use Cons.prems(2) in simp)
  ultimately show ?case by (simp add: f)
qed simp

lemma archive_read:
  assumes "tasks_ok cr reg h fs" "\<forall>f\<in>set fs. task_readable reg dreg h f" "clear_end cr reg h pre fs"
    and "int (length (pre @ archive_bytes cr reg h (int (length pre)) fs)) < 2 ^ 63"
  defines "r \<equiv> pre @ archive_bytes cr reg h (int (length pre)) fs"
  shows "NewReader r (int (length r)) = gives \<lparr>rr = r, rFile = task_files cr reg h r (int (length pre)) fs, rComment = []\<rparr>"
  unfolding r_def
  by (rule NewReader_archive)
    (use assms(1-4) in \<open>auto simp: tasks_ok_def task_readable_def\<close>)

text \<open>
  C1: the round trip of an archive: the writer takes any number of files, each in any pieces, under any registered
  method and with no encryption, that of PKWARE or AES, and closes without an error; \<open>NewReader\<close> lists the files in
  their order, and each of them opens, however it is read, to exactly the bytes that were written to it.
\<close>
theorem archive_roundtrip:
  assumes "crypto_ok cr" "tasks_ok cr reg h fs" "\<forall>f\<in>set fs. task_readable reg dreg h f" "clear_end cr reg h pre fs"
    and "int (length (pre @ archive_bytes cr reg h (int (length pre)) fs)) < 2 ^ 63"
  shows "\<exists>w z. write_archive cr reg fs (fresh_writer pre h) = Some (w, None) \<and>
    NewReader (pre @ out (zcw w)) (int (length (pre @ out (zcw w)))) = gives z \<and>
    list_all2 (opens_to cr dreg h) fs (rFile z)"
proof -
  let ?r = "pre @ archive_bytes cr reg h (int (length pre)) fs"
  from write_archive_bytes [of "fresh_writer pre h" cr reg fs] assms(2) obtain w where
    w: "write_archive cr reg fs (fresh_writer pre h) = Some (w, None)" "pre @ out (zcw w) = ?r"
    by auto
  obtain t where "?r = pre @ files_bytes cr reg h fs @ t" by (simp add: archive_bytes_def Let_def)
  from task_files_open [OF assms(1-3) this] assms(5)
  have "list_all2 (opens_to cr dreg h) fs (task_files cr reg h ?r (int (length pre)) fs)" by simp
  with archive_read [OF assms(2-5)] w show ?thesis by auto
qed

definition demo_crypto :: crypto where
  "demo_crypto = \<lparr>pbkdf2 = (\<lambda>_ _ _ len. replicate len 0), hmac_sha1 = (\<lambda>_ _. replicate 20 0), aes_encrypt = (\<lambda>_ b. b)\<rparr>"

definition demo_header :: "nat \<Rightarrow> FileHeader" where
  "demo_header a =
     (let h = zero_FileHeader\<lparr>Name := [97], Comment := replicate 20 0\<rparr>
      in if a = 0 then h else setEncryptionMethod AES128Encryption (zip_SetPassword [1] h))"

definition demo_salt :: "nat \<Rightarrow> bytes option" where
  "demo_salt n = Some (replicate n 7)"

definition demo_registry :: "16 word \<rightharpoonup> unit registered" where
  "demo_registry = builtin_compressors \<lparr>c_new = None, c_write = (\<lambda>s _. (s, [])), c_close = (\<lambda>_. [])\<rparr>"

definition demo_tasks :: "task list" where
  "demo_tasks = [(0, [[104], [105]], demo_salt), (1, [[1, 2, 3]], demo_salt)]"

lemma demo_header_simps:
  "Name (demo_header a) = [97]" "Comment (demo_header a) = replicate 20 0" "Extra (demo_header a) = []"
  "Method (demo_header a) = 0" "password (demo_header 0) = None" "password (demo_header 1) = Some [1]"
  "ExternalAttrs (demo_header a) = 0" "by_aes (demo_header 0) = False"
  by (simp_all add: demo_header_def zero_FileHeader_def setEncryptionMethod_def zip_SetPassword_def setEncryptionBit_def
      by_aes_def Let_def)

lemma demo_comp: "task_comp demo_registry (demo_header a) = NopCloser" "demo_registry 0 = Some NopCloser"
  by (simp_all add: task_comp_def demo_header_simps demo_registry_def builtin_compressors_def)

lemma demo_ok:
  "crypto_ok demo_crypto" "tasks_ok demo_crypto demo_registry demo_header demo_tasks"
  "\<forall>f\<in>set demo_tasks. task_readable demo_registry (builtin_decompressors id) demo_header f"
  "clear_end demo_crypto demo_registry demo_header [] demo_tasks"
  "int (length ([] @ archive_bytes demo_crypto demo_registry demo_header (int (length ([] :: bytes))) demo_tasks)) < 2 ^ 63"
proof -
  show "crypto_ok demo_crypto" by (simp add: crypto_ok_def demo_crypto_def)
  show "tasks_ok demo_crypto demo_registry demo_header demo_tasks" by code_simp
  have "plain_extra []" by (auto simp: plain_extra_def intro: exI [of _ "[]"])
  then have "fits (demo_header a)" for a by (simp add: fits_def demo_header_simps)
  moreover have "salt_ok demo_salt" by (simp add: salt_ok_def demo_salt_def)
  ultimately show "\<forall>f\<in>set demo_tasks. task_readable demo_registry (builtin_decompressors id) demo_header f"
    using undoes_Store
    by (auto simp: demo_tasks_def task_readable_def salted_def passed_on_def codec_ok_def demo_comp demo_header_simps
        builtin_decompressors_def)
  show "clear_end demo_crypto demo_registry demo_header [] demo_tasks"
    by (rule clear_end_comment) (simp add: demo_tasks_def, simp add: demo_tasks_def, rule refl, code_simp, code_simp)
  have "length (task_body demo_crypto demo_registry (demo_header 0) [[104], [105]] demo_salt) = 2"
    "length (task_body demo_crypto demo_registry (demo_header 1) [[1, 2, 3]] demo_salt) = 23"
    unfolding task_body_def demo_comp passed_on_def registered.case
    by (simp_all add: task_layer_def layer_of_def file_body_def auth_code_def
        demo_header_def demo_salt_def demo_crypto_def zero_FileHeader_def setEncryptionMethod_def zip_SetPassword_def
        setEncryptionBit_def IsEncrypted_def generateKeys_def aesKeyLen_def aes_NewCipher_def Let_def)
  then show "int (length ([] @ archive_bytes demo_crypto demo_registry demo_header (int (length ([] :: bytes))) demo_tasks)) < 2 ^ 63"
    using length_archive_le [of demo_tasks demo_crypto demo_registry demo_header 0]
    by (simp add: demo_tasks_def task_room_def demo_header_simps)
qed

theorem archive_roundtrip_witness:
  "\<exists>w z. write_archive demo_crypto demo_registry demo_tasks (fresh_writer [] demo_header) = Some (w, None) \<and>
    NewReader ([] @ out (zcw w)) (int (length ([] @ out (zcw w)))) = gives z \<and>
    list_all2 (opens_to demo_crypto (builtin_decompressors id) demo_header) demo_tasks (rFile z)"
  by (rule archive_roundtrip [OF demo_ok])


text \<open>
  C13: the layout of an archive: a writer whose destination does not fail puts out, file after file, the local header,
  name and extra field, the data through its layer with the code of authentication, and the descriptor; then the
  directory with the offsets where the local headers are, and the end records. It reports no error and is closed.
\<close>
theorem archive_layout:
  assumes "zlast w = None" "zdir w = []" "\<not> zclosed w" "sound (zcw w)" "tasks_ok cr reg (heap w) fs"
  shows "\<exists>w'. write_archive cr reg fs w = Some (w', None) \<and> zclosed w' \<and>
    out (zcw w') = out (zcw w) @ archive_bytes cr reg (heap w) (cwCount (zcw w)) fs"
  using write_archive_bytes [OF assms] by auto

theorem archive_layout_witness:
  "\<exists>w'. write_archive demo_crypto demo_registry demo_tasks (fresh_writer [1, 2] demo_header) = Some (w', None) \<and> zclosed w' \<and>
    out (zcw w') = out (zcw (fresh_writer [1, 2] demo_header :: unit zwriter)) @
      archive_bytes demo_crypto demo_registry (heap (fresh_writer [1, 2] demo_header :: unit zwriter))
        (cwCount (zcw (fresh_writer [1, 2] demo_header :: unit zwriter))) demo_tasks"
  by (rule archive_layout) (use demo_ok(2) in simp_all)

text \<open>The creator of a header is in the upper byte, which the writer keeps.\<close>

lemma listed_Mode: "Mode (listed fh (task_header cr reg fh ps rnd) off) = Mode fh"
proof -
  have "drop_bit 8 ((v AND 0xff00) OR 20) = (drop_bit 8 v :: 16 word)" for v
  proof -
    have "drop_bit 8 ((v AND 0xff00) OR 20) = drop_bit 8 v AND mask 8"
      by (simp add: drop_bit_or drop_bit_and mask_eq_exp_minus_1)
    also have "\<dots> = take_bit 8 (drop_bit 8 v)" by (simp only: take_bit_eq_mask)
    also have "\<dots> = drop_bit 8 v" by (simp add: take_bit_drop_bit take_bit_word_eq_self)
    finally show ?thesis .
  qed
  then show ?thesis
    by (simp add: Mode_def Let_def listed_def task_header_def layered_def prepared_def zero_FileHeader_def)
qed

lemma listed_ModTime: "ModTime (listed fh (task_header cr reg fh ps rnd) off) = ModTime fh"
  by (simp add: ModTime_def listed_def)

text \<open>The files as a directory lists them.\<close>

definition attributes_kept :: "(nat \<Rightarrow> FileHeader) \<Rightarrow> task \<Rightarrow> File \<Rightarrow> bool" where
  "attributes_kept h t f \<longleftrightarrow>
     (case t of (a, ps, rnd) \<Rightarrow>
        Name (hd1 f) = Name (h a) \<and> Comment (hd1 f) = Comment (h a) \<and> Method (hd1 f) = Method (h a) \<and>
        ModTime (hd1 f) = ModTime (h a) \<and> Mode (hd1 f) = Mode (h a) \<and>
        UncompressedSize64 (hd1 f) = of_nat (length (concat ps)) \<and>
        (IsEncrypted (hd1 f) \<longleftrightarrow> password (h a) \<noteq> None) \<and> isAE2 (hd1 f) = by_aes (h a))"

lemma task_files_attributes:
  "tasks_ok cr reg h fs \<Longrightarrow> list_all2 (attributes_kept h) fs (task_files cr reg h r off fs)"
proof (induction fs arbitrary: off)
  case (Cons f fs)
  obtain a ps rnd where f: "f = (a, ps, rnd)" by (cases f)
  have ok: "task_ok cr reg (h a) rnd" "tasks_ok cr reg h fs" using Cons.prems by (simp_all add: f tasks_ok_def)
  have "IsEncrypted (listed (h a) (task_header cr reg (h a) ps rnd) x) \<longleftrightarrow> password (h a) \<noteq> None" for x
    using ok(1) IsEncrypted_prepared [of "h a"] by (simp add: IsEncrypted_def task_header_simps task_ok_def)
  then show ?case
    using Cons.IH [OF ok(2)]
    by (simp add: f attributes_kept_def listed_Mode listed_ModTime task_header_simps isAE2_def) (simp add: listed_def)
qed simp

text \<open>
  C14: \<open>NewReader\<close> lists the files that were written in their order, with the name, comment, method, time, mode and
  size that they were given, and whether they are encrypted, and how.
\<close>
theorem archive_listing:
  assumes "tasks_ok cr reg h fs" "\<forall>f\<in>set fs. task_readable reg dreg h f" "clear_end cr reg h pre fs"
    and "int (length (pre @ archive_bytes cr reg h (int (length pre)) fs)) < 2 ^ 63"
  shows "\<exists>w z. write_archive cr reg fs (fresh_writer pre h) = Some (w, None) \<and>
    NewReader (pre @ out (zcw w)) (int (length (pre @ out (zcw w)))) = gives z \<and>
    list_all2 (attributes_kept h) fs (rFile z) \<and> rComment z = []"
proof -
  from write_archive_bytes [of "fresh_writer pre h" cr reg fs] assms(1) obtain w where
    "write_archive cr reg fs (fresh_writer pre h) = Some (w, None)"
    "pre @ out (zcw w) = pre @ archive_bytes cr reg h (int (length pre)) fs"
    by auto
  then show ?thesis
    using archive_read [OF assms] task_files_attributes [OF assms(1)] by fastforce
qed

theorem archive_listing_witness:
  "\<exists>w z. write_archive demo_crypto demo_registry demo_tasks (fresh_writer [] demo_header) = Some (w, None) \<and>
    NewReader ([] @ out (zcw w)) (int (length ([] @ out (zcw w)))) = gives z \<and>
    list_all2 (attributes_kept demo_header) demo_tasks (rFile z) \<and> rComment z = []"
  by (rule archive_listing [OF demo_ok(2-5)])



section \<open>Streams and checks\<close>

text \<open>\<open>XORKeyStream\<close> called on one piece after the other.\<close>

fun stream_pieces :: "(bytes \<Rightarrow> bytes) \<Rightarrow> bytes list \<Rightarrow> ctr \<Rightarrow> bytes" where
  "stream_pieces E [] x = []"
| "stream_pieces E (p # ps) x = (case XORKeyStream E p x of (c, x) \<Rightarrow> c @ stream_pieces E ps x)"

lemma stream_pieces_at: "ctr_at E pos x \<Longrightarrow> stream_pieces E ps x = xor_stream E pos (concat ps)"
proof (induction ps arbitrary: pos x)
  case (Cons p ps)
  then show ?case
    using XORKeyStream_at [OF Cons.prems, of p] by (cases "XORKeyStream E p x") (simp add: xor_stream_append)
qed simp

text \<open>
  C10: the counter mode of WinZip: whatever the pieces in which the bytes come, \<open>XORKeyStream\<close> with its buffer of 512
  bytes combines the byte at position \<open>i\<close> with byte \<open>i mod 16\<close> of the encryption of the number \<open>i div 16 + 1\<close>, the
  least significant byte first.
\<close>
theorem ctr_is_stream:
  "stream_pieces E ps newWinZipCTR =
     map (\<lambda>i. concat ps ! i XOR E_block E (le_counter (i div 16 + 1)) ! (i mod 16)) [0..<length (concat ps)]"
  using stream_pieces_at [OF ctr_at_new, of E ps] by (simp add: xor_stream_def keystream_def)

text \<open>
  C11: without \<open>DeferAuth\<close> no byte of a file encrypted by AES is passed on unless the code of authentication that is
  stored is that of the encrypted data under the key of the password.
\<close>
theorem aes_content_authentic:
  fixes f :: FileHeader and r :: bytes and off n :: int
  defines "k \<equiv> aesKeyLen (aesStrength f)"
  defines "dataLen \<equiv> sint (CompressedSize64 f - of_nat (k div 2) - 2 - 10)"
  defines "data \<equiv> section_bytes (section_bytes r off n) (int (k div 2) + 2) dataLen"
  defines "code \<equiv> section_bytes (section_bytes r off n) (int (k div 2) + 2 + dataLen) 10"
  assumes "newDecryptionReader cr sz r off n f = gives rs" "\<not> DeferAuth f" "x \<in> set rs" "fst x \<noteq> []"
  shows "\<exists>pw salt ekey akey pwv. password f = Some pw \<and> section_Read r off n (k div 2 + 2) = Inr (salt @ pwv) \<and>
    generateKeys cr pw salt k = (ekey, akey, pwv) \<and> take 10 (hmac_sha1 cr akey data) = code"
proof -
  from assms(5,6) obtain sp pw ekey akey pwv where p: "section_Read r off n (k div 2 + 2) = Inr sp" "password f = Some pw"
    "generateKeys cr pw (take (k div 2) sp) k = (ekey, akey, pwv)" "pwv = drop (k div 2) sp"
    "decryptStream cr ekey (newAuthReader cr sz akey data code False) = Some rs"
    by (auto simp: newDecryptionReader_def k_def data_def code_def dataLen_def Let_def checkPasswordVerification_def
        split: if_splits sum.splits option.splits prod.splits)
  have "\<forall>e. newAuthReader cr sz akey data code False \<noteq> [([], Some e)]"
    using p(5) assms(7,8) pump_refused by (auto simp: decryptStream_def split: if_splits)
  then have "take 10 (hmac_sha1 cr akey data) = code" by (rule buffered_checks)
  then show ?thesis using p by (metis append_take_drop_id)
qed

definition demo_data :: bytes where
  "demo_data = xor_stream (aes_encrypt demo_crypto (replicate 16 0)) 0 [1, 2]"

definition demo_body :: bytes where
  "demo_body = replicate 8 7 @ [0, 0] @ demo_data @ replicate 10 0"

definition demo_file :: FileHeader where
  "demo_file = zero_FileHeader\<lparr>aesStrength := 1, password := Some [1], CompressedSize64 := 22\<rparr>"

lemma delivers_nonempty: "delivers rs = Some b \<Longrightarrow> b \<noteq> [] \<Longrightarrow> \<exists>x\<in>set rs. fst x \<noteq> []"
  by (induction rs arbitrary: b rule: delivers.induct) (auto split: if_splits)

theorem aes_content_authentic_witness:
  "\<exists>rs x pw salt ekey akey pwv. newDecryptionReader demo_crypto id demo_body 0 22 demo_file = gives rs \<and> x \<in> set rs \<and>
    fst x \<noteq> [] \<and> password demo_file = Some pw \<and> section_Read demo_body 0 22 10 = Inr (salt @ pwv) \<and>
    generateKeys demo_crypto pw salt 16 = (ekey, akey, pwv) \<and>
    take 10 (hmac_sha1 demo_crypto akey (section_bytes (section_bytes demo_body 0 22) 10 2)) =
      section_bytes (section_bytes demo_body 0 22) 12 10"
proof -
  have len: "length demo_body = 22" by (simp add: demo_body_def demo_data_def)
  have k: "aesKeyLen (aesStrength demo_file) = 16" by (simp add: demo_file_def aesKeyLen_def)
  have two: "replicate 2 (0 :: byte) = [0, 0]" by (simp add: numeral_2_eq_2)
  have d: "sint (CompressedSize64 demo_file - 20) = 2" by (simp add: demo_file_def)
  have "\<exists>rs. newDecryptionReader demo_crypto id ([] @ demo_body @ []) 0 (int (length demo_body)) demo_file = gives rs \<and>
      delivers rs = Some [1, 2]"
    by (rule open_aes [where salt = "replicate 8 7" and pw = "[1]" and pwv = "replicate 2 0" and c = demo_data
          and akey = "replicate 16 0" and ekey = "replicate 16 0" and s = 1])
      (simp_all add: demo_ok(1) len demo_file_def, simp_all add: demo_body_def demo_data_def demo_crypto_def
        generateKeys_def aesKeyLen_def aes_NewCipher_def Let_def two)
  then obtain rs x where rs: "newDecryptionReader demo_crypto id demo_body 0 22 demo_file = gives rs" "x \<in> set rs" "fst x \<noteq> []"
    using delivers_nonempty by (fastforce simp: len)
  have "\<not> DeferAuth demo_file" by (simp add: demo_file_def zero_FileHeader_def)
  from aes_content_authentic [OF rs(1) this rs(2,3)] show ?thesis
    by (intro exI [of _ rs] exI [of _ x]) (use rs in \<open>simp add: k d\<close>)
qed

text \<open>
  C20: a file that is not AE-2 comes to its end without an error only if its length is the one in the directory and its
  sum is the stored one; a sum of zero is not checked when there is no descriptor.
\<close>
theorem content_checked:
  assumes "Open cr dreg sz f = gives rs" "\<not> isAE2 (hd1 f)" "delivers rs = Some b"
  shows "of_nat (length b) = UncompressedSize64 (hd1 f) \<and>
    (hasDataDescriptor (hd1 f) \<or> CRC32 (hd1 f) \<noteq> 0 \<longrightarrow> crc_sum b = CRC32 (hd1 f))"
proof -
  from assms(1,2) obtain desr rc where d: "rs = pump (checksum_Read (hd1 f) desr) \<lparr>cs_hash = crc_new, nread = 0, cs_err = None\<rparr> rc"
    "hasDataDescriptor (hd1 f) \<Longrightarrow> desr \<noteq> None"
    by (auto simp: Open_def res_bind_def Let_def split: option.splits sum.splits if_splits)
  have "of_nat (length b) = UncompressedSize64 (hd1 f) \<and> checksum_end (hd1 f) desr (crc_sum b) = EOF"
    using delivers_checked [OF assms(3) [unfolded d(1)]] by (simp add: crc_sum_def)
  then show ?thesis using checksum_end_EOF d(2) by blast
qed

definition demo_listed :: File where
  "demo_listed =
     \<lparr>hd1 = listed (demo_header 0) (task_header demo_crypto demo_registry (demo_header 0) [[104, 105]] demo_salt) 0,
      zipr = task_bytes demo_crypto demo_registry (demo_header 0) [[104, 105]] demo_salt, zipsize = 0, headerOffset = 0\<rparr>"

theorem content_checked_witness:
  "\<exists>rs b. Open demo_crypto (builtin_decompressors id) id demo_listed = gives rs \<and> delivers rs = Some b \<and>
    of_nat (length b) = UncompressedSize64 (hd1 demo_listed) \<and>
    (hasDataDescriptor (hd1 demo_listed) \<or> CRC32 (hd1 demo_listed) \<noteq> 0 \<longrightarrow> crc_sum b = CRC32 (hd1 demo_listed))"
proof -
  have ok: "task_ok demo_crypto demo_registry (demo_header 0) demo_salt" by code_simp
  have fits: "fits (demo_header 0)" and salt: "salt_ok demo_salt"
    using demo_ok(3) by (simp_all add: demo_tasks_def task_readable_def)
  have s: "salted (demo_header 0) (task_comp demo_registry (demo_header 0)) [[104, 105]]"
    by (simp add: salted_def demo_header_simps)
  have d: "builtin_decompressors id (Method (demo_header 0)) = Some id" "undoes id (task_comp demo_registry (demo_header 0))"
    using undoes_Store by (simp_all add: builtin_decompressors_def demo_header_simps demo_comp)
  have "length (task_body demo_crypto demo_registry (demo_header 0) [[104, 105]] demo_salt) = 2"
    unfolding task_body_def demo_comp passed_on_def registered.case
    by (simp add: task_layer_def layer_of_def file_body_def auth_code_def demo_header_simps)
  then have l: "int (length ([] @ task_bytes demo_crypto demo_registry (demo_header 0) [[104, 105]] demo_salt @ [])) < 2 ^ 63"
    using length_task_and_dir [of demo_crypto demo_registry "demo_header 0" "[[104, 105]]" demo_salt 0]
    by (simp add: task_room_def demo_header_simps)
  obtain rs where rs: "Open demo_crypto (builtin_decompressors id) id demo_listed = gives rs"
    "delivers rs = Some (concat [[104, 105]])"
    using Open_written [where pre = "[]" and t = "[]" and f = demo_listed and off = "0" and sz = id and ?defer = False and
        fh = "demo_header 0" and reg = demo_registry and cr = demo_crypto and rnd = demo_salt and ps = "[[104, 105]]" and
        d = id and dreg = "builtin_decompressors id",
        OF ok fits demo_ok(1) salt s d l]
    by (auto simp: demo_listed_def demo_header_simps unlock_def)
  have "\<not> isAE2 (hd1 demo_listed)" by (simp add: demo_listed_def isAE2_def demo_header_simps)
  from content_checked [OF rs(1) this rs(2)] rs show ?thesis by blast
qed

text \<open>
  Of all the places in a block where an end record with a comment that fits could start, \<open>findSignatureInBlock\<close>
  returns the last one, and reports none only if there is none.
\<close>
theorem last_end_record:
  "findSignatureInBlock b = Some i \<longleftrightarrow>
     i + 22 \<le> length b \<and> sig_at b i \<and> (\<forall>j. i < j \<and> j + 22 \<le> length b \<longrightarrow> \<not> sig_at b j)"
  by (rule findSignature_Some)

theorem last_end_record_witness: "findSignatureInBlock ([1, 2] @ endrec_bytes 0 0 0) = Some 2"
proof -
  have "sig_at ([1, 2] @ endrec_bytes 0 0 0) 2" using sig_at_end [of "[1, 2]" 0 0 0] by (simp add: numeral_2_eq_2)
  then show ?thesis unfolding last_end_record by auto
qed

text \<open>
  C34: What \<open>NewReader\<close> lists is what stands in the directory, for any bytes at all. From the offset of the end record
  the bytes are records, one after the other and each with the signature of the directory, and the files are these
  records in this order: the fields from their places, the name, the extra field and the comment of the lengths given,
  the extra field made of whole blocks and of fewer than four zeros, and what its blocks say applied in their order. No
  further record stands after the last. The number of files is that of the end record modulo 65536, which is at most one
  for every thirty bytes.
\<close>
theorem listing_well_formed:
  assumes "NewReader r sz = gives z"
  shows "\<exists>d recs rest. readDirectoryEnd r sz = gives d \<and>
    drop (unat (directoryOffset d)) (take (nat sz) r) = concat recs @ rest \<and>
    list_all2 (record_of r sz) recs (rFile z) \<and>
    (\<forall>rec f rest'. rest = rec @ rest' \<longrightarrow> \<not> record_of r sz rec f) \<and>
    (of_nat (length recs) :: 16 word) = ucast (directoryRecords d) \<and> directoryRecords d \<le> word_of_int sz div 30 \<and>
    rr z = r \<and> rComment z = dcomment d"
proof -
  obtain d where d: "readDirectoryEnd r sz = gives d" "\<not> directoryRecords d > word_of_int sz div of_nat fileHeaderLen"
    "res_bind (dir_loop r sz (drop (unat (directoryOffset d)) (take (nat sz) r))) (\<lambda>(fs, e).
       if (of_nat (length fs) :: 16 word) \<noteq> ucast (directoryRecords d) then fails e
       else gives \<lparr>rr = r, rFile = fs, rComment = dcomment d\<rparr>) = gives z"
    using assms unfolding NewReader_def res_bind_gives [of "readDirectoryEnd r sz"] by (auto split: if_splits)
  obtain fs e where fs: "dir_loop r sz (drop (unat (directoryOffset d)) (take (nat sz) r)) = gives (fs, e)"
    "(of_nat (length fs) :: 16 word) = ucast (directoryRecords d)" "z = \<lparr>rr = r, rFile = fs, rComment = dcomment d\<rparr>"
    using d(3) unfolding res_bind_gives by (auto split: if_splits)
  obtain recs rest where recs: "drop (unat (directoryOffset d)) (take (nat sz) r) = concat recs @ rest"
    "list_all2 (record_of r sz) recs fs" "\<forall>rec f rest'. rest = rec @ rest' \<longrightarrow> \<not> record_of r sz rec f"
    using dir_loop_records [OF fs(1)] by blast
  have "(of_nat (length recs) :: 16 word) = ucast (directoryRecords d)"
    using fs(2) list_all2_lengthD [OF recs(2)] by simp
  moreover have "directoryRecords d \<le> word_of_int sz div 30" using d(2) by (simp add: not_less)
  ultimately show ?thesis
    using d(1) recs fs(3) by (intro exI [of _ d] exI [of _ recs] exI [of _ rest] conjI) simp_all
qed

theorem listing_well_formed_witness:
  "\<exists>r z recs rest n. NewReader r (int (length r)) = gives z \<and> list_all2 (record_of r (int (length r))) recs (rFile z) \<and>
    length recs = 2 \<and> drop n r = concat recs @ rest"
proof -
  define r where "r = [] @ archive_bytes demo_crypto demo_registry demo_header (int (length ([] :: bytes))) demo_tasks"
  define z where "z = \<lparr>rr = r, rFile = task_files demo_crypto demo_registry demo_header r (int (length ([] :: bytes))) demo_tasks,
    rComment = []\<rparr>"
  have r: "NewReader r (int (length r)) = gives z"
    unfolding r_def z_def by (rule archive_read [OF demo_ok(2-5)])
  have two: "length (rFile z) = 2" by (simp add: z_def demo_tasks_def)
  obtain d :: directoryEnd and recs rest where 1: "drop (unat (directoryOffset d)) (take (nat (int (length r))) r) = concat recs @ rest"
    and 2: "list_all2 (record_of r (int (length r))) recs (rFile z)"
    using listing_well_formed [OF r] by blast
  have 3: "length recs = 2" using list_all2_lengthD [OF 2] two by (rule trans)
  have "drop (unat (directoryOffset d)) r = concat recs @ rest"
    using 1 unfolding nat_int take_all [OF order_refl] .
  then show ?thesis using r 2 3 by blast
qed

text \<open>
  a password alone is not enough: for a header with \<open>SetPassword\<close> and no method of encryption \<open>CreateHeader\<close>
  always fails, with a key of no length; by then the header has a new extra field and another method.
\<close>
theorem password_without_method:
  assumes "close_last cr w = Some (w, None)" "zdir w = []" "reg (Method (heap w a)) \<noteq> None"
    and "heap w a = zip_SetPassword pw fh" "encryption fh = NoEncryption" "aesStrength fh = 0" "rnd 0 = Some []"
  shows "\<exists>w'. CreateHeader cr reg rnd a w = Some (w', Some ErrKeySize) \<and> zcw w' = zcw w \<and> zdir w' = [] \<and>
    Method (heap w' a) = 99 \<and> length (Extra (heap w' a)) = length (Extra fh) + 11"
proof -
  have k: "aesKeyLen 0 = 0" by (simp add: aesKeyLen_def)
  have h: "password (heap w a) = Some pw" "encryption (heap w a) = NoEncryption" "aesStrength (heap w a) = 0"
    "Extra (heap w a) = Extra fh"
    by (simp_all add: assms(4-6) zip_SetPassword_def setEncryptionBit_def)
  obtain c where c: "reg (Method (heap w a)) = Some c" using assms(3) by blast
  show ?thesis
    by (simp add: CreateHeader_def assms(1,2,7) c Let_def add_layer_def h writeWinZipExtra_Some newEncryptionWriter_def k
        generateKeys_def aes_NewCipher_def)
qed

theorem password_without_method_witness:
  "\<exists>w'. CreateHeader demo_crypto demo_registry demo_salt 0 (fresh_writer [] (\<lambda>_. zip_SetPassword [1] zero_FileHeader)) =
      Some (w', Some ErrKeySize) \<and> zcw w' = zcw (fresh_writer [] (\<lambda>_. zip_SetPassword [1] zero_FileHeader) :: unit zwriter) \<and>
      zdir w' = [] \<and> Method (heap w' 0) = 99 \<and> length (Extra (heap w' 0)) = length (Extra zero_FileHeader) + 11"
  by (rule password_without_method [where pw = "[1]"])
    (simp_all add: close_last_def demo_salt_def zero_FileHeader_def zip_SetPassword_def setEncryptionBit_def demo_comp)

text \<open>
  A directory record whose extra field has a block 0x9901 of fewer than seven bytes makes the reader panic: the
  four reads of the block do not look at its length.
\<close>
theorem short_aes_field_panics:
  assumes "Extra (dir_header h off) = x @ block_bytes winzipAesExtraId d @ y" "plain_extra x" "length d < 7"
    and "length (Name h) < 65536" "length (Extra (dir_header h off)) < 65536" "length (Comment h) < 65536"
  shows "readDirectoryHeader zr sz (dir_bytes h off @ t) = None"
proof -
  let ?d = "dir_header h off"
  have "ReadFull 46 (dir_bytes h off @ t) = gives (dir_fixed ?d off, Name h @ Extra ?d @ Comment h @ t)"
    using ReadFull_append [of "dir_fixed ?d off"] by (simp add: dir_bytes_def Let_def)
  moreover have "ReadFull (length (Name h) + length (Extra ?d) + length (Comment h)) (Name h @ Extra ?d @ Comment h @ t)
      = gives (Name h @ Extra ?d @ Comment h, t)"
    using ReadFull_append [of "Name h @ Extra ?d @ Comment h" _ t] by (simp add: add.assoc)
  moreover have "extra_loop (Extra ?d) f = None" for f
    unfolding assms(1) by (rule extra_loop_short [OF assms(2,3)])
  moreover have "Extra ?d \<noteq> []" by (simp add: assms(1) block_bytes_def wb_uint16_def flip: length_0_conv)
  ultimately show ?thesis
    using assms(4-6) by (simp add: readDirectoryHeader_def header_fields_bytes unat_length Let_def)
qed

theorem short_aes_field_panics_witness:
  "readDirectoryHeader [] 0 (dir_bytes (zero_FileHeader\<lparr>Extra := block_bytes winzipAesExtraId [1]\<rparr>) 0 @ []) = None"
proof -
  let ?h = "zero_FileHeader\<lparr>Extra := block_bytes winzipAesExtraId [1]\<rparr>"
  have "Extra (dir_header ?h 0) = [] @ block_bytes winzipAesExtraId [1] @ []"
    by (simp add: dir_header_Extra needs_zip64_def isZip64_def zero_FileHeader_def uint32max_def)
  moreover have "plain_extra []" by (auto simp: plain_extra_def intro: exI [of _ "[]"])
  ultimately show ?thesis
    by (rule short_aes_field_panics)
      (simp_all add: dir_header_Extra needs_zip64_def isZip64_def zero_FileHeader_def uint32max_def block_bytes_def)
qed

end
