(* ===== verification/Http_Base.thy ===== *)
theory Http_Base imports Complex_Main Prelude begin

text \<open>
  The values of the package \<open>soehttp\<close>: errors and the classes \<open>errors.go\<close> puts them in, the configurations with
  their defaults, requests, the events by which a call is observed, and the code outside \<open>src/\<close> as one
  record of functions, \<open>env\<close>.

  Strings are the bytes of Go's strings. A \<open>time.Duration\<close> is a 64-bit word read in two's complement. The
  history of a program is the list of its events; the server, the circuit breaker and the tracer answer as
  functions of it, so that any behaviour of theirs is one of these functions.
\<close>

section \<open>Errors\<close>

text \<open>An error has its text and the error it wraps. \<open>Errorf_w p e\<close> is \<open>fmt.Errorf(p + "%w", e)\<close>.\<close>

datatype go_error = GoError (err_text: bytes) (err_wrapped: "go_error option")

abbreviation errors_New :: "bytes \<Rightarrow> go_error" where
  "errors_New s \<equiv> GoError s None"

definition Errorf_w :: "bytes \<Rightarrow> go_error option \<Rightarrow> go_error" where
  "Errorf_w p e = GoError (p @ (case e of None \<Rightarrow> bytes_of ''%!w(<nil>)'' | Some x \<Rightarrow> err_text x)) e"

text \<open>\<open>strings.Contains\<close>.\<close>

fun str_contains :: "bytes \<Rightarrow> bytes \<Rightarrow> bool" where
  "str_contains [] p = (p = [])"
| "str_contains (b # s) p = (take (length p) (b # s) = p \<or> str_contains s p)"

lemma str_contains_iff: "str_contains s p \<longleftrightarrow> (\<exists>u v. s = u @ p @ v)"
proof (induction s)
  case (Cons b s)
  have "take (length p) (b # s) = p \<longleftrightarrow> (\<exists>v. b # s = p @ v)"
    by (metis append_eq_conv_conj append_take_drop_id)
  moreover have "(\<exists>u v. s = u @ p @ v) \<longleftrightarrow> (\<exists>u v. u \<noteq> [] \<and> b # s = u @ p @ v)"
    by (metis append_Cons list.distinct(1) list.exhaust list.inject)
  ultimately show ?case
    using Cons.IH by (metis append_Nil str_contains.simps(2))
qed simp

lemma str_contains_infix: "str_contains q p \<Longrightarrow> str_contains (u @ q @ v) p"
  by (metis append.assoc str_contains_iff)

definition IsCircuitBreakerError :: "go_error option \<Rightarrow> bool" where
  "IsCircuitBreakerError err =
     (case err of
        None \<Rightarrow> False
      | Some e \<Rightarrow>
        (let msg = err_text e
         in str_contains msg (bytes_of ''fallback'') \<or> str_contains msg (bytes_of ''circuit open'')
              \<or> str_contains msg (bytes_of ''hystrix'')))"

definition IsTimeoutError :: "go_error option \<Rightarrow> bool" where
  "IsTimeoutError err =
     (case err of
        None \<Rightarrow> False
      | Some e \<Rightarrow>
        (let msg = err_text e
         in str_contains msg (bytes_of ''timeout'') \<or> str_contains msg (bytes_of ''deadline exceeded'')
              \<or> str_contains msg (bytes_of ''context deadline exceeded'')))"

definition IsNetworkError :: "go_error option \<Rightarrow> bool" where
  "IsNetworkError err =
     (case err of
        None \<Rightarrow> False
      | Some e \<Rightarrow>
        (let msg = err_text e
         in str_contains msg (bytes_of ''connection refused'') \<or> str_contains msg (bytes_of ''no such host'')
              \<or> str_contains msg (bytes_of ''network is unreachable'')
              \<or> str_contains msg (bytes_of ''connection reset'')))"

definition IsHystrixMaxConcurrencyError :: "go_error option \<Rightarrow> bool" where
  "IsHystrixMaxConcurrencyError err =
     (case err of
        None \<Rightarrow> False
      | Some e \<Rightarrow>
        (let msg = err_text e
         in str_contains msg (bytes_of ''max concurrency'') \<or> str_contains msg (bytes_of ''too many requests'')))"

definition GetErrorType :: "go_error option \<Rightarrow> string" where
  "GetErrorType err =
     (if err = None then ''success''
      else if IsCircuitBreakerError err then ''circuit_breaker''
      else if IsTimeoutError err then ''timeout''
      else if IsNetworkError err then ''network''
      else if IsHystrixMaxConcurrencyError err then ''max_concurrency''
      else ''business_error'')"

section \<open>Configurations\<close>

type_synonym duration = "64 word"

abbreviation seconds :: "int \<Rightarrow> duration" where
  "seconds n \<equiv> word_of_int n * 1000000000"

record TransportConfig =
  MaxIdleConns :: int
  MaxIdleConnsPerHost :: int
  IdleConnTimeout :: duration
  InsecureSkipVerify :: bool

record RetryConfig =
  MaxRetries :: int
  RetryWaitTime :: duration
  RetryMaxWait :: duration
  RetryableStatus :: "int list"

definition DefaultTransportConfig :: TransportConfig where
  "DefaultTransportConfig =
     \<lparr>MaxIdleConns = 100, MaxIdleConnsPerHost = 10, IdleConnTimeout = seconds 90, InsecureSkipVerify = False\<rparr>"

definition DefaultRetryConfig :: RetryConfig where
  "DefaultRetryConfig =
     \<lparr>MaxRetries = 0, RetryWaitTime = seconds 1, RetryMaxWait = seconds 5, RetryableStatus = [500, 502, 503, 504]\<rparr>"

record HystrixConfig =
  Timeout :: int
  MaxConcurrentRequests :: int
  ErrorPercentThreshold :: int
  RequestVolumeThreshold :: int
  SleepWindow :: int

definition DefaultHystrixConfig :: HystrixConfig where
  "DefaultHystrixConfig =
     \<lparr>Timeout = 2000, MaxConcurrentRequests = 100, ErrorPercentThreshold = 50, RequestVolumeThreshold = 20,
      SleepWindow = 5000\<rparr>"

definition StrictHystrixConfig :: HystrixConfig where
  "StrictHystrixConfig =
     \<lparr>Timeout = 1000, MaxConcurrentRequests = 50, ErrorPercentThreshold = 30, RequestVolumeThreshold = 10,
      SleepWindow = 3000\<rparr>"

definition RelaxedHystrixConfig :: HystrixConfig where
  "RelaxedHystrixConfig =
     \<lparr>Timeout = 5000, MaxConcurrentRequests = 200, ErrorPercentThreshold = 60, RequestVolumeThreshold = 30,
      SleepWindow = 10000\<rparr>"

record AlarmConfig =
  SendErrorToWx :: bool
  ChatID :: bytes
  ApiPath :: bytes

record SoeHTTPConfig =
  Alarm :: AlarmConfig
  Hystrix :: HystrixConfig
  EnableHystrix :: bool

section \<open>Requests and clients\<close>

text \<open>
  A context is the background, one of the caller's, or what the tracer made of one. A client is one the package
  made, or the caller's. \<open>Header.Set\<close> writes under the canonical key: letters after the start and after a
  hyphen are capitals, the others are not.
\<close>

datatype go_context = Background | CallerContext nat | SpanContext nat

record made_client =
  ClientTimeout :: duration
  Transport :: TransportConfig

datatype http_client = Client made_client | CustomClient nat

datatype tracer = GlobalTracer bytes | CustomTracer nat

type_synonym http_header = "bytes \<Rightarrow> bytes list option"

fun canonical_key :: "bool \<Rightarrow> bytes \<Rightarrow> bytes" where
  "canonical_key up [] = []"
| "canonical_key up (c # cs) =
     (if up \<and> 97 \<le> c \<and> c \<le> 122 then c - 32 else if \<not> up \<and> 65 \<le> c \<and> c \<le> 90 then c + 32 else c)
       # canonical_key (c = 45) cs"

definition Header_Set :: "bytes \<Rightarrow> bytes \<Rightarrow> http_header \<Rightarrow> http_header" where
  "Header_Set k v h = h(canonical_key True k \<mapsto> [v])"

text \<open>
  \<open>req_Body\<close> is what is left to read of the body: \<open>bytes.Reader\<close> gives each byte once, and \<open>read_body k\<close> is the
  request after its client has read \<open>k\<close> of them.
\<close>

record http_request =
  req_Method :: bytes
  req_URL :: bytes
  req_Context :: go_context
  req_Header :: http_header
  req_Body :: bytes

definition read_body :: "nat \<Rightarrow> http_request \<Rightarrow> http_request" where
  "read_body k req = req\<lparr>req_Body := drop k (req_Body req)\<rparr>"

definition set_header :: "bytes \<Rightarrow> bytes \<Rightarrow> http_request \<Rightarrow> http_request" where
  "set_header k v req = req\<lparr>req_Header := Header_Set k v (req_Header req)\<rparr>"

section \<open>Spans\<close>

text \<open>A span of the tracer: what the code has set on it, in order.\<close>

datatype attr = AString bytes | AInt int | ABool bool

datatype span_status = Unset | StatusOk | StatusError bytes

record span =
  span_name :: bytes
  span_recording :: bool
  span_attrs :: "(bytes \<times> attr) list"
  span_status :: span_status
  span_errors :: "go_error list"

section \<open>Events and the code outside\<close>

text \<open>
  An event is a request handed to a client, a wait, an alarm that is sent, a command that the circuit breaker
  is given, the flush of the breaker, and the end of a span.

  A reply is an error of \<open>client.Do\<close>, or a status with what \<open>io.ReadAll\<close> made of the body. The breaker runs a
  command, rejects it, or gives up on it after its time-out; the run goes on then, and its results land before
  \<open>hystrix.Do\<close> has returned, after that but before the caller reads them, or too late.
\<close>

datatype http_event =
    Sent http_client http_request
  | Slept duration
  | Alerted bytes bytes bytes
  | Configured bytes HystrixConfig
  | Flushed
  | SpanEnded span

type_synonym history = "http_event list"

datatype reply = NetError go_error | Reply int "go_error + bytes"

datatype landing = Early | Between | Late

datatype verdict = Ran | Rejected go_error | TimedOut go_error landing

datatype json = JNull | JBool bool | JNumber rat | JString bytes | JArray "json list" | JObject "(bytes \<times> json) list"

record SoeRestAPIException =
  exc_Error :: bytes
  exc_Exception :: bytes
  exc_Message :: bytes
  exc_Path :: bytes
  exc_Data :: bytes

record SoeGoResponseVO =
  vo_Code :: int
  vo_Data :: json
  vo_Msg :: bytes

text \<open>
  \<open>env\<close> has: the server as \<open>client.Do\<close> shows it, with how much of the body was read; the error of
  \<open>http.NewRequestWithContext\<close>, if any; the breaker, and the text of the error it makes of those of the fallback
  and of the run; \<open>json.Unmarshal\<close> into an interface; the two \<open>mapstructure.Decode\<close>; \<open>md5.Sum\<close>; host and path by
  \<open>url.Parse\<close>; \<open>tracer.Start\<close>, with whether the span records; and the propagator.
\<close>

record env =
  client_Do :: "history \<Rightarrow> http_client \<Rightarrow> http_request \<Rightarrow> nat \<times> reply"
  request_error :: "go_context \<Rightarrow> bytes \<Rightarrow> bytes \<Rightarrow> go_error option"
  hystrix_Do :: "history \<Rightarrow> bytes \<Rightarrow> verdict"
  fallback_failed :: "bytes \<Rightarrow> bytes \<Rightarrow> bytes"
  json_Unmarshal :: "bytes \<Rightarrow> go_error + json"
  Decode_exception :: "(bytes \<times> json) list \<Rightarrow> go_error + SoeRestAPIException"
  Decode_response :: "(bytes \<times> json) list \<Rightarrow> go_error + SoeGoResponseVO"
  md5_Sum :: "bytes \<Rightarrow> bytes"
  url_Parse :: "bytes \<Rightarrow> (bytes \<times> bytes) option"
  tracer_Start :: "tracer \<Rightarrow> go_context \<Rightarrow> bytes \<Rightarrow> (bytes \<times> attr) list \<Rightarrow> go_context \<times> bool"
  propagator_Inject :: "go_context \<Rightarrow> http_header \<Rightarrow> http_header"

section \<open>Texts\<close>

text \<open>The texts of the code that are not ASCII, in UTF-8, and \<open>http.StatusText\<close>.\<close>

definition busy_text :: bytes where
  "busy_text = [0xE6, 0x9C, 0x8D, 0xE5, 0x8A, 0xA1, 0xE5, 0x99, 0xA8, 0xE5, 0xA4, 0xAA, 0xE5, 0xBF, 0x99, 0xE4,
      0xBA, 0x86, 0xEF, 0xBC, 0x8C, 0xE8, 0xAF, 0xB7, 0xE7, 0xA8, 0x8D, 0xE5, 0x90, 0x8E, 0xE5, 0x86,
      0x8D, 0xE8, 0xAF, 0x95, 0xEF, 0xBC, 0x81]"

definition nothing_found_text :: bytes where
  "nothing_found_text = [0xE6, 0x9C, 0xAA, 0xE6, 0x9F, 0xA5, 0xE8, 0xAF, 0xA2, 0xE5, 0x88, 0xB0, 0xE4, 0xBB, 0xBB, 0xE4,
      0xBD, 0x95, 0xE4, 0xBF, 0xA1, 0xE6, 0x81, 0xAF]"

definition request_failed_text :: "int \<Rightarrow> bytes" where
  "request_failed_text n = bytes_of ''HTTP '' @ [0xE8, 0xAF, 0xB7, 0xE6, 0xB1, 0x82, 0xE5, 0xA4, 0xB1, 0xE8, 0xB4, 0xA5] @
      bytes_of ''('' @ [0xE5, 0xB7, 0xB2, 0xE9, 0x87, 0x8D, 0xE8, 0xAF, 0x95] @ itoa n @ [0xE6, 0xAC, 0xA1] @ bytes_of ''): ''"

definition read_failed_text :: "int \<Rightarrow> bytes" where
  "read_failed_text n = [0xE8, 0xAF, 0xBB, 0xE5, 0x8F, 0x96, 0xE5, 0x93, 0x8D, 0xE5, 0xBA, 0x94, 0xE5, 0xA4, 0xB1, 0xE8,
      0xB4, 0xA5] @ bytes_of ''('' @ [0xE5, 0xB7, 0xB2, 0xE9, 0x87, 0x8D, 0xE8, 0xAF, 0x95] @ itoa n @ [0xE6, 0xAC, 0xA1] @ bytes_of ''): ''"

definition status_text :: bytes where
  "status_text = bytes_of ''HTTP '' @ [0xE7, 0x8A, 0xB6, 0xE6, 0x80, 0x81, 0xE7, 0xA0, 0x81]"

definition not_registered_text :: bytes where
  "not_registered_text = [0xE6, 0x9C, 0x8D, 0xE5, 0x8A, 0xA1, 0xE5, 0xAE, 0xA2, 0xE6, 0x88, 0xB7, 0xE7, 0xAB, 0xAF, 0xE6,
      0x9C, 0xAA, 0xE6, 0xB3, 0xA8, 0xE5, 0x86, 0x8C] @ bytes_of '': ''"

definition remote_alarm_text :: "bytes \<Rightarrow> bytes \<Rightarrow> bytes" where
  "remote_alarm_text url tenant = [0xE8, 0xAF, 0xB7, 0xE6, 0xB1, 0x82, 0xE7, 0x86, 0x94, 0xE6, 0x96, 0xAD, 0xE9, 0x94, 0x99, 0xE8,
      0xAF, 0xAF, 0xEF, 0xBC, 0x81] @ bytes_of ''URL:'' @ url @ bytes_of '' TenantID:'' @ tenant"

definition service_alarm_text :: "bytes \<Rightarrow> bytes \<Rightarrow> bytes" where
  "service_alarm_text name url = bytes_of ''ServiceClient '' @ [0xE7, 0x86, 0x94, 0xE6, 0x96, 0xAD, 0xE9, 0x94, 0x99, 0xE8, 0xAF,
      0xAF, 0xEF, 0xBC, 0x81] @ bytes_of ''Service:'' @ name @ bytes_of '' URL:'' @ url"

definition StatusText :: "int \<Rightarrow> string" where
  "StatusText c =
     (case map_of
       [(100, ''Continue''), (101, ''Switching Protocols''), (102, ''Processing''), (103, ''Early Hints''),
       (200, ''OK''), (201, ''Created''), (202, ''Accepted''), (203, ''Non-Authoritative Information''),
       (204, ''No Content''), (205, ''Reset Content''), (206, ''Partial Content''), (207, ''Multi-Status''),
       (208, ''Already Reported''), (226, ''IM Used''), (300, ''Multiple Choices''),
       (301, ''Moved Permanently''), (302, ''Found''), (303, ''See Other''), (304, ''Not Modified''),
       (305, ''Use Proxy''), (307, ''Temporary Redirect''), (308, ''Permanent Redirect''),
       (400, ''Bad Request''), (401, ''Unauthorized''), (402, ''Payment Required''), (403, ''Forbidden''),
       (404, ''Not Found''), (405, ''Method Not Allowed''), (406, ''Not Acceptable''),
       (407, ''Proxy Authentication Required''), (408, ''Request Timeout''), (409, ''Conflict''),
       (410, ''Gone''), (411, ''Length Required''), (412, ''Precondition Failed''),
       (413, ''Request Entity Too Large''), (414, ''Request URI Too Long''),
       (415, ''Unsupported Media Type''), (416, ''Requested Range Not Satisfiable''),
       (417, ''Expectation Failed''), (418, ''I'' @ [CHR 0x27] @ ''m a teapot''),
       (421, ''Misdirected Request''), (422, ''Unprocessable Entity''), (423, ''Locked''),
       (424, ''Failed Dependency''), (425, ''Too Early''), (426, ''Upgrade Required''),
       (428, ''Precondition Required''), (429, ''Too Many Requests''),
       (431, ''Request Header Fields Too Large''), (451, ''Unavailable For Legal Reasons''),
       (500, ''Internal Server Error''), (501, ''Not Implemented''), (502, ''Bad Gateway''),
       (503, ''Service Unavailable''), (504, ''Gateway Timeout''), (505, ''HTTP Version Not Supported''),
       (506, ''Variant Also Negotiates''), (507, ''Insufficient Storage''), (508, ''Loop Detected''),
       (510, ''Not Extended''), (511, ''Network Authentication Required'')] c of None \<Rightarrow> [] | Some t \<Rightarrow> t)"

end
