(* ===== verification/Http_Retry.thy ===== *)
theory Http_Retry imports Http_Base begin

text \<open>
  Retries as such: which replies are tried again, the requests and waits of a sequence of attempts, and a locale
  for a loop that does them. Both clients of the package interpret the locale; what they return differs in the
  texts of the errors only.
\<close>

section \<open>The waits and the states that are tried again\<close>

text \<open>
  \<open>calculateRetryWait\<close> and \<open>isRetryableStatus\<close> are the same in both clients. \<open>1<<uint(attempt-1)\<close> is a shift in
  64 bits, by a number that is not negative; the comparison is signed.
\<close>

definition calculateRetryWait :: "RetryConfig option \<Rightarrow> int \<Rightarrow> duration" where
  "calculateRetryWait rc attempt =
     (case rc of
        None \<Rightarrow> seconds 1
      | Some c \<Rightarrow>
        (let waitTime = RetryWaitTime c * push_bit (unat (word_of_int (attempt - 1) :: 64 word)) 1
         in if sint (RetryMaxWait c) < sint waitTime then RetryMaxWait c else waitTime))"

definition isRetryableStatus :: "RetryConfig option \<Rightarrow> int \<Rightarrow> bool" where
  "isRetryableStatus rc statusCode =
     (case rc of
        None \<Rightarrow> statusCode = 500 \<or> statusCode = 502 \<or> statusCode = 503 \<or> statusCode = 504
      | Some c \<Rightarrow>
        (if RetryableStatus c = [] then statusCode = 500 \<or> statusCode = 502 \<or> statusCode = 503 \<or> statusCode = 504
         else statusCode \<in> set (RetryableStatus c)))"

definition max_retries :: "RetryConfig option \<Rightarrow> int" where
  "max_retries rc = (case rc of None \<Rightarrow> 0 | Some c \<Rightarrow> MaxRetries c)"

text \<open>The product does not overflow: the wait is that of exponential back-off, up to the limit.\<close>

lemma shifted_wait:
  fixes w :: duration
  assumes "0 \<le> sint w" "sint w * 2 ^ n < 2 ^ 63"
  shows "sint (w * push_bit n 1) = sint w * 2 ^ n"
proof -
  have w: "w * push_bit n 1 = word_of_int (sint w * 2 ^ n)"
    by (simp add: push_bit_eq_mult)
  have "0 \<le> sint w * 2 ^ n" using assms(1) by simp
  then have "signed_take_bit 63 (sint w * 2 ^ n) = sint w * 2 ^ n"
    using assms(2) by (intro signed_take_bit_int_eq_self) simp_all
  then show ?thesis
    unfolding w sint_sbintrunc' by simp
qed

lemma wait_exponential:
  assumes "0 \<le> sint (RetryWaitTime c)" "1 \<le> attempt" "attempt \<le> 2 ^ 63"
    and "sint (RetryWaitTime c) * 2 ^ nat (attempt - 1) < 2 ^ 63"
  shows "sint (calculateRetryWait (Some c) attempt)
           = min (sint (RetryWaitTime c) * 2 ^ nat (attempt - 1)) (sint (RetryMaxWait c))"
proof -
  have "uint (word_of_int (attempt - 1) :: 64 word) = take_bit 64 (attempt - 1)"
    unfolding uint_word_of_int_eq by simp
  also have "\<dots> = attempt - 1"
    using assms(2,3) by (intro take_bit_int_eq_self) simp_all
  finally have "uint (word_of_int (attempt - 1) :: 64 word) = attempt - 1" .
  then have "unat (word_of_int (attempt - 1) :: 64 word) = nat (attempt - 1)"
    by (simp only: unat_eq_nat_uint)
  then show ?thesis
    using shifted_wait[OF assms(1,4)] by (simp add: calculateRetryWait_def Let_def min_def)
qed

lemma wait_at_most: "sint (calculateRetryWait (Some c) attempt) \<le> sint (RetryMaxWait c)"
  by (simp add: calculateRetryWait_def Let_def)

text \<open>With the default settings the wait before the 35th retry overflows: it is negative, which is no wait at all.\<close>

lemma default_wait_overflows:
  "sint (calculateRetryWait (Some DefaultRetryConfig) 34) = 5000000000"
  "sint (calculateRetryWait (Some DefaultRetryConfig) 35) < 0"
  by (simp_all add: calculateRetryWait_def DefaultRetryConfig_def push_bit_eq_mult)

section \<open>Attempts\<close>

text \<open>
  A reply is inconclusive when the loop tries again after it, if it may: an error of the network or of reading,
  or a state outside 200 to 207 that is one of those to be tried again.
\<close>

definition good_status :: "int \<Rightarrow> bool" where
  "good_status st \<longleftrightarrow> 200 \<le> st \<and> st \<le> 207"

fun inconclusive :: "(int \<Rightarrow> bool) \<Rightarrow> reply \<Rightarrow> bool" where
  "inconclusive retryable (NetError e) = True"
| "inconclusive retryable (Reply st (Inl e)) = True"
| "inconclusive retryable (Reply st (Inr b)) = (\<not> good_status st \<and> retryable st)"

definition pause :: "(int \<Rightarrow> duration) \<Rightarrow> int \<Rightarrow> history" where
  "pause wait a = (if 0 < a then [Slept (wait a)] else [])"

text \<open>
  \<open>attempts E client retryable wait a n req tr\<close>: the replies to at most \<open>n\<close> attempts, the first of which has number
  \<open>a\<close>, up to the first conclusive one, each with how much it read of the body; \<open>attempt_history\<close>: the events
  of a sequence of attempts.
\<close>

fun attempts :: "env \<Rightarrow> http_client \<Rightarrow> (int \<Rightarrow> bool) \<Rightarrow> (int \<Rightarrow> duration) \<Rightarrow> int \<Rightarrow> nat \<Rightarrow> http_request \<Rightarrow> history
    \<Rightarrow> (nat \<times> reply) list" where
  "attempts E client retryable wait a 0 req tr = []"
| "attempts E client retryable wait a (Suc n) req tr =
     (case client_Do E (tr @ pause wait a) client req of
        (k, r) \<Rightarrow> (k, r) #
          (if inconclusive retryable r
           then attempts E client retryable wait (a + 1) n (read_body k req) (tr @ pause wait a @ [Sent client req])
           else []))"

fun attempt_history :: "http_client \<Rightarrow> (int \<Rightarrow> duration) \<Rightarrow> int \<Rightarrow> http_request \<Rightarrow> (nat \<times> reply) list \<Rightarrow> history" where
  "attempt_history client wait a req [] = []"
| "attempt_history client wait a req ((k, r) # rs) =
     pause wait a @ Sent client req # attempt_history client wait (a + 1) (read_body k req) rs"

lemma attempts_length: "length (attempts E client retryable wait a n req tr) \<le> n"
  by (induction E client retryable wait a n req tr rule: attempts.induct) (auto split: prod.split)

lemma attempts_Nil_iff: "attempts E client retryable wait a n req tr = [] \<longleftrightarrow> n = 0"
  by (cases n) (auto split: prod.split)

lemma attempts_butlast:
  "\<forall>x \<in> set (butlast (attempts E client retryable wait a n req tr)). inconclusive retryable (snd x)"
  by (induction E client retryable wait a n req tr rule: attempts.induct) (auto split: prod.split)

lemma attempts_last:
  "length (attempts E client retryable wait a n req tr) < n
     \<Longrightarrow> \<not> inconclusive retryable (snd (last (attempts E client retryable wait a n req tr)))"
  by (induction E client retryable wait a n req tr rule: attempts.induct)
    (auto split: prod.split if_splits simp: attempts_Nil_iff)

text \<open>What the later attempts send: each has what the earlier ones have left of the body.\<close>

lemma read_body_0 [simp]: "read_body 0 req = req"
  by (simp add: read_body_def)

lemma read_body_add [simp]: "read_body j (read_body k req) = read_body (k + j) req"
  by (simp add: read_body_def add.commute)

lemma history_requests:
  "Sent c q \<in> set (attempt_history client wait a req rs) \<Longrightarrow> c = client \<and> (\<exists>k. q = read_body k req)"
proof (induction client wait a req rs rule: attempt_history.induct)
  case (2 client wait a req k r rs)
  show ?case
  proof (cases "Sent c q \<in> set (attempt_history client wait (a + 1) (read_body k req) rs)")
    case True
    then show ?thesis using "2.IH" by auto
  next
    case False
    then have "c = client \<and> q = read_body 0 req" using "2.prems" by (simp add: pause_def split: if_splits)
    then show ?thesis by blast
  qed
qed simp

lemma history_body_gone:
  assumes "Sent c q \<in> set (attempt_history client wait a req rs)" "req_Body req = []"
  shows "req_Body q = []"
  using history_requests[OF assms(1)] assms(2) by (auto simp: read_body_def)

lemma sent_count:
  "length (filter (\<lambda>e. \<exists>c q. e = Sent c q) (attempt_history client wait a req rs)) = length rs"
  by (induction client wait a req rs rule: attempt_history.induct) (auto simp: pause_def)

lemma waits_of_history:
  "0 < a \<Longrightarrow> [d. Slept d \<leftarrow> attempt_history client wait a req rs] = map (\<lambda>i. wait (a + int i)) [0..<length rs]"
proof (induction client wait a req rs rule: attempt_history.induct)
  case (2 client wait a req k r rs)
  have "map (\<lambda>i. wait (a + int i)) [0..<Suc (length rs)]
      = wait a # map (\<lambda>i. wait (a + 1 + int i)) [0..<length rs]"
    by (simp add: upt_conv_Cons map_Suc_upt[symmetric] comp_def add.assoc del: upt_Suc)
  with 2 show ?case by (simp add: pause_def)
qed simp

section \<open>The loop\<close>

text \<open>
  A loop over attempts, with the error and the status it remembers: after an inconclusive reply it goes on with
  the next attempt if there is one left; otherwise it returns what \<open>finish\<close> makes of the reply.
\<close>

locale retry_loop =
  fixes E :: env and client :: http_client and maxRetries :: int
    and wait :: "int \<Rightarrow> duration" and retryable :: "int \<Rightarrow> bool"
    and finish :: "reply \<Rightarrow> bytes option \<times> int \<times> go_error option"
    and loop :: "int \<Rightarrow> http_request \<Rightarrow> go_error option \<Rightarrow> int \<Rightarrow> history
      \<Rightarrow> (bytes option \<times> int \<times> int \<times> go_error option) \<times> history"
  assumes loop_again: "client_Do E (tr @ pause wait a) client req = (k, r) \<Longrightarrow> a < maxRetries
      \<Longrightarrow> inconclusive retryable r
      \<Longrightarrow> \<exists>le' sc'. loop a req le sc tr = loop (a + 1) (read_body k req) le' sc' (tr @ pause wait a @ [Sent client req])"
    and loop_last: "client_Do E (tr @ pause wait a) client req = (k, r) \<Longrightarrow> a \<le> maxRetries
      \<Longrightarrow> \<not> inconclusive retryable r \<or> a = maxRetries
      \<Longrightarrow> loop a req le sc tr
        = ((case finish r of (b, st, e) \<Rightarrow> (b, st, a, e)), tr @ pause wait a @ [Sent client req])"
begin

lemma loop_attempts:
  assumes "a + int n = maxRetries + 1" "0 < n"
  shows "loop a req le sc tr =
    (let rs = attempts E client retryable wait a n req tr
     in ((case finish (snd (last rs)) of (b, st, e) \<Rightarrow> (b, st, a + int (length rs) - 1, e)),
         tr @ attempt_history client wait a req rs))"
  using assms
proof (induction n arbitrary: a req le sc tr)
  case (Suc n)
  obtain k r where d: "client_Do E (tr @ pause wait a) client req = (k, r)" by fastforce
  show ?case
  proof (cases "inconclusive retryable r \<and> a < maxRetries")
    case True
    then obtain le' sc' where
      l: "loop a req le sc tr = loop (a + 1) (read_body k req) le' sc' (tr @ pause wait a @ [Sent client req])"
      using loop_again[OF d] by blast
    have n: "0 < n" "a + 1 + int n = maxRetries + 1" using Suc.prems True by auto
    then show ?thesis
      using Suc.IH[OF n(2,1)] True d by (simp add: l Let_def attempts_Nil_iff algebra_simps split: prod.split)
  next
    case False
    then have "loop a req le sc tr
        = ((case finish r of (b, st, e) \<Rightarrow> (b, st, a, e)), tr @ pause wait a @ [Sent client req])"
      using loop_last[OF d] Suc.prems by auto
    moreover have "attempts E client retryable wait a (Suc n) req tr = [(k, r)]"
      using False d Suc.prems by (cases n) auto
    ultimately show ?thesis by (simp del: attempts.simps)
  qed
qed simp

end

end
