(* ===== verification/Http_Client.thy ===== *)
theory Http_Client imports Http_Retry begin

text \<open>
  The variables of the package, the circuit breaker's commands, the clients it makes, and what both kinds of
  client share: the spans of \<open>tracing.go\<close> and how an error response is read.
\<close>

section \<open>Spans\<close>

text \<open>
  What is recorded on the span of a request. A span that does not record takes nothing. Codes are those of
  \<^typ>\<open>span_status\<close>; every span here has the kind of a client.
\<close>

definition SetAttributes :: "(bytes \<times> attr) list \<Rightarrow> span \<Rightarrow> span" where
  "SetAttributes kvs sp = (if span_recording sp then sp\<lparr>span_attrs := span_attrs sp @ kvs\<rparr> else sp)"

definition SetStatus :: "span_status \<Rightarrow> span \<Rightarrow> span" where
  "SetStatus st sp = (if span_recording sp then sp\<lparr>span_status := st\<rparr> else sp)"

definition RecordError :: "go_error \<Rightarrow> span \<Rightarrow> span" where
  "RecordError e sp = (if span_recording sp then sp\<lparr>span_errors := span_errors sp @ [e]\<rparr> else sp)"

definition extractPath :: "env \<Rightarrow> bytes \<Rightarrow> bytes" where
  "extractPath E fullURL = (case url_Parse E fullURL of None \<Rightarrow> fullURL | Some (host, path) \<Rightarrow> path)"

definition extractServiceName :: "env \<Rightarrow> bytes \<Rightarrow> bytes" where
  "extractServiceName E urlStr =
     (case url_Parse E urlStr of
        None \<Rightarrow> bytes_of ''unknown''
      | Some (host, path) \<Rightarrow> takeWhile (\<lambda>b. b \<noteq> 58) host)"

definition startSpan :: "env \<Rightarrow> go_context \<Rightarrow> tracer option \<Rightarrow> bytes \<Rightarrow> bytes \<Rightarrow> bytes \<Rightarrow> go_context \<times> span" where
  "startSpan E ctx tracer_opt meth serviceName fullURL =
     (let tracer = (case tracer_opt of None \<Rightarrow> GlobalTracer (bytes_of ''soehttp'') | Some t \<Rightarrow> t);
          spanName = bytes_of ''HTTP '' @ meth @ bytes_of '' '' @ serviceName;
          path = extractPath E fullURL;
          attrs = [(bytes_of ''http.method'', AString meth), (bytes_of ''http.url'', AString fullURL),
                   (bytes_of ''http.target'', AString path), (bytes_of ''service.name'', AString serviceName)]
      in case tracer_Start E tracer ctx spanName attrs of
           (ctx, recording) \<Rightarrow>
             (ctx, \<lparr>span_name = spanName, span_recording = recording, span_attrs = attrs, span_status = Unset,
                    span_errors = []\<rparr>))"

definition recordSpanSuccess :: "span \<Rightarrow> int \<Rightarrow> int \<Rightarrow> int \<Rightarrow> span" where
  "recordSpanSuccess sp statusCode responseSize retryCount =
     (if \<not> span_recording sp then sp
      else let sp = SetAttributes [(bytes_of ''http.status_code'', AInt statusCode),
                      (bytes_of ''http.response_size'', AInt responseSize), (bytes_of ''retry.count'', AInt retryCount)] sp
           in if 200 \<le> statusCode \<and> statusCode < 400 then SetStatus StatusOk sp
              else SetStatus (StatusError (bytes_of ''HTTP '' @ itoa statusCode)) sp)"

definition recordSpanError :: "span \<Rightarrow> go_error \<Rightarrow> int \<Rightarrow> span" where
  "recordSpanError sp err retryCount =
     (if \<not> span_recording sp then sp
      else let sp = SetAttributes [(bytes_of ''error'', ABool True), (bytes_of ''retry.count'', AInt retryCount)] sp;
               sp = (if IsCircuitBreakerError (Some err)
                     then SetStatus (StatusError (bytes_of ''Circuit breaker triggered''))
                            (SetAttributes [(bytes_of ''circuit_breaker.open'', ABool True)] sp)
                     else if IsTimeoutError (Some err) then SetStatus (StatusError (bytes_of ''Request timeout'')) sp
                     else if IsNetworkError (Some err) then SetStatus (StatusError (bytes_of ''Network error'')) sp
                     else SetStatus (StatusError (err_text err)) sp)
           in RecordError err sp)"

definition recordSpanAttributes :: "span \<Rightarrow> bytes \<Rightarrow> bytes \<Rightarrow> bytes \<Rightarrow> span" where
  "recordSpanAttributes sp tenantID shopCode token =
     (if \<not> span_recording sp then sp
      else let sp = (if tenantID \<noteq> [] then SetAttributes [(bytes_of ''tenant.id'', AString tenantID)] sp else sp);
               sp = (if shopCode \<noteq> [] then SetAttributes [(bytes_of ''shop.code'', AString shopCode)] sp else sp)
           in if token = [] then sp
              else if 10 < length token
              then SetAttributes [(bytes_of ''auth.token_prefix'', AString (take 10 token @ bytes_of ''...''))] sp
              else SetAttributes [(bytes_of ''auth.token_prefix'', AString (token @ bytes_of ''...''))] sp)"

definition injectTraceContext :: "env \<Rightarrow> go_context \<Rightarrow> http_request \<Rightarrow> http_request" where
  "injectTraceContext E ctx req = req\<lparr>req_Header := propagator_Inject E ctx (req_Header req)\<rparr>"

text \<open>The end of a request: what is recorded, by whether it failed. \<open>None\<close> is the span of a call without tracing.\<close>

definition record_end :: "span option \<Rightarrow> bytes option \<Rightarrow> go_error option \<Rightarrow> int \<Rightarrow> int \<Rightarrow> history" where
  "record_end sp result err statusCode retryCount =
     (case sp of
        None \<Rightarrow> []
      | Some sp \<Rightarrow>
        [SpanEnded (case err of
           Some e \<Rightarrow> recordSpanError sp e retryCount
         | None \<Rightarrow> recordSpanSuccess sp statusCode (case result of None \<Rightarrow> 0 | Some b \<Rightarrow> int (length b)) retryCount)])"

section \<open>Variables of the package\<close>

record 'c http_vars =
  v_alarm :: AlarmConfig
  v_enableHystrix :: bool
  v_configuredCmds :: "bytes \<Rightarrow> bool"
  v_clients :: "(bytes \<Rightarrow> 'c option) option"
  v_history :: history

text \<open>
  \<open>configuredCmds\<close> is a map to \<open>bool\<close>, false where it has no key. \<open>v_clients\<close> is the map of the service pool,
  made by the first call that asks for it. Each operation holds the mutex of what it changes from its start to
  its end, so it is one step.
\<close>

definition initial_vars :: "'c http_vars" where
  "initial_vars =
     \<lparr>v_alarm = \<lparr>SendErrorToWx = False, ChatID = [], ApiPath = []\<rparr>, v_enableHystrix = False,
      v_configuredCmds = (\<lambda>_. False), v_clients = None, v_history = []\<rparr>"

definition record_event :: "http_event list \<Rightarrow> 'c http_vars \<Rightarrow> 'c http_vars" where
  "record_event es g = g\<lparr>v_history := v_history g @ es\<rparr>"

definition InitConfig :: "SoeHTTPConfig \<Rightarrow> 'c http_vars \<Rightarrow> 'c http_vars" where
  "InitConfig config g =
     record_event [Configured (bytes_of ''RemotePost'') (Hystrix config),
       Configured (bytes_of ''RemoteGET'') (Hystrix config), Configured (bytes_of ''RemoteDELETE'') (Hystrix config)]
       (g\<lparr>v_alarm := Alarm config, v_enableHystrix := EnableHystrix config\<rparr>)"

definition GetAlarmConfig :: "'c http_vars \<Rightarrow> AlarmConfig" where
  "GetAlarmConfig g = v_alarm g"

definition IsHystrixEnabled :: "'c http_vars \<Rightarrow> bool" where
  "IsHystrixEnabled g = v_enableHystrix g"

definition lower_hex_digit :: "nat \<Rightarrow> byte" where
  "lower_hex_digit n = of_nat (if n < 10 then 48 + n else 87 + n)"

definition hex_EncodeToString :: "bytes \<Rightarrow> bytes" where
  "hex_EncodeToString bs = concat (map (\<lambda>b. [lower_hex_digit (unat b div 16), lower_hex_digit (unat b mod 16)]) bs)"

definition generateCommandName :: "env \<Rightarrow> bytes \<Rightarrow> bytes" where
  "generateCommandName E url = bytes_of ''soehttp-'' @ take 16 (hex_EncodeToString (md5_Sum E url))"

definition configureHystrixCommand :: "bytes \<Rightarrow> HystrixConfig \<Rightarrow> 'c http_vars \<Rightarrow> 'c http_vars" where
  "configureHystrixCommand name config g =
     (if v_configuredCmds g name then g
      else (record_event [Configured name config] g)\<lparr>v_configuredCmds := (v_configuredCmds g)(name := True)\<rparr>)"

definition ResetHystrixCommands :: "'c http_vars \<Rightarrow> 'c http_vars" where
  "ResetHystrixCommands g = (record_event [Flushed] g)\<lparr>v_configuredCmds := (\<lambda>_. False)\<rparr>"

definition ResetConfigForTest :: "'c http_vars \<Rightarrow> 'c http_vars" where
  "ResetConfigForTest g =
     ResetHystrixCommands (g\<lparr>v_alarm := \<lparr>SendErrorToWx = False, ChatID = [], ApiPath = []\<rparr>, v_enableHystrix := False\<rparr>)"

section \<open>Clients\<close>

definition createClientWithConfig :: "int \<Rightarrow> TransportConfig option \<Rightarrow> http_client" where
  "createClientWithConfig timeoutSeconds config =
     (let config = (case config of
            None \<Rightarrow> DefaultTransportConfig\<lparr>InsecureSkipVerify := True, MaxIdleConnsPerHost := 1000\<rparr>
          | Some c \<Rightarrow> c)
      in Client \<lparr>ClientTimeout = seconds timeoutSeconds, Transport = config\<rparr>)"

definition createDefaultClient :: "int \<Rightarrow> http_client" where
  "createDefaultClient timeoutSeconds = createClientWithConfig timeoutSeconds None"

definition createDefaultHTTPClient :: "int \<Rightarrow> http_client" where
  "createDefaultHTTPClient timeoutSeconds =
     Client \<lparr>ClientTimeout = seconds timeoutSeconds,
       Transport = \<lparr>MaxIdleConns = 100, MaxIdleConnsPerHost = 20, IdleConnTimeout = seconds 90,
         InsecureSkipVerify = True\<rparr>\<rparr>"

section \<open>Error responses\<close>

definition handleMapError :: "env \<Rightarrow> (bytes \<times> json) list \<Rightarrow> int \<Rightarrow> go_error" where
  "handleMapError E data statusCode =
     (let from_response =
            (case Decode_response E data of
               Inr vo \<Rightarrow>
                 (case (vo_Code vo = 500, vo_Data vo) of
                    (True, JString dataStr) \<Rightarrow>
                      (if dataStr \<noteq> [] then errors_New dataStr
                       else if vo_Msg vo \<noteq> [] then errors_New (vo_Msg vo) else errors_New busy_text)
                  | _ \<Rightarrow> if vo_Msg vo \<noteq> [] then errors_New (vo_Msg vo) else errors_New busy_text)
             | Inl _ \<Rightarrow> errors_New busy_text)
      in case Decode_exception E data of
           Inr exc \<Rightarrow>
             (if exc_Data exc \<noteq> [] then errors_New (exc_Data exc)
              else if exc_Message exc \<noteq> [] then errors_New (exc_Message exc)
              else from_response)
         | Inl _ \<Rightarrow> from_response)"

definition handleErrorWithBody :: "env \<Rightarrow> int \<Rightarrow> bytes \<Rightarrow> go_error" where
  "handleErrorWithBody E statusCode body =
     (if statusCode = 401 \<or> statusCode = 403 then errors_New (bytes_of (StatusText statusCode))
      else case json_Unmarshal E body of
             Inl _ \<Rightarrow> errors_New (bytes_of (StatusText statusCode))
           | Inr (JString t) \<Rightarrow> errors_New t
           | Inr (JObject t) \<Rightarrow> handleMapError E t statusCode
           | Inr _ \<Rightarrow> errors_New busy_text)"

text \<open>
  What the breaker's run leaves to the caller. \<open>run\<close> is the result of \<open>doRequest\<close> and the history after it; \<open>alert\<close>
  is what the fallback sends. A command that is given up runs on: its events stand before the alarm here, and its
  results may be assigned before, between or after the assignment of the breaker's own error.
\<close>

type_synonym request_result = "bytes option \<times> int \<times> int \<times> go_error option"

definition fallback_error :: "env \<Rightarrow> go_error \<Rightarrow> go_error" where
  "fallback_error E e = errors_New (fallback_failed E (bytes_of ''fallback'') (err_text e))"

definition run_hystrix :: "env \<Rightarrow> bytes \<Rightarrow> (history \<Rightarrow> request_result \<times> history) \<Rightarrow> history \<Rightarrow> history
    \<Rightarrow> request_result \<times> history" where
  "run_hystrix E cmdName run alert tr =
     (case hystrix_Do E tr cmdName of
        Rejected e \<Rightarrow> ((None, 0, 0, Some (fallback_error E e)), tr @ alert)
      | Ran \<Rightarrow>
        (case run tr of
           ((result, statusCode, retryCount, None), tr) \<Rightarrow> ((result, statusCode, retryCount, None), tr)
         | ((result, statusCode, retryCount, Some e), tr) \<Rightarrow>
             ((result, statusCode, retryCount, Some (fallback_error E e)), tr @ alert))
      | TimedOut e landing \<Rightarrow>
        (case run tr of
           ((result, statusCode, retryCount, err), tr) \<Rightarrow>
             ((case landing of
                 Early \<Rightarrow> (result, statusCode, retryCount, Some (fallback_error E e))
               | Between \<Rightarrow> (result, statusCode, retryCount, err)
               | Late \<Rightarrow> (None, 0, 0, Some (fallback_error E e))), tr @ alert)))"

text \<open>The alarm of a fallback: sent only when it is on and has a chat and a path.\<close>

definition fallback_alert :: "AlarmConfig \<Rightarrow> bytes \<Rightarrow> history" where
  "fallback_alert alarmConfig content =
     (if SendErrorToWx alarmConfig \<and> ChatID alarmConfig \<noteq> [] \<and> ApiPath alarmConfig \<noteq> []
      then [Alerted (ChatID alarmConfig) content (ApiPath alarmConfig)] else [])"

text \<open>What an entity is read from: nothing found, the error of \<open>json.Unmarshal\<close>, or the value.\<close>

definition decode_entity :: "(bytes \<Rightarrow> 'r \<Rightarrow> 'r \<times> go_error option) \<Rightarrow> 'r \<Rightarrow> bytes option \<times> go_error option
    \<Rightarrow> 'r \<times> go_error option" where
  "decode_entity unmarshal r body_err =
     (case body_err of
        (_, Some err) \<Rightarrow> (r, Some err)
      | (None, None) \<Rightarrow> (r, Some (errors_New nothing_found_text))
      | (Some body, None) \<Rightarrow> unmarshal body r)"

end
