(* ===== verification/Http_Remote.thy ===== *)
theory Http_Remote imports Http_Client begin

text \<open>
  \<open>soehttp.go\<close>: the client of one URL, \<open>remoteServiceImpl\<close>. An operation takes the package's variables and
  returns them with its result.
\<close>

section \<open>Construction\<close>

record RemoteOption =
  URL :: bytes
  Token :: bytes
  TenantID :: bytes
  ShopCode :: bytes
  TimeoutSecond :: int
  Context :: "go_context option"
  CustomClientOpt :: "http_client option"
  TransportConfigOpt :: "TransportConfig option"
  RetryConfigOpt :: "RetryConfig option"
  EnableHystrixOpt :: "bool option"
  HystrixConfigOpt :: "HystrixConfig option"
  EnableTracing :: bool
  Tracer :: "tracer option"

record remoteServiceImpl =
  r_url :: bytes
  r_token :: bytes
  r_tenantID :: bytes
  r_shopCode :: bytes
  r_context :: go_context
  r_client :: http_client
  r_retryConfig :: "RetryConfig option"
  r_enableHystrix :: "bool option"
  r_commandName :: bytes
  r_enableTracing :: bool
  r_tracer :: "tracer option"

definition NewRemote :: "env \<Rightarrow> RemoteOption \<Rightarrow> 'c http_vars \<Rightarrow> remoteServiceImpl \<times> 'c http_vars" where
  "NewRemote E opt g =
     (let ctx = (case Context opt of None \<Rightarrow> Background | Some c \<Rightarrow> c);
          timeout = (if TimeoutSecond opt \<le> 0 then 15 else TimeoutSecond opt);
          client = (case CustomClientOpt opt of
              Some c \<Rightarrow> c
            | None \<Rightarrow> createClientWithConfig timeout (TransportConfigOpt opt));
          retryConfig = (case RetryConfigOpt opt of None \<Rightarrow> DefaultRetryConfig | Some c \<Rightarrow> c);
          (commandName, g) =
            (if EnableHystrixOpt opt = Some True
             then let commandName = generateCommandName E (URL opt);
                      hystrixCfg = (case HystrixConfigOpt opt of None \<Rightarrow> DefaultHystrixConfig | Some c \<Rightarrow> c)
                  in (commandName, configureHystrixCommand commandName hystrixCfg g)
             else ([], g));
          tracer = (if EnableTracing opt
                    then (case Tracer opt of Some t \<Rightarrow> Some t | None \<Rightarrow> Some (GlobalTracer (bytes_of ''soehttp'')))
                    else None)
      in (\<lparr>r_url = URL opt, r_token = Token opt, r_tenantID = TenantID opt, r_shopCode = ShopCode opt,
           r_context = ctx, r_client = client, r_retryConfig = Some retryConfig,
           r_enableHystrix = EnableHystrixOpt opt, r_commandName = commandName,
           r_enableTracing = EnableTracing opt, r_tracer = tracer\<rparr>, g))"

text \<open>\<open>strconv.Atoi\<close>: a sign and digits, in the range of 64 bits.\<close>

definition digit_val :: "byte \<Rightarrow> int option" where
  "digit_val b = (if 48 \<le> b \<and> b \<le> 57 then Some (uint b - 48) else None)"

fun atoi_digits :: "bytes \<Rightarrow> int \<Rightarrow> int option" where
  "atoi_digits [] n = Some n"
| "atoi_digits (b # bs) n = (case digit_val b of None \<Rightarrow> None | Some d \<Rightarrow> atoi_digits bs (10 * n + d))"

definition in_int64 :: "int \<Rightarrow> bool" where
  "in_int64 i \<longleftrightarrow> - (2 ^ 63) \<le> i \<and> i < 2 ^ 63"

definition Atoi :: "bytes \<Rightarrow> int option" where
  "Atoi s =
     (let (neg, ds) = (case s of [] \<Rightarrow> (False, [])
                       | b # bs \<Rightarrow> (if b = 45 then (True, bs) else if b = 43 then (False, bs) else (False, s)))
      in if ds = [] then None
         else case atoi_digits ds 0 of
                None \<Rightarrow> None
              | Some n \<Rightarrow> (let i = (if neg then - n else n) in if in_int64 i then Some i else None))"

definition RemoteWithContent :: "go_context \<Rightarrow> bytes \<Rightarrow> bytes list \<Rightarrow> remoteServiceImpl" where
  "RemoteWithContent ctx url args =
     (let blank = \<lparr>r_url = url, r_token = [], r_tenantID = [], r_shopCode = [], r_context = ctx,
             r_client = createDefaultClient 15, r_retryConfig = None, r_enableHystrix = None, r_commandName = [],
             r_enableTracing = False, r_tracer = None\<rparr>;
          (s, timeout) =
            (case args of
               [a] \<Rightarrow> (blank\<lparr>r_token := a\<rparr>, 15)
             | [a, b] \<Rightarrow> (blank\<lparr>r_token := a, r_tenantID := b\<rparr>, 15)
             | [a, b, c] \<Rightarrow> (blank\<lparr>r_token := a, r_tenantID := b, r_shopCode := c\<rparr>, 15)
             | [a, b, c, d] \<Rightarrow>
                 (blank\<lparr>r_token := a, r_tenantID := b, r_shopCode := c\<rparr>,
                  if d \<noteq> [] then (case Atoi d of Some t \<Rightarrow> if 0 < t then t else 15 | None \<Rightarrow> 15) else 15)
             | _ \<Rightarrow> (blank, 15))
      in s\<lparr>r_client := createDefaultClient timeout, r_retryConfig := Some DefaultRetryConfig\<rparr>)"

definition Remote :: "bytes \<Rightarrow> bytes list \<Rightarrow> remoteServiceImpl" where
  "Remote url args = RemoteWithContent Background url args"

definition WithClient :: "http_client \<Rightarrow> remoteServiceImpl \<Rightarrow> remoteServiceImpl" where
  "WithClient client s = s\<lparr>r_client := client\<rparr>"

section \<open>A request with its retries\<close>

text \<open>
  The loop of \<open>doRequest\<close>: \<open>attempt\<close>, the request with what is left of its body, \<open>lastErr\<close>, \<open>statusCode\<close>. The body of
  \<open>lastErr\<close> for a state that is tried again is \<open>fmt.Errorf("... %d", ...)\<close>.
\<close>

function remote_loop :: "env \<Rightarrow> remoteServiceImpl \<Rightarrow> http_client \<Rightarrow> int \<Rightarrow> int \<Rightarrow> http_request \<Rightarrow> go_error option \<Rightarrow> int
    \<Rightarrow> history \<Rightarrow> request_result \<times> history" where
  "remote_loop E s client maxRetries attempt req lastErr statusCode tr =
     (if attempt \<le> maxRetries
      then let tr = (if 0 < attempt then tr @ [Slept (calculateRetryWait (r_retryConfig s) attempt)] else tr)
           in case client_Do E tr client req of
                (k, NetError err) \<Rightarrow>
                  (if attempt < maxRetries
                   then remote_loop E s client maxRetries (attempt + 1) (read_body k req) (Some err) statusCode
                          (tr @ [Sent client req])
                   else ((None, 0, attempt, Some (Errorf_w (request_failed_text maxRetries) (Some err))),
                         tr @ [Sent client req]))
              | (k, Reply code (Inl readErr)) \<Rightarrow>
                  (if attempt < maxRetries
                   then remote_loop E s client maxRetries (attempt + 1) (read_body k req) (Some readErr) code
                          (tr @ [Sent client req])
                   else ((None, code, attempt, Some (Errorf_w (read_failed_text maxRetries) (Some readErr))),
                         tr @ [Sent client req]))
              | (k, Reply code (Inr body)) \<Rightarrow>
                  (if \<not> (200 \<le> code \<and> code \<le> 207)
                   then if isRetryableStatus (r_retryConfig s) code \<and> attempt < maxRetries
                        then remote_loop E s client maxRetries (attempt + 1) (read_body k req)
                               (Some (errors_New (status_text @ bytes_of '' '' @ itoa code))) code
                               (tr @ [Sent client req])
                        else ((None, code, attempt, Some (handleErrorWithBody E code body)), tr @ [Sent client req])
                   else ((Some body, code, attempt, None), tr @ [Sent client req]))
      else ((None, statusCode, maxRetries, Some (Errorf_w (request_failed_text maxRetries) lastErr)), tr))"
  by pat_completeness auto
termination
  by (relation "measure (\<lambda>(E, s, client, maxRetries, attempt, _). nat (maxRetries + 1 - attempt))") auto

declare remote_loop.simps [simp del]

definition remote_doRequest :: "env \<Rightarrow> remoteServiceImpl \<Rightarrow> http_client \<Rightarrow> http_request \<Rightarrow> history
    \<Rightarrow> request_result \<times> history" where
  "remote_doRequest E s client req tr =
     (let maxRetries = (case r_retryConfig s of None \<Rightarrow> 0 | Some c \<Rightarrow> MaxRetries c)
      in remote_loop E s client maxRetries 0 req None 0 tr)"

text \<open>\<open>remote_finish\<close> is what the loop returns for a last reply.\<close>

fun remote_finish :: "env \<Rightarrow> int \<Rightarrow> reply \<Rightarrow> bytes option \<times> int \<times> go_error option" where
  "remote_finish E maxRetries (NetError e) = (None, 0, Some (Errorf_w (request_failed_text maxRetries) (Some e)))"
| "remote_finish E maxRetries (Reply st (Inl e)) = (None, st, Some (Errorf_w (read_failed_text maxRetries) (Some e)))"
| "remote_finish E maxRetries (Reply st (Inr b)) =
     (if good_status st then (Some b, st, None) else (None, st, Some (handleErrorWithBody E st b)))"

interpretation remote: retry_loop E client maxRetries "calculateRetryWait (r_retryConfig s)"
  "isRetryableStatus (r_retryConfig s)" "remote_finish E maxRetries" "remote_loop E s client maxRetries"
  for E s client maxRetries
proof
  fix tr a req k r le sc
  assume d: "client_Do E (tr @ pause (calculateRetryWait (r_retryConfig s)) a) client req = (k, r)"
  then have d': "client_Do E (if 0 < a then tr @ [Slept (calculateRetryWait (r_retryConfig s) a)] else tr) client req = (k, r)"
    by (simp add: pause_def split: if_splits)
  show "\<exists>le' sc'. remote_loop E s client maxRetries a req le sc tr
      = remote_loop E s client maxRetries (a + 1) (read_body k req) le' sc'
          (tr @ pause (calculateRetryWait (r_retryConfig s)) a @ [Sent client req])"
    if "a < maxRetries" "inconclusive (isRetryableStatus (r_retryConfig s)) r"
    by (subst remote_loop.simps)
      (use that d' in \<open>cases "(isRetryableStatus (r_retryConfig s), r)" rule: inconclusive.cases;
         auto simp: Let_def pause_def good_status_def\<close>)
  show "remote_loop E s client maxRetries a req le sc tr
      = ((case remote_finish E maxRetries r of (b, st, e) \<Rightarrow> (b, st, a, e)),
         tr @ pause (calculateRetryWait (r_retryConfig s)) a @ [Sent client req])"
    if "a \<le> maxRetries" "\<not> inconclusive (isRetryableStatus (r_retryConfig s)) r \<or> a = maxRetries"
    by (subst remote_loop.simps)
      (use that d' in \<open>cases "(isRetryableStatus (r_retryConfig s), r)" rule: inconclusive.cases;
         auto simp: Let_def pause_def good_status_def\<close>)
qed

section \<open>Requests\<close>

definition remote_setHeaders :: "remoteServiceImpl \<Rightarrow> http_request \<Rightarrow> http_request" where
  "remote_setHeaders s req =
     (let req = set_header (bytes_of ''Content-Type'') (bytes_of ''application/json; charset=utf-8'') req;
          req = (if r_token s \<noteq> [] then set_header (bytes_of ''Authorization'') (r_token s) req else req);
          req = (if r_tenantID s \<noteq> [] then set_header (bytes_of ''tenantId'') (r_tenantID s) req else req)
      in if r_shopCode s \<noteq> [] then set_header (bytes_of ''shopCode'') (r_shopCode s) req else req)"

definition remote_shouldUseHystrix :: "remoteServiceImpl \<Rightarrow> 'c http_vars \<Rightarrow> bool" where
  "remote_shouldUseHystrix s g =
     (case r_enableHystrix s of Some b \<Rightarrow> b | None \<Rightarrow> v_enableHystrix g)"

definition remote_sendFallbackAlert :: "remoteServiceImpl \<Rightarrow> 'c http_vars \<Rightarrow> history" where
  "remote_sendFallbackAlert s g = fallback_alert (v_alarm g) (remote_alarm_text (r_url s) (r_tenantID s))"

text \<open>
  \<open>do\<close> in its three parts: the span, if there is one, with the request under its context; the attempts, through
  the breaker or not; the end of the span.
\<close>

definition remote_traced :: "env \<Rightarrow> remoteServiceImpl \<Rightarrow> http_request \<Rightarrow> http_request \<times> span option" where
  "remote_traced E s req =
     (if r_enableTracing s
      then case startSpan E (req_Context req) (r_tracer s) (req_Method req) (extractServiceName E (r_url s)) (req_URL req) of
             (ctx, sp) \<Rightarrow>
               (injectTraceContext E ctx (req\<lparr>req_Context := ctx\<rparr>),
                Some (recordSpanAttributes sp (r_tenantID s) (r_shopCode s) (r_token s)))
      else (req, None))"

definition remote_run :: "env \<Rightarrow> remoteServiceImpl \<Rightarrow> http_request \<Rightarrow> bytes \<Rightarrow> 'c http_vars \<Rightarrow> request_result \<times> history" where
  "remote_run E s req operationName g =
     (let client = r_client s;
          req = remote_setHeaders s req
      in if remote_shouldUseHystrix s g
         then let cmdName = (if r_commandName s = [] then operationName else r_commandName s)
              in run_hystrix E cmdName (remote_doRequest E s client req) (remote_sendFallbackAlert s g) (v_history g)
         else remote_doRequest E s client req (v_history g))"

definition remote_do :: "env \<Rightarrow> remoteServiceImpl \<Rightarrow> http_request \<Rightarrow> bytes \<Rightarrow> 'c http_vars
    \<Rightarrow> (bytes option \<times> go_error option) \<times> 'c http_vars" where
  "remote_do E s req operationName g =
     (case remote_traced E s req of
        (req, sp) \<Rightarrow>
          (case remote_run E s req operationName g of
             ((result, statusCode, retryCount, err), tr) \<Rightarrow>
               ((result, err), g\<lparr>v_history := tr @ record_end sp result err statusCode retryCount\<rparr>)))"

text \<open>\<open>http.NewRequestWithContext\<close>: an error, or a request with an empty header and all of its body to read.\<close>

definition NewRequestWithContext :: "env \<Rightarrow> go_context \<Rightarrow> bytes \<Rightarrow> bytes \<Rightarrow> bytes \<Rightarrow> go_error + http_request" where
  "NewRequestWithContext E ctx meth url body =
     (case request_error E ctx meth url of
        Some e \<Rightarrow> Inl e
      | None \<Rightarrow> Inr \<lparr>req_Method = meth, req_URL = url, req_Context = ctx, req_Header = (\<lambda>_. None), req_Body = body\<rparr>)"

definition remote_Post :: "env \<Rightarrow> remoteServiceImpl \<Rightarrow> bytes \<Rightarrow> 'c http_vars
    \<Rightarrow> (bytes option \<times> go_error option) \<times> 'c http_vars" where
  "remote_Post E s postBody g =
     (case NewRequestWithContext E (r_context s) (bytes_of ''POST'') (r_url s) postBody of
        Inl err \<Rightarrow> ((None, Some err), g)
      | Inr req \<Rightarrow> remote_do E s req (bytes_of ''RemotePost'') g)"

definition remote_Get :: "env \<Rightarrow> remoteServiceImpl \<Rightarrow> bytes \<Rightarrow> 'c http_vars
    \<Rightarrow> (bytes option \<times> go_error option) \<times> 'c http_vars" where
  "remote_Get E s newReader g =
     (case NewRequestWithContext E (r_context s) (bytes_of ''GET'') (r_url s) newReader of
        Inl err \<Rightarrow> ((None, Some err), g)
      | Inr req \<Rightarrow> remote_do E s req (bytes_of ''RemoteGET'') g)"

definition remote_Delete :: "env \<Rightarrow> remoteServiceImpl \<Rightarrow> bytes \<Rightarrow> 'c http_vars
    \<Rightarrow> (bytes option \<times> go_error option) \<times> 'c http_vars" where
  "remote_Delete E s newReader g =
     (case NewRequestWithContext E (r_context s) (bytes_of ''DELETE'') (r_url s) newReader of
        Inl err \<Rightarrow> ((None, Some err), g)
      | Inr req \<Rightarrow> remote_do E s req (bytes_of ''RemoteDELETE'') g)"

text \<open>
  The operations on entities. \<open>unmarshal\<close> is \<open>json.Unmarshal\<close> into the caller's variable, from its old value to
  its new one with an error if any; \<open>marshal\<close> is \<open>json.Marshal\<close>.
\<close>

definition remote_GetEntity :: "env \<Rightarrow> (bytes \<Rightarrow> 'r \<Rightarrow> 'r \<times> go_error option) \<Rightarrow> remoteServiceImpl \<Rightarrow> 'r \<Rightarrow> 'c http_vars
    \<Rightarrow> ('r \<times> go_error option) \<times> 'c http_vars" where
  "remote_GetEntity E unmarshal s v g =
     (case remote_Get E s [] g of (be, g) \<Rightarrow> (decode_entity unmarshal v be, g))"

definition remote_DeleteEntity :: "env \<Rightarrow> (bytes \<Rightarrow> 'r \<Rightarrow> 'r \<times> go_error option) \<Rightarrow> remoteServiceImpl \<Rightarrow> 'r
    \<Rightarrow> 'c http_vars \<Rightarrow> ('r \<times> go_error option) \<times> 'c http_vars" where
  "remote_DeleteEntity E unmarshal s v g =
     (case remote_Delete E s [] g of (be, g) \<Rightarrow> (decode_entity unmarshal v be, g))"

definition remote_PostEntity :: "env \<Rightarrow> ('v \<Rightarrow> go_error + bytes) \<Rightarrow> (bytes \<Rightarrow> 'r \<Rightarrow> 'r \<times> go_error option)
    \<Rightarrow> remoteServiceImpl \<Rightarrow> 'v \<Rightarrow> 'r \<Rightarrow> 'c http_vars \<Rightarrow> ('r \<times> go_error option) \<times> 'c http_vars" where
  "remote_PostEntity E marshal unmarshal s v r g =
     (case marshal v of
        Inl err \<Rightarrow> ((r, Some err), g)
      | Inr b \<Rightarrow> (case remote_Post E s b g of (be, g) \<Rightarrow> (decode_entity unmarshal r be, g)))"

section \<open>What the operations do\<close>

text \<open>\<open>remote_doRequest\<close> is the sequence of attempts of \<^theory_text>\<open>retry_loop\<close>.\<close>

lemma remote_doRequest_attempts:
  assumes "0 \<le> max_retries (r_retryConfig s)"
  shows "remote_doRequest E s client req tr =
    (let m = max_retries (r_retryConfig s);
         rs = attempts E client (isRetryableStatus (r_retryConfig s)) (calculateRetryWait (r_retryConfig s)) 0
                (nat (m + 1)) req tr
     in ((case remote_finish E m (snd (last rs)) of (b, st, e) \<Rightarrow> (b, st, int (length rs) - 1, e)),
         tr @ attempt_history client (calculateRetryWait (r_retryConfig s)) 0 req rs))"
proof -
  have "remote_doRequest E s client req tr = remote_loop E s client (max_retries (r_retryConfig s)) 0 req None 0 tr"
    by (simp add: remote_doRequest_def max_retries_def)
  then show ?thesis
    using remote.loop_attempts[of 0 "nat (max_retries (r_retryConfig s) + 1)" "max_retries (r_retryConfig s)"] assms
    by (simp add: Let_def)
qed

lemma remote_doRequest_negative:
  assumes "max_retries (r_retryConfig s) < 0"
  shows "remote_doRequest E s client req tr =
    ((None, 0, max_retries (r_retryConfig s),
      Some (Errorf_w (request_failed_text (max_retries (r_retryConfig s))) None)), tr)"
proof -
  have "remote_doRequest E s client req tr = remote_loop E s client (max_retries (r_retryConfig s)) 0 req None 0 tr"
    by (simp add: remote_doRequest_def max_retries_def)
  then show ?thesis using assms by (simp add: remote_loop.simps)
qed

end
