(* ===== verification/Http_Service.thy ===== *)
theory Http_Service imports Http_Remote begin

text \<open>
  \<open>service_client.go\<close>: the client of a service, \<open>serviceClientImpl\<close>, whose operations take a path and options, and
  the pool in which services are registered by name.
\<close>

section \<open>Construction and the pool\<close>

record ServiceClientOption =
  so_ServiceName :: bytes
  so_BaseURL :: bytes
  so_TimeoutSecond :: int
  so_Context :: "go_context option"
  so_TransportConfig :: "TransportConfig option"
  so_RetryConfig :: "RetryConfig option"
  so_EnableHystrix :: "bool option"
  so_HystrixConfig :: "HystrixConfig option"
  so_EnableTracing :: bool
  so_Tracer :: "tracer option"
  so_TracerName :: bytes

record RequestOptions =
  ro_TenantID :: bytes
  ro_ShopCode :: bytes
  ro_Token :: bytes

record serviceClientImpl =
  sc_serviceName :: bytes
  sc_baseURL :: bytes
  sc_context :: go_context
  sc_client :: http_client
  sc_retryConfig :: "RetryConfig option"
  sc_enableHystrix :: "bool option"
  sc_commandName :: bytes
  sc_enableTracing :: bool
  sc_tracer :: "tracer option"

type_synonym soehttp = "serviceClientImpl http_vars"

abbreviation no_options :: RequestOptions where
  "no_options \<equiv> \<lparr>ro_TenantID = [], ro_ShopCode = [], ro_Token = []\<rparr>"

definition getServiceClientPool :: "soehttp \<Rightarrow> (bytes \<Rightarrow> serviceClientImpl option) \<times> soehttp" where
  "getServiceClientPool g =
     (case v_clients g of
        None \<Rightarrow> (Map.empty, g\<lparr>v_clients := Some Map.empty\<rparr>)
      | Some m \<Rightarrow> (m, g))"

definition NewServiceClient :: "ServiceClientOption \<Rightarrow> soehttp \<Rightarrow> serviceClientImpl \<times> soehttp" where
  "NewServiceClient opt g =
     (let ctx = (case so_Context opt of None \<Rightarrow> Background | Some c \<Rightarrow> c);
          timeout = (if so_TimeoutSecond opt \<le> 0 then 15 else so_TimeoutSecond opt);
          serviceName = (if so_ServiceName opt = [] then bytes_of ''unknown-service'' else so_ServiceName opt);
          client = createClientWithConfig timeout (so_TransportConfig opt);
          retryConfig = (case so_RetryConfig opt of None \<Rightarrow> DefaultRetryConfig | Some c \<Rightarrow> c);
          (commandName, g) =
            (if so_EnableHystrix opt = Some True
             then let commandName = bytes_of ''service-'' @ serviceName;
                      hystrixCfg = (case so_HystrixConfig opt of None \<Rightarrow> DefaultHystrixConfig | Some c \<Rightarrow> c)
                  in (commandName, configureHystrixCommand commandName hystrixCfg g)
             else ([], g));
          tracer = (if so_EnableTracing opt
                    then (case so_Tracer opt of
                        Some t \<Rightarrow> Some t
                      | None \<Rightarrow> Some (GlobalTracer (if so_TracerName opt = [] then bytes_of ''soehttp'' else so_TracerName opt)))
                    else None)
      in (\<lparr>sc_serviceName = serviceName, sc_baseURL = so_BaseURL opt, sc_context = ctx, sc_client = client,
           sc_retryConfig = Some retryConfig, sc_enableHystrix = so_EnableHystrix opt, sc_commandName = commandName,
           sc_enableTracing = so_EnableTracing opt, sc_tracer = tracer\<rparr>, g))"

definition RegisterService :: "bytes \<Rightarrow> ServiceClientOption \<Rightarrow> soehttp \<Rightarrow> soehttp" where
  "RegisterService serviceName opt g =
     (let opt = opt\<lparr>so_ServiceName := serviceName\<rparr>;
          (client, g) = NewServiceClient opt g;
          (clients, g) = getServiceClientPool g
      in g\<lparr>v_clients := Some (clients(serviceName \<mapsto> client))\<rparr>)"

definition GetServiceClient :: "bytes \<Rightarrow> soehttp \<Rightarrow> (go_error + serviceClientImpl) \<times> soehttp" where
  "GetServiceClient serviceName g =
     (let (clients, g) = getServiceClientPool g
      in (case clients serviceName of
            None \<Rightarrow> Inl (errors_New (not_registered_text @ serviceName))
          | Some client \<Rightarrow> Inr client, g))"

definition GetServiceName :: "serviceClientImpl \<Rightarrow> bytes" where
  "GetServiceName s = sc_serviceName s"

definition GetBaseURL :: "serviceClientImpl \<Rightarrow> bytes" where
  "GetBaseURL s = sc_baseURL s"

section \<open>A request with its retries\<close>

definition service_calculateRetryWait :: "serviceClientImpl \<Rightarrow> int \<Rightarrow> duration" where
  "service_calculateRetryWait s attempt = calculateRetryWait (sc_retryConfig s) attempt"

definition service_isRetryableStatus :: "serviceClientImpl \<Rightarrow> int \<Rightarrow> bool" where
  "service_isRetryableStatus s statusCode = isRetryableStatus (sc_retryConfig s) statusCode"

definition service_handleMapError :: "env \<Rightarrow> (bytes \<times> json) list \<Rightarrow> int \<Rightarrow> go_error" where
  "service_handleMapError E data statusCode = handleMapError E data statusCode"

definition service_handleErrorWithBody :: "env \<Rightarrow> int \<Rightarrow> bytes \<Rightarrow> go_error" where
  "service_handleErrorWithBody E statusCode body =
     (if statusCode = 401 \<or> statusCode = 403 then errors_New (bytes_of (StatusText statusCode))
      else case json_Unmarshal E body of
             Inl _ \<Rightarrow> errors_New (bytes_of (StatusText statusCode))
           | Inr (JString t) \<Rightarrow> errors_New t
           | Inr (JObject t) \<Rightarrow> service_handleMapError E t statusCode
           | Inr _ \<Rightarrow> errors_New busy_text)"

lemma service_handleMapError_eq [simp]: "service_handleMapError = handleMapError"
  by (intro ext) (simp add: service_handleMapError_def)

lemma service_handleErrorWithBody_eq [simp]: "service_handleErrorWithBody = handleErrorWithBody"
  by (intro ext) (simp add: service_handleErrorWithBody_def handleErrorWithBody_def split: sum.split json.split)

text \<open>\<open>string(rune(c))\<close>: the character with the number of the status, in UTF-8.\<close>

definition rune_string :: "int \<Rightarrow> bytes" where
  "rune_string c =
     (if 0 \<le> c \<and> c < 128 then [word_of_int c]
      else if 128 \<le> c \<and> c < 2048 then [word_of_int (192 + c div 64), word_of_int (128 + c mod 64)]
      else if 2048 \<le> c \<and> c < 65536 \<and> \<not> (55296 \<le> c \<and> c \<le> 57343)
      then [word_of_int (224 + c div 4096), word_of_int (128 + c div 64 mod 64), word_of_int (128 + c mod 64)]
      else if 65536 \<le> c \<and> c \<le> 1114111
      then [word_of_int (240 + c div 262144), word_of_int (128 + c div 4096 mod 64),
            word_of_int (128 + c div 64 mod 64), word_of_int (128 + c mod 64)]
      else [0xEF, 0xBF, 0xBD])"

function service_loop :: "env \<Rightarrow> serviceClientImpl \<Rightarrow> http_client \<Rightarrow> int \<Rightarrow> int \<Rightarrow> http_request \<Rightarrow> go_error option \<Rightarrow> int
    \<Rightarrow> history \<Rightarrow> request_result \<times> history" where
  "service_loop E s client maxRetries attempt req lastErr statusCode tr =
     (if attempt \<le> maxRetries
      then let tr = (if 0 < attempt then tr @ [Slept (service_calculateRetryWait s attempt)] else tr)
           in case client_Do E tr client req of
                (k, NetError err) \<Rightarrow>
                  (if attempt < maxRetries
                   then service_loop E s client maxRetries (attempt + 1) (read_body k req) (Some err) statusCode
                          (tr @ [Sent client req])
                   else ((None, 0, attempt, Some err), tr @ [Sent client req]))
              | (k, Reply code (Inl readErr)) \<Rightarrow>
                  (if attempt < maxRetries
                   then service_loop E s client maxRetries (attempt + 1) (read_body k req) (Some readErr) code
                          (tr @ [Sent client req])
                   else ((None, code, attempt, Some readErr), tr @ [Sent client req]))
              | (k, Reply code (Inr body)) \<Rightarrow>
                  (if \<not> (200 \<le> code \<and> code \<le> 207)
                   then if service_isRetryableStatus s code \<and> attempt < maxRetries
                        then service_loop E s client maxRetries (attempt + 1) (read_body k req)
                               (Some (errors_New (status_text @ bytes_of '': '' @ rune_string code))) code
                               (tr @ [Sent client req])
                        else ((None, code, attempt, Some (service_handleErrorWithBody E code body)), tr @ [Sent client req])
                   else ((Some body, code, attempt, None), tr @ [Sent client req]))
      else ((None, statusCode, maxRetries, lastErr), tr))"
  by pat_completeness auto
termination
  by (relation "measure (\<lambda>(E, s, client, maxRetries, attempt, _). nat (maxRetries + 1 - attempt))") auto

declare service_loop.simps [simp del]

definition service_doRequest :: "env \<Rightarrow> serviceClientImpl \<Rightarrow> http_client \<Rightarrow> http_request \<Rightarrow> history
    \<Rightarrow> request_result \<times> history" where
  "service_doRequest E s client req tr =
     (let maxRetries = (case sc_retryConfig s of None \<Rightarrow> 0 | Some c \<Rightarrow> MaxRetries c)
      in service_loop E s client maxRetries 0 req None 0 tr)"

fun service_finish :: "env \<Rightarrow> reply \<Rightarrow> bytes option \<times> int \<times> go_error option" where
  "service_finish E (NetError e) = (None, 0, Some e)"
| "service_finish E (Reply st (Inl e)) = (None, st, Some e)"
| "service_finish E (Reply st (Inr b)) =
     (if good_status st then (Some b, st, None) else (None, st, Some (handleErrorWithBody E st b)))"

interpretation service: retry_loop E client maxRetries "calculateRetryWait (sc_retryConfig s)"
  "isRetryableStatus (sc_retryConfig s)" "service_finish E" "service_loop E s client maxRetries"
  for E s client maxRetries
proof
  fix tr a req k r le sc
  assume d: "client_Do E (tr @ pause (calculateRetryWait (sc_retryConfig s)) a) client req = (k, r)"
  then have d': "client_Do E (if 0 < a then tr @ [Slept (calculateRetryWait (sc_retryConfig s) a)] else tr) client req = (k, r)"
    by (simp add: pause_def split: if_splits)
  show "\<exists>le' sc'. service_loop E s client maxRetries a req le sc tr
      = service_loop E s client maxRetries (a + 1) (read_body k req) le' sc'
          (tr @ pause (calculateRetryWait (sc_retryConfig s)) a @ [Sent client req])"
    if "a < maxRetries" "inconclusive (isRetryableStatus (sc_retryConfig s)) r"
    by (subst service_loop.simps)
      (use that d' in \<open>cases "(isRetryableStatus (sc_retryConfig s), r)" rule: inconclusive.cases;
         auto simp: Let_def pause_def good_status_def service_calculateRetryWait_def service_isRetryableStatus_def
           intro!: exI\<close>)
  show "service_loop E s client maxRetries a req le sc tr
      = ((case service_finish E r of (b, st, e) \<Rightarrow> (b, st, a, e)),
         tr @ pause (calculateRetryWait (sc_retryConfig s)) a @ [Sent client req])"
    if "a \<le> maxRetries" "\<not> inconclusive (isRetryableStatus (sc_retryConfig s)) r \<or> a = maxRetries"
    by (subst service_loop.simps)
      (use that d' in \<open>cases "(isRetryableStatus (sc_retryConfig s), r)" rule: inconclusive.cases;
         auto simp: Let_def pause_def good_status_def service_calculateRetryWait_def service_isRetryableStatus_def\<close>)
qed

lemma service_doRequest_attempts:
  assumes "0 \<le> max_retries (sc_retryConfig s)"
  shows "service_doRequest E s client req tr =
    (let m = max_retries (sc_retryConfig s);
         rs = attempts E client (isRetryableStatus (sc_retryConfig s)) (calculateRetryWait (sc_retryConfig s)) 0
                (nat (m + 1)) req tr
     in ((case service_finish E (snd (last rs)) of (b, st, e) \<Rightarrow> (b, st, int (length rs) - 1, e)),
         tr @ attempt_history client (calculateRetryWait (sc_retryConfig s)) 0 req rs))"
proof -
  have "service_doRequest E s client req tr = service_loop E s client (max_retries (sc_retryConfig s)) 0 req None 0 tr"
    by (simp add: service_doRequest_def max_retries_def)
  then show ?thesis
    using service.loop_attempts[of 0 "nat (max_retries (sc_retryConfig s) + 1)" "max_retries (sc_retryConfig s)"] assms
    by (simp add: Let_def)
qed

lemma service_doRequest_first:
  assumes "0 \<le> max_retries (sc_retryConfig s)"
  shows "\<exists>rest. snd (service_doRequest E s client req tr) = tr @ Sent client req # rest"
proof -
  obtain n where "nat (max_retries (sc_retryConfig s) + 1) = Suc n" using assms by (cases "nat (max_retries (sc_retryConfig s) + 1)") auto
  then show ?thesis
    using assms by (simp add: service_doRequest_attempts Let_def pause_def split: prod.split)
qed

lemma service_doRequest_negative:
  assumes "max_retries (sc_retryConfig s) < 0"
  shows "service_doRequest E s client req tr = ((None, 0, max_retries (sc_retryConfig s), None), tr)"
proof -
  have "service_doRequest E s client req tr = service_loop E s client (max_retries (sc_retryConfig s)) 0 req None 0 tr"
    by (simp add: service_doRequest_def max_retries_def)
  then show ?thesis using assms by (simp add: service_loop.simps)
qed

section \<open>Requests\<close>

definition service_shouldUseHystrix :: "serviceClientImpl \<Rightarrow> soehttp \<Rightarrow> bool" where
  "service_shouldUseHystrix s g =
     (case sc_enableHystrix s of Some b \<Rightarrow> b | None \<Rightarrow> v_enableHystrix g)"

definition setHeadersWithOptions :: "RequestOptions \<Rightarrow> http_request \<Rightarrow> http_request" where
  "setHeadersWithOptions opts req =
     (let req = set_header (bytes_of ''Content-Type'') (bytes_of ''application/json; charset=utf-8'') req;
          req = (if ro_Token opts \<noteq> [] then set_header (bytes_of ''Authorization'') (ro_Token opts) req else req);
          req = (if ro_TenantID opts \<noteq> [] then set_header (bytes_of ''tenantId'') (ro_TenantID opts) req else req)
      in if ro_ShopCode opts \<noteq> [] then set_header (bytes_of ''shopCode'') (ro_ShopCode opts) req else req)"

text \<open>The keys as \<open>Header.Set\<close> writes them, and the headers of a call.\<close>

lemma canonical_keys [simp]:
  "canonical_key True (bytes_of ''Content-Type'') = bytes_of ''Content-Type''"
  "canonical_key True (bytes_of ''Authorization'') = bytes_of ''Authorization''"
  "canonical_key True (bytes_of ''tenantId'') = bytes_of ''Tenantid''"
  "canonical_key True (bytes_of ''shopCode'') = bytes_of ''Shopcode''"
  by code_simp+

lemma different_keys:
  "distinct [bytes_of ''Content-Type'', bytes_of ''Authorization'', bytes_of ''Tenantid'', bytes_of ''Shopcode'']"
  by code_simp

lemma header_of_options:
  "req_Header (setHeadersWithOptions opts req) (bytes_of ''Authorization'') =
     (if ro_Token opts = [] then req_Header req (bytes_of ''Authorization'') else Some [ro_Token opts])"
  "req_Header (setHeadersWithOptions opts req) (bytes_of ''Tenantid'') =
     (if ro_TenantID opts = [] then req_Header req (bytes_of ''Tenantid'') else Some [ro_TenantID opts])"
  "req_Header (setHeadersWithOptions opts req) (bytes_of ''Shopcode'') =
     (if ro_ShopCode opts = [] then req_Header req (bytes_of ''Shopcode'') else Some [ro_ShopCode opts])"
  using different_keys by (auto simp: setHeadersWithOptions_def Let_def set_header_def Header_Set_def)

definition service_setHeaders :: "http_request \<Rightarrow> http_request" where
  "service_setHeaders req = setHeadersWithOptions no_options req"

definition service_sendFallbackAlert :: "serviceClientImpl \<Rightarrow> http_request \<Rightarrow> soehttp \<Rightarrow> history" where
  "service_sendFallbackAlert s req g = fallback_alert (v_alarm g) (service_alarm_text (sc_serviceName s) (req_URL req))"

definition service_traced :: "env \<Rightarrow> serviceClientImpl \<Rightarrow> RequestOptions \<Rightarrow> http_request \<Rightarrow> http_request \<times> span option" where
  "service_traced E s opts req =
     (if sc_enableTracing s
      then case startSpan E (req_Context req) (sc_tracer s) (req_Method req) (sc_serviceName s) (req_URL req) of
             (ctx, sp) \<Rightarrow>
               (injectTraceContext E ctx (req\<lparr>req_Context := ctx\<rparr>),
                Some (recordSpanAttributes sp (ro_TenantID opts) (ro_ShopCode opts) (ro_Token opts)))
      else (req, None))"

definition service_run :: "env \<Rightarrow> serviceClientImpl \<Rightarrow> http_request \<Rightarrow> bytes \<Rightarrow> RequestOptions \<Rightarrow> soehttp
    \<Rightarrow> request_result \<times> history" where
  "service_run E s req operationName opts g =
     (let client = sc_client s;
          req = setHeadersWithOptions opts req
      in if service_shouldUseHystrix s g
         then let cmdName = (if sc_commandName s = [] then operationName else sc_commandName s)
              in run_hystrix E cmdName (service_doRequest E s client req) (service_sendFallbackAlert s req g) (v_history g)
         else service_doRequest E s client req (v_history g))"

definition doWithOptions :: "env \<Rightarrow> serviceClientImpl \<Rightarrow> http_request \<Rightarrow> bytes \<Rightarrow> RequestOptions \<Rightarrow> soehttp
    \<Rightarrow> (bytes option \<times> go_error option) \<times> soehttp" where
  "doWithOptions E s req operationName opts g =
     (case service_traced E s opts req of
        (req, sp) \<Rightarrow>
          (case service_run E s req operationName opts g of
             ((result, statusCode, retryCount, err), tr) \<Rightarrow>
               ((result, err), g\<lparr>v_history := tr @ record_end sp result err statusCode retryCount\<rparr>)))"

definition service_do :: "env \<Rightarrow> serviceClientImpl \<Rightarrow> http_request \<Rightarrow> bytes \<Rightarrow> soehttp
    \<Rightarrow> (bytes option \<times> go_error option) \<times> soehttp" where
  "service_do E s req operationName g = doWithOptions E s req operationName no_options g"

definition PostWithOptions :: "env \<Rightarrow> serviceClientImpl \<Rightarrow> bytes \<Rightarrow> bytes \<Rightarrow> RequestOptions \<Rightarrow> soehttp
    \<Rightarrow> (bytes option \<times> go_error option) \<times> soehttp" where
  "PostWithOptions E s path postBody opts g =
     (case NewRequestWithContext E (sc_context s) (bytes_of ''POST'') (sc_baseURL s @ path) postBody of
        Inl err \<Rightarrow> ((None, Some err), g)
      | Inr req \<Rightarrow> doWithOptions E s req (bytes_of ''RemotePost'') opts g)"

definition PutWithOptions :: "env \<Rightarrow> serviceClientImpl \<Rightarrow> bytes \<Rightarrow> bytes \<Rightarrow> RequestOptions \<Rightarrow> soehttp
    \<Rightarrow> (bytes option \<times> go_error option) \<times> soehttp" where
  "PutWithOptions E s path putBody opts g =
     (case NewRequestWithContext E (sc_context s) (bytes_of ''PUT'') (sc_baseURL s @ path) putBody of
        Inl err \<Rightarrow> ((None, Some err), g)
      | Inr req \<Rightarrow> doWithOptions E s req (bytes_of ''RemotePUT'') opts g)"

definition GetWithOptions :: "env \<Rightarrow> serviceClientImpl \<Rightarrow> bytes \<Rightarrow> bytes \<Rightarrow> RequestOptions \<Rightarrow> soehttp
    \<Rightarrow> (bytes option \<times> go_error option) \<times> soehttp" where
  "GetWithOptions E s path reader opts g =
     (case NewRequestWithContext E (sc_context s) (bytes_of ''GET'') (sc_baseURL s @ path) reader of
        Inl err \<Rightarrow> ((None, Some err), g)
      | Inr req \<Rightarrow> doWithOptions E s req (bytes_of ''RemoteGET'') opts g)"

definition DeleteWithOptions :: "env \<Rightarrow> serviceClientImpl \<Rightarrow> bytes \<Rightarrow> bytes \<Rightarrow> RequestOptions \<Rightarrow> soehttp
    \<Rightarrow> (bytes option \<times> go_error option) \<times> soehttp" where
  "DeleteWithOptions E s path reader opts g =
     (case NewRequestWithContext E (sc_context s) (bytes_of ''DELETE'') (sc_baseURL s @ path) reader of
        Inl err \<Rightarrow> ((None, Some err), g)
      | Inr req \<Rightarrow> doWithOptions E s req (bytes_of ''RemoteDELETE'') opts g)"

definition service_Post :: "env \<Rightarrow> serviceClientImpl \<Rightarrow> bytes \<Rightarrow> bytes \<Rightarrow> soehttp
    \<Rightarrow> (bytes option \<times> go_error option) \<times> soehttp" where
  "service_Post E s path postBody g = PostWithOptions E s path postBody no_options g"

definition service_Put :: "env \<Rightarrow> serviceClientImpl \<Rightarrow> bytes \<Rightarrow> bytes \<Rightarrow> soehttp
    \<Rightarrow> (bytes option \<times> go_error option) \<times> soehttp" where
  "service_Put E s path putBody g = PutWithOptions E s path putBody no_options g"

definition service_Get :: "env \<Rightarrow> serviceClientImpl \<Rightarrow> bytes \<Rightarrow> bytes \<Rightarrow> soehttp
    \<Rightarrow> (bytes option \<times> go_error option) \<times> soehttp" where
  "service_Get E s path reader g = GetWithOptions E s path reader no_options g"

definition service_Delete :: "env \<Rightarrow> serviceClientImpl \<Rightarrow> bytes \<Rightarrow> bytes \<Rightarrow> soehttp
    \<Rightarrow> (bytes option \<times> go_error option) \<times> soehttp" where
  "service_Delete E s path reader g = DeleteWithOptions E s path reader no_options g"

section \<open>Entities\<close>

definition PostEntityWithOptions :: "env \<Rightarrow> ('v \<Rightarrow> go_error + bytes) \<Rightarrow> (bytes \<Rightarrow> 'r \<Rightarrow> 'r \<times> go_error option)
    \<Rightarrow> serviceClientImpl \<Rightarrow> bytes \<Rightarrow> 'v \<Rightarrow> 'r \<Rightarrow> RequestOptions \<Rightarrow> soehttp \<Rightarrow> ('r \<times> go_error option) \<times> soehttp" where
  "PostEntityWithOptions E marshal unmarshal s path v r opts g =
     (case marshal v of
        Inl err \<Rightarrow> ((r, Some err), g)
      | Inr b \<Rightarrow> (case PostWithOptions E s path b opts g of (be, g) \<Rightarrow> (decode_entity unmarshal r be, g)))"

definition PutEntityWithOptions :: "env \<Rightarrow> ('v \<Rightarrow> go_error + bytes) \<Rightarrow> (bytes \<Rightarrow> 'r \<Rightarrow> 'r \<times> go_error option)
    \<Rightarrow> serviceClientImpl \<Rightarrow> bytes \<Rightarrow> 'v \<Rightarrow> 'r \<Rightarrow> RequestOptions \<Rightarrow> soehttp \<Rightarrow> ('r \<times> go_error option) \<times> soehttp" where
  "PutEntityWithOptions E marshal unmarshal s path v r opts g =
     (case marshal v of
        Inl err \<Rightarrow> ((r, Some err), g)
      | Inr b \<Rightarrow> (case PutWithOptions E s path b opts g of (be, g) \<Rightarrow> (decode_entity unmarshal r be, g)))"

definition GetEntityWithOptions :: "env \<Rightarrow> (bytes \<Rightarrow> 'r \<Rightarrow> 'r \<times> go_error option)
    \<Rightarrow> serviceClientImpl \<Rightarrow> bytes \<Rightarrow> 'r \<Rightarrow> RequestOptions \<Rightarrow> soehttp \<Rightarrow> ('r \<times> go_error option) \<times> soehttp" where
  "GetEntityWithOptions E unmarshal s path v opts g =
     (case GetWithOptions E s path [] opts g of (be, g) \<Rightarrow> (decode_entity unmarshal v be, g))"

definition DeleteEntityWithOptions :: "env \<Rightarrow> (bytes \<Rightarrow> 'r \<Rightarrow> 'r \<times> go_error option)
    \<Rightarrow> serviceClientImpl \<Rightarrow> bytes \<Rightarrow> 'r \<Rightarrow> RequestOptions \<Rightarrow> soehttp \<Rightarrow> ('r \<times> go_error option) \<times> soehttp" where
  "DeleteEntityWithOptions E unmarshal s path v opts g =
     (case DeleteWithOptions E s path [] opts g of (be, g) \<Rightarrow> (decode_entity unmarshal v be, g))"

definition service_PostEntity :: "env \<Rightarrow> ('v \<Rightarrow> go_error + bytes) \<Rightarrow> (bytes \<Rightarrow> 'r \<Rightarrow> 'r \<times> go_error option)
    \<Rightarrow> serviceClientImpl \<Rightarrow> bytes \<Rightarrow> 'v \<Rightarrow> 'r \<Rightarrow> soehttp \<Rightarrow> ('r \<times> go_error option) \<times> soehttp" where
  "service_PostEntity E marshal unmarshal s path v r g = PostEntityWithOptions E marshal unmarshal s path v r no_options g"

definition service_PutEntity :: "env \<Rightarrow> ('v \<Rightarrow> go_error + bytes) \<Rightarrow> (bytes \<Rightarrow> 'r \<Rightarrow> 'r \<times> go_error option)
    \<Rightarrow> serviceClientImpl \<Rightarrow> bytes \<Rightarrow> 'v \<Rightarrow> 'r \<Rightarrow> soehttp \<Rightarrow> ('r \<times> go_error option) \<times> soehttp" where
  "service_PutEntity E marshal unmarshal s path v r g = PutEntityWithOptions E marshal unmarshal s path v r no_options g"

definition service_GetEntity :: "env \<Rightarrow> (bytes \<Rightarrow> 'r \<Rightarrow> 'r \<times> go_error option) \<Rightarrow> serviceClientImpl \<Rightarrow> bytes \<Rightarrow> 'r \<Rightarrow> soehttp
    \<Rightarrow> ('r \<times> go_error option) \<times> soehttp" where
  "service_GetEntity E unmarshal s path v g = GetEntityWithOptions E unmarshal s path v no_options g"

definition service_DeleteEntity :: "env \<Rightarrow> (bytes \<Rightarrow> 'r \<Rightarrow> 'r \<times> go_error option) \<Rightarrow> serviceClientImpl \<Rightarrow> bytes \<Rightarrow> 'r
    \<Rightarrow> soehttp \<Rightarrow> ('r \<times> go_error option) \<times> soehttp" where
  "service_DeleteEntity E unmarshal s path v g = DeleteEntityWithOptions E unmarshal s path v no_options g"

end
