(* ===== verification/Http_Program.thy ===== *)
theory Http_Program imports Http_Service begin

text \<open>
  Histories of a program that uses the package: the operations as one type, what each does to the variables, and
  the lemmas on what a request leaves alone.
\<close>

section \<open>What a request adds to the history\<close>

text \<open>
  A request sends itself, with what is left of its body, to its client; it waits, alarms and ends its span, but
  configures no command and flushes nothing.
\<close>

fun request_event :: "http_client \<Rightarrow> http_request \<Rightarrow> http_event \<Rightarrow> bool" where
  "request_event client req (Sent c q) = (c = client \<and> (\<exists>k. q = read_body k req))"
| "request_event client req (Configured n c) = False"
| "request_event client req Flushed = False"
| "request_event client req _ = True"

lemma attempt_history_events: "list_all (request_event client req) (attempt_history client wait a req rs)"
proof -
  have "Configured n c \<notin> set (attempt_history client wait a req rs)" for n c
    by (induction client wait a req rs rule: attempt_history.induct) (auto simp: pause_def)
  moreover have "Flushed \<notin> set (attempt_history client wait a req rs)"
    by (induction client wait a req rs rule: attempt_history.induct) (auto simp: pause_def)
  ultimately have "request_event client req e" if "e \<in> set (attempt_history client wait a req rs)" for e
    using that history_requests[of _ _ client wait a req rs] by (cases e) auto
  then show ?thesis by (simp add: list_all_iff)
qed

lemma fallback_alert_events: "list_all (request_event client req) (fallback_alert al t)"
  by (simp add: fallback_alert_def)

lemma record_end_events: "list_all (request_event client req) (record_end sp result err st n)"
  by (simp add: record_end_def split: option.split)

definition adds_events :: "http_client \<Rightarrow> http_request \<Rightarrow> history \<Rightarrow> history \<Rightarrow> bool" where
  "adds_events client req tr tr' \<longleftrightarrow> (\<exists>es. list_all (request_event client req) es \<and> tr' = tr @ es)"

lemma adds_events_refl: "adds_events client req tr tr"
  by (simp add: adds_events_def)

lemma adds_events_append:
  "list_all (request_event client req) es \<Longrightarrow> adds_events client req tr tr' \<Longrightarrow> adds_events client req tr (tr' @ es)"
  by (auto simp: adds_events_def)

lemma remote_doRequest_adds: "adds_events client req tr (snd (remote_doRequest E s client req tr))"
proof (cases "max_retries (r_retryConfig s) < 0")
  case False
  then show ?thesis
    by (auto simp: remote_doRequest_attempts adds_events_def Let_def attempt_history_events)
qed (simp add: remote_doRequest_negative adds_events_refl)

lemma service_doRequest_adds: "adds_events client req tr (snd (service_doRequest E s client req tr))"
proof (cases "max_retries (sc_retryConfig s) < 0")
  case False
  then show ?thesis
    by (auto simp: service_doRequest_attempts adds_events_def Let_def attempt_history_events)
qed (simp add: service_doRequest_negative adds_events_refl)

lemma run_hystrix_adds:
  assumes "\<And>tr. adds_events client req tr (snd (run tr))" "list_all (request_event client req) alert"
  shows "adds_events client req tr (snd (run_hystrix E cmd run alert tr))"
proof -
  obtain b st n err tr' where r: "run tr = ((b, st, n, err), tr')" by (metis surj_pair)
  have "adds_events client req tr tr'" using assms(1)[of tr] r by simp
  then show ?thesis
    using assms(2) r
    by (auto simp: run_hystrix_def adds_events_append adds_events_refl split: verdict.split option.split)
qed

lemma remote_run_adds:
  "adds_events (r_client s) (remote_setHeaders s req) (v_history g) (snd (remote_run E s req op g))"
  by (simp add: remote_run_def Let_def remote_doRequest_adds remote_sendFallbackAlert_def run_hystrix_adds
      fallback_alert_events)

lemma service_run_adds:
  "adds_events (sc_client s) (setHeadersWithOptions opts req) (v_history g) (snd (service_run E s req op opts g))"
  by (simp add: service_run_def Let_def service_doRequest_adds service_sendFallbackAlert_def run_hystrix_adds
      fallback_alert_events)

lemma remote_do_events:
  obtains es where "list_all (request_event (r_client s) (remote_setHeaders s (fst (remote_traced E s req)))) es"
    "snd (remote_do E s req op g) = record_event es g"
proof -
  obtain req' sp b st n err tr where
    r: "remote_traced E s req = (req', sp)" "remote_run E s req' op g = ((b, st, n, err), tr)"
    by (metis surj_pair)
  have "adds_events (r_client s) (remote_setHeaders s req') (v_history g) (tr @ record_end sp b err st n)"
    using remote_run_adds[of s req' g E op] r by (simp add: adds_events_append record_end_events)
  then show ?thesis
    using that r by (auto simp: adds_events_def remote_do_def record_event_def)
qed

lemma doWithOptions_events:
  obtains es where "list_all (request_event (sc_client s) (setHeadersWithOptions opts (fst (service_traced E s opts req)))) es"
    "snd (doWithOptions E s req op opts g) = record_event es g"
proof -
  obtain req' sp b st n err tr where
    r: "service_traced E s opts req = (req', sp)" "service_run E s req' op opts g = ((b, st, n, err), tr)"
    by (metis surj_pair)
  have "adds_events (sc_client s) (setHeadersWithOptions opts req') (v_history g) (tr @ record_end sp b err st n)"
    using service_run_adds[of s opts req' g E op] r by (simp add: adds_events_append record_end_events)
  then show ?thesis
    using that r by (auto simp: adds_events_def doWithOptions_def record_event_def)
qed

text \<open>What the span changes of a request leaves every header that the propagator does not write.\<close>

lemma service_traced_header:
  "(\<And>ctx h. propagator_Inject E ctx h k = h k) \<Longrightarrow> req_Header (fst (service_traced E s opts req)) k = req_Header req k"
  by (simp add: service_traced_def injectTraceContext_def split: prod.split)

section \<open>What the breaker returns\<close>

text \<open>A command that is given up and whose results land before the breaker's own error is assigned, but after it returned.\<close>

definition given_up_between :: "env \<Rightarrow> history \<Rightarrow> bytes \<Rightarrow> bool" where
  "given_up_between E tr cmd = (case hystrix_Do E tr cmd of TimedOut e Between \<Rightarrow> True | _ \<Rightarrow> False)"

lemma fallback_error_type:
  assumes "\<And>f r. str_contains (fallback_failed E f r) f"
  shows "GetErrorType (Some (fallback_error E e)) = ''circuit_breaker''"
  using assms by (simp add: GetErrorType_def IsCircuitBreakerError_def fallback_error_def)

text \<open>
  An error that comes out of the breaker is its own, made of that of the fallback, unless the results of a
  command that was given up land in between: then it is the run's.
\<close>

lemma run_hystrix_type:
  assumes "\<And>f r. str_contains (fallback_failed E f r) f" and "run_hystrix E cmd run alert tr = ((b, st, n, Some err), tr')"
  shows "if given_up_between E tr cmd then snd (snd (snd (fst (run tr)))) = Some err
    else GetErrorType (Some err) = ''circuit_breaker''"
  using assms(2) fallback_error_type[OF assms(1)]
  by (auto simp: run_hystrix_def given_up_between_def split: verdict.splits prod.splits option.splits landing.splits)

lemma remote_breaker_error:
  assumes "\<And>f r. str_contains (fallback_failed E f r) f" and "remote_shouldUseHystrix s g"
    and "snd (fst (remote_do E s req op g)) = Some err"
  shows "if given_up_between E (v_history g) (if r_commandName s = [] then op else r_commandName s)
    then snd (snd (snd (fst (remote_doRequest E s (r_client s) (remote_setHeaders s (fst (remote_traced E s req))) (v_history g)))))
      = Some err
    else GetErrorType (Some err) = ''circuit_breaker''"
proof -
  obtain req' sp where r: "remote_traced E s req = (req', sp)" by fastforce
  obtain b st n x tr where x: "remote_run E s req' op g = ((b, st, n, x), tr)" by (metis surj_pair)
  then have "x = Some err" using assms(3) r by (simp add: remote_do_def)
  then have "run_hystrix E (if r_commandName s = [] then op else r_commandName s)
      (remote_doRequest E s (r_client s) (remote_setHeaders s req')) (remote_sendFallbackAlert s g) (v_history g)
      = ((b, st, n, Some err), tr)"
    using x assms(2) by (simp add: remote_run_def Let_def)
  from run_hystrix_type[OF assms(1) this] show ?thesis unfolding r fst_conv .
qed

lemma service_breaker_error:
  assumes "\<And>f r. str_contains (fallback_failed E f r) f" and "service_shouldUseHystrix s g"
    and "snd (fst (doWithOptions E s req op opts g)) = Some err"
  shows "if given_up_between E (v_history g) (if sc_commandName s = [] then op else sc_commandName s)
    then snd (snd (snd (fst (service_doRequest E s (sc_client s)
      (setHeadersWithOptions opts (fst (service_traced E s opts req))) (v_history g))))) = Some err
    else GetErrorType (Some err) = ''circuit_breaker''"
proof -
  obtain req' sp where r: "service_traced E s opts req = (req', sp)" by fastforce
  obtain b st n x tr where x: "service_run E s req' op opts g = ((b, st, n, x), tr)" by (metis surj_pair)
  then have "x = Some err" using assms(3) r by (simp add: doWithOptions_def)
  then have "run_hystrix E (if sc_commandName s = [] then op else sc_commandName s)
      (service_doRequest E s (sc_client s) (setHeadersWithOptions opts req'))
      (service_sendFallbackAlert s (setHeadersWithOptions opts req') g) (v_history g) = ((b, st, n, Some err), tr)"
    using x assms(2) by (simp add: service_run_def Let_def)
  from run_hystrix_type[OF assms(1) this] show ?thesis unfolding r fst_conv .
qed

section \<open>The operations of the client of a service\<close>

text \<open>Each makes a request of an empty header with the options it is given, or none.\<close>

definition one_call :: "env \<Rightarrow> serviceClientImpl \<Rightarrow> RequestOptions \<Rightarrow> soehttp \<Rightarrow> soehttp \<Rightarrow> bool" where
  "one_call E s opts g g' \<longleftrightarrow>
     g' = g \<or> (\<exists>req op. req_Header req = (\<lambda>_. None) \<and> g' = snd (doWithOptions E s req op opts g))"

lemma one_call_request:
  "one_call E s opts g (snd (case NewRequestWithContext E ctx meth url body of
     Inl err \<Rightarrow> ((None, Some err), g) | Inr req \<Rightarrow> doWithOptions E s req op opts g))"
proof (cases "request_error E ctx meth url")
  case None
  then show ?thesis
    unfolding one_call_def NewRequestWithContext_def by (intro disjI2 exI conjI) simp_all
qed (simp add: one_call_def NewRequestWithContext_def)

lemma calls_once:
  "one_call E s opts g (snd (PostWithOptions E s path body opts g))"
  "one_call E s opts g (snd (PutWithOptions E s path body opts g))"
  "one_call E s opts g (snd (GetWithOptions E s path body opts g))"
  "one_call E s opts g (snd (DeleteWithOptions E s path body opts g))"
  "one_call E s opts g (snd (PostEntityWithOptions E marshal unmarshal s path v r opts g))"
  "one_call E s opts g (snd (PutEntityWithOptions E marshal unmarshal s path v r opts g))"
  "one_call E s opts g (snd (GetEntityWithOptions E unmarshal s path r opts g))"
  "one_call E s opts g (snd (DeleteEntityWithOptions E unmarshal s path r opts g))"
proof -
  show calls: "one_call E s opts g (snd (PostWithOptions E s path body opts g))"
    "one_call E s opts g (snd (PutWithOptions E s path body opts g))"
    "one_call E s opts g (snd (GetWithOptions E s path body opts g))"
    "one_call E s opts g (snd (DeleteWithOptions E s path body opts g))" for body
    unfolding PostWithOptions_def PutWithOptions_def GetWithOptions_def DeleteWithOptions_def by (rule one_call_request)+
  have same: "one_call E s opts g g" by (simp add: one_call_def)
  show "one_call E s opts g (snd (PostEntityWithOptions E marshal unmarshal s path v r opts g))"
    "one_call E s opts g (snd (PutEntityWithOptions E marshal unmarshal s path v r opts g))"
    "one_call E s opts g (snd (GetEntityWithOptions E unmarshal s path r opts g))"
    "one_call E s opts g (snd (DeleteEntityWithOptions E unmarshal s path r opts g))"
    using calls same
    by (simp_all add: PostEntityWithOptions_def PutEntityWithOptions_def GetEntityWithOptions_def DeleteEntityWithOptions_def
        case_prod_beta split: sum.split)
qed

lemmas plain_calls_once =
  calls_once[where opts = no_options, folded service_Post_def service_Put_def service_Get_def service_Delete_def
    service_PostEntity_def service_PutEntity_def service_GetEntity_def service_DeleteEntity_def]

section \<open>Programs\<close>

text \<open>
  An operation of a program. \<open>Post\<close>, \<open>Get\<close>, the operations on entities and the others make a request or fail, and
  come down to one \<open>do\<close>; those that only read the variables leave them as they are.
\<close>

datatype http_op =
    DoInitConfig SoeHTTPConfig
  | DoNewRemote RemoteOption
  | DoNewServiceClient ServiceClientOption
  | DoRegister bytes ServiceClientOption
  | DoGetClient bytes
  | DoRemote remoteServiceImpl http_request bytes
  | DoService serviceClientImpl http_request bytes RequestOptions
  | DoResetCommands
  | DoResetConfig

fun http_step :: "env \<Rightarrow> http_op \<Rightarrow> soehttp \<Rightarrow> soehttp" where
  "http_step E (DoInitConfig c) g = InitConfig c g"
| "http_step E (DoNewRemote opt) g = snd (NewRemote E opt g)"
| "http_step E (DoNewServiceClient opt) g = snd (NewServiceClient opt g)"
| "http_step E (DoRegister name opt) g = RegisterService name opt g"
| "http_step E (DoGetClient name) g = snd (GetServiceClient name g)"
| "http_step E (DoRemote s req op) g = snd (remote_do E s req op g)"
| "http_step E (DoService s req op opts) g = snd (doWithOptions E s req op opts g)"
| "http_step E DoResetCommands g = ResetHystrixCommands g"
| "http_step E DoResetConfig g = ResetConfigForTest g"

definition http_run :: "env \<Rightarrow> http_op list \<Rightarrow> soehttp \<Rightarrow> soehttp" where
  "http_run E ops g = fold (http_step E) ops g"

lemma http_run_snoc [simp]: "http_run E (ops @ [op]) g = http_step E op (http_run E ops g)"
  by (simp add: http_run_def)

lemma http_run_Nil [simp]: "http_run E [] g = g"
  by (simp add: http_run_def)

section \<open>The commands of the breaker\<close>

text \<open>The settings the breaker has been given for a command since its last flush, the latest first.\<close>

definition commands_of :: "bytes \<Rightarrow> history \<Rightarrow> HystrixConfig list" where
  "commands_of name tr =
     concat (map (\<lambda>e. case e of Configured n c \<Rightarrow> if n = name then [c] else [] | _ \<Rightarrow> [])
       (takeWhile (\<lambda>e. e \<noteq> Flushed) (rev tr)))"

lemma commands_of_Nil [simp]: "commands_of name [] = []"
  by (simp add: commands_of_def)

lemma commands_of_snoc [simp]:
  "commands_of name (tr @ [e]) =
     (case e of Flushed \<Rightarrow> [] | Configured n c \<Rightarrow> (if n = name then [c] else []) @ commands_of name tr
      | _ \<Rightarrow> commands_of name tr)"
  by (simp add: commands_of_def split: http_event.split)

fun concerns :: "bytes \<Rightarrow> http_event \<Rightarrow> bool" where
  "concerns name (Configured n c) = (n = name)"
| "concerns name Flushed = True"
| "concerns name _ = False"

lemma request_event_concerns: "request_event client req e \<Longrightarrow> \<not> concerns name e"
  by (cases e) simp_all

lemma commands_of_others:
  "list_all (\<lambda>e. \<not> concerns name e) es \<Longrightarrow> commands_of name (tr @ es) = commands_of name tr"
proof (induction es rule: rev_induct)
  case (snoc e es)
  then have e: "\<not> concerns name e" "commands_of name (tr @ es) = commands_of name tr" by simp_all
  have "commands_of name (tr @ es @ [e]) = commands_of name ((tr @ es) @ [e])" by simp
  also have "\<dots> = commands_of name (tr @ es)"
    unfolding commands_of_snoc using e(1) by (cases e) simp_all
  finally show ?case using e(2) by simp
qed simp

text \<open>
  The invariant: the breaker has been given a command at most once since its last flush, and the package knows
  whether it has. The three commands of \<open>InitConfig\<close> are set without a look at it.
\<close>

definition command_once :: "bytes \<Rightarrow> 'c http_vars \<Rightarrow> bool" where
  "command_once name g \<longleftrightarrow>
     length (commands_of name (v_history g)) \<le> 1 \<and>
     (v_configuredCmds g name \<longleftrightarrow> commands_of name (v_history g) \<noteq> [])"

definition global_commands :: "bytes set" where
  "global_commands = {bytes_of ''RemotePost'', bytes_of ''RemoteGET'', bytes_of ''RemoteDELETE''}"

lemma command_once_configure: "command_once name g \<Longrightarrow> command_once name (configureHystrixCommand n c g)"
  by (auto simp: command_once_def configureHystrixCommand_def record_event_def)

lemma command_once_others:
  "list_all (\<lambda>e. \<not> concerns name e) es \<Longrightarrow> command_once name g \<Longrightarrow> command_once name (record_event es g)"
  by (simp add: command_once_def record_event_def commands_of_others)

lemma command_once_request:
  "list_all (request_event client req) es \<Longrightarrow> command_once name g \<Longrightarrow> command_once name (record_event es g)"
  by (rule command_once_others) (auto simp: list_all_iff request_event_concerns)

lemma command_once_same:
  "command_once name g \<Longrightarrow> v_history g' = v_history g \<Longrightarrow> v_configuredCmds g' = v_configuredCmds g
     \<Longrightarrow> command_once name g'"
  by (simp add: command_once_def)

lemma getServiceClientPool_keeps:
  "v_history (snd (getServiceClientPool g)) = v_history g"
  "v_configuredCmds (snd (getServiceClientPool g)) = v_configuredCmds g"
  by (simp_all add: getServiceClientPool_def split: option.split)

lemma command_once_new_remote: "command_once name g \<Longrightarrow> command_once name (snd (NewRemote E opt g))"
  by (simp add: NewRemote_def Let_def command_once_configure)

lemma command_once_new_service: "command_once name g \<Longrightarrow> command_once name (snd (NewServiceClient opt g))"
  by (simp add: NewServiceClient_def Let_def command_once_configure)

lemma command_once_pool: "command_once name g \<Longrightarrow> command_once name (snd (getServiceClientPool g))"
  by (simp add: command_once_def getServiceClientPool_keeps)

lemma command_once_clients [simp]: "command_once name (g\<lparr>v_clients := m\<rparr>) = command_once name g"
  by (simp add: command_once_def)

lemma command_once_register: "command_once name g \<Longrightarrow> command_once name (RegisterService n opt g)"
  by (simp add: RegisterService_def Let_def case_prod_beta command_once_pool command_once_new_service)

lemma command_once_get_client: "command_once name g \<Longrightarrow> command_once name (snd (GetServiceClient n g))"
  by (simp add: GetServiceClient_def Let_def case_prod_beta command_once_pool)

lemma command_once_init:
  assumes "name \<notin> global_commands" "command_once name g"
  shows "command_once name (InitConfig c g)"
proof -
  have "command_once name (g\<lparr>v_alarm := Alarm c, v_enableHystrix := EnableHystrix c\<rparr>)"
    using assms(2) by (simp add: command_once_def)
  then show ?thesis
    using assms(1) unfolding InitConfig_def by (intro command_once_others) (auto simp: global_commands_def)
qed

lemma command_once_reset: "command_once name (ResetHystrixCommands g)"
  by (simp add: ResetHystrixCommands_def record_event_def command_once_def)

lemma command_once_step:
  assumes "name \<notin> global_commands" "command_once name g"
  shows "command_once name (http_step E op g)"
proof (cases op)
  case (DoRemote s req n)
  then show ?thesis using remote_do_events[of s E req n g] command_once_request[OF _ assms(2)] by (metis http_step.simps(6))
next
  case (DoService s req n opts)
  then show ?thesis
    using doWithOptions_events[of s opts E req n g] command_once_request[OF _ assms(2)] by (metis http_step.simps(7))
qed (simp_all add: assms command_once_init command_once_new_remote command_once_new_service command_once_register
    command_once_get_client command_once_reset ResetConfigForTest_def)

lemma command_once_run: "name \<notin> global_commands \<Longrightarrow> command_once name (http_run E ops initial_vars)"
  by (induction ops rule: rev_induct) (simp_all add: command_once_step, simp add: command_once_def initial_vars_def)

section \<open>The pool\<close>

text \<open>The client made of options does not depend on the variables.\<close>

definition client_of :: "ServiceClientOption \<Rightarrow> serviceClientImpl" where
  "client_of opt = fst (NewServiceClient opt initial_vars)"

lemma NewServiceClient_client: "fst (NewServiceClient opt g) = client_of opt"
  by (simp add: client_of_def NewServiceClient_def Let_def)

lemma NewServiceClient_pool: "v_clients (snd (NewServiceClient opt g)) = v_clients g"
  by (simp add: NewServiceClient_def Let_def configureHystrixCommand_def record_event_def)

definition pool_of :: "soehttp \<Rightarrow> bytes \<Rightarrow> serviceClientImpl option" where
  "pool_of g = (case v_clients g of None \<Rightarrow> Map.empty | Some m \<Rightarrow> m)"

lemma getServiceClientPool_pool:
  "fst (getServiceClientPool g) = pool_of g" "pool_of (snd (getServiceClientPool g)) = pool_of g"
  by (simp_all add: getServiceClientPool_def pool_of_def split: option.split)

lemma pool_of_register:
  "pool_of (RegisterService name opt g) = (pool_of g)(name \<mapsto> client_of (opt\<lparr>so_ServiceName := name\<rparr>))"
proof -
  have "pool_of (snd (NewServiceClient o' g)) = pool_of g" for o'
    by (simp add: pool_of_def NewServiceClient_pool)
  then show ?thesis
    by (simp add: RegisterService_def Let_def case_prod_beta getServiceClientPool_pool NewServiceClient_client)
      (simp add: pool_of_def)
qed

fun last_options :: "bytes \<Rightarrow> http_op list \<Rightarrow> ServiceClientOption option" where
  "last_options name [] = None"
| "last_options name (op # ops) =
     (case last_options name ops of
        Some opt \<Rightarrow> Some opt
      | None \<Rightarrow> (case op of DoRegister n opt \<Rightarrow> if n = name then Some (opt\<lparr>so_ServiceName := name\<rparr>) else None | _ \<Rightarrow> None))"

lemma registered_snoc:
  "last_options name (ops @ [op]) =
     (case op of DoRegister n opt \<Rightarrow> if n = name then Some (opt\<lparr>so_ServiceName := name\<rparr>) else last_options name ops
      | _ \<Rightarrow> last_options name ops)"
  by (induction ops) (auto split: option.split http_op.split)

lemma pool_of_step:
  "pool_of (http_step E op g) = (case op of DoRegister n opt \<Rightarrow> pool_of (RegisterService n opt g) | _ \<Rightarrow> pool_of g)"
proof (cases op)
  case (DoRemote s req n)
  obtain es where "snd (remote_do E s req n g) = record_event es g" by (rule remote_do_events[of s E req n g])
  with DoRemote show ?thesis by (simp add: record_event_def pool_of_def)
next
  case (DoService s req n opts)
  obtain es where "snd (doWithOptions E s req n opts g) = record_event es g"
    by (rule doWithOptions_events[of s opts E req n g])
  with DoService show ?thesis by (simp add: record_event_def pool_of_def)
qed (simp_all add: InitConfig_def record_event_def NewRemote_def Let_def configureHystrixCommand_def NewServiceClient_pool
    GetServiceClient_def case_prod_beta getServiceClientPool_pool ResetHystrixCommands_def ResetConfigForTest_def,
    simp_all add: pool_of_def NewServiceClient_pool)

lemma pool_of_run: "pool_of (http_run E ops initial_vars) name = map_option client_of (last_options name ops)"
proof (induction ops rule: rev_induct)
  case Nil
  show ?case by (simp add: pool_of_def initial_vars_def)
next
  case (snoc op ops)
  then show ?case by (auto simp: pool_of_step registered_snoc pool_of_register split: http_op.split)
qed

lemma pool_last_registered:
  "fst (GetServiceClient name (http_run E ops initial_vars)) =
     (case last_options name ops of
        None \<Rightarrow> Inl (errors_New (not_registered_text @ name))
      | Some opt \<Rightarrow> Inr (client_of opt))"
  by (simp add: GetServiceClient_def Let_def case_prod_beta getServiceClientPool_pool pool_of_run split: option.split)

end
