(* ===== verification/Props_Http.thy ===== *)
theory Props_Http imports Http_Program begin

text \<open>
  The properties of the package \<open>soehttp\<close>: retries, the agreement of the two kinds of client, headers, the circuit
  breaker and its commands, and the pool of services.
\<close>

section \<open>Retries\<close>

text \<open>
  C17: a client of one URL makes at most \<open>MaxRetries + 1\<close> attempts. It waits as \<open>calculateRetryWait\<close> says before each
  but the first, goes on only after a reply that may be tried again, stops at the first other one or when no
  attempt is left, and returns what that last reply says: body, status, number of retries and error.
\<close>

theorem remote_retries:
  assumes "0 \<le> max_retries (r_retryConfig s)"
  shows "\<exists>rs. rs \<noteq> [] \<and> int (length rs) \<le> max_retries (r_retryConfig s) + 1 \<and>
    rs = attempts E client (isRetryableStatus (r_retryConfig s)) (calculateRetryWait (r_retryConfig s)) 0
           (nat (max_retries (r_retryConfig s) + 1)) req tr \<and>
    (\<forall>x \<in> set (butlast rs). inconclusive (isRetryableStatus (r_retryConfig s)) (snd x)) \<and>
    (inconclusive (isRetryableStatus (r_retryConfig s)) (snd (last rs)) \<longrightarrow>
       int (length rs) = max_retries (r_retryConfig s) + 1) \<and>
    remote_doRequest E s client req tr =
      ((case remote_finish E (max_retries (r_retryConfig s)) (snd (last rs)) of
          (body, st, e) \<Rightarrow> (body, st, int (length rs) - 1, e)),
       tr @ attempt_history client (calculateRetryWait (r_retryConfig s)) 0 req rs)"
proof -
  define rs where "rs = attempts E client (isRetryableStatus (r_retryConfig s))
    (calculateRetryWait (r_retryConfig s)) 0 (nat (max_retries (r_retryConfig s) + 1)) req tr"
  have "length rs \<le> nat (max_retries (r_retryConfig s) + 1)" by (simp add: rs_def attempts_length)
  moreover have "rs \<noteq> []" using assms by (simp add: rs_def attempts_Nil_iff)
  moreover have "\<forall>x \<in> set (butlast rs). inconclusive (isRetryableStatus (r_retryConfig s)) (snd x)"
    unfolding rs_def by (rule attempts_butlast)
  moreover have "inconclusive (isRetryableStatus (r_retryConfig s)) (snd (last rs))
      \<Longrightarrow> \<not> length rs < nat (max_retries (r_retryConfig s) + 1)"
    unfolding rs_def using attempts_last by blast
  ultimately show ?thesis
    using remote_doRequest_attempts[OF assms, of E client req tr] assms
    by (intro exI[of _ rs]) (auto simp: rs_def[symmetric] Let_def)
qed

text \<open>
  An environment for the witnesses: the server answers 503 to the first request, having read the body, and 200
  with the body \<open>ok\<close> to the others; the breaker runs every command.
\<close>

definition busy_then_ok :: env where
  "busy_then_ok =
     \<lparr>client_Do = (\<lambda>tr c q. (length (req_Body q),
         if list_ex (\<lambda>e. case e of Sent _ _ \<Rightarrow> True | _ \<Rightarrow> False) tr then Reply 200 (Inr (bytes_of ''ok''))
         else Reply 503 (Inr []))),
      request_error = (\<lambda>c m u. None), hystrix_Do = (\<lambda>tr n. Ran),
      fallback_failed = (\<lambda>f r. f @ r), json_Unmarshal = (\<lambda>b. Inr JNull),
      Decode_exception = (\<lambda>d. Inl (errors_New [])), Decode_response = (\<lambda>d. Inl (errors_New [])),
      md5_Sum = (\<lambda>b. b), url_Parse = (\<lambda>u. None), tracer_Start = (\<lambda>t c n a. (c, False)),
      propagator_Inject = (\<lambda>c h. h)\<rparr>"

definition two_retries :: RetryConfig where
  "two_retries = DefaultRetryConfig\<lparr>MaxRetries := 2\<rparr>"

definition a_remote :: remoteServiceImpl where
  "a_remote = (Remote (bytes_of ''http://a'') [])\<lparr>r_retryConfig := Some two_retries, r_enableHystrix := Some True\<rparr>"

definition a_request :: http_request where
  "a_request = \<lparr>req_Method = bytes_of ''POST'', req_URL = bytes_of ''http://a'', req_Context = Background,
     req_Header = Map.empty, req_Body = [1, 2]\<rparr>"

lemma a_remote_retries [simp]: "max_retries (r_retryConfig a_remote) = 2"
  by (simp add: a_remote_def two_retries_def max_retries_def)

theorem remote_retries_witness:
  "\<exists>rs. rs \<noteq> [] \<and> int (length rs) \<le> 3 \<and> snd (remote_doRequest busy_then_ok a_remote (CustomClient 0) a_request [])
     = attempt_history (CustomClient 0) (calculateRetryWait (r_retryConfig a_remote)) 0 a_request rs"
  using remote_retries[of a_remote busy_then_ok "CustomClient 0" a_request "[]"] by auto

text \<open>
  C18: the client of a service, with the same configuration of retries, sends the same requests after the same
  waits, returns the same body, status and number of retries, and fails exactly when the client of a URL does,
  with the same error or the one that error wraps.
\<close>

theorem service_like_remote:
  assumes "sc_retryConfig c = r_retryConfig s" "0 \<le> max_retries (r_retryConfig s)"
  shows "case (service_doRequest E c client req tr, remote_doRequest E s client req tr) of
    (((body, st, n, e), tr'), ((body', st', n', e'), tr'')) \<Rightarrow>
      body = body' \<and> st = st' \<and> n = n' \<and> tr' = tr'' \<and>
      (case (e, e') of
         (None, None) \<Rightarrow> True
       | (Some x, Some y) \<Rightarrow> x = y \<or> err_wrapped y = Some x
       | _ \<Rightarrow> False)"
proof -
  have finish: "case (service_finish E r, remote_finish E m r) of
      ((b, st, e), (b', st', e')) \<Rightarrow> b = b' \<and> st = st' \<and>
        (case (e, e') of (None, None) \<Rightarrow> True | (Some x, Some y) \<Rightarrow> x = y \<or> err_wrapped y = Some x | _ \<Rightarrow> False)" for r m
    by (cases "(E, r)" rule: service_finish.cases) (auto simp: Errorf_w_def)
  define r where "r = snd (last (attempts E client (isRetryableStatus (r_retryConfig s))
    (calculateRetryWait (r_retryConfig s)) 0 (nat (max_retries (r_retryConfig s) + 1)) req tr))"
  obtain b st e b' st' e' where f: "service_finish E r = (b, st, e)"
    "remote_finish E (max_retries (r_retryConfig s)) r = (b', st', e')"
    by (metis surj_pair)
  then show ?thesis
    using finish[of r "max_retries (r_retryConfig s)"] assms
    by (simp add: service_doRequest_attempts remote_doRequest_attempts Let_def flip: r_def)
qed

definition a_service :: serviceClientImpl where
  "a_service =
     \<lparr>sc_serviceName = bytes_of ''a'', sc_baseURL = bytes_of ''http://a'', sc_context = Background,
      sc_client = CustomClient 0, sc_retryConfig = Some two_retries, sc_enableHystrix = Some False,
      sc_commandName = [], sc_enableTracing = False, sc_tracer = None\<rparr>"

lemma a_service_retries [simp]: "sc_retryConfig a_service = r_retryConfig a_remote"
  by (simp add: a_service_def a_remote_def)

theorem service_like_remote_witness:
  "snd (service_doRequest busy_then_ok a_service (CustomClient 0) a_request [])
     = snd (remote_doRequest busy_then_ok a_remote (CustomClient 0) a_request [])"
  using service_like_remote[of a_service a_remote busy_then_ok "CustomClient 0" a_request "[]"]
  by (simp add: case_prod_beta)

text \<open>
  C22: a retry sends the same request, whose body has been read: when the first attempt has read it, every later
  attempt has nothing left to send. \<open>GetBody\<close>, which \<open>Post\<close> sets for retries, is not called by the loop.
\<close>

theorem retries_send_no_body:
  assumes "0 \<le> max_retries (r_retryConfig s)"
    and "length (req_Body req) \<le> fst (client_Do E tr client req)"
  shows "\<exists>rest. snd (remote_doRequest E s client req tr) = tr @ Sent client req # rest \<and>
    (\<forall>c q. Sent c q \<in> set rest \<longrightarrow> req_Body q = [])"
proof -
  define m where "m = nat (max_retries (r_retryConfig s))"
  have m: "nat (max_retries (r_retryConfig s) + 1) = Suc m" using assms(1) by (simp add: m_def nat_add_distrib)
  obtain k r where d: "client_Do E tr client req = (k, r)" by fastforce
  define rs where "rs = attempts E client (isRetryableStatus (r_retryConfig s))
    (calculateRetryWait (r_retryConfig s)) 0 (Suc m) req tr"
  obtain rs' where rs': "rs = (k, r) # rs'" using d by (simp add: rs_def pause_def)
  have "req_Body (read_body k req) = []" using assms(2) d by (simp add: read_body_def)
  moreover have "snd (remote_doRequest E s client req tr)
      = tr @ attempt_history client (calculateRetryWait (r_retryConfig s)) 0 req rs"
    using remote_doRequest_attempts[OF assms(1), of E client req tr] by (simp add: m rs_def Let_def)
  ultimately show ?thesis
    using history_body_gone by (auto simp: rs' pause_def)
qed

theorem retries_send_no_body_witness:
  "\<exists>rest. snd (remote_doRequest busy_then_ok a_remote (CustomClient 0) a_request [])
      = Sent (CustomClient 0) a_request # rest \<and> (\<forall>c q. Sent c q \<in> set rest \<longrightarrow> req_Body q = [])"
  using retries_send_no_body[of a_remote a_request busy_then_ok "[]" "CustomClient 0"] by (simp add: busy_then_ok_def)

section \<open>Headers\<close>

text \<open>
  C23: the clients of a service share a connection pool and no credentials: every request of a call, by whichever of
  the operations, carries the token, the tenant and the shop of that call's own options, and none of them where the
  options have none, which is so for the operations without options; all go to the client's own connections. This
  supposes that the propagator writes no header of these names.
\<close>

theorem credentials_of_call:
  assumes "\<And>ctx h k. k \<in> {bytes_of ''Authorization'', bytes_of ''Tenantid'', bytes_of ''Shopcode''}
      \<Longrightarrow> propagator_Inject E ctx h k = h k"
    and "g' \<in> {snd (PostWithOptions E s path body opts g), snd (PutWithOptions E s path body opts g),
        snd (GetWithOptions E s path body opts g), snd (DeleteWithOptions E s path body opts g),
        snd (PostEntityWithOptions E marshal unmarshal s path v r opts g),
        snd (PutEntityWithOptions E marshal unmarshal s path v r opts g),
        snd (GetEntityWithOptions E unmarshal s path r opts g), snd (DeleteEntityWithOptions E unmarshal s path r opts g)} \<or>
      opts = no_options \<and>
      g' \<in> {snd (service_Post E s path body g), snd (service_Put E s path body g), snd (service_Get E s path body g),
        snd (service_Delete E s path body g), snd (service_PostEntity E marshal unmarshal s path v r g),
        snd (service_PutEntity E marshal unmarshal s path v r g), snd (service_GetEntity E unmarshal s path r g),
        snd (service_DeleteEntity E unmarshal s path r g)}"
    and "Sent cl q \<in> set (drop (length (v_history g)) (v_history g'))"
  shows "req_Header q (bytes_of ''Authorization'') = (if ro_Token opts = [] then None else Some [ro_Token opts])
    \<and> req_Header q (bytes_of ''Tenantid'') = (if ro_TenantID opts = [] then None else Some [ro_TenantID opts])
    \<and> req_Header q (bytes_of ''Shopcode'') = (if ro_ShopCode opts = [] then None else Some [ro_ShopCode opts])
    \<and> cl = sc_client s"
proof -
  have "one_call E s opts g g'" using assms(2) by (auto intro: calls_once plain_calls_once)
  then obtain req op where req: "req_Header req = (\<lambda>_. None)" "g' = snd (doWithOptions E s req op opts g)"
    using assms(3) by (auto simp: one_call_def)
  obtain es where es: "list_all (request_event (sc_client s) (setHeadersWithOptions opts (fst (service_traced E s opts req)))) es"
    "snd (doWithOptions E s req op opts g) = record_event es g"
    by (rule doWithOptions_events)
  then have "Sent cl q \<in> set es" using assms(3) req(2) by (simp add: record_event_def)
  then obtain k where q: "cl = sc_client s" "q = read_body k (setHeadersWithOptions opts (fst (service_traced E s opts req)))"
    using es(1) by (force simp: list_all_iff)
  show ?thesis
    using assms(1) req(1) by (simp add: q read_body_def header_of_options service_traced_header)
qed

definition some_options :: RequestOptions where
  "some_options = \<lparr>ro_TenantID = bytes_of ''t'', ro_ShopCode = [], ro_Token = bytes_of ''k''\<rparr>"

lemma doWithOptions_sends:
  "\<exists>q. Sent (CustomClient 0) q \<in> set (v_history (snd (doWithOptions busy_then_ok a_service req op opts initial_vars)))"
proof -
  have "v_history (snd (doWithOptions busy_then_ok a_service req op opts initial_vars))
      = snd (service_doRequest busy_then_ok a_service (CustomClient 0) (setHeadersWithOptions opts req) [])"
    by (simp add: doWithOptions_def service_traced_def service_run_def service_shouldUseHystrix_def record_end_def
        a_service_def initial_vars_def case_prod_beta Let_def)
  moreover obtain rest where
    "snd (service_doRequest busy_then_ok a_service (CustomClient 0) (setHeadersWithOptions opts req) [])
       = [] @ Sent (CustomClient 0) (setHeadersWithOptions opts req) # rest"
    using service_doRequest_first[of a_service] by fastforce
  ultimately show ?thesis by auto
qed

text \<open>A call with options, and the same client's next call without.\<close>

theorem credentials_of_call_witness:
  "\<exists>q q'. Sent (CustomClient 0) q
         \<in> set (v_history (snd (PutWithOptions busy_then_ok a_service [] [1, 2] some_options initial_vars))) \<and>
     req_Header q (bytes_of ''Tenantid'') = Some [bytes_of ''t''] \<and> req_Header q (bytes_of ''Shopcode'') = None \<and>
     Sent (CustomClient 0) q' \<in> set (v_history (snd (service_Get busy_then_ok a_service [] [] initial_vars))) \<and>
     req_Header q' (bytes_of ''Authorization'') = None"
proof -
  have "\<exists>req op. snd (PutWithOptions busy_then_ok a_service [] [1, 2] some_options initial_vars)
      = snd (doWithOptions busy_then_ok a_service req op some_options initial_vars)"
    "\<exists>req op. snd (service_Get busy_then_ok a_service [] [] initial_vars)
      = snd (doWithOptions busy_then_ok a_service req op no_options initial_vars)"
    by (auto simp: PutWithOptions_def service_Get_def GetWithOptions_def NewRequestWithContext_def busy_then_ok_def)
  then obtain q q' where q: "Sent (CustomClient 0) q
      \<in> set (v_history (snd (PutWithOptions busy_then_ok a_service [] [1, 2] some_options initial_vars)))"
    "Sent (CustomClient 0) q' \<in> set (v_history (snd (service_Get busy_then_ok a_service [] [] initial_vars)))"
    using doWithOptions_sends by metis
  have inj: "propagator_Inject busy_then_ok ctx h k = h k" for ctx h k by (simp add: busy_then_ok_def)
  note call = credentials_of_call[OF inj, where marshal = "\<lambda>_ :: unit. Inr []" and unmarshal = "\<lambda>_ r :: unit. (r, None)" and s = a_service]
  have "req_Header q (bytes_of ''Tenantid'') = Some [bytes_of ''t''] \<and> req_Header q (bytes_of ''Shopcode'') = None"
    using call[where g = initial_vars and opts = some_options, OF disjI1, OF insertI2, OF insertI1, of _ q] q(1)
    by (simp add: initial_vars_def some_options_def bytes_of_def)
  moreover have "req_Header q' (bytes_of ''Authorization'') = None"
    using call[where g = initial_vars and opts = no_options, OF disjI2, OF conjI, OF refl, OF insertI2, OF insertI2, OF insertI1, of _ q'] q(2)
    by (simp add: initial_vars_def)
  ultimately show ?thesis using q by blast
qed

section \<open>The circuit breaker\<close>






text \<open>
  C21: the settings of the first client for a URL or a service hold for the later ones: after any operations, a command
  other than the three that \<open>InitConfig\<close> sets anew each time it is called has been given to the breaker at most
  once since its last flush, and exactly when the package has it noted.
\<close>

theorem breaker_first_settings:
  assumes "name \<notin> global_commands"
  shows "length (commands_of name (v_history (http_run E ops initial_vars))) \<le> 1 \<and>
    (v_configuredCmds (http_run E ops initial_vars) name
      \<longleftrightarrow> commands_of name (v_history (http_run E ops initial_vars)) \<noteq> [])"
  using command_once_run[OF assms, of E ops] by (simp add: command_once_def)

text \<open>A service that is registered with strict settings and again with relaxed ones.\<close>

definition register_with :: "HystrixConfig \<Rightarrow> http_op" where
  "register_with h = DoRegister (bytes_of ''a'')
     \<lparr>so_ServiceName = [], so_BaseURL = bytes_of ''http://a'', so_TimeoutSecond = 0, so_Context = None,
      so_TransportConfig = None, so_RetryConfig = None, so_EnableHystrix = Some True, so_HystrixConfig = Some h,
      so_EnableTracing = False, so_Tracer = None, so_TracerName = []\<rparr>"

lemma strict_then_relaxed:
  "commands_of (bytes_of ''service-a'') (v_history
     (http_run busy_then_ok [register_with StrictHystrixConfig, register_with RelaxedHystrixConfig] initial_vars))
     = [StrictHystrixConfig]"
  by (simp add: http_run_def register_with_def RegisterService_def NewServiceClient_def configureHystrixCommand_def
      record_event_def getServiceClientPool_def initial_vars_def commands_of_def bytes_of_def case_prod_beta Let_def)

theorem breaker_first_settings_witness:
  "v_configuredCmds (http_run busy_then_ok [register_with StrictHystrixConfig, register_with RelaxedHystrixConfig]
     initial_vars) (bytes_of ''service-a'')"
proof -
  have "bytes_of ''service-a'' \<notin> global_commands" by (simp add: global_commands_def bytes_of_def)
  from breaker_first_settings[OF this] show ?thesis using strict_then_relaxed by simp
qed

section \<open>Waits\<close>

text \<open>
  The wait before a retry is the first wait doubled for each retry before it, up to the limit, as long as that
  product fits in 63 bits; it is read as a signed number of nanoseconds.
\<close>

theorem retry_waits:
  assumes "0 \<le> sint (RetryWaitTime c)" "1 \<le> attempt" "attempt \<le> 2 ^ 63"
    and "sint (RetryWaitTime c) * 2 ^ nat (attempt - 1) < 2 ^ 63"
  shows "sint (calculateRetryWait (Some c) attempt)
    = min (sint (RetryWaitTime c) * 2 ^ nat (attempt - 1)) (sint (RetryMaxWait c))"
  using wait_exponential[OF assms] .

theorem retry_waits_witness:
  "sint (calculateRetryWait (Some DefaultRetryConfig) 3) = 4000000000"
  using retry_waits[of DefaultRetryConfig 3] by (simp add: DefaultRetryConfig_def)

end
