(* ===== verification/Task_Pools.thy ===== *)
theory Task_Pools imports Main begin

text \<open>
  \<open>tools/task\<close>, the service of timed tasks on top of the library \<open>clock\<close>, and \<open>tools/pool\<close>, the pool of a channel and
  a \<open>WaitGroup\<close>, with the properties of both.
\<close>

section \<open>Timed tasks\<close>

text \<open>
  A function is a number. The clock gives each job a new number; what it is asked is kept in \<open>tt_clock\<close>. The mutex of
  the service is not reentrant: an operation that meets it locked waits, and so does one that locks it again.
\<close>

datatype job_kind = Repeat | Once

datatype clock_call = Added nat job_kind int nat | Cancelled nat

record TimeTaskDTO =
  dto_name :: string
  dto_timeout :: int
  dto_func :: nat

record TimeTaskService =
  tt_locked :: bool
  tt_cache :: "string \<Rightarrow> nat option"
  tt_clock :: "clock_call list"

definition new_TimeTaskService :: TimeTaskService where
  "new_TimeTaskService = \<lparr>tt_locked = False, tt_cache = Map.empty, tt_clock = []\<rparr>"

datatype 'a called = Returned 'a TimeTaskService | Waits TimeTaskService

definition with_lock :: "(TimeTaskService \<Rightarrow> 'a called) \<Rightarrow> TimeTaskService \<Rightarrow> 'a called" where
  "with_lock body s =
     (if tt_locked s then Waits s
      else case body (s\<lparr>tt_locked := True\<rparr>) of
             Returned x s \<Rightarrow> Returned x (s\<lparr>tt_locked := False\<rparr>)
           | Waits s \<Rightarrow> Waits s)"

definition added_jobs :: "clock_call list \<Rightarrow> nat list" where
  "added_jobs cs = concat (map (\<lambda>c. case c of Added j k d f \<Rightarrow> [j] | Cancelled j \<Rightarrow> []) cs)"

definition clock_Add :: "job_kind \<Rightarrow> int \<Rightarrow> nat \<Rightarrow> TimeTaskService \<Rightarrow> nat \<times> TimeTaskService" where
  "clock_Add k d f s =
     (let j = length (added_jobs (tt_clock s)) in (j, s\<lparr>tt_clock := tt_clock s @ [Added j k d f]\<rparr>))"

definition job_Cancel :: "nat \<Rightarrow> TimeTaskService \<Rightarrow> TimeTaskService" where
  "job_Cancel j s = s\<lparr>tt_clock := tt_clock s @ [Cancelled j]\<rparr>"

definition remove_cached :: "string \<Rightarrow> TimeTaskService \<Rightarrow> TimeTaskService" where
  "remove_cached name s =
     (case tt_cache s name of
        None \<Rightarrow> s
      | Some j \<Rightarrow> job_Cancel j (s\<lparr>tt_cache := (tt_cache s)(name := None)\<rparr>))"

definition RemoveTask :: "string \<Rightarrow> TimeTaskService \<Rightarrow> unit called" where
  "RemoveTask name = with_lock (\<lambda>s. Returned () (remove_cached name s))"

definition add_job :: "job_kind \<Rightarrow> TimeTaskDTO \<Rightarrow> TimeTaskService \<Rightarrow> unit called" where
  "add_job k dto s =
     (case clock_Add k (dto_timeout dto) (dto_func dto) s of
        (j, s) \<Rightarrow> Returned () (s\<lparr>tt_cache := (tt_cache s)(dto_name dto \<mapsto> j)\<rparr>))"

definition task_AddTask :: "TimeTaskDTO \<Rightarrow> TimeTaskService \<Rightarrow> unit called" where
  "task_AddTask dto = with_lock (\<lambda>s.
     (if tt_cache s (dto_name dto) \<noteq> None
      then case RemoveTask (dto_name dto) s of
             Waits s \<Rightarrow> Waits s
           | Returned _ s \<Rightarrow> add_job Repeat dto s
      else add_job Repeat dto s))"

definition AddTaskWithInterval :: "TimeTaskDTO \<Rightarrow> TimeTaskService \<Rightarrow> unit called" where
  "AddTaskWithInterval dto = with_lock (\<lambda>s. add_job Once dto (remove_cached (dto_name dto) s))"

definition CheckTask :: "string \<Rightarrow> TimeTaskService \<Rightarrow> bool called" where
  "CheckTask name = with_lock (\<lambda>s. Returned (tt_cache s name \<noteq> None) s)"

definition GetTaskNum :: "TimeTaskService \<Rightarrow> nat called" where
  "GetTaskNum = with_lock (\<lambda>s. Returned (card (dom (tt_cache s))) s)"

text \<open>\<open>RemoveAll\<close> goes through the map in the order \<open>names\<close>, which Go leaves open.\<close>

definition RemoveAll :: "string list \<Rightarrow> TimeTaskService \<Rightarrow> unit called" where
  "RemoveAll names = with_lock (\<lambda>s. Returned () (fold remove_cached names s))"

datatype task_op = Add TimeTaskDTO | AddInterval TimeTaskDTO | Check string | Num | Remove string | RemoveEach "string list"

fun task_run :: "task_op \<Rightarrow> TimeTaskService \<Rightarrow> unit called" where
  "task_run (Add dto) s = task_AddTask dto s"
| "task_run (AddInterval dto) s = AddTaskWithInterval dto s"
| "task_run (Check n) s = (case CheckTask n s of Returned _ s \<Rightarrow> Returned () s | Waits s \<Rightarrow> Waits s)"
| "task_run Num s = (case GetTaskNum s of Returned _ s \<Rightarrow> Returned () s | Waits s \<Rightarrow> Waits s)"
| "task_run (Remove n) s = RemoveTask n s"
| "task_run (RemoveEach ns) s = RemoveAll ns s"

text \<open>The service after operations that returned, one after another.\<close>

inductive task_reach :: "TimeTaskService \<Rightarrow> bool" where
  init: "task_reach new_TimeTaskService"
| step: "task_reach s \<Longrightarrow> task_run op s = Returned () s' \<Longrightarrow> task_reach s'"

text \<open>The jobs of the clock that nobody has cancelled.\<close>

definition live_jobs :: "clock_call list \<Rightarrow> nat set" where
  "live_jobs cs = set (added_jobs cs) - {j. Cancelled j \<in> set cs}"

text \<open>
  The invariant: jobs are numbered from 0, only jobs of the clock are cancelled, the live ones are those of the
  cache, and each stands under one name.
\<close>

definition task_inv :: "TimeTaskService \<Rightarrow> bool" where
  "task_inv s \<longleftrightarrow>
     added_jobs (tt_clock s) = [0..<length (added_jobs (tt_clock s))] \<and>
     (\<forall>j. Cancelled j \<in> set (tt_clock s) \<longrightarrow> j < length (added_jobs (tt_clock s))) \<and>
     live_jobs (tt_clock s) = ran (tt_cache s) \<and> inj_on (tt_cache s) (dom (tt_cache s))"

lemma added_jobs_snoc [simp]:
  "added_jobs (cs @ [Added j k d f]) = added_jobs cs @ [j]"
  "added_jobs (cs @ [Cancelled j]) = added_jobs cs"
  by (simp_all add: added_jobs_def)

lemma task_inv_lock [simp]: "task_inv (s\<lparr>tt_locked := b\<rparr>) = task_inv s"
  by (simp add: task_inv_def)

lemma ran_delete: "inj_on m (dom m) \<Longrightarrow> m n = Some j \<Longrightarrow> ran (m(n := None)) = ran m - {j}"
  by (auto simp: ran_def inj_on_def dom_def) (metis option.inject option.distinct(1))

lemma remove_cached_inv: "task_inv s \<Longrightarrow> task_inv (remove_cached n s)"
proof (cases "tt_cache s n")
  case (Some j)
  assume I: "task_inv s"
  then have "j \<in> live_jobs (tt_clock s)" using Some by (auto simp: task_inv_def ran_def)
  then have "j \<in> set (added_jobs (tt_clock s))" by (simp add: live_jobs_def)
  then have j: "j < length (added_jobs (tt_clock s))" using I by (metis task_inv_def atLeastLessThan_iff set_upt)
  have "inj_on ((tt_cache s)(n := None)) (dom ((tt_cache s)(n := None)))"
    using I by (auto simp: task_inv_def inj_on_def)
  moreover have "live_jobs (tt_clock s @ [Cancelled j]) = ran ((tt_cache s)(n := None))"
    using I Some by (subst ran_delete[of _ _ j]) (auto simp: task_inv_def live_jobs_def)
  ultimately show ?thesis
    using I Some j by (auto simp: task_inv_def remove_cached_def job_Cancel_def)
qed (simp add: remove_cached_def)

lemma remove_cached_gone: "tt_cache (remove_cached n s) n = None"
  by (simp add: remove_cached_def job_Cancel_def split: option.split)

lemma add_job_inv:
  assumes "task_inv s" "tt_cache s (dto_name dto) = None" "add_job k dto s = Returned u s'"
  shows "task_inv s'"
proof -
  let ?j = "length (added_jobs (tt_clock s))" and ?c = "tt_clock s @ [Added (length (added_jobs (tt_clock s))) k (dto_timeout dto) (dto_func dto)]"
  have s': "s' = s\<lparr>tt_clock := ?c, tt_cache := (tt_cache s)(dto_name dto \<mapsto> ?j)\<rparr>"
    using assms(3) by (simp add: add_job_def clock_Add_def Let_def)
  have jobs: "set (added_jobs (tt_clock s)) = {0..<?j}" using assms(1) by (metis task_inv_def set_upt)
  have c: "Cancelled i \<in> set (tt_clock s) \<Longrightarrow> i < ?j" for i using assms(1) by (simp add: task_inv_def)
  have "live_jobs ?c = insert ?j (live_jobs (tt_clock s))"
    using c by (force simp: live_jobs_def)
  moreover have "ran ((tt_cache s)(dto_name dto \<mapsto> ?j)) = insert ?j (ran (tt_cache s))"
    using assms(2) by simp
  moreover have "?j \<notin> ran (tt_cache s)"
    using assms(1) jobs by (auto simp: task_inv_def live_jobs_def dest: sym)
  then have "inj_on ((tt_cache s)(dto_name dto \<mapsto> ?j)) (dom ((tt_cache s)(dto_name dto \<mapsto> ?j)))"
    using assms(1) by (auto simp: task_inv_def inj_on_def ran_def dom_def)
  ultimately show ?thesis
    using assms(1) c by (auto simp: s' task_inv_def less_Suc_eq)
qed

lemma fold_remove_inv: "task_inv s \<Longrightarrow> task_inv (fold remove_cached ns s)"
  by (induction ns arbitrary: s) (simp_all add: remove_cached_inv)

lemma with_lock_Returned:
  assumes "with_lock body s = Returned x s'"
  obtains s1 where "\<not> tt_locked s" "body (s\<lparr>tt_locked := True\<rparr>) = Returned x s1" "s' = s1\<lparr>tt_locked := False\<rparr>"
  using assms by (auto simp: with_lock_def split: if_splits called.splits)

lemma with_lock_Waits: "tt_locked s \<Longrightarrow> with_lock body s = Waits s"
  by (simp add: with_lock_def)

lemma task_run_inv:
  assumes "task_inv s" "task_run op s = Returned () s'"
  shows "task_inv s' \<and> \<not> tt_locked s'"
proof (cases op)
  case (Add dto)
  with assms(2) have "with_lock (\<lambda>s. if tt_cache s (dto_name dto) \<noteq> None
      then case RemoveTask (dto_name dto) s of Waits s \<Rightarrow> Waits s | Returned _ s \<Rightarrow> add_job Repeat dto s
      else add_job Repeat dto s) s = Returned () s'" by (simp add: task_AddTask_def)
  then obtain s1 where s1: "(if tt_cache s (dto_name dto) \<noteq> None
      then case RemoveTask (dto_name dto) (s\<lparr>tt_locked := True\<rparr>) of Waits s \<Rightarrow> Waits s | Returned _ s \<Rightarrow> add_job Repeat dto s
      else add_job Repeat dto (s\<lparr>tt_locked := True\<rparr>)) = Returned () s1" "s' = s1\<lparr>tt_locked := False\<rparr>"
    by (rule with_lock_Returned) simp
  then have "tt_cache s (dto_name dto) = None" "add_job Repeat dto (s\<lparr>tt_locked := True\<rparr>) = Returned () s1"
    by (auto simp: RemoveTask_def with_lock_Waits split: if_splits)
  then have "task_inv s1" using add_job_inv[of "s\<lparr>tt_locked := True\<rparr>"] assms(1) by simp
  then show ?thesis using s1(2) by simp
next
  case (AddInterval dto)
  with assms(2) obtain s1 where
    "add_job Once dto (remove_cached (dto_name dto) (s\<lparr>tt_locked := True\<rparr>)) = Returned () s1" "s' = s1\<lparr>tt_locked := False\<rparr>"
    by (auto simp: AddTaskWithInterval_def elim: with_lock_Returned)
  then show ?thesis using add_job_inv[OF remove_cached_inv remove_cached_gone, of "s\<lparr>tt_locked := True\<rparr>"] assms(1) by simp
qed (use assms in \<open>auto simp: CheckTask_def GetTaskNum_def RemoveTask_def RemoveAll_def remove_cached_inv fold_remove_inv
      elim!: with_lock_Returned split: called.splits\<close>)

lemma task_reach_inv: "task_reach s \<Longrightarrow> task_inv s \<and> \<not> tt_locked s"
proof (induction rule: task_reach.induct)
  case init
  show ?case by (simp add: new_TimeTaskService_def task_inv_def live_jobs_def added_jobs_def)
qed (use task_run_inv in blast)

text \<open>
  After any operations that returned, the jobs of the clock that nobody has cancelled are exactly those the
  service knows, each under one name: no task runs on that cannot be removed.
\<close>

theorem live_jobs_cached:
  assumes "task_reach s"
  shows "live_jobs (tt_clock s) = ran (tt_cache s) \<and> inj_on (tt_cache s) (dom (tt_cache s))"
  using task_reach_inv[OF assms] by (simp add: task_inv_def)

definition a_task :: TimeTaskDTO where
  "a_task = \<lparr>dto_name = ''a'', dto_timeout = 3, dto_func = 0\<rparr>"

lemma one_task: "\<exists>s. task_run (Add a_task) new_TimeTaskService = Returned () s \<and> tt_cache s = [''a'' \<mapsto> 0] \<and> \<not> tt_locked s"
  by (simp add: task_AddTask_def with_lock_def add_job_def clock_Add_def new_TimeTaskService_def a_task_def added_jobs_def)

theorem live_jobs_cached_witness: "\<exists>s :: TimeTaskService. live_jobs (tt_clock s) = {0}"
proof -
  obtain s where s: "task_run (Add a_task) new_TimeTaskService = Returned () s" "tt_cache s = [''a'' \<mapsto> 0]"
    using one_task by blast
  then have "task_reach s" by (blast intro: task_reach.intros)
  with live_jobs_cached[of s] s(2) show ?thesis by auto
qed

text \<open>
  C25: \<open>AddTask\<close> for a name that the service has calls \<open>RemoveTask\<close>, which waits for the mutex that \<open>AddTask\<close>
  holds: it never returns, and no operation on the service returns afterwards.
\<close>

theorem second_AddTask_hangs:
  assumes "task_reach s" "tt_cache s (dto_name dto) \<noteq> None"
  shows "\<exists>s'. task_run (Add dto) s = Waits s' \<and> (\<forall>op. task_run op s' = Waits s')"
proof -
  have "\<not> tt_locked s" using task_reach_inv[OF assms(1)] by simp
  then have "task_run (Add dto) s = Waits (s\<lparr>tt_locked := True\<rparr>)"
    using assms(2) by (auto simp: task_AddTask_def RemoveTask_def with_lock_def)
  moreover have "task_run op (s\<lparr>tt_locked := True\<rparr>) = Waits (s\<lparr>tt_locked := True\<rparr>)" for op
    by (cases op) (simp_all add: task_AddTask_def AddTaskWithInterval_def CheckTask_def GetTaskNum_def RemoveTask_def
        RemoveAll_def with_lock_Waits)
  ultimately show ?thesis by blast
qed

theorem second_AddTask_hangs_witness:
  "\<exists>s s'. task_run (Add a_task) new_TimeTaskService = Returned () s \<and> task_run (Add a_task) s = Waits s'
     \<and> task_run (Check ''b'') s' = Waits s'"
proof -
  obtain s where s: "task_run (Add a_task) new_TimeTaskService = Returned () s" "tt_cache s = [''a'' \<mapsto> 0]"
    using one_task by blast
  then have "task_reach s" by (blast intro: task_reach.intros)
  with second_AddTask_hangs[of s a_task] s show ?thesis by (auto simp: a_task_def simp del: task_run.simps)
qed

section \<open>The simple pool\<close>

text \<open>
  \<open>SimplePool\<close>: the tokens in its channel and the counter of its \<open>WaitGroup\<close>. A goroutine of \<open>Submit\<close> runs its task,
  then calls \<open>Done\<close>, then takes a token out. \<open>Done\<close> on a counter of zero is a panic, which nobody recovers.
  The last three fields are for the properties: how many tasks were submitted, run, and have called \<open>Done\<close>.
\<close>

record SimplePool =
  sp_size :: nat
  sp_tokens :: nat
  sp_wait :: nat
  sp_running :: nat
  sp_ending :: nat
  sp_ended :: nat

definition NewSimplePool :: "int \<Rightarrow> int \<Rightarrow> SimplePool option" where
  "NewSimplePool poolSize wgSize =
     (if poolSize < 0 then None
      else Some \<lparr>sp_size = nat poolSize, sp_tokens = 0, sp_wait = (if 0 < wgSize then nat wgSize else 0),
                 sp_running = 0, sp_ending = 0, sp_ended = 0\<rparr>)"

text \<open>\<open>Submit\<close> goes on when the channel takes its token; a channel of size 0 has no receiver before that.\<close>

definition pool_Submit :: "SimplePool \<Rightarrow> SimplePool option" where
  "pool_Submit p =
     (if sp_tokens p < sp_size p then Some (p\<lparr>sp_tokens := sp_tokens p + 1, sp_running := sp_running p + 1\<rparr>) else None)"

datatype done_result = Panics | Ends SimplePool

definition task_done :: "SimplePool \<Rightarrow> done_result" where
  "task_done p =
     (if sp_wait p = 0 then Panics
      else Ends (p\<lparr>sp_wait := sp_wait p - 1, sp_running := sp_running p - 1, sp_ending := sp_ending p + 1,
                   sp_ended := sp_ended p + 1\<rparr>))"

definition take_token :: "SimplePool \<Rightarrow> SimplePool" where
  "take_token p = p\<lparr>sp_tokens := sp_tokens p - 1, sp_ending := sp_ending p - 1\<rparr>"

definition pool_Wait_returns :: "SimplePool \<Rightarrow> bool" where
  "pool_Wait_returns p \<longleftrightarrow> sp_wait p = 0"

inductive pool_reach :: "int \<Rightarrow> int \<Rightarrow> SimplePool \<Rightarrow> bool" for n w where
  new: "NewSimplePool n w = Some p \<Longrightarrow> pool_reach n w p"
| submitted: "pool_reach n w p \<Longrightarrow> pool_Submit p = Some p' \<Longrightarrow> pool_reach n w p'"
| ended: "pool_reach n w p \<Longrightarrow> 0 < sp_running p \<Longrightarrow> task_done p = Ends p' \<Longrightarrow> pool_reach n w p'"
| token: "pool_reach n w p \<Longrightarrow> 0 < sp_ending p \<Longrightarrow> pool_reach n w (take_token p)"

lemma pool_reach_inv:
  "pool_reach n w p \<Longrightarrow> sp_size p = nat n \<and> sp_tokens p = sp_running p + sp_ending p \<and> sp_tokens p \<le> sp_size p
     \<and> int (sp_wait p + sp_ended p) = max 0 w"
  by (induction rule: pool_reach.induct)
    (auto simp: NewSimplePool_def pool_Submit_def task_done_def take_token_def split: if_splits)

text \<open>
  At most \<open>poolSize\<close> tasks run at a time; \<open>Wait\<close> returns exactly when \<open>wgSize\<close> tasks have ended; and the end of one
  more is a panic, so that a pool made with \<open>wgSize\<close> 0, "not to wait", dies of its first task.
\<close>

theorem simple_pool_counts:
  assumes "pool_reach n w p" "0 \<le> w"
  shows "sp_running p \<le> nat n
    \<and> (pool_Wait_returns p \<longleftrightarrow> int (sp_ended p) = w)
    \<and> (task_done p = Panics \<longleftrightarrow> int (sp_ended p) = w)"
  using pool_reach_inv[OF assms(1)] assms(2) by (auto simp: pool_Wait_returns_def task_done_def)

theorem simple_pool_counts_witness:
  "\<exists>p. sp_running p = 1 \<and> task_done p = Panics \<and> pool_reach 2 0 p"
proof -
  obtain p where p: "NewSimplePool 2 0 = Some p" "sp_tokens p = 0" "sp_size p = 2" "sp_running p = 0" "sp_ended p = 0"
    by (simp add: NewSimplePool_def)
  then have "pool_Submit p = Some (p\<lparr>sp_tokens := 1, sp_running := 1\<rparr>)" by (simp add: pool_Submit_def)
  then have "pool_reach 2 0 (p\<lparr>sp_tokens := 1, sp_running := 1\<rparr>)" using p(1) by (blast intro: pool_reach.intros)
  with simple_pool_counts[OF this] p(5) show ?thesis by (intro exI[of _ "p\<lparr>sp_tokens := 1, sp_running := 1\<rparr>"]) simp
qed

end
