(* ===== verification/Text_Helpers.thy ===== *)
theory Text_Helpers imports Prelude "HOL-Library.Multiset" begin

text \<open>
  Helpers of \<open>common/utils\<close> with logic of their own: the signatures of \<open>sign.go\<close>, cutting and joining strings
  (\<open>string.go\<close>), binary numbers (\<open>util.go\<close>) and the periods of a day (\<open>date.go\<close>), with their properties. Strings are
  bytes. MD5 and \<open>strings.ToLower\<close> are the arguments \<open>md5_hex\<close> and \<open>lower\<close>.
\<close>

section \<open>Comparison of strings\<close>

fun str_le :: "bytes \<Rightarrow> bytes \<Rightarrow> bool" where
  "str_le [] t = True"
| "str_le (a # s) [] = False"
| "str_le (a # s) (b # t) = (a < b \<or> a = b \<and> str_le s t)"

lemma str_le_refl: "str_le s s"
  by (induction s) auto

lemma str_le_trans: "str_le s t \<Longrightarrow> str_le t u \<Longrightarrow> str_le s u"
  by (induction s t arbitrary: u rule: str_le.induct) (case_tac u; force)+

lemma str_le_antisym: "str_le s t \<Longrightarrow> str_le t s \<Longrightarrow> s = t"
proof (induction s t rule: str_le.induct)
  case (1 t)
  then show ?case by (cases t) auto
qed auto

lemma str_le_linear: "str_le s t \<or> str_le t s"
  by (induction s t rule: str_le.induct) auto

text \<open>
  \<open>sort.Slice\<close> by a key, as insertion. Go leaves the order of equal keys open, as it does the order in which a map is
  read: a theorem for every order of the argument covers both.
\<close>

fun insert_by :: "('a \<Rightarrow> bytes) \<Rightarrow> 'a \<Rightarrow> 'a list \<Rightarrow> 'a list" where
  "insert_by key x [] = [x]"
| "insert_by key x (y # ys) = (if str_le (key x) (key y) then x # y # ys else y # insert_by key x ys)"

definition sort_by :: "('a \<Rightarrow> bytes) \<Rightarrow> 'a list \<Rightarrow> 'a list" where
  "sort_by key xs = foldr (insert_by key) xs []"

lemma mset_insert_by [simp]: "mset (insert_by key x ys) = add_mset x (mset ys)"
  by (induction ys) auto

lemma mset_sort_by [simp]: "mset (sort_by key xs) = mset xs"
  by (induction xs) (simp_all add: sort_by_def)

lemma set_insert_by [simp]: "set (insert_by key x ys) = insert x (set ys)"
  by (metis mset_insert_by set_mset_add_mset_insert set_mset_mset)

lemma sorted_insert_by:
  "sorted_wrt (\<lambda>x y. str_le (key x) (key y)) ys \<Longrightarrow> sorted_wrt (\<lambda>x y. str_le (key x) (key y)) (insert_by key x ys)"
proof (induction ys)
  case (Cons y ys)
  show ?case
  proof (cases "str_le (key x) (key y)")
    case True
    then show ?thesis using Cons.prems str_le_trans by auto
  next
    case False
    then have "str_le (key y) (key x)" using str_le_linear by blast
    then show ?thesis using Cons False by simp
  qed
qed simp

lemma sorted_sort_by: "sorted_wrt (\<lambda>x y. str_le (key x) (key y)) (sort_by key xs)"
  by (induction xs) (simp_all add: sort_by_def sorted_insert_by)

lemma sorted_unique:
  assumes "sorted_wrt (\<lambda>x y. str_le (key x) (key y)) xs" "sorted_wrt (\<lambda>x y. str_le (key x) (key y)) ys"
    "mset xs = mset ys" "inj_on key (set xs)"
  shows "xs = ys"
  using assms
proof (induction xs arbitrary: ys)
  case (Cons x xs)
  then obtain y ys' where ys: "ys = y # ys'" by (cases ys) auto
  have "y \<in> set (x # xs)" "x \<in> set ys" using Cons.prems(3) ys by (metis list.set_intros(1) set_mset_mset)+
  then have "str_le (key x) (key y)" "str_le (key y) (key x)"
    using Cons.prems(1,2) ys str_le_refl by auto
  then have "x = y"
    using Cons.prems(4) \<open>y \<in> set (x # xs)\<close> str_le_antisym by (metis inj_onD list.set_intros(1))
  then show ?case using Cons ys by (auto simp: inj_on_def)
qed simp

lemma sort_by_order_free:
  assumes "mset xs = mset ys" "inj_on key (set xs)"
  shows "sort_by key xs = sort_by key ys"
proof (rule sorted_unique[OF sorted_sort_by sorted_sort_by])
  have "set (sort_by key xs) = set xs" by (metis mset_sort_by set_mset_mset)
  then show "inj_on key (set (sort_by key xs))" using assms(2) by simp
qed (simp add: assms(1))

section \<open>Signatures\<close>

text \<open>
  What is signed: a string, a map of strings, a map of strings and numbers, a struct, or something else. A map is
  the list of its entries in the order in which it is read; a struct is that of its fields which \<open>json\<close> decodes as
  strings. \<open>None\<close> is the panic of a value of another type.
\<close>

datatype any_value = VString bytes | VInt bytes | VOther

datatype sign_source =
    SString bytes
  | SMap "(bytes \<times> bytes) list"
  | SMapAny "(bytes \<times> any_value) list"
  | SMapOther
  | SStruct "(bytes \<times> bytes) list"
  | SOther

definition sign_keys :: "(bytes \<Rightarrow> bytes) \<Rightarrow> (bytes \<times> 'v) list \<Rightarrow> (bytes \<times> 'v) list" where
  "sign_keys lower kvs = sort_by (lower \<circ> fst) (filter (\<lambda>(k, v). lower k \<noteq> bytes_of ''sign'') kvs)"

definition add_param :: "bytes \<Rightarrow> bytes \<times> bytes \<Rightarrow> bytes" where
  "add_param buf kv =
     (if snd kv = [] then buf
      else (if buf = [] then [] else buf @ bytes_of ''&'') @ fst kv @ bytes_of ''='' @ snd kv)"

definition orderParam :: "(bytes \<Rightarrow> bytes) \<Rightarrow> (bytes \<times> bytes) list \<Rightarrow> bytes \<Rightarrow> bytes" where
  "orderParam lower kvs bizKey = foldl add_param [] (sign_keys lower kvs) @ bizKey"

fun any_param :: "bytes option \<Rightarrow> bytes \<times> any_value \<Rightarrow> bytes option" where
  "any_param None kv = None"
| "any_param (Some buf) (k, VString v) = Some (add_param buf (k, v))"
| "any_param (Some buf) (k, VInt v) = Some (add_param buf (k, v))"
| "any_param (Some buf) (k, VOther) = None"

definition orderParam_any :: "(bytes \<Rightarrow> bytes) \<Rightarrow> (bytes \<times> any_value) list \<Rightarrow> bytes \<Rightarrow> bytes option" where
  "orderParam_any lower kvs bizKey = map_option (\<lambda>b. b @ bizKey) (foldl any_param (Some []) (sign_keys lower kvs))"

definition struct_params :: "(bytes \<Rightarrow> bytes) \<Rightarrow> (bytes \<times> bytes) list \<Rightarrow> bytes list" where
  "struct_params lower fields =
     sort_by lower (map (\<lambda>(k, v). k @ bytes_of ''='' @ v) (filter (\<lambda>(k, v). v \<noteq> []) fields))"

fun join_params :: "bytes \<Rightarrow> bytes list \<Rightarrow> bytes" where
  "join_params ending [] = []"
| "join_params ending [v] = v @ ending"
| "join_params ending (v # vs) = v @ bytes_of ''&'' @ join_params ending vs"

definition Struct2map :: "(bytes \<Rightarrow> bytes) \<Rightarrow> (bytes \<times> bytes) list \<Rightarrow> bytes \<Rightarrow> bytes" where
  "Struct2map lower fields bizKey = join_params (bytes_of ''&key='' @ bizKey) (struct_params lower fields)"

definition GetXunLianTemp :: "(bytes \<Rightarrow> bytes) \<Rightarrow> (bytes \<times> bytes) list \<Rightarrow> bytes \<Rightarrow> bytes" where
  "GetXunLianTemp lower fields key = join_params key (struct_params lower fields)"

fun Getsign :: "(bytes \<Rightarrow> bytes) \<Rightarrow> (bytes \<Rightarrow> bytes) \<Rightarrow> sign_source \<Rightarrow> bytes \<Rightarrow> bytes option" where
  "Getsign md5_hex lower (SString s) bizkey = Some (md5_hex (s @ bizkey))"
| "Getsign md5_hex lower (SMap kvs) bizkey = Some (md5_hex (orderParam lower kvs bizkey))"
| "Getsign md5_hex lower (SMapAny kvs) bizkey = map_option md5_hex (orderParam_any lower kvs bizkey)"
| "Getsign md5_hex lower SMapOther bizkey = Some (md5_hex [])"
| "Getsign md5_hex lower (SStruct fields) bizkey = Some (md5_hex (Struct2map lower fields bizkey))"
| "Getsign md5_hex lower SOther bizkey = Some []"

definition ValidSign :: "(bytes \<Rightarrow> bytes) \<Rightarrow> (bytes \<Rightarrow> bytes) \<Rightarrow> bytes \<Rightarrow> sign_source \<Rightarrow> bytes \<Rightarrow> bool option" where
  "ValidSign md5_hex lower sign srcdata bizkey =
     (case Getsign md5_hex lower srcdata bizkey of
        None \<Rightarrow> None
      | Some curSign \<Rightarrow> Some (if curSign = [] \<or> sign = [] then False else curSign = sign))"

text \<open>
  The signature of a map does not depend on the order in which Go reads the map, if no two of its keys differ in
  the case of their letters only.
\<close>

theorem signature_order_free:
  assumes "mset kvs = mset kvs'" "inj_on (lower \<circ> fst) (set kvs)"
  shows "Getsign md5_hex lower (SMap kvs) bizkey = Getsign md5_hex lower (SMap kvs') bizkey"
proof -
  have "sign_keys lower kvs = sign_keys lower kvs'"
    unfolding sign_keys_def
    by (rule sort_by_order_free) (use assms in \<open>auto simp: mset_filter inj_on_def\<close>)
  then show ?thesis by (simp add: orderParam_def)
qed

theorem signature_order_free_witness:
  "Getsign id id (SMap [(bytes_of ''b'', [1]), (bytes_of ''a'', [2])]) []
     = Getsign id id (SMap [(bytes_of ''a'', [2]), (bytes_of ''b'', [1])]) []"
  by (rule signature_order_free) (auto simp: bytes_of_def)

text \<open>
  A signature does not tell a map from another one: a value that contains \<open>&\<close> and \<open>=\<close> passes for further
  entries, whatever the digest and the key.
\<close>

theorem signature_collision:
  assumes "lower (bytes_of ''amount'') = bytes_of ''amount''" "lower (bytes_of ''to'') = bytes_of ''to''"
  shows "Getsign md5_hex lower (SMap [(bytes_of ''amount'', bytes_of ''1''), (bytes_of ''to'', bytes_of ''me'')]) bizkey
    = Getsign md5_hex lower (SMap [(bytes_of ''amount'', bytes_of ''1&to=me'')]) bizkey"
  using assms by (simp add: orderParam_def sign_keys_def sort_by_def add_param_def bytes_of_def)

theorem signature_collision_witness:
  "Getsign id id (SMap [(bytes_of ''amount'', bytes_of ''1''), (bytes_of ''to'', bytes_of ''me'')]) [7]
     = Getsign id id (SMap [(bytes_of ''amount'', bytes_of ''1&to=me'')]) [7]"
  by (rule signature_collision) simp_all

section \<open>Cutting a string\<close>

text \<open>
  \<open>SubstrByByte\<close>. The bytes of the string are in a slice of capacity \<open>cap\<close>, with zeros behind them: \<open>[:length]\<close> reads
  up to there and panics beyond. The loop goes down from the end; \<open>bl\<close> counts the bytes of continuation.
\<close>

definition char_length :: "byte \<Rightarrow> nat" where
  "char_length b =
     (if b AND 252 = 252 then 6 else if b AND 248 = 248 then 5 else if b AND 240 = 240 then 4
      else if b AND 224 = 224 then 3 else 2)"

fun substr_loop :: "bytes \<Rightarrow> nat \<Rightarrow> nat \<Rightarrow> bytes" where
  "substr_loop bs 0 bl = []"
| "substr_loop bs (Suc i) bl =
     (let b = bs ! i
      in if b \<le> 127 then take (i + 1) bs
         else if b \<le> 191 then substr_loop bs i (bl + 1)
         else if b \<le> 253
         then if bl + 1 = char_length b then take (i + char_length b) bs else take i bs
         else substr_loop bs i bl)"

definition SubstrByByte :: "nat \<Rightarrow> bytes \<Rightarrow> int \<Rightarrow> bytes option" where
  "SubstrByByte cap str n =
     (if n < 0 \<or> int cap < n then None
      else let bs = take (nat n) (str @ replicate (cap - length str) 0)
           in Some (substr_loop bs (length bs) 0))"

text \<open>A character in UTF-8: a byte below 128, or a first byte that says how many bytes follow.\<close>

definition continuation :: "byte \<Rightarrow> bool" where
  "continuation b \<longleftrightarrow> 128 \<le> b \<and> b \<le> 191"

fun utf8_char :: "bytes \<Rightarrow> bool" where
  "utf8_char [a] = (a \<le> 127)"
| "utf8_char [a, b] = (a \<in> set (map of_nat [194..<224]) \<and> continuation b)"
| "utf8_char [a, b, c] = (a \<in> set (map of_nat [224..<240]) \<and> continuation b \<and> continuation c)"
| "utf8_char [a, b, c, d] =
     (a \<in> set (map of_nat [240..<245]) \<and> continuation b \<and> continuation c \<and> continuation d)"
| "utf8_char _ = False"

lemma first_bytes:
  "\<forall>a \<in> set (map of_nat [194..<224]). \<not> a \<le> 127 \<and> \<not> a \<le> 191 \<and> a \<le> 253 \<and> char_length a = 2"
  "\<forall>a \<in> set (map of_nat [224..<240]). \<not> a \<le> 127 \<and> \<not> a \<le> 191 \<and> a \<le> 253 \<and> char_length a = 3"
  "\<forall>a \<in> set (map of_nat [240..<245]). \<not> a \<le> 127 \<and> \<not> a \<le> 191 \<and> a \<le> 253 \<and> char_length a = 4"
  by code_simp+

lemma continuation_bytes: "continuation b \<Longrightarrow> \<not> b \<le> 127 \<and> b \<le> 191"
  by (auto simp: continuation_def dest: order_trans[of 128 b 127])

lemma utf8_cases:
  assumes "utf8_char c"
  obtains (ascii) a where "c = [a]" "a \<le> 127"
  | (long) a ks where "c = a # ks" "\<not> a \<le> 127" "\<not> a \<le> 191" "a \<le> 253" "char_length a = Suc (length ks)"
      "list_all continuation ks"
  using assms
proof (cases c rule: utf8_char.cases)
  case (2 a b)
  then show ?thesis using assms long[of a "[b]"] first_bytes(1)[rule_format, of a] by (simp del: set_map)
next
  case (3 a b d)
  then show ?thesis using assms long[of a "[b, d]"] first_bytes(2)[rule_format, of a] by (simp del: set_map)
next
  case (4 a b d e)
  then show ?thesis using assms long[of a "[b, d, e]"] first_bytes(3)[rule_format, of a] by (simp del: set_map)
qed (use assms ascii in auto)

lemma substr_skip:
  "list_all continuation ks \<Longrightarrow>
     substr_loop (p @ ks @ q) (length p + length ks) bl = substr_loop (p @ ks @ q) (length p) (bl + length ks)"
proof (induction ks arbitrary: q bl rule: rev_induct)
  case (snoc k ks)
  then have "substr_loop (p @ ks @ k # q) (Suc (length p + length ks)) bl
      = substr_loop (p @ ks @ k # q) (length p + length ks) (Suc bl)"
    using continuation_bytes[of k] by (simp add: Let_def nth_append)
  then show ?case using snoc by simp
qed simp

lemma substr_head:
  assumes "\<not> a \<le> 127" "\<not> a \<le> 191" "a \<le> 253" "list_all continuation ks"
  shows "substr_loop (p @ a # ks) (length (p @ a # ks)) 0 =
    (if Suc (length ks) = char_length a then p @ a # ks else p)"
  using substr_skip[of ks "p @ [a]" "[]" 0] assms by (simp add: Let_def nth_append)

lemma substr_char: "utf8_char c \<Longrightarrow> substr_loop (p @ c) (length (p @ c)) 0 = p @ c"
  by (erule utf8_cases) (simp add: Let_def, simp add: substr_head del: length_append)

lemma substr_partial:
  assumes "utf8_char c" "0 < m" "m < length c"
  shows "substr_loop (p @ take m c) (length (p @ take m c)) 0 = p"
  using assms(1)
proof (cases rule: utf8_cases)
  case (long a ks)
  then obtain m' where m: "m = Suc m'" "m' < length ks" using assms(2,3) by (cases m) auto
  have "list_all continuation (take m' ks)" using long(6) by (auto simp: list_all_iff dest: in_set_takeD)
  then show ?thesis using substr_head[of a "take m' ks" p] long m by (simp del: length_append)
qed (use assms in simp)

text \<open>Of a text in characters: how many of them fit in \<open>n\<close> bytes.\<close>

fun chars_fit :: "bytes list \<Rightarrow> nat \<Rightarrow> nat" where
  "chars_fit [] n = 0"
| "chars_fit (c # cs) n = (if length c \<le> n then Suc (chars_fit cs (n - length c)) else 0)"

lemma chars_fit_le: "chars_fit cs n \<le> length cs"
  by (induction cs n rule: chars_fit.induct) auto

lemma take_chars:
  assumes "n \<le> length (concat cs)" "\<forall>c \<in> set cs. utf8_char c"
  shows "(take n (concat cs) = concat (take (chars_fit cs n) cs)) \<or>
    (\<exists>c m. utf8_char c \<and> 0 < m \<and> m < length c \<and> take n (concat cs) = concat (take (chars_fit cs n) cs) @ take m c)"
  using assms
proof (induction cs n rule: chars_fit.induct)
  case (2 c cs n)
  show ?case
  proof (cases "length c \<le> n")
    case True
    then show ?thesis using 2 by fastforce
  next
    case False
    then have t: "take n (concat (c # cs)) = concat (take (chars_fit (c # cs) n) (c # cs)) @ take n c" by simp
    have c: "utf8_char c" "n < length c" using 2(3) False by simp_all
    show ?thesis
    proof (cases "n = 0")
      case nz: False
      show ?thesis by (intro disjI2 exI[of _ c] exI[of _ n] conjI c t) (use nz in simp)
    qed (use False in simp)
  qed
qed simp

lemma substr_chars:
  assumes "\<forall>c \<in> set cs. utf8_char c"
  shows "substr_loop (concat cs) (length (concat cs)) 0 = concat cs"
proof (cases cs rule: rev_cases)
  case (snoc ds c)
  then show ?thesis using substr_char[of c "concat ds"] assms by (simp del: length_append)
qed simp

text \<open>Past the end of the text the copy holds zero bytes, and the loop stops at the last of them.\<close>

lemma substr_beyond:
  assumes "length str < n" "n \<le> cap"
  shows "SubstrByByte cap str (int n) = Some (str @ replicate (n - length str) 0)"
proof -
  obtain m where m: "n - length str = Suc m" using assms(1) by (metis Suc_diff_Suc)
  have "take n (str @ replicate (cap - length str) 0) = (str @ replicate m 0) @ [0 :: byte]"
    using assms m by (simp add: min_absorb1 replicate_append_same)
  then show ?thesis
    using assms substr_char[of "[0]" "str @ replicate m 0"] m
    by (simp add: SubstrByByte_def Let_def replicate_append_same del: length_append substr_loop.simps)
qed

text \<open>
  C26: What \<open>SubstrByByte\<close> does with a text in UTF-8, for every number of bytes: up to the length of the text it
  gives as many whole characters as fit, and never a part of one; beyond it, it panics when the number exceeds the
  capacity of the copy it slices (or is negative), and otherwise fills the text up with zero bytes.
\<close>

theorem substr_whole_characters:
  assumes "\<forall>c \<in> set cs. utf8_char c" and "length (concat cs) \<le> cap"
  shows "SubstrByByte cap (concat cs) n =
    (if n < 0 \<or> int cap < n then None
     else if n \<le> int (length (concat cs)) then Some (concat (take (chars_fit cs (nat n)) cs))
     else Some (concat cs @ replicate (nat n - length (concat cs)) 0))"
proof -
  consider (panic) "n < 0 \<or> int cap < n" | (fits) "0 \<le> n" "n \<le> int (length (concat cs))" "\<not> int cap < n"
    | (beyond) "int (length (concat cs)) < n" "\<not> int cap < n" by linarith
  then show ?thesis
  proof cases
    case fits
    then have n: "nat n \<le> length (concat cs)" by simp
    then have "SubstrByByte cap (concat cs) n
        = Some (substr_loop (take (nat n) (concat cs)) (length (take (nat n) (concat cs))) 0)"
      using fits by (simp add: SubstrByByte_def Let_def)
    moreover have "\<forall>c \<in> set (take (chars_fit cs (nat n)) cs). utf8_char c" using assms(1) by (auto dest: in_set_takeD)
    ultimately have "SubstrByByte cap (concat cs) n = Some (concat (take (chars_fit cs (nat n)) cs))"
      using take_chars[OF n assms(1)] substr_chars substr_partial by metis
    then show ?thesis using fits by simp
  next
    case beyond
    then show ?thesis using substr_beyond[of "concat cs" "nat n" cap] by (simp add: nat_le_iff zless_nat_eq_int_zless)
  qed (simp add: SubstrByByte_def)
qed

theorem substr_whole_characters_witness:
  "SubstrByByte 8 (concat [[0x61], [0xE4, 0xB8, 0x80]]) 3 = Some [0x61] \<and>
   SubstrByByte 8 (concat [[0x61], [0xE4, 0xB8, 0x80]]) 4 = Some [0x61, 0xE4, 0xB8, 0x80] \<and>
   SubstrByByte 8 (concat [[0x61], [0xE4, 0xB8, 0x80]]) 6 = Some [0x61, 0xE4, 0xB8, 0x80, 0, 0] \<and>
   SubstrByByte 8 (concat [[0x61], [0xE4, 0xB8, 0x80]]) 9 = None"
proof -
  let ?cs = "[[0x61], [0xE4, 0xB8, 0x80]] :: bytes list"
  have "\<forall>c \<in> set ?cs. utf8_char c" by code_simp
  note cut = substr_whole_characters[OF this, of 8]
  have "length (concat ?cs) \<le> 8" by simp
  note cut = cut[OF this]
  show ?thesis using cut[of 3] cut[of 4] cut[of 6] cut[of 9] by (simp add: numeral_2_eq_2)
qed

section \<open>Lists of strings\<close>

text \<open>\<open>strings.Split\<close> for a separator that is not empty.\<close>

function (sequential) split_at :: "bytes \<Rightarrow> bytes \<Rightarrow> bytes \<Rightarrow> bytes list" where
  "split_at sep [] cur = [cur]"
| "split_at sep (b # s) cur =
     (if sep \<noteq> [] \<and> take (length sep) (b # s) = sep then cur # split_at sep (drop (length sep) (b # s)) []
      else split_at sep s (cur @ [b]))"
  by pat_completeness auto
termination
  by (relation "measure (\<lambda>(sep, s, cur). length s)") auto

definition strings_Split :: "bytes \<Rightarrow> bytes \<Rightarrow> bytes list" where
  "strings_Split s sep = split_at sep s []"

fun strings_Join :: "bytes list \<Rightarrow> bytes \<Rightarrow> bytes" where
  "strings_Join [] sep = []"
| "strings_Join [s] sep = s"
| "strings_Join (s # ss) sep = s @ sep @ strings_Join ss sep"

lemma split_at_nonempty: "split_at sep s cur \<noteq> []"
  by (induction sep s cur rule: split_at.induct) auto

lemma split_at_join: "strings_Join (split_at sep s cur) sep = cur @ s"
proof (induction sep s cur rule: split_at.induct)
  case (2 sep b s cur)
  show ?case
  proof (cases "sep \<noteq> [] \<and> take (length sep) (b # s) = sep")
    case True
    have "b # s = sep @ drop (length sep) (b # s)" using True by (metis append_take_drop_id)
    then show ?thesis using 2(1)[OF True] True split_at_nonempty by (cases "split_at sep (drop (length sep) (b # s)) []") auto
  next
    case False
    then show ?thesis using 2(2)[OF False] by auto
  qed
qed simp

definition CheckHaveSubString :: "bytes \<Rightarrow> bytes \<Rightarrow> bytes \<Rightarrow> bool" where
  "CheckHaveSubString aSourceStr aSubStr aDelimiter =
     (if aSourceStr = [] then False else list_ex (\<lambda>k. k = aSubStr) (strings_Split aSourceStr aDelimiter))"

fun StringsContains :: "bytes list \<Rightarrow> bytes \<Rightarrow> bool" where
  "StringsContains [] val = False"
| "StringsContains (a # as) val = (if a = val then True else StringsContains as val)"

lemma StringsContains_iff: "StringsContains array val \<longleftrightarrow> val \<in> set array"
  by (induction array) auto

definition WipeOutEle :: "bytes list \<Rightarrow> bytes \<Rightarrow> bytes list" where
  "WipeOutEle strs val = filter (\<lambda>ele. ele \<noteq> val) strs"

text \<open>\<open>StringList2Str\<close> puts quotes around the strings and commas between them, and changes nothing in them.\<close>

fun quoted_tail :: "bytes list \<Rightarrow> bytes" where
  "quoted_tail [] = []"
| "quoted_tail [s] = s @ [39]"
| "quoted_tail (s # ss) = s @ [39, 44, 39] @ quoted_tail ss"

definition StringList2Str :: "bytes list \<Rightarrow> bytes" where
  "StringList2Str xs = (if xs \<noteq> [] then 39 # quoted_tail xs else [])"

definition quote :: "bytes \<Rightarrow> bytes" where
  "quote s = [39] @ s @ [39]"

lemma StringList2Str_join: "StringList2Str xs = strings_Join (map quote xs) [44]"
proof (cases "xs = []")
  case False
  then have "39 # quoted_tail xs = strings_Join (map quote xs) [44]"
    by (induction xs rule: quoted_tail.induct) (auto simp: quote_def)
  then show ?thesis using False by (simp add: StringList2Str_def)
qed (simp add: StringList2Str_def)

fun format_parts :: "bytes list \<Rightarrow> bytes" where
  "format_parts [] = []"
| "format_parts (t # ts) =
     (if t \<noteq> [] then quote t @ (if ts \<noteq> [] then [44] else []) else []) @ format_parts ts"

definition FormatterStr :: "bytes \<Rightarrow> bytes" where
  "FormatterStr value = format_parts (strings_Split value [44])"

text \<open>Without empty parts the result is the list; an empty part at the end leaves a comma behind.\<close>

lemma format_parts_join: "[] \<notin> set ts \<Longrightarrow> format_parts ts = strings_Join (map quote ts) [44]"
  by (induction ts "[44] :: bytes" rule: strings_Join.induct) auto

lemma FormatterStr_join:
  "[] \<notin> set (strings_Split value [44]) \<Longrightarrow> FormatterStr value = StringList2Str (strings_Split value [44])"
  by (simp add: FormatterStr_def format_parts_join StringList2Str_join)

lemma FormatterStr_trailing: "FormatterStr (bytes_of ''1,'') = [39, 49, 39, 44]"
  by code_simp

text \<open>\<open>ListDuplicateRemoval\<close> of strings; \<open>temp\<close> is the set of those seen.\<close>

fun dedup_loop :: "bytes list \<Rightarrow> bytes set \<Rightarrow> bytes list" where
  "dedup_loop [] temp = []"
| "dedup_loop (x # xs) temp = (if x \<notin> temp then x # dedup_loop xs (insert x temp) else dedup_loop xs temp)"

definition ListDuplicateRemoval :: "bytes list \<Rightarrow> bytes list" where
  "ListDuplicateRemoval originals = dedup_loop originals {}"

lemma dedup_loop: "distinct (dedup_loop xs temp) \<and> set (dedup_loop xs temp) = set xs - temp"
  by (induction xs temp rule: dedup_loop.induct) auto

lemma ListDuplicateRemoval: "distinct (ListDuplicateRemoval xs)" "set (ListDuplicateRemoval xs) = set xs"
  by (simp_all add: ListDuplicateRemoval_def dedup_loop)

section \<open>Binary numbers\<close>

text \<open>
  \<open>DecConvertToX\<close> and \<open>TenToTwo\<close> on numbers below \<open>2 ^ 63\<close>, where the powers of two that \<open>TenToTwo\<close> takes in floating
  point are exact. The digits are collected from the lowest one up; \<open>TenToTwo\<close> goes through the string from its end.
\<close>

definition digit_char :: "nat \<Rightarrow> byte" where
  "digit_char d = of_nat (if d < 10 then 48 + d else 55 + d)"

fun conv_loop :: "nat \<Rightarrow> nat \<Rightarrow> bytes \<Rightarrow> bytes" where
  "conv_loop num n result =
     (if n = 0 \<or> num < 2 then result else conv_loop num (n div num) (digit_char (n mod num) # result))"

declare conv_loop.simps [simp del]

definition DecConvertToX :: "int \<Rightarrow> int \<Rightarrow> bytes option" where
  "DecConvertToX n num =
     (if n < 0 then None else if num \<noteq> 2 \<and> num \<noteq> 8 \<and> num \<noteq> 16 then None else Some (conv_loop (nat num) (nat n) []))"

fun two_loop :: "bytes \<Rightarrow> nat \<Rightarrow> int" where
  "two_loop [] stnum = 0"
| "two_loop (v # vs) stnum = (uint v - 48) * 2 ^ stnum + two_loop vs (stnum + 1)"

definition TenToTwo :: "bytes \<Rightarrow> int" where
  "TenToTwo two = two_loop (rev two) 0"

lemma two_loop_append: "two_loop (xs @ ys) k = two_loop xs k + two_loop ys (k + length xs)"
  by (induction xs arbitrary: k) auto

lemma TenToTwo_Cons: "TenToTwo (d # ds) = (uint d - 48) * 2 ^ length ds + TenToTwo ds"
  by (simp add: TenToTwo_def two_loop_append)

lemma digit_char_2: "uint (digit_char (n mod 2)) - 48 = int (n mod 2)"
proof -
  have "n mod 2 = 0 \<or> n mod 2 = 1" by auto
  then show ?thesis by (auto simp: digit_char_def)
qed

lemma conv_loop_value: "num = 2 \<Longrightarrow> TenToTwo (conv_loop num n r) = int n * 2 ^ length r + TenToTwo r"
proof (induction num n r rule: conv_loop.induct)
  case (1 num n r)
  show ?case
  proof (cases "n = 0")
    case False
    have "int n = 2 * int (n div 2) + int (n mod 2)" by (metis mult_div_mod_eq of_nat_add of_nat_mult of_nat_numeral)
    then show ?thesis
      using 1 False by (subst conv_loop.simps) (simp add: TenToTwo_Cons digit_char_2 algebra_simps)
  qed (use 1 in \<open>simp add: conv_loop.simps\<close>)
qed

text \<open>Reading back the binary digits of a number; those of 0 are the empty string.\<close>

lemma binary_roundtrip: "0 \<le> n \<Longrightarrow> map_option TenToTwo (DecConvertToX n 2) = Some n"
  by (simp add: DecConvertToX_def conv_loop_value) (simp add: TenToTwo_def)

lemma DecConvertToX_0: "DecConvertToX 0 2 = Some []"
  by (simp add: DecConvertToX_def conv_loop.simps)

section \<open>Pages\<close>

text \<open>Go's division truncates towards zero; \<open>count\<close> is not negative. \<open>None\<close> is the panic of a page size of 0.\<close>

definition go_div :: "int \<Rightarrow> int \<Rightarrow> int" where
  "go_div a b = (if b < 0 then - (a div (- b)) else a div b)"

definition GetPageDTO :: "int \<Rightarrow> int \<Rightarrow> nat \<Rightarrow> (int \<times> int \<times> int \<times> int) option" where
  "GetPageDTO page pageSize n =
     (if pageSize = 0 then None
      else let count = int n;
               totalPage = (if count mod \<bar>pageSize\<bar> = 0 then go_div count pageSize else go_div count pageSize + 1);
               startIndex = (page - 1) * pageSize;
               endIndex = startIndex + pageSize;
               endIndex = (if count < endIndex then count else endIndex)
           in Some (count, totalPage, startIndex, endIndex))"

text \<open>The pages from the first to the last cover a list without gap or overlap.\<close>

lemma page_bounds:
  assumes "0 < pageSize" "GetPageDTO page pageSize n = Some (c, t, a, b)" "1 \<le> page" "page \<le> t"
  shows "0 \<le> a \<and> a < b \<and> b \<le> c \<and> b - a \<le> pageSize \<and> (page < t \<longrightarrow> b = a + pageSize) \<and> (page = t \<longrightarrow> b = c)"
proof -
  define q r where "q = int n div pageSize" and "r = int n mod pageSize"
  have n: "int n = q * pageSize + r" "0 \<le> r" "r < pageSize"
    using assms(1) by (simp_all add: q_def r_def)
  have v: "c = int n" "t = (if r = 0 then q else q + 1)" "a = (page - 1) * pageSize"
    "b = (if int n < a + pageSize then int n else a + pageSize)"
    using assms(1,2) by (auto simp: GetPageDTO_def Let_def go_div_def q_def r_def)
  have p: "a + pageSize = page * pageSize" by (simp add: v(3) algebra_simps)
  have a0: "0 \<le> a" using assms(1,3) by (simp add: v(3))
  show ?thesis
  proof (cases "page \<le> q")
    case True
    then have "page * pageSize \<le> q * pageSize" using assms(1) by (simp add: mult_right_mono)
    then have "b = a + pageSize" using n(1,2) p by (simp add: v(4))
    moreover have "page = t \<Longrightarrow> r = 0 \<and> page = q" using True by (simp add: v(2) split: if_splits)
    moreover have "a + pageSize \<le> c" using \<open>page * pageSize \<le> q * pageSize\<close> n(1,2) p v(1) by linarith
    ultimately show ?thesis using a0 assms(1) n p v(1) by auto
  next
    case False
    then have t: "page = q + 1" "r \<noteq> 0" using assms(4) by (auto simp: v(2) split: if_splits)
    then have "a = q * pageSize" by (simp add: v(3))
    then show ?thesis using a0 n t v(1,2,4) by auto
  qed
qed

section \<open>Periods of a day\<close>

text \<open>A time is what \<open>Format("15:04:05")\<close> shows of it: two digits each for hour, minute and second.\<close>

record clock_time =
  hour :: nat
  minute :: nat
  sec :: nat

definition two_digits :: "nat \<Rightarrow> bytes" where
  "two_digits n = [of_nat (48 + n div 10), of_nat (48 + n mod 10)]"

definition format_time :: "clock_time \<Rightarrow> bytes" where
  "format_time t = two_digits (hour t) @ [58] @ two_digits (minute t) @ [58] @ two_digits (sec t)"

definition IsMatchTime :: "clock_time option \<Rightarrow> clock_time option \<Rightarrow> clock_time option \<Rightarrow> bool" where
  "IsMatchTime t startTime endTime =
     (case t of
        None \<Rightarrow> False
      | Some t \<Rightarrow>
        (let searchTime = format_time t;
             startPeriodtTime = (case startTime of None \<Rightarrow> [] | Some s \<Rightarrow> format_time s);
             endPeriodTime = (case endTime of None \<Rightarrow> [] | Some e \<Rightarrow> format_time e)
         in if startPeriodtTime = []
            then if endPeriodTime = [] then True else str_le searchTime endPeriodTime
            else if endPeriodTime = [] then str_le startPeriodtTime searchTime
            else if str_le startPeriodtTime endPeriodTime
            then str_le startPeriodtTime searchTime \<and> str_le searchTime endPeriodTime
            else (str_le startPeriodtTime searchTime \<and> str_le searchTime (bytes_of ''23:59:59''))
                   \<or> (str_le (bytes_of ''00:00:00'') searchTime \<and> str_le searchTime endPeriodTime)))"

definition valid_time :: "clock_time \<Rightarrow> bool" where
  "valid_time t \<longleftrightarrow> hour t < 24 \<and> minute t < 60 \<and> sec t < 60"

definition seconds_of_day :: "clock_time \<Rightarrow> nat" where
  "seconds_of_day t = hour t * 3600 + minute t * 60 + sec t"

lemma unat_digit: "i < 10 \<Longrightarrow> unat (of_nat (48 + i) :: byte) = 48 + i"
  by (subst unat_of_nat) simp

lemma digit_less: "i < 10 \<Longrightarrow> j < 10 \<Longrightarrow> ((of_nat (48 + i) :: byte) < of_nat (48 + j)) = (i < j)"
  by (simp only: word_less_nat_alt unat_digit) simp

lemma digit_eq: "i < 10 \<Longrightarrow> j < 10 \<Longrightarrow> ((of_nat (48 + i) :: byte) = of_nat (48 + j)) = (i = j)"
  by (simp only: word_unat_eq_iff unat_digit) simp

lemma digits_less:
  fixes q q' r r' :: nat
  shows "r < 10 \<Longrightarrow> r' < 10 \<Longrightarrow> (10 * q + r < 10 * q' + r') = (q < q' \<or> q = q' \<and> r < r')"
  by (cases q q' rule: linorder_cases) simp_all

lemma str_le_two_digits:
  assumes "a < 100" "b < 100"
  shows "str_le (two_digits a @ s) (two_digits b @ t) = (a < b \<or> a = b \<and> str_le s t)"
proof -
  have d: "a div 10 < 10" "b div 10 < 10" "a mod 10 < 10" "b mod 10 < 10" using assms by simp_all
  have "str_le (two_digits a @ s) (two_digits b @ t) =
      (a div 10 < b div 10 \<or> a div 10 = b div 10 \<and> (a mod 10 < b mod 10 \<or> a mod 10 = b mod 10 \<and> str_le s t))"
    by (simp only: two_digits_def append_Cons append_Nil str_le.simps digit_less[OF d(1,2)] digit_less[OF d(3,4)]
        digit_eq[OF d(1,2)] digit_eq[OF d(3,4)])
  also have "\<dots> = (a < b \<or> a = b \<and> str_le s t)"
  proof -
    have "a < b \<longleftrightarrow> a div 10 < b div 10 \<or> a div 10 = b div 10 \<and> a mod 10 < b mod 10"
      using digits_less[of "a mod 10" "b mod 10" "a div 10" "b div 10"] by simp
    moreover have "a = b \<longleftrightarrow> a div 10 = b div 10 \<and> a mod 10 = b mod 10"
      by (metis mult_div_mod_eq)
    ultimately show ?thesis by blast
  qed
  finally show ?thesis .
qed

lemma format_time_le:
  assumes "valid_time s" "valid_time t"
  shows "str_le (format_time s) (format_time t) = (seconds_of_day s \<le> seconds_of_day t)"
proof -
  have "str_le (two_digits (sec s)) (two_digits (sec t)) = (sec s \<le> sec t)"
    using str_le_two_digits[of "sec s" "sec t" "[]" "[]"] assms by (auto simp: valid_time_def)
  then have "str_le (format_time s) (format_time t) =
      (hour s < hour t \<or> hour s = hour t \<and> (minute s < minute t \<or> minute s = minute t \<and> sec s \<le> sec t))"
    using assms by (simp add: format_time_def valid_time_def str_le_two_digits)
  also have "\<dots> = (seconds_of_day s \<le> seconds_of_day t)"
  proof -
    have v: "minute s < 60" "minute t < 60" "sec s < 60" "sec t < 60" using assms by (simp_all add: valid_time_def)
    show ?thesis unfolding seconds_of_day_def
      by (cases "hour s" "hour t" rule: linorder_cases; cases "minute s" "minute t" rule: linorder_cases)
        (use v in linarith)+
  qed
  finally show ?thesis .
qed

text \<open>
  For valid times \<open>IsMatchTime\<close> compares the seconds of the day: a period that ends before it starts goes over
  midnight, and a missing end is open.
\<close>

theorem match_time_period:
  assumes "valid_time t" "\<forall>s \<in> set_option startTime \<union> set_option endTime. valid_time s"
  shows "IsMatchTime (Some t) startTime endTime =
    (case (startTime, endTime) of
       (None, None) \<Rightarrow> True
     | (None, Some e) \<Rightarrow> seconds_of_day t \<le> seconds_of_day e
     | (Some s, None) \<Rightarrow> seconds_of_day s \<le> seconds_of_day t
     | (Some s, Some e) \<Rightarrow>
         if seconds_of_day s \<le> seconds_of_day e
         then seconds_of_day s \<le> seconds_of_day t \<and> seconds_of_day t \<le> seconds_of_day e
         else seconds_of_day s \<le> seconds_of_day t \<or> seconds_of_day t \<le> seconds_of_day e)"
proof -
  have b: "bytes_of ''23:59:59'' = format_time \<lparr>hour = 23, minute = 59, sec = 59\<rparr>"
    "bytes_of ''00:00:00'' = format_time \<lparr>hour = 0, minute = 0, sec = 0\<rparr>"
    by code_simp+
  have "str_le (format_time t) (bytes_of ''23:59:59'')" "str_le (bytes_of ''00:00:00'') (format_time t)"
    using assms(1) unfolding b by (subst format_time_le; auto simp: valid_time_def seconds_of_day_def)+
  moreover have "format_time s \<noteq> []" for s by (simp add: format_time_def two_digits_def)
  ultimately show ?thesis
    using assms by (auto simp: IsMatchTime_def Let_def format_time_le split: option.split)
qed

theorem match_time_period_witness:
  "IsMatchTime (Some \<lparr>hour = 1, minute = 30, sec = 0\<rparr>) (Some \<lparr>hour = 22, minute = 0, sec = 0\<rparr>)
     (Some \<lparr>hour = 2, minute = 0, sec = 0\<rparr>)"
  by (subst match_time_period) (simp_all add: valid_time_def seconds_of_day_def)

end
