(* ===== verification/Rabbit.thy ===== *)
theory Rabbit imports Prelude begin

text \<open>
  \<open>net/rabbitmq\<close> and \<open>net/alirabbit\<close>, which differ in the URL only: a producer and a consumer that watch their
  connection and connect again. The broker behind \<open>amqp\<close> is a record of functions of the history of what the
  package has done, so that any behaviour of it is one of these functions; connections, channels and notification
  channels are numbers.
\<close>

section \<open>The library and the connection\<close>

record RabbitConfig =
  Username :: bytes
  Password :: bytes
  Host :: bytes
  Port :: int
  Vhost :: bytes

record RabbitConsumerInfo =
  ExchangeName :: bytes
  ExchangeType :: bytes
  QueueName :: bytes

datatype rabbit_task = InitProducer RabbitConfig | InitConsumer RabbitConfig | Consuming nat

text \<open>
  An event: a connection or a channel is opened or closed; a notification channel is registered for the end of a
  connection or of a channel; the request to close is taken; a task is handed to the pool; a wait; a message.
\<close>

datatype rabbit_event =
    Dialled bytes nat
  | ConnClosed nat
  | Opened nat nat
  | ChanClosed nat
  | WatchesConn nat nat
  | WatchesChan nat nat
  | NotifyClosed nat
  | NotifySent nat
  | CloseTaken
  | Submitted rabbit_task
  | Rested
  | Declared nat RabbitConsumerInfo
  | Published nat bytes bytes bytes

type_synonym rabbit_history = "rabbit_event list"

text \<open>
  What the select of a loop receives: an end of the connection or of the channel, with an error or without, or the
  request to close. A receive from a notification channel gets a value, or finds it closed, or waits for ever; a
  send is taken, or meets a closed channel, which is a panic, or waits for ever.
\<close>

datatype selected = ConnEnded "bytes option" | ChanEnded "bytes option" | CloseAsked

datatype received_value = GotValue | FoundClosed | NothingComes

datatype sent_value = Taken | WasClosed | NobodyTakes

record broker =
  amqp_Dial :: "rabbit_history \<Rightarrow> bytes \<Rightarrow> bytes + nat"
  open_Channel :: "rabbit_history \<Rightarrow> nat \<Rightarrow> bytes + nat"
  conn_IsClosed :: "rabbit_history \<Rightarrow> nat \<Rightarrow> bool"
  selects :: "rabbit_history \<Rightarrow> selected"
  receives :: "rabbit_history \<Rightarrow> nat \<Rightarrow> received_value"
  sends :: "rabbit_history \<Rightarrow> nat \<Rightarrow> sent_value"
  gets_closed :: "rabbit_history \<Rightarrow> nat \<Rightarrow> bool"
  declares :: "rabbit_history \<Rightarrow> nat \<Rightarrow> RabbitConsumerInfo \<Rightarrow> bytes option"
  consumes :: "rabbit_history \<Rightarrow> nat \<Rightarrow> RabbitConsumerInfo \<Rightarrow> bytes + nat"
  publishes :: "rabbit_history \<Rightarrow> nat \<Rightarrow> bytes \<Rightarrow> bytes \<Rightarrow> bytes \<Rightarrow> bytes option"

text \<open>
  \<open>Connection\<close>. \<open>CloseProcess\<close> is nil, or the number of values in its buffer of one; \<open>next_notify\<close> numbers the
  notification channels.
\<close>

record rabbit_connection =
  rc_Conn :: "nat option"
  rc_Ch :: "nat option"
  ConnNotifyClose :: nat
  ChNotifyClose :: nat
  rc_URL :: bytes
  Rabbit :: RabbitConfig
  CloseProcess :: "nat option"
  RabbitConsumerList :: "RabbitConsumerInfo list"
  RabbitProducerMap :: "(bytes \<times> bytes) list"
  rc_history :: rabbit_history
  next_notify :: nat

definition happens :: "rabbit_event \<Rightarrow> rabbit_connection \<Rightarrow> rabbit_connection" where
  "happens e c = c\<lparr>rc_history := rc_history c @ [e]\<rparr>"

text \<open>A round of a loop goes on, ends, waits for ever or panics.\<close>

datatype round = Again rabbit_connection | Over rabbit_connection | WaitsForever rabbit_connection | Panics rabbit_connection

definition watch :: "rabbit_connection \<Rightarrow> round" where
  "watch c =
     (case (rc_Conn c, rc_Ch c) of
        (Some conn, Some ch) \<Rightarrow>
          (let n = next_notify c
           in Again (happens (WatchesChan ch (n + 1)) (happens (WatchesConn conn n)
                (c\<lparr>ConnNotifyClose := n, ChNotifyClose := n + 1, next_notify := n + 2\<rparr>))))
      | _ \<Rightarrow> Panics c)"

section \<open>The producer\<close>

definition close_if_open :: "broker \<Rightarrow> rabbit_connection \<Rightarrow> rabbit_connection" where
  "close_if_open B c =
     (case rc_Conn c of
        None \<Rightarrow> c
      | Some conn \<Rightarrow> if conn_IsClosed B (rc_history c) conn then c else happens (ConnClosed conn) c)"

text \<open>The end of a loop that hands its restart to the pool, once the notification of the connection is read.\<close>

definition hand_over :: "broker \<Rightarrow> rabbit_task \<Rightarrow> rabbit_connection \<Rightarrow> round" where
  "hand_over B task c =
     (case receives B (rc_history c) (ConnNotifyClose c) of
        NothingComes \<Rightarrow> WaitsForever c
      | GotValue \<Rightarrow> Over (happens (Submitted task) (happens (NotifyClosed (ConnNotifyClose c)) c))
      | FoundClosed \<Rightarrow> Over (happens (Submitted task) c))"

definition drain :: "broker \<Rightarrow> nat \<Rightarrow> rabbit_connection \<Rightarrow> round" where
  "drain B n c = (if gets_closed B (rc_history c) n then Again c else WaitsForever c)"

definition take_request :: "rabbit_connection \<Rightarrow> rabbit_connection" where
  "take_request c = happens CloseTaken (c\<lparr>CloseProcess := Some 0\<rparr>)"

text \<open>The three cases of the select.\<close>

definition on_conn_ended :: "broker \<Rightarrow> rabbit_connection \<Rightarrow> round" where
  "on_conn_ended B c =
     (let c = close_if_open B c
      in case amqp_Dial B (rc_history c) (rc_URL c) of
           Inl err \<Rightarrow> hand_over B (InitProducer (Rabbit c)) c
         | Inr conn \<Rightarrow>
             (let c = happens (Dialled (rc_URL c) conn) c;
                  c = (case open_Channel B (rc_history c) conn of
                         Inl _ \<Rightarrow> c\<lparr>rc_Ch := None\<rparr>
                       | Inr ch \<Rightarrow> happens (Opened conn ch) (c\<lparr>rc_Ch := Some ch\<rparr>))
              in drain B (ConnNotifyClose c) (c\<lparr>rc_Conn := Some conn\<rparr>)))"

definition on_chan_ended :: "broker \<Rightarrow> nat \<Rightarrow> rabbit_connection \<Rightarrow> round" where
  "on_chan_ended B conn c =
     (if \<not> conn_IsClosed B (rc_history c) conn
      then case open_Channel B (rc_history c) conn of
             Inl err \<Rightarrow>
               (case sends B (rc_history c) (ChNotifyClose c) of
                  WasClosed \<Rightarrow> Panics c
                | NobodyTakes \<Rightarrow> WaitsForever c
                | Taken \<Rightarrow> drain B (ChNotifyClose c) (happens (NotifySent (ChNotifyClose c)) c))
           | Inr ch \<Rightarrow> drain B (ChNotifyClose c) (happens (Opened conn ch) (c\<lparr>rc_Ch := Some ch\<rparr>))
      else hand_over B (InitProducer (Rabbit c)) c)"

definition producer_round :: "broker \<Rightarrow> rabbit_connection \<Rightarrow> round" where
  "producer_round B c =
     (case watch c of
        Again c \<Rightarrow>
          (case selects B (rc_history c) of
             ConnEnded e \<Rightarrow> on_conn_ended B c
           | ChanEnded e \<Rightarrow> on_chan_ended B (the (rc_Conn c)) c
           | CloseAsked \<Rightarrow> Over (take_request c))
      | r \<Rightarrow> r)"

text \<open>\<open>ProducerReConnect\<close>: rounds until one is the last. A loop that goes on for ever has no result.\<close>

partial_function (option) ProducerReConnect :: "broker \<Rightarrow> rabbit_connection \<Rightarrow> round option" where
  "ProducerReConnect B c =
     (case producer_round B c of
        Again c \<Rightarrow> ProducerReConnect B c
      | r \<Rightarrow> Some r)"

definition rabbit_url :: "RabbitConfig \<Rightarrow> bytes" where
  "rabbit_url r = bytes_of ''amqp://'' @ Username r @ bytes_of '':'' @ Password r @ bytes_of ''@'' @ Host r
     @ bytes_of '':'' @ itoa (Port r) @ bytes_of ''/''"

definition ali_url :: "RabbitConfig \<Rightarrow> bytes" where
  "ali_url r = rabbit_url r @ Vhost r"

text \<open>
  The request to the old loop. The channel for it is nil before the first start, and a send then waits for ever, as
  it does while a request is in the buffer.
\<close>

definition ask_close :: "bool \<Rightarrow> rabbit_connection \<Rightarrow> rabbit_connection option" where
  "ask_close isClose c =
     (if isClose then (if CloseProcess c = Some 0 then Some (c\<lparr>CloseProcess := Some 1\<rparr>) else None) else Some c)"

text \<open>
  \<open>InitRabbitMQProducer\<close>: \<open>url\<close> is how the package makes the URL. The deferred calls close the channel and the
  connection of this start when the loop is over.
\<close>

definition start_producer :: "(RabbitConfig \<Rightarrow> bytes) \<Rightarrow> broker \<Rightarrow> bool \<Rightarrow> RabbitConfig \<Rightarrow> rabbit_connection \<Rightarrow> round option" where
  "start_producer url B isClose cfg c =
     (case ask_close isClose c of
        None \<Rightarrow> Some (WaitsForever c)
      | Some c \<Rightarrow>
        (let c = c\<lparr>Rabbit := cfg\<rparr>
         in case amqp_Dial B (rc_history c) (url cfg) of
              Inl err \<Rightarrow> Some (Over (happens (Submitted (InitProducer (Rabbit c))) (happens Rested c)))
            | Inr conn \<Rightarrow>
              (let c = happens (Dialled (url cfg) conn) c
               in case open_Channel B (rc_history c) conn of
                    Inl err \<Rightarrow> Some (Over (happens (ConnClosed conn) c))
                  | Inr ch \<Rightarrow>
                    (let c = (happens (Opened conn ch) c)\<lparr>rc_Conn := Some conn, rc_URL := url cfg, rc_Ch := Some ch,
                           CloseProcess := Some 0\<rparr>
                     in case ProducerReConnect B c of
                          Some (Over c) \<Rightarrow> Some (Over (happens (ConnClosed conn) (happens (ChanClosed ch) c)))
                        | r \<Rightarrow> r))))"


definition ali_InitRabbitMQProducer :: "broker \<Rightarrow> bool \<Rightarrow> RabbitConfig \<Rightarrow> rabbit_connection \<Rightarrow> round option" where
  "ali_InitRabbitMQProducer = start_producer ali_url"

section \<open>Messages\<close>

text \<open>
  A message is wrapped with its queue; \<open>marshal\<close> is \<open>json.Marshal\<close> of a \<open>DLXMessage\<close>. What is published is exchange,
  routing key and body. The delay of \<open>SendAutoCancelOrderMessage\<close> is in milliseconds, on 64 bits.
\<close>

record DLXMessage =
  msg_QueueName :: bytes
  msg_Content :: bytes
  msg_NotifyCount :: int

definition CancelOrderDelayQueue :: bytes where
  "CancelOrderDelayQueue = bytes_of ''soesoft.cancel.order.delay.queue''"

definition DelayExchange :: bytes where
  "DelayExchange = bytes_of ''soesoft.delay.exchange''"

definition publish_on :: "broker \<Rightarrow> bytes \<Rightarrow> bytes \<Rightarrow> bytes \<Rightarrow> rabbit_connection \<Rightarrow> (bytes option \<times> rabbit_connection) option" where
  "publish_on B exchange key body c =
     (case rc_Ch c of
        None \<Rightarrow> None
      | Some ch \<Rightarrow>
        (case publishes B (rc_history c) ch exchange key body of
           Some err \<Rightarrow> Some (Some err, c)
         | None \<Rightarrow> Some (None, happens (Published ch exchange key body) c)))"

definition x_delay :: "int \<Rightarrow> 64 word" where
  "x_delay autoCancelTime = word_of_int autoCancelTime * 60 * 1000"

definition SendAutoCancelOrderMessage :: "(DLXMessage \<Rightarrow> bytes) \<Rightarrow> broker \<Rightarrow> bytes \<Rightarrow> int \<Rightarrow> rabbit_connection
    \<Rightarrow> (64 word \<times> bytes option \<times> rabbit_connection) option" where
  "SendAutoCancelOrderMessage marshal B body autoCancelTime c =
     (let m = \<lparr>msg_QueueName = CancelOrderDelayQueue, msg_Content = body, msg_NotifyCount = 1\<rparr>
      in map_option (Pair (x_delay autoCancelTime)) (publish_on B DelayExchange CancelOrderDelayQueue (marshal m) c))"

definition SendMessage :: "(DLXMessage \<Rightarrow> bytes) \<Rightarrow> broker \<Rightarrow> bytes \<Rightarrow> bytes \<Rightarrow> rabbit_connection \<Rightarrow> rabbit_connection option" where
  "SendMessage marshal B body queueName c =
     (if RabbitProducerMap c = [] then Some c
      else if queueName = [] then Some c
      else let exchangeName = (case map_of (RabbitProducerMap c) queueName of None \<Rightarrow> [] | Some e \<Rightarrow> e)
           in if exchangeName = [] then Some c
              else let m = \<lparr>msg_QueueName = queueName, msg_Content = body, msg_NotifyCount = 1\<rparr>
                   in map_option snd (publish_on B exchangeName queueName (marshal m) c))"

section \<open>The consumer\<close>

text \<open>
  \<open>CreateRabbitMQConsumer\<close>: for each consumer a channel, its exchange, its queue and their binding (\<open>declares\<close>), and
  the deliveries, which a task of the pool handles. The first error ends it; its text is only logged, and the prefix
  that the code gives it is left out.
\<close>

fun create_consumers :: "broker \<Rightarrow> nat \<Rightarrow> RabbitConsumerInfo list \<Rightarrow> rabbit_connection \<Rightarrow> bytes option \<times> rabbit_connection" where
  "create_consumers B conn [] c = (None, c)"
| "create_consumers B conn (v # vs) c =
     (case open_Channel B (rc_history c) conn of
        Inl err \<Rightarrow> (Some err, c\<lparr>rc_Ch := None\<rparr>)
      | Inr ch \<Rightarrow>
        (let c = happens (Opened conn ch) (c\<lparr>rc_Ch := Some ch\<rparr>)
         in case declares B (rc_history c) ch v of
              Some err \<Rightarrow> (Some err, c)
            | None \<Rightarrow>
              (let c = happens (Declared ch v) c
               in case consumes B (rc_history c) ch v of
                    Inl err \<Rightarrow> (Some err, c)
                  | Inr messages \<Rightarrow> create_consumers B conn vs (happens (Submitted (Consuming messages)) c))))"

definition no_consumers_text :: bytes where
  "no_consumers_text = [0xE6, 0xB6, 0x88, 0xE8, 0xB4, 0xB9, 0xE8, 0x80, 0x85, 0xE4, 0xBF, 0xA1, 0xE6, 0x81, 0xAF, 0xE4,
      0xB8, 0x8D, 0xE8, 0x83, 0xBD, 0xE4, 0xB8, 0xBA, 0xE7, 0xA9, 0xBA]"

definition CreateRabbitMQConsumer :: "broker \<Rightarrow> rabbit_connection \<Rightarrow> bytes option \<times> rabbit_connection" where
  "CreateRabbitMQConsumer B c =
     (if RabbitConsumerList c = [] then (Some no_consumers_text, c)
      else create_consumers B (the (rc_Conn c)) (RabbitConsumerList c) c)"

text \<open>\<open>ConsumerReConnect\<close> has no second round: each case of its select ends the loop.\<close>

definition ConsumerReConnect :: "broker \<Rightarrow> rabbit_connection \<Rightarrow> round" where
  "ConsumerReConnect B c =
     (case watch c of
        Again c \<Rightarrow>
          (case selects B (rc_history c) of
             ConnEnded e \<Rightarrow> hand_over B (InitConsumer (Rabbit c)) (close_if_open B c)
           | ChanEnded e \<Rightarrow> hand_over B (InitConsumer (Rabbit c)) (close_if_open B c)
           | CloseAsked \<Rightarrow> Over (take_request c))
      | r \<Rightarrow> r)"

definition start_consumer :: "(RabbitConfig \<Rightarrow> bytes) \<Rightarrow> broker \<Rightarrow> bool \<Rightarrow> RabbitConfig \<Rightarrow> rabbit_connection \<Rightarrow> round" where
  "start_consumer url B isClose cfg c =
     (case ask_close isClose c of
        None \<Rightarrow> WaitsForever c
      | Some c \<Rightarrow>
        (let c = c\<lparr>Rabbit := cfg\<rparr>
         in case amqp_Dial B (rc_history c) (url cfg) of
              Inl err \<Rightarrow> Over (happens (Submitted (InitConsumer (Rabbit c))) (happens Rested c))
            | Inr conn \<Rightarrow>
              (let c = (happens (Dialled (url cfg) conn) c)\<lparr>rc_Conn := Some conn\<rparr>
               in case CreateRabbitMQConsumer B c of
                    (Some err, c) \<Rightarrow> Over (happens (ConnClosed conn) c)
                  | (None, c) \<Rightarrow>
                    (case ConsumerReConnect B (c\<lparr>rc_URL := url cfg, CloseProcess := Some 0\<rparr>) of
                       Over c \<Rightarrow> Over (happens (ConnClosed conn) c)
                     | r \<Rightarrow> r))))"

definition InitRabbitMQConsumer :: "broker \<Rightarrow> bool \<Rightarrow> RabbitConfig \<Rightarrow> rabbit_connection \<Rightarrow> round" where
  "InitRabbitMQConsumer = start_consumer rabbit_url"

definition ali_InitRabbitMQConsumer :: "broker \<Rightarrow> bool \<Rightarrow> RabbitConfig \<Rightarrow> rabbit_connection \<Rightarrow> round" where
  "ali_InitRabbitMQConsumer = start_consumer ali_url"

section \<open>How a producer ends\<close>

text \<open>What every step keeps: the history grows, and the configuration stays.\<close>

definition goes_on :: "rabbit_connection \<Rightarrow> rabbit_connection \<Rightarrow> bool" where
  "goes_on c c' \<longleftrightarrow> Rabbit c' = Rabbit c \<and> (\<exists>es. rc_history c' = rc_history c @ es)"







lemma goes_on_fields [simp]:
  "goes_on c (c'\<lparr>rc_Conn := a\<rparr>) = goes_on c c'" "goes_on c (c'\<lparr>rc_Ch := b\<rparr>) = goes_on c c'"
  "goes_on c (c'\<lparr>CloseProcess := p\<rparr>) = goes_on c c'" "goes_on c (c'\<lparr>rc_URL := u\<rparr>) = goes_on c c'"
  "goes_on c (c'\<lparr>ConnNotifyClose := n, ChNotifyClose := m, next_notify := k\<rparr>) = goes_on c c'"
  by (simp_all add: goes_on_def)





lemma hand_over_not_Again: "hand_over B t c \<noteq> Again c'"
  by (simp add: hand_over_def split: received_value.split)
















section \<open>A connection without a channel\<close>

text \<open>
  After an end of the connection the producer connects again and drops the error of the new channel: if that
  cannot be opened, the next round watches a channel that is nil, and panics.
\<close>

lemma failed_channel_panics:
  assumes "watch c = Again c1" "selects B (rc_history c1) = ConnEnded e"
    and "\<And>h u. \<exists>conn. amqp_Dial B h u = Inr conn" "\<And>h conn. \<exists>err. open_Channel B h conn = Inl err" "\<And>h n. gets_closed B h n"
  shows "\<exists>c'. ProducerReConnect B c = Some (Panics c')"
proof -
  obtain conn where d: "amqp_Dial B (rc_history (close_if_open B c1)) (rc_URL (close_if_open B c1)) = Inr conn"
    using assms(3) by blast
  define c2 where "c2 = happens (Dialled (rc_URL (close_if_open B c1)) conn) (close_if_open B c1)"
  obtain err where "open_Channel B (rc_history c2) conn = Inl err" using assms(4) by blast
  then have "producer_round B c = Again (c2\<lparr>rc_Ch := None, rc_Conn := Some conn\<rparr>)"
    using assms(1,2,5) d by (simp add: producer_round_def on_conn_ended_def Let_def drain_def flip: c2_def)
  moreover have "producer_round B (c2\<lparr>rc_Ch := None, rc_Conn := Some conn\<rparr>) = Panics (c2\<lparr>rc_Ch := None, rc_Conn := Some conn\<rparr>)"
    by (simp add: producer_round_def watch_def)
  ultimately show ?thesis by (simp add: ProducerReConnect.simps)
qed

text \<open>The consumer's loop is over after one round, or waits for ever, or panics.\<close>

lemma consumer_once: "ConsumerReConnect B c \<noteq> Again c'"
  by (simp add: ConsumerReConnect_def hand_over_not_Again split: round.split selected.split)

end
