(* ===== verification/Spec2Isabelle.thy ===== *)
theory Spec2Isabelle imports Props_Message Props_Topics Props_Sessions Props_Buffer Props_Service Props_Des Props_Wheel
  Bitmaps Key_Lock Props_Ants Props_Zip Props_Http Task_Pools Text_Helpers Rabbit begin

text \<open>
  soelib is a collection of Go packages. This development models those with logic of their own: the MQTT 3.1.1
  broker and client \<open>tools/surgemq\<close>, the reader and writer of Zip archives \<open>tools/zip\<close>, the worker pool \<open>tools/ants\<close>,
  the timing wheel \<open>tools/lucslot\<close>, the HTTP client \<open>net/soehttp\<close>, the RabbitMQ producers and consumers, timed tasks
  and the simple pool, and of \<open>common/\<close> the DES of \<open>des/\<close>, the bitmaps, the key lock and helpers for strings.

  \<open>tools/surgemq\<close> consists of the packet codec (\<open>message/\<close>), the store of
  subscriptions and retained messages (\<open>topics/\<close>), the sessions with their queues of unacknowledged
  packets (\<open>sessions/\<close>), the ring buffers between a connection and its service, the processing of packets,
  and the server and the client on top of them (\<open>service/\<close>, \<open>auth/\<close>).

  How its parts work together. A connection has a service. Its goroutine \<open>receiver\<close> fills the incoming ring buffer
  from the network, \<open>processor\<close> cuts packets out of it, decodes them and acts on them, and \<open>sender\<close> empties the
  outgoing ring buffer, into which any service may write through \<open>writeMessage\<close>. A SUBSCRIBE enters the address of
  the service's own \<open>publish\<close> in the subscription tree; a PUBLISH looks the tree up and calls what it finds; the
  packets of QoS 1 and 2, SUBSCRIBE and UNSUBSCRIBE wait in the session's queues for their acknowledgements.

  Theories.

  \<^item> \<open>Prelude\<close>, \<open>Go_Slices\<close>: results of Go functions that return an error, and slices as bytes in use with the
    spare capacity behind them, so that what Go reads beyond a slice is in the model. A panic is \<^const>\<open>None\<close>.
  \<^item> \<open>Msg_Base\<close>, \<open>Msg_Header\<close>, \<open>Msg_Ack\<close>, \<open>Msg_Connack\<close>, \<open>Msg_Publish\<close>, \<open>Msg_Subscribe\<close>,
    \<open>Msg_Unsubscribe\<close>, \<open>Msg_Connect\<close>, \<open>Msg_Message\<close>: \<open>message/*.go\<close>, one theory to a family of packets. A
    packet is a record that extends the one of \<open>header\<close>, as the structs embed one another; a field that is a slice
    into the packet's buffer is an offset into it, so that setters write through. \<open>Msg_Codec\<close> states what a
    codec promises (locales \<open>codec\<close> and \<open>buffer_codec\<close>), interpreted for each of the fourteen packets.
  \<^item> \<open>Topics_Levels\<close>, \<open>Topics_Subs\<close>, \<open>Topics_Retained\<close>, \<open>Topics_Mem\<close>, \<open>Topics_Manager\<close>:
    \<open>topics/*.go\<close>. The trees are datatypes, abstracted to the table of the entries under each filter; \<open>Topics_Mem\<close>
    states the contract of the provider (a locale) and interprets it on the trees.
  \<^item> \<open>Sess_Pow2\<close>, \<open>Sess_Ackqueue\<close>, \<open>Sess_Ackring\<close>, \<open>Sess_Ackstore\<close>, \<open>Sess_Session\<close>, \<open>Sess_Manager\<close>:
    \<open>sessions/*.go\<close>. The queue is a growing ring with a map from identifiers to slots, abstracted to the list of
    its entries; the locale \<open>ack_store\<close> is what the service needs of it.
  \<^item> \<open>Svc_Buffer\<close>: \<open>service/buffer.go\<close>, every operation up to its end or to the \<open>Wait\<close> in which it sleeps, with
    the continuation after the wake-up; an operation that meets a locked mutex is \<open>Stuck\<close>. \<open>Svc_Ring\<close> interleaves
    one producer and one consumer and proves the invariant of the pair; \<open>Svc_Fifo\<close> states the bounded queue of
    bytes it amounts to (locale \<open>byte_fifo\<close>) and interprets it.
  \<^item> \<open>Svc_World\<close>: \<open>auth/*.go\<close> and the state of \<open>service.go\<close>; one record holds the services, the connections, the
    stores and the calls of user callbacks. \<open>Svc_Sendrecv\<close>: \<open>sendrecv.go\<close> and \<open>misc.go\<close>. \<open>Svc_Process\<close>:
    \<open>process.go\<close> and the sending operations of \<open>service.go\<close>. \<open>Svc_Server\<close>: \<open>start\<close>, \<open>stop\<close> and the goroutines,
    \<open>server.go\<close> and \<open>client.go\<close>.
  \<^item> \<open>Svc_Frames\<close>, \<open>Svc_Traffic\<close>, \<open>Svc_Deliver\<close>, \<open>Svc_Qos2\<close>, \<open>Svc_Handshake\<close>: the lemmas on packets in
    the buffers, on delivery, on the receiving side of QoS 2, and on the two ends of a service's life.
  \<^item> \<open>Des_Bits\<close>, \<open>Des_Standard\<close>, \<open>Des_Power\<close>, \<open>Des_Equiv\<close>, \<open>Des_Text\<close>, \<open>Des_Ecb\<close>: \<open>common/des\<close>. \<open>Des_Standard\<close> is
    FIPS 46-3 on words, \<open>Des_Power\<close> the code of \<open>soedes.go\<close> on slices of zeros and ones, \<open>Des_Equiv\<close> their
    equivalence, \<open>Des_Text\<close> the two directions of the text operations, \<open>Des_Ecb\<close> the operations of \<open>des.go\<close>.
  \<^item> \<open>Wheel\<close>, \<open>Wheel_Calendar\<close>: \<open>tools/lucslot\<close>. A second of the wheel and the run of its closure in the
    pool are separate steps, as the code has them; the calendar is the abstract machine that the wheel refines.
  \<^item> \<open>Bitmaps\<close>: \<open>common/bitmap\<close> and \<open>common/utils/bitmap.go\<close>. \<open>Key_Lock\<close>: \<open>common/keylock\<close>, threads with program
    counters that share the map of locks. Their properties stand in the same theories.
  \<^item> \<open>Task_Pools\<close>: \<open>tools/task\<close> and \<open>tools/pool\<close>. \<open>Text_Helpers\<close>: signatures, strings, binary numbers and periods of
    \<open>common/utils\<close>. \<open>Rabbit\<close>: \<open>net/rabbitmq\<close> and \<open>net/alirabbit\<close>, a round of a loop that watches a connection as one
    function of what the library \<open>amqp\<close> answers. The properties of each stand in it.
  \<^item> \<open>Ants_Pool\<close>, \<open>Ants_Runs\<close>, \<open>Ants_Global\<close>: \<open>tools/ants\<close>: the pool with its counters and health records, tasks as
    values that wait and run, histories of operations, and the package's own pool and monitor.
  \<^item> \<open>Zip_Bytes\<close>, \<open>Zip_Header\<close>, \<open>Zip_Keys\<close>, \<open>Zip_Ctr\<close>: little-endian buffers, \<open>struct.go\<close>, the cipher of \<open>zipcrypto.go\<close> and
    the counter mode of \<open>crypto.go\<close>. \<open>Zip_Writer\<close>: \<open>writer.go\<close> with the layers of encryption and a destination that
    may fail. \<open>Zip_Reader\<close>, \<open>Zip_Open\<close>: \<open>reader.go\<close>; a reader is the list of what its \<open>Read\<close>s return.
    \<open>Zip_Layout\<close> and \<open>Zip_Archive\<close> show which bytes a session of the writer leaves, \<open>Zip_Readback\<close> that the reader finds
    its directory there, \<open>Zip_Content\<close> that each file opens to its content, \<open>Zip_Guards\<close> what is checked on the way.
  \<^item> \<open>Http_Base\<close>: the values of \<open>net/soehttp\<close>, \<open>errors.go\<close>, and the code outside as a record of functions of the
    history of events. \<open>Http_Retry\<close>: the attempts of a request, with the locale \<open>retry_loop\<close>.
    \<open>Http_Client\<close>: \<open>tracing.go\<close>, \<open>circuit_breaker.go\<close>, the variables of the package, error responses and the breaker. \<open>Http_Remote\<close>:
    \<open>soehttp.go\<close>; \<open>Http_Service\<close>: \<open>service_client.go\<close>; both interpret \<open>retry_loop\<close>. \<open>Http_Program\<close>: histories of operations.
  \<^item> \<open>Props_Message\<close>, \<open>Props_Topics\<close>, \<open>Props_Sessions\<close>, \<open>Props_Buffer\<close>, \<open>Props_Service\<close>, \<open>Props_Des\<close>, \<open>Props_Wheel\<close>,
    \<open>Props_Ants\<close>, \<open>Props_Zip\<close>, \<open>Props_Http\<close>: the properties, with witnesses at concrete values.

  What the properties show. Every packet that a Go program can build and send decodes to the same packet, and a
  decoded packet is forwarded byte for byte. \<open>Subscribers\<close> and \<open>Retained\<close> return exactly what the MQTT filters say, but
  for the deviations proved beside them (a filter that ends in the multi-level wildcard leaves out its parent). The queues of a session lose, repeat and reorder nothing. The ring
  buffer gives the consumer the producer's bytes in order under every interleaving. Packets cross a buffer in
  order; a QoS 0 PUBLISH reaches every matching subscription, a QoS 2 PUBLISH is released once however often it is
  repeated; nobody gets a service without the authenticator's consent.

  An archive that the writer closes is read back: the reader lists its files in their order with their attributes, and
  each opens to the bytes that went in, whatever the pieces, the method and the encryption, and in the midst of
  another file; bytes that fail the authentication or the sum are not passed on as good. The DES of \<open>soedes.go\<close> is the
  standard's, and its text operations undo one another up to what the coding in GBK and the zeros of the padding lose.
  What the reader of archives lists are the records of the directory, for any bytes at all. The wheel runs a task in its
  second, once, as a calendar would, if the pool takes every visit in time; what happens otherwise is proved too. A bitmap is a set of offsets. At most
  one thread holds a key. The counters of the pool add up over every history. A request over HTTP makes the attempts
  its configuration allows and no other, with the credentials of its own call; both kinds of client do the same.
  Some properties state what the code does
  where that is not what it should do: panics on short strings, stale bytes in CONNACK, locks that are kept, a
  client that dies of its own PING, retries that have lost their body, a breaker whose error takes the place of the
  others, archives that cannot hold every mode and year, cuts of a text beyond its end.

  Bounds and termination. Machine integers have their Go width; lengths and positions of the ring buffer are \<open>int\<close>,
  which the code keeps below \<open>2 ^ 63\<close> in any run that ends. Every loop of the code is a recursive function proved
  to terminate, except \<open>processor_loop\<close> and \<open>ProducerReConnect\<close>, which run until a connection ends and are
  \<open>partial_function (option)\<close>; no
  definition uses fuel. The theorems on archives ask for less than \<open>2 ^ 63\<close> bytes in all, the range of a Go offset.

  Simplifications of the model. An operation on the stores or on a queue is one step, as its mutex makes
  it; so is the processing of one packet, in which Go could interleave another service's deliveries between
  two writes. The views that \<open>ReadPeek\<close> and \<open>ReadWait\<close> give are read when the packet is decoded: nothing keeps
  a reference into the incoming buffer once a packet is processed, since the queues, the trees and the outgoing
  buffers copy. Maps whose iteration order Go leaves
  open are association lists.

  Parameters, for code that is not in the repository: AES, HMAC-SHA1 and PBKDF2, the compressors other than \<open>Store\<close>,
  and the coding of GBK; for HTTP the server, the breaker hystrix, the tracer, mapstructure, and of the standard
  library JSON, MD5, \<open>strings.ToLower\<close> and the parsing of URLs; the library \<open>amqp\<close>. The theorems that use them name what they need of them: the lengths of what they return,
  and that a decompressor undoes its compressor. Maps, slices, DES, CRC-32, hexadecimal and base 64 of the standard
  library are modelled.

  Not modelled. In \<open>surgemq\<close>: \<open>ListenAndServe\<close>, \<open>GetClients\<close> and the network itself, whose reads and writes are
  arguments; deadlines; printing. In \<open>zip\<close>: the file of \<open>OpenReader\<close> and the pool of flate writers. In \<open>soehttp\<close>: logging, and a
  configuration that its owner changes after a client was made of it. Elsewhere: the
  TCP, gRPC, MQTT (\<open>emqtt\<close>) and Kafka clients (\<open>net/\<close>), the SQL Server dialect (\<open>pkg/\<close>) and the database,
  configuration, logging, registration and token helpers (\<open>common/\<close>), which call libraries that are not in the
  repository or format dates and strings.
\<close>

end
